(* ===== verification/Prelude.thy ===== *)
theory Prelude
  imports Main "HOL-Library.Word" "HOL-Library.Char_ord" "HOL-Library.List_Lexorder"
    "HOL-Library.Multiset"
begin

text \<open>
  Shared vocabulary of the development: Rust results as sums, the \<open>?\<close> operator as
  \<open>and_then\<close>, loops that may fail as \<open>try_fold\<close>, the checked and saturating
  arithmetic of \<open>u64\<close> on \<open>nat\<close>, slices of byte vectors, and \<open>BTreeMap\<close> as a
  strictly sorted association list behind the interface \<open>ordered_map\<close>.
\<close>

section \<open>Collections of facts\<close>

named_theorems result_simps \<open>evaluation of results\<close>
named_theorems core_defs \<open>definitions unfolded to evaluate the planner\<close>

section \<open>Bytes and results\<close>

type_synonym u8 = "8 word"
type_synonym bytes = "u8 list"

abbreviation Ok :: "'a \<Rightarrow> 'e + 'a" where "Ok \<equiv> Inr"
abbreviation Err :: "'e \<Rightarrow> 'e + 'a" where "Err \<equiv> Inl"

definition and_then :: "'e + 'a \<Rightarrow> ('a \<Rightarrow> 'e + 'b) \<Rightarrow> 'e + 'b" where
  "and_then r k = (case r of Err e \<Rightarrow> Err e | Ok a \<Rightarrow> k a)"

definition ok_or :: "'a option \<Rightarrow> 'e \<Rightarrow> 'e + 'a" where
  "ok_or x e = (case x of None \<Rightarrow> Err e | Some a \<Rightarrow> Ok a)"

definition ensure :: "bool \<Rightarrow> 'e \<Rightarrow> 'e + unit" where
  "ensure b e = (if b then Ok () else Err e)"

definition map_err :: "('e \<Rightarrow> 'f) \<Rightarrow> 'e + 'a \<Rightarrow> 'f + 'a" where
  "map_err f r = (case r of Err e \<Rightarrow> Err (f e) | Ok a \<Rightarrow> Ok a)"

fun try_fold :: "('s \<Rightarrow> 'a \<Rightarrow> 'e + 's) \<Rightarrow> 's \<Rightarrow> 'a list \<Rightarrow> 'e + 's" where
  "try_fold f s [] = Ok s"
| "try_fold f s (x # xs) = and_then (f s x) (\<lambda>s'. try_fold f s' xs)"

fun try_map :: "('a \<Rightarrow> 'e + 'b) \<Rightarrow> 'a list \<Rightarrow> 'e + 'b list" where
  "try_map f [] = Ok []"
| "try_map f (x # xs) = and_then (f x) (\<lambda>y. and_then (try_map f xs) (\<lambda>ys. Ok (y # ys)))"

lemma and_then_simps [simp, result_simps]:
  "and_then (Err e) k = Err e" "and_then (Ok a) k = k a"
  by (simp_all add: and_then_def)

lemma and_then_cong [fundef_cong]:
  "r = r' \<Longrightarrow> (\<And>a. r' = Ok a \<Longrightarrow> k a = k' a) \<Longrightarrow> and_then r k = and_then r' k'"
  by (cases r') auto

lemma and_then_Ok_iff [simp]:
  "and_then r k = Ok b \<longleftrightarrow> (\<exists>a. r = Ok a \<and> k a = Ok b)"
  by (cases r) auto

lemma and_then_Err_iff:
  "and_then r k = Err e \<longleftrightarrow> r = Err e \<or> (\<exists>a. r = Ok a \<and> k a = Err e)"
  by (cases r) auto

lemma ok_or_simps [simp, result_simps]:
  "ok_or None e = Err e" "ok_or (Some a) e = Ok a"
  by (simp_all add: ok_or_def)

lemma ok_or_Ok_iff [simp]: "ok_or x e = Ok a \<longleftrightarrow> x = Some a"
  by (cases x) auto

lemma ensure_simps [simp, result_simps]:
  "ensure True e = Ok ()" "ensure False e = Err e"
  by (simp_all add: ensure_def)

lemma ensure_Ok_iff [simp]: "ensure b e = Ok u \<longleftrightarrow> b"
  by (cases b) auto

lemma map_err_simps [simp, result_simps]:
  "map_err f (Err e) = Err (f e)" "map_err f (Ok a) = Ok a"
  by (simp_all add: map_err_def)

lemma map_err_Ok_iff [simp]: "map_err f r = Ok a \<longleftrightarrow> r = Ok a"
  by (cases r) auto

lemma try_fold_append:
  "try_fold f s (xs @ ys) = and_then (try_fold f s xs) (\<lambda>s'. try_fold f s' ys)"
proof (induction xs arbitrary: s)
  case (Cons x xs)
  then show ?case by (cases "f s x") auto
qed simp

text \<open>The invariant rule for loops: a property kept by every successful step holds at the end.\<close>

lemma try_fold_invariant:
  assumes "try_fold f s xs = Ok t" and "I s"
    and "\<And>s x s'. x \<in> set xs \<Longrightarrow> I s \<Longrightarrow> f s x = Ok s' \<Longrightarrow> I s'"
  shows "I t"
  using assms by (induction xs arbitrary: s) auto

lemma try_map_Ok_iff:
  "try_map f xs = Ok ys \<longleftrightarrow> list_all2 (\<lambda>x y. f x = Ok y) xs ys"
  by (induction xs arbitrary: ys) (auto simp: list_all2_Cons1)

section \<open>Unsigned 64-bit arithmetic on natural numbers\<close>

text \<open>
  \<open>u64\<close> and, on the qualified 64-bit platforms, \<open>usize\<close> are natural numbers of at
  most \<open>u64_max\<close>; every operation of the source that can leave that range is one of the
  checked or saturating operations below.
\<close>

definition u64_max :: nat where
  "u64_max = 18446744073709551615"

definition checked_add_u64 :: "nat \<Rightarrow> nat \<Rightarrow> nat option" where
  "checked_add_u64 a b = (if a + b \<le> u64_max then Some (a + b) else None)"

definition checked_mul_u64 :: "nat \<Rightarrow> nat \<Rightarrow> nat option" where
  "checked_mul_u64 a b = (if a * b \<le> u64_max then Some (a * b) else None)"

definition checked_sub_u64 :: "nat \<Rightarrow> nat \<Rightarrow> nat option" where
  "checked_sub_u64 a b = (if b \<le> a then Some (a - b) else None)"

definition saturating_add_u64 :: "nat \<Rightarrow> nat \<Rightarrow> nat" where
  "saturating_add_u64 a b = min (a + b) u64_max"

definition saturating_mul_u64 :: "nat \<Rightarrow> nat \<Rightarrow> nat" where
  "saturating_mul_u64 a b = min (a * b) u64_max"

lemma u64_max_pow: "u64_max = 2 ^ 64 - 1"
  by (simp add: u64_max_def)

lemma checked_add_u64_Some_iff [simp]:
  "checked_add_u64 a b = Some c \<longleftrightarrow> c = a + b \<and> a + b \<le> u64_max"
  by (auto simp: checked_add_u64_def)

lemma checked_mul_u64_Some_iff [simp]:
  "checked_mul_u64 a b = Some c \<longleftrightarrow> c = a * b \<and> a * b \<le> u64_max"
  by (auto simp: checked_mul_u64_def)

lemma checked_sub_u64_Some_iff [simp]:
  "checked_sub_u64 a b = Some c \<longleftrightarrow> c = a - b \<and> b \<le> a"
  by (auto simp: checked_sub_u64_def)

lemma saturating_add_u64_exact: "a + b \<le> u64_max \<Longrightarrow> saturating_add_u64 a b = a + b"
  by (simp add: saturating_add_u64_def)

section \<open>Slices\<close>

definition slice :: "'a list \<Rightarrow> nat \<Rightarrow> nat \<Rightarrow> 'a list" where
  "slice xs i j = take (j - i) (drop i xs)"

definition get_slice :: "'a list \<Rightarrow> nat \<Rightarrow> nat \<Rightarrow> 'a list option" where
  "get_slice xs i j = (if i \<le> j \<and> j \<le> length xs then Some (slice xs i j) else None)"

definition get_nth :: "'a list \<Rightarrow> nat \<Rightarrow> 'a option" where
  "get_nth xs i = (if i < length xs then Some (xs ! i) else None)"

lemma get_slice_Some_iff [simp]:
  "get_slice xs i j = Some ys \<longleftrightarrow> i \<le> j \<and> j \<le> length xs \<and> ys = slice xs i j"
  by (auto simp: get_slice_def)

lemma get_nth_Some_iff [simp]: "get_nth xs i = Some y \<longleftrightarrow> i < length xs \<and> y = xs ! i"
  by (auto simp: get_nth_def)

lemma length_slice [simp]: "j \<le> length xs \<Longrightarrow> length (slice xs i j) = j - i"
  by (simp add: slice_def)

lemma slice_empty [simp]: "j \<le> i \<Longrightarrow> slice xs i j = []"
  by (simp add: slice_def)

lemma slice_full: "slice xs 0 (length xs) = xs"
  by (simp add: slice_def)

lemma slice_conv_nth: "j \<le> length xs \<Longrightarrow> slice xs i j = map ((!) xs) [i..<j]"
  by (rule nth_equalityI) (auto simp: slice_def)

lemma slice_append_adjacent:
  assumes "i \<le> j" "j \<le> k"
  shows "slice xs i j @ slice xs j k = slice xs i k"
proof -
  have "slice xs i k = take (j - i) (slice xs i k) @ drop (j - i) (slice xs i k)"
    by simp
  also have "take (j - i) (slice xs i k) = slice xs i j"
    using assms by (simp add: slice_def min_def)
  also have "drop (j - i) (slice xs i k) = slice xs j k"
    using assms by (simp add: slice_def drop_take)
  finally show ?thesis by simp
qed

lemma set_slice_subset: "set (slice xs i j) \<subseteq> set xs"
  unfolding slice_def by (meson order_trans set_drop_subset set_take_subset)

lemma concat_map_singleton_if:
  "concat (map (\<lambda>i. if P i then [f i] else []) xs) = map f (filter P xs)"
  by (induction xs) auto

section \<open>Big-endian integers and text\<close>

text \<open>\<open>to_be_bytes\<close> of a \<open>w\<close>-byte unsigned integer, and the bytes of a string.\<close>

definition be_bytes :: "nat \<Rightarrow> nat \<Rightarrow> bytes" where
  "be_bytes w v = map (\<lambda>i. of_nat (v div 256 ^ i)) (rev [0..<w])"

fun from_be_bytes :: "bytes \<Rightarrow> nat" where
  "from_be_bytes [] = 0"
| "from_be_bytes (b # bs) = unat b * 256 ^ length bs + from_be_bytes bs"

definition as_bytes :: "string \<Rightarrow> bytes" where
  "as_bytes s = map (\<lambda>c. of_nat (of_char c)) s"

definition text_of :: "bytes \<Rightarrow> string" where
  "text_of bs = map (\<lambda>b. char_of (unat b)) bs"

lemma as_bytes_text_of [simp]: "as_bytes (text_of bs) = bs"
proof (induction bs)
  case (Cons b bs)
  have "unat b < 256" using unsigned_less[of b] by simp
  then show ?case using Cons by (simp add: as_bytes_def text_of_def)
qed (simp add: as_bytes_def text_of_def)

lemma length_be_bytes [simp]: "length (be_bytes w v) = w"
  by (simp add: be_bytes_def)

lemma be_bytes_Suc: "be_bytes (Suc w) v = of_nat (v div 256 ^ w) # be_bytes w v"
  by (simp add: be_bytes_def)

lemma unat_of_nat_u8: "unat (of_nat n :: u8) = n mod 256"
  by (simp add: unat_of_nat)

lemma from_be_bytes_be_bytes: "from_be_bytes (be_bytes w v) = v mod 256 ^ w"
proof (induction w)
  case 0
  then show ?case by (simp add: be_bytes_def)
next
  case (Suc w)
  have "v mod 256 ^ Suc w = v div 256 ^ w mod 256 * 256 ^ w + v mod 256 ^ w"
    using mod_mult2_eq[of v "256 ^ w" 256] by (simp add: mult.commute)
  with Suc show ?case by (simp add: be_bytes_Suc unat_of_nat_u8)
qed

lemma be_bytes_eq_iff:
  "v < 256 ^ w \<Longrightarrow> v' < 256 ^ w \<Longrightarrow> be_bytes w v = be_bytes w v' \<longleftrightarrow> v = v'"
  by (metis from_be_bytes_be_bytes mod_less)

lemma length_as_bytes [simp]: "length (as_bytes s) = length s"
  by (simp add: as_bytes_def)

lemma as_bytes_inject [simp]: "as_bytes s = as_bytes t \<longleftrightarrow> s = t"
proof
  have inj: "c = d" if "(of_nat (of_char c) :: u8) = of_nat (of_char d)" for c d :: char
  proof -
    have "of_char c mod 256 = (of_char d mod 256 :: nat)"
      using that by (metis unat_of_nat_u8)
    then have "of_char c = (of_char d :: nat)" by simp
    then show ?thesis by simp
  qed
  have inj_byte: "inj (\<lambda>c :: char. of_nat (of_char c) :: u8)"
    by (rule injI) (rule inj)
  show "as_bytes s = as_bytes t \<Longrightarrow> s = t"
    unfolding as_bytes_def inj_map_eq_map[OF inj_byte] .
qed simp

section \<open>Ordered maps\<close>

text \<open>
  \<open>BTreeMap\<close> as an association list in strictly increasing key order: \<open>bt_get\<close> is
  \<open>get\<close>, \<open>bt_put\<close> is \<open>insert\<close> (the previous value, when the source uses it, is read
  with \<open>bt_get\<close> first), and the iteration order of the source is the order of the list.
\<close>

type_synonym ('k, 'v) btree = "('k \<times> 'v) list"

definition bt_get :: "('k, 'v) btree \<Rightarrow> 'k \<Rightarrow> 'v option" where
  "bt_get m k = map_of m k"

fun bt_put :: "'k::linorder \<Rightarrow> 'v \<Rightarrow> ('k, 'v) btree \<Rightarrow> ('k, 'v) btree" where
  "bt_put k v [] = [(k, v)]"
| "bt_put k v (e # m) =
     (if fst e < k then e # bt_put k v m
      else if fst e = k then (k, v) # m
      else (k, v) # e # m)"

definition bt_sorted :: "('k::linorder, 'v) btree \<Rightarrow> bool" where
  "bt_sorted m = sorted_wrt (<) (map fst m)"

locale ordered_map =
  fixes empty :: 'm
    and get :: "'m \<Rightarrow> 'k::linorder \<Rightarrow> 'v option"
    and put :: "'k \<Rightarrow> 'v \<Rightarrow> 'm \<Rightarrow> 'm"
    and entries :: "'m \<Rightarrow> ('k \<times> 'v) list"
    and invar :: "'m \<Rightarrow> bool"
  assumes empty_invar: "invar empty"
    and empty_get: "get empty k = None"
    and put_invar: "invar m \<Longrightarrow> invar (put k v m)"
    and get_put: "get (put k v m) j = (if j = k then Some v else get m j)"
    and entries_get: "invar m \<Longrightarrow> (k, v) \<in> set (entries m) \<longleftrightarrow> get m k = Some v"
    and entries_sorted: "invar m \<Longrightarrow> sorted_wrt (<) (map fst (entries m))"
begin

lemma entries_distinct: "invar m \<Longrightarrow> distinct (map fst (entries m))"
  using entries_sorted strict_sorted_iff by blast

lemma fold_put_invar: "invar m \<Longrightarrow> invar (fold (\<lambda>x. put (f x) (g x)) xs m)"
  by (induction xs arbitrary: m) (auto intro: put_invar)

lemma values_of_keys:
  "invar m \<Longrightarrow> x \<in> set (map snd (entries m)) \<longleftrightarrow> (\<exists>k. get m k = Some x)"
  using entries_get by force

end

lemma set_bt_put: "fst ` set (bt_put k v m) = insert k (fst ` set m)"
  by (induction m) auto

lemma bt_sorted_put: "bt_sorted m \<Longrightarrow> bt_sorted (bt_put k v m)"
proof (induction m)
  case (Cons e m)
  have "fst e < x" if "x \<in> fst ` set (bt_put k v m)" "fst e < k" for x
    using that Cons.prems by (auto simp: set_bt_put bt_sorted_def)
  with Cons show ?case
    by (auto simp: bt_sorted_def set_bt_put[symmetric])
qed (simp add: bt_sorted_def)

lemma bt_get_put: "bt_get (bt_put k v m) j = (if j = k then Some v else bt_get m j)"
  by (induction m) (auto simp: bt_get_def)

lemma bt_sorted_distinct: "bt_sorted m \<Longrightarrow> distinct (map fst m)"
  unfolding bt_sorted_def using strict_sorted_iff by blast

interpretation bt: ordered_map "[]" bt_get bt_put "\<lambda>m. m" bt_sorted
proof unfold_locales
  fix m :: "('k::linorder, 'v) btree" and k v
  assume "bt_sorted m"
  then show "(k, v) \<in> set m \<longleftrightarrow> bt_get m k = Some v"
    by (simp add: bt_get_def bt_sorted_distinct)
next
  show "bt_sorted []" by (simp add: bt_sorted_def)
  show "bt_get [] k = None" for k :: "'k::linorder" by (simp add: bt_get_def)
qed (simp_all add: bt_get_put bt_sorted_put bt_sorted_def[symmetric])

end
