(* ===== verification/Domain.thy ===== *)
theory Domain
  imports Prelude
begin

text \<open>
  The immutable domain contracts of \<open>srcmv-core\<close> (\<open>crates/srcmv-core/src/lib.rs\<close>):
  batches of move and copy operations, workspace snapshots, resolved operations, segment
  recipes, budgets and the typed core errors. Structures are records, enumerations are
  datatypes with the source's constructors; \<open>u64\<close> fields are natural numbers and
  \<open>[u8; 32]\<close> digests are byte lists. \<open>String\<close> values are character lists holding the
  UTF-8 bytes of the Rust string, so that \<open>len\<close> and the ordering of paths are those of
  the source.
\<close>

section \<open>Paths, digests and identities\<close>

datatype WorkspaceRelativePath = WorkspaceRelativePath (path_value: string)

instantiation WorkspaceRelativePath :: linorder
begin

definition less_eq_WorkspaceRelativePath ::
    "WorkspaceRelativePath \<Rightarrow> WorkspaceRelativePath \<Rightarrow> bool" where
  "less_eq_WorkspaceRelativePath p q \<longleftrightarrow> path_value p \<le> path_value q"

definition less_WorkspaceRelativePath ::
    "WorkspaceRelativePath \<Rightarrow> WorkspaceRelativePath \<Rightarrow> bool" where
  "less_WorkspaceRelativePath p q \<longleftrightarrow> path_value p < path_value q"

instance
  by standard
    (auto simp: less_eq_WorkspaceRelativePath_def less_WorkspaceRelativePath_def
      WorkspaceRelativePath.expand)

end

type_synonym Sha256Digest = bytes
type_synonym PlanDigest = Sha256Digest
type_synonym SnapshotFileId = nat

definition HEX :: string where
  "HEX = ''0123456789abcdef''"

definition to_prefixed_hex :: "Sha256Digest \<Rightarrow> string" where
  "to_prefixed_hex d =
     ''sha256:'' @ concat (map (\<lambda>byte.
       [HEX ! unat (drop_bit 4 byte), HEX ! unat (and byte 15)]) d)"

record FileIdentity =
  fi_device :: nat
  fi_inode :: nat

section \<open>Requests\<close>

datatype Precondition = Sha256 Sha256Digest | MustNotExist

datatype Selector = Lines nat nat | Bytes nat nat

datatype Anchor = FileStart | FileEnd | BeforeLine nat | AfterLine nat | ByteOffset nat

record SourceSelection =
  ss_path :: WorkspaceRelativePath
  ss_selector :: Selector
  ss_precondition :: Precondition

record Destination =
  de_path :: WorkspaceRelativePath
  de_anchor :: Anchor
  de_precondition :: Precondition

record OperationSpecification =
  os_source :: SourceSelection
  os_destination :: Destination

datatype Operation = MoveOp OperationSpecification | CopyOp OperationSpecification

record BatchSpecification =
  bs_operations :: "Operation list"

section \<open>Snapshots\<close>

record ByteRange =
  range_start :: nat
  range_end :: nat

record LineIndex =
  boundaries :: "nat list"

record FileSnapshot =
  fs_id :: SnapshotFileId
  fs_path :: WorkspaceRelativePath
  fs_parent_identity :: FileIdentity
  fs_parent_identities :: "FileIdentity list"
  fs_identity :: FileIdentity
  fs_link_count :: nat
  fs_bytes :: bytes
  fs_digest :: Sha256Digest
  fs_line_index :: LineIndex

record AbsentPathSnapshot =
  ap_path :: WorkspaceRelativePath
  ap_parent_identity :: FileIdentity
  ap_parent_identities :: "FileIdentity list"
  ap_basename :: string

record WorkspaceSnapshot =
  ws_workspace_identity :: FileIdentity
  ws_files :: "FileSnapshot list"
  ws_absent_paths :: "AbsentPathSnapshot list"

section \<open>Plans\<close>

datatype OperationKind = Move | Copy

datatype OperationEffect = Changed | NoOp

record ResolvedOperation =
  ro_operation_index :: nat
  ro_kind :: OperationKind
  ro_source_path :: WorkspaceRelativePath
  ro_selector :: Selector
  ro_source_precondition :: Precondition
  ro_source_range :: ByteRange
  ro_selected_digest :: Sha256Digest
  ro_destination_path :: WorkspaceRelativePath
  ro_anchor :: Anchor
  ro_destination_precondition :: Precondition
  ro_destination_offset :: nat
  ro_effect :: OperationEffect

datatype OutputChange = Unchanged | ModifiedExisting | CreatedNew | EmptiedExisting

datatype OutputSegment =
    OriginalSlice SnapshotFileId ByteRange
  | PayloadSlice nat SnapshotFileId ByteRange Sha256Digest

record PlannedOutput =
  po_path :: WorkspaceRelativePath
  po_original_digest :: "Sha256Digest option"
  po_change :: OutputChange
  po_resulting_length :: nat
  po_resulting_digest :: Sha256Digest
  po_segments :: "OutputSegment list"

record PlanningUsage =
  pu_maximum_output_bytes :: nat
  pu_total_output_bytes :: nat
  pu_maximum_output_segments :: nat
  pu_total_segments :: nat
  pu_changed_targets :: nat
  pu_projected_response_bytes :: nat
  pu_planning_memory_bytes :: nat

record EditPlan =
  ep_operations :: "ResolvedOperation list"
  ep_outputs :: "PlannedOutput list"
  ep_usage :: PlanningUsage
  ep_digest :: PlanDigest

record ResourceBudget =
  rb_operations :: nat
  rb_operation_paths :: nat
  rb_snapshot_bytes :: nat
  rb_resulting_bytes_per_output :: nat
  rb_planned_output_bytes :: nat
  rb_segments_per_output :: nat
  rb_segments :: nat
  rb_changed_targets :: nat
  rb_projected_response_bytes :: nat
  rb_planning_memory_bytes :: nat

definition default_resource_budget :: ResourceBudget where
  "default_resource_budget = \<lparr>
     rb_operations = 1000,
     rb_operation_paths = 1000,
     rb_snapshot_bytes = 1024 * 1024 * 1024,
     rb_resulting_bytes_per_output = 512 * 1024 * 1024,
     rb_planned_output_bytes = 1024 * 1024 * 1024,
     rb_segments_per_output = 100000,
     rb_segments = 250000,
     rb_changed_targets = 100,
     rb_projected_response_bytes = 16 * 1024 * 1024,
     rb_planning_memory_bytes = 2 * 1024 * 1024 * 1024\<rparr>"

definition default_planning_usage :: PlanningUsage where
  "default_planning_usage = \<lparr>
     pu_maximum_output_bytes = 0,
     pu_total_output_bytes = 0,
     pu_maximum_output_segments = 0,
     pu_total_segments = 0,
     pu_changed_targets = 0,
     pu_projected_response_bytes = 0,
     pu_planning_memory_bytes = 0\<rparr>"

datatype CoreError =
    InvalidDomainValue string
  | EditConflict string "nat option"
  | HardLinkNotSupported WorkspaceRelativePath nat
  | ResourceLimitExceeded string nat nat

section \<open>Digest spelling\<close>

lemma length_HEX [simp]: "length HEX = 16"
  by (simp add: HEX_def)

lemma unat_high_nibble: "unat (drop_bit 4 (b :: u8)) = unat b div 16"
  by (simp add: drop_bit_eq_div unat_div)

lemma unat_low_nibble: "unat (and (b :: u8) 15) = unat b mod 16"
proof -
  have "and b 15 = take_bit 4 b"
    by (simp add: take_bit_eq_mask mask_eq_exp_minus_1)
  then show ?thesis
    by (simp add: take_bit_eq_mod unat_mod)
qed

lemma unat_u8_lt: "unat (b :: u8) < 256"
  using unsigned_less [of b] by simp

lemma u8_nibbles: "of_nat (unat (b :: u8) div 16 * 16 + unat b mod 16) = b"
  by (simp only: div_mult_mod_eq) simp

lemma length_to_prefixed_hex [simp]:
  "length (to_prefixed_hex d) = 7 + 2 * length d"
  by (induction d) (auto simp: to_prefixed_hex_def)

end
