(* ===== verification/Line_Metrics.thy ===== *)
theory Line_Metrics
  imports Domain
begin

text \<open>
  Line boundaries and line metrics (\<open>crates/srcmv-core/src/line_metrics.rs\<close>). LF, CRLF
  and lone CR terminate a line. The scanning loop \<open>next_terminator_end\<close>, the compact
  index built by \<open>from_bytes_with_limits\<close>, the queries on it, and the composable
  \<open>LineMetrics\<close> are translated as written; the reference definition they are proved
  against is \<open>split_lines\<close>, the list of logical lines with their terminators.
\<close>

section \<open>Model\<close>

abbreviation CR :: u8 where "CR \<equiv> 13"
abbreviation LF :: u8 where "LF \<equiv> 10"

definition is_terminator_byte :: "u8 \<Rightarrow> bool" where
  "is_terminator_byte byte \<longleftrightarrow> byte = CR \<or> byte = LF"

definition line_limit_overflow :: "string \<Rightarrow> CoreError" where
  "line_limit_overflow resource = ResourceLimitExceeded resource u64_max (u64_max - 1)"

definition enforce_line_limit :: "string \<Rightarrow> nat \<Rightarrow> nat \<Rightarrow> CoreError + unit" where
  "enforce_line_limit resource actual limit =
     (if limit < actual then Err (ResourceLimitExceeded resource actual limit) else Ok ())"

text \<open>The result and the new value of the \<open>&mut usize\<close> argument.\<close>

function next_terminator_end :: "bytes \<Rightarrow> nat \<Rightarrow> nat option \<times> nat" where
  "next_terminator_end bytes offset =
     (if offset < length bytes then
        (if bytes ! offset = CR \<and> get_nth bytes (offset + 1) = Some LF
         then (Some (offset + 2), offset + 2)
         else if bytes ! offset = CR \<or> bytes ! offset = LF
         then (Some (offset + 1), offset + 1)
         else next_terminator_end bytes (offset + 1))
      else (None, offset))"
  by pat_completeness auto
termination
  by (relation "measure (\<lambda>(bytes, offset). length bytes - offset)") auto

declare next_terminator_end.simps [simp del]

definition push_line_boundary ::
    "nat list \<Rightarrow> nat \<Rightarrow> nat \<Rightarrow> nat \<Rightarrow> CoreError + nat list" where
  "push_line_boundary bnds boundary maximum_lines maximum_memory_bytes =
     (let next_line_count = saturating_add_u64 (min (length bnds) u64_max) 1;
          next_memory = saturating_mul_u64 next_line_count 8
      in and_then (enforce_line_limit ''line_count'' next_line_count maximum_lines) (\<lambda>_.
         and_then (enforce_line_limit ''line_index_memory'' next_memory maximum_memory_bytes) (\<lambda>_.
         if boundary \<le> u64_max then Ok (bnds @ [boundary])
         else Err (ResourceLimitExceeded ''snapshot_file_bytes'' u64_max u64_max))))"

lemma next_terminator_end_progress:
  "next_terminator_end bytes offset = (Some e, offset') \<Longrightarrow>
     offset' = e \<and> offset < e \<and> e \<le> length bytes"
proof (induction bytes offset rule: next_terminator_end.induct)
  case (1 bytes offset)
  then show ?case
    by (subst (asm) (2) next_terminator_end.simps) (auto split: if_splits)
qed

text \<open>The two \<open>while let Some(..)\<close> loops over the terminators.\<close>

function index_loop ::
    "bytes \<Rightarrow> nat \<Rightarrow> nat list \<Rightarrow> nat \<Rightarrow> nat \<Rightarrow> CoreError + nat list" where
  "index_loop bytes offset bnds maximum_lines maximum_memory_bytes =
     (case next_terminator_end bytes offset of
        (None, _) \<Rightarrow> Ok bnds
      | (Some boundary, offset') \<Rightarrow>
          and_then (push_line_boundary bnds boundary maximum_lines maximum_memory_bytes)
            (\<lambda>bnds'. index_loop bytes offset' bnds' maximum_lines maximum_memory_bytes))"
  by pat_completeness auto
termination
  by (relation "measure (\<lambda>(bytes, offset, _). length bytes - offset)")
    (auto dest!: next_terminator_end_progress[OF sym])

declare index_loop.simps [simp del]

definition from_bytes_with_limits :: "bytes \<Rightarrow> nat \<Rightarrow> nat \<Rightarrow> CoreError + LineIndex" where
  "from_bytes_with_limits bytes maximum_lines maximum_memory_bytes =
     (if u64_max < length bytes then Err (line_limit_overflow ''snapshot_file_bytes'')
      else
        and_then (index_loop bytes 0 [] maximum_lines maximum_memory_bytes) (\<lambda>bnds.
        and_then
          (if (bnds = [] \<or> last bnds \<noteq> length bytes) \<and> bytes \<noteq> []
           then push_line_boundary bnds (length bytes) maximum_lines maximum_memory_bytes
           else Ok bnds) (\<lambda>bnds'.
        Ok \<lparr>boundaries = bnds'\<rparr>)))"

definition index_line_count :: "LineIndex \<Rightarrow> nat" where
  "index_line_count idx = min (length (boundaries idx)) u64_max"

definition line_start :: "LineIndex \<Rightarrow> nat \<Rightarrow> nat option" where
  "line_start idx line =
     (if line = 0 \<or> index_line_count idx < line then None
      else if line = 1 then Some 0
      else get_nth (boundaries idx) (line - 2))"

definition line_end :: "LineIndex \<Rightarrow> nat \<Rightarrow> nat option" where
  "line_end idx line =
     (case checked_sub_u64 line 1 of
        None \<Rightarrow> None
      | Some index \<Rightarrow> get_nth (boundaries idx) index)"

definition memory_bytes :: "LineIndex \<Rightarrow> nat" where
  "memory_bytes idx = saturating_mul_u64 (index_line_count idx) 8"

definition indexed_byte_length :: "LineIndex \<Rightarrow> nat" where
  "indexed_byte_length idx = (if boundaries idx = [] then 0 else last (boundaries idx))"

record LineMetrics =
  lm_byte_count :: nat
  lm_terminator_count :: nat
  lm_first_byte :: "u8 option"
  lm_last_byte :: "u8 option"

definition default_line_metrics :: LineMetrics where
  "default_line_metrics =
     \<lparr>lm_byte_count = 0, lm_terminator_count = 0, lm_first_byte = None, lm_last_byte = None\<rparr>"

text \<open>
  \<open>slice::partition_point\<close> of the standard library: the number of leading elements that
  satisfy the predicate (the boundaries are sorted, so the slice is partitioned).
\<close>

definition partition_point :: "('a \<Rightarrow> bool) \<Rightarrow> 'a list \<Rightarrow> nat" where
  "partition_point P xs = length (takeWhile P xs)"

definition metrics_for_range :: "LineIndex \<Rightarrow> bytes \<Rightarrow> ByteRange \<Rightarrow> CoreError + LineMetrics" where
  "metrics_for_range idx bytes rng =
     (let byte_length = length bytes; start = range_start rng; fin = range_end rng in
      if u64_max < length bytes then Err (line_limit_overflow ''line_metric_bytes'')
      else if indexed_byte_length idx \<noteq> byte_length
      then Err (InvalidDomainValue ''line_metrics_indexed_bytes'')
      else if fin < start \<or> byte_length < fin
      then Err (InvalidDomainValue ''line_metrics_range'')
      else if start = fin then Ok default_line_metrics
      else
        (let first_boundary = partition_point (\<lambda>boundary. boundary \<le> start) (boundaries idx);
             final_boundary = partition_point (\<lambda>boundary. boundary \<le> fin) (boundaries idx);
             terminators = final_boundary - first_boundary
         in and_then
              (if fin = byte_length \<and> \<not> is_terminator_byte (bytes ! (fin - 1))
               then ok_or (checked_sub_u64 terminators 1) (InvalidDomainValue ''line_metrics_index'')
               else Ok terminators) (\<lambda>terminators.
            and_then
              (if fin < byte_length \<and> bytes ! (fin - 1) = CR \<and> bytes ! fin = LF
               then ok_or (checked_add_u64 terminators 1) (line_limit_overflow ''line_count'')
               else Ok terminators) (\<lambda>terminators.
            Ok \<lparr>lm_byte_count = fin - start, lm_terminator_count = terminators,
                lm_first_byte = Some (bytes ! start), lm_last_byte = Some (bytes ! (fin - 1))\<rparr>))))"

function terminator_loop :: "bytes \<Rightarrow> nat \<Rightarrow> nat \<Rightarrow> CoreError + nat" where
  "terminator_loop bytes offset terminators =
     (case next_terminator_end bytes offset of
        (None, _) \<Rightarrow> Ok terminators
      | (Some _, offset') \<Rightarrow>
          and_then (ok_or (checked_add_u64 terminators 1) (line_limit_overflow ''line_count''))
            (\<lambda>terminators'. terminator_loop bytes offset' terminators'))"
  by pat_completeness auto
termination
  by (relation "measure (\<lambda>(bytes, offset, _). length bytes - offset)")
    (auto dest!: next_terminator_end_progress[OF sym])

declare terminator_loop.simps [simp del]

definition try_from_bytes :: "bytes \<Rightarrow> CoreError + LineMetrics" where
  "try_from_bytes bytes =
     (if u64_max < length bytes then Err (line_limit_overflow ''line_metric_bytes'')
      else if bytes = [] then Ok default_line_metrics
      else and_then (terminator_loop bytes 0 0) (\<lambda>terminator_count.
        Ok \<lparr>lm_byte_count = length bytes, lm_terminator_count = terminator_count,
            lm_first_byte = Some (hd bytes), lm_last_byte = Some (last bytes)\<rparr>))"

definition metrics_line_count :: "LineMetrics \<Rightarrow> nat" where
  "metrics_line_count m =
     saturating_add_u64 (lm_terminator_count m)
       (case lm_last_byte m of None \<Rightarrow> 0 | Some byte \<Rightarrow> if is_terminator_byte byte then 0 else 1)"

definition try_append :: "LineMetrics \<Rightarrow> LineMetrics \<Rightarrow> CoreError + LineMetrics" where
  "try_append self following =
     (if lm_byte_count following = 0 then Ok self
      else if lm_byte_count self = 0 then Ok following
      else
        and_then (ok_or (checked_add_u64 (lm_byte_count self) (lm_byte_count following))
          (line_limit_overflow ''line_metric_bytes'')) (\<lambda>byte_count.
        and_then
          (if lm_last_byte self = Some CR \<and> lm_first_byte following = Some LF
           then ok_or (checked_sub_u64 (lm_terminator_count following) 1)
                  (InvalidDomainValue ''line_metrics_summary'')
           else Ok (lm_terminator_count following)) (\<lambda>following_terminators.
        and_then (ok_or (checked_add_u64 (lm_terminator_count self) following_terminators)
          (line_limit_overflow ''line_count'')) (\<lambda>terminator_count.
        Ok (self\<lparr>lm_byte_count := byte_count, lm_terminator_count := terminator_count,
                 lm_last_byte := lm_last_byte following\<rparr>)))))"

definition try_append_bytes :: "LineMetrics \<Rightarrow> bytes \<Rightarrow> CoreError + LineMetrics" where
  "try_append_bytes self bytes =
     and_then (try_from_bytes bytes) (\<lambda>following. try_append self following)"

section \<open>Reference definition: logical lines\<close>

fun split_lines :: "bytes \<Rightarrow> bytes list" where
  "split_lines [] = []"
| "split_lines [b] = [[b]]"
| "split_lines (b # c # bs) =
     (if b = CR \<and> c = LF then [CR, LF] # split_lines bs
      else if is_terminator_byte b then [b] # split_lines (c # bs)
      else (case split_lines (c # bs) of [] \<Rightarrow> [[b]] | l # ls \<Rightarrow> (b # l) # ls))"

fun terminator_ends :: "bytes \<Rightarrow> nat \<Rightarrow> nat list" where
  "terminator_ends [] off = []"
| "terminator_ends [b] off = (if is_terminator_byte b then [off + 1] else [])"
| "terminator_ends (b # c # bs) off =
     (if b = CR \<and> c = LF then (off + 2) # terminator_ends bs (off + 2)
      else if is_terminator_byte b then (off + 1) # terminator_ends (c # bs) (off + 1)
      else terminator_ends (c # bs) (off + 1))"

fun prefix_ends :: "nat \<Rightarrow> 'a list list \<Rightarrow> nat list" where
  "prefix_ends off [] = []"
| "prefix_ends off (l # ls) = (off + length l) # prefix_ends (off + length l) ls"

definition line_bounds :: "bytes \<Rightarrow> nat \<Rightarrow> nat list" where
  "line_bounds bytes off =
     (let es = terminator_ends bytes off in
      if bytes \<noteq> [] \<and> (es = [] \<or> last es \<noteq> off + length bytes)
      then es @ [off + length bytes] else es)"

section \<open>The scanning loop enumerates the terminator ends\<close>

lemma terminator_ends_step:
  assumes "b \<noteq> CR \<or> bs = [] \<or> hd bs \<noteq> LF"
  shows "terminator_ends (b # bs) off =
    (if is_terminator_byte b then (off + 1) # terminator_ends bs (off + 1)
     else terminator_ends bs (off + 1))"
  using assms by (cases bs) auto

lemma terminator_ends_crlf:
  "terminator_ends (CR # LF # bs) off = (off + 2) # terminator_ends bs (off + 2)"
  by simp

lemma next_terminator_end_ends:
  "offset \<le> length bytes \<Longrightarrow>
     terminator_ends (drop offset bytes) offset =
       (case next_terminator_end bytes offset of
          (None, _) \<Rightarrow> []
        | (Some e, _) \<Rightarrow> e # terminator_ends (drop e bytes) e)"
proof (induction bytes offset rule: next_terminator_end.induct)
  case (1 bytes offset)
  consider (at_end) "offset = length bytes"
    | (crlf) "offset < length bytes" "bytes ! offset = CR" "get_nth bytes (offset + 1) = Some LF"
    | (other) "offset < length bytes" "\<not> (bytes ! offset = CR \<and> get_nth bytes (offset + 1) = Some LF)"
    using "1.prems" by linarith
  then show ?case
  proof cases
    case at_end
    then show ?thesis by (simp add: next_terminator_end.simps)
  next
    case crlf
    then have "drop offset bytes = CR # LF # drop (offset + 2) bytes"
      by (simp add: Cons_nth_drop_Suc[symmetric])
    with crlf show ?thesis by (simp add: next_terminator_end.simps[of bytes offset])
  next
    case other
    have d: "drop offset bytes = bytes ! offset # drop (offset + 1) bytes"
      using other by (simp add: Cons_nth_drop_Suc)
    have "bytes ! offset \<noteq> CR \<or> drop (offset + 1) bytes = [] \<or> hd (drop (offset + 1) bytes) \<noteq> LF"
      using other(2) by (auto simp: hd_drop_conv_nth)
    note step = terminator_ends_step[OF this, of offset, folded d]
    show ?thesis
    proof (cases "is_terminator_byte (bytes ! offset)")
      case True
      with other step show ?thesis
        by (simp add: next_terminator_end.simps[of bytes offset] is_terminator_byte_def)
    next
      case False
      then have "next_terminator_end bytes offset = next_terminator_end bytes (offset + 1)"
        using other by (simp add: next_terminator_end.simps[of bytes offset] is_terminator_byte_def)
      moreover have "terminator_ends (drop (offset + 1) bytes) (offset + 1) =
        (case next_terminator_end bytes (offset + 1) of (None, _) \<Rightarrow> []
         | (Some e, _) \<Rightarrow> e # terminator_ends (drop e bytes) e)"
        by (rule "1.IH") (use other False in \<open>auto simp: is_terminator_byte_def\<close>)
      ultimately show ?thesis using step False by simp
    qed
  qed
qed

lemma index_loop_fold:
  "offset \<le> length bytes \<Longrightarrow>
     index_loop bytes offset bnds ml mm =
       try_fold (\<lambda>bs b. push_line_boundary bs b ml mm) bnds
         (terminator_ends (drop offset bytes) offset)"
proof (induction bytes offset bnds ml mm rule: index_loop.induct)
  case (1 bytes offset bnds ml mm)
  show ?case
  proof (cases "next_terminator_end bytes offset")
    case (Pair r o')
    show ?thesis
    proof (cases r)
      case None
      with Pair "1.prems" show ?thesis
        by (simp add: index_loop.simps[of bytes offset] next_terminator_end_ends)
    next
      case (Some e)
      with Pair have e: "o' = e" "e \<le> length bytes"
        using next_terminator_end_progress by auto
      with Some Pair "1" show ?thesis
        by (cases "push_line_boundary bnds e ml mm")
          (simp_all add: index_loop.simps[of bytes offset] next_terminator_end_ends)
    qed
  qed
qed

lemma terminator_loop_count:
  "offset \<le> length bytes \<Longrightarrow> c + length (terminator_ends (drop offset bytes) offset) \<le> u64_max \<Longrightarrow>
     terminator_loop bytes offset c = Ok (c + length (terminator_ends (drop offset bytes) offset))"
proof (induction bytes offset c rule: terminator_loop.induct)
  case (1 bytes offset c)
  show ?case
  proof (cases "next_terminator_end bytes offset")
    case (Pair r o')
    show ?thesis
    proof (cases r)
      case None
      with Pair "1.prems" show ?thesis
        by (simp add: terminator_loop.simps[of bytes offset] next_terminator_end_ends)
    next
      case (Some e)
      with Pair have e: "o' = e" "e \<le> length bytes"
        using next_terminator_end_progress by auto
      with Some Pair "1" show ?thesis
        by (simp add: terminator_loop.simps[of bytes offset] next_terminator_end_ends checked_add_u64_def)
    qed
  qed
qed

section \<open>Terminator ends and logical lines\<close>

lemma terminator_ends_shift: "terminator_ends bs (off + k) = map ((+) k) (terminator_ends bs off)"
  by (induction bs off rule: terminator_ends.induct) (auto simp: algebra_simps)

lemma terminator_ends_bounds:
  "e \<in> set (terminator_ends bs off) \<Longrightarrow> off < e \<and> e \<le> off + length bs"
  by (induction bs off rule: terminator_ends.induct) (fastforce split: if_splits)+

lemma terminator_ends_sorted: "sorted_wrt (<) (terminator_ends bs off)"
proof (induction bs off rule: terminator_ends.induct)
  case (3 b c bs off)
  have "\<forall>e \<in> set (terminator_ends bs (off + 2)). off + 2 < e"
    and "\<forall>e \<in> set (terminator_ends (c # bs) (off + 1)). off + 1 < e"
    using terminator_ends_bounds by blast+
  with 3 show ?case by auto
qed auto

lemma length_terminator_ends: "length (terminator_ends bs off) \<le> length bs"
  by (induction bs off rule: terminator_ends.induct) auto

lemma length_concat_nonempty: "[] \<notin> set ls \<Longrightarrow> length ls \<le> length (concat ls)"
proof (induction ls)
  case (Cons l ls)
  then have "1 \<le> length l" by (cases l) auto
  with Cons show ?case by simp
qed simp

lemma length_concat_take: "length (concat (take j ls)) \<le> length (concat ls)"
proof -
  have "length (concat ls) = length (concat (take j ls)) + length (concat (drop j ls))"
    by (metis append_take_drop_id concat_append length_append)
  then show ?thesis by simp
qed

lemma split_lines_nonempty [simp]: "split_lines bs = [] \<longleftrightarrow> bs = []"
  by (induction bs rule: split_lines.induct) (auto split: list.splits)

lemma concat_split_lines [simp]: "concat (split_lines bs) = bs"
  by (induction bs rule: split_lines.induct) (auto split: list.splits)

lemma split_lines_all_nonempty: "[] \<notin> set (split_lines bs)"
  by (induction bs rule: split_lines.induct) (auto split: list.splits)

lemma line_bounds_prefix_ends: "line_bounds bs off = prefix_ends off (split_lines bs)"
proof (induction bs arbitrary: off rule: split_lines.induct)
  case (3 b c bs)
  show ?case
  proof (cases "b = CR \<and> c = LF")
    case True
    with 3(1)[of "off + 2"] show ?thesis
      by (auto simp: line_bounds_def Let_def split: if_splits)
  next
    case False
    note F = this
    obtain l ls where s: "split_lines (c # bs) = l # ls"
      by (cases "split_lines (c # bs)") auto
    show ?thesis
    proof (cases "is_terminator_byte b")
      case True
      with F 3(2)[of "off + 1"] show ?thesis by (auto simp: line_bounds_def Let_def split: if_splits)
    next
      case False
      with F s 3(3)[of "off + 1"] show ?thesis by (auto simp: line_bounds_def Let_def algebra_simps split: if_splits)
    qed
  qed
qed (auto simp: line_bounds_def)

lemma length_prefix_ends [simp]: "length (prefix_ends off ls) = length ls"
  by (induction ls arbitrary: off) auto

lemma nth_prefix_ends:
  "k < length ls \<Longrightarrow> prefix_ends off ls ! k = off + length (concat (take (Suc k) ls))"
proof (induction ls arbitrary: off k)
  case (Cons l ls)
  then show ?case by (cases k) auto
qed simp

section \<open>The index\<close>

definition lines_fit :: "nat \<Rightarrow> nat \<Rightarrow> nat \<Rightarrow> bool" where
  "lines_fit n ml mm \<longleftrightarrow> n = 0 \<or> (min n u64_max \<le> ml \<and> min (n * 8) u64_max \<le> mm)"

lemma push_line_boundary_Ok_iff:
  "b \<le> u64_max \<Longrightarrow>
     push_line_boundary bs b ml mm = Ok bs' \<longleftrightarrow>
       lines_fit (length bs + 1) ml mm \<and> bs' = bs @ [b]"
  unfolding push_line_boundary_def lines_fit_def enforce_line_limit_def
    saturating_add_u64_def saturating_mul_u64_def
  by (auto simp: Let_def u64_max_def min_def split: if_splits)

lemma lines_fit_mono: "lines_fit n ml mm \<Longrightarrow> m \<le> n \<Longrightarrow> lines_fit m ml mm"
  by (auto simp: lines_fit_def min_def split: if_splits)

lemma push_fold_Ok_iff:
  assumes "\<forall>e \<in> set es. e \<le> u64_max" "lines_fit (length bs) ml mm"
  shows "try_fold (\<lambda>bs b. push_line_boundary bs b ml mm) bs es = Ok bs' \<longleftrightarrow>
    lines_fit (length bs + length es) ml mm \<and> bs' = bs @ es"
  using assms
proof (induction es arbitrary: bs)
  case (Cons e es)
  show ?case
  proof (cases "lines_fit (length bs + 1) ml mm")
    case True
    then have "push_line_boundary bs e ml mm = Ok (bs @ [e])"
      using Cons.prems by (simp add: push_line_boundary_Ok_iff)
    with Cons True show ?thesis by simp
  next
    case False
    then have "\<not> lines_fit (length bs + length (e # es)) ml mm"
      using lines_fit_mono[of _ ml mm "length bs + 1"] by fastforce
    with False Cons.prems show ?thesis by (auto simp: push_line_boundary_Ok_iff)
  qed
qed auto

lemma from_bytes_with_limits_Ok_iff:
  assumes "length bytes \<le> u64_max"
  shows "from_bytes_with_limits bytes ml mm = Ok idx \<longleftrightarrow>
    lines_fit (length (split_lines bytes)) ml mm \<and>
    idx = \<lparr>boundaries = prefix_ends 0 (split_lines bytes)\<rparr>"
proof -
  let ?es = "terminator_ends bytes 0"
  have es: "\<forall>e \<in> set ?es. e \<le> u64_max"
    using terminator_ends_bounds[of _ bytes 0] assms by fastforce
  have loop: "index_loop bytes 0 [] ml mm = Ok bnds \<longleftrightarrow> lines_fit (length ?es) ml mm \<and> bnds = ?es"
    for bnds
    using push_fold_Ok_iff[OF es, of "[]"] by (simp add: index_loop_fold lines_fit_def)
  have lb: "prefix_ends 0 (split_lines bytes) = line_bounds bytes 0"
    by (simp add: line_bounds_prefix_ends)
  have len: "length (split_lines bytes) = length (line_bounds bytes 0)"
    by (simp flip: lb)
  have nf: "lines_fit (length ?es + 1) ml mm \<Longrightarrow> lines_fit (length ?es) ml mm"
    by (rule lines_fit_mono) auto
  show ?thesis
    unfolding lb len from_bytes_with_limits_def
    using assms nf
    by (auto simp: loop line_bounds_def Let_def push_line_boundary_Ok_iff)
qed

lemma line_start_lines:
  assumes "boundaries idx = prefix_ends 0 ls" "length ls \<le> u64_max" "1 \<le> i" "i \<le> length ls"
  shows "line_start idx i = Some (length (concat (take (i - 1) ls)))"
proof (cases "i = 1")
  case False
  then have "Suc (i - 2) = i - 1" "i - 2 < length ls" using assms by auto
  with False assms show ?thesis
    by (simp add: line_start_def index_line_count_def nth_prefix_ends)
qed (use assms in \<open>auto simp: line_start_def index_line_count_def\<close>)

lemma line_end_lines:
  assumes "boundaries idx = prefix_ends 0 ls" "1 \<le> j" "j \<le> length ls"
  shows "line_end idx j = Some (length (concat (take j ls)))"
proof -
  have "Suc (j - 1) = j" "j - 1 < length ls" using assms by auto
  with assms show ?thesis
    by (simp add: line_end_def checked_sub_u64_def nth_prefix_ends)
qed

lemma line_queries_out_of_range:
  assumes "boundaries idx = prefix_ends 0 ls" "length ls \<le> u64_max" "i = 0 \<or> length ls < i"
  shows "line_start idx i = None" "line_end idx i = None"
  using assms by (auto simp: line_start_def line_end_def index_line_count_def checked_sub_u64_def get_nth_def)

lemma slice_concat_lines:
  assumes "i \<le> j" "j \<le> length ls"
  shows "slice (concat ls) (length (concat (take i ls))) (length (concat (take j ls))) =
    concat (slice ls i j)"
proof -
  have "take j ls = take i ls @ slice ls i j"
    using assms by (simp add: slice_def) (metis le_add_diff_inverse take_add)
  then have "length (concat (take j ls)) = length (concat (take i ls)) + length (concat (slice ls i j))"
    by simp
  moreover have "concat ls = concat (take i ls) @ concat (slice ls i j) @ concat (drop j ls)"
  proof -
    have "ls = take i ls @ slice ls i j @ drop j ls"
      using \<open>take j ls = take i ls @ slice ls i j\<close> by (metis append_assoc append_take_drop_id)
    then show ?thesis by (metis concat_append)
  qed
  ultimately show ?thesis by (simp add: slice_def)
qed

section \<open>Composition of line metrics\<close>

definition splits_crlf :: "bytes \<Rightarrow> bytes \<Rightarrow> bool" where
  "splits_crlf a b \<longleftrightarrow> a \<noteq> [] \<and> b \<noteq> [] \<and> last a = CR \<and> hd b = LF"

lemma terminator_ends_last:
  "a \<noteq> [] \<Longrightarrow>
     (terminator_ends a off \<noteq> [] \<and> last (terminator_ends a off) = off + length a) \<longleftrightarrow>
     is_terminator_byte (last a)"
proof (induction a off rule: terminator_ends.induct)
  case (3 b c bs off)
  show ?case
  proof (cases "b = CR \<and> c = LF")
    case True
    with 3(1) show ?thesis by (cases "bs = []") (auto simp: is_terminator_byte_def)
  next
    case False
    with 3(2,3) show ?thesis by (cases "is_terminator_byte b") auto
  qed
qed auto

lemma terminator_ends_append:
  "terminator_ends (a @ b) off =
     (if splits_crlf a b then butlast (terminator_ends a off) else terminator_ends a off) @
     terminator_ends b (off + length a)"
proof (induction a off rule: terminator_ends.induct)
  case (1 off)
  then show ?case by (simp add: splits_crlf_def)
next
  case (2 x off)
  then show ?case
    by (cases b) (auto simp: splits_crlf_def is_terminator_byte_def terminator_ends_step)
next
  case (3 x y bs off)
  have ne: "terminator_ends c o' \<noteq> []" if "splits_crlf c b" for c o'
    using that terminator_ends_last[of c o'] by (simp add: splits_crlf_def is_terminator_byte_def)
  have "splits_crlf (x # y # bs) b = splits_crlf (y # bs) b"
    by (simp add: splits_crlf_def)
  moreover have "splits_crlf (y # bs) b = splits_crlf bs b" if "y = LF"
    using that by (auto simp: splits_crlf_def)
  ultimately show ?case
    using 3 ne by auto
qed

definition terminator_count :: "bytes \<Rightarrow> nat" where
  "terminator_count bs = length (terminator_ends bs 0)"

lemma terminator_count_shift: "length (terminator_ends bs off) = terminator_count bs"
  using terminator_ends_shift[of bs 0 off] by (simp add: terminator_count_def)

lemma terminator_count_pos:
  "a \<noteq> [] \<Longrightarrow> is_terminator_byte (last a) \<Longrightarrow> 0 < terminator_count a"
  using terminator_ends_last[of a 0] by (auto simp: terminator_count_def)

lemma terminator_count_hd_pos:
  "is_terminator_byte b \<Longrightarrow> 0 < terminator_count (b # bs)"
  by (cases bs) (auto simp: terminator_count_def)

lemma terminator_count_append:
  "terminator_count (a @ b) + (if splits_crlf a b then 1 else 0) =
     terminator_count a + terminator_count b"
proof -
  have "terminator_count (a @ b) =
      (if splits_crlf a b then terminator_count a - 1 else terminator_count a) + terminator_count b"
    using terminator_count_shift[of b "length a"]
    unfolding terminator_count_def by (simp add: terminator_ends_append)
  moreover have "0 < terminator_count a" if "splits_crlf a b"
    using that terminator_count_pos[of a] by (simp add: splits_crlf_def is_terminator_byte_def)
  ultimately show ?thesis by auto
qed

lemma terminator_count_le: "terminator_count bs \<le> length bs"
  by (simp add: terminator_count_def length_terminator_ends)

definition line_metrics_of :: "bytes \<Rightarrow> LineMetrics" where
  "line_metrics_of bs = \<lparr>
     lm_byte_count = length bs,
     lm_terminator_count = terminator_count bs,
     lm_first_byte = (if bs = [] then None else Some (hd bs)),
     lm_last_byte = (if bs = [] then None else Some (last bs))\<rparr>"

lemma try_from_bytes_eq:
  "length bs \<le> u64_max \<Longrightarrow> try_from_bytes bs = Ok (line_metrics_of bs)"
  using terminator_loop_count[of 0 bs 0] length_terminator_ends[of bs 0]
  by (auto simp: try_from_bytes_def line_metrics_of_def default_line_metrics_def terminator_count_def)

lemma try_append_eq:
  assumes "length a + length b \<le> u64_max"
  shows "try_append (line_metrics_of a) (line_metrics_of b) = Ok (line_metrics_of (a @ b))"
proof (cases "a = [] \<or> b = []")
  case True
  then show ?thesis by (auto simp: try_append_def line_metrics_of_def)
next
  case False
  note ne = this
  have tc: "terminator_count a + terminator_count b \<le> u64_max"
    using assms terminator_count_le[of a] terminator_count_le[of b] by linarith
  have split: "splits_crlf a b \<longleftrightarrow> last a = CR \<and> hd b = LF"
    using ne by (simp add: splits_crlf_def)
  have "0 < terminator_count b" if "hd b = LF"
    using ne that by (cases b) (auto simp: terminator_count_hd_pos is_terminator_byte_def)
  with ne tc assms split terminator_count_append[of a b] show ?thesis
    by (auto simp: try_append_def line_metrics_of_def checked_add_u64_def checked_sub_u64_def)
qed

lemma split_lines_count:
  "length (split_lines bs) =
     terminator_count bs + (if bs \<noteq> [] \<and> \<not> is_terminator_byte (last bs) then 1 else 0)"
proof -
  have "length (split_lines bs) = length (line_bounds bs 0)"
    by (simp add: line_bounds_prefix_ends)
  also have "\<dots> = terminator_count bs +
      (if bs \<noteq> [] \<and> \<not> is_terminator_byte (last bs) then 1 else 0)"
    using terminator_ends_last[of bs 0] by (auto simp: line_bounds_def Let_def terminator_count_def)
  finally show ?thesis .
qed

lemma metrics_line_count_eq:
  "length bs < u64_max \<Longrightarrow> metrics_line_count (line_metrics_of bs) = length (split_lines bs)"
  using terminator_count_le[of bs]
  by (auto simp: metrics_line_count_def line_metrics_of_def split_lines_count saturating_add_u64_def)

section \<open>Range metrics from the index\<close>

lemma partition_point_sorted:
  "sorted_wrt (<) xs \<Longrightarrow> partition_point (\<lambda>b. b \<le> p) xs = length (filter (\<lambda>b. b \<le> (p::nat)) xs)"
proof (induction xs)
  case (Cons x xs)
  then show ?case
    by (auto simp: partition_point_def filter_empty_conv takeWhile_eq_Nil_iff)
qed (simp add: partition_point_def)

lemma sorted_le_last: "sorted xs \<Longrightarrow> x \<in> set xs \<Longrightarrow> (x::nat) \<le> last xs"
  by (induction xs) auto

lemma line_bounds_sorted: "sorted_wrt (<) (line_bounds bs off)"
proof -
  have "e < off + length bs"
    if "e \<in> set (terminator_ends bs off)" "last (terminator_ends bs off) \<noteq> off + length bs" for e
  proof -
    have ne: "terminator_ends bs off \<noteq> []" using that(1) by auto
    have "e \<le> last (terminator_ends bs off)"
      using strict_sorted_imp_sorted[OF terminator_ends_sorted[of bs off]] that(1)
      by (rule sorted_le_last)
    moreover have "last (terminator_ends bs off) \<le> off + length bs"
      using terminator_ends_bounds last_in_set[OF ne] by blast
    ultimately show ?thesis using that(2) by linarith
  qed
  then show ?thesis
    by (auto simp: line_bounds_def Let_def sorted_wrt_append terminator_ends_sorted)
qed

lemma ends_upto_append:
  "length (filter (\<lambda>e. e \<le> length a) (terminator_ends (a @ b) 0)) +
     (if splits_crlf a b then 1 else 0) = terminator_count a"
proof -
  have a: "filter (\<lambda>e. e \<le> length a) (terminator_ends a 0) = terminator_ends a 0"
    using terminator_ends_bounds[of _ a 0] by (simp add: filter_id_conv)
  have ab: "filter (\<lambda>e. e \<le> length a) (butlast (terminator_ends a 0)) = butlast (terminator_ends a 0)"
    using terminator_ends_bounds[of _ a 0] in_set_butlastD by (fastforce simp: filter_id_conv)
  have b: "filter (\<lambda>e. e \<le> length a) (terminator_ends b (length a)) = []"
    using terminator_ends_bounds[of _ b "length a"] by (fastforce simp: filter_empty_conv)
  have "terminator_count a > 0" if "splits_crlf a b"
    using that terminator_count_pos[of a] by (simp add: splits_crlf_def is_terminator_byte_def)
  then show ?thesis
    by (auto simp: terminator_ends_append a ab b terminator_count_def)
qed

lemma bounds_upto:
  assumes "p \<le> length bs"
  shows "partition_point (\<lambda>e. e \<le> p) (line_bounds bs 0) +
      (if splits_crlf (take p bs) (drop p bs) then 1 else 0) =
    terminator_count (take p bs) +
      (if p = length bs \<and> bs \<noteq> [] \<and> \<not> is_terminator_byte (last bs) then 1 else 0)"
proof -
  have "length (filter (\<lambda>e. e \<le> p) (terminator_ends bs 0)) +
      (if splits_crlf (take p bs) (drop p bs) then 1 else 0) = terminator_count (take p bs)"
    using ends_upto_append[of "take p bs" "drop p bs"] assms by simp
  moreover have "length (filter (\<lambda>e. e \<le> p) (line_bounds bs 0)) =
      length (filter (\<lambda>e. e \<le> p) (terminator_ends bs 0)) +
      (if p = length bs \<and> bs \<noteq> [] \<and> \<not> is_terminator_byte (last bs) then 1 else 0)"
    using assms terminator_ends_last[of bs 0] by (auto simp: line_bounds_def Let_def)
  ultimately show ?thesis
    by (simp add: partition_point_sorted line_bounds_sorted)
qed

lemma indexed_byte_length_lines:
  "boundaries idx = line_bounds bs 0 \<Longrightarrow> indexed_byte_length idx = length bs"
  using terminator_ends_last[of bs 0]
  by (auto simp: indexed_byte_length_def line_bounds_def Let_def)

lemma bounds_between:
  assumes "s < e" "e \<le> length bs"
  shows "partition_point (\<lambda>b. b \<le> e) (line_bounds bs 0) - partition_point (\<lambda>b. b \<le> s) (line_bounds bs 0) +
      (if e < length bs \<and> bs ! (e - 1) = CR \<and> bs ! e = LF then 1 else 0) =
    terminator_count (slice bs s e) +
      (if e = length bs \<and> \<not> is_terminator_byte (bs ! (e - 1)) then 1 else 0)"
proof -
  let ?N = "\<lambda>p. partition_point (\<lambda>b. b \<le> p) (line_bounds bs 0)"
  let ?u = "if e = length bs \<and> \<not> is_terminator_byte (last bs) then 1 else 0 :: nat"
  let ?x = "if splits_crlf (take e bs) (drop e bs) then 1 else 0 :: nat"
  define sl where "sl = slice bs s e"
  have ne: "sl \<noteq> []" "bs \<noteq> []" and hd: "hd sl = bs ! s" and lst: "last sl = bs ! (e - 1)"
    using assms by (auto simp: sl_def slice_def hd_drop_conv_nth hd_take last_conv_nth)
  have tk: "take e bs = take s bs @ sl"
    using assms by (metis less_imp_le_nat le_add_diff_inverse sl_def slice_def take_add)
  have "splits_crlf (take s bs) (drop s bs) = splits_crlf (take s bs) sl"
    using ne assms hd by (auto simp: splits_crlf_def hd_drop_conv_nth)
  then have N: "?N e + ?x = ?N s + terminator_count sl + ?u"
    using bounds_upto[of s bs] bounds_upto[of e bs] assms ne
      terminator_count_append[of "take s bs" sl] tk by simp
  have "?x \<le> terminator_count sl"
    using terminator_count_pos[of sl] ne tk by (auto simp: splits_crlf_def is_terminator_byte_def)
  with N have "?N e - ?N s + ?x = terminator_count sl + ?u" by linarith
  moreover have "splits_crlf (take e bs) (drop e bs) \<longleftrightarrow> e < length bs \<and> bs ! (e - 1) = CR \<and> bs ! e = LF"
    using assms tk lst ne by (auto simp: splits_crlf_def hd_drop_conv_nth)
  moreover have "e = length bs \<Longrightarrow> last bs = bs ! (e - 1)"
    using ne by (simp add: last_conv_nth)
  ultimately show ?thesis by (auto simp: sl_def)
qed

lemma metrics_for_range_eq:
  assumes "boundaries idx = line_bounds bs 0" "length bs \<le> u64_max"
    and "range_start r \<le> range_end r" "range_end r \<le> length bs"
  shows "metrics_for_range idx bs r = Ok (line_metrics_of (slice bs (range_start r) (range_end r)))"
proof (cases "range_start r = range_end r")
  case True
  with assms show ?thesis
    by (simp add: metrics_for_range_def Let_def indexed_byte_length_lines line_metrics_of_def
        default_line_metrics_def terminator_count_def)
next
  case False
  define s e where "s = range_start r" and "e = range_end r"
  define sl where "sl = slice bs s e"
  have se: "s < e" "e \<le> length bs" using False assms by (auto simp: s_def e_def)
  have m: "line_metrics_of sl = \<lparr>lm_byte_count = e - s, lm_terminator_count = terminator_count sl,
      lm_first_byte = Some (bs ! s), lm_last_byte = Some (bs ! (e - 1))\<rparr>"
    using se by (auto simp: line_metrics_of_def sl_def slice_def hd_drop_conv_nth hd_take last_conv_nth)
  have tc: "terminator_count sl \<le> u64_max"
    using terminator_count_le[of sl] assms(2) se by (simp add: sl_def)
  note d = bounds_between[OF se, folded sl_def]
  have idx: "indexed_byte_length idx = length bs"
    using assms(1) by (rule indexed_byte_length_lines)
  show ?thesis
  proof (cases "e = length bs")
    case True
    with d have "partition_point (\<lambda>b. b \<le> e) (boundaries idx) - partition_point (\<lambda>b. b \<le> s) (boundaries idx) =
        terminator_count sl + (if is_terminator_byte (bs ! (e - 1)) then 0 else 1)"
      using assms(1) by simp
    with True se assms(2) False idx show ?thesis
      unfolding metrics_for_range_def sl_def[symmetric] s_def[symmetric] e_def[symmetric] Let_def m
      by (simp add: checked_sub_u64_def)
  next
    case False
    with d have "partition_point (\<lambda>b. b \<le> e) (boundaries idx) - partition_point (\<lambda>b. b \<le> s) (boundaries idx) +
        (if bs ! (e - 1) = CR \<and> bs ! e = LF then 1 else 0) = terminator_count sl"
      using assms(1) se by simp
    with False se assms(2) idx tc show ?thesis
      unfolding metrics_for_range_def sl_def[symmetric] s_def[symmetric] e_def[symmetric] Let_def m
      by (auto simp: checked_add_u64_def)
  qed
qed

lemma length_split_lines: "length (split_lines bs) \<le> length bs"
proof -
  have "length (split_lines bs) \<le> length (concat (split_lines bs))"
    using split_lines_all_nonempty[of bs] by (rule length_concat_nonempty)
  then show ?thesis by simp
qed

section \<open>The interface of the line index\<close>

text \<open>
  What the planner relies on: line queries answer with the offsets at which the lines of the
  indexed bytes start and stop, and with nothing for a line that does not exist.
\<close>

locale line_table =
  fixes start :: "'i \<Rightarrow> nat \<Rightarrow> nat option"
    and stop :: "'i \<Rightarrow> nat \<Rightarrow> nat option"
    and describes :: "'i \<Rightarrow> bytes \<Rightarrow> bool"
  assumes start_Some_iff: "describes i bs \<Longrightarrow> start i n = Some s \<longleftrightarrow>
      1 \<le> n \<and> n \<le> length (split_lines bs) \<and> s = length (concat (take (n - 1) (split_lines bs)))"
    and stop_Some_iff: "describes i bs \<Longrightarrow> stop i n = Some s \<longleftrightarrow>
      1 \<le> n \<and> n \<le> length (split_lines bs) \<and> s = length (concat (take n (split_lines bs)))"
begin

lemma start_bound: "describes i bs \<Longrightarrow> start i n = Some s \<Longrightarrow> s \<le> length bs"
  using length_concat_take[of "n - 1" "split_lines bs"] by (simp add: start_Some_iff)

lemma stop_bound: "describes i bs \<Longrightarrow> stop i n = Some s \<Longrightarrow> s \<le> length bs"
  using length_concat_take[of n "split_lines bs"] by (simp add: stop_Some_iff)

lemma lines_selected:
  assumes "describes i bs" "start i a = Some s" "stop i b = Some e" "a \<le> b"
  shows "slice bs s e = concat (slice (split_lines bs) (a - 1) b)"
  using slice_concat_lines[of "a - 1" b "split_lines bs"] assms
  by (auto simp: start_Some_iff stop_Some_iff)

lemma lines_nonempty:
  assumes "describes i bs" "start i a = Some s" "stop i b = Some e" "a \<le> b"
  shows "s < e"
proof -
  let ?ls = "split_lines bs"
  have ab: "1 \<le> a" "b \<le> length ?ls" using assms by (auto simp: start_Some_iff stop_Some_iff)
  have "take b ?ls = take (a - 1) ?ls @ slice ?ls (a - 1) b"
    using slice_append_adjacent[of 0 "a - 1" b ?ls] assms(4) by (simp add: slice_def)
  moreover have "length (slice ?ls (a - 1) b) \<le> length (concat (slice ?ls (a - 1) b))"
    using split_lines_all_nonempty[of bs] set_slice_subset[of ?ls "a - 1" b]
    by (intro length_concat_nonempty) auto
  moreover have "0 < length (slice ?ls (a - 1) b)" using ab assms(4) by simp
  moreover have "s = length (concat (take (a - 1) ?ls))" "e = length (concat (take b ?ls))"
    using assms(1-3) by (simp_all add: start_Some_iff stop_Some_iff)
  ultimately show ?thesis
    by (metis add_less_cancel_left add.right_neutral concat_append length_append less_le_trans)
qed

end

definition indexes :: "LineIndex \<Rightarrow> bytes \<Rightarrow> bool" where
  "indexes idx bs \<longleftrightarrow> boundaries idx = prefix_ends 0 (split_lines bs) \<and> length (split_lines bs) \<le> u64_max"

interpretation line_index: line_table line_start line_end indexes
proof unfold_locales
  fix i bs n s
  assume "indexes i bs"
  then have idx: "boundaries i = prefix_ends 0 (split_lines bs)" "length (split_lines bs) \<le> u64_max"
    by (simp_all add: indexes_def)
  show "line_start i n = Some s \<longleftrightarrow>
      1 \<le> n \<and> n \<le> length (split_lines bs) \<and> s = length (concat (take (n - 1) (split_lines bs)))"
    using line_start_lines[OF idx, of n] line_queries_out_of_range(1)[OF idx, of n]
    by (cases "1 \<le> n \<and> n \<le> length (split_lines bs)") auto
  show "line_end i n = Some s \<longleftrightarrow>
      1 \<le> n \<and> n \<le> length (split_lines bs) \<and> s = length (concat (take n (split_lines bs)))"
    using line_end_lines[OF idx(1), of n] line_queries_out_of_range(2)[OF idx, of n]
    by (cases "1 \<le> n \<and> n \<le> length (split_lines bs)") auto
qed

lemma line_range_of_lines:
  assumes "indexes idx bytes" "1 \<le> i" "i \<le> j" "j \<le> length (split_lines bytes)"
  shows "\<exists>s e. line_start idx i = Some s \<and> line_end idx j = Some e \<and> s < e \<and> e \<le> length bytes \<and>
    slice bytes s e = concat (slice (split_lines bytes) (i - 1) j)"
proof -
  obtain s where s: "line_start idx i = Some s"
    using assms by (simp add: line_index.start_Some_iff)
  obtain e where e: "line_end idx j = Some e"
    using assms by (simp add: line_index.stop_Some_iff)
  show ?thesis
    using line_index.lines_nonempty[OF assms(1) s e assms(3)]
      line_index.lines_selected[OF assms(1) s e assms(3)] line_index.stop_bound[OF assms(1) e] s e
    by blast
qed

lemma default_line_metrics_eq: "default_line_metrics = line_metrics_of []"
  by (simp add: default_line_metrics_def line_metrics_of_def terminator_count_def)

lemma try_append_chunks:
  "length a + length (concat chunks) \<le> u64_max \<Longrightarrow>
     try_fold try_append_bytes (line_metrics_of a) chunks = Ok (line_metrics_of (a @ concat chunks))"
proof (induction chunks arbitrary: a)
  case (Cons c cs)
  then have "try_append_bytes (line_metrics_of a) c = Ok (line_metrics_of (a @ c))"
    by (simp add: try_append_bytes_def try_from_bytes_eq try_append_eq)
  with Cons show ?case by simp
qed simp

section \<open>Properties\<close>

text \<open>
  C7: With an index built from a file's bytes, the byte range from the start of line \<open>i\<close> to the end
  of line \<open>j\<close> is exactly the concatenation of the logical lines \<open>i\<close> to \<open>j\<close>, terminators
  included, and every line number outside the file is refused.
\<close>

theorem line_selection_exact:
  assumes "from_bytes_with_limits bytes ml mm = Ok idx" "length bytes \<le> u64_max"
  shows "(\<forall>i j. 1 \<le> i \<longrightarrow> i \<le> j \<longrightarrow> j \<le> length (split_lines bytes) \<longrightarrow>
      (\<exists>s e. line_start idx i = Some s \<and> line_end idx j = Some e \<and> s < e \<and> e \<le> length bytes \<and>
        slice bytes s e = concat (slice (split_lines bytes) (i - 1) j))) \<and>
    (\<forall>i. i = 0 \<or> length (split_lines bytes) < i \<longrightarrow> line_start idx i = None \<and> line_end idx i = None)"
proof -
  have b: "boundaries idx = prefix_ends 0 (split_lines bytes)"
    using assms by (simp add: from_bytes_with_limits_Ok_iff)
  have len: "length (split_lines bytes) \<le> u64_max"
    using assms(2) length_split_lines[of bytes] by linarith
  have idx: "indexes idx bytes"
    using b len by (simp add: indexes_def)
  show ?thesis
    by (intro conjI allI impI line_range_of_lines[OF idx] line_queries_out_of_range[OF b len])
qed

theorem line_selection_exact_witness:
  "from_bytes_with_limits [97, 13, 10, 98] 10 100 = Ok \<lparr>boundaries = [3, 4]\<rparr> \<and>
   (\<exists>s e. line_start \<lparr>boundaries = [3, 4]\<rparr> 2 = Some s \<and> line_end \<lparr>boundaries = [3, 4]\<rparr> 2 = Some e \<and>
      slice [97, 13, 10, 98 :: u8] s e = [98])"
proof -
  have l: "split_lines [97, 13, 10, 98] = [[97, 13, 10], [98]]"
    by (simp add: is_terminator_byte_def)
  have f: "from_bytes_with_limits [97, 13, 10, 98] 10 100 = Ok \<lparr>boundaries = [3, 4]\<rparr>"
    using l by (simp add: from_bytes_with_limits_Ok_iff lines_fit_def u64_max_def is_terminator_byte_def)
  have "length [97, 13, 10, 98 :: u8] \<le> u64_max" by (simp add: u64_max_def)
  from line_selection_exact[OF f this, unfolded l, THEN conjunct1, rule_format, of 2 2]
  have "\<exists>s e. line_start \<lparr>boundaries = [3, 4]\<rparr> 2 = Some s \<and> line_end \<lparr>boundaries = [3, 4]\<rparr> 2 = Some e \<and>
      slice [97, 13, 10, 98 :: u8] s e = concat (slice [[97, 13, 10], [98 :: u8]] 1 2)"
    by auto
  moreover have "concat (slice [[97, 13, 10], [98 :: u8]] 1 2) = [98]"
    by (simp add: slice_def)
  ultimately show ?thesis using f by (simp only: simp_thms)
qed

text \<open>
  Building the index succeeds exactly when the number of logical lines respects the line and
  memory limits, and its boundaries are then the end offsets of the logical lines.
\<close>

theorem line_index_limits_exact:
  assumes "length bytes \<le> u64_max" "8 * length bytes \<le> u64_max"
  shows "from_bytes_with_limits bytes ml mm = Ok idx \<longleftrightarrow>
    (bytes = [] \<or> length (split_lines bytes) \<le> ml \<and> 8 * length (split_lines bytes) \<le> mm) \<and>
    boundaries idx = prefix_ends 0 (split_lines bytes)"
proof -
  have "8 * length (split_lines bytes) \<le> u64_max" "length (split_lines bytes) \<le> u64_max"
    using assms length_split_lines[of bytes] by linarith+
  then have "lines_fit (length (split_lines bytes)) ml mm \<longleftrightarrow>
      bytes = [] \<or> length (split_lines bytes) \<le> ml \<and> 8 * length (split_lines bytes) \<le> mm"
    by (simp add: lines_fit_def mult.commute)
  then show ?thesis
    using assms by (auto simp: from_bytes_with_limits_Ok_iff)
qed

theorem line_index_limits_exact_witness:
  "\<not> (\<exists>idx. from_bytes_with_limits [10, 10] 1 100 = Ok idx)"
  using line_index_limits_exact[of "[10, 10]" 1 100]
  by (simp add: u64_max_def is_terminator_byte_def)

text \<open>
  Line metrics compose: appending the chunks of a byte sequence one after the other, with any
  chunking, gives the metrics of one scan of the whole sequence, also when a CRLF pair is split
  between two chunks.
\<close>

theorem streaming_metrics_compose:
  assumes "length (concat chunks) \<le> u64_max"
  shows "try_fold try_append_bytes default_line_metrics chunks = try_from_bytes (concat chunks)"
  using try_append_chunks[of "[]" chunks] assms
  by (simp add: try_from_bytes_eq default_line_metrics_eq)

theorem streaming_metrics_compose_witness:
  "try_fold try_append_bytes default_line_metrics [[97, 13], [10, 98]] = try_from_bytes [97, 13, 10, 98]"
  using streaming_metrics_compose[of "[[97, 13], [10, 98]]"] by (simp add: u64_max_def)

text \<open>
  The range query answers from the index and the edge bytes exactly what a scan of the selected
  bytes alone would find, for every range of the file.
\<close>

theorem range_metrics_match_scan:
  assumes "from_bytes_with_limits bytes ml mm = Ok idx" "length bytes \<le> u64_max"
    and "range_start r \<le> range_end r" "range_end r \<le> length bytes"
  shows "metrics_for_range idx bytes r = try_from_bytes (slice bytes (range_start r) (range_end r))"
proof -
  have "boundaries idx = line_bounds bytes 0"
    using assms by (simp add: from_bytes_with_limits_Ok_iff line_bounds_prefix_ends)
  with assms show ?thesis by (simp add: metrics_for_range_eq try_from_bytes_eq)
qed

theorem range_metrics_match_scan_witness:
  "metrics_for_range \<lparr>boundaries = [3, 4]\<rparr> [97, 13, 10, 98] \<lparr>range_start = 1, range_end = 2\<rparr> =
     try_from_bytes [13]"
proof -
  have f: "from_bytes_with_limits [97, 13, 10, 98] 10 100 = Ok \<lparr>boundaries = [3, 4]\<rparr>"
    by (simp add: from_bytes_with_limits_Ok_iff lines_fit_def u64_max_def is_terminator_byte_def)
  show ?thesis
    using range_metrics_match_scan[OF f, of "\<lparr>range_start = 1, range_end = 2\<rparr>"]
    by (simp add: u64_max_def slice_def)
qed

end
