(* ===== verification/Planner_Edits.thy ===== *)
theory Planner_Edits
  imports Line_Metrics "HOL-Library.Product_Lexorder"
begin

text \<open>
  The edit engine of the planner (\<open>crates/srcmv-core/src/planner.rs\<close>): resolution of
  selectors and anchors against the snapshot, conflict detection, the construction of segment
  recipes by a sweep over edit points, and the streaming evaluation of a recipe. The digest
  function of the \<open>sha2\<close> crate is the parameter \<open>H\<close>; its incremental hasher is the byte
  sequence fed so far. The reference semantics of a set of deletions and insertions is
  \<open>apply_edits\<close>, defined per byte position.
\<close>

section \<open>Model\<close>

subsection \<open>Errors and checked arithmetic\<close>

definition limit_overflow :: "string \<Rightarrow> CoreError" where
  "limit_overflow resource = ResourceLimitExceeded resource u64_max (u64_max - 1)"

definition conflict :: "string \<Rightarrow> nat \<Rightarrow> CoreError" where
  "conflict reason operation_index = EditConflict reason (Some operation_index)"

definition to_u64 :: "nat \<Rightarrow> string \<Rightarrow> CoreError + nat" where
  "to_u64 v resource = (if v \<le> u64_max then Ok v else Err (limit_overflow resource))"

definition checked_add :: "nat \<Rightarrow> nat \<Rightarrow> string \<Rightarrow> CoreError + nat" where
  "checked_add left right resource = ok_or (checked_add_u64 left right) (limit_overflow resource)"

definition checked_mul :: "nat \<Rightarrow> nat \<Rightarrow> string \<Rightarrow> CoreError + nat" where
  "checked_mul left right resource = ok_or (checked_mul_u64 left right) (limit_overflow resource)"

text \<open>
  The conversions of the bounds to \<open>usize\<close> cannot fail on a 64-bit platform; their error is
  the error of the range check.
\<close>

definition slice_range :: "bytes \<Rightarrow> ByteRange \<Rightarrow> CoreError + bytes" where
  "slice_range bs r =
     ok_or (get_slice bs (range_start r) (range_end r)) (InvalidDomainValue ''segment_range'')"

subsection \<open>Snapshot states and resolution\<close>

datatype SnapshotState = Existing FileSnapshot | Absent AbsentPathSnapshot

type_synonym StatesByPath = "string \<rightharpoonup> SnapshotState"
type_synonym FilesById = "SnapshotFileId \<rightharpoonup> FileSnapshot"

definition index_file ::
    "StatesByPath \<times> FilesById \<Rightarrow> FileSnapshot \<Rightarrow> CoreError + (StatesByPath \<times> FilesById)" where
  "index_file maps file =
     (case maps of (states, files_by_id) \<Rightarrow>
        if states (path_value (fs_path file)) \<noteq> None
        then Err (InvalidDomainValue ''duplicate_snapshot_path'')
        else if files_by_id (fs_id file) \<noteq> None
        then Err (InvalidDomainValue ''duplicate_snapshot_file_id'')
        else Ok (states(path_value (fs_path file) \<mapsto> Existing file),
                 files_by_id(fs_id file \<mapsto> file)))"

definition index_absent :: "StatesByPath \<Rightarrow> AbsentPathSnapshot \<Rightarrow> CoreError + StatesByPath" where
  "index_absent states absent =
     (if states (path_value (ap_path absent)) \<noteq> None
      then Err (EditConflict ''path_used_as_absent_and_existing'' None)
      else Ok (states(path_value (ap_path absent) \<mapsto> Absent absent)))"

definition index_snapshot :: "WorkspaceSnapshot \<Rightarrow> CoreError + (StatesByPath \<times> FilesById)" where
  "index_snapshot snapshot =
     and_then (try_fold index_file (Map.empty, Map.empty) (ws_files snapshot)) (\<lambda>(states, files_by_id).
     and_then (try_fold index_absent states (ws_absent_paths snapshot)) (\<lambda>states'.
     Ok (states', files_by_id)))"

fun operation_parts :: "Operation \<Rightarrow> OperationKind \<times> OperationSpecification" where
  "operation_parts (MoveOp specification) = (Move, specification)"
| "operation_parts (CopyOp specification) = (Copy, specification)"

definition note_precondition ::
    "nat \<Rightarrow> (string \<rightharpoonup> Precondition) \<Rightarrow> WorkspaceRelativePath \<times> Precondition
      \<Rightarrow> CoreError + (string \<rightharpoonup> Precondition)" where
  "note_precondition operation_index by_path entry =
     (case entry of (path, precondition) \<Rightarrow>
        case by_path (path_value path) of
          Some previous \<Rightarrow>
            if previous \<noteq> precondition
            then Err (EditConflict ''incompatible_preconditions'' (Some operation_index))
            else Ok (by_path(path_value path \<mapsto> precondition))
        | None \<Rightarrow> Ok (by_path(path_value path \<mapsto> precondition)))"

definition validate_precondition_consistency :: "BatchSpecification \<Rightarrow> CoreError + unit" where
  "validate_precondition_consistency batch =
     and_then
       (try_fold (\<lambda>by_path (index, operation).
          and_then (to_u64 index ''operations'') (\<lambda>operation_index.
          let (_, specification) = operation_parts operation in
          try_fold (note_precondition operation_index) by_path
            [(ss_path (os_source specification), ss_precondition (os_source specification)),
             (de_path (os_destination specification), de_precondition (os_destination specification))]))
        Map.empty (enumerate 0 (bs_operations batch)))
       (\<lambda>_. Ok ())"

definition existing_source ::
    "StatesByPath \<Rightarrow> OperationSpecification \<Rightarrow> nat \<Rightarrow> CoreError + FileSnapshot" where
  "existing_source states specification operation_index =
     (case ss_precondition (os_source specification) of
        MustNotExist \<Rightarrow> Err (conflict ''source_must_exist'' operation_index)
      | Sha256 expected \<Rightarrow>
          (case states (path_value (ss_path (os_source specification))) of
             Some (Existing file) \<Rightarrow>
               if fs_digest file \<noteq> expected
               then Err (conflict ''source_precondition_failed'' operation_index)
               else Ok file
           | _ \<Rightarrow> Err (conflict ''source_not_in_snapshot'' operation_index)))"

definition destination_state ::
    "StatesByPath \<Rightarrow> OperationSpecification \<Rightarrow> nat \<Rightarrow> CoreError + SnapshotState" where
  "destination_state states specification operation_index =
     (case states (path_value (de_path (os_destination specification))) of
        None \<Rightarrow> Err (conflict ''destination_not_in_snapshot'' operation_index)
      | Some state \<Rightarrow>
          (case (de_precondition (os_destination specification), state) of
             (Sha256 expected, Existing file) \<Rightarrow>
               if expected = fs_digest file then Ok state
               else Err (conflict ''destination_precondition_failed'' operation_index)
           | (MustNotExist, Absent _) \<Rightarrow> Ok state
           | (Sha256 _, Absent _) \<Rightarrow> Err (conflict ''destination_state_mismatch'' operation_index)
           | (MustNotExist, Existing _) \<Rightarrow>
               Err (conflict ''destination_state_mismatch'' operation_index)))"

definition resolve_selector :: "FileSnapshot \<Rightarrow> Selector \<Rightarrow> nat \<Rightarrow> CoreError + ByteRange" where
  "resolve_selector source selector operation_index =
     and_then (to_u64 (length (fs_bytes source)) ''snapshot_bytes'') (\<lambda>len.
     case selector of
       Lines start fin \<Rightarrow>
         if start = 0 \<or> fin < start
         then Err (conflict ''line_selector_out_of_range'' operation_index)
         else
           (case line_start (fs_line_index source) start of
              None \<Rightarrow> Err (conflict ''line_selector_out_of_range'' operation_index)
            | Some s \<Rightarrow>
                (case line_end (fs_line_index source) fin of
                   None \<Rightarrow> Err (conflict ''line_selector_out_of_range'' operation_index)
                 | Some e \<Rightarrow> Ok \<lparr>range_start = s, range_end = e\<rparr>))
     | Bytes start fin \<Rightarrow>
         if start < fin \<and> fin \<le> len then Ok \<lparr>range_start = start, range_end = fin\<rparr>
         else Err (conflict ''byte_selector_out_of_range'' operation_index))"

definition resolve_anchor :: "SnapshotState \<Rightarrow> Anchor \<Rightarrow> nat \<Rightarrow> CoreError + nat" where
  "resolve_anchor destination anchor operation_index =
     (case destination of
        Existing file \<Rightarrow>
          and_then (to_u64 (length (fs_bytes file)) ''snapshot_bytes'') (\<lambda>len.
          case anchor of
            FileStart \<Rightarrow> Ok 0
          | FileEnd \<Rightarrow> Ok len
          | BeforeLine line \<Rightarrow>
              ok_or (line_start (fs_line_index file) line)
                (conflict ''line_anchor_out_of_range'' operation_index)
          | AfterLine line \<Rightarrow>
              ok_or (line_end (fs_line_index file) line)
                (conflict ''line_anchor_out_of_range'' operation_index)
          | ByteOffset offset \<Rightarrow>
              if offset \<le> len then Ok offset
              else Err (conflict ''byte_anchor_out_of_range'' operation_index))
      | Absent absent \<Rightarrow>
          (case anchor of
             FileStart \<Rightarrow> Ok 0
           | FileEnd \<Rightarrow> Ok 0
           | ByteOffset offset \<Rightarrow>
               if offset = 0 then Ok 0
               else Err (conflict ''new_file_anchor_out_of_range'' operation_index)
           | _ \<Rightarrow> Err (conflict ''new_file_anchor_out_of_range'' operation_index)))"

definition digest_range ::
    "(bytes \<Rightarrow> Sha256Digest) \<Rightarrow> FileSnapshot \<Rightarrow> ByteRange \<Rightarrow> CoreError + Sha256Digest" where
  "digest_range H file r = and_then (slice_range (fs_bytes file) r) (\<lambda>bs. Ok (H bs))"

subsection \<open>Edits per output\<close>

record Insertion =
  in_operation_index :: nat
  in_snapshot_file_id :: SnapshotFileId
  in_range :: ByteRange
  in_payload_digest :: Sha256Digest

record OutputEdits =
  oe_path :: WorkspaceRelativePath
  oe_existing_file_id :: "SnapshotFileId option"
  oe_original_length :: nat
  oe_original_digest :: "Sha256Digest option"
  oe_deletions :: "(nat \<times> ByteRange) list"
  oe_insertions :: "(nat \<times> Insertion) list"

record PointEvents =
  deletion_end :: bool
  pe_insertions :: "Insertion list"
  deletion_start :: bool

type_synonym EditsByPath = "(WorkspaceRelativePath, OutputEdits) btree"

text \<open>
  The entry for a path, created when absent, together with the map that holds it: the source
  returns a mutable reference into the map.
\<close>

definition output_edits ::
    "EditsByPath \<Rightarrow> WorkspaceRelativePath \<Rightarrow> SnapshotState \<Rightarrow> CoreError + (EditsByPath \<times> OutputEdits)" where
  "output_edits edits path state =
     and_then
       (case state of
          Existing file \<Rightarrow>
            and_then (to_u64 (length (fs_bytes file)) ''snapshot_bytes'') (\<lambda>len.
              Ok (Some (fs_id file), len, Some (fs_digest file)))
        | Absent _ \<Rightarrow> Ok (None, 0, None)) (\<lambda>(existing_file_id, original_length, original_digest).
     let output =
           (case bt_get edits path of
              Some output \<Rightarrow> output
            | None \<Rightarrow> \<lparr>oe_path = path, oe_existing_file_id = existing_file_id,
                       oe_original_length = original_length, oe_original_digest = original_digest,
                       oe_deletions = [], oe_insertions = []\<rparr>)
     in if oe_existing_file_id output \<noteq> existing_file_id
        then Err (EditConflict ''path_used_as_absent_and_existing'' None)
        else Ok (bt_put path output edits, output))"

subsection \<open>Conflicts\<close>

fun check_adjacent :: "(nat \<times> ByteRange) list \<Rightarrow> CoreError + unit" where
  "check_adjacent ((_, previous) # (operation_index, current) # rest) =
     (if range_start current < range_end previous
      then Err (conflict ''overlapping_move_deletions'' operation_index)
      else check_adjacent ((operation_index, current) # rest))"
| "check_adjacent _ = Ok ()"

fun check_insertions ::
    "(nat \<times> ByteRange) list \<Rightarrow> (nat \<times> Insertion) list \<Rightarrow> CoreError + unit" where
  "check_insertions deletions [] = Ok ()"
| "check_insertions deletions ((offset, insertion) # rest) =
     (if list_ex (\<lambda>(_, r). range_start r < offset \<and> offset < range_end r) deletions
      then Err (conflict ''insertion_inside_move_deletion'' (in_operation_index insertion))
      else check_insertions deletions rest)"

definition deletion_key :: "nat \<times> ByteRange \<Rightarrow> nat \<times> nat \<times> nat" where
  "deletion_key d = (range_start (snd d), range_end (snd d), fst d)"

definition validate_edit_conflicts :: "OutputEdits \<Rightarrow> CoreError + unit" where
  "validate_edit_conflicts edits =
     (let deletions = sort_key deletion_key (oe_deletions edits) in
      and_then (check_adjacent deletions) (\<lambda>_.
      check_insertions deletions (oe_insertions edits)))"

subsection \<open>Segment recipes\<close>

definition default_point :: PointEvents where
  "default_point = \<lparr>deletion_end = False, pe_insertions = [], deletion_start = False\<rparr>"

definition point_entry :: "(nat, PointEvents) btree \<Rightarrow> nat \<Rightarrow> PointEvents" where
  "point_entry points offset =
     (case bt_get points offset of Some point \<Rightarrow> point | None \<Rightarrow> default_point)"

definition mark_deletion ::
    "nat \<times> ByteRange \<Rightarrow> (nat, PointEvents) btree \<Rightarrow> (nat, PointEvents) btree" where
  "mark_deletion d points =
     (let r = snd d;
          points1 = bt_put (range_start r)
            ((point_entry points (range_start r))\<lparr>deletion_start := True\<rparr>) points
      in bt_put (range_end r) ((point_entry points1 (range_end r))\<lparr>deletion_end := True\<rparr>) points1)"

definition mark_insertion ::
    "nat \<times> Insertion \<Rightarrow> (nat, PointEvents) btree \<Rightarrow> (nat, PointEvents) btree" where
  "mark_insertion i points =
     (let point = point_entry points (fst i)
      in bt_put (fst i) (point\<lparr>pe_insertions := pe_insertions point @ [snd i]\<rparr>) points)"

definition sort_point :: "PointEvents \<Rightarrow> PointEvents" where
  "sort_point point = point\<lparr>pe_insertions := sort_key in_operation_index (pe_insertions point)\<rparr>"

definition edit_points :: "OutputEdits \<Rightarrow> (nat, PointEvents) btree" where
  "edit_points edits =
     map (\<lambda>(offset, point). (offset, sort_point point))
       (fold mark_insertion (oe_insertions edits) (fold mark_deletion (oe_deletions edits) []))"

definition payload_slice :: "Insertion \<Rightarrow> OutputSegment" where
  "payload_slice insertion =
     PayloadSlice (in_operation_index insertion) (in_snapshot_file_id insertion)
       (in_range insertion) (in_payload_digest insertion)"

definition original_slice :: "OutputEdits \<Rightarrow> nat \<Rightarrow> nat \<Rightarrow> CoreError + OutputSegment list" where
  "original_slice edits cursor offset =
     and_then (ok_or (oe_existing_file_id edits)
       (InvalidDomainValue ''absent_output_original_slice'')) (\<lambda>snapshot_file_id.
     Ok [OriginalSlice snapshot_file_id \<lparr>range_start = cursor, range_end = offset\<rparr>])"

fun segment_loop ::
    "OutputEdits \<Rightarrow> (nat, PointEvents) btree \<Rightarrow> nat \<Rightarrow> bool \<Rightarrow> OutputSegment list
      \<Rightarrow> CoreError + OutputSegment list" where
  "segment_loop edits [] cursor deleting segments =
     (if cursor < oe_original_length edits \<and> \<not> deleting
      then and_then (original_slice edits cursor (oe_original_length edits)) (\<lambda>kept.
        Ok (segments @ kept))
      else Ok segments)"
| "segment_loop edits ((offset, point) # points) cursor deleting segments =
     (if oe_original_length edits < offset then Err (InvalidDomainValue ''event_offset'')
      else
        and_then (if cursor < offset \<and> \<not> deleting then original_slice edits cursor offset else Ok [])
          (\<lambda>kept.
        let deleting1 = (if deletion_end point then False else deleting);
            segments1 = segments @ kept @ map payload_slice (pe_insertions point);
            deleting2 = (if deletion_start point then True else deleting1)
        in segment_loop edits points offset deleting2 segments1))"

definition build_segments :: "OutputEdits \<Rightarrow> CoreError + OutputSegment list" where
  "build_segments edits = segment_loop edits (edit_points edits) 0 False []"

subsection \<open>Streaming evaluation\<close>

fun segment_source :: "OutputSegment \<Rightarrow> SnapshotFileId \<times> ByteRange" where
  "segment_source (OriginalSlice file_id r) = (file_id, r)"
| "segment_source (PayloadSlice _ file_id r _) = (file_id, r)"

definition segment_bytes :: "FilesById \<Rightarrow> OutputSegment \<Rightarrow> CoreError + bytes" where
  "segment_bytes files_by_id segment =
     (case segment_source segment of (file_id, r) \<Rightarrow>
        and_then (ok_or (files_by_id file_id) (InvalidDomainValue ''segment_snapshot_file_id''))
          (\<lambda>file. slice_range (fs_bytes file) r))"

record StreamState =
  st_hashed :: bytes
  st_resulting_length :: nat
  st_comparison_offset :: nat
  st_equals_original :: bool

definition stream_segment ::
    "FilesById \<Rightarrow> bytes option \<Rightarrow> StreamState \<Rightarrow> OutputSegment \<Rightarrow> CoreError + StreamState" where
  "stream_segment files_by_id original st segment =
     and_then (segment_bytes files_by_id segment) (\<lambda>bs.
     and_then (to_u64 (length bs) ''planned_output_bytes'') (\<lambda>segment_length.
     and_then (ok_or (checked_add_u64 (st_resulting_length st) segment_length)
       (limit_overflow ''planned_output_bytes'')) (\<lambda>resulting_length.
     let st1 = st\<lparr>st_resulting_length := resulting_length, st_hashed := st_hashed st @ bs\<rparr> in
     Ok (case original of
           None \<Rightarrow> st1
         | Some orig \<Rightarrow>
             (let comparison_end = saturating_add_u64 (st_comparison_offset st) (length bs)
              in st1\<lparr>st_equals_original :=
                      (if length orig < comparison_end \<or>
                          get_slice orig (st_comparison_offset st) comparison_end \<noteq> Some bs
                       then False else st_equals_original st),
                     st_comparison_offset := comparison_end\<rparr>)))))"

definition stream_output ::
    "(bytes \<Rightarrow> Sha256Digest) \<Rightarrow> OutputSegment list \<Rightarrow> FilesById \<Rightarrow> SnapshotFileId option
      \<Rightarrow> CoreError + (nat \<times> Sha256Digest \<times> bool)" where
  "stream_output H segments files_by_id original_file_id =
     and_then
       (case original_file_id of
          None \<Rightarrow> Ok None
        | Some file_id \<Rightarrow>
            and_then (ok_or (files_by_id file_id) (InvalidDomainValue ''output_snapshot_file_id''))
              (\<lambda>file. Ok (Some (fs_bytes file)))) (\<lambda>original.
     and_then
       (try_fold (stream_segment files_by_id original)
         \<lparr>st_hashed = [], st_resulting_length = 0, st_comparison_offset = 0,
          st_equals_original = (original \<noteq> None)\<rparr> segments) (\<lambda>st.
     let equals_original =
           (case original of
              Some orig \<Rightarrow> if st_comparison_offset st \<noteq> length orig then False
                else st_equals_original st
            | None \<Rightarrow> st_equals_original st)
     in Ok (st_resulting_length st, H (st_hashed st), equals_original)))"

definition classify_output :: "bool \<Rightarrow> nat \<Rightarrow> bool \<Rightarrow> OutputChange" where
  "classify_output existing resulting_length equals_original =
     (if \<not> existing then CreatedNew
      else if equals_original then Unchanged
      else if resulting_length = 0 then EmptiedExisting
      else ModifiedExisting)"

section \<open>Reference semantics of edits\<close>

definition deleted_at :: "(nat \<times> ByteRange) list \<Rightarrow> nat \<Rightarrow> bool" where
  "deleted_at dels i \<longleftrightarrow> list_ex (\<lambda>(_, r). range_start r \<le> i \<and> i < range_end r) dels"

definition insertions_at :: "(nat \<times> Insertion) list \<Rightarrow> nat \<Rightarrow> Insertion list" where
  "insertions_at inss i =
     sort_key in_operation_index (map snd (filter (\<lambda>x. fst x = i) inss))"

definition apply_edits ::
    "(Insertion \<Rightarrow> bytes) \<Rightarrow> bytes \<Rightarrow> (nat \<times> ByteRange) list \<Rightarrow> (nat \<times> Insertion) list \<Rightarrow> bytes" where
  "apply_edits payload orig dels inss =
     concat (map (\<lambda>i. concat (map payload (insertions_at inss i)) @
         (if i < length orig \<and> \<not> deleted_at dels i then [orig ! i] else []))
       [0..<Suc (length orig)])"

definition disjoint_ranges :: "ByteRange \<Rightarrow> ByteRange \<Rightarrow> bool" where
  "disjoint_ranges r s \<longleftrightarrow> range_end r \<le> range_start s \<or> range_end s \<le> range_start r"

definition valid_range :: "nat \<Rightarrow> ByteRange \<Rightarrow> bool" where
  "valid_range n r \<longleftrightarrow> range_start r < range_end r \<and> range_end r \<le> n"

definition disjoint_deletions :: "(nat \<times> ByteRange) list \<Rightarrow> bool" where
  "disjoint_deletions dels \<longleftrightarrow> sorted_wrt (\<lambda>d e. disjoint_ranges (snd d) (snd e)) dels"

definition wf_edits :: "OutputEdits \<Rightarrow> bool" where
  "wf_edits e \<longleftrightarrow>
     list_all (\<lambda>d. valid_range (oe_original_length e) (snd d)) (oe_deletions e) \<and>
     list_all (\<lambda>i. fst i \<le> oe_original_length e) (oe_insertions e) \<and>
     (oe_existing_file_id e = None \<longrightarrow> oe_original_length e = 0)"

section \<open>Conflict detection\<close>

lemma sorted_wrt_insort_key:
  "symp R \<Longrightarrow> sorted_wrt R (insort_key f x xs) \<longleftrightarrow> (\<forall>y \<in> set xs. R x y) \<and> sorted_wrt R xs"
  by (induction xs) (auto simp: set_insort_key dest: sympD)

lemma sorted_wrt_sort_key: "symp R \<Longrightarrow> sorted_wrt R (sort_key f xs) \<longleftrightarrow> sorted_wrt R xs"
  by (induction xs) (auto simp: sorted_wrt_insort_key)

lemma symp_disjoint: "symp (\<lambda>d e. disjoint_ranges (snd d) (snd e))"
  by (auto simp: symp_def disjoint_ranges_def)

lemma check_adjacent_cases:
  "check_adjacent xs = Ok () \<or> (\<exists>k. check_adjacent xs = Err (conflict ''overlapping_move_deletions'' k))"
  by (induction xs rule: check_adjacent.induct) auto

lemma check_adjacent_sorted:
  assumes "sorted (map deletion_key ds)" "\<forall>d \<in> set ds. range_start (snd d) < range_end (snd d)"
  shows "check_adjacent ds = Ok () \<longleftrightarrow> sorted_wrt (\<lambda>d e. disjoint_ranges (snd d) (snd e)) ds"
  using assms
proof (induction ds rule: check_adjacent.induct)
  case (1 k p j c rest)
  have pc: "range_start p \<le> range_start c"
    using 1(2) by (auto simp: deletion_key_def less_eq_prod_def)
  have later: "range_start c \<le> range_start (snd x)" if "x \<in> set rest" for x
    using 1(2) that by (auto simp: deletion_key_def less_eq_prod_def)
  have sc: "range_start c < range_end c" and sp: "range_start p < range_end p" using 1(3) by auto
  show ?case
  proof (cases "range_start c < range_end p")
    case True
    then have "\<not> disjoint_ranges p c" using pc sc by (auto simp: disjoint_ranges_def)
    with True show ?thesis by simp
  next
    case False
    then have "disjoint_ranges p c" "\<forall>x \<in> set rest. disjoint_ranges p (snd x)"
      using later by (fastforce simp: disjoint_ranges_def)+
    with False 1 show ?thesis by simp
  qed
qed auto

lemma check_insertions_Ok_iff:
  "check_insertions ds is = Ok () \<longleftrightarrow>
     (\<forall>(off, i) \<in> set is. \<forall>(k, r) \<in> set ds. \<not> (range_start r < off \<and> off < range_end r))"
  by (induction ds "is" rule: check_insertions.induct) (fastforce simp: list_ex_iff split: if_splits)+

lemma validate_edit_conflicts_Ok_iff:
  assumes "wf_edits e"
  shows "validate_edit_conflicts e = Ok () \<longleftrightarrow>
    disjoint_deletions (oe_deletions e) \<and>
    (\<forall>(off, i) \<in> set (oe_insertions e). \<forall>(k, r) \<in> set (oe_deletions e).
       \<not> (range_start r < off \<and> off < range_end r))"
proof -
  have "\<forall>d \<in> set (sort_key deletion_key (oe_deletions e)). range_start (snd d) < range_end (snd d)"
    using assms by (auto simp: wf_edits_def valid_range_def list_all_iff)
  then have "check_adjacent (sort_key deletion_key (oe_deletions e)) = Ok () \<longleftrightarrow>
      disjoint_deletions (oe_deletions e)"
    by (simp add: check_adjacent_sorted sorted_wrt_sort_key symp_disjoint disjoint_deletions_def)
  then show ?thesis
    by (auto simp: validate_edit_conflicts_def Let_def check_insertions_Ok_iff)
qed

section \<open>The table of edit points\<close>

lemma point_entry_put [simp]:
  "point_entry (bt_put k p m) j = (if j = k then p else point_entry m j)"
  by (simp add: point_entry_def bt_get_put)

definition mentions :: "(nat, PointEvents) btree \<Rightarrow> nat set" where
  "mentions m = fst ` set m"

lemma mentions_put [simp]: "mentions (bt_put k p m) = insert k (mentions m)"
  by (simp add: mentions_def set_bt_put)

lemma mark_deletions:
  "bt_sorted m \<Longrightarrow> bt_sorted (fold mark_deletion ds m) \<and>
     mentions (fold mark_deletion ds m) =
       mentions m \<union> (\<Union>d \<in> set ds. {range_start (snd d), range_end (snd d)}) \<and>
     point_entry (fold mark_deletion ds m) o' = (point_entry m o')\<lparr>
       deletion_end := deletion_end (point_entry m o') \<or> (\<exists>d \<in> set ds. range_end (snd d) = o'),
       deletion_start := deletion_start (point_entry m o') \<or> (\<exists>d \<in> set ds. range_start (snd d) = o')\<rparr>"
proof (induction ds arbitrary: m)
  case (Cons d ds)
  have "bt_sorted (mark_deletion d m)"
    using Cons.prems by (simp add: mark_deletion_def Let_def bt_sorted_put)
  from Cons.IH[OF this] show ?case
    by (auto simp: mark_deletion_def Let_def)
qed simp

lemma mark_insertions:
  "bt_sorted m \<Longrightarrow> bt_sorted (fold mark_insertion is m) \<and>
     mentions (fold mark_insertion is m) = mentions m \<union> fst ` set is \<and>
     point_entry (fold mark_insertion is m) o' = (point_entry m o')\<lparr>
       pe_insertions := pe_insertions (point_entry m o') @ map snd (filter (\<lambda>x. fst x = o') is)\<rparr>"
proof (induction "is" arbitrary: m)
  case (Cons i "is")
  have "bt_sorted (mark_insertion i m)"
    using Cons.prems by (simp add: mark_insertion_def Let_def bt_sorted_put)
  from Cons.IH[OF this] show ?case
    by (auto simp: mark_insertion_def Let_def)
qed simp

definition event_at :: "OutputEdits \<Rightarrow> nat \<Rightarrow> PointEvents" where
  "event_at e i = \<lparr>
     deletion_end = list_ex (\<lambda>d. range_end (snd d) = i) (oe_deletions e),
     pe_insertions = insertions_at (oe_insertions e) i,
     deletion_start = list_ex (\<lambda>d. range_start (snd d) = i) (oe_deletions e)\<rparr>"

definition event_offsets :: "OutputEdits \<Rightarrow> nat set" where
  "event_offsets e = (\<Union>d \<in> set (oe_deletions e). {range_start (snd d), range_end (snd d)}) \<union>
     fst ` set (oe_insertions e)"

lemma edit_points_events:
  "\<exists>ks. sorted_wrt (<) ks \<and> set ks = event_offsets e \<and>
     edit_points e = map (\<lambda>k. (k, event_at e k)) ks"
proof -
  let ?md = "fold mark_deletion (oe_deletions e) []"
  let ?m = "fold mark_insertion (oe_insertions e) ?md"
  have e0: "bt_sorted ([] :: (nat, PointEvents) btree)" "mentions [] = {}"
    "point_entry [] j = default_point" for j
    by (simp_all add: bt_sorted_def mentions_def point_entry_def bt_get_def)
  note d = mark_deletions[OF e0(1), of "oe_deletions e"]
  note i = mark_insertions[of ?md "oe_insertions e"]
  have s: "bt_sorted ?m" using d i by blast
  have st: "set (map fst ?m) = event_offsets e"
    using d i e0(2) by (simp add: mentions_def event_offsets_def)
  have pt: "sort_point (point_entry ?m k) = event_at e k" for k
    using d i by (simp add: e0 sort_point_def event_at_def insertions_at_def default_point_def list_ex_iff)
  have "(k, p) \<in> set ?m \<Longrightarrow> p = point_entry ?m k" for k p
    using s by (simp add: point_entry_def bt_get_def bt_sorted_distinct)
  then have "edit_points e = map (\<lambda>k. (k, event_at e k)) (map fst ?m)"
    by (auto simp: edit_points_def pt[symmetric])
  with s st show ?thesis unfolding bt_sorted_def by blast
qed

section \<open>The sweep implements the reference semantics\<close>

lemma deleted_at_iff:
  "deleted_at ds i \<longleftrightarrow> (\<exists>d \<in> set ds. range_start (snd d) \<le> i \<and> i < range_end (snd d))"
  by (auto simp: deleted_at_def list_ex_iff case_prod_unfold)

lemma disjoint_deletionsD:
  assumes "disjoint_deletions ds" "d \<in> set ds" "d' \<in> set ds"
  shows "snd d = snd d' \<or> disjoint_ranges (snd d) (snd d')"
  using assms unfolding disjoint_deletions_def
  by (induction ds) (auto simp: disjoint_ranges_def)

lemma deleted_at_step:
  assumes "Suc i \<notin> event_offsets e"
  shows "deleted_at (oe_deletions e) (Suc i) = deleted_at (oe_deletions e) i"
  using assms unfolding deleted_at_iff event_offsets_def
  by (auto simp: less_Suc_eq Suc_lessI le_Suc_eq intro: Suc_lessI)

lemma deleted_at_run:
  assumes "\<forall>j. c < j \<and> j < q \<longrightarrow> j \<notin> event_offsets e" "c \<le> i" "i < q"
  shows "deleted_at (oe_deletions e) i = deleted_at (oe_deletions e) c"
  using assms(2,3)
proof (induction i rule: dec_induct)
  case (step i)
  then show ?case using assms(1) deleted_at_step[of i e] by simp
qed simp

lemma insertions_at_none: "i \<notin> event_offsets e \<Longrightarrow> insertions_at (oe_insertions e) i = []"
proof -
  assume "i \<notin> event_offsets e"
  then have "filter (\<lambda>x. fst x = i) (oe_insertions e) = []"
    by (force simp: event_offsets_def filter_empty_conv)
  then show ?thesis by (simp add: insertions_at_def)
qed

lemma deleted_at_event:
  assumes "list_all (\<lambda>d. valid_range n (snd d)) (oe_deletions e)" "disjoint_deletions (oe_deletions e)"
    and "0 < q"
  shows "deleted_at (oe_deletions e) q \<longleftrightarrow>
    (deletion_start (event_at e q) \<or>
     \<not> deletion_end (event_at e q) \<and> deleted_at (oe_deletions e) (q - 1))"
proof -
  let ?D = "oe_deletions e"
  have valid: "range_start (snd d) < range_end (snd d)" if "d \<in> set ?D" for d
    using assms(1) that by (auto simp: list_all_iff valid_range_def)
  show ?thesis
  proof (cases "deletion_start (event_at e q)")
    case True
    then show ?thesis using valid by (auto simp: event_at_def list_ex_iff deleted_at_iff)
  next
    case False
    note nostart = this
    show ?thesis
    proof (cases "deletion_end (event_at e q)")
      case True
      then obtain d where d: "d \<in> set ?D" "range_end (snd d) = q"
        by (auto simp: event_at_def list_ex_iff)
      have "\<not> deleted_at ?D q"
      proof
        assume "deleted_at ?D q"
        then obtain d' where d': "d' \<in> set ?D" "range_start (snd d') \<le> q" "q < range_end (snd d')"
          by (auto simp: deleted_at_iff)
        then have "range_start (snd d') < q"
          using nostart by (cases "range_start (snd d') = q") (auto simp: event_at_def list_ex_iff)
        with d d' valid[OF d(1)] disjoint_deletionsD[OF assms(2) d(1) d'(1)] show False
          by (auto simp: disjoint_ranges_def)
      qed
      with True nostart show ?thesis by simp
    next
      case False
      with nostart assms(3) show ?thesis
        by (cases q) (fastforce simp: event_at_def list_ex_iff deleted_at_iff less_Suc_eq le_Suc_eq)+
    qed
  qed
qed

definition kept_at :: "bytes \<Rightarrow> OutputEdits \<Rightarrow> nat \<Rightarrow> bytes" where
  "kept_at orig e i = (if \<not> deleted_at (oe_deletions e) i then [orig ! i] else [])"

definition inserted_at :: "(Insertion \<Rightarrow> bytes) \<Rightarrow> OutputEdits \<Rightarrow> nat \<Rightarrow> bytes" where
  "inserted_at payload e i = concat (map payload (insertions_at (oe_insertions e) i))"

definition rest_from :: "(Insertion \<Rightarrow> bytes) \<Rightarrow> bytes \<Rightarrow> OutputEdits \<Rightarrow> nat \<Rightarrow> bytes" where
  "rest_from payload orig e c =
     concat (map (\<lambda>i. kept_at orig e i @ inserted_at payload e (Suc i)) [c..<length orig])"

lemma apply_edits_rest:
  "apply_edits payload orig (oe_deletions e) (oe_insertions e) =
     inserted_at payload e 0 @ rest_from payload orig e 0"
proof -
  have shift: "concat (map (\<lambda>i. f i @ g i) [0..<n]) @ f n =
      f 0 @ concat (map (\<lambda>i. g i @ f (Suc i)) [0..<n])" for f g :: "nat \<Rightarrow> bytes" and n
    by (induction n) simp_all
  have "concat (map (\<lambda>i. inserted_at payload e i @
        (if i < length orig \<and> \<not> deleted_at (oe_deletions e) i then [orig ! i] else [])) [0..<length orig]) =
      concat (map (\<lambda>i. inserted_at payload e i @ kept_at orig e i) [0..<length orig])"
    by (intro arg_cong[where f = concat] map_cong) (auto simp: kept_at_def)
  then show ?thesis
    using shift[of "inserted_at payload e" "kept_at orig e" "length orig"]
    by (simp add: apply_edits_def rest_from_def flip: inserted_at_def)
qed

lemma kept_run:
  assumes "\<forall>j. c < j \<and> j < q \<longrightarrow> j \<notin> event_offsets e" "c \<le> q" "q \<le> length orig"
  shows "concat (map (kept_at orig e) [c..<q]) =
    (if deleted_at (oe_deletions e) c then [] else slice orig c q)"
proof -
  have "kept_at orig e i = (if deleted_at (oe_deletions e) c then [] else [orig ! i])"
    if "c \<le> i" "i < q" for i
    using deleted_at_run[OF assms(1) that] by (simp add: kept_at_def)
  then have "concat (map (kept_at orig e) [c..<q]) =
      concat (map (\<lambda>i. if deleted_at (oe_deletions e) c then [] else [orig ! i]) [c..<q])"
    by (intro arg_cong[where f = concat] map_cong) auto
  also have "\<dots> = (if deleted_at (oe_deletions e) c then [] else slice orig c q)"
    using assms(3) by (simp add: slice_conv_nth)
  finally show ?thesis .
qed

lemma concat_interleave:
  "c < q \<Longrightarrow> (\<And>j. c < j \<Longrightarrow> j < q \<Longrightarrow> f j = []) \<Longrightarrow>
     concat (map (\<lambda>i. k i @ f (Suc i)) [c..<q]) = concat (map k [c..<q]) @ (f q :: bytes)"
proof (induction q)
  case (Suc q)
  show ?case
  proof (cases "c = q")
    case False
    with Suc.prems(1) have "c < q" by simp
    with Suc.IH Suc.prems(2) show ?thesis by simp
  qed simp
qed simp

lemma rest_from_split:
  assumes "\<forall>j. c < j \<and> j < q \<longrightarrow> j \<notin> event_offsets e" "c < q" "q \<le> length orig"
  shows "rest_from payload orig e c =
    (if deleted_at (oe_deletions e) c then [] else slice orig c q) @
    inserted_at payload e q @ rest_from payload orig e q"
proof -
  have none: "inserted_at payload e j = []" if "c < j" "j < q" for j
    using assms(1) that by (simp add: inserted_at_def insertions_at_none)
  have "[c..<length orig] = [c..<q] @ [q..<length orig]"
    using assms(2,3) upt_add_eq_append[of c q "length orig - q"] by simp
  then show ?thesis
    using concat_interleave[of c q "inserted_at payload e" "kept_at orig e", OF assms(2) none]
      kept_run[OF assms(1) less_imp_le[OF assms(2)] assms(3)]
    by (simp add: rest_from_def)
qed

lemma rest_from_end:
  assumes "\<forall>j. c < j \<longrightarrow> j \<notin> event_offsets e" "c \<le> length orig"
  shows "rest_from payload orig e c =
    (if deleted_at (oe_deletions e) c then [] else slice orig c (length orig))"
proof (cases "c = length orig")
  case True
  then show ?thesis by (simp add: rest_from_def)
next
  case False
  with assms rest_from_split[of c "length orig" e orig payload] show ?thesis
    by (simp add: rest_from_def inserted_at_def insertions_at_none)
qed

text \<open>The bytes of a segment, for an output whose original bytes are \<open>orig\<close>.\<close>

definition recipe_data ::
    "(Insertion \<Rightarrow> bytes) \<Rightarrow> bytes \<Rightarrow> (OutputSegment \<Rightarrow> bytes) \<Rightarrow> OutputEdits \<Rightarrow> bool" where
  "recipe_data payload orig data e \<longleftrightarrow>
     length orig = oe_original_length e \<and>
     (\<forall>k r. oe_existing_file_id e = Some k \<longrightarrow>
        data (OriginalSlice k r) = slice orig (range_start r) (range_end r)) \<and>
     (\<forall>i. data (payload_slice i) = payload i)"

lemma original_slice_data:
  assumes "recipe_data payload orig data e" "wf_edits e" "c < q" "q \<le> oe_original_length e"
  shows "\<exists>k. original_slice e c q = Ok [OriginalSlice k \<lparr>range_start = c, range_end = q\<rparr>] \<and>
    oe_existing_file_id e = Some k \<and>
    data (OriginalSlice k \<lparr>range_start = c, range_end = q\<rparr>) = slice orig c q"
  using assms by (cases "oe_existing_file_id e") (auto simp: wf_edits_def recipe_data_def original_slice_def)

lemma segment_loop_correct:
  assumes "recipe_data payload orig data e" "wf_edits e" "disjoint_deletions (oe_deletions e)"
    and "sorted_wrt (<) ks" "set ks = {k \<in> event_offsets e. c < k}" "c \<le> length orig"
    and "deleting = deleted_at (oe_deletions e) c"
  shows "\<exists>out. segment_loop e (map (\<lambda>k. (k, event_at e k)) ks) c deleting segs = Ok (segs @ out) \<and>
    concat (map data out) = rest_from payload orig e c"
  using assms(4-7)
proof (induction ks arbitrary: c deleting segs)
  case Nil
  then have none: "\<forall>j. c < j \<longrightarrow> j \<notin> event_offsets e" by auto
  have len: "oe_original_length e = length orig" using assms(1) by (simp add: recipe_data_def)
  show ?case
  proof (cases "c < length orig \<and> \<not> deleting")
    case True
    with original_slice_data[OF assms(1,2), of c "length orig"] Nil rest_from_end[OF none Nil(3)] len
    show ?thesis by auto
  next
    case False
    with Nil rest_from_end[OF none Nil(3)] len show ?thesis by (auto simp: rest_from_def)
  qed
next
  case (Cons q ks)
  have len: "oe_original_length e = length orig" using assms(1) by (simp add: recipe_data_def)
  have q: "q \<in> event_offsets e" "c < q" using Cons.prems(2) by auto
  have qn: "q \<le> length orig"
    using q(1) assms(2) len by (auto simp: event_offsets_def wf_edits_def valid_range_def list_all_iff)
  have gap: "\<forall>j. c < j \<and> j < q \<longrightarrow> j \<notin> event_offsets e"
    using Cons.prems(1,2) by fastforce
  have ks: "set ks = {k \<in> event_offsets e. q < k}"
    using Cons.prems(1,2) q by (auto dest: set_mp[OF equalityD1])
  let ?kept = "if deleting then [] else slice orig c q"
  let ?d' = "if deletion_start (event_at e q) then True
    else if deletion_end (event_at e q) then False else deleting"
  obtain kept where kept: "(if c < q \<and> \<not> deleting then original_slice e c q else Ok []) = Ok kept"
      "concat (map data kept) = ?kept"
    using original_slice_data[OF assms(1,2) q(2)] qn len q(2) by (cases deleting) auto
  have "?d' = deleted_at (oe_deletions e) q"
    using deleted_at_event[of _ e q] deleted_at_run[OF gap, of "q - 1"] assms(2,3) q(2) Cons.prems(4)
    by (auto simp: wf_edits_def)
  from Cons.IH[OF _ ks qn this, of "segs @ kept @ map payload_slice (pe_insertions (event_at e q))"]
  obtain out where out: "segment_loop e (map (\<lambda>k. (k, event_at e k)) ks) q ?d'
        (segs @ kept @ map payload_slice (pe_insertions (event_at e q))) =
        Ok ((segs @ kept @ map payload_slice (pe_insertions (event_at e q))) @ out)"
      "concat (map data out) = rest_from payload orig e q"
    using Cons.prems(1) by auto
  have "concat (map data (map payload_slice (pe_insertions (event_at e q)))) = inserted_at payload e q"
    using assms(1) by (simp add: event_at_def inserted_at_def recipe_data_def comp_def)
  with out kept qn len rest_from_split[OF gap q(2) qn, of payload] Cons.prems(4) show ?case
    by (intro exI[of _ "kept @ map payload_slice (pe_insertions (event_at e q)) @ out"])
      (auto simp: Let_def split: if_splits)
qed

lemma build_segments_correct:
  assumes "recipe_data payload orig data e" "wf_edits e" "disjoint_deletions (oe_deletions e)"
  shows "\<exists>out. build_segments e = Ok out \<and>
    concat (map data out) = apply_edits payload orig (oe_deletions e) (oe_insertions e)"
proof -
  obtain ks where ks: "sorted_wrt (<) ks" "set ks = event_offsets e"
      "edit_points e = map (\<lambda>k. (k, event_at e k)) ks"
    using edit_points_events by blast
  have d0: "deleted_at (oe_deletions e) 0 = deletion_start (event_at e 0)"
    using assms(2)
    by (force simp: deleted_at_iff event_at_def list_ex_iff wf_edits_def valid_range_def list_all_iff)
  show ?thesis
  proof (cases "0 \<in> event_offsets e")
    case True
    then have "0 \<in> set ks" using ks(2) by simp
    then obtain ks' where ks': "ks = 0 # ks'"
      using ks(1) by (cases ks) auto
    have s: "set ks' = {k \<in> event_offsets e. 0 < k}" using ks(1) by (auto simp: ks(2)[symmetric] ks')
    let ?p = "map payload_slice (pe_insertions (event_at e 0))"
    have "(if deletion_start (event_at e 0) then True
        else if deletion_end (event_at e 0) then False else False) = deleted_at (oe_deletions e) 0"
      using d0 by simp
    from segment_loop_correct[OF assms _ s _ this, of ?p]
    obtain out where "segment_loop e (map (\<lambda>k. (k, event_at e k)) ks') 0
          (if deletion_start (event_at e 0) then True
           else if deletion_end (event_at e 0) then False else False) ?p = Ok (?p @ out)"
        "concat (map data out) = rest_from payload orig e 0"
      using ks(1) ks' by auto
    moreover have "concat (map data ?p) = inserted_at payload e 0"
      using assms(1) by (simp add: event_at_def inserted_at_def recipe_data_def comp_def)
    ultimately show ?thesis
      by (intro exI[of _ "?p @ out"])
        (auto simp: build_segments_def ks(3) ks' apply_edits_rest Let_def split: if_splits)
  next
    case False
    then have "set ks = {k \<in> event_offsets e. 0 < k}" using ks(2) by (auto intro: Suc_leI gr0I)
    moreover have "False = deleted_at (oe_deletions e) 0"
      using d0 False by (auto simp: event_at_def list_ex_iff event_offsets_def)
    ultimately show ?thesis
      using segment_loop_correct[OF assms ks(1), of 0 False "[]"] False
      by (simp add: build_segments_def ks(3) apply_edits_rest inserted_at_def insertions_at_none)
  qed
qed

section \<open>Streaming a recipe\<close>

definition recipe_bytes :: "FilesById \<Rightarrow> OutputSegment list \<Rightarrow> CoreError + bytes" where
  "recipe_bytes files segments =
     and_then (try_map (segment_bytes files) segments) (\<lambda>parts. Ok (concat parts))"

lemma recipe_bytes_Nil [simp]: "recipe_bytes files [] = Ok []"
  by (simp add: recipe_bytes_def)

lemma recipe_bytes_Cons:
  "recipe_bytes files (s # segs) = Ok out \<longleftrightarrow>
     (\<exists>b rest. segment_bytes files s = Ok b \<and> recipe_bytes files segs = Ok rest \<and> out = b @ rest)"
  by (auto simp: recipe_bytes_def)

definition stream_inv :: "bytes option \<Rightarrow> bytes \<Rightarrow> StreamState \<Rightarrow> bool" where
  "stream_inv original done st \<longleftrightarrow>
     st_hashed st = done \<and> st_resulting_length st = length done \<and> length done \<le> u64_max \<and>
     (case original of
        None \<Rightarrow> \<not> st_equals_original st
      | Some orig \<Rightarrow> st_comparison_offset st = length done \<and>
          (st_equals_original st \<longleftrightarrow> length done \<le> length orig \<and> take (length done) orig = done))"

lemma take_extend_iff:
  "length a \<le> length o' \<and> take (length a) o' = a \<and> length a + length b \<le> length o' \<and>
     slice o' (length a) (length a + length b) = b \<longleftrightarrow>
   length (a @ b) \<le> length o' \<and> take (length (a @ b)) o' = a @ b"
  by (auto simp: slice_def take_add)

lemma stream_segment_inv:
  assumes "stream_inv original d st" "segment_bytes files s = Ok b"
  shows "(\<exists>st'. stream_segment files original st s = Ok st' \<and> stream_inv original (d @ b) st') \<longleftrightarrow>
      length (d @ b) \<le> u64_max"
    and "stream_segment files original st s = Ok st' \<Longrightarrow> stream_inv original (d @ b) st'"
proof -
  have key: "stream_inv original (d @ b) st'" if "stream_segment files original st s = Ok st'" for st'
  proof (cases original)
    case None
    with that assms show ?thesis
      by (auto simp: stream_segment_def stream_inv_def to_u64_def Let_def split: if_splits)
  next
    case (Some orig)
    with that assms take_extend_iff[of d orig b] show ?thesis
      by (auto simp: stream_segment_def stream_inv_def to_u64_def Let_def saturating_add_u64_def
          get_slice_def split: if_splits)
  qed
  show "stream_segment files original st s = Ok st' \<Longrightarrow> stream_inv original (d @ b) st'"
    by (rule key)
  have "(\<exists>st'. stream_segment files original st s = Ok st') \<longleftrightarrow> length (d @ b) \<le> u64_max"
    using assms by (auto simp: stream_segment_def stream_inv_def to_u64_def Let_def split: if_splits)
  with key show "(\<exists>st'. stream_segment files original st s = Ok st' \<and> stream_inv original (d @ b) st') \<longleftrightarrow>
      length (d @ b) \<le> u64_max" by blast
qed

lemma stream_fold_inv:
  assumes "stream_inv original d st" "recipe_bytes files segs = Ok out"
  shows "if length (d @ out) \<le> u64_max
    then \<exists>st'. try_fold (stream_segment files original) st segs = Ok st' \<and> stream_inv original (d @ out) st'
    else \<exists>err. try_fold (stream_segment files original) st segs = Err err"
  using assms
proof (induction segs arbitrary: d st out)
  case (Cons s segs)
  then obtain b rest where b: "segment_bytes files s = Ok b" "recipe_bytes files segs = Ok rest"
      "out = b @ rest" by (auto simp: recipe_bytes_Cons)
  show ?case
  proof (cases "stream_segment files original st s")
    case (Inl err)
    then have "\<not> length (d @ b) \<le> u64_max"
      using stream_segment_inv(1)[OF Cons.prems(1) b(1)] by auto
    with Inl b show ?thesis by simp
  next
    case (Inr st')
    then have "stream_inv original (d @ b) st'"
      using stream_segment_inv(2)[OF Cons.prems(1) b(1)] by blast
    from Cons.IH[OF this b(2)] Inr b show ?thesis by (simp split: if_splits)
  qed
qed (auto simp: stream_inv_def)

lemma stream_inv_start:
  "stream_inv original [] \<lparr>st_hashed = [], st_resulting_length = 0, st_comparison_offset = 0,
     st_equals_original = (original \<noteq> None)\<rparr>"
  by (cases original) (auto simp: stream_inv_def)

lemma stream_output_correct:
  assumes "recipe_bytes files segs = Ok out" "length out \<le> u64_max"
    and "\<And>k. original_id = Some k \<Longrightarrow> \<exists>f. files k = Some f"
  shows "stream_output H segs files original_id =
    Ok (length out, H out, (case original_id of None \<Rightarrow> False | Some k \<Rightarrow> fs_bytes (the (files k)) = out))"
proof -
  define original where "original = map_option (\<lambda>k. fs_bytes (the (files k))) original_id"
  let ?s = "\<lparr>st_hashed = [], st_resulting_length = 0, st_comparison_offset = 0,
    st_equals_original = (original \<noteq> None)\<rparr>"
  from stream_fold_inv[OF stream_inv_start assms(1), of original] assms(2)
  obtain st where st: "try_fold (stream_segment files original) ?s segs = Ok st" "stream_inv original out st"
    by auto
  show ?thesis
  proof (cases original_id)
    case None
    with st show ?thesis by (simp add: stream_output_def original_def stream_inv_def)
  next
    case (Some k)
    with assms(3) obtain f where "files k = Some f" by blast
    with Some st show ?thesis
      by (auto simp: stream_output_def original_def stream_inv_def Let_def)
  qed
qed

lemma stream_output_Ok_recipe:
  assumes "stream_output H segs files original_id = Ok r"
  shows "\<exists>out. recipe_bytes files segs = Ok out \<and> length out \<le> u64_max"
proof -
  have "\<exists>out. recipe_bytes files segs = Ok out"
    if "try_fold (stream_segment files original) st segs = Ok st'" for original st st'
    using that
    by (induction segs arbitrary: st) (auto simp: recipe_bytes_Cons stream_segment_def)
  moreover from assms obtain original st st' where
    run: "try_fold (stream_segment files original)
        \<lparr>st_hashed = [], st_resulting_length = 0, st_comparison_offset = 0,
         st_equals_original = (original \<noteq> None)\<rparr> segs = Ok st'"
    by (auto simp: stream_output_def)
  ultimately obtain out where out: "recipe_bytes files segs = Ok out" by blast
  have "length out \<le> u64_max"
  proof (rule ccontr)
    assume "\<not> length out \<le> u64_max"
    then show False
      using stream_fold_inv[of original "[]", OF stream_inv_start out] run by auto
  qed
  with out show ?thesis by blast
qed

section \<open>Multisets of bytes\<close>

definition deleted_bytes :: "bytes \<Rightarrow> (nat \<times> ByteRange) list \<Rightarrow> bytes" where
  "deleted_bytes orig dels = concat (map (\<lambda>(_, r). slice orig (range_start r) (range_end r)) dels)"

lemma mset_concat_map_append:
  "mset (concat (map (\<lambda>i. f i @ g i) xs)) = mset (concat (map f xs)) + mset (concat (map g xs))"
  by (induction xs) auto

lemma mset_concat_insort:
  "mset (concat (map f (insort_key k x xs))) = mset (f x) + mset (concat (map f xs))"
  by (induction xs) auto

lemma mset_concat_sort: "mset (concat (map f (sort_key k xs))) = mset (concat (map f xs))"
  by (induction xs) (auto simp: mset_concat_insort)

lemma concat_map_if_eq:
  "a \<le> n \<Longrightarrow> concat (map (\<lambda>k. if k = a then A else []) [0..<Suc n]) = A"
proof (induction n)
  case (Suc n)
  show ?case
  proof (cases "a = Suc n")
    case True
    have "concat (map (\<lambda>k. if k = a then A else []) [0..<Suc n]) = []"
      using True by simp
    with True show ?thesis by simp
  next
    case False
    with Suc show ?thesis by simp
  qed
qed simp

lemma mset_insertions_upto:
  "\<forall>i \<in> set inss. fst i \<le> n \<Longrightarrow>
     mset (concat (map (\<lambda>k. concat (map payload (insertions_at inss k))) [0..<Suc n])) =
     mset (concat (map (\<lambda>i. payload (snd i)) inss))"
proof (induction inss)
  case Nil
  then show ?case by (simp add: insertions_at_def del: upt_Suc)
next
  case (Cons x inss)
  have one: "mset (concat (map payload (insertions_at (x # inss) k))) =
      mset ((if k = fst x then payload (snd x) else []) @ concat (map payload (insertions_at inss k)))" for k
    by (auto simp: insertions_at_def mset_concat_sort mset_concat_insort)
  have "mset (concat (map (\<lambda>k. concat (map payload (insertions_at (x # inss) k))) ks)) =
      mset (concat (map (\<lambda>k. (if k = fst x then payload (snd x) else []) @
        concat (map payload (insertions_at inss k))) ks))" for ks
    by (induction ks) (simp_all add: one)
  with Cons concat_map_if_eq[of "fst x" n "payload (snd x)"] show ?case
    by (simp add: mset_concat_map_append del: upt_Suc)
qed

lemma filter_upt_range:
  assumes "s \<le> e" "e \<le> n"
  shows "filter (\<lambda>i. s \<le> i \<and> i < e) [0..<n] = [s..<e]"
proof -
  have "[0..<n] = [0..<s] @ [s..<e] @ [e..<n]"
    using assms upt_add_eq_append[of 0 s "n - s"] upt_add_eq_append[of s e "n - e"] by simp
  moreover have "filter (\<lambda>i. s \<le> i \<and> i < e) [0..<s] = []" "filter (\<lambda>i. s \<le> i \<and> i < e) [e..<n] = []"
    "filter (\<lambda>i. s \<le> i \<and> i < e) [s..<e] = [s..<e]"
    by (auto simp: filter_empty_conv filter_id_conv)
  ultimately show ?thesis by simp
qed

lemma mset_filter_disj:
  "(\<And>x. x \<in> set xs \<Longrightarrow> \<not> (P x \<and> Q x)) \<Longrightarrow>
     mset (filter (\<lambda>x. P x \<or> Q x) xs) = mset (filter P xs) + mset (filter Q xs)"
  by (induction xs) auto

lemma mset_map_partition:
  "mset (map f (filter (\<lambda>x. \<not> P x) xs)) + mset (map f (filter P xs)) = mset (map f xs)"
  by (induction xs) auto

lemma deleted_positions:
  assumes "list_all (\<lambda>d. valid_range n (snd d)) ds" "disjoint_deletions ds" "n = length orig"
  shows "mset (map ((!) orig) (filter (deleted_at ds) [0..<n])) = mset (deleted_bytes orig ds)"
  using assms(1,2)
proof (induction ds)
  case Nil
  then show ?case by (simp add: deleted_at_def deleted_bytes_def)
next
  case (Cons d ds)
  let ?P = "\<lambda>i. range_start (snd d) \<le> i \<and> i < range_end (snd d)"
  have v: "range_start (snd d) \<le> range_end (snd d)" "range_end (snd d) \<le> n"
    using Cons.prems(1) by (auto simp: valid_range_def)
  have disj: "\<not> (?P i \<and> deleted_at ds i)" for i
    using Cons.prems(2) by (fastforce simp: disjoint_deletions_def deleted_at_iff disjoint_ranges_def)
  have "deleted_at (d # ds) = (\<lambda>i. ?P i \<or> deleted_at ds i)"
    by (rule ext) (simp add: deleted_at_iff)
  then have "mset (filter (deleted_at (d # ds)) [0..<n]) =
      mset [range_start (snd d)..<range_end (snd d)] + mset (filter (deleted_at ds) [0..<n])"
    using mset_filter_disj[of "[0..<n]" ?P "deleted_at ds"] disj filter_upt_range[OF v] by simp
  then have "mset (map ((!) orig) (filter (deleted_at (d # ds)) [0..<n])) =
      mset (map ((!) orig) [range_start (snd d)..<range_end (snd d)]) +
      mset (map ((!) orig) (filter (deleted_at ds) [0..<n]))"
    by simp
  moreover have "slice orig (range_start (snd d)) (range_end (snd d)) =
      map ((!) orig) [range_start (snd d)..<range_end (snd d)]"
    using v assms(3) by (simp add: slice_conv_nth)
  ultimately show ?case
    using Cons by (simp add: deleted_bytes_def case_prod_unfold disjoint_deletions_def)
qed

lemma apply_edits_mset:
  assumes "list_all (\<lambda>d. valid_range (length orig) (snd d)) ds" "disjoint_deletions ds"
    and "list_all (\<lambda>i. fst i \<le> length orig) inss"
  shows "mset (apply_edits payload orig ds inss) + mset (deleted_bytes orig ds) =
    mset orig + mset (concat (map (\<lambda>i. payload (snd i)) inss))"
proof -
  let ?n = "length orig"
  have kept: "concat (map (\<lambda>i. if i < ?n \<and> \<not> deleted_at ds i then [orig ! i] else []) [0..<Suc ?n]) =
      map ((!) orig) (filter (\<lambda>i. \<not> deleted_at ds i) [0..<?n])"
    by (simp add: concat_map_singleton_if) (metis (mono_tags, lifting) atLeastLessThan_iff filter_cong set_upt)
  have "mset (map ((!) orig) (filter (\<lambda>i. \<not> deleted_at ds i) [0..<?n])) +
      mset (map ((!) orig) (filter (deleted_at ds) [0..<?n])) = mset (map ((!) orig) [0..<?n])"
    by (rule mset_map_partition)
  also have "\<dots> = mset orig" by (simp add: map_nth)
  finally show ?thesis
    using mset_insertions_upto[of inss ?n payload] assms(3) kept deleted_positions[OF assms(1,2) refl]
    by (simp add: apply_edits_def mset_concat_map_append list_all_iff del: upt_Suc)
qed

end
