(* ===== verification/Plan_Hash.thy ===== *)
theory Plan_Hash
  imports Planner_Edits
begin

text \<open>
  The versioned plan record and its digest (\<open>crates/srcmv-core/src/plan_hash.rs\<close>): a
  deterministic CBOR encoder that appends to a byte buffer, and the positional record of a
  snapshot and a plan. The encoder is proved to emit the canonical encoding of a tree of
  data items, and the encoding to be uniquely readable, so a record determines the plan
  content it was made from.
\<close>

section \<open>Model\<close>

definition PLAN_HASH_VERSION :: nat where "PLAN_HASH_VERSION = 1"
definition PROTOCOL_VERSION :: nat where "PROTOCOL_VERSION = 1"

definition DOMAIN_PREFIX :: bytes where
  "DOMAIN_PREFIX = as_bytes ''SRCMV-PLAN-V1'' @ [0]"

definition invalid :: "string \<Rightarrow> CoreError" where
  "invalid field = InvalidDomainValue field"

subsection \<open>The encoder\<close>

type_synonym CborEncoder = bytes

definition major_value :: "CborEncoder \<Rightarrow> u8 \<Rightarrow> nat \<Rightarrow> CborEncoder" where
  "major_value enc major v =
     (let prefix = push_bit 5 major in
      if v \<le> 23 then enc @ [or prefix (of_nat v)]
      else if v \<le> 255 then enc @ [or prefix 24, of_nat v]
      else if v \<le> 65535 then enc @ or prefix 25 # be_bytes 2 v
      else if v \<le> 4294967295 then enc @ or prefix 26 # be_bytes 4 v
      else enc @ or prefix 27 # be_bytes 8 v)"

definition unsigned :: "CborEncoder \<Rightarrow> nat \<Rightarrow> CborEncoder" where
  "unsigned enc v = major_value enc 0 v"

definition array :: "CborEncoder \<Rightarrow> nat \<Rightarrow> CoreError + CborEncoder" where
  "array enc len =
     (if len \<le> u64_max then Ok (major_value enc 4 len) else Err (invalid ''cbor_array_length''))"

definition array_infallible :: "CborEncoder \<Rightarrow> nat \<Rightarrow> CborEncoder" where
  "array_infallible enc len = major_value enc 4 len"

definition text_string :: "CborEncoder \<Rightarrow> string \<Rightarrow> CoreError + CborEncoder" where
  "text_string enc v =
     (if length v \<le> u64_max then Ok (major_value enc 3 (length v) @ as_bytes v)
      else Err (invalid ''cbor_text_length''))"

definition byte_string :: "CborEncoder \<Rightarrow> bytes \<Rightarrow> CoreError + CborEncoder" where
  "byte_string enc v =
     (if length v \<le> u64_max then Ok (major_value enc 2 (length v) @ v)
      else Err (invalid ''cbor_bytes_length''))"

definition null_item :: "CborEncoder \<Rightarrow> CborEncoder" where
  "null_item enc = enc @ [246]"

subsection \<open>The record\<close>

datatype InputRecord = ExistingInput FileSnapshot | AbsentInput AbsentPathSnapshot

fun input_path :: "InputRecord \<Rightarrow> string" where
  "input_path (ExistingInput file) = path_value (fs_path file)"
| "input_path (AbsentInput absent) = path_value (ap_path absent)"

definition encode_selector :: "CborEncoder \<Rightarrow> Selector \<Rightarrow> CborEncoder" where
  "encode_selector enc selector =
     (case selector of
        Lines start fin \<Rightarrow> unsigned (unsigned (unsigned (array_infallible enc 3) 1) start) fin
      | Bytes start fin \<Rightarrow> unsigned (unsigned (unsigned (array_infallible enc 3) 2) start) fin)"

definition encode_anchor :: "CborEncoder \<Rightarrow> Anchor \<Rightarrow> CborEncoder" where
  "encode_anchor enc anchor =
     (case anchor of
        FileStart \<Rightarrow> unsigned (array_infallible enc 1) 1
      | FileEnd \<Rightarrow> unsigned (array_infallible enc 1) 2
      | BeforeLine line \<Rightarrow> unsigned (unsigned (array_infallible enc 2) 3) line
      | AfterLine line \<Rightarrow> unsigned (unsigned (array_infallible enc 2) 4) line
      | ByteOffset offset \<Rightarrow> unsigned (unsigned (array_infallible enc 2) 5) offset)"

definition encode_precondition :: "CborEncoder \<Rightarrow> Precondition \<Rightarrow> CoreError + CborEncoder" where
  "encode_precondition enc precondition =
     (case precondition of
        Sha256 digest \<Rightarrow> byte_string (unsigned (array_infallible enc 2) 1) digest
      | MustNotExist \<Rightarrow> Ok (unsigned (array_infallible enc 1) 2))"

definition encode_workspace_identity :: "CborEncoder \<Rightarrow> WorkspaceSnapshot \<Rightarrow> CborEncoder" where
  "encode_workspace_identity enc snapshot =
     unsigned (unsigned (array_infallible enc 2) (fi_device (ws_workspace_identity snapshot)))
       (fi_inode (ws_workspace_identity snapshot))"

definition encode_input :: "CborEncoder \<Rightarrow> InputRecord \<Rightarrow> CoreError + CborEncoder" where
  "encode_input enc input =
     and_then (text_string (array_infallible enc 2) (input_path input)) (\<lambda>enc.
     case input of
       AbsentInput absent \<Rightarrow>
         Ok (unsigned (unsigned (unsigned (array_infallible enc 3) 0)
           (fi_device (ap_parent_identity absent))) (fi_inode (ap_parent_identity absent)))
     | ExistingInput file \<Rightarrow>
         and_then (if length (fs_bytes file) \<le> u64_max then Ok (length (fs_bytes file))
           else Err (invalid ''input_length'')) (\<lambda>len.
         byte_string (unsigned (unsigned (unsigned (unsigned (unsigned (unsigned
           (array_infallible enc 7) 1)
           (fi_device (fs_parent_identity file))) (fi_inode (fs_parent_identity file)))
           (fi_device (fs_identity file))) (fi_inode (fs_identity file)))
           len) (fs_digest file)))"

definition encode_inputs :: "CborEncoder \<Rightarrow> InputRecord list \<Rightarrow> CoreError + CborEncoder" where
  "encode_inputs enc inputs =
     and_then (array enc (length inputs)) (\<lambda>enc. try_fold encode_input enc inputs)"

definition kind_tag :: "OperationKind \<Rightarrow> nat" where
  "kind_tag kind = (case kind of Move \<Rightarrow> 1 | Copy \<Rightarrow> 2)"

definition effect_tag :: "OperationEffect \<Rightarrow> nat" where
  "effect_tag effect = (case effect of Changed \<Rightarrow> 1 | NoOp \<Rightarrow> 2)"

definition change_tag :: "OutputChange \<Rightarrow> nat" where
  "change_tag change =
     (case change of Unchanged \<Rightarrow> 1 | ModifiedExisting \<Rightarrow> 2 | CreatedNew \<Rightarrow> 3 | EmptiedExisting \<Rightarrow> 4)"

definition encode_operation :: "CborEncoder \<Rightarrow> ResolvedOperation \<Rightarrow> CoreError + CborEncoder" where
  "encode_operation enc operation =
     and_then (text_string (unsigned (unsigned (array_infallible enc 13)
         (ro_operation_index operation)) (kind_tag (ro_kind operation)))
       (path_value (ro_source_path operation))) (\<lambda>enc.
     and_then (encode_precondition (encode_selector enc (ro_selector operation))
       (ro_source_precondition operation)) (\<lambda>enc.
     and_then (byte_string (unsigned (unsigned enc (range_start (ro_source_range operation)))
         (range_end (ro_source_range operation)))
       (ro_selected_digest operation)) (\<lambda>enc.
     and_then (text_string enc (path_value (ro_destination_path operation))) (\<lambda>enc.
     and_then (encode_precondition (encode_anchor enc (ro_anchor operation))
       (ro_destination_precondition operation)) (\<lambda>enc.
     Ok (unsigned (unsigned enc (ro_destination_offset operation))
       (effect_tag (ro_effect operation))))))))"

definition encode_operations :: "CborEncoder \<Rightarrow> EditPlan \<Rightarrow> CoreError + CborEncoder" where
  "encode_operations enc plan =
     and_then (array enc (length (ep_operations plan))) (\<lambda>enc.
     try_fold encode_operation enc (ep_operations plan))"

definition input_index :: "(SnapshotFileId \<rightharpoonup> nat) \<Rightarrow> SnapshotFileId \<Rightarrow> CoreError + nat" where
  "input_index input_indexes file_id =
     ok_or (input_indexes file_id) (invalid ''segment_snapshot_input_index'')"

definition encode_segment ::
    "(SnapshotFileId \<rightharpoonup> nat) \<Rightarrow> CborEncoder \<Rightarrow> OutputSegment \<Rightarrow> CoreError + CborEncoder" where
  "encode_segment input_indexes enc segment =
     (case segment of
        OriginalSlice snapshot_file_id r \<Rightarrow>
          and_then (input_index input_indexes snapshot_file_id) (\<lambda>index.
          Ok (unsigned (unsigned (unsigned (unsigned (array_infallible enc 4) 1) index)
            (range_start r)) (range_end r)))
      | PayloadSlice operation_index snapshot_file_id r payload_digest \<Rightarrow>
          and_then (input_index input_indexes snapshot_file_id) (\<lambda>index.
          byte_string (unsigned (unsigned (unsigned (unsigned (unsigned
            (array_infallible enc 6) 2) operation_index) index)
            (range_start r)) (range_end r)) payload_digest))"

definition encode_output ::
    "(SnapshotFileId \<rightharpoonup> nat) \<Rightarrow> CborEncoder \<Rightarrow> PlannedOutput \<Rightarrow> CoreError + CborEncoder" where
  "encode_output input_indexes enc output =
     and_then (text_string (array_infallible enc 6) (path_value (po_path output))) (\<lambda>enc.
     and_then (case po_original_digest output of
         Some digest \<Rightarrow> byte_string enc digest
       | None \<Rightarrow> Ok (null_item enc)) (\<lambda>enc.
     and_then (byte_string enc (po_resulting_digest output)) (\<lambda>enc.
     and_then (array (unsigned (unsigned enc (po_resulting_length output))
         (change_tag (po_change output))) (length (po_segments output))) (\<lambda>enc.
     try_fold (encode_segment input_indexes) enc (po_segments output)))))"

definition encode_outputs ::
    "CborEncoder \<Rightarrow> EditPlan \<Rightarrow> (SnapshotFileId \<rightharpoonup> nat) \<Rightarrow> CoreError + CborEncoder" where
  "encode_outputs enc plan input_indexes =
     (let outputs = sort_key (\<lambda>output. path_value (po_path output)) (ep_outputs plan) in
      and_then (array enc (length outputs)) (\<lambda>enc.
      try_fold (encode_output input_indexes) enc outputs))"

definition record_inputs :: "WorkspaceSnapshot \<Rightarrow> InputRecord list" where
  "record_inputs snapshot =
     sort_key input_path
       (map ExistingInput (ws_files snapshot) @ map AbsentInput (ws_absent_paths snapshot))"

definition note_input ::
    "(SnapshotFileId \<rightharpoonup> nat) \<Rightarrow> nat \<times> InputRecord \<Rightarrow> CoreError + (SnapshotFileId \<rightharpoonup> nat)" where
  "note_input input_indexes entry =
     (case entry of
        (index, ExistingInput file) \<Rightarrow>
          and_then (if index \<le> u64_max then Ok index else Err (invalid ''snapshot_input_index''))
            (\<lambda>index.
          if input_indexes (fs_id file) \<noteq> None then Err (invalid ''duplicate_snapshot_file_id'')
          else Ok (input_indexes(fs_id file \<mapsto> index)))
      | (index, AbsentInput _) \<Rightarrow> Ok input_indexes)"

definition encode_plan_record :: "WorkspaceSnapshot \<Rightarrow> EditPlan \<Rightarrow> CoreError + bytes" where
  "encode_plan_record snapshot plan =
     (let inputs = record_inputs snapshot in
      and_then (try_fold note_input Map.empty (enumerate 0 inputs)) (\<lambda>input_indexes.
      and_then (array [] 6) (\<lambda>enc.
      and_then (encode_inputs
        (encode_workspace_identity (unsigned (unsigned enc PLAN_HASH_VERSION) PROTOCOL_VERSION) snapshot)
        inputs) (\<lambda>enc.
      and_then (encode_operations enc plan) (\<lambda>enc.
      encode_outputs enc plan input_indexes)))))"

definition plan_digest ::
    "(bytes \<Rightarrow> Sha256Digest) \<Rightarrow> WorkspaceSnapshot \<Rightarrow> EditPlan \<Rightarrow> CoreError + PlanDigest" where
  "plan_digest H snapshot plan =
     and_then (encode_plan_record snapshot plan) (\<lambda>record. Ok (H (DOMAIN_PREFIX @ record)))"


section \<open>Data items and their canonical encoding\<close>

text \<open>
  An encoding is a prefix code when an encoded value can be read back from the front of
  any byte stream in only one way. Heads of data items are one, and so are whole items.
\<close>

lemma concat_encodings_unique:
  assumes "length xs = length ys"
    and "\<And>x y r s. x \<in> set xs \<Longrightarrow> y \<in> set ys \<Longrightarrow> enc x @ r = enc y @ s \<Longrightarrow> x = y \<and> r = s"
    and "concat (map enc xs) @ r = concat (map enc ys) @ s"
  shows "xs = ys \<and> r = s"
  using assms
proof (induction xs ys arbitrary: r s rule: list_induct2)
  case (Cons x xs y ys)
  have step: "enc x @ (concat (map enc xs) @ r) = enc y @ (concat (map enc ys) @ s)"
    using Cons.prems(2) by simp
  have first: "x = y \<and> concat (map enc xs) @ r = concat (map enc ys) @ s"
    by (rule Cons.prems(1)[OF _ _ step]) simp_all
  have "xs = ys \<and> r = s"
  proof (rule Cons.IH)
    fix x' y' r' s'
    assume "x' \<in> set xs" "y' \<in> set ys" "enc x' @ r' = enc y' @ s'"
    then show "x' = y' \<and> r' = s'"
      by (intro Cons.prems(1)) simp_all
  qed (simp add: first)
  with first show ?case by simp
qed simp

locale prefix_code =
  fixes enc :: "'a \<Rightarrow> bytes"
    and valid :: "'a \<Rightarrow> bool"
  assumes unique_prefix: "valid x \<Longrightarrow> valid y \<Longrightarrow> enc x @ r = enc y @ s \<Longrightarrow> x = y \<and> r = s"
begin

lemma enc_inject: "valid x \<Longrightarrow> valid y \<Longrightarrow> enc x = enc y \<Longrightarrow> x = y"
  using unique_prefix[of x y "[]" "[]"] by simp

lemma sequence_unique:
  assumes "list_all valid xs" "list_all valid ys" "length xs = length ys"
    and "concat (map enc xs) @ r = concat (map enc ys) @ s"
  shows "xs = ys \<and> r = s"
proof (rule concat_encodings_unique[OF assms(3) _ assms(4)])
  fix x y r s
  assume "x \<in> set xs" "y \<in> set ys" "enc x @ r = enc y @ s"
  with assms(1,2) show "x = y \<and> r = s"
    by (intro unique_prefix) (simp_all add: list_all_iff)
qed

end

definition head :: "nat \<times> nat \<Rightarrow> bytes" where
  "head h = major_value [] (of_nat (fst h)) (snd h)"

definition valid_head :: "nat \<times> nat \<Rightarrow> bool" where
  "valid_head h \<longleftrightarrow> fst h < 8 \<and> snd h \<le> u64_max"

definition argument_width :: "nat \<Rightarrow> nat" where
  "argument_width info = (if info = 24 then 1 else if info = 25 then 2 else if info = 26 then 4 else 8)"

fun read_head :: "bytes \<Rightarrow> ((nat \<times> nat) \<times> bytes) option" where
  "read_head [] = None"
| "read_head (b # bs) =
     (let major = unat b div 32; info = unat b mod 32 in
      if info \<le> 23 then Some ((major, info), bs)
      else Some ((major, from_be_bytes (take (argument_width info) bs)),
        drop (argument_width info) bs))"

lemma major_value_append: "major_value e (of_nat m) v = e @ head (m, v)"
  by (simp add: major_value_def head_def Let_def)

lemma unat_initial_byte:
  assumes "m < 8" "n < 32"
  shows "unat (or (push_bit 5 (of_nat m)) (of_nat n) :: u8) = 32 * m + n"
proof -
  have "(of_nat n :: u8) = take_bit 5 (of_nat n)"
    using assms by (simp add: of_nat_take_bit[symmetric] take_bit_nat_eq_self)
  then have "\<not> bit (push_bit 5 (of_nat m) :: u8) i \<or> \<not> bit (of_nat n :: u8) i" for i
    by (metis bit_push_bit_iff bit_take_bit_iff not_le)
  then have "or (push_bit 5 (of_nat m)) (of_nat n) = (push_bit 5 (of_nat m) + of_nat n :: u8)"
    by (rule disjunctive_add[symmetric])
  also have "\<dots> = of_nat (32 * m + n)"
    by (simp add: push_bit_eq_mult mult.commute)
  finally show ?thesis
    using assms by (simp only: unat_of_nat_u8) simp
qed

lemma be_bytes_1: "be_bytes (Suc 0) v = [of_nat v]"
  by (simp add: be_bytes_def)

lemma head_cases:
  obtains "v \<le> 23" "head (m, v) = [or (push_bit 5 (of_nat m)) (of_nat v)]"
  | info where "info \<in> {24, 25, 26, 27}" "v \<le> u64_max \<longrightarrow> v < 256 ^ argument_width info"
      "head (m, v) = or (push_bit 5 (of_nat m)) (of_nat info) # be_bytes (argument_width info) v"
proof -
  consider "v \<le> 23" | "23 < v" "v \<le> 255" | "255 < v" "v \<le> 65535"
    | "65535 < v" "v \<le> 4294967295" | "4294967295 < v" by linarith
  then show thesis
  proof cases
    case 1 then show ?thesis using that(1) by (simp add: head_def major_value_def)
  next
    case 2 then show ?thesis using that(2)[of 24]
      by (simp add: head_def major_value_def argument_width_def be_bytes_1)
  next
    case 3 then show ?thesis using that(2)[of 25]
      by (simp add: head_def major_value_def argument_width_def)
  next
    case 4 then show ?thesis using that(2)[of 26]
      by (simp add: head_def major_value_def argument_width_def)
  next
    case 5 then show ?thesis using that(2)[of 27]
      by (simp add: head_def major_value_def argument_width_def u64_max_def)
  qed
qed

lemma read_head_head:
  assumes "valid_head (m, v)"
  shows "read_head (head (m, v) @ rest) = Some ((m, v), rest)"
proof (cases rule: head_cases[of v m])
  case 1
  then show ?thesis using assms by (simp add: valid_head_def unat_initial_byte Let_def)
next
  case (2 info)
  have "unat (or (push_bit 5 (of_nat m)) (of_nat info) :: u8) = 32 * m + info"
    using assms 2(1) by (intro unat_initial_byte) (auto simp: valid_head_def)
  then show ?thesis
    using 2 assms by (auto simp: Let_def valid_head_def from_be_bytes_be_bytes)
qed

interpretation cbor_head: prefix_code head valid_head
proof unfold_locales
  fix x y r s
  assume "valid_head x" "valid_head y" "head x @ r = head y @ s"
  then show "x = y \<and> r = s"
    using read_head_head[of "fst x" "snd x" r] read_head_head[of "fst y" "snd y" s] by simp
qed


datatype cbor = CUint nat | CBytes bytes | CText string | CArray "cbor list" | CNull

fun cbor_encode :: "cbor \<Rightarrow> bytes" where
  "cbor_encode (CUint n) = head (0, n)"
| "cbor_encode (CBytes b) = head (2, length b) @ b"
| "cbor_encode (CText s) = head (3, length s) @ as_bytes s"
| "cbor_encode (CArray xs) = head (4, length xs) @ concat (map cbor_encode xs)"
| "cbor_encode CNull = head (7, 22)"

fun valid_cbor :: "cbor \<Rightarrow> bool" where
  "valid_cbor (CUint n) = (n \<le> u64_max)"
| "valid_cbor (CBytes b) = (length b \<le> u64_max)"
| "valid_cbor (CText s) = (length s \<le> u64_max)"
| "valid_cbor (CArray xs) = (length xs \<le> u64_max \<and> list_all valid_cbor xs)"
| "valid_cbor CNull = True"

fun cbor_head_of :: "cbor \<Rightarrow> nat \<times> nat" where
  "cbor_head_of (CUint n) = (0, n)"
| "cbor_head_of (CBytes b) = (2, length b)"
| "cbor_head_of (CText s) = (3, length s)"
| "cbor_head_of (CArray xs) = (4, length xs)"
| "cbor_head_of CNull = (7, 22)"

fun cbor_body :: "cbor \<Rightarrow> bytes" where
  "cbor_body (CBytes b) = b"
| "cbor_body (CText s) = as_bytes s"
| "cbor_body (CArray xs) = concat (map cbor_encode xs)"
| "cbor_body _ = []"

lemma cbor_encode_split: "cbor_encode x = head (cbor_head_of x) @ cbor_body x"
  by (cases x) simp_all

lemma valid_head_of: "valid_cbor x \<Longrightarrow> valid_head (cbor_head_of x)"
  by (cases x) (simp_all add: valid_head_def u64_max_def)

lemma cbor_encode_same_head:
  assumes "valid_cbor x" "valid_cbor y" "cbor_encode x @ r = cbor_encode y @ s"
  shows "cbor_head_of x = cbor_head_of y \<and> cbor_body x @ r = cbor_body y @ s"
  by (rule cbor_head.unique_prefix[OF valid_head_of[OF assms(1)] valid_head_of[OF assms(2)]])
    (use assms(3) in \<open>simp add: cbor_encode_split\<close>)

lemma cbor_encode_unique:
  "valid_cbor x \<Longrightarrow> valid_cbor y \<Longrightarrow> cbor_encode x @ r = cbor_encode y @ s \<Longrightarrow> x = y \<and> r = s"
proof (induction x arbitrary: y r s)
  case (CArray xs)
  note same = cbor_encode_same_head[OF CArray.prems]
  then obtain ys where y: "y = CArray ys" "length xs = length ys" by (cases y) auto
  have "xs = ys \<and> r = s"
  proof (rule concat_encodings_unique[OF y(2)])
    show "concat (map cbor_encode xs) @ r = concat (map cbor_encode ys) @ s"
      using same y by simp
  next
    fix x z r s
    assume "x \<in> set xs" "z \<in> set ys" "cbor_encode x @ r = cbor_encode z @ s"
    with CArray.IH CArray.prems(1,2) y show "x = z \<and> r = s"
      by (auto simp: list_all_iff)
  qed
  with y show ?case by simp
qed (drule (2) cbor_encode_same_head; case_tac y; force)+

interpretation cbor_item: prefix_code cbor_encode valid_cbor
  by unfold_locales (rule cbor_encode_unique)


section \<open>The record as a data item\<close>

text \<open>
  \<open>plan_tree\<close> is the positional record as a tree of data items; \<open>idx\<close> gives the input
  index of a snapshot file, as the source's \<open>input_indexes\<close> does.
\<close>

fun selector_tree :: "Selector \<Rightarrow> cbor" where
  "selector_tree (Lines a b) = CArray [CUint 1, CUint a, CUint b]"
| "selector_tree (Bytes a b) = CArray [CUint 2, CUint a, CUint b]"

fun anchor_tree :: "Anchor \<Rightarrow> cbor" where
  "anchor_tree FileStart = CArray [CUint 1]"
| "anchor_tree FileEnd = CArray [CUint 2]"
| "anchor_tree (BeforeLine n) = CArray [CUint 3, CUint n]"
| "anchor_tree (AfterLine n) = CArray [CUint 4, CUint n]"
| "anchor_tree (ByteOffset n) = CArray [CUint 5, CUint n]"

fun precondition_tree :: "Precondition \<Rightarrow> cbor" where
  "precondition_tree (Sha256 d) = CArray [CUint 1, CBytes d]"
| "precondition_tree MustNotExist = CArray [CUint 2]"

definition identity_tree :: "FileIdentity \<Rightarrow> cbor" where
  "identity_tree i = CArray [CUint (fi_device i), CUint (fi_inode i)]"

fun input_tree :: "InputRecord \<Rightarrow> cbor" where
  "input_tree (AbsentInput a) = CArray [CText (path_value (ap_path a)),
     CArray [CUint 0, CUint (fi_device (ap_parent_identity a)),
       CUint (fi_inode (ap_parent_identity a))]]"
| "input_tree (ExistingInput f) = CArray [CText (path_value (fs_path f)),
     CArray [CUint 1, CUint (fi_device (fs_parent_identity f)),
       CUint (fi_inode (fs_parent_identity f)), CUint (fi_device (fs_identity f)),
       CUint (fi_inode (fs_identity f)), CUint (length (fs_bytes f)), CBytes (fs_digest f)]]"

definition operation_tree :: "ResolvedOperation \<Rightarrow> cbor" where
  "operation_tree r = CArray
     [CUint (ro_operation_index r), CUint (kind_tag (ro_kind r)),
      CText (path_value (ro_source_path r)), selector_tree (ro_selector r),
      precondition_tree (ro_source_precondition r), CUint (range_start (ro_source_range r)),
      CUint (range_end (ro_source_range r)), CBytes (ro_selected_digest r),
      CText (path_value (ro_destination_path r)), anchor_tree (ro_anchor r),
      precondition_tree (ro_destination_precondition r), CUint (ro_destination_offset r),
      CUint (effect_tag (ro_effect r))]"

fun segment_tree :: "(SnapshotFileId \<Rightarrow> nat) \<Rightarrow> OutputSegment \<Rightarrow> cbor" where
  "segment_tree idx (OriginalSlice i r) =
     CArray [CUint 1, CUint (idx i), CUint (range_start r), CUint (range_end r)]"
| "segment_tree idx (PayloadSlice k i r d) =
     CArray [CUint 2, CUint k, CUint (idx i), CUint (range_start r), CUint (range_end r), CBytes d]"

definition output_tree :: "(SnapshotFileId \<Rightarrow> nat) \<Rightarrow> PlannedOutput \<Rightarrow> cbor" where
  "output_tree idx p = CArray
     [CText (path_value (po_path p)),
      (case po_original_digest p of Some d \<Rightarrow> CBytes d | None \<Rightarrow> CNull),
      CBytes (po_resulting_digest p), CUint (po_resulting_length p),
      CUint (change_tag (po_change p)), CArray (map (segment_tree idx) (po_segments p))]"

definition sorted_outputs :: "EditPlan \<Rightarrow> PlannedOutput list" where
  "sorted_outputs plan = sort_key (\<lambda>output. path_value (po_path output)) (ep_outputs plan)"

definition plan_tree :: "(SnapshotFileId \<Rightarrow> nat) \<Rightarrow> WorkspaceSnapshot \<Rightarrow> EditPlan \<Rightarrow> cbor" where
  "plan_tree idx snapshot plan = CArray
     [CUint PLAN_HASH_VERSION, CUint PROTOCOL_VERSION,
      identity_tree (ws_workspace_identity snapshot),
      CArray (map input_tree (record_inputs snapshot)),
      CArray (map operation_tree (ep_operations plan)),
      CArray (map (output_tree idx) (sorted_outputs plan))]"

subsection \<open>The encoder emits the record\<close>

lemma encoder_items [result_simps]:
  "unsigned e n = e @ cbor_encode (CUint n)"
  "array_infallible e n = e @ head (4, n)"
  "null_item e = e @ cbor_encode CNull"
  using major_value_append[of e 0 n] major_value_append[of e 4 n]
  by (simp_all add: unsigned_def array_infallible_def null_item_def head_def major_value_def)

lemma array_Ok_iff [simp]: "array e n = Ok e' \<longleftrightarrow> n \<le> u64_max \<and> e' = e @ head (4, n)"
  using major_value_append[of e 4 n] by (auto simp: array_def)

lemma text_string_Ok_iff [simp]:
  "text_string e s = Ok e' \<longleftrightarrow> length s \<le> u64_max \<and> e' = e @ cbor_encode (CText s)"
  using major_value_append[of e 3 "length s"] by (auto simp: text_string_def)

lemma byte_string_Ok_iff [simp]:
  "byte_string e b = Ok e' \<longleftrightarrow> length b \<le> u64_max \<and> e' = e @ cbor_encode (CBytes b)"
  using major_value_append[of e 2 "length b"] by (auto simp: byte_string_def)

lemma encode_selector_tree: "encode_selector e s = e @ cbor_encode (selector_tree s)"
  by (cases s) (simp_all add: encode_selector_def encoder_items eval_nat_numeral)

lemma encode_anchor_tree: "encode_anchor e a = e @ cbor_encode (anchor_tree a)"
  by (cases a) (simp_all add: encode_anchor_def encoder_items eval_nat_numeral)

lemma encode_precondition_tree:
  "encode_precondition e p = Ok e' \<Longrightarrow> e' = e @ cbor_encode (precondition_tree p)"
  by (cases p) (auto simp: encode_precondition_def encoder_items eval_nat_numeral)

lemma encode_input_tree:
  "encode_input e i = Ok e' \<Longrightarrow> e' = e @ cbor_encode (input_tree i)"
  by (cases i) (auto simp: encode_input_def encoder_items eval_nat_numeral split: if_splits)

lemma encode_operation_tree:
  "encode_operation e r = Ok e' \<Longrightarrow> e' = e @ cbor_encode (operation_tree r)"
  by (auto simp: encode_operation_def encoder_items eval_nat_numeral encode_selector_tree encode_anchor_tree
      operation_tree_def dest!: encode_precondition_tree)

lemma encode_segment_tree:
  "encode_segment m e s = Ok e' \<Longrightarrow> e' = e @ cbor_encode (segment_tree (\<lambda>i. the (m i)) s)"
  by (cases s) (auto simp: encode_segment_def encoder_items eval_nat_numeral input_index_def)

lemma try_fold_encodes:
  assumes "\<And>e x e'. f e x = Ok e' \<Longrightarrow> e' = e @ cbor_encode (tree x)"
    and "try_fold f e xs = Ok e'"
  shows "e' = e @ concat (map cbor_encode (map tree xs))"
  using assms(2)
proof (induction xs arbitrary: e)
  case (Cons x xs)
  then obtain e1 where "f e x = Ok e1" "try_fold f e1 xs = Ok e'" by auto
  with Cons.IH[of e1] assms(1)[of e x e1] show ?case by simp
qed simp

lemma encode_output_tree:
  assumes "encode_output m e p = Ok e'"
  shows "e' = e @ cbor_encode (output_tree (\<lambda>i. the (m i)) p)"
proof -
  let ?pre = "e @ head (4, 6) @ cbor_encode (CText (path_value (po_path p))) @
    cbor_encode (case po_original_digest p of Some d \<Rightarrow> CBytes d | None \<Rightarrow> CNull) @
    cbor_encode (CBytes (po_resulting_digest p)) @ cbor_encode (CUint (po_resulting_length p)) @
    cbor_encode (CUint (change_tag (po_change p))) @ head (4, length (po_segments p))"
  have "try_fold (encode_segment m) ?pre (po_segments p) = Ok e'"
    using assms by (auto simp: encode_output_def encoder_items split: option.splits)
  from try_fold_encodes[OF encode_segment_tree this] show ?thesis
    by (simp add: output_tree_def eval_nat_numeral)
qed

lemma encode_inputs_tree:
  assumes "encode_inputs e inputs = Ok e'"
  shows "e' = e @ cbor_encode (CArray (map input_tree inputs))"
proof -
  have "try_fold encode_input (e @ head (4, length inputs)) inputs = Ok e'"
    using assms by (simp add: encode_inputs_def)
  from try_fold_encodes[OF encode_input_tree this] show ?thesis by simp
qed

lemma encode_operations_tree:
  assumes "encode_operations e plan = Ok e'"
  shows "e' = e @ cbor_encode (CArray (map operation_tree (ep_operations plan)))"
proof -
  have "try_fold encode_operation (e @ head (4, length (ep_operations plan))) (ep_operations plan) = Ok e'"
    using assms by (simp add: encode_operations_def)
  from try_fold_encodes[OF encode_operation_tree this] show ?thesis by simp
qed

lemma encode_outputs_tree:
  assumes "encode_outputs e plan m = Ok e'"
  shows "e' = e @ cbor_encode (CArray (map (output_tree (\<lambda>i. the (m i))) (sorted_outputs plan)))"
proof -
  have "try_fold (encode_output m) (e @ head (4, length (sorted_outputs plan))) (sorted_outputs plan) = Ok e'"
    using assms by (simp add: encode_outputs_def Let_def sorted_outputs_def[symmetric])
  from try_fold_encodes[OF encode_output_tree this] show ?thesis by simp
qed

definition input_indexes :: "WorkspaceSnapshot \<Rightarrow> (CoreError + (SnapshotFileId \<rightharpoonup> nat))" where
  "input_indexes snapshot = try_fold note_input Map.empty (enumerate 0 (record_inputs snapshot))"

lemma encode_plan_record_tree:
  assumes "encode_plan_record snapshot plan = Ok bs"
  obtains m where "input_indexes snapshot = Ok m"
    "bs = cbor_encode (plan_tree (\<lambda>i. the (m i)) snapshot plan)"
proof -
  obtain m e1 e2 where m: "input_indexes snapshot = Ok m"
    and e1: "encode_inputs (encode_workspace_identity (unsigned (unsigned (head (4, 6))
        PLAN_HASH_VERSION) PROTOCOL_VERSION) snapshot) (record_inputs snapshot) = Ok e1"
    and e2: "encode_operations e1 plan = Ok e2"
    and enc: "encode_outputs e2 plan m = Ok bs"
    using assms by (auto simp: encode_plan_record_def Let_def input_indexes_def)
  have "encode_workspace_identity (unsigned (unsigned (head (4, 6))
        PLAN_HASH_VERSION) PROTOCOL_VERSION) snapshot = head (4, 6) @
      cbor_encode (CUint PLAN_HASH_VERSION) @ cbor_encode (CUint PROTOCOL_VERSION) @
      cbor_encode (identity_tree (ws_workspace_identity snapshot))"
    by (simp add: encode_workspace_identity_def encoder_items identity_tree_def eval_nat_numeral)
  moreover have "e1 = encode_workspace_identity (unsigned (unsigned (head (4, 6))
        PLAN_HASH_VERSION) PROTOCOL_VERSION) snapshot @
      cbor_encode (CArray (map input_tree (record_inputs snapshot)))"
    using e1 by (rule encode_inputs_tree)
  moreover have "e2 = e1 @ cbor_encode (CArray (map operation_tree (ep_operations plan)))"
    using e2 by (rule encode_operations_tree)
  moreover have "bs = e2 @
      cbor_encode (CArray (map (output_tree (\<lambda>i. the (m i))) (sorted_outputs plan)))"
    using enc by (rule encode_outputs_tree)
  ultimately show thesis
    by (intro that[OF m]) (simp add: plan_tree_def eval_nat_numeral)
qed


subsection \<open>The record determines the plan content\<close>

text \<open>
  The \<open>u64\<close> ranges of the numbers of a snapshot and a plan, which Rust's types impose.
\<close>

definition u64_identity :: "FileIdentity \<Rightarrow> bool" where
  "u64_identity i \<longleftrightarrow> fi_device i \<le> u64_max \<and> fi_inode i \<le> u64_max"

definition u64_range :: "ByteRange \<Rightarrow> bool" where
  "u64_range r \<longleftrightarrow> range_start r \<le> u64_max \<and> range_end r \<le> u64_max"

fun u64_selector :: "Selector \<Rightarrow> bool" where
  "u64_selector (Lines a b) = (a \<le> u64_max \<and> b \<le> u64_max)"
| "u64_selector (Bytes a b) = (a \<le> u64_max \<and> b \<le> u64_max)"

fun u64_anchor :: "Anchor \<Rightarrow> bool" where
  "u64_anchor (BeforeLine n) = (n \<le> u64_max)"
| "u64_anchor (AfterLine n) = (n \<le> u64_max)"
| "u64_anchor (ByteOffset n) = (n \<le> u64_max)"
| "u64_anchor _ = True"

fun u64_input :: "InputRecord \<Rightarrow> bool" where
  "u64_input (AbsentInput a) = u64_identity (ap_parent_identity a)"
| "u64_input (ExistingInput f) = (u64_identity (fs_parent_identity f) \<and> u64_identity (fs_identity f))"

definition u64_operation :: "ResolvedOperation \<Rightarrow> bool" where
  "u64_operation r \<longleftrightarrow> ro_operation_index r \<le> u64_max \<and> u64_selector (ro_selector r) \<and>
     u64_range (ro_source_range r) \<and> u64_anchor (ro_anchor r) \<and> ro_destination_offset r \<le> u64_max"

fun u64_segment :: "OutputSegment \<Rightarrow> bool" where
  "u64_segment (OriginalSlice i r) = u64_range r"
| "u64_segment (PayloadSlice k i r d) = (k \<le> u64_max \<and> u64_range r)"

definition u64_output :: "PlannedOutput \<Rightarrow> bool" where
  "u64_output p \<longleftrightarrow> po_resulting_length p \<le> u64_max \<and> list_all u64_segment (po_segments p)"

definition u64_plan :: "WorkspaceSnapshot \<Rightarrow> EditPlan \<Rightarrow> bool" where
  "u64_plan snapshot plan \<longleftrightarrow> u64_identity (ws_workspace_identity snapshot) \<and>
     list_all u64_input (record_inputs snapshot) \<and> list_all u64_operation (ep_operations plan) \<and>
     list_all u64_output (ep_outputs plan)"

lemma tags_valid [simp]: "kind_tag k \<le> u64_max" "effect_tag e \<le> u64_max" "change_tag c \<le> u64_max"
  by (simp_all add: kind_tag_def effect_tag_def change_tag_def u64_max_def
      split: OperationKind.split OperationEffect.split OutputChange.split)

lemma tags_inject [simp]:
  "kind_tag k = kind_tag k' \<longleftrightarrow> k = k'"
  "effect_tag e = effect_tag e' \<longleftrightarrow> e = e'"
  "change_tag c = change_tag c' \<longleftrightarrow> c = c'"
  by (simp_all add: kind_tag_def effect_tag_def change_tag_def
      split: OperationKind.split OperationEffect.split OutputChange.split)

lemma valid_precondition_tree:
  "encode_precondition e p = Ok e' \<Longrightarrow> valid_cbor (precondition_tree p)"
  by (cases p) (auto simp: encode_precondition_def u64_max_def)

lemma valid_selector_tree: "u64_selector s \<Longrightarrow> valid_cbor (selector_tree s)"
  by (cases s) (auto simp: u64_max_def)

lemma valid_anchor_tree: "u64_anchor a \<Longrightarrow> valid_cbor (anchor_tree a)"
  by (cases a) (auto simp: u64_max_def)

lemma valid_input_tree: "encode_input e i = Ok e' \<Longrightarrow> u64_input i \<Longrightarrow> valid_cbor (input_tree i)"
  by (cases i) (auto simp: encode_input_def u64_identity_def u64_max_def split: if_splits)

lemma valid_operation_tree:
  assumes "encode_operation e r = Ok e'" "u64_operation r"
  shows "valid_cbor (operation_tree r)"
proof -
  have "valid_cbor (precondition_tree (ro_source_precondition r))"
    "valid_cbor (precondition_tree (ro_destination_precondition r))"
    "length (path_value (ro_source_path r)) \<le> u64_max"
    "length (path_value (ro_destination_path r)) \<le> u64_max"
    "length (ro_selected_digest r) \<le> u64_max"
    using assms(1) by (auto simp: encode_operation_def dest: valid_precondition_tree)
  moreover have "Suc (Suc (Suc (Suc (Suc (Suc (Suc (Suc (Suc (Suc (Suc (Suc (Suc 0)))))))))))) \<le> u64_max"
    by (simp add: u64_max_def)
  ultimately show ?thesis
    using assms(2) by (simp add: operation_tree_def u64_operation_def u64_range_def
        valid_selector_tree valid_anchor_tree)
qed

lemma try_fold_each:
  assumes "try_fold f s xs = Ok t"
  shows "\<forall>x\<in>set xs. \<exists>s' t'. f s' x = Ok t'"
  using assms by (induction xs arbitrary: s) auto

lemma note_input_bounded:
  assumes "try_fold note_input m (enumerate n inputs) = Ok m'" "\<forall>i\<in>ran m. i \<le> u64_max"
  shows "\<forall>i\<in>ran m'. i \<le> u64_max"
proof (rule try_fold_invariant[where I = "\<lambda>m. \<forall>i\<in>ran m. i \<le> u64_max", OF assms])
  fix m :: "SnapshotFileId \<rightharpoonup> nat" and x m'
  assume "\<forall>i\<in>ran m. i \<le> u64_max" "note_input m x = Ok m'"
  then show "\<forall>i\<in>ran m'. i \<le> u64_max"
    by (cases x; cases "snd x") (auto simp: note_input_def ran_map_upd split: if_splits)
qed

lemma valid_segment_tree:
  assumes "encode_segment m e s = Ok e'" "u64_segment s" "\<forall>i\<in>ran m. i \<le> u64_max"
  shows "valid_cbor (segment_tree (\<lambda>i. the (m i)) s)"
  using assms by (cases s)
    (auto simp: encode_segment_def input_index_def u64_range_def u64_max_def intro: ranI)

lemma valid_output_tree:
  assumes "encode_output m e p = Ok e'" "u64_output p" "\<forall>i\<in>ran m. i \<le> u64_max"
  shows "valid_cbor (output_tree (\<lambda>i. the (m i)) p)"
proof -
  obtain e2 where fold: "try_fold (encode_segment m) e2 (po_segments p) = Ok e'"
    and lens: "length (path_value (po_path p)) \<le> u64_max"
      "length (po_resulting_digest p) \<le> u64_max" "length (po_segments p) \<le> u64_max"
      "\<forall>d. po_original_digest p = Some d \<longrightarrow> length d \<le> u64_max"
    using assms(1) by (auto simp: encode_output_def split: option.splits)
  have "valid_cbor (segment_tree (\<lambda>i. the (m i)) s)" if "s \<in> set (po_segments p)" for s
    using try_fold_each[OF fold] valid_segment_tree[OF _ _ assms(3)] assms(2) that
    by (metis list_all_iff u64_output_def)
  moreover have "Suc (Suc (Suc (Suc (Suc (Suc 0))))) \<le> u64_max"
    by (simp add: u64_max_def)
  ultimately show ?thesis
    using lens assms(2)
    by (auto simp: output_tree_def u64_output_def list_all_iff split: option.split)
qed

lemma set_sorted_outputs [simp]: "set (sorted_outputs plan) = set (ep_outputs plan)"
  by (simp add: sorted_outputs_def)

lemma valid_plan_tree:
  assumes "encode_plan_record snapshot plan = Ok bs" "u64_plan snapshot plan"
    and "input_indexes snapshot = Ok m"
  shows "valid_cbor (plan_tree (\<lambda>i. the (m i)) snapshot plan)"
proof -
  obtain e1 e2 e3 where folds: "try_fold encode_input e1 (record_inputs snapshot) = Ok e2"
      "try_fold encode_operation (e2 @ head (4, length (ep_operations plan))) (ep_operations plan) = Ok e3"
      "try_fold (encode_output m) (e3 @ head (4, length (sorted_outputs plan))) (sorted_outputs plan) = Ok bs"
    and lens: "length (record_inputs snapshot) \<le> u64_max" "length (ep_operations plan) \<le> u64_max"
      "length (sorted_outputs plan) \<le> u64_max"
    using assms(1,3) by (auto simp: encode_plan_record_def encode_inputs_def encode_operations_def
        encode_outputs_def Let_def input_indexes_def sorted_outputs_def)
  have bounded: "\<forall>i\<in>ran m. i \<le> u64_max"
    using assms(3) unfolding input_indexes_def by (rule note_input_bounded) simp
  have "valid_cbor (input_tree i)" if "i \<in> set (record_inputs snapshot)" for i
    using try_fold_each[OF folds(1)] assms(2) that
    by (metis list_all_iff u64_plan_def valid_input_tree)
  moreover have "valid_cbor (operation_tree r)" if "r \<in> set (ep_operations plan)" for r
    using try_fold_each[OF folds(2)] assms(2) that
    by (metis list_all_iff u64_plan_def valid_operation_tree)
  moreover have "valid_cbor (output_tree (\<lambda>i. the (m i)) p)" if "p \<in> set (sorted_outputs plan)" for p
    using try_fold_each[OF folds(3)] assms(2) that valid_output_tree[OF _ _ bounded]
    by (metis list_all_iff u64_plan_def set_sorted_outputs)
  moreover have "valid_cbor (identity_tree (ws_workspace_identity snapshot))"
    using assms(2) by (simp add: u64_plan_def identity_tree_def u64_identity_def u64_max_def)
  ultimately show ?thesis
    using lens by (simp add: plan_tree_def list_all_iff PLAN_HASH_VERSION_def PROTOCOL_VERSION_def
        u64_max_def)
qed

subsection \<open>Reading the content back\<close>

lemma selector_tree_inject [simp]: "selector_tree s = selector_tree s' \<longleftrightarrow> s = s'"
  by (cases s; cases s') auto

lemma anchor_tree_inject [simp]: "anchor_tree a = anchor_tree a' \<longleftrightarrow> a = a'"
  by (cases a; cases a') auto

lemma precondition_tree_inject [simp]: "precondition_tree p = precondition_tree p' \<longleftrightarrow> p = p'"
  by (cases p; cases p') auto

lemma path_value_inject [simp]: "path_value p = path_value q \<longleftrightarrow> p = q"
  by (cases p; cases q) simp

lemma operation_tree_inject [simp]: "operation_tree r = operation_tree r' \<longleftrightarrow> r = r'"
  by (auto simp: operation_tree_def)

lemma identity_tree_inject [simp]: "identity_tree i = identity_tree i' \<longleftrightarrow> i = i'"
  by (auto simp: identity_tree_def)

lemma map_tree_inject:
  "(\<And>x y. f x = f y \<longleftrightarrow> x = y) \<Longrightarrow> map f xs = map f ys \<longleftrightarrow> xs = ys"
  by (auto dest: map_injective simp: inj_on_def)


text \<open>
  The content a record stands for: the workspace identity, the inputs in path order, every
  resolved operation, and the outputs in path order with each segment's file named by path.
\<close>

definition file_path :: "WorkspaceSnapshot \<Rightarrow> SnapshotFileId \<Rightarrow> string option" where
  "file_path snapshot i =
     map_option (\<lambda>f. path_value (fs_path f)) (find (\<lambda>f. fs_id f = i) (ws_files snapshot))"

fun segment_content ::
    "WorkspaceSnapshot \<Rightarrow> OutputSegment \<Rightarrow> (nat \<times> Sha256Digest) option \<times> string option \<times> ByteRange" where
  "segment_content snapshot (OriginalSlice i r) = (None, file_path snapshot i, r)"
| "segment_content snapshot (PayloadSlice k i r d) = (Some (k, d), file_path snapshot i, r)"

definition output_content where
  "output_content snapshot p = (po_path p, po_original_digest p, po_resulting_digest p,
     po_resulting_length p, po_change p, map (segment_content snapshot) (po_segments p))"

fun input_content where
  "input_content (AbsentInput a) = (path_value (ap_path a), ap_parent_identity a, None)"
| "input_content (ExistingInput f) = (path_value (fs_path f), fs_parent_identity f,
     Some (fs_identity f, length (fs_bytes f), fs_digest f))"

definition plan_content where
  "plan_content snapshot plan = (ws_workspace_identity snapshot,
     map input_content (record_inputs snapshot), ep_operations plan,
     map (output_content snapshot) (sorted_outputs plan))"

lemma map_tree_content:
  assumes "map f xs = map g ys" "\<And>x y. f x = g y \<Longrightarrow> f' x = g' y"
  shows "map f' xs = map g' ys"
  using assms(1) by (induction xs arbitrary: ys) (auto simp: Cons_eq_map_conv assms(2))

lemma input_tree_content: "input_tree i = input_tree j \<Longrightarrow> input_content i = input_content j"
  by (cases i; cases j) auto

lemma input_tree_path: "input_tree i = input_tree j \<Longrightarrow> input_path i = input_path j"
  by (cases i; cases j) auto

lemma note_inputs_index:
  assumes "try_fold note_input m (enumerate n inputs) = Ok m'"
  shows "m \<subseteq>\<^sub>m m' \<and> (\<forall>k<length inputs. \<forall>f. inputs ! k = ExistingInput f \<longrightarrow> m' (fs_id f) = Some (n + k)) \<and>
    (\<forall>i j. m' i = Some j \<longrightarrow> m i = Some j \<or>
      (\<exists>k<length inputs. \<exists>f. j = n + k \<and> inputs ! k = ExistingInput f \<and> fs_id f = i))"
  using assms
proof (induction inputs arbitrary: m n)
  case (Cons x inputs)
  then obtain m1 where m1: "note_input m (n, x) = Ok m1"
    and rest: "try_fold note_input m1 (enumerate (Suc n) inputs) = Ok m'" by auto
  have step: "m \<subseteq>\<^sub>m m1" "\<forall>f. x = ExistingInput f \<longrightarrow> m1 (fs_id f) = Some n"
    "\<forall>i j. m1 i = Some j \<longrightarrow> m i = Some j \<or> (\<exists>f. j = n \<and> x = ExistingInput f \<and> fs_id f = i)"
    using m1 by (cases x; auto simp: note_input_def map_le_def split: if_splits)+
  note IH = Cons.IH[OF rest]
  have le: "m1 \<subseteq>\<^sub>m m'" using IH by blast
  have "m' (fs_id f) = Some (n + k)"
    if "k < length (x # inputs)" "(x # inputs) ! k = ExistingInput f" for k f
  proof (cases k)
    case 0
    with that step(2) le show ?thesis by (auto simp: map_le_def dom_def)
  next
    case (Suc k')
    with that IH show ?thesis by auto
  qed
  moreover have "m i = Some j \<or>
      (\<exists>k<length (x # inputs). \<exists>f. j = n + k \<and> (x # inputs) ! k = ExistingInput f \<and> fs_id f = i)"
    if at: "m' i = Some j" for i j
  proof -
    consider "m1 i = Some j"
      | k f where "k < length inputs" "j = Suc n + k" "inputs ! k = ExistingInput f" "fs_id f = i"
      using IH at by blast
    then show ?thesis
    proof cases
      case 1
      with step(3) show ?thesis by fastforce
    next
      case 2
      then show ?thesis by (intro disjI2 exI[of _ "Suc k"]) auto
    qed
  qed
  ultimately show ?case using map_le_trans[OF step(1) le] by blast
qed simp

lemma find_only:
  assumes "x \<in> set xs" "P x" "\<forall>y\<in>set xs. P y \<longrightarrow> y = x"
  shows "find P xs = Some x"
proof (cases "find P xs")
  case None
  then have "\<not> (\<exists>x. x \<in> set xs \<and> P x)" by (simp add: find_None_iff)
  with assms(1,2) show ?thesis by blast
next
  case (Some y)
  then have "y \<in> set xs \<and> P y" by (metis find_Some_iff nth_mem)
  with assms(3) Some show ?thesis by blast
qed

lemma indexed_file_path:
  assumes "input_indexes snapshot = Ok m" "m i = Some k"
  shows "k < length (record_inputs snapshot) \<and>
    file_path snapshot i = Some (input_path (record_inputs snapshot ! k))"
proof -
  note idx = note_inputs_index[OF assms(1)[unfolded input_indexes_def]]
  obtain f where k: "k < length (record_inputs snapshot)"
    and f: "record_inputs snapshot ! k = ExistingInput f" "fs_id f = i"
    using idx[THEN conjunct2, THEN conjunct2, rule_format, OF assms(2)] by auto
  have only: "g = f" if "g \<in> set (ws_files snapshot)" "fs_id g = i" for g
  proof -
    have "ExistingInput g \<in> set (record_inputs snapshot)"
      using that by (simp add: record_inputs_def)
    then obtain k' where k': "k' < length (record_inputs snapshot)"
      "record_inputs snapshot ! k' = ExistingInput g"
      by (auto simp: in_set_conv_nth)
    then have "m (fs_id g) = Some (0 + k')" using idx by blast
    with assms(2) that(2) have "k' = k" by simp
    with k' f show ?thesis by simp
  qed
  have "ExistingInput f \<in> set (record_inputs snapshot)"
    using k f(1) by (metis nth_mem)
  then have "f \<in> set (ws_files snapshot)"
    by (auto simp: record_inputs_def)
  with f(2) only have "find (\<lambda>f. fs_id f = i) (ws_files snapshot) = Some f"
    by (intro find_only) blast+
  with k f show ?thesis by (simp add: file_path_def)
qed

fun segment_file :: "OutputSegment \<Rightarrow> SnapshotFileId" where
  "segment_file (OriginalSlice i _) = i"
| "segment_file (PayloadSlice _ i _ _) = i"

lemma segment_tree_content:
  assumes "segment_tree idx s = segment_tree idx' s'"
    and "idx (segment_file s) = idx' (segment_file s') \<Longrightarrow>
      file_path sn (segment_file s) = file_path sn' (segment_file s')"
  shows "segment_content sn s = segment_content sn' s'"
  using assms by (cases s; cases s') auto

lemma output_tree_content:
  assumes "output_tree idx p = output_tree idx' p'"
    and "\<And>s s'. s \<in> set (po_segments p) \<Longrightarrow> s' \<in> set (po_segments p') \<Longrightarrow>
      idx (segment_file s) = idx' (segment_file s') \<Longrightarrow>
      file_path sn (segment_file s) = file_path sn' (segment_file s')"
  shows "output_content sn p = output_content sn' p'"
proof -
  have segs: "map (segment_tree idx) (po_segments p) = map (segment_tree idx') (po_segments p')"
    using assms(1) by (simp add: output_tree_def)
  have "map (segment_content sn) (po_segments p) = map (segment_content sn') (po_segments p')"
  proof (rule nth_equalityI)
    show len: "length (map (segment_content sn) (po_segments p)) =
        length (map (segment_content sn') (po_segments p'))"
      using map_eq_imp_length_eq[OF segs] by simp
    fix i assume "i < length (map (segment_content sn) (po_segments p))"
    then have i: "i < length (po_segments p)" "i < length (po_segments p')"
      using len by simp_all
    have "segment_tree idx (po_segments p ! i) = segment_tree idx' (po_segments p' ! i)"
      using arg_cong[OF segs, of "\<lambda>xs. xs ! i"] i by simp
    then have "segment_content sn (po_segments p ! i) = segment_content sn' (po_segments p' ! i)"
      by (rule segment_tree_content) (rule assms(2), use i in simp_all)
    with i show "map (segment_content sn) (po_segments p) ! i =
        map (segment_content sn') (po_segments p') ! i" by simp
  qed
  moreover have "po_original_digest p = po_original_digest p'"
    using assms(1) by (auto simp: output_tree_def split: option.splits)
  ultimately show ?thesis
    using assms(1) by (simp add: output_tree_def output_content_def)
qed


lemma encode_output_indexed:
  assumes "encode_output m e p = Ok e'" "s \<in> set (po_segments p)"
  shows "\<exists>k. m (segment_file s) = Some k"
proof -
  obtain e3 where "try_fold (encode_segment m) e3 (po_segments p) = Ok e'"
    using assms(1) by (auto simp: encode_output_def)
  then obtain e4 e5 where "encode_segment m e4 s = Ok e5"
    by (meson try_fold_each assms(2))
  then show ?thesis
    by (cases s) (auto simp: encode_segment_def input_index_def)
qed

lemma record_segments_indexed:
  assumes "encode_plan_record snapshot plan = Ok bs" "input_indexes snapshot = Ok m"
    and "p \<in> set (sorted_outputs plan)" "s \<in> set (po_segments p)"
  shows "m (segment_file s) \<noteq> None"
proof -
  obtain e where "try_fold (encode_output m) e (sorted_outputs plan) = Ok bs"
    using assms(1,2) by (auto simp: encode_plan_record_def encode_outputs_def Let_def
        input_indexes_def sorted_outputs_def)
  then obtain e1 e2 where "encode_output m e1 p = Ok e2"
    by (meson try_fold_each assms(3))
  with assms(4) show ?thesis
    by (auto dest: encode_output_indexed)
qed

lemma plan_tree_content:
  assumes "encode_plan_record sn plan = Ok bs" "input_indexes sn = Ok m"
    and "encode_plan_record sn' plan' = Ok bs'" "input_indexes sn' = Ok m'"
    and tree: "plan_tree (\<lambda>i. the (m i)) sn plan = plan_tree (\<lambda>i. the (m' i)) sn' plan'"
  shows "plan_content sn plan = plan_content sn' plan'"
proof -
  have inputs: "map input_tree (record_inputs sn) = map input_tree (record_inputs sn')"
    and outputs: "map (output_tree (\<lambda>i. the (m i))) (sorted_outputs plan) =
      map (output_tree (\<lambda>i. the (m' i))) (sorted_outputs plan')"
    using tree by (simp_all add: plan_tree_def)
  have same_path: "file_path sn (segment_file s) = file_path sn' (segment_file s')"
    if p: "p \<in> set (sorted_outputs plan)" "s \<in> set (po_segments p)"
      and p': "p' \<in> set (sorted_outputs plan')" "s' \<in> set (po_segments p')"
      and idx: "the (m (segment_file s)) = the (m' (segment_file s'))" for p s p' s'
  proof -
    obtain k where k: "m (segment_file s) = Some k" "m' (segment_file s') = Some k"
      using record_segments_indexed[OF assms(1,2) p] record_segments_indexed[OF assms(3,4) p'] idx
      by (metis option.collapse)
    note at = indexed_file_path[OF assms(2) k(1)] indexed_file_path[OF assms(4) k(2)]
    have "input_tree (record_inputs sn ! k) = input_tree (record_inputs sn' ! k)"
      using arg_cong[OF inputs, of "\<lambda>xs. xs ! k"] at by simp
    from input_tree_path[OF this] at show ?thesis by simp
  qed
  have "map (output_content sn) (sorted_outputs plan) = map (output_content sn') (sorted_outputs plan')"
  proof (rule nth_equalityI)
    show len: "length (map (output_content sn) (sorted_outputs plan)) =
        length (map (output_content sn') (sorted_outputs plan'))"
      using map_eq_imp_length_eq[OF outputs] by simp
    fix i assume "i < length (map (output_content sn) (sorted_outputs plan))"
    then have i: "i < length (sorted_outputs plan)" "i < length (sorted_outputs plan')"
      using len by simp_all
    have "output_tree (\<lambda>i. the (m i)) (sorted_outputs plan ! i) =
        output_tree (\<lambda>i. the (m' i)) (sorted_outputs plan' ! i)"
      using arg_cong[OF outputs, of "\<lambda>xs. xs ! i"] i by simp
    then have "output_content sn (sorted_outputs plan ! i) = output_content sn' (sorted_outputs plan' ! i)"
      by (rule output_tree_content) (rule same_path, use i in \<open>simp_all del: set_sorted_outputs\<close>)
    with i show "map (output_content sn) (sorted_outputs plan) ! i =
        map (output_content sn') (sorted_outputs plan') ! i" by simp
  qed
  moreover have "map input_content (record_inputs sn) = map input_content (record_inputs sn')"
    using inputs by (rule map_tree_content) (rule input_tree_content)
  moreover have "ep_operations plan = ep_operations plan'"
    "ws_workspace_identity sn = ws_workspace_identity sn'"
    using tree by (simp_all add: plan_tree_def map_tree_inject)
  ultimately show ?thesis
    by (simp only: plan_content_def)
qed


subsection \<open>When a record exists\<close>

fun sized_precondition :: "Precondition \<Rightarrow> bool" where
  "sized_precondition (Sha256 d) = (length d = 32)"
| "sized_precondition MustNotExist = True"

fun sized_input :: "InputRecord \<Rightarrow> bool" where
  "sized_input (AbsentInput a) = (length (path_value (ap_path a)) \<le> u64_max)"
| "sized_input (ExistingInput f) = (length (path_value (fs_path f)) \<le> u64_max \<and>
     length (fs_bytes f) \<le> u64_max \<and> length (fs_digest f) = 32)"

definition sized_operation :: "ResolvedOperation \<Rightarrow> bool" where
  "sized_operation r \<longleftrightarrow> length (path_value (ro_source_path r)) \<le> u64_max \<and>
     length (path_value (ro_destination_path r)) \<le> u64_max \<and> length (ro_selected_digest r) = 32 \<and>
     sized_precondition (ro_source_precondition r) \<and> sized_precondition (ro_destination_precondition r)"

fun sized_segment :: "OutputSegment \<Rightarrow> bool" where
  "sized_segment (OriginalSlice _ _) = True"
| "sized_segment (PayloadSlice _ _ _ d) = (length d = 32)"

definition sized_output :: "PlannedOutput \<Rightarrow> bool" where
  "sized_output p \<longleftrightarrow> length (path_value (po_path p)) \<le> u64_max \<and>
     (case po_original_digest p of Some d \<Rightarrow> length d = 32 | None \<Rightarrow> True) \<and>
     length (po_resulting_digest p) = 32 \<and> length (po_segments p) \<le> u64_max \<and>
     list_all sized_segment (po_segments p)"

definition sized_plan :: "WorkspaceSnapshot \<Rightarrow> EditPlan \<Rightarrow> bool" where
  "sized_plan snapshot plan \<longleftrightarrow> length (record_inputs snapshot) \<le> u64_max \<and>
     list_all sized_input (record_inputs snapshot) \<and>
     length (ep_operations plan) \<le> u64_max \<and> list_all sized_operation (ep_operations plan) \<and>
     length (ep_outputs plan) \<le> u64_max \<and> list_all sized_output (ep_outputs plan)"

lemma digest_size [simp]: "(32 :: nat) \<le> u64_max"
  by (simp add: u64_max_def)

lemma and_then_total:
  "\<exists>a. r = Ok a \<Longrightarrow> (\<And>a. \<exists>b. k a = Ok b) \<Longrightarrow> \<exists>b. and_then r k = Ok b"
  by auto

lemma encode_precondition_total: "sized_precondition p \<Longrightarrow> \<exists>e'. encode_precondition e p = Ok e'"
  by (cases p) (simp_all add: encode_precondition_def)

lemma encode_input_total: "sized_input i \<Longrightarrow> \<exists>e'. encode_input e i = Ok e'"
  by (cases i) (simp_all add: encode_input_def)

lemma encode_operation_total: "sized_operation r \<Longrightarrow> \<exists>e'. encode_operation e r = Ok e'"
  unfolding encode_operation_def sized_operation_def
  by (intro and_then_total encode_precondition_total) auto

lemma try_fold_total:
  "(\<And>s x. x \<in> set xs \<Longrightarrow> \<exists>t. f s x = Ok t) \<Longrightarrow> \<exists>t. try_fold f s xs = Ok t"
proof (induction xs arbitrary: s)
  case (Cons x xs)
  then obtain s' where "f s x = Ok s'" by fastforce
  moreover obtain t where "try_fold f s' xs = Ok t" using Cons by fastforce
  ultimately show ?case by simp
qed simp

lemma encode_segment_total:
  "sized_segment s \<Longrightarrow> m (segment_file s) \<noteq> None \<Longrightarrow> \<exists>e'. encode_segment m e s = Ok e'"
  by (cases s) (auto simp: encode_segment_def input_index_def)

lemma encode_output_total:
  assumes "sized_output p" "\<forall>s\<in>set (po_segments p). m (segment_file s) \<noteq> None"
  shows "\<exists>e'. encode_output m e p = Ok e'"
proof -
  have "\<exists>e'. try_fold (encode_segment m) e1 (po_segments p) = Ok e'" for e1
    using assms by (intro try_fold_total encode_segment_total)
      (auto simp: sized_output_def list_all_iff)
  with assms(1) show ?thesis
    by (auto simp: encode_output_def sized_output_def split: option.splits)
qed

fun input_ids :: "InputRecord list \<Rightarrow> SnapshotFileId list" where
  "input_ids [] = []"
| "input_ids (ExistingInput f # xs) = fs_id f # input_ids xs"
| "input_ids (AbsentInput a # xs) = input_ids xs"

lemma note_input_simps:
  "note_input m (n, AbsentInput a) = Ok m"
  "note_input m (n, ExistingInput f) =
     (if u64_max < n then Err (invalid ''snapshot_input_index'')
      else if fs_id f \<in> dom m then Err (invalid ''duplicate_snapshot_file_id'')
      else Ok (m(fs_id f \<mapsto> n)))"
  by (auto simp: note_input_def)

lemma note_inputs_Ok_iff:
  "n + length xs \<le> Suc u64_max \<Longrightarrow>
   (\<exists>m'. try_fold note_input m (enumerate n xs) = Ok m') \<longleftrightarrow>
   distinct (input_ids xs) \<and> set (input_ids xs) \<inter> dom m = {}"
proof (induction xs arbitrary: n m)
  case (Cons x xs)
  then show ?case
    by (cases x) (auto simp: note_input_simps split: if_splits)
qed simp

lemma note_inputs_dom:
  "try_fold note_input m (enumerate n xs) = Ok m' \<Longrightarrow> dom m' = dom m \<union> set (input_ids xs)"
proof (induction xs arbitrary: n m)
  case (Cons x xs)
  then show ?case
    by (cases x) (auto simp: note_input_simps split: if_splits)
qed simp

lemma mset_input_ids: "mset (input_ids xs) = \<Sum>\<^sub># (image_mset (\<lambda>x. mset (input_ids [x])) (mset xs))"
proof (induction xs)
  case (Cons x xs)
  then show ?case by (cases x) simp_all
qed simp

lemma mset_record_ids: "mset (input_ids (record_inputs snapshot)) = mset (map fs_id (ws_files snapshot))"
proof -
  have "input_ids (map ExistingInput fs @ map AbsentInput as) = map fs_id fs" for fs as
    by (induction fs; induction as) simp_all
  then show ?thesis
    by (metis mset_input_ids mset_sort record_inputs_def)
qed

lemma record_inputs_Ok_iff:
  assumes "length (record_inputs snapshot) \<le> u64_max"
  shows "(\<exists>m. input_indexes snapshot = Ok m) \<longleftrightarrow> distinct (map fs_id (ws_files snapshot))"
proof -
  have "distinct (input_ids (record_inputs snapshot)) = distinct (map fs_id (ws_files snapshot))"
    using mset_eq_imp_distinct_iff mset_record_ids by blast
  with assms show ?thesis
    unfolding input_indexes_def by (subst note_inputs_Ok_iff) auto
qed

lemma encode_outputs_Ok_iff:
  assumes "length (ep_outputs plan) \<le> u64_max" "list_all sized_output (ep_outputs plan)"
  shows "(\<exists>e'. encode_outputs e plan m = Ok e') \<longleftrightarrow>
    (\<forall>p\<in>set (ep_outputs plan). \<forall>s\<in>set (po_segments p). segment_file s \<in> dom m)"
proof -
  have len: "length (sorted_outputs plan) \<le> u64_max"
    using assms(1) by (simp add: sorted_outputs_def)
  have fold: "encode_outputs e plan m =
      try_fold (encode_output m) (e @ head (4, length (sorted_outputs plan))) (sorted_outputs plan)"
    using len major_value_append[of e 4 "length (sorted_outputs plan)"]
    by (simp add: encode_outputs_def Let_def sorted_outputs_def[symmetric] array_def)
  show ?thesis
  proof
    assume "\<exists>e'. encode_outputs e plan m = Ok e'"
    then obtain e' where "try_fold (encode_output m) (e @ head (4, length (sorted_outputs plan)))
        (sorted_outputs plan) = Ok e'"
      by (auto simp: fold)
    from try_fold_each[OF this] show "\<forall>p\<in>set (ep_outputs plan). \<forall>s\<in>set (po_segments p). segment_file s \<in> dom m"
      by (auto dest: encode_output_indexed)
  next
    assume "\<forall>p\<in>set (ep_outputs plan). \<forall>s\<in>set (po_segments p). segment_file s \<in> dom m"
    with assms(2) show "\<exists>e'. encode_outputs e plan m = Ok e'"
      unfolding fold by (intro try_fold_total encode_output_total) (auto simp: list_all_iff)
  qed
qed

lemma encode_plan_record_Ok_iff:
  assumes "sized_plan snapshot plan"
  shows "(\<exists>bs. encode_plan_record snapshot plan = Ok bs) \<longleftrightarrow>
    distinct (map fs_id (ws_files snapshot)) \<and>
    (\<forall>p\<in>set (ep_outputs plan). \<forall>s\<in>set (po_segments p). segment_file s \<in> fs_id ` set (ws_files snapshot))"
proof (cases "\<exists>m. input_indexes snapshot = Ok m")
  case False
  then show ?thesis
    using record_inputs_Ok_iff[of snapshot] assms
    by (auto simp: encode_plan_record_def Let_def input_indexes_def sized_plan_def)
next
  case True
  then obtain m where m: "input_indexes snapshot = Ok m" by blast
  have ids: "dom m = fs_id ` set (ws_files snapshot)"
    using note_inputs_dom[OF m[unfolded input_indexes_def]] mset_eq_setD[OF mset_record_ids[of snapshot]]
    by simp
  have "\<exists>e'. encode_inputs (encode_workspace_identity (unsigned (unsigned (major_value [] 4 6)
      PLAN_HASH_VERSION) PROTOCOL_VERSION) snapshot) (record_inputs snapshot) = Ok e'"
    unfolding encode_inputs_def using assms
    by (intro and_then_total try_fold_total encode_input_total)
      (auto simp: sized_plan_def list_all_iff)
  then obtain e1 where e1: "encode_inputs (encode_workspace_identity (unsigned (unsigned
      (major_value [] 4 6) PLAN_HASH_VERSION) PROTOCOL_VERSION) snapshot)
      (record_inputs snapshot) = Ok e1" by blast
  have "\<exists>e'. encode_operations e1 plan = Ok e'"
    unfolding encode_operations_def using assms
    by (intro and_then_total try_fold_total encode_operation_total)
      (auto simp: sized_plan_def list_all_iff)
  then obtain e2 where e2: "encode_operations e1 plan = Ok e2" by blast
  have "encode_plan_record snapshot plan = encode_outputs e2 plan m"
    using m e1 e2 by (simp add: encode_plan_record_def Let_def input_indexes_def array_def u64_max_def)
  moreover have "(\<exists>e'. encode_outputs e2 plan m = Ok e') \<longleftrightarrow>
      (\<forall>p\<in>set (ep_outputs plan). \<forall>s\<in>set (po_segments p). segment_file s \<in> dom m)"
    using assms by (intro encode_outputs_Ok_iff) (simp_all add: sized_plan_def)
  ultimately show ?thesis
    using True record_inputs_Ok_iff[of snapshot] assms ids by (simp add: sized_plan_def)
qed

section \<open>Properties\<close>

text \<open>
  The head \<open>major_value\<close> emits for a major type and a \<open>u64\<close> argument is read
  back from the front of any stream, and it is the shortest head there is: its length is the
  least of 1, 2, 3, 5 and 9 bytes that can hold the argument.
\<close>

theorem cbor_head_roundtrip:
  assumes "m < 8" "v \<le> u64_max"
  shows "read_head (major_value [] (of_nat m) v @ rest) = Some ((m, v), rest) \<and>
    length (major_value [] (of_nat m) v) =
      (if v < 24 then 1 else if v < 2 ^ 8 then 2 else if v < 2 ^ 16 then 3
       else if v < 2 ^ 32 then 5 else 9)"
proof -
  have "read_head (major_value [] (of_nat m) v @ rest) = Some ((m, v), rest)"
    using read_head_head[of m v rest] assms by (simp add: valid_head_def head_def)
  moreover have "length (major_value [] (of_nat m) v) =
      (if v < 24 then 1 else if v < 2 ^ 8 then 2 else if v < 2 ^ 16 then 3
       else if v < 2 ^ 32 then 5 else 9)"
    by (simp add: major_value_def Let_def)
  ultimately show ?thesis ..
qed

theorem cbor_head_roundtrip_witness:
  "read_head (major_value [] 4 1000 @ [7]) = Some ((4, 1000), [7]) \<and>
    length (major_value [] 4 1000) = 3"
  using cbor_head_roundtrip[of 4 1000 "[7]"] by (simp add: u64_max_def)

text \<open>
  C6: two snapshot and plan pairs with the same plan record have the same content:
  workspace identity, inputs (path, parent, identity, length, digest), every resolved
  operation in full, and every output with its digests, length, change and segments, the
  files of the segments named by path. No two distinct plan contents share a record.
\<close>

theorem plan_record_binds_content:
  assumes "encode_plan_record snapshot plan = Ok bs" "encode_plan_record snapshot' plan' = Ok bs"
    and "u64_plan snapshot plan" "u64_plan snapshot' plan'"
  shows "plan_content snapshot plan = plan_content snapshot' plan'"
proof -
  obtain m where m: "input_indexes snapshot = Ok m"
    "bs = cbor_encode (plan_tree (\<lambda>i. the (m i)) snapshot plan)"
    using assms(1) by (rule encode_plan_record_tree)
  obtain m' where m': "input_indexes snapshot' = Ok m'"
    "bs = cbor_encode (plan_tree (\<lambda>i. the (m' i)) snapshot' plan')"
    using assms(2) by (rule encode_plan_record_tree)
  have "plan_tree (\<lambda>i. the (m i)) snapshot plan = plan_tree (\<lambda>i. the (m' i)) snapshot' plan'"
    using valid_plan_tree[OF assms(1,3) m(1)] valid_plan_tree[OF assms(2,4) m'(1)] m(2) m'(2)
    by (intro cbor_item.enc_inject) simp_all
  then show ?thesis
    by (rule plan_tree_content[OF assms(1) m(1) assms(2) m'(1)])
qed

definition sample_snapshot :: WorkspaceSnapshot where
  "sample_snapshot = \<lparr>ws_workspace_identity = \<lparr>fi_device = 1, fi_inode = 2\<rparr>,
     ws_files = [\<lparr>fs_id = 0, fs_path = WorkspaceRelativePath ''a'',
       fs_parent_identity = \<lparr>fi_device = 1, fi_inode = 2\<rparr>, fs_parent_identities = [],
       fs_identity = \<lparr>fi_device = 1, fi_inode = 3\<rparr>, fs_link_count = 1, fs_bytes = [65, 10],
       fs_digest = [], fs_line_index = \<lparr>boundaries = [0, 2]\<rparr>\<rparr>],
     ws_absent_paths = []\<rparr>"

definition sample_plan :: "nat \<Rightarrow> EditPlan" where
  "sample_plan segment_memory = \<lparr>ep_operations = [],
     ep_outputs = [\<lparr>po_path = WorkspaceRelativePath ''a'', po_original_digest = None,
       po_change = Unchanged, po_resulting_length = 2, po_resulting_digest = [],
       po_segments = [OriginalSlice 0 \<lparr>range_start = 0, range_end = 2\<rparr>]\<rparr>],
     ep_usage = default_planning_usage \<lparr>pu_planning_memory_bytes := segment_memory\<rparr>,
     ep_digest = []\<rparr>"

theorem plan_record_binds_content_witness:
  "plan_content sample_snapshot (sample_plan 5) = plan_content sample_snapshot (sample_plan 6)"
proof -
  have "encode_plan_record sample_snapshot (sample_plan n) =
      encode_plan_record sample_snapshot (sample_plan 5)" for n
    by (simp add: encode_plan_record_def sample_plan_def encode_operations_def encode_outputs_def Let_def)
  moreover obtain bs where "encode_plan_record sample_snapshot (sample_plan 5) = Ok bs"
    by (simp add: encode_plan_record_def sample_snapshot_def sample_plan_def record_inputs_def
        encode_inputs_def encode_input_def encode_operations_def encode_outputs_def Let_def
        encode_output_def encode_segment_def input_index_def note_input_def array_def
        text_string_def byte_string_def u64_max_def)
  moreover have "u64_plan sample_snapshot (sample_plan n)" for n
    by (simp add: u64_plan_def sample_snapshot_def sample_plan_def u64_identity_def u64_output_def
        u64_range_def record_inputs_def u64_max_def)
  ultimately show ?thesis
    by (metis plan_record_binds_content)
qed

text \<open>
  for a snapshot and plan within the ranges of Rust's types, the encoder
  returns a record exactly when the snapshot's file identifiers are distinct and every
  segment of every output names a file of the snapshot; otherwise it reports an error.
\<close>

theorem plan_record_exists_iff:
  assumes "sized_plan snapshot plan"
  shows "(\<exists>bs. encode_plan_record snapshot plan = Ok bs) \<longleftrightarrow>
    distinct (map fs_id (ws_files snapshot)) \<and>
    (\<forall>p\<in>set (ep_outputs plan). \<forall>s\<in>set (po_segments p).
      segment_file s \<in> fs_id ` set (ws_files snapshot))"
  using assms by (rule encode_plan_record_Ok_iff)

theorem plan_record_exists_iff_witness:
  "\<exists>bs. encode_plan_record (sample_snapshot \<lparr>ws_files := []\<rparr>) ((sample_plan 5) \<lparr>ep_outputs := []\<rparr>) = Ok bs"
  by (subst plan_record_exists_iff)
    (simp_all add: sized_plan_def sample_snapshot_def sample_plan_def record_inputs_def)

end
