(* ===== verification/Planner.thy ===== *)
theory Planner
  imports Plan_Hash
begin

text \<open>
  The planner itself (\<open>plan\<close>, \<open>calculate_usage\<close> and \<open>enforce_usage\<close> of
  \<open>crates/srcmv-core/src/planner.rs\<close>): the loop that resolves every operation of a batch and
  collects the edits of each output, the evaluation and classification of the outputs, and
  the resource accounting of a plan. The loop is proved to refine \<open>edited_bytes\<close>, a
  specification of an output in terms of the resolved operations alone. The sizes of the Rust
  structures, which the compiler chooses, are the parameter \<open>Layout\<close>.
\<close>

section \<open>Model\<close>

record Layout =
  size_of_ResolvedOperation :: nat
  size_of_PlannedOutput :: nat
  size_of_OutputSegment :: nat

definition operation_effect ::
    "OperationKind \<Rightarrow> OperationSpecification \<Rightarrow> ByteRange \<Rightarrow> nat \<Rightarrow> OperationEffect" where
  "operation_effect kind specification source_range destination_offset =
     (if kind = Move \<and>
         ss_path (os_source specification) = de_path (os_destination specification) \<and>
         (destination_offset = range_start source_range \<or> destination_offset = range_end source_range)
      then NoOp else Changed)"

definition resolve_operation ::
    "(bytes \<Rightarrow> Sha256Digest) \<Rightarrow> StatesByPath \<Rightarrow> nat \<Rightarrow> Operation
      \<Rightarrow> CoreError + (ResolvedOperation \<times> FileSnapshot \<times> SnapshotState)" where
  "resolve_operation H states operation_index operation =
     (case operation_parts operation of (kind, specification) \<Rightarrow>
      and_then (existing_source states specification operation_index) (\<lambda>source.
      and_then (resolve_selector source (ss_selector (os_source specification)) operation_index)
        (\<lambda>source_range.
      and_then (digest_range H source source_range) (\<lambda>selected_digest.
      and_then (destination_state states specification operation_index) (\<lambda>destination.
      and_then (resolve_anchor destination (de_anchor (os_destination specification)) operation_index)
        (\<lambda>destination_offset.
      Ok (\<lparr>ro_operation_index = operation_index, ro_kind = kind,
           ro_source_path = ss_path (os_source specification),
           ro_selector = ss_selector (os_source specification),
           ro_source_precondition = ss_precondition (os_source specification),
           ro_source_range = source_range,
           ro_selected_digest = selected_digest,
           ro_destination_path = de_path (os_destination specification),
           ro_anchor = de_anchor (os_destination specification),
           ro_destination_precondition = de_precondition (os_destination specification),
           ro_destination_offset = destination_offset,
           ro_effect = operation_effect kind specification source_range destination_offset\<rparr>,
          source, destination)))))))"

definition push_deletion ::
    "WorkspaceRelativePath \<Rightarrow> EditsByPath \<times> OutputEdits \<Rightarrow> nat \<times> ByteRange \<Rightarrow> EditsByPath" where
  "push_deletion path entry deletion =
     (case entry of (edits, output) \<Rightarrow>
        bt_put path (output\<lparr>oe_deletions := oe_deletions output @ [deletion]\<rparr>) edits)"

definition push_insertion ::
    "WorkspaceRelativePath \<Rightarrow> EditsByPath \<times> OutputEdits \<Rightarrow> nat \<times> Insertion \<Rightarrow> EditsByPath" where
  "push_insertion path entry insertion =
     (case entry of (edits, output) \<Rightarrow>
        bt_put path (output\<lparr>oe_insertions := oe_insertions output @ [insertion]\<rparr>) edits)"

definition plan_operation ::
    "(bytes \<Rightarrow> Sha256Digest) \<Rightarrow> StatesByPath \<Rightarrow> ResolvedOperation list \<times> EditsByPath
      \<Rightarrow> nat \<times> Operation \<Rightarrow> CoreError + (ResolvedOperation list \<times> EditsByPath)" where
  "plan_operation H states st entry =
     (case (st, entry) of ((resolved, edits), (index, operation)) \<Rightarrow>
      and_then (to_u64 index ''operations'') (\<lambda>operation_index.
      and_then (resolve_operation H states operation_index operation) (\<lambda>(r, source, destination).
      if ro_effect r = NoOp then Ok (resolved @ [r], edits)
      else
        and_then
          (if ro_kind r = Move
           then and_then (output_edits edits (ro_source_path r) (Existing source)) (\<lambda>source_edits.
             Ok (push_deletion (ro_source_path r) source_edits (operation_index, ro_source_range r)))
           else Ok edits) (\<lambda>edits1.
        and_then (output_edits edits1 (ro_destination_path r) destination) (\<lambda>destination_edits.
        Ok (resolved @ [r], push_insertion (ro_destination_path r) destination_edits
          (ro_destination_offset r,
           \<lparr>in_operation_index = operation_index, in_snapshot_file_id = fs_id source,
            in_range = ro_source_range r, in_payload_digest = ro_selected_digest r\<rparr>)))))))"

definition plan_output ::
    "(bytes \<Rightarrow> Sha256Digest) \<Rightarrow> FilesById \<Rightarrow> OutputEdits \<Rightarrow> CoreError + PlannedOutput" where
  "plan_output H files_by_id edits =
     and_then (validate_edit_conflicts edits) (\<lambda>_.
     and_then (build_segments edits) (\<lambda>segments.
     and_then (stream_output H segments files_by_id (oe_existing_file_id edits))
       (\<lambda>(resulting_length, resulting_digest, equals_original).
     let change = classify_output (oe_existing_file_id edits \<noteq> None) resulting_length equals_original in
     and_then
       (case oe_existing_file_id edits of
          Some file_id \<Rightarrow>
            if change \<noteq> Unchanged
            then and_then (ok_or (files_by_id file_id) (InvalidDomainValue ''output_snapshot_file_id''))
              (\<lambda>file. if fs_link_count file \<noteq> 1
                then Err (HardLinkNotSupported (oe_path edits) (fs_link_count file)) else Ok ())
            else Ok ()
        | None \<Rightarrow> Ok ()) (\<lambda>_.
     Ok \<lparr>po_path = oe_path edits, po_original_digest = oe_original_digest edits,
         po_change = change, po_resulting_length = resulting_length,
         po_resulting_digest = resulting_digest, po_segments = segments\<rparr>))))"

subsection \<open>Resource accounting\<close>

definition operation_usage :: "PlanningUsage \<Rightarrow> ResolvedOperation \<Rightarrow> CoreError + PlanningUsage" where
  "operation_usage usage operation =
     and_then (to_u64 (length (path_value (ro_source_path operation))) ''projected_response_bytes'')
       (\<lambda>source_bytes.
     and_then (to_u64 (length (path_value (ro_destination_path operation))) ''projected_response_bytes'')
       (\<lambda>destination_bytes.
     and_then (checked_add source_bytes destination_bytes ''projected_response_bytes'') (\<lambda>path_bytes.
     and_then (checked_add 1024 path_bytes ''projected_response_bytes'') (\<lambda>projection.
     and_then (checked_add (pu_projected_response_bytes usage) projection ''projected_response_bytes'')
       (\<lambda>projected_response_bytes.
     and_then (checked_add (pu_planning_memory_bytes usage) path_bytes ''planning_memory_bytes'')
       (\<lambda>planning_memory_bytes.
     Ok (usage\<lparr>pu_projected_response_bytes := projected_response_bytes,
               pu_planning_memory_bytes := planning_memory_bytes\<rparr>)))))))"

definition output_usage :: "Layout \<Rightarrow> PlanningUsage \<Rightarrow> PlannedOutput \<Rightarrow> CoreError + PlanningUsage" where
  "output_usage L usage output =
     and_then (to_u64 (length (po_segments output)) ''segments'') (\<lambda>segment_count.
     and_then (checked_add (pu_total_output_bytes usage) (po_resulting_length output)
       ''planned_output_bytes'') (\<lambda>total_output_bytes.
     and_then (checked_add (pu_total_segments usage) segment_count ''segments'') (\<lambda>total_segments.
     and_then (if po_change output \<noteq> Unchanged
       then checked_add (pu_changed_targets usage) 1 ''changed_targets''
       else Ok (pu_changed_targets usage)) (\<lambda>changed_targets.
     and_then (to_u64 (length (path_value (po_path output))) ''projected_response_bytes'')
       (\<lambda>path_bytes.
     and_then (checked_mul segment_count 512 ''projected_response_bytes'') (\<lambda>segment_projection.
     and_then (checked_add 512 path_bytes ''projected_response_bytes'') (\<lambda>base.
     and_then (checked_add base segment_projection ''projected_response_bytes'') (\<lambda>projection.
     and_then (checked_add (pu_projected_response_bytes usage) projection ''projected_response_bytes'')
       (\<lambda>projected_response_bytes.
     and_then (to_u64 (size_of_OutputSegment L) ''planning_memory_bytes'') (\<lambda>segment_size.
     and_then (checked_mul segment_count segment_size ''planning_memory_bytes'') (\<lambda>segment_memory.
     and_then (checked_add path_bytes segment_memory ''planning_memory_bytes'') (\<lambda>output_memory.
     and_then (checked_add (pu_planning_memory_bytes usage) output_memory ''planning_memory_bytes'')
       (\<lambda>planning_memory_bytes.
     Ok (usage\<lparr>pu_maximum_output_bytes := max (pu_maximum_output_bytes usage) (po_resulting_length output),
               pu_total_output_bytes := total_output_bytes,
               pu_maximum_output_segments := max (pu_maximum_output_segments usage) segment_count,
               pu_total_segments := total_segments,
               pu_changed_targets := changed_targets,
               pu_projected_response_bytes := projected_response_bytes,
               pu_planning_memory_bytes := planning_memory_bytes\<rparr>))))))))))))))"

definition calculate_usage ::
    "Layout \<Rightarrow> ResolvedOperation list \<Rightarrow> PlannedOutput list \<Rightarrow> CoreError + PlanningUsage" where
  "calculate_usage L operations outputs =
     and_then (to_u64 (length operations) ''planning_memory_bytes'') (\<lambda>operation_count.
     and_then (to_u64 (size_of_ResolvedOperation L) ''planning_memory_bytes'') (\<lambda>operation_size.
     and_then (checked_mul operation_count operation_size ''planning_memory_bytes'') (\<lambda>memory.
     and_then (try_fold operation_usage
       (default_planning_usage\<lparr>pu_planning_memory_bytes := memory, pu_projected_response_bytes := 1024\<rparr>)
       operations) (\<lambda>usage.
     and_then (to_u64 (length outputs) ''planning_memory_bytes'') (\<lambda>output_count.
     and_then (to_u64 (size_of_PlannedOutput L) ''planning_memory_bytes'') (\<lambda>output_size.
     and_then (checked_mul output_count output_size ''planning_memory_bytes'') (\<lambda>output_memory.
     and_then (checked_add (pu_planning_memory_bytes usage) output_memory ''planning_memory_bytes'')
       (\<lambda>planning_memory_bytes.
     try_fold (output_usage L) (usage\<lparr>pu_planning_memory_bytes := planning_memory_bytes\<rparr>) outputs))))))))"

definition enforce_limit :: "string \<Rightarrow> nat \<Rightarrow> nat \<Rightarrow> CoreError + unit" where
  "enforce_limit resource actual limit =
     (if limit < actual then Err (ResourceLimitExceeded resource actual limit) else Ok ())"

definition enforce_usage :: "PlanningUsage \<Rightarrow> ResourceBudget \<Rightarrow> CoreError + unit" where
  "enforce_usage usage budget =
     and_then (enforce_limit ''resulting_bytes_per_output'' (pu_maximum_output_bytes usage)
       (rb_resulting_bytes_per_output budget)) (\<lambda>_.
     and_then (enforce_limit ''planned_output_bytes'' (pu_total_output_bytes usage)
       (rb_planned_output_bytes budget)) (\<lambda>_.
     and_then (enforce_limit ''segments_per_output'' (pu_maximum_output_segments usage)
       (rb_segments_per_output budget)) (\<lambda>_.
     and_then (enforce_limit ''segments'' (pu_total_segments usage) (rb_segments budget)) (\<lambda>_.
     and_then (enforce_limit ''changed_targets'' (pu_changed_targets usage)
       (rb_changed_targets budget)) (\<lambda>_.
     and_then (enforce_limit ''projected_response_bytes'' (pu_projected_response_bytes usage)
       (rb_projected_response_bytes budget)) (\<lambda>_.
     enforce_limit ''planning_memory_bytes'' (pu_planning_memory_bytes usage)
       (rb_planning_memory_bytes budget)))))))"

subsection \<open>The plan\<close>

definition plan ::
    "Layout \<Rightarrow> (bytes \<Rightarrow> Sha256Digest) \<Rightarrow> WorkspaceSnapshot \<Rightarrow> BatchSpecification \<Rightarrow> ResourceBudget
      \<Rightarrow> CoreError + EditPlan" where
  "plan L H snapshot batch budget =
     and_then (index_snapshot snapshot) (\<lambda>(states, files_by_id).
     and_then (validate_precondition_consistency batch) (\<lambda>_.
     and_then (try_fold (plan_operation H states) ([], []) (enumerate 0 (bs_operations batch)))
       (\<lambda>(resolved, edits).
     and_then (try_map (plan_output H files_by_id) (map snd edits)) (\<lambda>outputs.
     and_then (calculate_usage L resolved outputs) (\<lambda>usage.
     and_then (enforce_usage usage budget) (\<lambda>_.
     let edit_plan = \<lparr>ep_operations = resolved, ep_outputs = outputs, ep_usage = usage,
                      ep_digest = replicate 32 0\<rparr> in
     and_then (plan_digest H snapshot edit_plan) (\<lambda>digest.
     Ok (edit_plan\<lparr>ep_digest := digest\<rparr>))))))))"

section \<open>The indexed snapshot\<close>

definition file_at :: "WorkspaceSnapshot \<Rightarrow> WorkspaceRelativePath \<Rightarrow> FileSnapshot option" where
  "file_at snapshot path = find (\<lambda>f. fs_path f = path) (ws_files snapshot)"

definition file_with_id :: "WorkspaceSnapshot \<Rightarrow> FilesById" where
  "file_with_id snapshot i = find (\<lambda>f. fs_id f = i) (ws_files snapshot)"

definition state_at :: "WorkspaceSnapshot \<Rightarrow> WorkspaceRelativePath \<Rightarrow> SnapshotState option" where
  "state_at snapshot path =
     (case file_at snapshot path of
        Some f \<Rightarrow> Some (Existing f)
      | None \<Rightarrow> map_option Absent (find (\<lambda>a. ap_path a = path) (ws_absent_paths snapshot)))"

lemma index_file_Ok_iff:
  "index_file (st, fl) f = Ok m \<longleftrightarrow>
     st (path_value (fs_path f)) = None \<and> fl (fs_id f) = None \<and>
     m = (st(path_value (fs_path f) \<mapsto> Existing f), fl(fs_id f \<mapsto> f))"
  by (auto simp: index_file_def)

lemma index_absent_Ok_iff:
  "index_absent st a = Ok m \<longleftrightarrow>
     st (path_value (ap_path a)) = None \<and> m = st(path_value (ap_path a) \<mapsto> Absent a)"
  by (auto simp: index_absent_def)

lemma index_files:
  "try_fold index_file (st, fl) fs = Ok (st', fl') \<Longrightarrow>
     (\<forall>p. st' (path_value p) = (case find (\<lambda>f. fs_path f = p) fs of
        Some f \<Rightarrow> Some (Existing f) | None \<Rightarrow> st (path_value p))) \<and>
     (\<forall>i. fl' i = (case find (\<lambda>f. fs_id f = i) fs of Some f \<Rightarrow> Some f | None \<Rightarrow> fl i)) \<and>
     distinct (map fs_path fs) \<and> distinct (map fs_id fs) \<and>
     (\<forall>f\<in>set fs. st (path_value (fs_path f)) = None \<and> fl (fs_id f) = None)"
proof (induction fs arbitrary: st fl)
  case (Cons f fs)
  have new: "st (path_value (fs_path f)) = None" "fl (fs_id f) = None"
    and rest: "try_fold index_file (st(path_value (fs_path f) \<mapsto> Existing f), fl(fs_id f \<mapsto> f)) fs = Ok (st', fl')"
    using Cons.prems by (auto simp: index_file_Ok_iff)
  note IH = Cons.IH[OF rest]
  have other: "fs_path g \<noteq> fs_path f \<and> fs_id g \<noteq> fs_id f \<and> st (path_value (fs_path g)) = None \<and>
      fl (fs_id g) = None" if "g \<in> set fs" for g
    using IH that by (auto split: if_splits)
  then have "find (\<lambda>g. fs_path g = fs_path f) fs = None" "find (\<lambda>g. fs_id g = fs_id f) fs = None"
    by (auto simp: find_None_iff)
  moreover have "fs_path f \<notin> fs_path ` set fs" "fs_id f \<notin> fs_id ` set fs"
    using other by (metis imageE)+
  ultimately show ?case using IH other new by (auto split: option.splits)
qed simp

lemma index_absents:
  "try_fold index_absent st as = Ok st' \<Longrightarrow>
     (\<forall>p. st' (path_value p) = (case find (\<lambda>a. ap_path a = p) as of
        Some a \<Rightarrow> Some (Absent a) | None \<Rightarrow> st (path_value p))) \<and>
     (\<forall>a\<in>set as. st (path_value (ap_path a)) = None)"
proof (induction "as" arbitrary: st)
  case (Cons a "as")
  have new: "st (path_value (ap_path a)) = None"
    and rest: "try_fold index_absent (st(path_value (ap_path a) \<mapsto> Absent a)) as = Ok st'"
    using Cons.prems by (auto simp: index_absent_Ok_iff)
  note IH = Cons.IH[OF rest]
  have other: "ap_path g \<noteq> ap_path a \<and> st (path_value (ap_path g)) = None" if "g \<in> set as" for g
    using IH that by (auto split: if_splits)
  then have "find (\<lambda>g. ap_path g = ap_path a) as = None"
    by (auto simp: find_None_iff)
  with IH other new show ?case by (auto split: option.splits)
qed simp

lemma index_snapshot_states:
  assumes "index_snapshot snapshot = Ok (states, files)"
  shows "states (path_value p) = state_at snapshot p" "files = file_with_id snapshot"
    "distinct (map fs_path (ws_files snapshot))" "distinct (map fs_id (ws_files snapshot))"
proof -
  obtain st where st: "try_fold index_file (Map.empty, Map.empty) (ws_files snapshot) = Ok (st, files)"
    "try_fold index_absent st (ws_absent_paths snapshot) = Ok states"
    using assms by (auto simp: index_snapshot_def)
  note f = index_files[OF st(1)] and a = index_absents[OF st(2)]
  show "distinct (map fs_path (ws_files snapshot))" "distinct (map fs_id (ws_files snapshot))"
    using f by simp_all
  show "files = file_with_id snapshot"
    using f by (intro ext) (simp add: file_with_id_def split: option.splits)
  have "find (\<lambda>a. ap_path a = p) (ws_absent_paths snapshot) = None"
    if "find (\<lambda>f. fs_path f = p) (ws_files snapshot) = Some g" for g
    using f a that by (auto simp: find_None_iff)
  with f a show "states (path_value p) = state_at snapshot p"
    by (auto simp: state_at_def file_at_def split: option.splits)
qed

lemma file_at_Some:
  "file_at snapshot p = Some f \<Longrightarrow> f \<in> set (ws_files snapshot) \<and> fs_path f = p"
  unfolding file_at_def by (auto simp: find_Some_iff)

lemma file_with_id_file:
  assumes "distinct (map fs_id (ws_files snapshot))" "f \<in> set (ws_files snapshot)"
  shows "file_with_id snapshot (fs_id f) = Some f"
  unfolding file_with_id_def
proof (rule find_only[OF assms(2)])
  show "\<forall>g\<in>set (ws_files snapshot). fs_id g = fs_id f \<longrightarrow> g = f"
    using assms unfolding distinct_map by (metis inj_onD)
qed (rule refl)

section \<open>Specification of a plan\<close>

text \<open>
  What a batch means, in terms of its resolved operations only: an operation that is not a
  no-op inserts the bytes it selects at its destination offset and, when it is a move, removes
  them from its source; insertions at one offset keep the order of the operations.
\<close>

definition original_bytes :: "WorkspaceSnapshot \<Rightarrow> WorkspaceRelativePath \<Rightarrow> bytes" where
  "original_bytes snapshot path = (case file_at snapshot path of Some f \<Rightarrow> fs_bytes f | None \<Rightarrow> [])"

definition selected_bytes :: "WorkspaceSnapshot \<Rightarrow> ResolvedOperation \<Rightarrow> bytes" where
  "selected_bytes snapshot r = slice (original_bytes snapshot (ro_source_path r))
     (range_start (ro_source_range r)) (range_end (ro_source_range r))"

definition moved_out :: "ResolvedOperation list \<Rightarrow> WorkspaceRelativePath \<Rightarrow> ResolvedOperation list" where
  "moved_out ops path =
     filter (\<lambda>r. ro_effect r = Changed \<and> ro_kind r = Move \<and> ro_source_path r = path) ops"

definition put_in :: "ResolvedOperation list \<Rightarrow> WorkspaceRelativePath \<Rightarrow> ResolvedOperation list" where
  "put_in ops path = filter (\<lambda>r. ro_effect r = Changed \<and> ro_destination_path r = path) ops"

definition touched :: "ResolvedOperation list \<Rightarrow> WorkspaceRelativePath \<Rightarrow> bool" where
  "touched ops path \<longleftrightarrow> moved_out ops path \<noteq> [] \<or> put_in ops path \<noteq> []"

definition edited_bytes ::
    "WorkspaceSnapshot \<Rightarrow> ResolvedOperation list \<Rightarrow> WorkspaceRelativePath \<Rightarrow> bytes" where
  "edited_bytes snapshot ops path =
     (let orig = original_bytes snapshot path in
      concat (map (\<lambda>i.
          concat (map (selected_bytes snapshot)
            (filter (\<lambda>r. ro_destination_offset r = i) (put_in ops path))) @
          (if i < length orig \<and>
              \<not> list_ex (\<lambda>r. range_start (ro_source_range r) \<le> i \<and> i < range_end (ro_source_range r))
                  (moved_out ops path)
           then [orig ! i] else []))
        [0..<Suc (length orig)]))"

section \<open>The edits collected by the loop\<close>

definition insertion_of :: "WorkspaceSnapshot \<Rightarrow> ResolvedOperation \<Rightarrow> Insertion" where
  "insertion_of snapshot r = \<lparr>in_operation_index = ro_operation_index r,
     in_snapshot_file_id = fs_id (the (file_at snapshot (ro_source_path r))),
     in_range = ro_source_range r, in_payload_digest = ro_selected_digest r\<rparr>"

definition edits_of ::
    "WorkspaceSnapshot \<Rightarrow> WorkspaceRelativePath \<Rightarrow> (nat \<times> ByteRange) list \<Rightarrow> (nat \<times> Insertion) list
      \<Rightarrow> OutputEdits" where
  "edits_of snapshot path dels inss = \<lparr>oe_path = path,
     oe_existing_file_id = map_option fs_id (file_at snapshot path),
     oe_original_length = length (original_bytes snapshot path),
     oe_original_digest = map_option fs_digest (file_at snapshot path),
     oe_deletions = dels, oe_insertions = inss\<rparr>"

definition deletions_for :: "ResolvedOperation list \<Rightarrow> WorkspaceRelativePath \<Rightarrow> (nat \<times> ByteRange) list" where
  "deletions_for ops path = map (\<lambda>r. (ro_operation_index r, ro_source_range r)) (moved_out ops path)"

definition insertions_for ::
    "WorkspaceSnapshot \<Rightarrow> ResolvedOperation list \<Rightarrow> WorkspaceRelativePath \<Rightarrow> (nat \<times> Insertion) list" where
  "insertions_for snapshot ops path =
     map (\<lambda>r. (ro_destination_offset r, insertion_of snapshot r)) (put_in ops path)"

definition represents ::
    "WorkspaceSnapshot \<Rightarrow> EditsByPath \<Rightarrow> (WorkspaceRelativePath \<Rightarrow> (nat \<times> ByteRange) list)
      \<Rightarrow> (WorkspaceRelativePath \<Rightarrow> (nat \<times> Insertion) list) \<Rightarrow> bool" where
  "represents snapshot edits D I \<longleftrightarrow> bt_sorted edits \<and>
     (\<forall>p. bt_get edits p =
        (if D p = [] \<and> I p = [] then None else Some (edits_of snapshot p (D p) (I p))))"

lemma output_edits_entry:
  assumes "represents snapshot edits D I" "state_at snapshot path = Some state"
    and "output_edits edits path state = Ok (edits', output)"
  shows "edits' = bt_put path output edits" "output = edits_of snapshot path (D path) (I path)"
proof -
  let ?new = "edits_of snapshot path [] []"
  have fields: "oe_existing_file_id ?new = (case state of Existing f \<Rightarrow> Some (fs_id f) | Absent a \<Rightarrow> None)"
    "oe_original_length ?new = (case state of Existing f \<Rightarrow> length (fs_bytes f) | Absent a \<Rightarrow> 0)"
    "oe_original_digest ?new = (case state of Existing f \<Rightarrow> Some (fs_digest f) | Absent a \<Rightarrow> None)"
    "oe_path ?new = path" "oe_deletions ?new = []" "oe_insertions ?new = []"
    using assms(2) by (auto simp: state_at_def edits_of_def original_bytes_def split: option.splits)
  have out: "edits' = bt_put path output edits \<and>
      output = (case bt_get edits path of Some out \<Rightarrow> out | None \<Rightarrow> ?new)"
  proof (cases state)
    case (Existing f)
    with assms(3) fields show ?thesis
      by (auto simp: output_edits_def Let_def to_u64_def split: if_splits option.splits
          intro: OutputEdits.equality)
  next
    case (Absent a)
    with assms(3) fields show ?thesis
      by (auto simp: output_edits_def Let_def split: if_splits option.splits
          intro: OutputEdits.equality)
  qed
  then show "edits' = bt_put path output edits" by simp
  show "output = edits_of snapshot path (D path) (I path)"
    using out assms(1) by (auto simp: represents_def)
qed

lemma represents_put:
  assumes "represents snapshot edits D I"
    and "out = edits_of snapshot path ds is" "ds \<noteq> [] \<or> is \<noteq> []"
  shows "represents snapshot (bt_put path out edits) (D(path := ds)) (I(path := is))"
  using assms by (auto simp: represents_def bt_get_put bt_sorted_put)

lemma bt_put_put [simp]: "bt_put k v (bt_put k u m) = bt_put k v m"
  by (induction m) auto

lemma push_deletion_represents:
  assumes "represents snapshot edits D I" "state_at snapshot path = Some state"
    and "output_edits edits path state = Ok entry"
  shows "represents snapshot (push_deletion path entry d) (D(path := D path @ [d])) I"
proof -
  obtain edits' out where e: "entry = (edits', out)" by (cases entry)
  note eo = output_edits_entry[OF assms(1,2) assms(3)[unfolded e]]
  have "push_deletion path entry d = bt_put path (edits_of snapshot path (D path @ [d]) (I path)) edits"
    using eo by (simp add: push_deletion_def e edits_of_def)
  with represents_put[OF assms(1) refl, of "D path @ [d]" "I path" path] show ?thesis by simp
qed

lemma push_insertion_represents:
  assumes "represents snapshot edits D I" "state_at snapshot path = Some state"
    and "output_edits edits path state = Ok entry"
  shows "represents snapshot (push_insertion path entry i) D (I(path := I path @ [i]))"
proof -
  obtain edits' out where e: "entry = (edits', out)" by (cases entry)
  note eo = output_edits_entry[OF assms(1,2) assms(3)[unfolded e]]
  have "push_insertion path entry i = bt_put path (edits_of snapshot path (D path) (I path @ [i])) edits"
    using eo by (simp add: push_insertion_def e edits_of_def)
  with represents_put[OF assms(1) refl, of "D path" "I path @ [i]" path] show ?thesis by simp
qed


subsection \<open>Resolved operations\<close>

text \<open>What the planner knows of a snapshot: its line indexes describe its bytes.\<close>

definition wf_snapshot :: "WorkspaceSnapshot \<Rightarrow> bool" where
  "wf_snapshot snapshot \<longleftrightarrow> (\<forall>f\<in>set (ws_files snapshot). indexes (fs_line_index f) (fs_bytes f))"

definition operation_resolved ::
    "(bytes \<Rightarrow> Sha256Digest) \<Rightarrow> WorkspaceSnapshot \<Rightarrow> ResolvedOperation \<Rightarrow> bool" where
  "operation_resolved H snapshot r \<longleftrightarrow>
     (\<exists>f. file_at snapshot (ro_source_path r) = Some f \<and> ro_source_precondition r = Sha256 (fs_digest f)) \<and>
     valid_range (length (original_bytes snapshot (ro_source_path r))) (ro_source_range r) \<and>
     ro_selected_digest r = H (selected_bytes snapshot r) \<and>
     ro_destination_precondition r = (case file_at snapshot (ro_destination_path r) of
       Some f \<Rightarrow> Sha256 (fs_digest f) | None \<Rightarrow> MustNotExist) \<and>
     ro_destination_offset r \<le> length (original_bytes snapshot (ro_destination_path r)) \<and>
     (ro_effect r = NoOp \<longleftrightarrow> ro_kind r = Move \<and> ro_source_path r = ro_destination_path r \<and>
        (ro_destination_offset r = range_start (ro_source_range r) \<or>
         ro_destination_offset r = range_end (ro_source_range r)))"

lemma resolve_selector_valid:
  assumes "resolve_selector f sel k = Ok r" "indexes (fs_line_index f) (fs_bytes f)"
  shows "valid_range (length (fs_bytes f)) r"
proof (cases sel)
  case (Lines a b)
  with assms(1) obtain s e where "line_start (fs_line_index f) a = Some s"
    "line_end (fs_line_index f) b = Some e" "a \<le> b" "r = \<lparr>range_start = s, range_end = e\<rparr>"
    by (auto simp: resolve_selector_def split: if_splits option.splits)
  with line_index.lines_nonempty[OF assms(2)] line_index.stop_bound[OF assms(2)] show ?thesis
    by (simp add: valid_range_def)
next
  case (Bytes a b)
  with assms(1) show ?thesis
    by (auto simp: resolve_selector_def to_u64_def valid_range_def split: if_splits)
qed

lemma resolve_anchor_valid:
  assumes "resolve_anchor st anchor k = Ok off" "state_at snapshot path = Some st" "wf_snapshot snapshot"
  shows "off \<le> length (original_bytes snapshot path)"
proof (cases st)
  case (Existing f)
  then have f: "file_at snapshot path = Some f"
    using assms(2) by (auto simp: state_at_def split: option.splits)
  then have idx: "indexes (fs_line_index f) (fs_bytes f)"
    using assms(3) by (auto simp: wf_snapshot_def dest: file_at_Some)
  show ?thesis
    using assms(1) line_index.start_bound[OF idx] line_index.stop_bound[OF idx]
    by (cases anchor) (auto simp: resolve_anchor_def Existing original_bytes_def f to_u64_def split: if_splits)
next
  case (Absent a)
  with assms(1) show ?thesis
    by (cases anchor) (auto simp: resolve_anchor_def split: if_splits)
qed

lemma existing_source_file:
  assumes "existing_source states spec k = Ok f" "\<And>p. states (path_value p) = state_at snapshot p"
  shows "file_at snapshot (ss_path (os_source spec)) = Some f \<and>
    state_at snapshot (ss_path (os_source spec)) = Some (Existing f) \<and>
    ss_precondition (os_source spec) = Sha256 (fs_digest f)"
  using assms
  by (auto simp: existing_source_def state_at_def split: Precondition.splits option.splits
      SnapshotState.splits if_splits)

lemma destination_state_file:
  assumes "destination_state states spec k = Ok st" "\<And>p. states (path_value p) = state_at snapshot p"
  shows "state_at snapshot (de_path (os_destination spec)) = Some st \<and>
    de_precondition (os_destination spec) = (case file_at snapshot (de_path (os_destination spec)) of
       Some f \<Rightarrow> Sha256 (fs_digest f) | None \<Rightarrow> MustNotExist)"
  using assms
  by (auto simp: destination_state_def state_at_def split: Precondition.splits option.splits
      SnapshotState.splits if_splits)

lemma resolve_operation_resolved:
  assumes "resolve_operation H states k op = Ok (r, source, destination)"
    and "\<And>p. states (path_value p) = state_at snapshot p" "wf_snapshot snapshot"
  shows "operation_resolved H snapshot r" "ro_operation_index r = k"
    "file_at snapshot (ro_source_path r) = Some source"
    "state_at snapshot (ro_source_path r) = Some (Existing source)"
    "state_at snapshot (ro_destination_path r) = Some destination"
proof -
  obtain kind spec where parts: "operation_parts op = (kind, spec)" by fastforce
  obtain rng off where
    src: "existing_source states spec k = Ok source"
    and sel: "resolve_selector source (ss_selector (os_source spec)) k = Ok rng"
    and dig: "digest_range H source rng = Ok (ro_selected_digest r)"
    and dst: "destination_state states spec k = Ok destination"
    and anc: "resolve_anchor destination (de_anchor (os_destination spec)) k = Ok off"
    and r: "ro_operation_index r = k" "ro_kind r = kind" "ro_source_path r = ss_path (os_source spec)"
      "ro_source_precondition r = ss_precondition (os_source spec)" "ro_source_range r = rng"
      "ro_destination_path r = de_path (os_destination spec)"
      "ro_destination_precondition r = de_precondition (os_destination spec)"
      "ro_destination_offset r = off" "ro_effect r = operation_effect kind spec rng off"
    using assms(1) by (auto simp: resolve_operation_def parts)
  note s = existing_source_file[OF src assms(2)]
  note d = destination_state_file[OF dst assms(2)]
  have "indexes (fs_line_index source) (fs_bytes source)"
    using assms(3) s by (auto simp: wf_snapshot_def dest: file_at_Some)
  from resolve_selector_valid[OF sel this] resolve_anchor_valid[OF anc _ assms(3)] d s r dig
  show "operation_resolved H snapshot r"
    by (auto simp: operation_resolved_def original_bytes_def selected_bytes_def digest_range_def
        slice_range_def operation_effect_def split: option.splits)
  show "ro_operation_index r = k" "file_at snapshot (ro_source_path r) = Some source"
    "state_at snapshot (ro_source_path r) = Some (Existing source)"
    "state_at snapshot (ro_destination_path r) = Some destination"
    using r s d by simp_all
qed


definition operation_matches :: "Operation \<Rightarrow> ResolvedOperation \<Rightarrow> bool" where
  "operation_matches op r \<longleftrightarrow>
     (case operation_parts op of (kind, spec) \<Rightarrow>
        ro_kind r = kind \<and>
        ro_source_path r = ss_path (os_source spec) \<and>
        ro_selector r = ss_selector (os_source spec) \<and>
        ro_source_precondition r = ss_precondition (os_source spec) \<and>
        ro_destination_path r = de_path (os_destination spec) \<and>
        ro_anchor r = de_anchor (os_destination spec) \<and>
        ro_destination_precondition r = de_precondition (os_destination spec))"

lemma resolve_operation_matches:
  "resolve_operation H states k op = Ok (r, source, destination) \<Longrightarrow> operation_matches op r"
  by (auto simp: resolve_operation_def operation_matches_def split: prod.splits)

subsection \<open>The loop invariant\<close>

definition plan_inv ::
    "(bytes \<Rightarrow> Sha256Digest) \<Rightarrow> WorkspaceSnapshot \<Rightarrow> ResolvedOperation list \<times> EditsByPath \<Rightarrow> bool" where
  "plan_inv H snapshot st \<longleftrightarrow>
     represents snapshot (snd st) (deletions_for (fst st)) (insertions_for snapshot (fst st)) \<and>
     list_all (operation_resolved H snapshot) (fst st) \<and>
     map ro_operation_index (fst st) = [0..<length (fst st)]"

lemma deletions_for_snoc:
  "deletions_for (ops @ [r]) = (if ro_effect r = Changed \<and> ro_kind r = Move
     then (deletions_for ops)(ro_source_path r :=
       deletions_for ops (ro_source_path r) @ [(ro_operation_index r, ro_source_range r)])
     else deletions_for ops)"
  by (auto simp: deletions_for_def moved_out_def fun_eq_iff)

lemma insertions_for_snoc:
  "insertions_for sn (ops @ [r]) = (if ro_effect r = Changed
     then (insertions_for sn ops)(ro_destination_path r :=
       insertions_for sn ops (ro_destination_path r) @ [(ro_destination_offset r, insertion_of sn r)])
     else insertions_for sn ops)"
  by (auto simp: insertions_for_def put_in_def fun_eq_iff)

lemma plan_inv_start: "plan_inv H snapshot ([], [])"
  by (simp add: plan_inv_def represents_def deletions_for_def moved_out_def insertions_for_def
      put_in_def bt.empty_get bt.empty_invar)

lemma plan_operation_step:
  assumes inv: "plan_inv H snapshot (resolved, edits)" and wf: "wf_snapshot snapshot"
    and states: "\<And>p. states (path_value p) = state_at snapshot p"
    and step: "plan_operation H states (resolved, edits) (length resolved, op) = Ok (resolved', edits')"
  shows "plan_inv H snapshot (resolved', edits') \<and> length resolved' = Suc (length resolved)"
proof -
  let ?D = "deletions_for resolved" and ?I = "insertions_for snapshot resolved"
  obtain r source destination where
    res: "resolve_operation H states (length resolved) op = Ok (r, source, destination)"
    and resolved': "resolved' = resolved @ [r]"
    using step by (auto simp: plan_operation_def to_u64_def split: if_splits)
  note r = resolve_operation_resolved[OF res states wf]
  have rep: "represents snapshot edits ?D ?I"
    using inv by (simp add: plan_inv_def)
  have "represents snapshot edits' (deletions_for (resolved @ [r])) (insertions_for snapshot (resolved @ [r]))"
  proof (cases "ro_effect r")
    case NoOp
    then have "edits' = edits"
      using step res by (auto simp: plan_operation_def to_u64_def split: if_splits)
    with rep NoOp show ?thesis by (simp add: deletions_for_snoc insertions_for_snoc)
  next
    case Changed
    obtain edits1 where
      e1: "(if ro_kind r = Move then and_then (output_edits edits (ro_source_path r) (Existing source))
             (\<lambda>source_edits. Ok (push_deletion (ro_source_path r) source_edits
               (length resolved, ro_source_range r))) else Ok edits) = Ok edits1"
      and e2: "and_then (output_edits edits1 (ro_destination_path r) destination) (\<lambda>destination_edits.
        Ok (resolved @ [r], push_insertion (ro_destination_path r) destination_edits
          (ro_destination_offset r,
           \<lparr>in_operation_index = length resolved, in_snapshot_file_id = fs_id source,
            in_range = ro_source_range r, in_payload_digest = ro_selected_digest r\<rparr>))) = Ok (resolved', edits')"
      using step res Changed by (auto simp: plan_operation_def to_u64_def split: if_splits)
    have "insertion_of snapshot r = \<lparr>in_operation_index = length resolved, in_snapshot_file_id = fs_id source,
            in_range = ro_source_range r, in_payload_digest = ro_selected_digest r\<rparr>"
      using r by (simp add: insertion_of_def)
    then obtain entry where entry: "output_edits edits1 (ro_destination_path r) destination = Ok entry"
      "edits' = push_insertion (ro_destination_path r) entry (ro_destination_offset r, insertion_of snapshot r)"
      using e2 by auto
    have "represents snapshot edits1 (deletions_for (resolved @ [r])) ?I"
    proof (cases "ro_kind r")
      case Move
      with e1 obtain se where "output_edits edits (ro_source_path r) (Existing source) = Ok se"
        "edits1 = push_deletion (ro_source_path r) se (length resolved, ro_source_range r)"
        by auto
      with push_deletion_represents[OF rep r(4), of se "(length resolved, ro_source_range r)"] Move Changed r(2)
      show ?thesis by (simp add: deletions_for_snoc)
    next
      case Copy
      with e1 rep show ?thesis by (simp add: deletions_for_snoc)
    qed
    from push_insertion_represents[OF this r(5) entry(1)] Changed entry(2) show ?thesis
      by (simp add: insertions_for_snoc)
  qed
  with r(1,2) inv resolved' show ?thesis by (simp add: plan_inv_def)
qed

lemma plan_operation_matches:
  "plan_operation H states (resolved, edits) (k, op) = Ok (resolved', edits') \<Longrightarrow>
     \<exists>r. resolved' = resolved @ [r] \<and> operation_matches op r"
  by (auto simp: plan_operation_def dest: resolve_operation_matches split: if_splits)

lemma plan_operations_match:
  assumes "try_fold (plan_operation H states) (resolved, edits) (enumerate n ops) = Ok (resolved', edits')"
  shows "\<exists>rs. resolved' = resolved @ rs \<and> list_all2 operation_matches ops rs"
  using assms
proof (induction ops arbitrary: resolved edits n)
  case (Cons op ops)
  then obtain resolved1 edits1 where
    step: "plan_operation H states (resolved, edits) (n, op) = Ok (resolved1, edits1)"
    and rest: "try_fold (plan_operation H states) (resolved1, edits1) (enumerate (Suc n) ops) =
      Ok (resolved', edits')"
    by auto
  from plan_operation_matches[OF step] Cons.IH[OF rest] show ?case by force
qed simp

lemma plan_operations_inv:
  assumes "try_fold (plan_operation H states) (resolved, edits) (enumerate (length resolved) ops) = Ok (resolved', edits')"
    and "plan_inv H snapshot (resolved, edits)" "wf_snapshot snapshot"
    and "\<And>p. states (path_value p) = state_at snapshot p"
  shows "plan_inv H snapshot (resolved', edits') \<and> length resolved' = length resolved + length ops"
  using assms(1,2)
proof (induction ops arbitrary: resolved edits)
  case (Cons op ops)
  then obtain resolved1 edits1 where
    step: "plan_operation H states (resolved, edits) (length resolved, op) = Ok (resolved1, edits1)"
    and rest: "try_fold (plan_operation H states) (resolved1, edits1)
      (enumerate (Suc (length resolved)) ops) = Ok (resolved', edits')"
    by auto
  note one = plan_operation_step[OF Cons.prems(2) assms(3,4) step]
  with Cons.IH[of resolved1 edits1] rest show ?case by simp
qed simp

section \<open>Outputs\<close>

lemma represents_entries:
  assumes "represents snapshot edits (deletions_for ops) (insertions_for snapshot ops)"
  shows "map snd edits =
    map (\<lambda>p. edits_of snapshot p (deletions_for ops p) (insertions_for snapshot ops p)) (map fst edits) \<and>
    set (map fst edits) = {p. touched ops p} \<and> sorted_wrt (<) (map fst edits)"
proof -
  have sorted: "bt_sorted edits"
    and get: "\<And>p. bt_get edits p = (if touched ops p
      then Some (edits_of snapshot p (deletions_for ops p) (insertions_for snapshot ops p)) else None)"
    using assms by (auto simp: represents_def touched_def deletions_for_def insertions_for_def)
  have "snd e = edits_of snapshot (fst e) (deletions_for ops (fst e)) (insertions_for snapshot ops (fst e))"
    if "e \<in> set edits" for e
    using bt.entries_get[OF sorted, of "fst e" "snd e"] that get by (simp split: if_splits)
  moreover have "p \<in> set (map fst edits) \<longleftrightarrow> touched ops p" for p
    using bt.entries_get[OF sorted, of p] get[of p] by (force split: if_splits)
  ultimately show ?thesis
    using bt.entries_sorted[OF sorted] by auto
qed


definition segment_data :: "FilesById \<Rightarrow> OutputSegment \<Rightarrow> bytes" where
  "segment_data files s = (case segment_source s of (i, r) \<Rightarrow>
     slice (fs_bytes (the (files i))) (range_start r) (range_end r))"

lemma recipe_bytes_data:
  "recipe_bytes files segs = Ok out \<Longrightarrow> out = concat (map (segment_data files) segs)"
proof (induction segs arbitrary: out)
  case (Cons s segs)
  then obtain b rest where b: "segment_bytes files s = Ok b" "recipe_bytes files segs = Ok rest" "out = b @ rest"
    by (auto simp: recipe_bytes_Cons)
  have "b = segment_data files s"
    using b(1) by (auto simp: segment_bytes_def segment_data_def slice_range_def split: prod.splits)
  with b Cons.IH show ?case by simp
qed simp

abbreviation edits_for where
  "edits_for snapshot ops p \<equiv>
     edits_of snapshot p (deletions_for ops p) (insertions_for snapshot ops p)"

lemma wf_edits_for:
  assumes "list_all (operation_resolved H snapshot) ops"
  shows "wf_edits (edits_for snapshot ops p)"
proof -
  have "operation_resolved H snapshot r" if "r \<in> set ops" for r
    using assms that by (simp add: list_all_iff)
  then have "\<forall>r\<in>set (moved_out ops p). valid_range (length (original_bytes snapshot p)) (ro_source_range r)"
    "\<forall>r\<in>set (put_in ops p). ro_destination_offset r \<le> length (original_bytes snapshot p)"
    by (auto simp: moved_out_def put_in_def operation_resolved_def)
  then show ?thesis
    by (auto simp: wf_edits_def edits_of_def deletions_for_def insertions_for_def list_all_iff
        original_bytes_def)
qed

lemma insertions_at_for:
  assumes "sorted (map ro_operation_index ops)"
  shows "insertions_at (insertions_for snapshot ops p) i =
    map (insertion_of snapshot) (filter (\<lambda>r. ro_destination_offset r = i) (put_in ops p))"
proof -
  let ?rs = "filter (\<lambda>r. ro_destination_offset r = i) (put_in ops p)"
  have "sorted (map ro_operation_index ?rs)"
    using assms unfolding put_in_def filter_filter by (rule sorted_filter)
  then have "sorted (map in_operation_index (map (insertion_of snapshot) ?rs))"
    by (simp add: comp_def insertion_of_def)
  then show ?thesis
    by (simp add: insertions_at_def insertions_for_def filter_map comp_def sorted_sort_id
        sort_key_id_if_sorted)
qed

lemma apply_edits_for:
  assumes "sorted (map ro_operation_index ops)"
    and "\<And>r. r \<in> set ops \<Longrightarrow> payload (insertion_of snapshot r) = selected_bytes snapshot r"
  shows "apply_edits payload (original_bytes snapshot p) (deletions_for ops p) (insertions_for snapshot ops p) =
    edited_bytes snapshot ops p"
proof -
  have "map payload (insertions_at (insertions_for snapshot ops p) i) =
      map (selected_bytes snapshot) (filter (\<lambda>r. ro_destination_offset r = i) (put_in ops p))" for i
    using assms(2) by (auto simp: insertions_at_for[OF assms(1)] put_in_def)
  moreover have "deleted_at (deletions_for ops p) i = list_ex (\<lambda>r. range_start (ro_source_range r) \<le> i \<and>
      i < range_end (ro_source_range r)) (moved_out ops p)" for i
    by (auto simp: deleted_at_def deletions_for_def list_ex_iff)
  ultimately show ?thesis
    by (simp add: apply_edits_def edited_bytes_def Let_def)
qed

definition expected_change :: "WorkspaceSnapshot \<Rightarrow> WorkspaceRelativePath \<Rightarrow> bytes \<Rightarrow> OutputChange" where
  "expected_change snapshot path bs =
     (case file_at snapshot path of
        None \<Rightarrow> CreatedNew
      | Some f \<Rightarrow> if bs = fs_bytes f then Unchanged else if bs = [] then EmptiedExisting
          else ModifiedExisting)"

definition output_correct ::
    "(bytes \<Rightarrow> Sha256Digest) \<Rightarrow> WorkspaceSnapshot \<Rightarrow> ResolvedOperation list \<Rightarrow> PlannedOutput \<Rightarrow> bool" where
  "output_correct H snapshot ops out \<longleftrightarrow>
     (let bs = edited_bytes snapshot ops (po_path out) in
      recipe_bytes (file_with_id snapshot) (po_segments out) = Ok bs \<and>
      po_original_digest out = map_option fs_digest (file_at snapshot (po_path out)) \<and>
      po_resulting_length out = length bs \<and> po_resulting_digest out = H bs \<and>
      po_change out = expected_change snapshot (po_path out) bs)"

lemma file_at_id:
  assumes "distinct (map fs_id (ws_files snapshot))" "file_at snapshot q = Some f"
  shows "file_with_id snapshot (fs_id f) = Some f"
  using file_with_id_file[OF assms(1)] file_at_Some[OF assms(2)] by blast

lemma payload_selected:
  assumes "list_all (operation_resolved H snapshot) ops" "distinct (map fs_id (ws_files snapshot))"
    and "r \<in> set ops"
  shows "segment_data (file_with_id snapshot) (payload_slice (insertion_of snapshot r)) =
    selected_bytes snapshot r"
proof -
  have "operation_resolved H snapshot r" using assms(1,3) by (simp add: list_all_iff)
  then obtain f where "file_at snapshot (ro_source_path r) = Some f"
    by (auto simp: operation_resolved_def)
  with file_at_id[OF assms(2)] show ?thesis
    by (simp add: segment_data_def payload_slice_def insertion_of_def selected_bytes_def original_bytes_def)
qed

lemma plan_output_Ok:
  assumes "plan_output H files e = Ok out"
  shows "\<exists>eq. validate_edit_conflicts e = Ok () \<and> build_segments e = Ok (po_segments out) \<and>
    stream_output H (po_segments out) files (oe_existing_file_id e) =
      Ok (po_resulting_length out, po_resulting_digest out, eq) \<and>
    po_path out = oe_path e \<and> po_original_digest out = oe_original_digest e \<and>
    po_change out = classify_output (oe_existing_file_id e \<noteq> None) (po_resulting_length out) eq \<and>
    (\<forall>k f. po_change out \<noteq> Unchanged \<longrightarrow> oe_existing_file_id e = Some k \<longrightarrow> files k = Some f \<longrightarrow>
      fs_link_count f = 1)"
  using assms by (cases "oe_existing_file_id e") (auto simp: plan_output_def Let_def split: if_splits)

lemma recipe_data_for:
  assumes "distinct (map fs_id (ws_files snapshot))"
  shows "recipe_data (\<lambda>i. segment_data (file_with_id snapshot) (payload_slice i))
    (original_bytes snapshot p) (segment_data (file_with_id snapshot)) (edits_of snapshot p ds is)"
  by (auto simp: recipe_data_def edits_of_def segment_data_def original_bytes_def file_at_id[OF assms])

lemma plan_output_correct:
  assumes out: "plan_output H (file_with_id snapshot) (edits_for snapshot ops p) = Ok out"
    and ops: "list_all (operation_resolved H snapshot) ops" "sorted (map ro_operation_index ops)"
    and ids: "distinct (map fs_id (ws_files snapshot))"
  shows "po_path out = p" "output_correct H snapshot ops out"
    "disjoint_deletions (deletions_for ops p)"
    "po_change out \<noteq> Unchanged \<longrightarrow> (\<forall>f. file_at snapshot p = Some f \<longrightarrow> fs_link_count f = 1)"
proof -
  let ?e = "edits_for snapshot ops p" and ?files = "file_with_id snapshot"
  let ?bs = "edited_bytes snapshot ops p"
  let ?segs = "po_segments out"
  obtain eq where
    valid: "validate_edit_conflicts ?e = Ok ()" and segs: "build_segments ?e = Ok ?segs"
    and str: "stream_output H ?segs ?files (oe_existing_file_id ?e) =
      Ok (po_resulting_length out, po_resulting_digest out, eq)"
    and fields: "po_path out = oe_path ?e" "po_original_digest out = oe_original_digest ?e"
      "po_change out = classify_output (oe_existing_file_id ?e \<noteq> None) (po_resulting_length out) eq"
    and link: "\<forall>k f. po_change out \<noteq> Unchanged \<longrightarrow> oe_existing_file_id ?e = Some k \<longrightarrow> ?files k = Some f \<longrightarrow>
      fs_link_count f = 1"
    using plan_output_Ok[OF out] by blast
  note fid = file_at_id[OF ids]
  show disj: "disjoint_deletions (deletions_for ops p)"
    using valid validate_edit_conflicts_Ok_iff[OF wf_edits_for[OF ops(1)], of p]
    by (simp add: edits_of_def)
  note payload = payload_selected[OF ops(1) ids]
  obtain segs' where "build_segments ?e = Ok segs'"
    "concat (map (segment_data ?files) segs') = apply_edits (\<lambda>i. segment_data ?files (payload_slice i))
      (original_bytes snapshot p) (oe_deletions ?e) (oe_insertions ?e)"
    using build_segments_correct[OF recipe_data_for[OF ids] wf_edits_for[OF ops(1)]] disj
    by (fastforce simp: edits_of_def)
  with segs apply_edits_for[OF ops(2) payload, where p = p]
  have bytes: "concat (map (segment_data ?files) ?segs) = ?bs"
    by (simp add: edits_of_def)
  obtain bs where "recipe_bytes ?files ?segs = Ok bs" "length bs \<le> u64_max"
    using stream_output_Ok_recipe[OF str] by blast
  with recipe_bytes_data bytes have recipe: "recipe_bytes ?files ?segs = Ok ?bs" "length ?bs \<le> u64_max"
    by auto
  have "stream_output H ?segs ?files (oe_existing_file_id ?e) = Ok (length ?bs, H ?bs,
      (case oe_existing_file_id ?e of None \<Rightarrow> False | Some k \<Rightarrow> fs_bytes (the (?files k)) = ?bs))"
    using fid by (intro stream_output_correct[OF recipe]) (auto simp: edits_of_def)
  with str have res: "po_resulting_length out = length ?bs" "po_resulting_digest out = H ?bs"
    "eq = (case file_at snapshot p of None \<Rightarrow> False | Some f \<Rightarrow> fs_bytes f = ?bs)"
    using fid by (auto simp: edits_of_def split: option.splits)
  show path: "po_path out = p"
    using fields by (simp add: edits_of_def)
  show "output_correct H snapshot ops out"
    using path fields recipe res
    by (auto simp: output_correct_def Let_def edits_of_def expected_change_def classify_output_def
        split: option.splits)
  show "po_change out \<noteq> Unchanged \<longrightarrow> (\<forall>f. file_at snapshot p = Some f \<longrightarrow> fs_link_count f = 1)"
    using link fid by (auto simp: edits_of_def)
qed


lemma plan_steps:
  assumes "plan L H snapshot batch budget = Ok p" "wf_snapshot snapshot"
  obtains edits where "plan_inv H snapshot (ep_operations p, edits)"
    "list_all2 operation_matches (bs_operations batch) (ep_operations p)"
    "try_map (plan_output H (file_with_id snapshot)) (map snd edits) = Ok (ep_outputs p)"
    "calculate_usage L (ep_operations p) (ep_outputs p) = Ok (ep_usage p)"
    "enforce_usage (ep_usage p) budget = Ok ()"
    "plan_digest H snapshot (p\<lparr>ep_digest := replicate 32 0\<rparr>) = Ok (ep_digest p)"
    "distinct (map fs_id (ws_files snapshot))"
proof -
  obtain states files resolved edits where
    idx: "index_snapshot snapshot = Ok (states, files)"
    and loop: "try_fold (plan_operation H states) ([], []) (enumerate 0 (bs_operations batch)) = Ok (resolved, edits)"
    and outs: "try_map (plan_output H files) (map snd edits) = Ok (ep_outputs p)"
    and usage: "calculate_usage L resolved (ep_outputs p) = Ok (ep_usage p)"
      "enforce_usage (ep_usage p) budget = Ok ()"
    and ops: "ep_operations p = resolved"
    and dig: "plan_digest H snapshot \<lparr>ep_operations = resolved, ep_outputs = ep_outputs p,
      ep_usage = ep_usage p, ep_digest = replicate 32 0\<rparr> = Ok (ep_digest p)"
    using assms(1) by (auto simp: plan_def Let_def)
  note st = index_snapshot_states[OF idx]
  have "plan_inv H snapshot (resolved, edits)"
    using plan_operations_inv[of H states "[]" "[]" "bs_operations batch"] loop plan_inv_start assms(2) st(1)
    by simp
  moreover have "list_all2 operation_matches (bs_operations batch) resolved"
    using plan_operations_match[OF loop] by simp
  moreover have "plan_digest H snapshot (p\<lparr>ep_digest := replicate 32 0\<rparr>) = Ok (ep_digest p)"
    using dig ops by (cases p) simp
  ultimately show thesis
    using that[of edits] outs usage st ops by simp
qed

lemma plan_outputs:
  assumes "plan L H snapshot batch budget = Ok p" "wf_snapshot snapshot"
  shows "list_all (operation_resolved H snapshot) (ep_operations p)"
    "map ro_operation_index (ep_operations p) = [0..<length (ep_operations p)]"
    "set (map po_path (ep_outputs p)) = {path. touched (ep_operations p) path}"
    "sorted_wrt (<) (map po_path (ep_outputs p))"
    "\<forall>out\<in>set (ep_outputs p). output_correct H snapshot (ep_operations p) out \<and>
       disjoint_deletions (deletions_for (ep_operations p) (po_path out)) \<and>
       validate_edit_conflicts (edits_for snapshot (ep_operations p) (po_path out)) = Ok () \<and>
       (po_change out \<noteq> Unchanged \<longrightarrow> (\<forall>f. file_at snapshot (po_path out) = Some f \<longrightarrow> fs_link_count f = 1))"
proof -
  obtain edits where inv: "plan_inv H snapshot (ep_operations p, edits)"
    and outs: "try_map (plan_output H (file_with_id snapshot)) (map snd edits) = Ok (ep_outputs p)"
    and ids: "distinct (map fs_id (ws_files snapshot))"
    by (rule plan_steps[OF assms])
  show ops: "list_all (operation_resolved H snapshot) (ep_operations p)"
    and indexed: "map ro_operation_index (ep_operations p) = [0..<length (ep_operations p)]"
    using inv by (simp_all add: plan_inv_def)
  have sorted: "sorted (map ro_operation_index (ep_operations p))"
    unfolding indexed by (rule sorted_upt)
  have entries: "map snd edits = map (edits_for snapshot (ep_operations p)) (map fst edits)"
    "set (map fst edits) = {path. touched (ep_operations p) path}" "sorted_wrt (<) (map fst edits)"
    using represents_entries[of snapshot edits "ep_operations p"] inv by (auto simp: plan_inv_def)
  have all: "list_all2 (\<lambda>path out. plan_output H (file_with_id snapshot)
      (edits_for snapshot (ep_operations p) path) = Ok out) (map fst edits) (ep_outputs p)"
    using outs unfolding entries(1) try_map_Ok_iff by (simp add: list_all2_map1)
  note each = plan_output_correct[OF _ ops sorted ids]
  have "list_all2 (\<lambda>path out. po_path out = path) (map fst edits) (ep_outputs p)"
    using all by (rule list_all2_mono) (rule each(1))
  then have paths: "map po_path (ep_outputs p) = map fst edits"
    by (simp add: list_all2_conv_all_nth list_eq_iff_nth_eq)
  show "set (map po_path (ep_outputs p)) = {path. touched (ep_operations p) path}"
    "sorted_wrt (<) (map po_path (ep_outputs p))"
    using entries paths by simp_all
  have "plan_output H (file_with_id snapshot) (edits_for snapshot (ep_operations p) (po_path out)) = Ok out"
    if out: "out \<in> set (ep_outputs p)" for out
  proof -
    obtain path where "plan_output H (file_with_id snapshot)
        (edits_for snapshot (ep_operations p) path) = Ok out"
      using all out by (auto simp: list_all2_conv_all_nth in_set_conv_nth)
    with each(1)[OF this] show ?thesis by simp
  qed
  then show "\<forall>out\<in>set (ep_outputs p). output_correct H snapshot (ep_operations p) out \<and>
       disjoint_deletions (deletions_for (ep_operations p) (po_path out)) \<and>
       validate_edit_conflicts (edits_for snapshot (ep_operations p) (po_path out)) = Ok () \<and>
       (po_change out \<noteq> Unchanged \<longrightarrow> (\<forall>f. file_at snapshot (po_path out) = Some f \<longrightarrow> fs_link_count f = 1))"
    using each(2-4) plan_output_Ok by blast
qed


section \<open>Resource accounting\<close>

lemma to_u64_Ok_iff [simp]: "to_u64 v res = Ok w \<longleftrightarrow> v \<le> u64_max \<and> w = v"
  by (auto simp: to_u64_def)

lemma checked_add_Ok_iff [simp]: "checked_add a b res = Ok c \<longleftrightarrow> c = a + b \<and> a + b \<le> u64_max"
  by (simp add: checked_add_def)

lemma checked_mul_Ok_iff [simp]: "checked_mul a b res = Ok c \<longleftrightarrow> c = a * b \<and> a * b \<le> u64_max"
  by (simp add: checked_mul_def)

lemma enforce_limit_Ok_iff [simp]: "enforce_limit res a l = Ok u \<longleftrightarrow> a \<le> l"
  by (auto simp: enforce_limit_def)

abbreviation path_bytes where
  "path_bytes r \<equiv> length (path_value (ro_source_path r)) + length (path_value (ro_destination_path r))"

lemma operation_usage_Ok:
  "operation_usage u r = Ok u' \<Longrightarrow>
     u' = u\<lparr>pu_projected_response_bytes := pu_projected_response_bytes u + (1024 + path_bytes r),
           pu_planning_memory_bytes := pu_planning_memory_bytes u + path_bytes r\<rparr>"
  by (auto simp: operation_usage_def)

lemma output_usage_Ok:
  "output_usage L u out = Ok u' \<Longrightarrow>
     u' = \<lparr>pu_maximum_output_bytes = max (pu_maximum_output_bytes u) (po_resulting_length out),
       pu_total_output_bytes = pu_total_output_bytes u + po_resulting_length out,
       pu_maximum_output_segments = max (pu_maximum_output_segments u) (length (po_segments out)),
       pu_total_segments = pu_total_segments u + length (po_segments out),
       pu_changed_targets = pu_changed_targets u + (if po_change out = Unchanged then 0 else 1),
       pu_projected_response_bytes = pu_projected_response_bytes u +
         (512 + length (path_value (po_path out)) + length (po_segments out) * 512),
       pu_planning_memory_bytes = pu_planning_memory_bytes u +
         (length (path_value (po_path out)) + length (po_segments out) * size_of_OutputSegment L)\<rparr>"
  by (cases u) (auto simp: output_usage_def split: if_splits)

lemma operation_usage_fold:
  "try_fold operation_usage u ops = Ok u' \<Longrightarrow>
     u' = u\<lparr>pu_projected_response_bytes := pu_projected_response_bytes u + (\<Sum>r\<leftarrow>ops. 1024 + path_bytes r),
           pu_planning_memory_bytes := pu_planning_memory_bytes u + (\<Sum>r\<leftarrow>ops. path_bytes r)\<rparr>"
proof (induction ops arbitrary: u)
  case (Cons r ops)
  then obtain u1 where "operation_usage u r = Ok u1" "try_fold operation_usage u1 ops = Ok u'" by auto
  with Cons.IH[of u1] operation_usage_Ok[of u r u1] show ?case by simp
qed simp

definition changed_outputs :: "PlannedOutput list \<Rightarrow> nat" where
  "changed_outputs outs = length (filter (\<lambda>out. po_change out \<noteq> Unchanged) outs)"

definition max_of :: "nat list \<Rightarrow> nat" where
  "max_of xs = fold max xs 0"

lemma fold_max: "fold max xs (a :: nat) = max a (max_of xs)"
proof -
  have "fold max xs (max a b) = max a (fold max xs b)" for a b :: nat
  proof (induction xs arbitrary: b)
    case (Cons x xs)
    show ?case using Cons[of "max x b"] by (simp add: max.left_commute)
  qed simp
  from this[of a 0] show ?thesis by (simp add: max_of_def)
qed

lemma max_of_Cons: "max_of (x # xs) = max x (max_of xs)"
  by (simp add: max_of_def) (metis fold_max max_0L)

lemma le_max_of: "x \<in> set xs \<Longrightarrow> x \<le> max_of xs"
  by (induction xs) (auto simp: max_of_Cons)

lemma output_usage_fold:
  "try_fold (output_usage L) u outs = Ok u' \<Longrightarrow>
     u' = \<lparr>pu_maximum_output_bytes = max (pu_maximum_output_bytes u) (max_of (map po_resulting_length outs)),
       pu_total_output_bytes = pu_total_output_bytes u + (\<Sum>out\<leftarrow>outs. po_resulting_length out),
       pu_maximum_output_segments =
         max (pu_maximum_output_segments u) (max_of (map (\<lambda>out. length (po_segments out)) outs)),
       pu_total_segments = pu_total_segments u + (\<Sum>out\<leftarrow>outs. length (po_segments out)),
       pu_changed_targets = pu_changed_targets u + changed_outputs outs,
       pu_projected_response_bytes = pu_projected_response_bytes u +
         (\<Sum>out\<leftarrow>outs. 512 + length (path_value (po_path out)) + length (po_segments out) * 512),
       pu_planning_memory_bytes = pu_planning_memory_bytes u +
         (\<Sum>out\<leftarrow>outs. length (path_value (po_path out)) + length (po_segments out) * size_of_OutputSegment L)\<rparr>"
proof (induction outs arbitrary: u)
  case Nil
  then show ?case by (simp add: max_of_def changed_outputs_def)
next
  case (Cons out outs)
  then obtain u1 where "output_usage L u out = Ok u1" "try_fold (output_usage L) u1 outs = Ok u'" by auto
  with Cons.IH[of u1] output_usage_Ok[of L u out u1] show ?case
    by (simp add: max_of_Cons changed_outputs_def max.assoc)
qed

definition exact_usage :: "Layout \<Rightarrow> ResolvedOperation list \<Rightarrow> PlannedOutput list \<Rightarrow> PlanningUsage" where
  "exact_usage L ops outs = \<lparr>
     pu_maximum_output_bytes = max_of (map po_resulting_length outs),
     pu_total_output_bytes = (\<Sum>out\<leftarrow>outs. po_resulting_length out),
     pu_maximum_output_segments = max_of (map (\<lambda>out. length (po_segments out)) outs),
     pu_total_segments = (\<Sum>out\<leftarrow>outs. length (po_segments out)),
     pu_changed_targets = changed_outputs outs,
     pu_projected_response_bytes = 1024 + (\<Sum>r\<leftarrow>ops. 1024 + path_bytes r) +
       (\<Sum>out\<leftarrow>outs. 512 + length (path_value (po_path out)) + length (po_segments out) * 512),
     pu_planning_memory_bytes = length ops * size_of_ResolvedOperation L + (\<Sum>r\<leftarrow>ops. path_bytes r) +
       length outs * size_of_PlannedOutput L +
       (\<Sum>out\<leftarrow>outs. length (path_value (po_path out)) + length (po_segments out) * size_of_OutputSegment L)\<rparr>"

lemma calculate_usage_exact:
  "calculate_usage L ops outs = Ok u \<Longrightarrow> u = exact_usage L ops outs"
  by (auto simp: calculate_usage_def exact_usage_def default_planning_usage_def
      dest!: operation_usage_fold output_usage_fold)

definition within_budget :: "PlanningUsage \<Rightarrow> ResourceBudget \<Rightarrow> bool" where
  "within_budget u b \<longleftrightarrow>
     pu_maximum_output_bytes u \<le> rb_resulting_bytes_per_output b \<and>
     pu_total_output_bytes u \<le> rb_planned_output_bytes b \<and>
     pu_maximum_output_segments u \<le> rb_segments_per_output b \<and>
     pu_total_segments u \<le> rb_segments b \<and>
     pu_changed_targets u \<le> rb_changed_targets b \<and>
     pu_projected_response_bytes u \<le> rb_projected_response_bytes b \<and>
     pu_planning_memory_bytes u \<le> rb_planning_memory_bytes b"

lemma enforce_usage_Ok_iff: "enforce_usage u b = Ok () \<longleftrightarrow> within_budget u b"
  by (auto simp: enforce_usage_def within_budget_def)

section \<open>Conservation of bytes\<close>

lemma edited_mset:
  assumes "list_all (operation_resolved H snapshot) ops" "sorted (map ro_operation_index ops)"
    and "distinct (map fs_id (ws_files snapshot))" "disjoint_deletions (deletions_for ops p)"
  shows "mset (edited_bytes snapshot ops p) + mset (concat (map (selected_bytes snapshot) (moved_out ops p))) =
    mset (original_bytes snapshot p) + mset (concat (map (selected_bytes snapshot) (put_in ops p)))"
proof -
  let ?payload = "\<lambda>i. segment_data (file_with_id snapshot) (payload_slice i)"
  note payload = payload_selected[OF assms(1,3)]
  have wf: "list_all (\<lambda>d. valid_range (length (original_bytes snapshot p)) (snd d)) (deletions_for ops p)"
    "list_all (\<lambda>i. fst i \<le> length (original_bytes snapshot p)) (insertions_for snapshot ops p)"
    using wf_edits_for[OF assms(1), of p] by (simp_all add: wf_edits_def edits_of_def)
  have "deleted_bytes (original_bytes snapshot p) (deletions_for ops p) =
      concat (map (selected_bytes snapshot) (moved_out ops p))"
    unfolding deleted_bytes_def deletions_for_def map_map
    by (rule arg_cong[where f = concat]) (auto simp: moved_out_def selected_bytes_def)
  moreover have "map (\<lambda>i. ?payload (snd i)) (insertions_for snapshot ops p) =
      map (selected_bytes snapshot) (put_in ops p)"
    using payload by (auto simp: insertions_for_def put_in_def)
  ultimately show ?thesis
    using apply_edits_mset[OF wf(1) assms(4) wf(2), of ?payload] apply_edits_for[OF assms(2) payload]
    by simp
qed

lemma sum_at_key:
  "distinct ps \<Longrightarrow> (\<Sum>p\<leftarrow>ps. if k = p then x else {#}) = (if k \<in> set ps then x else {#})"
  by (induction ps) auto

lemma sum_by_key:
  assumes "distinct ps" "\<forall>r\<in>set rs. key r \<in> set ps"
  shows "(\<Sum>p\<leftarrow>ps. mset (concat (map f (filter (\<lambda>r. key r = p) rs)))) = mset (concat (map f rs))"
  using assms(2)
proof (induction rs)
  case (Cons r rs)
  have one: "(\<Sum>p\<leftarrow>ps. if key r = p then mset (f r) else {#}) = mset (f r)"
    using sum_at_key[OF assms(1), of "key r"] Cons.prems by simp
  have "(\<Sum>p\<leftarrow>ps. mset (concat (map f (filter (\<lambda>r. key r = p) (r # rs))))) =
      (\<Sum>p\<leftarrow>ps. (if key r = p then mset (f r) else {#}) + mset (concat (map f (filter (\<lambda>r. key r = p) rs))))"
    by (rule arg_cong[where f = sum_list]) auto
  also have "\<dots> = mset (concat (map f (r # rs)))"
    using Cons one by (simp add: sum_list_addf)
  finally show ?case .
qed (induction ps; simp)

definition copied_bytes :: "WorkspaceSnapshot \<Rightarrow> ResolvedOperation list \<Rightarrow> bytes" where
  "copied_bytes snapshot ops = concat (map (selected_bytes snapshot)
     (filter (\<lambda>r. ro_effect r = Changed \<and> ro_kind r = Copy) ops))"


lemma mset_concat_sum: "mset (concat (map f xs)) = (\<Sum>x\<leftarrow>xs. mset (f x))"
  by (induction xs) auto

lemma mset_kinds:
  "mset (concat (map f (filter (\<lambda>r. ro_effect r = Changed) ops))) =
     mset (concat (map f (filter (\<lambda>r. ro_effect r = Changed \<and> ro_kind r = Move) ops))) +
     mset (concat (map f (filter (\<lambda>r. ro_effect r = Changed \<and> ro_kind r = Copy) ops)))"
proof (induction ops)
  case (Cons r ops)
  then show ?case by (cases "ro_kind r") auto
qed simp

lemma edited_total:
  assumes "list_all (operation_resolved H snapshot) ops" "sorted (map ro_operation_index ops)"
    and "distinct (map fs_id (ws_files snapshot))"
    and "\<forall>p\<in>set ps. disjoint_deletions (deletions_for ops p)"
    and "distinct ps" "set ps = {p. touched ops p}"
  shows "mset (concat (map (edited_bytes snapshot ops) ps)) =
    mset (concat (map (original_bytes snapshot) ps)) + mset (copied_bytes snapshot ops)"
proof -
  let ?sel = "\<lambda>rs. mset (concat (map (selected_bytes snapshot) rs))"
  let ?moves = "filter (\<lambda>r. ro_effect r = Changed \<and> ro_kind r = Move) ops"
  let ?all = "filter (\<lambda>r. ro_effect r = Changed) ops"
  have "\<forall>r\<in>set ?moves. ro_source_path r \<in> set ps" "\<forall>r\<in>set ?all. ro_destination_path r \<in> set ps"
    using assms(6) by (auto simp: touched_def moved_out_def put_in_def filter_empty_conv)
  note sums = sum_by_key[OF assms(5) this(1), of "selected_bytes snapshot"]
    sum_by_key[OF assms(5) this(2), of "selected_bytes snapshot"]
  have out: "(\<Sum>p\<leftarrow>ps. ?sel (moved_out ops p)) = ?sel ?moves"
    using sums(1) by (simp add: moved_out_def conj_ac)
  have into: "(\<Sum>p\<leftarrow>ps. ?sel (put_in ops p)) = ?sel ?all"
    using sums(2) by (simp add: put_in_def conj_ac)
  have "(\<Sum>p\<leftarrow>ps. mset (edited_bytes snapshot ops p) + ?sel (moved_out ops p)) =
      (\<Sum>p\<leftarrow>ps. mset (original_bytes snapshot p) + ?sel (put_in ops p))"
    using edited_mset[OF assms(1-3)] assms(4) by (intro arg_cong[where f = sum_list] map_cong) auto
  then have "mset (concat (map (edited_bytes snapshot ops) ps)) + ?sel ?moves =
      mset (concat (map (original_bytes snapshot) ps)) + ?sel ?all"
    unfolding mset_concat_sum[of _ ps] by (simp only: sum_list_addf out into)
  then show ?thesis
    unfolding mset_kinds copied_bytes_def by (simp add: ac_simps)
qed

lemma sorted_wrt_symp:
  "sorted_wrt R xs \<Longrightarrow> symp R \<Longrightarrow> x \<in> set xs \<Longrightarrow> y \<in> set xs \<Longrightarrow> x \<noteq> y \<Longrightarrow> R x y"
  by (induction xs) (auto dest: sympD)

section \<open>Properties\<close>

text \<open>
  C1: a plan that is returned implements its specification. Its outputs are exactly the
  paths some operation changes, in strictly increasing path order; the recipe of each output
  evaluates to \<open>edited_bytes\<close>, the original bytes with every moved range removed and every
  selected range inserted at its offset in operation order; the recorded length, digest and
  original digest are those of these bytes; and the classification is exact: unchanged
  precisely when the bytes are the original ones, emptied, modified or newly created
  otherwise.
\<close>

theorem plan_refines_specification:
  assumes "plan L H snapshot batch budget = Ok p" "wf_snapshot snapshot"
  shows "set (map po_path (ep_outputs p)) = {path. touched (ep_operations p) path} \<and>
    sorted_wrt (<) (map po_path (ep_outputs p)) \<and>
    list_all (output_correct H snapshot (ep_operations p)) (ep_outputs p)"
  using plan_outputs[OF assms] by (simp add: list_all_iff)


text \<open>
  C4: planning loses and invents no byte. Over all outputs of a plan, the resulting
  bytes are, as a multiset, the original bytes of those files together with the bytes that
  copies select; in particular a batch of moves only permutes the bytes of the files it
  touches.
\<close>

theorem plan_conserves_bytes:
  assumes "plan L H snapshot batch budget = Ok p" "wf_snapshot snapshot"
  shows "\<exists>bss. try_map (\<lambda>out. recipe_bytes (file_with_id snapshot) (po_segments out)) (ep_outputs p) = Ok bss \<and>
    mset (concat bss) = mset (concat (map (\<lambda>out. original_bytes snapshot (po_path out)) (ep_outputs p))) +
      mset (copied_bytes snapshot (ep_operations p))"
proof -
  note outs = plan_outputs[OF assms]
  have ids: "distinct (map fs_id (ws_files snapshot))"
    by (rule plan_steps[OF assms])
  have "try_map (\<lambda>out. recipe_bytes (file_with_id snapshot) (po_segments out)) (ep_outputs p) =
      Ok (map (\<lambda>out. edited_bytes snapshot (ep_operations p) (po_path out)) (ep_outputs p))"
    using outs(5) by (auto simp: try_map_Ok_iff list_all2_map2 output_correct_def Let_def intro: list.rel_refl_strong)
  moreover have "sorted (map ro_operation_index (ep_operations p))"
    unfolding outs(2) by (rule sorted_upt)
  from edited_total[OF outs(1) this ids, of "map po_path (ep_outputs p)"] outs(3-5)
  have "mset (concat (map (\<lambda>out. edited_bytes snapshot (ep_operations p) (po_path out)) (ep_outputs p))) =
      mset (concat (map (\<lambda>out. original_bytes snapshot (po_path out)) (ep_outputs p))) +
      mset (copied_bytes snapshot (ep_operations p))"
    by (simp add: strict_sorted_iff comp_def)
  ultimately show ?thesis by blast
qed

text \<open>
  C5: the usage of a returned plan is the exact arithmetic value of the documented
  measures (largest and total output, largest and total number of segments, changed targets,
  projected response and planning memory), with no overflow on the way, and every measure
  respects its limit.
\<close>

theorem plan_within_budget:
  assumes "plan L H snapshot batch budget = Ok p"
  shows "ep_usage p = exact_usage L (ep_operations p) (ep_outputs p) \<and>
    within_budget (ep_usage p) budget \<and>
    (\<forall>out\<in>set (ep_outputs p). po_resulting_length out \<le> rb_resulting_bytes_per_output budget \<and>
      length (po_segments out) \<le> rb_segments_per_output budget)"
proof -
  have "calculate_usage L (ep_operations p) (ep_outputs p) = Ok (ep_usage p)"
    "enforce_usage (ep_usage p) budget = Ok ()"
    using assms by (auto simp: plan_def Let_def)
  then have u: "ep_usage p = exact_usage L (ep_operations p) (ep_outputs p)"
    "within_budget (ep_usage p) budget"
    by (simp_all add: calculate_usage_exact enforce_usage_Ok_iff)
  moreover have "po_resulting_length out \<le> rb_resulting_bytes_per_output budget \<and>
      length (po_segments out) \<le> rb_segments_per_output budget" if "out \<in> set (ep_outputs p)" for out
    using u le_max_of[of "po_resulting_length out" "map po_resulting_length (ep_outputs p)"]
      le_max_of[of "length (po_segments out)" "map (\<lambda>out. length (po_segments out)) (ep_outputs p)"] that
    by (force simp: within_budget_def exact_usage_def)
  ultimately show ?thesis by blast
qed



section \<open>A concrete plan\<close>

definition move_snapshot :: WorkspaceSnapshot where
  "move_snapshot = \<lparr>ws_workspace_identity = \<lparr>fi_device = 1, fi_inode = 2\<rparr>,
     ws_files = [\<lparr>fs_id = 0, fs_path = WorkspaceRelativePath ''a'',
       fs_parent_identity = \<lparr>fi_device = 1, fi_inode = 2\<rparr>, fs_parent_identities = [],
       fs_identity = \<lparr>fi_device = 1, fi_inode = 3\<rparr>, fs_link_count = 1, fs_bytes = [65, 10, 66, 10],
       fs_digest = [4], fs_line_index = \<lparr>boundaries = [2, 4]\<rparr>\<rparr>],
     ws_absent_paths = []\<rparr>"

definition move_batch :: BatchSpecification where
  "move_batch = \<lparr>bs_operations = [MoveOp \<lparr>
     os_source = \<lparr>ss_path = WorkspaceRelativePath ''a'', ss_selector = Lines 1 1,
       ss_precondition = Sha256 [4]\<rparr>,
     os_destination = \<lparr>de_path = WorkspaceRelativePath ''a'', de_anchor = FileEnd,
       de_precondition = Sha256 [4]\<rparr>\<rparr>]\<rparr>"

definition length_digest :: "bytes \<Rightarrow> Sha256Digest" where
  "length_digest bs = [of_nat (length bs)]"

definition small_layout :: Layout where
  "small_layout = \<lparr>size_of_ResolvedOperation = 8, size_of_PlannedOutput = 8, size_of_OutputSegment = 8\<rparr>"

definition move_operation :: ResolvedOperation where
  "move_operation = \<lparr>ro_operation_index = 0, ro_kind = Move,
     ro_source_path = WorkspaceRelativePath ''a'', ro_selector = Lines 1 1,
     ro_source_precondition = Sha256 [4], ro_source_range = \<lparr>range_start = 0, range_end = 2\<rparr>,
     ro_selected_digest = [2], ro_destination_path = WorkspaceRelativePath ''a'',
     ro_anchor = FileEnd, ro_destination_precondition = Sha256 [4],
     ro_destination_offset = 4, ro_effect = Changed\<rparr>"

lemma move_resolved:
  "resolve_operation length_digest states 0 (hd (bs_operations move_batch)) =
     Ok (move_operation, hd (ws_files move_snapshot), Existing (hd (ws_files move_snapshot)))"
  if "states ''a'' = Some (Existing (hd (ws_files move_snapshot)))"
  using that
  by (simp add: resolve_operation_def move_batch_def existing_source_def move_snapshot_def
      resolve_selector_def to_u64_def line_start_def line_end_def index_line_count_def
      digest_range_def slice_range_def slice_def destination_state_def resolve_anchor_def
      move_operation_def operation_effect_def length_digest_def u64_max_def checked_sub_u64_def
      get_nth_def get_slice_def)


definition move_edits :: OutputEdits where
  "move_edits = \<lparr>oe_path = WorkspaceRelativePath ''a'', oe_existing_file_id = Some 0,
     oe_original_length = 4, oe_original_digest = Some [4],
     oe_deletions = [(0, \<lparr>range_start = 0, range_end = 2\<rparr>)],
     oe_insertions = [(4, \<lparr>in_operation_index = 0, in_snapshot_file_id = 0,
       in_range = \<lparr>range_start = 0, range_end = 2\<rparr>, in_payload_digest = [2]\<rparr>)]\<rparr>"

lemma move_loop:
  assumes "states ''a'' = Some (Existing (hd (ws_files move_snapshot)))"
  shows "try_fold (plan_operation length_digest states) ([], []) (enumerate 0 (bs_operations move_batch)) =
    Ok ([move_operation], [(WorkspaceRelativePath ''a'', move_edits)])"
proof -
  have one: "bs_operations move_batch = [hd (bs_operations move_batch)]"
    by (simp add: move_batch_def)
  show ?thesis
    by (subst one) (simp add: plan_operation_def move_resolved[where states = states, OF assms] to_u64_def
        move_operation_def output_edits_def move_snapshot_def push_deletion_def push_insertion_def
        bt_get_def Let_def move_edits_def u64_max_def)
qed

definition move_output :: PlannedOutput where
  "move_output = \<lparr>po_path = WorkspaceRelativePath ''a'', po_original_digest = Some [4],
     po_change = ModifiedExisting, po_resulting_length = 4, po_resulting_digest = [4],
     po_segments = [OriginalSlice 0 \<lparr>range_start = 2, range_end = 4\<rparr>,
       PayloadSlice 0 0 \<lparr>range_start = 0, range_end = 2\<rparr> [2]]\<rparr>"

lemma move_segments: "build_segments move_edits = Ok (po_segments move_output)"
  by (simp add: build_segments_def move_edits_def edit_points_def mark_deletion_def mark_insertion_def
      point_entry_def bt_get_def default_point_def Let_def sort_point_def original_slice_def
      payload_slice_def move_output_def)

lemma move_output_planned:
  assumes "files 0 = Some (hd (ws_files move_snapshot))"
  shows "plan_output length_digest files move_edits = Ok move_output"
proof -
  have "validate_edit_conflicts move_edits = Ok ()"
    by (simp add: validate_edit_conflicts_def move_edits_def)
  moreover have "stream_output length_digest (po_segments move_output) files (Some 0) = Ok (4, [4], False)"
    using assms by (simp add: stream_output_def move_output_def move_snapshot_def stream_segment_def
        segment_bytes_def slice_range_def get_slice_def slice_def to_u64_def checked_add_u64_def
        saturating_add_u64_def length_digest_def u64_max_def Let_def)
  moreover have "oe_existing_file_id move_edits = Some 0" "oe_path move_edits = WorkspaceRelativePath ''a''"
    "oe_original_digest move_edits = Some [4]"
    by (simp_all add: move_edits_def)
  ultimately show ?thesis
    using assms move_segments
    by (simp add: plan_output_def classify_output_def move_output_def move_snapshot_def)
qed

lemma move_usage:
  "\<exists>u. calculate_usage small_layout [move_operation] [move_output] = Ok u \<and>
     enforce_usage u default_resource_budget = Ok ()"
  by (simp add: calculate_usage_def operation_usage_def output_usage_def move_operation_def
      move_output_def small_layout_def default_planning_usage_def enforce_usage_def
      default_resource_budget_def u64_max_def)

lemma move_plan:
  "\<exists>p. plan small_layout length_digest move_snapshot move_batch default_resource_budget = Ok p \<and>
     ep_operations p = [move_operation] \<and> ep_outputs p = [move_output]"
proof -
  obtain states files where idx: "index_snapshot move_snapshot = Ok (states, files)"
    "states ''a'' = Some (Existing (hd (ws_files move_snapshot)))" "files 0 = Some (hd (ws_files move_snapshot))"
    by (simp add: index_snapshot_def move_snapshot_def index_file_def)
  have pre: "validate_precondition_consistency move_batch = Ok ()"
    by (simp add: validate_precondition_consistency_def move_batch_def note_precondition_def to_u64_def)
  obtain u where u: "calculate_usage small_layout [move_operation] [move_output] = Ok u"
     "enforce_usage u default_resource_budget = Ok ()"
    using move_usage by blast
  obtain bs where "encode_plan_record move_snapshot \<lparr>ep_operations = [move_operation],
      ep_outputs = [move_output], ep_usage = u, ep_digest = replicate 32 0\<rparr> = Ok bs"
    by (simp add: encode_plan_record_def move_snapshot_def record_inputs_def
        encode_inputs_def encode_input_def encode_operations_def encode_outputs_def Let_def
        encode_output_def encode_segment_def input_index_def note_input_def array_def
        text_string_def byte_string_def u64_max_def move_operation_def move_output_def
        encode_operation_def encode_precondition_def)
  with idx pre u move_loop[where states = states, OF idx(2)] move_output_planned[where files = files, OF idx(3)] show ?thesis
    by (simp add: plan_def Let_def plan_digest_def)
qed

lemma move_snapshot_wf: "wf_snapshot move_snapshot"
  by (simp add: wf_snapshot_def move_snapshot_def indexes_def is_terminator_byte_def u64_max_def)


section \<open>Witnesses\<close>

theorem plan_refines_specification_witness:
  "\<exists>p. plan small_layout length_digest move_snapshot move_batch default_resource_budget = Ok p \<and>
     list_all (output_correct length_digest move_snapshot (ep_operations p)) (ep_outputs p) \<and>
     ep_outputs p = [move_output]"
  using move_plan plan_refines_specification[OF _ move_snapshot_wf] by blast


theorem plan_conserves_bytes_witness:
  "\<exists>p bss. plan small_layout length_digest move_snapshot move_batch default_resource_budget = Ok p \<and>
     mset (concat bss) = {#65, 10, 66, 10#} \<and>
     try_map (\<lambda>out. recipe_bytes (file_with_id move_snapshot) (po_segments out)) (ep_outputs p) = Ok bss"
proof -
  obtain p where p: "plan small_layout length_digest move_snapshot move_batch default_resource_budget = Ok p"
    "ep_operations p = [move_operation]" "ep_outputs p = [move_output]"
    using move_plan by blast
  obtain bss where bss: "try_map (\<lambda>out. recipe_bytes (file_with_id move_snapshot) (po_segments out)) (ep_outputs p) = Ok bss"
    "mset (concat bss) = mset (concat (map (\<lambda>out. original_bytes move_snapshot (po_path out)) (ep_outputs p))) +
      mset (copied_bytes move_snapshot (ep_operations p))"
    using plan_conserves_bytes[OF p(1) move_snapshot_wf] by blast
  have "mset (concat bss) = {#65, 10, 66, 10#}"
    unfolding bss(2) p(2,3)
    by (simp add: original_bytes_def file_at_def copied_bytes_def move_snapshot_def move_output_def
        move_operation_def)
  with p(1) bss(1) show ?thesis by blast
qed

theorem plan_within_budget_witness:
  "\<exists>p. plan small_layout length_digest move_snapshot move_batch default_resource_budget = Ok p \<and>
     within_budget (ep_usage p) default_resource_budget"
  using move_plan plan_within_budget by blast


end
