(* ===== verification/Fs_Types.thy ===== *)
theory Fs_Types
  imports Domain
begin

text \<open>
  Vocabulary of the filesystem crate (\<open>crates/srcmv-fs/src/lib.rs\<close>): its typed errors, the
  text functions its validators use, and directories as maps from names to file contents.
  The general facts on transition systems that the journal and the transaction engine share
  are here too.
\<close>

section \<open>Errors\<close>

datatype ErrorKind = AlreadyExists | NotFound | OtherError

datatype FsError =
    UnsupportedPlatform
  | WorkspaceRootNotDirectory
  | InvalidPath string string
  | SymlinkNotAllowed string
  | UnsupportedFileType string
  | PathNotFound string
  | PreconditionFailed string "Sha256Digest option" "Sha256Digest option"
  | IncompatiblePrecondition string
  | FileAlias string string
  | FileChanged string nat
  | FsResourceLimitExceeded string nat nat
  | CrossDeviceTransaction
  | NoReplaceUnavailable
  | UnsupportedFilesystem string
  | TransactionBusy
  | TransactionRecoveryRequired "string list"
  | TransactionNotFound string
  | RecoveryActionNotAllowed string string
  | ControlDirectoryInvalid string
  | LegacyControlState
  | TransactionRecordCorrupt "string option" string
  | RecoveryConflict string
  | Io string "string option" ErrorKind
  | Core CoreError
  | InternalInvariant string

section \<open>Text\<close>

text \<open>\<open>str::split\<close>, \<open>eq_ignore_ascii_case\<close> and the \<open>{:08}\<close> format of the standard library.\<close>

fun split_on :: "char \<Rightarrow> string \<Rightarrow> string list" where
  "split_on c [] = [[]]"
| "split_on c (x # xs) =
     (if x = c then [] # split_on c xs
      else case split_on c xs of p # ps \<Rightarrow> (x # p) # ps | [] \<Rightarrow> [[x]])"

definition ascii_lower :: "char \<Rightarrow> char" where
  "ascii_lower c =
     (if 65 \<le> (of_char c :: nat) \<and> (of_char c :: nat) \<le> 90 then char_of (of_char c + 32 :: nat) else c)"

definition eq_ignore_ascii_case :: "string \<Rightarrow> string \<Rightarrow> bool" where
  "eq_ignore_ascii_case s t \<longleftrightarrow> map ascii_lower s = map ascii_lower t"

definition digit_char :: "nat \<Rightarrow> char" where
  "digit_char d = char_of (48 + d)"

fun decimal :: "nat \<Rightarrow> string" where
  "decimal n = (if n < 10 then [digit_char n] else decimal (n div 10) @ [digit_char (n mod 10)])"

declare decimal.simps [simp del]

definition pad8 :: "nat \<Rightarrow> string" where
  "pad8 n = replicate (8 - length (decimal n)) (digit_char 0) @ decimal n"

definition is_lower_hex :: "char \<Rightarrow> bool" where
  "is_lower_hex c \<longleftrightarrow>
     48 \<le> (of_char c :: nat) \<and> (of_char c :: nat) \<le> 57 \<or>
     97 \<le> (of_char c :: nat) \<and> (of_char c :: nat) \<le> 102"

definition strip_prefix :: "string \<Rightarrow> string \<Rightarrow> string option" where
  "strip_prefix p s = (if take (length p) s = p then Some (drop (length p) s) else None)"

definition sat_u64 :: "nat \<Rightarrow> nat" where
  "sat_u64 n = min n u64_max"

subsection \<open>Decimal numerals are injective\<close>

fun value_of :: "string \<Rightarrow> nat \<Rightarrow> nat" where
  "value_of [] acc = acc"
| "value_of (c # s) acc = value_of s (acc * 10 + (of_char c - 48))"

lemma value_of_append: "value_of (s @ t) acc = value_of t (value_of s acc)"
  by (induction s arbitrary: acc) auto

lemma digit_value: "d < 10 \<Longrightarrow> of_char (digit_char d) - 48 = d"
  by (simp add: digit_char_def)

lemma value_of_decimal: "value_of (decimal n) 0 = n"
proof (induction n rule: decimal.induct)
  case (1 n)
  then show ?case
    by (subst decimal.simps) (auto simp: value_of_append digit_value)
qed

lemma value_of_zeros: "value_of (replicate k (digit_char 0)) 0 = 0"
  by (induction k) (auto simp: digit_value)

lemma value_of_pad8: "value_of (pad8 n) 0 = n"
  by (simp add: pad8_def value_of_append value_of_zeros value_of_decimal)

lemma pad8_inject [simp]: "pad8 m = pad8 n \<longleftrightarrow> m = n"
  by (metis value_of_pad8)

section \<open>Directories\<close>

type_synonym directory = "string \<rightharpoonup> bytes"

section \<open>Transition systems\<close>

text \<open>
  States reached from a set of initial states, and the contract of an invariant: it holds
  initially and every step keeps it.
\<close>

inductive reachable :: "('s \<Rightarrow> bool) \<Rightarrow> ('s \<Rightarrow> 's \<Rightarrow> bool) \<Rightarrow> 's \<Rightarrow> bool" for init step where
  reach_init: "init s \<Longrightarrow> reachable init step s"
| reach_step: "reachable init step s \<Longrightarrow> step s t \<Longrightarrow> reachable init step t"

locale invariant_system =
  fixes init :: "'s \<Rightarrow> bool"
    and step :: "'s \<Rightarrow> 's \<Rightarrow> bool"
    and invar :: "'s \<Rightarrow> bool"
  assumes invar_init: "init s \<Longrightarrow> invar s"
    and invar_step: "invar s \<Longrightarrow> step s t \<Longrightarrow> invar t"
begin

lemma invar_reachable: "reachable init step s \<Longrightarrow> invar s"
  by (induction rule: reachable.induct) (auto intro: invar_init invar_step)

lemma invar_steps: "step\<^sup>*\<^sup>* s t \<Longrightarrow> invar s \<Longrightarrow> invar t"
  by (induction rule: rtranclp_induct) (auto intro: invar_step)

end

end
