(* ===== verification/Journal.thy ===== *)
theory Journal
  imports Fs_Types
begin

text \<open>
  Checksummed transaction records and the pure state machine of a transaction
  (\<open>crates/srcmv-fs/src/journal.rs\<close>): manifests and state snapshots, their validators, the
  record envelope, and the append-only journal. JSON is a parameter, as is the digest: a
  \<open>Codec\<close> gives \<open>serde_json\<close>'s serializer, its streaming deserializer and its test that only
  white space is left. A transaction directory is a map from names to contents; publication
  writes a temporary file and renames it without replacing, so the only errors it can show in
  this model are names that already exist.
\<close>

section \<open>Data\<close>

definition RECORD_FORMAT_VERSION :: nat where "RECORD_FORMAT_VERSION = 1"
definition MAX_RECORD_BYTES :: nat where "MAX_RECORD_BYTES = 16 * 1024 * 1024"
definition MAX_STATE_RECORDS :: nat where "MAX_STATE_RECORDS = 512"
definition MAX_STATE_BYTES :: nat where "MAX_STATE_BYTES = 128 * 1024 * 1024"
definition MAX_TRANSACTION_TARGETS :: nat where "MAX_TRANSACTION_TARGETS = 100"
definition MAX_TRANSACTION_DISK_BYTES :: nat where
  "MAX_TRANSACTION_DISK_BYTES = 3 * 1024 * 1024 * 1024"
definition MAX_TRANSACTION_DIRECTORIES :: nat where "MAX_TRANSACTION_DIRECTORIES = 100"
definition MAX_RECOVERY_BYTES :: nat where "MAX_RECOVERY_BYTES = 256 * 1024 * 1024"

record TransactionLimits =
  tl_record_bytes :: nat
  tl_targets :: nat
  tl_state_records :: nat
  tl_state_bytes :: nat
  tl_transaction_directories :: nat
  tl_recovery_bytes :: nat
  tl_projected_disk_bytes :: nat

definition default_limits :: TransactionLimits where
  "default_limits = \<lparr>tl_record_bytes = MAX_RECORD_BYTES, tl_targets = MAX_TRANSACTION_TARGETS,
     tl_state_records = MAX_STATE_RECORDS, tl_state_bytes = MAX_STATE_BYTES,
     tl_transaction_directories = MAX_TRANSACTION_DIRECTORIES,
     tl_recovery_bytes = MAX_RECOVERY_BYTES,
     tl_projected_disk_bytes = MAX_TRANSACTION_DISK_BYTES\<rparr>"

definition MANIFEST_MAGIC :: bytes where "MANIFEST_MAGIC = as_bytes ''SRCMV-MANIFEST'' @ [0]"
definition STATE_MAGIC :: bytes where "STATE_MAGIC = as_bytes ''SRCMV-STATE'' @ [0]"
definition HEADER_TRAILER_BYTES :: nat where "HEADER_TRAILER_BYTES = 4 + 8 + 32"

record PersistedIdentity =
  pi_device :: nat
  pi_inode :: nat

definition persisted :: "FileIdentity \<Rightarrow> PersistedIdentity" where
  "persisted v = \<lparr>pi_device = fi_device v, pi_inode = fi_inode v\<rparr>"

record ManifestInput =
  mi_path :: string
  mi_parent_identity :: PersistedIdentity
  mi_existed :: bool
  mi_file_identity :: "PersistedIdentity option"
  mi_sha256 :: "string option"
  mi_length :: "nat option"
  mi_link_count :: "nat option"

record ManifestSegment =
  ms_input_index :: nat
  ms_start :: nat
  ms_end :: nat
  ms_operation_index :: "nat option"

datatype MetadataPolicy = PreserveExistingMode | NewFileMode

record ManifestTarget =
  mt_target_index :: nat
  mt_path :: string
  mt_parent_identity :: PersistedIdentity
  mt_original_existed :: bool
  mt_original_identity :: "PersistedIdentity option"
  mt_original_sha256 :: "string option"
  mt_original_length :: "nat option"
  mt_candidate_name :: string
  mt_backup_name :: string
  mt_candidate_sha256 :: string
  mt_candidate_length :: nat
  mt_metadata_policy :: MetadataPolicy
  mt_new_file_mode :: "nat option"
  mt_segments :: "ManifestSegment list"

record Manifest =
  mf_transaction_version :: nat
  mf_transaction_id :: string
  mf_workspace_identity :: PersistedIdentity
  mf_plan_sha256 :: string
  mf_inputs :: "ManifestInput list"
  mf_targets :: "ManifestTarget list"
  mf_metadata_limitations :: "string list"

datatype CandidateKind = Missing | Ready

record CandidateState =
  cs_kind :: CandidateKind
  cs_identity :: "PersistedIdentity option"

datatype CommitKind = Untouched | BackedUp | Installed

record CommitState =
  cm_kind :: CommitKind
  cm_identity :: "PersistedIdentity option"
  cm_preserved_mode :: "nat option"

datatype RollbackKind = NotRolledBack | OriginalRestored | AbsenceRestored

record RollbackState =
  rs_kind :: RollbackKind
  rs_identity :: "PersistedIdentity option"

record TargetState =
  ts_target_index :: nat
  ts_candidate :: CandidateState
  ts_commit :: CommitState
  ts_rollback :: RollbackState

datatype GlobalState = Preparing | Prepared | Committing | Committed | RollingBack | RolledBack

record StateSnapshot =
  sn_transaction_version :: nat
  sn_sequence :: nat
  sn_manifest_checksum :: string
  sn_prior_state_checksum :: "string option"
  sn_global_state :: GlobalState
  sn_targets :: "TargetState list"

record TransactionDirectory =
  td_transaction_id :: string
  td_contents :: directory

record TransactionJournal =
  tj_directory :: directory
  tj_manifest_checksum :: string
  tj_original_existence :: "bool list"
  tj_limits :: TransactionLimits
  tj_projected_disk_bytes :: nat
  tj_state_record_bytes :: nat
  tj_last_state :: "StateSnapshot option"
  tj_last_checksum :: "string option"

section \<open>Validators\<close>

definition corrupt :: "string option \<Rightarrow> string \<Rightarrow> FsError" where
  "corrupt transaction_id reason = TransactionRecordCorrupt transaction_id reason"

definition record_io :: "string \<Rightarrow> ErrorKind \<Rightarrow> FsError" where
  "record_io operation kind = Io operation None kind"

definition validate_transaction_id :: "string \<Rightarrow> FsError + unit" where
  "validate_transaction_id v =
     (if length v = 32 \<and> list_all is_lower_hex v then Ok ()
      else Err (corrupt None ''transaction_id_invalid''))"

definition validate_digest :: "string \<Rightarrow> string option \<Rightarrow> FsError + unit" where
  "validate_digest v i =
     (case strip_prefix ''sha256:'' v of
        None \<Rightarrow> Err (corrupt i ''record_digest_invalid'')
      | Some hex \<Rightarrow>
          if length hex = 64 \<and> list_all is_lower_hex hex then Ok ()
          else Err (corrupt i ''record_digest_invalid''))"

definition validate_generated_name :: "string \<Rightarrow> string \<Rightarrow> nat \<Rightarrow> FsError + unit" where
  "validate_generated_name v prefix index =
     (if v = prefix @ ''-'' @ pad8 index then Ok ()
      else Err (corrupt None ''generated_artifact_name_invalid''))"

definition validate_normalized_path :: "string \<Rightarrow> string \<Rightarrow> FsError + unit" where
  "validate_normalized_path v i =
     (if v = [] \<or> 4096 < length v \<or> take 1 v = ''/'' \<or> CHR 0x00 \<in> set v \<or>
         list_ex (\<lambda>part. part = [] \<or> part = ''.'' \<or> part = ''..'') (split_on CHR ''/'' v) \<or>
         eq_ignore_ascii_case (hd (split_on CHR ''/'' v)) ''.srcmv''
      then Err (corrupt (Some i) ''manifest_path_invalid'') else Ok ())"

definition validate_optional_input :: "ManifestInput \<Rightarrow> string \<Rightarrow> FsError + unit" where
  "validate_optional_input input i =
     (let fields = (mi_file_identity input \<noteq> None, mi_sha256 input \<noteq> None,
            mi_length input \<noteq> None, mi_link_count input \<noteq> None)
      in if mi_existed input \<noteq> (fields = (True, True, True, True)) \<or>
            (\<not> mi_existed input \<and> fields \<noteq> (False, False, False, False))
         then Err (corrupt (Some i) ''manifest_input_existence_fields_invalid'')
         else case mi_sha256 input of
                Some digest \<Rightarrow> validate_digest digest (Some i)
              | None \<Rightarrow> Ok ())"

definition validate_optional_original :: "ManifestTarget \<Rightarrow> string \<Rightarrow> FsError + unit" where
  "validate_optional_original target i =
     (let fields = (mt_original_identity target \<noteq> None, mt_original_sha256 target \<noteq> None,
            mt_original_length target \<noteq> None)
      in if mt_original_existed target \<noteq> (fields = (True, True, True)) \<or>
            (\<not> mt_original_existed target \<and> fields \<noteq> (False, False, False))
         then Err (corrupt (Some i) ''manifest_target_existence_fields_invalid'')
         else case mt_original_sha256 target of
                Some digest \<Rightarrow> validate_digest digest (Some i)
              | None \<Rightarrow> Ok ())"

definition add_artifact_bytes :: "TransactionLimits \<Rightarrow> nat \<Rightarrow> ManifestTarget \<Rightarrow> FsError + nat" where
  "add_artifact_bytes limits acc target =
     ok_or (case checked_add_u64 acc (mt_candidate_length target) of
              None \<Rightarrow> None
            | Some v \<Rightarrow> checked_add_u64 v (case mt_original_length target of Some n \<Rightarrow> n | None \<Rightarrow> 0))
       (FsResourceLimitExceeded ''projected_transaction_disk_bytes'' u64_max
         (tl_projected_disk_bytes limits))"

definition projected_artifact_bytes :: "Manifest \<Rightarrow> TransactionLimits \<Rightarrow> FsError + nat" where
  "projected_artifact_bytes manifest limits = try_fold (add_artifact_bytes limits) 0 (mf_targets manifest)"

definition metadata_valid :: "ManifestTarget \<Rightarrow> bool" where
  "metadata_valid target =
     (case mt_metadata_policy target of
        PreserveExistingMode \<Rightarrow> mt_original_existed target \<and> mt_new_file_mode target = None
      | NewFileMode \<Rightarrow> \<not> mt_original_existed target \<and>
          (case mt_new_file_mode target of
             Some mode \<Rightarrow> mode \<le> 438 \<and> and mode 73 = 0
           | None \<Rightarrow> False))"

definition validate_segment :: "Manifest \<Rightarrow> ManifestSegment \<Rightarrow> FsError + unit" where
  "validate_segment manifest segment =
     (let input = get_nth (mf_inputs manifest) (ms_input_index segment)
      in if ms_end segment \<le> ms_start segment \<or> input = None
         then Err (corrupt (Some (mf_transaction_id manifest)) ''manifest_segment_invalid'')
         else if (case Option.bind input mi_length of None \<Rightarrow> True | Some len \<Rightarrow> len < ms_end segment)
         then Err (corrupt (Some (mf_transaction_id manifest)) ''manifest_segment_out_of_bounds'')
         else Ok ())"

text \<open>One iteration of the loop over targets: the previous path and the projected bytes.\<close>

definition validate_target ::
    "Manifest \<Rightarrow> TransactionLimits \<Rightarrow> string option \<times> nat \<Rightarrow> nat \<times> ManifestTarget
      \<Rightarrow> FsError + (string option \<times> nat)" where
  "validate_target manifest limits st entry =
     (case (st, entry) of ((prior_path, projected), (index, target)) \<Rightarrow>
      let i = mf_transaction_id manifest in
      and_then (validate_normalized_path (mt_path target) i) (\<lambda>_.
      and_then (ensure (mt_target_index target = sat_u64 index)
        (corrupt (Some i) ''manifest_target_index_invalid'')) (\<lambda>_.
      and_then (ensure (case prior_path of Some prior \<Rightarrow> prior < mt_path target | None \<Rightarrow> True)
        (corrupt (Some i) ''manifest_targets_not_sorted'')) (\<lambda>_.
      and_then (validate_generated_name (mt_candidate_name target) ''candidate'' index) (\<lambda>_.
      and_then (validate_generated_name (mt_backup_name target) ''backup'' index) (\<lambda>_.
      and_then (validate_digest (mt_candidate_sha256 target) (Some i)) (\<lambda>_.
      and_then (validate_optional_original target i) (\<lambda>_.
      and_then (add_artifact_bytes limits projected target) (\<lambda>projected.
      and_then (ensure (metadata_valid target)
        (corrupt (Some i) ''manifest_metadata_policy_invalid'')) (\<lambda>_.
      and_then (try_map (validate_segment manifest) (mt_segments target)) (\<lambda>_.
      Ok (Some (mt_path target), projected))))))))))))"

definition validate_input :: "Manifest \<Rightarrow> ManifestInput \<Rightarrow> FsError + unit" where
  "validate_input manifest input =
     and_then (validate_normalized_path (mi_path input) (mf_transaction_id manifest)) (\<lambda>_.
     validate_optional_input input (mf_transaction_id manifest))"

definition validate_manifest :: "Manifest \<Rightarrow> TransactionLimits \<Rightarrow> FsError + unit" where
  "validate_manifest manifest limits =
     (let i = mf_transaction_id manifest; target_count = sat_u64 (length (mf_targets manifest)) in
      and_then (ensure (mf_transaction_version manifest = 1)
        (corrupt (Some i) ''manifest_version_unsupported'')) (\<lambda>_.
      and_then (validate_transaction_id i) (\<lambda>_.
      and_then (validate_digest (mf_plan_sha256 manifest) (Some i)) (\<lambda>_.
      and_then (ensure (target_count \<noteq> 0) (corrupt (Some i) ''manifest_targets_empty'')) (\<lambda>_.
      and_then (ensure (target_count \<le> tl_targets limits)
        (FsResourceLimitExceeded ''transaction_targets'' target_count (tl_targets limits))) (\<lambda>_.
      and_then (try_fold (validate_target manifest limits) (None, 0)
        (enumerate 0 (mf_targets manifest))) (\<lambda>(_, projected).
      and_then (ensure (projected \<le> tl_projected_disk_bytes limits)
        (FsResourceLimitExceeded ''projected_transaction_disk_bytes'' projected
          (tl_projected_disk_bytes limits))) (\<lambda>_.
      and_then (try_map (validate_input manifest) (mf_inputs manifest)) (\<lambda>_. Ok ())))))))))"

subsection \<open>State snapshots\<close>

definition validate_target_fields :: "TargetState \<Rightarrow> FsError + unit" where
  "validate_target_fields target =
     and_then (ensure ((cs_kind (ts_candidate target) = Ready) = (cs_identity (ts_candidate target) \<noteq> None))
       (corrupt None ''candidate_identity_invalid'')) (\<lambda>_.
     and_then (ensure
       (case cm_kind (ts_commit target) of
          Untouched \<Rightarrow> cm_identity (ts_commit target) = None \<and> cm_preserved_mode (ts_commit target) = None
        | BackedUp \<Rightarrow> cm_identity (ts_commit target) \<noteq> None \<and> cm_preserved_mode (ts_commit target) \<noteq> None
        | Installed \<Rightarrow> cm_identity (ts_commit target) \<noteq> None)
       (corrupt None ''commit_fields_invalid'')) (\<lambda>_.
     ensure
       (case rs_kind (ts_rollback target) of
          NotRolledBack \<Rightarrow> rs_identity (ts_rollback target) = None
        | AbsenceRestored \<Rightarrow> rs_identity (ts_rollback target) = None
        | OriginalRestored \<Rightarrow> rs_identity (ts_rollback target) \<noteq> None)
       (corrupt None ''rollback_fields_invalid'')))"

definition validate_global_constraints :: "StateSnapshot \<Rightarrow> FsError + unit" where
  "validate_global_constraints state =
     (let all_ready = list_all (\<lambda>t. cs_kind (ts_candidate t) = Ready) (sn_targets state);
          all_untouched = list_all (\<lambda>t. cm_kind (ts_commit t) = Untouched) (sn_targets state);
          none_rolled_back = list_all (\<lambda>t. rs_kind (ts_rollback t) = NotRolledBack) (sn_targets state)
      in ensure
        (case sn_global_state state of
           Preparing \<Rightarrow> all_untouched \<and> none_rolled_back
         | Prepared \<Rightarrow> all_ready \<and> all_untouched \<and> none_rolled_back
         | Committing \<Rightarrow> all_ready \<and> none_rolled_back
         | Committed \<Rightarrow> all_ready \<and> none_rolled_back \<and>
             list_all (\<lambda>t. cm_kind (ts_commit t) = Installed) (sn_targets state)
         | RollingBack \<Rightarrow> list_all (\<lambda>t. rs_kind (ts_rollback t) \<noteq> NotRolledBack \<or>
             cm_kind (ts_commit t) = Untouched \<or> cs_kind (ts_candidate t) = Ready) (sn_targets state)
         | RolledBack \<Rightarrow> list_all (\<lambda>t. rs_kind (ts_rollback t) \<noteq> NotRolledBack) (sn_targets state))
        (corrupt None ''global_state_target_combination_invalid''))"

definition validate_state_target :: "nat \<times> TargetState \<Rightarrow> FsError + unit" where
  "validate_state_target entry =
     (case entry of (index, target) \<Rightarrow>
      and_then (ensure (ts_target_index target = sat_u64 index)
        (corrupt None ''state_target_index_invalid'')) (\<lambda>_.
      validate_target_fields target))"

definition validate_state_shape :: "StateSnapshot \<Rightarrow> TransactionLimits \<Rightarrow> FsError + unit" where
  "validate_state_shape state limits =
     (let n = sat_u64 (length (sn_targets state)) in
      and_then (ensure (sn_transaction_version state = 1)
        (corrupt None ''state_version_unsupported'')) (\<lambda>_.
      and_then (ensure (sn_sequence state < tl_state_records limits)
        (FsResourceLimitExceeded ''state_records'' (saturating_add_u64 (sn_sequence state) 1)
          (tl_state_records limits))) (\<lambda>_.
      and_then (validate_digest (sn_manifest_checksum state) None) (\<lambda>_.
      and_then (case sn_prior_state_checksum state of
          Some checksum \<Rightarrow> validate_digest checksum None
        | None \<Rightarrow> Ok ()) (\<lambda>_.
      and_then (ensure (\<not> (sn_sequence state = 0 \<and> sn_prior_state_checksum state \<noteq> None))
        (corrupt None ''state_zero_prior_checksum_present'')) (\<lambda>_.
      and_then (ensure (\<not> (sn_sequence state \<noteq> 0 \<and> sn_prior_state_checksum state = None))
        (corrupt None ''state_prior_checksum_missing'')) (\<lambda>_.
      and_then (ensure (n \<le> tl_targets limits)
        (FsResourceLimitExceeded ''transaction_targets'' n (tl_targets limits))) (\<lambda>_.
      and_then (try_map validate_state_target (enumerate 0 (sn_targets state))) (\<lambda>_.
      validate_global_constraints state)))))))))"

definition original_existence_valid :: "TargetState \<times> bool \<Rightarrow> bool" where
  "original_existence_valid entry =
     (case entry of (target, original_existed) \<Rightarrow>
        \<not> ((\<not> original_existed \<and> cm_kind (ts_commit target) = BackedUp) \<or>
           (rs_kind (ts_rollback target) = OriginalRestored \<and> \<not> original_existed) \<or>
           (rs_kind (ts_rollback target) = AbsenceRestored \<and> original_existed)))"

definition validate_state_against_originals :: "StateSnapshot \<Rightarrow> bool list \<Rightarrow> FsError + unit" where
  "validate_state_against_originals state original_existence =
     and_then (ensure (length (sn_targets state) = length original_existence)
       (corrupt None ''state_target_count_mismatch'')) (\<lambda>_.
     ensure (list_all original_existence_valid (zip (sn_targets state) original_existence))
       (corrupt None ''state_original_existence_mismatch''))"

definition validate_state_against_manifest :: "StateSnapshot \<Rightarrow> Manifest \<Rightarrow> FsError + unit" where
  "validate_state_against_manifest state manifest =
     validate_state_against_originals state (map mt_original_existed (mf_targets manifest))"

subsection \<open>Transitions\<close>

fun commit_rank :: "CommitKind \<Rightarrow> nat" where
  "commit_rank Untouched = 0"
| "commit_rank BackedUp = 1"
| "commit_rank Installed = 2"

definition rollback_phase :: "GlobalState \<Rightarrow> bool" where
  "rollback_phase g \<longleftrightarrow> g = RollingBack \<or> g = RolledBack"

definition validate_target_progress :: "TargetState \<Rightarrow> TargetState \<Rightarrow> GlobalState \<Rightarrow> FsError + unit" where
  "validate_target_progress before after global =
     and_then (ensure
       (ts_candidate before = ts_candidate after \<or>
        (cs_kind (ts_candidate before) = Missing \<and> cs_kind (ts_candidate after) = Ready))
       (corrupt None ''candidate_state_regressed'')) (\<lambda>_.
     and_then (ensure
       (\<not> (\<not> rollback_phase global \<and> ts_rollback before \<noteq> ts_rollback after))
       (corrupt None ''rollback_progress_outside_rollback'')) (\<lambda>_.
     and_then (ensure
       (commit_rank (cm_kind (ts_commit before)) \<le> commit_rank (cm_kind (ts_commit after)) \<and>
        (\<not> rollback_phase global \<or> ts_commit before = ts_commit after))
       (corrupt None ''commit_state_regressed'')) (\<lambda>_.
     ensure
       (\<not> (rs_kind (ts_rollback before) \<noteq> NotRolledBack \<and> ts_rollback before \<noteq> ts_rollback after))
       (corrupt None ''rollback_state_changed_after_restore''))))"

definition global_transition_allowed :: "GlobalState \<Rightarrow> GlobalState \<Rightarrow> bool" where
  "global_transition_allowed previous new =
     (case previous of
        Preparing \<Rightarrow> new \<in> {Preparing, Prepared, RollingBack}
      | Prepared \<Rightarrow> new \<in> {Prepared, Committing, RollingBack}
      | Committing \<Rightarrow> new \<in> {Committing, Committed, RollingBack}
      | RollingBack \<Rightarrow> new \<in> {RollingBack, RolledBack}
      | Committed \<Rightarrow> False
      | RolledBack \<Rightarrow> False)"

definition validate_progress_pair :: "GlobalState \<Rightarrow> TargetState \<times> TargetState \<Rightarrow> FsError + unit" where
  "validate_progress_pair global entry =
     (case entry of (before, after) \<Rightarrow>
      and_then (ensure (ts_target_index before = ts_target_index after)
        (corrupt None ''state_target_order_changed'')) (\<lambda>_.
      validate_target_progress before after global))"

definition validate_state_transition_with_limits ::
    "StateSnapshot \<Rightarrow> StateSnapshot \<Rightarrow> TransactionLimits \<Rightarrow> FsError + unit" where
  "validate_state_transition_with_limits previous new limits =
     and_then (validate_state_shape previous limits) (\<lambda>_.
     and_then (validate_state_shape new limits) (\<lambda>_.
     and_then (ok_or (checked_add_u64 (sn_sequence previous) 1)
       (corrupt None ''state_sequence_overflow'')) (\<lambda>successor.
     and_then (ensure (sn_sequence new = successor)
       (corrupt None ''state_sequence_not_contiguous'')) (\<lambda>_.
     and_then (ensure (global_transition_allowed (sn_global_state previous) (sn_global_state new))
       (corrupt None ''invalid_global_state_transition'')) (\<lambda>_.
     and_then (ensure (length (sn_targets previous) = length (sn_targets new))
       (corrupt None ''state_target_count_changed'')) (\<lambda>_.
     and_then (try_map (validate_progress_pair (sn_global_state new))
       (zip (sn_targets previous) (sn_targets new))) (\<lambda>_. Ok ())))))))"

definition validate_state_transition :: "StateSnapshot \<Rightarrow> StateSnapshot \<Rightarrow> FsError + unit" where
  "validate_state_transition previous new =
     validate_state_transition_with_limits previous new default_limits"


section \<open>The record envelope\<close>

text \<open>What the crates \<open>serde\<close> and \<open>serde_json\<close> provide for one payload type.\<close>

record 'a Codec =
  to_vec :: "'a \<Rightarrow> bytes option"
  deserialize :: "bytes \<Rightarrow> ('a \<times> bytes) option"
  at_end :: "bytes \<Rightarrow> bool"

record 'a DecodedRecord =
  dr_payload :: 'a
  dr_checksum :: Sha256Digest

definition checked_record_length :: "bytes \<Rightarrow> nat \<Rightarrow> FsError + nat" where
  "checked_record_length magic payload =
     ok_or (case checked_add_u64 (sat_u64 (length magic)) HEADER_TRAILER_BYTES of
              None \<Rightarrow> None
            | Some v \<Rightarrow> checked_add_u64 v (sat_u64 payload))
       (FsResourceLimitExceeded ''transaction_record_bytes'' u64_max MAX_RECORD_BYTES)"

definition encode_record ::
    "(bytes \<Rightarrow> Sha256Digest) \<Rightarrow> 'a Codec \<Rightarrow> bytes \<Rightarrow> 'a \<Rightarrow> TransactionLimits \<Rightarrow> FsError + bytes" where
  "encode_record H codec magic v limits =
     and_then (ok_or (to_vec codec v) (corrupt None ''record_json_encode'')) (\<lambda>payload.
     and_then (checked_record_length magic (length payload)) (\<lambda>len.
     and_then (ensure (len \<le> tl_record_bytes limits)
       (FsResourceLimitExceeded ''transaction_record_bytes'' len (tl_record_bytes limits))) (\<lambda>_.
     let encoded = magic @ be_bytes 4 RECORD_FORMAT_VERSION @ be_bytes 8 (sat_u64 (length payload)) @ payload
     in Ok (encoded @ H encoded))))"

definition decode_record ::
    "(bytes \<Rightarrow> Sha256Digest) \<Rightarrow> 'a Codec \<Rightarrow> bytes \<Rightarrow> bytes \<Rightarrow> string option \<Rightarrow> TransactionLimits
      \<Rightarrow> FsError + 'a DecodedRecord" where
  "decode_record H codec bs magic i limits =
     (let actual = sat_u64 (length bs); header = length magic + 12 in
      and_then (ensure (actual \<le> tl_record_bytes limits) (corrupt i ''record_oversized'')) (\<lambda>_.
      and_then (ensure (header + 32 \<le> length bs \<and> take (length magic) bs = magic)
        (corrupt i ''record_magic_or_truncation'')) (\<lambda>_.
      and_then (ensure (from_be_bytes (slice bs (length magic) (length magic + 4)) = RECORD_FORMAT_VERSION)
        (corrupt i ''record_version_unsupported'')) (\<lambda>_.
      let payload_length = from_be_bytes (slice bs (length magic + 4) header) in
      and_then (ok_or (case checked_add_u64 (sat_u64 header) payload_length of
            None \<Rightarrow> None | Some v \<Rightarrow> checked_add_u64 v 32)
          (corrupt i ''record_length_overflow'')) (\<lambda>expected.
      and_then (ensure (actual = expected) (corrupt i ''record_length_mismatch'')) (\<lambda>_.
      let payload_end = header + payload_length; expected_checksum = H (take payload_end bs) in
      and_then (ensure (drop payload_end bs = expected_checksum)
        (corrupt i ''record_checksum_invalid'')) (\<lambda>_.
      and_then (ok_or (deserialize codec (slice bs header payload_end))
        (corrupt i ''record_payload_invalid'')) (\<lambda>(payload, rest).
      and_then (ensure (at_end codec rest) (corrupt i ''record_payload_trailing_data'')) (\<lambda>_.
      Ok \<lparr>dr_payload = payload, dr_checksum = expected_checksum\<rparr>)))))))))"

definition record_checksum :: "bytes \<Rightarrow> FsError + Sha256Digest" where
  "record_checksum bs =
     and_then (ok_or (checked_sub_u64 (length bs) 32) (corrupt None ''record_truncated'')) (\<lambda>start.
     Ok (drop start bs))"

definition checksum_text :: "Sha256Digest \<Rightarrow> string" where
  "checksum_text digest = to_prefixed_hex digest"

definition encode_manifest_record_with_limits ::
    "(bytes \<Rightarrow> Sha256Digest) \<Rightarrow> Manifest Codec \<Rightarrow> Manifest \<Rightarrow> TransactionLimits \<Rightarrow> FsError + bytes" where
  "encode_manifest_record_with_limits H codec manifest limits =
     and_then (validate_manifest manifest limits) (\<lambda>_.
     and_then (encode_record H codec MANIFEST_MAGIC manifest limits) (\<lambda>encoded.
     and_then (projected_artifact_bytes manifest limits) (\<lambda>artifacts.
     and_then (ok_or (checked_add_u64 artifacts (sat_u64 (length encoded)))
       (FsResourceLimitExceeded ''projected_transaction_disk_bytes'' u64_max
         (tl_projected_disk_bytes limits))) (\<lambda>projected.
     and_then (ensure (projected \<le> tl_projected_disk_bytes limits)
       (FsResourceLimitExceeded ''projected_transaction_disk_bytes'' projected
         (tl_projected_disk_bytes limits))) (\<lambda>_.
     Ok encoded)))))"

definition decode_manifest_record_with_checksum ::
    "(bytes \<Rightarrow> Sha256Digest) \<Rightarrow> Manifest Codec \<Rightarrow> bytes \<Rightarrow> string option \<Rightarrow> TransactionLimits
      \<Rightarrow> FsError + Manifest DecodedRecord" where
  "decode_manifest_record_with_checksum H codec bs i limits =
     and_then (decode_record H codec bs MANIFEST_MAGIC i limits) (\<lambda>decoded.
     and_then (validate_manifest (dr_payload decoded) limits) (\<lambda>_. Ok decoded))"

definition decode_manifest_record_with_limits ::
    "(bytes \<Rightarrow> Sha256Digest) \<Rightarrow> Manifest Codec \<Rightarrow> bytes \<Rightarrow> TransactionLimits \<Rightarrow> FsError + Manifest" where
  "decode_manifest_record_with_limits H codec bs limits =
     and_then (decode_record H codec bs MANIFEST_MAGIC None limits) (\<lambda>decoded.
     and_then (validate_manifest (dr_payload decoded) limits) (\<lambda>_. Ok (dr_payload decoded)))"

definition encode_state_record_with_limits ::
    "(bytes \<Rightarrow> Sha256Digest) \<Rightarrow> StateSnapshot Codec \<Rightarrow> StateSnapshot \<Rightarrow> TransactionLimits \<Rightarrow> FsError + bytes" where
  "encode_state_record_with_limits H codec state limits =
     and_then (validate_state_shape state limits) (\<lambda>_. encode_record H codec STATE_MAGIC state limits)"

definition decode_state_record_with_checksum ::
    "(bytes \<Rightarrow> Sha256Digest) \<Rightarrow> StateSnapshot Codec \<Rightarrow> bytes \<Rightarrow> string option \<Rightarrow> TransactionLimits
      \<Rightarrow> FsError + StateSnapshot DecodedRecord" where
  "decode_state_record_with_checksum H codec bs i limits =
     and_then (decode_record H codec bs STATE_MAGIC i limits) (\<lambda>decoded.
     and_then (validate_state_shape (dr_payload decoded) limits) (\<lambda>_. Ok decoded))"

definition decode_state_record_with_limits ::
    "(bytes \<Rightarrow> Sha256Digest) \<Rightarrow> StateSnapshot Codec \<Rightarrow> bytes \<Rightarrow> TransactionLimits
      \<Rightarrow> FsError + StateSnapshot" where
  "decode_state_record_with_limits H codec bs limits =
     and_then (decode_record H codec bs STATE_MAGIC None limits) (\<lambda>decoded.
     and_then (validate_state_shape (dr_payload decoded) limits) (\<lambda>_. Ok (dr_payload decoded)))"

section \<open>The journal\<close>

text \<open>
  Publication: the temporary file must be new, then it is renamed without replacing. The
  directory is returned in every case, since a failed rename leaves the temporary file.
\<close>

definition publish_record ::
    "directory \<Rightarrow> string \<Rightarrow> string \<Rightarrow> bytes \<Rightarrow> directory \<times> (FsError + unit)" where
  "publish_record dir temporary published bs =
     (if dir temporary \<noteq> None then (dir, Err (record_io ''create_record_temporary'' AlreadyExists))
      else if dir published \<noteq> None
      then (dir(temporary \<mapsto> bs), Err (record_io ''publish_record'' AlreadyExists))
      else (dir(published \<mapsto> bs), Ok ()))"

definition create_with_limits ::
    "(bytes \<Rightarrow> Sha256Digest) \<Rightarrow> Manifest Codec \<Rightarrow> TransactionDirectory \<Rightarrow> Manifest \<Rightarrow> TransactionLimits
      \<Rightarrow> FsError + TransactionJournal" where
  "create_with_limits H codec directory manifest limits =
     and_then (ensure (mf_transaction_id manifest = td_transaction_id directory)
       (corrupt (Some (td_transaction_id directory)) ''manifest_id_mismatch'')) (\<lambda>_.
     and_then (validate_manifest manifest limits) (\<lambda>_.
     and_then (encode_manifest_record_with_limits H codec manifest limits) (\<lambda>encoded.
     and_then (projected_artifact_bytes manifest limits) (\<lambda>artifacts.
     and_then (ok_or (checked_add_u64 artifacts (sat_u64 (length encoded)))
       (FsResourceLimitExceeded ''projected_transaction_disk_bytes'' u64_max
         (tl_projected_disk_bytes limits))) (\<lambda>projected.
     and_then (record_checksum encoded) (\<lambda>checksum.
     case publish_record (td_contents directory) ''manifest.tmp'' ''manifest.rec'' encoded of
       (dir, published) \<Rightarrow>
         and_then published (\<lambda>_.
         Ok \<lparr>tj_directory = dir, tj_manifest_checksum = checksum_text checksum,
             tj_original_existence = map mt_original_existed (mf_targets manifest),
             tj_limits = limits, tj_projected_disk_bytes = projected,
             tj_state_record_bytes = 0, tj_last_state = None, tj_last_checksum = None\<rparr>)))))))"

definition resume ::
    "(bytes \<Rightarrow> Sha256Digest) \<Rightarrow> TransactionDirectory \<Rightarrow> Manifest \<Rightarrow> StateSnapshot \<Rightarrow> string \<Rightarrow> nat
      \<Rightarrow> FsError + TransactionJournal" where
  "resume H directory manifest last_state last_checksum state_record_bytes =
     and_then (validate_manifest manifest default_limits) (\<lambda>_.
     and_then (validate_state_against_manifest last_state manifest) (\<lambda>_.
     and_then (ok_or (td_contents directory ''manifest.rec'')
       (record_io ''read_manifest_for_recovery'' NotFound)) (\<lambda>manifest_bytes.
     and_then (record_checksum manifest_bytes) (\<lambda>checksum.
     and_then (ensure (checksum_text checksum = sn_manifest_checksum last_state)
       (corrupt (Some (td_transaction_id directory)) ''recovery_manifest_checksum_mismatch'')) (\<lambda>_.
     and_then (projected_artifact_bytes manifest default_limits) (\<lambda>artifacts.
     and_then (ok_or (case checked_add_u64 artifacts (sat_u64 (length manifest_bytes)) of
           None \<Rightarrow> None | Some v \<Rightarrow> checked_add_u64 v state_record_bytes)
         (FsResourceLimitExceeded ''projected_transaction_disk_bytes'' u64_max
           MAX_TRANSACTION_DISK_BYTES)) (\<lambda>projected.
     Ok \<lparr>tj_directory = td_contents directory, tj_manifest_checksum = checksum_text checksum,
         tj_original_existence = map mt_original_existed (mf_targets manifest),
         tj_limits = default_limits, tj_projected_disk_bytes = projected,
         tj_state_record_bytes = state_record_bytes, tj_last_state = Some last_state,
         tj_last_checksum = Some last_checksum\<rparr>)))))))"

definition state_file :: "nat \<Rightarrow> string \<Rightarrow> string" where
  "state_file sequence extension = ''state-'' @ pad8 sequence @ ''.'' @ extension"

definition validate_next_state :: "TransactionJournal \<Rightarrow> StateSnapshot \<Rightarrow> FsError + unit" where
  "validate_next_state j state =
     and_then (ensure (sn_manifest_checksum state = tj_manifest_checksum j)
       (corrupt None ''state_manifest_checksum_mismatch'')) (\<lambda>_.
     and_then (validate_state_against_originals state (tj_original_existence j)) (\<lambda>_.
     and_then (ensure (sn_prior_state_checksum state = tj_last_checksum j)
       (corrupt None ''state_prior_checksum_mismatch'')) (\<lambda>_.
     case tj_last_state j of
       Some previous \<Rightarrow> validate_state_transition_with_limits previous state (tj_limits j)
     | None \<Rightarrow>
         and_then (ensure (sn_sequence state = 0 \<and> sn_global_state state = Preparing)
           (corrupt None ''state_zero_must_be_preparing'')) (\<lambda>_.
         validate_state_shape state (tj_limits j)))))"

definition prepare_state_record ::
    "(bytes \<Rightarrow> Sha256Digest) \<Rightarrow> StateSnapshot Codec \<Rightarrow> TransactionJournal \<Rightarrow> StateSnapshot
      \<Rightarrow> FsError + (bytes \<times> nat \<times> nat \<times> string)" where
  "prepare_state_record H codec j state =
     and_then (validate_next_state j state) (\<lambda>_.
     and_then (encode_state_record_with_limits H codec state (tj_limits j)) (\<lambda>encoded.
     and_then (ok_or (checked_add_u64 (tj_state_record_bytes j) (sat_u64 (length encoded)))
       (FsResourceLimitExceeded ''state_record_bytes'' u64_max (tl_state_bytes (tj_limits j))))
       (\<lambda>state_record_bytes.
     and_then (ensure (state_record_bytes \<le> tl_state_bytes (tj_limits j))
       (FsResourceLimitExceeded ''state_record_bytes'' state_record_bytes
         (tl_state_bytes (tj_limits j)))) (\<lambda>_.
     and_then (ok_or (checked_add_u64 (tj_projected_disk_bytes j) (sat_u64 (length encoded)))
       (FsResourceLimitExceeded ''projected_transaction_disk_bytes'' u64_max
         (tl_projected_disk_bytes (tj_limits j)))) (\<lambda>projected.
     and_then (ensure (projected \<le> tl_projected_disk_bytes (tj_limits j))
       (FsResourceLimitExceeded ''projected_transaction_disk_bytes'' projected
         (tl_projected_disk_bytes (tj_limits j)))) (\<lambda>_.
     and_then (record_checksum encoded) (\<lambda>checksum.
     Ok (encoded, state_record_bytes, projected, checksum_text checksum))))))))"

text \<open>The journal after the call and its result: a refused publication may leave a temporary file.\<close>

definition publish_state ::
    "(bytes \<Rightarrow> Sha256Digest) \<Rightarrow> StateSnapshot Codec \<Rightarrow> TransactionJournal \<Rightarrow> StateSnapshot
      \<Rightarrow> TransactionJournal \<times> (FsError + string)" where
  "publish_state H codec j state =
     (case prepare_state_record H codec j state of
        Err e \<Rightarrow> (j, Err e)
      | Ok (encoded, state_record_bytes, projected, checksum) \<Rightarrow>
          (case publish_record (tj_directory j) (state_file (sn_sequence state) ''tmp'')
             (state_file (sn_sequence state) ''rec'') encoded of
             (dir, Err e) \<Rightarrow> (j\<lparr>tj_directory := dir\<rparr>, Err e)
           | (dir, Ok _) \<Rightarrow>
               (j\<lparr>tj_directory := dir, tj_last_state := Some state, tj_last_checksum := Some checksum,
                  tj_projected_disk_bytes := projected,
                  tj_state_record_bytes := state_record_bytes\<rparr>, Ok checksum)))"

section \<open>Envelope proofs\<close>

definition digest32 :: "(bytes \<Rightarrow> Sha256Digest) \<Rightarrow> bool" where
  "digest32 H \<longleftrightarrow> (\<forall>bs. length (H bs) = 32)"

definition codec_roundtrip :: "'a Codec \<Rightarrow> bool" where
  "codec_roundtrip codec \<longleftrightarrow>
     (\<forall>v bs. to_vec codec v = Some bs \<longrightarrow>
        (\<exists>rest. deserialize codec bs = Some (v, rest) \<and> at_end codec rest))"

definition envelope :: "bytes \<Rightarrow> bytes \<Rightarrow> bytes" where
  "envelope magic payload = magic @ be_bytes 4 1 @ be_bytes 8 (length payload) @ payload"

lemma length_envelope [simp]: "length (envelope magic payload) = length magic + 12 + length payload"
  by (simp add: envelope_def)

lemma sat_u64_id [simp]: "n \<le> u64_max \<Longrightarrow> sat_u64 n = n"
  by (simp add: sat_u64_def)

lemma sat_u64_le [simp]: "sat_u64 n \<le> u64_max"
  by (simp add: sat_u64_def)

lemma encode_record_Ok_iff:
  assumes "length magic \<le> 100"
  shows "encode_record H codec magic v limits = Ok bs \<longleftrightarrow>
    (\<exists>payload. to_vec codec v = Some payload \<and>
       length magic + 44 + length payload \<le> u64_max \<and>
       length magic + 44 + length payload \<le> tl_record_bytes limits \<and>
       bs = envelope magic payload @ H (envelope magic payload))"
proof -
  have m: "length magic \<le> u64_max" using assms by (simp add: u64_max_def)
  have len: "checked_record_length magic (length payload) = Ok n \<longleftrightarrow>
      length magic + 44 + length payload \<le> u64_max \<and> n = length magic + 44 + length payload" for payload :: bytes and n
    using m assms by (auto simp: checked_record_length_def HEADER_TRAILER_BYTES_def checked_add_u64_def
        sat_u64_def min_def u64_max_def)
  show ?thesis
    by (auto simp: encode_record_def len envelope_def RECORD_FORMAT_VERSION_def Let_def)
qed

lemma slice_append_mid: "slice (a @ b @ c) (length a) (length a + length b) = b"
  by (simp add: slice_def)

lemma envelope_parts:
  assumes "length payload \<le> u64_max"
  shows "slice (envelope magic payload @ d) (length magic) (length magic + 4) = be_bytes 4 1"
    "slice (envelope magic payload @ d) (length magic + 4) (length magic + 12) = be_bytes 8 (length payload)"
    "slice (envelope magic payload @ d) (length magic + 12) (length magic + 12 + length payload) = payload"
proof -
  let ?v = "be_bytes 4 1" and ?l = "be_bytes 8 (length payload)"
  show "slice (envelope magic payload @ d) (length magic) (length magic + 4) = ?v"
    using slice_append_mid[of magic ?v "?l @ payload @ d"] by (simp add: envelope_def)
  show "slice (envelope magic payload @ d) (length magic + 4) (length magic + 12) = ?l"
    using slice_append_mid[of "magic @ ?v" ?l "payload @ d"] by (simp add: envelope_def ac_simps)
  show "slice (envelope magic payload @ d) (length magic + 12) (length magic + 12 + length payload) = payload"
    using slice_append_mid[of "magic @ ?v @ ?l" payload d] by (simp add: envelope_def add.assoc)
qed

lemma from_be_bytes_lt: "from_be_bytes bs < 256 ^ length bs"
proof (induction bs)
  case (Cons b bs)
  have "unat b * 256 ^ length bs + from_be_bytes bs < (unat b + 1) * 256 ^ length bs"
    using Cons by simp
  also have "\<dots> \<le> 256 * 256 ^ length bs"
    using unat_u8_lt[of b] by (intro mult_right_mono) simp_all
  finally show ?case by simp
qed simp

lemma from_be_bytes_inject:
  "length a = length b \<Longrightarrow> from_be_bytes a = from_be_bytes b \<Longrightarrow> a = b"
proof (induction a b rule: list_induct2)
  case (Cons x xs y ys)
  have eq: "unat x * 256 ^ length ys + from_be_bytes xs = unat y * 256 ^ length ys + from_be_bytes ys"
    using Cons by simp
  have "from_be_bytes xs < 256 ^ length ys" "from_be_bytes ys < 256 ^ length ys"
    using from_be_bytes_lt[of xs] from_be_bytes_lt[of ys] Cons.hyps by simp_all
  then have "(unat z * 256 ^ length ys + from_be_bytes xs) div 256 ^ length ys = unat z"
    "(unat z * 256 ^ length ys + from_be_bytes ys) div 256 ^ length ys = unat z" for z :: u8
    by simp_all
  with eq have x: "unat x = unat y" by metis
  with eq have "from_be_bytes xs = from_be_bytes ys" by simp
  moreover from x have "x = y" by (rule unsigned_word_eqI)
  ultimately show ?case using Cons.IH by simp
qed simp

lemma be_bytes_from_be_bytes: "be_bytes (length bs) (from_be_bytes bs) = bs"
  by (rule from_be_bytes_inject)
    (simp_all add: from_be_bytes_be_bytes from_be_bytes_lt)

lemma be_bytes_eqI: "length bs = w \<Longrightarrow> from_be_bytes bs = v \<Longrightarrow> bs = be_bytes w v"
  using be_bytes_from_be_bytes[of bs] by simp

lemma split_slices:
  assumes "i \<le> j" "j \<le> length bs"
  shows "bs = take i bs @ slice bs i j @ drop j bs"
  using assms by (metis append_take_drop_id append_assoc slice_append_adjacent slice_def
      drop0 le0 minus_nat.diff_0)

text \<open>
  A record is accepted exactly when it is an envelope of the right kind and version with the
  exact length and a checksum over everything before it, and its payload deserializes.
\<close>

lemma decode_record_Ok_iff:
  assumes "digest32 H" "length bs \<le> u64_max" "length magic \<le> 100"
  shows "decode_record H codec bs magic i limits = Ok d \<longleftrightarrow>
    (\<exists>payload rest. bs = envelope magic payload @ H (envelope magic payload) \<and>
      length bs \<le> tl_record_bytes limits \<and>
      deserialize codec payload = Some (dr_payload d, rest) \<and> at_end codec rest \<and>
      dr_checksum d = H (envelope magic payload))"
proof
  assume ok: "decode_record H codec bs magic i limits = Ok d"
  define n where "n = from_be_bytes (slice bs (length magic + 4) (length magic + 12))"
  let ?stop = "length magic + 12 + n"
  obtain rest where d: "length bs \<le> tl_record_bytes limits" "length magic + 44 \<le> length bs"
    "take (length magic) bs = magic" "from_be_bytes (slice bs (length magic) (length magic + 4)) = 1"
    "length bs = length magic + 12 + n + 32" "drop ?stop bs = H (take ?stop bs)"
    "deserialize codec (slice bs (length magic + 12) ?stop) = Some (dr_payload d, rest)"
    "at_end codec rest" "dr_checksum d = H (take ?stop bs)"
    using ok assms(2,3)
    by (auto simp: decode_record_def Let_def n_def RECORD_FORMAT_VERSION_def split: option.splits)
  let ?payload = "slice bs (length magic + 12) ?stop"
  have len: "length ?payload = n" using d(5) by simp
  have "slice bs (length magic) (length magic + 4) = be_bytes 4 1"
    using d(2,4) by (intro be_bytes_eqI) simp_all
  moreover have "slice bs (length magic + 4) (length magic + 12) = be_bytes 8 n"
    using d(2) by (intro be_bytes_eqI) (simp_all add: n_def)
  moreover have "take ?stop bs = take (length magic) bs @ slice bs (length magic) (length magic + 4) @
      slice bs (length magic + 4) (length magic + 12) @ ?payload"
    by (metis append_assoc slice_append_adjacent slice_def drop0 le0 le_add1 minus_nat.diff_0 add_le_cancel_left
        numeral_le_iff semiring_norm(68) semiring_norm(69) semiring_norm(71))
  ultimately have "take ?stop bs = envelope magic ?payload"
    using d(3) len by (simp add: envelope_def)
  with d show "\<exists>payload rest. bs = envelope magic payload @ H (envelope magic payload) \<and>
      length bs \<le> tl_record_bytes limits \<and>
      deserialize codec payload = Some (dr_payload d, rest) \<and> at_end codec rest \<and>
      dr_checksum d = H (envelope magic payload)"
    by (metis append_take_drop_id)
next
  assume "\<exists>payload rest. bs = envelope magic payload @ H (envelope magic payload) \<and>
      length bs \<le> tl_record_bytes limits \<and>
      deserialize codec payload = Some (dr_payload d, rest) \<and> at_end codec rest \<and>
      dr_checksum d = H (envelope magic payload)"
  then obtain payload rest where bs: "bs = envelope magic payload @ H (envelope magic payload)"
    and d: "length bs \<le> tl_record_bytes limits" "deserialize codec payload = Some (dr_payload d, rest)"
      "at_end codec rest" "dr_checksum d = H (envelope magic payload)" by blast
  have len: "length bs = length magic + 12 + length payload + 32"
    using assms(1) by (simp add: bs digest32_def)
  have small: "length payload \<le> u64_max" "length payload < 256 ^ 8" using len assms(2) by (simp_all add: u64_max_def)
  note parts = envelope_parts[OF small(1), of magic "H (envelope magic payload)", folded bs]
  have n: "from_be_bytes (slice bs (length magic + 4) (length magic + 12)) = length payload"
    using small(2) by (simp add: parts(2) from_be_bytes_be_bytes)
  have v: "from_be_bytes (slice bs (length magic) (length magic + 4)) = 1"
    by (simp add: parts(1) from_be_bytes_be_bytes)
  have magic: "take (length magic) bs = magic" by (simp add: bs envelope_def)
  have ends: "take (length magic + 12 + length payload) bs = envelope magic payload"
    "drop (length magic + 12 + length payload) bs = H (envelope magic payload)"
    by (simp_all add: bs)
  show "decode_record H codec bs magic i limits = Ok d"
    using d len assms(2,3) by (cases d) (simp add: decode_record_def Let_def n v magic ends parts(3)
        RECORD_FORMAT_VERSION_def checked_add_u64_def)
qed


section \<open>The state machine\<close>

lemma STATE_MAGIC_length [simp]: "length STATE_MAGIC = 12" "length MANIFEST_MAGIC = 15"
  by (simp_all add: STATE_MAGIC_def MANIFEST_MAGIC_def)

definition record_of ::
    "(bytes \<Rightarrow> Sha256Digest) \<Rightarrow> StateSnapshot Codec \<Rightarrow> TransactionLimits \<Rightarrow> StateSnapshot \<Rightarrow> bytes" where
  "record_of H codec limits state =
     (case encode_state_record_with_limits H codec state limits of Ok bs \<Rightarrow> bs | Err _ \<Rightarrow> [])"

definition stored_checksum :: "bytes \<Rightarrow> string" where
  "stored_checksum bs = checksum_text (drop (length bs - 32) bs)"

text \<open>
  \<open>journal_history\<close>: the journal holds exactly the records of a chain of states, one file per
  sequence number, each accepted as the successor of the one before it.
\<close>

definition journal_history ::
    "(bytes \<Rightarrow> Sha256Digest) \<Rightarrow> StateSnapshot Codec \<Rightarrow> TransactionJournal \<Rightarrow> StateSnapshot list \<Rightarrow> bool" where
  "journal_history H codec j hist \<longleftrightarrow>
     (\<forall>k<length hist. sn_sequence (hist ! k) = k \<and>
        sn_manifest_checksum (hist ! k) = tj_manifest_checksum j \<and>
        validate_state_against_originals (hist ! k) (tj_original_existence j) = Ok () \<and>
        (\<exists>bs. encode_state_record_with_limits H codec (hist ! k) (tj_limits j) = Ok bs)) \<and>
     (\<forall>k. Suc k < length hist \<longrightarrow>
        validate_state_transition_with_limits (hist ! k) (hist ! Suc k) (tj_limits j) = Ok () \<and>
        sn_prior_state_checksum (hist ! Suc k) =
          Some (stored_checksum (record_of H codec (tj_limits j) (hist ! k)))) \<and>
     (hist \<noteq> [] \<longrightarrow> sn_global_state (hist ! 0) = Preparing) \<and>
     tj_last_state j = (if hist = [] then None else Some (last hist)) \<and>
     tj_last_checksum j =
       (if hist = [] then None else Some (stored_checksum (record_of H codec (tj_limits j) (last hist)))) \<and>
     (\<forall>k. tj_directory j (state_file k ''rec'') =
        (if k < length hist then Some (record_of H codec (tj_limits j) (hist ! k)) else None)) \<and>
     (\<forall>k. tj_directory j (state_file k ''tmp'') = None) \<and>
     tj_state_record_bytes j = (\<Sum>s\<leftarrow>hist. length (record_of H codec (tj_limits j) s)) \<and>
     (hist \<noteq> [] \<longrightarrow> tj_state_record_bytes j \<le> tl_state_bytes (tj_limits j)) \<and>
     (hist \<noteq> [] \<longrightarrow> tj_projected_disk_bytes j \<le> tl_projected_disk_bytes (tj_limits j))"

lemma state_file_inject [simp]:
  "state_file k ''rec'' = state_file k' ''rec'' \<longleftrightarrow> k = k'"
  "state_file k ''tmp'' = state_file k' ''tmp'' \<longleftrightarrow> k = k'"
  by (simp_all add: state_file_def)

lemma state_file_distinct [simp]:
  "state_file k ''rec'' \<noteq> state_file k' ''tmp''" "state_file k ''tmp'' \<noteq> state_file k' ''rec''"
proof -
  have ne: "last (state_file k ''rec'') \<noteq> last (state_file k' ''tmp'')" for k k'
    by (simp add: state_file_def)
  show "state_file k ''rec'' \<noteq> state_file k' ''tmp''" using ne[of k k'] by auto
  show "state_file k ''tmp'' \<noteq> state_file k' ''rec''" using ne[of k' k] by auto
qed

lemma manifest_file_distinct [simp]:
  "state_file k e \<noteq> ''manifest.rec''" "state_file k e \<noteq> ''manifest.tmp''"
  by (simp_all add: state_file_def)

lemma encoded_state_bounds:
  assumes "encode_state_record_with_limits H codec s limits = Ok bs" "digest32 H"
  shows "32 \<le> length bs" "length bs \<le> u64_max" "validate_state_shape s limits = Ok ()"
    "\<exists>payload. to_vec codec s = Some payload \<and> bs = envelope STATE_MAGIC payload @ H (envelope STATE_MAGIC payload)"
    "length bs \<le> tl_record_bytes limits"
  using assms by (auto simp: encode_state_record_with_limits_def encode_record_Ok_iff digest32_def)

lemma prepare_state_record_Ok_iff:
  assumes "digest32 H"
  shows "prepare_state_record H codec j s = Ok (bs, n, p, c) \<longleftrightarrow>
    validate_next_state j s = Ok () \<and>
    encode_state_record_with_limits H codec s (tj_limits j) = Ok bs \<and>
    n = tj_state_record_bytes j + length bs \<and> n \<le> u64_max \<and> n \<le> tl_state_bytes (tj_limits j) \<and>
    p = tj_projected_disk_bytes j + length bs \<and> p \<le> u64_max \<and>
    p \<le> tl_projected_disk_bytes (tj_limits j) \<and> c = stored_checksum bs"
proof (cases "encode_state_record_with_limits H codec s (tj_limits j)")
  case (Inr bs')
  have "sat_u64 (length bs') = length bs'" "record_checksum bs' = Ok (drop (length bs' - 32) bs')"
    using encoded_state_bounds(1,2)[OF Inr assms] by (simp_all add: record_checksum_def checked_sub_u64_def)
  with Inr show ?thesis
    by (auto simp: prepare_state_record_def stored_checksum_def)
qed (simp add: prepare_state_record_def)

lemma publish_record_cases:
  "publish_record dir tmp pub bs = (dir', r) \<longleftrightarrow>
     (if dir tmp \<noteq> None then dir' = dir \<and> r = Err (record_io ''create_record_temporary'' AlreadyExists)
      else if dir pub \<noteq> None
      then dir' = dir(tmp \<mapsto> bs) \<and> r = Err (record_io ''publish_record'' AlreadyExists)
      else dir' = dir(pub \<mapsto> bs) \<and> r = Ok ())"
  by (auto simp: publish_record_def)

lemma publish_state_cases:
  assumes "digest32 H" "publish_state H codec j s = (j', r)"
  obtains (refused) e where "r = Err e" "j' = j" "prepare_state_record H codec j s = Err e"
  | (collision) e where "r = Err e" "validate_next_state j s = Ok ()"
      "tj_directory j (state_file (sn_sequence s) ''tmp'') \<noteq> None \<or>
       tj_directory j (state_file (sn_sequence s) ''rec'') \<noteq> None"
  | (published) bs where "r = Ok (stored_checksum bs)"
      "validate_next_state j s = Ok ()"
      "encode_state_record_with_limits H codec s (tj_limits j) = Ok bs"
      "tj_state_record_bytes j + length bs \<le> tl_state_bytes (tj_limits j)"
      "tj_projected_disk_bytes j + length bs \<le> tl_projected_disk_bytes (tj_limits j)"
      "j' = j\<lparr>tj_directory := (tj_directory j)(state_file (sn_sequence s) ''rec'' \<mapsto> bs),
             tj_last_state := Some s, tj_last_checksum := Some (stored_checksum bs),
             tj_projected_disk_bytes := tj_projected_disk_bytes j + length bs,
             tj_state_record_bytes := tj_state_record_bytes j + length bs\<rparr>"
proof (cases "prepare_state_record H codec j s")
  case (Inl e)
  with assms(2) show thesis by (intro refused[of e]) (simp_all add: publish_state_def)
next
  case (Inr q)
  obtain bs n p c where q: "q = (bs, n, p, c)" by (cases q) auto
  note ok = Inr[unfolded q prepare_state_record_Ok_iff[OF assms(1)]]
  let ?tmp = "tj_directory j (state_file (sn_sequence s) ''tmp'')"
    and ?rec = "tj_directory j (state_file (sn_sequence s) ''rec'')"
  show thesis
  proof (cases "?tmp = None \<and> ?rec = None")
    case True
    with assms(2) Inr q have "j' = j\<lparr>tj_directory := (tj_directory j)(state_file (sn_sequence s) ''rec'' \<mapsto> bs),
             tj_last_state := Some s, tj_last_checksum := Some c, tj_projected_disk_bytes := p,
             tj_state_record_bytes := n\<rparr>" "r = Ok c"
      by (simp_all add: publish_state_def publish_record_def)
    with ok published show thesis by blast
  next
    case False
    with assms(2) Inr q have "\<exists>e. r = Err e"
      by (auto simp: publish_state_def publish_record_def split: if_splits)
    with ok False collision show thesis by blast
  qed
qed


subsection \<open>Accepted transitions\<close>

definition target_progress :: "GlobalState \<Rightarrow> TargetState \<Rightarrow> TargetState \<Rightarrow> bool" where
  "target_progress global before after \<longleftrightarrow>
     ts_target_index before = ts_target_index after \<and>
     (ts_candidate before = ts_candidate after \<or>
      cs_kind (ts_candidate before) = Missing \<and> cs_kind (ts_candidate after) = Ready) \<and>
     (\<not> rollback_phase global \<longrightarrow> ts_rollback before = ts_rollback after) \<and>
     commit_rank (cm_kind (ts_commit before)) \<le> commit_rank (cm_kind (ts_commit after)) \<and>
     (rollback_phase global \<longrightarrow> ts_commit before = ts_commit after) \<and>
     (rs_kind (ts_rollback before) \<noteq> NotRolledBack \<longrightarrow> ts_rollback before = ts_rollback after)"

lemma try_map_unit_Ok_iff:
  "(\<exists>us. try_map f xs = Ok us) \<longleftrightarrow> (\<forall>x\<in>set xs. \<exists>u. f x = Ok u)"
proof (induction xs)
  case (Cons x xs)
  then show ?case by (cases "f x") auto
qed simp

lemma validate_progress_pair_Ok_iff:
  "validate_progress_pair g (b, a) = Ok u \<longleftrightarrow> target_progress g b a"
  by (auto simp: validate_progress_pair_def validate_target_progress_def target_progress_def)

lemma validate_state_transition_Ok_iff:
  "validate_state_transition_with_limits s t limits = Ok () \<longleftrightarrow>
     validate_state_shape s limits = Ok () \<and> validate_state_shape t limits = Ok () \<and>
     sn_sequence t = sn_sequence s + 1 \<and> sn_sequence t \<le> u64_max \<and>
     global_transition_allowed (sn_global_state s) (sn_global_state t) \<and>
     list_all2 (target_progress (sn_global_state t)) (sn_targets s) (sn_targets t)"
proof -
  have "(\<exists>us. try_map (validate_progress_pair g) (zip xs ys) = Ok us) \<longleftrightarrow>
      (\<forall>(b, a)\<in>set (zip xs ys). target_progress g b a)" for g xs ys
    unfolding try_map_unit_Ok_iff by (auto simp: validate_progress_pair_Ok_iff)
  then show ?thesis
    by (auto simp: validate_state_transition_with_limits_def list_all2_iff)
qed

lemma validate_state_shape_OkD:
  assumes "validate_state_shape s limits = Ok ()"
  shows "sn_sequence s < tl_state_records limits \<and> validate_global_constraints s = Ok () \<and>
    (sn_sequence s = 0 \<longleftrightarrow> sn_prior_state_checksum s = None) \<and>
    (\<exists>us. try_map validate_state_target (enumerate 0 (sn_targets s)) = Ok us)"
  using assms unfolding validate_state_shape_def Let_def and_then_Ok_iff ensure_Ok_iff by metis

lemma validate_state_shape_Ok:
  assumes "validate_state_shape s limits = Ok ()"
  shows "sn_sequence s < tl_state_records limits" "validate_global_constraints s = Ok ()"
    "sn_sequence s = 0 \<longleftrightarrow> sn_prior_state_checksum s = None"
    "\<forall>t\<in>set (sn_targets s). validate_target_fields t = Ok ()"
proof -
  note d = validate_state_shape_OkD[OF assms]
  then show "sn_sequence s < tl_state_records limits" "validate_global_constraints s = Ok ()"
    "sn_sequence s = 0 \<longleftrightarrow> sn_prior_state_checksum s = None" by simp_all
  have ok: "\<forall>e\<in>set (enumerate 0 (sn_targets s)). \<exists>u. validate_state_target e = Ok u"
    using d unfolding try_map_unit_Ok_iff by blast
  show "\<forall>t\<in>set (sn_targets s). validate_target_fields t = Ok ()"
  proof
    fix t assume "t \<in> set (sn_targets s)"
    then obtain k where "k < length (sn_targets s)" "sn_targets s ! k = t"
      by (auto simp: in_set_conv_nth)
    then have "(k, t) \<in> set (enumerate 0 (sn_targets s))"
      by (simp add: in_set_enumerate_eq)
    with ok show "validate_target_fields t = Ok ()"
      by (fastforce simp: validate_state_target_def)
  qed
qed


subsection \<open>The journal machine\<close>

definition journal_init :: "(bytes \<Rightarrow> Sha256Digest) \<Rightarrow> Manifest Codec \<Rightarrow> TransactionJournal \<Rightarrow> bool" where
  "journal_init H codec j \<longleftrightarrow>
     (\<exists>i manifest limits. create_with_limits H codec
        \<lparr>td_transaction_id = i, td_contents = Map.empty\<rparr> manifest limits = Ok j)"

definition journal_step ::
    "(bytes \<Rightarrow> Sha256Digest) \<Rightarrow> StateSnapshot Codec \<Rightarrow> TransactionJournal \<Rightarrow> TransactionJournal \<Rightarrow> bool" where
  "journal_step H codec j j' \<longleftrightarrow> (\<exists>s r. publish_state H codec j s = (j', r))"

definition journal_invar ::
    "(bytes \<Rightarrow> Sha256Digest) \<Rightarrow> StateSnapshot Codec \<Rightarrow> TransactionJournal \<Rightarrow> bool" where
  "journal_invar H codec j \<longleftrightarrow> digest32 H \<longrightarrow> (\<exists>hist. journal_history H codec j hist)"

lemma journal_init_history:
  assumes "journal_init H mcodec j"
  shows "journal_history H codec j []"
proof -
  have "\<exists>bs. tj_directory j = [''manifest.rec'' \<mapsto> bs]" "tj_last_state j = None" "tj_last_checksum j = None"
    "tj_state_record_bytes j = 0"
    using assms by (auto simp: journal_init_def create_with_limits_def publish_record_def)
  then show ?thesis
    by (auto simp: journal_history_def)
qed

lemma validate_next_state_Ok:
  assumes "validate_next_state j s = Ok ()"
  shows "sn_manifest_checksum s = tj_manifest_checksum j"
    "validate_state_against_originals s (tj_original_existence j) = Ok ()"
    "sn_prior_state_checksum s = tj_last_checksum j"
    "case tj_last_state j of Some p \<Rightarrow> validate_state_transition_with_limits p s (tj_limits j) = Ok ()
     | None \<Rightarrow> sn_sequence s = 0 \<and> sn_global_state s = Preparing"
  using assms by (auto simp: validate_next_state_def split: option.splits)

lemma next_sequence:
  assumes "journal_history H codec j hist" "validate_next_state j s = Ok ()"
  shows "sn_sequence s = length hist"
proof (cases "hist = []")
  case True
  with assms validate_next_state_Ok(4)[OF assms(2)] show ?thesis by (simp add: journal_history_def)
next
  case False
  then have "sn_sequence (last hist) = length hist - 1" "tj_last_state j = Some (last hist)"
    using assms(1) by (simp_all add: journal_history_def last_conv_nth)
  with validate_next_state_Ok(4)[OF assms(2)] False show ?thesis
    by (simp add: validate_state_transition_Ok_iff)
qed

lemma journal_history_snoc:
  assumes hist: "journal_history H codec j hist" and s: "validate_next_state j s = Ok ()"
    and bs: "encode_state_record_with_limits H codec s (tj_limits j) = Ok bs"
    and lim: "tj_state_record_bytes j + length bs \<le> tl_state_bytes (tj_limits j)"
      "tj_projected_disk_bytes j + length bs \<le> tl_projected_disk_bytes (tj_limits j)"
    and j': "j' = j\<lparr>tj_directory := (tj_directory j)(state_file (sn_sequence s) ''rec'' \<mapsto> bs),
             tj_last_state := Some s, tj_last_checksum := Some (stored_checksum bs),
             tj_projected_disk_bytes := tj_projected_disk_bytes j + length bs,
             tj_state_record_bytes := tj_state_record_bytes j + length bs\<rparr>"
  shows "journal_history H codec j' (hist @ [s])"
proof -
  note seq = next_sequence[OF hist s] and v = validate_next_state_Ok[OF s]
  have rec: "record_of H codec (tj_limits j) s = bs" using bs by (simp add: record_of_def)
  have same: "tj_limits j' = tj_limits j" "tj_manifest_checksum j' = tj_manifest_checksum j"
    "tj_original_existence j' = tj_original_existence j" by (simp_all add: j')
  have each: "sn_sequence ((hist @ [s]) ! k) = k \<and>
        sn_manifest_checksum ((hist @ [s]) ! k) = tj_manifest_checksum j \<and>
        validate_state_against_originals ((hist @ [s]) ! k) (tj_original_existence j) = Ok () \<and>
        (\<exists>bs. encode_state_record_with_limits H codec ((hist @ [s]) ! k) (tj_limits j) = Ok bs)"
    if "k < length (hist @ [s])" for k
    using that hist v(1,2) bs seq by (auto simp: journal_history_def nth_append less_Suc_eq)
  have link: "validate_state_transition_with_limits ((hist @ [s]) ! k) ((hist @ [s]) ! Suc k) (tj_limits j) = Ok () \<and>
        sn_prior_state_checksum ((hist @ [s]) ! Suc k) =
          Some (stored_checksum (record_of H codec (tj_limits j) ((hist @ [s]) ! k)))"
    if "Suc k < length (hist @ [s])" for k
  proof (cases "Suc k < length hist")
    case True
    with hist show ?thesis by (simp add: journal_history_def nth_append)
  next
    case False
    then have k: "Suc k = length hist" using that by simp
    then have "hist \<noteq> []" by auto
    with k have "last hist = hist ! k" by (metis diff_Suc_1 last_conv_nth)
    with k \<open>hist \<noteq> []\<close> hist v(3,4) show ?thesis by (simp add: journal_history_def nth_append)
  qed
  have start: "sn_global_state ((hist @ [s]) ! 0) = Preparing"
    using hist v(4) by (cases "hist = []") (auto simp: journal_history_def nth_append)
  have files: "tj_directory j' (state_file k ''rec'') =
      (if k < length (hist @ [s]) then Some (record_of H codec (tj_limits j) ((hist @ [s]) ! k)) else None)"
    "tj_directory j' (state_file k ''tmp'') = None" for k
    using hist rec seq by (auto simp: journal_history_def j' nth_append less_Suc_eq)
  have bytes: "tj_state_record_bytes j' = (\<Sum>s\<leftarrow>hist @ [s]. length (record_of H codec (tj_limits j) s))"
    using hist rec by (simp add: journal_history_def j')
  show ?thesis
    unfolding journal_history_def same
    using each link start files bytes lim rec by (simp add: j')
qed

lemma journal_step_history:
  assumes "journal_history H codec j hist" "digest32 H" "publish_state H codec j s = (j', r)"
  shows "(\<exists>e. r = Err e \<and> j' = j \<and> prepare_state_record H codec j s = Err e) \<or>
    (\<exists>c. r = Ok c \<and> validate_next_state j s = Ok () \<and> journal_history H codec j' (hist @ [s]))"
  using assms(2,3)
proof (cases rule: publish_state_cases)
  case (collision e)
  with next_sequence[OF assms(1) collision(2)] assms(1) show ?thesis
    by (simp add: journal_history_def)
next
  case (published bs)
  with journal_history_snoc[OF assms(1) published(2-6)] show ?thesis by simp
qed simp

interpretation journal: invariant_system "journal_init H mcodec" "journal_step H codec" "journal_invar H codec"
  for H mcodec codec
proof unfold_locales
  fix j assume "journal_init H mcodec j"
  then show "journal_invar H codec j"
    unfolding journal_invar_def by (blast intro: journal_init_history)
next
  fix j j' assume "journal_invar H codec j" "journal_step H codec j j'"
  then show "journal_invar H codec j'"
    unfolding journal_invar_def journal_step_def using journal_step_history by metis
qed


subsection \<open>Progress along the chain\<close>

definition target_le :: "TargetState \<Rightarrow> TargetState \<Rightarrow> bool" where
  "target_le before after \<longleftrightarrow>
     ts_target_index before = ts_target_index after \<and>
     (ts_candidate before = ts_candidate after \<or>
      cs_kind (ts_candidate before) = Missing \<and> cs_kind (ts_candidate after) = Ready) \<and>
     commit_rank (cm_kind (ts_commit before)) \<le> commit_rank (cm_kind (ts_commit after)) \<and>
     (rs_kind (ts_rollback before) \<noteq> NotRolledBack \<longrightarrow> ts_rollback before = ts_rollback after)"

definition target_step :: "GlobalState \<Rightarrow> GlobalState \<Rightarrow> TargetState \<Rightarrow> TargetState \<Rightarrow> bool" where
  "target_step g h before after \<longleftrightarrow> target_le before after \<and>
     (rollback_phase g \<longrightarrow> ts_commit before = ts_commit after) \<and>
     (\<not> rollback_phase h \<longrightarrow> ts_rollback before = ts_rollback after)"

definition state_le :: "StateSnapshot \<Rightarrow> StateSnapshot \<Rightarrow> bool" where
  "state_le s t \<longleftrightarrow>
     sn_global_state s \<noteq> Committed \<and> sn_global_state s \<noteq> RolledBack \<and>
     (rollback_phase (sn_global_state s) \<longrightarrow> rollback_phase (sn_global_state t)) \<and>
     list_all2 (target_step (sn_global_state s) (sn_global_state t)) (sn_targets s) (sn_targets t)"

lemma transition_state_le:
  assumes "validate_state_transition_with_limits s t limits = Ok ()"
  shows "state_le s t"
proof -
  have ok: "global_transition_allowed (sn_global_state s) (sn_global_state t)"
    and all: "list_all2 (target_progress (sn_global_state t)) (sn_targets s) (sn_targets t)"
    using assms by (simp_all add: validate_state_transition_Ok_iff)
  have phase: "sn_global_state s \<noteq> Committed" "sn_global_state s \<noteq> RolledBack"
    "rollback_phase (sn_global_state s) \<longrightarrow> rollback_phase (sn_global_state t)"
    using ok by (auto simp: global_transition_allowed_def rollback_phase_def split: GlobalState.splits)
  have "target_step (sn_global_state s) (sn_global_state t) b a"
    if "target_progress (sn_global_state t) b a" for b a
    using that phase(3) by (auto simp: target_progress_def target_le_def target_step_def)
  from list_all2_mono[OF all this] phase show ?thesis
    by (simp add: state_le_def)
qed

lemma target_step_trans:
  "target_step g h a b \<Longrightarrow> target_step h k b c \<Longrightarrow> (rollback_phase g \<longrightarrow> rollback_phase h) \<Longrightarrow>
     (rollback_phase h \<longrightarrow> rollback_phase k) \<Longrightarrow> target_step g k a c"
  by (auto simp: target_step_def target_le_def)

lemma state_le_trans:
  assumes "state_le r s" "state_le s t"
  shows "state_le r t"
proof -
  have "list_all2 (target_step (sn_global_state r) (sn_global_state t)) (sn_targets r) (sn_targets t)"
  proof (rule list_all2_trans)
    show "list_all2 (target_step (sn_global_state r) (sn_global_state s)) (sn_targets r) (sn_targets s)"
      "list_all2 (target_step (sn_global_state s) (sn_global_state t)) (sn_targets s) (sn_targets t)"
      using assms by (simp_all add: state_le_def)
  next
    fix a b c
    assume "target_step (sn_global_state r) (sn_global_state s) a b"
      "target_step (sn_global_state s) (sn_global_state t) b c"
    then show "target_step (sn_global_state r) (sn_global_state t) a c"
      by (rule target_step_trans) (use assms in \<open>simp_all add: state_le_def\<close>)
  qed
  with assms show ?thesis by (simp add: state_le_def)
qed

lemma history_state_le:
  assumes "journal_history H codec j hist" "i < k" "k < length hist"
  shows "state_le (hist ! i) (hist ! k)"
  using assms(2,3)
proof (induction k)
  case (Suc k)
  have step: "state_le (hist ! k) (hist ! Suc k)"
    using assms(1) Suc.prems by (auto simp: journal_history_def intro: transition_state_le)
  show ?case
  proof (cases "i = k")
    case False
    with Suc have "state_le (hist ! i) (hist ! k)" by simp
    from state_le_trans[OF this step] show ?thesis .
  qed (use step in simp)
qed simp

lemma history_length:
  assumes "journal_history H codec j hist" "digest32 H"
  shows "length hist \<le> tl_state_records (tj_limits j)"
proof (cases "hist = []")
  case False
  then have "sn_sequence (last hist) = length hist - 1"
    "\<exists>bs. encode_state_record_with_limits H codec (last hist) (tj_limits j) = Ok bs"
    using assms(1) by (simp_all add: journal_history_def last_conv_nth)
  with encoded_state_bounds(3)[OF _ assms(2)] validate_state_shape_Ok(1) False show ?thesis
    by fastforce
qed simp

lemma encode_decode_record:
  assumes "digest32 H" "codec_roundtrip codec" "length magic \<le> 100"
    and "encode_record H codec magic v limits = Ok bs"
  shows "decode_record H codec bs magic i limits = Ok \<lparr>dr_payload = v, dr_checksum = drop (length bs - 32) bs\<rparr>"
proof -
  obtain payload where p: "to_vec codec v = Some payload"
    "length magic + 44 + length payload \<le> u64_max"
    "length magic + 44 + length payload \<le> tl_record_bytes limits"
    "bs = envelope magic payload @ H (envelope magic payload)"
    using assms(4) unfolding encode_record_Ok_iff[OF assms(3)] by (elim exE conjE)
  obtain rest where rest: "deserialize codec payload = Some (v, rest)" "at_end codec rest"
    using assms(2) p(1) unfolding codec_roundtrip_def by blast
  have len: "length bs = length magic + 44 + length payload"
    using p(4) assms(1) by (simp add: digest32_def)
  have sum: "drop (length bs - 32) bs = H (envelope magic payload)"
    using len by (simp add: p(4))
  have u: "length bs \<le> u64_max" "length bs \<le> tl_record_bytes limits" using len p(2,3) by simp_all
  show ?thesis
    unfolding decode_record_Ok_iff[OF assms(1) u(1) assms(3)]
    using rest sum by (intro exI[of _ payload] exI[of _ rest] conjI p(4) u(2)) simp_all
qed

section \<open>Properties\<close>

text \<open>
  a byte string is accepted as a record of a given kind exactly when it is the
  kind's magic, version 1, the exact payload length, a payload that deserializes with nothing
  left over, and the checksum of everything before it, within the record limit; so a
  truncated, extended or altered record is never accepted under its old checksum.
\<close>

theorem record_accepted_iff_exact_envelope:
  assumes "digest32 H" "length bs \<le> u64_max" "magic = STATE_MAGIC \<or> magic = MANIFEST_MAGIC"
  shows "decode_record H codec bs magic i limits = Ok d \<longleftrightarrow>
    (\<exists>payload rest. bs = envelope magic payload @ H (envelope magic payload) \<and>
      length bs \<le> tl_record_bytes limits \<and>
      deserialize codec payload = Some (dr_payload d, rest) \<and> at_end codec rest \<and>
      dr_checksum d = H (envelope magic payload))"
  using assms by (intro decode_record_Ok_iff) auto

text \<open>
  C8: a state record or manifest record that the encoder returns is decoded back to the
  same value under the same limits, with the checksum that the journal stores for it.
\<close>

theorem record_roundtrip:
  assumes "digest32 H" "codec_roundtrip scodec" "codec_roundtrip mcodec"
  shows "(encode_state_record_with_limits H scodec s limits = Ok bs \<longrightarrow>
      decode_state_record_with_checksum H scodec bs i limits =
        Ok \<lparr>dr_payload = s, dr_checksum = drop (length bs - 32) bs\<rparr>) \<and>
    (encode_manifest_record_with_limits H mcodec m limits = Ok bs' \<longrightarrow>
      decode_manifest_record_with_checksum H mcodec bs' i limits =
        Ok \<lparr>dr_payload = m, dr_checksum = drop (length bs' - 32) bs'\<rparr>)"
proof (intro conjI impI)
  show "decode_state_record_with_checksum H scodec bs i limits =
        Ok \<lparr>dr_payload = s, dr_checksum = drop (length bs - 32) bs\<rparr>"
    if "encode_state_record_with_limits H scodec s limits = Ok bs"
    using that encode_decode_record[OF assms(1,2), of STATE_MAGIC]
    by (auto simp: encode_state_record_with_limits_def decode_state_record_with_checksum_def)
  show "decode_manifest_record_with_checksum H mcodec bs' i limits =
        Ok \<lparr>dr_payload = m, dr_checksum = drop (length bs' - 32) bs'\<rparr>"
    if "encode_manifest_record_with_limits H mcodec m limits = Ok bs'"
    using that encode_decode_record[OF assms(1,3), of MANIFEST_MAGIC]
    by (auto simp: encode_manifest_record_with_limits_def decode_manifest_record_with_checksum_def)
qed


text \<open>
  C10: along the states of a journal, progress is never undone. A committed or
  rolled-back state is the last one; a rollback is never left; and for every target the
  candidate identity is kept once recorded, commit progress never regresses and is frozen
  during a rollback, and a recorded restoration is never changed.
\<close>

theorem journal_progress_is_monotone:
  assumes "reachable (journal_init H mcodec) (journal_step H codec) j" "digest32 H"
  shows "\<exists>hist. journal_history H codec j hist \<and>
    (\<forall>i k. i < k \<longrightarrow> k < length hist \<longrightarrow> state_le (hist ! i) (hist ! k))"
  using journal.invar_reachable[OF assms(1)] assms(2) history_state_le
  by (auto simp: journal_invar_def)

section \<open>A concrete journal\<close>

definition zero_digest :: "bytes \<Rightarrow> Sha256Digest" where
  "zero_digest bs = replicate 32 0"

definition sample_id :: string where
  "sample_id = replicate 32 (CHR ''0'')"

definition sample_sha :: string where
  "sample_sha = ''sha256:'' @ replicate 64 (CHR ''0'')"

definition sample_manifest :: Manifest where
  "sample_manifest = \<lparr>mf_transaction_version = 1, mf_transaction_id = sample_id,
     mf_workspace_identity = \<lparr>pi_device = 1, pi_inode = 2\<rparr>, mf_plan_sha256 = sample_sha,
     mf_inputs = [],
     mf_targets = [\<lparr>mt_target_index = 0, mt_path = ''a'',
       mt_parent_identity = \<lparr>pi_device = 1, pi_inode = 2\<rparr>, mt_original_existed = False,
       mt_original_identity = None, mt_original_sha256 = None, mt_original_length = None,
       mt_candidate_name = ''candidate-00000000'', mt_backup_name = ''backup-00000000'',
       mt_candidate_sha256 = sample_sha, mt_candidate_length = 0,
       mt_metadata_policy = NewFileMode, mt_new_file_mode = Some 420, mt_segments = []\<rparr>],
     mf_metadata_limitations = []\<rparr>"

definition sample_codec :: "'a \<Rightarrow> 'a Codec" where
  "sample_codec v = \<lparr>to_vec = (\<lambda>x. if x = v then Some [1] else None),
     deserialize = (\<lambda>bs. if bs = [1] then Some (v, []) else None), at_end = (\<lambda>rest. rest = [])\<rparr>"

lemma sample_codec_roundtrip: "codec_roundtrip (sample_codec v)"
  by (simp add: codec_roundtrip_def sample_codec_def)

lemma zero_digest32: "digest32 zero_digest"
  by (simp add: digest32_def zero_digest_def)

lemma checksum_zero: "checksum_text (replicate 32 0) = sample_sha"
  by (simp add: checksum_text_def to_prefixed_hex_def HEX_def sample_sha_def numeral_eq_Suc)

lemma sample_sha_valid: "validate_digest sample_sha i = Ok ()"
  by (simp add: validate_digest_def sample_sha_def strip_prefix_def is_lower_hex_def list_all_iff)

lemma digit_char_zero: "digit_char 0 = CHR ''0''"
  by code_simp

lemma generated_name_zero: "pad8 0 = ''00000000''"
  by (simp add: pad8_def decimal.simps digit_char_zero numeral_eq_Suc)

lemma split_a: "split_on CHR ''/'' ''a'' = [''a'']"
  by simp

lemma mode_644: "and (420 :: nat) 73 = 0"
  by simp

lemma sample_target_valid:
  "validate_target sample_manifest default_limits (None, 0) (0, hd (mf_targets sample_manifest)) =
     Ok (Some ''a'', 0)"
  by (simp add: validate_target_def sample_manifest_def Let_def validate_normalized_path_def
      eq_ignore_ascii_case_def ascii_lower_def validate_generated_name_def generated_name_zero
      sample_sha_valid sat_u64_def validate_optional_original_def add_artifact_bytes_def
      checked_add_u64_def metadata_valid_def mode_644)


lemma sample_manifest_valid: "validate_manifest sample_manifest default_limits = Ok ()"
proof -
  have one: "mf_targets sample_manifest = [hd (mf_targets sample_manifest)]"
    by (simp add: sample_manifest_def)
  have "try_fold (validate_target sample_manifest default_limits) (None, 0)
      (enumerate 0 (mf_targets sample_manifest)) = Ok (Some ''a'', 0)"
    by (subst one) (simp add: sample_target_valid)
  moreover have "validate_transaction_id (mf_transaction_id sample_manifest) = Ok ()"
    by (simp add: validate_transaction_id_def sample_manifest_def sample_id_def is_lower_hex_def list_all_iff)
  moreover have "mf_transaction_version sample_manifest = 1" "mf_plan_sha256 sample_manifest = sample_sha"
    "sat_u64 (length (mf_targets sample_manifest)) = 1" "mf_inputs sample_manifest = []"
    by (simp_all add: sample_manifest_def sat_u64_def u64_max_def)
  moreover have "1 \<le> tl_targets default_limits"
    by (simp add: default_limits_def MAX_TRANSACTION_TARGETS_def)
  ultimately show ?thesis
    by (simp add: validate_manifest_def Let_def sample_sha_valid)
qed

definition sample_state :: StateSnapshot where
  "sample_state = \<lparr>sn_transaction_version = 1, sn_sequence = 0, sn_manifest_checksum = sample_sha,
     sn_prior_state_checksum = None, sn_global_state = Preparing,
     sn_targets = [\<lparr>ts_target_index = 0,
       ts_candidate = \<lparr>cs_kind = Missing, cs_identity = None\<rparr>,
       ts_commit = \<lparr>cm_kind = Untouched, cm_identity = None, cm_preserved_mode = None\<rparr>,
       ts_rollback = \<lparr>rs_kind = NotRolledBack, rs_identity = None\<rparr>\<rparr>]\<rparr>"

lemma sample_state_shape: "validate_state_shape sample_state default_limits = Ok ()"
  by (simp add: validate_state_shape_def sample_state_def Let_def default_limits_def MAX_STATE_RECORDS_def
      sample_sha_valid sat_u64_def MAX_TRANSACTION_TARGETS_def validate_state_target_def
      validate_target_fields_def validate_global_constraints_def)

lemma sample_state_encoded:
  "encode_state_record_with_limits zero_digest (sample_codec sample_state) sample_state default_limits =
     Ok (envelope STATE_MAGIC [1] @ replicate 32 0)"
proof -
  have "encode_record zero_digest (sample_codec sample_state) STATE_MAGIC sample_state default_limits =
      Ok (envelope STATE_MAGIC [1] @ replicate 32 0)"
    by (subst encode_record_Ok_iff)
      (simp_all add: sample_codec_def default_limits_def MAX_RECORD_BYTES_def zero_digest_def u64_max_def)
  then show ?thesis
    by (simp add: encode_state_record_with_limits_def sample_state_shape)
qed

lemma sample_manifest_encoded:
  "encode_manifest_record_with_limits zero_digest (sample_codec sample_manifest) sample_manifest default_limits =
     Ok (envelope MANIFEST_MAGIC [1] @ replicate 32 0)"
proof -
  have "encode_record zero_digest (sample_codec sample_manifest) MANIFEST_MAGIC sample_manifest default_limits =
      Ok (envelope MANIFEST_MAGIC [1] @ replicate 32 0)"
    by (subst encode_record_Ok_iff)
      (simp_all add: sample_codec_def default_limits_def MAX_RECORD_BYTES_def zero_digest_def u64_max_def)
  moreover have "projected_artifact_bytes sample_manifest default_limits = Ok 0"
    by (simp add: projected_artifact_bytes_def sample_manifest_def add_artifact_bytes_def checked_add_u64_def)
  moreover have "tl_projected_disk_bytes default_limits = 3221225472"
    by (simp add: default_limits_def MAX_TRANSACTION_DISK_BYTES_def)
  ultimately show ?thesis
    by (simp add: encode_manifest_record_with_limits_def sample_manifest_valid checked_add_u64_def sat_u64_def
        u64_max_def)
qed

lemma sample_journal_exists:
  "\<exists>j. journal_init zero_digest (sample_codec sample_manifest) j \<and>
     reachable (journal_init zero_digest (sample_codec sample_manifest))
       (journal_step zero_digest (sample_codec sample_state)) j"
proof -
  have "projected_artifact_bytes sample_manifest default_limits = Ok 0"
    by (simp add: projected_artifact_bytes_def sample_manifest_def add_artifact_bytes_def checked_add_u64_def)
  then have "\<exists>j. create_with_limits zero_digest (sample_codec sample_manifest)
      \<lparr>td_transaction_id = sample_id, td_contents = Map.empty\<rparr> sample_manifest default_limits = Ok j"
    by (simp add: create_with_limits_def sample_manifest_valid sample_manifest_encoded record_checksum_def
        checked_sub_u64_def publish_record_def checked_add_u64_def sat_u64_def u64_max_def)
      (simp add: sample_manifest_def)
  then show ?thesis
    unfolding journal_init_def by (metis (mono_tags) journal_init_def reach_init)
qed

section \<open>Witnesses\<close>

theorem record_accepted_iff_exact_envelope_witness:
  "decode_record zero_digest (sample_codec sample_state) (envelope STATE_MAGIC [1] @ replicate 32 0)
     STATE_MAGIC None default_limits =
   Ok \<lparr>dr_payload = sample_state, dr_checksum = replicate 32 0\<rparr>"
  using record_accepted_iff_exact_envelope[OF zero_digest32,
      of "envelope STATE_MAGIC [1] @ replicate 32 0" STATE_MAGIC "sample_codec sample_state" None
        default_limits "\<lparr>dr_payload = sample_state, dr_checksum = replicate 32 0\<rparr>"]
  by (simp add: u64_max_def zero_digest_def sample_codec_def default_limits_def MAX_RECORD_BYTES_def)

theorem record_roundtrip_witness:
  "decode_state_record_with_checksum zero_digest (sample_codec sample_state)
     (envelope STATE_MAGIC [1] @ replicate 32 0) None default_limits =
   Ok \<lparr>dr_payload = sample_state, dr_checksum = replicate 32 0\<rparr>"
  using record_roundtrip[OF zero_digest32 sample_codec_roundtrip sample_codec_roundtrip,
      THEN conjunct1, THEN mp, OF sample_state_encoded, of None]
  by simp


theorem journal_progress_is_monotone_witness:
  "\<exists>j hist. journal_history zero_digest (sample_codec sample_state) j hist \<and>
     (\<forall>i k. i < k \<longrightarrow> k < length hist \<longrightarrow> state_le (hist ! i) (hist ! k))"
  using sample_journal_exists journal_progress_is_monotone[OF _ zero_digest32] by blast

end
