(* ===== verification/Recovery_Classifier.thy ===== *)
theory Recovery_Classifier
  imports Journal
begin

text \<open>
  Pure recovery classification (\<open>crates/srcmv-fs/src/recovery_classifier.rs\<close>): what a target, its
  candidate and its backup are observed to hold, against the last recorded state, decides
  which recovery actions are safe. The abstract commit and rollback protocol of one target is
  stated as a step relation, and every state it can be interrupted in is shown to be accepted.
\<close>

section \<open>Data\<close>

datatype LocationObservation = Original | Candidate | Absent | Unexpected

record SyntheticTargetObservation =
  ob_parent_matches :: bool
  ob_target :: LocationObservation
  ob_candidate :: LocationObservation
  ob_backup :: LocationObservation

record RecoveryDisposition =
  rd_complete :: bool
  rd_rollback :: bool
  rd_cleanup_only :: bool

definition completion_and_rollback :: RecoveryDisposition where
  "completion_and_rollback = \<lparr>rd_complete = True, rd_rollback = True, rd_cleanup_only = False\<rparr>"

definition rollback_only :: RecoveryDisposition where
  "rollback_only = \<lparr>rd_complete = False, rd_rollback = True, rd_cleanup_only = False\<rparr>"

definition cleanup_only :: RecoveryDisposition where
  "cleanup_only = \<lparr>rd_complete = False, rd_rollback = False, rd_cleanup_only = True\<rparr>"

section \<open>Classification\<close>

definition recovery_conflict :: "string \<Rightarrow> FsError" where
  "recovery_conflict reason = RecoveryConflict reason"

definition initial_target :: "bool \<Rightarrow> LocationObservation" where
  "initial_target original_existed = (if original_existed then Original else Absent)"

definition classify_restored_original ::
    "SyntheticTargetObservation \<Rightarrow> RecoveryDisposition \<Rightarrow> FsError + RecoveryDisposition" where
  "classify_restored_original observed disposition =
     (if ob_target observed = Original \<and> ob_candidate observed = Absent \<and> ob_backup observed = Absent
      then Ok disposition
      else Err (recovery_conflict ''restored_original_observation_invalid''))"

definition classify_restored_absence ::
    "SyntheticTargetObservation \<Rightarrow> RecoveryDisposition \<Rightarrow> FsError + RecoveryDisposition" where
  "classify_restored_absence observed disposition =
     (if ob_target observed = Absent \<and> ob_candidate observed = Absent \<and> ob_backup observed = Absent
      then Ok disposition
      else Err (recovery_conflict ''restored_absence_observation_invalid''))"

definition classify_preparing ::
    "bool \<Rightarrow> SyntheticTargetObservation \<Rightarrow> FsError + RecoveryDisposition" where
  "classify_preparing original_existed observed =
     (if ob_target observed = initial_target original_existed \<and>
         ob_candidate observed \<in> {Absent, Candidate} \<and> ob_backup observed = Absent
      then Ok rollback_only
      else Err (recovery_conflict ''preparing_observation_invalid''))"

definition classify_prepared ::
    "bool \<Rightarrow> SyntheticTargetObservation \<Rightarrow> FsError + RecoveryDisposition" where
  "classify_prepared original_existed observed =
     (if ob_target observed = initial_target original_existed \<and>
         ob_candidate observed = Candidate \<and> ob_backup observed = Absent
      then Ok completion_and_rollback
      else Err (recovery_conflict ''prepared_observation_invalid''))"

definition committing_valid :: "bool \<Rightarrow> CommitKind \<Rightarrow> SyntheticTargetObservation \<Rightarrow> bool" where
  "committing_valid original_existed kind observed =
     (let places = (ob_target observed, ob_candidate observed, ob_backup observed) in
      case (original_existed, kind) of
        (True, Untouched) \<Rightarrow> places \<in> {(Original, Candidate, Absent), (Absent, Candidate, Original),
          (Candidate, Absent, Original)}
      | (False, Untouched) \<Rightarrow> places \<in> {(Absent, Candidate, Absent), (Candidate, Absent, Absent)}
      | (True, BackedUp) \<Rightarrow> places \<in> {(Absent, Candidate, Original), (Candidate, Absent, Original)}
      | (False, BackedUp) \<Rightarrow> False
      | (True, Installed) \<Rightarrow> places = (Candidate, Absent, Original)
      | (False, Installed) \<Rightarrow> places = (Candidate, Absent, Absent))"

definition classify_committing ::
    "bool \<Rightarrow> TargetState \<Rightarrow> SyntheticTargetObservation \<Rightarrow> FsError + RecoveryDisposition" where
  "classify_committing original_existed recorded observed =
     (if committing_valid original_existed (cm_kind (ts_commit recorded)) observed
      then Ok completion_and_rollback
      else Err (recovery_conflict ''committing_observation_invalid''))"

definition classify_committed ::
    "bool \<Rightarrow> SyntheticTargetObservation \<Rightarrow> FsError + RecoveryDisposition" where
  "classify_committed original_existed observed =
     (let backup = (if original_existed then Original else Absent) in
      if ob_target observed = Candidate \<and> ob_candidate observed = Absent \<and> ob_backup observed = backup
      then Ok cleanup_only
      else Err (recovery_conflict ''committed_observation_invalid''))"

definition rolling_back_valid :: "bool \<Rightarrow> SyntheticTargetObservation \<Rightarrow> bool" where
  "rolling_back_valid original_existed observed =
     (let places = (ob_target observed, ob_candidate observed, ob_backup observed) in
      if original_existed
      then places \<in> {(Original, Absent, Absent), (Original, Candidate, Absent),
        (Absent, Absent, Original), (Absent, Candidate, Original), (Candidate, Absent, Original)}
      else places \<in> {(Absent, Absent, Absent), (Absent, Candidate, Absent), (Candidate, Absent, Absent)})"

definition classify_rolling_back ::
    "bool \<Rightarrow> TargetState \<Rightarrow> SyntheticTargetObservation \<Rightarrow> FsError + RecoveryDisposition" where
  "classify_rolling_back original_existed recorded observed =
     (case (rs_kind (ts_rollback recorded), original_existed) of
        (OriginalRestored, True) \<Rightarrow> classify_restored_original observed rollback_only
      | (AbsenceRestored, False) \<Rightarrow> classify_restored_absence observed rollback_only
      | (NotRolledBack, _) \<Rightarrow>
          if rolling_back_valid original_existed observed then Ok rollback_only
          else Err (recovery_conflict ''rolling_back_observation_invalid'')
      | _ \<Rightarrow> Err (recovery_conflict ''rolling_back_record_invalid''))"

definition classify_rolled_back ::
    "bool \<Rightarrow> TargetState \<Rightarrow> SyntheticTargetObservation \<Rightarrow> FsError + RecoveryDisposition" where
  "classify_rolled_back original_existed recorded observed =
     (case (rs_kind (ts_rollback recorded), original_existed) of
        (OriginalRestored, True) \<Rightarrow> classify_restored_original observed cleanup_only
      | (AbsenceRestored, False) \<Rightarrow> classify_restored_absence observed cleanup_only
      | _ \<Rightarrow> Err (recovery_conflict ''rolled_back_record_invalid''))"

definition classify_recovery ::
    "GlobalState \<Rightarrow> bool \<Rightarrow> TargetState \<Rightarrow> SyntheticTargetObservation \<Rightarrow> FsError + RecoveryDisposition" where
  "classify_recovery global original_existed recorded observed =
     (if \<not> ob_parent_matches observed \<or>
         Unexpected \<in> {ob_target observed, ob_candidate observed, ob_backup observed}
      then Err (recovery_conflict ''unexpected_location_or_parent'')
      else case global of
             Preparing \<Rightarrow> classify_preparing original_existed observed
           | Prepared \<Rightarrow> classify_prepared original_existed observed
           | Committing \<Rightarrow> classify_committing original_existed recorded observed
           | Committed \<Rightarrow> classify_committed original_existed observed
           | RollingBack \<Rightarrow> classify_rolling_back original_existed recorded observed
           | RolledBack \<Rightarrow> classify_rolled_back original_existed recorded observed)"

section \<open>The protocol of one target\<close>

text \<open>
  What the transaction engine does to one target: the phase, the recorded progress, and what
  each of the three locations holds. A transaction can be interrupted after any step.
\<close>

record Protocol =
  pr_global :: GlobalState
  pr_commit :: CommitKind
  pr_rollback :: RollbackKind
  pr_target :: LocationObservation
  pr_candidate :: LocationObservation
  pr_backup :: LocationObservation

definition protocol_init :: "bool \<Rightarrow> Protocol \<Rightarrow> bool" where
  "protocol_init existed p \<longleftrightarrow> p = \<lparr>pr_global = Preparing, pr_commit = Untouched, pr_rollback = NotRolledBack,
     pr_target = initial_target existed, pr_candidate = Absent, pr_backup = Absent\<rparr>"

inductive protocol_step :: "bool \<Rightarrow> Protocol \<Rightarrow> Protocol \<Rightarrow> bool" for existed where
  stage: "pr_global p = Preparing \<Longrightarrow> pr_candidate p = Absent
    \<Longrightarrow> protocol_step existed p (p\<lparr>pr_candidate := Candidate\<rparr>)"
| enter_prepared: "pr_global p = Preparing \<Longrightarrow> pr_candidate p = Candidate
    \<Longrightarrow> protocol_step existed p (p\<lparr>pr_global := Prepared\<rparr>)"
| enter_committing: "pr_global p = Prepared \<Longrightarrow> protocol_step existed p (p\<lparr>pr_global := Committing\<rparr>)"
| back_up: "existed \<Longrightarrow> pr_global p = Committing \<Longrightarrow> pr_commit p = Untouched \<Longrightarrow> pr_target p = Original
    \<Longrightarrow> protocol_step existed p (p\<lparr>pr_target := Absent, pr_backup := Original\<rparr>)"
| record_backup: "existed \<Longrightarrow> pr_global p = Committing \<Longrightarrow> pr_commit p = Untouched \<Longrightarrow> pr_target p = Absent
    \<Longrightarrow> pr_backup p = Original \<Longrightarrow> protocol_step existed p (p\<lparr>pr_commit := BackedUp\<rparr>)"
| install: "pr_global p = Committing \<Longrightarrow> pr_commit p = (if existed then BackedUp else Untouched)
    \<Longrightarrow> pr_target p = Absent \<Longrightarrow> pr_candidate p = Candidate
    \<Longrightarrow> protocol_step existed p (p\<lparr>pr_target := Candidate, pr_candidate := Absent\<rparr>)"
| record_install: "pr_global p = Committing \<Longrightarrow> pr_target p = Candidate
    \<Longrightarrow> protocol_step existed p (p\<lparr>pr_commit := Installed\<rparr>)"
| enter_committed: "pr_global p = Committing \<Longrightarrow> pr_commit p = Installed
    \<Longrightarrow> protocol_step existed p (p\<lparr>pr_global := Committed\<rparr>)"
| enter_rollback: "pr_global p \<in> {Preparing, Prepared, Committing}
    \<Longrightarrow> protocol_step existed p (p\<lparr>pr_global := RollingBack\<rparr>)"
| remove_installed: "pr_global p = RollingBack \<Longrightarrow> pr_target p = Candidate
    \<Longrightarrow> protocol_step existed p (p\<lparr>pr_target := Absent\<rparr>)"
| restore: "existed \<Longrightarrow> pr_global p = RollingBack \<Longrightarrow> pr_target p = Absent \<Longrightarrow> pr_backup p = Original
    \<Longrightarrow> protocol_step existed p (p\<lparr>pr_target := Original, pr_backup := Absent\<rparr>)"
| discard: "pr_global p = RollingBack \<Longrightarrow> pr_target p = initial_target existed \<Longrightarrow> pr_backup p = Absent
    \<Longrightarrow> protocol_step existed p (p\<lparr>pr_candidate := Absent\<rparr>)"
| record_restored: "pr_global p = RollingBack \<Longrightarrow> pr_rollback p = NotRolledBack
    \<Longrightarrow> pr_target p = initial_target existed \<Longrightarrow> pr_candidate p = Absent \<Longrightarrow> pr_backup p = Absent
    \<Longrightarrow> protocol_step existed p (p\<lparr>pr_rollback := (if existed then OriginalRestored else AbsenceRestored)\<rparr>)"
| enter_rolled_back: "pr_global p = RollingBack \<Longrightarrow> pr_rollback p \<noteq> NotRolledBack
    \<Longrightarrow> protocol_step existed p (p\<lparr>pr_global := RolledBack\<rparr>)"

inductive_cases protocol_stepE: "protocol_step existed p q"

text \<open>What the classifier sees of a protocol state, and what it should answer.\<close>

definition observe_protocol :: "Protocol \<Rightarrow> SyntheticTargetObservation" where
  "observe_protocol p = \<lparr>ob_parent_matches = True, ob_target = pr_target p,
     ob_candidate = pr_candidate p, ob_backup = pr_backup p\<rparr>"

fun disposition_of :: "GlobalState \<Rightarrow> RecoveryDisposition" where
  "disposition_of Preparing = rollback_only"
| "disposition_of Prepared = completion_and_rollback"
| "disposition_of Committing = completion_and_rollback"
| "disposition_of Committed = cleanup_only"
| "disposition_of RollingBack = rollback_only"
| "disposition_of RolledBack = cleanup_only"

text \<open>The states in which an execution can be interrupted, as a table.\<close>

definition protocol_invar :: "bool \<Rightarrow> Protocol \<Rightarrow> bool" where
  "protocol_invar existed p =
     (let places = (pr_target p, pr_candidate p, pr_backup p);
          backup = (if existed then Original else Absent);
          restored = (if existed then OriginalRestored else AbsenceRestored) in
      case pr_global p of
        Preparing \<Rightarrow> pr_commit p = Untouched \<and> pr_rollback p = NotRolledBack \<and>
          places \<in> {(initial_target existed, Absent, Absent), (initial_target existed, Candidate, Absent)}
      | Prepared \<Rightarrow> pr_commit p = Untouched \<and> pr_rollback p = NotRolledBack \<and>
          places = (initial_target existed, Candidate, Absent)
      | Committing \<Rightarrow> pr_rollback p = NotRolledBack \<and>
          (pr_commit p, places) \<in> {(Untouched, initial_target existed, Candidate, Absent),
            (Untouched, Absent, Candidate, backup),
            (if existed then BackedUp else Untouched, Absent, Candidate, backup),
            (if existed then BackedUp else Untouched, Candidate, Absent, backup),
            (Installed, Candidate, Absent, backup)}
      | Committed \<Rightarrow> places = (Candidate, Absent, backup)
      | RollingBack \<Rightarrow>
          pr_rollback p = restored \<and> places = (initial_target existed, Absent, Absent) \<or>
          pr_rollback p = NotRolledBack \<and>
            places \<in> {(initial_target existed, Absent, Absent), (initial_target existed, Candidate, Absent),
              (Absent, Absent, backup), (Absent, Candidate, backup), (Candidate, Absent, backup)}
      | RolledBack \<Rightarrow> pr_rollback p = restored \<and> places = (initial_target existed, Absent, Absent))"

lemma initial_target_simps [simp]: "initial_target True = Original" "initial_target False = Absent"
  by (simp_all add: initial_target_def)

lemma protocol_step_invar:
  assumes step: "protocol_step existed p q" and inv: "protocol_invar existed p"
  shows "protocol_invar existed q"
proof -
  obtain g k r t c b where p: "p = \<lparr>pr_global = g, pr_commit = k, pr_rollback = r, pr_target = t,
      pr_candidate = c, pr_backup = b\<rparr>"
    by (cases p)
  show ?thesis
  proof (cases existed)
    case True
    from step inv show ?thesis
      using True unfolding p
      by (cases; simp add: protocol_invar_def Let_def; (elim disjE conjE)?; simp; elim conjE disjE; simp)
  next
    case False
    from step inv show ?thesis
      using False unfolding p
      by (cases; simp add: protocol_invar_def Let_def; (elim disjE conjE)?; simp; elim conjE disjE; simp)
  qed
qed

interpretation protocol: invariant_system "protocol_init existed" "protocol_step existed" "protocol_invar existed" for existed
proof
  show "protocol_invar existed p" if "protocol_init existed p" for p
    using that by (cases existed) (simp_all add: protocol_init_def protocol_invar_def)
  show "protocol_invar existed q" if "protocol_invar existed p" "protocol_step existed p q" for p q
    by (rule protocol_step_invar[OF that(2,1)])
qed

lemmas classifier_defs =
  classify_recovery_def classify_preparing_def classify_prepared_def classify_committing_def
  committing_valid_def classify_committed_def classify_rolling_back_def rolling_back_valid_def
  classify_rolled_back_def classify_restored_original_def classify_restored_absence_def
  Let_def

lemma protocol_invar_accepted:
  assumes "protocol_invar existed p" "cm_kind (ts_commit recorded) = pr_commit p"
    and "rs_kind (ts_rollback recorded) = pr_rollback p"
  shows "classify_recovery (pr_global p) existed recorded (observe_protocol p) = Ok (disposition_of (pr_global p))"
proof (cases p)
  case (fields g k r t c b)
  show ?thesis
    using assms unfolding fields
    by (cases g; cases existed; simp add: protocol_invar_def Let_def; (elim disjE conjE)?;
        simp add: observe_protocol_def classifier_defs)
qed

lemma classify_recovery_Ok:
  assumes "classify_recovery global existed recorded observed = Ok d"
  shows "d = disposition_of global \<and> ob_parent_matches observed \<and>
    (existed \<longrightarrow> (ob_target observed = Original \<and> ob_backup observed = Absent) \<or>
            (ob_target observed \<noteq> Original \<and> ob_backup observed = Original)) \<and>
    (\<not> existed \<longrightarrow> ob_target observed \<noteq> Original \<and> ob_backup observed = Absent) \<and>
    (rd_complete d \<longrightarrow> (ob_target observed = Candidate) \<noteq> (ob_candidate observed = Candidate))"
  using assms
  by (cases global; cases existed)
    (auto simp: classifier_defs rollback_only_def cleanup_only_def completion_and_rollback_def
      split: if_splits RollbackKind.splits CommitKind.splits)

section \<open>Properties\<close>



text \<open>
  an action is only ever offered when the original is accounted for. If the
  target existed, its original is at the target or in the backup and not in both; if it did
  not, neither holds an original; completion is offered only when exactly one of the target
  and the candidate location holds the candidate; the parent is the recorded one; and the
  offered actions depend on the recorded phase alone.
\<close>

theorem recovery_requires_the_original:
  assumes "classify_recovery global existed recorded observed = Ok d"
  shows "d = disposition_of global \<and> ob_parent_matches observed \<and>
    (existed \<longrightarrow> (ob_target observed = Original) \<noteq> (ob_backup observed = Original)) \<and>
    (\<not> existed \<longrightarrow> ob_target observed \<noteq> Original \<and> ob_backup observed = Absent) \<and>
    (rd_complete d \<longrightarrow> (ob_target observed = Candidate) \<noteq> (ob_candidate observed = Candidate))"
  using classify_recovery_Ok[OF assms] by auto

theorem recovery_requires_the_original_witness:
  "classify_recovery Prepared True
       \<lparr>ts_target_index = 0, ts_candidate = \<lparr>cs_kind = Ready, cs_identity = None\<rparr>,
        ts_commit = \<lparr>cm_kind = Untouched, cm_identity = None, cm_preserved_mode = None\<rparr>,
        ts_rollback = \<lparr>rs_kind = NotRolledBack, rs_identity = None\<rparr>\<rparr>
       \<lparr>ob_parent_matches = True, ob_target = Original, ob_candidate = Candidate, ob_backup = Absent\<rparr> =
     Ok completion_and_rollback \<and> rd_complete completion_and_rollback"
proof -
  let ?r = "\<lparr>ts_target_index = 0, ts_candidate = \<lparr>cs_kind = Ready, cs_identity = None\<rparr>,
        ts_commit = \<lparr>cm_kind = Untouched, cm_identity = None, cm_preserved_mode = None\<rparr>,
        ts_rollback = \<lparr>rs_kind = NotRolledBack, rs_identity = None\<rparr>\<rparr>"
  let ?o = "\<lparr>ob_parent_matches = True, ob_target = Original, ob_candidate = Candidate, ob_backup = Absent\<rparr>"
  have "\<exists>d. classify_recovery Prepared True ?r ?o = Ok d"
    by (simp add: classify_recovery_def classify_prepared_def initial_target_def)
  then show ?thesis
    using recovery_requires_the_original[of Prepared True ?r ?o]
    by (auto simp: completion_and_rollback_def)
qed

end
