(* ===== verification/Snapshot.thy ===== *)
theory Snapshot
  imports Planner Journal
begin

text \<open>
  Snapshot acquisition (\<open>crates/srcmv-fs/src/lib.rs\<close>): path normalization, the walk that refuses
  symbolic links, the bounded stable read with its three attempts, alias detection and the
  resource accounting. What the operating system answers is a parameter: for every path and
  attempt a \<open>PathView\<close> gives the result of each system call the attempt makes, so that a file
  may change in any way between two calls.
\<close>

section \<open>Limits and requests\<close>

definition MAX_SNAPSHOT_FILE_BYTES :: nat where "MAX_SNAPSHOT_FILE_BYTES = 256 * 1024 * 1024"
definition MAX_TOTAL_SNAPSHOT_BYTES :: nat where "MAX_TOTAL_SNAPSHOT_BYTES = 1024 * 1024 * 1024"
definition MAX_TOTAL_LINE_COUNT :: nat where "MAX_TOTAL_LINE_COUNT = 5000000"
definition MAX_LINE_INDEX_MEMORY :: nat where "MAX_LINE_INDEX_MEMORY = 256 * 1024 * 1024"
definition MAX_SNAPSHOT_IDENTITIES :: nat where "MAX_SNAPSHOT_IDENTITIES = 1000"
definition MAX_PATH_BYTES :: nat where "MAX_PATH_BYTES = 4096"
definition MAX_ACQUISITION_ATTEMPTS :: nat where "MAX_ACQUISITION_ATTEMPTS = 3"

record SnapshotLimits =
  sl_path_bytes :: nat
  sl_identities :: nat
  sl_file_bytes :: nat
  sl_total_bytes :: nat
  sl_total_lines :: nat
  sl_line_index_memory :: nat

definition default_snapshot_limits :: SnapshotLimits where
  "default_snapshot_limits = \<lparr>sl_path_bytes = MAX_PATH_BYTES, sl_identities = MAX_SNAPSHOT_IDENTITIES,
     sl_file_bytes = MAX_SNAPSHOT_FILE_BYTES, sl_total_bytes = MAX_TOTAL_SNAPSHOT_BYTES,
     sl_total_lines = MAX_TOTAL_LINE_COUNT, sl_line_index_memory = MAX_LINE_INDEX_MEMORY\<rparr>"

datatype RequiredPathState = ExistingState Sha256Digest | AbsentState

record SnapshotRequirement =
  sr_path :: WorkspaceRelativePath
  sr_state :: RequiredPathState

datatype InspectedState =
    InspectedExisting (ix_digest: Sha256Digest) (ix_byte_length: nat) (ix_line_count: nat) (ix_identity_hash: Sha256Digest)
  | InspectedAbsent

record PathInspection =
  in_path :: WorkspaceRelativePath
  in_state :: InspectedState

record Workspace =
  wk_canonical_root :: "string list"
  wk_identity :: FileIdentity

section \<open>What the operating system answers\<close>

datatype FileType = RegularType | DirectoryType | SymlinkType | SpecialType

record Metadata =
  md_file_type :: FileType
  md_identity :: FileIdentity
  md_len :: nat
  md_mtime :: int
  md_mtime_nsec :: int
  md_ctime :: int
  md_ctime_nsec :: int
  md_nlink :: nat
  md_mode :: nat

text \<open>
  The answers during one attempt on one path: \<open>symlink_metadata\<close> during the walk; \<open>open\<close>;
  \<open>metadata\<close> of the open file; the result of the \<open>k\<close>-th \<open>read\<close> for a buffer of a given size;
  \<open>metadata\<close> of the open file again; \<open>symlink_metadata\<close> of the entry and of its parent.
\<close>

record PathView =
  pv_symlink_metadata :: "string list \<Rightarrow> ErrorKind + Metadata"
  pv_open :: "ErrorKind + unit"
  pv_metadata_before :: "ErrorKind + Metadata"
  pv_read :: "nat \<Rightarrow> nat \<Rightarrow> ErrorKind + bytes"
  pv_metadata_after :: "ErrorKind + Metadata"
  pv_entry_after :: "ErrorKind + Metadata"
  pv_parent_after :: "ErrorKind + Metadata"

type_synonym Os = "string \<Rightarrow> nat \<Rightarrow> PathView"

section \<open>Auxiliary operations\<close>

definition fs_checked_add :: "nat \<Rightarrow> nat \<Rightarrow> string \<Rightarrow> FsError + nat" where
  "fs_checked_add left right resource =
     ok_or (checked_add_u64 left right) (FsResourceLimitExceeded resource u64_max (u64_max - 1))"

definition fs_enforce_limit :: "string \<Rightarrow> nat \<Rightarrow> nat \<Rightarrow> FsError + unit" where
  "fs_enforce_limit resource actual limit =
     (if limit < actual then Err (FsResourceLimitExceeded resource actual limit) else Ok ())"

definition invalid_path :: "WorkspaceRelativePath \<Rightarrow> string \<Rightarrow> FsError" where
  "invalid_path path reason = InvalidPath (path_value path) reason"

definition io_error :: "string \<Rightarrow> string option \<Rightarrow> ErrorKind \<Rightarrow> FsError" where
  "io_error operation path kind = Io operation path kind"

definition hash_identity :: "(bytes \<Rightarrow> Sha256Digest) \<Rightarrow> FileIdentity \<Rightarrow> Sha256Digest" where
  "hash_identity H identity =
     H (as_bytes ''srcmv-physical-identity-v1'' @ [0] @ be_bytes 8 (fi_device identity) @
        be_bytes 8 (fi_inode identity))"

record MetadataSignature =
  sg_identity :: FileIdentity
  sg_length :: nat
  sg_modified_seconds :: int
  sg_modified_nanoseconds :: int
  sg_changed_seconds :: int
  sg_changed_nanoseconds :: int
  sg_links :: nat

definition signature :: "Metadata \<Rightarrow> MetadataSignature" where
  "signature m = \<lparr>sg_identity = md_identity m, sg_length = md_len m,
     sg_modified_seconds = md_mtime m, sg_modified_nanoseconds = md_mtime_nsec m,
     sg_changed_seconds = md_ctime m, sg_changed_nanoseconds = md_ctime_nsec m,
     sg_links = md_nlink m\<rparr>"

definition parse_relative_path :: "string \<Rightarrow> nat \<Rightarrow> FsError + WorkspaceRelativePath" where
  "parse_relative_path v limit =
     (let components = split_on CHR ''/'' v in
      and_then (fs_enforce_limit ''path_bytes'' (sat_u64 (length v)) limit) (\<lambda>_.
      and_then (ensure (v \<noteq> []) (InvalidPath v ''path_empty'')) (\<lambda>_.
      and_then (ensure (CHR 0x00 \<notin> set v) (InvalidPath v ''path_contains_nul'')) (\<lambda>_.
      and_then (ensure (take 1 v \<noteq> ''/'') (InvalidPath v ''path_absolute'')) (\<lambda>_.
      and_then (ensure ([] \<notin> set components) (InvalidPath v ''path_empty_component'')) (\<lambda>_.
      and_then (ensure (''.'' \<notin> set components) (InvalidPath v ''path_current_component'')) (\<lambda>_.
      and_then (ensure (''..'' \<notin> set components) (InvalidPath v ''path_parent_component'')) (\<lambda>_.
      and_then (ensure (\<not> eq_ignore_ascii_case (hd components) ''.srcmv'')
        (InvalidPath v ''reserved_path'')) (\<lambda>_.
      Ok (WorkspaceRelativePath v))))))))))"

subsection \<open>Accounting\<close>

record SnapshotAccounting =
  sa_identities :: nat
  sa_bytes :: nat
  sa_lines :: nat
  sa_index_memory :: nat

definition default_accounting :: SnapshotAccounting where
  "default_accounting = \<lparr>sa_identities = 0, sa_bytes = 0, sa_lines = 0, sa_index_memory = 0\<rparr>"

definition charge_identity :: "SnapshotAccounting \<Rightarrow> SnapshotLimits \<Rightarrow> FsError + SnapshotAccounting" where
  "charge_identity a limits =
     and_then (fs_checked_add (sa_identities a) 1 ''snapshot_identities'') (\<lambda>n.
     and_then (fs_enforce_limit ''snapshot_identities'' n (sl_identities limits)) (\<lambda>_.
     Ok (a\<lparr>sa_identities := n\<rparr>)))"

definition charge_file ::
    "SnapshotAccounting \<Rightarrow> FileSnapshot \<Rightarrow> SnapshotLimits \<Rightarrow> FsError + SnapshotAccounting" where
  "charge_file a f limits =
     and_then (fs_checked_add (sa_bytes a) (sat_u64 (length (fs_bytes f))) ''snapshot_bytes'') (\<lambda>b.
     and_then (fs_enforce_limit ''snapshot_bytes'' b (sl_total_bytes limits)) (\<lambda>_.
     and_then (fs_checked_add (sa_lines a) (index_line_count (fs_line_index f)) ''line_count'') (\<lambda>l.
     and_then (fs_enforce_limit ''line_count'' l (sl_total_lines limits)) (\<lambda>_.
     and_then (fs_checked_add (sa_index_memory a) (memory_bytes (fs_line_index f))
       ''line_index_memory'') (\<lambda>m.
     and_then (fs_enforce_limit ''line_index_memory'' m (sl_line_index_memory limits)) (\<lambda>_.
     Ok (a\<lparr>sa_bytes := b, sa_lines := l, sa_index_memory := m\<rparr>)))))))"

definition reject_alias ::
    "(FileIdentity \<rightharpoonup> string) \<Rightarrow> FileIdentity \<Rightarrow> WorkspaceRelativePath \<Rightarrow> FsError + (FileIdentity \<rightharpoonup> string)" where
  "reject_alias aliases identity path =
     (case aliases identity of
        Some first_path \<Rightarrow>
          if first_path \<noteq> path_value path then Err (FileAlias first_path (path_value path)) else Ok aliases
      | None \<Rightarrow> Ok (aliases(identity \<mapsto> path_value path)))"

definition map_index_error :: "CoreError \<Rightarrow> SnapshotAccounting \<Rightarrow> FsError" where
  "map_index_error error a =
     (case error of
        ResourceLimitExceeded resource actual limit \<Rightarrow>
          let prior = (if resource = ''line_count'' then sa_lines a
                       else if resource = ''line_index_memory'' then sa_index_memory a else 0)
          in FsResourceLimitExceeded resource (saturating_add_u64 prior actual) (saturating_add_u64 prior limit)
      | other \<Rightarrow> Core other)"

section \<open>The path walk\<close>

datatype ValidatedKind = ValidatedExisting FileIdentity | ValidatedAbsent

record ValidatedPath =
  vp_full_path :: "string list"
  vp_parent_path :: "string list"
  vp_parent_identity :: FileIdentity
  vp_parent_identities :: "FileIdentity list"
  vp_basename :: string
  vp_kind :: ValidatedKind

definition walk_component ::
    "PathView \<Rightarrow> WorkspaceRelativePath \<Rightarrow> string list \<times> FileIdentity list \<Rightarrow> string
      \<Rightarrow> FsError + (string list \<times> FileIdentity list)" where
  "walk_component view path st component =
     (case st of (current, parent_identities) \<Rightarrow>
      let current = current @ [component] in
      case pv_symlink_metadata view current of
        Err NotFound \<Rightarrow> Err (invalid_path path ''missing_parent'')
      | Err error \<Rightarrow> Err (io_error ''inspect_path_parent'' (Some (path_value path)) error)
      | Ok metadata \<Rightarrow>
          if md_file_type metadata = SymlinkType then Err (SymlinkNotAllowed (path_value path))
          else if md_file_type metadata \<noteq> DirectoryType then Err (UnsupportedFileType (path_value path))
          else Ok (current, parent_identities @ [md_identity metadata]))"

definition validated_kind ::
    "PathView \<Rightarrow> WorkspaceRelativePath \<Rightarrow> string list \<Rightarrow> FsError + ValidatedKind" where
  "validated_kind view path full_path =
     (case pv_symlink_metadata view full_path of
        Err NotFound \<Rightarrow> Ok ValidatedAbsent
      | Err error \<Rightarrow> Err (io_error ''inspect_path_entry'' (Some (path_value path)) error)
      | Ok metadata \<Rightarrow>
          (case md_file_type metadata of
             SymlinkType \<Rightarrow> Err (SymlinkNotAllowed (path_value path))
           | RegularType \<Rightarrow> Ok (ValidatedExisting (md_identity metadata))
           | _ \<Rightarrow> Err (UnsupportedFileType (path_value path))))"

definition validate_path ::
    "Workspace \<Rightarrow> PathView \<Rightarrow> WorkspaceRelativePath \<Rightarrow> FsError + ValidatedPath" where
  "validate_path workspace view path =
     (let components = split_on CHR ''/'' (path_value path) in
      and_then (ensure (components \<noteq> []) (invalid_path path ''path_empty'')) (\<lambda>_.
      let basename = last components in
      and_then (try_fold (walk_component view path) (wk_canonical_root workspace, [wk_identity workspace])
        (butlast components)) (\<lambda>(parent_path, parent_identities).
      and_then (map_err (io_error ''inspect_path_parent'' (Some (path_value path)))
        (pv_symlink_metadata view parent_path)) (\<lambda>parent_metadata.
      and_then (ensure (md_file_type parent_metadata = DirectoryType)
        (UnsupportedFileType (path_value path))) (\<lambda>_.
      let parent_identity = md_identity parent_metadata;
          parent_identities = (if parent_identities \<noteq> [] \<and> last parent_identities = parent_identity
            then parent_identities else parent_identities @ [parent_identity]);
          full_path = parent_path @ [basename] in
      and_then (validated_kind view path full_path) (\<lambda>kind.
      Ok \<lparr>vp_full_path = full_path, vp_parent_path = parent_path, vp_parent_identity = parent_identity,
          vp_parent_identities = parent_identities, vp_basename = basename, vp_kind = kind\<rparr>))))))"

section \<open>The bounded stable read\<close>

definition SNAPSHOT_BUFFER_BYTES :: nat where "SNAPSHOT_BUFFER_BYTES = 64 * 1024"

text \<open>
  The loop over 64 KiB buffers. \<open>Read::take\<close> answers zero without reading once its limit is
  used up, which also bounds the loop.
\<close>

function read_loop ::
    "(nat \<Rightarrow> nat \<Rightarrow> ErrorKind + bytes) \<Rightarrow> nat \<Rightarrow> nat \<Rightarrow> nat \<Rightarrow> WorkspaceRelativePath \<Rightarrow> nat \<Rightarrow> nat \<Rightarrow> bytes
      \<Rightarrow> FsError + bytes" where
  "read_loop rd file_limit aggregate_used aggregate_limit path k remaining bs =
     (if remaining = 0 then Ok bs
      else case rd k (min SNAPSHOT_BUFFER_BYTES remaining) of
        Err error \<Rightarrow> Err (io_error ''read_snapshot_file'' (Some (path_value path)) error)
      | Ok chunk \<Rightarrow>
          if chunk = [] then Ok bs
          else and_then (fs_checked_add (sat_u64 (length bs)) (sat_u64 (length chunk))
              ''snapshot_file_bytes'') (\<lambda>projected.
            and_then (fs_enforce_limit ''snapshot_file_bytes'' projected file_limit) (\<lambda>_.
            and_then (fs_checked_add aggregate_used projected ''snapshot_bytes'') (\<lambda>aggregate.
            and_then (fs_enforce_limit ''snapshot_bytes'' aggregate aggregate_limit) (\<lambda>_.
            read_loop rd file_limit aggregate_used aggregate_limit path (Suc k)
              (remaining - length chunk) (bs @ chunk))))))"
  by pat_completeness auto

termination
proof (relation "measure (\<lambda>(_, _, _, _, _, _, remaining, _). remaining)")
qed auto

declare read_loop.simps [simp del]

definition read_and_hash_bounded ::
    "(bytes \<Rightarrow> Sha256Digest) \<Rightarrow> (nat \<Rightarrow> nat \<Rightarrow> ErrorKind + bytes) \<Rightarrow> nat \<Rightarrow> nat \<Rightarrow> nat \<Rightarrow> WorkspaceRelativePath
      \<Rightarrow> FsError + (bytes \<times> Sha256Digest)" where
  "read_and_hash_bounded H rd file_limit aggregate_used aggregate_limit path =
     (let aggregate_remaining = aggregate_limit - aggregate_used;
          read_limit = min file_limit aggregate_remaining
      in and_then (read_loop rd file_limit aggregate_used aggregate_limit path 0
           (saturating_add_u64 read_limit 1) []) (\<lambda>bs.
         Ok (bs, H bs)))"

datatype AttemptResult = Stable FileSnapshot | Unstable

text \<open>The end of an attempt: the entry and its parent are looked up again, then the lines are indexed.\<close>

definition confirm_attempt ::
    "PathView \<Rightarrow> WorkspaceRelativePath \<Rightarrow> ValidatedPath \<Rightarrow> SnapshotLimits \<Rightarrow> SnapshotAccounting
      \<Rightarrow> Metadata \<Rightarrow> Metadata \<Rightarrow> bytes \<Rightarrow> Sha256Digest \<Rightarrow> FsError + AttemptResult" where
  "confirm_attempt view path validated limits accounting metadata_before metadata_after bs digest =
     (let signature_before = signature metadata_before in
     case pv_entry_after view of
        Err NotFound \<Rightarrow> Ok Unstable
      | Err error \<Rightarrow> Err (io_error ''confirm_snapshot_entry'' (Some (path_value path)) error)
      | Ok entry_after \<Rightarrow>
     case pv_parent_after view of
        Err NotFound \<Rightarrow> Ok Unstable
      | Err error \<Rightarrow> Err (io_error ''confirm_snapshot_parent'' (Some (path_value path)) error)
      | Ok parent_after \<Rightarrow>
     let stable = signature metadata_after = signature_before \<and>
           md_file_type entry_after = RegularType \<and>
           md_identity entry_after = sg_identity signature_before \<and>
           md_file_type parent_after = DirectoryType \<and>
           md_identity parent_after = vp_parent_identity validated \<and>
           md_len metadata_after = sat_u64 (length bs) in
     if \<not> stable then Ok Unstable
     else
      let remaining_lines = sl_total_lines limits - sa_lines accounting;
          remaining_index_memory = sl_line_index_memory limits - sa_index_memory accounting in
     and_then (map_err (\<lambda>error. map_index_error error accounting)
       (from_bytes_with_limits bs remaining_lines remaining_index_memory)) (\<lambda>line_index.
     Ok (Stable \<lparr>fs_id = 0, fs_path = path, fs_parent_identity = vp_parent_identity validated,
         fs_parent_identities = vp_parent_identities validated,
         fs_identity = sg_identity signature_before, fs_link_count = md_nlink metadata_before,
         fs_bytes = bs, fs_digest = digest, fs_line_index = line_index\<rparr>)))"

definition acquire_existing_attempt ::
    "(bytes \<Rightarrow> Sha256Digest) \<Rightarrow> PathView \<Rightarrow> WorkspaceRelativePath \<Rightarrow> ValidatedPath \<Rightarrow> SnapshotLimits
      \<Rightarrow> SnapshotAccounting \<Rightarrow> FsError + AttemptResult" where
  "acquire_existing_attempt H view path validated limits accounting =
     (case pv_open view of
        Err NotFound \<Rightarrow> Ok Unstable
      | Err error \<Rightarrow> Err (io_error ''open_snapshot_file'' (Some (path_value path)) error)
      | Ok _ \<Rightarrow>
     and_then (map_err (io_error ''inspect_open_snapshot'' (Some (path_value path)))
       (pv_metadata_before view)) (\<lambda>metadata_before.
     if md_file_type metadata_before \<noteq> RegularType then Ok Unstable
     else
      let signature_before = signature metadata_before in
      case vp_kind validated of
        ValidatedAbsent \<Rightarrow> Ok Unstable
      | ValidatedExisting validated_identity \<Rightarrow>
     if sg_identity signature_before \<noteq> validated_identity then Ok Unstable
     else
     and_then (fs_enforce_limit ''snapshot_file_bytes'' (md_len metadata_before) (sl_file_bytes limits)) (\<lambda>_.
     and_then (fs_checked_add (sa_bytes accounting) (md_len metadata_before) ''snapshot_bytes'') (\<lambda>projected.
     and_then (fs_enforce_limit ''snapshot_bytes'' projected (sl_total_bytes limits)) (\<lambda>_.
     and_then (read_and_hash_bounded H (pv_read view) (sl_file_bytes limits) (sa_bytes accounting)
       (sl_total_bytes limits) path) (\<lambda>(bs, digest).
     and_then (map_err (io_error ''reinspect_open_snapshot'' (Some (path_value path)))
       (pv_metadata_after view)) (\<lambda>metadata_after.
     confirm_attempt view path validated limits accounting metadata_before metadata_after bs digest)))))))"

datatype AcquiredPath = AcquiredExisting FileSnapshot | AcquiredAbsent AbsentPathSnapshot

definition digest_as_required :: "RequiredPathState option \<Rightarrow> FileSnapshot \<Rightarrow> bool" where
  "digest_as_required required f =
     (case required of Some (ExistingState expected) \<Rightarrow> expected = fs_digest f | _ \<Rightarrow> True)"

text \<open>The attempts that are left; the list of the first call is \<open>0..<MAX_ACQUISITION_ATTEMPTS\<close>.\<close>

fun acquire_attempts ::
    "(bytes \<Rightarrow> Sha256Digest) \<Rightarrow> Workspace \<Rightarrow> (nat \<Rightarrow> PathView) \<Rightarrow> WorkspaceRelativePath
      \<Rightarrow> RequiredPathState option \<Rightarrow> SnapshotLimits \<Rightarrow> SnapshotAccounting \<Rightarrow> nat list \<Rightarrow> FsError + AcquiredPath" where
  "acquire_attempts H workspace views path required limits accounting [] =
     Err (InternalInvariant ''bounded_acquisition_loop_returns'')"
| "acquire_attempts H workspace views path required limits accounting (attempt # attempts) =
     and_then (validate_path workspace (views attempt) path) (\<lambda>validated.
     case (vp_kind validated, required) of
       (ValidatedAbsent, Some (ExistingState expected)) \<Rightarrow>
         Err (PreconditionFailed (path_value path) (Some expected) None)
     | (ValidatedExisting _, Some AbsentState) \<Rightarrow>
         Err (PreconditionFailed (path_value path) None None)
     | (ValidatedAbsent, _) \<Rightarrow>
         Ok (AcquiredAbsent \<lparr>ap_path = path, ap_parent_identity = vp_parent_identity validated,
           ap_parent_identities = vp_parent_identities validated, ap_basename = vp_basename validated\<rparr>)
     | (ValidatedExisting _, _) \<Rightarrow>
         and_then (acquire_existing_attempt H (views attempt) path validated limits accounting) (\<lambda>result.
         case result of
           Stable f \<Rightarrow>
             if \<not> digest_as_required required f
             then Err (PreconditionFailed (path_value path)
               (case required of Some (ExistingState expected) \<Rightarrow> Some expected | _ \<Rightarrow> None)
               (Some (fs_digest f)))
             else Ok (AcquiredExisting f)
         | Unstable \<Rightarrow>
             if attempt + 1 < MAX_ACQUISITION_ATTEMPTS
             then acquire_attempts H workspace views path required limits accounting attempts
             else Err (FileChanged (path_value path) MAX_ACQUISITION_ATTEMPTS)))"

definition acquire_path ::
    "(bytes \<Rightarrow> Sha256Digest) \<Rightarrow> Workspace \<Rightarrow> Os \<Rightarrow> WorkspaceRelativePath \<Rightarrow> RequiredPathState option
      \<Rightarrow> SnapshotLimits \<Rightarrow> SnapshotAccounting \<Rightarrow> FsError + AcquiredPath" where
  "acquire_path H workspace os path required limits accounting =
     acquire_attempts H workspace (os (path_value path)) path required limits accounting
       [0..<MAX_ACQUISITION_ATTEMPTS]"

section \<open>Snapshots\<close>

definition note_requirement ::
    "SnapshotLimits \<Rightarrow> (string, RequiredPathState) btree \<Rightarrow> SnapshotRequirement
      \<Rightarrow> FsError + (string, RequiredPathState) btree" where
  "note_requirement limits unique requirement =
     and_then (parse_relative_path (path_value (sr_path requirement)) (sl_path_bytes limits)) (\<lambda>normalized.
     case bt_get unique (path_value normalized) of
       Some previous \<Rightarrow>
         if previous \<noteq> sr_state requirement then Err (IncompatiblePrecondition (path_value normalized))
         else Ok unique
     | None \<Rightarrow> Ok (bt_put (path_value normalized) (sr_state requirement) unique))"

record SnapshotBuild =
  sb_files :: "FileSnapshot list"
  sb_absent_paths :: "AbsentPathSnapshot list"
  sb_aliases :: "FileIdentity \<rightharpoonup> string"
  sb_accounting :: SnapshotAccounting

definition acquire_required ::
    "(bytes \<Rightarrow> Sha256Digest) \<Rightarrow> Workspace \<Rightarrow> Os \<Rightarrow> SnapshotLimits \<Rightarrow> SnapshotBuild
      \<Rightarrow> string \<times> RequiredPathState \<Rightarrow> FsError + SnapshotBuild" where
  "acquire_required H workspace os limits b entry =
     (case entry of (path, required) \<Rightarrow>
      and_then (charge_identity (sb_accounting b) limits) (\<lambda>accounting.
      let normalized = WorkspaceRelativePath path in
      and_then (acquire_path H workspace os normalized (Some required) limits accounting) (\<lambda>acquired.
      case acquired of
        AcquiredExisting f \<Rightarrow>
          and_then (reject_alias (sb_aliases b) (fs_identity f) normalized) (\<lambda>aliases.
          and_then (charge_file accounting f limits) (\<lambda>accounting.
          Ok \<lparr>sb_files = sb_files b @ [f\<lparr>fs_id := sat_u64 (length (sb_files b))\<rparr>],
              sb_absent_paths = sb_absent_paths b, sb_aliases = aliases, sb_accounting = accounting\<rparr>))
      | AcquiredAbsent a \<Rightarrow>
          Ok (b\<lparr>sb_absent_paths := sb_absent_paths b @ [a], sb_accounting := accounting\<rparr>))))"

definition acquire_snapshot ::
    "(bytes \<Rightarrow> Sha256Digest) \<Rightarrow> Workspace \<Rightarrow> Os \<Rightarrow> SnapshotRequirement list \<Rightarrow> SnapshotLimits
      \<Rightarrow> FsError + WorkspaceSnapshot" where
  "acquire_snapshot H workspace os requirements limits =
     and_then (try_fold (note_requirement limits) [] requirements) (\<lambda>unique.
     and_then (fs_enforce_limit ''snapshot_identities'' (sat_u64 (length unique)) (sl_identities limits)) (\<lambda>_.
     and_then (try_fold (acquire_required H workspace os limits)
       \<lparr>sb_files = [], sb_absent_paths = [], sb_aliases = Map.empty, sb_accounting = default_accounting\<rparr>
       unique) (\<lambda>b.
     Ok \<lparr>ws_workspace_identity = wk_identity workspace, ws_files = sb_files b,
         ws_absent_paths = sb_absent_paths b\<rparr>)))"

definition acquire_existing_file ::
    "(bytes \<Rightarrow> Sha256Digest) \<Rightarrow> Workspace \<Rightarrow> Os \<Rightarrow> WorkspaceRelativePath \<Rightarrow> SnapshotLimits
      \<Rightarrow> FsError + FileSnapshot" where
  "acquire_existing_file H workspace os path limits =
     and_then (parse_relative_path (path_value path) (sl_path_bytes limits)) (\<lambda>normalized.
     and_then (charge_identity default_accounting limits) (\<lambda>accounting.
     and_then (acquire_path H workspace os normalized None limits accounting) (\<lambda>acquired.
     case acquired of
       AcquiredExisting f \<Rightarrow>
         and_then (reject_alias Map.empty (fs_identity f) normalized) (\<lambda>_.
         and_then (charge_file accounting f limits) (\<lambda>_.
         Ok (f\<lparr>fs_id := 0\<rparr>)))
     | AcquiredAbsent _ \<Rightarrow> Err (PathNotFound (path_value normalized)))))"

record InspectionBuild =
  ib_observations :: "(string, PathInspection) btree"
  ib_aliases :: "FileIdentity \<rightharpoonup> string"
  ib_accounting :: SnapshotAccounting

definition inspect_path ::
    "(bytes \<Rightarrow> Sha256Digest) \<Rightarrow> Workspace \<Rightarrow> Os \<Rightarrow> SnapshotLimits \<Rightarrow> InspectionBuild \<Rightarrow> string
      \<Rightarrow> FsError + InspectionBuild" where
  "inspect_path H workspace os limits b path =
     and_then (parse_relative_path path (sl_path_bytes limits)) (\<lambda>normalized.
     if bt_get (ib_observations b) (path_value normalized) \<noteq> None then Ok b
     else
     and_then (charge_identity (ib_accounting b) limits) (\<lambda>accounting.
     and_then (acquire_path H workspace os normalized None limits accounting) (\<lambda>acquired.
     case acquired of
       AcquiredExisting f \<Rightarrow>
         and_then (reject_alias (ib_aliases b) (fs_identity f) normalized) (\<lambda>aliases.
         and_then (charge_file accounting f limits) (\<lambda>accounting.
         Ok \<lparr>ib_observations = bt_put (path_value normalized)
               \<lparr>in_path = normalized,
                in_state = InspectedExisting (fs_digest f) (sat_u64 (length (fs_bytes f)))
                  (index_line_count (fs_line_index f)) (hash_identity H (fs_identity f))\<rparr>
               (ib_observations b),
             ib_aliases = aliases, ib_accounting = accounting\<rparr>))
     | AcquiredAbsent _ \<Rightarrow>
         Ok (b\<lparr>ib_observations := bt_put (path_value normalized)
                 \<lparr>in_path = normalized, in_state = InspectedAbsent\<rparr> (ib_observations b),
               ib_accounting := accounting\<rparr>))))"

definition inspect ::
    "(bytes \<Rightarrow> Sha256Digest) \<Rightarrow> Workspace \<Rightarrow> Os \<Rightarrow> string list \<Rightarrow> SnapshotLimits
      \<Rightarrow> FsError + PathInspection list" where
  "inspect H workspace os paths limits =
     and_then (try_fold (inspect_path H workspace os limits)
       \<lparr>ib_observations = [], ib_aliases = Map.empty, ib_accounting = default_accounting\<rparr> paths) (\<lambda>b.
     try_map (\<lambda>path. ok_or (bt_get (ib_observations b) path)
       (InternalInvariant ''inspection_result_for_each_validated_path'')) paths)"

section \<open>Paths\<close>

text \<open>What a normalized workspace-relative path is.\<close>

definition normalized_path :: "string \<Rightarrow> bool" where
  "normalized_path v \<longleftrightarrow> v \<noteq> [] \<and> CHR 0x00 \<notin> set v \<and>
     (\<forall>c\<in>set (split_on CHR ''/'' v). c \<notin> {[], ''.'', ''..''}) \<and>
     \<not> eq_ignore_ascii_case (hd (split_on CHR ''/'' v)) ''.srcmv''"

lemma split_on_not_Nil [simp]: "split_on c s \<noteq> []"
  by (induction s) (auto split: list.splits)

lemma split_on_absolute: "take 1 v = [c] \<Longrightarrow> [] \<in> set (split_on c v)"
  by (cases v) auto

lemma fs_enforce_limit_Ok_iff [simp]: "fs_enforce_limit resource actual limit = Ok u \<longleftrightarrow> actual \<le> limit"
  by (auto simp: fs_enforce_limit_def)

lemma fs_checked_add_Ok_iff [simp]:
  "fs_checked_add a b resource = Ok c \<longleftrightarrow> c = a + b \<and> a + b \<le> u64_max"
  by (simp add: fs_checked_add_def)

lemma parse_relative_path_Ok_iff:
  "parse_relative_path v limit = Ok p \<longleftrightarrow>
     sat_u64 (length v) \<le> limit \<and> normalized_path v \<and> p = WorkspaceRelativePath v"
  using split_on_absolute[of v "CHR ''/''"]
  by (auto simp: parse_relative_path_def normalized_path_def Let_def)

section \<open>The stable read\<close>

text \<open>
  The reads of one attempt: chunks that are not empty, then an empty one, which is the end of
  the file; \<open>n\<close> bytes have been read before.
\<close>

fun reads_to_end :: "(nat \<Rightarrow> nat \<Rightarrow> ErrorKind + bytes) \<Rightarrow> nat \<Rightarrow> nat \<Rightarrow> bytes \<Rightarrow> bytes list \<Rightarrow> bool" where
  "reads_to_end rd k remaining bs [] \<longleftrightarrow>
     remaining \<noteq> 0 \<longrightarrow> rd k (min SNAPSHOT_BUFFER_BYTES remaining) = Ok []"
| "reads_to_end rd k remaining bs (chunk # chunks) \<longleftrightarrow>
     chunk \<noteq> [] \<and> remaining \<noteq> 0 \<and> rd k (min SNAPSHOT_BUFFER_BYTES remaining) = Ok chunk \<and>
     reads_to_end rd (Suc k) (remaining - length chunk) (bs @ chunk) chunks"

text \<open>\<open>read\<close> never returns more bytes than the buffer holds.\<close>

definition honest_reads :: "(nat \<Rightarrow> nat \<Rightarrow> ErrorKind + bytes) \<Rightarrow> bool" where
  "honest_reads rd \<longleftrightarrow> (\<forall>k n chunk. rd k n = Ok chunk \<longrightarrow> length chunk \<le> n)"

lemma honest_reads_bound:
  "honest_reads rd \<Longrightarrow> rd k (min SNAPSHOT_BUFFER_BYTES n) = Ok chunk \<Longrightarrow> length chunk \<le> u64_max"
  unfolding honest_reads_def
  by (rule order_trans[of _ SNAPSHOT_BUFFER_BYTES])
    (fastforce, simp add: SNAPSHOT_BUFFER_BYTES_def u64_max_def)

lemma read_loop_Ok:
  assumes "read_loop rd file_limit used limit path k remaining bs = Ok out"
    and "length bs \<le> file_limit" "used + length bs \<le> limit" "length bs \<le> u64_max"
    and "honest_reads rd"
  shows "length out \<le> file_limit \<and> used + length out \<le> limit \<and> length out \<le> u64_max \<and>
    (\<exists>chunks. out = bs @ concat chunks \<and> reads_to_end rd k remaining bs chunks)"
  using assms
proof (induction rd file_limit used limit path k remaining bs rule: read_loop.induct)
  case (1 rd file_limit used limit path k remaining bs)
  show ?case
  proof (cases "remaining = 0 \<or> rd k (min SNAPSHOT_BUFFER_BYTES remaining) = Ok []")
    case True
    then have "out = bs"
      using 1(2) by (cases "remaining = 0") (auto simp: read_loop.simps[of rd _ _ _ _ k])
    moreover have "reads_to_end rd k remaining bs []"
      using True by auto
    ultimately show ?thesis
      using 1(3-5) by (intro conjI exI[of _ "[]"]) auto
  next
    case False
    then obtain chunk where chunk: "rd k (min SNAPSHOT_BUFFER_BYTES remaining) = Ok chunk" "chunk \<noteq> []"
      using 1(2) by (cases "rd k (min SNAPSHOT_BUFFER_BYTES remaining)") (auto simp: read_loop.simps[of rd])
    from 1(2) False chunk have step: "length bs + sat_u64 (length chunk) \<le> file_limit"
      "length bs + sat_u64 (length chunk) \<le> u64_max"
      "used + (length bs + sat_u64 (length chunk)) \<le> limit"
      "used + (length bs + sat_u64 (length chunk)) \<le> u64_max"
      "read_loop rd file_limit used limit path (Suc k) (remaining - length chunk) (bs @ chunk) = Ok out"
      using 1(5) by (auto simp: read_loop.simps[of rd _ _ _ _ k] sat_u64_id)
    have len: "sat_u64 (length chunk) = length chunk"
      by (rule sat_u64_id[OF honest_reads_bound[OF 1(6) chunk(1)]])
    have "length out \<le> file_limit \<and> used + length out \<le> limit \<and> length out \<le> u64_max \<and>
        (\<exists>chunks. out = (bs @ chunk) @ concat chunks \<and>
           reads_to_end rd (Suc k) (remaining - length chunk) (bs @ chunk) chunks)"
      using False chunk step 1(6)
      by (intro 1(1)[OF _ chunk(1) chunk(2), of "length bs + length chunk" "()" "used + (length bs + length chunk)" "()"])
        (auto simp: len sat_u64_id)
    moreover have "reads_to_end rd k remaining bs (chunk # chunks)"
      if "reads_to_end rd (Suc k) (remaining - length chunk) (bs @ chunk) chunks" for chunks
      using that False chunk by simp
    ultimately show ?thesis
      by (metis append.assoc concat.simps(2))
  qed
qed


lemma read_and_hash_bounded_Ok:
  assumes "read_and_hash_bounded H rd file_limit used limit path = Ok (bs, digest)"
    and "used \<le> limit" "honest_reads rd"
  shows "digest = H bs \<and> length bs \<le> file_limit \<and> used + length bs \<le> limit \<and> length bs \<le> u64_max \<and>
    (\<exists>chunks. bs = concat chunks \<and>
       reads_to_end rd 0 (saturating_add_u64 (min file_limit (limit - used)) 1) [] chunks)"
  using assms read_loop_Ok[where bs = "[]", OF _ _ _ _ assms(3)]
  by (fastforce simp: read_and_hash_bounded_def Let_def)

text \<open>
  What an attempt saw when it is accepted: the open file is the entry the walk found, its
  metadata is the same before and after the read, entry and parent are still there under the
  same identities, and the bytes are those of the reads up to the end of the file.
\<close>

definition stable_observation ::
    "(bytes \<Rightarrow> Sha256Digest) \<Rightarrow> Workspace \<Rightarrow> PathView \<Rightarrow> SnapshotLimits \<Rightarrow> SnapshotAccounting \<Rightarrow> FileSnapshot \<Rightarrow> bool" where
  "stable_observation H workspace view limits accounting f \<longleftrightarrow>
     (\<exists>validated before after entry parent chunks.
        validate_path workspace view (fs_path f) = Ok validated \<and>
        vp_kind validated = ValidatedExisting (fs_identity f) \<and>
        pv_metadata_before view = Ok before \<and> pv_metadata_after view = Ok after \<and>
        signature before = signature after \<and> md_identity before = fs_identity f \<and>
        md_nlink before = fs_link_count f \<and> md_len after = length (fs_bytes f) \<and>
        pv_entry_after view = Ok entry \<and> md_file_type entry = RegularType \<and>
        md_identity entry = fs_identity f \<and>
        pv_parent_after view = Ok parent \<and> md_file_type parent = DirectoryType \<and>
        md_identity parent = fs_parent_identity f \<and>
        fs_bytes f = concat chunks \<and>
        reads_to_end (pv_read view) 0 (saturating_add_u64 (min (sl_file_bytes limits)
          (sl_total_bytes limits - sa_bytes accounting)) 1) [] chunks)"

definition file_consistent :: "(bytes \<Rightarrow> Sha256Digest) \<Rightarrow> SnapshotLimits \<Rightarrow> FileSnapshot \<Rightarrow> bool" where
  "file_consistent H limits f \<longleftrightarrow> fs_digest f = H (fs_bytes f) \<and> indexes (fs_line_index f) (fs_bytes f) \<and>
     length (fs_bytes f) \<le> sl_file_bytes limits \<and> length (fs_bytes f) \<le> u64_max"

lemma built_index_indexes:
  assumes "from_bytes_with_limits bs ml mm = Ok idx"
  shows "indexes idx bs"
proof -
  have "length bs \<le> u64_max"
    using assms by (simp add: from_bytes_with_limits_def split: if_splits)
  then show ?thesis
    using assms length_split_lines[of bs] by (auto simp: from_bytes_with_limits_Ok_iff indexes_def)
qed

lemma confirm_attempt_stable:
  assumes "confirm_attempt view path validated limits accounting before after bs digest = Ok (Stable f)"
  shows "\<exists>entry parent idx. pv_entry_after view = Ok entry \<and> pv_parent_after view = Ok parent \<and>
    signature after = signature before \<and> md_file_type entry = RegularType \<and>
    md_identity entry = md_identity before \<and> md_file_type parent = DirectoryType \<and>
    md_identity parent = vp_parent_identity validated \<and> md_len after = sat_u64 (length bs) \<and>
    from_bytes_with_limits bs (sl_total_lines limits - sa_lines accounting)
      (sl_line_index_memory limits - sa_index_memory accounting) = Ok idx \<and>
    f = \<lparr>fs_id = 0, fs_path = path, fs_parent_identity = vp_parent_identity validated,
         fs_parent_identities = vp_parent_identities validated,
         fs_identity = md_identity before, fs_link_count = md_nlink before,
         fs_bytes = bs, fs_digest = digest, fs_line_index = idx\<rparr>"
proof -
  have id: "sg_identity (signature before) = md_identity before"
    by (simp add: signature_def)
  obtain entry where e: "pv_entry_after view = Ok entry"
    using assms by (cases "pv_entry_after view") (auto simp: confirm_attempt_def split: ErrorKind.split_asm)
  moreover obtain parent where p: "pv_parent_after view = Ok parent"
    using assms e by (cases "pv_parent_after view") (auto simp: confirm_attempt_def split: ErrorKind.split_asm)
  ultimately show ?thesis
    using assms by (auto simp: confirm_attempt_def Let_def id split: if_split_asm)
qed

lemma attempt_stable:
  assumes att: "acquire_existing_attempt H view path validated limits accounting = Ok (Stable f)"
    and val: "validate_path workspace view path = Ok validated"
    and used: "sa_bytes accounting \<le> sl_total_bytes limits" and honest: "honest_reads (pv_read view)"
  shows "fs_path f = path \<and> file_consistent H limits f \<and>
    stable_observation H workspace view limits accounting f"
proof -
  obtain u where u: "pv_open view = Ok u"
    using att by (cases "pv_open view") (auto simp: acquire_existing_attempt_def split: ErrorKind.split_asm)
  obtain i where i: "vp_kind validated = ValidatedExisting i"
    using att u by (cases "vp_kind validated") (auto simp: acquire_existing_attempt_def Let_def split: if_split_asm)
  from att obtain before after bs digest where
    o: "pv_metadata_before view = Ok before" "md_identity before = i"
       "read_and_hash_bounded H (pv_read view) (sl_file_bytes limits) (sa_bytes accounting)
          (sl_total_bytes limits) path = Ok (bs, digest)"
       "pv_metadata_after view = Ok after"
       "confirm_attempt view path validated limits accounting before after bs digest = Ok (Stable f)"
    by (auto simp: acquire_existing_attempt_def u i Let_def signature_def split: if_split_asm)
  from confirm_attempt_stable[OF o(5)] obtain entry parent idx where
    c: "pv_entry_after view = Ok entry" "pv_parent_after view = Ok parent"
       "signature after = signature before" "md_file_type entry = RegularType" "md_identity entry = i"
       "md_file_type parent = DirectoryType" "md_identity parent = vp_parent_identity validated"
       "md_len after = sat_u64 (length bs)"
       "from_bytes_with_limits bs (sl_total_lines limits - sa_lines accounting)
          (sl_line_index_memory limits - sa_index_memory accounting) = Ok idx"
    and f: "f = \<lparr>fs_id = 0, fs_path = path, fs_parent_identity = vp_parent_identity validated,
         fs_parent_identities = vp_parent_identities validated,
         fs_identity = i, fs_link_count = md_nlink before,
         fs_bytes = bs, fs_digest = digest, fs_line_index = idx\<rparr>"
    unfolding o(2) by blast
  note r = read_and_hash_bounded_Ok[OF o(3) used honest]
  have "file_consistent H limits f"
    using r built_index_indexes[OF c(9)] by (simp add: f file_consistent_def)
  moreover have "stable_observation H workspace view limits accounting f"
    unfolding stable_observation_def
    using r val o(1,2,4) c i by (auto simp: f sat_u64_id)
  ultimately show ?thesis
    by (simp add: f)
qed

lemma acquire_attempts_existing:
  assumes "acquire_attempts H workspace views path required limits accounting attempts = Ok (AcquiredExisting f)"
    and "sa_bytes accounting \<le> sl_total_bytes limits" "\<forall>k. honest_reads (pv_read (views k))"
  shows "fs_path f = path \<and> file_consistent H limits f \<and> digest_as_required required f \<and>
    required \<noteq> Some AbsentState \<and>
    (\<exists>k\<in>set attempts. stable_observation H workspace (views k) limits accounting f)"
  using assms(1)
proof (induction attempts)
  case (Cons attempt attempts)
  from Cons.prems obtain validated where val: "validate_path workspace (views attempt) path = Ok validated"
    by auto
  with Cons.prems obtain i where i: "vp_kind validated = ValidatedExisting i" and req: "required \<noteq> Some AbsentState"
    by (cases "vp_kind validated")
      (auto split: option.split_asm RequiredPathState.split_asm)
  from Cons.prems val i req obtain result where
    att: "acquire_existing_attempt H (views attempt) path validated limits accounting = Ok result"
    by (auto split: option.split_asm RequiredPathState.split_asm)
  show ?case
  proof (cases result)
    case (Stable g)
    have "g = f" "digest_as_required required f"
      using Cons.prems val i req att Stable
      by (auto split: option.split_asm RequiredPathState.split_asm if_split_asm)
    then show ?thesis
      using attempt_stable[OF att[unfolded Stable] val assms(2)] assms(3) req by auto
  next
    case Unstable
    then have "acquire_attempts H workspace views path required limits accounting attempts = Ok (AcquiredExisting f)"
      using Cons.prems val i req att
      by (auto split: option.split_asm RequiredPathState.split_asm if_split_asm)
    from Cons.IH[OF this] show ?thesis by auto
  qed
qed simp

lemma acquire_attempts_absent:
  assumes "acquire_attempts H workspace views path required limits accounting attempts = Ok (AcquiredAbsent a)"
  shows "ap_path a = path \<and> (required = None \<or> required = Some AbsentState) \<and>
    (\<exists>k\<in>set attempts. \<exists>validated. validate_path workspace (views k) path = Ok validated \<and>
       vp_kind validated = ValidatedAbsent \<and> ap_parent_identity a = vp_parent_identity validated)"
  using assms
proof (induction attempts)
  case (Cons attempt attempts)
  from Cons.prems obtain validated where val: "validate_path workspace (views attempt) path = Ok validated"
    by auto
  show ?case
  proof (cases "vp_kind validated")
    case ValidatedAbsent
    then show ?thesis
      using Cons.prems val by (auto split: option.split_asm RequiredPathState.split_asm)
  next
    case (ValidatedExisting i)
    with Cons.prems val obtain result where
      att: "acquire_existing_attempt H (views attempt) path validated limits accounting = Ok result"
      by (auto split: option.split_asm RequiredPathState.split_asm)
    have "acquire_attempts H workspace views path required limits accounting attempts = Ok (AcquiredAbsent a)"
      using Cons.prems val ValidatedExisting att
      by (cases result) (auto split: option.split_asm RequiredPathState.split_asm if_split_asm)
    from Cons.IH[OF this] show ?thesis by auto
  qed
qed simp

section \<open>Building the snapshot\<close>

lemma try_fold_prefix_invariant:
  assumes "try_fold f s xs = Ok t" and "I [] s"
    and "\<And>pre x post s s'. xs = pre @ x # post \<Longrightarrow> I pre s \<Longrightarrow> f s x = Ok s' \<Longrightarrow> I (pre @ [x]) s'"
  shows "I xs t"
proof -
  have "I (pre @ ys) t" if "try_fold f s ys = Ok t" "I pre s" "xs = pre @ ys" for pre ys s
    using that
  proof (induction ys arbitrary: pre s)
    case (Cons y ys)
    then obtain s' where s': "f s y = Ok s'" "try_fold f s' ys = Ok t" by auto
    have "I (pre @ [y]) s'"
      using Cons.prems s' by (intro assms(3)) auto
    from Cons.IH[OF s'(2) this] Cons.prems show ?case by simp
  qed simp
  from this[of s xs "[]"] assms(1,2) show ?thesis by simp
qed

definition required_entry :: "SnapshotRequirement \<Rightarrow> string \<times> RequiredPathState" where
  "required_entry r = (path_value (sr_path r), sr_state r)"

lemma note_requirement_Ok:
  assumes "note_requirement limits unique r = Ok unique'" "bt_sorted unique"
  shows "bt_sorted unique' \<and> set unique' = insert (required_entry r) (set unique) \<and>
    normalized_path (path_value (sr_path r))"
proof -
  let ?v = "path_value (sr_path r)"
  from assms(1) have n: "normalized_path ?v"
    and u: "unique' = (case bt_get unique ?v of None \<Rightarrow> bt_put ?v (sr_state r) unique | Some _ \<Rightarrow> unique)"
    and same: "bt_get unique ?v \<noteq> None \<Longrightarrow> bt_get unique ?v = Some (sr_state r)"
    by (auto simp: note_requirement_def parse_relative_path_Ok_iff split: option.split_asm if_split_asm)
  show ?thesis
  proof (cases "bt_get unique ?v")
    case None
    have "x \<in> set unique' \<longleftrightarrow> x \<in> insert (required_entry r) (set unique)" for x
      using assms(2) None u bt.entries_get[of unique "fst x" "snd x"]
        bt.entries_get[OF bt_sorted_put[OF assms(2)], of "fst x" "snd x" ?v "sr_state r"]
      by (cases x) (auto simp: required_entry_def bt_get_put)
    then show ?thesis
      using assms(2) None u n by (auto simp: bt_sorted_put)
  next
    case (Some s)
    then have "(?v, sr_state r) \<in> set unique"
      using same bt.entries_get[OF assms(2)] by auto
    then show ?thesis
      using assms(2) Some u n by (auto simp: required_entry_def)
  qed
qed

lemma note_requirements:
  assumes "try_fold (note_requirement limits) [] requirements = Ok unique"
  shows "bt_sorted unique \<and> set unique = required_entry ` set requirements \<and>
    (\<forall>r\<in>set requirements. normalized_path (path_value (sr_path r)))"
  using try_fold_prefix_invariant[OF assms,
      of "\<lambda>pre u. bt_sorted u \<and> set u = required_entry ` set pre \<and>
        (\<forall>r\<in>set pre. normalized_path (path_value (sr_path r)))"]
    note_requirement_Ok[of limits]
  by (fastforce simp: bt_sorted_def)

definition existing_entry :: "FileSnapshot \<Rightarrow> string \<times> RequiredPathState" where
  "existing_entry f = (path_value (fs_path f), ExistingState (fs_digest f))"

definition absent_entry :: "AbsentPathSnapshot \<Rightarrow> string \<times> RequiredPathState" where
  "absent_entry a = (path_value (ap_path a), AbsentState)"

definition accounted :: "SnapshotLimits \<Rightarrow> FileSnapshot list \<Rightarrow> SnapshotAccounting \<Rightarrow> bool" where
  "accounted limits files a \<longleftrightarrow>
     sa_bytes a = (\<Sum>f\<leftarrow>files. length (fs_bytes f)) \<and> sa_bytes a \<le> sl_total_bytes limits \<and>
     sa_lines a = (\<Sum>f\<leftarrow>files. index_line_count (fs_line_index f)) \<and> sa_lines a \<le> sl_total_lines limits \<and>
     sa_index_memory a = (\<Sum>f\<leftarrow>files. memory_bytes (fs_line_index f)) \<and>
     sa_index_memory a \<le> sl_line_index_memory limits"

definition build_inv ::
    "(bytes \<Rightarrow> Sha256Digest) \<Rightarrow> SnapshotLimits \<Rightarrow> (string \<times> RequiredPathState) list \<Rightarrow> SnapshotBuild \<Rightarrow> bool" where
  "build_inv H limits pre b \<longleftrightarrow>
     map existing_entry (sb_files b) = filter (\<lambda>e. snd e \<noteq> AbsentState) pre \<and>
     map absent_entry (sb_absent_paths b) = filter (\<lambda>e. snd e = AbsentState) pre \<and>
     map fs_id (sb_files b) = [0..<length (sb_files b)] \<and>
     distinct (map fs_identity (sb_files b)) \<and>
     (\<forall>i. sb_aliases b i = map_of (map (\<lambda>f. (fs_identity f, path_value (fs_path f))) (sb_files b)) i) \<and>
     list_all (file_consistent H limits) (sb_files b) \<and>
     sa_identities (sb_accounting b) = length pre \<and> length pre \<le> u64_max \<and>
     accounted limits (sb_files b) (sb_accounting b)"

lemma charge_file_Ok:
  assumes "charge_file a f limits = Ok a'" "accounted limits files a" "file_consistent H limits f"
  shows "accounted limits (files @ [f]) a' \<and> sa_identities a' = sa_identities a"
  using assms by (auto simp: charge_file_def accounted_def file_consistent_def sat_u64_id)

lemma accounted_fs_id [simp]:
  "accounted limits (files @ [f\<lparr>fs_id := n\<rparr>]) a \<longleftrightarrow> accounted limits (files @ [f]) a"
  by (simp add: accounted_def)

lemma file_consistent_fs_id [simp]: "file_consistent H limits (f\<lparr>fs_id := n\<rparr>) \<longleftrightarrow> file_consistent H limits f"
  by (simp add: file_consistent_def)

lemma acquire_required_inv:
  assumes "acquire_required H workspace os limits b e = Ok b'"
    and inv: "build_inv H limits pre b" and fresh: "fst e \<notin> fst ` set pre"
    and honest: "\<forall>p k. honest_reads (pv_read (os p k))"
  shows "build_inv H limits (pre @ [e]) b'"
proof -
  obtain path required where e: "e = (path, required)" by (cases e)
  from assms(1) obtain accounting acquired where
    c: "charge_identity (sb_accounting b) limits = Ok accounting"
    and acq: "acquire_path H workspace os (WorkspaceRelativePath path) (Some required) limits accounting = Ok acquired"
    by (auto simp: acquire_required_def e Let_def)
  have acc: "sa_identities accounting = Suc (length pre)" "Suc (length pre) \<le> u64_max"
      "accounted limits (sb_files b) accounting" "sa_bytes accounting \<le> sl_total_bytes limits"
    using c inv by (auto simp: charge_identity_def build_inv_def accounted_def)
  show ?thesis
  proof (cases acquired)
    case (AcquiredExisting f)
    note f = acquire_attempts_existing[OF acq[unfolded acquire_path_def AcquiredExisting] acc(4)]
    have f: "fs_path f = WorkspaceRelativePath path" "file_consistent H limits f"
        "required = ExistingState (fs_digest f)"
      using f honest by (auto simp: digest_as_required_def split: RequiredPathState.split_asm)
    from assms(1) c acq AcquiredExisting obtain aliases accounting' where
      al: "reject_alias (sb_aliases b) (fs_identity f) (WorkspaceRelativePath path) = Ok aliases"
      and ch: "charge_file accounting f limits = Ok accounting'"
      and b': "b' = \<lparr>sb_files = sb_files b @ [f\<lparr>fs_id := sat_u64 (length (sb_files b))\<rparr>],
              sb_absent_paths = sb_absent_paths b, sb_aliases = aliases, sb_accounting = accounting'\<rparr>"
      by (auto simp: acquire_required_def e Let_def)
    have paths: "path \<notin> (\<lambda>f. path_value (fs_path f)) ` set (sb_files b)"
    proof
      assume "path \<in> (\<lambda>f. path_value (fs_path f)) ` set (sb_files b)"
      then have "path \<in> fst ` set (map existing_entry (sb_files b))"
        by (auto simp: existing_entry_def image_iff)
      then show False
        using inv fresh unfolding build_inv_def by (auto simp: e)
    qed
    have none: "sb_aliases b (fs_identity f) = None \<and> aliases = (sb_aliases b)(fs_identity f \<mapsto> path)"
      using al paths inv
      by (auto simp: reject_alias_def build_inv_def image_iff split: option.split_asm if_split_asm
        dest!: map_of_SomeD)
    then have new: "fs_identity f \<notin> fs_identity ` set (sb_files b)"
        "aliases = (sb_aliases b)(fs_identity f \<mapsto> path)"
      using inv by (auto simp: build_inv_def map_of_eq_None_iff image_image)
    have len: "length (sb_files b) \<le> length pre"
      using inv unfolding build_inv_def by (metis length_filter_le length_map)
    have al': "aliases i = map_of (map (\<lambda>f. (fs_identity f, path_value (fs_path f)))
        (sb_files b @ [f\<lparr>fs_id := n\<rparr>])) i" for i n
      using new none inv f(1) by (auto simp: build_inv_def map_add_def split: option.splits)
    show ?thesis
      using inv f new acc len charge_file_Ok[OF ch acc(3) f(2)] al'
      by (auto simp: build_inv_def b' e existing_entry_def sat_u64_id)
  next
    case (AcquiredAbsent a)
    note a = acquire_attempts_absent[OF acq[unfolded acquire_path_def AcquiredAbsent]]
    have "b' = b\<lparr>sb_absent_paths := sb_absent_paths b @ [a], sb_accounting := accounting\<rparr>"
      using assms(1) c acq AcquiredAbsent by (auto simp: acquire_required_def e Let_def)
    then show ?thesis
      using a inv acc by (auto simp: build_inv_def e absent_entry_def)
  qed
qed

lemma acquire_snapshot_inv:
  assumes "acquire_snapshot H workspace os requirements limits = Ok snapshot"
    and honest: "\<forall>p k. honest_reads (pv_read (os p k))"
  obtains unique b where "bt_sorted unique" "set unique = required_entry ` set requirements"
    "\<forall>r\<in>set requirements. normalized_path (path_value (sr_path r))"
    "build_inv H limits unique b" "length unique \<le> sl_identities limits"
    "snapshot = \<lparr>ws_workspace_identity = wk_identity workspace, ws_files = sb_files b,
       ws_absent_paths = sb_absent_paths b\<rparr>"
proof -
  from assms(1) obtain unique b where
    u: "try_fold (note_requirement limits) [] requirements = Ok unique"
    and lim: "sat_u64 (length unique) \<le> sl_identities limits"
    and b: "try_fold (acquire_required H workspace os limits)
       \<lparr>sb_files = [], sb_absent_paths = [], sb_aliases = Map.empty, sb_accounting = default_accounting\<rparr>
       unique = Ok b"
    and s: "snapshot = \<lparr>ws_workspace_identity = wk_identity workspace, ws_files = sb_files b,
       ws_absent_paths = sb_absent_paths b\<rparr>"
    by (auto simp: acquire_snapshot_def)
  note u' = note_requirements[OF u]
  have "build_inv H limits unique b"
  proof (rule try_fold_prefix_invariant[OF b])
    show "build_inv H limits []
        \<lparr>sb_files = [], sb_absent_paths = [], sb_aliases = Map.empty, sb_accounting = default_accounting\<rparr>"
      by (simp add: build_inv_def accounted_def default_accounting_def)
    show "build_inv H limits (pre @ [e]) b'" if "unique = pre @ e # post" "build_inv H limits pre b"
      "acquire_required H workspace os limits b e = Ok b'" for pre e post b b'
      using that(1) u' bt_sorted_distinct[of unique]
      by (intro acquire_required_inv[OF that(3,2) _ honest]) (auto simp: image_iff)
  qed
  then show thesis
    using that u' s lim by (auto simp: build_inv_def sat_u64_id)
qed

lemma sorted_filter_keys:
  "bt_sorted m \<Longrightarrow> sorted_wrt (<) (map fst (filter P m))"
  unfolding bt_sorted_def sorted_wrt_map by (rule sorted_wrt_filter)

subsection \<open>Errors\<close>

text \<open>Neither the walk nor a read reports a broken invariant.\<close>

lemma validate_path_no_invariant: "validate_path workspace view path \<noteq> Err (InternalInvariant x)"
proof -
  have "walk_component view path st c \<noteq> Err (InternalInvariant x)" for st c
    by (auto simp: walk_component_def invalid_path_def io_error_def Let_def
      split: prod.splits sum.splits ErrorKind.splits)
  then have "try_fold (walk_component view path) st cs \<noteq> Err (InternalInvariant x)" for st cs
    by (induction cs arbitrary: st) (auto simp: and_then_Err_iff)
  then show ?thesis
    by (auto simp: validate_path_def validated_kind_def Let_def and_then_Err_iff ensure_def invalid_path_def
      io_error_def map_err_def split: prod.splits sum.splits ErrorKind.splits if_splits FileType.splits)
qed

lemma read_loop_no_invariant:
  "read_loop rd file_limit used limit path k remaining bs \<noteq> Err (InternalInvariant x)"
proof (induction rd file_limit used limit path k remaining bs rule: read_loop.induct)
  case (1 rd file_limit used limit path k remaining bs)
  show ?case
    using 1
    by (subst read_loop.simps)
      (auto simp: and_then_Err_iff fs_checked_add_def fs_enforce_limit_def ok_or_def io_error_def
        split: sum.splits option.splits if_splits)
qed

lemma confirm_attempt_no_invariant:
  "confirm_attempt view path validated limits accounting before after bs digest \<noteq> Err (InternalInvariant x)"
  by (auto simp: confirm_attempt_def Let_def and_then_Err_iff map_err_def map_index_error_def io_error_def
    split: sum.splits ErrorKind.splits if_splits CoreError.splits)

lemma attempt_no_invariant:
  "acquire_existing_attempt H view path validated limits accounting \<noteq> Err (InternalInvariant x)"
  using confirm_attempt_no_invariant read_loop_no_invariant
  by (auto simp: acquire_existing_attempt_def Let_def and_then_Err_iff map_err_def io_error_def
    fs_enforce_limit_def fs_checked_add_def ok_or_def read_and_hash_bounded_def
    split: sum.splits ErrorKind.splits if_splits ValidatedKind.splits option.splits)

lemma attempts_no_invariant:
  assumes "attempts \<noteq> []" "last attempts + 1 = MAX_ACQUISITION_ATTEMPTS"
  shows "acquire_attempts H workspace views path required limits accounting attempts \<noteq> Err (InternalInvariant x)"
  using assms
proof (induction attempts)
  case (Cons attempt attempts)
  have "attempts \<noteq> []" if "attempt + 1 < MAX_ACQUISITION_ATTEMPTS"
    using that Cons.prems by auto
  then show ?case
    using Cons validate_path_no_invariant attempt_no_invariant
    by (auto simp: and_then_Err_iff split: ValidatedKind.splits option.splits RequiredPathState.splits
      AttemptResult.splits if_splits)
qed simp

lemma acquire_path_no_invariant:
  "acquire_path H workspace os path required limits accounting \<noteq> Err (InternalInvariant x)"
  unfolding acquire_path_def
  by (rule attempts_no_invariant) (auto simp: MAX_ACQUISITION_ATTEMPTS_def)

lemma inspect_path_Ok:
  assumes "inspect_path H workspace os limits b path = Ok b'"
  shows "bt_get (ib_observations b') path \<noteq> None \<and>
    (\<forall>p o1. bt_get (ib_observations b) p = Some o1 \<longrightarrow> bt_get (ib_observations b') p = Some o1) \<and>
    (\<forall>p o1. bt_get (ib_observations b') p = Some o1 \<longrightarrow>
       bt_get (ib_observations b) p = Some o1 \<or> in_path o1 = WorkspaceRelativePath p \<and> normalized_path p)"
proof (cases "bt_get (ib_observations b) path = None")
  case True
  with assms obtain accounting acquired where n: "normalized_path path"
    and a: "charge_identity (ib_accounting b) limits = Ok accounting"
      "acquire_path H workspace os (WorkspaceRelativePath path) None limits accounting = Ok acquired"
    by (auto simp: inspect_path_def parse_relative_path_Ok_iff)
  then show ?thesis
    using assms True
    by (cases acquired)
      (auto simp: inspect_path_def parse_relative_path_Ok_iff bt_get_put split: if_split_asm)
next
  case False
  then show ?thesis
    using assms by (auto simp: inspect_path_def parse_relative_path_Ok_iff)
qed

lemma inspect_paths_Ok:
  assumes "try_fold (inspect_path H workspace os limits)
       \<lparr>ib_observations = [], ib_aliases = Map.empty, ib_accounting = default_accounting\<rparr> paths = Ok b"
  shows "(\<forall>path\<in>set paths. bt_get (ib_observations b) path \<noteq> None) \<and>
    (\<forall>p o1. bt_get (ib_observations b) p = Some o1 \<longrightarrow> in_path o1 = WorkspaceRelativePath p \<and> normalized_path p)"
proof (rule try_fold_prefix_invariant[OF assms, where I = "\<lambda>pre b.
    (\<forall>path\<in>set pre. bt_get (ib_observations b) path \<noteq> None) \<and>
    (\<forall>p o1. bt_get (ib_observations b) p = Some o1 \<longrightarrow> in_path o1 = WorkspaceRelativePath p \<and> normalized_path p)"])
  show "(\<forall>path\<in>set (pre @ [x]). bt_get (ib_observations s') path \<noteq> None) \<and>
    (\<forall>p o1. bt_get (ib_observations s') p = Some o1 \<longrightarrow> in_path o1 = WorkspaceRelativePath p \<and> normalized_path p)"
    if "(\<forall>path\<in>set pre. bt_get (ib_observations s) path \<noteq> None) \<and>
    (\<forall>p o1. bt_get (ib_observations s) p = Some o1 \<longrightarrow> in_path o1 = WorkspaceRelativePath p \<and> normalized_path p)"
      "inspect_path H workspace os limits s x = Ok s'" for pre x post s s'
    using that(1) inspect_path_Ok[OF that(2)] by fastforce
qed (simp add: bt_get_def)

section \<open>Properties\<close>

text \<open>
  C12: an acquired snapshot contains exactly what was required and is fit for planning.
  Its files and absent paths are the required entries, each file with the required digest,
  both in strictly increasing path order; file identifiers count the files from zero; no
  physical file occurs twice; every digest is that of the bytes and every line index is that
  of the bytes; every path is normalized; and the file, byte, line and memory totals respect
  the limits.
\<close>

theorem acquired_snapshot_meets_requirements:
  assumes "acquire_snapshot H workspace os requirements limits = Ok snapshot"
    and "\<forall>p k. honest_reads (pv_read (os p k))"
  shows "existing_entry ` set (ws_files snapshot) \<union> absent_entry ` set (ws_absent_paths snapshot) =
      required_entry ` set requirements \<and>
    sorted_wrt (<) (map (\<lambda>f. path_value (fs_path f)) (ws_files snapshot)) \<and>
    sorted_wrt (<) (map (\<lambda>a. path_value (ap_path a)) (ws_absent_paths snapshot)) \<and>
    map fs_id (ws_files snapshot) = [0..<length (ws_files snapshot)] \<and>
    distinct (map fs_identity (ws_files snapshot)) \<and>
    list_all (file_consistent H limits) (ws_files snapshot) \<and> wf_snapshot snapshot \<and>
    (\<forall>r\<in>set requirements. normalized_path (path_value (sr_path r))) \<and>
    length (ws_files snapshot) + length (ws_absent_paths snapshot) \<le> sl_identities limits \<and>
    (\<Sum>f\<leftarrow>ws_files snapshot. length (fs_bytes f)) \<le> sl_total_bytes limits \<and>
    (\<Sum>f\<leftarrow>ws_files snapshot. index_line_count (fs_line_index f)) \<le> sl_total_lines limits \<and>
    (\<Sum>f\<leftarrow>ws_files snapshot. memory_bytes (fs_line_index f)) \<le> sl_line_index_memory limits"
proof -
  obtain unique b where u: "bt_sorted unique" "set unique = required_entry ` set requirements"
    "\<forall>r\<in>set requirements. normalized_path (path_value (sr_path r))"
    "build_inv H limits unique b" "length unique \<le> sl_identities limits"
    and s: "snapshot = \<lparr>ws_workspace_identity = wk_identity workspace, ws_files = sb_files b,
       ws_absent_paths = sb_absent_paths b\<rparr>"
    by (rule acquire_snapshot_inv[OF assms])
  have e: "map existing_entry (sb_files b) = filter (\<lambda>e. snd e \<noteq> AbsentState) unique"
    and a: "map absent_entry (sb_absent_paths b) = filter (\<lambda>e. snd e = AbsentState) unique"
    using u(4) by (simp_all add: build_inv_def)
  have "map (\<lambda>f. path_value (fs_path f)) (sb_files b) = map fst (map existing_entry (sb_files b))"
    "map (\<lambda>f. path_value (ap_path f)) (sb_absent_paths b) = map fst (map absent_entry (sb_absent_paths b))"
    by (simp_all add: existing_entry_def absent_entry_def)
  then have srt: "sorted_wrt (<) (map (\<lambda>f. path_value (fs_path f)) (sb_files b))"
    "sorted_wrt (<) (map (\<lambda>f. path_value (ap_path f)) (sb_absent_paths b))"
    unfolding e a by (simp_all only: sorted_filter_keys[OF u(1)])
  have "set (map existing_entry (sb_files b)) \<union> set (map absent_entry (sb_absent_paths b)) = set unique"
    unfolding e a by auto
  moreover have "length (sb_files b) + length (sb_absent_paths b) = length unique"
    using arg_cong[OF e, of length] arg_cong[OF a, of length]
      sum_length_filter_compl[of "\<lambda>e. snd e = AbsentState" unique] by simp
  moreover have "wf_snapshot snapshot"
    using u(4) by (auto simp: wf_snapshot_def s build_inv_def list_all_iff file_consistent_def)
  ultimately show ?thesis
    using u srt by (simp add: s build_inv_def accounted_def)
qed

text \<open>
  a file is acquired only from an attempt, one of at most three, that saw it stable:
  the walk found a regular file through real directories, the open file is that entry, its
  identity, length, times and links are the same before and after the read, the entry and its
  parent are still there, and the bytes are those of the reads up to the end of the file,
  exactly as many as the recorded length; the digest is theirs and the required one.
\<close>

theorem acquired_file_is_stable:
  assumes "acquire_path H workspace os path required limits accounting = Ok (AcquiredExisting f)"
    and "sa_bytes accounting \<le> sl_total_bytes limits" "\<forall>k. honest_reads (pv_read (os (path_value path) k))"
  shows "fs_path f = path \<and> file_consistent H limits f \<and> digest_as_required required f \<and>
    required \<noteq> Some AbsentState \<and>
    (\<exists>k<3. stable_observation H workspace (os (path_value path) k) limits accounting f)"
  using acquire_attempts_existing[OF assms(1)[unfolded acquire_path_def] assms(2,3)]
  by (auto simp: MAX_ACQUISITION_ATTEMPTS_def)

text \<open>
  the paths that snapshot acquisition accepts under its default limit are exactly
  those that the transaction journal accepts in a manifest: not empty, without NUL, with no
  empty, \<open>.\<close> or \<open>..\<close> component, not below the control directory, and of at most 4096 bytes.
\<close>

theorem journal_accepts_the_acquired_paths:
  "(validate_normalized_path v i = Ok () \<longleftrightarrow> (\<exists>p. parse_relative_path v MAX_PATH_BYTES = Ok p)) \<and>
   (validate_normalized_path v i = Ok () \<longleftrightarrow> normalized_path v \<and> length v \<le> 4096)"
proof -
  have "sat_u64 (length v) \<le> 4096 \<longleftrightarrow> length v \<le> 4096"
    by (auto simp: sat_u64_def u64_max_def min_def split: if_splits)
  moreover have "validate_normalized_path v i = Ok () \<longleftrightarrow> normalized_path v \<and> length v \<le> 4096"
    using split_on_absolute[of v "CHR ''/''"]
    by (auto simp: validate_normalized_path_def normalized_path_def list_ex_iff)
  ultimately show ?thesis
    by (auto simp: parse_relative_path_Ok_iff MAX_PATH_BYTES_def)
qed

text \<open>
  the two internal invariants of acquisition never fail. The bounded loop of attempts
  always returns from inside, and inspection has an answer for every path it accepted.
\<close>

theorem acquisition_invariants_never_fail:
  "acquire_path H workspace os path required limits accounting \<noteq>
     Err (InternalInvariant ''bounded_acquisition_loop_returns'') \<and>
   inspect H workspace os paths limits \<noteq>
     Err (InternalInvariant ''inspection_result_for_each_validated_path'')"
proof -
  have "inspect_path H workspace os limits b p \<noteq> Err (InternalInvariant x)" for b p x
    using acquire_path_no_invariant
    by (auto simp: inspect_path_def parse_relative_path_def Let_def and_then_Err_iff ensure_def
      fs_enforce_limit_def charge_identity_def charge_file_def fs_checked_add_def ok_or_def reject_alias_def
      split: if_splits option.splits AcquiredPath.splits)
  then have fold: "try_fold (inspect_path H workspace os limits) b ps \<noteq> Err (InternalInvariant x)" for b ps x
    by (induction ps arbitrary: b) (auto simp: and_then_Err_iff)
  have "try_map (\<lambda>path. ok_or (m path) e) ps \<noteq> Err e" if "\<forall>p\<in>set ps. m p \<noteq> None"
    for m :: "string \<Rightarrow> PathInspection option" and e :: FsError and ps
    using that by (induction ps) (auto simp: and_then_Err_iff)
  then have "inspect H workspace os paths limits \<noteq>
     Err (InternalInvariant ''inspection_result_for_each_validated_path'')"
    using fold inspect_paths_Ok by (fastforce simp: inspect_def and_then_Err_iff)
  then show ?thesis
    using acquire_path_no_invariant by blast
qed

text \<open>
  Inspection answers every requested path in request order, each answer about the
  path it stands for, and equal paths get equal answers.
\<close>

theorem inspection_answers_in_request_order:
  assumes "inspect H workspace os paths limits = Ok answers"
  shows "map in_path answers = map WorkspaceRelativePath paths \<and> list_all normalized_path paths \<and>
    (\<exists>answer. answers = map answer paths)"
proof -
  from assms obtain b where
    b: "try_fold (inspect_path H workspace os limits)
       \<lparr>ib_observations = [], ib_aliases = Map.empty, ib_accounting = default_accounting\<rparr> paths = Ok b"
    and m: "list_all2 (\<lambda>path o1. bt_get (ib_observations b) path = Some o1) paths answers"
    by (auto simp: inspect_def try_map_Ok_iff)
  have "answers = map (\<lambda>path. the (bt_get (ib_observations b) path)) paths"
    using m by (induction rule: list_all2_induct) auto
  moreover have "map in_path answers = map WorkspaceRelativePath paths \<and> list_all normalized_path paths"
    using m inspect_paths_Ok[OF b] by (induction rule: list_all2_induct) auto
  ultimately show ?thesis by blast
qed

section \<open>Witnesses\<close>

text \<open>A workspace with one file \<open>a\<close> that holds one byte.\<close>

definition sample_workspace :: Workspace where
  "sample_workspace = \<lparr>wk_canonical_root = [], wk_identity = \<lparr>fi_device = 1, fi_inode = 1\<rparr>\<rparr>"

definition sample_metadata :: "FileType \<Rightarrow> nat \<Rightarrow> Metadata" where
  "sample_metadata t inode = \<lparr>md_file_type = t, md_identity = \<lparr>fi_device = 1, fi_inode = inode\<rparr>, md_len = 1,
     md_mtime = 0, md_mtime_nsec = 0, md_ctime = 0, md_ctime_nsec = 0, md_nlink = 1, md_mode = 420\<rparr>"

definition sample_os :: Os where
  "sample_os path attempt =
     \<lparr>pv_symlink_metadata = (\<lambda>p. if p = [] then Ok (sample_metadata DirectoryType 1)
        else if p = [''a''] then Ok (sample_metadata RegularType 2) else Err NotFound),
      pv_open = Ok (), pv_metadata_before = Ok (sample_metadata RegularType 2),
      pv_read = (\<lambda>k n. Ok (if k = 0 then take n [97] else [])),
      pv_metadata_after = Ok (sample_metadata RegularType 2),
      pv_entry_after = Ok (sample_metadata RegularType 2),
      pv_parent_after = Ok (sample_metadata DirectoryType 1)\<rparr>"

definition sample_limits :: SnapshotLimits where
  "sample_limits = \<lparr>sl_path_bytes = 10, sl_identities = 10, sl_file_bytes = 10, sl_total_bytes = 10,
     sl_total_lines = 10, sl_line_index_memory = 100\<rparr>"

definition sample_file :: FileSnapshot where
  "sample_file = \<lparr>fs_id = 0, fs_path = WorkspaceRelativePath ''a'',
     fs_parent_identity = \<lparr>fi_device = 1, fi_inode = 1\<rparr>,
     fs_parent_identities = [\<lparr>fi_device = 1, fi_inode = 1\<rparr>],
     fs_identity = \<lparr>fi_device = 1, fi_inode = 2\<rparr>, fs_link_count = 1, fs_bytes = [97],
     fs_digest = replicate 32 0, fs_line_index = \<lparr>boundaries = [1]\<rparr>\<rparr>"

definition charged_once :: SnapshotAccounting where
  "charged_once = default_accounting\<lparr>sa_identities := 1\<rparr>"

lemma sample_honest: "honest_reads (pv_read (sample_os p k))"
  by (simp add: honest_reads_def sample_os_def)

lemma sample_index: "from_bytes_with_limits [97] 10 100 = Ok \<lparr>boundaries = [1]\<rparr>"
  by (simp add: from_bytes_with_limits_Ok_iff lines_fit_def u64_max_def is_terminator_byte_def)

lemma sample_read: "read_and_hash_bounded zero_digest (pv_read (sample_os p k)) 10 0 10 path = Ok ([97], replicate 32 0)"
proof -
  have "saturating_add_u64 10 1 = 11"
    by (simp add: saturating_add_u64_def u64_max_def)
  then show ?thesis
    by (simp add: read_and_hash_bounded_def read_loop.simps sample_os_def SNAPSHOT_BUFFER_BYTES_def
      fs_checked_add_def fs_enforce_limit_def checked_add_u64_def u64_max_def sat_u64_def zero_digest_def)
qed

lemma sample_acquired:
  assumes "digest_as_required required sample_file" "required \<noteq> Some AbsentState"
  shows "acquire_path zero_digest sample_workspace sample_os (WorkspaceRelativePath ''a'') required sample_limits
    charged_once = Ok (AcquiredExisting sample_file)"
proof -
  let ?path = "WorkspaceRelativePath ''a''"
  define validated where "validated = \<lparr>vp_full_path = [''a''], vp_parent_path = [],
    vp_parent_identity = \<lparr>fi_device = 1, fi_inode = 1\<rparr>,
    vp_parent_identities = [\<lparr>fi_device = 1, fi_inode = 1\<rparr>], vp_basename = ''a'',
    vp_kind = ValidatedExisting \<lparr>fi_device = 1, fi_inode = 2\<rparr>\<rparr>"
  have "validate_path sample_workspace (sample_os ''a'' 0) ?path = Ok validated"
    by (simp add: validate_path_def validated_kind_def sample_workspace_def sample_os_def sample_metadata_def
      validated_def Let_def)
  moreover have "acquire_existing_attempt zero_digest (sample_os ''a'' 0) ?path validated sample_limits
      charged_once = Ok (Stable sample_file)"
    using sample_read[of "''a''" 0 ?path] sample_index
    by (simp add: acquire_existing_attempt_def validated_def Let_def sample_limits_def
      charged_once_def default_accounting_def fs_enforce_limit_def fs_checked_add_def checked_add_u64_def)
      (simp add: confirm_attempt_def Let_def sample_os_def sample_metadata_def signature_def
        sample_file_def u64_max_def sat_u64_def)
  moreover have "[0..<MAX_ACQUISITION_ATTEMPTS] = [0, 1, 2]"
    by (simp add: MAX_ACQUISITION_ATTEMPTS_def upt_rec)
  ultimately show ?thesis
    using assms
    by (auto simp: acquire_path_def validated_def digest_as_required_def
      split: option.splits RequiredPathState.splits)
qed

lemma sample_parse: "parse_relative_path ''a'' 10 = Ok (WorkspaceRelativePath ''a'')"
  by (simp add: parse_relative_path_Ok_iff normalized_path_def eq_ignore_ascii_case_def sat_u64_def u64_max_def)

lemma sample_charge_identity: "charge_identity default_accounting sample_limits = Ok charged_once"
  by (simp add: charge_identity_def default_accounting_def sample_limits_def charged_once_def
    fs_checked_add_def checked_add_u64_def fs_enforce_limit_def u64_max_def)

lemma sample_charge_file: "\<exists>a. charge_file charged_once sample_file sample_limits = Ok a"
  by (simp add: charge_file_def charged_once_def default_accounting_def sample_file_def sample_limits_def
    fs_checked_add_def checked_add_u64_def fs_enforce_limit_def u64_max_def sat_u64_def index_line_count_def
    memory_bytes_def saturating_mul_u64_def)

theorem acquired_snapshot_meets_requirements_witness:
  "\<exists>snapshot. acquire_snapshot zero_digest sample_workspace sample_os
      [\<lparr>sr_path = WorkspaceRelativePath ''a'', sr_state = ExistingState (replicate 32 0)\<rparr>] sample_limits = Ok snapshot \<and>
    wf_snapshot snapshot \<and> map fs_id (ws_files snapshot) = [0]"
proof -
  let ?req = "[\<lparr>sr_path = WorkspaceRelativePath ''a'', sr_state = ExistingState (replicate 32 0)\<rparr>]"
  let ?snapshot = "\<lparr>ws_workspace_identity = wk_identity sample_workspace, ws_files = [sample_file],
    ws_absent_paths = []\<rparr>"
  have "try_fold (note_requirement sample_limits) [] ?req = Ok [(''a'', ExistingState (replicate 32 0))]"
    using sample_parse by (simp add: note_requirement_def sample_limits_def bt_get_def)
  moreover have "acquire_path zero_digest sample_workspace sample_os (WorkspaceRelativePath ''a'')
      (Some (ExistingState (replicate 32 0))) sample_limits charged_once = Ok (AcquiredExisting sample_file)"
    by (rule sample_acquired) (simp_all add: digest_as_required_def sample_file_def)
  ultimately have ok: "acquire_snapshot zero_digest sample_workspace sample_os ?req sample_limits = Ok ?snapshot"
    using sample_charge_identity sample_charge_file
    by (auto simp: acquire_snapshot_def acquire_required_def Let_def reject_alias_def sample_file_def
      fs_enforce_limit_def sample_limits_def sat_u64_def u64_max_def)
  from acquired_snapshot_meets_requirements[OF ok] sample_honest ok show ?thesis
    by auto
qed

theorem acquired_file_is_stable_witness:
  "acquire_path zero_digest sample_workspace sample_os (WorkspaceRelativePath ''a'') None sample_limits
     charged_once = Ok (AcquiredExisting sample_file) \<and>
   (\<exists>k<3. stable_observation zero_digest sample_workspace (sample_os ''a'' k) sample_limits charged_once sample_file)"
proof -
  have "acquire_path zero_digest sample_workspace sample_os (WorkspaceRelativePath ''a'') None sample_limits
     charged_once = Ok (AcquiredExisting sample_file)"
    by (rule sample_acquired) (simp_all add: digest_as_required_def)
  from this acquired_file_is_stable[OF this] sample_honest show ?thesis
    by (auto simp: charged_once_def default_accounting_def)
qed

theorem inspection_answers_in_request_order_witness:
  "\<exists>answers. inspect zero_digest sample_workspace sample_os [''a'', ''a''] sample_limits = Ok answers \<and>
     map in_path answers = [WorkspaceRelativePath ''a'', WorkspaceRelativePath ''a'']"
proof -
  have "acquire_path zero_digest sample_workspace sample_os (WorkspaceRelativePath ''a'')
      None sample_limits charged_once = Ok (AcquiredExisting sample_file)"
    by (rule sample_acquired) (simp_all add: digest_as_required_def)
  then have "\<exists>b1. inspect_path zero_digest sample_workspace sample_os sample_limits
      \<lparr>ib_observations = [], ib_aliases = Map.empty, ib_accounting = default_accounting\<rparr> ''a'' = Ok b1"
    using sample_charge_identity sample_charge_file sample_parse
    by (simp add: inspect_path_def reject_alias_def bt_get_def sample_limits_def)
  then obtain b1 where s1: "inspect_path zero_digest sample_workspace sample_os sample_limits
      \<lparr>ib_observations = [], ib_aliases = Map.empty, ib_accounting = default_accounting\<rparr> ''a'' = Ok b1"
    by blast
  then have get: "bt_get (ib_observations b1) ''a'' \<noteq> None"
    using inspect_path_Ok by blast
  then have "inspect_path zero_digest sample_workspace sample_os sample_limits b1 ''a'' = Ok b1"
    using sample_parse by (simp add: inspect_path_def sample_limits_def)
  with s1 get have "\<exists>answers. inspect zero_digest sample_workspace sample_os [''a'', ''a''] sample_limits = Ok answers"
    by (auto simp: inspect_def)
  then show ?thesis
    using inspection_answers_in_request_order by fastforce
qed

end
