(* ===== verification/Control.thy ===== *)
theory Control
  imports Recovery_Classifier Snapshot
begin

text \<open>
  The control tree \<open>.srcmv\<close> (\<open>crates/srcmv-fs/src/control.rs\<close>): validation of its objects, the
  bounded scan that reads every transaction directory back, the gate for new transactions,
  allocation of transaction directories and the terminal cleanup. A directory is its sorted
  listing of names (all of them valid UTF-8); a child is a regular file with its bytes or
  something else. The user and the random source are parameters.
\<close>

section \<open>Data\<close>

definition CONTROL_NAME :: string where "CONTROL_NAME = ''.srcmv''"
definition LEGACY_CONTROL_NAME :: string where "LEGACY_CONTROL_NAME = ''.codesplice''"
definition TRANSACTIONS_NAME :: string where "TRANSACTIONS_NAME = ''transactions''"
definition COMPLETED_NAME :: string where "COMPLETED_NAME = ''completed''"
definition LOCK_NAME :: string where "LOCK_NAME = ''lock''"
definition MAX_ID_ATTEMPTS :: nat where "MAX_ID_ATTEMPTS = 8"

datatype RecoveryEntryKind = OrphanRecord | ManifestOnly | Active | CleanupOnly

fun entry_kind_as_str :: "RecoveryEntryKind \<Rightarrow> string" where
  "entry_kind_as_str OrphanRecord = ''orphan_record''"
| "entry_kind_as_str ManifestOnly = ''manifest_only''"
| "entry_kind_as_str Active = ''active''"
| "entry_kind_as_str CleanupOnly = ''cleanup_only''"

record RecoveryEntry =
  re_transaction_id :: string
  re_kind :: RecoveryEntryKind
  re_actions :: "string list"
  re_visibility :: string
  re_active_path :: "string list option"
  re_completed_path :: "string list option"

record ControlObservation =
  cob_entries :: "RecoveryEntry list"

record ControlPaths =
  cp_control :: "string list"
  cp_transactions :: "string list"
  cp_completed :: "string list"
  cp_lock :: "string list"

definition control_paths :: "Workspace \<Rightarrow> ControlPaths" where
  "control_paths workspace =
     (let control = wk_canonical_root workspace @ [CONTROL_NAME] in
      \<lparr>cp_control = control, cp_transactions = control @ [TRANSACTIONS_NAME],
       cp_completed = control @ [COMPLETED_NAME], cp_lock = control @ [LOCK_NAME]\<rparr>)"

text \<open>What a directory contains, and the objects of the control tree.\<close>

datatype Child = RegularChild bytes | IrregularChild

type_synonym listing = "(string, Child) btree"

record ControlObject =
  co_file_type :: FileType
  co_identity :: "nat \<times> nat"
  co_uid :: nat
  co_mode :: nat

record TransactionEntry =
  te_object :: ControlObject
  te_children :: listing

record ControlTree =
  ct_root :: "ControlObject option"
  ct_control :: "ControlObject option"
  ct_transactions :: "ControlObject option"
  ct_completed :: "ControlObject option"
  ct_lock :: "ControlObject option"
  ct_active :: "(string, TransactionEntry) btree"
  ct_done :: "(string, TransactionEntry) btree"

section \<open>Names\<close>

definition strip_suffix :: "string \<Rightarrow> string \<Rightarrow> string option" where
  "strip_suffix suffix s =
     (if length suffix \<le> length s \<and> drop (length s - length suffix) s = suffix
      then Some (take (length s - length suffix) s) else None)"

definition is_ascii_digit :: "char \<Rightarrow> bool" where
  "is_ascii_digit c \<longleftrightarrow> 48 \<le> (of_char c :: nat) \<and> (of_char c :: nat) \<le> 57"

definition parse_state_name :: "string \<Rightarrow> string \<Rightarrow> nat option" where
  "parse_state_name name extension =
     (case strip_prefix ''state-'' name of
        None \<Rightarrow> None
      | Some rest \<Rightarrow>
          (case strip_suffix (''.'' @ extension) rest of
             None \<Rightarrow> None
           | Some digits \<Rightarrow>
               if length digits = 8 \<and> list_all is_ascii_digit digits \<and>
                  value_of digits 0 < MAX_STATE_RECORDS
               then Some (value_of digits 0) else None))"

definition is_artifact_name :: "string \<Rightarrow> string \<Rightarrow> bool" where
  "is_artifact_name name prefix =
     (case strip_prefix (prefix @ ''-'') name of
        None \<Rightarrow> False
      | Some digits \<Rightarrow> length digits = 8 \<and> list_all is_ascii_digit digits \<and>
          value_of digits 0 < MAX_TRANSACTION_TARGETS)"

definition completed_suffix :: "string \<Rightarrow> string \<times> string \<Rightarrow> (string \<times> string) option" where
  "completed_suffix name entry =
     (case entry of (suffix, state) \<Rightarrow>
      case strip_suffix suffix name of
        Some i \<Rightarrow> if validate_transaction_id i = Ok () then Some (i, state) else None
      | None \<Rightarrow> None)"

definition parse_completed_name :: "string \<Rightarrow> (string \<times> string) option" where
  "parse_completed_name name =
     (case completed_suffix name (''-committed'', ''committed'') of
        Some r \<Rightarrow> Some r
      | None \<Rightarrow> completed_suffix name (''-rolledback'', ''rolledback''))"

definition hex_lower :: "bytes \<Rightarrow> string" where
  "hex_lower bs = concat (map (\<lambda>byte. [HEX ! unat (drop_bit 4 byte), HEX ! unat (and byte 15)]) bs)"

section \<open>Validation of objects\<close>

definition validate_owned_object :: "nat \<Rightarrow> ControlObject option \<Rightarrow> bool \<Rightarrow> FsError + unit" where
  "validate_owned_object euid object directory =
     (case object of
        None \<Rightarrow> Err (ControlDirectoryInvalid ''control_object_missing'')
      | Some m \<Rightarrow>
          and_then (ensure (co_file_type m = (if directory then DirectoryType else RegularType))
            (ControlDirectoryInvalid ''control_object_type_invalid'')) (\<lambda>_.
          and_then (ensure (co_uid m = euid)
            (ControlDirectoryInvalid ''control_object_not_owned_by_user'')) (\<lambda>_.
          ensure (and (co_mode m) 18 = 0)
            (ControlDirectoryInvalid ''control_object_group_or_other_writable''))))"

definition validate_control_tree :: "nat \<Rightarrow> ControlTree \<Rightarrow> FsError + unit" where
  "validate_control_tree euid tree =
     and_then (validate_owned_object euid (ct_control tree) True) (\<lambda>_.
     and_then (validate_owned_object euid (ct_transactions tree) True) (\<lambda>_.
     and_then (validate_owned_object euid (ct_completed tree) True) (\<lambda>_.
     validate_owned_object euid (ct_lock tree) False)))"

definition validate_transaction_directory :: "nat \<Rightarrow> ControlObject \<Rightarrow> FsError + unit" where
  "validate_transaction_directory euid object =
     and_then (validate_owned_object euid (Some object) True) (\<lambda>_.
     ensure (and (co_mode object) 63 = 0) (ControlDirectoryInvalid ''transaction_directory_not_private''))"

definition charge_directory :: "nat \<Rightarrow> TransactionLimits \<Rightarrow> FsError + nat" where
  "charge_directory current limits =
     (let actual = saturating_add_u64 current 1 in
      if tl_transaction_directories limits < actual
      then Err (FsResourceLimitExceeded ''transaction_directories'' actual (tl_transaction_directories limits))
      else Ok actual)"

definition control_io :: "string \<Rightarrow> ErrorKind \<Rightarrow> FsError" where
  "control_io operation kind = Io operation None kind"

section \<open>Reading a transaction directory\<close>

text \<open>The record and the bytes read so far by the command.\<close>

definition read_record_bounded ::
    "listing \<Rightarrow> string \<Rightarrow> nat \<Rightarrow> TransactionLimits \<Rightarrow> FsError + (bytes \<times> nat)" where
  "read_record_bounded children name cumulative limits =
     (case bt_get children name of
        None \<Rightarrow> Err (record_io ''inspect_record'' NotFound)
      | Some IrregularChild \<Rightarrow> Err (corrupt None ''record_not_regular_file'')
      | Some (RegularChild bs) \<Rightarrow>
          and_then (ensure (length bs \<le> tl_record_bytes limits) (corrupt None ''record_oversized'')) (\<lambda>_.
          and_then (ok_or (checked_add_u64 cumulative (length bs))
            (FsResourceLimitExceeded ''recovery_bytes'' u64_max (tl_recovery_bytes limits))) (\<lambda>cumulative.
          and_then (ensure (cumulative \<le> tl_recovery_bytes limits)
            (FsResourceLimitExceeded ''recovery_bytes'' cumulative (tl_recovery_bytes limits))) (\<lambda>_.
          Ok (bs, cumulative)))))"

record ChainState =
  cc_prior :: "(StateSnapshot \<times> string) option"
  cc_state_bytes :: nat
  cc_cumulative :: nat

definition check_chain_link ::
    "string \<Rightarrow> (StateSnapshot \<times> string) option \<Rightarrow> StateSnapshot \<Rightarrow> FsError + unit" where
  "check_chain_link i prior state =
     (case prior of
        Some (previous, prior_checksum) \<Rightarrow>
          and_then (ensure (sn_prior_state_checksum state = Some prior_checksum)
            (corrupt (Some i) ''state_chain_fork'')) (\<lambda>_.
          validate_state_transition previous state)
      | None \<Rightarrow>
          ensure (sn_sequence state = 0 \<and> sn_global_state state = Preparing \<and>
              sn_prior_state_checksum state = None)
            (corrupt (Some i) ''state_zero_invalid''))"

definition fold_chain_step ::
    "(bytes \<Rightarrow> Sha256Digest) \<Rightarrow> StateSnapshot Codec \<Rightarrow> listing \<Rightarrow> string \<Rightarrow> Manifest \<Rightarrow> Sha256Digest
      \<Rightarrow> (nat, string) btree \<Rightarrow> TransactionLimits \<Rightarrow> ChainState \<Rightarrow> nat \<Rightarrow> FsError + ChainState" where
  "fold_chain_step H codec children i manifest manifest_checksum state_names limits st expected =
     and_then (ok_or (bt_get state_names expected) (corrupt (Some i) ''state_chain_gap'')) (\<lambda>name.
     and_then (read_record_bounded children name (cc_cumulative st) limits) (\<lambda>(bs, cumulative).
     and_then (ok_or (checked_add_u64 (cc_state_bytes st) (cumulative - cc_cumulative st))
       (corrupt (Some i) ''state_bytes_overflow'')) (\<lambda>state_bytes.
     and_then (ensure (state_bytes \<le> tl_state_bytes limits)
       (FsResourceLimitExceeded ''state_record_bytes'' state_bytes (tl_state_bytes limits))) (\<lambda>_.
     and_then (decode_state_record_with_checksum H codec bs (Some i) limits) (\<lambda>decoded.
     let state = dr_payload decoded in
     and_then (ensure (sn_sequence state = expected \<and>
         sn_manifest_checksum state = checksum_text manifest_checksum \<and>
         length (sn_targets state) = length (mf_targets manifest))
       (corrupt (Some i) ''state_chain_manifest_or_sequence_mismatch'')) (\<lambda>_.
     and_then (validate_state_against_manifest state manifest) (\<lambda>_.
     and_then (check_chain_link i (cc_prior st) state) (\<lambda>_.
     Ok \<lparr>cc_prior = Some (state, checksum_text (dr_checksum decoded)), cc_state_bytes = state_bytes,
         cc_cumulative = cumulative\<rparr>))))))))"

definition fold_state_chain ::
    "(bytes \<Rightarrow> Sha256Digest) \<Rightarrow> StateSnapshot Codec \<Rightarrow> listing \<Rightarrow> string \<Rightarrow> Manifest \<Rightarrow> Sha256Digest
      \<Rightarrow> (nat, string) btree \<Rightarrow> nat \<Rightarrow> TransactionLimits \<Rightarrow> FsError + ((StateSnapshot \<times> string) \<times> nat)" where
  "fold_state_chain H codec children i manifest manifest_checksum state_names cumulative limits =
     (let count = sat_u64 (length state_names) in
      and_then (ensure (count \<le> tl_state_records limits)
        (FsResourceLimitExceeded ''state_records'' count (tl_state_records limits))) (\<lambda>_.
      and_then (try_fold (fold_chain_step H codec children i manifest manifest_checksum state_names limits)
        \<lparr>cc_prior = None, cc_state_bytes = 0, cc_cumulative = cumulative\<rparr> [0..<count]) (\<lambda>st.
      and_then (ok_or (cc_prior st) (corrupt (Some i) ''state_chain_empty'')) (\<lambda>prior.
      Ok (prior, cc_cumulative st)))))"

definition check_manifest_only_entry ::
    "(bytes \<Rightarrow> Sha256Digest) \<Rightarrow> StateSnapshot Codec \<Rightarrow> listing \<Rightarrow> string \<Rightarrow> Manifest \<Rightarrow> Sha256Digest
      \<Rightarrow> TransactionLimits \<Rightarrow> nat \<Rightarrow> string \<Rightarrow> FsError + nat" where
  "check_manifest_only_entry H codec children i manifest manifest_checksum limits cumulative name =
     (if name = ''manifest.rec'' then Ok cumulative
      else if name = ''state-00000000.tmp''
      then
        and_then (read_record_bounded children name cumulative limits) (\<lambda>(bs, cumulative).
        and_then (decode_state_record_with_checksum H codec bs (Some i) limits) (\<lambda>decoded.
        let state = dr_payload decoded in
        and_then (ensure (sn_sequence state = 0 \<and> sn_global_state state = Preparing \<and>
            sn_manifest_checksum state = checksum_text manifest_checksum)
          (corrupt (Some i) ''manifest_only_temporary_invalid'')) (\<lambda>_.
        and_then (validate_state_against_manifest state manifest) (\<lambda>_. Ok cumulative))))
      else Err (corrupt (Some i) ''manifest_only_unknown_entry''))"

definition validate_manifest_only_entries ::
    "(bytes \<Rightarrow> Sha256Digest) \<Rightarrow> StateSnapshot Codec \<Rightarrow> listing \<Rightarrow> string \<Rightarrow> Manifest \<Rightarrow> Sha256Digest
      \<Rightarrow> nat \<Rightarrow> TransactionLimits \<Rightarrow> FsError + nat" where
  "validate_manifest_only_entries H codec children i manifest manifest_checksum cumulative limits =
     try_fold (check_manifest_only_entry H codec children i manifest manifest_checksum limits) cumulative
       (map fst children)"

definition validate_active_name :: "listing \<Rightarrow> Manifest \<Rightarrow> string \<Rightarrow> string \<Rightarrow> FsError + unit" where
  "validate_active_name children manifest i name =
     (let authorized = concat (map (\<lambda>t. [mt_candidate_name t, mt_backup_name t]) (mf_targets manifest)) in
      and_then (ensure (name = ''manifest.rec'' \<or> name = ''manifest.tmp'' \<or>
          parse_state_name name ''rec'' \<noteq> None \<or> parse_state_name name ''tmp'' \<noteq> None \<or>
          name \<in> set authorized)
        (corrupt (Some i) ''active_transaction_unknown_entry'')) (\<lambda>_.
      if name \<in> set authorized
      then case bt_get children name of
             None \<Rightarrow> Err (control_io ''inspect_transaction_artifact'' NotFound)
           | Some IrregularChild \<Rightarrow> Err (corrupt (Some i) ''transaction_artifact_not_regular'')
           | Some (RegularChild _) \<Rightarrow> Ok ()
      else Ok ()))"

definition validate_active_names :: "listing \<Rightarrow> Manifest \<Rightarrow> string \<Rightarrow> FsError + unit" where
  "validate_active_names children manifest i =
     and_then (try_map (validate_active_name children manifest i) (map fst children)) (\<lambda>_. Ok ())"

record TemporaryContext =
  tc_manifest :: Manifest
  tc_manifest_checksum :: Sha256Digest
  tc_last_state :: StateSnapshot
  tc_last_checksum :: string

definition validate_temporary ::
    "(bytes \<Rightarrow> Sha256Digest) \<Rightarrow> StateSnapshot Codec \<Rightarrow> listing \<Rightarrow> string \<Rightarrow> TemporaryContext \<Rightarrow> nat
      \<Rightarrow> TransactionLimits \<Rightarrow> nat \<times> nat \<Rightarrow> string \<Rightarrow> FsError + (nat \<times> nat)" where
  "validate_temporary H codec children i context expected_sequence limits st name =
     (case (st, parse_state_name name ''tmp'') of
        (_, None) \<Rightarrow> Ok st
      | ((temporary_count, cumulative), Some sequence) \<Rightarrow>
          and_then (read_record_bounded children name cumulative limits) (\<lambda>(bs, cumulative).
          and_then (decode_state_record_with_checksum H codec bs (Some i) limits) (\<lambda>decoded.
          let state = dr_payload decoded in
          and_then (ensure (sn_sequence state = sequence \<and> sn_sequence state = expected_sequence \<and>
              sn_manifest_checksum state = checksum_text (tc_manifest_checksum context) \<and>
              sn_prior_state_checksum state = Some (tc_last_checksum context))
            (corrupt (Some i) ''state_temporary_sequence_mismatch'')) (\<lambda>_.
          and_then (validate_state_against_manifest state (tc_manifest context)) (\<lambda>_.
          and_then (validate_state_transition (tc_last_state context) state) (\<lambda>_.
          Ok (saturating_add_u64 temporary_count 1, cumulative)))))))"

definition validate_temporaries ::
    "(bytes \<Rightarrow> Sha256Digest) \<Rightarrow> StateSnapshot Codec \<Rightarrow> listing \<Rightarrow> string \<Rightarrow> TemporaryContext \<Rightarrow> nat
      \<Rightarrow> TransactionLimits \<Rightarrow> FsError + nat" where
  "validate_temporaries H codec children i context cumulative limits =
     and_then (ensure (''manifest.tmp'' \<notin> fst ` set children)
       (corrupt (Some i) ''published_manifest_has_temporary'')) (\<lambda>_.
     and_then (ok_or (checked_add_u64 (sn_sequence (tc_last_state context)) 1)
       (corrupt (Some i) ''state_sequence_overflow'')) (\<lambda>expected_sequence.
     and_then (try_fold (validate_temporary H codec children i context expected_sequence limits)
       (0, cumulative) (map fst children)) (\<lambda>(temporary_count, cumulative).
     and_then (ensure (temporary_count \<le> 1) (corrupt (Some i) ''multiple_state_temporaries'')) (\<lambda>_.
     Ok cumulative))))"

fun actions_for_state :: "GlobalState \<Rightarrow> string list" where
  "actions_for_state Preparing = [''status'', ''rollback'']"
| "actions_for_state Prepared = [''status'', ''complete'', ''rollback'']"
| "actions_for_state Committing = [''status'', ''complete'', ''rollback'']"
| "actions_for_state Committed = [''status'', ''cleanup'']"
| "actions_for_state RolledBack = [''status'', ''cleanup'']"
| "actions_for_state RollingBack = [''status'', ''rollback'']"

fun visibility_for_state :: "GlobalState \<Rightarrow> string" where
  "visibility_for_state Preparing = ''all_original''"
| "visibility_for_state Prepared = ''all_original''"
| "visibility_for_state RolledBack = ''all_original''"
| "visibility_for_state Committing = ''mixed_old_new_possible''"
| "visibility_for_state RollingBack = ''mixed_old_new_possible''"
| "visibility_for_state Committed = ''all_planned''"

definition active_entry :: "string list \<Rightarrow> string \<Rightarrow> RecoveryEntryKind \<Rightarrow> string list \<Rightarrow> string \<Rightarrow> RecoveryEntry" where
  "active_entry path i kind actions visibility =
     \<lparr>re_transaction_id = i, re_kind = kind, re_actions = actions, re_visibility = visibility,
      re_active_path = Some path, re_completed_path = None\<rparr>"

definition state_names_of :: "listing \<Rightarrow> (nat, string) btree" where
  "state_names_of children =
     fold (\<lambda>name m. case parse_state_name name ''rec'' of None \<Rightarrow> m | Some sequence \<Rightarrow> bt_put sequence name m)
       (map fst children) []"

definition inspect_orphan ::
    "(bytes \<Rightarrow> Sha256Digest) \<Rightarrow> Manifest Codec \<Rightarrow> string list \<Rightarrow> listing \<Rightarrow> string \<Rightarrow> nat \<Rightarrow> TransactionLimits
      \<Rightarrow> FsError + (RecoveryEntry \<times> nat)" where
  "inspect_orphan H mcodec path children i cumulative limits =
     and_then (ensure (list_all (\<lambda>name. name = ''manifest.tmp'') (map fst children))
       (corrupt (Some i) ''orphan_record_unknown_entry'')) (\<lambda>_.
     and_then
       (if ''manifest.tmp'' \<in> fst ` set children
        then
          and_then (read_record_bounded children ''manifest.tmp'' cumulative limits) (\<lambda>(bs, cumulative).
          and_then (decode_manifest_record_with_checksum H mcodec bs (Some i) limits) (\<lambda>decoded.
          and_then (ensure (mf_transaction_id (dr_payload decoded) = i)
            (corrupt (Some i) ''manifest_id_mismatch'')) (\<lambda>_. Ok cumulative)))
        else Ok cumulative) (\<lambda>cumulative.
     Ok (active_entry path i OrphanRecord [''status'', ''rollback''] ''all_original'', cumulative)))"

definition inspect_active_transaction ::
    "(bytes \<Rightarrow> Sha256Digest) \<Rightarrow> Manifest Codec \<Rightarrow> StateSnapshot Codec \<Rightarrow> string list \<Rightarrow> listing \<Rightarrow> string \<Rightarrow> nat
      \<Rightarrow> TransactionLimits \<Rightarrow> FsError + (RecoveryEntry \<times> nat)" where
  "inspect_active_transaction H mcodec scodec path children i cumulative limits =
     (if ''manifest.rec'' \<notin> fst ` set children
      then inspect_orphan H mcodec path children i cumulative limits
      else
     and_then (read_record_bounded children ''manifest.rec'' cumulative limits) (\<lambda>(manifest_bytes, cumulative).
     and_then (decode_manifest_record_with_checksum H mcodec manifest_bytes (Some i) limits) (\<lambda>manifest_record.
     let manifest = dr_payload manifest_record in
     and_then (ensure (mf_transaction_id manifest = i) (corrupt (Some i) ''manifest_id_mismatch'')) (\<lambda>_.
     let state_names = state_names_of children in
     if state_names = []
     then
       and_then (validate_manifest_only_entries H scodec children i manifest (dr_checksum manifest_record)
         cumulative limits) (\<lambda>cumulative.
       Ok (active_entry path i ManifestOnly [''status'', ''rollback''] ''all_original'', cumulative))
     else
       and_then (validate_active_names children manifest i) (\<lambda>_.
       and_then (fold_state_chain H scodec children i manifest (dr_checksum manifest_record) state_names
         cumulative limits) (\<lambda>((last_state, last_checksum), cumulative).
       and_then (validate_temporaries H scodec children i
         \<lparr>tc_manifest = manifest, tc_manifest_checksum = dr_checksum manifest_record,
          tc_last_state = last_state, tc_last_checksum = last_checksum\<rparr> cumulative limits) (\<lambda>cumulative.
       Ok (active_entry path i Active (actions_for_state (sn_global_state last_state))
             (visibility_for_state (sn_global_state last_state)), cumulative))))))))"

section \<open>Completed transactions and the scan\<close>

definition validate_completed_entry ::
    "(bytes \<Rightarrow> Sha256Digest) \<Rightarrow> Manifest Codec \<Rightarrow> StateSnapshot Codec \<Rightarrow> listing \<Rightarrow> string
      \<Rightarrow> TransactionLimits \<Rightarrow> nat \<Rightarrow> string \<times> Child \<Rightarrow> FsError + nat" where
  "validate_completed_entry H mcodec scodec children i limits cumulative entry =
     (case entry of (name, child) \<Rightarrow>
      and_then (ensure (name = ''manifest.rec'' \<or> parse_state_name name ''rec'' \<noteq> None \<or>
          parse_state_name name ''tmp'' \<noteq> None \<or> is_artifact_name name ''candidate'' \<or>
          is_artifact_name name ''backup'')
        (corrupt (Some i) ''completed_transaction_unknown_entry'')) (\<lambda>_.
      case child of
        IrregularChild \<Rightarrow> Err (corrupt (Some i) ''completed_entry_not_regular'')
      | RegularChild content \<Rightarrow>
          if name = ''manifest.rec''
          then
            and_then (read_record_bounded children name cumulative limits) (\<lambda>(bs, cumulative).
            and_then (decode_manifest_record_with_checksum H mcodec bs (Some i) limits) (\<lambda>_.
            Ok cumulative))
          else case (case parse_state_name name ''rec'' of Some s \<Rightarrow> Some s | None \<Rightarrow> parse_state_name name ''tmp'') of
            Some sequence \<Rightarrow>
              and_then (read_record_bounded children name cumulative limits) (\<lambda>(bs, cumulative).
              and_then (decode_state_record_with_checksum H scodec bs (Some i) limits) (\<lambda>decoded.
              and_then (ensure (sn_sequence (dr_payload decoded) = sequence)
                (corrupt (Some i) ''completed_state_sequence_mismatch'')) (\<lambda>_.
              Ok cumulative)))
          | None \<Rightarrow>
              and_then (ok_or (checked_add_u64 cumulative (length content))
                (FsResourceLimitExceeded ''recovery_bytes'' u64_max (tl_recovery_bytes limits))) (\<lambda>cumulative.
              and_then (ensure (cumulative \<le> tl_recovery_bytes limits)
                (FsResourceLimitExceeded ''recovery_bytes'' cumulative (tl_recovery_bytes limits))) (\<lambda>_.
              Ok cumulative))))"

definition validate_completed_contents ::
    "(bytes \<Rightarrow> Sha256Digest) \<Rightarrow> Manifest Codec \<Rightarrow> StateSnapshot Codec \<Rightarrow> listing \<Rightarrow> string \<Rightarrow> nat
      \<Rightarrow> TransactionLimits \<Rightarrow> FsError + nat" where
  "validate_completed_contents H mcodec scodec children i cumulative limits =
     try_fold (validate_completed_entry H mcodec scodec children i limits) cumulative children"

record ScanState =
  sc_cumulative :: nat
  sc_scanned :: nat
  sc_entries :: "(string, RecoveryEntry) btree"

definition scan_active ::
    "nat \<Rightarrow> (bytes \<Rightarrow> Sha256Digest) \<Rightarrow> Manifest Codec \<Rightarrow> StateSnapshot Codec \<Rightarrow> ControlPaths \<Rightarrow> TransactionLimits
      \<Rightarrow> ScanState \<Rightarrow> string \<times> TransactionEntry \<Rightarrow> FsError + ScanState" where
  "scan_active euid H mcodec scodec paths limits st entry =
     (case entry of (name, t) \<Rightarrow>
      and_then (charge_directory (sc_scanned st) limits) (\<lambda>scanned.
      and_then (validate_transaction_id name) (\<lambda>_.
      and_then (validate_transaction_directory euid (te_object t)) (\<lambda>_.
      and_then (inspect_active_transaction H mcodec scodec (cp_transactions paths @ [name]) (te_children t) name
        (sc_cumulative st) limits) (\<lambda>(recovered, cumulative).
      and_then (ensure (bt_get (sc_entries st) name = None)
        (corrupt (Some name) ''duplicate_transaction_id'')) (\<lambda>_.
      Ok \<lparr>sc_cumulative = cumulative, sc_scanned = scanned,
          sc_entries = bt_put name recovered (sc_entries st)\<rparr>))))))"

definition scan_completed ::
    "nat \<Rightarrow> (bytes \<Rightarrow> Sha256Digest) \<Rightarrow> Manifest Codec \<Rightarrow> StateSnapshot Codec \<Rightarrow> ControlPaths \<Rightarrow> TransactionLimits
      \<Rightarrow> ScanState \<Rightarrow> string \<times> TransactionEntry \<Rightarrow> FsError + ScanState" where
  "scan_completed euid H mcodec scodec paths limits st entry =
     (case entry of (name, t) \<Rightarrow>
      and_then (charge_directory (sc_scanned st) limits) (\<lambda>scanned.
      and_then (ok_or (parse_completed_name name) (corrupt None ''completed_name_invalid'')) (\<lambda>(i, terminal_state).
      and_then (validate_transaction_directory euid (te_object t)) (\<lambda>_.
      and_then (validate_completed_contents H mcodec scodec (te_children t) i (sc_cumulative st) limits) (\<lambda>cumulative.
      let recovered = \<lparr>re_transaction_id = i, re_kind = CleanupOnly, re_actions = [''status'', ''cleanup''],
            re_visibility = (if terminal_state = ''committed'' then ''all_planned'' else ''all_original''),
            re_active_path = None, re_completed_path = Some (cp_completed paths @ [name])\<rparr> in
      and_then (ensure (bt_get (sc_entries st) i = None)
        (corrupt (Some i) ''duplicate_transaction_id'')) (\<lambda>_.
      Ok \<lparr>sc_cumulative = cumulative, sc_scanned = scanned,
          sc_entries = bt_put i recovered (sc_entries st)\<rparr>))))))"

definition scan_control ::
    "nat \<Rightarrow> (bytes \<Rightarrow> Sha256Digest) \<Rightarrow> Manifest Codec \<Rightarrow> StateSnapshot Codec \<Rightarrow> ControlPaths \<Rightarrow> ControlTree
      \<Rightarrow> TransactionLimits \<Rightarrow> FsError + ControlObservation" where
  "scan_control euid H mcodec scodec paths tree limits =
     and_then (validate_control_tree euid tree) (\<lambda>_.
     and_then (try_fold (scan_active euid H mcodec scodec paths limits)
       \<lparr>sc_cumulative = 0, sc_scanned = 0, sc_entries = []\<rparr> (ct_active tree)) (\<lambda>st.
     and_then (try_fold (scan_completed euid H mcodec scodec paths limits) st (ct_done tree)) (\<lambda>st.
     Ok \<lparr>cob_entries = map snd (sc_entries st)\<rparr>)))"

text \<open>\<open>slice::binary_search_by\<close> on the sorted entries.\<close>

definition find_entry :: "ControlObservation \<Rightarrow> string \<Rightarrow> RecoveryEntry option" where
  "find_entry observation i = List.find (\<lambda>e. re_transaction_id e = i) (cob_entries observation)"

section \<open>Operations of the mutation lock\<close>

definition object_identity :: "ControlObject option \<Rightarrow> FsError + (nat \<times> nat)" where
  "object_identity object =
     (case object of None \<Rightarrow> Err (control_io ''capture_control_identity'' NotFound) | Some m \<Rightarrow> Ok (co_identity m))"

record ControlIdentities =
  ci_root :: "nat \<times> nat"
  ci_control :: "nat \<times> nat"
  ci_transactions :: "nat \<times> nat"
  ci_completed :: "nat \<times> nat"
  ci_lock :: "nat \<times> nat"

definition capture_control_identities :: "ControlTree \<Rightarrow> FsError + ControlIdentities" where
  "capture_control_identities tree =
     and_then (object_identity (ct_root tree)) (\<lambda>root.
     and_then (object_identity (ct_control tree)) (\<lambda>control.
     and_then (object_identity (ct_transactions tree)) (\<lambda>transactions.
     and_then (object_identity (ct_completed tree)) (\<lambda>completed.
     and_then (object_identity (ct_lock tree)) (\<lambda>lock.
     Ok \<lparr>ci_root = root, ci_control = control, ci_transactions = transactions, ci_completed = completed,
         ci_lock = lock\<rparr>)))))"

definition revalidate_control_identities :: "ControlIdentities \<Rightarrow> ControlTree \<Rightarrow> FsError + unit" where
  "revalidate_control_identities identities tree =
     and_then (capture_control_identities tree) (\<lambda>current.
     ensure (current = identities) (ControlDirectoryInvalid ''control_identity_changed''))"

definition bt_remove :: "'k \<Rightarrow> ('k, 'v) btree \<Rightarrow> ('k, 'v) btree" where
  "bt_remove k m = filter (\<lambda>e. fst e \<noteq> k) m"

text \<open>The children that are left and the result; removal stops at the first irregular child.\<close>

fun remove_validated_children :: "listing \<Rightarrow> listing \<times> (FsError + unit)" where
  "remove_validated_children [] = ([], Ok ())"
| "remove_validated_children ((name, RegularChild _) # children) = remove_validated_children children"
| "remove_validated_children ((name, IrregularChild) # children) =
     ((name, IrregularChild) # children, Err (corrupt None ''cleanup_entry_not_regular''))"

definition cleanup_completed_directory ::
    "(bytes \<Rightarrow> Sha256Digest) \<Rightarrow> Manifest Codec \<Rightarrow> StateSnapshot Codec \<Rightarrow> ControlTree \<Rightarrow> string \<Rightarrow> string
      \<Rightarrow> ControlTree \<times> (FsError + unit)" where
  "cleanup_completed_directory H mcodec scodec tree name i =
     (case bt_get (ct_done tree) name of
        None \<Rightarrow> (tree, Err (control_io ''read_control_directory'' NotFound))
      | Some t \<Rightarrow>
          (case validate_completed_contents H mcodec scodec (te_children t) i 0 default_limits of
             Err e \<Rightarrow> (tree, Err e)
           | Ok _ \<Rightarrow>
               (case remove_validated_children (te_children t) of
                  (children, Err e) \<Rightarrow>
                    (tree\<lparr>ct_done := bt_put name (t\<lparr>te_children := children\<rparr>) (ct_done tree)\<rparr>, Err e)
                | (_, Ok _) \<Rightarrow> (tree\<lparr>ct_done := bt_remove name (ct_done tree)\<rparr>, Ok ()))))"

fun cleanup_entries ::
    "(bytes \<Rightarrow> Sha256Digest) \<Rightarrow> Manifest Codec \<Rightarrow> StateSnapshot Codec \<Rightarrow> ControlTree \<Rightarrow> RecoveryEntry list
      \<Rightarrow> ControlTree \<times> (FsError + unit)" where
  "cleanup_entries H mcodec scodec tree [] = (tree, Ok ())"
| "cleanup_entries H mcodec scodec tree (entry # entries) =
     (case re_completed_path entry of
        None \<Rightarrow> cleanup_entries H mcodec scodec tree entries
      | Some path \<Rightarrow>
          (case cleanup_completed_directory H mcodec scodec tree (last path) (re_transaction_id entry) of
             (tree', Err e) \<Rightarrow> (tree', Err e)
           | (tree', Ok _) \<Rightarrow> cleanup_entries H mcodec scodec tree' entries))"

definition gate_new_transaction_with_limits ::
    "nat \<Rightarrow> (bytes \<Rightarrow> Sha256Digest) \<Rightarrow> Manifest Codec \<Rightarrow> StateSnapshot Codec \<Rightarrow> ControlPaths \<Rightarrow> ControlTree
      \<Rightarrow> TransactionLimits \<Rightarrow> ControlTree \<times> (FsError + unit)" where
  "gate_new_transaction_with_limits euid H mcodec scodec paths tree limits =
     (case scan_control euid H mcodec scodec paths tree limits of
        Err e \<Rightarrow> (tree, Err e)
      | Ok observation \<Rightarrow>
          let active = map re_transaction_id
            (filter (\<lambda>entry. re_active_path entry \<noteq> None) (cob_entries observation)) in
          if active \<noteq> [] then (tree, Err (TransactionRecoveryRequired active))
          else cleanup_entries H mcodec scodec tree (cob_entries observation))"

text \<open>The attempts that are left; \<open>random k\<close> is the answer of the random source to the \<open>k\<close>-th call.\<close>

fun create_attempts ::
    "(nat \<Rightarrow> FsError + bytes) \<Rightarrow> ControlTree \<Rightarrow> ControlObject \<Rightarrow> nat list \<Rightarrow> FsError + (string \<times> ControlTree)" where
  "create_attempts random tree object [] =
     Err (FsResourceLimitExceeded ''transaction_id_collision_attempts'' MAX_ID_ATTEMPTS MAX_ID_ATTEMPTS)"
| "create_attempts random tree object (attempt # attempts) =
     and_then (random attempt) (\<lambda>bs.
     let transaction_id = hex_lower bs in
     if bt_get (ct_done tree) (transaction_id @ ''-committed'') \<noteq> None \<or>
        bt_get (ct_done tree) (transaction_id @ ''-rolledback'') \<noteq> None \<or>
        bt_get (ct_active tree) transaction_id \<noteq> None
     then create_attempts random tree object attempts
     else Ok (transaction_id, tree\<lparr>ct_active :=
       bt_put transaction_id \<lparr>te_object = object, te_children = []\<rparr> (ct_active tree)\<rparr>))"

definition create_transaction_directory_with ::
    "(nat \<Rightarrow> FsError + bytes) \<Rightarrow> ControlTree \<Rightarrow> ControlObject \<Rightarrow> FsError + (string \<times> ControlTree)" where
  "create_transaction_directory_with random tree object =
     create_attempts random tree object [0..<MAX_ID_ATTEMPTS]"

definition recovery_entry ::
    "nat \<Rightarrow> (bytes \<Rightarrow> Sha256Digest) \<Rightarrow> Manifest Codec \<Rightarrow> StateSnapshot Codec \<Rightarrow> ControlPaths \<Rightarrow> ControlTree \<Rightarrow> string
      \<Rightarrow> FsError + RecoveryEntry" where
  "recovery_entry euid H mcodec scodec paths tree i =
     and_then (validate_transaction_id i) (\<lambda>_.
     and_then (scan_control euid H mcodec scodec paths tree default_limits) (\<lambda>observation.
     ok_or (find_entry observation i) (TransactionNotFound i)))"

definition rollback_control_only ::
    "nat \<Rightarrow> (bytes \<Rightarrow> Sha256Digest) \<Rightarrow> Manifest Codec \<Rightarrow> StateSnapshot Codec \<Rightarrow> ControlPaths \<Rightarrow> ControlTree \<Rightarrow> string
      \<Rightarrow> ControlTree \<times> (FsError + unit)" where
  "rollback_control_only euid H mcodec scodec paths tree i =
     (case recovery_entry euid H mcodec scodec paths tree i of
        Err e \<Rightarrow> (tree, Err e)
      | Ok entry \<Rightarrow>
          if re_kind entry \<notin> {OrphanRecord, ManifestOnly}
          then (tree, Err (RecoveryActionNotAllowed i ''phase_5_allows_only_control_only_rollback''))
          else case (re_active_path entry, bt_get (ct_active tree) i) of
            (None, _) \<Rightarrow> (tree, Err (InternalInvariant ''control_only_recovery_has_active_path''))
          | (_, None) \<Rightarrow> (tree, Err (control_io ''read_control_directory'' NotFound))
          | (Some _, Some t) \<Rightarrow>
              (case remove_validated_children (te_children t) of
                 (children, Err e) \<Rightarrow>
                   (tree\<lparr>ct_active := bt_put i (t\<lparr>te_children := children\<rparr>) (ct_active tree)\<rparr>, Err e)
               | (_, Ok _) \<Rightarrow> (tree\<lparr>ct_active := bt_remove i (ct_active tree)\<rparr>, Ok ())))"

definition finish_transaction ::
    "(bytes \<Rightarrow> Sha256Digest) \<Rightarrow> Manifest Codec \<Rightarrow> StateSnapshot Codec \<Rightarrow> ControlPaths \<Rightarrow> ControlTree \<Rightarrow> string
      \<Rightarrow> string list \<Rightarrow> bool \<Rightarrow> ControlTree \<times> (FsError + unit)" where
  "finish_transaction H mcodec scodec paths tree i active_path committed =
     (case validate_transaction_id i of
        Err e \<Rightarrow> (tree, Err e)
      | Ok _ \<Rightarrow>
          if active_path \<noteq> cp_transactions paths @ [i]
          then (tree, Err (InternalInvariant ''terminal_transaction_path_is_canonical''))
          else
            let completed = i @ ''-'' @ (if committed then ''committed'' else ''rolledback'') in
            case bt_get (ct_active tree) i of
              None \<Rightarrow> (tree, Err (control_io ''terminal_directory_rename'' NotFound))
            | Some t \<Rightarrow>
                if bt_get (ct_done tree) completed \<noteq> None
                then (tree, Err (RecoveryConflict ''completed_directory_collision''))
                else cleanup_completed_directory H mcodec scodec
                  (tree\<lparr>ct_active := bt_remove i (ct_active tree),
                        ct_done := bt_put completed t (ct_done tree)\<rparr>) completed i)"

section \<open>Names are exact\<close>

lemma digit_value_bound: "is_ascii_digit c \<Longrightarrow> of_char c - 48 < (10 :: nat)"
  by (auto simp: is_ascii_digit_def)

lemma value_of_acc: "value_of s acc = acc * 10 ^ length s + value_of s 0"
proof (induction s arbitrary: acc)
  case (Cons c s)
  show ?case
    using Cons[of "acc * 10 + (of_char c - 48)"] Cons[of "of_char c - 48"]
    by (simp add: algebra_simps)
qed simp

lemma value_of_bound: "list_all is_ascii_digit s \<Longrightarrow> value_of s 0 < 10 ^ length s"
proof (induction s)
  case (Cons c s)
  have "value_of (c # s) 0 = (of_char c - 48) * 10 ^ length s + value_of s 0"
    using value_of_acc[of s "of_char c - 48"] by simp
  also have "\<dots> < (of_char c - 48) * 10 ^ length s + 10 ^ length s"
    using Cons by simp
  also have "\<dots> = (of_char c - 48 + 1) * 10 ^ length s"
    by simp
  also have "\<dots> \<le> 10 * 10 ^ length s"
    using Cons.prems digit_value_bound[of c] by (intro mult_le_mono1) simp
  finally show ?case by simp
qed simp

lemma digit_inject: "is_ascii_digit c \<Longrightarrow> is_ascii_digit d \<Longrightarrow> of_char c - 48 = (of_char d - 48 :: nat) \<Longrightarrow> c = d"
proof -
  assume "is_ascii_digit c" "is_ascii_digit d" "of_char c - 48 = (of_char d - 48 :: nat)"
  then have "(of_char c :: nat) = of_char d"
    unfolding is_ascii_digit_def by linarith
  then show "c = d" by simp
qed

lemma value_of_inject:
  assumes "list_all is_ascii_digit s" "list_all is_ascii_digit t" "length s = length t" "value_of s 0 = value_of t 0"
  shows "s = t"
  using assms
proof (induction s arbitrary: t)
  case (Cons c s)
  obtain d t' where t: "t = d # t'" using Cons.prems(3) by (cases t) auto
  have eq: "(of_char c - 48) * 10 ^ length s + value_of s 0 = (of_char d - 48) * 10 ^ length s + value_of t' 0"
    using Cons.prems(3,4) value_of_acc[of s "of_char c - 48"] value_of_acc[of t' "of_char d - 48"] by (simp add: t)
  have b: "value_of s 0 < 10 ^ length s" "value_of t' 0 < 10 ^ length s"
    using Cons.prems value_of_bound[of s] value_of_bound[of t'] by (simp_all add: t)
  have "of_char c - 48 = (of_char d - 48 :: nat)"
    using arg_cong[OF eq, of "\<lambda>x. x div 10 ^ length s"] b by simp
  then have "c = d" "value_of s 0 = value_of t' 0"
    using eq digit_inject Cons.prems by (auto simp: t)
  then show ?case
    using Cons by (simp add: t)
qed simp

lemma digit_char_digit: "d < 10 \<Longrightarrow> is_ascii_digit (digit_char d)"
  by (auto simp: is_ascii_digit_def digit_char_def)

lemma decimal_digits: "list_all is_ascii_digit (decimal n)"
proof (induction n rule: decimal.induct)
  case (1 n)
  then show ?case by (subst decimal.simps) (auto simp: digit_char_digit)
qed

lemma length_decimal: "n < 10 ^ k \<Longrightarrow> 0 < k \<Longrightarrow> length (decimal n) \<le> k"
proof (induction n arbitrary: k rule: decimal.induct)
  case (1 n)
  show ?case
  proof (cases "n < 10")
    case True
    then show ?thesis using 1 by (subst decimal.simps) simp
  next
    case False
    obtain m where k: "k = Suc m" using 1(3) by (cases k) auto
    have m: "k = Suc m" "0 < m"
      using 1(2) False k by (cases m; simp)+
    with 1 False have "length (decimal (n div 10)) \<le> m"
      by (intro 1(1)) auto
    then show ?thesis using False m by (subst decimal.simps) simp
  qed
qed

lemma pad8_digits:
  assumes "n < 10 ^ 8"
  shows "length (pad8 n) = 8" "list_all is_ascii_digit (pad8 n)"
  using length_decimal[of n 8] assms decimal_digits[of n]
  by (auto simp: pad8_def digit_char_digit list_all_iff)

lemma pad8_iff:
  "length digits = 8 \<and> list_all is_ascii_digit digits \<and> value_of digits 0 = n \<longleftrightarrow>
     digits = pad8 n \<and> n < 10 ^ 8"
proof
  assume a: "length digits = 8 \<and> list_all is_ascii_digit digits \<and> value_of digits 0 = n"
  then have "n < 10 ^ 8" using value_of_bound[of digits] by auto
  with a pad8_digits[of n] show "digits = pad8 n \<and> n < 10 ^ 8"
    by (auto intro!: value_of_inject simp: value_of_pad8)
qed (use pad8_digits in \<open>auto simp: value_of_pad8\<close>)

lemma strip_prefix_Some_iff: "strip_prefix p s = Some t \<longleftrightarrow> s = p @ t"
  by (auto simp: strip_prefix_def) (metis append_take_drop_id)

lemma strip_suffix_Some_iff: "strip_suffix p s = Some t \<longleftrightarrow> s = t @ p"
  by (auto simp: strip_suffix_def) (metis append_take_drop_id)

lemma strip_suffix_append [simp]: "strip_suffix p (t @ p) = Some t"
  by (simp add: strip_suffix_Some_iff)

lemma parse_state_name_Some_iff:
  "parse_state_name name extension = Some n \<longleftrightarrow> n < MAX_STATE_RECORDS \<and> name = state_file n extension"
proof -
  have small: "n < 10 ^ 8" if "n < MAX_STATE_RECORDS" for n
    using that by (simp add: MAX_STATE_RECORDS_def)
  have "parse_state_name name extension = Some n \<longleftrightarrow>
    (\<exists>digits. strip_prefix ''state-'' name = Some (digits @ ''.'' @ extension) \<and>
       length digits = 8 \<and> list_all is_ascii_digit digits \<and> value_of digits 0 = n \<and> n < MAX_STATE_RECORDS)"
    unfolding parse_state_name_def
    by (auto simp: strip_suffix_Some_iff split: option.split_asm option.split)
  also have "\<dots> \<longleftrightarrow> strip_prefix ''state-'' name = Some (pad8 n @ ''.'' @ extension) \<and> n < MAX_STATE_RECORDS"
    using pad8_iff[of _ n] small[of n] by metis
  also have "\<dots> \<longleftrightarrow> n < MAX_STATE_RECORDS \<and> name = state_file n extension"
    unfolding strip_prefix_Some_iff by (auto simp: state_file_def)
  finally show ?thesis .
qed

lemma is_artifact_name_iff:
  "is_artifact_name name prefix \<longleftrightarrow> (\<exists>n<MAX_TRANSACTION_TARGETS. name = prefix @ ''-'' @ pad8 n)"
proof -
  have "is_artifact_name name prefix \<longleftrightarrow> (\<exists>digits. name = (prefix @ ''-'') @ digits \<and>
      length digits = 8 \<and> list_all is_ascii_digit digits \<and> value_of digits 0 < MAX_TRANSACTION_TARGETS)"
    unfolding is_artifact_name_def using strip_prefix_Some_iff[of "prefix @ ''-''" name]
    by (cases "strip_prefix (prefix @ ''-'') name") (simp_all del: append_assoc, metis)
  also have "\<dots> \<longleftrightarrow> (\<exists>n<MAX_TRANSACTION_TARGETS. name = (prefix @ ''-'') @ pad8 n)"
  proof
    assume "\<exists>digits. name = (prefix @ ''-'') @ digits \<and>
      length digits = 8 \<and> list_all is_ascii_digit digits \<and> value_of digits 0 < MAX_TRANSACTION_TARGETS"
    then obtain digits where d: "name = (prefix @ ''-'') @ digits" "length digits = 8"
      "list_all is_ascii_digit digits" "value_of digits 0 < MAX_TRANSACTION_TARGETS" by blast
    with pad8_iff[of digits "value_of digits 0"] have "digits = pad8 (value_of digits 0)" by simp
    with d(1,4) show "\<exists>n<MAX_TRANSACTION_TARGETS. name = (prefix @ ''-'') @ pad8 n" by auto
  next
    assume "\<exists>n<MAX_TRANSACTION_TARGETS. name = (prefix @ ''-'') @ pad8 n"
    then obtain n where n: "n < MAX_TRANSACTION_TARGETS" "name = (prefix @ ''-'') @ pad8 n" by blast
    then have "n < 10 ^ 8" by (simp add: MAX_TRANSACTION_TARGETS_def)
    then have "length (pad8 n) = 8 \<and> list_all is_ascii_digit (pad8 n) \<and> value_of (pad8 n) 0 = n"
      using pad8_iff[of "pad8 n" n] by simp
    with n show "\<exists>digits. name = (prefix @ ''-'') @ digits \<and>
      length digits = 8 \<and> list_all is_ascii_digit digits \<and> value_of digits 0 < MAX_TRANSACTION_TARGETS"
      by (intro exI[of _ "pad8 n"]) simp
  qed
  finally show ?thesis by simp
qed

lemma append_suffix_inject: "length s = length t \<Longrightarrow> a @ s = b @ t \<longleftrightarrow> a = b \<and> s = t"
  by simp

lemma parse_completed_name_Some_iff:
  "parse_completed_name name = Some (i, state) \<longleftrightarrow>
     validate_transaction_id i = Ok () \<and> state \<in> {''committed'', ''rolledback''} \<and> name = i @ ''-'' @ state"
proof -
  have c: "completed_suffix name (s, t) = Some (i, state) \<longleftrightarrow>
      validate_transaction_id i = Ok () \<and> state = t \<and> name = i @ s" for s t
    unfolding completed_suffix_def
    by (cases "strip_suffix s name") (auto simp: strip_suffix_Some_iff dest: sym[of None])
  have "completed_suffix name (''-committed'', ''committed'') = None" if "name = i @ ''-rolledback''"
  proof (rule ccontr)
    assume "completed_suffix name (''-committed'', ''committed'') \<noteq> None"
    then obtain i' where "name = i' @ ''-committed''"
      by (auto simp: completed_suffix_def strip_suffix_Some_iff split: option.split_asm if_split_asm)
    then have "last (i' @ ''-committed'') = last (i @ ''-rolledback'')" using that by simp
    then show False by simp
  qed
  then have none: "completed_suffix name (''-rolledback'', ''rolledback'') = Some (i, state) \<Longrightarrow>
      completed_suffix name (''-committed'', ''committed'') = None"
    by (simp only: c)
  have "parse_completed_name name = Some (i, state) \<longleftrightarrow>
      completed_suffix name (''-committed'', ''committed'') = Some (i, state) \<or>
      completed_suffix name (''-rolledback'', ''rolledback'') = Some (i, state)"
    unfolding parse_completed_name_def
    using none by (auto split: option.splits)
  then show ?thesis
    unfolding c by (cases "state = ''committed''") (simp_all, blast?)
qed

section \<open>The listing of state records\<close>

lemma state_names_fold:
  assumes "bt_sorted m"
  shows "bt_sorted (fold (\<lambda>name m. case parse_state_name name ''rec'' of None \<Rightarrow> m
       | Some sequence \<Rightarrow> bt_put sequence name m) names m) \<and>
    (\<forall>k. bt_get (fold (\<lambda>name m. case parse_state_name name ''rec'' of None \<Rightarrow> m
       | Some sequence \<Rightarrow> bt_put sequence name m) names m) k =
      (if k < MAX_STATE_RECORDS \<and> state_file k ''rec'' \<in> set names then Some (state_file k ''rec'') else bt_get m k))"
  using assms
proof (induction names arbitrary: m)
  case (Cons name names)
  show ?case
  proof (cases "parse_state_name name ''rec''")
    case None
    then have "\<not> (k < MAX_STATE_RECORDS \<and> state_file k ''rec'' = name)" for k
      using parse_state_name_Some_iff[of name "''rec''" k] by auto
    then show ?thesis
      using Cons.IH[OF Cons.prems] None by auto
  next
    case (Some n)
    then have n: "n < MAX_STATE_RECORDS" "name = state_file n ''rec''"
      using parse_state_name_Some_iff by blast+
    show ?thesis
      using Cons.IH[OF bt_sorted_put[OF Cons.prems, of n name]] Some n by (auto simp: bt_get_put)
  qed
qed simp

lemma state_names_of_get:
  "bt_get (state_names_of children) k =
     (if k < MAX_STATE_RECORDS \<and> state_file k ''rec'' \<in> fst ` set children then Some (state_file k ''rec'') else None)"
  "bt_sorted (state_names_of children)"
proof -
  have "bt_sorted ([] :: (nat, string) btree)" by (simp add: bt_sorted_def)
  from state_names_fold[OF this, of "map fst children"]
  show "bt_get (state_names_of children) k =
     (if k < MAX_STATE_RECORDS \<and> state_file k ''rec'' \<in> fst ` set children then Some (state_file k ''rec'') else None)"
    "bt_sorted (state_names_of children)"
    by (simp_all add: state_names_of_def bt_get_def)
qed

lemma length_state_names:
  assumes "\<And>k. k < MAX_STATE_RECORDS \<and> state_file k ''rec'' \<in> fst ` set children \<longleftrightarrow> k < n"
  shows "length (state_names_of children) = n"
proof -
  have "fst ` set (state_names_of children) = {k. \<exists>v. (k, v) \<in> set (state_names_of children)}"
    by force
  also have "\<dots> = {k. \<exists>v. bt_get (state_names_of children) k = Some v}"
    by (simp only: bt.entries_get[OF state_names_of_get(2)])
  also have "\<dots> = {k. \<exists>v. (if k < n then Some (state_file k ''rec'') else None) = Some v}"
    by (simp only: state_names_of_get assms)
  also have "\<dots> = {0..<n}"
    by auto
  finally have "card (set (map fst (state_names_of children))) = n" by simp
  then show ?thesis
    using distinct_card[OF bt_sorted_distinct[OF state_names_of_get(2)]] by simp
qed

section \<open>Reading a journal back\<close>

text \<open>A journal that was created for a manifest under the default limits, and what its directory holds.\<close>

definition journal_of ::
    "(bytes \<Rightarrow> Sha256Digest) \<Rightarrow> Manifest Codec \<Rightarrow> string \<Rightarrow> Manifest \<Rightarrow> TransactionJournal \<Rightarrow> bool" where
  "journal_of H mcodec i manifest j \<longleftrightarrow>
     create_with_limits H mcodec \<lparr>td_transaction_id = i, td_contents = Map.empty\<rparr> manifest default_limits = Ok j"

definition journal_directory ::
    "(bytes \<Rightarrow> Sha256Digest) \<Rightarrow> Manifest Codec \<Rightarrow> string \<Rightarrow> Manifest \<Rightarrow> TransactionJournal \<Rightarrow> bool" where
  "journal_directory H mcodec i manifest j \<longleftrightarrow>
     tj_limits j = default_limits \<and> mf_transaction_id manifest = i \<and>
     tj_original_existence j = map mt_original_existed (mf_targets manifest) \<and>
     (\<exists>bs. encode_manifest_record_with_limits H mcodec manifest default_limits = Ok bs \<and>
        tj_directory j ''manifest.rec'' = Some bs \<and> tj_manifest_checksum j = stored_checksum bs) \<and>
     (\<forall>name. tj_directory j name \<noteq> None \<longrightarrow> name = ''manifest.rec'' \<or> (\<exists>k. name = state_file k ''rec''))"

lemma encoded_manifest_bounds:
  assumes "encode_manifest_record_with_limits H mcodec m limits = Ok bs" "digest32 H"
  shows "32 \<le> length bs" "length bs \<le> tl_record_bytes limits"
    "encode_record H mcodec MANIFEST_MAGIC m limits = Ok bs" "validate_manifest m limits = Ok ()"
  using assms by (auto simp: encode_manifest_record_with_limits_def encode_record_Ok_iff digest32_def)

lemma journal_of_directory:
  assumes "journal_of H mcodec i manifest j" "digest32 H"
  shows "journal_directory H mcodec i manifest j"
proof -
  from assms(1) obtain bs where
    e: "encode_manifest_record_with_limits H mcodec manifest default_limits = Ok bs"
    and rest: "mf_transaction_id manifest = i" "record_checksum bs = Ok (drop (length bs - 32) bs)"
      "tj_directory j = [''manifest.rec'' \<mapsto> bs]" "tj_limits j = default_limits"
      "tj_manifest_checksum j = checksum_text (drop (length bs - 32) bs)"
      "tj_original_existence j = map mt_original_existed (mf_targets manifest)"
    by (auto simp: journal_of_def create_with_limits_def publish_record_def record_checksum_def
      checked_sub_u64_def split: if_splits)
  then show ?thesis
    using encoded_manifest_bounds(1)[OF e assms(2)] by (auto simp: journal_directory_def stored_checksum_def)
qed

lemma journal_directory_step:
  assumes "journal_directory H mcodec i manifest j" "journal_history H codec j hist" "digest32 H"
    and "publish_state H codec j s = (j', r)"
  shows "journal_directory H mcodec i manifest j'"
  using assms(3,4)
proof (cases rule: publish_state_cases)
  case (collision e)
  then have "j' = j"
    using journal_step_history[OF assms(2,3,4)] by auto
  then show ?thesis using assms(1) by simp
next
  case (published bs)
  have "\<And>k. ''manifest.rec'' \<noteq> state_file k ''rec''"
    using manifest_file_distinct(1) by metis
  then show ?thesis
    using assms(1) by (auto simp: journal_directory_def published(6))
qed (use assms(1) in simp)

interpretation journal_files: invariant_system "journal_of H mcodec i manifest" "journal_step H codec"
    "\<lambda>j. digest32 H \<longrightarrow> journal_directory H mcodec i manifest j \<and> (\<exists>hist. journal_history H codec j hist)"
  for H mcodec codec i manifest
proof
  fix j assume j: "journal_of H mcodec i manifest j"
  then have "journal_init H mcodec j"
    by (auto simp: journal_of_def journal_init_def)
  then show "digest32 H \<longrightarrow> journal_directory H mcodec i manifest j \<and> (\<exists>hist. journal_history H codec j hist)"
    using journal_of_directory[OF j] journal_init_history by blast
next
  fix j j' assume "digest32 H \<longrightarrow> journal_directory H mcodec i manifest j \<and> (\<exists>hist. journal_history H codec j hist)"
    "journal_step H codec j j'"
  then show "digest32 H \<longrightarrow> journal_directory H mcodec i manifest j' \<and> (\<exists>hist. journal_history H codec j' hist)"
    unfolding journal_step_def using journal_directory_step journal_step_history by metis
qed

lemma decode_encoded_state:
  assumes "digest32 H" "codec_roundtrip codec" "encode_state_record_with_limits H codec s limits = Ok bs"
  shows "decode_state_record_with_checksum H codec bs i limits =
    Ok \<lparr>dr_payload = s, dr_checksum = drop (length bs - 32) bs\<rparr>"
  using assms(3) encode_decode_record[OF assms(1,2), of STATE_MAGIC]
  by (auto simp: encode_state_record_with_limits_def decode_state_record_with_checksum_def)

lemma decode_encoded_manifest:
  assumes "digest32 H" "codec_roundtrip mcodec" "encode_manifest_record_with_limits H mcodec m limits = Ok bs"
  shows "decode_manifest_record_with_checksum H mcodec bs i limits =
    Ok \<lparr>dr_payload = m, dr_checksum = drop (length bs - 32) bs\<rparr>"
  using assms(3) encode_decode_record[OF assms(1,2), of MANIFEST_MAGIC]
  by (auto simp: encode_manifest_record_with_limits_def decode_manifest_record_with_checksum_def)

lemma validate_originals_length:
  "validate_state_against_originals s originals = Ok () \<Longrightarrow> length (sn_targets s) = length originals"
  by (auto simp: validate_state_against_originals_def)

text \<open>The records of the first \<open>n\<close> states, folded.\<close>

definition record_bytes ::
    "(bytes \<Rightarrow> Sha256Digest) \<Rightarrow> StateSnapshot Codec \<Rightarrow> StateSnapshot list \<Rightarrow> nat" where
  "record_bytes H codec hist = (\<Sum>s\<leftarrow>hist. length (record_of H codec default_limits s))"

definition chain_prior ::
    "(bytes \<Rightarrow> Sha256Digest) \<Rightarrow> StateSnapshot Codec \<Rightarrow> StateSnapshot list \<Rightarrow> (StateSnapshot \<times> string) option" where
  "chain_prior H codec hist =
     (if hist = [] then None
      else Some (last hist, stored_checksum (record_of H codec default_limits (last hist))))"

lemma record_bytes_take_Suc:
  "n < length hist \<Longrightarrow> record_bytes H codec (take (Suc n) hist) =
     record_bytes H codec (take n hist) + length (record_of H codec default_limits (hist ! n))"
  by (simp add: record_bytes_def take_Suc_conv_app_nth)

lemma record_bytes_take_le: "record_bytes H codec (take n hist) \<le> record_bytes H codec hist"
proof -
  have "record_bytes H codec hist = record_bytes H codec (take n hist) + record_bytes H codec (drop n hist)"
    unfolding record_bytes_def by (metis append_take_drop_id map_append sum_list_append)
  then show ?thesis by simp
qed

lemma chain_prior_take_Suc:
  "n < length hist \<Longrightarrow> chain_prior H codec (take (Suc n) hist) =
     Some (hist ! n, stored_checksum (record_of H codec default_limits (hist ! n)))"
  by (simp add: chain_prior_def take_Suc_conv_app_nth)

lemma fold_chain_step_reads:
  assumes hist: "journal_history H codec j hist" and dir: "journal_directory H mcodec i manifest j"
    and H: "digest32 H" and rt: "codec_roundtrip codec" and k: "k < length hist"
    and mc: "tj_manifest_checksum j = checksum_text mc"
    and name: "bt_get names k = Some (state_file k ''rec'')"
    and child: "bt_get children (state_file k ''rec'') =
      map_option RegularChild (tj_directory j (state_file k ''rec''))"
    and room: "c + record_bytes H codec hist \<le> tl_recovery_bytes default_limits"
  shows "fold_chain_step H codec children i manifest mc names default_limits
      \<lparr>cc_prior = chain_prior H codec (take k hist), cc_state_bytes = record_bytes H codec (take k hist),
       cc_cumulative = c + record_bytes H codec (take k hist)\<rparr> k =
    Ok \<lparr>cc_prior = chain_prior H codec (take (Suc k) hist),
        cc_state_bytes = record_bytes H codec (take (Suc k) hist),
        cc_cumulative = c + record_bytes H codec (take (Suc k) hist)\<rparr>"
proof -
  let ?s = "hist ! k" and ?n = "record_bytes H codec (take k hist)"
  have lim: "tj_limits j = default_limits"
    using dir by (simp add: journal_directory_def)
  from hist k obtain bs where enc: "encode_state_record_with_limits H codec ?s default_limits = Ok bs"
    unfolding journal_history_def lim by blast
  then have rec: "record_of H codec default_limits ?s = bs"
    by (simp add: record_of_def)
  have s: "sn_sequence ?s = k" "sn_manifest_checksum ?s = checksum_text mc"
    "validate_state_against_originals ?s (tj_original_existence j) = Ok ()"
    "tj_directory j (state_file k ''rec'') = Some bs"
    using hist k mc rec unfolding journal_history_def lim by auto
  have orig: "validate_state_against_manifest ?s manifest = Ok ()"
    using s(3) dir by (simp add: validate_state_against_manifest_def journal_directory_def)
  have len: "length (sn_targets ?s) = length (mf_targets manifest)"
    using validate_originals_length[OF s(3)] dir by (simp add: journal_directory_def)
  note b = encoded_state_bounds[OF enc H]
  have "record_bytes H codec hist \<le> tl_state_bytes default_limits"
    using hist k unfolding journal_history_def lim record_bytes_def by auto
  moreover have take: "record_bytes H codec (take (Suc k) hist) = ?n + length bs"
    using record_bytes_take_Suc[OF k] rec by simp
  ultimately have bounds: "?n + length bs \<le> tl_state_bytes default_limits" "c + (?n + length bs) \<le> tl_recovery_bytes default_limits"
    using record_bytes_take_le[of H codec "Suc k" hist] room by simp_all
  have small: "tl_state_bytes default_limits \<le> u64_max" "tl_recovery_bytes default_limits \<le> u64_max"
    by (simp_all add: default_limits_def MAX_STATE_BYTES_def MAX_RECOVERY_BYTES_def u64_max_def)
  have link: "check_chain_link i (chain_prior H codec (take k hist)) ?s = Ok ()"
  proof (cases k)
    case 0
    then show ?thesis
      using hist s(1) k validate_state_shape_Ok(3)[OF b(3)]
      by (auto simp: check_chain_link_def chain_prior_def journal_history_def)
  next
    case (Suc m)
    then have "validate_state_transition_with_limits (hist ! m) ?s default_limits = Ok ()"
      "sn_prior_state_checksum ?s = Some (stored_checksum (record_of H codec default_limits (hist ! m)))"
      using hist k unfolding journal_history_def lim by auto
    then show ?thesis
      using Suc k by (simp add: check_chain_link_def chain_prior_take_Suc validate_state_transition_def)
  qed
  show ?thesis
    using child s b(5) bounds small name len link orig
    by (simp add: fold_chain_step_def read_record_bounded_def checked_add_u64_def
      decode_encoded_state[OF H rt enc] take chain_prior_take_Suc[OF k] rec stored_checksum_def Let_def)
qed

lemma fold_state_chain_reads:
  assumes hist: "journal_history H codec j hist" and dir: "journal_directory H mcodec i manifest j"
    and H: "digest32 H" and rt: "codec_roundtrip codec"
    and mc: "tj_manifest_checksum j = checksum_text mc"
    and names: "\<And>k. bt_get names k = (if k < length hist then Some (state_file k ''rec'') else None)"
      "length names = length hist"
    and child: "\<And>k. bt_get children (state_file k ''rec'') =
      map_option RegularChild (tj_directory j (state_file k ''rec''))"
    and room: "c + record_bytes H codec hist \<le> tl_recovery_bytes default_limits" and ne: "hist \<noteq> []"
  shows "fold_state_chain H codec children i manifest mc names c default_limits =
    Ok ((last hist, stored_checksum (record_of H codec default_limits (last hist))), c + record_bytes H codec hist)"
proof -
  let ?step = "fold_chain_step H codec children i manifest mc names default_limits"
  let ?st = "\<lambda>n. \<lparr>cc_prior = chain_prior H codec (take n hist),
      cc_state_bytes = record_bytes H codec (take n hist),
      cc_cumulative = c + record_bytes H codec (take n hist)\<rparr>"
  have step: "?step (?st k) k = Ok (?st (Suc k))" if "k < length hist" for k
    using that names(1)[of k]
    by (intro fold_chain_step_reads[OF hist dir H rt that mc _ child room]) simp
  have "try_fold ?step (?st 0) [0..<n] = Ok (?st n)" if "n \<le> length hist" for n
    using that by (induction n) (simp_all add: try_fold_append step)
  from this[of "length hist"]
  have fold: "try_fold ?step (?st 0) [0..<length hist] = Ok (?st (length hist))" by simp
  have "length hist \<le> tl_state_records default_limits"
    using history_length[OF hist H] dir by (simp add: journal_directory_def)
  moreover from this have "sat_u64 (length hist) = length hist"
    by (simp add: default_limits_def MAX_STATE_RECORDS_def u64_max_def sat_u64_def)
  ultimately show ?thesis
    using fold ne
    by (simp add: fold_state_chain_def names(2) chain_prior_def record_bytes_def)
qed

subsection \<open>Manifests\<close>

text \<open>What a valid manifest says of its targets.\<close>

lemma validate_target_Ok:
  assumes "validate_target manifest limits (prior, p) (k, t) = Ok (prior', p')" "k \<le> u64_max"
  shows "prior' = Some (mt_path t)" "\<forall>q. prior = Some q \<longrightarrow> q < mt_path t"
    "mt_target_index t = k" "mt_candidate_name t = ''candidate'' @ ''-'' @ pad8 k"
    "mt_backup_name t = ''backup'' @ ''-'' @ pad8 k"
    "validate_normalized_path (mt_path t) (mf_transaction_id manifest) = Ok ()"
    "validate_optional_original t (mf_transaction_id manifest) = Ok ()" "metadata_valid t"
  using assms
  by (auto simp: validate_target_def Let_def validate_generated_name_def split: option.split_asm if_split_asm)

definition target_valid :: "string \<Rightarrow> nat \<times> ManifestTarget \<Rightarrow> bool" where
  "target_valid i e \<longleftrightarrow> (case e of (k, t) \<Rightarrow>
     mt_target_index t = k \<and> mt_candidate_name t = ''candidate'' @ ''-'' @ pad8 k \<and>
     mt_backup_name t = ''backup'' @ ''-'' @ pad8 k \<and> validate_normalized_path (mt_path t) i = Ok () \<and>
     validate_optional_original t i = Ok () \<and> metadata_valid t)"

lemma strict_le_last: "sorted_wrt (<) xs \<Longrightarrow> x \<in> set xs \<Longrightarrow> (x :: 'a :: linorder) \<le> last xs"
  by (induction xs) (auto intro: less_imp_le)

lemma validate_targets:
  assumes "try_fold (validate_target manifest limits) (None, 0) (enumerate 0 ts) = Ok st" "length ts \<le> u64_max"
  shows "list_all (target_valid (mf_transaction_id manifest)) (enumerate 0 ts) \<and> sorted_wrt (<) (map mt_path ts)"
proof -
  have "list_all (target_valid (mf_transaction_id manifest)) (enumerate 0 ts) \<and>
      sorted_wrt (<) (map (mt_path \<circ> snd) (enumerate 0 ts)) \<and>
      fst st = (if enumerate 0 ts = [] then None else Some (mt_path (snd (last (enumerate 0 ts)))))"
  proof (rule try_fold_prefix_invariant[OF assms(1), where I = "\<lambda>pre st.
      list_all (target_valid (mf_transaction_id manifest)) pre \<and> sorted_wrt (<) (map (mt_path \<circ> snd) pre) \<and>
      fst st = (if pre = [] then None else Some (mt_path (snd (last pre))))"])
    fix pre e post st st'
    assume split: "enumerate 0 ts = pre @ e # post"
      and inv: "list_all (target_valid (mf_transaction_id manifest)) pre \<and> sorted_wrt (<) (map (mt_path \<circ> snd) pre) \<and>
        fst st = (if pre = [] then None else Some (mt_path (snd (last pre))))"
      and step: "validate_target manifest limits st e = Ok st'"
    obtain prior p k t prior' p' where e: "st = (prior, p)" "e = (k, t)" "st' = (prior', p')"
      by (cases st; cases e; cases st')
    have "e \<in> set (enumerate 0 ts)" using split by simp
    then have "k \<le> u64_max"
      using assms(2) by (auto simp: e(2) in_set_enumerate_eq)
    note v = validate_target_Ok[OF step[unfolded e] this]
    have "x < mt_path t" if "x \<in> set (map (mt_path \<circ> snd) pre)" for x
    proof -
      have ne: "pre \<noteq> []" using that by auto
      then have "last (map (mt_path \<circ> snd) pre) < mt_path t"
        using inv v(2) by (simp add: e last_map)
      moreover have "x \<le> last (map (mt_path \<circ> snd) pre)"
        using that inv by (intro strict_le_last) auto
      ultimately show ?thesis by simp
    qed
    then show "list_all (target_valid (mf_transaction_id manifest)) (pre @ [e]) \<and>
        sorted_wrt (<) (map (mt_path \<circ> snd) (pre @ [e])) \<and>
        fst st' = (if pre @ [e] = [] then None else Some (mt_path (snd (last (pre @ [e])))))"
      using inv v by (auto simp: e target_valid_def sorted_wrt_append)
  qed simp
  moreover have "map (mt_path \<circ> snd) (enumerate 0 ts) = map mt_path ts"
    by (metis list.map_comp map_snd_enumerate)
  ultimately show ?thesis by simp
qed

lemma valid_manifest_targets:
  assumes "validate_manifest m limits = Ok ()" "tl_targets limits < u64_max"
  shows "list_all (target_valid (mf_transaction_id m)) (enumerate 0 (mf_targets m))"
    "sorted_wrt (<) (map mt_path (mf_targets m))" "validate_transaction_id (mf_transaction_id m) = Ok ()"
    "mf_targets m \<noteq> []" "length (mf_targets m) \<le> tl_targets limits"
proof -
  from assms obtain st where
    f: "try_fold (validate_target m limits) (None, 0) (enumerate 0 (mf_targets m)) = Ok st"
    and len: "sat_u64 (length (mf_targets m)) \<le> tl_targets limits" "sat_u64 (length (mf_targets m)) \<noteq> 0"
    and vid: "validate_transaction_id (mf_transaction_id m) = Ok ()"
    unfolding validate_manifest_def Let_def by auto
  then have small: "length (mf_targets m) \<le> u64_max" "length (mf_targets m) \<le> tl_targets limits"
    using assms(2) by (auto simp: sat_u64_def min_def split: if_splits)
  from validate_targets[OF f small(1)] small(2) len vid
  show "list_all (target_valid (mf_transaction_id m)) (enumerate 0 (mf_targets m))"
    "sorted_wrt (<) (map mt_path (mf_targets m))" "validate_transaction_id (mf_transaction_id m) = Ok ()"
    "mf_targets m \<noteq> []" "length (mf_targets m) \<le> tl_targets limits"
    by auto
qed

subsection \<open>Listings\<close>

definition artifact_names :: "Manifest \<Rightarrow> string list" where
  "artifact_names manifest = concat (map (\<lambda>t. [mt_candidate_name t, mt_backup_name t]) (mf_targets manifest))"

text \<open>A directory that holds the files of a journal and, of the artifacts, only regular files.\<close>

definition listing_of :: "TransactionJournal \<Rightarrow> Manifest \<Rightarrow> listing \<Rightarrow> bool" where
  "listing_of j manifest children \<longleftrightarrow> bt_sorted children \<and>
     (\<forall>name. name \<notin> set (artifact_names manifest) \<longrightarrow>
        bt_get children name = map_option RegularChild (tj_directory j name)) \<and>
     (\<forall>name\<in>set (artifact_names manifest). bt_get children name \<noteq> Some IrregularChild) \<and>
     (tj_last_state j = None \<longrightarrow> (\<forall>name\<in>set (artifact_names manifest). bt_get children name = None))"

lemma bt_keys: "bt_sorted m \<Longrightarrow> k \<in> fst ` set m \<longleftrightarrow> bt_get m k \<noteq> None"
proof -
  assume m: "bt_sorted m"
  have "k \<in> fst ` set m \<longleftrightarrow> (\<exists>v. (k, v) \<in> set m)" by force
  then show ?thesis by (simp only: bt.entries_get[OF m] not_None_eq)
qed

lemma artifact_name_start:
  assumes "validate_manifest m default_limits = Ok ()" "name \<in> set (artifact_names m)"
  shows "name \<noteq> ''manifest.rec'' \<and> name \<noteq> ''manifest.tmp'' \<and> name \<noteq> state_file k e"
proof -
  have lim: "tl_targets default_limits < u64_max"
    by (simp add: default_limits_def MAX_TRANSACTION_TARGETS_def u64_max_def)
  from assms(2) obtain t where t: "t \<in> set (mf_targets m)" "name \<in> {mt_candidate_name t, mt_backup_name t}"
    by (auto simp: artifact_names_def)
  then obtain n where n: "n < length (mf_targets m)" "mf_targets m ! n = t"
    by (auto simp: in_set_conv_nth)
  then have "(n, t) \<in> set (enumerate 0 (mf_targets m))"
    by (simp add: in_set_enumerate_eq)
  with valid_manifest_targets(1)[OF assms(1) lim] have "target_valid (mf_transaction_id m) (n, t)"
    by (auto simp: list_all_iff)
  with t(2) have "hd name = CHR ''c'' \<or> hd name = CHR ''b''"
    by (auto simp: target_valid_def)
  then show ?thesis by (auto simp: state_file_def)
qed

lemma listing_records:
  assumes "listing_of j manifest children" "validate_manifest manifest default_limits = Ok ()"
  shows "bt_get children ''manifest.rec'' = map_option RegularChild (tj_directory j ''manifest.rec'')"
    "bt_get children ''manifest.tmp'' = map_option RegularChild (tj_directory j ''manifest.tmp'')"
    "bt_get children (state_file k e) = map_option RegularChild (tj_directory j (state_file k e))"
  using assms artifact_name_start[OF assms(2)] unfolding listing_of_def by metis+

text \<open>What the scan sees of the names of a journal with at least one state.\<close>

lemma listing_names:
  assumes l: "listing_of j manifest children" and hist: "journal_history H codec j hist" and H: "digest32 H"
    and dir: "journal_directory H mcodec i manifest j" and name: "name \<in> fst ` set children"
  shows "name = ''manifest.rec'' \<or> (\<exists>k<length hist. name = state_file k ''rec'') \<or> name \<in> set (artifact_names manifest)"
proof (cases "name \<in> set (artifact_names manifest)")
  case False
  have "bt_get children name \<noteq> None"
    using name l bt_keys by (auto simp: listing_of_def)
  then have in_dir: "tj_directory j name \<noteq> None"
    using False l by (simp add: listing_of_def)
  then consider "name = ''manifest.rec''" | k where "name = state_file k ''rec''"
    using dir unfolding journal_directory_def by blast
  then show ?thesis
    using in_dir hist by cases (auto simp: journal_history_def split: if_split_asm)
qed simp

lemma active_names_valid:
  assumes l: "listing_of j manifest children" and hist: "journal_history H codec j hist" and H: "digest32 H"
    and dir: "journal_directory H mcodec i manifest j"
  shows "validate_active_names children manifest i = Ok ()"
proof -
  have "length hist \<le> MAX_STATE_RECORDS"
    using history_length[OF hist H] dir by (simp add: journal_directory_def default_limits_def)
  then have parse: "parse_state_name (state_file k ''rec'') ''rec'' \<noteq> None" if "k < length hist" for k
    using that parse_state_name_Some_iff[of "state_file k ''rec''" "''rec''" k] by simp
  have "\<exists>u. validate_active_name children manifest i name = Ok u" if "name \<in> fst ` set children" for name
  proof -
    have "bt_get children name \<noteq> None"
      using that l bt_keys by (auto simp: listing_of_def)
    then show ?thesis
      using listing_names[OF l hist H dir that] l parse
      by (auto simp: validate_active_name_def listing_of_def artifact_names_def[symmetric] Let_def
        split: option.splits Child.splits)
  qed
  then show ?thesis
    unfolding validate_active_names_def by (simp add: try_map_unit_Ok_iff)
qed

definition journal_entry :: "string list \<Rightarrow> string \<Rightarrow> TransactionJournal \<Rightarrow> RecoveryEntry" where
  "journal_entry path i j =
     (case tj_last_state j of
        None \<Rightarrow> active_entry path i ManifestOnly [''status'', ''rollback''] ''all_original''
      | Some state \<Rightarrow> active_entry path i Active (actions_for_state (sn_global_state state))
          (visibility_for_state (sn_global_state state)))"

lemma no_temporaries:
  assumes "\<And>name. name \<in> set names \<Longrightarrow> parse_state_name name ''tmp'' = None"
  shows "try_fold (validate_temporary H codec children i ctx n limits) st names = Ok st"
  using assms by (induction names) (auto simp: validate_temporary_def)

lemma rec_name_not_temporary: "parse_state_name (state_file k ''rec'') ''tmp'' = None"
  using parse_state_name_Some_iff[of "state_file k ''rec''" "''tmp''"]
  by (cases "parse_state_name (state_file k ''rec'') ''tmp''") auto

lemma other_name_not_state:
  assumes "\<And>k e. name \<noteq> state_file k e"
  shows "parse_state_name name e = None"
  using parse_state_name_Some_iff[of name e] assms by (cases "parse_state_name name e") auto

text \<open>The names of a transaction directory without temporaries.\<close>

lemma listing_no_temporaries:
  assumes l: "listing_of j manifest children" and hist: "journal_history H codec j hist" and H: "digest32 H"
    and dir: "journal_directory H mcodec i manifest j" and valid: "validate_manifest manifest default_limits = Ok ()"
    and name: "name \<in> fst ` set children"
  shows "parse_state_name name ''tmp'' = None" "name \<noteq> ''manifest.tmp''"
proof -
  from listing_names[OF l hist H dir name]
  consider "name = ''manifest.rec''" | k where "name = state_file k ''rec''" | "name \<in> set (artifact_names manifest)"
    by blast
  note c = this
  from c show "parse_state_name name ''tmp'' = None"
  proof cases
    case 1
    then show ?thesis by (intro other_name_not_state) (auto simp: state_file_def)
  qed (auto simp: rec_name_not_temporary intro!: other_name_not_state dest: artifact_name_start[OF valid])
  from c show "name \<noteq> ''manifest.tmp''"
    by cases (auto simp: state_file_def dest: artifact_name_start[OF valid])
qed

lemma active_journal_read:
  assumes l: "listing_of j manifest children" and hist: "journal_history H codec j hist" and H: "digest32 H"
    and dir: "journal_directory H mcodec i manifest j" and valid: "validate_manifest manifest default_limits = Ok ()"
    and rt: "codec_roundtrip codec" and mc: "tj_manifest_checksum j = checksum_text mc" and ne: "hist \<noteq> []"
    and room: "c + record_bytes H codec hist \<le> tl_recovery_bytes default_limits"
  shows "state_names_of children \<noteq> []"
    "fold_state_chain H codec children i manifest mc (state_names_of children) c default_limits =
      Ok ((last hist, stored_checksum (record_of H codec default_limits (last hist))), c + record_bytes H codec hist)"
    "validate_temporaries H codec children i \<lparr>tc_manifest = manifest, tc_manifest_checksum = mc,
       tc_last_state = last hist, tc_last_checksum = x\<rparr> d default_limits = Ok d"
proof -
  have lim: "length hist \<le> MAX_STATE_RECORDS"
    using history_length[OF hist H] dir by (simp add: journal_directory_def default_limits_def)
  have child: "bt_get children (state_file k ''rec'') = map_option RegularChild (tj_directory j (state_file k ''rec''))" for k
    by (rule listing_records(3)[OF l valid])
  have sorted: "bt_sorted children" using l by (simp add: listing_of_def)
  have present: "state_file k ''rec'' \<in> fst ` set children \<longleftrightarrow> k < length hist" for k
    unfolding bt_keys[OF sorted] child using hist by (simp add: journal_history_def)
  have names: "bt_get (state_names_of children) k = (if k < length hist then Some (state_file k ''rec'') else None)" for k
    unfolding state_names_of_get present using lim by auto
  have len: "length (state_names_of children) = length hist"
    by (rule length_state_names) (use present lim in auto)
  then show "state_names_of children \<noteq> []" using ne by auto
  show "fold_state_chain H codec children i manifest mc (state_names_of children) c default_limits =
      Ok ((last hist, stored_checksum (record_of H codec default_limits (last hist))), c + record_bytes H codec hist)"
    by (rule fold_state_chain_reads[OF hist dir H rt mc names len child room ne])
  have "sn_sequence (last hist) = length hist - 1"
    using hist ne by (simp add: journal_history_def last_conv_nth)
  then have "sn_sequence (last hist) < u64_max"
    using lim by (simp add: MAX_STATE_RECORDS_def u64_max_def)
  moreover have "try_fold (validate_temporary H codec children i ctx n default_limits) (0, d) (map fst children) = Ok (0, d)"
    for ctx n by (rule no_temporaries) (use listing_no_temporaries(1)[OF l hist H dir valid] in auto)
  moreover have "''manifest.tmp'' \<notin> fst ` set children"
    using listing_no_temporaries(2)[OF l hist H dir valid, of "''manifest.tmp''"] by blast
  ultimately show "validate_temporaries H codec children i \<lparr>tc_manifest = manifest, tc_manifest_checksum = mc,
       tc_last_state = last hist, tc_last_checksum = x\<rparr> d default_limits = Ok d"
    by (simp add: validate_temporaries_def checked_add_u64_def)
qed

lemma manifest_only_read:
  assumes l: "listing_of j manifest children" and hist: "journal_history H codec j []" and H: "digest32 H"
    and dir: "journal_directory H mcodec i manifest j"
  shows "state_names_of children = []"
    "validate_manifest_only_entries H codec children i manifest mc d default_limits = Ok d"
proof -
  have sorted: "bt_sorted children" using l by (simp add: listing_of_def)
  have none: "tj_last_state j = None" using hist by (simp add: journal_history_def)
  have only: "name = ''manifest.rec''" if "name \<in> fst ` set children" for name
  proof -
    have "name \<notin> set (artifact_names manifest)"
      using that l none unfolding bt_keys[OF sorted] by (auto simp: listing_of_def)
    then show ?thesis using listing_names[OF l hist H dir that] by auto
  qed
  have "state_file k ''rec'' \<notin> fst ` set children" for k
    using only[of "state_file k ''rec''"] manifest_file_distinct by metis
  then have "length (state_names_of children) = 0"
    by (intro length_state_names) simp
  then show "state_names_of children = []" by simp
  have "try_fold (check_manifest_only_entry H codec children i manifest mc default_limits) d names = Ok d"
    if "set names \<subseteq> {''manifest.rec''}" for names
    using that by (induction names) (auto simp: check_manifest_only_entry_def)
  moreover have "set (map fst children) \<subseteq> {''manifest.rec''}"
    using only by (simp add: subset_iff)
  ultimately show "validate_manifest_only_entries H codec children i manifest mc d default_limits = Ok d"
    unfolding validate_manifest_only_entries_def by blast
qed

lemma journal_read:
  assumes l: "listing_of j manifest children" and hist: "journal_history H codec j hist" and H: "digest32 H"
    and dir: "journal_directory H mcodec i manifest j" and rt: "codec_roundtrip mcodec" "codec_roundtrip codec"
    and man: "tj_directory j ''manifest.rec'' = Some bs"
  shows "inspect_active_transaction H mcodec codec path children i 0 default_limits =
    Ok (journal_entry path i j, length bs + tj_state_record_bytes j)"
proof -
  have lim: "tj_limits j = default_limits" and man_id: "mf_transaction_id manifest = i"
    and enc: "encode_manifest_record_with_limits H mcodec manifest default_limits = Ok bs"
    and mc: "tj_manifest_checksum j = checksum_text (drop (length bs - 32) bs)"
    using dir man by (auto simp: journal_directory_def stored_checksum_def)
  note b = encoded_manifest_bounds[OF enc H]
  have sorted: "bt_sorted children" using l by (simp add: listing_of_def)
  have get: "bt_get children ''manifest.rec'' = Some (RegularChild bs)"
    using listing_records(1)[OF l b(4)] man by simp
  then have mem: "''manifest.rec'' \<in> fst ` set children"
    by (simp add: bt_keys[OF sorted])
  have bytes: "record_bytes H codec hist = tj_state_record_bytes j"
    using hist lim by (simp add: journal_history_def record_bytes_def)
  have "length bs \<le> 16777216" using b(2) by (simp add: default_limits_def MAX_RECORD_BYTES_def)
  moreover have "record_bytes H codec hist \<le> 134217728"
    using hist lim unfolding bytes
    by (cases "hist = []") (simp_all add: journal_history_def default_limits_def MAX_STATE_BYTES_def)
  ultimately have room: "length bs + record_bytes H codec hist \<le> tl_recovery_bytes default_limits"
    by (simp add: default_limits_def MAX_RECOVERY_BYTES_def)
  then have read: "read_record_bounded children ''manifest.rec'' 0 default_limits = Ok (bs, length bs)"
    using b(2) get by (simp add: read_record_bounded_def checked_add_u64_def default_limits_def
      MAX_RECOVERY_BYTES_def u64_max_def)
  note start = mem read decode_encoded_manifest[OF H rt(1) enc] man_id
  show ?thesis
  proof (cases "hist = []")
    case True
    then have "tj_last_state j = None" "tj_state_record_bytes j = 0"
      using hist by (simp_all add: journal_history_def)
    then show ?thesis
      using manifest_only_read[OF l hist[unfolded True] H dir] start
      by (simp add: inspect_active_transaction_def journal_entry_def Let_def)
  next
    case False
    then have "tj_last_state j = Some (last hist)"
      using hist by (simp add: journal_history_def)
    then show ?thesis
      using active_journal_read[OF l hist H dir b(4) rt(2) mc False room] active_names_valid[OF l hist H dir] start bytes
      by (simp add: inspect_active_transaction_def journal_entry_def Let_def)
  qed
qed
section \<open>The scan and the gate\<close>

text \<open>What the scan has collected after the active names \<open>act\<close> and the completed names \<open>done\<close>.\<close>

definition entry_from ::
    "ControlPaths \<Rightarrow> string list \<Rightarrow> string list \<Rightarrow> string \<Rightarrow> RecoveryEntry \<Rightarrow> bool" where
  "entry_from paths act compl k e \<longleftrightarrow> re_transaction_id e = k \<and>
     (k \<in> set act \<and> re_active_path e = Some (cp_transactions paths @ [k]) \<and> re_completed_path e = None \<or>
      (\<exists>name\<in>set compl. (\<exists>s. parse_completed_name name = Some (k, s)) \<and> re_active_path e = None \<and>
         re_completed_path e = Some (cp_completed paths @ [name])))"

definition entries_of ::
    "ControlPaths \<Rightarrow> string list \<Rightarrow> string list \<Rightarrow> (string, RecoveryEntry) btree \<Rightarrow> bool" where
  "entries_of paths act compl m \<longleftrightarrow> bt_sorted m \<and>
     (\<forall>k e. bt_get m k = Some e \<longrightarrow> entry_from paths act compl k e) \<and>
     (\<forall>k\<in>set act. \<exists>e. bt_get m k = Some e \<and> re_active_path e \<noteq> None) \<and>
     (\<forall>name\<in>set compl. \<exists>k e. bt_get m k = Some e \<and> re_completed_path e = Some (cp_completed paths @ [name]))"

lemma entry_from_mono:
  "entry_from paths act compl k e \<Longrightarrow> set act \<subseteq> set act' \<Longrightarrow> set compl \<subseteq> set compl' \<Longrightarrow> entry_from paths act' compl' k e"
  unfolding entry_from_def by blast

lemma entries_of_empty: "entries_of paths [] [] []"
  by (simp add: entries_of_def bt_sorted_def bt_get_def)

lemma entries_of_put:
  assumes m: "entries_of paths act compl m" "bt_get m k = None"
    and e: "entry_from paths (act @ act') (compl @ compl') k e"
      "\<forall>a\<in>set act'. a = k \<and> re_active_path e \<noteq> None"
      "\<forall>c\<in>set compl'. re_completed_path e = Some (cp_completed paths @ [c])"
  shows "entries_of paths (act @ act') (compl @ compl') (bt_put k e m)"
  unfolding entries_of_def
proof (intro conjI allI impI ballI)
  show "bt_sorted (bt_put k e m)" using m by (simp add: entries_of_def bt_sorted_put)
next
  fix k' f assume "bt_get (bt_put k e m) k' = Some f"
  then show "entry_from paths (act @ act') (compl @ compl') k' f"
    using m(1) e(1) entry_from_mono[of paths act compl k' f "act @ act'" "compl @ compl'"]
    by (auto simp: entries_of_def bt_get_put split: if_splits)
next
  fix a assume "a \<in> set (act @ act')"
  then show "\<exists>f. bt_get (bt_put k e m) a = Some f \<and> re_active_path f \<noteq> None"
    using m e(2) by (auto simp: entries_of_def bt_get_put)
next
  fix c assume c: "c \<in> set (compl @ compl')"
  show "\<exists>k' f. bt_get (bt_put k e m) k' = Some f \<and> re_completed_path f = Some (cp_completed paths @ [c])"
  proof (cases "c \<in> set compl'")
    case True
    then show ?thesis using e(3) by (intro exI[of _ k] exI[of _ e]) (simp add: bt_get_put)
  next
    case False
    then obtain k' f where "bt_get m k' = Some f" "re_completed_path f = Some (cp_completed paths @ [c])"
      using c m(1) unfolding entries_of_def by auto
    then show ?thesis using m(2) by (intro exI[of _ k'] exI[of _ f]) (auto simp: bt_get_put)
  qed
qed

lemma inspected_entry:
  assumes "inspect_active_transaction H mcodec scodec path children i c limits = Ok (e, c')"
  shows "re_transaction_id e = i" "re_active_path e = Some path" "re_completed_path e = None"
  using assms
  by (auto simp: inspect_active_transaction_def inspect_orphan_def active_entry_def Let_def split: if_splits)

lemma scan_active_entries:
  assumes "entries_of paths act [] (sc_entries st)" "scan_active euid H mcodec scodec paths limits st (name, t) = Ok st'"
  shows "entries_of paths (act @ [name]) [] (sc_entries st')"
proof -
  from assms(2) obtain e c c' where
    i: "inspect_active_transaction H mcodec scodec (cp_transactions paths @ [name]) (te_children t) name c limits = Ok (e, c')"
    and new: "sc_entries st' = bt_put name e (sc_entries st)" "bt_get (sc_entries st) name = None"
    by (auto simp: scan_active_def)
  then show ?thesis
    using entries_of_put[OF assms(1) new(2), of "[name]" "[]" e] inspected_entry[OF i]
    by (simp add: new(1) entry_from_def)
qed

lemma scan_completed_entries:
  assumes "entries_of paths act compl (sc_entries st)" "scan_completed euid H mcodec scodec paths limits st (name, t) = Ok st'"
  shows "entries_of paths act (compl @ [name]) (sc_entries st')"
proof -
  from assms(2) obtain i s e where
    p: "parse_completed_name name = Some (i, s)"
    and new: "sc_entries st' = bt_put i e (sc_entries st)" "bt_get (sc_entries st) i = None"
    and e: "re_transaction_id e = i" "re_active_path e = None" "re_completed_path e = Some (cp_completed paths @ [name])"
    by (auto simp: scan_completed_def ok_or_def Let_def split: option.splits)
  then show ?thesis
    using entries_of_put[OF assms(1) new(2), of "[]" "[name]" e] by (simp add: new(1) entry_from_def)
qed

lemma scan_control_entries:
  assumes "scan_control euid H mcodec scodec paths tree limits = Ok observation"
  obtains m where "cob_entries observation = map snd m"
    "entries_of paths (map fst (ct_active tree)) (map fst (ct_done tree)) m"
proof -
  from assms obtain st st' where
    a: "try_fold (scan_active euid H mcodec scodec paths limits)
      \<lparr>sc_cumulative = 0, sc_scanned = 0, sc_entries = []\<rparr> (ct_active tree) = Ok st"
    and c: "try_fold (scan_completed euid H mcodec scodec paths limits) st (ct_done tree) = Ok st'"
    and o: "cob_entries observation = map snd (sc_entries st')"
    by (auto simp: scan_control_def)
  have "entries_of paths (map fst (ct_active tree)) [] (sc_entries st)"
    by (rule try_fold_prefix_invariant[OF a, where I = "\<lambda>pre st. entries_of paths (map fst pre) [] (sc_entries st)"])
      (auto intro!: scan_active_entries simp: entries_of_empty)
  then have "entries_of paths (map fst (ct_active tree)) (map fst (ct_done tree)) (sc_entries st')"
    by (intro try_fold_prefix_invariant[OF c,
        where I = "\<lambda>pre st. entries_of paths (map fst (ct_active tree)) (map fst pre) (sc_entries st)"])
      (auto intro!: scan_completed_entries)
  with o show thesis by (rule that)
qed

lemma entries_of_ids:
  assumes "entries_of paths act compl m"
  shows "map re_transaction_id (map snd m) = map fst m"
proof -
  have "re_transaction_id (snd e) = fst e" if "e \<in> set m" for e
  proof -
    obtain k v where e: "e = (k, v)" by (cases e)
    then have "bt_get m k = Some v"
      using that assms bt.entries_get[of m k v] by (simp add: entries_of_def)
    then show ?thesis using assms e by (auto simp: entries_of_def entry_from_def)
  qed
  then show ?thesis by simp
qed

text \<open>The identifiers of the active entries of a scan are the active directories, in order.\<close>

lemma strict_sorted_same_set:
  "sorted_wrt (<) xs \<Longrightarrow> sorted_wrt (<) ys \<Longrightarrow> set xs = set ys \<Longrightarrow> xs = (ys :: 'a :: linorder list)"
  using sorted_distinct_set_unique strict_sorted_iff by blast

lemma active_entries:
  assumes m: "entries_of paths act compl m" and act: "sorted_wrt (<) act"
  shows "map re_transaction_id (filter (\<lambda>e. re_active_path e \<noteq> None) (map snd m)) = act"
proof (rule strict_sorted_same_set)
  have sorted: "bt_sorted m" using m by (simp add: entries_of_def)
  have mem: "(k, e) \<in> set m \<longleftrightarrow> bt_get m k = Some e" for k e
    by (rule bt.entries_get[OF sorted])
  have eq: "map re_transaction_id (filter (\<lambda>e. re_active_path e \<noteq> None) (map snd m)) =
      map fst (filter (\<lambda>e. re_active_path (snd e) \<noteq> None) m)"
    using m mem unfolding entries_of_def entry_from_def filter_map map_map o_def
    by (intro map_cong refl) auto
  then show "sorted_wrt (<) (map re_transaction_id (filter (\<lambda>e. re_active_path e \<noteq> None) (map snd m)))"
    using sorted by (simp add: bt_sorted_def sorted_wrt_map sorted_wrt_filter)
  show "set (map re_transaction_id (filter (\<lambda>e. re_active_path e \<noteq> None) (map snd m))) = set act"
    unfolding eq
  proof
    show "set (map fst (filter (\<lambda>e. re_active_path (snd e) \<noteq> None) m)) \<subseteq> set act"
      using m mem unfolding entries_of_def entry_from_def by fastforce
    show "set act \<subseteq> set (map fst (filter (\<lambda>e. re_active_path (snd e) \<noteq> None) m))"
    proof
      fix k assume "k \<in> set act"
      then obtain e where "(k, e) \<in> set m" "re_active_path e \<noteq> None"
        using m unfolding entries_of_def mem by blast
      then show "k \<in> set (map fst (filter (\<lambda>e. re_active_path (snd e) \<noteq> None) m))"
        by force
    qed
  qed
qed (rule act)

text \<open>Cleanup removes completed directories and nothing else.\<close>

lemma cleanup_completed_Ok:
  assumes "cleanup_completed_directory H mcodec scodec tree name i = (tree', Ok ())"
  shows "tree' = tree\<lparr>ct_done := bt_remove name (ct_done tree)\<rparr>"
  using assms
  by (auto simp: cleanup_completed_directory_def split: option.splits sum.splits prod.splits)

lemma cleanup_entries_Ok:
  assumes "cleanup_entries H mcodec scodec tree entries = (tree', Ok ())"
  shows "tree' = tree\<lparr>ct_done := filter (\<lambda>d. \<forall>e\<in>set entries. \<forall>path. re_completed_path e = Some path \<longrightarrow>
     last path \<noteq> fst d) (ct_done tree)\<rparr>"
  using assms
proof (induction entries arbitrary: tree)
  case (Cons e entries)
  show ?case
  proof (cases "re_completed_path e")
    case None
    then show ?thesis using Cons.IH[of tree] Cons.prems by simp
  next
    case (Some path)
    then obtain mid where mid: "cleanup_completed_directory H mcodec scodec tree (last path) (re_transaction_id e) = (mid, Ok ())"
      "cleanup_entries H mcodec scodec mid entries = (tree', Ok ())"
      using Cons.prems by (auto split: prod.splits sum.splits)
    have "filter P (bt_remove k m) = filter (\<lambda>d. k \<noteq> fst d \<and> P d) m" for P k and m :: "(string, TransactionEntry) btree"
      by (auto simp: bt_remove_def intro!: filter_cong)
    then show ?thesis
      using Cons.IH[OF mid(2)] cleanup_completed_Ok[OF mid(1)] Some by simp
  qed
qed simp

lemma gate_result:
  assumes "gate_new_transaction_with_limits euid H mcodec scodec paths tree limits = (tree', r)"
    and "bt_sorted (ct_active tree)"
  shows "r = Ok () \<Longrightarrow> ct_active tree = [] \<and> tree' = tree\<lparr>ct_done := []\<rparr>"
    "scan_control euid H mcodec scodec paths tree limits = Ok observation \<Longrightarrow> ct_active tree \<noteq> [] \<Longrightarrow>
       tree' = tree \<and> r = Err (TransactionRecoveryRequired (map fst (ct_active tree)))"
proof -
  have ids: "map re_transaction_id (filter (\<lambda>e. re_active_path e \<noteq> None) (cob_entries obs)) = map fst (ct_active tree)"
    if "scan_control euid H mcodec scodec paths tree limits = Ok obs" for obs
    using that
  proof (rule scan_control_entries)
    fix m assume "cob_entries obs = map snd m" "entries_of paths (map fst (ct_active tree)) (map fst (ct_done tree)) m"
    with active_entries[OF this(2)] assms(2) show ?thesis by (simp add: bt_sorted_def)
  qed
  show "tree' = tree \<and> r = Err (TransactionRecoveryRequired (map fst (ct_active tree)))"
    if "scan_control euid H mcodec scodec paths tree limits = Ok observation" "ct_active tree \<noteq> []"
  proof -
    have "map fst (ct_active tree) \<noteq> []" using that(2) by simp
    with ids[OF that(1)] show ?thesis
      using assms(1) that(1) unfolding gate_new_transaction_with_limits_def Let_def
      by (simp only: sum.case if_True prod.inject) auto
  qed
  show "ct_active tree = [] \<and> tree' = tree\<lparr>ct_done := []\<rparr>" if ok: "r = Ok ()"
  proof -
    obtain obs where obs: "scan_control euid H mcodec scodec paths tree limits = Ok obs"
      using assms(1) ok by (cases "scan_control euid H mcodec scodec paths tree limits")
        (auto simp: gate_new_transaction_with_limits_def)
    then have none: "ct_active tree = []"
      and clean: "cleanup_entries H mcodec scodec tree (cob_entries obs) = (tree', Ok ())"
      using assms(1) ok ids[OF obs] by (auto simp: gate_new_transaction_with_limits_def Let_def split: if_splits)
    from obs obtain m where m: "cob_entries obs = map snd m"
      "entries_of paths (map fst (ct_active tree)) (map fst (ct_done tree)) m"
      by (rule scan_control_entries)
    have "\<exists>e\<in>set (cob_entries obs). \<exists>path. re_completed_path e = Some path \<and> last path = fst d"
      if d: "d \<in> set (ct_done tree)" for d
    proof -
      obtain k e where "bt_get m k = Some e" "re_completed_path e = Some (cp_completed paths @ [fst d])"
        using m(2) d unfolding entries_of_def by auto
      then have "(k, e) \<in> set m" "re_completed_path e = Some (cp_completed paths @ [fst d])"
        using m(2) bt.entries_get[of m k e] by (auto simp: entries_of_def)
      then show ?thesis unfolding m(1) by force
    qed
    then have "filter (\<lambda>d. \<forall>e\<in>set (cob_entries obs). \<forall>path. re_completed_path e = Some path \<longrightarrow>
        last path \<noteq> fst d) (ct_done tree) = []"
      unfolding filter_empty_conv by blast
    then show ?thesis using cleanup_entries_Ok[OF clean] none by simp
  qed
qed

section \<open>Allocation of transaction directories\<close>

lemma hex_char_lower: "n < 16 \<Longrightarrow> is_lower_hex (HEX ! n)"
  by (simp add: HEX_def less_Suc_eq numeral_eq_Suc is_lower_hex_def) (elim disjE; simp)

lemma hex_lower_valid: "length bs = 16 \<Longrightarrow> validate_transaction_id (hex_lower bs) = Ok ()"
proof -
  assume "length bs = 16"
  moreover have "length (hex_lower bs) = 2 * length bs"
    by (induction bs) (simp_all add: hex_lower_def)
  moreover have "unat (drop_bit 4 b) < 16" "unat (and b 15) < 16" for b :: u8
    using unat_u8_lt[of b] by (simp_all add: unat_high_nibble unat_low_nibble less_mult_imp_div_less)
  then have "list_all is_lower_hex (hex_lower bs)"
    by (auto simp: hex_lower_def list_all_iff hex_char_lower)
  ultimately show ?thesis by (simp add: validate_transaction_id_def)
qed

definition id_taken :: "ControlTree \<Rightarrow> string \<Rightarrow> bool" where
  "id_taken tree i \<longleftrightarrow> bt_get (ct_done tree) (i @ ''-committed'') \<noteq> None \<or>
     bt_get (ct_done tree) (i @ ''-rolledback'') \<noteq> None \<or> bt_get (ct_active tree) i \<noteq> None"

lemma create_attempts_Ok:
  assumes "create_attempts random tree object attempts = Ok (i, tree')"
  shows "\<exists>k\<in>set attempts. \<exists>bs. random k = Ok bs \<and> i = hex_lower bs" "\<not> id_taken tree i"
    "tree' = tree\<lparr>ct_active := bt_put i \<lparr>te_object = object, te_children = []\<rparr> (ct_active tree)\<rparr>"
  using assms by (induction attempts) (auto simp: id_taken_def Let_def split: if_splits)

lemma create_attempts_collisions:
  assumes "\<And>k. k \<in> set attempts \<Longrightarrow> \<exists>bs. random k = Ok bs"
  shows "(\<exists>r. create_attempts random tree object attempts = Ok r) \<longleftrightarrow>
    (\<exists>k\<in>set attempts. \<exists>bs. random k = Ok bs \<and> \<not> id_taken tree (hex_lower bs))"
  using assms
proof (induction attempts)
  case (Cons k attempts)
  obtain bs where "random k = Ok bs" using Cons.prems[of k] by auto
  then show ?case using Cons by (auto simp: id_taken_def Let_def)
qed simp

section \<open>Truncated temporaries\<close>

lemma short_record_rejected:
  "length bs < 56 \<Longrightarrow> decode_state_record_with_checksum H codec bs i limits \<noteq> Ok d"
  by (auto simp: decode_state_record_with_checksum_def decode_record_def Let_def)

lemma try_fold_step_Ok:
  assumes "try_fold f s xs = Ok t" "x \<in> set xs"
  shows "\<exists>u v. f u x = Ok v"
  using assms by (induction xs arbitrary: s) auto

lemma read_record_content:
  "bt_get children name = Some (RegularChild bs) \<Longrightarrow> read_record_bounded children name c limits = Ok (bs', c') \<Longrightarrow> bs' = bs"
  by (auto simp: read_record_bounded_def)

lemma inspect_active_Ok:
  assumes "inspect_active_transaction H mcodec codec path children i c limits = Ok r" "''manifest.rec'' \<in> fst ` set children"
  obtains (manifest_only) m mc d e where "validate_manifest_only_entries H codec children i m mc d limits = Ok e"
  | (active) ctx d e where "validate_temporaries H codec children i ctx d limits = Ok e"
proof (cases "state_names_of children = []")
  case True
  with assms have "\<exists>m mc d e. validate_manifest_only_entries H codec children i m mc d limits = Ok e"
    by (auto simp: inspect_active_transaction_def Let_def)
  then show thesis using manifest_only by blast
next
  case False
  with assms have "\<exists>ctx d e. validate_temporaries H codec children i ctx d limits = Ok e"
    by (auto simp: inspect_active_transaction_def Let_def)
  then show thesis using active by blast
qed

lemma short_entry_rejected:
  assumes "bt_get children name = Some (RegularChild bs)" "length bs < 56" "name \<noteq> ''manifest.rec''"
  shows "check_manifest_only_entry H codec children i m mc limits u name \<noteq> Ok v"
    "parse_state_name name ''tmp'' \<noteq> None \<Longrightarrow> validate_temporary H codec children i ctx k limits w name \<noteq> Ok x"
proof -
  have "\<exists>e. decode_state_record_with_checksum H codec bs (Some i) limits = Err e"
    using short_record_rejected[OF assms(2)] by (cases "decode_state_record_with_checksum H codec bs (Some i) limits") auto
  then obtain e where e: "decode_state_record_with_checksum H codec bs (Some i) limits = Err e" ..
  show "check_manifest_only_entry H codec children i m mc limits u name \<noteq> Ok v"
    using assms(3) read_record_content[OF assms(1), of u limits] e
    by (cases "read_record_bounded children name u limits") (auto simp: check_manifest_only_entry_def)
  assume "parse_state_name name ''tmp'' \<noteq> None"
  then obtain s where s: "parse_state_name name ''tmp'' = Some s" by auto
  show "validate_temporary H codec children i ctx k limits w name \<noteq> Ok x"
    using read_record_content[OF assms(1), of "snd w" limits] e
    by (cases w; cases "read_record_bounded children name (snd w) limits") (auto simp: validate_temporary_def s)
qed

lemma short_temporary_rejected:
  assumes "bt_get children (state_file n ''tmp'') = Some (RegularChild bs)" "bt_sorted children"
    and "length bs < 56" "n < MAX_STATE_RECORDS"
  shows "inspect_active_transaction H mcodec codec path children i c limits \<noteq> Ok r"
proof
  let ?name = "state_file n ''tmp''"
  assume ok: "inspect_active_transaction H mcodec codec path children i c limits = Ok r"
  have mem: "?name \<in> set (map fst children)"
    using bt_keys[OF assms(2), of ?name] assms(1) by simp
  have "parse_state_name ?name ''tmp'' = Some n"
    by (simp add: parse_state_name_Some_iff assms(4))
  then have parse: "parse_state_name ?name ''tmp'' \<noteq> None" by simp
  note short = short_entry_rejected[OF assms(1,3) manifest_file_distinct(1)]
  show False
  proof (cases "''manifest.rec'' \<in> fst ` set children")
    case False
    then have "list_all (\<lambda>name. name = ''manifest.tmp'') (map fst children)"
      using ok by (auto simp: inspect_active_transaction_def inspect_orphan_def)
    then have "?name = ''manifest.tmp''" using mem by (auto simp: list_all_iff)
    then show False by simp
  next
    case True
    from ok True show False
    proof (cases rule: inspect_active_Ok)
      case (manifest_only m mc d e)
      from try_fold_step_Ok[OF this[unfolded validate_manifest_only_entries_def] mem] short(1) show False by blast
    next
      case (active ctx d e)
      then obtain k st where "try_fold (validate_temporary H codec children i ctx k limits) (0, d) (map fst children) = Ok st"
        unfolding validate_temporaries_def by auto
      from try_fold_step_Ok[OF this mem] short(2)[OF parse] show False by blast
    qed
  qed
qed

lemma scan_control_inspects:
  assumes "scan_control euid H mcodec codec paths tree limits = Ok observation" "(i, t) \<in> set (ct_active tree)"
  shows "\<exists>c r. inspect_active_transaction H mcodec codec (cp_transactions paths @ [i]) (te_children t) i c limits = Ok r"
proof -
  from assms(1) obtain st0 st where "try_fold (scan_active euid H mcodec codec paths limits) st0 (ct_active tree) = Ok st"
    by (auto simp: scan_control_def)
  from try_fold_step_Ok[OF this assms(2)] obtain u v where "scan_active euid H mcodec codec paths limits u (i, t) = Ok v"
    by blast
  then show ?thesis unfolding scan_active_def by auto
qed

section \<open>The budget of completed directories\<close>

definition child_bytes :: "Child \<Rightarrow> nat" where
  "child_bytes child = (case child of RegularChild bs \<Rightarrow> length bs | IrregularChild \<Rightarrow> 0)"

definition directory_bytes :: "listing \<Rightarrow> nat" where
  "directory_bytes children = (\<Sum>e\<leftarrow>children. child_bytes (snd e))"

lemma completed_entry_charge:
  assumes "validate_completed_entry H mcodec scodec children i limits c (name, child) = Ok c'"
    and "bt_get children name = Some child"
  shows "c' = c + child_bytes child" "c' \<le> tl_recovery_bytes limits"
proof -
  from assms(1) obtain bs where child: "child = RegularChild bs"
    by (cases child) (auto simp: validate_completed_entry_def)
  have read: "d = c + length bs \<and> d \<le> tl_recovery_bytes limits"
    if "read_record_bounded children name c limits = Ok (b, d)" for b d
    using that assms(2) by (auto simp: read_record_bounded_def child checked_add_u64_def ok_or_def split: if_splits)
  consider "name = ''manifest.rec''" | s where "name \<noteq> ''manifest.rec''"
      "(case parse_state_name name ''rec'' of Some s \<Rightarrow> Some s | None \<Rightarrow> parse_state_name name ''tmp'') = Some s"
    | "name \<noteq> ''manifest.rec''"
      "(case parse_state_name name ''rec'' of Some s \<Rightarrow> Some s | None \<Rightarrow> parse_state_name name ''tmp'') = None"
    by (cases "case parse_state_name name ''rec'' of Some s \<Rightarrow> Some s | None \<Rightarrow> parse_state_name name ''tmp''") auto
  then have "c' = c + length bs \<and> c' \<le> tl_recovery_bytes limits"
  proof cases
    case 3
    then show ?thesis
      using assms(1)
      by (auto simp: validate_completed_entry_def child checked_add_u64_def ok_or_def split: if_splits)
  qed (use assms(1) read in \<open>auto simp: validate_completed_entry_def child\<close>)
  then show "c' = c + child_bytes child" "c' \<le> tl_recovery_bytes limits"
    by (simp_all add: child child_bytes_def)
qed

lemma completed_contents_charge:
  assumes "validate_completed_contents H mcodec scodec children i c limits = Ok c'" "bt_sorted children"
  shows "c' = c + directory_bytes children \<and> (children \<noteq> [] \<longrightarrow> c' \<le> tl_recovery_bytes limits)"
proof (rule try_fold_prefix_invariant[OF assms(1)[unfolded validate_completed_contents_def],
    where I = "\<lambda>pre d. d = c + directory_bytes pre \<and> (pre \<noteq> [] \<longrightarrow> d \<le> tl_recovery_bytes limits)"])
  fix pre e post d d'
  assume a: "children = pre @ e # post" "d = c + directory_bytes pre \<and> (pre \<noteq> [] \<longrightarrow> d \<le> tl_recovery_bytes limits)"
    "validate_completed_entry H mcodec scodec children i limits d e = Ok d'"
  obtain name child where e: "e = (name, child)" by (cases e)
  then have "(name, child) \<in> set children" using a(1) by simp
  then have "bt_get children name = Some child" by (simp only: bt.entries_get[OF assms(2)])
  from completed_entry_charge[OF a(3)[unfolded e] this] a(2)
  show "d' = c + directory_bytes (pre @ [e]) \<and> (pre @ [e] \<noteq> [] \<longrightarrow> d' \<le> tl_recovery_bytes limits)"
    by (simp add: directory_bytes_def e)
qed (simp add: directory_bytes_def)

lemma oversized_contents:
  assumes "bt_sorted children" "tl_recovery_bytes limits < directory_bytes children"
  shows "\<exists>e. validate_completed_contents H mcodec scodec children i c limits = Err e"
proof (cases "validate_completed_contents H mcodec scodec children i c limits")
  case (Inr c')
  moreover have "children \<noteq> []" using assms(2) by (auto simp: directory_bytes_def)
  ultimately have False using completed_contents_charge[OF Inr assms(1)] assms(2) by simp
  then show ?thesis ..
qed simp

lemma scan_control_completed:
  assumes "scan_control euid H mcodec codec paths tree limits = Ok observation" "(name, t) \<in> set (ct_done tree)"
  shows "\<exists>i c c'. validate_completed_contents H mcodec codec (te_children t) i c limits = Ok c'"
proof -
  from assms(1) obtain st0 st where "try_fold (scan_completed euid H mcodec codec paths limits) st0 (ct_done tree) = Ok st"
    by (auto simp: scan_control_def)
  from try_fold_step_Ok[OF this assms(2)] obtain u v where "scan_completed euid H mcodec codec paths limits u (name, t) = Ok v"
    by blast
  then show ?thesis unfolding scan_completed_def by auto
qed

lemma finish_transaction_moves:
  assumes "validate_transaction_id i = Ok ()" "bt_get (ct_active tree) i = Some t"
    and "bt_get (ct_done tree) completed = None" "completed = i @ ''-'' @ (if committed then ''committed'' else ''rolledback'')"
  shows "finish_transaction H mcodec scodec paths tree i (cp_transactions paths @ [i]) committed =
    cleanup_completed_directory H mcodec scodec
      (tree\<lparr>ct_active := bt_remove i (ct_active tree), ct_done := bt_put completed t (ct_done tree)\<rparr>) completed i"
  using assms by (simp add: finish_transaction_def Let_def)

section \<open>Properties\<close>

text \<open>Control names: a name of the transaction directory parses as the state record (or
  temporary) of a sequence number exactly when it is the name the journal gives to that sequence
  number, generated artifact names are exactly \<open>prefix-NNNNNNNN\<close> with an index below the target
  limit, and a completed directory parses exactly when it is a valid transaction identifier
  followed by its terminal state.\<close>

theorem control_names_are_exact:
  "(parse_state_name name extension = Some n \<longleftrightarrow> n < MAX_STATE_RECORDS \<and> name = state_file n extension) \<and>
   (is_artifact_name name prefix \<longleftrightarrow> (\<exists>n<MAX_TRANSACTION_TARGETS. name = prefix @ ''-'' @ pad8 n)) \<and>
   (parse_completed_name name = Some (i, state) \<longleftrightarrow>
      validate_transaction_id i = Ok () \<and> state \<in> {''committed'', ''rolledback''} \<and> name = i @ ''-'' @ state)"
  using parse_state_name_Some_iff is_artifact_name_iff parse_completed_name_Some_iff by blast



text \<open>A transaction directory is created under a fresh valid identifier: with a random source
  of 16 bytes, the identifier is one of the answers in lower-case hexadecimal, no active or
  completed directory had it, and the tree differs only by the new empty directory; when the source does not fail,
  a directory is created exactly when one of the first eight answers is free.\<close>

theorem created_directory_is_fresh:
  assumes "\<forall>k<MAX_ID_ATTEMPTS. \<exists>bs. random k = Ok bs \<and> length bs = 16"
  shows "(\<forall>i tree'. create_transaction_directory_with random tree object = Ok (i, tree') \<longrightarrow>
      validate_transaction_id i = Ok () \<and> \<not> id_taken tree i \<and>
      tree' = tree\<lparr>ct_active := bt_put i \<lparr>te_object = object, te_children = []\<rparr> (ct_active tree)\<rparr>) \<and>
    ((\<exists>r. create_transaction_directory_with random tree object = Ok r) \<longleftrightarrow>
      (\<exists>k<MAX_ID_ATTEMPTS. \<exists>bs. random k = Ok bs \<and> \<not> id_taken tree (hex_lower bs)))"
proof (intro conjI allI impI)
  fix i tree' assume "create_transaction_directory_with random tree object = Ok (i, tree')"
  note c = create_attempts_Ok[OF this[unfolded create_transaction_directory_with_def]]
  show "validate_transaction_id i = Ok ()"
    using c(1) assms hex_lower_valid by fastforce
  show "\<not> id_taken tree i"
    "tree' = tree\<lparr>ct_active := bt_put i \<lparr>te_object = object, te_children = []\<rparr> (ct_active tree)\<rparr>"
    using c(2,3) by simp_all
next
  have "\<exists>bs. random k = Ok bs" if "k \<in> set [0..<MAX_ID_ATTEMPTS]" for k
    using assms that by auto
  from create_attempts_collisions[of "[0..<MAX_ID_ATTEMPTS]" random tree object, OF this]
  show "(\<exists>r. create_transaction_directory_with random tree object = Ok r) \<longleftrightarrow>
      (\<exists>k<MAX_ID_ATTEMPTS. \<exists>bs. random k = Ok bs \<and> \<not> id_taken tree (hex_lower bs))"
    unfolding create_transaction_directory_with_def by (simp add: Bex_def)
qed

text \<open>C16: A state temporary shorter than any record, which a process killed while it writes the
  temporary leaves behind, makes the inspection of its directory, and with it the scan of the whole control tree and
  the lookup of any transaction for recovery, fail: neither a new transaction nor the recovery of
  any transaction is possible until the file is removed by hand.\<close>

theorem truncated_temporary_blocks_recovery:
  assumes "(i, t) \<in> set (ct_active tree)" "bt_sorted (te_children t)" "n < MAX_STATE_RECORDS"
    and "bt_get (te_children t) (state_file n ''tmp'') = Some (RegularChild bs)" "length bs < 56"
  shows "(\<exists>e. scan_control euid H mcodec scodec paths tree limits = Err e) \<and>
    (\<exists>e. recovery_entry euid H mcodec scodec paths tree i' = Err e) \<and>
    (\<exists>e. gate_new_transaction_with_limits euid H mcodec scodec paths tree limits = (tree, Err e))"
proof -
  have scan: "\<exists>e. scan_control euid H mcodec scodec paths tree limits = Err e" for limits
  proof (cases "scan_control euid H mcodec scodec paths tree limits")
    case (Inr observation)
    from scan_control_inspects[OF this assms(1)]
      short_temporary_rejected[OF assms(4,2,5,3), of H mcodec scodec "cp_transactions paths @ [i]" i]
    show ?thesis by blast
  qed simp
  obtain e e' where e: "scan_control euid H mcodec scodec paths tree limits = Err e"
    "scan_control euid H mcodec scodec paths tree default_limits = Err e'"
    using scan[of limits] scan[of default_limits] by blast
  moreover have "\<exists>e. recovery_entry euid H mcodec scodec paths tree i' = Err e"
    by (cases "validate_transaction_id i'") (simp_all add: recovery_entry_def e)
  ultimately show ?thesis
    by (simp add: gate_new_transaction_with_limits_def)
qed

text \<open>C17: a transaction whose records and artifacts together exceed the recovery budget of 256 MiB,
  although the journal admits artifacts of up to 3 GiB, can be finished only halfway: its directory is moved among
  the completed ones and the call fails; from then on its cleanup, every scan, the
  lookup of any transaction and the gate for new transactions fail, and none of them changes the tree.\<close>

theorem oversized_transaction_is_never_cleaned:
  assumes "validate_transaction_id i = Ok ()" "bt_get (ct_active tree) i = Some t"
    and "bt_get (ct_done tree) (i @ ''-committed'') = None" "bt_sorted (ct_done tree)" "bt_sorted (te_children t)"
    and "tl_recovery_bytes default_limits < directory_bytes (te_children t)"
  shows "\<exists>e tree'. finish_transaction H mcodec scodec paths tree i (cp_transactions paths @ [i]) True = (tree', Err e) \<and>
    bt_get (ct_done tree') (i @ ''-committed'') = Some t \<and>
    (\<exists>e. cleanup_completed_directory H mcodec scodec tree' (i @ ''-committed'') i = (tree', Err e)) \<and>
    (\<exists>e. scan_control euid H mcodec scodec paths tree' default_limits = Err e) \<and>
    (\<exists>e. recovery_entry euid H mcodec scodec paths tree' i' = Err e) \<and>
    (\<exists>e. gate_new_transaction_with_limits euid H mcodec scodec paths tree' default_limits = (tree', Err e)) \<and>
    tl_recovery_bytes default_limits < tl_projected_disk_bytes default_limits"
proof -
  let ?name = "i @ ''-committed''"
  let ?tree = "tree\<lparr>ct_active := bt_remove i (ct_active tree), ct_done := bt_put ?name t (ct_done tree)\<rparr>"
  have get: "bt_get (ct_done ?tree) ?name = Some t" by (simp add: bt_get_put)
  have sorted: "bt_sorted (ct_done ?tree)"
    using bt_sorted_put[OF assms(4)] by simp
  have mem: "(?name, t) \<in> set (ct_done ?tree)"
    using get by (simp only: bt.entries_get[OF sorted])
  note over = oversized_contents[OF assms(5,6)]
  obtain e where clean: "cleanup_completed_directory H mcodec scodec ?tree ?name i = (?tree, Err e)"
    using over[of H mcodec scodec i 0] unfolding cleanup_completed_directory_def get by auto
  obtain e' where scan: "scan_control euid H mcodec scodec paths ?tree default_limits = Err e'"
  proof (cases "scan_control euid H mcodec scodec paths ?tree default_limits")
    case (Inr observation)
    obtain j c c' where "validate_completed_contents H mcodec scodec (te_children t) j c default_limits = Ok c'"
      using scan_control_completed[OF Inr mem] by blast
    then show thesis using over[of H mcodec scodec j c] by auto
  qed simp
  obtain e3 where entry: "recovery_entry euid H mcodec scodec paths ?tree i' = Err e3"
    by (cases "validate_transaction_id i'") (simp_all add: recovery_entry_def scan)
  have fin: "finish_transaction H mcodec scodec paths tree i (cp_transactions paths @ [i]) True = (?tree, Err e)"
    unfolding clean[symmetric] by (rule finish_transaction_moves[OF assms(1,2,3)]) simp
  have gate: "gate_new_transaction_with_limits euid H mcodec scodec paths ?tree default_limits = (?tree, Err e')"
    by (simp add: gate_new_transaction_with_limits_def scan)
  have lim: "tl_recovery_bytes default_limits < tl_projected_disk_bytes default_limits"
    by (simp add: default_limits_def MAX_RECOVERY_BYTES_def MAX_TRANSACTION_DISK_BYTES_def)
  show ?thesis
  proof (intro exI conjI)
    show "finish_transaction H mcodec scodec paths tree i (cp_transactions paths @ [i]) True = (?tree, Err e)" by (rule fin)
  qed (rule get clean scan entry gate lim)+
qed

section \<open>Witnesses\<close>

definition sample_record :: bytes where
  "sample_record = envelope MANIFEST_MAGIC [1] @ replicate 32 0"

lemma sample_journal:
  "\<exists>j. journal_of zero_digest (sample_codec sample_manifest) sample_id sample_manifest j \<and>
     tj_directory j = [''manifest.rec'' \<mapsto> sample_record] \<and> tj_last_state j = None \<and> tj_state_record_bytes j = 0"
proof -
  have "projected_artifact_bytes sample_manifest default_limits = Ok 0"
    by (simp add: projected_artifact_bytes_def sample_manifest_def add_artifact_bytes_def checked_add_u64_def)
  then show ?thesis
    by (simp add: journal_of_def create_with_limits_def sample_manifest_valid sample_manifest_encoded record_checksum_def
        checked_sub_u64_def publish_record_def checked_add_u64_def sat_u64_def u64_max_def sample_record_def)
      (simp add: sample_manifest_def)
qed


definition sample_object :: "FileType \<Rightarrow> ControlObject" where
  "sample_object ft = \<lparr>co_file_type = ft, co_identity = (1, 2), co_uid = 0, co_mode = 448\<rparr>"

definition sample_tree :: "(string, TransactionEntry) btree \<Rightarrow> ControlTree" where
  "sample_tree active = \<lparr>ct_root = Some (sample_object DirectoryType), ct_control = Some (sample_object DirectoryType),
     ct_transactions = Some (sample_object DirectoryType), ct_completed = Some (sample_object DirectoryType),
     ct_lock = Some (sample_object RegularType), ct_active = active, ct_done = []\<rparr>"

definition sample_paths :: ControlPaths where
  "sample_paths = \<lparr>cp_control = [], cp_transactions = [''t''], cp_completed = [''c''], cp_lock = [''l'']\<rparr>"


theorem created_directory_is_fresh_witness:
  "\<exists>r. create_transaction_directory_with (\<lambda>_. Ok (replicate 16 0)) (sample_tree []) (sample_object DirectoryType) = Ok r"
proof -
  have "0 < MAX_ID_ATTEMPTS" "\<not> id_taken (sample_tree []) (hex_lower (replicate 16 0))"
    by (simp_all add: MAX_ID_ATTEMPTS_def id_taken_def sample_tree_def bt_get_def)
  then show ?thesis
    using created_directory_is_fresh[of "\<lambda>_. Ok (replicate 16 0)" "sample_tree []" "sample_object DirectoryType"]
    by auto
qed

theorem truncated_temporary_blocks_recovery_witness:
  "\<exists>e. recovery_entry 0 zero_digest (sample_codec sample_manifest) (sample_codec sample_state) sample_paths
     (sample_tree [(sample_id, \<lparr>te_object = sample_object DirectoryType,
        te_children = [(''manifest.rec'', RegularChild sample_record), (state_file 0 ''tmp'', RegularChild [])]\<rparr>)])
     sample_id = Err e"
proof -
  let ?children = "[(''manifest.rec'', RegularChild sample_record), (state_file 0 ''tmp'', RegularChild [])]"
  let ?t = "\<lparr>te_object = sample_object DirectoryType, te_children = ?children\<rparr>"
  have "bt_sorted ?children" "bt_get ?children (state_file 0 ''tmp'') = Some (RegularChild [])"
    by (simp_all add: bt_sorted_def bt_get_def state_file_def)
  then show ?thesis
    using truncated_temporary_blocks_recovery[of sample_id ?t "sample_tree [(sample_id, ?t)]" 0 "[]"]
    by (simp add: sample_tree_def MAX_STATE_RECORDS_def)
qed

theorem oversized_transaction_is_never_cleaned_witness:
  "\<exists>e tree'. finish_transaction zero_digest (sample_codec sample_manifest) (sample_codec sample_state) sample_paths
     (sample_tree [(sample_id, \<lparr>te_object = sample_object DirectoryType,
        te_children = [(''backup-00000000'', RegularChild (replicate 268435457 0))]\<rparr>)])
     sample_id (cp_transactions sample_paths @ [sample_id]) True = (tree', Err e) \<and>
     (\<exists>e. gate_new_transaction_with_limits 0 zero_digest (sample_codec sample_manifest) (sample_codec sample_state)
        sample_paths tree' default_limits = (tree', Err e))"
proof -
  let ?children = "[(''backup-00000000'', RegularChild (replicate 268435457 0))]"
  let ?t = "\<lparr>te_object = sample_object DirectoryType, te_children = ?children\<rparr>"
  have "validate_transaction_id sample_id = Ok ()"
    by (simp add: validate_transaction_id_def sample_id_def is_lower_hex_def list_all_iff)
  moreover have "tl_recovery_bytes default_limits < directory_bytes ?children"
    by (simp add: default_limits_def MAX_RECOVERY_BYTES_def directory_bytes_def child_bytes_def)
  ultimately show ?thesis
    using oversized_transaction_is_never_cleaned[of sample_id "sample_tree [(sample_id, ?t)]" ?t]
    by (simp add: sample_tree_def bt_get_def bt_sorted_def) blast
qed

end
