(* ===== verification/Control_Lock.thy ===== *)
theory Control_Lock
  imports Control
begin

text \<open>
  The locks of the control tree and the workspace operations that take them
  (\<open>crates/srcmv-fs/src/control.rs\<close>): the refusal of a legacy tree, creation or validation of
  the control tree, the shared diagnostic and the exclusive mutation lock, and the recovery
  commands that need no target. What the operating system answers (the listing of the root, the
  creation of an object, \<open>flock\<close>) is a parameter.
\<close>

section \<open>Answers of the operating system\<close>

datatype FlockOperation = NonBlockingLockShared | NonBlockingLockExclusive

datatype FlockAnswer = Granted | Again | FlockError ErrorKind

record ControlOs =
  os_root_entries :: "ErrorKind + string list"
  os_create :: "string \<Rightarrow> ErrorKind + ControlObject"
  os_lock_exists :: bool
  os_open_lock :: "ErrorKind option"
  os_flock :: "FlockOperation \<Rightarrow> FlockAnswer"
  os_sync :: "string list \<Rightarrow> ErrorKind option"

record MutationLock =
  ml_paths :: ControlPaths
  ml_identities :: ControlIdentities

record DiagnosticLock =
  dl_paths :: ControlPaths

section \<open>Operations\<close>

definition reject_legacy_control_tree :: "ControlOs \<Rightarrow> FsError + unit" where
  "reject_legacy_control_tree os =
     (case os_root_entries os of
        Err kind \<Rightarrow> Err (control_io ''inspect_workspace_root'' kind)
      | Ok names \<Rightarrow>
          ensure (\<not> list_ex (\<lambda>name. eq_ignore_ascii_case name LEGACY_CONTROL_NAME) names) LegacyControlState)"

definition try_flock :: "ControlOs \<Rightarrow> FlockOperation \<Rightarrow> FsError + unit" where
  "try_flock os operation =
     (case os_flock os operation of
        Granted \<Rightarrow> Ok ()
      | Again \<Rightarrow> Err TransactionBusy
      | FlockError kind \<Rightarrow> Err (control_io ''acquire_control_lock'' kind))"

definition sync_directory :: "ControlOs \<Rightarrow> string list \<Rightarrow> FsError + unit" where
  "sync_directory os path =
     (case os_sync os path of None \<Rightarrow> Ok () | Some kind \<Rightarrow> Err (record_io ''sync_directory'' kind))"

text \<open>The object at the path afterwards, and whether it was created.\<close>

definition create_directory_if_absent ::
    "ControlOs \<Rightarrow> string \<Rightarrow> ControlObject option \<Rightarrow> FsError + (ControlObject option \<times> bool)" where
  "create_directory_if_absent os name current =
     (case os_create os name of
        Ok object \<Rightarrow> Ok (Some object, True)
      | Err AlreadyExists \<Rightarrow> Ok (current, False)
      | Err kind \<Rightarrow> Err (control_io ''create_control_directory'' kind))"

definition open_lock :: "ControlOs \<Rightarrow> string \<Rightarrow> FsError + unit" where
  "open_lock os operation =
     (case os_open_lock os of None \<Rightarrow> Ok () | Some kind \<Rightarrow> Err (control_io operation kind))"

definition create_lock ::
    "ControlOs \<Rightarrow> string list \<Rightarrow> ControlObject option \<Rightarrow> FsError + (ControlObject option \<times> bool)" where
  "create_lock os path current =
     (if os_lock_exists os then Ok (current, False)
      else case os_create os LOCK_NAME of
             Ok object \<Rightarrow>
               (case os_sync os path of
                  None \<Rightarrow> Ok (Some object, True)
                | Some kind \<Rightarrow> Err (control_io ''sync_lock'' kind))
           | Err AlreadyExists \<Rightarrow> Ok (current, False)
           | Err kind \<Rightarrow> Err (control_io ''create_lock'' kind))"

definition create_or_validate_control_tree ::
    "nat \<Rightarrow> ControlOs \<Rightarrow> Workspace \<Rightarrow> ControlTree \<Rightarrow> FsError + ControlTree" where
  "create_or_validate_control_tree euid os workspace tree =
     (let paths = control_paths workspace in
      and_then (create_directory_if_absent os CONTROL_NAME (ct_control tree)) (\<lambda>(control, control_created).
      and_then (create_directory_if_absent os TRANSACTIONS_NAME (ct_transactions tree)) (\<lambda>(transactions, t_created).
      and_then (create_directory_if_absent os COMPLETED_NAME (ct_completed tree)) (\<lambda>(completed, c_created).
      and_then (create_lock os (cp_lock paths) (ct_lock tree)) (\<lambda>(lock, l_created).
      let changed = control_created \<or> t_created \<or> c_created \<or> l_created;
          tree' = tree\<lparr>ct_control := control, ct_transactions := transactions, ct_completed := completed,
                       ct_lock := lock\<rparr> in
      and_then (if changed then sync_directory os (cp_control paths) else Ok ()) (\<lambda>_.
      and_then (if control_created then sync_directory os (wk_canonical_root workspace) else Ok ()) (\<lambda>_.
      and_then (validate_control_tree euid tree') (\<lambda>_. Ok tree'))))))))"

text \<open>\<open>after\<close> is the tree once the lock is held: another process may have changed it in between.\<close>

definition take_mutation_lock ::
    "nat \<Rightarrow> ControlOs \<Rightarrow> Workspace \<Rightarrow> ControlTree \<Rightarrow> FsError + MutationLock" where
  "take_mutation_lock euid os workspace after =
     and_then (open_lock os ''open_mutation_lock'') (\<lambda>_.
     and_then (try_flock os NonBlockingLockExclusive) (\<lambda>_.
     and_then (validate_control_tree euid after) (\<lambda>_.
     and_then (capture_control_identities after) (\<lambda>identities.
     Ok \<lparr>ml_paths = control_paths workspace, ml_identities = identities\<rparr>))))"

definition mutation_lock ::
    "nat \<Rightarrow> ControlOs \<Rightarrow> Workspace \<Rightarrow> ControlTree \<Rightarrow> (ControlTree \<Rightarrow> ControlTree) \<Rightarrow> FsError + (MutationLock \<times> ControlTree)" where
  "mutation_lock euid os workspace tree others =
     and_then (reject_legacy_control_tree os) (\<lambda>_.
     and_then (create_or_validate_control_tree euid os workspace tree) (\<lambda>created.
     let after = others created in
     and_then (take_mutation_lock euid os workspace after) (\<lambda>lock. Ok (lock, after))))"

definition acquire_existing_mutation_lock ::
    "nat \<Rightarrow> ControlOs \<Rightarrow> Workspace \<Rightarrow> ControlTree \<Rightarrow> (ControlTree \<Rightarrow> ControlTree) \<Rightarrow> FsError + (MutationLock \<times> ControlTree)" where
  "acquire_existing_mutation_lock euid os workspace tree others =
     and_then (reject_legacy_control_tree os) (\<lambda>_.
     and_then (validate_control_tree euid tree) (\<lambda>_.
     let after = others tree in
     and_then (take_mutation_lock euid os workspace after) (\<lambda>lock. Ok (lock, after))))"

definition diagnostic_lock ::
    "nat \<Rightarrow> ControlOs \<Rightarrow> Workspace \<Rightarrow> ControlTree \<Rightarrow> (ControlTree \<Rightarrow> ControlTree) \<Rightarrow> FsError + (DiagnosticLock \<times> ControlTree) option" where
  "diagnostic_lock euid os workspace tree others =
     and_then (reject_legacy_control_tree os) (\<lambda>_.
     if ct_control tree = None then Ok None
     else
       and_then (validate_control_tree euid tree) (\<lambda>_.
       and_then (open_lock os ''open_diagnostic_lock'') (\<lambda>_.
       and_then (try_flock os NonBlockingLockShared) (\<lambda>_.
       let after = others tree in
       and_then (validate_control_tree euid after) (\<lambda>_.
       Ok (Some (\<lparr>dl_paths = control_paths workspace\<rparr>, after)))))))"

definition recovery_list ::
    "nat \<Rightarrow> ControlOs \<Rightarrow> (bytes \<Rightarrow> Sha256Digest) \<Rightarrow> Manifest Codec \<Rightarrow> StateSnapshot Codec \<Rightarrow> Workspace
      \<Rightarrow> ControlTree \<Rightarrow> (ControlTree \<Rightarrow> ControlTree) \<Rightarrow> FsError + ControlObservation" where
  "recovery_list euid os H mcodec scodec workspace tree others =
     and_then (diagnostic_lock euid os workspace tree others) (\<lambda>lock.
     case lock of
       None \<Rightarrow> Ok \<lparr>cob_entries = []\<rparr>
     | Some (lock, after) \<Rightarrow> scan_control euid H mcodec scodec (dl_paths lock) after default_limits)"

definition recovery_status ::
    "nat \<Rightarrow> ControlOs \<Rightarrow> (bytes \<Rightarrow> Sha256Digest) \<Rightarrow> Manifest Codec \<Rightarrow> StateSnapshot Codec \<Rightarrow> Workspace
      \<Rightarrow> ControlTree \<Rightarrow> (ControlTree \<Rightarrow> ControlTree) \<Rightarrow> string \<Rightarrow> FsError + RecoveryEntry" where
  "recovery_status euid os H mcodec scodec workspace tree others i =
     and_then (validate_transaction_id i) (\<lambda>_.
     and_then (recovery_list euid os H mcodec scodec workspace tree others) (\<lambda>observation.
     ok_or (find_entry observation i) (TransactionNotFound i)))"

definition recovery_rollback_control_only ::
    "nat \<Rightarrow> ControlOs \<Rightarrow> (bytes \<Rightarrow> Sha256Digest) \<Rightarrow> Manifest Codec \<Rightarrow> StateSnapshot Codec \<Rightarrow> Workspace
      \<Rightarrow> ControlTree \<Rightarrow> (ControlTree \<Rightarrow> ControlTree) \<Rightarrow> string \<Rightarrow> ControlTree \<times> (FsError + unit)" where
  "recovery_rollback_control_only euid os H mcodec scodec workspace tree others i =
     (case and_then (validate_transaction_id i) (\<lambda>_.
           and_then (diagnostic_lock euid os workspace tree others) (\<lambda>lock.
           and_then (ok_or lock (TransactionNotFound i)) (\<lambda>(_, after).
           acquire_existing_mutation_lock euid os workspace after others))) of
        Err e \<Rightarrow> (tree, Err e)
      | Ok (lock, after) \<Rightarrow> rollback_control_only euid H mcodec scodec (ml_paths lock) after i)"

definition cleanup_completed ::
    "(bytes \<Rightarrow> Sha256Digest) \<Rightarrow> Manifest Codec \<Rightarrow> StateSnapshot Codec \<Rightarrow> ControlTree \<Rightarrow> RecoveryEntry
      \<Rightarrow> ControlTree \<times> (FsError + unit)" where
  "cleanup_completed H mcodec scodec tree entry =
     (case re_completed_path entry of
        None \<Rightarrow> (tree, Err (InternalInvariant ''cleanup_entry_has_completed_path''))
      | Some path \<Rightarrow> cleanup_completed_directory H mcodec scodec tree (last path) (re_transaction_id entry))"

section \<open>Validated objects\<close>

text \<open>What a control object of the user is: of its type, owned, and writable by nobody else.\<close>

definition owned_object :: "nat \<Rightarrow> FileType \<Rightarrow> ControlObject option \<Rightarrow> bool" where
  "owned_object euid ft object \<longleftrightarrow>
     (\<exists>m. object = Some m \<and> co_file_type m = ft \<and> co_uid m = euid \<and> \<not> bit (co_mode m) 4 \<and> \<not> bit (co_mode m) 1)"

definition owned_tree :: "nat \<Rightarrow> ControlTree \<Rightarrow> bool" where
  "owned_tree euid tree \<longleftrightarrow> owned_object euid DirectoryType (ct_control tree) \<and>
     owned_object euid DirectoryType (ct_transactions tree) \<and> owned_object euid DirectoryType (ct_completed tree) \<and>
     owned_object euid RegularType (ct_lock tree)"

lemma write_bits: "and (n :: nat) 18 = 0 \<longleftrightarrow> \<not> bit n 4 \<and> \<not> bit n 1"
proof -
  have b18: "bit (18 :: nat) k \<longleftrightarrow> k = 4 \<or> k = 1" for k
  proof -
    have "(18 :: nat) = or (push_bit 4 1) (push_bit 1 1)" by simp
    then show ?thesis by (simp only: bit_or_iff bit_push_bit_iff bit_1_iff possible_bit_def) auto
  qed
  have "and n 18 = 0 \<longleftrightarrow> (\<forall>k. \<not> (bit n k \<and> bit (18 :: nat) k))"
    by (simp only: bit_eq_iff bit_and_iff bit_0_eq bot_apply) simp
  then show ?thesis by (auto simp only: b18)
qed

lemma validate_owned_object_Ok_iff:
  "validate_owned_object euid object directory = Ok () \<longleftrightarrow>
     owned_object euid (if directory then DirectoryType else RegularType) object"
  by (cases object) (auto simp: validate_owned_object_def owned_object_def write_bits)

lemma validate_control_tree_Ok_iff: "validate_control_tree euid tree = Ok () \<longleftrightarrow> owned_tree euid tree"
  by (simp add: validate_control_tree_def owned_tree_def validate_owned_object_Ok_iff)

definition same_identities :: "ControlTree \<Rightarrow> ControlTree \<Rightarrow> bool" where
  "same_identities a b \<longleftrightarrow>
     (\<forall>get\<in>{ct_root, ct_control, ct_transactions, ct_completed, ct_lock}.
        map_option co_identity (get a) = map_option co_identity (get b) \<and> get a \<noteq> None)"

lemma object_identity_Ok_iff: "object_identity object = Ok i \<longleftrightarrow> map_option co_identity object = Some i"
  by (cases object) (auto simp: object_identity_def)

lemma capture_Ok_iff:
  "capture_control_identities tree = Ok c \<longleftrightarrow>
     map_option co_identity (ct_root tree) = Some (ci_root c) \<and>
     map_option co_identity (ct_control tree) = Some (ci_control c) \<and>
     map_option co_identity (ct_transactions tree) = Some (ci_transactions c) \<and>
     map_option co_identity (ct_completed tree) = Some (ci_completed c) \<and>
     map_option co_identity (ct_lock tree) = Some (ci_lock c)"
  by (cases c) (auto simp: capture_control_identities_def object_identity_Ok_iff)

lemma take_mutation_lock_Ok:
  assumes "take_mutation_lock euid os workspace after = Ok lock"
  shows "owned_tree euid after" "os_flock os NonBlockingLockExclusive = Granted"
    "capture_control_identities after = Ok (ml_identities lock)" "ml_paths lock = control_paths workspace"
  using assms
  by (auto simp: take_mutation_lock_def validate_control_tree_Ok_iff try_flock_def split: FlockAnswer.splits)

lemma revalidate_Ok_iff:
  assumes "capture_control_identities after = Ok identities"
  shows "revalidate_control_identities identities tree = Ok () \<longleftrightarrow> same_identities after tree"
proof -
  have "revalidate_control_identities identities tree = Ok () \<longleftrightarrow> capture_control_identities tree = Ok identities"
    by (auto simp: revalidate_control_identities_def)
  moreover have "ct_root after \<noteq> None" "ct_control after \<noteq> None" "ct_transactions after \<noteq> None"
    "ct_completed after \<noteq> None" "ct_lock after \<noteq> None"
    using assms unfolding capture_Ok_iff by auto
  ultimately show ?thesis
    using assms unfolding capture_Ok_iff same_identities_def
    by (simp del: map_option_eq_Some add: eq_commute[of "Some _"])
qed

section \<open>Properties\<close>

text \<open>C15: the exclusive lock is only obtained, with or without creation of the control tree, in
  a workspace without a legacy tree in any letter case, when the kernel granted it, and on a tree whose four objects have
  the right type, belong to the user and are writable by nobody else; and as long as it is held,
  revalidation accepts a tree exactly when the root, the three directories and the lock file are still the objects
  that were locked.\<close>

theorem mutation_lock_pins_a_validated_tree:
  assumes "mutation_lock euid os workspace tree others = Ok (lock, after) \<or>
    acquire_existing_mutation_lock euid os workspace tree others = Ok (lock, after)"
  shows "owned_tree euid after \<and> os_flock os NonBlockingLockExclusive = Granted \<and>
    (\<exists>names. os_root_entries os = Ok names \<and> (\<forall>name\<in>set names. map ascii_lower name \<noteq> ''.codesplice'')) \<and>
    (\<forall>tree'. revalidate_control_identities (ml_identities lock) tree' = Ok () \<longleftrightarrow> same_identities after tree')"
proof -
  have legacy: "reject_legacy_control_tree os = Ok ()"
    and lock: "take_mutation_lock euid os workspace after = Ok lock"
    using assms by (auto simp: mutation_lock_def acquire_existing_mutation_lock_def Let_def)
  note l = take_mutation_lock_Ok[OF lock]
  have "map ascii_lower LEGACY_CONTROL_NAME = ''.codesplice''"
    by (simp add: LEGACY_CONTROL_NAME_def ascii_lower_def)
  then have "\<exists>names. os_root_entries os = Ok names \<and> (\<forall>name\<in>set names. map ascii_lower name \<noteq> ''.codesplice'')"
    using legacy
    by (auto simp: reject_legacy_control_tree_def eq_ignore_ascii_case_def list_ex_iff split: sum.splits)
  with l(1,2) revalidate_Ok_iff[OF l(3)] show ?thesis by blast
qed

theorem mutation_lock_pins_a_validated_tree_witness:
  "owned_tree 0 (sample_tree []) \<and>
   (\<forall>tree'. revalidate_control_identities
       \<lparr>ci_root = (1, 2), ci_control = (1, 2), ci_transactions = (1, 2), ci_completed = (1, 2), ci_lock = (1, 2)\<rparr>
       tree' = Ok () \<longleftrightarrow> same_identities (sample_tree []) tree')"
proof -
  let ?os = "\<lparr>os_root_entries = Ok [], os_create = (\<lambda>_. Err AlreadyExists), os_lock_exists = True, os_open_lock = None,
    os_flock = (\<lambda>_. Granted), os_sync = (\<lambda>_. None)\<rparr>"
  let ?lock = "\<lparr>ml_paths = control_paths sample_workspace, ml_identities =
    \<lparr>ci_root = (1, 2), ci_control = (1, 2), ci_transactions = (1, 2), ci_completed = (1, 2), ci_lock = (1, 2)\<rparr>\<rparr>"
  have "validate_control_tree 0 (sample_tree []) = Ok ()"
    by (simp add: validate_control_tree_def validate_owned_object_def sample_tree_def sample_object_def)
  then have "acquire_existing_mutation_lock 0 ?os sample_workspace (sample_tree []) (\<lambda>t. t) = Ok (?lock, sample_tree [])"
    by (simp add: acquire_existing_mutation_lock_def take_mutation_lock_def reject_legacy_control_tree_def try_flock_def open_lock_def
      Let_def capture_control_identities_def object_identity_def sample_tree_def sample_object_def)
  from mutation_lock_pins_a_validated_tree[OF disjI2, OF this] show ?thesis by simp
qed

end
