(* ===== verification/Transaction.thy ===== *)
theory Transaction
  imports Control
begin

text \<open>
  The transaction engine (\<open>crates/srcmv-fs/src/transaction.rs\<close>): candidates, the commit and the
  rollback of every target, and the decisions recovery takes from what it finds on disk. The
  state holds the nodes of the filesystem by absolute path, the journal and the progress; an
  operation returns the state it leaves together with its result, so that a failure at any
  system call, and with it a crash at any point, is a reachable state. Which call fails, and
  the identities the filesystem gives to new files, are parameters.
\<close>

section \<open>State\<close>

record Node =
  nd_type :: FileType
  nd_identity :: FileIdentity
  nd_bytes :: bytes
  nd_mode :: nat
  nd_resolves :: bool

record Progress =
  pr_state :: StateSnapshot
  pr_checksum :: string

record Engine =
  en_nodes :: "string list \<rightharpoonup> Node"
  en_journal :: TransactionJournal
  en_progress :: Progress
  en_clock :: nat

datatype RenameErrno = XDEV | NOSYS | NOTSUP | INVAL | OtherErrno ErrorKind

text \<open>
  The answers of the system, indexed by the number of the call: a fault is an error other than
  the absence or presence of a name, which the nodes decide; \<open>ev_written\<close> is how much of a
  failing write reached the file and \<open>ev_disturbed\<close> tells whether another process changed a
  file while it was read.
\<close>

record Env =
  ev_hash :: "bytes \<Rightarrow> Sha256Digest"
  ev_codec :: "StateSnapshot Codec"
  ev_workspace :: Workspace
  ev_active :: "string list"
  ev_fault :: "nat \<Rightarrow> ErrorKind option"
  ev_rename_fault :: "nat \<Rightarrow> RenameErrno option"
  ev_walk_fault :: "nat \<Rightarrow> string list \<Rightarrow> ErrorKind option"
  ev_written :: "nat \<Rightarrow> nat"
  ev_disturbed :: "nat \<Rightarrow> bool"
  ev_identity :: "nat \<Rightarrow> FileIdentity"
  ev_revalidate :: "nat \<Rightarrow> FsError + unit"
  ev_os :: "nat \<Rightarrow> Os"

type_synonym 'a action = "Engine \<Rightarrow> Engine \<times> (FsError + 'a)"

definition act_ret :: "'a \<Rightarrow> 'a action" where
  "act_ret a s = (s, Ok a)"

definition act_lift :: "FsError + 'a \<Rightarrow> 'a action" where
  "act_lift r s = (s, r)"

definition act_bind :: "'a action \<Rightarrow> ('a \<Rightarrow> 'b action) \<Rightarrow> 'b action" where
  "act_bind m k s = (case m s of (s', Err e) \<Rightarrow> (s', Err e) | (s', Ok a) \<Rightarrow> k a s')"

definition act_get :: "(Engine \<Rightarrow> 'a) \<Rightarrow> 'a action" where
  "act_get f s = (s, Ok (f s))"

fun for_each :: "('a \<Rightarrow> unit action) \<Rightarrow> 'a list \<Rightarrow> unit action" where
  "for_each f [] = act_ret ()"
| "for_each f (x # xs) = act_bind (f x) (\<lambda>_. for_each f xs)"

section \<open>System calls\<close>

definition transaction_io :: "string \<Rightarrow> string option \<Rightarrow> ErrorKind \<Rightarrow> FsError" where
  "transaction_io operation path kind = Io operation path kind"

definition os_call :: "Env \<Rightarrow> (ErrorKind \<Rightarrow> FsError) \<Rightarrow> unit action" where
  "os_call env error s =
     (let s' = s\<lparr>en_clock := Suc (en_clock s)\<rparr> in
      case ev_fault env (en_clock s) of None \<Rightarrow> (s', Ok ()) | Some kind \<Rightarrow> (s', Err (error kind)))"

definition sync_dir :: "Env \<Rightarrow> string list \<Rightarrow> unit action" where
  "sync_dir env path = os_call env (record_io ''sync_directory'')"

definition put_node :: "string list \<Rightarrow> Node option \<Rightarrow> unit action" where
  "put_node path node s = (s\<lparr>en_nodes := (en_nodes s)(path := node)\<rparr>, Ok ())"

text \<open>\<open>Path::exists\<close> follows links and answers no when the lookup fails.\<close>

definition path_exists :: "Env \<Rightarrow> string list \<Rightarrow> bool action" where
  "path_exists env path s =
     (s\<lparr>en_clock := Suc (en_clock s)\<rparr>,
      Ok (ev_fault env (en_clock s) = None \<and>
          (case en_nodes s path of None \<Rightarrow> False | Some n \<Rightarrow> nd_type n \<noteq> SymlinkType \<or> nd_resolves n)))"

definition remove_file :: "Env \<Rightarrow> (ErrorKind \<Rightarrow> FsError) \<Rightarrow> string list \<Rightarrow> unit action" where
  "remove_file env error path =
     act_bind (os_call env error) (\<lambda>_.
     act_bind (act_get (\<lambda>s. en_nodes s path)) (\<lambda>node.
     case node of
       None \<Rightarrow> act_lift (Err (error NotFound))
     | Some n \<Rightarrow>
         if nd_type n = DirectoryType then act_lift (Err (error OtherError)) else put_node path None))"

definition no_replace_rename ::
    "Env \<Rightarrow> string list \<Rightarrow> string list \<Rightarrow> string \<Rightarrow> unit action" where
  "no_replace_rename env source destination operation s =
     (let s' = s\<lparr>en_clock := Suc (en_clock s)\<rparr> in
      case ev_rename_fault env (en_clock s) of
        Some XDEV \<Rightarrow> (s', Err CrossDeviceTransaction)
      | Some (OtherErrno kind) \<Rightarrow> (s', Err (transaction_io operation None kind))
      | Some _ \<Rightarrow> (s', Err NoReplaceUnavailable)
      | None \<Rightarrow>
          if en_nodes s source = None then (s', Err (transaction_io operation None NotFound))
          else if en_nodes s destination \<noteq> None
          then (s', Err (RecoveryConflict ''no_replace_destination_collision''))
          else (s'\<lparr>en_nodes := (en_nodes s)(source := None, destination := en_nodes s source)\<rparr>, Ok ()))"

record Fingerprint =
  fp_identity :: FileIdentity
  fp_length :: nat
  fp_digest :: Sha256Digest

definition node_fingerprint :: "Env \<Rightarrow> Node \<Rightarrow> Fingerprint" where
  "node_fingerprint env n =
     \<lparr>fp_identity = nd_identity n, fp_length = length (nd_bytes n), fp_digest = ev_hash env (nd_bytes n)\<rparr>"

definition fingerprint :: "Env \<Rightarrow> string list \<Rightarrow> string option \<Rightarrow> Fingerprint option action" where
  "fingerprint env path report_path =
     act_bind (os_call env (transaction_io ''inspect_transaction_location'' report_path)) (\<lambda>_.
     act_bind (act_get (\<lambda>s. en_nodes s path)) (\<lambda>node.
     case node of
       None \<Rightarrow> act_ret None
     | Some n \<Rightarrow>
         act_bind (act_lift (ensure (nd_type n = RegularType)
           (RecoveryConflict ''transaction_location_type_invalid''))) (\<lambda>_.
         act_bind (os_call env (transaction_io ''open_transaction_location'' report_path)) (\<lambda>_.
         act_bind (os_call env (transaction_io ''inspect_open_transaction_location'' report_path)) (\<lambda>_.
         act_bind (os_call env (transaction_io ''read_transaction_location'' report_path)) (\<lambda>_.
         act_bind (act_lift (ensure (length (nd_bytes n) \<le> u64_max)
           (FsResourceLimitExceeded ''recovery_bytes'' u64_max MAX_RECOVERY_BYTES))) (\<lambda>_.
         act_bind (os_call env (transaction_io ''reinspect_transaction_location'' report_path)) (\<lambda>_.
         act_bind (os_call env (transaction_io ''confirm_transaction_location'' report_path)) (\<lambda>_.
         act_bind (act_get (\<lambda>s. ev_disturbed env (en_clock s))) (\<lambda>disturbed.
         act_bind (act_lift (ensure (\<not> disturbed)
           (RecoveryConflict ''transaction_location_changed_during_read''))) (\<lambda>_.
         act_ret (Some (node_fingerprint env n)))))))))))))"

definition mode_of :: "Env \<Rightarrow> string list \<Rightarrow> string \<Rightarrow> nat action" where
  "mode_of env path report_path =
     act_bind (os_call env (transaction_io ''read_target_mode'' (Some report_path))) (\<lambda>_.
     act_bind (act_get (\<lambda>s. en_nodes s path)) (\<lambda>node.
     case node of
       None \<Rightarrow> act_lift (Err (transaction_io ''read_target_mode'' (Some report_path) NotFound))
     | Some n \<Rightarrow> act_ret (and (nd_mode n) 4095)))"

definition set_mode :: "Env \<Rightarrow> string list \<Rightarrow> nat \<Rightarrow> string \<Rightarrow> unit action" where
  "set_mode env path mode report_path =
     act_bind (os_call env (transaction_io ''set_candidate_mode'' (Some report_path))) (\<lambda>_.
     act_bind (act_get (\<lambda>s. en_nodes s path)) (\<lambda>node.
     case node of
       None \<Rightarrow> act_lift (Err (transaction_io ''set_candidate_mode'' (Some report_path) NotFound))
     | Some n \<Rightarrow>
         act_bind (put_node path (Some (n\<lparr>nd_mode := and mode 4095\<rparr>))) (\<lambda>_.
         os_call env (transaction_io ''sync_candidate_mode'' (Some report_path)))))"

section \<open>Digests and devices\<close>

definition hex_digit :: "char \<Rightarrow> u8 option" where
  "hex_digit byte =
     (let b = (of_char byte :: nat) in
      if 48 \<le> b \<and> b \<le> 57 then Some (of_nat (b - 48))
      else if 97 \<le> b \<and> b \<le> 102 then Some (of_nat (b - 97 + 10)) else None)"

fun parse_hex_pairs :: "string \<Rightarrow> FsError + bytes" where
  "parse_hex_pairs (high # low # rest) =
     and_then (ok_or (hex_digit high) (corrupt None ''record_digest_invalid'')) (\<lambda>high.
     and_then (ok_or (hex_digit low) (corrupt None ''record_digest_invalid'')) (\<lambda>low.
     and_then (parse_hex_pairs rest) (\<lambda>bytes. Ok (or (push_bit 4 high) low # bytes))))"
| "parse_hex_pairs _ = Ok []"

definition parse_digest :: "string \<Rightarrow> FsError + Sha256Digest" where
  "parse_digest v =
     and_then (ok_or (strip_prefix ''sha256:'' v) (corrupt None ''record_digest_invalid'')) (\<lambda>hex.
     and_then (ensure (length hex = 64) (corrupt None ''record_digest_invalid'')) (\<lambda>_.
     parse_hex_pairs hex))"

definition ensure_same_device :: "nat \<Rightarrow> nat \<Rightarrow> FsError + unit" where
  "ensure_same_device control_device workspace_device =
     ensure (control_device = workspace_device) CrossDeviceTransaction"

datatype QualifiedFilesystem = Ext4 | Apfs

definition classify_linux_filesystem :: "int \<Rightarrow> (int \<Rightarrow> string) \<Rightarrow> FsError + QualifiedFilesystem" where
  "classify_linux_filesystem filesystem hexadecimal =
     (if filesystem = 61267 then Ok Ext4 else Err (UnsupportedFilesystem (''0x'' @ hexadecimal filesystem)))"

definition classify_macos_filesystem :: "string \<Rightarrow> FsError + QualifiedFilesystem" where
  "classify_macos_filesystem filesystem =
     (if filesystem = ''apfs'' then Ok Apfs else Err (UnsupportedFilesystem filesystem))"

section \<open>Locations of a target\<close>

record TargetPaths =
  tp_target :: "string list"
  tp_parent :: "string list"
  tp_candidate :: "string list"
  tp_backup :: "string list"

text \<open>The view of the path walk on the nodes.\<close>

definition node_metadata :: "Node \<Rightarrow> Metadata" where
  "node_metadata n = \<lparr>md_file_type = nd_type n, md_identity = nd_identity n, md_len = length (nd_bytes n),
     md_mtime = 0, md_mtime_nsec = 0, md_ctime = 0, md_ctime_nsec = 0, md_nlink = 1, md_mode = nd_mode n\<rparr>"

definition walk_view :: "Env \<Rightarrow> Engine \<Rightarrow> PathView" where
  "walk_view env s = \<lparr>
     pv_symlink_metadata = (\<lambda>path.
       case ev_walk_fault env (en_clock s) path of
         Some kind \<Rightarrow> Err (if kind = NotFound then OtherError else kind)
       | None \<Rightarrow> (case en_nodes s path of None \<Rightarrow> Err NotFound | Some n \<Rightarrow> Ok (node_metadata n))),
     pv_open = Err OtherError, pv_metadata_before = Err OtherError, pv_read = (\<lambda>_ _. Err OtherError),
     pv_metadata_after = Err OtherError, pv_entry_after = Err OtherError, pv_parent_after = Err OtherError\<rparr>"

definition target_paths :: "Env \<Rightarrow> ManifestTarget \<Rightarrow> TargetPaths action" where
  "target_paths env target s =
     (s\<lparr>en_clock := Suc (en_clock s)\<rparr>,
      and_then (validate_path (ev_workspace env) (walk_view env s) (WorkspaceRelativePath (mt_path target)))
        (\<lambda>validated.
      and_then (ensure (persisted (vp_parent_identity validated) = mt_parent_identity target)
        (RecoveryConflict ''target_parent_identity_changed'')) (\<lambda>_.
      and_then (ensure_same_device (fi_device (vp_parent_identity validated))
        (fi_device (wk_identity (ev_workspace env)))) (\<lambda>_.
      Ok \<lparr>tp_target = vp_full_path validated, tp_parent = vp_parent_path validated,
          tp_candidate = ev_active env @ [mt_candidate_name target],
          tp_backup = ev_active env @ [mt_backup_name target]\<rparr>))))"

definition matches_original :: "Fingerprint \<Rightarrow> ManifestTarget \<Rightarrow> bool" where
  "matches_original actual target \<longleftrightarrow>
     mt_original_identity target = Some (persisted (fp_identity actual)) \<and>
     mt_original_length target = Some (fp_length actual) \<and>
     mt_original_sha256 target = Some (to_prefixed_hex (fp_digest actual))"

definition matches_candidate :: "Fingerprint \<Rightarrow> ManifestTarget \<Rightarrow> TargetState \<Rightarrow> bool" where
  "matches_candidate actual target state \<longleftrightarrow>
     cs_identity (ts_candidate state) = Some (persisted (fp_identity actual)) \<and>
     mt_candidate_length target = fp_length actual \<and>
     mt_candidate_sha256 target = to_prefixed_hex (fp_digest actual)"

definition classify_location ::
    "Env \<Rightarrow> string list \<Rightarrow> ManifestTarget \<Rightarrow> TargetState \<Rightarrow> bool \<Rightarrow> GlobalState \<Rightarrow> LocationObservation action" where
  "classify_location env path target state candidate_location global =
     act_bind (fingerprint env path (Some (mt_path target))) (\<lambda>found.
     act_ret (case found of
       None \<Rightarrow> LocationObservation.Absent
     | Some actual \<Rightarrow>
         if mt_original_existed target \<and> matches_original actual target then Original
         else if cs_kind (ts_candidate state) = Ready \<and> matches_candidate actual target state then Candidate
         else if candidate_location \<and> global = Preparing then Candidate
         else Unexpected))"

definition classify_backup :: "Env \<Rightarrow> string list \<Rightarrow> ManifestTarget \<Rightarrow> LocationObservation action" where
  "classify_backup env path target =
     act_bind (fingerprint env path (Some (mt_path target))) (\<lambda>found.
     act_ret (case found of
       None \<Rightarrow> LocationObservation.Absent
     | Some actual \<Rightarrow>
         if mt_original_existed target \<and> matches_original actual target then Original else Unexpected))"

definition verify_original_location :: "Env \<Rightarrow> string list \<Rightarrow> ManifestTarget \<Rightarrow> Fingerprint action" where
  "verify_original_location env path target =
     act_bind (fingerprint env path (Some (mt_path target))) (\<lambda>found.
     act_lift
       (and_then (ok_or found (RecoveryConflict ''recorded_original_missing'')) (\<lambda>actual.
        if matches_original actual target then Ok actual
        else Err (RecoveryConflict ''recorded_original_mismatch''))))"

definition verify_candidate_location ::
    "Env \<Rightarrow> string list \<Rightarrow> ManifestTarget \<Rightarrow> TargetState \<Rightarrow> Fingerprint action" where
  "verify_candidate_location env path target state =
     act_bind (fingerprint env path (Some (mt_path target))) (\<lambda>found.
     act_lift
       (and_then (ok_or found (RecoveryConflict ''recorded_candidate_missing'')) (\<lambda>actual.
        if matches_candidate actual target state then Ok actual
        else Err (RecoveryConflict ''recorded_candidate_mismatch''))))"

definition validate_partial_candidate :: "Env \<Rightarrow> string list \<Rightarrow> unit action" where
  "validate_partial_candidate env path =
     act_bind (os_call env (transaction_io ''inspect_partial_candidate'' None)) (\<lambda>_.
     act_bind (act_get (\<lambda>s. en_nodes s path)) (\<lambda>node.
     case node of
       None \<Rightarrow> act_lift (Err (transaction_io ''inspect_partial_candidate'' None NotFound))
     | Some n \<Rightarrow>
         act_lift (ensure (nd_type n = RegularType) (RecoveryConflict ''partial_candidate_type_invalid''))))"

definition observe_target ::
    "Env \<Rightarrow> ManifestTarget \<Rightarrow> TargetPaths \<Rightarrow> TargetState \<Rightarrow> GlobalState \<Rightarrow> SyntheticTargetObservation action" where
  "observe_target env target paths recorded global_state =
     act_bind (classify_location env (tp_target paths) target recorded False global_state) (\<lambda>at_target.
     act_bind (classify_location env (tp_candidate paths) target recorded True global_state) (\<lambda>at_candidate.
     act_bind (classify_backup env (tp_backup paths) target) (\<lambda>at_backup.
     act_ret \<lparr>ob_parent_matches = True, ob_target = at_target, ob_candidate = at_candidate,
       ob_backup = at_backup\<rparr>)))"

datatype RecoveryMode = CompleteMode | RollbackMode

definition classify_target ::
    "Env \<Rightarrow> Manifest \<Rightarrow> StateSnapshot \<Rightarrow> RecoveryMode \<Rightarrow> nat \<times> ManifestTarget \<Rightarrow> unit action" where
  "classify_target env manifest state mode entry =
     (case entry of (index, target) \<Rightarrow>
      act_bind (act_lift (ensure (index < length (sn_targets state))
        (InternalInvariant ''manifest_and_state_target_counts_match''))) (\<lambda>_.
      let recorded = sn_targets state ! index in
      act_bind (target_paths env target) (\<lambda>paths.
      act_bind (observe_target env target paths recorded (sn_global_state state)) (\<lambda>observed.
      act_bind (act_lift (classify_recovery (sn_global_state state) (mt_original_existed target) recorded observed))
        (\<lambda>disposition.
      let allowed = (case mode of
            CompleteMode \<Rightarrow> rd_complete disposition \<or> rd_cleanup_only disposition
          | RollbackMode \<Rightarrow> rd_rollback disposition \<or> rd_cleanup_only disposition) in
      act_lift (ensure allowed (RecoveryActionNotAllowed (mf_transaction_id manifest)
        (case mode of CompleteMode \<Rightarrow> ''transaction_cannot_be_completed''
         | RollbackMode \<Rightarrow> ''transaction_cannot_be_rolled_back''))))))))"

definition classify_all_targets :: "Env \<Rightarrow> Manifest \<Rightarrow> StateSnapshot \<Rightarrow> RecoveryMode \<Rightarrow> unit action" where
  "classify_all_targets env manifest state mode =
     for_each (classify_target env manifest state mode) (enumerate 0 (mf_targets manifest))"

section \<open>Publication of progress\<close>

text \<open>
  A record is lost, or left as a temporary with part of its bytes, when a call fails before the
  rename; it stays when only the synchronization of the directory fails.
\<close>

definition publish_journal :: "Env \<Rightarrow> StateSnapshot \<Rightarrow> string action" where
  "publish_journal env state s =
     (let j = en_journal s; t = en_clock s; temporary = state_file (sn_sequence state) ''tmp'' in
      case prepare_state_record (ev_hash env) (ev_codec env) j state of
        Err e \<Rightarrow> (s, Err e)
      | Ok (encoded, _) \<Rightarrow>
          (case ev_fault env t of
             Some kind \<Rightarrow>
               (s\<lparr>en_clock := Suc t,
                  en_journal := (if tj_directory j temporary = None \<and> ev_written env t \<le> length encoded
                    then j\<lparr>tj_directory := (tj_directory j)(temporary \<mapsto> take (ev_written env t) encoded)\<rparr>
                    else j)\<rparr>, Err (record_io ''write_record'' kind))
           | None \<Rightarrow>
               (case publish_state (ev_hash env) (ev_codec env) j state of
                  (j', Err e) \<Rightarrow> (s\<lparr>en_clock := Suc t, en_journal := j'\<rparr>, Err e)
                | (j', Ok checksum) \<Rightarrow>
                    (case ev_fault env (Suc t) of
                       Some kind \<Rightarrow>
                         (s\<lparr>en_clock := Suc (Suc t), en_journal := j\<lparr>tj_directory := tj_directory j'\<rparr>\<rparr>,
                          Err (record_io ''sync_directory'' kind))
                     | None \<Rightarrow> (s\<lparr>en_clock := Suc (Suc t), en_journal := j'\<rparr>, Ok checksum)))))"

definition publish_transition ::
    "Env \<Rightarrow> GlobalState \<Rightarrow> (TargetState list \<Rightarrow> FsError + TargetState list) \<Rightarrow> unit action" where
  "publish_transition env global_state update =
     act_bind (act_get (\<lambda>s. en_progress s)) (\<lambda>progress.
     let state = pr_state progress in
     act_bind (act_lift (ok_or (checked_add_u64 (sn_sequence state) 1)
       (InternalInvariant ''state_sequence_checked''))) (\<lambda>sequence.
     act_bind (act_lift (update (sn_targets state))) (\<lambda>targets.
     let next = state\<lparr>sn_sequence := sequence, sn_prior_state_checksum := Some (pr_checksum progress),
           sn_global_state := global_state, sn_targets := targets\<rparr> in
     act_bind (publish_journal env next) (\<lambda>checksum s.
     (s\<lparr>en_progress := \<lparr>pr_state = next, pr_checksum = checksum\<rparr>\<rparr>, Ok ())))))"

definition publish_global_transition :: "Env \<Rightarrow> GlobalState \<Rightarrow> unit action" where
  "publish_global_transition env global_state = publish_transition env global_state Ok"

definition update_target ::
    "nat \<Rightarrow> (TargetState \<Rightarrow> TargetState) \<Rightarrow> TargetState list \<Rightarrow> FsError + TargetState list" where
  "update_target target_index update targets =
     (if target_index < length targets
      then Ok (targets[target_index := update (targets ! target_index)])
      else Err (InternalInvariant ''state_target_index_exists''))"

definition publish_target_transition ::
    "Env \<Rightarrow> GlobalState \<Rightarrow> nat \<Rightarrow> (TargetState \<Rightarrow> TargetState) \<Rightarrow> unit action" where
  "publish_target_transition env global_state target_index update =
     publish_transition env global_state (update_target target_index update)"

definition untouched_target_state :: "nat \<Rightarrow> TargetState" where
  "untouched_target_state target_index = \<lparr>ts_target_index = target_index,
     ts_candidate = \<lparr>cs_kind = Missing, cs_identity = None\<rparr>,
     ts_commit = \<lparr>cm_kind = Untouched, cm_identity = None, cm_preserved_mode = None\<rparr>,
     ts_rollback = \<lparr>rs_kind = NotRolledBack, rs_identity = None\<rparr>\<rparr>"

text \<open>The recorded state of a target; an index that the source would panic on is an error.\<close>

definition recorded_target :: "nat \<Rightarrow> TargetState action" where
  "recorded_target target_index s =
     (s, if target_index < length (sn_targets (pr_state (en_progress s)))
         then Ok (sn_targets (pr_state (en_progress s)) ! target_index)
         else Err (InternalInvariant ''index_out_of_bounds''))"

section \<open>Candidates\<close>

definition segment_slice :: "WorkspaceSnapshot \<Rightarrow> ManifestSegment \<Rightarrow> FsError + bytes" where
  "segment_slice snapshot segment =
     and_then (ok_or (if ms_input_index segment < length (ws_files snapshot)
         then Some (ws_files snapshot ! ms_input_index segment) else None)
       (InternalInvariant ''candidate_segment_input_exists'')) (\<lambda>input.
     ok_or (if ms_start segment \<le> ms_end segment \<and> ms_end segment \<le> length (fs_bytes input)
         then Some (slice (fs_bytes input) (ms_start segment) (ms_end segment)) else None)
       (InternalInvariant ''candidate_segment_range_valid''))"

text \<open>\<open>write_all\<close> appends to the file; a failing write leaves part of the bytes.\<close>

definition append_node :: "string list \<Rightarrow> bytes \<Rightarrow> Engine \<Rightarrow> Engine" where
  "append_node path bs s =
     (case en_nodes s path of
        None \<Rightarrow> s
      | Some n \<Rightarrow> s\<lparr>en_nodes := (en_nodes s)(path \<mapsto> n\<lparr>nd_bytes := nd_bytes n @ bs\<rparr>)\<rparr>)"

definition write_all :: "Env \<Rightarrow> string list \<Rightarrow> bytes \<Rightarrow> string \<Rightarrow> unit action" where
  "write_all env path bs report_path s =
     (let t = en_clock s; s' = s\<lparr>en_clock := Suc t\<rparr> in
      case ev_fault env t of
        None \<Rightarrow> (append_node path bs s', Ok ())
      | Some kind \<Rightarrow> (append_node path (take (ev_written env t) bs) s',
          Err (transaction_io ''write_candidate'' (Some report_path) kind)))"

text \<open>The bytes hashed so far; their number is the running length.\<close>

fun write_segments ::
    "Env \<Rightarrow> string list \<Rightarrow> WorkspaceSnapshot \<Rightarrow> string \<Rightarrow> bytes \<Rightarrow> ManifestSegment list \<Rightarrow> bytes action" where
  "write_segments env path snapshot report_path hashed [] = act_ret hashed"
| "write_segments env path snapshot report_path hashed (segment # segments) =
     act_bind (act_lift (segment_slice snapshot segment)) (\<lambda>bs.
     act_bind (write_all env path bs report_path) (\<lambda>_.
     act_bind (act_lift (ok_or (checked_add_u64 (length hashed) (sat_u64 (length bs)))
       (InternalInvariant ''candidate_length_checked''))) (\<lambda>_.
     write_segments env path snapshot report_path (hashed @ bs) segments)))"

definition create_new_file :: "Env \<Rightarrow> string list \<Rightarrow> nat \<Rightarrow> (ErrorKind \<Rightarrow> FsError) \<Rightarrow> unit action" where
  "create_new_file env path mode error =
     act_bind (act_get (\<lambda>s. ev_identity env (en_clock s))) (\<lambda>identity.
     act_bind (os_call env error) (\<lambda>_.
     act_bind (act_get (\<lambda>s. en_nodes s path)) (\<lambda>node.
     if node \<noteq> None then act_lift (Err (error AlreadyExists))
     else put_node path (Some \<lparr>nd_type = RegularType, nd_identity = identity, nd_bytes = [], nd_mode = mode,
       nd_resolves = True\<rparr>))))"

definition create_candidate :: "Env \<Rightarrow> ManifestTarget \<Rightarrow> WorkspaceSnapshot \<Rightarrow> PersistedIdentity action" where
  "create_candidate env target snapshot =
     (let path = ev_active env @ [mt_candidate_name target]; report_path = mt_path target in
      act_bind (create_new_file env path 384 (transaction_io ''create_candidate'' (Some report_path))) (\<lambda>_.
      act_bind (write_segments env path snapshot report_path [] (mt_segments target)) (\<lambda>hashed.
      act_bind (os_call env (transaction_io ''flush_candidate'' (Some report_path))) (\<lambda>_.
      act_bind (os_call env (transaction_io ''sync_candidate'' (Some report_path))) (\<lambda>_.
      let digest = ev_hash env hashed in
      act_bind (act_lift (ensure (length hashed = mt_candidate_length target \<and>
          to_prefixed_hex digest = mt_candidate_sha256 target)
        (InternalInvariant ''candidate_matches_planned_output''))) (\<lambda>_.
      act_bind (fingerprint env path (Some report_path)) (\<lambda>found.
      act_bind (act_lift (ok_or found (RecoveryConflict ''candidate_missing_after_creation''))) (\<lambda>actual.
      act_bind (act_lift (ensure (fp_length actual = length hashed \<and> fp_digest actual = digest)
        (RecoveryConflict ''candidate_verification_mismatch''))) (\<lambda>_.
      act_bind (sync_dir env (ev_active env)) (\<lambda>_.
      act_ret (persisted (fp_identity actual))))))))))))"

section \<open>Commit\<close>

definition publish_installed :: "Env \<Rightarrow> nat \<Rightarrow> PersistedIdentity \<Rightarrow> unit action" where
  "publish_installed env target_index identity =
     act_bind (recorded_target target_index) (\<lambda>recorded.
     if cm_kind (ts_commit recorded) \<noteq> Installed
     then publish_target_transition env Committing target_index (\<lambda>target.
       target\<lparr>ts_commit := (ts_commit target)\<lparr>cm_kind := Installed, cm_identity := Some identity\<rparr>\<rparr>)
     else act_ret ())"

text \<open>The first half for a target with an original: its backup, the mode, and their record.\<close>

definition backup_target :: "Env \<Rightarrow> ManifestTarget \<Rightarrow> nat \<Rightarrow> TargetPaths \<Rightarrow> LocationObservation \<Rightarrow> unit action" where
  "backup_target env target target_index paths at_backup =
     act_bind
       (if at_backup = Original then mode_of env (tp_backup paths) (mt_path target)
        else
          act_bind (no_replace_rename env (tp_target paths) (tp_backup paths) ''backup_target'') (\<lambda>_.
          act_bind (sync_dir env (tp_parent paths)) (\<lambda>_.
          act_bind (sync_dir env (ev_active env)) (\<lambda>_.
          act_bind (verify_original_location env (tp_backup paths) target) (\<lambda>_.
          mode_of env (tp_backup paths) (mt_path target)))))) (\<lambda>preserved_mode.
     act_bind (set_mode env (tp_candidate paths) preserved_mode (mt_path target)) (\<lambda>_.
     act_bind (recorded_target target_index) (\<lambda>recorded.
     if cm_kind (ts_commit recorded) = Untouched
     then
       act_bind (verify_original_location env (tp_backup paths) target) (\<lambda>backup.
       publish_target_transition env Committing target_index (\<lambda>state.
         state\<lparr>ts_commit := \<lparr>cm_kind = BackedUp, cm_identity = Some (persisted (fp_identity backup)),
           cm_preserved_mode = Some preserved_mode\<rparr>\<rparr>))
     else act_ret ())))"

definition complete_target :: "Env \<Rightarrow> nat \<times> ManifestTarget \<Rightarrow> unit action" where
  "complete_target env entry =
     (case entry of (target_index, target) \<Rightarrow>
      act_bind (target_paths env target) (\<lambda>paths.
      act_bind (recorded_target target_index) (\<lambda>recorded.
      act_bind (act_get (\<lambda>s. sn_global_state (pr_state (en_progress s)))) (\<lambda>global_state.
      act_bind (observe_target env target paths recorded global_state) (\<lambda>observed.
      if ob_target observed = Candidate
      then
        act_bind (verify_candidate_location env (tp_target paths) target recorded) (\<lambda>final_file.
        publish_installed env target_index (persisted (fp_identity final_file)))
      else
        act_bind
          (if mt_original_existed target then backup_target env target target_index paths (ob_backup observed)
           else
             act_bind (act_lift (ok_or (mt_new_file_mode target)
               (InternalInvariant ''new_target_has_recorded_mode''))) (\<lambda>mode.
             set_mode env (tp_candidate paths) mode (mt_path target))) (\<lambda>_.
        act_bind (no_replace_rename env (tp_candidate paths) (tp_target paths) ''install_candidate'') (\<lambda>_.
        act_bind (sync_dir env (tp_parent paths)) (\<lambda>_.
        act_bind (sync_dir env (ev_active env)) (\<lambda>_.
        act_bind (recorded_target target_index) (\<lambda>recorded.
        act_bind (verify_candidate_location env (tp_target paths) target recorded) (\<lambda>final_file.
        publish_installed env target_index (persisted (fp_identity final_file)))))))))))))"

definition verify_target :: "Env \<Rightarrow> nat \<times> ManifestTarget \<Rightarrow> unit action" where
  "verify_target env entry =
     (case entry of (index, target) \<Rightarrow>
      act_bind (target_paths env target) (\<lambda>paths.
      act_bind (recorded_target index) (\<lambda>recorded.
      act_bind (verify_candidate_location env (tp_target paths) target recorded) (\<lambda>_. act_ret ()))))"

definition revalidate_lock :: "Env \<Rightarrow> unit action" where
  "revalidate_lock env s = (s\<lparr>en_clock := Suc (en_clock s)\<rparr>, ev_revalidate env (en_clock s))"

definition complete_commit_steps :: "Env \<Rightarrow> Manifest \<Rightarrow> unit action" where
  "complete_commit_steps env manifest =
     act_bind (act_get (\<lambda>s. pr_state (en_progress s))) (\<lambda>state.
     act_bind (classify_all_targets env manifest state CompleteMode) (\<lambda>_.
     act_bind (revalidate_lock env) (\<lambda>_.
     act_bind (for_each (complete_target env) (enumerate 0 (mf_targets manifest))) (\<lambda>_.
     act_bind (for_each (verify_target env) (enumerate 0 (mf_targets manifest))) (\<lambda>_.
     publish_global_transition env Committed)))))"

section \<open>Rollback\<close>

definition restored_state :: "Env \<Rightarrow> ManifestTarget \<Rightarrow> TargetPaths \<Rightarrow> RollbackState action" where
  "restored_state env target paths =
     (if mt_original_existed target
      then
        act_bind (verify_original_location env (tp_target paths) target) (\<lambda>original.
        act_bind (path_exists env (tp_backup paths)) (\<lambda>remains.
        act_bind (act_lift (ensure (\<not> remains) (RecoveryConflict ''backup_remains_after_original_restore''))) (\<lambda>_.
        act_ret \<lparr>rs_kind = OriginalRestored, rs_identity = Some (persisted (fp_identity original))\<rparr>)))
      else
        act_bind (path_exists env (tp_target paths)) (\<lambda>at_target.
        act_bind (if at_target then act_ret True else path_exists env (tp_backup paths)) (\<lambda>present.
        act_bind (act_lift (ensure (\<not> present) (RecoveryConflict ''absence_not_restored''))) (\<lambda>_.
        act_ret \<lparr>rs_kind = AbsenceRestored, rs_identity = None\<rparr>))))"

definition rollback_target :: "Env \<Rightarrow> nat \<times> ManifestTarget \<Rightarrow> unit action" where
  "rollback_target env entry =
     (case entry of (target_index, target) \<Rightarrow>
      act_bind (target_paths env target) (\<lambda>paths.
      act_bind (recorded_target target_index) (\<lambda>state.
      act_bind (act_get (\<lambda>s. sn_global_state (pr_state (en_progress s)))) (\<lambda>global_state.
      act_bind (observe_target env target paths state global_state) (\<lambda>observed.
      act_bind
        (if ob_target observed = Candidate
         then
           act_bind (verify_candidate_location env (tp_target paths) target state) (\<lambda>_.
           act_bind (remove_file env (transaction_io ''remove_installed_candidate'' (Some (mt_path target)))
             (tp_target paths)) (\<lambda>_.
           sync_dir env (tp_parent paths)))
         else act_ret ()) (\<lambda>_.
      act_bind (if mt_original_existed target then path_exists env (tp_backup paths) else act_ret False) (\<lambda>restore.
      act_bind
        (if restore
         then
           act_bind (verify_original_location env (tp_backup paths) target) (\<lambda>_.
           act_bind (no_replace_rename env (tp_backup paths) (tp_target paths) ''restore_backup'') (\<lambda>_.
           act_bind (sync_dir env (tp_parent paths)) (\<lambda>_.
           sync_dir env (ev_active env))))
         else act_ret ()) (\<lambda>_.
      act_bind (path_exists env (tp_candidate paths)) (\<lambda>staged.
      act_bind
        (if staged
         then
           act_bind
             (if cs_kind (ts_candidate state) = Ready
              then act_bind (verify_candidate_location env (tp_candidate paths) target state) (\<lambda>_. act_ret ())
              else validate_partial_candidate env (tp_candidate paths)) (\<lambda>_.
           act_bind (remove_file env (transaction_io ''remove_staged_candidate'' (Some (mt_path target)))
             (tp_candidate paths)) (\<lambda>_.
           sync_dir env (ev_active env)))
         else act_ret ()) (\<lambda>_.
      act_bind (restored_state env target paths) (\<lambda>restored.
      act_bind (recorded_target target_index) (\<lambda>recorded.
      if rs_kind (ts_rollback recorded) = NotRolledBack
      then publish_target_transition env RollingBack target_index (\<lambda>state. state\<lparr>ts_rollback := restored\<rparr>)
      else act_ret ()))))))))))))"

definition rollback_all_targets :: "Env \<Rightarrow> Manifest \<Rightarrow> unit action" where
  "rollback_all_targets env manifest =
     act_bind (for_each (rollback_target env) (rev (enumerate 0 (mf_targets manifest)))) (\<lambda>_.
     act_bind (act_get (\<lambda>s. pr_state (en_progress s))) (\<lambda>state.
     classify_all_targets env manifest state RollbackMode))"

definition map_error :: "FsError \<Rightarrow> 'a action \<Rightarrow> 'a action" where
  "map_error e m s = (case m s of (s', Err _) \<Rightarrow> (s', Err e) | (s', Ok a) \<Rightarrow> (s', Ok a))"

text \<open>\<open>finish\<close> is the terminal cleanup of the control tree, told whether the transaction committed.\<close>

definition recover_rollback_active :: "Env \<Rightarrow> (bool \<Rightarrow> unit action) \<Rightarrow> Manifest \<Rightarrow> unit action" where
  "recover_rollback_active env finish manifest =
     act_bind (act_get (\<lambda>s. pr_state (en_progress s))) (\<lambda>state.
     if sn_global_state state = Committed
     then act_lift (Err (RecoveryActionNotAllowed (mf_transaction_id manifest)
       ''committed_transaction_cannot_be_rolled_back''))
     else if sn_global_state state = RolledBack then finish False
     else
       act_bind (classify_all_targets env manifest state RollbackMode) (\<lambda>_.
       act_bind (if sn_global_state state \<noteq> RollingBack then publish_global_transition env RollingBack
         else act_ret ()) (\<lambda>_.
       act_bind (revalidate_lock env) (\<lambda>_.
       act_bind (map_error (TransactionRecoveryRequired [mf_transaction_id manifest])
         (act_bind (rollback_all_targets env manifest) (\<lambda>_. publish_global_transition env RolledBack))) (\<lambda>_.
       finish False)))))"

section \<open>Execution and completion\<close>

definition METADATA_LIMITATIONS :: "string list" where
  "METADATA_LIMITATIONS = [''ownership'', ''access_control_lists'', ''extended_attributes'', ''resource_forks'',
     ''timestamps'', ''platform_flags'', ''hard_link_relationships'']"

definition existing_manifest_input :: "FileSnapshot \<Rightarrow> ManifestInput" where
  "existing_manifest_input file = \<lparr>mi_path = path_value (fs_path file),
     mi_parent_identity = persisted (fs_parent_identity file), mi_existed = True,
     mi_file_identity = Some (persisted (fs_identity file)), mi_sha256 = Some (to_prefixed_hex (fs_digest file)),
     mi_length = Some (sat_u64 (length (fs_bytes file))), mi_link_count = Some (fs_link_count file)\<rparr>"

definition absent_manifest_input :: "AbsentPathSnapshot \<Rightarrow> ManifestInput" where
  "absent_manifest_input absent = \<lparr>mi_path = path_value (ap_path absent),
     mi_parent_identity = persisted (ap_parent_identity absent), mi_existed = False,
     mi_file_identity = None, mi_sha256 = None, mi_length = None, mi_link_count = None\<rparr>"

fun manifest_segment :: "OutputSegment \<Rightarrow> ManifestSegment" where
  "manifest_segment (OriginalSlice file_id r) =
     \<lparr>ms_input_index = file_id, ms_start = range_start r, ms_end = range_end r, ms_operation_index = None\<rparr>"
| "manifest_segment (PayloadSlice operation_index file_id r _) =
     \<lparr>ms_input_index = file_id, ms_start = range_start r, ms_end = range_end r,
      ms_operation_index = Some operation_index\<rparr>"

definition manifest_target :: "WorkspaceSnapshot \<Rightarrow> nat \<Rightarrow> nat \<times> PlannedOutput \<Rightarrow> FsError + ManifestTarget" where
  "manifest_target snapshot new_file_mode entry =
     (case entry of (index, output) \<Rightarrow>
      let original = List.find (\<lambda>file. fs_path file = po_path output) (ws_files snapshot);
          absent = List.find (\<lambda>path. ap_path path = po_path output) (ws_absent_paths snapshot);
          target_index = sat_u64 index in
      and_then (ok_or (case original of
            Some file \<Rightarrow> Some (fs_parent_identity file)
          | None \<Rightarrow> map_option ap_parent_identity absent)
        (InternalInvariant ''changed_output_has_snapshot_input'')) (\<lambda>parent_identity.
      and_then (ensure_same_device (fi_device parent_identity) (fi_device (ws_workspace_identity snapshot))) (\<lambda>_.
      Ok \<lparr>mt_target_index = target_index, mt_path = path_value (po_path output),
          mt_parent_identity = persisted parent_identity, mt_original_existed = (original \<noteq> None),
          mt_original_identity = map_option (\<lambda>file. persisted (fs_identity file)) original,
          mt_original_sha256 = map_option (\<lambda>file. to_prefixed_hex (fs_digest file)) original,
          mt_original_length = map_option (\<lambda>file. sat_u64 (length (fs_bytes file))) original,
          mt_candidate_name = ''candidate-'' @ pad8 target_index, mt_backup_name = ''backup-'' @ pad8 target_index,
          mt_candidate_sha256 = to_prefixed_hex (po_resulting_digest output),
          mt_candidate_length = po_resulting_length output,
          mt_metadata_policy = (if original \<noteq> None then PreserveExistingMode else NewFileMode),
          mt_new_file_mode = (if original = None then Some (and new_file_mode 438) else None),
          mt_segments = map manifest_segment (po_segments output)\<rparr>)))"

definition build_manifest ::
    "WorkspaceSnapshot \<Rightarrow> EditPlan \<Rightarrow> PlannedOutput list \<Rightarrow> string \<Rightarrow> nat \<Rightarrow> FsError + Manifest" where
  "build_manifest snapshot edit_plan outputs transaction_id new_file_mode =
     and_then (try_map (manifest_target snapshot new_file_mode) (enumerate 0 outputs)) (\<lambda>targets.
     Ok \<lparr>mf_transaction_version = 1, mf_transaction_id = transaction_id,
         mf_workspace_identity = persisted (ws_workspace_identity snapshot),
         mf_plan_sha256 = to_prefixed_hex (ep_digest edit_plan),
         mf_inputs = map existing_manifest_input (ws_files snapshot) @
           map absent_manifest_input (ws_absent_paths snapshot),
         mf_targets = targets, mf_metadata_limitations = METADATA_LIMITATIONS\<rparr>)"

definition changed_targets :: "EditPlan \<Rightarrow> PlannedOutput list" where
  "changed_targets edit_plan =
     sort_key (\<lambda>output. path_value (po_path output)) (filter (\<lambda>output. po_change output \<noteq> Unchanged) (ep_outputs edit_plan))"

definition input_requirement :: "ManifestInput \<Rightarrow> FsError + SnapshotRequirement" where
  "input_requirement input =
     and_then
       (if mi_existed input
        then
          and_then (ok_or (mi_sha256 input) (InternalInvariant ''existing_manifest_input_has_digest'')) (\<lambda>text.
          and_then (parse_digest text) (\<lambda>digest. Ok (ExistingState digest)))
        else Ok AbsentState) (\<lambda>state.
     Ok \<lparr>sr_path = WorkspaceRelativePath (mi_path input), sr_state = state\<rparr>)"

definition input_unchanged :: "WorkspaceSnapshot \<Rightarrow> ManifestInput \<Rightarrow> FsError + unit" where
  "input_unchanged fresh input =
     (if mi_existed input
      then
        and_then (case mi_sha256 input of None \<Rightarrow> Ok None
            | Some text \<Rightarrow> and_then (parse_digest text) (\<lambda>d. Ok (Some d))) (\<lambda>expected.
        and_then (ok_or (List.find (\<lambda>file. path_value (fs_path file) = mi_path input) (ws_files fresh))
          (PreconditionFailed (mi_path input) expected None)) (\<lambda>file.
        ensure (persisted (fs_parent_identity file) = mi_parent_identity input \<and>
            mi_file_identity input = Some (persisted (fs_identity file)) \<and>
            mi_sha256 input = Some (to_prefixed_hex (fs_digest file)) \<and>
            mi_length input = Some (sat_u64 (length (fs_bytes file))) \<and>
            mi_link_count input = Some (fs_link_count file))
          (FileChanged (mi_path input) 1)))
      else
        and_then (ok_or (List.find (\<lambda>path. path_value (ap_path path) = mi_path input) (ws_absent_paths fresh))
          (PreconditionFailed (mi_path input) None None)) (\<lambda>absent.
        ensure (persisted (ap_parent_identity absent) = mi_parent_identity input)
          (FileChanged (mi_path input) 1)))"

definition revalidate_manifest_inputs :: "Env \<Rightarrow> Manifest \<Rightarrow> unit action" where
  "revalidate_manifest_inputs env manifest s =
     (s\<lparr>en_clock := Suc (en_clock s)\<rparr>,
      and_then (ensure (persisted (wk_identity (ev_workspace env)) = mf_workspace_identity manifest)
        (PreconditionFailed ''.'' None None)) (\<lambda>_.
      and_then (try_map input_requirement (mf_inputs manifest)) (\<lambda>requirements.
      and_then (acquire_snapshot (ev_hash env) (ev_workspace env) (ev_os env (en_clock s)) requirements
        default_snapshot_limits) (\<lambda>fresh.
      and_then (try_map (input_unchanged fresh) (mf_inputs manifest)) (\<lambda>_. Ok ())))))"

record CommitOutcome =
  oc_transaction_id :: string
  oc_changed_paths :: "string list"
  oc_preserved_permission_modes :: "(string, nat) btree"

definition prepare_target :: "Env \<Rightarrow> WorkspaceSnapshot \<Rightarrow> nat \<Rightarrow> nat \<times> ManifestTarget \<Rightarrow> unit action" where
  "prepare_target env snapshot targets_len entry =
     (case entry of (index, target) \<Rightarrow>
      act_bind (create_candidate env target snapshot) (\<lambda>candidate_identity.
      let global_state = (if index + 1 = targets_len then Prepared else Preparing) in
      publish_target_transition env global_state index (\<lambda>target.
        target\<lparr>ts_candidate := \<lparr>cs_kind = Ready, cs_identity = Some candidate_identity\<rparr>\<rparr>)))"

definition create_journal :: "Env \<Rightarrow> Manifest Codec \<Rightarrow> Manifest \<Rightarrow> unit action" where
  "create_journal env mcodec manifest =
     act_bind (os_call env (record_io ''create_record_temporary'')) (\<lambda>_ s.
     case create_with_limits (ev_hash env) mcodec
         \<lparr>td_transaction_id = mf_transaction_id manifest, td_contents = Map.empty\<rparr> manifest default_limits of
       Err e \<Rightarrow> (s, Err e)
     | Ok journal \<Rightarrow> (s\<lparr>en_journal := journal\<rparr>, Ok ()))"

definition publish_first_state :: "Env \<Rightarrow> Manifest \<Rightarrow> unit action" where
  "publish_first_state env manifest =
     act_bind (act_get (\<lambda>s. tj_manifest_checksum (en_journal s))) (\<lambda>manifest_checksum.
     let state = \<lparr>sn_transaction_version = 1, sn_sequence = 0, sn_manifest_checksum = manifest_checksum,
           sn_prior_state_checksum = None, sn_global_state = Preparing,
           sn_targets = map (\<lambda>target. untouched_target_state (mt_target_index target)) (mf_targets manifest)\<rparr> in
     act_bind (publish_journal env state) (\<lambda>checksum s.
     (s\<lparr>en_progress := \<lparr>pr_state = state, pr_checksum = checksum\<rparr>\<rparr>, Ok ())))"

definition execute_steps :: "Env \<Rightarrow> Manifest Codec \<Rightarrow> Manifest \<Rightarrow> WorkspaceSnapshot \<Rightarrow> unit action" where
  "execute_steps env mcodec manifest snapshot =
     act_bind (create_journal env mcodec manifest) (\<lambda>_.
     act_bind (publish_first_state env manifest) (\<lambda>_.
     act_bind (for_each (prepare_target env snapshot (length (mf_targets manifest)))
       (enumerate 0 (mf_targets manifest))) (\<lambda>_.
     act_bind (revalidate_manifest_inputs env manifest) (\<lambda>_.
     act_bind (revalidate_lock env) (\<lambda>_.
     act_bind (publish_global_transition env Committing) (\<lambda>_.
     complete_commit_steps env manifest))))))"

definition preserved_modes :: "Manifest \<Rightarrow> StateSnapshot \<Rightarrow> (string, nat) btree" where
  "preserved_modes manifest state =
     fold (\<lambda>(target, recorded) m.
         case cm_preserved_mode (ts_commit recorded) of
           None \<Rightarrow> m
         | Some mode \<Rightarrow> bt_put (mt_path target) mode m)
       (zip (mf_targets manifest) (sn_targets state)) []"

definition execute_new_transaction ::
    "Env \<Rightarrow> (bool \<Rightarrow> unit action) \<Rightarrow> Manifest Codec \<Rightarrow> Manifest \<Rightarrow> WorkspaceSnapshot \<Rightarrow> CommitOutcome action" where
  "execute_new_transaction env finish mcodec manifest snapshot =
     act_bind (execute_steps env mcodec manifest snapshot) (\<lambda>_.
     act_bind (act_get (\<lambda>s. preserved_modes manifest (pr_state (en_progress s)))) (\<lambda>modes.
     act_bind (finish True) (\<lambda>_.
     act_ret \<lparr>oc_transaction_id = mf_transaction_id manifest,
       oc_changed_paths = map mt_path (mf_targets manifest), oc_preserved_permission_modes = modes\<rparr>)))"

definition recover_complete_active :: "Env \<Rightarrow> (bool \<Rightarrow> unit action) \<Rightarrow> Manifest \<Rightarrow> unit action" where
  "recover_complete_active env finish manifest =
     act_bind (act_get (\<lambda>s. pr_state (en_progress s))) (\<lambda>state.
     act_bind
       (case sn_global_state state of
          Committed \<Rightarrow> classify_all_targets env manifest state CompleteMode
        | Prepared \<Rightarrow>
            act_bind (revalidate_manifest_inputs env manifest) (\<lambda>_.
            act_bind (classify_all_targets env manifest state CompleteMode) (\<lambda>_.
            act_bind (revalidate_lock env) (\<lambda>_.
            act_bind (publish_global_transition env Committing) (\<lambda>_.
            complete_commit_steps env manifest))))
        | Committing \<Rightarrow> complete_commit_steps env manifest
        | _ \<Rightarrow> act_lift (Err (RecoveryActionNotAllowed (mf_transaction_id manifest)
            ''recorded_state_cannot_be_completed''))) (\<lambda>_.
     finish True))"

section \<open>Loading a transaction for recovery\<close>

record LoadedTransaction =
  lt_manifest :: Manifest
  lt_journal :: TransactionJournal
  lt_progress :: Progress

definition record_checksum_text :: "bytes \<Rightarrow> FsError + string" where
  "record_checksum_text bs =
     and_then (ensure (32 \<le> length bs) (corrupt None ''record_truncated'')) (\<lambda>_.
     Ok (to_prefixed_hex (drop (length bs - 32) bs)))"

definition starts_with :: "string \<Rightarrow> string \<Rightarrow> bool" where
  "starts_with p s \<longleftrightarrow> take (length p) s = p"

definition ends_with :: "string \<Rightarrow> string \<Rightarrow> bool" where
  "ends_with p s \<longleftrightarrow> length p \<le> length s \<and> drop (length s - length p) s = p"

record LoadState =
  ld_last :: "(StateSnapshot \<times> string) option"
  ld_state_record_bytes :: nat
  ld_kept :: listing

definition load_entry ::
    "(bytes \<Rightarrow> Sha256Digest) \<Rightarrow> StateSnapshot Codec \<Rightarrow> LoadState \<Rightarrow> string \<times> Child \<Rightarrow> FsError + LoadState" where
  "load_entry H codec st entry =
     (case entry of (name, child) \<Rightarrow>
      if starts_with ''state-'' name \<and> ends_with ''.tmp'' name
      then case child of
             RegularChild _ \<Rightarrow> Ok st
           | IrregularChild \<Rightarrow> Err (transaction_io ''remove_state_temporary'' None OtherError)
      else
        let st = st\<lparr>ld_kept := ld_kept st @ [entry]\<rparr> in
        if \<not> (starts_with ''state-'' name \<and> ends_with ''.rec'' name) then Ok st
        else case child of
          IrregularChild \<Rightarrow> Err (transaction_io ''read_recovery_state'' None OtherError)
        | RegularChild bs \<Rightarrow>
            and_then (ok_or (checked_add_u64 (ld_state_record_bytes st) (sat_u64 (length bs)))
              (FsResourceLimitExceeded ''state_record_bytes'' u64_max MAX_STATE_BYTES)) (\<lambda>n.
            and_then (decode_state_record_with_limits H codec bs default_limits) (\<lambda>state.
            and_then (record_checksum_text bs) (\<lambda>checksum.
            Ok (st\<lparr>ld_last := Some (state, checksum), ld_state_record_bytes := n\<rparr>)))))"

definition listing_directory :: "listing \<Rightarrow> directory" where
  "listing_directory children name =
     (case bt_get children name of Some (RegularChild bs) \<Rightarrow> Some bs | _ \<Rightarrow> None)"

definition load_active_transaction ::
    "(bytes \<Rightarrow> Sha256Digest) \<Rightarrow> Manifest Codec \<Rightarrow> StateSnapshot Codec \<Rightarrow> string \<Rightarrow> listing
      \<Rightarrow> FsError + LoadedTransaction" where
  "load_active_transaction H mcodec codec transaction_id children =
     and_then (ok_or (listing_directory children ''manifest.rec'')
       (transaction_io ''read_recovery_manifest'' None NotFound)) (\<lambda>bs.
     and_then (decode_manifest_record_with_limits H mcodec bs default_limits) (\<lambda>manifest.
     and_then (ensure (mf_transaction_id manifest = transaction_id)
       (corrupt (Some transaction_id) ''manifest_id_mismatch'')) (\<lambda>_.
     and_then (try_fold (load_entry H codec)
       \<lparr>ld_last = None, ld_state_record_bytes = 0, ld_kept = []\<rparr> children) (\<lambda>st.
     and_then (ok_or (ld_last st) (corrupt (Some transaction_id) ''state_chain_empty'')) (\<lambda>(state, checksum).
     and_then (resume H \<lparr>td_transaction_id = transaction_id, td_contents = listing_directory (ld_kept st)\<rparr>
       manifest state checksum (ld_state_record_bytes st)) (\<lambda>journal.
     Ok \<lparr>lt_manifest = manifest, lt_journal = journal,
         lt_progress = \<lparr>pr_state = state, pr_checksum = checksum\<rparr>\<rparr>))))))"

end
