(* ===== verification/Transaction_Safety.thy ===== *)
theory Transaction_Safety
  imports Transaction Control_Lock
begin

text \<open>
  What the transaction engine guarantees when any system call fails and the process dies at any
  point: triples with an error postcondition, the actions that only look, the layout of the
  locations, the originals that every operation keeps, and the exactness of rollback and commit.
\<close>

section \<open>Hoare triples\<close>

text \<open>
  Partial correctness of actions with one postcondition for a result and one for an error. The
  error condition is what every failing call, and so every crash, leaves behind.
\<close>

definition hoare ::
    "(Engine \<Rightarrow> bool) \<Rightarrow> 'a action \<Rightarrow> ('a \<Rightarrow> Engine \<Rightarrow> bool) \<Rightarrow> (Engine \<Rightarrow> bool) \<Rightarrow> bool" where
  "hoare P m Q E \<longleftrightarrow>
     (\<forall>s. P s \<longrightarrow> (case m s of (s', Err _) \<Rightarrow> E s' | (s', Ok a) \<Rightarrow> Q a s'))"

named_theorems hoare_rules \<open>structural rules of the triples\<close>

lemma hoareI:
  assumes "\<And>s s' a. P s \<Longrightarrow> m s = (s', Ok a) \<Longrightarrow> Q a s'" "\<And>s s' e. P s \<Longrightarrow> m s = (s', Err e) \<Longrightarrow> E s'"
  shows "hoare P m Q E"
  unfolding hoare_def using assms by (auto split: prod.split sum.split)

lemma hoare_Ok: "hoare P m Q E \<Longrightarrow> P s \<Longrightarrow> m s = (s', Ok a) \<Longrightarrow> Q a s'"
  unfolding hoare_def by fastforce

lemma hoare_Err:
  assumes "hoare P m Q E" "P s" "m s = (s', Err e)"
  shows "E s'"
  using assms(1)[unfolded hoare_def, rule_format, OF assms(2)] assms(3) by simp

lemma act_bind_cases:
  assumes "act_bind m k s = (s', r)"
  obtains (err) e where "m s = (s', Err e)" "r = Err e"
  | (ok) a t where "m s = (t, Ok a)" "k a t = (s', r)"
  using assms unfolding act_bind_def by (cases "m s"; cases "snd (m s)") auto

lemma hoare_bind [hoare_rules]:
  assumes m: "hoare P m R E" and k: "\<And>a. hoare (R a) (k a) Q E"
  shows "hoare P (act_bind m k) Q E"
proof (rule hoareI)
  fix s s' b assume "P s" "act_bind m k s = (s', Ok b)"
  from this(2) this(1) show "Q b s'"
    by (cases rule: act_bind_cases) (auto dest: hoare_Ok[OF m] hoare_Ok[OF k])
next
  fix s s' e assume "P s" "act_bind m k s = (s', Err e)"
  from this(2) this(1) show "E s'"
    by (cases rule: act_bind_cases) (auto dest: hoare_Ok[OF m] hoare_Err[OF m] hoare_Err[OF k])
qed

lemma hoare_ret [hoare_rules]: "(\<And>s. P s \<Longrightarrow> Q a s) \<Longrightarrow> hoare P (act_ret a) Q E"
  by (simp add: hoare_def act_ret_def)

lemma hoare_get [hoare_rules]: "(\<And>s. P s \<Longrightarrow> Q (f s) s) \<Longrightarrow> hoare P (act_get f) Q E"
  by (simp add: hoare_def act_get_def)

lemma hoare_lift [hoare_rules]:
  "(\<And>s a. P s \<Longrightarrow> r = Ok a \<Longrightarrow> Q a s) \<Longrightarrow> (\<And>s. P s \<Longrightarrow> E s) \<Longrightarrow> hoare P (act_lift r) Q E"
  by (auto simp: hoare_def act_lift_def split: sum.split)

lemma hoare_if [hoare_rules]:
  "(b \<Longrightarrow> hoare P m Q E) \<Longrightarrow> (\<not> b \<Longrightarrow> hoare P m' Q E) \<Longrightarrow> hoare P (if b then m else m') Q E"
  by simp

lemma hoare_pre: "hoare P m Q E \<Longrightarrow> (\<And>s. P' s \<Longrightarrow> P s) \<Longrightarrow> hoare P' m Q E"
  by (simp add: hoare_def)

lemma hoare_post:
  assumes h: "hoare P m Q E" and q: "\<And>a s. Q a s \<Longrightarrow> Q' a s" and e: "\<And>s. E s \<Longrightarrow> E' s"
  shows "hoare P m Q' E'"
  by (rule hoareI) (auto intro: q e dest: hoare_Ok[OF h] hoare_Err[OF h])

lemma hoare_for_each:
  assumes "\<And>x. x \<in> set xs \<Longrightarrow> hoare I (f x) (\<lambda>_. I) E"
  shows "hoare I (for_each f xs) (\<lambda>_. I) E"
  using assms by (induction xs) (auto intro!: hoare_bind hoare_ret)

text \<open>The loop rule with what the earlier iterations established.\<close>

lemma hoare_for_each_prefix:
  assumes "\<And>pre x post. xs = pre @ x # post \<Longrightarrow> hoare (I pre) (f x) (\<lambda>_. I (pre @ [x])) E"
  shows "hoare (I []) (for_each f xs) (\<lambda>_. I xs) E"
proof -
  have "hoare (I pre) (for_each f ys) (\<lambda>_. I xs) E" if "xs = pre @ ys" for pre ys
    using that
  proof (induction ys arbitrary: pre)
    case (Cons y ys)
    have "hoare (I (pre @ [y])) (for_each f ys) (\<lambda>_. I xs) E"
      by (rule Cons.IH) (simp add: Cons.prems)
    then show ?case
      using assms[OF Cons.prems] by (auto intro: hoare_bind)
  qed (auto intro: hoare_ret)
  from this[of "[]" xs] show ?thesis by simp
qed

section \<open>Actions that only look\<close>

text \<open>
  \<open>looks\<close>: the action changes nothing but the clock; \<open>keeps_nodes\<close>: it leaves the nodes alone.
\<close>

definition looks :: "'a action \<Rightarrow> bool" where
  "looks m \<longleftrightarrow> (\<forall>s. \<exists>c. fst (m s) = s\<lparr>en_clock := c\<rparr>)"

definition keeps_nodes :: "'a action \<Rightarrow> bool" where
  "keeps_nodes m \<longleftrightarrow> (\<forall>s. en_nodes (fst (m s)) = en_nodes s)"

named_theorems look_rules \<open>actions that only look\<close>

lemma looksI: "(\<And>s. fst (m s) = s\<lparr>en_clock := c s\<rparr>) \<Longrightarrow> looks m"
  unfolding looks_def by blast

lemma looks_bind [look_rules]: "looks m \<Longrightarrow> (\<And>a. looks (k a)) \<Longrightarrow> looks (act_bind m k)"
  unfolding looks_def
proof
  fix s assume m: "\<forall>s. \<exists>c. fst (m s) = s\<lparr>en_clock := c\<rparr>" and k: "\<And>a. \<forall>s. \<exists>c. fst (k a s) = s\<lparr>en_clock := c\<rparr>"
  obtain s' r c where s': "m s = (s', r)" "s' = s\<lparr>en_clock := c\<rparr>"
    using m by (metis fst_conv surj_pair)
  show "\<exists>c. fst (act_bind m k s) = s\<lparr>en_clock := c\<rparr>"
  proof (cases r)
    case (Inl e)
    then show ?thesis using s' by (auto simp: act_bind_def)
  next
    case (Inr a)
    obtain c' where "fst (k a s') = s'\<lparr>en_clock := c'\<rparr>" using k by blast
    then show ?thesis using s' Inr by (auto simp: act_bind_def)
  qed
qed

lemma looks_simple [look_rules]:
  "looks (act_ret a)" "looks (act_lift r)" "looks (act_get f)" "looks (os_call env err)"
  "looks (sync_dir env path)" "looks (path_exists env path)" "looks (target_paths env target)"
  "looks (revalidate_lock env)" "looks (recorded_target i)" "looks (revalidate_manifest_inputs env manifest)"
proof -
  have clock: "\<exists>c. s = s\<lparr>en_clock := c\<rparr>" for s :: Engine
    by (rule exI[of _ "en_clock s"]) simp
  show "looks (act_ret a)" "looks (act_lift r)" "looks (act_get f)" "looks (recorded_target i)"
    using clock by (simp_all add: looks_def act_ret_def act_lift_def act_get_def recorded_target_def)
  show os: "looks (os_call env err)" for env err
    by (auto simp: looks_def os_call_def Let_def split: option.split)
  show "looks (sync_dir env path)" by (simp add: sync_dir_def os)
  show "looks (path_exists env path)" "looks (target_paths env target)" "looks (revalidate_lock env)"
    "looks (revalidate_manifest_inputs env manifest)"
    by (auto simp: looks_def path_exists_def target_paths_def revalidate_lock_def revalidate_manifest_inputs_def)
qed

lemma looks_if [look_rules]: "looks m \<Longrightarrow> looks m' \<Longrightarrow> looks (if b then m else m')"
  by simp

lemma looks_option [look_rules]: "looks m \<Longrightarrow> (\<And>a. looks (k a)) \<Longrightarrow> looks (case x of None \<Rightarrow> m | Some a \<Rightarrow> k a)"
  by (cases x) auto

lemma looks_for_each [look_rules]: "(\<And>x. looks (f x)) \<Longrightarrow> looks (for_each f xs)"
  by (induction xs) (auto intro: look_rules)

lemma looks_fingerprint [look_rules]: "looks (fingerprint env path report)"
  unfolding fingerprint_def by (intro look_rules)

lemma looks_derived [look_rules]:
  "looks (classify_location env path target state c g)" "looks (classify_backup env path target)"
  "looks (verify_original_location env path target)" "looks (verify_candidate_location env path target state)"
  "looks (mode_of env path report)" "looks (validate_partial_candidate env path)"
  unfolding classify_location_def classify_backup_def verify_original_location_def verify_candidate_location_def
    mode_of_def validate_partial_candidate_def
  by (intro look_rules)+

lemma looks_observe [look_rules]: "looks (observe_target env target paths recorded g)"
  unfolding observe_target_def by (intro look_rules)

lemma looks_restored [look_rules]: "looks (restored_state env target paths)"
  unfolding restored_state_def by (intro look_rules)

lemma looks_classify_target [look_rules]: "looks (classify_target env manifest state mode entry)"
  unfolding classify_target_def Let_def by (cases entry) (auto intro!: look_rules)

lemma looks_classify_all [look_rules]: "looks (classify_all_targets env manifest state mode)"
  unfolding classify_all_targets_def by (intro look_rules)

lemma looks_verify_target [look_rules]: "looks (verify_target env entry)"
  unfolding verify_target_def by (cases entry) (auto intro!: look_rules)

lemma looks_keeps: "looks m \<Longrightarrow> keeps_nodes m"
  unfolding looks_def keeps_nodes_def by (metis Engine.select_convs(1) Engine.surjective Engine.update_convs(4))

lemma looks_result:
  assumes "looks m" "m s = (s', r)"
  shows "en_nodes s' = en_nodes s" "en_progress s' = en_progress s" "en_journal s' = en_journal s"
proof -
  obtain c where "s' = s\<lparr>en_clock := c\<rparr>" using assms unfolding looks_def by (metis fst_conv)
  then show "en_nodes s' = en_nodes s" "en_progress s' = en_progress s" "en_journal s' = en_journal s" by simp_all
qed

lemma keeps_nodes_bind: "keeps_nodes m \<Longrightarrow> (\<And>a. keeps_nodes (k a)) \<Longrightarrow> keeps_nodes (act_bind m k)"
  unfolding keeps_nodes_def act_bind_def by (auto split: prod.split sum.split) (metis fst_conv)+

lemma keeps_nodes_publish: "keeps_nodes (publish_transition env g update)"
proof -
  have "keeps_nodes (publish_journal env state)" for state
    unfolding keeps_nodes_def publish_journal_def Let_def
    by (auto split: option.split sum.split prod.split)
  moreover have "keeps_nodes (\<lambda>s. (s\<lparr>en_progress := f s\<rparr>, Ok ()))" for f
    by (simp add: keeps_nodes_def)
  ultimately show ?thesis
    unfolding publish_transition_def Let_def
    by (intro keeps_nodes_bind) (assumption | rule looks_keeps look_rules)+
qed

text \<open>A triple about the nodes alone.\<close>

lemma hoare_keeps_nodes:
  assumes "keeps_nodes m" "\<And>s s'. P s \<Longrightarrow> en_nodes s' = en_nodes s \<Longrightarrow> P' s'"
  shows "hoare P m (\<lambda>_. P') P'"
  using assms unfolding keeps_nodes_def by (intro hoareI) (metis fst_conv)+

section \<open>Locations\<close>

definition t_path :: "Env \<Rightarrow> ManifestTarget \<Rightarrow> string list" where
  "t_path env target = wk_canonical_root (ev_workspace env) @ split_on CHR ''/'' (mt_path target)"

definition c_path :: "Env \<Rightarrow> ManifestTarget \<Rightarrow> string list" where
  "c_path env target = ev_active env @ [mt_candidate_name target]"

definition b_path :: "Env \<Rightarrow> ManifestTarget \<Rightarrow> string list" where
  "b_path env target = ev_active env @ [mt_backup_name target]"

definition paths_of :: "Env \<Rightarrow> ManifestTarget \<Rightarrow> TargetPaths \<Rightarrow> bool" where
  "paths_of env target paths \<longleftrightarrow> tp_target paths = t_path env target \<and>
     tp_candidate paths = c_path env target \<and> tp_backup paths = b_path env target"

lemma walk_components:
  "try_fold (walk_component view path) (current, ids) components = Ok (current', ids') \<Longrightarrow> current' = current @ components"
proof (induction components arbitrary: current ids)
  case (Cons c cs)
  then obtain mid ids2 where w: "walk_component view path (current, ids) c = Ok (mid, ids2)"
    "try_fold (walk_component view path) (mid, ids2) cs = Ok (current', ids')" by auto
  then have "mid = current @ [c]"
    by (auto simp: walk_component_def Let_def split: sum.split_asm if_split_asm ErrorKind.split_asm)
  then show ?case using Cons.IH[OF w(2)] by simp
qed simp

lemma validate_path_full:
  assumes "validate_path workspace view path = Ok v"
  shows "vp_full_path v = wk_canonical_root workspace @ split_on CHR ''/'' (path_value path)"
proof -
  let ?cs = "split_on CHR ''/'' (path_value path)"
  from assms obtain parent ids where
    w: "try_fold (walk_component view path) (wk_canonical_root workspace, [wk_identity workspace]) (butlast ?cs) = Ok (parent, ids)"
    and v: "vp_full_path v = parent @ [last ?cs]"
    by (auto simp: validate_path_def Let_def)
  have "?cs \<noteq> []" by simp
  then show ?thesis
    using walk_components[OF w] v by (metis append.assoc append_butlast_last_id)
qed

lemma target_paths_Ok: "target_paths env target s = (s', Ok paths) \<Longrightarrow> paths_of env target paths"
  by (auto simp: target_paths_def paths_of_def t_path_def c_path_def b_path_def dest!: validate_path_full)

lemma fingerprint_Ok:
  assumes "fingerprint env path report s = (s', Ok found)"
  shows "found = map_option (node_fingerprint env) (en_nodes s path)"
    "\<And>n. en_nodes s path = Some n \<Longrightarrow> nd_type n = RegularType"
proof -
  obtain t where t: "os_call env (transaction_io ''inspect_transaction_location'' report) s = (t, Ok ())"
    using assms unfolding fingerprint_def by (elim act_bind_cases) auto
  then have nodes: "en_nodes t path = en_nodes s path"
    using looks_result(1)[OF looks_simple(4)] by metis
  have rest: "(case en_nodes s path of None \<Rightarrow> found = None
      | Some n \<Rightarrow> nd_type n = RegularType \<and> found = Some (node_fingerprint env n))"
    using assms t nodes unfolding fingerprint_def
    by (auto simp: act_bind_def act_get_def act_ret_def act_lift_def ensure_def
      split: option.split_asm option.split prod.split_asm sum.split_asm if_split_asm)
  then show "found = map_option (node_fingerprint env) (en_nodes s path)"
    "\<And>n. en_nodes s path = Some n \<Longrightarrow> nd_type n = RegularType"
    by (auto split: option.split_asm)
qed

text \<open>A location that matches, as the checks find it.\<close>

definition original_at :: "Env \<Rightarrow> ManifestTarget \<Rightarrow> (string list \<rightharpoonup> Node) \<Rightarrow> string list \<Rightarrow> bool" where
  "original_at env target nodes path \<longleftrightarrow>
     (\<exists>n. nodes path = Some n \<and> nd_type n = RegularType \<and> matches_original (node_fingerprint env n) target)"

definition candidate_at :: "Env \<Rightarrow> ManifestTarget \<Rightarrow> TargetState \<Rightarrow> (string list \<rightharpoonup> Node) \<Rightarrow> string list \<Rightarrow> bool" where
  "candidate_at env target state nodes path \<longleftrightarrow>
     (\<exists>n. nodes path = Some n \<and> nd_type n = RegularType \<and> matches_candidate (node_fingerprint env n) target state)"

lemma act_bind_Ok: "act_bind m k s = (s', Ok b) \<longleftrightarrow> (\<exists>a t. m s = (t, Ok a) \<and> k a t = (s', Ok b))"
  unfolding act_bind_def by (auto split: prod.split sum.split)

lemma fingerprint_cases:
  assumes "fingerprint env path report s = (s', Ok found)"
  obtains (missing) "en_nodes s path = None" "found = None"
  | (regular) n where "en_nodes s path = Some n" "nd_type n = RegularType" "found = Some (node_fingerprint env n)"
  using fingerprint_Ok[OF assms] by (cases "en_nodes s path") auto

lemma verify_candidate_Ok:
  assumes "verify_candidate_location env path target state s = (s', Ok fp)"
  shows "candidate_at env target state (en_nodes s) path"
proof -
  from assms obtain found where f: "fingerprint env path (Some (mt_path target)) s = (s', Ok found)"
    and k: "ok_or found (RecoveryConflict ''recorded_candidate_missing'') = Ok fp" "matches_candidate fp target state"
    unfolding verify_candidate_location_def act_bind_Ok
    by (auto simp: act_lift_def split: if_split_asm)
  from f show ?thesis
    by (cases rule: fingerprint_cases) (use k in \<open>auto simp: candidate_at_def ok_or_def\<close>)
qed

lemma verify_original_Ok:
  assumes "verify_original_location env path target s = (s', Ok fp)"
  shows "original_at env target (en_nodes s) path"
proof -
  from assms obtain found where f: "fingerprint env path (Some (mt_path target)) s = (s', Ok found)"
    and k: "ok_or found (RecoveryConflict ''recorded_original_missing'') = Ok fp" "matches_original fp target"
    unfolding verify_original_location_def act_bind_Ok
    by (auto simp: act_lift_def split: if_split_asm)
  from f show ?thesis
    by (cases rule: fingerprint_cases) (use k in \<open>auto simp: original_at_def ok_or_def\<close>)
qed

lemma classify_location_Ok:
  assumes "classify_location env path target state c g s = (s', Ok seen)"
  shows "seen = LocationObservation.Absent \<longleftrightarrow> en_nodes s path = None"
    "seen = Original \<longleftrightarrow> mt_original_existed target \<and> original_at env target (en_nodes s) path"
proof -
  from assms obtain found t where f: "fingerprint env path (Some (mt_path target)) s = (t, Ok found)"
    and k: "seen = (case found of None \<Rightarrow> LocationObservation.Absent
      | Some actual \<Rightarrow> if mt_original_existed target \<and> matches_original actual target then Original
         else if cs_kind (ts_candidate state) = Ready \<and> matches_candidate actual target state then Candidate
         else if c \<and> g = Preparing then Candidate else Unexpected)"
    unfolding classify_location_def act_bind_Ok act_ret_def by blast
  from f show "seen = LocationObservation.Absent \<longleftrightarrow> en_nodes s path = None"
    "seen = Original \<longleftrightarrow> mt_original_existed target \<and> original_at env target (en_nodes s) path"
    by (cases rule: fingerprint_cases; use k in \<open>auto simp: original_at_def split: if_split_asm\<close>)+
qed

lemma classify_backup_Ok:
  assumes "classify_backup env path target s = (s', Ok seen)"
  shows "seen = LocationObservation.Absent \<longleftrightarrow> en_nodes s path = None"
    "seen = Original \<longleftrightarrow> mt_original_existed target \<and> original_at env target (en_nodes s) path"
proof -
  from assms obtain found t where f: "fingerprint env path (Some (mt_path target)) s = (t, Ok found)"
    and k: "seen = (case found of None \<Rightarrow> LocationObservation.Absent
      | Some actual \<Rightarrow> if mt_original_existed target \<and> matches_original actual target then Original else Unexpected)"
    unfolding classify_backup_def act_bind_Ok act_ret_def by blast
  from f show "seen = LocationObservation.Absent \<longleftrightarrow> en_nodes s path = None"
    "seen = Original \<longleftrightarrow> mt_original_existed target \<and> original_at env target (en_nodes s) path"
    by (cases rule: fingerprint_cases; use k in \<open>auto simp: original_at_def split: if_split_asm\<close>)+
qed

definition observes ::
    "Env \<Rightarrow> ManifestTarget \<Rightarrow> TargetPaths \<Rightarrow> (string list \<rightharpoonup> Node) \<Rightarrow> SyntheticTargetObservation \<Rightarrow> bool" where
  "observes env target paths nodes observed \<longleftrightarrow> ob_parent_matches observed \<and>
     (ob_target observed = LocationObservation.Absent \<longleftrightarrow> nodes (tp_target paths) = None) \<and>
     (ob_target observed = Original \<longleftrightarrow> mt_original_existed target \<and> original_at env target nodes (tp_target paths)) \<and>
     (ob_candidate observed = LocationObservation.Absent \<longleftrightarrow> nodes (tp_candidate paths) = None) \<and>
     (ob_backup observed = LocationObservation.Absent \<longleftrightarrow> nodes (tp_backup paths) = None) \<and>
     (ob_backup observed = Original \<longleftrightarrow> mt_original_existed target \<and> original_at env target nodes (tp_backup paths))"

lemma observe_target_Ok:
  assumes "observe_target env target paths recorded g s = (s', Ok observed)"
  shows "observes env target paths (en_nodes s) observed"
proof -
  from assms obtain a b c s1 s2 where
    a: "classify_location env (tp_target paths) target recorded False g s = (s1, Ok a)"
    and b: "classify_location env (tp_candidate paths) target recorded True g s1 = (s2, Ok b)"
    and c: "classify_backup env (tp_backup paths) target s2 = (s', Ok c)"
    and o: "observed = \<lparr>ob_parent_matches = True, ob_target = a, ob_candidate = b, ob_backup = c\<rparr>"
    unfolding observe_target_def act_bind_Ok by (auto simp: act_ret_def)
  have "en_nodes s1 = en_nodes s" "en_nodes s2 = en_nodes s1"
    using looks_result(1)[OF looks_derived(1) a] looks_result(1)[OF looks_derived(1) b] by simp_all
  then show ?thesis
    using classify_location_Ok[OF a] classify_location_Ok[OF b] classify_backup_Ok[OF c]
    by (simp add: observes_def o)
qed

section \<open>The layout of a transaction\<close>

lemma split_on_Cons_shape: "\<exists>p ps. split_on c s = p # ps"
  by (cases "split_on c s") simp_all

lemma split_on_inject: "split_on c s = split_on c t \<longleftrightarrow> s = t"
proof
  assume "split_on c s = split_on c t"
  then show "s = t"
  proof (induction s arbitrary: t)
    case Nil
    then show ?case
      by (cases t) (use split_on_Cons_shape in \<open>auto split: list.split_asm if_split_asm\<close>)
  next
    case (Cons x xs)
    obtain p ps where p: "split_on c xs = p # ps" using split_on_Cons_shape by blast
    show ?case
    proof (cases t)
      case Nil
      then show ?thesis using Cons.prems p by (auto split: if_split_asm)
    next
      case (Cons y ys)
      obtain q qs where q: "split_on c ys = q # qs" using split_on_Cons_shape by blast
      have "x = y \<and> split_on c xs = split_on c ys"
        using Cons.prems p q unfolding Cons by (auto split: if_split_asm)
      then show ?thesis using Cons.IH[of ys] Cons by simp
    qed
  qed
qed simp

text \<open>The active directory of a transaction lies in the control tree of the workspace.\<close>

definition well_placed :: "Env \<Rightarrow> Manifest \<Rightarrow> bool" where
  "well_placed env manifest \<longleftrightarrow> validate_manifest manifest default_limits = Ok () \<and>
     (\<exists>i. ev_active env = wk_canonical_root (ev_workspace env) @ [CONTROL_NAME, TRANSACTIONS_NAME, i])"

definition transaction_locations :: "Env \<Rightarrow> Manifest \<Rightarrow> string list set" where
  "transaction_locations env manifest = (\<Union>t\<in>set (mf_targets manifest). {t_path env t, c_path env t, b_path env t})"

lemma manifest_targets_valid:
  assumes "validate_manifest manifest default_limits = Ok ()" "t \<in> set (mf_targets manifest)"
  obtains k where "(k, t) \<in> set (enumerate 0 (mf_targets manifest))" "target_valid (mf_transaction_id manifest) (k, t)"
proof -
  obtain k where "k < length (mf_targets manifest)" "mf_targets manifest ! k = t"
    using assms(2) by (auto simp: in_set_conv_nth)
  then have k: "(k, t) \<in> set (enumerate 0 (mf_targets manifest))"
    by (simp add: in_set_enumerate_eq)
  moreover have "tl_targets default_limits < u64_max"
    by (simp add: default_limits_def MAX_TRANSACTION_TARGETS_def u64_max_def)
  ultimately have "target_valid (mf_transaction_id manifest) (k, t)"
    using valid_manifest_targets(1)[OF assms(1)] by (simp add: list_all_iff)
  with k show thesis by (rule that)
qed

lemma target_path_not_reserved:
  assumes "validate_normalized_path p i = Ok ()"
  shows "hd (split_on CHR ''/'' p) \<noteq> CONTROL_NAME"
proof
  assume "hd (split_on CHR ''/'' p) = CONTROL_NAME"
  then have "eq_ignore_ascii_case (hd (split_on CHR ''/'' p)) ''.srcmv''"
    by (simp add: CONTROL_NAME_def eq_ignore_ascii_case_def)
  with assms show False by (auto simp: validate_normalized_path_def Let_def split: if_split_asm)
qed

lemma layout:
  assumes w: "well_placed env manifest" and t: "t \<in> set (mf_targets manifest)" and u: "u \<in> set (mf_targets manifest)"
  shows "t_path env t = t_path env u \<longleftrightarrow> t = u" "b_path env t = b_path env u \<longleftrightarrow> t = u"
    "t_path env t \<noteq> b_path env u" "t_path env t \<noteq> c_path env u" "c_path env t \<noteq> b_path env u"
proof -
  have v: "validate_manifest manifest default_limits = Ok ()" using w by (simp add: well_placed_def)
  obtain i where a: "ev_active env = wk_canonical_root (ev_workspace env) @ [CONTROL_NAME, TRANSACTIONS_NAME, i]"
    using w by (auto simp: well_placed_def)
  obtain k where k: "(k, t) \<in> set (enumerate 0 (mf_targets manifest))" "target_valid (mf_transaction_id manifest) (k, t)"
    by (rule manifest_targets_valid[OF v t])
  obtain l where l: "(l, u) \<in> set (enumerate 0 (mf_targets manifest))" "target_valid (mf_transaction_id manifest) (l, u)"
    by (rule manifest_targets_valid[OF v u])
  have same: "t = u" if "k = l"
    using k(1) l(1) that by (simp add: in_set_enumerate_eq)
  have "sorted_wrt (<) (map mt_path (mf_targets manifest))"
    by (rule valid_manifest_targets(2)[OF v]) (simp add: default_limits_def MAX_TRANSACTION_TARGETS_def u64_max_def)
  then have "distinct (map mt_path (mf_targets manifest))" using strict_sorted_iff by blast
  then show "t_path env t = t_path env u \<longleftrightarrow> t = u"
    using t u by (auto simp: t_path_def split_on_inject distinct_map dest: inj_onD)
  show "b_path env t = b_path env u \<longleftrightarrow> t = u"
    using k(2) l(2) same by (auto simp: b_path_def target_valid_def)
  show "c_path env t \<noteq> b_path env u"
    using k(2) l(2) by (auto simp: b_path_def c_path_def target_valid_def)
  have "hd (split_on CHR ''/'' (mt_path t)) \<noteq> CONTROL_NAME"
    using k(2) by (intro target_path_not_reserved) (auto simp: target_valid_def)
  then have "split_on CHR ''/'' (mt_path t) \<noteq> [CONTROL_NAME, TRANSACTIONS_NAME, i, x]" for x
    by auto
  then show "t_path env t \<noteq> b_path env u" "t_path env t \<noteq> c_path env u"
    by (simp_all add: t_path_def b_path_def c_path_def a)
qed

section \<open>Originals are never lost\<close>

text \<open>
  \<open>safe\<close>: every target that had an original still has it, untouched, at its path or at its
  backup, and nothing outside the locations of the transaction has changed.
\<close>

definition originals :: "Env \<Rightarrow> Manifest \<Rightarrow> (ManifestTarget \<Rightarrow> Node) \<Rightarrow> bool" where
  "originals env manifest orig \<longleftrightarrow> (\<forall>t\<in>set (mf_targets manifest). mt_original_existed t \<longrightarrow>
     nd_type (orig t) = RegularType \<and> matches_original (node_fingerprint env (orig t)) t)"

definition safe ::
    "Env \<Rightarrow> Manifest \<Rightarrow> (ManifestTarget \<Rightarrow> Node) \<Rightarrow> (string list \<rightharpoonup> Node) \<Rightarrow> (string list \<rightharpoonup> Node) \<Rightarrow> bool" where
  "safe env manifest orig base nodes \<longleftrightarrow>
     (\<forall>t\<in>set (mf_targets manifest). mt_original_existed t \<longrightarrow>
        nodes (t_path env t) = Some (orig t) \<or> nodes (b_path env t) = Some (orig t)) \<and>
     (\<forall>p. p \<notin> transaction_locations env manifest \<longrightarrow> nodes p = base p)"

lemma location_paths:
  "t \<in> set (mf_targets manifest) \<Longrightarrow>
     t_path env t \<in> transaction_locations env manifest \<and> c_path env t \<in> transaction_locations env manifest \<and> b_path env t \<in> transaction_locations env manifest"
  unfolding transaction_locations_def by blast

text \<open>A change of the locations of one target only has to keep the original of this target.\<close>

lemma safe_update:
  assumes w: "well_placed env manifest" and t: "t \<in> set (mf_targets manifest)" and s: "safe env manifest orig base nodes"
    and same: "\<And>p. p \<notin> {t_path env t, c_path env t, b_path env t} \<Longrightarrow> nodes' p = nodes p"
    and own: "mt_original_existed t \<Longrightarrow> nodes' (t_path env t) = Some (orig t) \<or> nodes' (b_path env t) = Some (orig t)"
  shows "safe env manifest orig base nodes'"
  unfolding safe_def
proof (intro conjI ballI impI allI)
  fix u assume u: "u \<in> set (mf_targets manifest)" "mt_original_existed u"
  note l = layout[OF w]
  show "nodes' (t_path env u) = Some (orig u) \<or> nodes' (b_path env u) = Some (orig u)"
  proof (cases "u = t")
    case False
    then have "t_path env u \<notin> {t_path env t, c_path env t, b_path env t}"
      "b_path env u \<notin> {t_path env t, c_path env t, b_path env t}"
      using l(1,2)[OF u(1) t] l(3)[OF u(1) t] l(4)[OF u(1) t] l(3)[OF t u(1)] l(5)[OF t u(1)] by auto
    then show ?thesis using s u same by (simp add: safe_def)
  qed (use own u in simp)
next
  fix p assume "p \<notin> transaction_locations env manifest"
  then have "p \<notin> {t_path env t, c_path env t, b_path env t}" "nodes p = base p"
    using location_paths[OF t] s by (auto simp: safe_def)
  then show "nodes' p = base p" using same by simp
qed

lemma safe_own:
  "safe env manifest orig base nodes \<Longrightarrow> t \<in> set (mf_targets manifest) \<Longrightarrow> mt_original_existed t \<Longrightarrow>
     nodes (t_path env t) = Some (orig t) \<or> nodes (b_path env t) = Some (orig t)"
  by (simp add: safe_def)

lemma safe_steps:
  assumes w: "well_placed env manifest" and t: "t \<in> set (mf_targets manifest)" and s: "safe env manifest orig base nodes"
  shows "safe env manifest orig base (nodes(c_path env t := x))"
    "(mt_original_existed t \<Longrightarrow> nodes (t_path env t) \<noteq> Some (orig t)) \<Longrightarrow>
       safe env manifest orig base (nodes(t_path env t := None))"
    "nodes (b_path env t) = None \<Longrightarrow>
       safe env manifest orig base (nodes(t_path env t := None, b_path env t := nodes (t_path env t)))"
    "nodes (t_path env t) = None \<Longrightarrow>
       safe env manifest orig base (nodes(c_path env t := None, t_path env t := nodes (c_path env t)))"
    "nodes (t_path env t) = None \<Longrightarrow>
       safe env manifest orig base (nodes(b_path env t := None, t_path env t := nodes (b_path env t)))"
  using layout(3-5)[OF w t t] safe_own[OF s t]
  by (auto intro!: safe_update[OF w t s] split: if_split_asm)

section \<open>Every operation keeps the originals\<close>

text \<open>\<open>keeps I m\<close>: the action keeps the property \<open>I\<close> of the nodes, whether it succeeds or fails.\<close>

definition keeps :: "((string list \<rightharpoonup> Node) \<Rightarrow> bool) \<Rightarrow> 'a action \<Rightarrow> bool" where
  "keeps I m \<longleftrightarrow> hoare (\<lambda>s. I (en_nodes s)) m (\<lambda>_ s. I (en_nodes s)) (\<lambda>s. I (en_nodes s))"

named_theorems keep_rules \<open>actions that keep a property of the nodes\<close>

lemma keepsI: "(\<And>s s' r. I (en_nodes s) \<Longrightarrow> m s = (s', r) \<Longrightarrow> I (en_nodes s')) \<Longrightarrow> keeps I m"
  unfolding keeps_def by (rule hoareI) blast+

lemma keepsD:
  assumes "keeps I m" "I (en_nodes s)" "m s = (s', r)"
  shows "I (en_nodes s')"
  using hoare_Ok[OF assms(1)[unfolded keeps_def] assms(2)] hoare_Err[OF assms(1)[unfolded keeps_def] assms(2)] assms(3)
  by (cases r) auto

lemma keeps_bind [keep_rules]: "keeps I m \<Longrightarrow> (\<And>a. keeps I (k a)) \<Longrightarrow> keeps I (act_bind m k)"
  unfolding keeps_def by (rule hoare_bind)

lemma keeps_unchanged: "keeps_nodes m \<Longrightarrow> keeps I m"
  unfolding keeps_def by (rule hoare_keeps_nodes) auto

lemma keeps_looks: "looks m \<Longrightarrow> keeps I m"
  by (intro keeps_unchanged looks_keeps)

lemma keeps_if [keep_rules]: "(b \<Longrightarrow> keeps I m) \<Longrightarrow> (\<not> b \<Longrightarrow> keeps I m') \<Longrightarrow> keeps I (if b then m else m')"
  by simp

lemma keeps_option [keep_rules]:
  "keeps I m \<Longrightarrow> (\<And>a. keeps I (k a)) \<Longrightarrow> keeps I (case x of None \<Rightarrow> m | Some a \<Rightarrow> k a)"
  by (cases x) auto

lemma keeps_for_each: "(\<And>x. x \<in> set xs \<Longrightarrow> keeps I (f x)) \<Longrightarrow> keeps I (for_each f xs)"
  unfolding keeps_def by (rule hoare_for_each)

lemma keeps_publish [keep_rules]:
  "keeps I (publish_transition env g update)" "keeps I (publish_global_transition env g)"
  "keeps I (publish_target_transition env g i f)" "keeps I (publish_installed env i identity)"
proof -
  show p: "keeps I (publish_transition env g update)" for g update
    by (intro keeps_unchanged keeps_nodes_publish)
  show "keeps I (publish_global_transition env g)" "keeps I (publish_target_transition env g i f)"
    by (simp_all add: publish_global_transition_def publish_target_transition_def p)
  then show "keeps I (publish_installed env i identity)"
    unfolding publish_installed_def publish_target_transition_def
    by (intro keep_rules p) (rule keeps_looks look_rules)+
qed

text \<open>
  \<open>keeps_from N I m\<close>: started with the nodes \<open>N\<close>. What a step has seen holds of \<open>N\<close> until the
  next change.
\<close>

definition keeps_from :: "(string list \<rightharpoonup> Node) \<Rightarrow> ((string list \<rightharpoonup> Node) \<Rightarrow> bool) \<Rightarrow> 'a action \<Rightarrow> bool" where
  "keeps_from N I m \<longleftrightarrow> hoare (\<lambda>s. en_nodes s = N) m (\<lambda>_ s. I (en_nodes s)) (\<lambda>s. I (en_nodes s))"

lemma keeps_from_keeps: "keeps I m \<Longrightarrow> I N \<Longrightarrow> keeps_from N I m"
  unfolding keeps_def keeps_from_def by (erule hoare_pre) simp

lemma keeps_from_bind: "keeps_from N I m \<Longrightarrow> (\<And>a. keeps I (k a)) \<Longrightarrow> keeps_from N I (act_bind m k)"
  unfolding keeps_from_def keeps_def by (rule hoare_bind)

lemma keeps_from_look:
  assumes "looks m" "I N" "\<And>a. keeps_from N I (k a)"
  shows "keeps_from N I (act_bind m k)"
  unfolding keeps_from_def
proof (rule hoare_bind)
  show "hoare (\<lambda>s. en_nodes s = N) m (\<lambda>_ s. en_nodes s = N) (\<lambda>s. I (en_nodes s))"
    using assms(2) by (intro hoareI) (simp_all add: looks_result(1)[OF assms(1)])
qed (use assms(3) in \<open>simp add: keeps_from_def\<close>)

lemma keeps_observed:
  assumes "looks m" "\<And>a s s'. I (en_nodes s) \<Longrightarrow> m s = (s', Ok a) \<Longrightarrow> keeps_from (en_nodes s) I (k a)"
  shows "keeps I (act_bind m k)"
proof (rule keepsI)
  fix s s' r assume I: "I (en_nodes s)" and b: "act_bind m k s = (s', r)"
  from b show "I (en_nodes s')"
  proof (cases rule: act_bind_cases)
    case (err e)
    then show ?thesis using looks_result(1)[OF assms(1)] I by simp
  next
    case (ok a t)
    have h: "hoare (\<lambda>u. en_nodes u = en_nodes s) (k a) (\<lambda>_ s. I (en_nodes s)) (\<lambda>s. I (en_nodes s))"
      using assms(2)[OF I ok(1)] by (simp add: keeps_from_def)
    have "en_nodes t = en_nodes s" using looks_result(1)[OF assms(1) ok(1)] .
    then show ?thesis using hoare_Ok[OF h] hoare_Err[OF h] ok(2) by (cases r) auto
  qed
qed

lemma keeps_rename:
  assumes "\<And>n. I n \<Longrightarrow> n destination = None \<Longrightarrow> I (n(source := None, destination := n source))"
  shows "keeps I (no_replace_rename env source destination operation)"
proof (rule keepsI)
  fix s s' r assume "I (en_nodes s)" "no_replace_rename env source destination operation s = (s', r)"
  then show "I (en_nodes s')"
    using assms[of "en_nodes s"] unfolding no_replace_rename_def Let_def
    by (cases "ev_rename_fault env (en_clock s)"; cases "en_nodes s source"; cases "en_nodes s destination")
      (auto split: RenameErrno.split_asm)
qed

lemma keeps_put:
  assumes "\<And>n. I n \<Longrightarrow> I (n(path := x))"
  shows "keeps I (put_node path x)"
  using assms by (intro keepsI) (auto simp: put_node_def)

lemma remove_file_nodes:
  assumes "remove_file env err path s = (s', r)"
  shows "en_nodes s' = en_nodes s \<or> en_nodes s' = (en_nodes s)(path := None)"
proof -
  have os: "en_nodes t = en_nodes s" if "os_call env err s = (t, x)" for t x
    using looks_result(1)[OF looks_simple(4) that] .
  show ?thesis
    using assms unfolding remove_file_def
    by (elim act_bind_cases)
      (auto dest!: os simp: act_get_def act_lift_def put_node_def split: option.split_asm if_split_asm)
qed

lemma keeps_from_remove:
  assumes "I N" "I (N(path := None))"
  shows "keeps_from N I (remove_file env err path)"
  unfolding keeps_from_def by (rule hoareI) (use assms remove_file_nodes in force)+

lemma keeps_remove:
  assumes "\<And>n. I n \<Longrightarrow> I (n(path := None))"
  shows "keeps I (remove_file env err path)"
  by (rule keepsI) (use assms remove_file_nodes in metis)

lemma keeps_set_mode:
  assumes "\<And>n x. I n \<Longrightarrow> I (n(path := x))"
  shows "keeps I (set_mode env path mode report)"
  unfolding set_mode_def
  by (intro keep_rules keeps_put assms) (assumption | rule keeps_looks look_rules)+

lemma keeps_create_candidate:
  assumes "\<And>n x. I n \<Longrightarrow> I (n(c_path env target := x))"
  shows "keeps I (create_candidate env target snapshot)"
proof -
  have c: "ev_active env @ [mt_candidate_name target] = c_path env target" by (simp add: c_path_def)
  have a: "I (en_nodes (append_node (c_path env target) bs s))" if "I (en_nodes s)" for bs s
    using that assms by (simp add: append_node_def split: option.split)
  have w: "keeps I (write_all env (c_path env target) bs report)" for bs report
  proof (rule keepsI)
    fix s s' r assume "I (en_nodes s)" "write_all env (c_path env target) bs report s = (s', r)"
    then show "I (en_nodes s')"
      using a[of "s\<lparr>en_clock := Suc (en_clock s)\<rparr>"] by (auto simp: write_all_def Let_def split: option.split_asm)
  qed
  have "keeps I (write_segments env (c_path env target) snapshot report hashed segments)" for report hashed segments
  proof (induction segments arbitrary: hashed)
    case (Cons segment segments)
    show ?case by (simp, intro keep_rules w Cons.IH) (rule keeps_looks look_rules)+
  qed (simp add: keeps_looks look_rules)
  moreover have "keeps I (create_new_file env (c_path env target) mode err)" for mode err
    unfolding create_new_file_def
    by (intro keep_rules keeps_put assms) (assumption | rule keeps_looks look_rules)+
  ultimately show ?thesis
    unfolding create_candidate_def Let_def c
    by (intro keep_rules) (assumption | rule keeps_looks look_rules)+
qed

lemma keeps_target_paths:
  assumes "\<And>paths. paths_of env target paths \<Longrightarrow> keeps I (k paths)"
  shows "keeps I (act_bind (target_paths env target) k)"
proof (rule keepsI)
  fix s s' r assume I: "I (en_nodes s)" and b: "act_bind (target_paths env target) k s = (s', r)"
  from b show "I (en_nodes s')"
  proof (cases rule: act_bind_cases)
    case (err e)
    then show ?thesis using looks_result(1)[OF looks_simple(7)] I by metis
  next
    case (ok paths t)
    then have "en_nodes t = en_nodes s" using looks_result(1)[OF looks_simple(7)] by blast
    then show ?thesis using keepsD[OF assms[OF target_paths_Ok[OF ok(1)]] _ ok(2)] I by simp
  qed
qed

text \<open>One target of the commit: only the no-replace renames move the original.\<close>

lemma complete_target_safe:
  assumes w: "well_placed env manifest" and t: "t \<in> set (mf_targets manifest)"
  shows "keeps (safe env manifest orig base) (complete_target env (i, t))"
proof -
  let ?I = "safe env manifest orig base"
  note steps = safe_steps[OF w t]
  have backup: "keeps ?I (backup_target env t i paths seen)" if p: "paths_of env t paths" for paths seen
  proof -
    have "keeps ?I (no_replace_rename env (tp_target paths) (tp_backup paths) op)" for op
      using p by (intro keeps_rename) (simp add: paths_of_def steps(3))
    moreover have "keeps ?I (set_mode env (tp_candidate paths) mode report)" for mode report
      using p by (intro keeps_set_mode) (simp add: paths_of_def steps(1))
    ultimately show ?thesis
      unfolding backup_target_def by (intro keep_rules) (assumption | rule keeps_looks look_rules)+
  qed
  have rename: "keeps ?I (no_replace_rename env (tp_candidate paths) (tp_target paths) op)"
    and mode: "keeps ?I (set_mode env (tp_candidate paths) mode report)" if p: "paths_of env t paths" for paths op mode report
    using p by (auto intro!: keeps_rename keeps_set_mode simp: paths_of_def steps(1,4))
  show ?thesis
    unfolding complete_target_def prod.case
    by (intro keeps_target_paths keep_rules) (assumption | erule backup rename mode | rule keeps_looks look_rules)+
qed

text \<open>
  One target of the rollback: what is removed at the target was seen to be the candidate and
  not the original, and nothing else is removed from there.
\<close>

lemma matches_classified:
  assumes "safe env manifest orig base N" "observes env t paths N observed" "paths_of env t paths"
    "original_at env t (\<lambda>_. Some (orig t)) []" "mt_original_existed t" "ob_target observed = Candidate"
  shows "N (t_path env t) \<noteq> Some (orig t)"
  using assms by (auto simp: observes_def paths_of_def original_at_def)

lemma rollback_target_safe:
  assumes w: "well_placed env manifest" and t: "t \<in> set (mf_targets manifest)"
    and o: "originals env manifest orig"
  shows "keeps (safe env manifest orig base) (rollback_target env (i, t))"
proof -
  let ?I = "safe env manifest orig base"
  note steps = safe_steps[OF w t]
  have restore: "keeps ?I (no_replace_rename env (tp_backup paths) (tp_target paths) op)"
    and unstage: "keeps ?I (remove_file env err (tp_candidate paths))" if p: "paths_of env t paths" for paths op err
    using p by (auto intro!: keeps_rename keeps_remove simp: paths_of_def steps(1,5))
  have uninstall: "keeps_from N ?I (act_bind (remove_file env err (tp_target paths)) k)"
    if p: "paths_of env t paths" and N: "?I N" and k: "\<And>a. keeps ?I (k a)"
      and seen: "observes env t paths N observed" "ob_target observed = Candidate" for N paths err observed and k :: "unit \<Rightarrow> unit action"
  proof -
    have "mt_original_existed t \<Longrightarrow> N (t_path env t) \<noteq> Some (orig t)"
      using matches_classified[OF N seen(1) p _ _ seen(2)] o t by (simp add: originals_def original_at_def)
    then have gone: "?I (N(tp_target paths := None))"
      using steps(2)[OF N] p by (simp add: paths_of_def)
    show ?thesis by (intro keeps_from_bind keeps_from_remove N gone k)
  qed
  have first: "keeps_from (en_nodes s) ?I
      (if ob_target observed = Candidate
       then act_bind (verify_candidate_location env (tp_target paths) t state) (\<lambda>_.
         act_bind (remove_file env err (tp_target paths)) (\<lambda>_. sync_dir env (tp_parent paths)))
       else act_ret ())"
    if p: "paths_of env t paths" and I: "?I (en_nodes s)"
      and seen: "observe_target env t paths recorded g s = (s', Ok observed)"
    for paths s s' recorded g observed state err
  proof (cases "ob_target observed = Candidate")
    case True
    have "keeps_from (en_nodes s) ?I
      (act_bind (remove_file env err (tp_target paths)) (\<lambda>_. sync_dir env (tp_parent paths)))"
      by (rule uninstall[OF p I _ observe_target_Ok[OF seen] True]) (rule keeps_looks look_rules)+
    with True show ?thesis by (simp add: keeps_from_look[where I = "?I"] I look_rules)
  qed (simp add: keeps_from_keeps keeps_looks look_rules I)
  show ?thesis
    unfolding rollback_target_def prod.case
    apply (intro keeps_target_paths)
    apply (rule keeps_bind, rule keeps_looks, rule looks_simple)
    apply (rule keeps_bind, rule keeps_looks, rule looks_simple)
    apply (rule keeps_observed, rule look_rules)
    apply (rule keeps_from_bind, erule (2) first)
    apply (intro keep_rules)
    apply (assumption | erule restore unstage | rule keeps_looks look_rules)+
    done
qed

lemma enumerate_member: "(i, t) \<in> set (enumerate 0 xs) \<longleftrightarrow> i < length xs \<and> xs ! i = t"
  by (auto simp: in_set_enumerate_eq)

lemma enumerate_target: "(i, t) \<in> set (enumerate 0 xs) \<Longrightarrow> t \<in> set xs"
  by (auto simp: enumerate_member)

lemma complete_commit_steps_safe:
  assumes w: "well_placed env manifest"
  shows "keeps (safe env manifest orig base) (complete_commit_steps env manifest)"
proof -
  have "keeps (safe env manifest orig base) (for_each (complete_target env) (enumerate 0 (mf_targets manifest)))"
    by (intro keeps_for_each) (auto dest: enumerate_target intro: complete_target_safe[OF w])
  then show ?thesis
    unfolding complete_commit_steps_def by (intro keep_rules) (assumption | rule keeps_looks look_rules)+
qed

lemma keeps_nodes_publish_journal: "keeps_nodes (publish_journal env state)"
  unfolding keeps_nodes_def publish_journal_def Let_def
  by (auto split: option.split sum.split prod.split)

lemma keeps_nodes_first_records:
  "keeps_nodes (create_journal env mcodec manifest)" "keeps_nodes (publish_first_state env manifest)"
proof -
  show "keeps_nodes (create_journal env mcodec manifest)"
    unfolding create_journal_def
    by (rule keeps_nodes_bind[OF looks_keeps[OF looks_simple(4)]]) (auto simp: keeps_nodes_def split: sum.split)
  show "keeps_nodes (publish_first_state env manifest)"
    unfolding publish_first_state_def Let_def
    by (intro keeps_nodes_bind looks_keeps[OF looks_simple(3)] keeps_nodes_publish_journal)
      (simp add: keeps_nodes_def)
qed

lemma execute_steps_safe:
  assumes w: "well_placed env manifest"
  shows "keeps (safe env manifest orig base) (execute_steps env mcodec manifest snapshot)"
proof -
  let ?I = "safe env manifest orig base"
  have "keeps ?I (prepare_target env snapshot n (i, t))" if "(i, t) \<in> set (enumerate 0 (mf_targets manifest))" for n i t
    unfolding prepare_target_def prod.case Let_def
    by (intro keep_rules keeps_create_candidate safe_steps(1)[OF w enumerate_target[OF that]])
  then have "keeps ?I (for_each (prepare_target env snapshot n) (enumerate 0 (mf_targets manifest)))" for n
    by (intro keeps_for_each) auto
  moreover note complete_commit_steps_safe[OF w] keeps_unchanged[OF keeps_nodes_first_records(1)]
    keeps_unchanged[OF keeps_nodes_first_records(2)]
  ultimately show ?thesis
    unfolding execute_steps_def by (intro keep_rules) (assumption | rule keeps_looks look_rules)+
qed

lemma keeps_map_error: "keeps I m \<Longrightarrow> keeps I (map_error e m)"
  by (rule keepsI) (auto simp: map_error_def dest: keepsD split: prod.split_asm sum.split_asm)

lemma rollback_all_targets_safe:
  assumes "well_placed env manifest" "originals env manifest orig"
  shows "keeps (safe env manifest orig base) (rollback_all_targets env manifest)"
proof -
  have "keeps (safe env manifest orig base) (for_each (rollback_target env) (rev (enumerate 0 (mf_targets manifest))))"
    by (intro keeps_for_each) (auto dest: enumerate_target intro: rollback_target_safe[OF assms(1) _ assms(2)])
  then show ?thesis
    unfolding rollback_all_targets_def by (intro keep_rules) (assumption | rule keeps_looks look_rules)+
qed

lemma recovery_safe:
  assumes w: "well_placed env manifest" and o: "originals env manifest orig"
    and f: "\<And>b. keeps_nodes (finish b)"
  shows "keeps (safe env manifest orig base) (recover_rollback_active env finish manifest)"
    "keeps (safe env manifest orig base) (recover_complete_active env finish manifest)"
proof -
  let ?I = "safe env manifest orig base"
  have f: "keeps ?I (finish b)" for b by (rule keeps_unchanged[OF f])
  have "keeps ?I (map_error e (act_bind (rollback_all_targets env manifest) (\<lambda>_. publish_global_transition env RolledBack)))" for e
    by (intro keeps_map_error keep_rules rollback_all_targets_safe[OF w o])
  with f show "keeps ?I (recover_rollback_active env finish manifest)"
    unfolding recover_rollback_active_def by (intro keep_rules) (assumption | rule keeps_looks look_rules)+
  have state: "keeps ?I (case g of
          Committed \<Rightarrow> classify_all_targets env manifest state CompleteMode
        | Prepared \<Rightarrow>
            act_bind (revalidate_manifest_inputs env manifest) (\<lambda>_.
            act_bind (classify_all_targets env manifest state CompleteMode) (\<lambda>_.
            act_bind (revalidate_lock env) (\<lambda>_.
            act_bind (publish_global_transition env Committing) (\<lambda>_.
            complete_commit_steps env manifest))))
        | Committing \<Rightarrow> complete_commit_steps env manifest
        | _ \<Rightarrow> act_lift (Err e))" for g state e
    by (cases g; simp; (intro keep_rules complete_commit_steps_safe[OF w])?)
      (rule keeps_looks look_rules)+
  show "keeps ?I (recover_complete_active env finish manifest)"
    unfolding recover_complete_active_def
    by (rule keeps_bind, rule keeps_looks, rule looks_simple, rule keeps_bind, rule state, rule f)
qed

section \<open>What the progress says after a step\<close>

definition keeps_progress :: "'a action \<Rightarrow> bool" where
  "keeps_progress m \<longleftrightarrow> (\<forall>s. en_progress (fst (m s)) = en_progress s)"

named_theorems progress_rules \<open>actions that leave the progress alone\<close>

lemma keeps_progress_looks: "looks m \<Longrightarrow> keeps_progress m"
  unfolding keeps_progress_def using looks_result(2) by (metis prod.collapse)

lemma keeps_progress_bind [progress_rules]:
  "keeps_progress m \<Longrightarrow> (\<And>a. keeps_progress (k a)) \<Longrightarrow> keeps_progress (act_bind m k)"
  unfolding keeps_progress_def act_bind_def by (auto split: prod.split sum.split) (metis fst_conv)+

lemma keeps_progress_if [progress_rules]:
  "keeps_progress m \<Longrightarrow> keeps_progress m' \<Longrightarrow> keeps_progress (if b then m else m')"
  by simp

lemma keeps_progress_calls [progress_rules]:
  "keeps_progress (no_replace_rename env a b op)" "keeps_progress (remove_file env err a)"
proof -
  show "keeps_progress (no_replace_rename env a b op)"
    by (auto simp: keeps_progress_def no_replace_rename_def Let_def split: option.split RenameErrno.split)
  have "keeps_progress (put_node a x)" for x by (simp add: keeps_progress_def put_node_def)
  then show "keeps_progress (remove_file env err a)"
    unfolding remove_file_def
    by (intro keeps_progress_bind keeps_progress_looks[OF looks_simple(4)] keeps_progress_looks[OF looks_simple(3)])
      (auto simp: keeps_progress_looks look_rules split: option.split)
qed

lemma bind_progress:
  assumes "act_bind m k s = (s', Ok b)" "keeps_progress m"
  obtains a t where "m s = (t, Ok a)" "en_progress t = en_progress s" "k a t = (s', Ok b)"
  using assms unfolding act_bind_Ok keeps_progress_def by (metis fst_conv)

lemma publish_transition_Ok:
  assumes "publish_transition env g update s = (s', Ok u)"
  shows "en_nodes s' = en_nodes s" "sn_global_state (pr_state (en_progress s')) = g"
    "update (sn_targets (pr_state (en_progress s))) = Ok (sn_targets (pr_state (en_progress s')))"
proof -
  show "en_nodes s' = en_nodes s"
    using keeps_nodes_publish[of env g update] assms unfolding keeps_nodes_def by (metis fst_conv)
  show "sn_global_state (pr_state (en_progress s')) = g"
    "update (sn_targets (pr_state (en_progress s))) = Ok (sn_targets (pr_state (en_progress s')))"
    using assms unfolding publish_transition_def Let_def act_bind_Ok
    by (auto simp: act_get_def act_lift_def)
qed

abbreviation targets_of :: "Engine \<Rightarrow> TargetState list" where
  "targets_of s \<equiv> sn_targets (pr_state (en_progress s))"

abbreviation global_of :: "Engine \<Rightarrow> GlobalState" where
  "global_of s \<equiv> sn_global_state (pr_state (en_progress s))"

lemma restored_state_kind:
  assumes "restored_state env target paths s = (s', Ok r)"
  shows "rs_kind r \<noteq> NotRolledBack"
  using assms unfolding restored_state_def by (auto simp: act_bind_Ok act_ret_def split: if_split_asm)

lemma progress_result: "keeps_progress m \<Longrightarrow> m s = (s', r) \<Longrightarrow> en_progress s' = en_progress s"
  unfolding keeps_progress_def by (metis fst_conv)

lemma hoare_progress:
  "keeps_progress m \<Longrightarrow> (\<And>a. hoare (\<lambda>s. en_progress s = p) (k a) Q (\<lambda>_. True)) \<Longrightarrow>
     hoare (\<lambda>s. en_progress s = p) (act_bind m k) Q (\<lambda>_. True)"
  by (rule hoare_bind[where R = "\<lambda>_ s. en_progress s = p"]) (auto intro: hoareI dest: progress_result)

lemma hoare_recorded:
  assumes "\<And>r. i < length (sn_targets (pr_state p)) \<Longrightarrow> r = sn_targets (pr_state p) ! i \<Longrightarrow>
    hoare (\<lambda>s. en_progress s = p) (k r) Q (\<lambda>_. True)"
  shows "hoare (\<lambda>s. en_progress s = p) (act_bind (recorded_target i) k) Q (\<lambda>_. True)"
proof (rule hoareI)
  fix s s' a assume p: "en_progress s = p" and k: "act_bind (recorded_target i) k s = (s', Ok a)"
  then have "i < length (sn_targets (pr_state p))" "k (sn_targets (pr_state p) ! i) s = (s', Ok a)"
    by (auto simp: act_bind_def recorded_target_def split: if_split_asm)
  then show "Q a s'" using hoare_Ok[OF assms[OF _ refl]] p by blast
qed simp

text \<open>A rolled back target is recorded as such, and no other record changes.\<close>

definition rollback_recorded :: "nat \<Rightarrow> Progress \<Rightarrow> Progress \<Rightarrow> bool" where
  "rollback_recorded i p q \<longleftrightarrow> i < length (sn_targets (pr_state p)) \<and>
     (\<exists>r. rs_kind (ts_rollback r) \<noteq> NotRolledBack \<and> sn_targets (pr_state q) = (sn_targets (pr_state p))[i := r]) \<and>
     (sn_global_state (pr_state p) = RollingBack \<longrightarrow> sn_global_state (pr_state q) = RollingBack)"

lemma rollback_target_progress:
  "hoare (\<lambda>s. en_progress s = p) (rollback_target env (i, t)) (\<lambda>_ s. rollback_recorded i p (en_progress s)) (\<lambda>_. True)"
proof -
  let ?P = "\<lambda>s. en_progress s = p"
  have recording: "hoare ?P
      (act_bind (recorded_target i) (\<lambda>recorded.
       if rs_kind (ts_rollback recorded) = NotRolledBack
       then publish_target_transition env RollingBack i (\<lambda>state. state\<lparr>ts_rollback := restored\<rparr>)
       else act_ret ())) (\<lambda>_ s. rollback_recorded i p (en_progress s)) (\<lambda>_. True)"
    if r: "rs_kind restored \<noteq> NotRolledBack" for restored
  proof (rule hoare_recorded)
    fix recorded assume i: "i < length (sn_targets (pr_state p))" "recorded = sn_targets (pr_state p) ! i"
    have same: "rollback_recorded i p p" if "rs_kind (ts_rollback recorded) \<noteq> NotRolledBack"
      using that i by (auto simp: rollback_recorded_def intro!: exI[of _ recorded])
    have publish: "hoare ?P (publish_target_transition env RollingBack i (\<lambda>state. state\<lparr>ts_rollback := restored\<rparr>))
      (\<lambda>_ s. rollback_recorded i p (en_progress s)) (\<lambda>_. True)"
      unfolding publish_target_transition_def
    proof (rule hoareI)
      fix s s' u assume p: "?P s" and
        "publish_transition env RollingBack (update_target i (\<lambda>state. state\<lparr>ts_rollback := restored\<rparr>)) s = (s', Ok u)"
      note publish_transition_Ok(2,3)[OF this(2)]
      with p i r show "rollback_recorded i p (en_progress s')"
        by (auto simp: rollback_recorded_def update_target_def intro!: exI[of _ "recorded\<lparr>ts_rollback := restored\<rparr>"])
    qed simp
    show "hoare ?P (if rs_kind (ts_rollback recorded) = NotRolledBack
       then publish_target_transition env RollingBack i (\<lambda>state. state\<lparr>ts_rollback := restored\<rparr>)
       else act_ret ()) (\<lambda>_ s. rollback_recorded i p (en_progress s)) (\<lambda>_. True)"
      using same by (intro hoare_if publish hoare_ret) auto
  qed
  have restored: "hoare ?P (restored_state env t paths) (\<lambda>r s. ?P s \<and> rs_kind r \<noteq> NotRolledBack) (\<lambda>_. True)" for paths
    by (rule hoareI) (auto simp: looks_result(2)[OF looks_restored] restored_state_kind)
  have last: "hoare ?P
      (act_bind (restored_state env t paths) (\<lambda>restored.
       act_bind (recorded_target i) (\<lambda>recorded.
       if rs_kind (ts_rollback recorded) = NotRolledBack
       then publish_target_transition env RollingBack i (\<lambda>state. state\<lparr>ts_rollback := restored\<rparr>)
       else act_ret ()))) (\<lambda>_ s. rollback_recorded i p (en_progress s)) (\<lambda>_. True)" for paths
    by (rule hoare_bind[OF restored]) (use recording in \<open>auto simp: hoare_def\<close>)
  show ?thesis
    unfolding rollback_target_def prod.case
    by (intro hoare_progress last progress_rules) (rule keeps_progress_looks look_rules | intro progress_rules)+
qed

lemma enumerate_has:
  assumes "t \<in> set xs"
  obtains i where "(i, t) \<in> set (enumerate 0 xs)"
  using assms by (metis enumerate_member in_set_conv_nth)

lemma act_lift_Ok: "act_lift r s = (s', Ok a) \<longleftrightarrow> s' = s \<and> r = Ok a"
  by (auto simp: act_lift_def)

lemma act_get_Ok: "act_get f s = (s', Ok a) \<longleftrightarrow> s' = s \<and> a = f s"
  by (auto simp: act_get_def)

lemmas act_Ok = act_bind_Ok act_lift_Ok act_get_Ok

lemma for_each_Ok:
  assumes "for_each f xs s = (s', Ok u)" "x \<in> set xs" "\<And>x. x \<in> set xs \<Longrightarrow> looks (f x)"
  obtains t t' where "f x t = (t', Ok ())" "en_nodes t = en_nodes s" "en_progress t = en_progress s"
  using assms
proof (induction xs arbitrary: s thesis)
  case (Cons y ys)
  obtain a t where t: "f y s = (t, Ok a)" "for_each f ys t = (s', Ok u)"
    using Cons.prems(2) by (auto simp: act_bind_Ok)
  show ?case
  proof (cases "x = y")
    case True
    then show ?thesis using t(1) Cons.prems(1)[of s t] by auto
  next
    case False
    have y: "looks (f y)" using Cons.prems(4) by simp
    from False show ?thesis
      using Cons.IH[OF _ t(2)] Cons.prems looks_result[OF y t(1)] by auto
  qed
qed simp

text \<open>What a classification with the recorded progress says about the nodes.\<close>

definition restored_at :: "Env \<Rightarrow> ManifestTarget \<Rightarrow> (string list \<rightharpoonup> Node) \<Rightarrow> bool" where
  "restored_at env t nodes \<longleftrightarrow>
     (if mt_original_existed t then original_at env t nodes (t_path env t) else nodes (t_path env t) = None) \<and>
     nodes (c_path env t) = None \<and> nodes (b_path env t) = None"

lemma rolled_back_is_restored:
  assumes "classify_target env manifest state RollbackMode (i, t) s = (s', Ok u)"
    and "sn_global_state state = RollingBack" "rs_kind (ts_rollback (sn_targets state ! i)) \<noteq> NotRolledBack"
  shows "restored_at env t (en_nodes s)"
proof -
  obtain paths observed d s1 s2 where paths: "target_paths env t s = (s1, Ok paths)"
    and seen: "observe_target env t paths (sn_targets state ! i) RollingBack s1 = (s2, Ok observed)"
    and c: "classify_recovery RollingBack (mt_original_existed t) (sn_targets state ! i) observed = Ok d"
    using assms(1,2) unfolding classify_target_def prod.case Let_def act_Ok by auto
  have N: "en_nodes s1 = en_nodes s" using looks_result(1)[OF looks_simple(7) paths] .
  have o: "observes env t paths (en_nodes s) observed" using observe_target_Ok[OF seen] N by simp
  have "if mt_original_existed t
    then ob_target observed = Original \<and> ob_candidate observed = LocationObservation.Absent \<and> ob_backup observed = LocationObservation.Absent
    else ob_target observed = LocationObservation.Absent \<and> ob_candidate observed = LocationObservation.Absent \<and> ob_backup observed = LocationObservation.Absent"
    using c assms(3)
    by (auto simp: classify_recovery_def classify_rolling_back_def classify_restored_original_def
        classify_restored_absence_def split: if_split_asm RollbackKind.split_asm bool.split_asm)
  with o target_paths_Ok[OF paths] show ?thesis
    by (auto simp: restored_at_def observes_def paths_of_def split: if_split_asm)
qed

lemma rollback_all_targets_progress:
  assumes "rollback_all_targets env manifest s = (s', Ok u)" "global_of s = RollingBack"
  shows "\<And>t. t \<in> set (mf_targets manifest) \<Longrightarrow> restored_at env t (en_nodes s')" 
    "global_of s' = RollingBack"
proof -
  let ?entries = "enumerate 0 (mf_targets manifest)"
  let ?I = "\<lambda>(pre :: (nat \<times> ManifestTarget) list) s. global_of s = RollingBack \<and>
    (\<forall>i t. (i, t) \<in> set pre \<longrightarrow> i < length (targets_of s) \<and> rs_kind (ts_rollback (targets_of s ! i)) \<noteq> NotRolledBack)"
  obtain t where loop: "for_each (rollback_target env) (rev ?entries) s = (t, Ok ())"
    and classified: "classify_all_targets env manifest (pr_state (en_progress t)) RollbackMode t = (s', Ok u)"
    using assms(1) unfolding rollback_all_targets_def act_Ok by auto
  have step: "hoare (?I pre) (rollback_target env x) (\<lambda>_. ?I (pre @ [x])) (\<lambda>_. True)" for pre x
  proof (rule hoareI)
    fix s s' u assume I: "?I pre s" and r: "rollback_target env x s = (s', Ok u)"
    obtain i t where x: "x = (i, t)" by fastforce
    have "rollback_recorded i (en_progress s) (en_progress s')"
      using hoare_Ok[OF rollback_target_progress refl] r unfolding x by blast
    then obtain q where q: "i < length (targets_of s)" "rs_kind (ts_rollback q) \<noteq> NotRolledBack"
      "targets_of s' = (targets_of s)[i := q]" "global_of s' = RollingBack"
      using I by (auto simp: rollback_recorded_def)
    show "?I (pre @ [x]) s'"
    proof (intro conjI allI impI)
      fix j t assume "(j, t) \<in> set (pre @ [x])"
      then show "j < length (targets_of s')" "rs_kind (ts_rollback (targets_of s' ! j)) \<noteq> NotRolledBack"
        using I q by (cases "j = i"; auto simp: x nth_list_update)+
    qed (rule q(4))
  qed simp
  have all: "hoare (?I []) (for_each (rollback_target env) (rev ?entries)) (\<lambda>_. ?I (rev ?entries)) (\<lambda>_. True)"
    by (rule hoare_for_each_prefix[where I = ?I]) (rule step)
  then have I: "?I (rev ?entries) t"
    using hoare_Ok[OF all _ loop] assms(2) by simp
  show "global_of s' = RollingBack"
    using looks_result(2)[OF looks_classify_all classified] I by simp
  show "restored_at env target (en_nodes s')" if "target \<in> set (mf_targets manifest)" for target
  proof -
    obtain i where i: "(i, target) \<in> set ?entries" by (rule enumerate_has[OF \<open>target \<in> set (mf_targets manifest)\<close>])
    obtain t1 t2 where "classify_target env manifest (pr_state (en_progress t)) RollbackMode (i, target) t1 = (t2, Ok ())"
      "en_nodes t1 = en_nodes t"
      using classified unfolding classify_all_targets_def
      by (rule for_each_Ok[OF _ i looks_classify_target])
    moreover have "rs_kind (ts_rollback (targets_of t ! i)) \<noteq> NotRolledBack" "global_of t = RollingBack"
      using I i by auto
    ultimately show ?thesis
      using rolled_back_is_restored looks_result(1)[OF looks_classify_all classified] by metis
  qed
qed

lemma act_if_Ok: "(if b then m else act_ret ()) s = (s', Ok u) \<longleftrightarrow> (if b then m s = (s', Ok u) else s' = s)"
  by (auto simp: act_ret_def)

lemma map_error_Ok: "map_error e m s = (s', Ok u) \<longleftrightarrow> m s = (s', Ok u)"
  by (auto simp: map_error_def split: prod.split sum.split)

lemma recover_rollback_restores:
  assumes r: "recover_rollback_active env (\<lambda>_. act_ret ()) manifest s = (s', Ok u)"
    and g: "global_of s \<noteq> RolledBack" and t: "t \<in> set (mf_targets manifest)"
  shows "restored_at env t (en_nodes s')" "global_of s' = RolledBack"
proof -
  have "global_of s \<noteq> Committed" using r by (auto simp: recover_rollback_active_def act_Ok)
  then obtain s1 s2 s3 s4 a b c where
    1: "classify_all_targets env manifest (pr_state (en_progress s)) RollbackMode s = (s1, Ok a)"
    and 2: "if global_of s \<noteq> RollingBack then publish_global_transition env RollingBack s1 = (s2, Ok b) else s2 = s1"
    and 3: "revalidate_lock env s2 = (s3, Ok c)"
    and 4: "rollback_all_targets env manifest s3 = (s4, Ok ())"
    and 5: "publish_global_transition env RolledBack s4 = (s', Ok ())"
    using r g unfolding recover_rollback_active_def
    by (simp add: act_bind_Ok[of _ _ s] act_get_Ok) (auto simp: act_Ok act_if_Ok map_error_Ok act_ret_def)
  have "global_of s1 = global_of s" using looks_result(2)[OF looks_classify_all 1] by simp
  then have "global_of s2 = RollingBack"
    using 2 publish_transition_Ok(2)[of env RollingBack Ok s1 s2 b]
    by (auto simp: publish_global_transition_def split: if_split_asm)
  then have "global_of s3 = RollingBack" using looks_result(2)[OF looks_simple(8) 3] by simp
  from rollback_all_targets_progress(1)[OF 4 this t]
  show "restored_at env t (en_nodes s')" "global_of s' = RolledBack"
    using publish_transition_Ok(1,2)[OF 5[unfolded publish_global_transition_def]] by simp_all
qed

section \<open>Transactions with crashes\<close>

text \<open>
  A transaction starts, stops anywhere, and is then continued any number of times by a rollback or
  a completion, which stop anywhere too. Each continuation works on the nodes it finds, with
  whatever progress and journal it has loaded.
\<close>

inductive transaction_run ::
    "Env \<Rightarrow> Manifest Codec \<Rightarrow> Manifest \<Rightarrow> WorkspaceSnapshot \<Rightarrow> Engine \<Rightarrow> Engine \<Rightarrow> bool"
  for env mcodec manifest snapshot start where
  executed: "execute_steps env mcodec manifest snapshot start = (s, r) \<Longrightarrow>
    transaction_run env mcodec manifest snapshot start s"
| rolled_back: "transaction_run env mcodec manifest snapshot start s \<Longrightarrow> en_nodes loaded = en_nodes s \<Longrightarrow>
    recover_rollback_active env (\<lambda>_. act_ret ()) manifest loaded = (s', r) \<Longrightarrow>
    transaction_run env mcodec manifest snapshot start s'"
| completed: "transaction_run env mcodec manifest snapshot start s \<Longrightarrow> en_nodes loaded = en_nodes s \<Longrightarrow>
    recover_complete_active env (\<lambda>_. act_ret ()) manifest loaded = (s', r) \<Longrightarrow>
    transaction_run env mcodec manifest snapshot start s'"

definition originals_of :: "Env \<Rightarrow> Engine \<Rightarrow> ManifestTarget \<Rightarrow> Node" where
  "originals_of env start t = the (en_nodes start (t_path env t))"

lemma originals_start:
  assumes "\<forall>t\<in>set (mf_targets manifest). mt_original_existed t \<longrightarrow> original_at env t (en_nodes start) (t_path env t)"
  shows "originals env manifest (originals_of env start)"
    "safe env manifest (originals_of env start) (en_nodes start) (en_nodes start)"
  using assms by (auto simp: originals_def originals_of_def original_at_def safe_def)

lemma transaction_run_safe:
  assumes w: "well_placed env manifest"
    and o: "\<forall>t\<in>set (mf_targets manifest). mt_original_existed t \<longrightarrow> original_at env t (en_nodes start) (t_path env t)"
    and run: "transaction_run env mcodec manifest snapshot start s"
  shows "safe env manifest (originals_of env start) (en_nodes start) (en_nodes s)"
  using run
proof induction
  case (executed s r)
  then show ?case using keepsD[OF execute_steps_safe[OF w] originals_start(2)[OF o]] by blast
next
  case (rolled_back s loaded s' r)
  have "keeps_nodes (act_ret ())" by (rule looks_keeps[OF looks_simple(1)])
  then show ?case
    using keepsD[OF recovery_safe(1)[OF w originals_start(1)[OF o]] _ rolled_back.hyps(3)] rolled_back.IH rolled_back.hyps(2)
    by simp
next
  case (completed s loaded s' r)
  have "keeps_nodes (act_ret ())" by (rule looks_keeps[OF looks_simple(1)])
  then show ?case
    using keepsD[OF recovery_safe(2)[OF w originals_start(1)[OF o]] _ completed.hyps(3)] completed.IH completed.hyps(2)
    by simp
qed


text \<open>
  C19: A rollback that succeeds restores the workspace exactly, whatever interrupted the
  transaction before: every node is the one the transaction started with, no candidate and no
  backup is left, and the recorded state is rolled back.
\<close>

theorem rollback_restores_the_workspace:
  assumes "well_placed env manifest"
    and "\<forall>t\<in>set (mf_targets manifest). restored_at env t (en_nodes start)"
    and "transaction_run env mcodec manifest snapshot start s"
    and "en_nodes loaded = en_nodes s" "global_of loaded \<noteq> RolledBack"
    and "recover_rollback_active env (\<lambda>_. act_ret ()) manifest loaded = (s', Ok ())"
  shows "en_nodes s' = en_nodes start \<and> global_of s' = RolledBack"
proof
  have o: "\<forall>t\<in>set (mf_targets manifest). mt_original_existed t \<longrightarrow> original_at env t (en_nodes start) (t_path env t)"
    using assms(2) by (simp add: restored_at_def)
  have "transaction_run env mcodec manifest snapshot start s'"
    by (rule transaction_run.rolled_back[OF assms(3,4,6)])
  then have s: "safe env manifest (originals_of env start) (en_nodes start) (en_nodes s')"
    by (rule transaction_run_safe[OF assms(1) o])
  have r: "restored_at env t (en_nodes s')" if "t \<in> set (mf_targets manifest)" for t
    using recover_rollback_restores(1)[OF assms(6,5) that] .
  have "en_nodes s' p = en_nodes start p" for p
  proof (cases "p \<in> transaction_locations env manifest")
    case True
    then obtain t where t: "t \<in> set (mf_targets manifest)" "p \<in> {t_path env t, c_path env t, b_path env t}"
      unfolding transaction_locations_def by blast
    then show ?thesis
      using r[OF t(1)] assms(2) safe_own[OF s t(1)]
      by (auto simp: restored_at_def originals_of_def original_at_def split: if_split_asm)
  qed (use s in \<open>simp add: safe_def\<close>)
  then show "en_nodes s' = en_nodes start" by blast
  obtain t where "t \<in> set (mf_targets manifest)"
    using valid_manifest_targets(4)[of manifest default_limits] assms(1)
    by (cases "mf_targets manifest") (auto simp: well_placed_def default_limits_def MAX_TRANSACTION_TARGETS_def u64_max_def)
  then show "global_of s' = RolledBack"
    using recover_rollback_restores(2)[OF assms(6,5)] by blast
qed

lemma verify_target_Ok:
  assumes "verify_target env (i, t) s = (s', Ok u)"
  shows "i < length (targets_of s) \<and> candidate_at env t (targets_of s ! i) (en_nodes s) (t_path env t)"
proof -
  obtain s1 paths fp s2 where paths: "target_paths env t s = (s1, Ok paths)" and i: "i < length (targets_of s1)"
    and v: "verify_candidate_location env (tp_target paths) t (targets_of s1 ! i) s1 = (s2, Ok fp)"
    using assms unfolding verify_target_def by (auto simp: act_Ok recorded_target_def split: if_split_asm)
  show ?thesis
    using verify_candidate_Ok[OF v] i target_paths_Ok[OF paths] looks_result[OF looks_simple(7) paths]
    by (simp add: paths_of_def)
qed

text \<open>
  C20: A commit that succeeds, first run or completed by a recovery, has verified every target after
  the last installation: the recorded state is committed, and the file at each target path has
  the identity recorded for its candidate and the length and digest of the plan.
\<close>

theorem commit_installs_every_candidate:
  assumes "complete_commit_steps env manifest s = (s', Ok ()) \<or> execute_steps env mcodec manifest snapshot s = (s', Ok ())"
    and "(i, t) \<in> set (enumerate 0 (mf_targets manifest))"
  shows "global_of s' = Committed \<and> i < length (targets_of s') \<and>
     candidate_at env t (targets_of s' ! i) (en_nodes s') (t_path env t)"
proof -
  have "\<exists>s0. complete_commit_steps env manifest s0 = (s', Ok ())"
    using assms(1) by (auto simp: execute_steps_def act_bind_Ok)
  then obtain s0 s1 s2 where
    verified: "for_each (verify_target env) (enumerate 0 (mf_targets manifest)) s1 = (s2, Ok ())"
    and published: "publish_transition env Committed Ok s2 = (s', Ok ())"
    by (auto simp: complete_commit_steps_def publish_global_transition_def act_bind_Ok)
  obtain t1 t2 where t1: "verify_target env (i, t) t1 = (t2, Ok ())" "en_nodes t1 = en_nodes s1"
    "en_progress t1 = en_progress s1"
    by (rule for_each_Ok[OF verified assms(2) looks_verify_target])
  have "looks (for_each (verify_target env) (enumerate 0 (mf_targets manifest)))"
    by (intro look_rules)
  note same = looks_result[OF this verified]
  show ?thesis
    using verify_target_Ok[OF t1(1)] t1(2,3) same publish_transition_Ok[OF published] by simp
qed

section \<open>A rollback that cannot be continued\<close>

lemma classify_location_unexpected:
  assumes "classify_location env path target state c g s = (s', Ok seen)"
    and "en_nodes s path \<noteq> None" "cs_kind (ts_candidate state) \<noteq> Ready" "g \<noteq> Preparing"
    and "\<not> (mt_original_existed target \<and> original_at env target (en_nodes s) path)"
  shows "seen = Unexpected"
proof -
  from assms(1) obtain found t where f: "fingerprint env path (Some (mt_path target)) s = (t, Ok found)"
    and k: "seen = (case found of None \<Rightarrow> LocationObservation.Absent
      | Some actual \<Rightarrow> if mt_original_existed target \<and> matches_original actual target then Original
         else if cs_kind (ts_candidate state) = Ready \<and> matches_candidate actual target state then Candidate
         else if c \<and> g = Preparing then Candidate else Unexpected)"
    unfolding classify_location_def act_bind_Ok act_ret_def by blast
  from f show ?thesis
    by (cases rule: fingerprint_cases) (use k assms(2-5) in \<open>auto simp: original_at_def\<close>)
qed

text \<open>
  C21: A rollback that was recorded but interrupted before it removed a candidate without a
  record of its completion is never continued: every further attempt is refused and changes
  nothing, because a partial candidate is only recognised while the transaction is preparing.
\<close>

theorem interrupted_rollback_is_refused:
  assumes "global_of s = RollingBack" "(i, t) \<in> set (enumerate 0 (mf_targets manifest))"
    and "cs_kind (ts_candidate (targets_of s ! i)) \<noteq> Ready" "en_nodes s (c_path env t) \<noteq> None"
    and "\<not> (mt_original_existed t \<and> original_at env t (en_nodes s) (c_path env t))"
  shows "\<exists>e c. recover_rollback_active env finish manifest s = (s\<lparr>en_clock := c\<rparr>, Err e)"
proof -
  let ?m = "classify_all_targets env manifest (pr_state (en_progress s)) RollbackMode"
  obtain c r where m: "?m s = (s\<lparr>en_clock := c\<rparr>, r)"
    using looks_classify_all[of env manifest "pr_state (en_progress s)" RollbackMode]
    unfolding looks_def by (metis prod.collapse)
  have "r \<noteq> Ok u" for u
  proof
    assume "r = Ok u"
    then obtain t1 t2 where t1: "classify_target env manifest (pr_state (en_progress s)) RollbackMode (i, t) t1 = (t2, Ok ())"
      "en_nodes t1 = en_nodes s"
      using for_each_Ok[OF m[unfolded classify_all_targets_def \<open>r = Ok u\<close>] assms(2) looks_classify_target] by metis
    obtain s1 paths s2 observed d where paths: "target_paths env t t1 = (s1, Ok paths)"
      and seen: "observe_target env t paths (targets_of s ! i) RollingBack s1 = (s2, Ok observed)"
      and d: "classify_recovery RollingBack (mt_original_existed t) (targets_of s ! i) observed = Ok d"
      using t1(1) assms(1) unfolding classify_target_def prod.case Let_def act_Ok by auto
    obtain s3 a where a: "classify_location env (tp_target paths) t (targets_of s ! i) False RollingBack s1 = (s3, Ok a)"
      and b: "\<exists>s4. classify_location env (tp_candidate paths) t (targets_of s ! i) True RollingBack s3 = (s4, Ok (ob_candidate observed))"
      using seen unfolding observe_target_def act_bind_Ok by (auto simp: act_ret_def)
    have nodes: "en_nodes s3 = en_nodes s"
      using looks_result(1)[OF looks_derived(1) a] looks_result(1)[OF looks_simple(7) paths] t1(2) by simp
    have "tp_candidate paths = c_path env t" using target_paths_Ok[OF paths] by (simp add: paths_of_def)
    then have "ob_candidate observed = Unexpected"
      using b classify_location_unexpected[where state = "targets_of s ! i" and target = t] nodes assms(3-5) by fastforce
    with d show False by (simp add: classify_recovery_def)
  qed
  then obtain e where "r = Err e" by (cases r) auto
  with m assms(1) have "recover_rollback_active env finish manifest s = (s\<lparr>en_clock := c\<rparr>, Err e)"
    by (simp add: recover_rollback_active_def act_bind_def act_get_def)
  then show ?thesis by blast
qed

section \<open>Witnesses\<close>

text \<open>A transaction that replaces an empty file; every digest is zero.\<close>

definition sample_target :: ManifestTarget where
  "sample_target = (hd (mf_targets sample_manifest))\<lparr>mt_original_existed := True,
     mt_original_identity := Some \<lparr>pi_device = 1, pi_inode = 7\<rparr>, mt_original_sha256 := Some sample_sha,
     mt_original_length := Some 0, mt_metadata_policy := PreserveExistingMode, mt_new_file_mode := None\<rparr>"

definition replacing_manifest :: Manifest where
  "replacing_manifest = sample_manifest\<lparr>mf_targets := [sample_target]\<rparr>"

lemma sample_target_fields:
  "mt_path sample_target = ''a''" "mt_candidate_name sample_target = ''candidate-00000000''"
  "mt_backup_name sample_target = ''backup-00000000''" "mt_original_existed sample_target"
  "mt_original_identity sample_target = Some \<lparr>pi_device = 1, pi_inode = 7\<rparr>"
  "mt_original_sha256 sample_target = Some sample_sha" "mt_original_length sample_target = Some 0"
  "mt_parent_identity sample_target = \<lparr>pi_device = 1, pi_inode = 2\<rparr>"
  "mt_candidate_sha256 sample_target = sample_sha" "mt_candidate_length sample_target = 0"
  by (simp_all add: sample_target_def sample_manifest_def)

lemma replacing_manifest_valid: "validate_manifest replacing_manifest default_limits = Ok ()"
proof -
  have "validate_target replacing_manifest default_limits (None, 0) (0, sample_target) = Ok (Some ''a'', 0)"
    by (simp add: validate_target_def replacing_manifest_def sample_target_def sample_manifest_def Let_def
      validate_normalized_path_def eq_ignore_ascii_case_def ascii_lower_def validate_generated_name_def
      generated_name_zero sample_sha_valid sat_u64_def validate_optional_original_def add_artifact_bytes_def
      checked_add_u64_def metadata_valid_def default_limits_def)
  moreover have "validate_transaction_id (mf_transaction_id replacing_manifest) = Ok ()"
    by (simp add: validate_transaction_id_def replacing_manifest_def sample_manifest_def sample_id_def
      is_lower_hex_def list_all_iff)
  moreover have "mf_transaction_version replacing_manifest = 1" "mf_plan_sha256 replacing_manifest = sample_sha"
    "sat_u64 (length (mf_targets replacing_manifest)) = 1" "mf_inputs replacing_manifest = []"
    "mf_targets replacing_manifest = [sample_target]"
    by (simp_all add: replacing_manifest_def sample_manifest_def sat_u64_def u64_max_def)
  moreover have "1 \<le> tl_targets default_limits"
    by (simp add: default_limits_def MAX_TRANSACTION_TARGETS_def)
  ultimately show ?thesis
    by (simp add: validate_manifest_def Let_def sample_sha_valid)
qed

definition sample_env :: Env where
  "sample_env = \<lparr>ev_hash = zero_digest,
     ev_codec = \<lparr>to_vec = (\<lambda>_. Some [1]), deserialize = (\<lambda>_. None), at_end = (\<lambda>_. False)\<rparr>,
     ev_workspace = \<lparr>wk_canonical_root = [''w''], wk_identity = \<lparr>fi_device = 1, fi_inode = 2\<rparr>\<rparr>,
     ev_active = [''w'', CONTROL_NAME, TRANSACTIONS_NAME, sample_id],
     ev_fault = (\<lambda>n. if n = 0 then Some OtherError else None), ev_rename_fault = (\<lambda>_. None),
     ev_walk_fault = (\<lambda>_ _. None), ev_written = (\<lambda>_. 0), ev_disturbed = (\<lambda>_. False),
     ev_identity = (\<lambda>n. \<lparr>fi_device = 1, fi_inode = 100 + n\<rparr>), ev_revalidate = (\<lambda>_. Ok ()), ev_os = (\<lambda>_. sample_os)\<rparr>"

lemma sample_well_placed: "well_placed sample_env replacing_manifest"
  by (simp add: well_placed_def replacing_manifest_valid sample_env_def)

lemma sample_locations:
  "t_path sample_env sample_target = [''w'', ''a'']"
  "c_path sample_env sample_target = [''w'', CONTROL_NAME, TRANSACTIONS_NAME, sample_id, ''candidate-00000000'']"
  "b_path sample_env sample_target = [''w'', CONTROL_NAME, TRANSACTIONS_NAME, sample_id, ''backup-00000000'']"
  by (simp_all add: t_path_def c_path_def b_path_def sample_target_fields) (simp_all add: sample_env_def)

definition sample_node :: "nat \<Rightarrow> Node" where
  "sample_node inode = \<lparr>nd_type = RegularType, nd_identity = \<lparr>fi_device = 1, fi_inode = inode\<rparr>, nd_bytes = [],
     nd_mode = 420, nd_resolves = True\<rparr>"

definition sample_engine :: "nat \<Rightarrow> StateSnapshot \<Rightarrow> Engine" where
  "sample_engine inode state = \<lparr>en_nodes = [[''w''] \<mapsto> (sample_node 2)\<lparr>nd_type := DirectoryType\<rparr>, [''w'', ''a''] \<mapsto> sample_node inode],
     en_journal = \<lparr>tj_directory = Map.empty, tj_manifest_checksum = sample_sha, tj_original_existence = [True],
       tj_limits = default_limits, tj_projected_disk_bytes = 0, tj_state_record_bytes = 0,
       tj_last_state = Some state, tj_last_checksum = Some sample_sha\<rparr>,
     en_progress = \<lparr>pr_state = state, pr_checksum = sample_sha\<rparr>, en_clock = 0\<rparr>"

definition rolling_state :: StateSnapshot where
  "rolling_state = sample_state\<lparr>sn_sequence := 1, sn_prior_state_checksum := Some sample_sha,
     sn_global_state := RollingBack,
     sn_targets := [untouched_target_state 0\<lparr>ts_rollback :=
       \<lparr>rs_kind = OriginalRestored, rs_identity = Some \<lparr>pi_device = 1, pi_inode = 7\<rparr>\<rparr>\<rparr>]\<rparr>"

lemma zero_digest_hex: "to_prefixed_hex (zero_digest bs) = sample_sha"
  using checksum_zero by (simp add: checksum_text_def zero_digest_def)

lemma sample_restored: "restored_at sample_env sample_target (en_nodes (sample_engine 7 state))"
  by (simp add: restored_at_def original_at_def sample_locations sample_engine_def sample_node_def matches_original_def
      sample_target_fields node_fingerprint_def persisted_def)
    (simp add: sample_env_def zero_digest_hex)

lemma replacing_targets: "mf_targets replacing_manifest = [sample_target]"
  by (simp add: replacing_manifest_def)


theorem interrupted_rollback_is_refused_witness:
  "\<exists>e s'. recover_rollback_active sample_env (\<lambda>_. act_ret ()) sample_manifest
     (sample_engine 7 (sample_state\<lparr>sn_global_state := RollingBack\<rparr>)
       \<lparr>en_nodes := [c_path sample_env (hd (mf_targets sample_manifest)) \<mapsto> sample_node 9]\<rparr>) = (s', Err e)"
proof -
  have "(0, hd (mf_targets sample_manifest)) \<in> set (enumerate 0 (mf_targets sample_manifest))"
    by (simp add: sample_manifest_def)
  from interrupted_rollback_is_refused[OF _ this, of "sample_engine 7 (sample_state\<lparr>sn_global_state := RollingBack\<rparr>)
       \<lparr>en_nodes := [c_path sample_env (hd (mf_targets sample_manifest)) \<mapsto> sample_node 9]\<rparr>" sample_env "\<lambda>_. act_ret ()"]
  show ?thesis
    by (auto simp: sample_engine_def sample_state_def) (auto simp: sample_manifest_def)
qed

lemma sample_env_simps [simp]:
  "ev_hash sample_env = zero_digest" "ev_fault sample_env (Suc n) = None" "ev_rename_fault sample_env n = None"
  "ev_disturbed sample_env n = False" "ev_revalidate sample_env n = Ok ()" "ev_walk_fault sample_env n p = None"
  "wk_canonical_root (ev_workspace sample_env) = [''w'']"
  "wk_identity (ev_workspace sample_env) = \<lparr>fi_device = 1, fi_inode = 2\<rparr>"
  "ev_active sample_env = [''w'', CONTROL_NAME, TRANSACTIONS_NAME, sample_id]"
  "to_vec (ev_codec sample_env) state = Some [1]"
  by (simp_all add: sample_env_def)

lemma sample_publish:
  assumes "validate_next_state j state = Ok ()" "validate_state_shape state default_limits = Ok ()"
    and "tj_limits j = default_limits" "tj_directory j = Map.empty"
    and "tj_projected_disk_bytes j = 0" "tj_state_record_bytes j = 0"
  shows "\<exists>j' c. publish_state zero_digest (ev_codec sample_env) j state = (j', Ok c) \<and>
     (\<exists>bs n p. prepare_state_record zero_digest (ev_codec sample_env) j state = Ok (bs, n, p, c))"
proof -
  have "encode_record zero_digest (ev_codec sample_env) STATE_MAGIC state default_limits =
      Ok (envelope STATE_MAGIC [1] @ replicate 32 0)"
    by (subst encode_record_Ok_iff)
      (simp_all add: default_limits_def MAX_RECORD_BYTES_def zero_digest_def u64_max_def)
  then have "encode_state_record_with_limits zero_digest (ev_codec sample_env) state default_limits =
      Ok (envelope STATE_MAGIC [1] @ replicate 32 0)"
    by (simp add: encode_state_record_with_limits_def assms(2))
  moreover have "length (envelope STATE_MAGIC [1] @ replicate 32 0) \<le> 1000"
    by (simp add: envelope_def)
  ultimately obtain bs n p c where "prepare_state_record zero_digest (ev_codec sample_env) j state = Ok (bs, n, p, c)"
    using prepare_state_record_Ok_iff[OF zero_digest32, of "ev_codec sample_env" j state] assms
    by (fastforce simp: default_limits_def u64_max_def MAX_STATE_BYTES_def MAX_TRANSACTION_DISK_BYTES_def)
  then show ?thesis
    using assms(4) by (simp add: publish_state_def publish_record_def)
qed

definition sample_target_locations :: TargetPaths where
  "sample_target_locations = \<lparr>tp_target = [''w'', ''a''], tp_parent = [''w''],
     tp_candidate = c_path sample_env sample_target, tp_backup = b_path sample_env sample_target\<rparr>"

definition at_clock :: "nat \<Rightarrow> Engine \<Rightarrow> Engine" where
  "at_clock n s = s\<lparr>en_clock := Suc n\<rparr>"

lemma at_clock_simps [simp]:
  "en_nodes (at_clock n s) = en_nodes s" "en_progress (at_clock n s) = en_progress s" "en_clock (at_clock n s) = Suc n"
  "at_clock n (at_clock m s) = at_clock n s" "(at_clock n s)\<lparr>en_clock := Suc m\<rparr> = at_clock m s"
  by (simp_all add: at_clock_def)

lemma sample_bind: "act_bind m k s = (case m s of (s', Err e) \<Rightarrow> (s', Err e) | (s', Ok a) \<Rightarrow> k a s')"
  by (simp add: act_bind_def)

lemma sample_os_call: "os_call sample_env err (at_clock n s) = (at_clock (Suc n) s, Ok ())"
  by (simp add: os_call_def Let_def)

lemmas sample_actions = sample_bind sample_os_call act_get_def act_lift_def act_ret_def

lemma sample_target_paths:
  "target_paths sample_env sample_target (at_clock n (sample_engine k state)) =
     (at_clock (Suc n) (sample_engine k state), Ok sample_target_locations)"
  by (simp add: target_paths_def validate_path_def validated_kind_def Let_def sample_target_fields walk_view_def
      sample_engine_def sample_node_def node_metadata_def persisted_def ensure_same_device_def
      sample_target_locations_def c_path_def b_path_def)

lemma sample_nodes:
  "en_nodes (sample_engine k state) [''w'', ''a''] = Some (sample_node k)"
  "en_nodes (sample_engine k state) (c_path sample_env sample_target) = None"
  "en_nodes (sample_engine k state) (b_path sample_env sample_target) = None"
  "nd_type (sample_node k) = RegularType" "nd_bytes (sample_node k) = []"
  by (simp_all add: sample_engine_def sample_locations) (simp_all add: sample_node_def)

lemma sample_fingerprint:
  "fingerprint sample_env [''w'', ''a''] report (at_clock n (sample_engine k state)) =
     (at_clock (n + 6) (sample_engine k state), Ok (Some (node_fingerprint sample_env (sample_node k))))"
  "fingerprint sample_env (c_path sample_env sample_target) report (at_clock n (sample_engine k state)) =
     (at_clock (Suc n) (sample_engine k state), Ok None)"
  "fingerprint sample_env (b_path sample_env sample_target) report (at_clock n (sample_engine k state)) =
     (at_clock (Suc n) (sample_engine k state), Ok None)"
  by (simp_all add: fingerprint_def sample_actions sample_nodes numeral_eq_Suc)

lemma sample_exists:
  "path_exists sample_env (c_path sample_env sample_target) (at_clock n (sample_engine k state)) =
     (at_clock (Suc n) (sample_engine k state), Ok False)"
  "path_exists sample_env (b_path sample_env sample_target) (at_clock n (sample_engine k state)) =
     (at_clock (Suc n) (sample_engine k state), Ok False)"
  by (simp_all add: path_exists_def sample_nodes)

lemma sample_matches:
  "matches_original (node_fingerprint sample_env (sample_node k)) sample_target \<longleftrightarrow> k = 7"
  "matches_candidate (node_fingerprint sample_env (sample_node k)) sample_target state \<longleftrightarrow>
     cs_identity (ts_candidate state) = Some \<lparr>pi_device = 1, pi_inode = k\<rparr>"
  by (auto simp: matches_original_def matches_candidate_def node_fingerprint_def sample_node_def sample_target_fields
    persisted_def zero_digest_hex)

lemma sample_observe:
  "\<exists>m. observe_target sample_env sample_target sample_target_locations recorded g (at_clock n (sample_engine k state)) =
     (at_clock m (sample_engine k state), Ok \<lparr>ob_parent_matches = True,
       ob_target = (if k = 7 then Original
         else if cs_kind (ts_candidate recorded) = Ready \<and> cs_identity (ts_candidate recorded) = Some \<lparr>pi_device = 1, pi_inode = k\<rparr>
         then Candidate else Unexpected),
       ob_candidate = LocationObservation.Absent, ob_backup = LocationObservation.Absent\<rparr>)"
  by (simp add: observe_target_def classify_location_def classify_backup_def sample_actions sample_target_locations_def
      sample_fingerprint sample_matches sample_target_fields) blast

lemma sample_progress: "en_progress (sample_engine k state) = \<lparr>pr_state = state, pr_checksum = sample_sha\<rparr>"
  by (simp add: sample_engine_def)

lemma sample_classify:
  assumes "classify_recovery (sn_global_state state) True (sn_targets state ! 0)
      \<lparr>ob_parent_matches = True, ob_target = (if k = 7 then Original
         else if cs_kind (ts_candidate (sn_targets state ! 0)) = Ready \<and>
           cs_identity (ts_candidate (sn_targets state ! 0)) = Some \<lparr>pi_device = 1, pi_inode = k\<rparr>
         then Candidate else Unexpected), ob_candidate = LocationObservation.Absent,
         ob_backup = LocationObservation.Absent\<rparr> = Ok d"
    and "case mode of CompleteMode \<Rightarrow> rd_complete d \<or> rd_cleanup_only d | RollbackMode \<Rightarrow> rd_rollback d \<or> rd_cleanup_only d"
    and "sn_targets state \<noteq> []"
  shows "\<exists>m. classify_all_targets sample_env replacing_manifest state mode (at_clock n (sample_engine k state)) =
     (at_clock m (sample_engine k state), Ok ())"
proof -
  obtain m where m: "observe_target sample_env sample_target sample_target_locations (sn_targets state ! 0)
      (sn_global_state state) (at_clock (Suc n) (sample_engine k state)) =
    (at_clock m (sample_engine k state), Ok \<lparr>ob_parent_matches = True, ob_target = (if k = 7 then Original
         else if cs_kind (ts_candidate (sn_targets state ! 0)) = Ready \<and>
           cs_identity (ts_candidate (sn_targets state ! 0)) = Some \<lparr>pi_device = 1, pi_inode = k\<rparr>
         then Candidate else Unexpected), ob_candidate = LocationObservation.Absent,
         ob_backup = LocationObservation.Absent\<rparr>)"
    using sample_observe by blast
  have "length (sn_targets state) > 0" using assms(3) by simp
  then show ?thesis
    using assms(1,2) by (intro exI[of _ m])
     (simp add: classify_all_targets_def replacing_targets classify_target_def Let_def sample_actions
      sample_target_paths m sample_target_fields)
qed

lemma sample_publish_global:
  assumes "sn_prior_state_checksum state' = Some sample_sha" "sn_global_state state' = g"
    and "state' = state\<lparr>sn_sequence := Suc (sn_sequence state), sn_prior_state_checksum := Some sample_sha, sn_global_state := g\<rparr>"
    and "sn_sequence state < 10" "validate_state_shape state' default_limits = Ok ()"
    and "validate_next_state (en_journal (sample_engine k state)) state' = Ok ()"
  shows "\<exists>s'. publish_global_transition sample_env g (at_clock n (sample_engine k state)) = (s', Ok ())"
proof -
  let ?j = "en_journal (sample_engine k state)"
  obtain j' c bs m p where "publish_state zero_digest (ev_codec sample_env) ?j state' = (j', Ok c)"
    "prepare_state_record zero_digest (ev_codec sample_env) ?j state' = Ok (bs, m, p, c)"
    using sample_publish[OF assms(6,5)] by (auto simp: sample_engine_def)
  then show ?thesis
    using assms(3,4)
    by (simp add: publish_global_transition_def publish_transition_def Let_def sample_actions sample_progress
      checked_add_u64_def u64_max_def publish_journal_def at_clock_def)
qed

theorem rollback_restores_the_workspace_witness:
  "\<exists>s'. recover_rollback_active sample_env (\<lambda>_. act_ret ()) replacing_manifest
      (at_clock 0 (sample_engine 7 rolling_state)) = (s', Ok ()) \<and>
    en_nodes s' [''w'', ''a''] = Some (sample_node 7)"
proof -
  let ?snapshot = "\<lparr>ws_workspace_identity = \<lparr>fi_device = 1, fi_inode = 2\<rparr>, ws_files = [], ws_absent_paths = []\<rparr>"
  let ?start = "sample_engine 7 rolling_state" and ?run = "recover_rollback_active sample_env (\<lambda>_. act_ret ()) replacing_manifest"
  have state: "sn_global_state rolling_state = RollingBack" "sn_targets rolling_state \<noteq> []"
    "rs_kind (ts_rollback (sn_targets rolling_state ! 0)) = OriginalRestored"
    by (simp_all add: rolling_state_def)
  have cl: "\<exists>m. classify_all_targets sample_env replacing_manifest rolling_state RollbackMode (at_clock n ?start) =
      (at_clock m ?start, Ok ())" for n
    by (rule sample_classify[where d = rollback_only])
      (simp_all add: state classify_recovery_def classify_rolling_back_def classify_restored_original_def rollback_only_def)
  have publish: "\<exists>s'. publish_global_transition sample_env RolledBack (at_clock n ?start) = (s', Ok ())" for n
  proof (rule sample_publish_global[where state' = "rolling_state\<lparr>sn_sequence := 2, sn_global_state := RolledBack\<rparr>"])
    let ?next = "rolling_state\<lparr>sn_sequence := 2, sn_global_state := RolledBack\<rparr>"
    have limits: "tl_state_records default_limits > 10" "tl_targets default_limits > 10"
      by (simp_all add: default_limits_def MAX_STATE_RECORDS_def MAX_TRANSACTION_TARGETS_def)
    have shape: "validate_state_shape (rolling_state\<lparr>sn_sequence := n, sn_global_state := g\<rparr>) default_limits = Ok ()"
      if "g \<in> {RollingBack, RolledBack}" "n \<in> {1, 2}" for g n
      using limits that by (auto simp: validate_state_shape_def rolling_state_def sample_state_def Let_def sample_sha_valid
        sat_u64_def validate_state_target_def validate_target_fields_def validate_global_constraints_def
        untouched_target_state_def)
    have same: "rolling_state = rolling_state\<lparr>sn_sequence := 1, sn_global_state := RollingBack\<rparr>"
      by (simp add: rolling_state_def)
    show "validate_state_shape ?next default_limits = Ok ()" by (rule shape) simp_all
    moreover have "validate_state_shape rolling_state default_limits = Ok ()" by (subst same) (rule shape, simp_all)
    ultimately show "validate_next_state (en_journal (sample_engine 7 rolling_state)) ?next = Ok ()"
      by (simp add: validate_next_state_def sample_engine_def validate_state_against_originals_def
        validate_state_transition_with_limits_def)
       (simp add: rolling_state_def sample_state_def checked_add_u64_def u64_max_def original_existence_valid_def
        untouched_target_state_def global_transition_allowed_def validate_progress_pair_def validate_target_progress_def)
  qed (simp_all add: rolling_state_def sample_state_def)
  have all: "\<exists>m. rollback_all_targets sample_env replacing_manifest (at_clock n ?start) = (at_clock m ?start, Ok ())" for n
  proof -
    obtain m where m: "observe_target sample_env sample_target sample_target_locations (sn_targets rolling_state ! 0) RollingBack
        (at_clock (Suc n) ?start) = (at_clock m ?start, Ok \<lparr>ob_parent_matches = True, ob_target = Original,
          ob_candidate = LocationObservation.Absent, ob_backup = LocationObservation.Absent\<rparr>)"
      using sample_observe[of "sn_targets rolling_state ! 0" RollingBack "Suc n" 7 rolling_state] by auto
    obtain k where k: "rollback_target sample_env (0, sample_target) (at_clock n ?start) = (at_clock k ?start, Ok ())"
      using state m
      by (simp add: rollback_target_def sample_actions sample_target_paths recorded_target_def sample_progress
        sample_target_locations_def sample_exists restored_state_def verify_original_location_def sample_fingerprint
        sample_matches sample_target_fields ok_or_def)
    obtain l where "classify_all_targets sample_env replacing_manifest rolling_state RollbackMode (at_clock k ?start) =
        (at_clock l ?start, Ok ())" using cl by blast
    with k show ?thesis
      by (intro exI[of _ l]) (simp add: rollback_all_targets_def replacing_targets sample_actions sample_progress)
  qed
  obtain a b where "classify_all_targets sample_env replacing_manifest rolling_state RollbackMode (at_clock 0 ?start) =
      (at_clock a ?start, Ok ())" "rollback_all_targets sample_env replacing_manifest (at_clock (Suc a) ?start) = (at_clock b ?start, Ok ())"
    using cl all by blast
  moreover obtain s' where "publish_global_transition sample_env RolledBack (at_clock b ?start) = (s', Ok ())"
    using publish by blast
  ultimately have run: "?run (at_clock 0 ?start) = (s', Ok ())"
    using state by (simp add: recover_rollback_active_def sample_actions sample_progress revalidate_lock_def map_error_def)
  have crash: "execute_steps sample_env (sample_codec replacing_manifest) replacing_manifest ?snapshot ?start =
      (at_clock 0 ?start, Err (record_io ''create_record_temporary'' OtherError))"
    by (simp add: execute_steps_def create_journal_def sample_bind os_call_def)
      (simp add: sample_env_def sample_engine_def at_clock_def)
  from rollback_restores_the_workspace[OF sample_well_placed _ transaction_run.executed[OF crash] _ _ run]
  have "en_nodes s' = en_nodes ?start"
    using sample_restored state by (simp add: replacing_targets sample_progress)
  with run show ?thesis by (auto simp: sample_nodes)
qed

text \<open>The file is replaced: the candidate, inode 9, is at the path.\<close>

definition committing_state :: StateSnapshot where
  "committing_state = sample_state\<lparr>sn_sequence := 1, sn_prior_state_checksum := Some sample_sha,
     sn_global_state := Committing,
     sn_targets := [\<lparr>ts_target_index = 0,
       ts_candidate = \<lparr>cs_kind = Ready, cs_identity = Some \<lparr>pi_device = 1, pi_inode = 9\<rparr>\<rparr>,
       ts_commit = \<lparr>cm_kind = Installed, cm_identity = Some \<lparr>pi_device = 1, pi_inode = 9\<rparr>, cm_preserved_mode = None\<rparr>,
       ts_rollback = \<lparr>rs_kind = NotRolledBack, rs_identity = None\<rparr>\<rparr>]\<rparr>"

definition new_target :: ManifestTarget where
  "new_target = hd (mf_targets sample_manifest)"

lemma new_target_fields:
  "mt_path new_target = ''a''" "mt_candidate_name new_target = ''candidate-00000000''"
  "mt_backup_name new_target = ''backup-00000000''" "\<not> mt_original_existed new_target"
  "mt_parent_identity new_target = \<lparr>pi_device = 1, pi_inode = 2\<rparr>"
  "mt_candidate_sha256 new_target = sample_sha" "mt_candidate_length new_target = 0"
  "mf_targets sample_manifest = [new_target]"
  by (simp_all add: new_target_def sample_manifest_def)

lemma new_target_paths:
  "target_paths sample_env new_target (at_clock n (sample_engine k state)) =
     (at_clock (Suc n) (sample_engine k state), Ok sample_target_locations)"
  by (simp add: target_paths_def validate_path_def validated_kind_def Let_def new_target_fields walk_view_def
      sample_engine_def sample_node_def node_metadata_def persisted_def ensure_same_device_def
      sample_target_locations_def c_path_def b_path_def sample_target_fields)

lemma new_target_verified:
  "verify_candidate_location sample_env [''w'', ''a''] new_target (sn_targets committing_state ! 0)
     (at_clock n (sample_engine 9 committing_state)) =
   (at_clock (n + 6) (sample_engine 9 committing_state), Ok (node_fingerprint sample_env (sample_node 9)))"
proof -
  have "matches_candidate (node_fingerprint sample_env (sample_node 9)) new_target (sn_targets committing_state ! 0)"
    by (simp add: matches_candidate_def node_fingerprint_def sample_node_def new_target_fields persisted_def
      zero_digest_hex committing_state_def)
  then show ?thesis
    by (simp add: verify_candidate_location_def sample_actions sample_fingerprint ok_or_def)
qed

lemma new_target_observed:
  "\<exists>m. observe_target sample_env new_target sample_target_locations (sn_targets committing_state ! 0) Committing
     (at_clock n (sample_engine 9 committing_state)) =
   (at_clock m (sample_engine 9 committing_state), Ok \<lparr>ob_parent_matches = True, ob_target = Candidate,
     ob_candidate = LocationObservation.Absent, ob_backup = LocationObservation.Absent\<rparr>)"
proof -
  have "matches_candidate (node_fingerprint sample_env (sample_node 9)) new_target (sn_targets committing_state ! 0)"
    by (simp add: matches_candidate_def node_fingerprint_def sample_node_def new_target_fields persisted_def
      zero_digest_hex committing_state_def)
  moreover have "cs_kind (ts_candidate (sn_targets committing_state ! 0)) = Ready"
    by (simp add: committing_state_def)
  ultimately show ?thesis
    by (simp add: observe_target_def classify_location_def classify_backup_def sample_actions sample_target_locations_def
      sample_fingerprint new_target_fields) blast
qed

theorem commit_installs_every_candidate_witness:
  "\<exists>s'. complete_commit_steps sample_env sample_manifest (at_clock 0 (sample_engine 9 committing_state)) = (s', Ok ()) \<and>
    global_of s' = Committed \<and> candidate_at sample_env new_target (targets_of s' ! 0) (en_nodes s') [''w'', ''a'']"
proof -
  let ?s = "sample_engine 9 committing_state"
  have state: "sn_global_state committing_state = Committing" "length (sn_targets committing_state) = 1"
    "sn_targets committing_state \<noteq> []" "cm_kind (ts_commit (sn_targets committing_state ! 0)) = Installed"
    by (simp_all add: committing_state_def)
  have ok: "classify_recovery Committing False (sn_targets committing_state ! 0)
      \<lparr>ob_parent_matches = True, ob_target = Candidate, ob_candidate = LocationObservation.Absent,
        ob_backup = LocationObservation.Absent\<rparr> = Ok completion_and_rollback"
    using state(4) by (simp add: classify_recovery_def classify_committing_def committing_valid_def)
  have classified: "\<exists>m. classify_all_targets sample_env sample_manifest committing_state CompleteMode (at_clock n ?s) =
      (at_clock m ?s, Ok ())" for n
    using new_target_observed[of "Suc n"] ok state
    by (force simp: classify_all_targets_def new_target_fields(8) classify_target_def Let_def sample_actions
      new_target_paths new_target_fields(4) completion_and_rollback_def)
  have completed: "\<exists>m. for_each (complete_target sample_env) (enumerate 0 (mf_targets sample_manifest)) (at_clock n ?s) =
      (at_clock m ?s, Ok ())" for n
    using new_target_observed[of "Suc n"] state
    by (force simp: new_target_fields(8) complete_target_def sample_actions new_target_paths recorded_target_def
      sample_progress publish_installed_def new_target_verified sample_target_locations_def)
  have verified: "\<exists>m. for_each (verify_target sample_env) (enumerate 0 (mf_targets sample_manifest)) (at_clock n ?s) =
      (at_clock m ?s, Ok ())" for n
    using state
    by (force simp: new_target_fields(8) verify_target_def sample_actions new_target_paths recorded_target_def
      sample_progress new_target_verified sample_target_locations_def)
  have publish: "\<exists>s'. publish_global_transition sample_env Committed (at_clock n ?s) = (s', Ok ())" for n
  proof (rule sample_publish_global[where state' = "committing_state\<lparr>sn_sequence := 2, sn_global_state := Committed\<rparr>"])
    let ?next = "committing_state\<lparr>sn_sequence := 2, sn_global_state := Committed\<rparr>"
    have limits: "tl_state_records default_limits > 10" "tl_targets default_limits > 10"
      by (simp_all add: default_limits_def MAX_STATE_RECORDS_def MAX_TRANSACTION_TARGETS_def)
    show "validate_state_shape ?next default_limits = Ok ()"
      using limits by (simp add: validate_state_shape_def committing_state_def sample_state_def Let_def sample_sha_valid
        sat_u64_def validate_state_target_def validate_target_fields_def validate_global_constraints_def)
    moreover have "validate_state_shape committing_state default_limits = Ok ()"
      using limits by (simp add: validate_state_shape_def committing_state_def sample_state_def Let_def sample_sha_valid
        sat_u64_def validate_state_target_def validate_target_fields_def validate_global_constraints_def)
    ultimately show "validate_next_state (en_journal ?s) ?next = Ok ()"
      by (simp add: validate_next_state_def sample_engine_def validate_state_against_originals_def
        validate_state_transition_with_limits_def)
       (simp add: committing_state_def sample_state_def checked_add_u64_def u64_max_def original_existence_valid_def
        global_transition_allowed_def validate_progress_pair_def validate_target_progress_def rollback_phase_def)
  qed (simp_all add: committing_state_def sample_state_def)
  obtain a b c where "classify_all_targets sample_env sample_manifest committing_state CompleteMode (at_clock 0 ?s) =
      (at_clock a ?s, Ok ())"
    "for_each (complete_target sample_env) (enumerate 0 (mf_targets sample_manifest)) (at_clock (Suc a) ?s) = (at_clock b ?s, Ok ())"
    "for_each (verify_target sample_env) (enumerate 0 (mf_targets sample_manifest)) (at_clock b ?s) = (at_clock c ?s, Ok ())"
    using classified completed verified by meson
  moreover obtain s' where "publish_global_transition sample_env Committed (at_clock c ?s) = (s', Ok ())"
    using publish by blast
  ultimately have run: "complete_commit_steps sample_env sample_manifest (at_clock 0 ?s) = (s', Ok ())"
    by (simp add: complete_commit_steps_def sample_actions sample_progress revalidate_lock_def)
  have "t_path sample_env new_target = [''w'', ''a'']" by (simp add: t_path_def new_target_fields)
  with commit_installs_every_candidate[OF disjI1[OF run], of 0 new_target] run show ?thesis
    by (simp add: new_target_fields(8))
qed

end
