(* ===== verification/Utf8.thy ===== *)
theory Utf8
  imports Prelude
begin

text \<open>
  UTF-8 as the standard library of Rust defines it: the encoding of a \<open>char\<close>, the check of
  \<open>str::from_utf8\<close> as a decoder, \<open>char_indices\<close>, \<open>is_char_boundary\<close> and slices of a
  \<open>str\<close>. A \<open>str\<close> is the list of its bytes, a \<open>char\<close> the number of its scalar value.
\<close>

section \<open>Scalar values\<close>

definition is_scalar :: "nat \<Rightarrow> bool" where
  "is_scalar c \<longleftrightarrow> c < 0xD800 \<or> 0xE000 \<le> c \<and> c \<le> 0x10FFFF"

definition len_utf16 :: "nat \<Rightarrow> nat" where
  "len_utf16 c = (if c < 0x10000 then 1 else 2)"

definition encode_char :: "nat \<Rightarrow> bytes" where
  "encode_char c =
     (if c < 0x80 then [of_nat c]
      else if c < 0x800 then [of_nat (0xC0 + c div 64), of_nat (0x80 + c mod 64)]
      else if c < 0x10000
      then [of_nat (0xE0 + c div 4096), of_nat (0x80 + c div 64 mod 64), of_nat (0x80 + c mod 64)]
      else [of_nat (0xF0 + c div 262144), of_nat (0x80 + c div 4096 mod 64), of_nat (0x80 + c div 64 mod 64),
        of_nat (0x80 + c mod 64)])"

definition utf8 :: "nat list \<Rightarrow> bytes" where
  "utf8 cs = concat (map encode_char cs)"

text \<open>A byte that continues a scalar value; the others start one.\<close>

definition continues :: "u8 \<Rightarrow> bool" where
  "continues b \<longleftrightarrow> 0x80 \<le> unat b \<and> unat b \<le> 0xBF"

section \<open>Decoding\<close>

definition char2 :: "u8 \<Rightarrow> u8 \<Rightarrow> nat" where
  "char2 a b = (unat a - 0xC0) * 64 + (unat b - 0x80)"

definition char3 :: "u8 \<Rightarrow> u8 \<Rightarrow> u8 \<Rightarrow> nat" where
  "char3 a b c = (unat a - 0xE0) * 4096 + (unat b - 0x80) * 64 + (unat c - 0x80)"

definition char4 :: "u8 \<Rightarrow> u8 \<Rightarrow> u8 \<Rightarrow> u8 \<Rightarrow> nat" where
  "char4 a b c d = (unat a - 0xF0) * 262144 + (unat b - 0x80) * 4096 + (unat c - 0x80) * 64 + (unat d - 0x80)"

text \<open>One scalar value, in its shortest form, and the bytes after it.\<close>

definition next_char :: "bytes \<Rightarrow> (nat \<times> bytes) option" where
  "next_char bs =
     (case bs of
        [] \<Rightarrow> None
      | a # rest \<Rightarrow>
          if unat a < 0x80 then Some (unat a, rest)
          else if unat a < 0xC0 then None
          else if unat a < 0xE0 then
            (case rest of
               b # rest \<Rightarrow> if continues b \<and> 0x80 \<le> char2 a b then Some (char2 a b, rest) else None
             | _ \<Rightarrow> None)
          else if unat a < 0xF0 then
            (case rest of
               b # c # rest \<Rightarrow>
                 if continues b \<and> continues c \<and> 0x800 \<le> char3 a b c \<and> is_scalar (char3 a b c)
                 then Some (char3 a b c, rest) else None
             | _ \<Rightarrow> None)
          else if unat a < 0xF8 then
            (case rest of
               b # c # d # rest \<Rightarrow>
                 if continues b \<and> continues c \<and> continues d \<and> 0x10000 \<le> char4 a b c d \<and> is_scalar (char4 a b c d)
                 then Some (char4 a b c d, rest) else None
             | _ \<Rightarrow> None)
          else None)"

lemma next_char_shorter: "next_char bs = Some (c, rest) \<Longrightarrow> length rest < length bs"
  by (auto simp: next_char_def split: list.split_asm if_split_asm)

function utf8_decode :: "bytes \<Rightarrow> nat list option" where
  "utf8_decode bs =
     (if bs = [] then Some []
      else case next_char bs of None \<Rightarrow> None | Some (c, rest) \<Rightarrow> map_option (Cons c) (utf8_decode rest))"
  by pat_completeness auto
termination
  by (relation "measure length") (auto dest: next_char_shorter)

declare utf8_decode.simps [simp del]

definition valid_utf8 :: "bytes \<Rightarrow> bool" where
  "valid_utf8 bs \<longleftrightarrow> utf8_decode bs \<noteq> None"

fun char_offsets :: "nat \<Rightarrow> nat list \<Rightarrow> (nat \<times> nat) list" where
  "char_offsets k [] = []"
| "char_offsets k (c # cs) = (k, c) # char_offsets (k + length (encode_char c)) cs"

definition chars :: "bytes \<Rightarrow> nat list" where
  "chars s = (case utf8_decode s of None \<Rightarrow> [] | Some cs \<Rightarrow> cs)"

definition char_indices :: "bytes \<Rightarrow> (nat \<times> nat) list" where
  "char_indices s = char_offsets 0 (chars s)"

definition is_char_boundary :: "bytes \<Rightarrow> nat \<Rightarrow> bool" where
  "is_char_boundary s i \<longleftrightarrow> i = 0 \<or> i = length s \<or> (i < length s \<and> \<not> continues (s ! i))"

text \<open>\<open>str::get\<close> of a range.\<close>

definition str_get :: "bytes \<Rightarrow> nat \<Rightarrow> nat \<Rightarrow> bytes option" where
  "str_get s i j =
     (if i \<le> j \<and> j \<le> length s \<and> is_char_boundary s i \<and> is_char_boundary s j then Some (slice s i j) else None)"

section \<open>The two directions\<close>

lemma unat_small [simp]: "n < 256 \<Longrightarrow> unat (of_nat n :: u8) = n"
  by (simp add: unat_of_nat_u8)

lemma is_scalar_less: "is_scalar c \<Longrightarrow> c < 0x110000"
  by (auto simp: is_scalar_def)

lemma encode_char_cases:
  assumes "is_scalar c"
  obtains (one) "c < 0x80" "encode_char c = [of_nat c]"
  | (two) a b where "c = a * 64 + b" "2 \<le> a" "a < 32" "b < 64" "encode_char c = [of_nat (0xC0 + a), of_nat (0x80 + b)]"
  | (three) a b d where "c = a * 4096 + b * 64 + d" "a < 16" "b < 64" "d < 64" "0x800 \<le> c"
      "encode_char c = [of_nat (0xE0 + a), of_nat (0x80 + b), of_nat (0x80 + d)]"
  | (four) a b d e where "c = a * 262144 + b * 4096 + d * 64 + e" "a < 5" "b < 64" "d < 64" "e < 64" "0x10000 \<le> c"
      "encode_char c = [of_nat (0xF0 + a), of_nat (0x80 + b), of_nat (0x80 + d), of_nat (0x80 + e)]"
proof -
  consider "c < 0x80" | "0x80 \<le> c" "c < 0x800" | "0x800 \<le> c" "c < 0x10000" | "0x10000 \<le> c"
    by linarith
  then show thesis
  proof cases
    case 1
    then show thesis by (intro one) (simp_all add: encode_char_def)
  next
    case 2
    then show thesis
      by (intro two[of "c div 64" "c mod 64"]) (auto simp: encode_char_def)
  next
    case 3
    have "c div 64 = c div 4096 * 64 + c div 64 mod 64"
      using div_mult2_eq[of c 64 64] by simp
    moreover have "c = c div 64 * 64 + c mod 64" by simp
    ultimately have "c = c div 4096 * 4096 + c div 64 mod 64 * 64 + c mod 64" by linarith
    with 3 show thesis
      by (intro three[of "c div 4096" "c div 64 mod 64" "c mod 64"]) (auto simp: encode_char_def)
  next
    case 4
    have "c div 64 = c div 4096 * 64 + c div 64 mod 64" "c div 4096 = c div 262144 * 64 + c div 4096 mod 64"
      using div_mult2_eq[of c 64 64] div_mult2_eq[of c 4096 64] by simp_all
    moreover have "c = c div 64 * 64 + c mod 64" by simp
    ultimately have "c = c div 262144 * 262144 + c div 4096 mod 64 * 4096 + c div 64 mod 64 * 64 + c mod 64" by linarith
    with 4 is_scalar_less[OF assms] show thesis
      by (intro four[of "c div 262144" "c div 4096 mod 64" "c div 64 mod 64" "c mod 64"]) (auto simp: encode_char_def)
  qed
qed

lemma next_char_encode:
  assumes "is_scalar c"
  shows "next_char (encode_char c @ rest) = Some (c, rest)"
  using assms
proof (cases rule: encode_char_cases)
  case one
  then show ?thesis by (simp add: next_char_def)
next
  case (two a b)
  then show ?thesis by (simp add: next_char_def char2_def continues_def del: of_nat_add)
next
  case (three a b d)
  then show ?thesis using assms by (simp add: next_char_def char3_def continues_def del: of_nat_add)
next
  case (four a b d e)
  then show ?thesis using assms by (simp add: next_char_def char4_def continues_def del: of_nat_add)
qed

lemma encode_char_nonempty [simp]: "encode_char c \<noteq> []"
  by (simp add: encode_char_def)

lemma utf8_simps [simp]: "utf8 [] = []" "utf8 (c # cs) = encode_char c @ utf8 cs" "utf8 (cs @ ds) = utf8 cs @ utf8 ds"
  by (simp_all add: utf8_def)

lemma utf8_decode_utf8:
  assumes "list_all is_scalar cs"
  shows "utf8_decode (utf8 cs) = Some cs"
  using assms
proof (induction cs)
  case (Cons c cs)
  then show ?case by (subst utf8_decode.simps) (simp add: next_char_encode)
qed (simp add: utf8_decode.simps)

lemma next_char_Some:
  assumes "next_char bs = Some (c, rest)"
  shows "is_scalar c \<and> bs = encode_char c @ rest"
proof -
  have roundtrip: "of_nat (unat x) = x" for x :: u8 by simp
  obtain a bs' where bs: "bs = a # bs'" using assms by (cases bs) (auto simp: next_char_def)
  consider "unat a < 0x80" | "0xC0 \<le> unat a" "unat a < 0xE0" | "0xE0 \<le> unat a" "unat a < 0xF0" | "0xF0 \<le> unat a" "unat a < 0xF8"
    using assms by (force simp: next_char_def bs split: if_split_asm)
  then show ?thesis
  proof cases
    case 1
    then show ?thesis using assms by (auto simp: next_char_def bs encode_char_def is_scalar_def)
  next
    case 2
    then obtain b where b: "bs' = b # rest" "continues b" "c = char2 a b" "0x80 \<le> c"
      using assms by (auto simp: next_char_def bs split: list.split_asm if_split_asm)
    define x y where "x = unat a - 0xC0" "y = unat b - 0x80"
    have xy: "x < 32" "y < 64" "c = x * 64 + y" "a = of_nat (0xC0 + x)" "b = of_nat (0x80 + y)"
      using b 2 roundtrip[of a] roundtrip[of b] by (auto simp: x_y_def char2_def continues_def)
    then have "c div 64 = x" "c mod 64 = y" "c < 0x800" by auto
    then show ?thesis
      using b xy by (simp add: bs encode_char_def is_scalar_def)
  next
    case 3
    then obtain b d where b: "bs' = b # d # rest" "continues b" "continues d" "c = char3 a b d" "0x800 \<le> c" "is_scalar c"
      using assms by (auto simp: next_char_def bs split: list.split_asm if_split_asm)
    define x y z where "x = unat a - 0xE0" "y = unat b - 0x80" "z = unat d - 0x80"
    have xyz: "x < 16" "y < 64" "z < 64" "c = x * 4096 + y * 64 + z" "a = of_nat (0xE0 + x)" "b = of_nat (0x80 + y)"
      "d = of_nat (0x80 + z)"
      using b 3 roundtrip[of a] roundtrip[of b] roundtrip[of d] by (auto simp: x_y_z_def char3_def continues_def)
    have "c = z + (x * 64 + y) * 64" using xyz(4) by simp
    then have "c mod 64 = z" using xyz(3) by (simp only: mod_mult_self1 mod_less)
    moreover have "c div 64 = x * 64 + y" "c div 4096 = x" "c < 0x10000" using xyz by simp_all
    ultimately have "c div 64 mod 64 = y" "c div 4096 = x" "c mod 64 = z" "c < 0x10000" using xyz by simp_all
    then show ?thesis
      using b xyz by (simp add: bs encode_char_def)
  next
    case 4
    then obtain b d e where b: "bs' = b # d # e # rest" "continues b" "continues d" "continues e" "c = char4 a b d e"
      "0x10000 \<le> c" "is_scalar c"
      using assms by (auto simp: next_char_def bs split: list.split_asm if_split_asm)
    define x y z u where "x = unat a - 0xF0" "y = unat b - 0x80" "z = unat d - 0x80" "u = unat e - 0x80"
    have xyz: "x < 8" "y < 64" "z < 64" "u < 64" "c = x * 262144 + y * 4096 + z * 64 + u" "a = of_nat (0xF0 + x)"
      "b = of_nat (0x80 + y)" "d = of_nat (0x80 + z)" "e = of_nat (0x80 + u)"
      using b 4 roundtrip[of a] roundtrip[of b] roundtrip[of d] roundtrip[of e]
      by (auto simp: x_y_z_u_def char4_def continues_def)
    have "c = u + (x * 4096 + y * 64 + z) * 64" using xyz(5) by simp
    then have "c mod 64 = u" using xyz(4) by (simp only: mod_mult_self1 mod_less)
    moreover have "x * 4096 + y * 64 + z = z + (x * 64 + y) * 64" by simp
    then have "(x * 4096 + y * 64 + z) mod 64 = z" using xyz(3) by (simp only: mod_mult_self1 mod_less)
    moreover have "x * 64 + y = y + x * 64" by simp
    then have "(x * 64 + y) mod 64 = y" using xyz(2) by (simp only: mod_mult_self1 mod_less)
    moreover have "c div 64 = x * 4096 + y * 64 + z" "c div 4096 = x * 64 + y" "c div 262144 = x" using xyz by simp_all
    ultimately have "c div 64 mod 64 = z" "c div 4096 mod 64 = y" "c div 262144 = x" "c mod 64 = u" by simp_all
    then show ?thesis
      using b xyz by (simp add: bs encode_char_def)
  qed
qed

lemma utf8_decode_Some:
  assumes "utf8_decode bs = Some cs"
  shows "bs = utf8 cs \<and> list_all is_scalar cs"
  using assms
proof (induction bs arbitrary: cs rule: utf8_decode.induct)
  case (1 bs)
  show ?case
  proof (cases "bs = []")
    case True
    then show ?thesis using "1.prems" by (simp add: utf8_decode.simps)
  next
    case False
    then obtain c rest ds where n: "next_char bs = Some (c, rest)" "utf8_decode rest = Some ds" "cs = c # ds"
      using "1.prems" by (subst (asm) utf8_decode.simps) (auto split: option.split_asm prod.split_asm)
    then show ?thesis using "1.IH"[OF False n(1) refl n(2)] next_char_Some[OF n(1)] by simp
  qed
qed

lemma valid_utf8_iff: "valid_utf8 s \<longleftrightarrow> (\<exists>cs. s = utf8 cs \<and> list_all is_scalar cs)"
  unfolding valid_utf8_def using utf8_decode_utf8 utf8_decode_Some by fastforce

lemma chars_utf8: "list_all is_scalar cs \<Longrightarrow> chars (utf8 cs) = cs"
  by (simp add: chars_def utf8_decode_utf8)

section \<open>Boundaries\<close>

lemma encode_char_continues:
  assumes "is_scalar c" "i < length (encode_char c)"
  shows "continues (encode_char c ! i) \<longleftrightarrow> 0 < i"
  using assms(1)
  by (cases rule: encode_char_cases) (use assms(2) in \<open>auto simp: continues_def nth_Cons' less_Suc_eq simp del: of_nat_add split: if_split_asm\<close>)

lemma boundary_prefix:
  assumes "list_all is_scalar (pre @ post)"
  shows "is_char_boundary (utf8 (pre @ post)) (length (utf8 pre))"
proof (cases post)
  case (Cons c cs)
  have "is_scalar c" using assms Cons by simp
  then have "\<not> continues (encode_char c ! 0)" using encode_char_continues by simp
  then show ?thesis using Cons by (simp add: is_char_boundary_def nth_append)
qed (simp add: is_char_boundary_def)

lemma prefix_of_boundary:
  assumes "list_all is_scalar cs" "is_char_boundary (utf8 cs) i" "i \<le> length (utf8 cs)"
  obtains pre post where "cs = pre @ post" "i = length (utf8 pre)"
proof -
  have "\<exists>pre post. cs = pre @ post \<and> i = length (utf8 pre)"
    using assms
  proof (induction cs arbitrary: i)
    case (Cons c cs)
    show ?case
    proof (cases "i < length (encode_char c)")
      case True
      then have "i = 0"
        using Cons.prems encode_char_continues[of c i] by (auto simp: is_char_boundary_def nth_append)
      then show ?thesis by (intro exI[of _ "[]"] exI[of _ "c # cs"]) simp
    next
      case False
      let ?j = "i - length (encode_char c)"
      have "is_char_boundary (utf8 cs) ?j"
        using Cons.prems False by (auto simp: is_char_boundary_def nth_append)
      moreover have "?j \<le> length (utf8 cs)" using Cons.prems(3) by simp
      ultimately have "\<exists>pre post. cs = pre @ post \<and> ?j = length (utf8 pre)"
        using Cons.IH[of ?j] Cons.prems(1) by simp
      then obtain pre post where "cs = pre @ post" "?j = length (utf8 pre)" by blast
      then show ?thesis using False by (intro exI[of _ "c # pre"] exI[of _ post]) auto
    qed
  qed simp
  then show thesis using that by blast
qed

lemma boundary_iff:
  assumes "list_all is_scalar cs"
  shows "i \<le> length (utf8 cs) \<and> is_char_boundary (utf8 cs) i \<longleftrightarrow> (\<exists>pre post. cs = pre @ post \<and> i = length (utf8 pre))"
proof
  show "i \<le> length (utf8 cs) \<and> is_char_boundary (utf8 cs) i" if "\<exists>pre post. cs = pre @ post \<and> i = length (utf8 pre)"
    using that boundary_prefix assms by auto
qed (use assms prefix_of_boundary in metis)

lemma str_get_utf8:
  assumes "list_all is_scalar cs"
  shows "str_get (utf8 cs) i j = Some s \<longleftrightarrow>
    (\<exists>pre mid post. cs = pre @ mid @ post \<and> i = length (utf8 pre) \<and> j = length (utf8 (pre @ mid)) \<and> s = utf8 mid)"
proof
  assume g: "str_get (utf8 cs) i j = Some s"
  then have ij: "i \<le> j" "j \<le> length (utf8 cs)" "is_char_boundary (utf8 cs) i" "is_char_boundary (utf8 cs) j"
    "s = slice (utf8 cs) i j"
    by (auto simp: str_get_def split: if_split_asm)
  obtain pre rest where pre: "cs = pre @ rest" "i = length (utf8 pre)"
    by (rule prefix_of_boundary[OF assms ij(3)]) (use ij in auto)
  have "is_char_boundary (utf8 rest) (j - i)"
    using ij(1,2,4) pre by (auto simp: is_char_boundary_def nth_append)
  then obtain mid post where "rest = mid @ post" "j - i = length (utf8 mid)"
    by (rule prefix_of_boundary[of rest, rotated]) (use assms ij pre in auto)
  then show "\<exists>pre mid post. cs = pre @ mid @ post \<and> i = length (utf8 pre) \<and> j = length (utf8 (pre @ mid)) \<and> s = utf8 mid"
    using pre ij(1,5) by (intro exI[of _ pre] exI[of _ mid] exI[of _ post]) (auto simp: slice_def)
next
  assume "\<exists>pre mid post. cs = pre @ mid @ post \<and> i = length (utf8 pre) \<and> j = length (utf8 (pre @ mid)) \<and> s = utf8 mid"
  then obtain pre mid post where p: "cs = pre @ mid @ post" "i = length (utf8 pre)" "j = length (utf8 (pre @ mid))" "s = utf8 mid"
    by blast
  have "is_char_boundary (utf8 cs) i" "is_char_boundary (utf8 cs) j"
    using boundary_prefix[of pre "mid @ post"] boundary_prefix[of "pre @ mid" post] assms p by simp_all
  then show "str_get (utf8 cs) i j = Some s"
    using p by (simp add: str_get_def slice_def)
qed

end
