(* ===== verification/Position.thy ===== *)
theory Position
  imports Line_Metrics Utf8
begin

text \<open>
  Conversion between LSP coordinates and bytes (\<open>crates/srcmv-lsp/src/position.rs\<close>). A
  conversion is a state-passing function on the converter, whose only changing part is the number
  of scalar values examined so far. Line indexes are those of \<open>Line_Metrics\<close>, and a \<open>str\<close> is the
  list of its bytes as in \<open>Utf8\<close>.
\<close>

section \<open>Model\<close>

definition u32_max :: nat where "u32_max = 4294967295"

datatype SupportedPositionEncoding = Utf8 | Utf16 | Utf32

datatype PositionError =
    InvalidSnapshotIndex
  | NonexistentLine
  | CharacterSplitsCodeUnit
  | InvalidRange
  | InvalidUserPosition
  | ByteNotRepresentable
  | WorkLimitExceeded

text \<open>The types of \<open>gen_lsp_types\<close>.\<close>

record Position =
  po_line :: nat
  po_character :: nat

record LspRange =
  ra_start :: Position
  ra_end :: Position

record PositionLimits =
  maximum_code_points_scanned :: nat

definition default_position_limits :: PositionLimits where
  "default_position_limits = \<lparr>maximum_code_points_scanned = 16 * 1024 * 1024\<rparr>"

record PositionConverter =
  pc_text :: bytes
  pc_line_index :: LineIndex
  pc_encoding :: SupportedPositionEncoding
  pc_limits :: PositionLimits
  pc_code_points_scanned :: nat

record LineBounds =
  lb_line :: nat
  lb_start :: nat
  lb_content_end :: nat

type_synonym 'a conversion = "PositionConverter \<Rightarrow> PositionConverter \<times> (PositionError + 'a)"

definition cv_ret :: "'a \<Rightarrow> 'a conversion" where
  "cv_ret a c = (c, Ok a)"

definition cv_lift :: "PositionError + 'a \<Rightarrow> 'a conversion" where
  "cv_lift r c = (c, r)"

definition cv_bind :: "'a conversion \<Rightarrow> ('a \<Rightarrow> 'b conversion) \<Rightarrow> 'b conversion" where
  "cv_bind m k c = (case m c of (c, Err e) \<Rightarrow> (c, Err e) | (c, Ok a) \<Rightarrow> k a c)"

text \<open>A line of \<open>metrics_for_range\<close> fails exactly when the index is not one of the snapshot.\<close>

definition new_converter ::
    "bytes \<Rightarrow> LineIndex \<Rightarrow> SupportedPositionEncoding \<Rightarrow> PositionLimits \<Rightarrow> PositionError + PositionConverter" where
  "new_converter text line_index encoding limits =
     (if u64_max < length text then Err InvalidSnapshotIndex
      else
        and_then (map_err (\<lambda>_. InvalidSnapshotIndex)
          (metrics_for_range line_index text \<lparr>range_start = 0, range_end = length text\<rparr>)) (\<lambda>_.
        Ok \<lparr>pc_text = text, pc_line_index = line_index, pc_encoding = encoding, pc_limits = limits,
          pc_code_points_scanned = 0\<rparr>))"

definition charge_code_point :: "unit conversion" where
  "charge_code_point c =
     (case checked_add_u64 (pc_code_points_scanned c) 1 of
        None \<Rightarrow> (c, Err WorkLimitExceeded)
      | Some following \<Rightarrow>
          if maximum_code_points_scanned (pc_limits c) < following then (c, Err WorkLimitExceeded)
          else (c\<lparr>pc_code_points_scanned := following\<rparr>, Ok ()))"

definition content_end :: "PositionConverter \<Rightarrow> nat \<Rightarrow> nat \<Rightarrow> PositionError + nat" where
  "content_end c start physical_end =
     and_then (ok_or (get_slice (pc_text c) start physical_end) InvalidSnapshotIndex) (\<lambda>bytes.
     let terminator_length =
       (if 2 \<le> length bytes \<and> drop (length bytes - 2) bytes = [CR, LF] then 2
        else if bytes \<noteq> [] \<and> (last bytes = CR \<or> last bytes = LF) then 1 else 0) in
     ok_or (checked_sub_u64 physical_end terminator_length) InvalidSnapshotIndex)"

definition line_bounds_of :: "PositionConverter \<Rightarrow> nat \<Rightarrow> PositionError + LineBounds" where
  "line_bounds_of c zero_based_line =
     and_then (ok_or (checked_add_u64 zero_based_line 1) NonexistentLine) (\<lambda>line.
     and_then (ok_or (line_start (pc_line_index c) line) NonexistentLine) (\<lambda>start.
     and_then (ok_or (line_end (pc_line_index c) line) InvalidSnapshotIndex) (\<lambda>physical_end.
     and_then (content_end c start physical_end) (\<lambda>content_end.
     Ok \<lparr>lb_line = zero_based_line, lb_start = start, lb_content_end = content_end\<rparr>))))"

definition line_content :: "PositionConverter \<Rightarrow> LineBounds \<Rightarrow> PositionError + bytes" where
  "line_content c bounds =
     ok_or (str_get (pc_text c) (lb_start bounds) (lb_content_end bounds)) InvalidSnapshotIndex"

definition validate_user_byte :: "PositionConverter \<Rightarrow> nat \<Rightarrow> PositionError + nat" where
  "validate_user_byte c byte_offset =
     (if length (pc_text c) < byte_offset \<or> \<not> is_char_boundary (pc_text c) byte_offset
      then Err InvalidUserPosition else Ok byte_offset)"

text \<open>The binary searches over the line ends; \<open>before\<close> is the comparison that moves right.\<close>

function search_line :: "LineIndex \<Rightarrow> (nat \<Rightarrow> bool) \<Rightarrow> nat \<Rightarrow> nat \<Rightarrow> PositionError + nat" where
  "search_line idx before low high =
     (if low < high then
        let middle = low + (high - low) div 2 in
        and_then (ok_or (line_end idx middle) InvalidSnapshotIndex) (\<lambda>e.
        if before e then search_line idx before (middle + 1) high else search_line idx before low middle)
      else Ok low)"
  by pat_completeness auto
termination
  by (relation "measure (\<lambda>(idx, before, low, high). high - low)") auto

declare search_line.simps [simp del]

definition line_for_byte :: "PositionConverter \<Rightarrow> nat \<Rightarrow> PositionError + LineBounds" where
  "line_for_byte c byte_offset =
     and_then (map_err (\<lambda>_. ByteNotRepresentable) (validate_user_byte c byte_offset)) (\<lambda>_.
     let line_count = index_line_count (pc_line_index c) in
     if line_count = 0 then Err ByteNotRepresentable
     else
       and_then (search_line (pc_line_index c) (\<lambda>e. e < byte_offset) 1 line_count) (\<lambda>low.
       and_then (ok_or (line_end (pc_line_index c) low) InvalidSnapshotIndex) (\<lambda>candidate_end.
       let selected_line = (if candidate_end = byte_offset \<and> low < line_count then low + 1 else low) in
       and_then (ensure (selected_line - 1 \<le> u32_max) ByteNotRepresentable) (\<lambda>_.
       and_then (line_bounds_of c (selected_line - 1)) (\<lambda>bounds.
       if byte_offset < lb_start bounds \<or> lb_content_end bounds < byte_offset then Err ByteNotRepresentable
       else Ok bounds)))))"

definition utf8_units_to_byte :: "bytes \<Rightarrow> nat \<Rightarrow> PositionError + nat" where
  "utf8_units_to_byte content character =
     (if length content \<le> character then Ok (length content)
      else if \<not> is_char_boundary content character then Err CharacterSplitsCodeUnit
      else Ok character)"

fun units_to_byte :: "(nat \<Rightarrow> nat) \<Rightarrow> nat \<Rightarrow> nat \<Rightarrow> nat \<Rightarrow> (nat \<times> nat) list \<Rightarrow> nat conversion" where
  "units_to_byte width target content_length units [] = cv_ret content_length"
| "units_to_byte width target content_length units ((byte, scalar) # rest) =
     (if units = target then cv_ret byte
      else
        cv_bind charge_code_point (\<lambda>_.
        cv_bind (cv_lift (ok_or (checked_add_u64 units (width scalar)) InvalidSnapshotIndex)) (\<lambda>following.
        if target < following then cv_lift (Err CharacterSplitsCodeUnit)
        else units_to_byte width target content_length following rest)))"

definition encoded_units_to_byte :: "bytes \<Rightarrow> nat \<Rightarrow> (nat \<Rightarrow> nat) \<Rightarrow> nat conversion" where
  "encoded_units_to_byte content character width =
     units_to_byte width character (length content) 0 (char_indices content)"

fun byte_to_units :: "(nat \<Rightarrow> nat) \<Rightarrow> nat \<Rightarrow> nat \<Rightarrow> (nat \<times> nat) list \<Rightarrow> nat conversion" where
  "byte_to_units width byte_offset units [] = cv_ret units"
| "byte_to_units width byte_offset units ((byte, scalar) # rest) =
     (if byte = byte_offset then cv_ret units
      else
        cv_bind charge_code_point (\<lambda>_.
        cv_bind (cv_lift (ok_or (checked_add_u64 units (width scalar)) InvalidSnapshotIndex)) (\<lambda>following.
        byte_to_units width byte_offset following rest)))"

definition byte_to_encoded_units :: "bytes \<Rightarrow> nat \<Rightarrow> (nat \<Rightarrow> nat) \<Rightarrow> nat conversion" where
  "byte_to_encoded_units content byte_offset width =
     cv_bind (byte_to_units width byte_offset 0 (char_indices content)) (\<lambda>units.
     cv_lift (if units \<le> u32_max then Ok units else Err ByteNotRepresentable))"

fun scalars_to_byte :: "nat \<Rightarrow> nat \<Rightarrow> nat \<Rightarrow> (nat \<times> nat) list \<Rightarrow> nat conversion" where
  "scalars_to_byte target content_length scalars [] =
     cv_lift (if scalars = target then Ok content_length else Err InvalidUserPosition)"
| "scalars_to_byte target content_length scalars ((byte, scalar) # rest) =
     (if scalars = target then cv_ret byte
      else
        cv_bind charge_code_point (\<lambda>_.
        cv_bind (cv_lift (ok_or (checked_add_u64 scalars 1) InvalidSnapshotIndex)) (\<lambda>following.
        scalars_to_byte target content_length following rest)))"

definition scalar_units_to_byte_exact :: "bytes \<Rightarrow> nat \<Rightarrow> nat conversion" where
  "scalar_units_to_byte_exact content target =
     scalars_to_byte target (length content) 0 (char_indices content)"

fun count_scalars :: "nat \<Rightarrow> nat list \<Rightarrow> nat conversion" where
  "count_scalars scalars [] = cv_ret scalars"
| "count_scalars scalars (_ # rest) =
     cv_bind charge_code_point (\<lambda>_.
     cv_bind (cv_lift (ok_or (checked_add_u64 scalars 1) WorkLimitExceeded)) (\<lambda>following.
     count_scalars following rest))"

definition scalar_column_before :: "LineBounds \<Rightarrow> nat \<Rightarrow> nat conversion" where
  "scalar_column_before bounds byte_offset c =
     cv_bind (cv_lift (ok_or (checked_sub_u64 byte_offset (lb_start bounds)) InvalidSnapshotIndex)) (\<lambda>relative.
     cv_bind (cv_lift (ok_or (checked_add_u64 (lb_start bounds) relative) InvalidSnapshotIndex)) (\<lambda>stop.
     cv_bind (cv_lift (ok_or (str_get (pc_text c) (lb_start bounds) stop) InvalidSnapshotIndex)) (\<lambda>prefix.
     cv_bind (count_scalars 0 (chars prefix)) (\<lambda>scalars.
     cv_lift (ok_or (checked_add_u64 scalars 1) WorkLimitExceeded))))) c"

definition lsp_position_to_byte :: "Position \<Rightarrow> nat conversion" where
  "lsp_position_to_byte position c =
     cv_bind (cv_lift (line_bounds_of c (po_line position))) (\<lambda>bounds.
     cv_bind (cv_lift (line_content c bounds)) (\<lambda>content.
     cv_bind
       (case pc_encoding c of
          Utf8 \<Rightarrow> cv_lift (utf8_units_to_byte content (po_character position))
        | Utf16 \<Rightarrow> encoded_units_to_byte content (po_character position) len_utf16
        | Utf32 \<Rightarrow> encoded_units_to_byte content (po_character position) (\<lambda>_. 1)) (\<lambda>relative.
     cv_lift (ok_or (checked_add_u64 (lb_start bounds) relative) InvalidSnapshotIndex)))) c"

definition lsp_range_to_byte_range :: "LspRange \<Rightarrow> ByteRange conversion" where
  "lsp_range_to_byte_range r c =
     cv_bind (lsp_position_to_byte (ra_start r)) (\<lambda>s.
     cv_bind (lsp_position_to_byte (ra_end r)) (\<lambda>e.
     cv_lift (if e \<le> s \<or> length (pc_text c) < e then Err InvalidRange
       else Ok \<lparr>range_start = s, range_end = e\<rparr>))) c"

definition byte_to_lsp_position :: "nat \<Rightarrow> Position conversion" where
  "byte_to_lsp_position byte_offset c =
     cv_bind (cv_lift (line_for_byte c byte_offset)) (\<lambda>bounds.
     cv_bind (cv_lift (line_content c bounds)) (\<lambda>content.
     cv_bind (cv_lift (ok_or (checked_sub_u64 byte_offset (lb_start bounds)) InvalidSnapshotIndex)) (\<lambda>relative.
     if length content < relative \<or> \<not> is_char_boundary content relative then cv_lift (Err ByteNotRepresentable)
     else
       cv_bind
         (case pc_encoding c of
            Utf8 \<Rightarrow> cv_lift (if relative \<le> u32_max then Ok relative else Err ByteNotRepresentable)
          | Utf16 \<Rightarrow> byte_to_encoded_units content relative len_utf16
          | Utf32 \<Rightarrow> byte_to_encoded_units content relative (\<lambda>_. 1)) (\<lambda>character.
       cv_ret \<lparr>po_line = lb_line bounds, po_character = character\<rparr>)))) c"

definition user_byte_to_lsp_position :: "nat \<Rightarrow> Position conversion" where
  "user_byte_to_lsp_position byte_offset c =
     cv_bind (cv_lift (validate_user_byte c byte_offset)) (\<lambda>_. byte_to_lsp_position byte_offset) c"

definition user_line_scalar_to_byte :: "nat \<Rightarrow> nat \<Rightarrow> nat conversion" where
  "user_line_scalar_to_byte line scalar_column c =
     (if line = 0 \<or> scalar_column = 0 then (c, Err InvalidUserPosition)
      else
        cv_bind (cv_lift (ensure (line - 1 \<le> u32_max) InvalidUserPosition)) (\<lambda>_.
        cv_bind (cv_lift (map_err (\<lambda>_. InvalidUserPosition) (line_bounds_of c (line - 1)))) (\<lambda>bounds.
        cv_bind (cv_lift (line_content c bounds)) (\<lambda>content.
        cv_bind (scalar_units_to_byte_exact content (scalar_column - 1)) (\<lambda>relative.
        cv_lift (ok_or (checked_add_u64 (lb_start bounds) relative) InvalidSnapshotIndex))))) c)"

definition user_line_scalar_to_lsp_position :: "nat \<Rightarrow> nat \<Rightarrow> Position conversion" where
  "user_line_scalar_to_lsp_position line scalar_column =
     cv_bind (user_line_scalar_to_byte line scalar_column) byte_to_lsp_position"

definition byte_to_user_line_scalar :: "nat \<Rightarrow> (nat \<times> nat option) conversion" where
  "byte_to_user_line_scalar byte_offset c =
     cv_bind (cv_lift (map_err (\<lambda>_. ByteNotRepresentable) (validate_user_byte c byte_offset))) (\<lambda>_.
     let idx = pc_line_index c; line_count = index_line_count idx in
     if line_count = 0 then cv_lift (Err ByteNotRepresentable)
     else
       cv_bind (cv_lift (search_line idx (\<lambda>e. e \<le> byte_offset) 1 line_count)) (\<lambda>low.
       cv_bind (cv_lift (ok_or (line_end idx low) InvalidSnapshotIndex)) (\<lambda>candidate_end.
       let selected_line = (if candidate_end \<le> byte_offset then line_count else low) in
       cv_bind (cv_lift (ensure (selected_line - 1 \<le> u32_max) ByteNotRepresentable)) (\<lambda>_.
       cv_bind (cv_lift (line_bounds_of c (selected_line - 1))) (\<lambda>bounds.
       cv_bind (cv_lift (ok_or (line_end idx selected_line) InvalidSnapshotIndex)) (\<lambda>physical_end.
       if byte_offset < lb_start bounds \<or> physical_end < byte_offset then cv_lift (Err ByteNotRepresentable)
       else if lb_content_end bounds < byte_offset then cv_ret (selected_line, None)
       else cv_bind (scalar_column_before bounds byte_offset) (\<lambda>column. cv_ret (selected_line, Some column)))))))) c"

section \<open>Conversions as programs\<close>

lemma cv_simps [simp]:
  "cv_ret a c = (c, Ok a)" "cv_lift r c = (c, r)"
  "cv_bind m k c = (case m c of (c, Err e) \<Rightarrow> (c, Err e) | (c, Ok a) \<Rightarrow> k a c)"
  by (simp_all add: cv_ret_def cv_lift_def cv_bind_def)

text \<open>The converter after \<open>n\<close> scalar values, and a budget that allows it.\<close>

definition examined :: "nat \<Rightarrow> PositionConverter \<Rightarrow> PositionConverter" where
  "examined n c = c\<lparr>pc_code_points_scanned := pc_code_points_scanned c + n\<rparr>"

definition affordable :: "nat \<Rightarrow> PositionConverter \<Rightarrow> bool" where
  "affordable n c \<longleftrightarrow> pc_code_points_scanned c + n \<le> maximum_code_points_scanned (pc_limits c) \<and>
     maximum_code_points_scanned (pc_limits c) \<le> u64_max"

lemma examined_simps [simp]:
  "pc_text (examined n c) = pc_text c" "pc_line_index (examined n c) = pc_line_index c"
  "pc_encoding (examined n c) = pc_encoding c" "pc_limits (examined n c) = pc_limits c"
  "pc_code_points_scanned (examined n c) = pc_code_points_scanned c + n"
  "examined 0 c = c" "examined m (examined n c) = examined (n + m) c"
  by (simp_all add: examined_def)

lemma affordable_mono: "affordable n c \<Longrightarrow> m \<le> n \<Longrightarrow> affordable m c"
  by (auto simp: affordable_def)

lemma affordable_examined: "affordable (m + n) c \<Longrightarrow> affordable n (examined m c)"
  by (auto simp: affordable_def)

lemma charge_step:
  "affordable (Suc n) c \<Longrightarrow>
     charge_code_point c = (examined (Suc 0) c, Ok ()) \<and> affordable n (examined (Suc 0) c)"
  by (auto simp: charge_code_point_def affordable_def examined_def checked_add_u64_def)

section \<open>The scanning loops\<close>

definition width_of :: "(nat \<Rightarrow> nat) \<Rightarrow> nat list \<Rightarrow> nat" where
  "width_of w cs = sum_list (map w cs)"

lemma width_of_simps [simp]:
  "width_of w [] = 0" "width_of w (c # cs) = w c + width_of w cs" "width_of w (xs @ ys) = width_of w xs + width_of w ys"
  by (simp_all add: width_of_def)

lemma width_of_bound: "(\<And>c. w c \<le> length (encode_char c)) \<Longrightarrow> width_of w cs \<le> length (utf8 cs)"
  by (induction cs) (auto intro: add_mono)

lemma len_utf16_bounds: "0 < len_utf16 c" "len_utf16 c \<le> length (encode_char c)"
  by (simp_all add: len_utf16_def encode_char_def)

lemma one_bounds: "(1::nat) \<le> length (encode_char c)"
  by (simp add: encode_char_def)

lemma length_chars_le: "length cs \<le> length (utf8 cs)"
proof (induction cs)
  case (Cons c cs)
  then show ?case using one_bounds[of c] by simp
qed simp

text \<open>Looking for \<open>t\<close> units over the scalar values \<open>cs\<close>.\<close>

lemma units_to_byte_prefix:
  assumes "affordable (length pre) c" "u + width_of w pre = t" "t \<le> u64_max" "\<And>c. 0 < w c"
    and "len = k + length (utf8 (pre @ post))"
  shows "units_to_byte w t len u (char_offsets k (pre @ post)) c =
    (examined (length pre) c, Ok (k + length (utf8 pre)))"
  using assms
proof (induction pre arbitrary: c u k)
  case Nil
  then show ?case by (cases post) auto
next
  case (Cons a pre)
  have "u \<noteq> t" "u + w a \<le> t" using Cons.prems(2) Cons.prems(4)[of a] by simp_all
  then show ?case
    using charge_step[of "length pre" c] Cons.prems(1) Cons.IH[of "examined (Suc 0) c" "u + w a" "k + length (encode_char a)"] Cons.prems(2-5)
    by (auto simp: checked_add_u64_def add.assoc)
qed

lemma units_to_byte_beyond:
  assumes "affordable (length cs) c" "u + width_of w cs < t" "t \<le> u64_max" "\<And>c. 0 < w c"
  shows "units_to_byte w t len u (char_offsets k cs) c = (examined (length cs) c, Ok len)"
  using assms
proof (induction cs arbitrary: c u k)
  case (Cons a cs)
  show ?case
    using charge_step[of "length cs" c] Cons.prems(1) Cons.IH[of "examined (Suc 0) c" "u + w a" "k + length (encode_char a)"] Cons.prems(2-4)
    by (auto simp: checked_add_u64_def add.assoc)
qed simp

lemma units_to_byte_splits:
  assumes "affordable (length cs) c" "t < u + width_of w cs" "u \<le> t" "u + width_of w cs \<le> u64_max"
    and "\<And>pre post. cs = pre @ post \<Longrightarrow> u + width_of w pre \<noteq> t"
  shows "\<exists>n \<le> length cs. units_to_byte w t len u (char_offsets k cs) c = (examined n c, Err CharacterSplitsCodeUnit)"
  using assms
proof (induction cs arbitrary: c u k)
  case (Cons a cs)
  have "u \<noteq> t" using Cons.prems(5)[of "[]"] by simp
  have ch: "charge_code_point c = (examined (Suc 0) c, Ok ())" and af: "affordable (length cs) (examined (Suc 0) c)"
    using charge_step[of "length cs" c] Cons.prems(1) by simp_all
  show ?case
  proof (cases "t < u + w a")
    case True
    then show ?thesis using Cons.prems(4) ch \<open>u \<noteq> t\<close> by (intro exI[of _ "Suc 0"]) (auto simp: checked_add_u64_def)
  next
    case False
    have "(u + w a) + width_of w pre \<noteq> t" if "cs = pre @ post" for pre post
      using Cons.prems(5)[of "a # pre" post] that by (simp add: add.assoc)
    then have "\<exists>n \<le> length cs.
      units_to_byte w t len (u + w a) (char_offsets (k + length (encode_char a)) cs) (examined (Suc 0) c) =
         (examined n (examined (Suc 0) c), Err CharacterSplitsCodeUnit)"
      using Cons.prems(2,4) False by (intro Cons.IH[OF af]) (auto simp: add.assoc)
    then obtain n where "n \<le> length cs"
      "units_to_byte w t len (u + w a) (char_offsets (k + length (encode_char a)) cs) (examined (Suc 0) c) =
         (examined n (examined (Suc 0) c), Err CharacterSplitsCodeUnit)"
      by blast
    then show ?thesis
      using Cons.prems(4) ch \<open>u \<noteq> t\<close> False by (intro exI[of _ "Suc n"]) (auto simp: checked_add_u64_def)
  qed
qed simp

lemma byte_to_units_prefix:
  assumes "affordable (length pre) c" "u + width_of w pre \<le> u64_max"
  shows "byte_to_units w (k + length (utf8 pre)) u (char_offsets k (pre @ post)) c =
    (examined (length pre) c, Ok (u + width_of w pre))"
  using assms
proof (induction pre arbitrary: c u k)
  case Nil
  then show ?case by (cases post) auto
next
  case (Cons a pre)
  show ?case
    using charge_step[of "length pre" c] Cons.prems(1) Cons.IH[of "examined (Suc 0) c" "u + w a" "k + length (encode_char a)"] Cons.prems(2)
    by (auto simp: checked_add_u64_def add.assoc)
qed

lemma scalars_to_byte_units:
  assumes "affordable (length pre) c" "u + length pre = t" "t \<le> u64_max" "len = k + length (utf8 (pre @ post))"
  shows "scalars_to_byte t len u (char_offsets k (pre @ post)) c = (examined (length pre) c, Ok (k + length (utf8 pre)))"
  using assms
proof (induction pre arbitrary: c u k)
  case Nil
  then show ?case by (cases post) auto
next
  case (Cons a pre)
  show ?case
    using charge_step[of "length pre" c] Cons.prems(1) Cons.IH[of "examined (Suc 0) c" "Suc u" "k + length (encode_char a)"] Cons.prems(2-4)
    by (auto simp: checked_add_u64_def add.assoc)
qed

lemma scalars_to_byte_beyond:
  assumes "affordable (length cs) c" "u + length cs < t" "t \<le> u64_max"
  shows "scalars_to_byte t len u (char_offsets k cs) c = (examined (length cs) c, Err InvalidUserPosition)"
  using assms
proof (induction cs arbitrary: c u k)
  case (Cons a cs)
  show ?case
    using charge_step[of "length cs" c] Cons.prems(1) Cons.IH[of "examined (Suc 0) c" "Suc u" "k + length (encode_char a)"] Cons.prems(2,3)
    by (auto simp: checked_add_u64_def)
qed simp

lemma count_scalars_length:
  assumes "affordable (length cs) c" "u + length cs \<le> u64_max"
  shows "count_scalars u cs c = (examined (length cs) c, Ok (u + length cs))"
  using assms
proof (induction cs arbitrary: c u)
  case (Cons a cs)
  show ?case
    using charge_step[of "length cs" c] Cons.prems(1) Cons.IH[of "examined (Suc 0) c" "Suc u"] Cons.prems(2) by (auto simp: checked_add_u64_def)
qed simp

section \<open>Lines as texts\<close>

definition strip_terminator :: "bytes \<Rightarrow> bytes" where
  "strip_terminator l =
     (if 2 \<le> length l \<and> drop (length l - 2) l = [CR, LF] then take (length l - 2) l
      else if l \<noteq> [] \<and> is_terminator_byte (last l) then butlast l else l)"

definition line_offset :: "bytes \<Rightarrow> nat \<Rightarrow> nat" where
  "line_offset text i = length (concat (take i (split_lines text)))"

definition line_scalars :: "bytes \<Rightarrow> nat \<Rightarrow> nat list" where
  "line_scalars text i = chars (strip_terminator (split_lines text ! i))"

definition converts :: "nat list \<Rightarrow> PositionConverter \<Rightarrow> bool" where
  "converts cs c \<longleftrightarrow> pc_text c = utf8 cs \<and> list_all is_scalar cs \<and>
     boundaries (pc_line_index c) = prefix_ends 0 (split_lines (utf8 cs)) \<and> length (utf8 cs) \<le> u32_max \<and>
     affordable (length (utf8 cs)) c"

lemma lines_terminated:
  "Suc i < length (split_lines bs) \<Longrightarrow> is_terminator_byte (last (split_lines bs ! i))"
proof (induction bs arbitrary: i rule: split_lines.induct)
  case (3 b c bs)
  show ?case
  proof (cases "b = CR \<and> c = LF")
    case True
    then show ?thesis using 3(1)[OF True] "3.prems" by (cases i) (auto simp: is_terminator_byte_def)
  next
    case False
    show ?thesis
    proof (cases "is_terminator_byte b")
      case True
      then show ?thesis using 3(2)[OF False True] "3.prems" False by (cases i) auto
    next
      case nt: False
      obtain l ls where l: "split_lines (c # bs) = l # ls" by (cases "split_lines (c # bs)") auto
      then have "l \<noteq> []" using split_lines_all_nonempty[of "c # bs"] by auto
      then show ?thesis using 3(3)[OF False nt, of i] "3.prems" False nt l by (cases i) auto
    qed
  qed
qed auto

lemma line_offset_Suc: "i < length (split_lines text) \<Longrightarrow> line_offset text (Suc i) = line_offset text i + length (split_lines text ! i)"
  by (simp add: line_offset_def take_Suc_conv_app_nth)

lemma line_offset_mono: "i \<le> j \<Longrightarrow> line_offset text i \<le> line_offset text j"
proof -
  assume "i \<le> j"
  then have "take j (split_lines text) = take i (split_lines text) @ take (j - i) (drop i (split_lines text))"
    by (metis le_add_diff_inverse take_add)
  then show ?thesis by (simp add: line_offset_def)
qed

lemma line_offset_le: "line_offset text i \<le> length text"
  using length_concat_take[of i "split_lines text"] by (simp add: line_offset_def)

lemma line_offset_all: "length (split_lines text) \<le> i \<Longrightarrow> line_offset text i = length text"
  by (simp add: line_offset_def)

lemma line_at_offset:
  assumes "i < length (split_lines text)"
  shows "slice text (line_offset text i) (line_offset text (Suc i)) = split_lines text ! i"
proof -
  have "slice (split_lines text) i (Suc i) = [split_lines text ! i]"
    using assms by (simp add: slice_def take_Suc_conv_app_nth Cons_nth_drop_Suc[symmetric])
  then show ?thesis
    using slice_concat_lines[of i "Suc i" "split_lines text"] assms by (simp add: line_offset_def)
qed

lemma nth_in_line:
  assumes "i < length (split_lines text)" "k < length (split_lines text ! i)"
  shows "text ! (line_offset text i + k) = split_lines text ! i ! k" "line_offset text i + k < length text"
proof -
  show "text ! (line_offset text i + k) = split_lines text ! i ! k"
    unfolding line_at_offset[OF assms(1), symmetric]
    using assms(2) line_offset_Suc[OF assms(1)] line_offset_le[of "text" "Suc i"] by (simp add: slice_def)
  show "line_offset text i + k < length text"
    using assms line_offset_Suc[OF assms(1)] line_offset_le[of "text" "Suc i"] by simp
qed

lemma strip_terminator_cases:
  assumes "l \<noteq> []"
  shows "\<exists>t. l = strip_terminator l @ t \<and> (t = [] \<and> \<not> is_terminator_byte (last l) \<or> t \<noteq> [] \<and> is_terminator_byte (hd t) \<and> is_terminator_byte (last l))"
proof (cases "2 \<le> length l \<and> drop (length l - 2) l = [CR, LF]")
  case True
  then have "l = take (length l - 2) l @ [CR, LF]" by (metis append_take_drop_id)
  moreover have "last l = LF"
    using arg_cong[OF calculation, of last] by simp
  ultimately have "strip_terminator l = take (length l - 2) l" "last l = LF"
    using True by (simp_all add: strip_terminator_def)
  then show ?thesis
    using True \<open>l = take (length l - 2) l @ [CR, LF]\<close> by (intro exI[of _ "[CR, LF]"]) (auto simp: is_terminator_byte_def)
next
  case False
  then show ?thesis
    using assms append_butlast_last_id[of l]
    by (cases "is_terminator_byte (last l)")
      (auto simp: strip_terminator_def intro!: exI[of _ "[last l]"])
qed

lemma terminator_not_continues: "is_terminator_byte b \<Longrightarrow> \<not> continues b \<and> unat b < 0x80"
  by (auto simp: is_terminator_byte_def continues_def)

lemma boundary_after_ascii:
  assumes "list_all is_scalar cs" "i < length (utf8 cs)" "\<not> continues (utf8 cs ! i)" "unat (utf8 cs ! i) < 0x80"
  shows "is_char_boundary (utf8 cs) (Suc i)"
proof -
  have "is_char_boundary (utf8 cs) i" using assms by (simp add: is_char_boundary_def)
  then obtain pre post where p: "cs = pre @ post" "i = length (utf8 pre)"
    by (rule prefix_of_boundary[OF assms(1)]) (use assms in auto)
  then obtain a post' where a: "post = a # post'" using assms(2) by (cases post) auto
  have "is_scalar a" using assms(1) p a by simp
  moreover have "unat (encode_char a ! 0) < 0x80" using assms(4) p a by (simp add: nth_append)
  ultimately have "length (encode_char a) = 1"
    by (cases rule: encode_char_cases) (auto simp del: of_nat_add)
  then show ?thesis
    using boundary_prefix[of "pre @ [a]" post'] assms(1) p a by simp
qed

section \<open>The lines of a converter\<close>

lemma content_end_line:
  assumes "get_slice (pc_text c) s e = Some bs" "length bs = e - s" "s \<le> e"
  shows "content_end c s e = Ok (s + length (strip_terminator bs))"
proof (cases "2 \<le> length bs \<and> drop (length bs - 2) bs = [CR, LF]")
  case True
  then have "2 \<le> e" using assms(2) by linarith
  with True have "content_end c s e = Ok (e - 2)" using assms by (simp add: content_end_def checked_sub_u64_def)
  moreover have "e - 2 = s + (length bs - 2)" using True assms(2) by arith
  ultimately show ?thesis using True by (simp add: strip_terminator_def)
next
  case nt: False
  show ?thesis
  proof (cases "bs \<noteq> [] \<and> is_terminator_byte (last bs)")
    case True
    then have "bs \<noteq> []" "last bs = CR \<or> last bs = LF" "0 < length bs" by (auto simp: is_terminator_byte_def)
    then have "content_end c s e = Ok (e - 1)"
      using assms nt by (auto simp: content_end_def checked_sub_u64_def Let_def)
    moreover have "strip_terminator bs = butlast bs" using nt True by (simp only: strip_terminator_def if_False if_True simp_thms)
    ultimately show ?thesis using assms(2,3) \<open>0 < length bs\<close> by simp
  next
    case False
    then have "\<not> (bs \<noteq> [] \<and> (last bs = CR \<or> last bs = LF))" by (simp add: is_terminator_byte_def)
    then have "content_end c s e = Ok e"
      using assms nt by (auto simp: content_end_def checked_sub_u64_def Let_def)
    moreover have "strip_terminator bs = bs" using nt False by (simp only: strip_terminator_def if_False simp_thms)
    ultimately show ?thesis using assms(2,3) by simp
  qed
qed

lemma line_at:
  assumes "converts cs c" "i < length (split_lines (pc_text c))"
  defines "l \<equiv> strip_terminator (split_lines (pc_text c) ! i)" and "off \<equiv> line_offset (pc_text c) i"
  shows "line_bounds_of c i = Ok \<lparr>lb_line = i, lb_start = off, lb_content_end = off + length l\<rparr>"
    and "is_char_boundary (pc_text c) off" and "is_char_boundary (pc_text c) (off + length l)"
    and "off + length l \<le> line_offset (pc_text c) (Suc i)"
    and "Suc i < length (split_lines (pc_text c)) \<Longrightarrow> off + length l < line_offset (pc_text c) (Suc i)"
    and "slice (pc_text c) off (off + length l) = l"
proof -
  let ?t = "pc_text c" and ?ls = "split_lines (pc_text c)"
  have c: "?t = utf8 cs" "list_all is_scalar cs" "length ?t \<le> u32_max"
    "boundaries (pc_line_index c) = prefix_ends 0 ?ls"
    using assms(1) by (auto simp: converts_def)
  have n: "length ?ls \<le> u64_max" "Suc i \<le> u64_max"
    using length_split_lines[of ?t] c(3) assms(2) by (auto simp: u32_max_def u64_max_def)
  have ne: "?ls ! i \<noteq> []" using split_lines_all_nonempty[of ?t] assms(2) by (metis nth_mem)
  obtain t where t: "?ls ! i = l @ t"
    "t = [] \<and> \<not> is_terminator_byte (last (?ls ! i)) \<or> t \<noteq> [] \<and> is_terminator_byte (hd t) \<and> is_terminator_byte (last (?ls ! i))"
    using strip_terminator_cases[OF ne] by (auto simp: l_def)
  have e: "line_offset ?t (Suc i) = off + length l + length t"
    using line_offset_Suc[OF assms(2)] t(1) by (simp add: off_def)
  then show le: "off + length l \<le> line_offset ?t (Suc i)" by simp
  show "off + length l < line_offset ?t (Suc i)" if "Suc i < length ?ls"
    using lines_terminated[OF that] t(2) e by auto
  have sl: "slice ?t off (line_offset ?t (Suc i)) = l @ t"
    using line_at_offset[OF assms(2)] t(1) by (simp add: off_def)
  show "slice ?t off (off + length l) = l"
  proof -
    have "slice ?t off (off + length l) = take (length l) (slice ?t off (line_offset ?t (Suc i)))"
      using e by (simp add: slice_def)
    then show ?thesis by (simp add: sl)
  qed
  have "content_end c off (line_offset ?t (Suc i)) = Ok (off + length l)"
  proof -
    have "get_slice ?t off (line_offset ?t (Suc i)) = Some (?ls ! i)"
      using sl t(1) line_offset_le[of ?t "Suc i"] e by simp
    moreover have "length (?ls ! i) = length l + length t" using t(1) by simp
    ultimately show ?thesis
      using content_end_line[of c off "line_offset ?t (Suc i)" "?ls ! i"] e by (simp add: l_def)
  qed
  moreover have "line_start (pc_line_index c) (i + 1) = Some off"
    using line_start_lines[OF c(4) n(1), of "i + 1"] assms(2) by (simp add: off_def line_offset_def)
  moreover have "line_end (pc_line_index c) (i + 1) = Some (line_offset ?t (Suc i))"
    using line_end_lines[OF c(4), of "i + 1"] assms(2) by (simp add: line_offset_def)
  ultimately show "line_bounds_of c i = Ok \<lparr>lb_line = i, lb_start = off, lb_content_end = off + length l\<rparr>"
    using n(2) by (simp add: line_bounds_of_def checked_add_u64_def)
  show "is_char_boundary ?t off"
  proof (cases i)
    case 0
    then show ?thesis by (simp add: off_def line_offset_def is_char_boundary_def)
  next
    case (Suc j)
    have j: "j < length ?ls" "Suc j < length ?ls" using Suc assms(2) by simp_all
    have jn: "?ls ! j \<noteq> []" using split_lines_all_nonempty[of ?t] j(1) by (metis nth_mem)
    define k where "k = line_offset ?t j + (length (?ls ! j) - 1)"
    have "?t ! k = last (?ls ! j)" "k < length ?t" "Suc k = off"
      using nth_in_line[OF j(1), of "length (?ls ! j) - 1"] jn line_offset_Suc[OF j(1)] Suc
      by (simp_all add: k_def last_conv_nth off_def)
    then show ?thesis
      using boundary_after_ascii[OF c(2), of k] lines_terminated[OF j(2)] terminator_not_continues c(1) by metis
  qed
  show "is_char_boundary ?t (off + length l)"
  proof (cases "t = []")
    case True
    then have "\<not> Suc i < length ?ls" using t(2) lines_terminated[of i ?t] by auto
    then have "line_offset ?t (Suc i) = length ?t" using assms(2) by (intro line_offset_all) simp
    then show ?thesis using e True by (simp add: is_char_boundary_def)
  next
    case False
    then have "?t ! (off + length l) = hd t"
      using nth_in_line(1)[OF assms(2), of "length l"] t(1) by (simp add: off_def nth_append hd_conv_nth)
    then show ?thesis
      using False t(2) terminator_not_continues[of "hd t"] e line_offset_le[of ?t "Suc i"]
      by (auto simp: is_char_boundary_def)
  qed
qed

lemma line_beyond:
  assumes "converts cs c" "length (split_lines (pc_text c)) \<le> i" "i \<le> u32_max"
  shows "line_bounds_of c i = Err NonexistentLine"
proof -
  have "length (split_lines (pc_text c)) \<le> u64_max"
    using assms(1) length_split_lines[of "pc_text c"] by (auto simp: converts_def u32_max_def u64_max_def)
  then have "line_start (pc_line_index c) (i + 1) = None"
    using line_queries_out_of_range(1)[of "pc_line_index c" "split_lines (pc_text c)" "i + 1"] assms(1,2) by (auto simp: converts_def)
  then show ?thesis
    using assms(3) by (simp add: line_bounds_of_def checked_add_u64_def u32_max_def u64_max_def)
qed

lemma line_content_at:
  assumes "converts cs c" "i < length (split_lines (pc_text c))"
  defines "l \<equiv> line_scalars (pc_text c) i" and "off \<equiv> line_offset (pc_text c) i"
  shows "line_bounds_of c i = Ok \<lparr>lb_line = i, lb_start = off, lb_content_end = off + length (utf8 l)\<rparr>"
    and "str_get (pc_text c) off (off + length (utf8 l)) = Some (utf8 l)"
    and "list_all is_scalar l"
    and "off + length (utf8 l) \<le> line_offset (pc_text c) (Suc i)"
    and "Suc i < length (split_lines (pc_text c)) \<Longrightarrow> off + length (utf8 l) < line_offset (pc_text c) (Suc i)"
    and "strip_terminator (split_lines (pc_text c) ! i) = utf8 l"
proof -
  let ?s = "strip_terminator (split_lines (pc_text c) ! i)"
  note f = line_at[OF assms(1,2), folded off_def]
  have u: "pc_text c = utf8 cs" "list_all is_scalar cs" using assms(1) by (simp_all add: converts_def)
  have g: "str_get (pc_text c) off (off + length ?s) = Some ?s"
    using f(2,3,4,6) line_offset_le[of "pc_text c" "Suc i"] by (simp add: str_get_def)
  then obtain mid where mid: "?s = utf8 mid" "list_all is_scalar mid"
    using str_get_utf8[OF u(2), of off "off + length ?s" ?s] u by auto
  then have l: "l = mid" by (simp add: l_def line_scalars_def chars_utf8)
  show "line_bounds_of c i = Ok \<lparr>lb_line = i, lb_start = off, lb_content_end = off + length (utf8 l)\<rparr>"
    "str_get (pc_text c) off (off + length (utf8 l)) = Some (utf8 l)" "list_all is_scalar l"
    "off + length (utf8 l) \<le> line_offset (pc_text c) (Suc i)" "?s = utf8 l"
    using f(1,4) g mid l by simp_all
  show "off + length (utf8 l) < line_offset (pc_text c) (Suc i)" if "Suc i < length (split_lines (pc_text c))"
    using f(5)[OF that] mid l by simp
qed

lemma search_line_least:
  assumes "\<And>j. low \<le> j \<Longrightarrow> j \<le> high \<Longrightarrow> line_end idx j = Some (E j)" "low \<le> high"
    and "\<And>j k. j \<le> k \<Longrightarrow> before (E k) \<Longrightarrow> before (E j)"
  shows "\<exists>r. search_line idx before low high = Ok r \<and> low \<le> r \<and> r \<le> high \<and>
    (\<forall>j. low \<le> j \<and> j < r \<longrightarrow> before (E j)) \<and> (r < high \<longrightarrow> \<not> before (E r))"
  using assms
proof (induction idx before low high rule: search_line.induct)
  case (1 idx before low high)
  show ?case
  proof (cases "low < high")
    case False
    then show ?thesis using "1.prems"(2) by (subst search_line.simps) auto
  next
    case lt: True
    define middle where "middle = low + (high - low) div 2"
    have m: "low \<le> middle" "middle < high" using lt by (auto simp: middle_def)
    then have e: "line_end idx middle = Some (E middle)" using "1.prems"(1) by simp
    show ?thesis
    proof (cases "before (E middle)")
      case True
      have "\<exists>r. search_line idx before (middle + 1) high = Ok r \<and> middle + 1 \<le> r \<and> r \<le> high \<and>
          (\<forall>j. middle + 1 \<le> j \<and> j < r \<longrightarrow> before (E j)) \<and> (r < high \<longrightarrow> \<not> before (E r))"
        using "1.IH"(1)[OF lt middle_def, of "E middle"] e True m "1.prems"(1,3) by auto
      then obtain r where r: "search_line idx before (middle + 1) high = Ok r" "middle + 1 \<le> r" "r \<le> high"
          "\<forall>j. middle + 1 \<le> j \<and> j < r \<longrightarrow> before (E j)" "r < high \<longrightarrow> \<not> before (E r)"
        by blast
      have "before (E j)" if "low \<le> j" "j < r" for j
      proof (cases "middle + 1 \<le> j")
        case False
        then show ?thesis using "1.prems"(3)[of j middle] True by simp
      qed (use that r(4) in blast)
      then show ?thesis
        using r m lt e True by (subst search_line.simps) (auto simp: middle_def[symmetric])
    next
      case False
      have "\<exists>r. search_line idx before low middle = Ok r \<and> low \<le> r \<and> r \<le> middle \<and>
          (\<forall>j. low \<le> j \<and> j < r \<longrightarrow> before (E j)) \<and> (r < middle \<longrightarrow> \<not> before (E r))"
        using "1.IH"(2)[OF lt middle_def, of "E middle"] e False m "1.prems"(1,3) by auto
      then obtain r where r: "search_line idx before low middle = Ok r" "low \<le> r" "r \<le> middle"
          "\<forall>j. low \<le> j \<and> j < r \<longrightarrow> before (E j)" "r < middle \<longrightarrow> \<not> before (E r)"
        by blast
      have "\<not> before (E r)" using r(3,5) False by (cases "r = middle") auto
      then show ?thesis
        using r m lt e False by (subst search_line.simps) (auto simp: middle_def[symmetric])
    qed
  qed
qed

section \<open>Finding the line of a byte\<close>

lemma converts_count:
  assumes "converts cs c"
  shows "index_line_count (pc_line_index c) = length (split_lines (pc_text c))"
    and "length (split_lines (pc_text c)) \<le> u32_max"
    and "\<And>j. 1 \<le> j \<Longrightarrow> j \<le> length (split_lines (pc_text c)) \<Longrightarrow>
      line_end (pc_line_index c) j = Some (line_offset (pc_text c) j)"
  using assms length_split_lines[of "pc_text c"] line_end_lines[of "pc_line_index c" "split_lines (pc_text c)"]
  by (auto simp: converts_def index_line_count_def u32_max_def u64_max_def line_offset_def)

lemma line_offset_0 [simp]: "line_offset text 0 = 0"
  by (simp add: line_offset_def)

lemma line_offset_less:
  assumes "i < j" "j \<le> length (split_lines text)"
  shows "line_offset text i < line_offset text j"
proof -
  have "split_lines text ! i \<noteq> []" using split_lines_all_nonempty[of "text"] assms by (metis nth_mem order_less_le_trans)
  then have "line_offset text i < line_offset text (Suc i)" using line_offset_Suc[of i "text"] assms by simp
  then show ?thesis using line_offset_mono[of "Suc i" j "text"] assms by simp
qed

text \<open>The least line that ends at or after an offset, for either comparison of the binary search.\<close>

lemma search_lines:
  assumes "converts cs c" "pc_text c \<noteq> []" "\<And>j k. j \<le> k \<Longrightarrow> before k \<Longrightarrow> before (j :: nat)"
  shows "\<exists>r. search_line (pc_line_index c) before 1 (index_line_count (pc_line_index c)) = Ok r \<and>
    1 \<le> r \<and> r \<le> length (split_lines (pc_text c)) \<and>
    (\<forall>j. 1 \<le> j \<and> j < r \<longrightarrow> before (line_offset (pc_text c) j)) \<and>
    (r < length (split_lines (pc_text c)) \<longrightarrow> \<not> before (line_offset (pc_text c) r))"
  unfolding converts_count(1)[OF assms(1)]
  by (rule search_line_least)
    (use assms converts_count(3)[OF assms(1)] in \<open>auto simp: Suc_le_eq intro: assms(3) line_offset_mono\<close>)

abbreviation bounds_at :: "PositionConverter \<Rightarrow> nat \<Rightarrow> LineBounds" where
  "bounds_at c i \<equiv> \<lparr>lb_line = i, lb_start = line_offset (pc_text c) i,
     lb_content_end = line_offset (pc_text c) i + length (utf8 (line_scalars (pc_text c) i))\<rparr>"

lemma line_for_byte_content:
  assumes c: "converts cs c" and i: "i < length (split_lines (pc_text c))"
    and b: "line_offset (pc_text c) i \<le> b" "b \<le> line_offset (pc_text c) i + length (utf8 (line_scalars (pc_text c) i))"
    and v: "is_char_boundary (pc_text c) b"
  shows "line_for_byte c b = Ok (bounds_at c i)"
proof -
  let ?t = "pc_text c" and ?n = "length (split_lines (pc_text c))"
  note l = line_content_at[OF c i]
  have ble: "b \<le> line_offset ?t (Suc i)" "b \<le> length ?t"
    using b(2) l(4) line_offset_le[of ?t "Suc i"] by simp_all
  have ne: "?t \<noteq> []" using i by auto
  obtain r where r: "search_line (pc_line_index c) (\<lambda>e. e < b) 1 (index_line_count (pc_line_index c)) = Ok r"
      "1 \<le> r" "r \<le> ?n" "\<forall>j. 1 \<le> j \<and> j < r \<longrightarrow> line_offset ?t j < b" "r < ?n \<longrightarrow> \<not> line_offset ?t r < b"
    using search_lines[OF c ne, of "\<lambda>e. e < b"] by auto
  have sel: "(if line_offset ?t r = b \<and> r < ?n then r + 1 else r) = Suc i"
  proof -
    have "r \<le> Suc i" using r(4) ble(1) i by (metis not_le less_le_not_le Suc_le_eq le_simps(3) One_nat_def zero_less_Suc)
    moreover have "i \<le> r" if "line_offset ?t r = b" "r < ?n"
      using line_offset_less[of r i ?t] that b(1) i by (cases "i \<le> r") auto
    moreover have "Suc i = r" if "line_offset ?t r \<noteq> b \<or> \<not> r < ?n"
    proof (rule ccontr)
      assume "Suc i \<noteq> r"
      then have "r \<le> i" "r < ?n" using \<open>r \<le> Suc i\<close> i by simp_all
      then have "line_offset ?t r \<le> b" using line_offset_mono[of r i ?t] b(1) by simp
      then show False using r(5) \<open>r < ?n\<close> that by auto
    qed
    moreover have "r = i" if "line_offset ?t r = b" "r < ?n"
    proof (rule ccontr)
      assume "r \<noteq> i"
      then have "r = Suc i" using \<open>r \<le> Suc i\<close> \<open>line_offset ?t r = b \<Longrightarrow> r < ?n \<Longrightarrow> i \<le> r\<close> that by simp
      then show False using l(5) that b(2) by simp
    qed
    ultimately show ?thesis by auto
  qed
  have "line_end (pc_line_index c) r = Some (line_offset ?t r)"
    using converts_count(3)[OF c r(2,3)] .
  then show ?thesis
    using r(1) sel v ble(2) b l(1) converts_count(1,2)[OF c] ne i
    by (simp add: line_for_byte_def validate_user_byte_def Let_def ensure_def)
qed

lemma line_for_byte_cases:
  assumes c: "converts cs c"
  shows "line_for_byte c b = Err ByteNotRepresentable \<or>
    (\<exists>i < length (split_lines (pc_text c)). line_for_byte c b = Ok (bounds_at c i) \<and> line_offset (pc_text c) i \<le> b \<and>
       b \<le> line_offset (pc_text c) i + length (utf8 (line_scalars (pc_text c) i)) \<and> is_char_boundary (pc_text c) b)"
proof (cases "length (pc_text c) < b \<or> \<not> is_char_boundary (pc_text c) b \<or> pc_text c = []")
  case True
  then show ?thesis
    using converts_count(1)[OF c] by (auto simp: line_for_byte_def validate_user_byte_def)
next
  case False
  let ?t = "pc_text c" and ?n = "length (split_lines (pc_text c))"
  obtain r where r: "search_line (pc_line_index c) (\<lambda>e. e < b) 1 (index_line_count (pc_line_index c)) = Ok r"
      "1 \<le> r" "r \<le> ?n" 
    using search_lines[OF c, of "\<lambda>e. e < b"] False by auto
  define s where "s = (if line_offset ?t r = b \<and> r < ?n then r + 1 else r)"
  have s: "1 \<le> s" "s \<le> ?n" using r by (auto simp: s_def)
  then have "s - 1 < ?n" "s - 1 \<le> u32_max" using converts_count(2)[OF c] by simp_all
  note l = line_content_at[OF c this(1)]
  have "line_for_byte c b =
      (if b < line_offset ?t (s - 1) \<or> line_offset ?t (s - 1) + length (utf8 (line_scalars ?t (s - 1))) < b
       then Err ByteNotRepresentable else Ok (bounds_at c (s - 1)))"
    using False r(1) l(1) converts_count(1,2)[OF c] converts_count(3)[OF c r(2,3)] s \<open>s - 1 \<le> u32_max\<close>
    by (simp add: line_for_byte_def validate_user_byte_def Let_def ensure_def s_def[symmetric])
  then show ?thesis using \<open>s - 1 < ?n\<close> False by auto
qed

section \<open>Exactness\<close>

definition units :: "SupportedPositionEncoding \<Rightarrow> nat list \<Rightarrow> nat" where
  "units enc s =
     (case enc of Utf8 \<Rightarrow> length (utf8 s) | Utf16 \<Rightarrow> sum_list (map len_utf16 s) | Utf32 \<Rightarrow> length s)"

text \<open>
  What an LSP position means: the character counts code units of the line without its terminator,
  and one past the end of the line is the end of the line.
\<close>

definition meaning :: "bytes \<Rightarrow> SupportedPositionEncoding \<Rightarrow> Position \<Rightarrow> PositionError + nat" where
  "meaning text enc p =
     (if length (split_lines text) \<le> po_line p then Err NonexistentLine
      else
        let l = line_scalars text (po_line p); off = line_offset text (po_line p) in
        if units enc l \<le> po_character p then Ok (off + length (utf8 l))
        else
          case find (\<lambda>k. units enc (take k l) = po_character p) [0..<length l] of
            Some k \<Rightarrow> Ok (off + length (utf8 (take k l)))
          | None \<Rightarrow> Err CharacterSplitsCodeUnit)"

lemma units_le: "units enc s \<le> length (utf8 s)"
  using width_of_bound[OF len_utf16_bounds(2), of s] length_chars_le[of s]
  by (cases enc) (simp_all add: units_def width_of_def)

lemma units_simps [simp]: "units enc [] = 0" "units enc (s @ t) = units enc s + units enc t"
  by (cases enc; simp add: units_def)+

lemma units_pos: "s \<noteq> [] \<Longrightarrow> 0 < units enc s"
proof (cases s)
  case (Cons a t)
  then show ?thesis using len_utf16_bounds(1)[of a] by (cases enc) (simp_all add: units_def)
qed simp

lemma units_prefix_inj:
  assumes "pre @ post = pre' @ post'" "units enc pre = units enc pre'"
  shows "pre = pre'"
proof -
  obtain us where "pre = pre' @ us \<and> us @ post = post' \<or> pre @ us = pre' \<and> post = us @ post'"
    using assms(1) append_eq_append_conv2[of pre post pre' post'] by blast
  moreover have "us = []" using calculation assms(2) units_pos[of us enc] by fastforce
  ultimately show ?thesis by auto
qed

definition line_units_to_byte :: "SupportedPositionEncoding \<Rightarrow> bytes \<Rightarrow> nat \<Rightarrow> nat conversion" where
  "line_units_to_byte enc content ch =
     (case enc of
        Utf8 \<Rightarrow> cv_lift (utf8_units_to_byte content ch)
      | Utf16 \<Rightarrow> encoded_units_to_byte content ch len_utf16
      | Utf32 \<Rightarrow> encoded_units_to_byte content ch (\<lambda>_. 1))"

lemma width_of_units: "width_of len_utf16 s = units Utf16 s" "width_of (\<lambda>_. 1) s = units Utf32 s" "width_of (\<lambda>_. Suc 0) s = units Utf32 s"
  by (simp_all add: width_of_def units_def sum_list_triv)

lemma encoded_units:
  assumes "list_all is_scalar s" "affordable (length s) c" "length (utf8 s) \<le> u32_max" "ch \<le> u32_max"
    and "\<And>a. 0 < w a" and u: "\<And>r. width_of w r = units enc r"
  shows "\<exists>n \<le> length s. encoded_units_to_byte (utf8 s) ch w c = (examined n c,
    if units enc s \<le> ch then Ok (length (utf8 s))
    else case find (\<lambda>k. units enc (take k s) = ch) [0..<length s] of
           Some k \<Rightarrow> Ok (length (utf8 (take k s))) | None \<Rightarrow> Err CharacterSplitsCodeUnit)"
proof -
  have e: "encoded_units_to_byte (utf8 s) ch w = units_to_byte w ch (length (utf8 s)) 0 (char_offsets 0 s)"
    using assms(1) by (simp add: encoded_units_to_byte_def char_indices_def chars_utf8)
  have us: "units enc s \<le> u64_max" "ch \<le> u64_max"
    using units_le[of enc s] assms(3,4) by (simp_all add: u32_max_def u64_max_def)
  consider "units enc s < ch" | "units enc s = ch"
    | k where "ch < units enc s" "find (\<lambda>k. units enc (take k s) = ch) [0..<length s] = Some k"
    | "ch < units enc s" "find (\<lambda>k. units enc (take k s) = ch) [0..<length s] = None"
    by (metis linorder_less_linear not_Some_eq)
  then show ?thesis
  proof cases
    case 1
    then have "units_to_byte w ch (length (utf8 s)) 0 (char_offsets 0 s) c = (examined (length s) c, Ok (length (utf8 s)))"
      by (intro units_to_byte_beyond) (use assms us in \<open>auto simp: u\<close>)
    then show ?thesis using 1 by (intro exI[of _ "length s"]) (simp add: e)
  next
    case 2
    then have "units_to_byte w ch (length (utf8 s)) 0 (char_offsets 0 (s @ [])) c = (examined (length s) c, Ok (0 + length (utf8 s)))"
      by (intro units_to_byte_prefix) (use assms us in \<open>auto simp: u\<close>)
    then show ?thesis using 2 by (intro exI[of _ "length s"]) (simp add: e)
  next
    case (3 k)
    then have k: "k < length s" "units enc (take k s) = ch" by (auto simp: find_Some_iff)
    have "affordable (length (take k s)) c" using assms(2) affordable_mono by simp
    then have "units_to_byte w ch (length (utf8 s)) 0 (char_offsets 0 (take k s @ drop k s)) c =
        (examined (length (take k s)) c, Ok (0 + length (utf8 (take k s))))"
      by (intro units_to_byte_prefix) (use assms us k in \<open>auto simp: u simp flip: utf8_simps(3)\<close>)
    then show ?thesis using 3 k by (intro exI[of _ k]) (simp add: e)
  next
    case 4
    have "0 + width_of w pre \<noteq> ch" if "s = pre @ post" for pre post
    proof
      assume g: "0 + width_of w pre = ch"
      then have "length pre < length s" using that 4(1) u by (cases post) auto
      moreover have "take (length pre) s = pre" using that by simp
      ultimately show False using 4(2) g by (auto simp: find_None_iff u)
    qed
    then obtain n where "n \<le> length s"
      "units_to_byte w ch (length (utf8 s)) 0 (char_offsets 0 s) c = (examined n c, Err CharacterSplitsCodeUnit)"
      using units_to_byte_splits[of s c ch 0 w "length (utf8 s)" 0] assms us 4(1) u by auto
    then show ?thesis using 4 by (intro exI[of _ n]) (simp add: e)
  qed
qed

lemma utf8_units:
  assumes "list_all is_scalar s"
  shows "utf8_units_to_byte (utf8 s) ch =
    (if units Utf8 s \<le> ch then Ok (length (utf8 s))
     else case find (\<lambda>k. units Utf8 (take k s) = ch) [0..<length s] of
            Some k \<Rightarrow> Ok (length (utf8 (take k s))) | None \<Rightarrow> Err CharacterSplitsCodeUnit)"
proof (cases "length (utf8 s) \<le> ch")
  case True
  then show ?thesis by (simp add: utf8_units_to_byte_def units_def)
next
  case False
  show ?thesis
  proof (cases "find (\<lambda>k. units Utf8 (take k s) = ch) [0..<length s]")
    case None
    have "\<not> is_char_boundary (utf8 s) ch"
    proof
      assume "is_char_boundary (utf8 s) ch"
      then obtain pre post where p: "s = pre @ post" "ch = length (utf8 pre)"
        by (rule prefix_of_boundary[OF assms]) (use False in auto)
      then have "length pre < length s" using False by (cases post) auto
      moreover have "take (length pre) s = pre" using p by simp
      ultimately show False using None p(2) by (auto simp: find_None_iff units_def)
    qed
    then show ?thesis using False None by (simp add: utf8_units_to_byte_def units_def)
  next
    case (Some k)
    then have k: "length (utf8 (take k s)) = ch" by (auto simp: find_Some_iff units_def)
    then have "is_char_boundary (utf8 s) ch"
      using boundary_prefix[of "take k s" "drop k s"] assms by simp
    then show ?thesis using False Some k by (simp add: utf8_units_to_byte_def units_def)
  qed
qed

lemma line_units:
  assumes "list_all is_scalar s" "affordable (length s) c" "length (utf8 s) \<le> u32_max" "ch \<le> u32_max"
  shows "\<exists>n \<le> length s. line_units_to_byte enc (utf8 s) ch c = (examined n c,
    if units enc s \<le> ch then Ok (length (utf8 s))
    else case find (\<lambda>k. units enc (take k s) = ch) [0..<length s] of
           Some k \<Rightarrow> Ok (length (utf8 (take k s))) | None \<Rightarrow> Err CharacterSplitsCodeUnit)"
proof (cases enc)
  case Utf8
  then show ?thesis
    using utf8_units[OF assms(1), of ch] by (intro exI[of _ 0]) (simp add: line_units_to_byte_def)
next
  case Utf16
  then show ?thesis
    using encoded_units[OF assms, of len_utf16 Utf16, OF len_utf16_bounds(1) width_of_units(1)]
    by (simp only: line_units_to_byte_def SupportedPositionEncoding.case)
next
  case Utf32
  then show ?thesis
    using encoded_units[OF assms, of "\<lambda>_. 1" Utf32, OF _ width_of_units(2)]
    by (simp only: line_units_to_byte_def SupportedPositionEncoding.case zero_less_one)
qed

lemma line_scalars_fit:
  assumes "converts cs c" "i < length (split_lines (pc_text c))"
  shows "length (utf8 (line_scalars (pc_text c) i)) \<le> u32_max"
    and "affordable (length (line_scalars (pc_text c) i)) c"
    and "length (line_scalars (pc_text c) i) \<le> length (utf8 cs)"
    and "line_offset (pc_text c) i + length (utf8 (line_scalars (pc_text c) i)) \<le> u64_max"
proof -
  have "line_offset (pc_text c) i + length (utf8 (line_scalars (pc_text c) i)) \<le> length (utf8 cs)"
    using line_content_at(4)[OF assms] line_offset_le[of "pc_text c" "Suc i"] assms(1) by (simp add: converts_def)
  then show "length (utf8 (line_scalars (pc_text c) i)) \<le> u32_max"
    "affordable (length (line_scalars (pc_text c) i)) c"
    "length (line_scalars (pc_text c) i) \<le> length (utf8 cs)"
    "line_offset (pc_text c) i + length (utf8 (line_scalars (pc_text c) i)) \<le> u64_max"
    using assms(1) length_chars_le[of "line_scalars (pc_text c) i"]
    by (auto simp: converts_def u32_max_def u64_max_def intro: affordable_mono)
qed

lemma lsp_position_to_byte_meaning:
  assumes "converts cs c" "po_line p \<le> u32_max" "po_character p \<le> u32_max"
  shows "\<exists>n \<le> length (utf8 cs).
    lsp_position_to_byte p c = (examined n c, meaning (utf8 cs) (pc_encoding c) p)"
proof (cases "length (split_lines (pc_text c)) \<le> po_line p")
  case True
  then show ?thesis
    using line_beyond[OF assms(1) True assms(2)] assms(1)
    by (intro exI[of _ 0]) (auto simp: lsp_position_to_byte_def meaning_def converts_def)
next
  case False
  then have i: "po_line p < length (split_lines (pc_text c))" by simp
  let ?l = "line_scalars (pc_text c) (po_line p)" and ?o = "line_offset (pc_text c) (po_line p)"
  note l = line_content_at[OF assms(1) i] and fit = line_scalars_fit[OF assms(1) i]
  obtain n where n: "n \<le> length ?l"
    "line_units_to_byte (pc_encoding c) (utf8 ?l) (po_character p) c = (examined n c,
      if units (pc_encoding c) ?l \<le> po_character p then Ok (length (utf8 ?l))
      else case find (\<lambda>k. units (pc_encoding c) (take k ?l) = po_character p) [0..<length ?l] of
             Some k \<Rightarrow> Ok (length (utf8 (take k ?l))) | None \<Rightarrow> Err CharacterSplitsCodeUnit)"
    using line_units[OF l(3) fit(2,1) assms(3), of "pc_encoding c"] by blast
  have pre: "?o + length (utf8 (take k ?l)) \<le> u64_max" for k
  proof -
    have "length (utf8 ?l) = length (utf8 (take k ?l @ drop k ?l))" by simp
    also have "\<dots> = length (utf8 (take k ?l)) + length (utf8 (drop k ?l))" by (simp only: utf8_simps length_append)
    finally show ?thesis using fit(4) by simp
  qed
  have t: "pc_text c = utf8 cs" using assms(1) by (simp add: converts_def)
  have "lsp_position_to_byte p c =
      cv_bind (line_units_to_byte (pc_encoding c) (utf8 ?l) (po_character p))
        (\<lambda>relative. cv_lift (ok_or (checked_add_u64 ?o relative) InvalidSnapshotIndex)) c"
    using l(1,2) by (simp add: lsp_position_to_byte_def line_content_def line_units_to_byte_def split: prod.split sum.split)
  also have "\<dots> = (examined n c, meaning (utf8 cs) (pc_encoding c) p)"
    using n(2) fit(4) pre False unfolding t by (auto simp: meaning_def Let_def checked_add_u64_def split: option.split)
  finally show ?thesis using n(1) fit(3) by (intro exI[of _ n]) simp
qed

section \<open>Round trips\<close>

lemma utf8_inj: "list_all is_scalar s \<Longrightarrow> list_all is_scalar t \<Longrightarrow> utf8 s = utf8 t \<Longrightarrow> s = t"
  by (metis chars_utf8)

lemma content_prefix:
  assumes "converts cs c" "i < length (split_lines (pc_text c))" "line_scalars (pc_text c) i = pre @ post"
  shows "is_char_boundary (pc_text c) (line_offset (pc_text c) i + length (utf8 pre))"
    and "str_get (pc_text c) (line_offset (pc_text c) i) (line_offset (pc_text c) i + length (utf8 pre)) = Some (utf8 pre)"
proof -
  have u: "pc_text c = utf8 cs" "list_all is_scalar cs" using assms(1) by (simp_all add: converts_def)
  note l = line_content_at[OF assms(1,2)]
  obtain p mid q where m: "cs = p @ mid @ q" "line_offset (pc_text c) i = length (utf8 p)"
    "utf8 mid = utf8 (line_scalars (pc_text c) i)"
    using l(2) str_get_utf8[OF u(2)] unfolding u(1) by metis
  then have "mid = pre @ post"
    using utf8_inj[OF _ l(3), of mid] u(2) assms(3) by simp
  then have cs: "cs = p @ pre @ post @ q" using m(1) by simp
  show "is_char_boundary (pc_text c) (line_offset (pc_text c) i + length (utf8 pre))"
    using boundary_prefix[of "p @ pre" "post @ q"] u m(2) cs by simp
  show "str_get (pc_text c) (line_offset (pc_text c) i) (line_offset (pc_text c) i + length (utf8 pre)) = Some (utf8 pre)"
    unfolding u(1) str_get_utf8[OF u(2)] using cs m(2) u(1)
    by (intro exI[of _ p] exI[of _ pre] exI[of _ "post @ q"]) simp
qed

lemma meaning_prefix:
  assumes "i < length (split_lines text)" "line_scalars text i = pre @ post"
  shows "meaning text enc \<lparr>po_line = i, po_character = units enc pre\<rparr> = Ok (line_offset text i + length (utf8 pre))"
proof (cases "post = []")
  case True
  then show ?thesis using assms by (simp add: meaning_def Let_def)
next
  case False
  let ?l = "pre @ post"
  have "\<not> units enc ?l \<le> units enc pre" using units_pos[OF False, of enc] by simp
  moreover have "\<exists>k. find (\<lambda>k. units enc (take k ?l) = units enc pre) [0..<length ?l] = Some k \<and> take k ?l = pre"
  proof (cases "find (\<lambda>k. units enc (take k ?l) = units enc pre) [0..<length ?l]")
    case None
    have "length pre \<in> set [0..<length ?l]" "take (length pre) ?l = pre" using False by simp_all
    then show ?thesis using None unfolding find_None_iff by metis
  next
    case (Some k)
    then have "units enc (take k ?l) = units enc pre" by (auto simp: find_Some_iff)
    then have "take k ?l = pre" using units_prefix_inj[of "take k ?l" "drop k ?l" pre post enc] by (simp only: append_take_drop_id)
    with Some show ?thesis by blast
  qed
  ultimately show ?thesis using assms by (auto simp: meaning_def Let_def)
qed

definition byte_units :: "SupportedPositionEncoding \<Rightarrow> bytes \<Rightarrow> nat \<Rightarrow> nat conversion" where
  "byte_units enc content relative =
     (case enc of
        Utf8 \<Rightarrow> cv_lift (if relative \<le> u32_max then Ok relative else Err ByteNotRepresentable)
      | Utf16 \<Rightarrow> byte_to_encoded_units content relative len_utf16
      | Utf32 \<Rightarrow> byte_to_encoded_units content relative (\<lambda>_. 1))"

lemma byte_units_prefix:
  assumes "list_all is_scalar (pre @ post)" "affordable (length pre) c" "length (utf8 (pre @ post)) \<le> u32_max"
  shows "\<exists>n \<le> length pre. byte_units enc (utf8 (pre @ post)) (length (utf8 pre)) c = (examined n c, Ok (units enc pre))"
proof -
  have fit: "units enc pre \<le> u32_max" "units enc pre \<le> u64_max"
    using units_le[of enc pre] assms(3) by (simp_all add: u32_max_def u64_max_def)
  have enc_loop: "byte_to_encoded_units (utf8 (pre @ post)) (length (utf8 pre)) w c = (examined (length pre) c, Ok (units enc pre))"
    if "\<And>s. width_of w s = units enc s" for w
    using byte_to_units_prefix[OF assms(2), of 0 w 0 post] assms(1) fit that chars_utf8[of "pre @ post"]
    by (simp add: byte_to_encoded_units_def char_indices_def)
  show ?thesis
  proof (cases enc)
    case Utf8
    then show ?thesis using fit by (intro exI[of _ 0]) (simp add: byte_units_def units_def)
  next
    case Utf16
    then show ?thesis using enc_loop[of len_utf16] width_of_units(1) by (intro exI[of _ "length pre"]) (simp add: byte_units_def)
  next
    case Utf32
    then show ?thesis using enc_loop[of "\<lambda>_. 1"] width_of_units(2,3) by (intro exI[of _ "length pre"]) (simp add: byte_units_def)
  qed
qed

lemma byte_to_lsp_position_content:
  assumes c: "converts cs c" and i: "i < length (split_lines (pc_text c))" and l: "line_scalars (pc_text c) i = pre @ post"
  shows "\<exists>n \<le> length (utf8 cs). byte_to_lsp_position (line_offset (pc_text c) i + length (utf8 pre)) c =
    (examined n c, Ok \<lparr>po_line = i, po_character = units (pc_encoding c) pre\<rparr>)"
proof -
  let ?o = "line_offset (pc_text c) i" and ?r = "length (utf8 pre)"
  note at = line_content_at[OF c i] and fit = line_scalars_fit[OF c i]
  have s: "list_all is_scalar (pre @ post)" using at(3) l by simp
  have "affordable (length pre) c" using fit(2) l affordable_mono by auto
  then obtain n where n: "n \<le> length pre"
    "byte_units (pc_encoding c) (utf8 (pre @ post)) ?r c = (examined n c, Ok (units (pc_encoding c) pre))"
    using byte_units_prefix[OF s, of c "pc_encoding c"] fit(1) l by auto
  have "line_for_byte c (?o + ?r) = Ok (bounds_at c i)"
    using line_for_byte_content[OF c i _ _ content_prefix(1)[OF c i l]] l by simp
  moreover have "is_char_boundary (utf8 (pre @ post)) ?r" using boundary_prefix[OF s] .
  ultimately have "byte_to_lsp_position (?o + ?r) c =
      cv_bind (byte_units (pc_encoding c) (utf8 (pre @ post)) ?r) (\<lambda>ch. cv_ret \<lparr>po_line = i, po_character = ch\<rparr>) c"
    using at(2) l
    by (simp add: byte_to_lsp_position_def line_content_def byte_units_def checked_sub_u64_def split: prod.split sum.split)
  then show ?thesis using n fit(3) l by (intro exI[of _ n]) simp
qed

text \<open>The bytes that some LSP position denotes: content offsets on character boundaries.\<close>

definition content_byte :: "bytes \<Rightarrow> nat \<Rightarrow> bool" where
  "content_byte text b \<longleftrightarrow>
     (\<exists>i < length (split_lines text). \<exists>k \<le> length (line_scalars text i).
        b = line_offset text i + length (utf8 (take k (line_scalars text i))))"

lemma byte_to_lsp_position_other:
  assumes c: "converts cs c" and b: "\<not> content_byte (pc_text c) b"
  shows "byte_to_lsp_position b c = (c, Err ByteNotRepresentable)"
  using line_for_byte_cases[OF c, of b]
proof
  assume "line_for_byte c b = Err ByteNotRepresentable"
  then show ?thesis by (simp add: byte_to_lsp_position_def)
next
  assume "\<exists>i < length (split_lines (pc_text c)). line_for_byte c b = Ok (bounds_at c i) \<and> line_offset (pc_text c) i \<le> b \<and>
    b \<le> line_offset (pc_text c) i + length (utf8 (line_scalars (pc_text c) i)) \<and> is_char_boundary (pc_text c) b"
  then obtain i where i: "i < length (split_lines (pc_text c))" "line_for_byte c b = Ok (bounds_at c i)"
    "line_offset (pc_text c) i \<le> b" "b \<le> line_offset (pc_text c) i + length (utf8 (line_scalars (pc_text c) i))"
    by blast
  let ?l = "line_scalars (pc_text c) i" and ?r = "b - line_offset (pc_text c) i"
  note at = line_content_at[OF c i(1)]
  have "\<not> is_char_boundary (utf8 ?l) ?r"
  proof
    assume "is_char_boundary (utf8 ?l) ?r"
    then obtain pre post where p: "?l = pre @ post" "?r = length (utf8 pre)"
      by (rule prefix_of_boundary[OF at(3)]) (use i in auto)
    then have "b = line_offset (pc_text c) i + length (utf8 (take (length pre) ?l))" "length pre \<le> length ?l"
      using i(3) by simp_all
    then show False using b i(1) by (auto simp: content_byte_def)
  qed
  then show ?thesis
    using i at(2) by (simp add: byte_to_lsp_position_def line_content_def checked_sub_u64_def)
qed

text \<open>
  A byte converts to a server position exactly when it is a content offset on a character
  boundary, and a converter with the same encoding takes that position back to the same byte; every
  other byte is refused as not representable without using up any work.
\<close>

theorem bytes_roundtrip_through_positions:
  assumes "converts cs c" "converts cs d" "pc_encoding d = pc_encoding c"
  shows "if content_byte (utf8 cs) b
    then \<exists>p n m. byte_to_lsp_position b c = (examined n c, Ok p) \<and> lsp_position_to_byte p d = (examined m d, Ok b)
    else byte_to_lsp_position b c = (c, Err ByteNotRepresentable)"
proof (cases "content_byte (utf8 cs) b")
  case False
  then show ?thesis using byte_to_lsp_position_other[OF assms(1)] assms(1) by (simp add: converts_def)
next
  case True
  have t: "pc_text c = utf8 cs" "pc_text d = utf8 cs" using assms(1,2) by (simp_all add: converts_def)
  obtain i k where i: "i < length (split_lines (pc_text c))" and
    b: "b = line_offset (pc_text c) i + length (utf8 (take k (line_scalars (pc_text c) i)))"
    using True t by (auto simp: content_byte_def)
  define pre where "pre = take k (line_scalars (pc_text c) i)"
  define p where "p = \<lparr>po_line = i, po_character = units (pc_encoding c) pre\<rparr>"
  have l: "line_scalars (pc_text c) i = pre @ drop k (line_scalars (pc_text c) i)" by (simp add: pre_def)
  obtain n where n: "byte_to_lsp_position b c = (examined n c, Ok p)"
    using byte_to_lsp_position_content[OF assms(1) i l] by (auto simp: b pre_def p_def)
  have "po_line p \<le> u32_max" "po_character p \<le> u32_max"
    using i converts_count(2)[OF assms(1)] line_scalars_fit(1)[OF assms(1) i] units_le[of "pc_encoding c" pre] l
    by (auto simp: p_def) (metis add_leE length_append order_trans utf8_simps(3))
  then obtain m where "lsp_position_to_byte p d = (examined m d, meaning (utf8 cs) (pc_encoding d) p)"
    using lsp_position_to_byte_meaning[OF assms(2)] by blast
  then have "lsp_position_to_byte p d = (examined m d, Ok b)"
    using meaning_prefix[OF i l, of "pc_encoding c"] assms(3) t by (simp add: p_def b pre_def)
  with n True show ?thesis by auto
qed

section \<open>User coordinates\<close>

lemma user_line_scalar_to_byte_exact:
  assumes c: "converts cs c" and i: "i < length (split_lines (pc_text c))" and k: "k \<le> length (line_scalars (pc_text c) i)"
  shows "user_line_scalar_to_byte (Suc i) (Suc k) c =
    (examined k c, Ok (line_offset (pc_text c) i + length (utf8 (take k (line_scalars (pc_text c) i)))))"
proof -
  let ?l = "line_scalars (pc_text c) i"
  note at = line_content_at[OF c i] and fit = line_scalars_fit[OF c i]
  have len: "length (utf8 (take k ?l)) \<le> length (utf8 ?l)"
    by (metis append_take_drop_id le_add1 length_append utf8_simps(3))
  have "k \<le> u64_max" using k length_chars_le[of ?l] fit(1) by (simp add: u32_max_def u64_max_def)
  then have "scalars_to_byte k (length (utf8 (take k ?l @ drop k ?l))) 0 (char_offsets 0 (take k ?l @ drop k ?l)) c =
      (examined (length (take k ?l)) c, Ok (0 + length (utf8 (take k ?l))))"
    using k fit(2) affordable_mono by (intro scalars_to_byte_units) auto
  then have "scalar_units_to_byte_exact (utf8 ?l) k c = (examined k c, Ok (length (utf8 (take k ?l))))"
    using k at(3) by (simp add: scalar_units_to_byte_exact_def char_indices_def chars_utf8 min_def flip: utf8_simps(3))
  then show ?thesis
    using at(1,2) i converts_count(2)[OF c] fit(4) len
    by (simp add: user_line_scalar_to_byte_def line_content_def ensure_def checked_add_u64_def)
qed

lemma user_line_scalar_to_byte_refused:
  assumes c: "converts cs c" and k: "k \<le> u64_max"
    and bad: "i = 0 \<or> k = 0 \<or> length (split_lines (pc_text c)) < i \<or> Suc (length (line_scalars (pc_text c) (i - 1))) < k"
  shows "\<exists>n \<le> length (utf8 cs). user_line_scalar_to_byte i k c = (examined n c, Err InvalidUserPosition)"
proof (cases "i = 0 \<or> k = 0 \<or> \<not> i - 1 \<le> u32_max")
  case True
  then show ?thesis by (intro exI[of _ 0]) (auto simp: user_line_scalar_to_byte_def ensure_def)
next
  case False
  show ?thesis
  proof (cases "length (split_lines (pc_text c)) < i")
    case True
    then have "line_bounds_of c (i - 1) = Err NonexistentLine" using line_beyond[OF c, of "i - 1"] False by simp
    then show ?thesis using False by (intro exI[of _ 0]) (auto simp: user_line_scalar_to_byte_def ensure_def)
  next
    case in_range: False
    then have i: "i - 1 < length (split_lines (pc_text c))" using False by auto
    let ?l = "line_scalars (pc_text c) (i - 1)"
    note at = line_content_at[OF c i] and fit = line_scalars_fit[OF c i]
    have "scalars_to_byte (k - 1) (length (utf8 ?l)) 0 (char_offsets 0 ?l) c = (examined (length ?l) c, Err InvalidUserPosition)"
      using fit(2) k bad in_range False by (intro scalars_to_byte_beyond) auto
    then show ?thesis
      using at(1-3) False fit(3)
      by (intro exI[of _ "length ?l"])
        (auto simp: user_line_scalar_to_byte_def line_content_def ensure_def scalar_units_to_byte_exact_def char_indices_def chars_utf8)
  qed
qed

lemma byte_to_user_line_scalar_exact:
  assumes c: "converts cs c" and i: "i < length (split_lines (pc_text c))" and l: "line_scalars (pc_text c) i = pre @ post"
  shows "byte_to_user_line_scalar (line_offset (pc_text c) i + length (utf8 pre)) c =
    (examined (length pre) c, Ok (Suc i, Some (Suc (length pre))))"
proof -
  let ?t = "pc_text c" and ?n = "length (split_lines (pc_text c))"
  define b where "b = line_offset ?t i + length (utf8 pre)"
  note at = line_content_at[OF c i] and fit = line_scalars_fit[OF c i]
  have ne: "?t \<noteq> []" using i by auto
  have cend: "b \<le> line_offset ?t i + length (utf8 (line_scalars ?t i))" by (simp add: b_def l)
  have le: "b \<le> line_offset ?t (Suc i)" "b \<le> length ?t"
    using cend at(4) line_offset_le[of ?t "Suc i"] by simp_all
  have strict: "b < line_offset ?t (Suc i)" if "Suc i < ?n"
    using cend at(5)[OF that] by simp
  obtain r where r: "search_line (pc_line_index c) (\<lambda>e. e \<le> b) 1 (index_line_count (pc_line_index c)) = Ok r"
      "1 \<le> r" "r \<le> ?n" "\<forall>j. 1 \<le> j \<and> j < r \<longrightarrow> line_offset ?t j \<le> b" "r < ?n \<longrightarrow> \<not> line_offset ?t r \<le> b"
    using search_lines[OF c ne, of "\<lambda>e. e \<le> b"] by auto
  have "Suc i \<le> r"
  proof (rule ccontr)
    assume "\<not> Suc i \<le> r"
    then have "r \<le> i" "r < ?n" using i by simp_all
    then show False using r(5) line_offset_mono[of r i ?t] by (simp add: b_def)
  qed
  have sel: "(if line_offset ?t r \<le> b then ?n else r) = Suc i"
  proof (cases "Suc i < ?n")
    case True
    then have "\<not> Suc i < r" using r(4) strict by force
    then show ?thesis using \<open>Suc i \<le> r\<close> strict[OF True] by (cases "r = Suc i") auto
  next
    case False
    then show ?thesis using \<open>Suc i \<le> r\<close> r(3) i by auto
  qed
  have ends: "line_end (pc_line_index c) r = Some (line_offset ?t r)"
    "line_end (pc_line_index c) (Suc i) = Some (line_offset ?t (Suc i))"
    using converts_count(3)[OF c] r(2,3) i by simp_all
  have len: "length pre \<le> u32_max" "affordable (length pre) c"
    using l length_chars_le[of "pre @ post"] fit(1,2) by (auto intro: affordable_mono)
  have col: "scalar_column_before (bounds_at c i) b c = (examined (length pre) c, Ok (Suc (length pre)))"
  proof -
    have "list_all is_scalar pre" using at(3) l by simp
    then have "chars (utf8 pre) = pre" by (rule chars_utf8)
    moreover have "count_scalars 0 pre c = (examined (length pre) c, Ok (length pre))"
      using count_scalars_length[OF len(2), of 0] len(1) by (simp add: u32_max_def u64_max_def)
    moreover have "line_offset ?t i + length (utf8 pre) \<le> u64_max" using fit(4) l by simp
    ultimately show ?thesis
      using content_prefix(2)[OF c i l] len(1)
      by (simp add: scalar_column_before_def b_def checked_sub_u64_def checked_add_u64_def u32_max_def u64_max_def)
  qed
  have v: "validate_user_byte c b = Ok b"
    using le(2) content_prefix(1)[OF c i l] by (simp add: validate_user_byte_def b_def)
  have off: "\<not> b < line_offset ?t i" by (simp add: b_def)
  have "byte_to_user_line_scalar b c = (examined (length pre) c, Ok (Suc i, Some (Suc (length pre))))"
  proof (cases "line_offset ?t r \<le> b")
    case True
    then have "?n = Suc i" using sel by simp
    then show ?thesis
      using True v r(1) ends at(1) i converts_count(1,2)[OF c] ne le(1) cend col off
      by (simp add: byte_to_user_line_scalar_def Let_def ensure_def)
  next
    case False
    then have "r = Suc i" using sel by simp
    then show ?thesis
      using False v r(1) ends at(1) i converts_count(1,2)[OF c] ne le(1) cend col off
      by (simp add: byte_to_user_line_scalar_def Let_def ensure_def)
  qed
  then show ?thesis by (simp add: b_def)
qed

text \<open>
  A one-based line and scalar column is accepted exactly when the line exists and the
  column is at most one past its last scalar value; the byte it denotes reports the same line and
  column again, and every other pair is refused as an invalid user position.
\<close>

theorem user_positions_roundtrip:
  assumes "converts cs c" "converts cs d" "column \<le> u64_max"
  shows "if 1 \<le> line \<and> line \<le> length (split_lines (utf8 cs)) \<and> 1 \<le> column \<and>
        column \<le> Suc (length (line_scalars (utf8 cs) (line - 1)))
    then \<exists>b n m. user_line_scalar_to_byte line column c = (examined n c, Ok b) \<and>
      byte_to_user_line_scalar b d = (examined m d, Ok (line, Some column))
    else \<exists>n. user_line_scalar_to_byte line column c = (examined n c, Err InvalidUserPosition)"
proof (cases "1 \<le> line \<and> line \<le> length (split_lines (utf8 cs)) \<and> 1 \<le> column \<and>
    column \<le> Suc (length (line_scalars (utf8 cs) (line - 1)))")
  case False
  have "pc_text c = utf8 cs" using assms(1) by (simp add: converts_def)
  then show ?thesis
    using user_line_scalar_to_byte_refused[OF assms(1,3), of line] False by (auto simp: not_le less_Suc_eq_le)
next
  case True
  obtain i k where ik: "line = Suc i" "column = Suc k" using True by (metis Suc_le_D One_nat_def)
  have t: "pc_text c = utf8 cs" "pc_text d = utf8 cs" using assms(1,2) by (simp_all add: converts_def)
  let ?l = "line_scalars (utf8 cs) i"
  have "i < length (split_lines (pc_text c))" "k \<le> length (line_scalars (pc_text c) i)" using True ik t by simp_all
  note a = user_line_scalar_to_byte_exact[OF assms(1) this]
  have "i < length (split_lines (pc_text d))" "line_scalars (pc_text d) i = take k ?l @ drop k ?l" using True ik t by simp_all
  note b = byte_to_user_line_scalar_exact[OF assms(2) this]
  show ?thesis using a b True ik t by (auto simp: min_def)
qed

section \<open>Constructed converters\<close>

lemma new_converter_converts:
  assumes "from_bytes_with_limits (utf8 cs) maximum_lines maximum_memory = Ok idx" "list_all is_scalar cs"
    and "length (utf8 cs) \<le> u32_max" "length (utf8 cs) \<le> maximum_code_points_scanned limits"
    and "maximum_code_points_scanned limits \<le> u64_max"
  shows "\<exists>c. new_converter (utf8 cs) idx enc limits = Ok c \<and> converts cs c \<and> pc_encoding c = enc"
proof -
  have n: "length (utf8 cs) \<le> u64_max" using assms(3) by (simp add: u32_max_def u64_max_def)
  then have idx: "boundaries idx = prefix_ends 0 (split_lines (utf8 cs))"
    using assms(1) by (simp add: from_bytes_with_limits_Ok_iff)
  then have "metrics_for_range idx (utf8 cs) \<lparr>range_start = 0, range_end = length (utf8 cs)\<rparr> = Ok (line_metrics_of (utf8 cs))"
    using metrics_for_range_eq[of idx "utf8 cs" "\<lparr>range_start = 0, range_end = length (utf8 cs)\<rparr>"] n
    by (simp add: line_bounds_prefix_ends slice_full)
  then show ?thesis
    using n idx assms(2-5) by (simp add: new_converter_def converts_def affordable_def)
qed

section \<open>Witnesses\<close>

text \<open>An accented letter, CRLF, an emoji and a letter.\<close>

definition sample :: "nat list" where "sample = [104, 233, 13, 10, 128512, 122]"

definition sample_converter :: "SupportedPositionEncoding \<Rightarrow> PositionConverter" where
  "sample_converter enc =
     \<lparr>pc_text = utf8 sample, pc_line_index = \<lparr>boundaries = [5, 10]\<rparr>, pc_encoding = enc,
      pc_limits = default_position_limits, pc_code_points_scanned = 0\<rparr>"

lemma utf8_sample: "utf8 sample = [104, 195, 169, 13, 10, 240, 159, 152, 128, 122]"
  by (simp add: sample_def encode_char_def)

lemma split_sample: "split_lines (utf8 sample) = [[104, 195, 169, 13, 10], [240, 159, 152, 128, 122]]"
  by (simp add: utf8_sample is_terminator_byte_def)

lemma sample_converts: "converts sample (sample_converter enc)"
  unfolding converts_def split_sample
  by (simp add: sample_converter_def affordable_def u32_max_def u64_max_def default_position_limits_def utf8_sample)
    (simp add: sample_def is_scalar_def)

lemma line_scalars_sample: "line_scalars (utf8 sample) 0 = [104, 233]" "line_scalars (utf8 sample) 1 = [128512, 122]"
proof -
  have "strip_terminator [104, 195, 169, 13, 10] = utf8 [104, 233]" "strip_terminator [240, 159, 152, 128, 122] = utf8 [128512, 122]"
    by (simp_all add: strip_terminator_def encode_char_def is_terminator_byte_def)
  then show "line_scalars (utf8 sample) 0 = [104, 233]" "line_scalars (utf8 sample) 1 = [128512, 122]"
    unfolding line_scalars_def split_sample by (simp_all add: chars_utf8 is_scalar_def del: utf8_simps)
qed

lemma line_offset_sample: "line_offset (utf8 sample) 0 = 0" "line_offset (utf8 sample) 1 = 5"
  unfolding line_offset_def split_sample by simp_all

lemma length_sample [simp]: "length (split_lines (utf8 sample)) = 2"
  unfolding split_sample by simp

lemma content_byte_sample: "content_byte (utf8 sample) b \<longleftrightarrow> b \<in> {0, 1, 3, 5, 9, 10}"
proof -
  have two: "(\<exists>i < 2. P i) \<longleftrightarrow> P 0 \<or> P 1" and three: "(\<exists>k \<le> 2. P k) \<longleftrightarrow> P 0 \<or> P 1 \<or> P 2" for P :: "nat \<Rightarrow> bool"
    by (auto simp: less_Suc_eq le_Suc_eq numeral_2_eq_2)
  have len: "length [104::nat, 233] = 2" "length [128512::nat, 122] = 2" by simp_all
  show ?thesis
    unfolding content_byte_def length_sample two line_scalars_sample line_offset_sample len three
    by (auto simp: encode_char_def)
qed


theorem bytes_roundtrip_through_positions_witness:
  "(\<exists>p n m. byte_to_lsp_position 9 (sample_converter Utf16) = (examined n (sample_converter Utf16), Ok p) \<and>
     lsp_position_to_byte p (sample_converter Utf16) = (examined m (sample_converter Utf16), Ok 9)) \<and>
   byte_to_lsp_position 4 (sample_converter Utf16) = (sample_converter Utf16, Err ByteNotRepresentable)"
proof -
  have "content_byte (utf8 sample) 9 \<and> \<not> content_byte (utf8 sample) 4"
    unfolding content_byte_sample by simp
  then show ?thesis
    using bytes_roundtrip_through_positions[OF sample_converts sample_converts refl, of 9 Utf16]
      bytes_roundtrip_through_positions[OF sample_converts sample_converts refl, of 4 Utf16]
    by simp
qed

theorem user_positions_roundtrip_witness:
  "\<exists>b n m. user_line_scalar_to_byte 2 2 (sample_converter Utf8) = (examined n (sample_converter Utf8), Ok b) \<and>
     byte_to_user_line_scalar b (sample_converter Utf32) = (examined m (sample_converter Utf32), Ok (2, Some 2))"
  using user_positions_roundtrip[OF sample_converts sample_converts, of 2 2 Utf8 Utf32] line_scalars_sample(2)
  by (simp add: split_sample u64_max_def)

end
