(* ===== verification/Json_Rpc.thy ===== *)
theory Json_Rpc
  imports Fs_Types Utf8
begin

text \<open>
  JSON-RPC framing and envelopes (\<open>crates/srcmv-lsp/src/jsonrpc.rs\<close>): the header parser, the
  incremental \<open>FrameDecoder\<close>, the blocking reader, the nesting bound, the classification of
  messages and the correlation of responses. The parser and the serializer of \<open>serde_json\<close>
  are parameters; a body is a byte list and a \<open>Value\<close> has the constructors the source matches on.
\<close>

section \<open>Data\<close>

text \<open>\<open>serde_json\<close>: numbers keep an unsigned or a negative integer, or are not integers.\<close>

datatype Number = PosInt nat | NegInt int | Float

datatype Value =
    Null
  | Bool bool
  | Number Number
  | String string
  | Array "Value list"
  | Object "(string \<times> Value) list"

definition i64_max :: nat where "i64_max = 9223372036854775807"

fun as_u64 :: "Number \<Rightarrow> nat option" where
  "as_u64 (PosInt n) = Some n"
| "as_u64 _ = None"

fun as_i64 :: "Number \<Rightarrow> int option" where
  "as_i64 (PosInt n) = (if n \<le> i64_max then Some (int n) else None)"
| "as_i64 (NegInt i) = Some i"
| "as_i64 Float = None"

fun is_array :: "Value \<Rightarrow> bool" where
  "is_array (Array _) = True"
| "is_array _ = False"

fun is_object :: "Value \<Rightarrow> bool" where
  "is_object (Object _) = True"
| "is_object _ = False"

record FramingLimits =
  max_header_bytes :: nat
  max_inbound_body_bytes :: nat
  max_outbound_body_bytes :: nat

definition default_framing_limits :: FramingLimits where
  "default_framing_limits = \<lparr>max_header_bytes = 16 * 1024, max_inbound_body_bytes = 16 * 1024 * 1024,
     max_outbound_body_bytes = 64 * 1024 * 1024\<rparr>"

record EnvelopeLimits =
  max_json_depth :: nat
  max_id_bytes :: nat
  max_method_bytes :: nat
  max_params_bytes :: nat

definition default_envelope_limits :: EnvelopeLimits where
  "default_envelope_limits = \<lparr>max_json_depth = 64, max_id_bytes = 256, max_method_bytes = 256,
     max_params_bytes = 1024 * 1024\<rparr>"

datatype FrameSection = HeaderSection | BodySection

datatype EnvelopeViolation =
    InvalidShape
  | InvalidVersion
  | RequestContainsResponseMembers
  | ResponseContainsRequestMembers
  | InvalidResponsePayload
  | InvalidParams
  | InvalidErrorObject

type_synonym ClientRequestId = nat

datatype JsonRpcError =
    RpcIo string ErrorKind
  | UnexpectedEof FrameSection
  | HeaderTooLarge nat
  | NonAsciiHeader
  | MalformedHeader
  | MissingContentLength
  | DuplicateContentLength
  | InvalidContentLength
  | ContentLengthOverflow
  | DuplicateContentType
  | UnsupportedContentType
  | InboundBodyTooLarge nat nat
  | OutboundBodyTooLarge nat nat
  | MalformedJson
  | JsonNestingTooDeep nat nat
  | BatchUnsupported
  | InvalidEnvelope EnvelopeViolation
  | InvalidId
  | IdTooLarge nat nat
  | MethodTooLong nat nat
  | ParamsTooLarge nat nat
  | PendingRequestLimit nat
  | ClientRequestIdsExhausted
  | DuplicateResponseId ClientRequestId
  | UnknownResponseId ClientRequestId

datatype ServerRequestId = IntegerId int | UnsignedId nat | StringId string

record ServerRequest =
  sq_id :: ServerRequestId
  sq_method :: string
  sq_params :: "Value option"

record ServerNotification =
  nt_method :: string
  nt_params :: "Value option"

record ResponseError =
  re_code :: int
  re_message :: string
  re_data :: "Value option"

datatype ResponsePayload = Result Value | Error ResponseError

record ClientResponse =
  rp_id :: ClientRequestId
  rp_payload :: ResponsePayload

datatype IncomingMessage =
    Request ServerRequest
  | Notification ServerNotification
  | Response ClientResponse

section \<open>Headers\<close>

text \<open>Functions of the standard library on bytes.\<close>

definition byte_of :: "char \<Rightarrow> u8" where
  "byte_of c = of_nat (of_char c)"

definition is_ascii :: "u8 \<Rightarrow> bool" where
  "is_ascii b \<longleftrightarrow> b < 128"

definition is_digit_byte :: "u8 \<Rightarrow> bool" where
  "is_digit_byte b \<longleftrightarrow> 48 \<le> b \<and> b \<le> 57"

definition is_ascii_alphanumeric :: "u8 \<Rightarrow> bool" where
  "is_ascii_alphanumeric b \<longleftrightarrow> is_digit_byte b \<or> 65 \<le> b \<and> b \<le> 90 \<or> 97 \<le> b \<and> b \<le> 122"

definition lower_byte :: "u8 \<Rightarrow> u8" where
  "lower_byte b = (if 65 \<le> b \<and> b \<le> 90 then b + 32 else b)"

definition bytes_eq_ignore_case :: "bytes \<Rightarrow> bytes \<Rightarrow> bool" where
  "bytes_eq_ignore_case a b \<longleftrightarrow> map lower_byte a = map lower_byte b"

definition ends_with_bytes :: "bytes \<Rightarrow> bytes \<Rightarrow> bool" where
  "ends_with_bytes suffix bs \<longleftrightarrow> length suffix \<le> length bs \<and> drop (length bs - length suffix) bs = suffix"

fun position :: "('a \<Rightarrow> bool) \<Rightarrow> 'a list \<Rightarrow> nat option" where
  "position P [] = None"
| "position P (x # xs) = (if P x then Some 0 else map_option Suc (position P xs))"

fun split_bytes :: "u8 \<Rightarrow> bytes \<Rightarrow> bytes list" where
  "split_bytes c [] = [[]]"
| "split_bytes c (x # xs) =
     (if x = c then [] # split_bytes c xs
      else case split_bytes c xs of p # ps \<Rightarrow> (x # p) # ps | [] \<Rightarrow> [[x]])"

fun split_crlf :: "bytes \<Rightarrow> bytes list" where
  "split_crlf (x # y # xs) =
     (if x = 13 \<and> y = 10 then [] # split_crlf xs
      else case split_crlf (y # xs) of p # ps \<Rightarrow> (x # p) # ps | [] \<Rightarrow> [[x]])"
| "split_crlf [x] = [[x]]"
| "split_crlf [] = [[]]"

definition TERMINATOR :: bytes where "TERMINATOR = [13, 10, 13, 10]"

definition is_blank :: "u8 \<Rightarrow> bool" where
  "is_blank b \<longleftrightarrow> b = 32 \<or> b = 9"

definition trim_ascii_whitespace :: "bytes \<Rightarrow> bytes" where
  "trim_ascii_whitespace bs = rev (dropWhile is_blank (rev (dropWhile is_blank bs)))"

definition is_header_name_byte :: "u8 \<Rightarrow> bool" where
  "is_header_name_byte b \<longleftrightarrow>
     is_ascii_alphanumeric b \<or> b \<in> set (as_bytes ''!#$%&'' @ [39] @ as_bytes ''*+-.^_'' @ [96] @ as_bytes ''|~'')"

definition length_digit :: "nat \<Rightarrow> u8 \<Rightarrow> JsonRpcError + nat" where
  "length_digit n digit =
     (case checked_mul_u64 n 10 of
        None \<Rightarrow> Err ContentLengthOverflow
      | Some m \<Rightarrow> ok_or (checked_add_u64 m (unat (digit - 48))) ContentLengthOverflow)"

definition parse_content_length :: "bytes \<Rightarrow> JsonRpcError + nat" where
  "parse_content_length v =
     (if v = [] \<or> \<not> list_all is_digit_byte v then Err InvalidContentLength
      else try_fold length_digit 0 v)"

definition charset_parameter :: "bool \<Rightarrow> bytes \<Rightarrow> JsonRpcError + bool" where
  "charset_parameter saw_charset component =
     (let component = trim_ascii_whitespace component in
      and_then (ok_or (position (\<lambda>b. b = byte_of CHR ''='') component) UnsupportedContentType) (\<lambda>equals.
      let name = trim_ascii_whitespace (take equals component);
          parameter_value = trim_ascii_whitespace (drop (equals + 1) component) in
      if \<not> bytes_eq_ignore_case name (as_bytes ''charset'') \<or> saw_charset then Err UnsupportedContentType
      else if \<not> bytes_eq_ignore_case parameter_value (as_bytes ''utf-8'') \<and>
          \<not> bytes_eq_ignore_case parameter_value (as_bytes ''utf8'')
      then Err UnsupportedContentType
      else Ok True))"

definition validate_content_type :: "bytes \<Rightarrow> JsonRpcError + unit" where
  "validate_content_type v =
     (let components = split_bytes (byte_of CHR '';'') v;
          media_type = trim_ascii_whitespace (hd components) in
      if \<not> bytes_eq_ignore_case media_type (as_bytes ''application/vscode-jsonrpc'') then Err UnsupportedContentType
      else and_then (try_fold charset_parameter False (tl components)) (\<lambda>_. Ok ()))"

definition header_line :: "nat option \<times> bool \<Rightarrow> bytes \<Rightarrow> JsonRpcError + (nat option \<times> bool)" where
  "header_line st line =
     (case st of (content_length, saw_content_type) \<Rightarrow>
      if 13 \<in> set line \<or> 10 \<in> set line then Err MalformedHeader
      else
        and_then (ok_or (position (\<lambda>b. b = byte_of CHR '':'') line) MalformedHeader) (\<lambda>colon.
        let name = take colon line; v = trim_ascii_whitespace (drop (colon + 1) line) in
        if name = [] \<or> \<not> list_all is_header_name_byte name \<or>
           \<not> list_all (\<lambda>b. b = 9 \<or> 32 \<le> b \<and> b \<le> 126) v
        then Err MalformedHeader
        else if bytes_eq_ignore_case name (as_bytes ''Content-Length'') then
          if content_length \<noteq> None then Err DuplicateContentLength
          else and_then (parse_content_length v) (\<lambda>n. Ok (Some n, saw_content_type))
        else if bytes_eq_ignore_case name (as_bytes ''Content-Type'') then
          if saw_content_type then Err DuplicateContentType
          else and_then (validate_content_type v) (\<lambda>_. Ok (content_length, True))
        else Ok (content_length, saw_content_type)))"

definition parse_header :: "bytes \<Rightarrow> JsonRpcError + nat" where
  "parse_header header =
     (if \<not> ends_with_bytes TERMINATOR header then Err MalformedHeader
      else
        let payload = take (length header - 4) header in
        if \<not> valid_utf8 payload then Err NonAsciiHeader
        else and_then (try_fold header_line (None, False) (split_crlf payload)) (\<lambda>(content_length, _).
          ok_or content_length MissingContentLength))"

section \<open>The frame decoder\<close>

datatype DecoderState = Header bytes | Body bytes nat

record FrameDecoder =
  fd_limits :: FramingLimits
  fd_state :: DecoderState

definition new_decoder :: "FramingLimits \<Rightarrow> FrameDecoder" where
  "new_decoder limits = \<lparr>fd_limits = limits, fd_state = Header []\<rparr>"

definition is_mid_frame :: "FrameDecoder \<Rightarrow> bool" where
  "is_mid_frame d = (case fd_state d of Header header \<Rightarrow> header \<noteq> [] | Body _ _ \<Rightarrow> True)"

text \<open>One byte of a header: the header so far, the decoder and the completed bodies after it.\<close>

definition push_header_byte ::
    "FrameDecoder \<Rightarrow> bytes \<Rightarrow> u8 \<Rightarrow> FrameDecoder \<times> (JsonRpcError + bytes list)" where
  "push_header_byte d header byte =
     (let limit = max_header_bytes (fd_limits d) in
      if length header = limit then (d, Err (HeaderTooLarge limit))
      else if \<not> is_ascii byte then (d, Err NonAsciiHeader)
      else
        let header = header @ [byte]; d = d\<lparr>fd_state := Header header\<rparr> in
        if ends_with_bytes TERMINATOR header then
          case parse_header header of
            Err e \<Rightarrow> (d, Err e)
          | Ok content_length \<Rightarrow>
              if max_inbound_body_bytes (fd_limits d) < content_length
              then (d, Err (InboundBodyTooLarge content_length (max_inbound_body_bytes (fd_limits d))))
              else if content_length = 0 then (d\<lparr>fd_state := Header []\<rparr>, Ok [[]])
              else (d\<lparr>fd_state := Body [] content_length\<rparr>, Ok [])
        else if length header = limit then (d, Err (HeaderTooLarge limit))
        else (d, Ok []))"

text \<open>
  The loop of \<open>push\<close>. Nothing in its text bounds it: a body that were longer than expected would
  never consume the chunk.
\<close>

partial_function (option) push_loop ::
    "FrameDecoder \<Rightarrow> bytes \<Rightarrow> bytes list \<Rightarrow> (FrameDecoder \<times> (JsonRpcError + bytes list)) option" where
  "push_loop d chunk completed =
     (if chunk = [] then Some (d, Ok completed)
      else case fd_state d of
        Header header \<Rightarrow>
          (case push_header_byte d header (hd chunk) of
             (d, Err e) \<Rightarrow> Some (d, Err e)
           | (d, Ok bodies) \<Rightarrow> push_loop d (tl chunk) (completed @ bodies))
      | Body bs expected \<Rightarrow>
          let n = min (expected - length bs) (length chunk); bs = bs @ take n chunk in
          if length bs = expected
          then push_loop (d\<lparr>fd_state := Header []\<rparr>) (drop n chunk) (completed @ [bs])
          else push_loop (d\<lparr>fd_state := Body bs expected\<rparr>) (drop n chunk) completed)"

definition push :: "FrameDecoder \<Rightarrow> bytes \<Rightarrow> (FrameDecoder \<times> (JsonRpcError + bytes list)) option" where
  "push d chunk = push_loop d chunk []"

definition finish :: "FrameDecoder \<Rightarrow> JsonRpcError + unit" where
  "finish d =
     (case fd_state d of
        Header header \<Rightarrow> if header = [] then Ok () else Err (UnexpectedEof HeaderSection)
      | Body _ _ \<Rightarrow> Err (UnexpectedEof BodySection))"

definition validate_raw_json_depth :: "bytes \<Rightarrow> nat \<Rightarrow> JsonRpcError + unit" where
  "validate_raw_json_depth body limit =
     and_then (try_fold (\<lambda>(depth, in_string, escaped) byte.
       if in_string then
         if escaped then Ok (depth, in_string, False)
         else if byte = 92 then Ok (depth, in_string, True)
         else if byte = 34 then Ok (depth, False, escaped)
         else Ok (depth, in_string, escaped)
       else if byte = 34 then Ok (depth, True, escaped)
       else if byte = 123 \<or> byte = 91 then
         let depth = saturating_add_u64 depth 1 in
         if limit < depth then Err (JsonNestingTooDeep depth limit) else Ok (depth, in_string, escaped)
       else if byte = 125 \<or> byte = 93 then Ok (depth - 1, in_string, escaped)
       else Ok (depth, in_string, escaped)) (0, False, False) body) (\<lambda>_. Ok ())"

section \<open>The blocking reader\<close>

text \<open>
  A reader answers a call that asks for \<open>n\<close> bytes with at most \<open>n\<close> bytes, or with an error;
  its answers are a list of chunks, and \<open>Interrupted\<close> is retried. The stream after the call is
  part of the result.
\<close>

datatype ReadAnswer = Chunk bytes | Interrupted | Failure ErrorKind

fun answer_size :: "ReadAnswer \<Rightarrow> nat" where
  "answer_size (Chunk bs) = Suc (length bs)"
| "answer_size _ = 1"

function (sequential) read_header :: "ReadAnswer list \<Rightarrow> nat \<Rightarrow> bytes \<Rightarrow> ReadAnswer list \<times> (JsonRpcError + bytes option)" where
  "read_header [] limit header =
     ([], if header = [] then Ok None else Err (UnexpectedEof HeaderSection))"
| "read_header (Interrupted # answers) limit header = read_header answers limit header"
| "read_header (Failure kind # answers) limit header = (answers, Err (RpcIo ''read LSP header'' kind))"
| "read_header (Chunk [] # answers) limit header =
     (answers, if header = [] then Ok None else Err (UnexpectedEof HeaderSection))"
| "read_header (Chunk (byte # later) # answers) limit header =
     (let answers = (if later = [] then answers else Chunk later # answers) in
      if length header = limit then (answers, Err (HeaderTooLarge limit))
      else if \<not> is_ascii byte then (answers, Err NonAsciiHeader)
      else
        let header = header @ [byte] in
        if ends_with_bytes TERMINATOR header then (answers, Ok (Some header))
        else if length header = limit then (answers, Err (HeaderTooLarge limit))
        else read_header answers limit header)"
  by pat_completeness auto
termination
  by (relation "measure (\<lambda>(answers, limit, header). sum_list (map answer_size answers))") (auto split: if_splits)

text \<open>\<open>read_exact_section\<close> fills a buffer of \<open>n\<close> bytes; \<open>body\<close> is what it holds so far.\<close>

function read_exact_section ::
    "ReadAnswer list \<Rightarrow> nat \<Rightarrow> FrameSection \<Rightarrow> bytes \<Rightarrow> ReadAnswer list \<times> (JsonRpcError + bytes)" where
  "read_exact_section answers n section body =
     (if n = 0 then (answers, Ok body)
      else case answers of
        [] \<Rightarrow> ([], Err (UnexpectedEof section))
      | Interrupted # answers \<Rightarrow> read_exact_section answers n section body
      | Failure kind # answers \<Rightarrow> (answers, Err (RpcIo ''read LSP body'' kind))
      | Chunk bs # answers \<Rightarrow>
          if bs = [] then (answers, Err (UnexpectedEof section))
          else
            let k = min n (length bs); answers = (if length bs \<le> n then answers else Chunk (drop n bs) # answers) in
            read_exact_section answers (n - k) section (body @ take k bs))"
  by pat_completeness auto
termination
  by (relation "measures [\<lambda>(answers, n, section, body). n, \<lambda>(answers, n, section, body). length answers]") auto

declare read_exact_section.simps [simp del]

definition read_body ::
    "ReadAnswer list \<Rightarrow> FramingLimits \<Rightarrow> ReadAnswer list \<times> (JsonRpcError + bytes option)" where
  "read_body answers limits =
     (case read_header answers (max_header_bytes limits) [] of
        (answers, Err e) \<Rightarrow> (answers, Err e)
      | (answers, Ok None) \<Rightarrow> (answers, Ok None)
      | (answers, Ok (Some header)) \<Rightarrow>
          (case parse_header header of
             Err e \<Rightarrow> (answers, Err e)
           | Ok content_length \<Rightarrow>
               if max_inbound_body_bytes limits < content_length
               then (answers, Err (InboundBodyTooLarge content_length (max_inbound_body_bytes limits)))
               else
                 (case read_exact_section answers content_length BodySection [] of
                    (answers, Err e) \<Rightarrow> (answers, Err e)
                  | (answers, Ok body) \<Rightarrow> (answers, Ok (Some body)))))"

section \<open>Envelopes\<close>

definition invalid_envelope :: "EnvelopeViolation \<Rightarrow> JsonRpcError + 'a" where
  "invalid_envelope violation = Err (InvalidEnvelope violation)"

definition serialized_length :: "(Value \<Rightarrow> bytes option) \<Rightarrow> Value \<Rightarrow> JsonRpcError + nat" where
  "serialized_length to_json v = and_then (ok_or (to_json v) MalformedJson) (\<lambda>bs. Ok (length bs))"

definition validate_params :: "(Value \<Rightarrow> bytes option) \<Rightarrow> Value option \<Rightarrow> nat \<Rightarrow> JsonRpcError + unit" where
  "validate_params to_json params limit =
     (case params of
        None \<Rightarrow> Ok ()
      | Some params \<Rightarrow>
          if params \<noteq> Null \<and> \<not> is_array params \<and> \<not> is_object params then invalid_envelope InvalidParams
          else and_then (serialized_length to_json params) (\<lambda>n. ensure (n \<le> limit) (ParamsTooLarge n limit)))"

definition parse_server_request_id :: "(Value \<Rightarrow> bytes option) \<Rightarrow> Value \<Rightarrow> nat \<Rightarrow> JsonRpcError + ServerRequestId" where
  "parse_server_request_id to_json v limit =
     and_then (serialized_length to_json v) (\<lambda>n.
     if limit < n then Err (IdTooLarge n limit)
     else case v of
       Number number \<Rightarrow>
         (case as_i64 number of
            Some i \<Rightarrow> Ok (IntegerId i)
          | None \<Rightarrow> (case as_u64 number of Some n \<Rightarrow> Ok (UnsignedId n) | None \<Rightarrow> Err InvalidId))
     | String s \<Rightarrow> Ok (StringId s)
     | _ \<Rightarrow> Err InvalidId)"

definition parse_response_error :: "Value \<Rightarrow> JsonRpcError + ResponseError" where
  "parse_response_error v =
     (case v of
        Object members \<Rightarrow>
          and_then (ok_or (case bt_get members ''code'' of Some (Number number) \<Rightarrow> as_i64 number | _ \<Rightarrow> None)
            (InvalidEnvelope InvalidErrorObject)) (\<lambda>code.
          case bt_get members ''message'' of
            Some (String message) \<Rightarrow> Ok \<lparr>re_code = code, re_message = message, re_data = bt_get members ''data''\<rparr>
          | _ \<Rightarrow> invalid_envelope InvalidErrorObject)
      | _ \<Rightarrow> invalid_envelope InvalidErrorObject)"

definition classify_request_or_notification ::
    "(Value \<Rightarrow> bytes option) \<Rightarrow> (string \<times> Value) list \<Rightarrow> EnvelopeLimits \<Rightarrow> JsonRpcError + IncomingMessage" where
  "classify_request_or_notification to_json members limits =
     (if bt_get members ''result'' \<noteq> None \<or> bt_get members ''error'' \<noteq> None
      then invalid_envelope RequestContainsResponseMembers
      else case bt_get members ''method'' of
        Some (String method) \<Rightarrow>
          if max_method_bytes limits < length method
          then Err (MethodTooLong (length method) (max_method_bytes limits))
          else
            let params = bt_get members ''params'' in
            and_then (validate_params to_json params (max_params_bytes limits)) (\<lambda>_.
            case bt_get members ''id'' of
              Some v \<Rightarrow>
                and_then (parse_server_request_id to_json v (max_id_bytes limits)) (\<lambda>identifier.
                Ok (Request \<lparr>sq_id = identifier, sq_method = method, sq_params = params\<rparr>))
            | None \<Rightarrow> Ok (Notification \<lparr>nt_method = method, nt_params = params\<rparr>))
      | _ \<Rightarrow> invalid_envelope InvalidShape)"

definition classify_response :: "(string \<times> Value) list \<Rightarrow> JsonRpcError + IncomingMessage" where
  "classify_response members =
     (if bt_get members ''params'' \<noteq> None then invalid_envelope ResponseContainsRequestMembers
      else
        and_then (case bt_get members ''id'' of
            Some (Number number) \<Rightarrow> ok_or (as_u64 number) InvalidId
          | _ \<Rightarrow> Err InvalidId) (\<lambda>identifier.
        if (bt_get members ''result'' \<noteq> None) = (bt_get members ''error'' \<noteq> None)
        then invalid_envelope InvalidResponsePayload
        else
          and_then (case bt_get members ''result'' of
              Some result \<Rightarrow> Ok (Result result)
            | None \<Rightarrow>
                and_then (ok_or (bt_get members ''error'') (InvalidEnvelope InvalidResponsePayload)) (\<lambda>e.
                and_then (parse_response_error e) (\<lambda>e. Ok (Error e)))) (\<lambda>payload.
          Ok (Response \<lparr>rp_id = identifier, rp_payload = payload\<rparr>))))"

definition classify_message :: "(Value \<Rightarrow> bytes option) \<Rightarrow> Value \<Rightarrow> EnvelopeLimits \<Rightarrow> JsonRpcError + IncomingMessage" where
  "classify_message to_json v limits =
     (if is_array v then Err BatchUnsupported
      else case v of
        Object members \<Rightarrow>
          if bt_get members ''jsonrpc'' \<noteq> Some (String ''2.0'') then invalid_envelope InvalidVersion
          else if bt_get members ''method'' \<noteq> None then classify_request_or_notification to_json members limits
          else classify_response members
      | _ \<Rightarrow> invalid_envelope InvalidShape)"

definition decode_body ::
    "(bytes \<Rightarrow> Value option) \<Rightarrow> (Value \<Rightarrow> bytes option) \<Rightarrow> bytes \<Rightarrow> EnvelopeLimits \<Rightarrow> JsonRpcError + IncomingMessage" where
  "decode_body from_slice to_json body limits =
     and_then (validate_raw_json_depth body (max_json_depth limits)) (\<lambda>_.
     and_then (ok_or (from_slice body) MalformedJson) (\<lambda>v.
     classify_message to_json v limits))"

definition read_message ::
    "(bytes \<Rightarrow> Value option) \<Rightarrow> (Value \<Rightarrow> bytes option) \<Rightarrow> ReadAnswer list \<Rightarrow> FramingLimits \<Rightarrow> EnvelopeLimits
      \<Rightarrow> ReadAnswer list \<times> (JsonRpcError + IncomingMessage option)" where
  "read_message from_slice to_json answers framing_limits envelope_limits =
     (case read_body answers framing_limits of
        (answers, Err e) \<Rightarrow> (answers, Err e)
      | (answers, Ok None) \<Rightarrow> (answers, Ok None)
      | (answers, Ok (Some body)) \<Rightarrow>
          (answers, and_then (decode_body from_slice to_json body envelope_limits) (\<lambda>m. Ok (Some m))))"

definition encode_message :: "(Value \<Rightarrow> bytes option) \<Rightarrow> Value \<Rightarrow> FramingLimits \<Rightarrow> JsonRpcError + bytes" where
  "encode_message to_json v limits =
     and_then (ok_or (to_json v) MalformedJson) (\<lambda>body.
     if max_outbound_body_bytes limits < length body
     then Err (OutboundBodyTooLarge (length body) (max_outbound_body_bytes limits))
     else
       let header = as_bytes ''Content-Length: '' @ as_bytes (decimal (length body)) @ [13, 10, 13, 10] in
       and_then (ok_or (checked_add_u64 (length header) (length body))
         (OutboundBodyTooLarge (length body) (max_outbound_body_bytes limits))) (\<lambda>_.
       Ok (header @ body)))"

section \<open>Correlation\<close>

record ResponseCorrelator =
  rc_next_id :: nat
  rc_pending :: "ClientRequestId set"
  rc_max_pending :: nat

definition new_correlator :: "nat \<Rightarrow> ResponseCorrelator" where
  "new_correlator max_pending = \<lparr>rc_next_id = 1, rc_pending = {}, rc_max_pending = max_pending\<rparr>"

definition begin_request :: "ResponseCorrelator \<Rightarrow> ResponseCorrelator \<times> (JsonRpcError + ClientRequestId)" where
  "begin_request c =
     (if rc_max_pending c \<le> card (rc_pending c) then (c, Err (PendingRequestLimit (rc_max_pending c)))
      else case checked_add_u64 (rc_next_id c) 1 of
        None \<Rightarrow> (c, Err ClientRequestIdsExhausted)
      | Some following \<Rightarrow>
          (c\<lparr>rc_next_id := following, rc_pending := insert (rc_next_id c) (rc_pending c)\<rparr>, Ok (rc_next_id c)))"

definition complete :: "ResponseCorrelator \<Rightarrow> ClientRequestId \<Rightarrow> ResponseCorrelator \<times> (JsonRpcError + unit)" where
  "complete c i =
     (if i \<in> rc_pending c then (c\<lparr>rc_pending := rc_pending c - {i}\<rparr>, Ok ())
      else if 0 < i \<and> i < rc_next_id c then (c, Err (DuplicateResponseId i))
      else (c, Err (UnknownResponseId i)))"

section \<open>The decoder on single bytes\<close>

text \<open>The reference: a machine that consumes one byte at a time and stops at the first error.\<close>

definition feed_byte :: "FrameDecoder \<Rightarrow> u8 \<Rightarrow> FrameDecoder \<times> (JsonRpcError + bytes list)" where
  "feed_byte d byte =
     (case fd_state d of
        Header header \<Rightarrow> push_header_byte d header byte
      | Body bs expected \<Rightarrow>
          if Suc (length bs) = expected then (d\<lparr>fd_state := Header []\<rparr>, Ok [bs @ [byte]])
          else (d\<lparr>fd_state := Body (bs @ [byte]) expected\<rparr>, Ok []))"

fun feed :: "FrameDecoder \<Rightarrow> bytes \<Rightarrow> bytes list \<Rightarrow> FrameDecoder \<times> (JsonRpcError + bytes list)" where
  "feed d [] completed = (d, Ok completed)"
| "feed d (byte # bs) completed =
     (case feed_byte d byte of
        (d, Err e) \<Rightarrow> (d, Err e)
      | (d, Ok bodies) \<Rightarrow> feed d bs (completed @ bodies))"

definition valid_decoder :: "FrameDecoder \<Rightarrow> bool" where
  "valid_decoder d \<longleftrightarrow> (case fd_state d of Header _ \<Rightarrow> True | Body bs expected \<Rightarrow> length bs < expected)"

lemma new_decoder_valid [simp]: "valid_decoder (new_decoder limits)"
  by (simp add: valid_decoder_def new_decoder_def)

lemma push_header_byte_valid:
  "push_header_byte d header byte = (d', Ok bodies) \<Longrightarrow> valid_decoder d'"
  by (auto simp: push_header_byte_def Let_def valid_decoder_def split: if_split_asm sum.split_asm)

lemma feed_byte_valid: "valid_decoder d \<Longrightarrow> feed_byte d byte = (d', Ok bodies) \<Longrightarrow> valid_decoder d'"
  by (auto simp: feed_byte_def valid_decoder_def split: DecoderState.split_asm if_split_asm
      dest: push_header_byte_valid[unfolded valid_decoder_def])

lemma feed_append:
  "feed d (xs @ ys) completed =
     (case feed d xs completed of (d, Err e) \<Rightarrow> (d, Err e) | (d, Ok bodies) \<Rightarrow> feed d ys bodies)"
  by (induction d xs completed rule: feed.induct) (auto split: prod.split sum.split)

lemma feed_valid: "valid_decoder d \<Longrightarrow> feed d bs completed = (d', Ok bodies) \<Longrightarrow> valid_decoder d'"
  by (induction d bs completed rule: feed.induct)
    (auto split: prod.split_asm sum.split_asm dest: feed_byte_valid)

lemma feed_body:
  assumes "fd_state d = Body bs expected" "length bs + length xs \<le> expected" "length bs < expected"
  shows "feed d (xs @ ys) completed =
    (if length bs + length xs = expected then feed (d\<lparr>fd_state := Header []\<rparr>) ys (completed @ [bs @ xs])
     else feed (d\<lparr>fd_state := Body (bs @ xs) expected\<rparr>) ys completed)"
  using assms
proof (induction xs arbitrary: d bs)
  case Nil
  then show ?case by simp (metis FrameDecoder.surjective FrameDecoder.update_convs(2) old.unit.exhaust)
next
  case (Cons x xs)
  show ?case
  proof (cases "Suc (length bs) = expected")
    case True
    then have "length xs = 0" using Cons.prems(2) unfolding list.size by linarith
    then have "xs = []" by simp
    then show ?thesis using Cons.prems True by (simp add: feed_byte_def)
  next
    case False
    let ?d = "d\<lparr>fd_state := Body (bs @ [x]) expected\<rparr>"
    have "feed ?d (xs @ ys) completed =
      (if length (bs @ [x]) + length xs = expected then feed (?d\<lparr>fd_state := Header []\<rparr>) ys (completed @ [(bs @ [x]) @ xs])
       else feed (?d\<lparr>fd_state := Body ((bs @ [x]) @ xs) expected\<rparr>) ys completed)"
      by (rule Cons.IH) (use Cons.prems False in auto)
    then show ?thesis using Cons.prems False by (simp add: feed_byte_def)
  qed
qed

text \<open>The loop of \<open>push\<close> returns, with the result of the machine.\<close>

lemma push_loop_feed:
  "valid_decoder d \<Longrightarrow> push_loop d chunk completed = Some (feed d chunk completed)"
proof (induction "length chunk" arbitrary: d chunk completed rule: less_induct)
  case less
  show ?case
  proof (cases chunk)
    case Nil
    then show ?thesis by (simp add: push_loop.simps)
  next
    case (Cons x xs)
    show ?thesis
    proof (cases "fd_state d")
      case (Header header)
      show ?thesis
      proof (cases "push_header_byte d header x")
        case (Pair d' r)
        show ?thesis
        proof (cases r)
          case (Inl e)
          then show ?thesis using Pair Header Cons by (subst push_loop.simps) (simp add: feed_byte_def)
        next
          case (Inr bodies)
          then have "push_loop d' xs (completed @ bodies) = Some (feed d' xs (completed @ bodies))"
            using less.hyps[of xs d'] Cons Pair push_header_byte_valid by simp
          then show ?thesis using Pair Header Cons Inr by (subst push_loop.simps) (simp add: feed_byte_def)
        qed
      qed
    next
      case (Body bs expected)
      let ?n = "min (expected - length bs) (length chunk)"
      let ?d = "if length (bs @ take ?n chunk) = expected then d\<lparr>fd_state := Header []\<rparr>
        else d\<lparr>fd_state := Body (bs @ take ?n chunk) expected\<rparr>"
      let ?c = "if length (bs @ take ?n chunk) = expected then completed @ [bs @ take ?n chunk] else completed"
      have lt: "length bs < expected" using less.prems Body by (simp add: valid_decoder_def)
      have "valid_decoder ?d" using lt by (auto simp: valid_decoder_def)
      then have "push_loop ?d (drop ?n chunk) ?c = Some (feed ?d (drop ?n chunk) ?c)"
        using less.hyps lt Cons by simp
      moreover have "feed d (take ?n chunk @ drop ?n chunk) completed = feed ?d (drop ?n chunk) ?c"
        by (subst feed_body[OF Body _ lt]) (use lt in \<open>auto simp del: append_take_drop_id\<close>)
      ultimately show ?thesis
        using Body Cons by (subst push_loop.simps) (simp add: Let_def split: if_splits)
    qed
  qed
qed

lemma push_feed: "valid_decoder d \<Longrightarrow> push d chunk = Some (feed d chunk [])"
  by (simp add: push_def push_loop_feed)

text \<open>Pushing a list of chunks, until the first error.\<close>

fun push_all :: "FrameDecoder \<Rightarrow> bytes list \<Rightarrow> bytes list \<Rightarrow> (FrameDecoder \<times> (JsonRpcError + bytes list)) option" where
  "push_all d [] completed = Some (d, Ok completed)"
| "push_all d (chunk # chunks) completed =
     (case push d chunk of
        None \<Rightarrow> None
      | Some (d, Err e) \<Rightarrow> Some (d, Err e)
      | Some (d, Ok bodies) \<Rightarrow> push_all d chunks (completed @ bodies))"

lemma feed_completed:
  "feed d bs completed = (case feed d bs [] of (d, Err e) \<Rightarrow> (d, Err e) | (d, Ok bodies) \<Rightarrow> (d, Ok (completed @ bodies)))"
proof (induction bs arbitrary: d completed)
  case (Cons b bs)
  show ?case
  proof (cases "feed_byte d b")
    case (Pair d' r)
    show ?thesis
    proof (cases r)
      case (Inr bodies)
      show ?thesis
        using Pair Inr Cons.IH[of d' "completed @ bodies"] Cons.IH[of d' bodies]
        by (auto split: prod.split sum.split)
    qed (simp add: Pair)
  qed
qed simp

lemma push_all_feed:
  "valid_decoder d \<Longrightarrow> push_all d chunks completed = Some (feed d (concat chunks) completed)"
proof (induction chunks arbitrary: d completed)
  case (Cons chunk chunks)
  show ?case
  proof (cases "feed d chunk []")
    case (Pair d' r)
    have c: "feed d chunk completed = (case r of Err e \<Rightarrow> (d', Err e) | Ok bodies \<Rightarrow> (d', Ok (completed @ bodies)))"
      by (subst feed_completed) (simp add: Pair)
    show ?thesis
    proof (cases r)
      case (Inl e)
      then show ?thesis using Pair c Cons.prems by (simp add: push_feed feed_append)
    next
      case (Inr bodies)
      then have "valid_decoder d'" using feed_valid[OF Cons.prems] Pair by blast
      then show ?thesis using Pair c Inr Cons.prems Cons.IH[of d' "completed @ bodies"] by (simp add: push_feed feed_append)
    qed
  qed
qed simp


section \<open>Round trip\<close>

lemma as_bytes_append [simp]: "as_bytes (s @ t) = as_bytes s @ as_bytes t"
  by (simp add: as_bytes_def)

definition digit_byte :: "nat \<Rightarrow> u8" where
  "digit_byte d = of_nat (48 + d)"

lemma as_bytes_digit: "d < 10 \<Longrightarrow> as_bytes [digit_char d] = [digit_byte d]"
  by (simp add: as_bytes_def digit_char_def digit_byte_def)

lemma digit_byte_facts:
  assumes "d < 10"
  shows "unat (digit_byte d) = 48 + d" "is_digit_byte (digit_byte d)" "unat (digit_byte d - 48) = d"
proof -
  show u: "unat (digit_byte d) = 48 + d"
    unfolding digit_byte_def by (rule unat_small) (use assms in simp)
  then show "is_digit_byte (digit_byte d)"
    using assms by (simp add: is_digit_byte_def word_le_nat_alt)
  have "48 \<le> digit_byte d" using u by (simp add: word_le_nat_alt)
  then show "unat (digit_byte d - 48) = d"
    using u by (simp add: unat_sub)
qed

lemma decimal_ascii_digits: "list_all is_digit_byte (as_bytes (decimal n)) \<and> as_bytes (decimal n) \<noteq> []"
proof (induction n rule: decimal.induct)
  case (1 n)
  then show ?case
    by (subst decimal.simps, subst (2) decimal.simps) (auto simp: as_bytes_digit digit_byte_facts)
qed

lemma parse_decimal: "n \<le> u64_max \<Longrightarrow> try_fold length_digit 0 (as_bytes (decimal n)) = Ok n"
proof (induction n rule: decimal.induct)
  case (1 n)
  have d: "unat (digit_byte (n mod 10) - 48) = n mod 10" by (simp add: digit_byte_facts)
  show ?case
  proof (cases "n < 10")
    case True
    then show ?thesis
      using "1.prems" by (subst decimal.simps) (simp add: as_bytes_digit length_digit_def checked_mul_u64_def digit_byte_facts checked_add_u64_def)
  next
    case False
    have "n div 10 \<le> u64_max" using "1.prems" by linarith
    then have "try_fold length_digit 0 (as_bytes (decimal (n div 10))) = Ok (n div 10)"
      using "1.IH" False by simp
    moreover have "n div 10 * 10 \<le> u64_max" "n div 10 * 10 + n mod 10 = n" using "1.prems" by auto
    ultimately show ?thesis
      using False "1.prems" d
      by (subst decimal.simps) (simp add: as_bytes_digit try_fold_append length_digit_def checked_mul_u64_def checked_add_u64_def)
  qed
qed

lemma parse_content_length_decimal: "n \<le> u64_max \<Longrightarrow> parse_content_length (as_bytes (decimal n)) = Ok n"
  using decimal_ascii_digits[of n] by (simp add: parse_content_length_def parse_decimal)

lemma length_decimal_Suc: "length (decimal n) \<le> Suc n"
proof (induction n rule: decimal.induct)
  case (1 n)
  then show ?case by (subst decimal.simps) auto
qed

lemma length_decimal_bound: "n < 10 ^ k \<Longrightarrow> 0 < k \<Longrightarrow> length (decimal n) \<le> k"
proof (induction k arbitrary: n)
  case (Suc k)
  show ?case
  proof (cases "n < 10")
    case False
    then have "0 < k" "n div 10 < 10 ^ k" using Suc.prems by (auto intro: gr0I)
    then have "length (decimal (n div 10)) \<le> k" by (rule Suc.IH[rotated])
    then show ?thesis using False by (subst decimal.simps) simp
  qed (simp add: decimal.simps)
qed simp

definition content_length_line :: "nat \<Rightarrow> bytes" where
  "content_length_line n = as_bytes ''Content-Length: '' @ as_bytes (decimal n)"

lemma is_digit_byte_facts:
  assumes "is_digit_byte b"
  shows "is_ascii b" "b \<noteq> 13" "b \<noteq> 10" "b \<noteq> 32" "b \<noteq> 9" "32 \<le> b" "b \<le> 126"
  using assms by (auto simp: is_digit_byte_def is_ascii_def word_le_nat_alt word_less_nat_alt)

lemma split_crlf_none: "13 \<notin> set line \<Longrightarrow> split_crlf line = [line]"
  by (induction line rule: split_crlf.induct) auto

lemma position_append: "\<forall>x\<in>set xs. \<not> P x \<Longrightarrow> P y \<Longrightarrow> position P (xs @ y # ys) = Some (length xs)"
  by (induction xs) auto

lemma content_length_bytes:
  "as_bytes ''Content-Length: '' = as_bytes ''Content-Length'' @ [58, 32]"
  by (simp add: as_bytes_def)

lemma trim_digits:
  assumes "list_all is_digit_byte ds"
  shows "trim_ascii_whitespace (32 # ds) = ds"
proof -
  have same: "dropWhile is_blank xs = xs" if "list_all is_digit_byte xs" for xs
    using that by (cases xs) (auto simp: is_blank_def dest: is_digit_byte_facts)
  then show ?thesis using same[of ds] same[of "rev ds"] assms
    by (simp add: trim_ascii_whitespace_def is_blank_def)
qed

lemma header_line_content_length:
  assumes "n \<le> u64_max"
  shows "header_line (None, False) (content_length_line n) = Ok (Some n, False)"
proof -
  let ?name = "as_bytes ''Content-Length''" and ?ds = "as_bytes (decimal n)"
  have line: "content_length_line n = ?name @ 58 # 32 # ?ds"
    by (simp add: content_length_line_def content_length_bytes)
  have ds: "list_all is_digit_byte ?ds" using decimal_ascii_digits by blast
  have name: "13 \<notin> set ?name" "10 \<notin> set ?name" "58 \<notin> set ?name" "?name \<noteq> []" "list_all is_header_name_byte ?name"
    by (simp_all add: as_bytes_def is_header_name_byte_def is_ascii_alphanumeric_def is_digit_byte_def)
  have "13 \<notin> set (content_length_line n)" "10 \<notin> set (content_length_line n)"
    using ds name(1,2) by (auto simp: line list_all_iff dest: is_digit_byte_facts)
  moreover have "position (\<lambda>b. b = byte_of CHR '':'') (content_length_line n) = Some (length ?name)"
    unfolding line by (rule position_append) (use name(3) in \<open>auto simp: byte_of_def\<close>)
  moreover have "take (length ?name) (content_length_line n) = ?name"
    "drop (length ?name + 1) (content_length_line n) = 32 # ?ds"
    by (simp_all add: line)
  moreover have "list_all (\<lambda>b. b = 9 \<or> 32 \<le> b \<and> b \<le> 126) ?ds"
    using ds by (auto simp: list_all_iff dest: is_digit_byte_facts)
  moreover have "content_length_line n \<noteq> []" by (simp add: line)
  ultimately show ?thesis
    using name(4,5) parse_content_length_decimal[OF assms]
    by (simp add: header_line_def Let_def trim_digits[OF ds] bytes_eq_ignore_case_def)
qed

lemma ascii_char: "is_ascii b \<Longrightarrow> encode_char (unat b) = [b] \<and> is_scalar (unat b)"
  by (auto simp: is_ascii_def encode_char_def is_scalar_def word_less_nat_alt)

lemma ascii_valid: "list_all is_ascii bs \<Longrightarrow> valid_utf8 bs"
proof -
  assume a: "list_all is_ascii bs"
  then have "bs = utf8 (map unat bs) \<and> list_all is_scalar (map unat bs)"
    by (induction bs) (auto simp: ascii_char)
  then show ?thesis using valid_utf8_iff by blast
qed

lemma content_length_line_ascii: "list_all is_ascii (content_length_line n)"
  using decimal_ascii_digits[of n]
  by (auto simp: content_length_line_def list_all_iff dest: is_digit_byte_facts) (auto simp: as_bytes_def is_ascii_def)

lemma content_length_line_no_cr: "13 \<notin> set (content_length_line n)"
  using decimal_ascii_digits[of n]
  by (auto simp: content_length_line_def list_all_iff dest: is_digit_byte_facts) (auto simp: as_bytes_def)

lemma parse_header_content_length:
  assumes "n \<le> u64_max"
  shows "parse_header (content_length_line n @ TERMINATOR) = Ok n"
  using ascii_valid[OF content_length_line_ascii] split_crlf_none[OF content_length_line_no_cr]
    header_line_content_length[OF assms]
  by (simp add: parse_header_def ends_with_bytes_def TERMINATOR_def)

text \<open>A header is recognised at its end and not before.\<close>

lemma no_early_terminator:
  assumes "13 \<notin> set line" "line @ TERMINATOR = pre @ suf" "suf \<noteq> []"
  shows "\<not> ends_with_bytes TERMINATOR pre"
proof
  assume e: "ends_with_bytes TERMINATOR pre"
  have len: "length pre < length line + 4"
    using arg_cong[OF assms(2), of length] assms(3) by (simp add: TERMINATOR_def) (cases suf, auto)
  from e have l: "4 \<le> length pre" "drop (length pre - 4) pre = TERMINATOR"
    by (simp_all add: ends_with_bytes_def TERMINATOR_def numeral_eq_Suc)
  then have "pre ! (length pre - 4) = 13"
    using nth_drop[of "length pre - 4" pre 0] by (simp add: TERMINATOR_def)
  moreover have "pre ! (length pre - 4) = (line @ TERMINATOR) ! (length pre - 4)"
    using l(1) by (auto simp: assms(2) nth_append)
  moreover have lt: "length pre - 4 < length line" using len l(1) by linarith
  moreover have "(line @ TERMINATOR) ! (length pre - 4) = line ! (length pre - 4)"
    using lt by (simp add: nth_append)
  ultimately show False using assms(1) nth_mem by metis
qed

lemma feed_header:
  assumes "13 \<notin> set line" "list_all is_ascii line" "line @ TERMINATOR = pre @ suf" "suf \<noteq> []"
    "length (line @ TERMINATOR) \<le> max_header_bytes (fd_limits d)" "fd_state d = Header pre"
    "parse_header (line @ TERMINATOR) = Ok n" "n \<le> max_inbound_body_bytes (fd_limits d)"
  shows "feed d (suf @ rest) completed =
    (if n = 0 then feed (d\<lparr>fd_state := Header []\<rparr>) rest (completed @ [[]])
     else feed (d\<lparr>fd_state := Body [] n\<rparr>) rest completed)"
  using assms(3-)
proof (induction suf arbitrary: d pre)
  case (Cons x suf)
  let ?d = "d\<lparr>fd_state := Header (pre @ [x])\<rparr>"
  have full: "length pre + Suc (length suf) = length (line @ TERMINATOR)"
    using arg_cong[OF Cons.prems(1), of length] by simp
  then have room: "length pre \<noteq> max_header_bytes (fd_limits d)" using Cons.prems(3) by simp
  have "x \<in> set (line @ TERMINATOR)" using Cons.prems(1) by simp
  then have ascii: "is_ascii x"
    using assms(2) by (auto simp: list_all_iff TERMINATOR_def is_ascii_def)
  show ?case
  proof (cases suf)
    case Nil
    then have p: "pre @ [x] = line @ TERMINATOR" using Cons.prems(1) by simp
    have "ends_with_bytes TERMINATOR (pre @ [x])" unfolding p by (simp add: ends_with_bytes_def)
    then show ?thesis
      using Nil room ascii Cons.prems(4-6) p
      by (simp add: feed_byte_def push_header_byte_def Let_def)
  next
    case (Cons y ys)
    have e: "\<not> ends_with_bytes TERMINATOR (pre @ [x])"
      by (rule no_early_terminator[OF assms(1), of _ suf]) (use Cons.prems(1) Cons in auto)
    have "Suc (length pre) \<noteq> max_header_bytes (fd_limits d)"
      using full Cons Cons.prems(3) by simp
    then have "feed d ((x # suf) @ rest) completed = feed ?d (suf @ rest) completed"
      using e room ascii Cons.prems(4) by (simp add: feed_byte_def push_header_byte_def Let_def)
    moreover have "feed ?d (suf @ rest) completed =
      (if n = 0 then feed (?d\<lparr>fd_state := Header []\<rparr>) rest (completed @ [[]])
       else feed (?d\<lparr>fd_state := Body [] n\<rparr>) rest completed)"
      by (rule Cons.IH[of "pre @ [x]"]) (use Cons.prems Cons in auto)
    ultimately show ?thesis by simp
  qed
qed simp

lemma encode_message_frame:
  assumes "encode_message to_json v limits = Ok frame"
  obtains body where "to_json v = Some body" "length body \<le> max_outbound_body_bytes limits"
    "frame = content_length_line (length body) @ TERMINATOR @ body" "length frame \<le> u64_max"
  using assms unfolding encode_message_def and_then_Ok_iff ok_or_Ok_iff
  by (auto simp: content_length_line_def TERMINATOR_def Let_def split: if_split_asm)

lemma content_length_line_short:
  assumes "n \<le> u64_max"
  shows "length (content_length_line n @ TERMINATOR) \<le> 40"
proof -
  have "length (decimal n) \<le> 20"
    by (rule length_decimal_bound) (use assms in \<open>simp_all add: u64_max_def\<close>)
  then show ?thesis by (simp add: content_length_line_def TERMINATOR_def)
qed

lemma TERMINATOR_ne: "TERMINATOR \<noteq> []"
  by (simp add: TERMINATOR_def)

lemma feed_frame:
  assumes e: "encode_message to_json v sender = Ok frame" and body: "to_json v = Some body"
    and fits: "length body \<le> max_inbound_body_bytes limits" "40 \<le> max_header_bytes limits"
  shows "feed (new_decoder limits) (frame @ rest) completed = feed (new_decoder limits) rest (completed @ [body])"
proof -
  let ?n = "length body" and ?d = "new_decoder limits"
  have f: "frame = content_length_line ?n @ TERMINATOR @ body" "?n \<le> u64_max"
    using e body by (auto elim!: encode_message_frame)
  have h: "feed ?d ((content_length_line ?n @ TERMINATOR) @ body @ rest) completed =
    (if ?n = 0 then feed (?d\<lparr>fd_state := Header []\<rparr>) (body @ rest) (completed @ [[]])
     else feed (?d\<lparr>fd_state := Body [] ?n\<rparr>) (body @ rest) completed)"
  proof (rule feed_header[OF content_length_line_no_cr content_length_line_ascii])
    show "length (content_length_line ?n @ TERMINATOR) \<le> max_header_bytes (fd_limits ?d)"
      using content_length_line_short[OF f(2)] fits(2) by (simp add: new_decoder_def)
  qed (use f(2) fits(1) in \<open>auto simp: parse_header_content_length new_decoder_def TERMINATOR_ne\<close>)
  have same: "?d\<lparr>fd_state := Header []\<rparr> = ?d" by (simp add: new_decoder_def)
  show ?thesis
  proof (cases "?n = 0")
    case True
    then show ?thesis using h by (simp add: f(1) same)
  next
    case False
    let ?b = "?d\<lparr>fd_state := Body [] ?n\<rparr>"
    have "feed ?b (body @ rest) completed = feed (?b\<lparr>fd_state := Header []\<rparr>) rest (completed @ [body])"
      by (subst feed_body[of ?b "[]" ?n]) (use False in auto)
    then show ?thesis using h False by (simp add: f(1) same)
  qed
qed

text \<open>
  C23: Messages survive the wire: the frames of any list of values, sent back to back and cut
  into any chunks, are decoded to exactly the serialized bodies in their order, and the decoder is
  between frames afterwards, so that the end of the stream is accepted there.
\<close>

theorem framed_messages_roundtrip:
  assumes "list_all2 (\<lambda>v frame. encode_message to_json v sender = Ok frame) values frames"
    and "list_all2 (\<lambda>v body. to_json v = Some body) values bodies"
    and "\<forall>body\<in>set bodies. length body \<le> max_inbound_body_bytes limits" "40 \<le> max_header_bytes limits"
    and "concat chunks = concat frames"
  shows "push_all (new_decoder limits) chunks [] = Some (new_decoder limits, Ok bodies) \<and>
    \<not> is_mid_frame (new_decoder limits) \<and> finish (new_decoder limits) = Ok ()"
proof -
  have "feed (new_decoder limits) (concat frames) completed = (new_decoder limits, Ok (completed @ bodies))" for completed
    using assms(1-4)
  proof (induction "values" arbitrary: frames bodies completed)
    case (Cons v vs)
    then obtain frame fs body bs where "frames = frame # fs" "bodies = body # bs"
      "encode_message to_json v sender = Ok frame" "to_json v = Some body"
      "list_all2 (\<lambda>v frame. encode_message to_json v sender = Ok frame) vs fs"
      "list_all2 (\<lambda>v body. to_json v = Some body) vs bs"
      by (auto simp: list_all2_Cons1)
    then show ?case using Cons.prems(3,4) Cons.IH[of fs bs] by (simp add: feed_frame)
  qed simp
  then show ?thesis
    using push_all_feed[OF new_decoder_valid, of limits chunks "[]"] assms(5)
    by (simp add: is_mid_frame_def finish_def) (simp add: new_decoder_def)
qed

section \<open>Correlation of responses\<close>

text \<open>
  The specification counts the requests that were issued and keeps the set of the answered ones.
\<close>

record Correlation =
  co_issued :: nat
  co_answered :: "nat set"

definition correlation_of :: "ResponseCorrelator \<Rightarrow> Correlation" where
  "correlation_of c = \<lparr>co_issued = rc_next_id c - 1, co_answered = {1..<rc_next_id c} - rc_pending c\<rparr>"

definition correlator_invar :: "ResponseCorrelator \<Rightarrow> bool" where
  "correlator_invar c \<longleftrightarrow> 1 \<le> rc_next_id c \<and> rc_next_id c \<le> u64_max \<and> rc_pending c \<subseteq> {1..<rc_next_id c} \<and>
     card (rc_pending c) \<le> rc_max_pending c"

definition issue :: "nat \<Rightarrow> Correlation \<Rightarrow> Correlation \<times> (JsonRpcError + nat)" where
  "issue limit s =
     (if limit \<le> card ({1..co_issued s} - co_answered s) then (s, Err (PendingRequestLimit limit))
      else if u64_max \<le> co_issued s + 1 then (s, Err ClientRequestIdsExhausted)
      else (s\<lparr>co_issued := co_issued s + 1\<rparr>, Ok (co_issued s + 1)))"

definition answer :: "nat \<Rightarrow> Correlation \<Rightarrow> Correlation \<times> (JsonRpcError + unit)" where
  "answer i s =
     (if i \<in> {1..co_issued s} then
        if i \<in> co_answered s then (s, Err (DuplicateResponseId i))
        else (s\<lparr>co_answered := insert i (co_answered s)\<rparr>, Ok ())
      else (s, Err (UnknownResponseId i)))"

lemma correlation_pending:
  "correlator_invar c \<Longrightarrow> {1..co_issued (correlation_of c)} - co_answered (correlation_of c) = rc_pending c"
  by (force simp: correlation_of_def correlator_invar_def)

lemma correlation_issued:
  "correlator_invar c \<Longrightarrow> i \<in> {1..co_issued (correlation_of c)} \<longleftrightarrow> 0 < i \<and> i < rc_next_id c"
  by (auto simp: correlation_of_def correlator_invar_def)

lemma begin_request_refines:
  assumes "correlator_invar c" "begin_request c = (c', r)"
  shows "correlator_invar c' \<and> issue (rc_max_pending c) (correlation_of c) = (correlation_of c', r) \<and>
    rc_max_pending c' = rc_max_pending c"
proof -
  have p: "finite (rc_pending c)" "rc_next_id c \<notin> rc_pending c"
    using assms(1) finite_subset by (fastforce simp: correlator_invar_def)+
  have issued: "co_issued (correlation_of c) + 1 = rc_next_id c"
    using assms(1) by (simp add: correlation_of_def correlator_invar_def)
  note card = correlation_pending[OF assms(1)]
  consider "rc_max_pending c \<le> card (rc_pending c)" | "card (rc_pending c) < rc_max_pending c" "u64_max < rc_next_id c + 1"
    | "card (rc_pending c) < rc_max_pending c" "rc_next_id c + 1 \<le> u64_max" by linarith
  then show ?thesis
  proof cases
    case 1
    then show ?thesis using assms card by (auto simp: begin_request_def issue_def)
  next
    case 2
    then show ?thesis using assms card issued by (auto simp: begin_request_def issue_def checked_add_u64_def)
  next
    case 3
    then have c': "c' = c\<lparr>rc_next_id := rc_next_id c + 1, rc_pending := insert (rc_next_id c) (rc_pending c)\<rparr>"
      "r = Ok (rc_next_id c)"
      using assms(2) by (auto simp: begin_request_def checked_add_u64_def)
    have "correlator_invar c'"
      using assms(1) 3 p by (auto simp: c' correlator_invar_def)
    moreover have "correlation_of c' = (correlation_of c)\<lparr>co_issued := rc_next_id c\<rparr>"
      using assms(1) by (auto simp: c' correlation_of_def correlator_invar_def)
    ultimately show ?thesis using 3 card issued c' by (simp add: issue_def)
  qed
qed

lemma complete_refines:
  assumes "correlator_invar c" "complete c i = (c', r)"
  shows "correlator_invar c' \<and> answer i (correlation_of c) = (correlation_of c', r) \<and>
    rc_max_pending c' = rc_max_pending c"
proof -
  have fin: "finite (rc_pending c)" using assms(1) finite_subset by (fastforce simp: correlator_invar_def)
  note issued = correlation_issued[OF assms(1), of i]
  have answered: "i \<in> co_answered (correlation_of c) \<longleftrightarrow> 0 < i \<and> i < rc_next_id c \<and> i \<notin> rc_pending c"
    by (auto simp: correlation_of_def)
  show ?thesis
  proof (cases "i \<in> rc_pending c")
    case True
    then have i: "0 < i" "i < rc_next_id c" using assms(1) by (auto simp: correlator_invar_def)
    have c': "c' = c\<lparr>rc_pending := rc_pending c - {i}\<rparr>" "r = Ok ()" using assms(2) True by (auto simp: complete_def)
    have "card (rc_pending c - {i}) \<le> card (rc_pending c)" by (rule card_mono[OF fin]) auto
    then have "correlator_invar c'" using assms(1) by (auto simp: c' correlator_invar_def)
    moreover have "correlation_of c' = (correlation_of c)\<lparr>co_answered := insert i (co_answered (correlation_of c))\<rparr>"
      using i by (auto simp: c' correlation_of_def)
    ultimately show ?thesis using True issued answered i c' by (simp add: answer_def)
  next
    case False
    then show ?thesis using assms issued answered by (auto simp: complete_def answer_def)
  qed
qed

text \<open>
  Requests get the identifiers 1, 2, 3 and so on, and a response is accepted exactly when
  its request was issued and not answered before; an answered one is a duplicate and any other
  identifier is unknown. The number of pending requests stays within its limit.
\<close>

theorem correlator_refines_the_specification:
  assumes "correlator_invar c"
  shows "issue (rc_max_pending c) (correlation_of c) = map_prod correlation_of (\<lambda>r. r) (begin_request c) \<and>
    answer i (correlation_of c) = map_prod correlation_of (\<lambda>r. r) (complete c i) \<and>
    correlator_invar (fst (begin_request c)) \<and> correlator_invar (fst (complete c i)) \<and>
    card (rc_pending c) \<le> rc_max_pending c"
  using begin_request_refines[OF assms] complete_refines[OF assms] assms
  by (cases "begin_request c"; cases "complete c i"; simp add: correlator_invar_def)+

section \<open>The blocking reader and the decoder\<close>

fun bytes_of :: "ReadAnswer list \<Rightarrow> bytes" where
  "bytes_of [] = []"
| "bytes_of (Chunk bs # answers) = bs @ bytes_of answers"
| "bytes_of (_ # answers) = bytes_of answers"

lemma read_header_Ok:
  assumes "read_header answers limit header = (rest, Ok (Some h))"
    and "fd_state d = Header header" "limit = max_header_bytes (fd_limits d)"
  shows "\<exists>consumed. bytes_of answers = consumed @ bytes_of rest \<and>
    (\<forall>n. parse_header h = Ok n \<longrightarrow> n \<le> max_inbound_body_bytes (fd_limits d) \<longrightarrow>
      feed d consumed [] = (if n = 0 then (d\<lparr>fd_state := Header []\<rparr>, Ok [[]]) else (d\<lparr>fd_state := Body [] n\<rparr>, Ok [])))"
  using assms
proof (induction answers limit header arbitrary: d rule: read_header.induct)
  case (5 byte later answers limit header)
  let ?answers = "if later = [] then answers else Chunk later # answers"
  have room: "length header \<noteq> limit" "is_ascii byte"
    using "5.prems"(1) by (auto simp: Let_def split: if_split_asm)
  have bytes: "bytes_of (Chunk (byte # later) # answers) = byte # bytes_of ?answers" by simp
  show ?case
  proof (cases "ends_with_bytes TERMINATOR (header @ [byte])")
    case True
    then have "rest = ?answers" "h = header @ [byte]"
      using "5.prems"(1) room by (auto simp: Let_def split: if_split_asm)
    then show ?thesis
      using True room "5.prems"(2,3) bytes
      by (intro exI[of _ "[byte]"]) (simp add: feed_byte_def push_header_byte_def Let_def)
  next
    case False
    let ?d = "d\<lparr>fd_state := Header (header @ [byte])\<rparr>"
    have room': "length (header @ [byte]) \<noteq> limit"
      using "5.prems"(1) room False by (auto simp: Let_def split: if_split_asm)
    have r: "read_header ?answers limit (header @ [byte]) = (rest, Ok (Some h))"
      using "5.prems"(1) room room' False by (simp add: Let_def split: if_splits)
    obtain consumed where c: "bytes_of ?answers = consumed @ bytes_of rest"
      "\<forall>n. parse_header h = Ok n \<longrightarrow> n \<le> max_inbound_body_bytes (fd_limits ?d) \<longrightarrow>
        feed ?d consumed [] = (if n = 0 then (?d\<lparr>fd_state := Header []\<rparr>, Ok [[]]) else (?d\<lparr>fd_state := Body [] n\<rparr>, Ok []))"
      using "5.IH"[OF refl room(1) _ refl False room' r, of ?d] room(2) "5.prems"(3) by fastforce
    then show ?thesis
      using bytes False room room' "5.prems"(2,3)
      by (intro exI[of _ "byte # consumed"]) (simp add: feed_byte_def push_header_byte_def Let_def)
  qed
qed (auto split: if_split_asm)

lemma read_exact_Ok:
  "read_exact_section answers n sect body = (rest, Ok bs) \<Longrightarrow>
     \<exists>consumed. bytes_of answers = consumed @ bytes_of rest \<and> bs = body @ consumed \<and> length consumed = n"
proof (induction answers n sect body rule: read_exact_section.induct)
  case (1 answers n sect body)
  show ?case
  proof (cases "n = 0")
    case True
    then show ?thesis using "1.prems" by (subst (asm) read_exact_section.simps) simp
  next
    case False
    show ?thesis
    proof (cases answers)
      case Nil
      then show ?thesis using "1.prems" False by (subst (asm) read_exact_section.simps) simp
    next
      case (Cons a others)
      show ?thesis
      proof (cases a)
        case Interrupted
        then show ?thesis using "1.prems" "1.IH"(2)[OF False Cons Interrupted] False Cons
          by (subst (asm) read_exact_section.simps) simp
      next
        case (Failure kind)
        then show ?thesis using "1.prems" False Cons by (subst (asm) read_exact_section.simps) simp
      next
        case (Chunk cs)
        let ?k = "min n (length cs)" and ?as = "if length cs \<le> n then others else Chunk (drop n cs) # others"
        have cs: "cs \<noteq> []" using "1.prems" False Cons Chunk by (subst (asm) read_exact_section.simps) (auto split: if_split_asm)
        then have "read_exact_section ?as (n - ?k) sect (body @ take ?k cs) = (rest, Ok bs)"
          using "1.prems" False Cons Chunk by (subst (asm) read_exact_section.simps) (simp add: Let_def split: if_splits)
        then obtain consumed where "bytes_of ?as = consumed @ bytes_of rest" "bs = (body @ take ?k cs) @ consumed"
          "length consumed = n - ?k"
          using "1.IH"(1)[OF False Cons Chunk cs refl refl] by blast
        moreover have "bytes_of answers = take ?k cs @ bytes_of ?as"
          using Cons Chunk by (auto simp: min_def)
        ultimately show ?thesis by (intro exI[of _ "take ?k cs @ consumed"]) simp
      qed
    qed
  qed
qed

text \<open>
  The blocking reader and the incremental decoder agree: whatever sizes the reads have and
  however often they are interrupted, a body that \<open>read_body\<close> returns is the one body that the
  decoder completes on exactly the bytes that were consumed.
\<close>

theorem blocking_reader_agrees_with_the_decoder:
  assumes "read_body answers limits = (rest, Ok (Some body))"
  shows "\<exists>consumed. bytes_of answers = consumed @ bytes_of rest \<and>
    push (new_decoder limits) consumed = Some (new_decoder limits, Ok [body])"
proof -
  let ?d = "new_decoder limits"
  obtain h middle n where h: "read_header answers (max_header_bytes limits) [] = (middle, Ok (Some h))"
    and n: "parse_header h = Ok n" "n \<le> max_inbound_body_bytes limits"
    and b: "read_exact_section middle n BodySection [] = (rest, Ok body)"
    using assms unfolding read_body_def
    by (auto split: prod.split_asm sum.split_asm option.split_asm if_split_asm)
  have d: "fd_state ?d = Header []" "max_header_bytes limits = max_header_bytes (fd_limits ?d)" "fd_limits ?d = limits"
    by (simp_all add: new_decoder_def)
  have same: "?d\<lparr>fd_state := Header []\<rparr> = ?d" by (simp add: new_decoder_def)
  obtain front where front: "bytes_of answers = front @ bytes_of middle"
    "feed ?d front [] = (if n = 0 then (?d, Ok [[]]) else (?d\<lparr>fd_state := Body [] n\<rparr>, Ok []))"
    using read_header_Ok[OF h d(1,2)] n by (auto simp: d(3) same)
  have "bytes_of middle = body @ bytes_of rest \<and> length body = n"
    using read_exact_Ok[OF b] by auto
  moreover have "feed ?d (front @ body) [] = (?d, Ok [body])" if "length body = n"
  proof (cases "n = 0")
    case False
    let ?b = "?d\<lparr>fd_state := Body [] n\<rparr>"
    have "feed ?b (body @ []) [] = feed (?b\<lparr>fd_state := Header []\<rparr>) [] ([] @ [body])"
      by (subst feed_body[of ?b "[]" n]) (use False that in auto)
    then show ?thesis using False front(2) same by (simp add: feed_append)
  qed (use that front(2) in \<open>simp add: feed_append\<close>)
  ultimately show ?thesis
    using front(1) by (intro exI[of _ "front @ body"]) (simp add: push_feed)
qed

section \<open>Witnesses\<close>


text \<open>A serializer that writes every value as two braces.\<close>

definition braces :: "Value \<Rightarrow> bytes option" where
  "braces v = Some [123, 125]"

definition brace_frame :: bytes where
  "brace_frame = content_length_line (length [123, 125 :: u8]) @ TERMINATOR @ [123, 125]"

lemma brace_frame: "encode_message braces v default_framing_limits = Ok brace_frame"
proof -
  have "length (content_length_line (length [123, 125 :: u8]) @ TERMINATOR) \<le> 40" by (rule content_length_line_short) (simp add: u64_max_def)
  then show ?thesis
    by (simp add: encode_message_def braces_def default_framing_limits_def Let_def brace_frame_def
      content_length_line_def TERMINATOR_def u64_max_def)
qed

theorem framed_messages_roundtrip_witness:
  "push_all (new_decoder default_framing_limits) [take 5 (brace_frame @ brace_frame), drop 5 (brace_frame @ brace_frame)] [] =
     Some (new_decoder default_framing_limits, Ok [[123, 125], [123, 125]])"
proof -
  have frames: "list_all2 (\<lambda>v frame. encode_message braces v default_framing_limits = Ok frame) [Null, Null] [brace_frame, brace_frame]"
    and bodies: "list_all2 (\<lambda>v body. braces v = Some body) [Null, Null] [[123, 125], [123, 125]]"
    by (simp_all add: brace_frame) (simp_all add: braces_def)
  have chunks: "concat [take 5 (brace_frame @ brace_frame), drop 5 (brace_frame @ brace_frame)] = concat [brace_frame, brace_frame]"
    using append_take_drop_id[of 5 "brace_frame @ brace_frame"] by (simp only: concat.simps append_Nil2)
  show ?thesis
    by (rule framed_messages_roundtrip[OF frames bodies _ _ chunks, THEN conjunct1]) (simp_all add: default_framing_limits_def)
qed

theorem correlator_refines_the_specification_witness:
  "complete (fst (begin_request (new_correlator 2))) 1 =
     ((fst (begin_request (new_correlator 2)))\<lparr>rc_pending := {}\<rparr>, Ok ()) \<and>
   correlator_invar (fst (begin_request (new_correlator 2)))"
proof -
  have "correlator_invar (new_correlator 2)" by (simp add: correlator_invar_def new_correlator_def u64_max_def)
  then have "correlator_invar (fst (begin_request (new_correlator 2)))"
    using correlator_refines_the_specification[of "new_correlator 2" 1] by blast
  then show ?thesis
    by (simp add: new_correlator_def begin_request_def complete_def checked_add_u64_def u64_max_def)
qed

theorem blocking_reader_agrees_with_the_decoder_witness:
  "read_body [Interrupted, Chunk (content_length_line 0 @ TERMINATOR)] default_framing_limits = ([], Ok (Some [])) \<and>
   push (new_decoder default_framing_limits) (content_length_line 0 @ TERMINATOR) =
     Some (new_decoder default_framing_limits, Ok [[]])"
proof -
  have line: "content_length_line 0 = [67, 111, 110, 116, 101, 110, 116, 45, 76, 101, 110, 103, 116, 104, 58, 32, 48]"
    by (simp add: content_length_line_def as_bytes_def decimal.simps digit_char_def)
  have "parse_header (content_length_line 0 @ TERMINATOR) = Ok 0"
    by (rule parse_header_content_length) (simp add: u64_max_def)
  then have body: "read_body [Interrupted, Chunk (content_length_line 0 @ TERMINATOR)] default_framing_limits = ([], Ok (Some []))"
    by (simp add: read_body_def line TERMINATOR_def Let_def default_framing_limits_def is_ascii_def ends_with_bytes_def
      read_exact_section.simps)
  from blocking_reader_agrees_with_the_decoder[OF body] body show ?thesis
    by simp
qed

end
