(* ===== verification/Symbols.thy ===== *)
theory Symbols
  imports Position Json_Rpc
begin

text \<open>
  Document symbols of a language server (\<open>crates/srcmv-lsp/src/symbols.rs\<close>): validation and
  flattening of the hierarchy, and the resolution of name and position queries. JSON values are those
  of \<open>Json_Rpc\<close>, position conversion is that of \<open>Position\<close>; the typed decoding of
  \<open>serde_json\<close> is a parameter. A \<open>String\<close> of the server is the list of its bytes as characters.
\<close>

section \<open>Kinds\<close>

datatype KnownSymbolKind =
    FileKind | ModuleKind | NamespaceKind | PackageKind | ClassKind | MethodKind | PropertyKind
  | FieldKind | ConstructorKind | EnumKind | InterfaceKind | FunctionKind | VariableKind
  | ConstantKind | StringKind | NumberKind | BooleanKind | ArrayKind | ObjectKind | KeyKind
  | NullKind | EnumMemberKind | StructKind | EventKind | OperatorKind | TypeParameterKind

fun as_str :: "KnownSymbolKind \<Rightarrow> string" where
  "as_str FileKind = ''file''"
| "as_str ModuleKind = ''module''"
| "as_str NamespaceKind = ''namespace''"
| "as_str PackageKind = ''package''"
| "as_str ClassKind = ''class''"
| "as_str MethodKind = ''method''"
| "as_str PropertyKind = ''property''"
| "as_str FieldKind = ''field''"
| "as_str ConstructorKind = ''constructor''"
| "as_str EnumKind = ''enum''"
| "as_str InterfaceKind = ''interface''"
| "as_str FunctionKind = ''function''"
| "as_str VariableKind = ''variable''"
| "as_str ConstantKind = ''constant''"
| "as_str StringKind = ''string''"
| "as_str NumberKind = ''number''"
| "as_str BooleanKind = ''boolean''"
| "as_str ArrayKind = ''array''"
| "as_str ObjectKind = ''object''"
| "as_str KeyKind = ''key''"
| "as_str NullKind = ''null''"
| "as_str EnumMemberKind = ''enum_member''"
| "as_str StructKind = ''struct''"
| "as_str EventKind = ''event''"
| "as_str OperatorKind = ''operator''"
| "as_str TypeParameterKind = ''type_parameter''"

text \<open>An unknown spelling is the only error of \<open>FromStr\<close>.\<close>

datatype UnknownSymbolKind = UnknownSymbolKind

definition kind_from_str :: "string \<Rightarrow> UnknownSymbolKind + KnownSymbolKind" where
  "kind_from_str name =
     (if name = ''file'' then Ok FileKind
      else if name = ''module'' then Ok ModuleKind
      else if name = ''namespace'' then Ok NamespaceKind
      else if name = ''package'' then Ok PackageKind
      else if name = ''class'' then Ok ClassKind
      else if name = ''method'' then Ok MethodKind
      else if name = ''property'' then Ok PropertyKind
      else if name = ''field'' then Ok FieldKind
      else if name = ''constructor'' then Ok ConstructorKind
      else if name = ''enum'' then Ok EnumKind
      else if name = ''interface'' then Ok InterfaceKind
      else if name = ''function'' then Ok FunctionKind
      else if name = ''variable'' then Ok VariableKind
      else if name = ''constant'' then Ok ConstantKind
      else if name = ''string'' then Ok StringKind
      else if name = ''number'' then Ok NumberKind
      else if name = ''boolean'' then Ok BooleanKind
      else if name = ''array'' then Ok ArrayKind
      else if name = ''object'' then Ok ObjectKind
      else if name = ''key'' then Ok KeyKind
      else if name = ''null'' then Ok NullKind
      else if name = ''enum_member'' then Ok EnumMemberKind
      else if name = ''struct'' then Ok StructKind
      else if name = ''event'' then Ok EventKind
      else if name = ''operator'' then Ok OperatorKind
      else if name = ''type_parameter'' then Ok TypeParameterKind
      else Err UnknownSymbolKind)"

fun known_kind_number :: "KnownSymbolKind \<Rightarrow> nat" where
  "known_kind_number FileKind = 1"
| "known_kind_number ModuleKind = 2"
| "known_kind_number NamespaceKind = 3"
| "known_kind_number PackageKind = 4"
| "known_kind_number ClassKind = 5"
| "known_kind_number MethodKind = 6"
| "known_kind_number PropertyKind = 7"
| "known_kind_number FieldKind = 8"
| "known_kind_number ConstructorKind = 9"
| "known_kind_number EnumKind = 10"
| "known_kind_number InterfaceKind = 11"
| "known_kind_number FunctionKind = 12"
| "known_kind_number VariableKind = 13"
| "known_kind_number ConstantKind = 14"
| "known_kind_number StringKind = 15"
| "known_kind_number NumberKind = 16"
| "known_kind_number BooleanKind = 17"
| "known_kind_number ArrayKind = 18"
| "known_kind_number ObjectKind = 19"
| "known_kind_number KeyKind = 20"
| "known_kind_number NullKind = 21"
| "known_kind_number EnumMemberKind = 22"
| "known_kind_number StructKind = 23"
| "known_kind_number EventKind = 24"
| "known_kind_number OperatorKind = 25"
| "known_kind_number TypeParameterKind = 26"

datatype NormalizedSymbolKind = Known KnownSymbolKind | Unknown nat

fun normalized_as_str :: "NormalizedSymbolKind \<Rightarrow> string" where
  "normalized_as_str (Known kind) = as_str kind"
| "normalized_as_str (Unknown _) = ''unknown''"

fun unknown_numeric :: "NormalizedSymbolKind \<Rightarrow> nat option" where
  "unknown_numeric (Known _) = None"
| "unknown_numeric (Unknown n) = Some n"

fun numeric :: "NormalizedSymbolKind \<Rightarrow> nat" where
  "numeric (Known kind) = known_kind_number kind"
| "numeric (Unknown n) = n"

text \<open>The kinds of \<open>gen_lsp_types\<close>.\<close>

datatype SymbolKind =
    LspFile | LspModule | LspNamespace | LspPackage | LspClass | LspMethod | LspProperty
  | LspField | LspConstructor | LspEnum | LspInterface | LspFunction | LspVariable
  | LspConstant | LspString | LspNumber | LspBoolean | LspArray | LspObject | LspKey | LspNull
  | LspEnumMember | LspStruct | LspEvent | LspOperator | LspTypeParameter | LspCustom nat

fun normalize_kind :: "SymbolKind \<Rightarrow> NormalizedSymbolKind" where
  "normalize_kind LspFile = Known FileKind"
| "normalize_kind LspModule = Known ModuleKind"
| "normalize_kind LspNamespace = Known NamespaceKind"
| "normalize_kind LspPackage = Known PackageKind"
| "normalize_kind LspClass = Known ClassKind"
| "normalize_kind LspMethod = Known MethodKind"
| "normalize_kind LspProperty = Known PropertyKind"
| "normalize_kind LspField = Known FieldKind"
| "normalize_kind LspConstructor = Known ConstructorKind"
| "normalize_kind LspEnum = Known EnumKind"
| "normalize_kind LspInterface = Known InterfaceKind"
| "normalize_kind LspFunction = Known FunctionKind"
| "normalize_kind LspVariable = Known VariableKind"
| "normalize_kind LspConstant = Known ConstantKind"
| "normalize_kind LspString = Known StringKind"
| "normalize_kind LspNumber = Known NumberKind"
| "normalize_kind LspBoolean = Known BooleanKind"
| "normalize_kind LspArray = Known ArrayKind"
| "normalize_kind LspObject = Known ObjectKind"
| "normalize_kind LspKey = Known KeyKind"
| "normalize_kind LspNull = Known NullKind"
| "normalize_kind LspEnumMember = Known EnumMemberKind"
| "normalize_kind LspStruct = Known StructKind"
| "normalize_kind LspEvent = Known EventKind"
| "normalize_kind LspOperator = Known OperatorKind"
| "normalize_kind LspTypeParameter = Known TypeParameterKind"
| "normalize_kind (LspCustom n) = Unknown n"

section \<open>Data\<close>

text \<open>\<open>DocumentSymbol\<close> of \<open>gen_lsp_types\<close>, without the tags that the code does not read.\<close>

datatype DocumentSymbol = DocumentSymbol
  (ds_name: string) (ds_detail: "string option") (ds_kind: SymbolKind) (ds_range: LspRange)
  (ds_selection_range: LspRange) (ds_children: "DocumentSymbol list option")

record SymbolLimits =
  sl_maximum_raw_symbols :: nat
  sl_maximum_flattened_symbols :: nat
  sl_maximum_depth :: nat
  sl_maximum_name_bytes :: nat
  sl_maximum_detail_bytes :: nat
  sl_maximum_path_bytes :: nat
  sl_maximum_candidate_storage_bytes :: nat
  sl_maximum_matches :: nat
  sl_maximum_ambiguity_candidates :: nat

definition default_symbol_limits :: SymbolLimits where
  "default_symbol_limits =
     \<lparr>sl_maximum_raw_symbols = 100000, sl_maximum_flattened_symbols = 100000, sl_maximum_depth = 256,
      sl_maximum_name_bytes = 4 * 1024, sl_maximum_detail_bytes = 16 * 1024,
      sl_maximum_path_bytes = 64 * 1024, sl_maximum_candidate_storage_bytes = 64 * 1024 * 1024,
      sl_maximum_matches = 1000, sl_maximum_ambiguity_candidates = 50\<rparr>"

record NormalizedSymbol =
  ns_name :: string
  ns_detail :: "string option"
  ns_kind :: NormalizedSymbolKind
  ns_symbol_path :: "string list"
  ns_lsp_range :: LspRange
  ns_lsp_selection_range :: LspRange
  ns_byte_range :: ByteRange
  ns_selection_byte_range :: ByteRange

datatype SelectionExtent = SymbolExtent | DeclarationLines

datatype MatchMode = Unique | AllMatches

record SymbolMatch =
  sm_name :: string
  sm_detail :: "string option"
  sm_kind :: NormalizedSymbolKind
  sm_symbol_path :: "string list"
  sm_lsp_range :: LspRange
  sm_lsp_selection_range :: LspRange
  sm_symbol_range :: ByteRange
  sm_selected_range :: ByteRange
  sm_extent :: SelectionExtent

record AmbiguityCandidate =
  ac_name :: string
  ac_kind :: NormalizedSymbolKind
  ac_symbol_path :: "string list"
  ac_byte_range :: ByteRange

datatype SymbolError =
    FlatSymbolsUnsupported
  | MalformedDocumentSymbols
  | SymbolLimitExceeded string nat
  | PositionFailure PositionError
  | SelectionRangeNotContained
  | QueryPositionOutOfBounds
  | SymbolNotFound
  | Ambiguous nat "AmbiguityCandidate list"
  | InvalidExtent

definition resource_error :: "string \<Rightarrow> nat \<Rightarrow> SymbolError" where
  "resource_error resource maximum = SymbolLimitExceeded resource maximum"

definition enforce_symbol_limit :: "nat \<Rightarrow> nat \<Rightarrow> string \<Rightarrow> SymbolError + unit" where
  "enforce_symbol_limit actual maximum resource =
     (if maximum < actual then Err (resource_error resource maximum) else Ok ())"

definition enforce_byte_length :: "string \<Rightarrow> nat \<Rightarrow> string \<Rightarrow> SymbolError + unit" where
  "enforce_byte_length s maximum resource =
     (if u64_max < length s then Err (resource_error resource maximum)
      else enforce_symbol_limit (length s) maximum resource)"

section \<open>Normalization\<close>

text \<open>The shared breadcrumb nodes, from a symbol to its root.\<close>

datatype PathNode = PathNode (pn_name: string) (pn_parent: "PathNode option")

fun node_names :: "PathNode \<Rightarrow> string list" where
  "node_names (PathNode name None) = [name]"
| "node_names (PathNode name (Some parent)) = name # node_names parent"

definition materialize_path :: "PathNode \<Rightarrow> nat \<Rightarrow> SymbolError + string list" where
  "materialize_path node depth =
     (if u64_max < depth then Err (resource_error ''symbol_nesting_depth'' depth) else Ok (rev (node_names node)))"

record PendingSymbol =
  ps_symbol :: DocumentSymbol
  ps_parent_path :: "PathNode option"
  ps_parent_path_bytes :: nat
  ps_depth :: nat

definition MAXIMUM_LSP_UINTEGER :: nat where "MAXIMUM_LSP_UINTEGER = 2147483647"

definition wire_range_is_valid :: "LspRange \<Rightarrow> bool" where
  "wire_range_is_valid r =
     list_all (\<lambda>p. po_line p \<le> MAXIMUM_LSP_UINTEGER \<and> po_character p \<le> MAXIMUM_LSP_UINTEGER) [ra_start r, ra_end r]"

definition range_contains :: "ByteRange \<Rightarrow> ByteRange \<Rightarrow> bool" where
  "range_contains outer inner \<longleftrightarrow> range_start outer \<le> range_start inner \<and> range_end inner \<le> range_end outer"

text \<open>The local variables of the loop.\<close>

record NormalizeState =
  nz_raw_count :: nat
  nz_flattened_count :: nat
  nz_candidate_storage_bytes :: nat
  nz_normalized :: "NormalizedSymbol list"
  nz_converter :: PositionConverter

definition convert_range :: "LspRange \<Rightarrow> NormalizeState \<Rightarrow> SymbolError + (NormalizeState \<times> ByteRange)" where
  "convert_range r z =
     (case lsp_range_to_byte_range r (nz_converter z) of
        (c, Err e) \<Rightarrow> Err (PositionFailure e)
      | (c, Ok b) \<Rightarrow> Ok (z\<lparr>nz_converter := c\<rparr>, b))"

text \<open>
  One iteration of the loop for a popped symbol, the rest of the stack having \<open>remaining\<close> entries;
  returns the entries to push, the first child first.
\<close>

definition candidate_bytes :: "string \<Rightarrow> string option \<Rightarrow> nat \<Rightarrow> nat option" where
  "candidate_bytes name detail path_bytes =
     (case checked_add_u64 (length name) (length name) of
        None \<Rightarrow> None
      | Some n \<Rightarrow>
          case checked_add_u64 n (case detail of None \<Rightarrow> 0 | Some d \<Rightarrow> length d) of
            None \<Rightarrow> None
          | Some n \<Rightarrow> checked_add_u64 n path_bytes)"

definition pending_children ::
    "SymbolLimits \<Rightarrow> nat \<Rightarrow> nat \<Rightarrow> PathNode \<Rightarrow> nat \<Rightarrow> nat \<Rightarrow> DocumentSymbol list \<Rightarrow> SymbolError + PendingSymbol list" where
  "pending_children limits remaining raw_count node path_bytes depth children =
     and_then (ok_or
       (case checked_add_u64 remaining raw_count of
          None \<Rightarrow> None | Some pending \<Rightarrow> checked_add_u64 pending (length children))
       (resource_error ''raw_document_symbols'' (sl_maximum_raw_symbols limits))) (\<lambda>pending_count.
     and_then (enforce_symbol_limit pending_count (sl_maximum_raw_symbols limits) ''raw_document_symbols'') (\<lambda>_.
     and_then (ok_or (checked_add_u64 depth 1)
       (resource_error ''symbol_nesting_depth'' (sl_maximum_depth limits))) (\<lambda>child_depth.
     Ok (map (\<lambda>child. \<lparr>ps_symbol = child, ps_parent_path = Some node, ps_parent_path_bytes = path_bytes,
           ps_depth = child_depth\<rparr>) children))))"

definition normalize_symbol ::
    "SymbolLimits \<Rightarrow> nat \<Rightarrow> PendingSymbol \<Rightarrow> NormalizeState \<Rightarrow> SymbolError + (PendingSymbol list \<times> NormalizeState)" where
  "normalize_symbol limits remaining pending z =
     and_then (ok_or (checked_add_u64 (nz_raw_count z) 1)
       (resource_error ''raw_document_symbols'' (sl_maximum_raw_symbols limits))) (\<lambda>raw_count.
     and_then (enforce_symbol_limit raw_count (sl_maximum_raw_symbols limits) ''raw_document_symbols'') (\<lambda>_.
     and_then (enforce_symbol_limit (ps_depth pending) (sl_maximum_depth limits) ''symbol_nesting_depth'') (\<lambda>_.
     let symbol = ps_symbol pending; name = ds_name symbol; detail = ds_detail symbol in
     and_then
       (ensure (\<not> (name = [] \<or> \<not> wire_range_is_valid (ds_range symbol) \<or>
          \<not> wire_range_is_valid (ds_selection_range symbol))) MalformedDocumentSymbols) (\<lambda>_.
     and_then (enforce_byte_length name (sl_maximum_name_bytes limits) ''symbol_name_bytes'') (\<lambda>_.
     and_then
       (case detail of None \<Rightarrow> Ok ()
        | Some d \<Rightarrow> enforce_byte_length d (sl_maximum_detail_bytes limits) ''symbol_detail_bytes'') (\<lambda>_.
     and_then (ok_or (checked_add_u64 (ps_parent_path_bytes pending) (length name))
       (resource_error ''symbol_path_bytes'' (sl_maximum_path_bytes limits))) (\<lambda>path_bytes.
     and_then (enforce_symbol_limit path_bytes (sl_maximum_path_bytes limits) ''symbol_path_bytes'') (\<lambda>_.
     and_then (convert_range (ds_range symbol) z) (\<lambda>(z, byte_range).
     and_then (convert_range (ds_selection_range symbol) z) (\<lambda>(z, selection_byte_range).
     and_then (ensure (range_contains byte_range selection_byte_range) SelectionRangeNotContained) (\<lambda>_.
     let node = PathNode name (ps_parent_path pending);
         storage_error = resource_error ''symbol_candidate_storage_bytes'' (sl_maximum_candidate_storage_bytes limits) in
     and_then (ok_or (candidate_bytes name detail path_bytes) storage_error) (\<lambda>owned_bytes.
     and_then (ok_or (checked_add_u64 (nz_candidate_storage_bytes z) owned_bytes) storage_error) (\<lambda>storage.
     and_then (enforce_symbol_limit storage (sl_maximum_candidate_storage_bytes limits)
       ''symbol_candidate_storage_bytes'') (\<lambda>_.
     and_then (materialize_path node (ps_depth pending)) (\<lambda>symbol_path.
     and_then
       (case ds_children symbol of None \<Rightarrow> Ok []
        | Some children \<Rightarrow>
            pending_children limits remaining raw_count node path_bytes (ps_depth pending) children) (\<lambda>pushed.
     and_then (ok_or (checked_add_u64 (nz_flattened_count z) 1)
       (resource_error ''flattened_document_symbols'' (sl_maximum_flattened_symbols limits))) (\<lambda>flattened_count.
     and_then (enforce_symbol_limit flattened_count (sl_maximum_flattened_symbols limits)
       ''flattened_document_symbols'') (\<lambda>_.
     Ok (pushed, z\<lparr>nz_raw_count := raw_count, nz_flattened_count := flattened_count,
       nz_candidate_storage_bytes := storage,
       nz_normalized := nz_normalized z @
         [\<lparr>ns_name = name, ns_detail = detail, ns_kind = normalize_kind (ds_kind symbol),
           ns_symbol_path = symbol_path, ns_lsp_range = ds_range symbol,
           ns_lsp_selection_range = ds_selection_range symbol, ns_byte_range = byte_range,
           ns_selection_byte_range = selection_byte_range\<rparr>]\<rparr>)))))))))))))))))))"

text \<open>The number of symbols of a hierarchy, which bounds the loop. The top of the stack is its head.\<close>

fun node_count :: "DocumentSymbol \<Rightarrow> nat" where
  "node_count (DocumentSymbol name detail kind r s None) = 1"
| "node_count (DocumentSymbol name detail kind r s (Some children)) = Suc (sum_list (map node_count children))"

definition stack_nodes :: "PendingSymbol list \<Rightarrow> nat" where
  "stack_nodes stack = sum_list (map (node_count \<circ> ps_symbol) stack)"

lemma normalize_symbol_pushed:
  assumes "normalize_symbol limits remaining pending z = Ok (pushed, z')"
  shows "Suc (stack_nodes pushed) = node_count (ps_symbol pending)"
  using assms
  by (cases "ps_symbol pending"; cases "ds_children (ps_symbol pending)")
    (auto simp: normalize_symbol_def pending_children_def stack_nodes_def Let_def comp_def split: prod.split_asm)

function normalize_loop ::
    "SymbolLimits \<Rightarrow> PendingSymbol list \<Rightarrow> NormalizeState \<Rightarrow> SymbolError + NormalizedSymbol list" where
  "normalize_loop limits [] z = Ok (nz_normalized z)"
| "normalize_loop limits (pending # stack) z =
     and_then (normalize_symbol limits (length stack) pending z) (\<lambda>(pushed, z).
     normalize_loop limits (pushed @ stack) z)"
  by pat_completeness auto
termination
proof (relation "measure (\<lambda>(limits, stack, z). stack_nodes stack)")
  fix limits :: SymbolLimits and pending :: PendingSymbol and stack :: "PendingSymbol list" and z r pushed z'
  assume "normalize_symbol limits (length stack) pending z = Ok r" "(pushed, z') = r"
  then have "Suc (stack_nodes pushed) = node_count (ps_symbol pending)"
    using normalize_symbol_pushed by metis
  then show "((limits, pushed @ stack, z'), limits, pending # stack, z) \<in> measure (\<lambda>(limits, stack, z). stack_nodes stack)"
    by (simp add: stack_nodes_def)
qed simp

definition normalize_hierarchical_symbols ::
    "DocumentSymbol list \<Rightarrow> PositionConverter \<Rightarrow> SymbolLimits \<Rightarrow> SymbolError + NormalizedSymbol list" where
  "normalize_hierarchical_symbols roots converter limits =
     (if u64_max < length roots then Err (resource_error ''raw_document_symbols'' (sl_maximum_raw_symbols limits))
      else
        and_then (enforce_symbol_limit (length roots) (sl_maximum_raw_symbols limits) ''raw_document_symbols'') (\<lambda>_.
        normalize_loop limits
          (map (\<lambda>root. \<lparr>ps_symbol = root, ps_parent_path = None, ps_parent_path_bytes = 0, ps_depth = 1\<rparr>) roots)
          \<lparr>nz_raw_count = 0, nz_flattened_count = 0, nz_candidate_storage_bytes = 0, nz_normalized = [],
           nz_converter = converter\<rparr>))"

definition value_get :: "Value \<Rightarrow> string \<Rightarrow> Value option" where
  "value_get v key = (case v of Object members \<Rightarrow> map_of members key | _ \<Rightarrow> None)"

definition decode_hierarchical_response ::
    "(Value \<Rightarrow> DocumentSymbol list option) \<Rightarrow> Value \<Rightarrow> SymbolError + DocumentSymbol list" where
  "decode_hierarchical_response from_value response =
     (case response of
        Array items \<Rightarrow>
          if items = [] then Ok []
          else
            let hierarchical = list_all (\<lambda>item. value_get item ''range'' \<noteq> None \<and> value_get item ''selectionRange'' \<noteq> None) items;
                flat = list_all (\<lambda>item. value_get item ''location'' \<noteq> None) items in
            if flat then Err FlatSymbolsUnsupported
            else if \<not> hierarchical then Err MalformedDocumentSymbols
            else ok_or (from_value (Array items)) MalformedDocumentSymbols
      | Null \<Rightarrow> Ok []
      | _ \<Rightarrow> Err MalformedDocumentSymbols)"

definition normalize_document_symbols ::
    "(Value \<Rightarrow> DocumentSymbol list option) \<Rightarrow> Value \<Rightarrow> PositionConverter \<Rightarrow> SymbolLimits \<Rightarrow>
     SymbolError + NormalizedSymbol list" where
  "normalize_document_symbols from_value response converter limits =
     and_then (decode_hierarchical_response from_value response) (\<lambda>roots.
     normalize_hierarchical_symbols roots converter limits)"

section \<open>Order and duplicates\<close>

datatype Ordering = Less | Equal | Greater

definition then_with :: "Ordering \<Rightarrow> Ordering \<Rightarrow> Ordering" where
  "then_with a b = (if a = Equal then b else a)"

definition cmp_nat :: "nat \<Rightarrow> nat \<Rightarrow> Ordering" where
  "cmp_nat a b = (if a < b then Less else if a = b then Equal else Greater)"

fun cmp_list :: "('a \<Rightarrow> 'a \<Rightarrow> Ordering) \<Rightarrow> 'a list \<Rightarrow> 'a list \<Rightarrow> Ordering" where
  "cmp_list cmp [] [] = Equal"
| "cmp_list cmp [] (_ # _) = Less"
| "cmp_list cmp (_ # _) [] = Greater"
| "cmp_list cmp (x # xs) (y # ys) = then_with (cmp x y) (cmp_list cmp xs ys)"

definition cmp_str :: "string \<Rightarrow> string \<Rightarrow> Ordering" where
  "cmp_str = cmp_list (\<lambda>a b. cmp_nat (of_char a) (of_char b))"

fun cmp_option :: "('a \<Rightarrow> 'a \<Rightarrow> Ordering) \<Rightarrow> 'a option \<Rightarrow> 'a option \<Rightarrow> Ordering" where
  "cmp_option cmp None None = Equal"
| "cmp_option cmp None (Some _) = Less"
| "cmp_option cmp (Some _) None = Greater"
| "cmp_option cmp (Some x) (Some y) = cmp x y"

text \<open>The stable \<open>sort_by\<close> and the \<open>dedup_by\<close> of a \<open>Vec\<close>.\<close>

fun insert_by :: "('a \<Rightarrow> 'a \<Rightarrow> Ordering) \<Rightarrow> 'a \<Rightarrow> 'a list \<Rightarrow> 'a list" where
  "insert_by cmp x [] = [x]"
| "insert_by cmp x (y # ys) = (if cmp x y = Greater then y # insert_by cmp x ys else x # y # ys)"

definition sort_by :: "('a \<Rightarrow> 'a \<Rightarrow> Ordering) \<Rightarrow> 'a list \<Rightarrow> 'a list" where
  "sort_by cmp xs = foldr (insert_by cmp) xs []"

fun dedup_by :: "('a \<Rightarrow> 'a \<Rightarrow> bool) \<Rightarrow> 'a list \<Rightarrow> 'a list" where
  "dedup_by same (x # y # ys) = (if same y x then dedup_by same (x # ys) else x # dedup_by same (y # ys))"
| "dedup_by same xs = xs"

definition compare_ranges :: "ByteRange \<Rightarrow> ByteRange \<Rightarrow> Ordering" where
  "compare_ranges l r = then_with (cmp_nat (range_start l) (range_start r)) (cmp_nat (range_end l) (range_end r))"

definition compare_kinds :: "NormalizedSymbolKind \<Rightarrow> NormalizedSymbolKind \<Rightarrow> Ordering" where
  "compare_kinds l r =
     then_with (cmp_str (normalized_as_str l) (normalized_as_str r)) (cmp_nat (numeric l) (numeric r))"

definition compare_candidates :: "NormalizedSymbol \<Rightarrow> NormalizedSymbol \<Rightarrow> Ordering" where
  "compare_candidates l r =
     then_with (then_with (then_with
       (compare_ranges (ns_byte_range l) (ns_byte_range r))
       (compare_kinds (ns_kind l) (ns_kind r)))
       (cmp_list cmp_str (ns_symbol_path l) (ns_symbol_path r)))
       (cmp_str (ns_name l) (ns_name r))"

definition compare_prepared :: "NormalizedSymbol \<Rightarrow> NormalizedSymbol \<Rightarrow> Ordering" where
  "compare_prepared l r =
     then_with (then_with
       (compare_candidates l r)
       (compare_ranges (ns_selection_byte_range l) (ns_selection_byte_range r)))
       (cmp_option cmp_str (ns_detail l) (ns_detail r))"

definition duplicate_key_equal :: "NormalizedSymbol \<Rightarrow> NormalizedSymbol \<Rightarrow> bool" where
  "duplicate_key_equal l r \<longleftrightarrow>
     ns_lsp_range l = ns_lsp_range r \<and> ns_kind l = ns_kind r \<and> ns_symbol_path l = ns_symbol_path r \<and>
     ns_name l = ns_name r"

definition prepare_candidates :: "NormalizedSymbol list \<Rightarrow> NormalizedSymbol list" where
  "prepare_candidates symbols = dedup_by duplicate_key_equal (sort_by compare_prepared symbols)"

definition order_unique_candidates :: "NormalizedSymbol list \<Rightarrow> NormalizedSymbol list" where
  "order_unique_candidates symbols = prepare_candidates symbols"

section \<open>Extents\<close>

definition is_line_blank :: "u8 \<Rightarrow> bool" where
  "is_line_blank b \<longleftrightarrow> b = 32 \<or> b = 9"

function declaration_line_end_from :: "bytes \<Rightarrow> nat \<Rightarrow> nat \<Rightarrow> nat" where
  "declaration_line_end_from bytes stop cursor =
     (if cursor < length bytes then
        (if is_line_blank (bytes ! cursor) then declaration_line_end_from bytes stop (cursor + 1)
         else if bytes ! cursor = CR
         then (if get_nth bytes (cursor + 1) = Some LF then cursor + 2 else cursor + 1)
         else if bytes ! cursor = LF then cursor + 1
         else stop)
      else cursor)"
  by pat_completeness auto
termination
  by (relation "measure (\<lambda>(bytes, stop, cursor). length bytes - cursor)") auto

declare declaration_line_end_from.simps [simp del]

definition declaration_line_end :: "bytes \<Rightarrow> nat \<Rightarrow> nat" where
  "declaration_line_end bytes stop = declaration_line_end_from bytes stop stop"

text \<open>One past the last terminator before \<open>start\<close>.\<close>

definition physical_line_start :: "bytes \<Rightarrow> nat \<Rightarrow> nat" where
  "physical_line_start bytes start =
     (case find (\<lambda>i. is_terminator_byte (bytes ! i)) (rev [0..<start]) of None \<Rightarrow> 0 | Some i \<Rightarrow> i + 1)"

definition apply_extent :: "bytes \<Rightarrow> ByteRange \<Rightarrow> SelectionExtent \<Rightarrow> SymbolError + ByteRange" where
  "apply_extent snapshot r extent =
     (if u64_max < length snapshot then Err InvalidExtent
      else if range_end r \<le> range_start r \<or> length snapshot < range_end r then Err InvalidExtent
      else if \<not> is_char_boundary snapshot (range_start r) \<or> \<not> is_char_boundary snapshot (range_end r)
      then Err InvalidExtent
      else if extent = SymbolExtent then Ok r
      else
        let line = physical_line_start snapshot (range_start r);
            expanded_start =
              (if list_all is_line_blank (slice snapshot line (range_start r)) then line else range_start r);
            expanded_end =
              (if 0 < range_end r \<and> is_terminator_byte (snapshot ! (range_end r - 1)) then range_end r
               else declaration_line_end snapshot (range_end r)) in
        if expanded_end \<le> expanded_start \<or> length snapshot < expanded_end then Err InvalidExtent
        else Ok \<lparr>range_start = expanded_start, range_end = expanded_end\<rparr>)"

section \<open>Resolution\<close>

definition kind_matches :: "NormalizedSymbolKind \<Rightarrow> KnownSymbolKind option \<Rightarrow> bool" where
  "kind_matches actual requested = (case requested of None \<Rightarrow> True | Some kind \<Rightarrow> actual = Known kind)"

definition contains_position :: "ByteRange \<Rightarrow> nat \<Rightarrow> nat \<Rightarrow> bool" where
  "contains_position r pos file_length \<longleftrightarrow>
     range_start r \<le> pos \<and> pos < range_end r \<or>
     pos = file_length \<and> range_end r = file_length \<and> range_start r < range_end r"

definition range_length :: "ByteRange \<Rightarrow> nat" where
  "range_length r = range_end r - range_start r"

definition symbol_match :: "bytes \<Rightarrow> SelectionExtent \<Rightarrow> NormalizedSymbol \<Rightarrow> SymbolError + SymbolMatch" where
  "symbol_match snapshot extent symbol =
     and_then (apply_extent snapshot (ns_byte_range symbol) extent) (\<lambda>selected.
     Ok \<lparr>sm_name = ns_name symbol, sm_detail = ns_detail symbol, sm_kind = ns_kind symbol,
       sm_symbol_path = ns_symbol_path symbol, sm_lsp_range = ns_lsp_range symbol,
       sm_lsp_selection_range = ns_lsp_selection_range symbol, sm_symbol_range = ns_byte_range symbol,
       sm_selected_range = selected, sm_extent = extent\<rparr>)"

definition finish_resolution ::
    "NormalizedSymbol list \<Rightarrow> bytes \<Rightarrow> SelectionExtent \<Rightarrow> MatchMode \<Rightarrow> SymbolLimits \<Rightarrow> SymbolError + SymbolMatch list" where
  "finish_resolution candidates snapshot extent mode limits =
     (if mode = AllMatches \<and> sl_maximum_matches limits < length candidates
      then Err (resource_error ''selection_matches'' (min (sl_maximum_matches limits) u64_max))
      else if mode = Unique \<and> candidates = [] then Err SymbolNotFound
      else if mode = Unique \<and> 1 < length candidates
      then Err (Ambiguous (min (length candidates) u64_max)
        (map (\<lambda>s. \<lparr>ac_name = ns_name s, ac_kind = ns_kind s, ac_symbol_path = ns_symbol_path s,
            ac_byte_range = ns_byte_range s\<rparr>)
          (take (sl_maximum_ambiguity_candidates limits) candidates)))
      else try_map (symbol_match snapshot extent) candidates)"

definition resolve_name ::
    "NormalizedSymbol list \<Rightarrow> bytes \<Rightarrow> string \<Rightarrow> KnownSymbolKind option \<Rightarrow> SelectionExtent \<Rightarrow> MatchMode \<Rightarrow>
     SymbolLimits \<Rightarrow> SymbolError + SymbolMatch list" where
  "resolve_name symbols snapshot name kind extent mode limits =
     finish_resolution
       (prepare_candidates (filter (\<lambda>s. ns_name s = name \<and> kind_matches (ns_kind s) kind) symbols))
       snapshot extent mode limits"

definition compare_lengths :: "NormalizedSymbol \<Rightarrow> NormalizedSymbol \<Rightarrow> Ordering" where
  "compare_lengths l r =
     then_with (cmp_nat (range_length (ns_byte_range l)) (range_length (ns_byte_range r))) (compare_candidates l r)"

definition keep_shortest :: "NormalizedSymbol list \<Rightarrow> NormalizedSymbol list" where
  "keep_shortest candidates =
     (let sorted = sort_by compare_lengths candidates;
          shortest = range_length (ns_byte_range (hd sorted)) in
      take (partition_point (\<lambda>c. range_length (ns_byte_range c) = shortest) sorted) sorted)"

definition resolve_position ::
    "NormalizedSymbol list \<Rightarrow> bytes \<Rightarrow> nat \<Rightarrow> KnownSymbolKind option \<Rightarrow> SelectionExtent \<Rightarrow> MatchMode \<Rightarrow>
     SymbolLimits \<Rightarrow> SymbolError + SymbolMatch list" where
  "resolve_position symbols snapshot byte_offset kind extent mode limits =
     (if u64_max < length snapshot \<or> length snapshot < byte_offset \<or> \<not> is_char_boundary snapshot byte_offset
      then Err QueryPositionOutOfBounds
      else
        let candidates = prepare_candidates
              (filter (\<lambda>s. kind_matches (ns_kind s) kind \<and>
                 contains_position (ns_byte_range s) byte_offset (length snapshot)) symbols) in
        finish_resolution
          (if mode = Unique \<and> candidates \<noteq> [] then keep_shortest candidates else candidates)
          snapshot extent mode limits)"

section \<open>Conversions that succeed\<close>

definition describes_snapshot :: "nat list \<Rightarrow> PositionConverter \<Rightarrow> bool" where
  "describes_snapshot cs c \<longleftrightarrow> pc_text c = utf8 cs \<and> list_all is_scalar cs \<and>
     boundaries (pc_line_index c) = prefix_ends 0 (split_lines (utf8 cs)) \<and> length (utf8 cs) \<le> u32_max"

text \<open>The same converter with an unlimited budget.\<close>

definition unlimited :: "PositionConverter \<Rightarrow> PositionConverter" where
  "unlimited c = c\<lparr>pc_limits := \<lparr>maximum_code_points_scanned = u64_max\<rparr>, pc_code_points_scanned := 0\<rparr>"

lemma unlimited_simps [simp]:
  "pc_text (unlimited c) = pc_text c" "pc_line_index (unlimited c) = pc_line_index c"
  "pc_encoding (unlimited c) = pc_encoding c"
  by (simp_all add: unlimited_def)

lemma unlimited_converts: "describes_snapshot cs c \<Longrightarrow> converts cs (unlimited c)"
  by (simp add: describes_snapshot_def converts_def affordable_def unlimited_def u32_max_def u64_max_def)

lemma describes_snapshot_examined [simp]: "describes_snapshot cs (examined n c) = describes_snapshot cs c"
  by (simp add: describes_snapshot_def)

lemma charge_cases:
  "charge_code_point c = (c, Err WorkLimitExceeded) \<or> charge_code_point c = (examined 1 c, Ok ())"
  by (auto simp: charge_code_point_def examined_def checked_add_u64_def)

lemma units_to_byte_sound:
  assumes "units_to_byte w t len u xs c = (c', r)" "affordable (length xs) d"
  shows "(\<exists>n. c' = examined n c) \<and> (\<forall>b. r = Ok b \<longrightarrow> (\<exists>n. units_to_byte w t len u xs d = (examined n d, Ok b)))"
  using assms
proof (induction xs arbitrary: c d u)
  case Nil
  then show ?case using examined_simps(6) by (auto intro: exI[of _ 0])
next
  case (Cons x xs)
  obtain byte scalar where x: "x = (byte, scalar)" by (cases x)
  show ?case
  proof (cases "u = t \<or> charge_code_point c = (c, Err WorkLimitExceeded)")
    case True
    then show ?thesis using Cons.prems(1) x by (cases "u = t") (auto intro: exI[of _ 0])
  next
    case False
    then have ch: "charge_code_point c = (examined 1 c, Ok ())" using charge_cases by blast
    note chd = charge_step[of "length xs" d]
    show ?thesis
    proof (cases "u + w scalar \<le> u64_max \<and> \<not> t < u + w scalar")
      case True
      then have "units_to_byte w t len (u + w scalar) xs (examined 1 c) = (c', r)"
        using Cons.prems(1) False ch x by (simp add: checked_add_u64_def)
      from Cons.IH[OF this, of "examined 1 d"] chd Cons.prems(2) True False show ?thesis
        by (auto simp: x checked_add_u64_def)
    next
      case no: False
      then have "c' = examined 1 c \<and> (\<exists>e. r = Err e)"
        using Cons.prems(1) False ch x by (auto simp: checked_add_u64_def split: if_splits)
      then show ?thesis by auto
    qed
  qed
qed

lemma line_units_to_byte_sound:
  assumes "line_units_to_byte enc content ch c = (c', r)" "affordable (length (chars content)) d"
  shows "(\<exists>n. c' = examined n c) \<and> (\<forall>b. r = Ok b \<longrightarrow> (\<exists>n. line_units_to_byte enc content ch d = (examined n d, Ok b)))"
proof (cases enc)
  case Utf8
  then show ?thesis using assms(1) by (auto simp: line_units_to_byte_def intro: exI[of _ 0])
next
  case Utf16
  have "length (char_offsets k s) = length s" for k s by (induction s arbitrary: k) auto
  then show ?thesis
    using units_to_byte_sound[of len_utf16 ch "length content" 0 "char_indices content" c c' r d] assms Utf16
    by (simp add: line_units_to_byte_def encoded_units_to_byte_def char_indices_def)
next
  case Utf32
  have "length (char_offsets k s) = length s" for k s by (induction s arbitrary: k) auto
  then show ?thesis
    using units_to_byte_sound[of "\<lambda>_. 1" ch "length content" 0 "char_indices content" c c' r d] assms Utf32
    by (simp add: line_units_to_byte_def encoded_units_to_byte_def char_indices_def)
qed

lemma lsp_position_to_byte_line:
  assumes "line_bounds_of c (po_line p) = Ok (bounds_at c (po_line p))"
    and "str_get (pc_text c) (line_offset (pc_text c) (po_line p))
      (line_offset (pc_text c) (po_line p) + length (utf8 (line_scalars (pc_text c) (po_line p)))) =
      Some (utf8 (line_scalars (pc_text c) (po_line p)))"
  shows "lsp_position_to_byte p c =
    cv_bind (line_units_to_byte (pc_encoding c) (utf8 (line_scalars (pc_text c) (po_line p))) (po_character p))
      (\<lambda>relative. cv_lift (ok_or (checked_add_u64 (line_offset (pc_text c) (po_line p)) relative) InvalidSnapshotIndex)) c"
  using assms
  by (simp add: lsp_position_to_byte_def line_content_def line_units_to_byte_def split: prod.split sum.split)

lemma lsp_position_to_byte_sound:
  assumes d: "describes_snapshot cs c" and run: "lsp_position_to_byte p c = (c', r)"
    and p: "po_line p \<le> u32_max" "po_character p \<le> u32_max"
  shows "(\<exists>n. c' = examined n c) \<and> (\<forall>b. r = Ok b \<longrightarrow> meaning (utf8 cs) (pc_encoding c) p = Ok b)"
proof -
  let ?d = "unlimited c"
  note cv = unlimited_converts[OF d]
  have same: "line_bounds_of ?d i = line_bounds_of c i" for i by (simp add: line_bounds_of_def content_end_def)
  show ?thesis
  proof (cases "length (split_lines (pc_text c)) \<le> po_line p")
    case True
    then have "line_bounds_of c (po_line p) = Err NonexistentLine"
      using line_beyond[OF cv, of "po_line p"] p(1) same by simp
    then have "c' = c \<and> r = Err NonexistentLine" using run by (simp add: lsp_position_to_byte_def)
    then show ?thesis by (auto intro: exI[of _ 0])
  next
    case False
    then have i: "po_line p < length (split_lines (pc_text ?d))" by simp
    let ?l = "line_scalars (pc_text c) (po_line p)" and ?o = "line_offset (pc_text c) (po_line p)"
    note at = line_content_at[OF cv i] and fit = line_scalars_fit[OF cv i]
    obtain c1 r1 where l: "line_units_to_byte (pc_encoding c) (utf8 ?l) (po_character p) c = (c1, r1)"
      by (cases "line_units_to_byte (pc_encoding c) (utf8 ?l) (po_character p) c")
    have s: "(\<exists>n. c1 = examined n c) \<and> (\<forall>b. r1 = Ok b \<longrightarrow>
        (\<exists>n. line_units_to_byte (pc_encoding c) (utf8 ?l) (po_character p) ?d = (examined n ?d, Ok b)))"
      using line_units_to_byte_sound[OF l, of ?d] fit(2) at(3) by (simp add: chars_utf8)
    have c_run: "lsp_position_to_byte p c =
        cv_bind (line_units_to_byte (pc_encoding c) (utf8 ?l) (po_character p))
          (\<lambda>relative. cv_lift (ok_or (checked_add_u64 ?o relative) InvalidSnapshotIndex)) c"
      by (rule lsp_position_to_byte_line) (use at(1,2) same in simp_all)
    have d_run: "lsp_position_to_byte p ?d =
        cv_bind (line_units_to_byte (pc_encoding c) (utf8 ?l) (po_character p))
          (\<lambda>relative. cv_lift (ok_or (checked_add_u64 ?o relative) InvalidSnapshotIndex)) ?d"
      using lsp_position_to_byte_line[of ?d p] at(1,2) unfolding unlimited_simps by blast
    have "meaning (utf8 cs) (pc_encoding c) p = Ok b" if rb: "r = Ok b" for b
    proof -
      obtain rel where rel: "r1 = Ok rel" "ok_or (checked_add_u64 ?o rel) InvalidSnapshotIndex = Ok b"
        using run rb l c_run by (auto split: sum.split_asm)
      then obtain n where "line_units_to_byte (pc_encoding c) (utf8 ?l) (po_character p) ?d = (examined n ?d, Ok rel)"
        using s by blast
      then have "snd (lsp_position_to_byte p ?d) = Ok b" using d_run rel(2) by simp
      moreover obtain m where "lsp_position_to_byte p ?d = (examined m ?d, meaning (utf8 cs) (pc_encoding c) p)"
        using lsp_position_to_byte_meaning[OF cv p] by auto
      ultimately show ?thesis by simp
    qed
    moreover have "c' = c1" using run l c_run by (auto split: sum.split_asm)
    ultimately show ?thesis using s by blast
  qed
qed

text \<open>A range that the server may have meant: nonempty, and both ends on character boundaries.\<close>

definition meant_range :: "bytes \<Rightarrow> SupportedPositionEncoding \<Rightarrow> LspRange \<Rightarrow> ByteRange \<Rightarrow> bool" where
  "meant_range text enc r b \<longleftrightarrow>
     meaning text enc (ra_start r) = Ok (range_start b) \<and> meaning text enc (ra_end r) = Ok (range_end b) \<and>
     range_start b < range_end b \<and> range_end b \<le> length text"

lemma lsp_range_to_byte_range_sound:
  assumes d: "describes_snapshot cs c" and run: "lsp_range_to_byte_range r c = (c', x)" and w: "wire_range_is_valid r"
  shows "(\<exists>n. c' = examined n c) \<and> (\<forall>b. x = Ok b \<longrightarrow> meant_range (utf8 cs) (pc_encoding c) r b)"
proof -
  have p: "po_line (ra_start r) \<le> u32_max" "po_character (ra_start r) \<le> u32_max"
    "po_line (ra_end r) \<le> u32_max" "po_character (ra_end r) \<le> u32_max"
    using w by (auto simp: wire_range_is_valid_def MAXIMUM_LSP_UINTEGER_def u32_max_def)
  obtain c1 s where s: "lsp_position_to_byte (ra_start r) c = (c1, s)" by (cases "lsp_position_to_byte (ra_start r) c")
  obtain n where n: "c1 = examined n c" "\<And>b. s = Ok b \<Longrightarrow> meaning (utf8 cs) (pc_encoding c) (ra_start r) = Ok b"
    using lsp_position_to_byte_sound[OF d s p(1,2)] by blast
  have d1: "describes_snapshot cs c1" using d n(1) by simp
  obtain c2 e where e: "lsp_position_to_byte (ra_end r) c1 = (c2, e)" by (cases "lsp_position_to_byte (ra_end r) c1")
  obtain m where m: "c2 = examined m c1" "\<And>b. e = Ok b \<Longrightarrow> meaning (utf8 cs) (pc_encoding c1) (ra_end r) = Ok b"
    using lsp_position_to_byte_sound[OF d1 e p(3,4)] by blast
  have t: "pc_text c2 = utf8 cs" using d n(1) m(1) by (simp add: describes_snapshot_def)
  show ?thesis
    using run s e n m t
    by (cases s; cases e) (auto simp: lsp_range_to_byte_range_def meant_range_def split: if_split_asm)
qed

section \<open>Flattening\<close>

text \<open>The reference: the symbols of a hierarchy in preorder, each with its breadcrumb.\<close>

fun preorder :: "string list \<Rightarrow> DocumentSymbol \<Rightarrow> (string list \<times> DocumentSymbol) list" where
  "preorder path (DocumentSymbol name detail kind r s None) = [(path @ [name], DocumentSymbol name detail kind r s None)]"
| "preorder path (DocumentSymbol name detail kind r s (Some children)) =
     (path @ [name], DocumentSymbol name detail kind r s (Some children)) #
     concat (map (preorder (path @ [name])) children)"

definition parent_names :: "PendingSymbol \<Rightarrow> string list" where
  "parent_names p = (case ps_parent_path p of None \<Rightarrow> [] | Some node \<Rightarrow> rev (node_names node))"

definition pending_symbols :: "PendingSymbol \<Rightarrow> (string list \<times> DocumentSymbol) list" where
  "pending_symbols p = preorder (parent_names p) (ps_symbol p)"

definition total_name_bytes :: "string list \<Rightarrow> nat" where
  "total_name_bytes path = sum_list (map length path)"

text \<open>What a normalized symbol says about the symbol of the server.\<close>

definition normalizes :: "SymbolLimits \<Rightarrow> bytes \<Rightarrow> SupportedPositionEncoding \<Rightarrow> string list \<times> DocumentSymbol \<Rightarrow> NormalizedSymbol \<Rightarrow> bool" where
  "normalizes limits text enc = (\<lambda>(path, s) n.
     ns_name n = ds_name s \<and> ns_detail n = ds_detail s \<and> ns_kind n = normalize_kind (ds_kind s) \<and>
     ns_symbol_path n = path \<and> ns_lsp_range n = ds_range s \<and> ns_lsp_selection_range n = ds_selection_range s \<and>
     meant_range text enc (ds_range s) (ns_byte_range n) \<and>
     meant_range text enc (ds_selection_range s) (ns_selection_byte_range n) \<and>
     range_contains (ns_byte_range n) (ns_selection_byte_range n) \<and>
     ds_name s \<noteq> [] \<and> length (ds_name s) \<le> sl_maximum_name_bytes limits \<and>
     (case ds_detail s of None \<Rightarrow> True | Some d \<Rightarrow> length d \<le> sl_maximum_detail_bytes limits) \<and>
     length path \<le> sl_maximum_depth limits \<and> total_name_bytes path \<le> sl_maximum_path_bytes limits)"

definition owned_bytes :: "NormalizedSymbol \<Rightarrow> nat" where
  "owned_bytes n = 2 * length (ns_name n) + (case ns_detail n of None \<Rightarrow> 0 | Some d \<Rightarrow> length d) +
     total_name_bytes (ns_symbol_path n)"

text \<open>A stack entry whose counters agree with its breadcrumb, and a loop state within its limits.\<close>

definition entry_ok :: "PendingSymbol \<Rightarrow> bool" where
  "entry_ok p \<longleftrightarrow> ps_parent_path_bytes p = total_name_bytes (parent_names p) \<and> ps_depth p = Suc (length (parent_names p))"

definition normalize_inv :: "SymbolLimits \<Rightarrow> nat list \<Rightarrow> SupportedPositionEncoding \<Rightarrow> NormalizeState \<Rightarrow> bool" where
  "normalize_inv limits cs enc z \<longleftrightarrow>
     describes_snapshot cs (nz_converter z) \<and> pc_encoding (nz_converter z) = enc \<and>
     nz_raw_count z = length (nz_normalized z) \<and> nz_flattened_count z = length (nz_normalized z) \<and>
     nz_candidate_storage_bytes z = sum_list (map owned_bytes (nz_normalized z)) \<and>
     length (nz_normalized z) \<le> sl_maximum_raw_symbols limits \<and>
     length (nz_normalized z) \<le> sl_maximum_flattened_symbols limits \<and>
     nz_candidate_storage_bytes z \<le> sl_maximum_candidate_storage_bytes limits"

lemma enforce_symbol_limit_Ok [simp]: "enforce_symbol_limit a m r = Ok u \<longleftrightarrow> a \<le> m"
  by (auto simp: enforce_symbol_limit_def)

lemma enforce_byte_length_Ok [simp]: "enforce_byte_length s m r = Ok u \<longleftrightarrow> length s \<le> m \<and> length s \<le> u64_max"
  by (auto simp: enforce_byte_length_def)

lemma candidate_bytes_Some:
  "candidate_bytes name detail path_bytes = Some n \<Longrightarrow>
     n = 2 * length name + (case detail of None \<Rightarrow> 0 | Some d \<Rightarrow> length d) + path_bytes"
  by (auto simp: candidate_bytes_def split: option.split_asm)

lemma materialize_path_Ok: "materialize_path node d = Ok path \<longleftrightarrow> d \<le> u64_max \<and> path = rev (node_names node)"
  by (auto simp: materialize_path_def)

lemma convert_range_Ok:
  assumes "convert_range r z = Ok (z', b)" "normalize_inv limits cs enc z" "wire_range_is_valid r"
  shows "(\<exists>n. z' = z\<lparr>nz_converter := examined n (nz_converter z)\<rparr>) \<and> normalize_inv limits cs enc z' \<and>
    meant_range (utf8 cs) enc r b"
proof -
  obtain c' where c: "lsp_range_to_byte_range r (nz_converter z) = (c', Ok b)" "z' = z\<lparr>nz_converter := c'\<rparr>"
    using assms(1) by (auto simp: convert_range_def split: prod.split_asm sum.split_asm)
  show ?thesis
    using lsp_range_to_byte_range_sound[OF _ c(1) assms(3), of cs] c(2) assms(2)
    by (auto simp: normalize_inv_def)
qed

lemma pending_children_symbols:
  assumes "pending_children limits remaining raw (PathNode name parent) bytes depth children = Ok pushed"
  shows "pushed = map (\<lambda>child. \<lparr>ps_symbol = child, ps_parent_path = Some (PathNode name parent),
    ps_parent_path_bytes = bytes, ps_depth = Suc depth\<rparr>) children"
  using assms by (auto simp: pending_children_def)

lemma node_names_names: "rev (node_names (PathNode name parent)) =
    (case parent of None \<Rightarrow> [] | Some node \<Rightarrow> rev (node_names node)) @ [name]"
  by (cases parent) auto

text \<open>One iteration takes a symbol off the pending preorder.\<close>

lemma normalize_symbol_step:
  assumes run: "normalize_symbol limits remaining pending z = Ok (pushed, z')"
    and inv: "normalize_inv limits cs enc z" and entry: "entry_ok pending"
  shows "\<exists>n path. nz_normalized z' = nz_normalized z @ [n] \<and> normalize_inv limits cs enc z' \<and>
    list_all entry_ok pushed \<and> normalizes limits (utf8 cs) enc (path, ps_symbol pending) n \<and>
    pending_symbols pending = (path, ps_symbol pending) # concat (map pending_symbols pushed)"
proof -
  obtain name detail kind r s children where sym: "ps_symbol pending = DocumentSymbol name detail kind r s children"
    by (cases "ps_symbol pending")
  let ?node = "PathNode name (ps_parent_path pending)" and ?path = "parent_names pending @ [name]"
  obtain path_bytes z1 b z2 sb owned where
    depth: "ps_depth pending \<le> sl_maximum_depth limits"
    and shape: "name \<noteq> []" "wire_range_is_valid r" "wire_range_is_valid s"
    and name: "length name \<le> sl_maximum_name_bytes limits"
    and detail: "case detail of None \<Rightarrow> True | Some d \<Rightarrow> length d \<le> sl_maximum_detail_bytes limits"
    and path_bytes: "path_bytes = ps_parent_path_bytes pending + length name" "path_bytes \<le> sl_maximum_path_bytes limits"
    and conv: "convert_range r z = Ok (z1, b)" "convert_range s z1 = Ok (z2, sb)" "range_contains b sb"
    and owned: "candidate_bytes name detail path_bytes = Some owned"
    and storage: "nz_candidate_storage_bytes z2 + owned \<le> sl_maximum_candidate_storage_bytes limits"
    and pushed: "pushed = (case children of None \<Rightarrow> [] | Some cs \<Rightarrow>
        map (\<lambda>child. \<lparr>ps_symbol = child, ps_parent_path = Some ?node, ps_parent_path_bytes = path_bytes,
          ps_depth = Suc (ps_depth pending)\<rparr>) cs)"
    and counts: "Suc (nz_raw_count z) \<le> sl_maximum_raw_symbols limits"
      "Suc (nz_flattened_count z2) \<le> sl_maximum_flattened_symbols limits"
    and z': "z' = z2\<lparr>nz_raw_count := Suc (nz_raw_count z), nz_flattened_count := Suc (nz_flattened_count z2),
       nz_candidate_storage_bytes := nz_candidate_storage_bytes z2 + owned,
       nz_normalized := nz_normalized z2 @
         [\<lparr>ns_name = name, ns_detail = detail, ns_kind = normalize_kind kind,
           ns_symbol_path = rev (node_names ?node), ns_lsp_range = r, ns_lsp_selection_range = s,
           ns_byte_range = b, ns_selection_byte_range = sb\<rparr>]\<rparr>"
    using run sym
    by (auto simp: normalize_symbol_def Let_def materialize_path_Ok split: option.split_asm dest!: pending_children_symbols)
  have p: "rev (node_names ?node) = ?path" by (simp add: node_names_names parent_names_def)
  note c1 = convert_range_Ok[OF conv(1) inv shape(2)]
  note c2 = convert_range_Ok[OF conv(2) conjunct1[OF conjunct2[OF c1]] shape(3)]
  have same: "nz_normalized z2 = nz_normalized z" "nz_raw_count z2 = nz_raw_count z" using c1 c2 by auto
  define n where "n = \<lparr>ns_name = name, ns_detail = detail, ns_kind = normalize_kind kind, ns_symbol_path = ?path,
    ns_lsp_range = r, ns_lsp_selection_range = s, ns_byte_range = b, ns_selection_byte_range = sb\<rparr>"
  have bytes: "path_bytes = total_name_bytes ?path" using entry path_bytes(1) by (simp add: entry_ok_def total_name_bytes_def)
  then have o: "owned = owned_bytes n"
    using candidate_bytes_Some[OF owned] by (simp add: owned_bytes_def n_def)
  have "normalizes limits (utf8 cs) enc (?path, ps_symbol pending) n"
    using c1 c2 conv(3) shape name detail depth entry path_bytes(2) bytes
    by (simp add: normalizes_def n_def sym entry_ok_def)
  moreover have "normalize_inv limits cs enc z'"
    using conjunct1[OF conjunct2[OF c2]] counts storage same o by (simp add: normalize_inv_def z' p n_def[symmetric])
  moreover have "list_all entry_ok pushed"
    using bytes entry p by (cases children) (auto simp: pushed list_all_iff entry_ok_def parent_names_def)
  moreover have "pending_symbols pending = (?path, ps_symbol pending) # concat (map pending_symbols pushed)"
  proof (cases children)
    case None
    then show ?thesis by (simp add: pending_symbols_def sym pushed)
  next
    case (Some kids)
    have "map pending_symbols pushed = map (preorder ?path) kids"
      using p Some by (simp add: pushed pending_symbols_def parent_names_def comp_def)
    then show ?thesis using Some by (simp add: pending_symbols_def sym)
  qed
  moreover have "nz_normalized z' = nz_normalized z @ [n]" using same by (simp add: z' p n_def)
  ultimately show ?thesis by blast
qed

lemma normalize_loop_Ok:
  assumes "normalize_loop limits stack z = Ok out" "normalize_inv limits cs enc z" "list_all entry_ok stack"
  shows "\<exists>more_symbols. out = nz_normalized z @ more_symbols \<and>
    list_all2 (normalizes limits (utf8 cs) enc) (concat (map pending_symbols stack)) more_symbols \<and>
    length out \<le> sl_maximum_raw_symbols limits \<and> length out \<le> sl_maximum_flattened_symbols limits \<and>
    sum_list (map owned_bytes out) \<le> sl_maximum_candidate_storage_bytes limits"
  using assms
proof (induction limits stack z rule: normalize_loop.induct)
  case (1 limits z)
  then show ?case by (auto simp: normalize_inv_def)
next
  case (2 limits pending stack z)
  obtain pushed z' where run: "normalize_symbol limits (length stack) pending z = Ok (pushed, z')"
    and rest: "normalize_loop limits (pushed @ stack) z' = Ok out"
    using "2.prems"(1) by auto
  obtain n path where step: "nz_normalized z' = nz_normalized z @ [n]" "normalize_inv limits cs enc z'"
    "list_all entry_ok pushed" "normalizes limits (utf8 cs) enc (path, ps_symbol pending) n"
    "pending_symbols pending = (path, ps_symbol pending) # concat (map pending_symbols pushed)"
    using normalize_symbol_step[OF run "2.prems"(2)] "2.prems"(3) by auto
  obtain more_symbols where m: "out = nz_normalized z' @ more_symbols"
    "list_all2 (normalizes limits (utf8 cs) enc) (concat (map pending_symbols (pushed @ stack))) more_symbols"
    "length out \<le> sl_maximum_raw_symbols limits \<and> length out \<le> sl_maximum_flattened_symbols limits \<and>
     sum_list (map owned_bytes out) \<le> sl_maximum_candidate_storage_bytes limits"
    using "2.IH"[OF run refl rest step(2)] step(3) "2.prems"(3) by auto
  have "concat (map pending_symbols (pending # stack)) =
      (path, ps_symbol pending) # concat (map pending_symbols (pushed @ stack))"
    using step(5) by simp
  then have "list_all2 (normalizes limits (utf8 cs) enc) (concat (map pending_symbols (pending # stack))) (n # more_symbols)"
    using step(4) m(2) by (simp only: list_all2_Cons)
  moreover have "out = nz_normalized z @ n # more_symbols" using m(1) step(1) by simp
  ultimately show ?case using m(3) by blast
qed

lemma normalize_document_symbols_Ok:
  assumes "describes_snapshot cs c" "normalize_document_symbols from_value response c limits = Ok out"
  shows "\<exists>roots. decode_hierarchical_response from_value response = Ok roots \<and>
    list_all2 (normalizes limits (utf8 cs) (pc_encoding c)) (concat (map (preorder []) roots)) out \<and>
    length out \<le> sl_maximum_raw_symbols limits \<and> length out \<le> sl_maximum_flattened_symbols limits \<and>
    sum_list (map owned_bytes out) \<le> sl_maximum_candidate_storage_bytes limits"
proof -
  let ?root = "\<lambda>r. \<lparr>ps_symbol = r, ps_parent_path = None, ps_parent_path_bytes = 0, ps_depth = 1\<rparr>"
  let ?z = "\<lparr>nz_raw_count = 0, nz_flattened_count = 0, nz_candidate_storage_bytes = 0, nz_normalized = [], nz_converter = c\<rparr>"
  obtain roots where r: "decode_hierarchical_response from_value response = Ok roots"
    "normalize_loop limits (map ?root roots) ?z = Ok out"
    using assms(2) by (auto simp: normalize_document_symbols_def normalize_hierarchical_symbols_def split: if_split_asm)
  have "normalize_inv limits cs (pc_encoding c) ?z" using assms(1) by (simp add: normalize_inv_def)
  moreover have "list_all entry_ok (map ?root roots)"
    by (simp add: list_all_iff entry_ok_def parent_names_def total_name_bytes_def)
  moreover have "concat (map pending_symbols (map ?root roots)) = concat (map (preorder []) roots)"
    by (simp add: pending_symbols_def parent_names_def comp_def)
  ultimately show ?thesis using normalize_loop_Ok[OF r(2), of cs "pc_encoding c"] r(1) by auto
qed

section \<open>Sorting and removing duplicates\<close>

lemma mset_insert_by: "mset (insert_by cmp x xs) = add_mset x (mset xs)"
  by (induction xs) auto

lemma mset_sort_by [simp]: "mset (sort_by cmp xs) = mset xs"
  by (induction xs) (simp_all add: sort_by_def mset_insert_by)

lemma set_sort_by [simp]: "set (sort_by cmp xs) = set xs"
  by (metis mset_sort_by set_mset_mset)

lemma sort_by_sorted:
  assumes "\<And>x y. cmp x y = Greater \<Longrightarrow> f y \<le> f x" "\<And>x y. cmp x y \<noteq> Greater \<Longrightarrow> f x \<le> (f y :: 'b :: linorder)"
  shows "sorted (map f (sort_by cmp xs))"
proof -
  have set: "set (insert_by cmp x xs) = insert x (set xs)" for x xs
    by (metis mset_insert_by set_mset_add_mset_insert set_mset_mset)
  have "sorted (map f (insert_by cmp x xs))" if "sorted (map f xs)" for x xs
    using that
  proof (induction xs)
    case (Cons y ys)
    show ?case
    proof (cases "cmp x y = Greater")
      case True
      then show ?thesis using Cons assms(1)[of x y] by (auto simp: set)
    next
      case False
      then have "f x \<le> f y" using assms(2) by blast
      then show ?thesis using Cons False by (auto intro: order_trans)
    qed
  qed simp
  then show ?thesis by (induction xs) (simp_all add: sort_by_def)
qed

lemma set_dedup_by: "set (dedup_by same xs) \<subseteq> set xs"
  by (induction same xs rule: dedup_by.induct) auto

lemma dedup_by_represents:
  assumes "equivp same" "x \<in> set xs"
  shows "\<exists>y \<in> set (dedup_by same xs). same x y"
  using assms
proof (induction same xs arbitrary: x rule: dedup_by.induct)
  case (1 same a b ys)
  show ?case
  proof (cases "same b a")
    case True
    note ih = "1.IH"(1)[OF True "1.prems"(1)]
    have "\<exists>z \<in> set (a # ys). same x z"
      using "1.prems" True by (auto intro: equivp_reflp)
    then show ?thesis using ih True equivp_transp[OF "1.prems"(1)] by fastforce
  next
    case False
    then show ?thesis
      using "1.IH"(2)[OF False "1.prems"(1), of x] "1.prems" by (auto intro: equivp_reflp)
  qed
qed (auto intro: equivp_reflp)

lemma duplicate_key_equivp: "equivp duplicate_key_equal"
  by (auto simp: equivp_reflp_symp_transp reflp_def symp_def transp_def duplicate_key_equal_def)

lemma set_prepare_candidates: "set (prepare_candidates symbols) \<subseteq> set symbols"
  using set_dedup_by[of duplicate_key_equal "sort_by compare_prepared symbols"] by (simp add: prepare_candidates_def)

lemma prepare_candidates_represents:
  "s \<in> set symbols \<Longrightarrow> \<exists>t \<in> set (prepare_candidates symbols). duplicate_key_equal s t"
  unfolding prepare_candidates_def by (rule dedup_by_represents[OF duplicate_key_equivp]) simp

lemma prepare_candidates_Nil [simp]: "prepare_candidates symbols = [] \<longleftrightarrow> symbols = []"
  using prepare_candidates_represents[of "hd symbols" symbols] set_prepare_candidates[of symbols]
  by (cases symbols) auto

text \<open>The shortest ranges are a prefix of the candidates sorted by length.\<close>

lemma keep_shortest_iff:
  assumes "candidates \<noteq> []"
  shows "s \<in> set (keep_shortest candidates) \<longleftrightarrow> s \<in> set candidates \<and>
    (\<forall>t \<in> set candidates. range_length (ns_byte_range s) \<le> range_length (ns_byte_range t))"
proof -
  let ?f = "\<lambda>s. range_length (ns_byte_range s)"
  let ?xs = "sort_by compare_lengths candidates"
  have sorted: "sorted (map ?f ?xs)"
    by (rule sort_by_sorted) (auto simp: compare_lengths_def then_with_def cmp_nat_def split: if_splits)
  have ne: "?xs \<noteq> []" using assms by (metis set_empty set_sort_by)
  have keep: "keep_shortest candidates = takeWhile (\<lambda>c. ?f c = ?f (hd ?xs)) ?xs"
    by (simp add: keep_shortest_def Let_def partition_point_def takeWhile_eq_take[symmetric])
  have least: "?f (hd ?xs) \<le> ?f t" if "t \<in> set candidates" for t
  proof -
    have "t \<in> set ?xs" using that by simp
    then show ?thesis using sorted by (cases ?xs) auto
  qed
  have tw: "x \<in> set (takeWhile (\<lambda>c. ?f c = k) xs) \<longleftrightarrow> x \<in> set xs \<and> ?f x = k"
    if "sorted (map ?f xs)" "\<forall>y \<in> set xs. k \<le> ?f y" for x k xs
    using that by (induction xs) (auto dest: set_takeWhileD)
  then have "s \<in> set (keep_shortest candidates) \<longleftrightarrow> s \<in> set candidates \<and> ?f s = ?f (hd ?xs)"
    using tw[OF sorted, of "?f (hd ?xs)" s] least unfolding keep by (simp only: set_sort_by) blast
  moreover have "hd ?xs \<in> set candidates" using ne by (metis hd_in_set set_sort_by)
  ultimately show ?thesis using least by (auto intro: antisym)
qed

section \<open>Extents add only blanks\<close>

lemma declaration_line_end_from_cases:
  assumes "stop \<le> cursor" "cursor \<le> length bs" "list_all is_line_blank (slice bs stop cursor)"
  defines "e \<equiv> declaration_line_end_from bs stop cursor"
  shows "e = stop \<or>
    (\<exists>k \<ge> cursor. k \<le> e \<and> e \<le> length bs \<and> list_all is_line_blank (slice bs stop k) \<and>
       (slice bs k e = [CR, LF] \<or> slice bs k e = [CR] \<and> get_nth bs e \<noteq> Some LF \<or> slice bs k e = [LF] \<or>
        slice bs k e = [] \<and> e = length bs))"
  using assms(1-3) unfolding e_def
proof (induction bs stop cursor rule: declaration_line_end_from.induct)
  case (1 bs stop cursor)
  show ?case
  proof (cases "cursor < length bs")
    case False
    then have "declaration_line_end_from bs stop cursor = cursor" by (simp add: declaration_line_end_from.simps)
    then show ?thesis using "1.prems" False by auto
  next
    case True
    have one: "slice bs cursor (Suc cursor) = [bs ! cursor]"
      using True by (simp add: slice_def take_Suc_conv_app_nth hd_drop_conv_nth take_Suc)
    show ?thesis
    proof (cases "is_line_blank (bs ! cursor)")
      case b: True
      then have "list_all is_line_blank (slice bs stop (cursor + 1))"
        using "1.prems" one slice_append_adjacent[of stop cursor "Suc cursor" bs, symmetric] by simp
      then have "declaration_line_end_from bs stop (cursor + 1) = stop \<or>
          (\<exists>k \<ge> cursor + 1. k \<le> declaration_line_end_from bs stop (cursor + 1) \<and>
             declaration_line_end_from bs stop (cursor + 1) \<le> length bs \<and> list_all is_line_blank (slice bs stop k) \<and>
             (slice bs k (declaration_line_end_from bs stop (cursor + 1)) = [CR, LF] \<or>
              slice bs k (declaration_line_end_from bs stop (cursor + 1)) = [CR] \<and>
                get_nth bs (declaration_line_end_from bs stop (cursor + 1)) \<noteq> Some LF \<or>
              slice bs k (declaration_line_end_from bs stop (cursor + 1)) = [LF] \<or>
              slice bs k (declaration_line_end_from bs stop (cursor + 1)) = [] \<and>
                declaration_line_end_from bs stop (cursor + 1) = length bs))"
        using "1.IH"[OF True b] "1.prems" True by simp
      moreover have "declaration_line_end_from bs stop cursor = declaration_line_end_from bs stop (cursor + 1)"
        using True b by (subst declaration_line_end_from.simps) simp
      ultimately show ?thesis by (metis Suc_eq_plus1 Suc_leD)
    next
      case nb: False
      consider (crlf) "bs ! cursor = CR" "get_nth bs (cursor + 1) = Some LF"
        | (cr) "bs ! cursor = CR" "get_nth bs (cursor + 1) \<noteq> Some LF" | (lf) "bs ! cursor = LF"
        | (other) "bs ! cursor \<noteq> CR" "bs ! cursor \<noteq> LF" by blast
      then show ?thesis
      proof cases
        case crlf
        have e: "declaration_line_end_from bs stop cursor = cursor + 2"
          using True nb crlf by (subst declaration_line_end_from.simps) simp
        have "slice bs (Suc cursor) (Suc (Suc cursor)) = [LF]" "Suc cursor < length bs"
          using crlf(2) by (auto simp: slice_def take_Suc hd_drop_conv_nth)
        then have "slice bs cursor (cursor + 2) = [CR, LF]"
          using one crlf(1) slice_append_adjacent[of cursor "Suc cursor" "Suc (Suc cursor)" bs] by simp
        then show ?thesis using e "1.prems" \<open>Suc cursor < length bs\<close> by (intro disjI2 exI[of _ cursor]) simp
      next
        case cr
        have "declaration_line_end_from bs stop cursor = cursor + 1"
          using True nb cr by (subst declaration_line_end_from.simps) simp
        then show ?thesis using "1.prems" True one cr by (intro disjI2 exI[of _ cursor]) simp
      next
        case lf
        have "declaration_line_end_from bs stop cursor = cursor + 1"
          using True nb lf by (subst declaration_line_end_from.simps) simp
        then show ?thesis using "1.prems" True one lf by (intro disjI2 exI[of _ cursor]) simp
      next
        case other
        have "declaration_line_end_from bs stop cursor = stop"
          using True nb other by (subst declaration_line_end_from.simps) simp
        then show ?thesis by simp
      qed
    qed
  qed
qed

lemma physical_line_start_cases:
  shows "physical_line_start bs s \<le> s"
    and "physical_line_start bs s = 0 \<or> is_terminator_byte (bs ! (physical_line_start bs s - 1))"
    and "\<And>i. physical_line_start bs s \<le> i \<Longrightarrow> i < s \<Longrightarrow> \<not> is_terminator_byte (bs ! i)"
proof -
  have "physical_line_start bs s \<le> s \<and>
      (physical_line_start bs s = 0 \<or> is_terminator_byte (bs ! (physical_line_start bs s - 1))) \<and>
      (\<forall>i. physical_line_start bs s \<le> i \<and> i < s \<longrightarrow> \<not> is_terminator_byte (bs ! i))"
  proof (induction s)
    case 0
    then show ?case by (simp add: physical_line_start_def)
  next
    case (Suc s)
    have "physical_line_start bs (Suc s) = (if is_terminator_byte (bs ! s) then Suc s else physical_line_start bs s)"
      by (simp add: physical_line_start_def)
    then show ?case using Suc by (auto simp: less_Suc_eq)
  qed
  then show "physical_line_start bs s \<le> s"
    "physical_line_start bs s = 0 \<or> is_terminator_byte (bs ! (physical_line_start bs s - 1))"
    "\<And>i. physical_line_start bs s \<le> i \<Longrightarrow> i < s \<Longrightarrow> \<not> is_terminator_byte (bs ! i)"
    by blast+
qed

lemma physical_line_start_fixed:
  assumes "s = 0 \<or> is_terminator_byte (bs ! (s - 1))"
  shows "physical_line_start bs s = s"
proof (cases s)
  case 0
  then show ?thesis using physical_line_start_cases(1)[of bs s] by simp
next
  case (Suc n)
  then show ?thesis using assms by (simp add: physical_line_start_def)
qed

lemma blank_not_terminator: "is_line_blank b \<Longrightarrow> \<not> is_terminator_byte b \<and> \<not> continues b \<and> unat b < 0x80"
  by (auto simp: is_line_blank_def is_terminator_byte_def continues_def)

text \<open>The end of an expanded range.\<close>

definition extent_end :: "bytes \<Rightarrow> nat \<Rightarrow> nat" where
  "extent_end bs e = (if 0 < e \<and> is_terminator_byte (bs ! (e - 1)) then e else declaration_line_end bs e)"

definition extent_start :: "bytes \<Rightarrow> nat \<Rightarrow> nat" where
  "extent_start bs s =
     (if list_all is_line_blank (slice bs (physical_line_start bs s) s) then physical_line_start bs s else s)"

definition line_tail :: "bytes \<Rightarrow> bool" where
  "line_tail bs \<longleftrightarrow> (\<exists>blanks terminator. bs = blanks @ terminator \<and> list_all is_line_blank blanks \<and>
     terminator \<in> {[], [CR], [LF], [CR, LF]})"

lemma extent_start_facts:
  "extent_start bs s \<le> s"
  "s \<le> length bs \<Longrightarrow> list_all is_line_blank (slice bs (extent_start bs s) s)"
  "extent_start bs s = s \<or> extent_start bs s = 0 \<or> is_terminator_byte (bs ! (extent_start bs s - 1))"
  "extent_start bs (extent_start bs s) = extent_start bs s"
  using physical_line_start_cases[of bs s] physical_line_start_fixed[of "physical_line_start bs s" bs]
  by (auto simp: extent_start_def)

lemma slice_last: "i < j \<Longrightarrow> j \<le> length bs \<Longrightarrow> bs ! (j - 1) = last (slice bs i j)"
  by (simp add: slice_conv_nth last_map)

lemma extent_end_facts:
  assumes "e \<le> length bs"
  shows "e \<le> extent_end bs e \<and> extent_end bs e \<le> length bs \<and> line_tail (slice bs e (extent_end bs e)) \<and>
    (extent_end bs e = e \<or> unat (bs ! (extent_end bs e - 1)) < 0x80 \<and> \<not> continues (bs ! (extent_end bs e - 1))) \<and>
    extent_end bs (extent_end bs e) = extent_end bs e"
proof (cases "0 < e \<and> is_terminator_byte (bs ! (e - 1))")
  case True
  then show ?thesis using assms by (simp add: extent_end_def) (simp add: line_tail_def)
next
  case False
  define d where "d = declaration_line_end bs e"
  have eq: "extent_end bs e = d" using False by (simp only: extent_end_def d_def if_False)
  have c: "d = e \<or>
      (\<exists>k \<ge> e. k \<le> d \<and> d \<le> length bs \<and> list_all is_line_blank (slice bs e k) \<and>
         (slice bs k d = [CR, LF] \<or> slice bs k d = [CR] \<and> get_nth bs d \<noteq> Some LF \<or> slice bs k d = [LF] \<or>
          slice bs k d = [] \<and> d = length bs))"
    using declaration_line_end_from_cases[of e e bs] assms by (simp add: d_def declaration_line_end_def)
  show ?thesis
  proof (cases "d = e")
    case True
    then show ?thesis using assms eq by (simp add: line_tail_def)
  next
    case ne: False
    then obtain k where k: "e \<le> k" "k \<le> d" "d \<le> length bs" "list_all is_line_blank (slice bs e k)"
      "slice bs k d = [CR, LF] \<or> slice bs k d = [CR] \<and> get_nth bs d \<noteq> Some LF \<or> slice bs k d = [LF] \<or>
          slice bs k d = [] \<and> d = length bs"
      using c by blast
    have "e < d" using ne k by simp
    have app: "slice bs e d = slice bs e k @ slice bs k d" using slice_append_adjacent[OF k(1,2), of bs] by simp
    have l: "bs ! (d - 1) = last (slice bs e d)" using slice_last[OF \<open>e < d\<close> k(3)] .
    have lt: "line_tail (slice bs e d)" unfolding line_tail_def using app k(4,5) by blast
    show ?thesis
    proof (cases "slice bs k d = []")
      case True
      then have dl: "d = length bs" using k(5) by auto
      have "slice bs e d \<noteq> []" using \<open>e < d\<close> k(3) by (metis length_slice less_numeral_extra(3) list.size(3) zero_less_diff)
      then have "is_line_blank (bs ! (d - 1))"
        using l app True k(4) by (simp add: list_all_iff)
      then have "extent_end bs d = d"
        using dl blank_not_terminator by (simp add: extent_end_def declaration_line_end_def declaration_line_end_from.simps)
      then show ?thesis using eq \<open>e < d\<close> k(3) lt blank_not_terminator \<open>is_line_blank (bs ! (d - 1))\<close> by simp
    next
      case False
      then have "is_terminator_byte (bs ! (d - 1))"
        using l app k(5) by (auto simp: is_terminator_byte_def)
      then have "extent_end bs d = d" using \<open>e < d\<close> by (simp add: extent_end_def)
      then show ?thesis
        using eq \<open>e < d\<close> k(3) lt terminator_not_continues[OF \<open>is_terminator_byte (bs ! (d - 1))\<close>] by simp
    qed
  qed
qed

text \<open>Every nonempty range on character boundaries has an extent.\<close>

definition proper_range :: "bytes \<Rightarrow> ByteRange \<Rightarrow> bool" where
  "proper_range text r \<longleftrightarrow> range_start r < range_end r \<and> range_end r \<le> length text \<and>
     is_char_boundary text (range_start r) \<and> is_char_boundary text (range_end r)"

definition expanded :: "bytes \<Rightarrow> ByteRange \<Rightarrow> SelectionExtent \<Rightarrow> ByteRange" where
  "expanded text r extent =
     (case extent of SymbolExtent \<Rightarrow> r
      | DeclarationLines \<Rightarrow>
          \<lparr>range_start = extent_start text (range_start r), range_end = extent_end text (range_end r)\<rparr>)"

lemma apply_extent_Ok:
  assumes "length text \<le> u64_max"
  shows "apply_extent text r extent = (if proper_range text r then Ok (expanded text r extent) else Err InvalidExtent)"
proof (cases "proper_range text r")
  case True
  then have "\<not> extent_end text (range_end r) \<le> extent_start text (range_start r)" "extent_end text (range_end r) \<le> length text"
    using extent_end_facts[of "range_end r" "text"] extent_start_facts(1)[of "text" "range_start r"]
    by (auto simp: proper_range_def)
  moreover have "apply_extent text r DeclarationLines =
      (if extent_end text (range_end r) \<le> extent_start text (range_start r) \<or> length text < extent_end text (range_end r)
       then Err InvalidExtent
       else Ok \<lparr>range_start = extent_start text (range_start r), range_end = extent_end text (range_end r)\<rparr>)"
    using True assms by (simp add: apply_extent_def proper_range_def Let_def extent_start_def extent_end_def)
  moreover have "apply_extent text r SymbolExtent = Ok r"
    using True assms by (simp add: apply_extent_def proper_range_def)
  ultimately show ?thesis using True by (cases extent) (simp_all add: expanded_def)
next
  case False
  then show ?thesis using assms by (auto simp: apply_extent_def proper_range_def)
qed

lemma expanded_proper:
  assumes "list_all is_scalar cs" "proper_range (utf8 cs) r"
  shows "proper_range (utf8 cs) (expanded (utf8 cs) r extent)"
proof (cases extent)
  case SymbolExtent
  then show ?thesis using assms by (simp add: expanded_def)
next
  case DeclarationLines
  let ?t = "utf8 cs" and ?s = "extent_start (utf8 cs) (range_start r)" and ?e = "extent_end (utf8 cs) (range_end r)"
  have r: "range_start r < range_end r" "range_end r \<le> length ?t" using assms(2) by (auto simp: proper_range_def)
  have se: "?s \<le> range_start r" "range_end r \<le> ?e" "?e \<le> length ?t"
    using extent_start_facts(1)[of ?t "range_start r"] extent_end_facts[OF r(2)] by auto
  have "is_char_boundary ?t ?s"
  proof (cases "?s = range_start r \<or> ?s = 0")
    case True
    then show ?thesis using assms(2) by (auto simp: proper_range_def is_char_boundary_def)
  next
    case False
    then have "is_terminator_byte (?t ! (?s - 1))" using extent_start_facts(3)[of ?t "range_start r"] by auto
    then show ?thesis
      using boundary_after_ascii[OF assms(1), of "?s - 1"] terminator_not_continues se r False by simp
  qed
  moreover have "is_char_boundary ?t ?e"
  proof (cases "?e = range_end r")
    case True
    then show ?thesis using assms(2) by (simp add: proper_range_def)
  next
    case False
    then show ?thesis
      using boundary_after_ascii[OF assms(1), of "?e - 1"] extent_end_facts[OF r(2)] se r by simp
  qed
  ultimately show ?thesis using se r DeclarationLines by (simp add: proper_range_def expanded_def)
qed

text \<open>
  A declaration extent only adds the blanks between the declaration and the edges of its
  lines and at most one line terminator, it starts at the declaration or at the start of its line,
  and expanding it again changes nothing; every range inside the snapshot, on character boundaries
  and not empty, has one.
\<close>

theorem extents_add_only_blanks:
  assumes "list_all is_scalar cs" "length (utf8 cs) \<le> u64_max" "proper_range (utf8 cs) r"
  shows "\<exists>s e. apply_extent (utf8 cs) r DeclarationLines = Ok \<lparr>range_start = s, range_end = e\<rparr> \<and>
    s \<le> range_start r \<and> range_end r \<le> e \<and> e \<le> length (utf8 cs) \<and>
    list_all is_line_blank (slice (utf8 cs) s (range_start r)) \<and> line_tail (slice (utf8 cs) (range_end r) e) \<and>
    (s = range_start r \<or> s = 0 \<or> is_terminator_byte (utf8 cs ! (s - 1))) \<and>
    apply_extent (utf8 cs) \<lparr>range_start = s, range_end = e\<rparr> DeclarationLines = Ok \<lparr>range_start = s, range_end = e\<rparr>"
proof -
  let ?t = "utf8 cs"
  let ?s = "extent_start (utf8 cs) (range_start r)" and ?e = "extent_end (utf8 cs) (range_end r)"
  have r: "range_end r \<le> length ?t" "range_start r \<le> length ?t" using assms(3) by (auto simp: proper_range_def)
  have x: "expanded ?t r DeclarationLines = \<lparr>range_start = ?s, range_end = ?e\<rparr>" by (simp add: expanded_def)
  note e = extent_end_facts[OF r(1)] and s = extent_start_facts[where bs = ?t and s = "range_start r"]
  have "apply_extent ?t r DeclarationLines = Ok \<lparr>range_start = ?s, range_end = ?e\<rparr>"
    using apply_extent_Ok[OF assms(2), of r DeclarationLines] assms(3) x by simp
  moreover have "apply_extent ?t \<lparr>range_start = ?s, range_end = ?e\<rparr> DeclarationLines = Ok \<lparr>range_start = ?s, range_end = ?e\<rparr>"
    using apply_extent_Ok[OF assms(2), of "\<lparr>range_start = ?s, range_end = ?e\<rparr>" DeclarationLines]
      expanded_proper[OF assms(1,3), of DeclarationLines] x e s(4) by (simp add: expanded_def)
  ultimately show ?thesis using e s(1-3) r(2) by (intro exI[of _ ?s] exI[of _ ?e]) simp
qed

text \<open>
  C25: Normalizing the result of a server that answered with a hierarchy returns its symbols in
  preorder, each with the names from its root as breadcrumb, the exact fields of the server, byte
  ranges that are what the server's ranges mean in the snapshot, the selection range inside the
  symbol range, and every limit on names, details, depth, paths, counts and storage respected.
\<close>

theorem normalization_flattens_in_preorder:
  assumes "describes_snapshot cs c" "normalize_document_symbols from_value response c limits = Ok out"
  shows "\<exists>roots. decode_hierarchical_response from_value response = Ok roots \<and>
    list_all2 (normalizes limits (utf8 cs) (pc_encoding c)) (concat (map (preorder []) roots)) out \<and>
    length out \<le> sl_maximum_raw_symbols limits \<and> length out \<le> sl_maximum_flattened_symbols limits \<and>
    sum_list (map owned_bytes out) \<le> sl_maximum_candidate_storage_bytes limits"
  by (rule normalize_document_symbols_Ok) (rule assms)+

section \<open>Queries on normalized symbols\<close>

lemma meaning_boundary:
  assumes "describes_snapshot cs c" "meaning (utf8 cs) enc p = Ok b"
  shows "is_char_boundary (utf8 cs) b"
proof -
  have cv: "converts cs (unlimited c)" by (rule unlimited_converts[OF assms(1)])
  have t: "pc_text (unlimited c) = utf8 cs" using assms(1) by (simp add: describes_snapshot_def)
  let ?l = "line_scalars (utf8 cs) (po_line p)"
  have i: "po_line p < length (split_lines (pc_text (unlimited c)))"
    using assms(2) t by (auto simp: meaning_def split: if_split_asm)
  obtain k where "b = line_offset (utf8 cs) (po_line p) + length (utf8 (take k ?l))"
  proof (cases "units enc ?l \<le> po_character p")
    case True
    then show thesis using that[of "length ?l"] assms(2) i t by (simp add: meaning_def Let_def)
  next
    case False
    then show thesis using that assms(2) i t by (auto simp: meaning_def Let_def split: option.split_asm)
  qed
  then show ?thesis using content_prefix(1)[OF cv i, of "take k ?l" "drop k ?l"] t by simp
qed

lemma meant_range_proper:
  "describes_snapshot cs c \<Longrightarrow> meant_range (utf8 cs) enc r b \<Longrightarrow> proper_range (utf8 cs) b"
  unfolding meant_range_def proper_range_def using meaning_boundary by blast

lemma normalized_symbol:
  assumes "describes_snapshot cs c" "normalize_document_symbols from_value response c limits = Ok symbols" "s \<in> set symbols"
  shows "proper_range (utf8 cs) (ns_byte_range s) \<and> meant_range (utf8 cs) (pc_encoding c) (ns_lsp_range s) (ns_byte_range s)"
proof -
  obtain ps where "list_all2 (normalizes limits (utf8 cs) (pc_encoding c)) ps symbols"
    using normalize_document_symbols_Ok[OF assms(1,2)] by blast
  then obtain p where "normalizes limits (utf8 cs) (pc_encoding c) p s"
    using assms(3) by (metis in_set_conv_nth list_all2_conv_all_nth)
  then have "meant_range (utf8 cs) (pc_encoding c) (ns_lsp_range s) (ns_byte_range s)"
    by (auto simp: normalizes_def)
  then show ?thesis using meant_range_proper[OF assms(1)] by blast
qed

lemma meant_range_unique: "meant_range text enc r b \<Longrightarrow> meant_range text enc r b' \<Longrightarrow> b = b'"
  by (simp add: meant_range_def)

definition answers :: "bytes \<Rightarrow> nat \<Rightarrow> KnownSymbolKind option \<Rightarrow> NormalizedSymbol \<Rightarrow> bool" where
  "answers text byte_offset kind s \<longleftrightarrow>
     kind_matches (ns_kind s) kind \<and> contains_position (ns_byte_range s) byte_offset (length text)"


section \<open>Spellings\<close>

lemma kind_spelling_roundtrip:
  "kind_from_str (as_str k) = Ok k" "kind_from_str s = Ok k \<Longrightarrow> s = as_str k"
  by (cases k; simp add: kind_from_str_def) (auto simp: kind_from_str_def split: if_split_asm)

section \<open>Duplicates that survive\<close>

text \<open>
  Two server ranges may mean the same bytes, since a character beyond the end of a line is clamped.
  The candidates are not ordered by the server's range, so a record with the second spelling may
  stand between two duplicates of the first, and both of them are kept.
\<close>

definition spelled_symbol :: "nat \<Rightarrow> nat \<Rightarrow> NormalizedSymbol" where
  "spelled_symbol close reveal =
     \<lparr>ns_name = ''f'', ns_detail = None, ns_kind = Known FunctionKind, ns_symbol_path = [''f''],
      ns_lsp_range = \<lparr>ra_start = \<lparr>po_line = 0, po_character = 0\<rparr>, ra_end = \<lparr>po_line = 0, po_character = close\<rparr>\<rparr>,
      ns_lsp_selection_range =
        \<lparr>ra_start = \<lparr>po_line = 0, po_character = 0\<rparr>, ra_end = \<lparr>po_line = 0, po_character = reveal\<rparr>\<rparr>,
      ns_byte_range = \<lparr>range_start = 0, range_end = 4\<rparr>,
      ns_selection_byte_range = \<lparr>range_start = 0, range_end = reveal\<rparr>\<rparr>"

theorem clamped_duplicates_survive:
  "duplicate_key_equal (spelled_symbol 4 1) (spelled_symbol 4 3) \<and>
   prepare_candidates [spelled_symbol 4 1, spelled_symbol 9 2, spelled_symbol 4 3] =
     [spelled_symbol 4 1, spelled_symbol 9 2, spelled_symbol 4 3]"
  by (simp add: spelled_symbol_def duplicate_key_equal_def prepare_candidates_def sort_by_def compare_prepared_def
      compare_candidates_def compare_ranges_def compare_kinds_def cmp_str_def then_with_def cmp_nat_def)

section \<open>Witnesses\<close>

definition sample_range :: "nat \<Rightarrow> LspRange" where
  "sample_range k = \<lparr>ra_start = \<lparr>po_line = 1, po_character = 0\<rparr>, ra_end = \<lparr>po_line = 1, po_character = k\<rparr>\<rparr>"

definition sample_document_symbol :: DocumentSymbol where
  "sample_document_symbol = DocumentSymbol ''f'' None LspFunction (sample_range 5) (sample_range 4) None"

definition sample_normalized :: NormalizedSymbol where
  "sample_normalized =
     \<lparr>ns_name = ''f'', ns_detail = None, ns_kind = Known FunctionKind, ns_symbol_path = [''f''],
      ns_lsp_range = sample_range 5, ns_lsp_selection_range = sample_range 4,
      ns_byte_range = \<lparr>range_start = 5, range_end = 10\<rparr>,
      ns_selection_byte_range = \<lparr>range_start = 5, range_end = 9\<rparr>\<rparr>"

definition sample_response :: Value where
  "sample_response = Array [Object [(''range'', Null), (''selectionRange'', Null)]]"

lemma sample_describes: "describes_snapshot sample (sample_converter Utf8)"
  using sample_converts[of Utf8] by (simp add: converts_def describes_snapshot_def)

lemma sample_position:
  assumes "k \<in> {0, 4, 5}"
  shows "lsp_position_to_byte \<lparr>po_line = 1, po_character = k\<rparr> (sample_converter Utf8) = (sample_converter Utf8, Ok (5 + k))"
proof -
  let ?c = "sample_converter Utf8"
  have t: "pc_text ?c = utf8 sample" by (simp add: sample_converter_def)
  have i: "1 < length (split_lines (pc_text ?c))" by (simp add: t)
  have l: "utf8 (line_scalars (utf8 sample) (Suc 0)) = [240, 159, 152, 128, 122]" "line_offset (utf8 sample) (Suc 0) = 5"
    using line_scalars_sample(2) line_offset_sample(2) by (simp_all add: encode_char_def)
  have "is_char_boundary [240, 159, 152, 128, 122] k" using assms by (auto simp: is_char_boundary_def continues_def)
  then have "utf8_units_to_byte [240, 159, 152, 128, 122] k = Ok k" using assms by (auto simp: utf8_units_to_byte_def)
  then show ?thesis
    using lsp_position_to_byte_line[of ?c "\<lparr>po_line = 1, po_character = k\<rparr>"] line_content_at(1,2)[OF sample_converts i] assms
    by (auto simp: t l line_units_to_byte_def checked_add_u64_def u64_max_def sample_converter_def)
qed

lemma sample_ranges:
  "k \<in> {4, 5} \<Longrightarrow> lsp_range_to_byte_range (sample_range k) (sample_converter Utf8) =
     (sample_converter Utf8, Ok \<lparr>range_start = 5, range_end = 5 + k\<rparr>)"
  using sample_position[of 0] sample_position[of k]
  by (auto simp: lsp_range_to_byte_range_def sample_range_def) (simp_all add: sample_converter_def utf8_sample)

lemma sample_normalizes:
  "normalize_document_symbols (\<lambda>_. Some [sample_document_symbol]) sample_response (sample_converter Utf8)
     default_symbol_limits = Ok [sample_normalized]"
  by (simp add: normalize_document_symbols_def decode_hierarchical_response_def sample_response_def value_get_def
      normalize_hierarchical_symbols_def sample_document_symbol_def default_symbol_limits_def normalize_symbol_def
      enforce_symbol_limit_def enforce_byte_length_def convert_range_def sample_ranges Let_def u64_max_def
      checked_add_u64_def wire_range_is_valid_def candidate_bytes_def materialize_path_def
      range_contains_def sample_normalized_def)
    (simp add: sample_range_def MAXIMUM_LSP_UINTEGER_def)?

theorem normalization_flattens_in_preorder_witness:
  "list_all2 (normalizes default_symbol_limits (utf8 sample) Utf8) (preorder [] sample_document_symbol) [sample_normalized]"
  using normalization_flattens_in_preorder[OF sample_describes sample_normalizes]
  by (simp add: sample_converter_def sample_response_def decode_hierarchical_response_def value_get_def)


theorem extents_add_only_blanks_witness:
  "\<exists>s e. apply_extent (utf8 sample) \<lparr>range_start = 0, range_end = 3\<rparr> DeclarationLines = Ok \<lparr>range_start = s, range_end = e\<rparr> \<and>
     s \<le> 0 \<and> 3 \<le> e"
proof -
  have "proper_range (utf8 sample) \<lparr>range_start = 0, range_end = 3\<rparr>"
    unfolding utf8_sample by (simp add: proper_range_def is_char_boundary_def continues_def)
  moreover have "list_all is_scalar sample" "length (utf8 sample) \<le> u64_max"
    using sample_describes by (simp_all add: describes_snapshot_def u32_max_def u64_max_def)
  ultimately show ?thesis using extents_add_only_blanks[of sample "\<lparr>range_start = 0, range_end = 3\<rparr>"] by fastforce
qed

end
