(* ===== verification/Protocol.thy ===== *)
theory Protocol
  imports Plan_Hash Json_Rpc
begin

text \<open>
  The edit protocol (\<open>crates/srcmv-protocol/src/lib.rs\<close>): the registry of errors and warnings,
  the strict conversion of requests into the batches of \<open>Domain\<close>, and the values of the
  responses. The decoding of JSON text into the request structures is generated by \<open>serde\<close> and is
  a parameter, with the part of the input that is left; so is the serialization of a response, as
  the sequence of its writes. A \<open>BTreeMap\<close> is the sorted list of its entries.
\<close>

section \<open>Errors and warnings\<close>

datatype ErrorCategory =
    RequestCategory | ConflictCategory | LimitOrSupportCategory | TransactionCategory
  | CorruptionCategory | InternalCategory

fun exit_code :: "ErrorCategory \<Rightarrow> nat" where
  "exit_code RequestCategory = 2"
| "exit_code ConflictCategory = 3"
| "exit_code LimitOrSupportCategory = 4"
| "exit_code TransactionCategory = 5"
| "exit_code CorruptionCategory = 6"
| "exit_code InternalCategory = 8"

fun category_as_str :: "ErrorCategory \<Rightarrow> string" where
  "category_as_str RequestCategory = ''request''"
| "category_as_str ConflictCategory = ''conflict''"
| "category_as_str LimitOrSupportCategory = ''limit_or_support''"
| "category_as_str TransactionCategory = ''transaction''"
| "category_as_str CorruptionCategory = ''corruption''"
| "category_as_str InternalCategory = ''internal''"

datatype ErrorCode =
    InvalidCliCode | InvalidJsonCode | UnsupportedProtocolVersionCode | InvalidRequestCode
  | InvalidDigestCode | PreconditionFailedCode | FileChangedCode | FileAliasCode
  | ExpectedPlanRequiredCode | ExpectedPlanMismatchCode | PlanChangedDuringCommitCode
  | EditConflictCode | RecoveryConflictCode | ResourceLimitExceededCode
  | UnsupportedPlatformCode | UnsupportedFilesystemCode | UnsupportedFileTypeCode
  | SymlinkNotAllowedCode | HardLinkNotSupportedCode | CrossDeviceTransactionCode
  | NoReplaceUnavailableCode | TransactionBusyCode | TransactionRecoveryRequiredCode
  | TransactionNotFoundCode | RecoveryActionNotAllowedCode | ControlDirectoryInvalidCode
  | TransactionRecordCorruptCode | IoErrorCode | InternalErrorCode

definition all_error_codes :: "ErrorCode list" where
  "all_error_codes =
     [InvalidCliCode, InvalidJsonCode, UnsupportedProtocolVersionCode, InvalidRequestCode,
      InvalidDigestCode, PreconditionFailedCode, FileChangedCode, FileAliasCode,
      ExpectedPlanRequiredCode, ExpectedPlanMismatchCode, PlanChangedDuringCommitCode,
      EditConflictCode, RecoveryConflictCode, ResourceLimitExceededCode,
      UnsupportedPlatformCode, UnsupportedFilesystemCode, UnsupportedFileTypeCode,
      SymlinkNotAllowedCode, HardLinkNotSupportedCode, CrossDeviceTransactionCode,
      NoReplaceUnavailableCode, TransactionBusyCode, TransactionRecoveryRequiredCode,
      TransactionNotFoundCode, RecoveryActionNotAllowedCode, ControlDirectoryInvalidCode,
      TransactionRecordCorruptCode, IoErrorCode, InternalErrorCode]"

fun code_as_str :: "ErrorCode \<Rightarrow> string" where
  "code_as_str InvalidCliCode = ''INVALID_CLI''"
| "code_as_str InvalidJsonCode = ''INVALID_JSON''"
| "code_as_str UnsupportedProtocolVersionCode = ''UNSUPPORTED_PROTOCOL_VERSION''"
| "code_as_str InvalidRequestCode = ''INVALID_REQUEST''"
| "code_as_str InvalidDigestCode = ''INVALID_DIGEST''"
| "code_as_str PreconditionFailedCode = ''PRECONDITION_FAILED''"
| "code_as_str FileChangedCode = ''FILE_CHANGED''"
| "code_as_str FileAliasCode = ''FILE_ALIAS''"
| "code_as_str ExpectedPlanRequiredCode = ''EXPECTED_PLAN_REQUIRED''"
| "code_as_str ExpectedPlanMismatchCode = ''EXPECTED_PLAN_MISMATCH''"
| "code_as_str PlanChangedDuringCommitCode = ''PLAN_CHANGED_DURING_COMMIT''"
| "code_as_str EditConflictCode = ''EDIT_CONFLICT''"
| "code_as_str RecoveryConflictCode = ''RECOVERY_CONFLICT''"
| "code_as_str ResourceLimitExceededCode = ''RESOURCE_LIMIT_EXCEEDED''"
| "code_as_str UnsupportedPlatformCode = ''UNSUPPORTED_PLATFORM''"
| "code_as_str UnsupportedFilesystemCode = ''UNSUPPORTED_FILESYSTEM''"
| "code_as_str UnsupportedFileTypeCode = ''UNSUPPORTED_FILE_TYPE''"
| "code_as_str SymlinkNotAllowedCode = ''SYMLINK_NOT_ALLOWED''"
| "code_as_str HardLinkNotSupportedCode = ''HARD_LINK_NOT_SUPPORTED''"
| "code_as_str CrossDeviceTransactionCode = ''CROSS_DEVICE_TRANSACTION''"
| "code_as_str NoReplaceUnavailableCode = ''NO_REPLACE_UNAVAILABLE''"
| "code_as_str TransactionBusyCode = ''TRANSACTION_BUSY''"
| "code_as_str TransactionRecoveryRequiredCode = ''TRANSACTION_RECOVERY_REQUIRED''"
| "code_as_str TransactionNotFoundCode = ''TRANSACTION_NOT_FOUND''"
| "code_as_str RecoveryActionNotAllowedCode = ''RECOVERY_ACTION_NOT_ALLOWED''"
| "code_as_str ControlDirectoryInvalidCode = ''CONTROL_DIRECTORY_INVALID''"
| "code_as_str TransactionRecordCorruptCode = ''TRANSACTION_RECORD_CORRUPT''"
| "code_as_str IoErrorCode = ''IO_ERROR''"
| "code_as_str InternalErrorCode = ''INTERNAL_ERROR''"

fun category :: "ErrorCode \<Rightarrow> ErrorCategory" where
  "category InvalidCliCode = RequestCategory"
| "category InvalidJsonCode = RequestCategory"
| "category UnsupportedProtocolVersionCode = RequestCategory"
| "category InvalidRequestCode = RequestCategory"
| "category InvalidDigestCode = RequestCategory"
| "category PreconditionFailedCode = ConflictCategory"
| "category FileChangedCode = ConflictCategory"
| "category FileAliasCode = ConflictCategory"
| "category ExpectedPlanRequiredCode = ConflictCategory"
| "category ExpectedPlanMismatchCode = ConflictCategory"
| "category PlanChangedDuringCommitCode = ConflictCategory"
| "category EditConflictCode = ConflictCategory"
| "category RecoveryConflictCode = ConflictCategory"
| "category ResourceLimitExceededCode = LimitOrSupportCategory"
| "category UnsupportedPlatformCode = LimitOrSupportCategory"
| "category UnsupportedFilesystemCode = LimitOrSupportCategory"
| "category UnsupportedFileTypeCode = LimitOrSupportCategory"
| "category SymlinkNotAllowedCode = LimitOrSupportCategory"
| "category HardLinkNotSupportedCode = LimitOrSupportCategory"
| "category CrossDeviceTransactionCode = LimitOrSupportCategory"
| "category NoReplaceUnavailableCode = LimitOrSupportCategory"
| "category TransactionBusyCode = TransactionCategory"
| "category TransactionRecoveryRequiredCode = TransactionCategory"
| "category TransactionNotFoundCode = TransactionCategory"
| "category RecoveryActionNotAllowedCode = TransactionCategory"
| "category ControlDirectoryInvalidCode = CorruptionCategory"
| "category TransactionRecordCorruptCode = CorruptionCategory"
| "category IoErrorCode = InternalCategory"
| "category InternalErrorCode = InternalCategory"

definition retryable :: "ErrorCode \<Rightarrow> bool" where
  "retryable code \<longleftrightarrow>
     code \<in> {PreconditionFailedCode, FileChangedCode, ExpectedPlanMismatchCode,
       PlanChangedDuringCommitCode, TransactionBusyCode}"

type_synonym context_map = "(string \<times> Value) list"

definition context_entries :: "(string \<times> Value) list \<Rightarrow> context_map" where
  "context_entries entries = fold (\<lambda>(k, v). bt_put k v) entries []"

abbreviation json_nat :: "nat \<Rightarrow> Value" where "json_nat n \<equiv> Number (PosInt n)"

record ErrorDto =
  er_code :: ErrorCode
  er_category :: ErrorCategory
  er_retryable :: bool
  er_message :: string
  er_context :: context_map

definition new_error :: "ErrorCode \<Rightarrow> string \<Rightarrow> context_map \<Rightarrow> ErrorDto" where
  "new_error code message ctx =
     \<lparr>er_code = code, er_category = category code, er_retryable = retryable code, er_message = message,
      er_context = ctx\<rparr>"

definition error_exit_code :: "ErrorDto \<Rightarrow> nat" where
  "error_exit_code e = exit_code (er_category e)"

datatype ProtocolError = ProtocolError (pe_report: ErrorDto)

datatype WarningCode = ObservationMayBeStale | MetadataNotPreserved | DiffTruncated

definition all_warning_codes :: "WarningCode list" where
  "all_warning_codes = [ObservationMayBeStale, MetadataNotPreserved, DiffTruncated]"

fun warning_as_str :: "WarningCode \<Rightarrow> string" where
  "warning_as_str ObservationMayBeStale = ''OBSERVATION_MAY_BE_STALE''"
| "warning_as_str MetadataNotPreserved = ''METADATA_NOT_PRESERVED''"
| "warning_as_str DiffTruncated = ''DIFF_TRUNCATED''"

record WarningDto =
  wa_code :: WarningCode
  wa_message :: string
  wa_context :: context_map

definition new_warning :: "WarningCode \<Rightarrow> string \<Rightarrow> context_map \<Rightarrow> WarningDto" where
  "new_warning code message ctx = \<lparr>wa_code = code, wa_message = message, wa_context = ctx\<rparr>"

section \<open>Requests\<close>

definition REQUEST_PROTOCOL_VERSION :: nat where "REQUEST_PROTOCOL_VERSION = 1"

definition MAX_RESPONSE_BYTES :: nat where "MAX_RESPONSE_BYTES = 16 * 1024 * 1024"

record RequestLimits =
  rl_request_bytes :: nat
  rl_json_depth :: nat
  rl_operations :: nat
  rl_operation_paths :: nat
  rl_path_bytes :: nat

definition default_request_limits :: RequestLimits where
  "default_request_limits =
     \<lparr>rl_request_bytes = 4 * 1024 * 1024, rl_json_depth = 64, rl_operations = 1000,
      rl_operation_paths = 1000, rl_path_bytes = 4096\<rparr>"

datatype SelectorDto = LinesDto nat nat | BytesDto nat nat

datatype AnchorDto = FileStartDto | FileEndDto | BeforeLineDto nat | AfterLineDto nat | ByteOffsetDto nat

datatype PreconditionDto = Sha256Dto string | MustNotExistDto

record SourceDto =
  sd_path :: string
  sd_selector :: SelectorDto
  sd_precondition :: PreconditionDto

record DestinationDto =
  dd_path :: string
  dd_anchor :: AnchorDto
  dd_precondition :: PreconditionDto

datatype OperationDto = MoveDto SourceDto DestinationDto | CopyDto SourceDto DestinationDto

record RequestDto =
  rq_protocol_version :: nat
  rq_operations :: "OperationDto list"

text \<open>The categories and the location of a \<open>serde_json\<close> error.\<close>

datatype JsonCategory = SyntaxError | UnexpectedEnd | DataError | StreamError

record JsonFailure =
  jf_category :: JsonCategory
  jf_column :: nat
  jf_line :: nat
  jf_reason :: string

definition enforce_protocol_limit :: "string \<Rightarrow> nat \<Rightarrow> nat \<Rightarrow> ProtocolError + unit" where
  "enforce_protocol_limit resource actual limit =
     (if actual \<le> limit then Ok ()
      else Err (ProtocolError (new_error ResourceLimitExceededCode ''a protocol resource limit was exceeded''
        (context_entries [(''actual'', json_nat actual), (''limit'', json_nat limit), (''resource'', String resource)]))))"

definition enforce_request_size :: "bytes \<Rightarrow> nat \<Rightarrow> ProtocolError + unit" where
  "enforce_request_size input limit = enforce_protocol_limit ''request_bytes'' (min (length input) u64_max) limit"

text \<open>Depth, inside a string, after a backslash.\<close>

definition depth_step :: "nat \<Rightarrow> nat \<times> bool \<times> bool \<Rightarrow> u8 \<Rightarrow> ProtocolError + nat \<times> bool \<times> bool" where
  "depth_step limit = (\<lambda>(depth, in_string, escaped) byte.
     if in_string
     then
       (if escaped then Ok (depth, in_string, False)
        else if byte = 92 then Ok (depth, in_string, True)
        else if byte = 34 then Ok (depth, False, escaped)
        else Ok (depth, in_string, escaped))
     else if byte = 34 then Ok (depth, True, escaped)
     else if byte = 123 \<or> byte = 91
     then
       let depth = saturating_add_u64 depth 1 in
       and_then (enforce_protocol_limit ''json_depth'' depth limit) (\<lambda>_. Ok (depth, in_string, escaped))
     else if byte = 125 \<or> byte = 93 then Ok (depth - 1, in_string, escaped)
     else Ok (depth, in_string, escaped))"

definition enforce_json_depth :: "bytes \<Rightarrow> nat \<Rightarrow> ProtocolError + unit" where
  "enforce_json_depth input limit =
     and_then (try_fold (depth_step limit) (0, False, False) input) (\<lambda>_. Ok ())"

definition classify_deserialization_error :: "JsonFailure \<Rightarrow> ProtocolError" where
  "classify_deserialization_error e =
     (let code = (if jf_category e = SyntaxError \<or> jf_category e = UnexpectedEnd then InvalidJsonCode else InvalidRequestCode);
          message =
            (if code = InvalidJsonCode then ''the request is not valid JSON''
             else ''the request does not match protocol version 1'') in
      ProtocolError (new_error code message (context_entries
        [(''column'', json_nat (jf_column e)), (''line'', json_nat (jf_line e)), (''reason'', String (jf_reason e))])))"

definition invalid_request :: "string \<Rightarrow> nat option \<Rightarrow> ProtocolError" where
  "invalid_request reason operation_index =
     (let details = context_entries [(''reason'', String reason)];
          details = (case operation_index of None \<Rightarrow> details
                     | Some index \<Rightarrow> bt_put ''operation_index'' (json_nat index) details) in
      ProtocolError (new_error InvalidRequestCode ''the request contains an invalid domain value'' details))"

definition invalid_digest :: "string \<Rightarrow> ProtocolError" where
  "invalid_digest field =
     ProtocolError (new_error InvalidDigestCode
       ''a digest must be `sha256:` followed by 64 lowercase hexadecimal digits''
       (context_entries [(''field'', String field)]))"

definition hex_nibble :: "u8 \<Rightarrow> u8" where
  "hex_nibble byte =
     (if 48 \<le> byte \<and> byte \<le> 57 then byte - 48
      else if 97 \<le> byte \<and> byte \<le> 102 then byte - 97 + 10 else 0)"

fun digest_pairs :: "bytes \<Rightarrow> bytes" where
  "digest_pairs (a # b # rest) = or (push_bit 4 (hex_nibble a)) (hex_nibble b) # digest_pairs rest"
| "digest_pairs _ = []"

definition parse_sha256 :: "string \<Rightarrow> string \<Rightarrow> ProtocolError + Sha256Digest" where
  "parse_sha256 v field =
     (if take 7 v \<noteq> ''sha256:'' then Err (invalid_digest field)
      else
        let hex = as_bytes (drop 7 v) in
        if length hex \<noteq> 64 \<or> \<not> list_all (\<lambda>b. is_digit_byte b \<or> 97 \<le> b \<and> b \<le> 102) hex
        then Err (invalid_digest field)
        else Ok (digest_pairs hex))"

definition index_u64 :: "nat \<Rightarrow> nat option" where
  "index_u64 index = Some (min index u64_max)"

definition convert_selector :: "SelectorDto \<Rightarrow> nat \<Rightarrow> ProtocolError + Selector" where
  "convert_selector selector index =
     (case selector of
        LinesDto s e \<Rightarrow>
          if 0 < s \<and> s \<le> e then Ok (Lines s e) else Err (invalid_request ''invalid_line_selector'' (index_u64 index))
      | BytesDto s e \<Rightarrow>
          if s < e then Ok (Bytes s e) else Err (invalid_request ''empty_byte_selector'' (index_u64 index)))"

definition convert_anchor :: "AnchorDto \<Rightarrow> nat \<Rightarrow> ProtocolError + Anchor" where
  "convert_anchor anchor index =
     (case anchor of
        FileStartDto \<Rightarrow> Ok FileStart
      | FileEndDto \<Rightarrow> Ok FileEnd
      | BeforeLineDto line \<Rightarrow>
          if 0 < line then Ok (BeforeLine line) else Err (invalid_request ''invalid_line_anchor'' (index_u64 index))
      | AfterLineDto line \<Rightarrow>
          if 0 < line then Ok (AfterLine line) else Err (invalid_request ''invalid_line_anchor'' (index_u64 index))
      | ByteOffsetDto offset \<Rightarrow> Ok (ByteOffset offset))"

definition convert_source :: "SourceDto \<Rightarrow> nat \<Rightarrow> ProtocolError + SourceSelection" where
  "convert_source source index =
     and_then
       (case sd_precondition source of
          Sha256Dto v \<Rightarrow> and_then (parse_sha256 v ''operations[].source.precondition.value'') (\<lambda>d. Ok (Sha256 d))
        | MustNotExistDto \<Rightarrow> Err (invalid_request ''source_must_exist'' (index_u64 index))) (\<lambda>precondition.
     and_then (convert_selector (sd_selector source) index) (\<lambda>selector.
     Ok \<lparr>ss_path = WorkspaceRelativePath (sd_path source), ss_selector = selector, ss_precondition = precondition\<rparr>))"

definition convert_destination :: "DestinationDto \<Rightarrow> nat \<Rightarrow> ProtocolError + Destination" where
  "convert_destination destination index =
     and_then
       (case dd_precondition destination of
          Sha256Dto v \<Rightarrow> and_then (parse_sha256 v ''operations[].destination.precondition.value'') (\<lambda>d. Ok (Sha256 d))
        | MustNotExistDto \<Rightarrow> Ok MustNotExist) (\<lambda>precondition.
     and_then (convert_anchor (dd_anchor destination) index) (\<lambda>anchor.
     Ok \<lparr>de_path = WorkspaceRelativePath (dd_path destination), de_anchor = anchor, de_precondition = precondition\<rparr>))"

definition convert_operation :: "OperationDto \<Rightarrow> nat \<Rightarrow> ProtocolError + Operation" where
  "convert_operation operation index =
     (let (kind, source, destination) =
            (case operation of MoveDto s d \<Rightarrow> (1 :: nat, s, d) | CopyDto s d \<Rightarrow> (2, s, d)) in
      and_then (convert_source source index) (\<lambda>source.
      and_then (convert_destination destination index) (\<lambda>destination.
      let specification = \<lparr>os_source = source, os_destination = destination\<rparr> in
      Ok (if kind = 1 then MoveOp specification else CopyOp specification))))"

fun endpoints :: "OperationDto \<Rightarrow> string \<times> string" where
  "endpoints (MoveDto s d) = (sd_path s, dd_path d)"
| "endpoints (CopyDto s d) = (sd_path s, dd_path d)"

definition enforce_path :: "string \<Rightarrow> nat \<Rightarrow> ProtocolError + unit" where
  "enforce_path path limit =
     and_then (enforce_protocol_limit ''path_bytes'' (min (length path) u64_max) limit) (\<lambda>_.
     if path = [] then Err (invalid_request ''path_empty'' None)
     else if CHR 0x00 \<in> set path then Err (invalid_request ''path_contains_nul'' None)
     else Ok ())"

definition note_paths :: "nat \<Rightarrow> string list \<Rightarrow> OperationDto \<Rightarrow> ProtocolError + string list" where
  "note_paths path_bytes paths operation =
     (let (source, destination) = endpoints operation in
      and_then (enforce_path source path_bytes) (\<lambda>_.
      and_then (enforce_path destination path_bytes) (\<lambda>_.
      Ok (List.insert destination (List.insert source paths)))))"

definition convert_request :: "RequestDto \<Rightarrow> RequestLimits \<Rightarrow> ProtocolError + BatchSpecification" where
  "convert_request request limits =
     (if rq_protocol_version request \<noteq> REQUEST_PROTOCOL_VERSION
      then Err (ProtocolError (new_error UnsupportedProtocolVersionCode
        ''the request protocol version is not supported''
        (context_entries [(''received'', json_nat (rq_protocol_version request)),
          (''supported'', Array [json_nat REQUEST_PROTOCOL_VERSION])])))
      else
        let operation_count = min (length (rq_operations request)) u64_max in
        if operation_count = 0 then Err (invalid_request ''operations_empty'' None)
        else
          and_then (enforce_protocol_limit ''operations'' operation_count (rl_operations limits)) (\<lambda>_.
          and_then (try_fold (note_paths (rl_path_bytes limits)) [] (rq_operations request)) (\<lambda>paths.
          and_then (enforce_protocol_limit ''operation_paths'' (min (length paths) u64_max) (rl_operation_paths limits)) (\<lambda>_.
          and_then
            (try_map (\<lambda>(index, operation). convert_operation operation index)
              (enumerate 0 (rq_operations request))) (\<lambda>operations.
          Ok \<lparr>bs_operations = operations\<rparr>)))))"

definition parse_request_with_limits ::
    "(bytes \<Rightarrow> JsonFailure + (RequestDto \<times> bytes)) \<Rightarrow> (bytes \<Rightarrow> JsonFailure + unit) \<Rightarrow> bytes \<Rightarrow> RequestLimits \<Rightarrow>
     ProtocolError + BatchSpecification" where
  "parse_request_with_limits deserialize finish_input input limits =
     and_then (enforce_request_size input (rl_request_bytes limits)) (\<lambda>_.
     and_then (enforce_json_depth input (rl_json_depth limits)) (\<lambda>_.
     and_then (map_err classify_deserialization_error (deserialize input)) (\<lambda>(request, rest).
     and_then (map_err classify_deserialization_error (finish_input rest)) (\<lambda>_.
     convert_request request limits))))"

definition parse_request ::
    "(bytes \<Rightarrow> JsonFailure + (RequestDto \<times> bytes)) \<Rightarrow> (bytes \<Rightarrow> JsonFailure + unit) \<Rightarrow> bytes \<Rightarrow>
     ProtocolError + BatchSpecification" where
  "parse_request deserialize finish_input input =
     parse_request_with_limits deserialize finish_input input default_request_limits"

section \<open>Responses\<close>

record ResolvedOperationResponse =
  or_operation_index :: nat
  or_kind :: string
  or_source_path :: string
  or_source_start :: nat
  or_source_end :: nat
  or_destination_path :: string
  or_destination_offset :: nat
  or_effect :: string
  or_selected_payload_sha256 :: string
  or_inserted_payload_sha256 :: "string option option"

definition from_resolved :: "ResolvedOperation \<Rightarrow> ResolvedOperationResponse" where
  "from_resolved operation =
     \<lparr>or_operation_index = ro_operation_index operation,
      or_kind = (case ro_kind operation of Move \<Rightarrow> ''move'' | Copy \<Rightarrow> ''copy''),
      or_source_path = path_value (ro_source_path operation),
      or_source_start = range_start (ro_source_range operation),
      or_source_end = range_end (ro_source_range operation),
      or_destination_path = path_value (ro_destination_path operation),
      or_destination_offset = ro_destination_offset operation,
      or_effect = (case ro_effect operation of Changed \<Rightarrow> ''changed'' | NoOp \<Rightarrow> ''no_op''),
      or_selected_payload_sha256 = to_prefixed_hex (ro_selected_digest operation),
      or_inserted_payload_sha256 = None\<rparr>"

definition from_committed :: "ResolvedOperation \<Rightarrow> ResolvedOperationResponse" where
  "from_committed operation =
     (from_resolved operation)\<lparr>or_inserted_payload_sha256 := Some
        (case ro_effect operation of
           Changed \<Rightarrow> Some (to_prefixed_hex (ro_selected_digest operation)) | NoOp \<Rightarrow> None)\<rparr>"

record OutputResponse =
  ou_path :: string
  ou_change_kind :: string
  ou_before_length :: "nat option"
  ou_before_sha256 :: "string option"
  ou_after_length :: nat
  ou_after_sha256 :: string

definition new_output_response ::
    "string \<Rightarrow> OutputChange \<Rightarrow> nat option \<Rightarrow> Sha256Digest option \<Rightarrow> nat \<Rightarrow> Sha256Digest \<Rightarrow> OutputResponse" where
  "new_output_response path change before_length before_digest after_length after_digest =
     \<lparr>ou_path = path,
      ou_change_kind =
        (case change of
           Unchanged \<Rightarrow> ''unchanged'' | ModifiedExisting \<Rightarrow> ''modified_existing''
         | CreatedNew \<Rightarrow> ''created_new'' | EmptiedExisting \<Rightarrow> ''emptied_existing''),
      ou_before_length = before_length, ou_before_sha256 = map_option to_prefixed_hex before_digest,
      ou_after_length = after_length, ou_after_sha256 = to_prefixed_hex after_digest\<rparr>"

record ReviewOperationResponse =
  vo_operation_index :: nat
  vo_selected_byte_length :: nat
  vo_selected_logical_line_count :: nat

record InsertionGroupResponse =
  ig_destination_offset :: nat
  ig_operation_indices :: "nat list"

record ReviewOutputResponse =
  vu_output_index :: nat
  vu_before_logical_line_count :: "nat option"
  vu_after_logical_line_count :: nat
  vu_insertion_groups_in_output_order :: "InsertionGroupResponse list"

record ReviewSummaryResponse =
  rv_version :: nat
  rv_plan_hash_version :: nat
  rv_plan_sha256 :: string
  rv_operations :: "ReviewOperationResponse list"
  rv_outputs :: "ReviewOutputResponse list"

definition review_summary_v1 ::
    "Sha256Digest \<Rightarrow> ReviewOperationResponse list \<Rightarrow> ReviewOutputResponse list \<Rightarrow> ReviewSummaryResponse" where
  "review_summary_v1 plan_sha256 operations outputs =
     \<lparr>rv_version = 1, rv_plan_hash_version = PLAN_HASH_VERSION, rv_plan_sha256 = to_prefixed_hex plan_sha256,
      rv_operations = operations, rv_outputs = outputs\<rparr>"

record DiffResponse =
  df_kind :: string
  df_text :: "string option"
  df_summary :: "Value option"

definition diff_text :: "string option \<Rightarrow> Value option \<Rightarrow> DiffResponse" where
  "diff_text t summary = \<lparr>df_kind = ''text'', df_text = t, df_summary = summary\<rparr>"

definition diff_binary :: "Value \<Rightarrow> DiffResponse" where
  "diff_binary summary = \<lparr>df_kind = ''binary'', df_text = None, df_summary = Some summary\<rparr>"

definition diff_omitted :: DiffResponse where
  "diff_omitted = \<lparr>df_kind = ''omitted'', df_text = None, df_summary = None\<rparr>"

definition diff_omitted_with_summary :: "Value \<Rightarrow> DiffResponse" where
  "diff_omitted_with_summary summary = \<lparr>df_kind = ''omitted'', df_text = None, df_summary = Some summary\<rparr>"

record PreviewResponse =
  pv_protocol_version :: nat
  pv_plan_hash_version :: nat
  pv_plan_sha256 :: string
  pv_workspace_identity_hash :: string
  pv_resolved_operations :: "ResolvedOperationResponse list"
  pv_outputs :: "OutputResponse list"
  pv_diff :: DiffResponse
  pv_warnings :: "WarningDto list"

definition new_preview ::
    "Sha256Digest \<Rightarrow> Sha256Digest \<Rightarrow> ResolvedOperationResponse list \<Rightarrow> OutputResponse list \<Rightarrow> DiffResponse \<Rightarrow>
     WarningDto list \<Rightarrow> PreviewResponse" where
  "new_preview plan_sha256 workspace_identity_hash resolved_operations outputs diff warnings =
     \<lparr>pv_protocol_version = REQUEST_PROTOCOL_VERSION, pv_plan_hash_version = PLAN_HASH_VERSION,
      pv_plan_sha256 = to_prefixed_hex plan_sha256,
      pv_workspace_identity_hash = to_prefixed_hex workspace_identity_hash,
      pv_resolved_operations = resolved_operations, pv_outputs = outputs, pv_diff = diff, pv_warnings = warnings\<rparr>"

record CommitResponse =
  cr_protocol_version :: nat
  cr_plan_hash_version :: nat
  cr_plan_sha256 :: string
  cr_workspace_identity_hash :: string
  cr_resolved_operations :: "ResolvedOperationResponse list"
  cr_outputs :: "OutputResponse list"
  cr_diff :: DiffResponse
  cr_warnings :: "WarningDto list"
  cr_transaction_id :: "string option"
  cr_transaction_state :: string
  cr_files_changed :: "string list"
  cr_preserved_permission_modes :: "(string \<times> nat) list"
  cr_recoverability_status :: string
  cr_visibility :: string

definition new_commit ::
    "Sha256Digest \<Rightarrow> Sha256Digest \<Rightarrow> ResolvedOperationResponse list \<Rightarrow> OutputResponse list \<Rightarrow>
     WarningDto list \<Rightarrow> string option \<Rightarrow> string list \<Rightarrow> (string \<times> nat) list \<Rightarrow> CommitResponse" where
  "new_commit plan_sha256 workspace_identity_hash resolved_operations outputs warnings transaction_id files_changed
     preserved_permission_modes =
     \<lparr>cr_protocol_version = REQUEST_PROTOCOL_VERSION, cr_plan_hash_version = PLAN_HASH_VERSION,
      cr_plan_sha256 = to_prefixed_hex plan_sha256,
      cr_workspace_identity_hash = to_prefixed_hex workspace_identity_hash,
      cr_resolved_operations = resolved_operations, cr_outputs = outputs, cr_diff = diff_omitted,
      cr_warnings = warnings, cr_transaction_id = transaction_id,
      cr_transaction_state = (if transaction_id \<noteq> None then ''committed'' else ''no_op''),
      cr_files_changed = files_changed, cr_preserved_permission_modes = preserved_permission_modes,
      cr_recoverability_status = ''complete'', cr_visibility = ''recoverable_not_atomic''\<rparr>"

record InspectPathResponse =
  ip_path :: string
  ip_exists :: bool
  ip_file_type :: string
  ip_sha256 :: "string option"
  ip_byte_length :: "nat option"
  ip_line_count :: "nat option"
  ip_identity_hash :: "string option"

definition inspect_existing :: "string \<Rightarrow> Sha256Digest \<Rightarrow> nat \<Rightarrow> nat \<Rightarrow> Sha256Digest \<Rightarrow> InspectPathResponse" where
  "inspect_existing path digest byte_length line_count identity_hash =
     \<lparr>ip_path = path, ip_exists = True, ip_file_type = ''regular'', ip_sha256 = Some (to_prefixed_hex digest),
      ip_byte_length = Some byte_length, ip_line_count = Some line_count,
      ip_identity_hash = Some (to_prefixed_hex identity_hash)\<rparr>"

definition inspect_absent :: "string \<Rightarrow> InspectPathResponse" where
  "inspect_absent path =
     \<lparr>ip_path = path, ip_exists = False, ip_file_type = ''absent'', ip_sha256 = None, ip_byte_length = None,
      ip_line_count = None, ip_identity_hash = None\<rparr>"

record InspectResponse =
  ir_protocol_version :: nat
  ir_paths :: "InspectPathResponse list"
  ir_warnings :: "WarningDto list"

definition new_inspect :: "InspectPathResponse list \<Rightarrow> WarningDto list \<Rightarrow> InspectResponse" where
  "new_inspect paths warnings =
     \<lparr>ir_protocol_version = REQUEST_PROTOCOL_VERSION, ir_paths = paths, ir_warnings = warnings\<rparr>"

record ProtocolVersionResponse =
  vr_protocol_version :: nat
  vr_supported_protocol_versions :: "nat list"
  vr_plan_hash_versions :: "nat list"

definition current_protocol_version :: ProtocolVersionResponse where
  "current_protocol_version =
     \<lparr>vr_protocol_version = REQUEST_PROTOCOL_VERSION, vr_supported_protocol_versions = [REQUEST_PROTOCOL_VERSION],
      vr_plan_hash_versions = [PLAN_HASH_VERSION]\<rparr>"

record FeatureAvailability =
  fa_request_parsing :: bool
  fa_workspace_inspection :: bool
  fa_preview :: bool
  fa_commit :: bool
  fa_recovery :: bool

record CapabilitiesResponse =
  ca_protocol_version :: nat
  ca_implementation_phase :: nat
  ca_operations :: "string list"
  ca_selectors :: "string list"
  ca_anchors :: "string list"
  ca_preconditions :: "string list"
  ca_features :: FeatureAvailability

text \<open>The literals that every checkpoint repeats, with the phase and the features that differ.\<close>

definition capabilities_at :: "nat \<Rightarrow> bool \<Rightarrow> bool \<Rightarrow> bool \<Rightarrow> CapabilitiesResponse" where
  "capabilities_at phase preview commit recovery =
     \<lparr>ca_protocol_version = REQUEST_PROTOCOL_VERSION, ca_implementation_phase = phase,
      ca_operations = [''move'', ''copy''], ca_selectors = [''lines'', ''bytes''],
      ca_anchors = [''file_start'', ''file_end'', ''before_line'', ''after_line'', ''byte_offset''],
      ca_preconditions = [''sha256'', ''must_not_exist''],
      ca_features =
        \<lparr>fa_request_parsing = True, fa_workspace_inspection = True, fa_preview = preview, fa_commit = commit,
         fa_recovery = recovery\<rparr>\<rparr>"

definition phase_three :: CapabilitiesResponse where "phase_three = capabilities_at 3 False False False"

definition phase_five :: CapabilitiesResponse where "phase_five = capabilities_at 5 False False True"

definition phase_six :: CapabilitiesResponse where "phase_six = capabilities_at 6 True False True"

definition phase_seven :: CapabilitiesResponse where "phase_seven = capabilities_at 7 True True True"

definition phase_eight :: CapabilitiesResponse where "phase_eight = capabilities_at 8 True True True"

definition capabilities_v0_1_0 :: CapabilitiesResponse where
  "capabilities_v0_1_0 = capabilities_at 10 True True True"

record RecoveryEntryResponse =
  re_transaction_id :: string
  re_classification :: string
  re_actions :: "string list"
  re_visibility :: string

definition new_recovery_entry :: "string \<Rightarrow> string \<Rightarrow> string list \<Rightarrow> string \<Rightarrow> RecoveryEntryResponse" where
  "new_recovery_entry transaction_id classification actions visibility =
     \<lparr>re_transaction_id = transaction_id, re_classification = classification, re_actions = actions,
      re_visibility = visibility\<rparr>"

record RecoveryListResponse =
  li_protocol_version :: nat
  li_transactions :: "RecoveryEntryResponse list"

definition new_recovery_list :: "RecoveryEntryResponse list \<Rightarrow> RecoveryListResponse" where
  "new_recovery_list transactions =
     \<lparr>li_protocol_version = REQUEST_PROTOCOL_VERSION, li_transactions = transactions\<rparr>"

record RecoveryStatusResponse =
  st_protocol_version :: nat
  st_transaction :: RecoveryEntryResponse

definition new_recovery_status :: "RecoveryEntryResponse \<Rightarrow> RecoveryStatusResponse" where
  "new_recovery_status transaction =
     \<lparr>st_protocol_version = REQUEST_PROTOCOL_VERSION, st_transaction = transaction\<rparr>"

text \<open>The writes of a serialization, and whether it failed after them by itself.\<close>

record Serialization =
  se_writes :: "bytes list"
  se_fails :: bool

definition to_json_line :: "Serialization \<Rightarrow> ProtocolError + bytes" where
  "to_json_line s =
     (if se_fails s
      then Err (ProtocolError (new_error InternalErrorCode ''failed to serialize the JSON response'' []))
      else Ok (concat (se_writes s) @ [LF]))"

section \<open>Terminal text\<close>

definition is_absolute_spelling :: "string \<Rightarrow> bool" where
  "is_absolute_spelling path \<longleftrightarrow>
     take 1 path = ''/'' \<or> take 2 path = [CHR 0x5C, CHR 0x5C] \<or>
     get_nth path 1 = Some (CHR '':'') \<and>
     (case get_nth path 0 of None \<Rightarrow> False
      | Some c \<Rightarrow> let b = byte_of c in 65 \<le> b \<and> b \<le> 90 \<or> 97 \<le> b \<and> b \<le> 122)"

definition redact_path :: "string \<Rightarrow> string" where
  "redact_path path = (if is_absolute_spelling path then ''<redacted-absolute-path>'' else path)"

text \<open>Scalar values of the general category \<open>Cc\<close>.\<close>

definition is_control :: "nat \<Rightarrow> bool" where
  "is_control c \<longleftrightarrow> c < 0x20 \<or> 0x7F \<le> c \<and> c < 0xA0"

definition is_bidi_control :: "nat \<Rightarrow> bool" where
  "is_bidi_control c \<longleftrightarrow>
     c = 0x061C \<or> c = 0x200E \<or> c = 0x200F \<or> 0x202A \<le> c \<and> c \<le> 0x202E \<or> 0x2066 \<le> c \<and> c \<le> 0x2069"

definition hex_scalar :: "nat \<Rightarrow> nat" where
  "hex_scalar d = (if d < 10 then 48 + d else 87 + d)"

fun hex_scalars :: "nat \<Rightarrow> nat list" where
  "hex_scalars n = (if n < 16 then [hex_scalar n] else hex_scalars (n div 16) @ [hex_scalar (n mod 16)])"

declare hex_scalars.simps [simp del]

text \<open>\<open>char::escape_unicode\<close>: backslash, u, and the shortest hexadecimal number in braces.\<close>

definition escape_unicode :: "nat \<Rightarrow> nat list" where
  "escape_unicode c = [92, 117, 123] @ hex_scalars c @ [125]"

definition escape_scalar :: "nat \<Rightarrow> nat list" where
  "escape_scalar c = (if is_control c \<or> is_bidi_control c then escape_unicode c else [c])"

definition escape_terminal_text :: "bytes \<Rightarrow> bytes" where
  "escape_terminal_text s = utf8 (concat (map escape_scalar (chars s)))"

section \<open>Digests round trip\<close>

lemma hex_nibble_char:
  assumes "k < 16"
  shows "hex_nibble (byte_of (HEX ! k)) = of_nat k"
    and "is_digit_byte (byte_of (HEX ! k)) \<or> 97 \<le> byte_of (HEX ! k) \<and> byte_of (HEX ! k) \<le> 102"
proof -
  have "k \<in> {0, 1, 2, 3, 4, 5, 6, 7, 8, 9, 10, 11, 12, 13, 14, 15}" using assms by simp arith
  then show "hex_nibble (byte_of (HEX ! k)) = of_nat k"
    "is_digit_byte (byte_of (HEX ! k)) \<or> 97 \<le> byte_of (HEX ! k) \<and> byte_of (HEX ! k) \<le> 102"
    by (auto simp: HEX_def hex_nibble_def byte_of_def is_digit_byte_def)
qed

lemma hex_char_nibble:
  assumes "is_digit_byte b \<or> 97 \<le> b \<and> b \<le> 102"
  shows "hex_nibble b < 16 \<and> byte_of (HEX ! unat (hex_nibble b)) = b"
proof -
  have "unat b \<in> {48..57} \<union> {97..102}"
    using assms by (auto simp: is_digit_byte_def word_le_nat_alt)
  then have "unat b \<in> {48, 49, 50, 51, 52, 53, 54, 55, 56, 57, 97, 98, 99, 100, 101, 102}" by simp arith
  then have "b \<in> of_nat ` {48, 49, 50, 51, 52, 53, 54, 55, 56, 57, 97, 98, 99, 100, 101, 102}"
    by (intro image_eqI[of b of_nat "unat b"]) simp_all
  then show ?thesis by (auto simp: hex_nibble_def HEX_def byte_of_def)
qed

lemma nibbles_join: "or (push_bit 4 (hi :: u8)) lo = of_nat (unat hi * 16 + unat lo)" if "hi < 16" "lo < 16"
proof -
  have "hi = of_nat (unat hi)" "lo = of_nat (unat lo)" by simp_all
  have h: "unat hi < 16" "unat lo < 16" using that by (simp_all add: word_less_nat_alt)
  have "or (push_bit 4 hi) lo = push_bit 4 hi + lo"
  proof (rule disjunctive_add[symmetric])
    fix n
    show "\<not> bit (push_bit 4 hi) n \<or> \<not> bit lo n"
    proof (cases "n < 4")
      case True
      then show ?thesis by (simp add: bit_push_bit_iff)
    next
      case False
      have "lo = take_bit 4 lo"
        using h(2) by (simp add: take_bit_eq_mod word_unat_eq_iff unat_mod)
      then have "\<not> bit lo n" using False by (metis bit_take_bit_iff)
      then show ?thesis by simp
    qed
  qed
  also have "\<dots> = of_nat (unat hi * 16 + unat lo)"
    by (simp add: push_bit_eq_mult)
  finally show ?thesis .
qed

lemma as_bytes_map: "as_bytes s = map byte_of s"
  by (simp add: as_bytes_def byte_of_def)

abbreviation hex_pair :: "u8 \<Rightarrow> string" where
  "hex_pair b \<equiv> [HEX ! unat (drop_bit 4 b), HEX ! unat (and b 15)]"

lemma nibble_bounds: "unat (drop_bit 4 (b :: u8)) < 16" "unat (and (b :: u8) 15) < 16"
  using u8_nibbles[of b] unat_u8_lt[of b] by (simp_all add: unat_high_nibble unat_low_nibble less_mult_imp_div_less)

lemma digest_pairs_hex: "digest_pairs (map byte_of (concat (map hex_pair d))) = d"
proof (induction d)
  case (Cons b d)
  have "of_nat (unat (drop_bit 4 b)) < (16 :: u8)" "of_nat (unat (and b 15)) < (16 :: u8)"
    using nibble_bounds[of b] by (simp_all add: word_less_nat_alt)
  note joined = nibbles_join[OF this]
  have "unat (of_nat (unat (drop_bit 4 b)) :: u8) * 16 + unat (of_nat (unat (and b 15)) :: u8) = unat b"
    using nibble_bounds[of b] unat_u8_lt[of b] by (simp add: unat_of_nat_u8) (simp add: unat_high_nibble unat_low_nibble)
  with joined have "or (push_bit 4 (of_nat (unat (drop_bit 4 b)) :: u8)) (of_nat (unat (and b 15))) = of_nat (unat b)"
    by (simp only:)
  then have "or (push_bit 4 (of_nat (unat (drop_bit 4 b)) :: u8)) (of_nat (unat (and b 15))) = b" by simp
  then show ?case using Cons hex_nibble_char(1)[OF nibble_bounds(1)] hex_nibble_char(1)[OF nibble_bounds(2)] by simp
qed simp

abbreviation hex_byte :: "u8 \<Rightarrow> bool" where
  "hex_byte b \<equiv> is_digit_byte b \<or> 97 \<le> b \<and> b \<le> 102"

lemma hex_of_digest_pairs:
  "even (length hex) \<Longrightarrow> list_all hex_byte hex \<Longrightarrow>
     map byte_of (concat (map hex_pair (digest_pairs hex))) = hex \<and> length (digest_pairs hex) = length hex div 2"
proof (induction hex rule: digest_pairs.induct)
  case (1 a b rest)
  have ab: "hex_nibble a < 16" "hex_nibble b < 16" "byte_of (HEX ! unat (hex_nibble a)) = a" "byte_of (HEX ! unat (hex_nibble b)) = b"
    using hex_char_nibble[of a] hex_char_nibble[of b] "1.prems"(2) by auto
  define x where "x = or (push_bit 4 (hex_nibble a)) (hex_nibble b)"
  have n: "unat (hex_nibble a) < 16" "unat (hex_nibble b) < 16" using ab by (simp_all add: word_less_nat_alt)
  then have "unat x = unat (hex_nibble a) * 16 + unat (hex_nibble b)"
    unfolding x_def nibbles_join[OF ab(1,2)] by (subst unat_of_nat_u8) simp
  then have "unat (drop_bit 4 x) = unat (hex_nibble a)" "unat (and x 15) = unat (hex_nibble b)"
    using n by (simp_all add: unat_high_nibble unat_low_nibble)
  then show ?case using 1 ab by (simp add: x_def[symmetric])
qed auto

lemma parse_sha256_iff: "parse_sha256 v field = Ok d \<longleftrightarrow> length d = 32 \<and> v = to_prefixed_hex d"
proof
  assume p: "parse_sha256 v field = Ok d"
  define hex where "hex = as_bytes (drop 7 v)"
  have h: "take 7 v = ''sha256:''" "length hex = 64" "list_all hex_byte hex" "d = digest_pairs hex"
    using p by (auto simp: parse_sha256_def Let_def hex_def split: if_split_asm)
  then have "map byte_of (concat (map hex_pair d)) = hex" "length d = 32"
    using hex_of_digest_pairs[of hex] by simp_all
  then have "as_bytes (concat (map hex_pair d)) = as_bytes (drop 7 v)" by (simp add: as_bytes_map hex_def)
  then have "drop 7 v = concat (map hex_pair d)" by simp
  then show "length d = 32 \<and> v = to_prefixed_hex d"
    using h(1) \<open>length d = 32\<close> append_take_drop_id[of 7 v] by (simp add: to_prefixed_hex_def)
next
  assume d: "length d = 32 \<and> v = to_prefixed_hex d"
  then have v: "take 7 v = ''sha256:''" "drop 7 v = concat (map hex_pair d)" by (simp_all add: to_prefixed_hex_def)
  have "list_all hex_byte (map byte_of (concat (map hex_pair d)))"
    using hex_nibble_char(2)[OF nibble_bounds(1)] hex_nibble_char(2)[OF nibble_bounds(2)] by (induction d) auto
  moreover have "length (concat (map hex_pair d)) = 2 * length d" by (induction d) auto
  ultimately show "parse_sha256 v field = Ok d"
    using digest_pairs_hex[of d] v d by (simp add: parse_sha256_def Let_def as_bytes_map)
qed

section \<open>The accepted requests\<close>

text \<open>The request structure of an operation, and the operations that a request may contain.\<close>

fun selector_dto :: "Selector \<Rightarrow> SelectorDto" where
  "selector_dto (Lines s e) = LinesDto s e"
| "selector_dto (Bytes s e) = BytesDto s e"

fun anchor_dto :: "Anchor \<Rightarrow> AnchorDto" where
  "anchor_dto FileStart = FileStartDto"
| "anchor_dto FileEnd = FileEndDto"
| "anchor_dto (BeforeLine line) = BeforeLineDto line"
| "anchor_dto (AfterLine line) = AfterLineDto line"
| "anchor_dto (ByteOffset offset) = ByteOffsetDto offset"

fun precondition_dto :: "Precondition \<Rightarrow> PreconditionDto" where
  "precondition_dto (Sha256 d) = Sha256Dto (to_prefixed_hex d)"
| "precondition_dto MustNotExist = MustNotExistDto"

definition source_dto :: "SourceSelection \<Rightarrow> SourceDto" where
  "source_dto s =
     \<lparr>sd_path = path_value (ss_path s), sd_selector = selector_dto (ss_selector s),
      sd_precondition = precondition_dto (ss_precondition s)\<rparr>"

definition destination_dto :: "Destination \<Rightarrow> DestinationDto" where
  "destination_dto d =
     \<lparr>dd_path = path_value (de_path d), dd_anchor = anchor_dto (de_anchor d),
      dd_precondition = precondition_dto (de_precondition d)\<rparr>"

fun operation_dto :: "Operation \<Rightarrow> OperationDto" where
  "operation_dto (MoveOp s) = MoveDto (source_dto (os_source s)) (destination_dto (os_destination s))"
| "operation_dto (CopyOp s) = CopyDto (source_dto (os_source s)) (destination_dto (os_destination s))"

definition request_of :: "BatchSpecification \<Rightarrow> RequestDto" where
  "request_of batch =
     \<lparr>rq_protocol_version = REQUEST_PROTOCOL_VERSION, rq_operations = map operation_dto (bs_operations batch)\<rparr>"

fun valid_selector :: "Selector \<Rightarrow> bool" where
  "valid_selector (Lines s e) \<longleftrightarrow> 0 < s \<and> s \<le> e"
| "valid_selector (Bytes s e) \<longleftrightarrow> s < e"

fun valid_anchor :: "Anchor \<Rightarrow> bool" where
  "valid_anchor (BeforeLine line) \<longleftrightarrow> 0 < line"
| "valid_anchor (AfterLine line) \<longleftrightarrow> 0 < line"
| "valid_anchor _ \<longleftrightarrow> True"

fun valid_precondition :: "Precondition \<Rightarrow> bool" where
  "valid_precondition (Sha256 d) \<longleftrightarrow> length d = 32"
| "valid_precondition MustNotExist \<longleftrightarrow> True"

definition valid_specification :: "OperationSpecification \<Rightarrow> bool" where
  "valid_specification s \<longleftrightarrow>
     valid_selector (ss_selector (os_source s)) \<and> valid_precondition (ss_precondition (os_source s)) \<and>
     ss_precondition (os_source s) \<noteq> MustNotExist \<and>
     valid_anchor (de_anchor (os_destination s)) \<and> valid_precondition (de_precondition (os_destination s))"

fun specification_of :: "Operation \<Rightarrow> OperationSpecification" where
  "specification_of (MoveOp s) = s"
| "specification_of (CopyOp s) = s"

definition operation_path_pair :: "Operation \<Rightarrow> string set" where
  "operation_path_pair oper =
     {path_value (ss_path (os_source (specification_of oper))), path_value (de_path (os_destination (specification_of oper)))}"

definition batch_paths :: "BatchSpecification \<Rightarrow> string set" where
  "batch_paths batch = (\<Union>oper \<in> set (bs_operations batch). operation_path_pair oper)"

definition acceptable :: "RequestLimits \<Rightarrow> BatchSpecification \<Rightarrow> bool" where
  "acceptable limits batch \<longleftrightarrow>
     bs_operations batch \<noteq> [] \<and> length (bs_operations batch) \<le> rl_operations limits \<and>
     (\<forall>oper \<in> set (bs_operations batch). valid_specification (specification_of oper)) \<and>
     (\<forall>path \<in> batch_paths batch. path \<noteq> [] \<and> CHR 0x00 \<notin> set path \<and> length path \<le> rl_path_bytes limits) \<and>
     card (batch_paths batch) \<le> rl_operation_paths limits"

definition machine_limits :: "RequestLimits \<Rightarrow> bool" where
  "machine_limits limits \<longleftrightarrow> rl_operations limits < u64_max \<and> rl_operation_paths limits < u64_max \<and>
     rl_path_bytes limits < u64_max \<and> rl_request_bytes limits < u64_max"

lemma enforce_protocol_limit_Ok [simp]: "enforce_protocol_limit r a m = Ok u \<longleftrightarrow> a \<le> m"
  by (auto simp: enforce_protocol_limit_def)

lemma enforce_path_Ok:
  "limit < u64_max \<Longrightarrow> enforce_path path limit = Ok u \<longleftrightarrow> path \<noteq> [] \<and> CHR 0x00 \<notin> set path \<and> length path \<le> limit"
  by (auto simp: enforce_path_def)

lemma convert_selector_Ok: "convert_selector dto i = Ok s \<longleftrightarrow> dto = selector_dto s \<and> valid_selector s"
  by (cases dto; cases s) (auto simp: convert_selector_def)

lemma convert_anchor_Ok: "convert_anchor dto i = Ok a \<longleftrightarrow> dto = anchor_dto a \<and> valid_anchor a"
  by (cases dto; cases a) (auto simp: convert_anchor_def)

lemma convert_source_Ok:
  "convert_source dto i = Ok s \<longleftrightarrow>
     dto = source_dto s \<and> valid_selector (ss_selector s) \<and> valid_precondition (ss_precondition s) \<and>
     ss_precondition s \<noteq> MustNotExist"
  by (cases "sd_precondition dto"; cases "ss_precondition s"; cases "ss_path s"; cases s; cases dto)
    (auto simp: convert_source_def source_dto_def convert_selector_Ok parse_sha256_iff)

lemma convert_destination_Ok:
  "convert_destination dto i = Ok d \<longleftrightarrow>
     dto = destination_dto d \<and> valid_anchor (de_anchor d) \<and> valid_precondition (de_precondition d)"
  by (cases "dd_precondition dto"; cases "de_precondition d"; cases "de_path d"; cases d; cases dto)
    (auto simp: convert_destination_def destination_dto_def convert_anchor_Ok parse_sha256_iff)

lemma convert_operation_Ok:
  "convert_operation dto i = Ok oper \<longleftrightarrow> dto = operation_dto oper \<and> valid_specification (specification_of oper)"
proof (cases dto)
  case (MoveDto s d)
  then show ?thesis
    by (cases oper; cases "specification_of oper")
      (auto simp: convert_operation_def convert_source_Ok convert_destination_Ok valid_specification_def)
next
  case (CopyDto s d)
  then show ?thesis
    by (cases oper; cases "specification_of oper")
      (auto simp: convert_operation_def convert_source_Ok convert_destination_Ok valid_specification_def)
qed

lemma convert_operations_Ok:
  "try_map (\<lambda>(i, operation). convert_operation operation i) (enumerate k dtos) = Ok opers \<longleftrightarrow>
     dtos = map operation_dto opers \<and> (\<forall>oper \<in> set opers. valid_specification (specification_of oper))"
proof (induction dtos arbitrary: k opers)
  case Nil
  then show ?case by auto
next
  case (Cons dto dtos)
  then show ?case by (cases opers) (auto simp: convert_operation_Ok)
qed

lemma endpoints_operation_dto:
  "fst (endpoints (operation_dto oper)) = path_value (ss_path (os_source (specification_of oper))) \<and>
   snd (endpoints (operation_dto oper)) = path_value (de_path (os_destination (specification_of oper)))"
  by (cases oper) (simp_all add: source_dto_def destination_dto_def)

lemma note_paths_Ok1:
  assumes "limit < u64_max"
  shows "note_paths limit paths dto = Ok paths' \<longleftrightarrow>
    (\<forall>path \<in> {fst (endpoints dto), snd (endpoints dto)}. path \<noteq> [] \<and> CHR 0x00 \<notin> set path \<and> length path \<le> limit) \<and>
    paths' = List.insert (snd (endpoints dto)) (List.insert (fst (endpoints dto)) paths)"
  by (cases "endpoints dto") (auto simp: note_paths_def enforce_path_Ok[OF assms])

lemma note_paths_Ok:
  assumes "limit < u64_max" "distinct paths"
  shows "try_fold (note_paths limit) paths dtos = Ok paths' \<Longrightarrow>
    distinct paths' \<and> set paths' = set paths \<union> (\<Union>dto \<in> set dtos. {fst (endpoints dto), snd (endpoints dto)}) \<and>
    (\<forall>dto \<in> set dtos. \<forall>path \<in> {fst (endpoints dto), snd (endpoints dto)}.
       path \<noteq> [] \<and> CHR 0x00 \<notin> set path \<and> length path \<le> limit)"
  using assms(2)
proof (induction dtos arbitrary: paths)
  case (Cons dto dtos)
  obtain s d where e: "endpoints dto = (s, d)" by (cases "endpoints dto")
  have ok: "s \<noteq> [] \<and> CHR 0x00 \<notin> set s \<and> length s \<le> limit" "d \<noteq> [] \<and> CHR 0x00 \<notin> set d \<and> length d \<le> limit"
    and rest: "try_fold (note_paths limit) (List.insert d (List.insert s paths)) dtos = Ok paths'"
    using Cons.prems(1) e by (auto simp: note_paths_Ok1[OF assms(1)])
  show ?case using Cons.IH[OF rest] ok e Cons.prems(2) by auto
qed simp

lemma note_paths_exists:
  assumes "limit < u64_max"
    and "\<forall>dto \<in> set dtos. \<forall>path \<in> {fst (endpoints dto), snd (endpoints dto)}.
      path \<noteq> [] \<and> CHR 0x00 \<notin> set path \<and> length path \<le> limit"
  shows "\<exists>paths'. try_fold (note_paths limit) paths dtos = Ok paths'"
  using assms(2)
proof (induction dtos arbitrary: paths)
  case (Cons dto dtos)
  obtain s d where e: "endpoints dto = (s, d)" by (cases "endpoints dto")
  have "note_paths limit paths dto = Ok (List.insert d (List.insert s paths))"
    using Cons.prems e by (simp add: note_paths_def enforce_path_Ok[OF assms(1), THEN iffD2])
  then show ?case using Cons.IH Cons.prems by auto
qed simp

lemma batch_paths_endpoints:
  "bs_operations batch = opers \<Longrightarrow>
     (\<Union>dto \<in> set (map operation_dto opers). {fst (endpoints dto), snd (endpoints dto)}) = batch_paths batch"
  by (auto simp: batch_paths_def operation_path_pair_def endpoints_operation_dto)

lemma convert_request_Ok:
  assumes "machine_limits limits"
  shows "convert_request request limits = Ok batch \<longleftrightarrow> request = request_of batch \<and> acceptable limits batch"
proof
  assume run: "convert_request request limits = Ok batch"
  obtain paths opers where r: "rq_protocol_version request = REQUEST_PROTOCOL_VERSION" "rq_operations request \<noteq> []"
    "min (length (rq_operations request)) u64_max \<le> rl_operations limits"
    "try_fold (note_paths (rl_path_bytes limits)) [] (rq_operations request) = Ok paths"
    "min (length paths) u64_max \<le> rl_operation_paths limits"
    "try_map (\<lambda>(i, operation). convert_operation operation i) (enumerate 0 (rq_operations request)) = Ok opers"
    "batch = \<lparr>bs_operations = opers\<rparr>"
    using run by (auto simp: convert_request_def Let_def u64_max_def split: if_split_asm)
  note opers = r(6)[unfolded convert_operations_Ok]
  have pb: "rl_path_bytes limits < u64_max" using assms by (simp add: machine_limits_def)
  have distinct_Nil: "distinct ([] :: string list)" by simp
  note np = note_paths_Ok[OF pb distinct_Nil r(4)]
  have bp: "(\<Union>dto \<in> set (rq_operations request). {fst (endpoints dto), snd (endpoints dto)}) = batch_paths batch"
    using batch_paths_endpoints[of batch opers] opers r(7) by simp
  have "\<forall>path \<in> (\<Union>dto \<in> set (rq_operations request). {fst (endpoints dto), snd (endpoints dto)}).
      path \<noteq> [] \<and> CHR 0x00 \<notin> set path \<and> length path \<le> rl_path_bytes limits"
    using np by blast
  then have "\<forall>path \<in> batch_paths batch. path \<noteq> [] \<and> CHR 0x00 \<notin> set path \<and> length path \<le> rl_path_bytes limits"
    by (simp only: bp)
  moreover have "set paths = batch_paths batch" "distinct paths" using np bp by auto
  moreover from calculation have "card (batch_paths batch) = length paths" by (metis distinct_card)
  ultimately have "acceptable limits batch"
    using r(2,3,5,7) opers assms by (auto simp: acceptable_def machine_limits_def)
  moreover have "request = request_of batch"
    using r(1,7) opers by (cases request) (simp add: request_of_def)
  ultimately show "request = request_of batch \<and> acceptable limits batch" by simp
next
  assume a: "request = request_of batch \<and> acceptable limits batch"
  have pb: "rl_path_bytes limits < u64_max" using assms by (simp add: machine_limits_def)
  let ?dtos = "map operation_dto (bs_operations batch)"
  have bp: "(\<Union>dto \<in> set ?dtos. {fst (endpoints dto), snd (endpoints dto)}) = batch_paths batch"
    by (rule batch_paths_endpoints) simp
  have "\<forall>dto \<in> set ?dtos. \<forall>path \<in> {fst (endpoints dto), snd (endpoints dto)}.
      path \<noteq> [] \<and> CHR 0x00 \<notin> set path \<and> length path \<le> rl_path_bytes limits"
    using a bp unfolding acceptable_def by blast
  then obtain paths where p: "try_fold (note_paths (rl_path_bytes limits)) [] ?dtos = Ok paths"
    using note_paths_exists[OF pb] by blast
  have "distinct paths" "set paths = batch_paths batch" using note_paths_Ok[OF pb _ p] bp by auto
  then have "length paths = card (batch_paths batch)" by (metis distinct_card)
  moreover have "try_map (\<lambda>(i, operation). convert_operation operation i) (enumerate 0 ?dtos) = Ok (bs_operations batch)"
    using a by (simp add: convert_operations_Ok acceptable_def)
  ultimately show "convert_request request limits = Ok batch"
    using a p by (auto simp: convert_request_def request_of_def acceptable_def Let_def u64_max_def)
qed

lemma enforce_json_depth_raw: "enforce_json_depth input limit = Ok () \<longleftrightarrow> validate_raw_json_depth input limit = Ok ()"
proof -
  have "map_sum (\<lambda>_. ()) id (try_fold (depth_step limit) s input) =
    map_sum (\<lambda>_. ()) id (try_fold (\<lambda>(depth, in_string, escaped) byte.
       if in_string then
         if escaped then Ok (depth, in_string, False)
         else if byte = 92 then Ok (depth, in_string, True)
         else if byte = 34 then Ok (depth, False, escaped)
         else Ok (depth, in_string, escaped)
       else if byte = 34 then Ok (depth, True, escaped)
       else if byte = 123 \<or> byte = 91 then
         let depth = saturating_add_u64 depth 1 in
         if limit < depth then Err (JsonNestingTooDeep depth limit) else Ok (depth, in_string, escaped)
       else if byte = 125 \<or> byte = 93 then Ok (depth - 1, in_string, escaped)
       else Ok (depth, in_string, escaped)) s input)" for s
  proof (induction input arbitrary: s)
    case (Cons b input)
    obtain depth in_string escaped where s: "s = (depth, in_string, escaped)" by (metis prod_cases3)
    show ?case
      using Cons.IH
      by (cases in_string; cases "b = 123 \<or> b = 91"; cases "limit < saturating_add_u64 depth 1")
        (auto simp: s depth_step_def Let_def enforce_protocol_limit_def)
  qed simp
  from this[of "(0, False, False)"] show ?thesis
    unfolding enforce_json_depth_def validate_raw_json_depth_def
    by (auto simp: map_sum_def split: sum.split_asm)
qed

text \<open>
  C27: A request is accepted exactly when it is within the byte and nesting limits, decodes with
  nothing left over to the request of a batch, and that batch is acceptable: at least one operation
  and at most the limit, every source selected by a nonempty range and pinned by a digest of 32
  bytes, every line number positive, every path nonempty, without NUL and within its limit, and
  few enough distinct paths. The batch is then the result, so no operation is changed or lost.
\<close>

theorem requests_are_accepted_exactly:
  assumes "machine_limits limits"
  shows "parse_request_with_limits deserialize finish_input input limits = Ok batch \<longleftrightarrow>
    length input \<le> rl_request_bytes limits \<and> validate_raw_json_depth input (rl_json_depth limits) = Ok () \<and>
    (\<exists>rest. deserialize input = Ok (request_of batch, rest) \<and> finish_input rest = Ok ()) \<and>
    acceptable limits batch"
proof -
  have "min (length input) u64_max \<le> rl_request_bytes limits \<longleftrightarrow> length input \<le> rl_request_bytes limits"
    using assms by (auto simp: machine_limits_def)
  then show ?thesis
    using enforce_json_depth_raw[of input "rl_json_depth limits"]
    by (auto simp: parse_request_with_limits_def enforce_request_size_def convert_request_Ok[OF assms])
qed

definition sample_batch :: BatchSpecification where
  "sample_batch =
     \<lparr>bs_operations =
       [CopyOp \<lparr>os_source = \<lparr>ss_path = WorkspaceRelativePath ''a'', ss_selector = Lines 1 2,
                  ss_precondition = Sha256 (replicate 32 0)\<rparr>,
                os_destination = \<lparr>de_path = WorkspaceRelativePath ''b'', de_anchor = FileStart,
                  de_precondition = MustNotExist\<rparr>\<rparr>]\<rparr>"

abbreviation trailing_characters :: JsonFailure where
  "trailing_characters \<equiv>
     \<lparr>jf_category = SyntaxError, jf_column = 3, jf_line = 1, jf_reason = ''trailing characters''\<rparr>"

lemma requests_are_accepted_exactly_witness:
  "parse_request_with_limits (\<lambda>input. Ok (request_of sample_batch, drop 2 input))
     (\<lambda>rest. if rest = [] then Ok () else Err trailing_characters) [123, 125] default_request_limits = Ok sample_batch"
proof (rule requests_are_accepted_exactly[THEN iffD2])
  show "machine_limits default_request_limits"
    by (simp add: machine_limits_def default_request_limits_def u64_max_def)
  have "batch_paths sample_batch = {''a'', ''b''}"
    by (simp add: batch_paths_def sample_batch_def operation_path_pair_def)
  then have "acceptable default_request_limits sample_batch"
    by (simp add: acceptable_def)
      (simp add: sample_batch_def default_request_limits_def valid_specification_def)
  moreover have "validate_raw_json_depth [123, 125] (rl_json_depth default_request_limits) = Ok ()"
    by (simp add: validate_raw_json_depth_def default_request_limits_def saturating_add_u64_def u64_max_def)
  ultimately show "length ([123, 125] :: bytes) \<le> rl_request_bytes default_request_limits \<and>
    validate_raw_json_depth [123, 125] (rl_json_depth default_request_limits) = Ok () \<and>
    (\<exists>rest. Ok (request_of sample_batch, drop 2 [123, 125]) = Ok (request_of sample_batch, rest) \<and>
      (if rest = [] then Ok () else Err trailing_characters) = Ok ()) \<and>
    acceptable default_request_limits sample_batch"
    by (simp add: default_request_limits_def)
qed

section \<open>What a terminal receives\<close>

definition harmless :: "nat \<Rightarrow> bool" where
  "harmless c \<longleftrightarrow> \<not> is_control c \<and> \<not> is_bidi_control c"

lemma hex_scalars_graphic: "c \<in> set (hex_scalars n) \<Longrightarrow> 48 \<le> c \<and> c < 103"
proof (induction n rule: hex_scalars.induct)
  case (1 n)
  show ?case
  proof (cases "n < 16")
    case True
    then show ?thesis using 1(2) by (subst (asm) hex_scalars.simps) (auto simp: hex_scalar_def split: if_splits)
  next
    case False
    moreover have "n mod 16 < 16" by simp
    ultimately show ?thesis using 1
      by (subst (asm) (2) hex_scalars.simps) (auto simp: hex_scalar_def split: if_splits)
  qed
qed

lemma escape_scalar_harmless: "list_all harmless (escape_scalar c)"
  using hex_scalars_graphic[of _ c]
  by (fastforce simp: escape_scalar_def escape_unicode_def harmless_def is_control_def is_bidi_control_def list_all_iff)

lemma escape_scalar_scalar: "is_scalar c \<Longrightarrow> list_all is_scalar (escape_scalar c)"
  using hex_scalars_graphic[of _ c]
  by (fastforce simp: escape_scalar_def escape_unicode_def is_scalar_def list_all_iff)

lemma escape_scalar_id [simp]: "harmless c \<Longrightarrow> escape_scalar c = [c]"
  by (simp add: escape_scalar_def harmless_def)

lemma escape_id: "list_all harmless cs \<Longrightarrow> concat (map escape_scalar cs) = cs"
  by (induction cs) auto

lemma escape_terminal_text_safe:
  assumes "valid_utf8 s"
  shows "valid_utf8 (escape_terminal_text s) \<and> list_all harmless (chars (escape_terminal_text s))"
proof -
  obtain cs where s: "s = utf8 cs" "list_all is_scalar cs" using assms by (auto simp: valid_utf8_iff)
  let ?es = "concat (map escape_scalar cs)"
  have scalar: "list_all is_scalar ?es"
    using s(2) by (induction cs) (auto simp: escape_scalar_scalar)
  have "list_all harmless ?es" by (induction cs) (auto simp: escape_scalar_harmless)
  moreover have "escape_terminal_text s = utf8 ?es" using s by (simp add: escape_terminal_text_def chars_utf8)
  ultimately show ?thesis using scalar by (auto simp: valid_utf8_iff chars_utf8)
qed

lemma escape_terminal_text_id:
  assumes "valid_utf8 s" "list_all harmless (chars s)"
  shows "escape_terminal_text s = s"
  using assms by (auto simp: valid_utf8_iff escape_terminal_text_def chars_utf8 escape_id)

text \<open>
  Text written to a terminal is safe and otherwise untouched. For a valid UTF-8 string the
  escaped text is again valid UTF-8, it contains no control character and no bidirectional
  formatting character, it is the string itself when there was none in it, and escaping it once
  more changes nothing.
\<close>

theorem terminal_text_is_safe:
  assumes "valid_utf8 s"
  shows "valid_utf8 (escape_terminal_text s) \<and> list_all harmless (chars (escape_terminal_text s)) \<and>
    (list_all harmless (chars s) \<longrightarrow> escape_terminal_text s = s) \<and>
    escape_terminal_text (escape_terminal_text s) = escape_terminal_text s"
  using assms escape_terminal_text_safe[OF assms]
    escape_terminal_text_id[OF assms] escape_terminal_text_id[of "escape_terminal_text s"] by simp

lemma terminal_text_is_safe_witness:
  "list_all harmless (chars (escape_terminal_text (utf8 [104, 10, 0x202E])))"
  by (rule terminal_text_is_safe[THEN conjunct2, THEN conjunct1])
    (auto simp: valid_utf8_iff is_scalar_def intro!: exI[of _ "[104, 10, 0x202E]"])

end
