(* ===== verification/Selection_Protocol.thy ===== *)
theory Selection_Protocol
  imports Protocol
begin

text \<open>
  The semantic-selection and outline protocols (\<open>crates/srcmv-protocol/src/selection.rs\<close>,
  \<open>outline.rs\<close> and \<open>selection_capabilities.rs\<close>): their documents and constructors, their error
  registries, and the writer that bounds a serialized line while it is produced. The serialization of a
  value is the parameter \<open>Serialization\<close> of \<open>Protocol\<close>: the sequence of its writes and whether it
  fails by itself after them. \<open>usize\<close> has 64 bits.
\<close>

section \<open>Selection documents\<close>

definition SELECTION_PROTOCOL_VERSION :: nat where "SELECTION_PROTOCOL_VERSION = 1"

record SelectionByteSelectorDto =
  bs_kind :: string
  bs_start :: nat
  bs_end :: nat

definition byte_selector :: "nat \<Rightarrow> nat \<Rightarrow> SelectionByteSelectorDto" where
  "byte_selector s e = \<lparr>bs_kind = ''bytes'', bs_start = s, bs_end = e\<rparr>"

record SelectionLspPositionDto =
  pd_line :: nat
  pd_character :: nat

definition lsp_position :: "nat \<Rightarrow> nat \<Rightarrow> SelectionLspPositionDto" where
  "lsp_position line character = \<lparr>pd_line = line, pd_character = character\<rparr>"

record SelectionLspRangeDto =
  rd_start :: SelectionLspPositionDto
  rd_end :: SelectionLspPositionDto

definition lsp_range :: "SelectionLspPositionDto \<Rightarrow> SelectionLspPositionDto \<Rightarrow> SelectionLspRangeDto" where
  "lsp_range s e = \<lparr>rd_start = s, rd_end = e\<rparr>"

datatype SelectionKnownSymbolKindDto =
    FileDto | ModuleDto | NamespaceDto | PackageDto | ClassDto | MethodDto | PropertyDto
  | FieldDto | ConstructorDto | EnumDto | InterfaceDto | FunctionDto | VariableDto
  | ConstantDto | StringDto | NumberDto | BooleanDto | ArrayDto | ObjectDto | KeyDto
  | NullDto | EnumMemberDto | StructDto | EventDto | OperatorDto | TypeParameterDto

definition all_kind_dtos :: "SelectionKnownSymbolKindDto list" where
  "all_kind_dtos =
     [FileDto, ModuleDto, NamespaceDto, PackageDto, ClassDto, MethodDto, PropertyDto,
      FieldDto, ConstructorDto, EnumDto, InterfaceDto, FunctionDto, VariableDto,
      ConstantDto, StringDto, NumberDto, BooleanDto, ArrayDto, ObjectDto, KeyDto,
      NullDto, EnumMemberDto, StructDto, EventDto, OperatorDto, TypeParameterDto]"

fun kind_dto_as_str :: "SelectionKnownSymbolKindDto \<Rightarrow> string" where
  "kind_dto_as_str FileDto = ''file''"
| "kind_dto_as_str ModuleDto = ''module''"
| "kind_dto_as_str NamespaceDto = ''namespace''"
| "kind_dto_as_str PackageDto = ''package''"
| "kind_dto_as_str ClassDto = ''class''"
| "kind_dto_as_str MethodDto = ''method''"
| "kind_dto_as_str PropertyDto = ''property''"
| "kind_dto_as_str FieldDto = ''field''"
| "kind_dto_as_str ConstructorDto = ''constructor''"
| "kind_dto_as_str EnumDto = ''enum''"
| "kind_dto_as_str InterfaceDto = ''interface''"
| "kind_dto_as_str FunctionDto = ''function''"
| "kind_dto_as_str VariableDto = ''variable''"
| "kind_dto_as_str ConstantDto = ''constant''"
| "kind_dto_as_str StringDto = ''string''"
| "kind_dto_as_str NumberDto = ''number''"
| "kind_dto_as_str BooleanDto = ''boolean''"
| "kind_dto_as_str ArrayDto = ''array''"
| "kind_dto_as_str ObjectDto = ''object''"
| "kind_dto_as_str KeyDto = ''key''"
| "kind_dto_as_str NullDto = ''null''"
| "kind_dto_as_str EnumMemberDto = ''enum_member''"
| "kind_dto_as_str StructDto = ''struct''"
| "kind_dto_as_str EventDto = ''event''"
| "kind_dto_as_str OperatorDto = ''operator''"
| "kind_dto_as_str TypeParameterDto = ''type_parameter''"

datatype SelectionSymbolKindDto = KnownDto SelectionKnownSymbolKindDto | UnknownDto

fun symbol_kind_as_str :: "SelectionSymbolKindDto \<Rightarrow> string" where
  "symbol_kind_as_str (KnownDto kind) = kind_dto_as_str kind"
| "symbol_kind_as_str UnknownDto = ''unknown''"

datatype SelectionQueryDto =
    NameQuery string "SelectionKnownSymbolKindDto option"
  | PositionQuery nat "SelectionKnownSymbolKindDto option"

record SelectionSourceDto =
  so_path :: string
  so_sha256 :: string
  so_byte_length :: nat

definition new_selection_source :: "string \<Rightarrow> Sha256Digest \<Rightarrow> nat \<Rightarrow> SelectionSourceDto" where
  "new_selection_source path sha256 byte_length =
     \<lparr>so_path = path, so_sha256 = to_prefixed_hex sha256, so_byte_length = byte_length\<rparr>"

datatype SelectionPositionEncodingDto = Utf8Dto | Utf16Dto | Utf32Dto

fun encoding_as_str :: "SelectionPositionEncodingDto \<Rightarrow> string" where
  "encoding_as_str Utf8Dto = ''utf-8''"
| "encoding_as_str Utf16Dto = ''utf-16''"
| "encoding_as_str Utf32Dto = ''utf-32''"

record SelectionServerDto =
  sv_configuration_id :: "string option"
  sv_reported_name :: "string option"
  sv_reported_version :: "string option"
  sv_position_encoding :: SelectionPositionEncodingDto

definition new_selection_server ::
    "string option \<Rightarrow> string option \<Rightarrow> string option \<Rightarrow> SelectionPositionEncodingDto \<Rightarrow> SelectionServerDto" where
  "new_selection_server configuration_id reported_name reported_version position_encoding =
     \<lparr>sv_configuration_id = configuration_id, sv_reported_name = reported_name,
      sv_reported_version = reported_version, sv_position_encoding = position_encoding\<rparr>"

record SelectionSourcePreconditionDto =
  sp_kind :: string
  sp_value :: string

record SelectionRequestSourceDto =
  rs_path :: string
  rs_selector :: SelectionByteSelectorDto
  rs_precondition :: SelectionSourcePreconditionDto

definition new_request_source ::
    "string \<Rightarrow> SelectionByteSelectorDto \<Rightarrow> Sha256Digest \<Rightarrow> SelectionRequestSourceDto" where
  "new_request_source path selector source_sha256 =
     \<lparr>rs_path = path, rs_selector = selector,
      rs_precondition = \<lparr>sp_kind = ''sha256'', sp_value = to_prefixed_hex source_sha256\<rparr>\<rparr>"

datatype SelectionExtentDto = SymbolExtentDto | DeclarationLinesDto

fun extent_as_str :: "SelectionExtentDto \<Rightarrow> string" where
  "extent_as_str SymbolExtentDto = ''symbol''"
| "extent_as_str DeclarationLinesDto = ''declaration_lines''"

record SelectionMatchDto =
  md_name :: string
  md_symbol_kind :: SelectionSymbolKindDto
  md_symbol_path :: "string list"
  md_detail :: "string option"
  md_lsp_range :: SelectionLspRangeDto
  md_lsp_selection_range :: SelectionLspRangeDto
  md_extent :: SelectionExtentDto
  md_selector :: SelectionByteSelectorDto
  md_selected_payload_sha256 :: string
  md_selected_byte_length :: nat
  md_request_source :: SelectionRequestSourceDto

definition new_selection_match ::
    "string \<Rightarrow> SelectionSymbolKindDto \<Rightarrow> string list \<Rightarrow> string option \<Rightarrow> SelectionLspRangeDto \<Rightarrow>
     SelectionLspRangeDto \<Rightarrow> SelectionExtentDto \<Rightarrow> SelectionByteSelectorDto \<Rightarrow> Sha256Digest \<Rightarrow> string \<Rightarrow>
     Sha256Digest \<Rightarrow> SelectionMatchDto" where
  "new_selection_match name symbol_kind symbol_path detail wire_range selection_range extent selector
       selected_payload_sha256 source_path source_sha256 =
     \<lparr>md_name = name, md_symbol_kind = symbol_kind, md_symbol_path = symbol_path, md_detail = detail,
      md_lsp_range = wire_range, md_lsp_selection_range = selection_range, md_extent = extent,
      md_selector = selector, md_selected_payload_sha256 = to_prefixed_hex selected_payload_sha256,
      md_selected_byte_length = bs_end selector - bs_start selector,
      md_request_source = new_request_source source_path selector source_sha256\<rparr>"

record SelectionResponse =
  se_selection_protocol_version :: nat
  se_workspace_identity_hash :: string
  se_source :: SelectionSourceDto
  se_query :: SelectionQueryDto
  se_server :: SelectionServerDto
  se_matches :: "SelectionMatchDto list"
  se_warnings :: "WarningDto list"

definition new_selection_response ::
    "Sha256Digest \<Rightarrow> SelectionSourceDto \<Rightarrow> SelectionQueryDto \<Rightarrow> SelectionServerDto \<Rightarrow>
     SelectionMatchDto list \<Rightarrow> WarningDto list \<Rightarrow> SelectionResponse" where
  "new_selection_response workspace_identity_hash source query server matches warnings =
     \<lparr>se_selection_protocol_version = SELECTION_PROTOCOL_VERSION,
      se_workspace_identity_hash = to_prefixed_hex workspace_identity_hash, se_source = source,
      se_query = query, se_server = server, se_matches = matches, se_warnings = warnings\<rparr>"

record LanguageServerSemantics =
  ls_bundled :: bool
  ls_availability :: string
  ls_trust :: string

record SelectionCapabilitiesResponse =
  sc_selection_protocol_version :: nat
  sc_features :: "string list"
  sc_queries :: "string list"
  sc_extents :: "string list"
  sc_position_encodings :: "string list"
  sc_language_server :: LanguageServerSemantics

definition current_selection_capabilities :: SelectionCapabilitiesResponse where
  "current_selection_capabilities =
     \<lparr>sc_selection_protocol_version = SELECTION_PROTOCOL_VERSION,
      sc_features = [''document_symbols'', ''all_matches'', ''request_source_composition''],
      sc_queries = [''name'', ''position''], sc_extents = [''symbol'', ''declaration_lines''],
      sc_position_encodings = [''utf-8'', ''utf-16'', ''utf-32''],
      sc_language_server =
        \<lparr>ls_bundled = False, ls_availability = ''runtime_dependent'', ls_trust = ''trusted_local_process''\<rparr>\<rparr>"

section \<open>Selection errors\<close>

datatype SelectionErrorCategory =
  SelectionRequest | SelectionConflict | SelectionSupport | SelectionInternal

fun selection_category_exit_code :: "SelectionErrorCategory \<Rightarrow> nat" where
  "selection_category_exit_code SelectionRequest = 2"
| "selection_category_exit_code SelectionConflict = 3"
| "selection_category_exit_code SelectionSupport = 4"
| "selection_category_exit_code SelectionInternal = 8"

fun selection_category_as_str :: "SelectionErrorCategory \<Rightarrow> string" where
  "selection_category_as_str SelectionRequest = ''request''"
| "selection_category_as_str SelectionConflict = ''conflict''"
| "selection_category_as_str SelectionSupport = ''support''"
| "selection_category_as_str SelectionInternal = ''internal''"

datatype SelectionErrorCode =
    InvalidSelectionQuery | LspServerNotConfigured | SelectionNotFound | SelectionAmbiguous
  | UnsupportedTextEncoding | LspCapabilityUnavailable | LspFlatSymbolsUnsupported
  | LspDocumentSyncUnavailable | LspResourceLimitExceeded | LspTimeout | LspStartFailed
  | LspExited | LspProtocolError | LspRequestFailed | SelectionInternalError

definition all_selection_error_codes :: "SelectionErrorCode list" where
  "all_selection_error_codes =
     [InvalidSelectionQuery, LspServerNotConfigured, SelectionNotFound, SelectionAmbiguous,
      UnsupportedTextEncoding, LspCapabilityUnavailable, LspFlatSymbolsUnsupported,
      LspDocumentSyncUnavailable, LspResourceLimitExceeded, LspTimeout, LspStartFailed,
      LspExited, LspProtocolError, LspRequestFailed, SelectionInternalError]"

fun selection_code_as_str :: "SelectionErrorCode \<Rightarrow> string" where
  "selection_code_as_str InvalidSelectionQuery = ''INVALID_SELECTION_QUERY''"
| "selection_code_as_str LspServerNotConfigured = ''LSP_SERVER_NOT_CONFIGURED''"
| "selection_code_as_str SelectionNotFound = ''SELECTION_NOT_FOUND''"
| "selection_code_as_str SelectionAmbiguous = ''SELECTION_AMBIGUOUS''"
| "selection_code_as_str UnsupportedTextEncoding = ''UNSUPPORTED_TEXT_ENCODING''"
| "selection_code_as_str LspCapabilityUnavailable = ''LSP_CAPABILITY_UNAVAILABLE''"
| "selection_code_as_str LspFlatSymbolsUnsupported = ''LSP_FLAT_SYMBOLS_UNSUPPORTED''"
| "selection_code_as_str LspDocumentSyncUnavailable = ''LSP_DOCUMENT_SYNC_UNAVAILABLE''"
| "selection_code_as_str LspResourceLimitExceeded = ''LSP_RESOURCE_LIMIT_EXCEEDED''"
| "selection_code_as_str LspTimeout = ''LSP_TIMEOUT''"
| "selection_code_as_str LspStartFailed = ''LSP_START_FAILED''"
| "selection_code_as_str LspExited = ''LSP_EXITED''"
| "selection_code_as_str LspProtocolError = ''LSP_PROTOCOL_ERROR''"
| "selection_code_as_str LspRequestFailed = ''LSP_REQUEST_FAILED''"
| "selection_code_as_str SelectionInternalError = ''SELECTION_INTERNAL_ERROR''"

fun selection_category :: "SelectionErrorCode \<Rightarrow> SelectionErrorCategory" where
  "selection_category InvalidSelectionQuery = SelectionRequest"
| "selection_category SelectionNotFound = SelectionConflict"
| "selection_category SelectionAmbiguous = SelectionConflict"
| "selection_category LspServerNotConfigured = SelectionSupport"
| "selection_category UnsupportedTextEncoding = SelectionSupport"
| "selection_category LspCapabilityUnavailable = SelectionSupport"
| "selection_category LspFlatSymbolsUnsupported = SelectionSupport"
| "selection_category LspDocumentSyncUnavailable = SelectionSupport"
| "selection_category LspResourceLimitExceeded = SelectionSupport"
| "selection_category LspTimeout = SelectionSupport"
| "selection_category LspStartFailed = SelectionSupport"
| "selection_category LspExited = SelectionSupport"
| "selection_category LspProtocolError = SelectionSupport"
| "selection_category LspRequestFailed = SelectionSupport"
| "selection_category SelectionInternalError = SelectionInternal"

definition selection_retryable :: "SelectionErrorCode \<Rightarrow> bool" where
  "selection_retryable code \<longleftrightarrow> code \<in> {LspTimeout, LspStartFailed, LspExited, LspRequestFailed}"

record SelectionErrorDto =
  sr_selection_protocol_version :: nat
  sr_code :: SelectionErrorCode
  sr_category :: SelectionErrorCategory
  sr_retryable :: bool
  sr_message :: string
  sr_context :: context_map

definition new_selection_error :: "SelectionErrorCode \<Rightarrow> string \<Rightarrow> context_map \<Rightarrow> SelectionErrorDto" where
  "new_selection_error code message details =
     \<lparr>sr_selection_protocol_version = SELECTION_PROTOCOL_VERSION, sr_code = code,
      sr_category = selection_category code, sr_retryable = selection_retryable code,
      sr_message = message, sr_context = details\<rparr>"

definition selection_exit_code :: "SelectionErrorDto \<Rightarrow> nat" where
  "selection_exit_code report = selection_category_exit_code (sr_category report)"

datatype SelectionProtocolError = SelectionProtocolError (spe_report: SelectionErrorDto)

section \<open>The bounded writer\<close>

datatype BoundedJsonLineFailure = SerializationFailure | ResponseLimit nat

record BoundedJsonWriter =
  bw_bytes :: bytes
  bw_maximum_payload_bytes :: nat
  bw_attempted_bytes :: nat
  bw_exceeded :: bool

definition new_writer :: "nat \<Rightarrow> BoundedJsonWriter" where
  "new_writer maximum_payload_bytes =
     \<lparr>bw_bytes = [], bw_maximum_payload_bytes = maximum_payload_bytes, bw_attempted_bytes = 0,
      bw_exceeded = False\<rparr>"

text \<open>One call of \<open>write\<close>: whether it succeeds, and the writer after it.\<close>

definition write_chunk :: "bytes \<Rightarrow> BoundedJsonWriter \<Rightarrow> bool \<times> BoundedJsonWriter" where
  "write_chunk buffer w =
     (case checked_add_u64 (length (bw_bytes w)) (length buffer) of
        None \<Rightarrow> (False, w\<lparr>bw_exceeded := True, bw_attempted_bytes := u64_max\<rparr>)
      | Some attempted_payload \<Rightarrow>
          if bw_maximum_payload_bytes w < attempted_payload
          then (False, w\<lparr>bw_exceeded := True, bw_attempted_bytes := saturating_add_u64 attempted_payload 1\<rparr>)
          else (True, w\<lparr>bw_bytes := bw_bytes w @ buffer\<rparr>))"

text \<open>\<open>serde_json::to_writer\<close>: it stops at the first write that fails.\<close>

fun write_chunks :: "bytes list \<Rightarrow> BoundedJsonWriter \<Rightarrow> bool \<times> BoundedJsonWriter" where
  "write_chunks [] w = (True, w)"
| "write_chunks (buffer # rest) w =
     (case write_chunk buffer w of (True, w') \<Rightarrow> write_chunks rest w' | (False, w') \<Rightarrow> (False, w'))"

definition write_bounded_json_line :: "Serialization \<Rightarrow> nat \<Rightarrow> BoundedJsonLineFailure + bytes" where
  "write_bounded_json_line s maximum_response_bytes =
     (let maximum_payload_bytes = maximum_response_bytes - 1;
          (written, output) = write_chunks (se_writes s) (new_writer maximum_payload_bytes) in
      if \<not> written \<or> se_fails s
      then
        Err (if bw_exceeded output then ResponseLimit (bw_attempted_bytes output) else SerializationFailure)
      else Ok (bw_bytes output @ [LF]))"

definition selection_serialization_error :: SelectionProtocolError where
  "selection_serialization_error =
     SelectionProtocolError (new_selection_error SelectionInternalError
       ''failed to serialize the semantic-selection response'' [])"

definition selection_response_limit_error :: "nat \<Rightarrow> SelectionProtocolError" where
  "selection_response_limit_error actual =
     SelectionProtocolError (new_selection_error LspResourceLimitExceeded
       ''the semantic-selection response exceeds the serialized response limit''
       (context_entries
         [(''actual'', json_nat actual), (''limit'', json_nat MAX_RESPONSE_BYTES),
          (''resource'', String ''serialized_json_response'')]))"

definition to_selection_json_line :: "Serialization \<Rightarrow> SelectionProtocolError + bytes" where
  "to_selection_json_line s =
     (case write_bounded_json_line s MAX_RESPONSE_BYTES of
        Ok line \<Rightarrow> if valid_utf8 line then Ok line else Err selection_serialization_error
      | Err (ResponseLimit actual) \<Rightarrow> Err (selection_response_limit_error actual)
      | Err SerializationFailure \<Rightarrow> Err selection_serialization_error)"

section \<open>Outline documents and errors\<close>

definition OUTLINE_PROTOCOL_VERSION :: nat where "OUTLINE_PROTOCOL_VERSION = 1"

record OutlineSymbolDto =
  ol_name :: string
  ol_symbol_kind :: SelectionSymbolKindDto
  ol_symbol_path :: "string list"
  ol_depth :: nat
  ol_detail :: "string option"
  ol_start_line :: nat
  ol_start_column :: "nat option"
  ol_end_line :: nat
  ol_end_column :: "nat option"
  ol_lsp_range :: SelectionLspRangeDto
  ol_lsp_selection_range :: SelectionLspRangeDto
  ol_selector :: SelectionByteSelectorDto

record OutlineResponse =
  oe_outline_protocol_version :: nat
  oe_workspace_identity_hash :: string
  oe_source :: SelectionSourceDto
  oe_server :: SelectionServerDto
  oe_symbols :: "OutlineSymbolDto list"
  oe_warnings :: "WarningDto list"

definition new_outline_response ::
    "Sha256Digest \<Rightarrow> SelectionSourceDto \<Rightarrow> SelectionServerDto \<Rightarrow> OutlineSymbolDto list \<Rightarrow> WarningDto list \<Rightarrow>
     OutlineResponse" where
  "new_outline_response workspace_identity_hash source server symbols warnings =
     \<lparr>oe_outline_protocol_version = OUTLINE_PROTOCOL_VERSION,
      oe_workspace_identity_hash = to_prefixed_hex workspace_identity_hash, oe_source = source,
      oe_server = server, oe_symbols = symbols, oe_warnings = warnings\<rparr>"

datatype OutlineErrorCategory = OutlineRequest | OutlineSupport | OutlineInternal

fun outline_category_exit_code :: "OutlineErrorCategory \<Rightarrow> nat" where
  "outline_category_exit_code OutlineRequest = 2"
| "outline_category_exit_code OutlineSupport = 4"
| "outline_category_exit_code OutlineInternal = 8"

fun outline_category_as_str :: "OutlineErrorCategory \<Rightarrow> string" where
  "outline_category_as_str OutlineRequest = ''request''"
| "outline_category_as_str OutlineSupport = ''support''"
| "outline_category_as_str OutlineInternal = ''internal''"

datatype OutlineErrorCode =
    InvalidOutlineQuery | OutlineServerNotConfigured | OutlineTextEncoding
  | OutlineCapabilityUnavailable | OutlineFlatSymbolsUnsupported | OutlineDocumentSyncUnavailable
  | OutlineResourceLimitExceeded | OutlineTimeout | OutlineStartFailed | OutlineExited
  | OutlineLspProtocolError | OutlineRequestFailed | OutlineInternalError

definition all_outline_error_codes :: "OutlineErrorCode list" where
  "all_outline_error_codes =
     [InvalidOutlineQuery, OutlineServerNotConfigured, OutlineTextEncoding,
      OutlineCapabilityUnavailable, OutlineFlatSymbolsUnsupported, OutlineDocumentSyncUnavailable,
      OutlineResourceLimitExceeded, OutlineTimeout, OutlineStartFailed, OutlineExited,
      OutlineLspProtocolError, OutlineRequestFailed, OutlineInternalError]"

fun outline_code_as_str :: "OutlineErrorCode \<Rightarrow> string" where
  "outline_code_as_str InvalidOutlineQuery = ''INVALID_OUTLINE_QUERY''"
| "outline_code_as_str OutlineServerNotConfigured = ''LSP_SERVER_NOT_CONFIGURED''"
| "outline_code_as_str OutlineTextEncoding = ''UNSUPPORTED_TEXT_ENCODING''"
| "outline_code_as_str OutlineCapabilityUnavailable = ''LSP_CAPABILITY_UNAVAILABLE''"
| "outline_code_as_str OutlineFlatSymbolsUnsupported = ''LSP_FLAT_SYMBOLS_UNSUPPORTED''"
| "outline_code_as_str OutlineDocumentSyncUnavailable = ''LSP_DOCUMENT_SYNC_UNAVAILABLE''"
| "outline_code_as_str OutlineResourceLimitExceeded = ''LSP_RESOURCE_LIMIT_EXCEEDED''"
| "outline_code_as_str OutlineTimeout = ''LSP_TIMEOUT''"
| "outline_code_as_str OutlineStartFailed = ''LSP_START_FAILED''"
| "outline_code_as_str OutlineExited = ''LSP_EXITED''"
| "outline_code_as_str OutlineLspProtocolError = ''LSP_PROTOCOL_ERROR''"
| "outline_code_as_str OutlineRequestFailed = ''LSP_REQUEST_FAILED''"
| "outline_code_as_str OutlineInternalError = ''OUTLINE_INTERNAL_ERROR''"

fun outline_category :: "OutlineErrorCode \<Rightarrow> OutlineErrorCategory" where
  "outline_category InvalidOutlineQuery = OutlineRequest"
| "outline_category OutlineServerNotConfigured = OutlineSupport"
| "outline_category OutlineTextEncoding = OutlineSupport"
| "outline_category OutlineCapabilityUnavailable = OutlineSupport"
| "outline_category OutlineFlatSymbolsUnsupported = OutlineSupport"
| "outline_category OutlineDocumentSyncUnavailable = OutlineSupport"
| "outline_category OutlineResourceLimitExceeded = OutlineSupport"
| "outline_category OutlineTimeout = OutlineSupport"
| "outline_category OutlineStartFailed = OutlineSupport"
| "outline_category OutlineExited = OutlineSupport"
| "outline_category OutlineLspProtocolError = OutlineSupport"
| "outline_category OutlineRequestFailed = OutlineSupport"
| "outline_category OutlineInternalError = OutlineInternal"

definition outline_retryable :: "OutlineErrorCode \<Rightarrow> bool" where
  "outline_retryable code \<longleftrightarrow> code \<in> {OutlineTimeout, OutlineStartFailed, OutlineExited, OutlineRequestFailed}"

record OutlineErrorDto =
  ot_outline_protocol_version :: nat
  ot_code :: OutlineErrorCode
  ot_category :: OutlineErrorCategory
  ot_retryable :: bool
  ot_message :: string
  ot_context :: context_map

definition new_outline_error :: "OutlineErrorCode \<Rightarrow> string \<Rightarrow> context_map \<Rightarrow> OutlineErrorDto" where
  "new_outline_error code message details =
     \<lparr>ot_outline_protocol_version = OUTLINE_PROTOCOL_VERSION, ot_code = code,
      ot_category = outline_category code, ot_retryable = outline_retryable code,
      ot_message = message, ot_context = details\<rparr>"

definition outline_exit_code :: "OutlineErrorDto \<Rightarrow> nat" where
  "outline_exit_code report = outline_category_exit_code (ot_category report)"

datatype OutlineProtocolError = OutlineProtocolError (ope_report: OutlineErrorDto)

definition outline_serialization_error :: OutlineProtocolError where
  "outline_serialization_error =
     OutlineProtocolError (new_outline_error OutlineInternalError ''failed to serialize the outline response'' [])"

definition outline_response_limit_error :: "nat \<Rightarrow> OutlineProtocolError" where
  "outline_response_limit_error actual =
     OutlineProtocolError (new_outline_error OutlineResourceLimitExceeded
       ''the outline response exceeds the serialized response limit''
       (context_entries
         [(''actual'', json_nat actual), (''limit'', json_nat MAX_RESPONSE_BYTES),
          (''resource'', String ''serialized_json_response'')]))"

definition to_outline_json_line :: "Serialization \<Rightarrow> OutlineProtocolError + bytes" where
  "to_outline_json_line s =
     (case write_bounded_json_line s MAX_RESPONSE_BYTES of
        Ok line \<Rightarrow> if valid_utf8 line then Ok line else Err outline_serialization_error
      | Err (ResponseLimit actual) \<Rightarrow> Err (outline_response_limit_error actual)
      | Err SerializationFailure \<Rightarrow> Err outline_serialization_error)"

section \<open>Exactness of the bound\<close>

text \<open>The first payload used above the maximum, when the writes are made one after the other.\<close>

fun first_excess :: "nat \<Rightarrow> nat \<Rightarrow> bytes list \<Rightarrow> nat option" where
  "first_excess maximum used [] = None"
| "first_excess maximum used (buffer # rest) =
     (if maximum < used + length buffer then Some (used + length buffer)
      else first_excess maximum (used + length buffer) rest)"

lemma first_excess_None:
  "used \<le> maximum \<Longrightarrow> first_excess maximum used bs = None \<longleftrightarrow> used + length (concat bs) \<le> maximum"
  by (induction bs arbitrary: used) (auto simp: algebra_simps)

lemma first_excess_Some:
  "first_excess maximum used bs = Some k \<Longrightarrow> maximum < k \<and> k \<le> used + length (concat bs)"
  by (induction bs arbitrary: used) (fastforce split: if_splits)+

lemma write_all_exact:
  assumes "bw_maximum_payload_bytes w < u64_max" "length (bw_bytes w) \<le> bw_maximum_payload_bytes w" "\<not> bw_exceeded w"
  shows "case first_excess (bw_maximum_payload_bytes w) (length (bw_bytes w)) bs of
      None \<Rightarrow> write_chunks bs w = (True, w\<lparr>bw_bytes := bw_bytes w @ concat bs\<rparr>)
    | Some k \<Rightarrow> \<exists>w'. write_chunks bs w = (False, w') \<and> bw_exceeded w' \<and> bw_attempted_bytes w' = min (k + 1) u64_max"
  using assms
proof (induction bs arbitrary: w)
  case (Cons buffer rest)
  let ?n = "length (bw_bytes w) + length buffer"
  show ?case
  proof (cases "bw_maximum_payload_bytes w < ?n")
    case True
    then show ?thesis
      using Cons.prems
      by (cases "?n \<le> u64_max") (auto simp: write_chunk_def checked_add_u64_def saturating_add_u64_def)
  next
    case False
    let ?w = "w\<lparr>bw_bytes := bw_bytes w @ buffer\<rparr>"
    have "write_chunk buffer w = (True, ?w)"
      using False Cons.prems by (simp add: write_chunk_def checked_add_u64_def)
    then have "write_chunks (buffer # rest) w = write_chunks rest ?w" by simp
    then show ?thesis
      using Cons.IH[of ?w] False Cons.prems by (cases "first_excess (bw_maximum_payload_bytes w) ?n rest") auto
  qed
qed simp

lemma write_bounded_exact:
  assumes "0 < limit" "limit < u64_max"
  shows "write_bounded_json_line s limit =
    (case first_excess (limit - 1) 0 (se_writes s) of
       Some k \<Rightarrow> Err (ResponseLimit (min (k + 1) u64_max))
     | None \<Rightarrow> if se_fails s then Err SerializationFailure else Ok (concat (se_writes s) @ [LF]))"
proof -
  have "limit - 1 < u64_max" using assms by simp
  then show ?thesis
    using write_all_exact[of "new_writer (limit - 1)" "se_writes s"]
    by (cases "first_excess (limit - 1) 0 (se_writes s)") (auto simp: write_bounded_json_line_def new_writer_def Let_def)
qed

lemma write_bounded_cases:
  assumes "0 < limit" "limit < u64_max"
  shows "(write_bounded_json_line s limit = Ok line \<longleftrightarrow>
      \<not> se_fails s \<and> line = concat (se_writes s) @ [LF] \<and> length line \<le> limit) \<and>
    (write_bounded_json_line s limit = Err SerializationFailure \<longleftrightarrow>
      se_fails s \<and> length (concat (se_writes s)) < limit) \<and>
    (\<forall>n. write_bounded_json_line s limit = Err (ResponseLimit n) \<longrightarrow>
      limit < n \<and> n \<le> length (concat (se_writes s)) + 1)"
proof (cases "first_excess (limit - 1) 0 (se_writes s)")
  case None
  then have "length (concat (se_writes s)) \<le> limit - 1" using first_excess_None[of 0] by simp
  then show ?thesis using None assms by (auto simp: write_bounded_exact)
next
  case (Some k)
  note k = first_excess_Some[OF Some]
  have "\<not> length (concat (se_writes s)) \<le> limit - 1" using Some first_excess_None[of 0 "limit - 1" "se_writes s"] by auto
  then show ?thesis using Some k assms by (auto simp: write_bounded_exact)
qed

lemma MAX_RESPONSE_BYTES_range: "0 < MAX_RESPONSE_BYTES" "MAX_RESPONSE_BYTES < u64_max"
  by (simp_all add: MAX_RESPONSE_BYTES_def u64_max_def)

text \<open>
  C31: The line of a selection or outline response is the serialized value followed by one line
  feed, and it is returned exactly when the serialization does not fail, the whole line has at most
  16 MiB and it is UTF-8. A line that would be larger is reported as a resource error that exits
  with status 4, is not retryable and names an attempted used above the limit; every other failure is
  an internal error with status 8. No partial line is ever returned.
\<close>

theorem response_lines_are_bounded:
  "(to_selection_json_line s = Ok line \<longleftrightarrow>
      \<not> se_fails s \<and> line = concat (se_writes s) @ [LF] \<and> length line \<le> MAX_RESPONSE_BYTES \<and> valid_utf8 line) \<and>
   (to_outline_json_line s = Ok line \<longleftrightarrow> to_selection_json_line s = Ok line) \<and>
   (\<forall>e. to_selection_json_line s = Err e \<longrightarrow>
      selection_exit_code (spe_report e) =
        (if MAX_RESPONSE_BYTES < length (concat (se_writes s)) + 1 then 4 else 8) \<and>
      \<not> sr_retryable (spe_report e) \<and>
      (MAX_RESPONSE_BYTES < length (concat (se_writes s)) + 1 \<longrightarrow>
        (\<exists>n > MAX_RESPONSE_BYTES. e = selection_response_limit_error n))) \<and>
   (\<forall>e. to_outline_json_line s = Err e \<longrightarrow>
      outline_exit_code (ope_report e) =
        (if MAX_RESPONSE_BYTES < length (concat (se_writes s)) + 1 then 4 else 8) \<and>
      \<not> ot_retryable (ope_report e) \<and>
      (MAX_RESPONSE_BYTES < length (concat (se_writes s)) + 1 \<longrightarrow>
        (\<exists>n > MAX_RESPONSE_BYTES. e = outline_response_limit_error n)))"
proof (cases "write_bounded_json_line s MAX_RESPONSE_BYTES")
  case (Inr l)
  then have "\<not> se_fails s \<and> l = concat (se_writes s) @ [LF] \<and> length l \<le> MAX_RESPONSE_BYTES"
    using write_bounded_cases[OF MAX_RESPONSE_BYTES_range, of s l] by blast
  with Inr show ?thesis
    by (auto simp: to_selection_json_line_def to_outline_json_line_def selection_exit_code_def
        outline_exit_code_def selection_serialization_error_def outline_serialization_error_def
        new_selection_error_def new_outline_error_def selection_retryable_def outline_retryable_def)
next
  case (Inl f)
  show ?thesis
  proof (cases f)
    case SerializationFailure
    then have "se_fails s \<and> length (concat (se_writes s)) < MAX_RESPONSE_BYTES"
      using Inl write_bounded_cases[OF MAX_RESPONSE_BYTES_range, of s] by simp
    with Inl SerializationFailure show ?thesis
      by (auto simp: to_selection_json_line_def to_outline_json_line_def selection_exit_code_def
          outline_exit_code_def selection_serialization_error_def outline_serialization_error_def
          new_selection_error_def new_outline_error_def selection_retryable_def outline_retryable_def)
  next
    case (ResponseLimit n)
    then have "MAX_RESPONSE_BYTES < n \<and> n \<le> length (concat (se_writes s)) + 1"
      using Inl write_bounded_cases[OF MAX_RESPONSE_BYTES_range, of s] by simp
    with Inl ResponseLimit show ?thesis
      by (auto simp: to_selection_json_line_def to_outline_json_line_def selection_exit_code_def
          outline_exit_code_def selection_response_limit_error_def outline_response_limit_error_def
          new_selection_error_def new_outline_error_def selection_retryable_def outline_retryable_def)
  qed
qed

lemma response_lines_are_bounded_witness:
  "(\<forall>e. to_selection_json_line \<lparr>se_writes = [[123], [125]], se_fails = False\<rparr> \<noteq> Err e) \<and>
   to_selection_json_line \<lparr>se_writes = [[123], [125]], se_fails = False\<rparr> = Ok [123, 125, 10]"
proof -
  have "valid_utf8 [123, 125, 10]"
    by (auto simp: valid_utf8_iff is_scalar_def encode_char_def intro!: exI[of _ "[123, 125, 10]"])
  then have "to_selection_json_line \<lparr>se_writes = [[123], [125]], se_fails = False\<rparr> = Ok [123, 125, 10]"
    by (subst response_lines_are_bounded[THEN conjunct1]) (simp add: MAX_RESPONSE_BYTES_def)
  then show ?thesis by simp
qed

end
