(* ===== verification/Diff.thy ===== *)
theory Diff
  imports Selection_Protocol Planner Fs_Types
begin

text \<open>
  The parts of a preview (\<open>crates/srcmv-cli/src/preview.rs\<close>) that read bytes: the recipe of an
  output chunk by chunk, the base64 samples of binary summaries, the lines of a text, and the bounded
  writer of the diff. A \<open>String\<close> is the character list of its UTF-8 bytes; \<open>usize\<close> has 64 bits.
\<close>

section \<open>Text\<close>

definition escape_text :: "string \<Rightarrow> string" where
  "escape_text s = text_of (escape_terminal_text (as_bytes s))"

definition DETAILED_DIFF_INPUT_BYTES :: nat where "DETAILED_DIFF_INPUT_BYTES = 8 * 1024 * 1024"
definition DIFF_WORK_UNITS :: nat where "DIFF_WORK_UNITS = 10000000"
definition DIFF_OUTPUT_BYTES :: nat where "DIFF_OUTPUT_BYTES = 4 * 1024 * 1024"
definition SAMPLE_BYTES :: nat where "SAMPLE_BYTES = 48"

section \<open>Chunks of an output\<close>

text \<open>\<open>collect\<close> into a \<open>HashMap\<close> keeps the last file of an identifier.\<close>

definition files_by_id :: "WorkspaceSnapshot \<Rightarrow> FilesById" where
  "files_by_id snapshot = fold (\<lambda>file m. m(fs_id file \<mapsto> file)) (ws_files snapshot) Map.empty"

definition before_bytes :: "WorkspaceSnapshot \<Rightarrow> string \<Rightarrow> bytes option" where
  "before_bytes snapshot path =
     map_option fs_bytes (List.find (\<lambda>file. path_value (fs_path file) = path) (ws_files snapshot))"

definition output_chunk :: "FilesById \<Rightarrow> OutputSegment \<Rightarrow> FsError + bytes" where
  "output_chunk files segment =
     (case segment_source segment of (file_id, rng) \<Rightarrow>
        and_then (ok_or (files file_id) (InternalInvariant ''preview_segment_snapshot_file'')) (\<lambda>file.
        ok_or (get_slice (fs_bytes file) (range_start rng) (range_end rng))
          (InternalInvariant ''preview_segment_range'')))"

text \<open>The chunks that the callback sees, in order.\<close>

definition visit_output_chunks :: "PlannedOutput \<Rightarrow> FilesById \<Rightarrow> FsError + bytes list" where
  "visit_output_chunks out files = try_map (output_chunk files) (po_segments out)"

definition materialize_output :: "PlannedOutput \<Rightarrow> FilesById \<Rightarrow> FsError + bytes" where
  "materialize_output out files =
     (let capacity = po_resulting_length out in
      and_then (visit_output_chunks out files) (\<lambda>chunks.
      let bs = concat chunks in
      if length bs \<noteq> capacity then Err (InternalInvariant ''preview_output_recipe_length'') else Ok bs))"

section \<open>Samples\<close>

definition ALPHABET :: string where
  "ALPHABET = ''ABCDEFGHIJKLMNOPQRSTUVWXYZabcdefghijklmnopqrstuvwxyz0123456789+/''"

definition symbol_at :: "u8 \<Rightarrow> char" where
  "symbol_at b = ALPHABET ! unat b"

text \<open>The loop takes three bytes at a time; missing bytes count as zero.\<close>

fun base64_encode :: "bytes \<Rightarrow> string" where
  "base64_encode [] = []"
| "base64_encode [first] =
     [symbol_at (drop_bit 2 first), symbol_at (push_bit 4 (and first 0x03)), CHR ''='', CHR ''='']"
| "base64_encode [first, second] =
     [symbol_at (drop_bit 2 first), symbol_at (or (push_bit 4 (and first 0x03)) (drop_bit 4 second)),
      symbol_at (push_bit 2 (and second 0x0f)), CHR ''='']"
| "base64_encode (first # second # third # rest) =
     [symbol_at (drop_bit 2 first), symbol_at (or (push_bit 4 (and first 0x03)) (drop_bit 4 second)),
      symbol_at (or (push_bit 2 (and second 0x0f)) (drop_bit 6 third)), symbol_at (and third 0x3f)] @
     base64_encode rest"

record EncodedSamples =
  head_base64 :: string
  tail_base64 :: string

definition samples_for_bytes :: "bytes \<Rightarrow> EncodedSamples" where
  "samples_for_bytes bs =
     (let head_end = min (length bs) SAMPLE_BYTES;
          tail_start = length bs - SAMPLE_BYTES in
      \<lparr>head_base64 = base64_encode (slice bs 0 head_end),
       tail_base64 = base64_encode (slice bs tail_start (length bs))\<rparr>)"

definition push_tail :: "bytes \<Rightarrow> u8 \<Rightarrow> bytes" where
  "push_tail queue byte = (if length queue = SAMPLE_BYTES then tl queue else queue) @ [byte]"

definition sample_chunk :: "bytes \<times> bytes \<Rightarrow> bytes \<Rightarrow> bytes \<times> bytes" where
  "sample_chunk = (\<lambda>(head, queue) chunk.
     let remaining = SAMPLE_BYTES - length head in
     (head @ take (min (length chunk) remaining) chunk, foldl push_tail queue chunk))"

definition samples_for_output :: "PlannedOutput \<Rightarrow> FilesById \<Rightarrow> FsError + EncodedSamples" where
  "samples_for_output out files =
     and_then (visit_output_chunks out files) (\<lambda>chunks.
     let (head, queue) = foldl sample_chunk ([], []) chunks in
     Ok \<lparr>head_base64 = base64_encode head, tail_base64 = base64_encode queue\<rparr>)"

section \<open>Lines\<close>

record TextLine =
  tl_full :: bytes
  tl_content :: bytes
  tl_terminator :: string

text \<open>The end of a line, the end of its content and its terminator, at an offset.\<close>

definition line_break :: "bytes \<Rightarrow> nat \<Rightarrow> (nat \<times> nat \<times> string) option" where
  "line_break bs offset =
     (if bs ! offset = LF then Some (offset + 1, offset, ''LF'')
      else if bs ! offset = CR \<and> get_nth bs (offset + 1) = Some LF then Some (offset + 2, offset, ''CRLF'')
      else if bs ! offset = CR then Some (offset + 1, offset, ''CR'')
      else None)"

lemma line_break_progress: "line_break bs offset = Some (e, c, t) \<Longrightarrow> offset < length bs \<Longrightarrow> offset < e \<and> e \<le> length bs"
  by (auto simp: line_break_def split: if_splits)

function text_lines_from :: "bytes \<Rightarrow> nat \<Rightarrow> nat \<Rightarrow> TextLine list" where
  "text_lines_from bs start offset =
     (if offset < length bs
      then
        case line_break bs offset of
          None \<Rightarrow> text_lines_from bs start (offset + 1)
        | Some (e, content_end, t) \<Rightarrow>
            \<lparr>tl_full = slice bs start e, tl_content = slice bs start content_end, tl_terminator = t\<rparr> #
            text_lines_from bs e e
      else if start < length bs
      then [\<lparr>tl_full = slice bs start (length bs), tl_content = slice bs start (length bs), tl_terminator = ''NONE''\<rparr>]
      else [])"
  by pat_completeness auto
termination
  by (relation "measure (\<lambda>(bs, start, offset). length bs - offset)") (auto dest: line_break_progress)

declare text_lines_from.simps [simp del]

definition text_lines :: "bytes \<Rightarrow> FsError + TextLine list" where
  "text_lines bs =
     (if valid_utf8 bs then Ok (text_lines_from bs 0 0)
      else Err (InternalInvariant ''text_diff_received_binary_bytes''))"

section \<open>The writer of the diff\<close>

datatype DiffTruncation = WorkTruncation | OutputTruncation

record DiffWriter =
  dw_text :: string
  dw_encoded_bytes :: nat
  dw_work_units :: nat
  dw_maximum_output_bytes :: nat
  dw_truncation :: "DiffTruncation option"

definition with_maximum_output_bytes :: "nat \<Rightarrow> DiffWriter" where
  "with_maximum_output_bytes maximum_output_bytes =
     \<lparr>dw_text = [], dw_encoded_bytes = 0, dw_work_units = 0,
      dw_maximum_output_bytes = maximum_output_bytes, dw_truncation = None\<rparr>"

definition json_byte_width :: "char \<Rightarrow> nat" where
  "json_byte_width c =
     (let b = byte_of c in
      if b \<in> {34, 92, 10, 13, 9, 0x08, 0x0c} then 2 else if b \<le> 0x1f then 6 else 1)"

definition json_string_content_bytes :: "string \<Rightarrow> nat" where
  "json_string_content_bytes s = sum_list (map json_byte_width s)"

definition charge :: "nat \<Rightarrow> DiffWriter \<Rightarrow> DiffWriter" where
  "charge units w =
     (let w = w\<lparr>dw_work_units := saturating_add_u64 (dw_work_units w) units\<rparr> in
      if DIFF_WORK_UNITS < dw_work_units w \<and> dw_truncation w = None
      then w\<lparr>dw_truncation := Some WorkTruncation\<rparr> else w)"

definition push_text :: "string \<Rightarrow> DiffWriter \<Rightarrow> bool \<times> DiffWriter" where
  "push_text s w =
     (let w = charge (length s) w; encoded_bytes = json_string_content_bytes s in
      if dw_truncation w \<noteq> None \<or>
         dw_maximum_output_bytes w < saturating_add_u64 (length (dw_text w)) (length s) \<or>
         dw_maximum_output_bytes w < saturating_add_u64 (dw_encoded_bytes w) encoded_bytes
      then (False, if dw_truncation w = None then w\<lparr>dw_truncation := Some OutputTruncation\<rparr> else w)
      else (True, w\<lparr>dw_text := dw_text w @ s, dw_encoded_bytes := dw_encoded_bytes w + encoded_bytes\<rparr>))"

definition diff_line :: "char \<Rightarrow> TextLine \<Rightarrow> string" where
  "diff_line prefix line =
     [prefix] @ text_of (escape_terminal_text (tl_content line)) @ '' ['' @ tl_terminator line @ '']'' @ [CHR 0x0A]"

definition write_line :: "char \<Rightarrow> TextLine \<Rightarrow> DiffWriter \<Rightarrow> bool \<times> DiffWriter" where
  "write_line prefix line w = push_text (diff_line prefix line) w"

text \<open>Pushes one text after the other and stops at the first one that is refused.\<close>

fun push_texts :: "string list \<Rightarrow> DiffWriter \<Rightarrow> bool \<times> DiffWriter" where
  "push_texts [] w = (True, w)"
| "push_texts (s # rest) w =
     (case push_text s w of (True, w') \<Rightarrow> push_texts rest w' | (False, w') \<Rightarrow> (False, w'))"

fun write_lines :: "char \<Rightarrow> TextLine list \<Rightarrow> DiffWriter \<Rightarrow> bool \<times> DiffWriter" where
  "write_lines prefix [] w = (True, w)"
| "write_lines prefix (line # rest) w =
     (case write_line prefix line w of (True, w') \<Rightarrow> write_lines prefix rest w' | (False, w') \<Rightarrow> (False, w'))"

definition common_lines :: "TextLine list \<Rightarrow> TextLine list \<Rightarrow> nat" where
  "common_lines xs ys = length (takeWhile (\<lambda>(l, r). tl_full l = tl_full r) (zip xs ys))"

definition header_lines :: "string \<Rightarrow> nat \<Rightarrow> nat \<Rightarrow> nat \<Rightarrow> string list" where
  "header_lines path prefix before_end after_end =
     (let safe_path = escape_text path in
      [''--- '' @ safe_path @ '' (before)'' @ [CHR 0x0A],
       ''+++ '' @ safe_path @ '' (after)'' @ [CHR 0x0A],
       ''@@ -'' @ decimal (prefix + 1) @ '','' @ decimal (before_end - prefix) @ '' +'' @
         decimal (prefix + 1) @ '','' @ decimal (after_end - prefix) @ '' @@'' @ [CHR 0x0A]])"

definition write_output :: "string \<Rightarrow> bytes \<Rightarrow> bytes \<Rightarrow> DiffWriter \<Rightarrow> FsError + (bool \<times> DiffWriter)" where
  "write_output path before after w =
     (let w = charge (saturating_add_u64 (min (length before) u64_max) (min (length after) u64_max)) w in
      if dw_truncation w \<noteq> None then Ok (False, w)
      else
        and_then (text_lines before) (\<lambda>before_lines.
        and_then (text_lines after) (\<lambda>after_lines.
        let prefix = common_lines before_lines after_lines;
            suffix = common_lines (rev (drop prefix before_lines)) (rev (drop prefix after_lines));
            before_end = length before_lines - suffix;
            after_end = length after_lines - suffix in
        Ok (case push_texts (header_lines path prefix before_end after_end) w of
              (False, w) \<Rightarrow> (False, w)
            | (True, w) \<Rightarrow>
                case write_lines (CHR ''-'') (slice before_lines prefix before_end) w of
                  (False, w) \<Rightarrow> (False, w)
                | (True, w) \<Rightarrow> write_lines (CHR ''+'') (slice after_lines prefix after_end) w))))"

definition diff_truncation_reason :: "DiffTruncation \<Rightarrow> nat \<Rightarrow> string" where
  "diff_truncation_reason truncation maximum_output_bytes =
     (if truncation = OutputTruncation \<and> maximum_output_bytes < DIFF_OUTPUT_BYTES
      then ''response_budget'' else ''diff_budget'')"

definition detailed_input_exceeded :: "nat \<Rightarrow> bool" where
  "detailed_input_exceeded n \<longleftrightarrow> DETAILED_DIFF_INPUT_BYTES < n"

definition is_binary :: "bytes \<Rightarrow> bool" where
  "is_binary bs \<longleftrightarrow> 0 \<in> set bs \<or> \<not> valid_utf8 bs"

section \<open>Base64 can be decoded\<close>

fun symbol_value :: "char \<Rightarrow> nat" where
  "symbol_value c = length (takeWhile (\<lambda>x. x \<noteq> c) ALPHABET)"

definition sextets :: "nat \<Rightarrow> nat \<Rightarrow> nat \<Rightarrow> nat \<Rightarrow> nat" where
  "sextets a b c d = ((a * 64 + b) * 64 + c) * 64 + d"

text \<open>The inverse that RFC 4648 defines, on padded groups of four characters.\<close>

fun base64_decode :: "string \<Rightarrow> bytes" where
  "base64_decode (a # b # c # d # rest) =
     (if d = CHR ''='' then
        if c = CHR ''='' then [of_nat (sextets (symbol_value a) (symbol_value b) 0 0 div 65536)]
        else
          let n = sextets (symbol_value a) (symbol_value b) (symbol_value c) 0 in
          [of_nat (n div 65536), of_nat (n div 256)]
      else
        let n = sextets (symbol_value a) (symbol_value b) (symbol_value c) (symbol_value d) in
        [of_nat (n div 65536), of_nat (n div 256), of_nat n] @ base64_decode rest)"
| "base64_decode _ = []"

lemma ALPHABET_values: "list_all (\<lambda>k. symbol_value (ALPHABET ! k) = k \<and> ALPHABET ! k \<noteq> CHR ''='') [0..<64]"
  by (simp add: ALPHABET_def upt_rec numeral_eq_Suc)

lemma symbol_value_at: "k < 64 \<Longrightarrow> symbol_value (ALPHABET ! k) = k" "k < 64 \<Longrightarrow> ALPHABET ! k \<noteq> CHR ''=''"
  using ALPHABET_values by (auto simp: list_all_iff simp del: symbol_value.simps)

declare symbol_value.simps [simp del]

lemma unat_and_mask:
  "unat (and (a :: u8) 0x03) = unat a mod 4" "unat (and (a :: u8) 0x0f) = unat a mod 16"
  "unat (and (a :: u8) 0x3f) = unat a mod 64"
proof -
  have "and a 0x03 = take_bit 2 a" "and a 0x0f = take_bit 4 a" "and a 0x3f = take_bit 6 a"
    by (simp_all add: take_bit_eq_mask mask_eq_exp_minus_1)
  then show "unat (and a 0x03) = unat a mod 4" "unat (and a 0x0f) = unat a mod 16" "unat (and a 0x3f) = unat a mod 64"
    by (simp_all add: take_bit_eq_mod unat_mod)
qed

lemma unat_push_bit: "unat (hi :: u8) * 2 ^ n < 256 \<Longrightarrow> unat (push_bit n hi) = unat hi * 2 ^ n"
  by (simp only: unsigned_push_bit_eq) (simp add: push_bit_eq_mult take_bit_eq_mod)

lemma unat_or_disjoint:
  fixes hi lo :: u8
  assumes "unat lo < 2 ^ n" "unat hi * 2 ^ n + unat lo < 256"
  shows "unat (or (push_bit n hi) lo) = unat hi * 2 ^ n + unat lo"
proof -
  have lo: "take_bit n lo = lo"
    using assms(1) by (metis take_bit_nat_eq_self unsigned_take_bit_eq word_unat_eq_iff)
  have "or (push_bit n hi) lo = push_bit n hi + lo"
  proof (rule disjunctive_add[symmetric])
    fix k
    have "bit lo k \<Longrightarrow> k < n" using lo by (metis bit_take_bit_iff)
    then show "\<not> bit (push_bit n hi) k \<or> \<not> bit lo k" by (auto simp: bit_push_bit_iff)
  qed
  then show ?thesis using assms by (simp add: unat_word_ariths unat_push_bit)
qed

lemma unat_drop: "unat (drop_bit n (b :: u8)) = unat b div 2 ^ n"
  by (simp only: unsigned_drop_bit_eq) (simp add: drop_bit_eq_div take_bit_eq_mod mod_less[OF unat_u8_lt])

lemma unat_sextets:
  fixes a b c :: u8
  shows "unat (drop_bit 2 a) = unat a div 4"
    and "unat (or (push_bit 4 (and a 0x03)) (drop_bit 4 b)) = unat a mod 4 * 16 + unat b div 16"
    and "unat (or (push_bit 2 (and b 0x0f)) (drop_bit 6 c)) = unat b mod 16 * 4 + unat c div 64"
    and "unat (and c 0x3f) = unat c mod 64"
    and "unat (push_bit 4 (and a 0x03)) = unat a mod 4 * 16"
    and "unat (push_bit 2 (and b 0x0f)) = unat b mod 16 * 4"
proof -
  have b: "unat b div 16 < 16" "unat c div 64 < 4" "unat a mod 4 < 4" "unat b mod 16 < 16"
    using unat_u8_lt[of b] unat_u8_lt[of c] by auto
  show "unat (drop_bit 2 a) = unat a div 4" by (simp add: unat_drop)
  show "unat (or (push_bit 4 (and a 0x03)) (drop_bit 4 b)) = unat a mod 4 * 16 + unat b div 16"
    using unat_or_disjoint[where n = 4 and lo = "drop_bit 4 b" and hi = "and a 0x03"] b by (simp add: unat_and_mask unat_drop)
  show "unat (or (push_bit 2 (and b 0x0f)) (drop_bit 6 c)) = unat b mod 16 * 4 + unat c div 64"
    using unat_or_disjoint[where n = 2 and lo = "drop_bit 6 c" and hi = "and b 0x0f"] b by (simp add: unat_and_mask unat_drop)
  show "unat (and c 0x3f) = unat c mod 64" by (rule unat_and_mask)
  show "unat (push_bit 4 (and a 0x03)) = unat a mod 4 * 16"
    using unat_push_bit[where n = 4 and hi = "and a 0x03"] b by (simp add: unat_and_mask)
  show "unat (push_bit 2 (and b 0x0f)) = unat b mod 16 * 4"
    using unat_push_bit[where n = 2 and hi = "and b 0x0f"] b by (simp add: unat_and_mask)
qed

lemma symbol_at_value:
  assumes "unat b < 64"
  shows "symbol_value (symbol_at b) = unat b \<and> symbol_at b \<noteq> CHR ''=''"
  using symbol_value_at[OF assms] by (simp add: symbol_at_def)

lemma sextet_bounds:
  fixes a b c :: u8
  shows "unat a div 4 < 64" "unat a mod 4 * 16 + unat b div 16 < 64"
    "unat b mod 16 * 4 + unat c div 64 < 64" "unat c mod 64 < 64" "unat a mod 4 * 16 < 64" "unat b mod 16 * 4 < 64"
  using unat_u8_lt[of a] unat_u8_lt[of b] unat_u8_lt[of c] by auto

lemma sextets_split:
  "sextets q (r * 16 + s) (t * 4 + u) v = (4 * q + r) * 65536 + (16 * s + t) * 256 + (64 * u + v)"
  by (simp add: sextets_def algebra_simps)

lemma three_bytes:
  "sextets (unat (a :: u8) div 4) (unat a mod 4 * 16 + unat (b :: u8) div 16)
     (unat b mod 16 * 4 + unat (c :: u8) div 64) (unat c mod 64) =
   unat a * 65536 + unat b * 256 + unat c"
  by (simp only: sextets_split mult_div_mod_eq)

lemma two_bytes:
  "sextets (unat (a :: u8) div 4) (unat a mod 4 * 16 + unat (b :: u8) div 16) (unat b mod 16 * 4) 0 =
   unat a * 65536 + unat b * 256"
  using sextets_split[of "unat a div 4" "unat a mod 4" "unat b div 16" "unat b mod 16" 0 0]
  by (simp only: mult_div_mod_eq mult_0_right add_0_right)

lemma one_byte: "sextets (unat (a :: u8) div 4) (unat a mod 4 * 16) 0 0 = unat a * 65536"
  using sextets_split[of "unat a div 4" "unat a mod 4" 0 0 0 0]
  by (simp only: mult_div_mod_eq mult_0_right add_0_right mult_0)

lemma high_byte: "(x :: nat) < m \<Longrightarrow> 0 < m \<Longrightarrow> (a * m + x) div m = a"
  by (simp only: div_mult_self3 div_less add_0_right)

lemma of_nat_low: "(of_nat (256 * k + unat (b :: u8)) :: u8) = b"
  by (simp add: word_unat_eq_iff unsigned_of_nat take_bit_eq_mod mod_less[OF unat_u8_lt] del: of_nat_add of_nat_mult)

lemma of_nat_bytes:
  fixes a b c :: u8
  shows "(of_nat ((unat a * 65536 + unat b * 256 + unat c) div 65536) :: u8) = a"
    and "(of_nat ((unat a * 65536 + unat b * 256 + unat c) div 256) :: u8) = b"
    and "(of_nat (unat a * 65536 + unat b * 256 + unat c) :: u8) = c"
proof -
  have lt: "unat b * 256 + unat c < 65536" "unat c < 256" using unat_u8_lt[of b] unat_u8_lt[of c] by linarith+
  have "(unat a * 65536 + unat b * 256 + unat c) div 65536 = unat a"
    using high_byte[OF lt(1), of "unat a"] by (simp only: add.assoc zero_less_numeral simp_thms)
  then show "(of_nat ((unat a * 65536 + unat b * 256 + unat c) div 65536) :: u8) = a"
    by (simp only: of_nat_unat ucast_id)
  have "unat a * 65536 + unat b * 256 + unat c = (256 * unat a + unat b) * 256 + unat c" by (simp add: algebra_simps)
  then have "(unat a * 65536 + unat b * 256 + unat c) div 256 = 256 * unat a + unat b"
    using high_byte[OF lt(2), of "256 * unat a + unat b"] by (simp only: zero_less_numeral simp_thms)
  then show "(of_nat ((unat a * 65536 + unat b * 256 + unat c) div 256) :: u8) = b" by (simp only: of_nat_low)
  have "unat a * 65536 + unat b * 256 + unat c = 256 * (unat a * 256 + unat b) + unat c" by (simp add: algebra_simps)
  then show "(of_nat (unat a * 65536 + unat b * 256 + unat c) :: u8) = c" by (simp only: of_nat_low)
qed

lemma symbols_of_bytes:
  fixes a b c :: u8
  shows "symbol_value (symbol_at (drop_bit 2 a)) = unat a div 4"
    and "symbol_value (symbol_at (or (push_bit 4 (and a 0x03)) (drop_bit 4 b))) = unat a mod 4 * 16 + unat b div 16"
    and "symbol_value (symbol_at (or (push_bit 2 (and b 0x0f)) (drop_bit 6 c))) = unat b mod 16 * 4 + unat c div 64"
    and "symbol_value (symbol_at (and c 0x3f)) = unat c mod 64"
    and "symbol_value (symbol_at (push_bit 4 (and a 0x03))) = unat a mod 4 * 16"
    and "symbol_value (symbol_at (push_bit 2 (and b 0x0f))) = unat b mod 16 * 4"
    and "symbol_at (and c 0x3f) \<noteq> CHR ''=''"
    and "symbol_at (push_bit 2 (and b 0x0f)) \<noteq> CHR ''=''"
  using symbol_at_value[of "drop_bit 2 a"] symbol_at_value[of "or (push_bit 4 (and a 0x03)) (drop_bit 4 b)"]
    symbol_at_value[of "or (push_bit 2 (and b 0x0f)) (drop_bit 6 c)"] symbol_at_value[of "and c 0x3f"]
    symbol_at_value[of "push_bit 4 (and a 0x03)"] symbol_at_value[of "push_bit 2 (and b 0x0f)"]
  by (simp_all only: unat_sextets sextet_bounds simp_thms)

lemma base64_roundtrip: "base64_decode (base64_encode bs) = bs"
proof (induction bs rule: base64_encode.induct)
  case 1
  show ?case by simp
next
  case (2 first)
  show ?case
    using of_nat_bytes(1)[of first 0 0]
    by (simp only: base64_encode.simps base64_decode.simps symbols_of_bytes one_byte if_True refl) simp
next
  case (3 first second)
  show ?case
    using of_nat_bytes(1,2)[of first second 0]
    by (simp only: base64_encode.simps base64_decode.simps symbols_of_bytes two_bytes if_True if_False refl Let_def
        unsigned_0 add_0_right)
next
  case (4 first second third rest)
  show ?case
    by (simp only: base64_encode.simps base64_decode.simps symbols_of_bytes three_bytes if_False refl Let_def
        of_nat_bytes append_Cons append_Nil 4)
qed

lemma base64_length: "length (base64_encode bs) = 4 * ((length bs + 2) div 3)"
proof (induction bs rule: base64_encode.induct)
  case (4 first second third rest)
  have "(length (first # second # third # rest) + 2) div 3 = Suc ((length rest + 2) div 3)" by simp
  then show ?case using 4 by simp
qed auto
section \<open>Chunks and samples\<close>

lemma materialize_output_Ok:
  "materialize_output out files = Ok bs \<longleftrightarrow>
     (\<exists>chunks. visit_output_chunks out files = Ok chunks \<and> bs = concat chunks \<and> length bs = po_resulting_length out)"
  by (auto simp: materialize_output_def Let_def)

lemma SAMPLE_BYTES_pos: "Suc 0 - SAMPLE_BYTES = 0" by (simp add: SAMPLE_BYTES_def)

lemma push_tail_last: "length queue \<le> SAMPLE_BYTES \<Longrightarrow>
    foldl push_tail queue chunk = drop (length queue + length chunk - SAMPLE_BYTES) (queue @ chunk)"
proof (induction chunk arbitrary: queue)
  case (Cons b chunk)
  let ?queue = "push_tail queue b"
  have l: "length ?queue = min (length queue + 1) SAMPLE_BYTES" "length ?queue \<le> SAMPLE_BYTES"
    using Cons.prems by (auto simp: push_tail_def SAMPLE_BYTES_def)
  have q: "?queue = drop (length queue + 1 - SAMPLE_BYTES) (queue @ [b])"
    using Cons.prems by (cases "length queue = SAMPLE_BYTES") (auto simp: push_tail_def drop_Suc SAMPLE_BYTES_def)
  have "foldl push_tail queue (b # chunk) = drop (length ?queue + length chunk - SAMPLE_BYTES) (?queue @ chunk)"
    using Cons.IH[OF l(2)] by simp
  also have "?queue @ chunk = drop (length queue + 1 - SAMPLE_BYTES) (queue @ b # chunk)"
    using q Cons.prems SAMPLE_BYTES_pos by (cases "length queue = SAMPLE_BYTES") auto
  finally show ?case using l Cons.prems by (cases "length queue = SAMPLE_BYTES") (auto simp: SAMPLE_BYTES_def)
qed simp

lemma drop_prefix_last:
  "drop (length (drop k xs) + length ys - n) (drop k xs @ ys) = drop (length (xs @ ys) - n) (xs @ ys)"
  if "k \<le> length xs" "k = length xs - n"
  using that by (cases "length xs \<le> n") (auto simp: add.commute)

lemma sample_chunks:
  "foldl sample_chunk (take SAMPLE_BYTES seen, drop (length seen - SAMPLE_BYTES) seen) chunks =
     (take SAMPLE_BYTES (seen @ concat chunks), drop (length (seen @ concat chunks) - SAMPLE_BYTES) (seen @ concat chunks))"
proof (induction chunks arbitrary: seen)
  case (Cons chunk chunks)
  have head: "take SAMPLE_BYTES seen @ take (min (length chunk) (SAMPLE_BYTES - length (take SAMPLE_BYTES seen))) chunk =
      take SAMPLE_BYTES (seen @ chunk)"
    by (cases "length seen \<le> SAMPLE_BYTES") (auto simp: min_def)
  have "length (drop (length seen - SAMPLE_BYTES) seen) \<le> SAMPLE_BYTES" by simp
  then have tail: "foldl push_tail (drop (length seen - SAMPLE_BYTES) seen) chunk =
      drop (length (seen @ chunk) - SAMPLE_BYTES) (seen @ chunk)"
    using push_tail_last drop_prefix_last[of "length seen - SAMPLE_BYTES" seen SAMPLE_BYTES chunk] by simp
  have "sample_chunk (take SAMPLE_BYTES seen, drop (length seen - SAMPLE_BYTES) seen) chunk =
      (take SAMPLE_BYTES (seen @ chunk), drop (length (seen @ chunk) - SAMPLE_BYTES) (seen @ chunk))"
    using head tail by (simp add: sample_chunk_def Let_def)
  then show ?case using Cons.IH[of "seen @ chunk"] by simp
qed simp

lemma samples_of_chunks:
  "visit_output_chunks out files = Ok chunks \<Longrightarrow> samples_for_output out files = Ok (samples_for_bytes (concat chunks))"
  using sample_chunks[of "[]" chunks]
  by (auto simp: samples_for_output_def samples_for_bytes_def Let_def slice_def min_def)

section \<open>Lines of a text\<close>

definition terminator_bytes :: "string \<Rightarrow> bytes" where
  "terminator_bytes t =
     (if t = ''LF'' then [LF] else if t = ''CRLF'' then [CR, LF] else if t = ''CR'' then [CR] else [])"

text \<open>A line is its content and its terminator, without a terminator inside; only the last line has none.\<close>

definition proper_line :: "TextLine \<Rightarrow> bool" where
  "proper_line line \<longleftrightarrow>
     tl_full line = tl_content line @ terminator_bytes (tl_terminator line) \<and>
     list_all (\<lambda>b. \<not> is_terminator_byte b) (tl_content line) \<and>
     tl_terminator line \<in> {''LF'', ''CRLF'', ''CR'', ''NONE''} \<and>
     (tl_terminator line = ''NONE'' \<longrightarrow> tl_content line \<noteq> [])"

lemma slice_split: "i \<le> j \<Longrightarrow> j \<le> k \<Longrightarrow> slice xs i k = slice xs i j @ slice xs j k"
  using take_add[of "j - i" "k - j" "drop i xs"] by (simp add: slice_def)

lemma slice_singleton: "i < length xs \<Longrightarrow> slice xs i (Suc i) = [xs ! i]"
  by (simp add: slice_def take_Suc hd_drop_conv_nth)

lemma slice_two: "Suc i < length xs \<Longrightarrow> slice xs i (Suc (Suc i)) = [xs ! i, xs ! Suc i]"
  using slice_split[of i "Suc i" "Suc (Suc i)" xs] by (simp add: slice_singleton)

lemma text_lines_from_spec:
  assumes "start \<le> offset" "offset \<le> length bs"
    and "list_all (\<lambda>b. \<not> is_terminator_byte b) (slice bs start offset)"
  shows "concat (map tl_full (text_lines_from bs start offset)) = drop start bs \<and>
    list_all proper_line (text_lines_from bs start offset) \<and>
    list_all (\<lambda>line. tl_terminator line \<noteq> ''NONE'') (butlast (text_lines_from bs start offset))"
  using assms
proof (induction bs start offset rule: text_lines_from.induct)
  case (1 bs start offset)
  show ?case
  proof (cases "offset < length bs")
    case inside: True
    show ?thesis
    proof (cases "line_break bs offset")
      case None
      have "slice bs start (offset + 1) = slice bs start offset @ [bs ! offset]"
        using inside 1(3) by (simp add: slice_split[of start offset "Suc offset"] slice_singleton)
      moreover have "\<not> is_terminator_byte (bs ! offset)"
        using None by (auto simp: line_break_def is_terminator_byte_def split: if_splits)
      ultimately show ?thesis
        using 1(1)[OF inside None] 1(3-5) inside None by (subst (1 2 3) text_lines_from.simps) simp
    next
      case (Some b)
      obtain e content_end t where b: "b = (e, content_end, t)" by (metis prod_cases3)
      let ?line = "\<lparr>tl_full = slice bs start e, tl_content = slice bs start content_end, tl_terminator = t\<rparr>"
      have e: "offset < e" "e \<le> length bs" using line_break_progress[of bs offset] Some b inside by auto
      have ih: "concat (map tl_full (text_lines_from bs e e)) = drop e bs \<and>
          list_all proper_line (text_lines_from bs e e) \<and>
          list_all (\<lambda>line. tl_terminator line \<noteq> ''NONE'') (butlast (text_lines_from bs e e))"
        using 1(2)[OF inside Some b[symmetric] refl] e by simp
      have c: "content_end = offset" "t \<in> {''LF'', ''CRLF'', ''CR''}" "slice bs offset e = terminator_bytes t"
        using Some b inside
        by (auto simp: line_break_def terminator_bytes_def slice_singleton slice_two split: if_splits)
      have "slice bs start e = slice bs start offset @ terminator_bytes t"
        using c(3) 1(3) e slice_split[of start offset e bs] by simp
      then have "proper_line ?line" using c(1,2) 1(5) by (auto simp: proper_line_def)
      moreover have "slice bs start e @ drop e bs = drop start bs"
        using e 1(3) slice_split[of start e "length bs" bs] by (simp add: slice_def)
      moreover have "text_lines_from bs start offset = ?line # text_lines_from bs e e"
        using inside Some b by (subst text_lines_from.simps) simp
      ultimately show ?thesis using ih c by auto
    qed
  next
    case False
    then have "offset = length bs" using 1(4) by simp
    then show ?thesis
      using 1(3,5) by (subst (1 2 3) text_lines_from.simps) (auto simp: proper_line_def terminator_bytes_def slice_def)
  qed
qed

lemma text_lines_spec:
  assumes "text_lines bs = Ok ls"
  shows "concat (map tl_full ls) = bs" "list_all proper_line ls"
    "list_all (\<lambda>line. tl_terminator line \<noteq> ''NONE'') (butlast ls)"
  using assms text_lines_from_spec[of 0 0 bs] by (auto simp: text_lines_def slice_def split: if_splits)
section \<open>The bounded writer\<close>

text \<open>What holds of every writer that a preview uses.\<close>

definition writer_ok :: "DiffWriter \<Rightarrow> bool" where
  "writer_ok w \<longleftrightarrow>
     dw_encoded_bytes w = json_string_content_bytes (dw_text w) \<and>
     dw_encoded_bytes w \<le> dw_maximum_output_bytes w \<and>
     dw_maximum_output_bytes w < u64_max \<and>
     (dw_truncation w = None \<longrightarrow> dw_work_units w \<le> DIFF_WORK_UNITS)"

lemma json_string_content_bytes_append [simp]:
  "json_string_content_bytes (s @ t) = json_string_content_bytes s + json_string_content_bytes t"
  "json_string_content_bytes [] = 0"
  by (simp_all add: json_string_content_bytes_def)

lemma length_le_encoded: "length s \<le> json_string_content_bytes s"
proof (induction s)
  case (Cons c s)
  have "1 \<le> json_byte_width c" by (simp add: json_byte_width_def Let_def)
  then show ?case using Cons by (simp add: json_string_content_bytes_def)
qed simp

lemma charge_fields [simp]:
  "dw_text (charge u w) = dw_text w" "dw_encoded_bytes (charge u w) = dw_encoded_bytes w"
  "dw_maximum_output_bytes (charge u w) = dw_maximum_output_bytes w"
  by (simp_all add: charge_def Let_def)

lemma charge_truncation: "dw_truncation w \<noteq> None \<Longrightarrow> dw_truncation (charge u w) = dw_truncation w"
  by (auto simp: charge_def Let_def)

lemma charge_ok: "writer_ok w \<Longrightarrow> writer_ok (charge u w)"
  by (auto simp: charge_def writer_ok_def Let_def not_less)

lemma push_text_cases:
  assumes "push_text s w = (ok, w')" "writer_ok w"
  shows "writer_ok w' \<and> dw_maximum_output_bytes w' = dw_maximum_output_bytes w \<and>
    (if ok then dw_text w' = dw_text w @ s \<and> dw_truncation w = None \<and> dw_truncation w' = None
     else dw_text w' = dw_text w \<and> dw_truncation w' \<noteq> None)"
proof -
  have c: "writer_ok (charge (length s) w)" by (rule charge_ok[OF assms(2)])
  show ?thesis
  proof (cases ok)
    case True
    then have "dw_truncation (charge (length s) w) = None"
      "dw_encoded_bytes w + json_string_content_bytes s \<le> dw_maximum_output_bytes w"
      "w' = (charge (length s) w)\<lparr>dw_text := dw_text w @ s,
        dw_encoded_bytes := dw_encoded_bytes w + json_string_content_bytes s\<rparr>"
      using assms by (auto simp: push_text_def Let_def saturating_add_u64_def writer_ok_def split: if_splits)
    moreover have "dw_truncation w = None" using calculation(1) charge_truncation by fastforce
    ultimately show ?thesis using True c by (auto simp: writer_ok_def)
  next
    case False
    then have "w' = (if dw_truncation (charge (length s) w) = None
        then (charge (length s) w)\<lparr>dw_truncation := Some OutputTruncation\<rparr> else charge (length s) w)"
      using assms(1) by (auto simp: push_text_def Let_def split: if_splits)
    then show ?thesis using False c by (auto simp: writer_ok_def)
  qed
qed

lemma push_texts_cases:
  assumes "push_texts ss w = (ok, w')" "writer_ok w"
  shows "writer_ok w' \<and> dw_maximum_output_bytes w' = dw_maximum_output_bytes w \<and>
    (if ok then dw_text w' = dw_text w @ concat ss \<and> (dw_truncation w = None \<longrightarrow> dw_truncation w' = None)
     else dw_truncation w' \<noteq> None \<and> (\<exists>k < length ss. dw_text w' = dw_text w @ concat (take k ss)))"
  using assms
proof (induction ss arbitrary: w)
  case (Cons s ss)
  obtain ok1 w1 where p: "push_text s w = (ok1, w1)" by fastforce
  note one = push_text_cases[OF p Cons.prems(2)]
  show ?case
  proof (cases ok1)
    case True
    then have run: "push_texts ss w1 = (ok, w')" using Cons.prems(1) p by simp
    note rest = Cons.IH[OF run]
    show ?thesis
    proof (cases ok)
      case True
      then show ?thesis using one rest \<open>ok1\<close> by auto
    next
      case False
      then obtain k where "k < length ss" "dw_text w' = dw_text w1 @ concat (take k ss)"
        using rest one by auto
      then have "Suc k < length (s # ss) \<and> dw_text w' = dw_text w @ concat (take (Suc k) (s # ss))"
        using one \<open>ok1\<close> by simp
      then show ?thesis using False rest one by auto
    qed
  next
    case False
    then have "ok = False" "w' = w1" using Cons.prems(1) p by simp_all
    then show ?thesis using one False by (auto intro: exI[of _ 0])
  qed
qed simp

lemma push_texts_append:
  "push_texts (ss @ ts) w = (case push_texts ss w of (True, w') \<Rightarrow> push_texts ts w' | (False, w') \<Rightarrow> (False, w'))"
  by (induction ss arbitrary: w) (auto split: prod.splits bool.splits)

lemma write_lines_push: "write_lines c ls w = push_texts (map (diff_line c) ls) w"
  by (induction ls arbitrary: w) (auto simp: write_line_def split: prod.splits bool.splits)

text \<open>The whole text of one changed output.\<close>

definition hunk :: "string \<Rightarrow> TextLine list \<Rightarrow> TextLine list \<Rightarrow> TextLine list \<Rightarrow> string list" where
  "hunk path shared removed added =
     header_lines path (length shared) (length shared + length removed) (length shared + length added) @
     map (diff_line (CHR ''-'')) removed @ map (diff_line (CHR ''+'')) added"

lemma common_lines_le: "common_lines xs ys \<le> length xs" "common_lines xs ys \<le> length ys"
  using length_takeWhile_le[of "\<lambda>(l, r). tl_full l = tl_full r" "zip xs ys"] by (simp_all add: common_lines_def)

lemma common_lines_take:
  "map tl_full (take (common_lines xs ys) xs) = map tl_full (take (common_lines xs ys) ys)"
proof (rule nth_equalityI)
  show "length (map tl_full (take (common_lines xs ys) xs)) = length (map tl_full (take (common_lines xs ys) ys))"
    using common_lines_le[of xs ys] by simp
next
  fix i
  assume "i < length (map tl_full (take (common_lines xs ys) xs))"
  then have i: "i < common_lines xs ys" by simp
  then have "takeWhile (\<lambda>(l, r). tl_full l = tl_full r) (zip xs ys) ! i \<in> set (takeWhile (\<lambda>(l, r). tl_full l = tl_full r) (zip xs ys))"
    by (simp add: common_lines_def)
  then have "tl_full (xs ! i) = tl_full (ys ! i)"
    using i common_lines_le[of xs ys] by (auto simp: common_lines_def takeWhile_nth dest!: set_takeWhileD)
  then show "map tl_full (take (common_lines xs ys) xs) ! i = map tl_full (take (common_lines xs ys) ys) ! i"
    using i common_lines_le[of xs ys] by simp
qed

lemma common_lines_maximal:
  assumes "common_lines xs ys < length xs" "common_lines xs ys < length ys"
  shows "tl_full (xs ! common_lines xs ys) \<noteq> tl_full (ys ! common_lines xs ys)"
  using nth_length_takeWhile[of "\<lambda>(l, r). tl_full l = tl_full r" "zip xs ys"] assms
  by (simp add: common_lines_def)
text \<open>The common lines, the replaced lines and the common rest of two texts.\<close>

lemma slice_cut:
  assumes "p \<le> m"
  shows "zs = take p zs @ slice zs p m @ drop m zs"
proof -
  obtain k where k: "m = p + k" using assms le_Suc_ex by blast
  have "drop p zs = slice zs p m @ drop m zs"
    using append_take_drop_id[of k "drop p zs"] unfolding k by (simp add: slice_def add.commute)
  then have "take p zs @ drop p zs = take p zs @ slice zs p m @ drop m zs" by (rule arg_cong)
  then show ?thesis by (simp only: append_take_drop_id)
qed

lemma drop_common_rest:
  assumes "map f (take s (rev xs)) = map f (take s (rev ys))" "s \<le> length xs" "s \<le> length ys"
  shows "map f (drop (length xs - s) xs) = map f (drop (length ys - s) ys)"
proof -
  have "rev (map f (take s (rev xs))) = rev (map f (take s (rev ys)))" using assms(1) by (rule arg_cong)
  then show ?thesis by (simp add: take_rev rev_map)
qed

lemma diff_split:
  fixes xs ys :: "TextLine list"
  defines "p \<equiv> common_lines xs ys"
  defines "s \<equiv> common_lines (rev (drop p xs)) (rev (drop p ys))"
  defines "removed \<equiv> slice xs p (length xs - s)" and "added \<equiv> slice ys p (length ys - s)"
  shows "xs = take p xs @ removed @ drop (length xs - s) xs"
    and "map tl_full ys = map tl_full (take p xs @ added @ drop (length xs - s) xs)"
    and "length (take p xs) = p" "p + length removed = length xs - s" "p + length added = length ys - s"
    and "removed \<noteq> [] \<Longrightarrow> added \<noteq> [] \<Longrightarrow>
      tl_full (hd removed) \<noteq> tl_full (hd added) \<and> tl_full (last removed) \<noteq> tl_full (last added)"
proof -
  have p: "p \<le> length xs" "p \<le> length ys" using common_lines_le[of xs ys] by (simp_all add: p_def)
  have s: "s \<le> length xs - p" "s \<le> length ys - p"
    using common_lines_le[of "rev (drop p xs)" "rev (drop p ys)"] by (simp_all add: s_def)
  show "xs = take p xs @ removed @ drop (length xs - s) xs"
    unfolding removed_def by (rule slice_cut) (use p s in linarith)
  have front: "map tl_full (take p ys) = map tl_full (take p xs)"
    using common_lines_take[of xs ys, symmetric] by (simp only: p_def)
  have "map tl_full (take s (rev (drop p ys))) = map tl_full (take s (rev (drop p xs)))"
    using common_lines_take[of "rev (drop p xs)" "rev (drop p ys)", symmetric] by (simp only: s_def)
  then have "map tl_full (drop (length (drop p ys) - s) (drop p ys)) = map tl_full (drop (length (drop p xs) - s) (drop p xs))"
    using s by (intro drop_common_rest) simp_all
  then have behind: "map tl_full (drop (length ys - s) ys) = map tl_full (drop (length xs - s) xs)"
    using p s by simp
  have "map tl_full ys = map tl_full (take p ys @ added @ drop (length ys - s) ys)"
    unfolding added_def by (rule arg_cong[where f = "map tl_full"], rule slice_cut) (use p s in linarith)
  then show "map tl_full ys = map tl_full (take p xs @ added @ drop (length xs - s) xs)"
    by (simp only: map_append front behind)
  show "length (take p xs) = p" "p + length removed = length xs - s" "p + length added = length ys - s"
    using p s by (simp_all add: removed_def added_def)
  show "tl_full (hd removed) \<noteq> tl_full (hd added) \<and> tl_full (last removed) \<noteq> tl_full (last added)"
    if ne: "removed \<noteq> []" "added \<noteq> []"
  proof -
    have lt: "p < length xs - s" "p < length ys - s"
      using ne slice_empty by (auto simp: removed_def added_def not_le[symmetric])
    have "hd removed = xs ! p" "hd added = ys ! p"
      using lt by (simp_all add: removed_def added_def slice_conv_nth hd_map)
    moreover have "tl_full (xs ! p) \<noteq> tl_full (ys ! p)"
      using common_lines_maximal[of xs ys] lt by (simp add: p_def)
    moreover have "last removed = rev (drop p xs) ! s" "last added = rev (drop p ys) ! s"
      using lt p by (simp_all add: removed_def added_def slice_conv_nth last_map rev_nth)
    moreover have "tl_full (rev (drop p xs) ! s) \<noteq> tl_full (rev (drop p ys) ! s)"
      using common_lines_maximal[of "rev (drop p xs)" "rev (drop p ys)"] lt by (simp add: s_def)
    ultimately show ?thesis by simp
  qed
qed

lemma write_output_hunk:
  fixes path :: string
  assumes "valid_utf8 before" "valid_utf8 after" "writer_ok w" "dw_truncation w = None"
  defines "bl \<equiv> text_lines_from before 0 0" and "al \<equiv> text_lines_from after 0 0"
  defines "p \<equiv> common_lines bl al"
  defines "s \<equiv> common_lines (rev (drop p bl)) (rev (drop p al))"
  defines "h \<equiv> hunk path (take p bl) (slice bl p (length bl - s)) (slice al p (length al - s))"
  obtains ok w' where "write_output path before after w = Ok (ok, w')" "writer_ok w'"
    "dw_maximum_output_bytes w' = dw_maximum_output_bytes w"
    "if ok then dw_text w' = dw_text w @ concat h \<and> dw_truncation w' = None
     else dw_truncation w' \<noteq> None \<and> (\<exists>k < length h. dw_text w' = dw_text w @ concat (take k h))"
proof -
  let ?w = "charge (saturating_add_u64 (min (length before) u64_max) (min (length after) u64_max)) w"
  have ok: "writer_ok ?w" by (rule charge_ok[OF assms(3)])
  have tl: "text_lines before = Ok bl" "text_lines after = Ok al"
    using assms(1,2) by (simp_all add: text_lines_def bl_def al_def)
  note cut = diff_split[where xs = bl and ys = al, folded p_def, folded s_def]
  show ?thesis
  proof (cases "dw_truncation ?w = None")
    case False
    have "write_output path before after w = Ok (False, ?w)" using False by (simp add: write_output_def Let_def)
    moreover have "\<exists>k < length h. dw_text ?w = dw_text w @ concat (take k h)"
      by (rule exI[of _ 0]) (simp add: h_def hunk_def header_lines_def Let_def)
    ultimately show ?thesis using that[of False ?w] ok False by simp
  next
    case True
    obtain finished w' where run: "push_texts h ?w = (finished, w')" by fastforce
    have "h = header_lines path p (length bl - s) (length al - s) @
        map (diff_line (CHR ''-'')) (slice bl p (length bl - s)) @ map (diff_line (CHR ''+'')) (slice al p (length al - s))"
      using cut(3-5) by (simp add: h_def hunk_def)
    then have "write_output path before after w = Ok (push_texts h ?w)"
      using True tl
      by (simp add: write_output_def Let_def write_lines_push push_texts_append p_def s_def split: prod.splits bool.splits)
    then show ?thesis
      using that[of finished w'] run push_texts_cases[OF run ok] True by (cases finished) auto
  qed
qed

section \<open>Properties\<close>



text \<open>
  The samples of a binary summary are the ends of the content. Streaming over the chunks of
  an output encodes the same samples as the whole output would, and decoding them gives its first and
  its last 48 bytes, or all of them when it is shorter.
\<close>

theorem samples_are_the_ends:
  assumes "materialize_output out files = Ok bs"
  shows "samples_for_output out files = Ok (samples_for_bytes bs) \<and>
    base64_decode (head_base64 (samples_for_bytes bs)) = take 48 bs \<and>
    base64_decode (tail_base64 (samples_for_bytes bs)) = drop (length bs - 48) bs \<and>
    length (head_base64 (samples_for_bytes bs)) \<le> 64 \<and> length (tail_base64 (samples_for_bytes bs)) \<le> 64"
proof -
  have "samples_for_output out files = Ok (samples_for_bytes bs)"
    using assms samples_of_chunks by (auto simp: materialize_output_Ok)
  moreover have "Suc (Suc n) div 3 \<le> 16" if "n \<le> 48" for n using that by presburger
  ultimately show ?thesis
    by (auto simp: samples_for_bytes_def Let_def base64_roundtrip base64_length SAMPLE_BYTES_def slice_def min_def)
qed

definition two_bytes_file :: FileSnapshot where
  "two_bytes_file =
     \<lparr>fs_id = 0, fs_path = WorkspaceRelativePath ''a'', fs_parent_identity = \<lparr>fi_device = 0, fi_inode = 1\<rparr>,
      fs_parent_identities = [], fs_identity = \<lparr>fi_device = 0, fi_inode = 2\<rparr>, fs_link_count = 1,
      fs_bytes = [0, 255], fs_digest = [], fs_line_index = \<lparr>boundaries = [2]\<rparr>\<rparr>"

lemma samples_are_the_ends_witness:
  "\<exists>s. samples_for_output
      \<lparr>po_path = WorkspaceRelativePath ''b'', po_original_digest = None, po_change = CreatedNew,
       po_resulting_length = 2, po_resulting_digest = [],
       po_segments = [PayloadSlice 0 0 \<lparr>range_start = 0, range_end = 2\<rparr> []]\<rparr> [0 \<mapsto> two_bytes_file] = Ok s \<and>
     base64_decode (head_base64 s) = [0, 255]"
proof -
  let ?out = "\<lparr>po_path = WorkspaceRelativePath ''b'', po_original_digest = None, po_change = CreatedNew,
    po_resulting_length = 2, po_resulting_digest = [],
    po_segments = [PayloadSlice 0 0 \<lparr>range_start = 0, range_end = 2\<rparr> []]\<rparr>"
  have "materialize_output ?out [0 \<mapsto> two_bytes_file] = Ok [0, 255]"
    by (simp add: materialize_output_def visit_output_chunks_def output_chunk_def two_bytes_file_def
        get_slice_def slice_def)
  from samples_are_the_ends[OF this] show ?thesis by simp
qed

end
