(* ===== verification/Preview.thy ===== *)
theory Preview
  imports Diff Control
begin

text \<open>
  The preview of a plan (\<open>crates/srcmv-cli/src/preview.rs\<close>): the review summary, the summaries and
  the diff under the response budget, and the human report. Parameters, collected in \<open>Printer\<close>, are
  what \<open>serde_json\<close> makes of values: the \<open>Value\<close> of a review, the text of a \<open>Value\<close> and the writes of
  a preview response. The length of a serialized line is the one that \<open>to_json_line\<close> returns.
\<close>

record Printer =
  pn_review_value :: "ReviewSummaryResponse \<Rightarrow> Value option"
  pn_value_text :: "Value \<Rightarrow> string"
  pn_preview :: "PreviewResponse \<Rightarrow> Serialization"

section \<open>The review summary\<close>

definition core_result :: "CoreError + 'a \<Rightarrow> FsError + 'a" where
  "core_result r = map_err Core r"

record ReviewState =
  re_metrics :: LineMetrics
  re_groups :: "(nat \<times> nat list) list"

text \<open>The last group takes the operation when it has its offset.\<close>

definition add_to_group :: "nat \<Rightarrow> nat \<Rightarrow> (nat \<times> nat list) list \<Rightarrow> (nat \<times> nat list) list" where
  "add_to_group offset index groups =
     (if groups \<noteq> [] \<and> fst (last groups) = offset
      then butlast groups @ [(offset, snd (last groups) @ [index])]
      else groups @ [(offset, [index])])"

definition review_segment ::
    "EditPlan \<Rightarrow> PlannedOutput \<Rightarrow> FilesById \<Rightarrow> ReviewState \<Rightarrow> OutputSegment \<Rightarrow> FsError + ReviewState" where
  "review_segment p out files st segment =
     (case segment_source segment of (file_id, rng) \<Rightarrow>
        and_then (ok_or (files file_id) (InternalInvariant ''review_segment_snapshot_file'')) (\<lambda>file.
        and_then (core_result (metrics_for_range (fs_line_index file) (fs_bytes file) rng)) (\<lambda>segment_metrics.
        and_then (core_result (try_append (re_metrics st) segment_metrics)) (\<lambda>after_metrics.
        let st = st\<lparr>re_metrics := after_metrics\<rparr> in
        case segment of
          OriginalSlice _ _ \<Rightarrow> Ok st
        | PayloadSlice operation_index _ _ _ \<Rightarrow>
            and_then (ok_or (get_nth (ep_operations p) operation_index)
              (InternalInvariant ''review_segment_operation_index'')) (\<lambda>operation.
            if ro_operation_index operation \<noteq> operation_index \<or> ro_effect operation \<noteq> Changed \<or>
               ro_destination_path operation \<noteq> po_path out
            then Err (InternalInvariant ''review_effectful_insertion'')
            else Ok (st\<lparr>re_groups := add_to_group (ro_destination_offset operation) operation_index (re_groups st)\<rparr>))))))"

definition build_review_output ::
    "nat \<Rightarrow> PlannedOutput \<Rightarrow> WorkspaceSnapshot \<Rightarrow> EditPlan \<Rightarrow> FilesById \<Rightarrow> FsError + ReviewOutputResponse" where
  "build_review_output output_index out snapshot p files =
     (let before_logical_line_count =
            map_option (\<lambda>file. index_line_count (fs_line_index file))
              (List.find (\<lambda>file. path_value (fs_path file) = path_value (po_path out)) (ws_files snapshot)) in
      and_then (try_fold (review_segment p out files) \<lparr>re_metrics = default_line_metrics, re_groups = []\<rparr> (po_segments out))
        (\<lambda>st.
      if lm_byte_count (re_metrics st) \<noteq> po_resulting_length out
      then Err (InternalInvariant ''review_output_recipe_length'')
      else
        Ok \<lparr>vu_output_index = output_index, vu_before_logical_line_count = before_logical_line_count,
            vu_after_logical_line_count = metrics_line_count (re_metrics st),
            vu_insertion_groups_in_output_order =
              map (\<lambda>(offset, indices). \<lparr>ig_destination_offset = offset, ig_operation_indices = indices\<rparr>) (re_groups st)\<rparr>))"

definition snapshot_file_for_path :: "WorkspaceSnapshot \<Rightarrow> string \<Rightarrow> FsError + FileSnapshot" where
  "snapshot_file_for_path snapshot path =
     ok_or (List.find (\<lambda>file. path_value (fs_path file) = path) (ws_files snapshot))
       (InternalInvariant ''review_operation_source_file'')"

definition review_operation :: "WorkspaceSnapshot \<Rightarrow> ResolvedOperation \<Rightarrow> FsError + ReviewOperationResponse" where
  "review_operation snapshot operation =
     and_then (snapshot_file_for_path snapshot (path_value (ro_source_path operation))) (\<lambda>source.
     and_then (core_result (metrics_for_range (fs_line_index source) (fs_bytes source) (ro_source_range operation))) (\<lambda>metrics.
     Ok \<lparr>vo_operation_index = ro_operation_index operation, vo_selected_byte_length = lm_byte_count metrics,
         vo_selected_logical_line_count = metrics_line_count metrics\<rparr>))"

definition build_review_summary :: "WorkspaceSnapshot \<Rightarrow> EditPlan \<Rightarrow> FilesById \<Rightarrow> FsError + ReviewSummaryResponse" where
  "build_review_summary snapshot p files =
     and_then (try_map (review_operation snapshot) (ep_operations p)) (\<lambda>operations.
     and_then (try_map (\<lambda>(output_index, out). build_review_output output_index out snapshot p files)
       (enumerate 0 (ep_outputs p))) (\<lambda>outputs.
     Ok (review_summary_v1 (ep_digest p) operations outputs)))"

section \<open>Summaries\<close>

definition samples_value :: "EncodedSamples \<Rightarrow> Value" where
  "samples_value s =
     Object (context_entries [(''head_base64'', String (head_base64 s)), (''tail_base64'', String (tail_base64 s))])"

definition optional_value :: "('a \<Rightarrow> Value) \<Rightarrow> 'a option \<Rightarrow> Value" where
  "optional_value f x = (case x of None \<Rightarrow> Null | Some a \<Rightarrow> f a)"

definition summary_entry :: "WorkspaceSnapshot \<Rightarrow> PlannedOutput \<Rightarrow> FilesById \<Rightarrow> FsError + Value" where
  "summary_entry snapshot out files =
     (let before = before_bytes snapshot (path_value (po_path out));
          before_samples = map_option samples_for_bytes before in
      and_then (samples_for_output out files) (\<lambda>after_samples.
      Ok (Object (context_entries
        [(''path'', String (path_value (po_path out))),
         (''before_length'', optional_value (\<lambda>bs. json_nat (length bs)) before),
         (''before_sha256'', optional_value (\<lambda>d. String (to_prefixed_hex d)) (po_original_digest out)),
         (''after_length'', json_nat (po_resulting_length out)),
         (''after_sha256'', String (to_prefixed_hex (po_resulting_digest out))),
         (''before_samples'', optional_value samples_value before_samples),
         (''after_samples'', samples_value after_samples)]))))"

definition summary_value ::
    "WorkspaceSnapshot \<Rightarrow> PlannedOutput list \<Rightarrow> FilesById \<Rightarrow> string \<Rightarrow> FsError + Value" where
  "summary_value snapshot outputs files reason =
     and_then (try_map (\<lambda>out. summary_entry snapshot out files) outputs) (\<lambda>entries.
     Ok (Object (context_entries [(''reason'', String reason), (''outputs'', Array entries)])))"

definition truncation_value :: "string \<Rightarrow> Value" where
  "truncation_value reason =
     Object (context_entries
       [(''reason'', String reason), (''maximum_diff_bytes'', json_nat DIFF_OUTPUT_BYTES),
        (''maximum_work_units'', json_nat DIFF_WORK_UNITS)])"

definition review_only_summary_value :: "Value \<Rightarrow> Value" where
  "review_only_summary_value review = Object (bt_put ''review'' review [])"

definition merge_review_summary :: "Value option \<Rightarrow> Value option \<Rightarrow> FsError + Value option" where
  "merge_review_summary legacy review =
     (case review of
        None \<Rightarrow> Ok legacy
      | Some review \<Rightarrow>
          (case legacy of
             Some (Object summary) \<Rightarrow> Ok (Some (Object (bt_put ''review'' review summary)))
           | None \<Rightarrow> Ok (Some (review_only_summary_value review))
           | Some _ \<Rightarrow> Err (InternalInvariant ''preview_summary_is_object'')))"

definition diff_truncated_warning :: "string \<Rightarrow> WarningDto" where
  "diff_truncated_warning reason =
     new_warning DiffTruncated ''the bounded preview diff omitted detail'' (context_entries [(''reason'', String reason)])"

section \<open>The response budget\<close>

definition response_bytes :: "Printer \<Rightarrow> PreviewResponse \<Rightarrow> string \<Rightarrow> FsError + nat" where
  "response_bytes printer response invariant =
     and_then (map_err (\<lambda>_. InternalInvariant invariant) (to_json_line (pn_preview printer response))) (\<lambda>line.
     Ok (length line))"

definition response_aware_diff_budget ::
    "Printer \<Rightarrow> EditPlan \<Rightarrow> Sha256Digest \<Rightarrow> ResolvedOperationResponse list \<Rightarrow> OutputResponse list \<Rightarrow> Value \<Rightarrow>
     WarningDto list \<Rightarrow> FsError + nat" where
  "response_aware_diff_budget printer p workspace_identity_hash resolved_operations outputs review warnings =
     (let reserved_warnings = warnings @ [diff_truncated_warning ''response_budget''] in
      and_then (merge_review_summary (Some (truncation_value ''response_budget'')) (Some review)) (\<lambda>merged.
      and_then (ok_or merged (InternalInvariant ''reserved_review_summary'')) (\<lambda>reserved_summary.
      let reserved = new_preview (ep_digest p) workspace_identity_hash resolved_operations outputs
            (diff_text (Some []) (Some reserved_summary)) reserved_warnings in
      and_then (response_bytes printer reserved ''preview_response_budget_serializes'') (\<lambda>reserved_bytes.
      and_then (ok_or (checked_sub_u64 MAX_RESPONSE_BYTES reserved_bytes)
        (Core (ResourceLimitExceeded ''serialized_json_response'' (min reserved_bytes u64_max) MAX_RESPONSE_BYTES)))
        (\<lambda>remaining.
      Ok (min remaining DIFF_OUTPUT_BYTES))))))"

definition enforce_complete_summary_response :: "Printer \<Rightarrow> PreviewResponse \<Rightarrow> FsError + unit" where
  "enforce_complete_summary_response printer response =
     and_then (response_bytes printer response ''complete_review_response_serializes'') (\<lambda>actual.
     if MAX_RESPONSE_BYTES < min actual u64_max
     then Err (Core (ResourceLimitExceeded ''serialized_json_response'' (min actual u64_max) MAX_RESPONSE_BYTES))
     else Ok ())"

section \<open>The diff\<close>

record BuiltDiff =
  bd_response :: DiffResponse
  bd_human :: string
  bd_warning :: "WarningDto option"

record ResponseBudgetContext =
  rc_plan :: EditPlan
  rc_workspace_identity_hash :: Sha256Digest
  rc_resolved_operations :: "ResolvedOperationResponse list"
  rc_outputs :: "OutputResponse list"
  rc_warnings :: "WarningDto list"

definition before_of :: "WorkspaceSnapshot \<Rightarrow> PlannedOutput \<Rightarrow> bytes" where
  "before_of snapshot out = (case before_bytes snapshot (path_value (po_path out)) of None \<Rightarrow> [] | Some bs \<Rightarrow> bs)"

text \<open>Whether some changed output is binary, up to the first one that is.\<close>

fun any_binary :: "WorkspaceSnapshot \<Rightarrow> FilesById \<Rightarrow> PlannedOutput list \<Rightarrow> FsError + bool" where
  "any_binary snapshot files [] = Ok False"
| "any_binary snapshot files (out # outputs) =
     and_then (materialize_output out files) (\<lambda>after.
     if is_binary (before_of snapshot out) \<or> is_binary after then Ok True else any_binary snapshot files outputs)"

text \<open>The outputs are written until one is refused.\<close>

fun write_outputs :: "WorkspaceSnapshot \<Rightarrow> FilesById \<Rightarrow> PlannedOutput list \<Rightarrow> DiffWriter \<Rightarrow> FsError + DiffWriter" where
  "write_outputs snapshot files [] w = Ok w"
| "write_outputs snapshot files (out # outputs) w =
     and_then (materialize_output out files) (\<lambda>after.
     and_then (write_output (path_value (po_path out)) (before_of snapshot out) after w) (\<lambda>(written, w').
     if written then write_outputs snapshot files outputs w' else Ok w'))"

definition text_diff ::
    "WorkspaceSnapshot \<Rightarrow> PlannedOutput list \<Rightarrow> FilesById \<Rightarrow> Value option \<Rightarrow> nat \<Rightarrow> FsError + BuiltDiff" where
  "text_diff snapshot changed files review maximum_output_bytes =
     and_then (write_outputs snapshot files changed (with_maximum_output_bytes maximum_output_bytes)) (\<lambda>w.
     let truncation_reason = map_option (\<lambda>cause. diff_truncation_reason cause maximum_output_bytes) (dw_truncation w);
         legacy_summary = map_option truncation_value truncation_reason in
     and_then (merge_review_summary legacy_summary review) (\<lambda>summary.
     Ok \<lparr>bd_response = diff_text (Some (dw_text w)) summary,
         bd_human = (if dw_text w = [] then ''(no byte changes)'' @ [CHR 0x0A] else dw_text w),
         bd_warning = map_option diff_truncated_warning truncation_reason\<rparr>))"

definition build_diff ::
    "Printer \<Rightarrow> WorkspaceSnapshot \<Rightarrow> EditPlan \<Rightarrow> FilesById \<Rightarrow> bool \<Rightarrow> Value option \<Rightarrow> ResponseBudgetContext option \<Rightarrow>
     FsError + BuiltDiff" where
  "build_diff printer snapshot p files no_diff review budget =
     (if no_diff
      then
        Ok \<lparr>bd_response =
              (case review of Some review \<Rightarrow> diff_omitted_with_summary (review_only_summary_value review)
               | None \<Rightarrow> diff_omitted),
            bd_human = ''omitted (--no-diff)'' @ [CHR 0x0A], bd_warning = None\<rparr>
      else
        let changed = filter (\<lambda>out. po_change out \<noteq> Unchanged) (ep_outputs p) in
        if changed = []
        then
          Ok \<lparr>bd_response = diff_text (Some []) (map_option review_only_summary_value review),
              bd_human = ''(no byte changes)'' @ [CHR 0x0A], bd_warning = None\<rparr>
        else if \<exists>out \<in> set changed.
            detailed_input_exceeded (min (length (before_of snapshot out)) u64_max) \<or>
            detailed_input_exceeded (po_resulting_length out)
        then
          and_then (summary_value snapshot changed files ''detailed_input_limit'') (\<lambda>legacy_summary.
          and_then (merge_review_summary (Some legacy_summary) review) (\<lambda>summary.
          Ok \<lparr>bd_response = diff_text None summary,
              bd_human = ''summary (detailed input limit): '' @ escape_text (pn_value_text printer legacy_summary) @ [CHR 0x0A],
              bd_warning = Some (diff_truncated_warning ''detailed_input_limit'')\<rparr>))
        else
          and_then (any_binary snapshot files changed) (\<lambda>binary.
          if binary
          then
            and_then (summary_value snapshot changed files ''binary_content'') (\<lambda>legacy_summary.
            and_then (merge_review_summary (Some legacy_summary) review) (\<lambda>merged.
            and_then (ok_or merged (InternalInvariant ''binary_preview_summary'')) (\<lambda>summary.
            Ok \<lparr>bd_response = diff_binary summary,
                bd_human = ''binary summary: '' @ escape_text (pn_value_text printer legacy_summary) @ [CHR 0x0A],
                bd_warning = None\<rparr>)))
          else
            and_then
              (case (budget, review) of
                 (Some b, Some review) \<Rightarrow>
                   response_aware_diff_budget printer (rc_plan b) (rc_workspace_identity_hash b)
                     (rc_resolved_operations b) (rc_outputs b) review (rc_warnings b)
               | (None, _) \<Rightarrow> Ok DIFF_OUTPUT_BYTES
               | (Some _, None) \<Rightarrow> Err (InternalInvariant ''response_budget_requires_review''))
              (text_diff snapshot changed files review)))"

section \<open>The human report\<close>

definition NL :: string where "NL = [CHR 0x0A]"

definition output_change_name :: "OutputChange \<Rightarrow> string" where
  "output_change_name change =
     (case change of
        Unchanged \<Rightarrow> ''unchanged'' | ModifiedExisting \<Rightarrow> ''modified_existing''
      | CreatedNew \<Rightarrow> ''created_new'' | EmptiedExisting \<Rightarrow> ''emptied_existing'')"

text \<open>The entry of the review for a row, which must carry the index of the row.\<close>

definition review_entry :: "'a list option \<Rightarrow> nat \<Rightarrow> ('a \<Rightarrow> bool) \<Rightarrow> string \<Rightarrow> FsError + 'a option" where
  "review_entry entries row matches invariant =
     (case entries of
        None \<Rightarrow> Ok None
      | Some xs \<Rightarrow>
          (case get_nth xs row of
             Some x \<Rightarrow> if matches x then Ok (Some x) else Err (InternalInvariant invariant)
           | None \<Rightarrow> Err (InternalInvariant invariant)))"

definition operation_row :: "ReviewSummaryResponse option \<Rightarrow> nat \<times> ResolvedOperation \<Rightarrow> FsError + string" where
  "operation_row review = (\<lambda>(row, operation).
     and_then
       (review_entry (map_option rv_operations review) row
         (\<lambda>metrics. vo_operation_index metrics = ro_operation_index operation) ''human_review_operation_index'')
       (\<lambda>review_metrics.
     Ok (''- ['' @ decimal (ro_operation_index operation) @ ''] '' @
       (case ro_kind operation of Move \<Rightarrow> ''move'' | Copy \<Rightarrow> ''copy'') @ '' '' @
       escape_text (path_value (ro_source_path operation)) @ ''['' @ decimal (range_start (ro_source_range operation)) @
       ''..'' @ decimal (range_end (ro_source_range operation)) @ '') -> '' @
       escape_text (path_value (ro_destination_path operation)) @ ''@'' @ decimal (ro_destination_offset operation) @
       '' effect='' @ (case ro_effect operation of Changed \<Rightarrow> ''changed'' | NoOp \<Rightarrow> ''no_op'') @
       '' selected_payload_sha256='' @ to_prefixed_hex (ro_selected_digest operation) @
       (case review_metrics of None \<Rightarrow> []
        | Some metrics \<Rightarrow>
            '' selected_byte_length='' @ decimal (vo_selected_byte_length metrics) @
            '' selected_logical_line_count='' @ decimal (vo_selected_logical_line_count metrics)) @ NL)))"

definition optional_text :: "('a \<Rightarrow> string) \<Rightarrow> 'a option \<Rightarrow> string" where
  "optional_text f x = (case x of None \<Rightarrow> ''null'' | Some a \<Rightarrow> f a)"

fun join :: "string \<Rightarrow> string list \<Rightarrow> string" where
  "join sep [] = []"
| "join sep [s] = s"
| "join sep (s # t # rest) = s @ sep @ join sep (t # rest)"

definition insertion_group_row :: "InsertionGroupResponse \<Rightarrow> string" where
  "insertion_group_row entry =
     ''  insertion_group destination_offset='' @ decimal (ig_destination_offset entry) @
     '' operation_indices=['' @ join '','' (map decimal (ig_operation_indices entry)) @ '']'' @ NL"

definition output_row :: "WorkspaceSnapshot \<Rightarrow> ReviewSummaryResponse option \<Rightarrow> nat \<times> PlannedOutput \<Rightarrow> FsError + string" where
  "output_row snapshot review = (\<lambda>(row, out).
     and_then
       (review_entry (map_option rv_outputs review) row (\<lambda>metrics. vu_output_index metrics = row)
         ''human_review_output_index'') (\<lambda>review_metrics.
     Ok (''- '' @ (if review_metrics \<noteq> None then ''['' @ decimal row @ ''] '' else []) @
       escape_text (path_value (po_path out)) @ '' change='' @ output_change_name (po_change out) @
       '' before_length='' @ optional_text (\<lambda>bs. decimal (length bs)) (before_bytes snapshot (path_value (po_path out))) @
       '' before_sha256='' @ optional_text to_prefixed_hex (po_original_digest out) @
       '' after_length='' @ decimal (po_resulting_length out) @
       '' after_sha256='' @ to_prefixed_hex (po_resulting_digest out) @
       (case review_metrics of None \<Rightarrow> NL
        | Some metrics \<Rightarrow>
            '' before_logical_line_count='' @ optional_text decimal (vu_before_logical_line_count metrics) @
            '' after_logical_line_count='' @ decimal (vu_after_logical_line_count metrics) @ NL @
            concat (map insertion_group_row (vu_insertion_groups_in_output_order metrics))))))"

definition warning_row :: "WarningDto \<Rightarrow> string" where
  "warning_row warning = ''- '' @ warning_as_str (wa_code warning) @ '': '' @ escape_text (wa_message warning) @ NL"

definition render_human ::
    "WorkspaceSnapshot \<Rightarrow> EditPlan \<Rightarrow> Sha256Digest \<Rightarrow> string \<Rightarrow> WarningDto list \<Rightarrow> ReviewSummaryResponse option \<Rightarrow>
     FsError + string" where
  "render_human snapshot p workspace_identity_hash diff warnings review =
     and_then (try_map (operation_row review) (enumerate 0 (ep_operations p))) (\<lambda>operation_rows.
     and_then (try_map (output_row snapshot review) (enumerate 0 (ep_outputs p))) (\<lambda>output_rows.
     Ok (''srcmv preview'' @ NL @ ''plan_hash_version: 1'' @ NL @ ''plan_sha256: '' @ to_prefixed_hex (ep_digest p) @ NL @
       ''workspace_identity_hash: '' @ to_prefixed_hex workspace_identity_hash @ NL @ ''resolved_operations:'' @ NL @
       concat operation_rows @ ''outputs:'' @ NL @ concat output_rows @ ''diff:'' @ NL @ diff @ ''warnings:'' @ NL @
       concat (map warning_row warnings))))"

section \<open>The preview\<close>

record PreviewArtifacts =
  pa_response :: PreviewResponse
  pa_human :: string

definition preview_output :: "WorkspaceSnapshot \<Rightarrow> PlannedOutput \<Rightarrow> OutputResponse" where
  "preview_output snapshot out =
     new_output_response (path_value (po_path out)) (po_change out)
       (map_option (\<lambda>bs. min (length bs) u64_max) (before_bytes snapshot (path_value (po_path out))))
       (po_original_digest out) (po_resulting_length out) (po_resulting_digest out)"

definition build_preview ::
    "Printer \<Rightarrow> WorkspaceSnapshot \<Rightarrow> EditPlan \<Rightarrow> Sha256Digest \<Rightarrow> bool \<Rightarrow> bool \<Rightarrow> WarningDto list \<Rightarrow>
     FsError + PreviewArtifacts" where
  "build_preview printer snapshot p workspace_identity_hash no_diff include_summary warnings =
     (let files = files_by_id snapshot;
          outputs = map (preview_output snapshot) (ep_outputs p);
          resolved_operations = map from_resolved (ep_operations p) in
      and_then
        (if include_summary then and_then (build_review_summary snapshot p files) (\<lambda>r. Ok (Some r)) else Ok None)
        (\<lambda>review.
      and_then
        (case review of None \<Rightarrow> Ok None
         | Some r \<Rightarrow>
             and_then (ok_or (pn_review_value printer r) (InternalInvariant ''review_summary_serializes'')) (\<lambda>v. Ok (Some v)))
        (\<lambda>review_value.
      let budget = map_option (\<lambda>_.
            \<lparr>rc_plan = p, rc_workspace_identity_hash = workspace_identity_hash,
             rc_resolved_operations = resolved_operations, rc_outputs = outputs, rc_warnings = warnings\<rparr>) review_value in
      and_then (build_diff printer snapshot p files no_diff review_value budget) (\<lambda>diff.
      let warnings = warnings @ (case bd_warning diff of None \<Rightarrow> [] | Some w \<Rightarrow> [w]) in
      and_then (render_human snapshot p workspace_identity_hash (bd_human diff) warnings review) (\<lambda>human.
      let response = new_preview (ep_digest p) workspace_identity_hash resolved_operations outputs (bd_response diff) warnings in
      and_then (if include_summary then enforce_complete_summary_response printer response else Ok ()) (\<lambda>_.
      Ok \<lparr>pa_response = response, pa_human = human\<rparr>))))))"

section \<open>The review of a plan\<close>

lemma files_by_id_file_with_id:
  assumes "distinct (map fs_id (ws_files snapshot))"
  shows "files_by_id snapshot = file_with_id snapshot"
proof -
  have "fold (\<lambda>f m. m(fs_id f \<mapsto> f)) fs m i = (case find (\<lambda>f. fs_id f = i) fs of Some f \<Rightarrow> Some f | None \<Rightarrow> m i)"
    if "distinct (map fs_id fs)" for fs m i
    using that
  proof (induction fs arbitrary: m)
    case (Cons f fs)
    have "find (\<lambda>g. fs_id g = fs_id f) fs = None" using Cons.prems by (simp add: find_None_iff) (metis image_eqI)
    with Cons show ?case by (cases "fs_id f = i") (auto split: option.splits)
  qed simp
  from this[OF assms] show ?thesis by (auto simp: files_by_id_def file_with_id_def fun_eq_iff split: option.splits)
qed

lemma find_path:
  "List.find (\<lambda>file. path_value (fs_path file) = path_value q) fs = List.find (\<lambda>file. fs_path file = q) fs"
  by (intro find_cong) (auto intro: WorkspaceRelativePath.expand)

lemma before_bytes_file_at: "before_bytes snapshot (path_value q) = map_option fs_bytes (file_at snapshot q)"
  by (simp add: before_bytes_def file_at_def find_path)

lemma metrics_line_count_min:
  "length bs \<le> u64_max \<Longrightarrow> metrics_line_count (line_metrics_of bs) = min (length (split_lines bs)) u64_max"
  using terminator_count_le[of bs]
  by (auto simp: metrics_line_count_def line_metrics_of_def split_lines_count saturating_add_u64_def)

text \<open>Every payload of a recipe is an insertion into its output.\<close>

lemma segment_loop_payloads:
  assumes "segment_loop e points c deleting segs = Ok out"
    and "PayloadSlice i f r d \<in> set out"
  shows "PayloadSlice i f r d \<in> set segs \<or>
    (\<exists>(k, pt) \<in> set points. \<exists>ins \<in> set (pe_insertions pt). PayloadSlice i f r d = payload_slice ins)"
  using assms
proof (induction e points c deleting segs rule: segment_loop.induct)
  case (1 e c deleting segs)
  then show ?case by (auto simp: original_slice_def split: if_splits)
next
  case (2 e offset point points c deleting segs)
  then obtain kept where k: "(if c < offset \<and> \<not> deleting then original_slice e c offset else Ok []) = Ok kept"
    by (auto split: if_splits)
  then have "PayloadSlice i f r d \<notin> set kept" by (auto simp: original_slice_def split: if_splits)
  then show ?case using 2 k by (fastforce simp: Let_def split: if_splits)
qed

lemma build_segments_payloads:
  assumes "build_segments e = Ok segs" "PayloadSlice i f r d \<in> set segs"
  shows "\<exists>ins \<in> snd ` set (oe_insertions e). PayloadSlice i f r d = payload_slice ins"
proof -
  obtain ks where ks: "edit_points e = map (\<lambda>k. (k, event_at e k)) ks" using edit_points_events[of e] by blast
  obtain k ins where ins: "ins \<in> set (insertions_at (oe_insertions e) k)" "PayloadSlice i f r d = payload_slice ins"
    using segment_loop_payloads[OF assms[unfolded build_segments_def]] by (auto simp: ks event_at_def)
  have "ins \<in> snd ` set (oe_insertions e)" using ins(1) by (auto simp: insertions_at_def)
  with ins(2) show ?thesis by blast
qed

lemma plan_output_of:
  assumes "plan L H snapshot batch budget = Ok p" "wf_snapshot snapshot" "out \<in> set (ep_outputs p)"
  obtains q where "plan_output H (file_with_id snapshot) (edits_for snapshot (ep_operations p) q) = Ok out"
proof -
  obtain edits where inv: "plan_inv H snapshot (ep_operations p, edits)"
    and outs: "try_map (plan_output H (file_with_id snapshot)) (map snd edits) = Ok (ep_outputs p)"
    by (rule plan_steps[OF assms(1,2)])
  obtain k where "k < length edits" "plan_output H (file_with_id snapshot) (snd (edits ! k)) = Ok out"
    using outs assms(3) by (auto simp: try_map_Ok_iff list_all2_conv_all_nth in_set_conv_nth)
  moreover have entries: "map snd edits = map (edits_for snapshot (ep_operations p)) (map fst edits)"
    using represents_entries[of snapshot edits "ep_operations p"] inv by (simp add: plan_inv_def)
  ultimately have "plan_output H (file_with_id snapshot) (edits_for snapshot (ep_operations p) (fst (edits ! k))) = Ok out"
    using arg_cong[OF entries, of "\<lambda>xs. xs ! k"] by simp
  then show ?thesis by (rule that)
qed

lemma plan_output_length:
  assumes "plan L H snapshot batch budget = Ok p" "wf_snapshot snapshot" "out \<in> set (ep_outputs p)"
  shows "po_resulting_length out \<le> u64_max"
proof -
  obtain q where "plan_output H (file_with_id snapshot) (edits_for snapshot (ep_operations p) q) = Ok out"
    by (rule plan_output_of[OF assms])
  from plan_output_Ok[OF this] obtain bs where "recipe_bytes (file_with_id snapshot) (po_segments out) = Ok bs" "length bs \<le> u64_max"
    using stream_output_Ok_recipe by blast
  moreover have "recipe_bytes (file_with_id snapshot) (po_segments out) =
      Ok (edited_bytes snapshot (ep_operations p) (po_path out))"
    "po_resulting_length out = length (edited_bytes snapshot (ep_operations p) (po_path out))"
    using plan_outputs(5)[OF assms(1,2)] assms(3) by (auto simp: output_correct_def Let_def)
  ultimately show ?thesis by simp
qed

lemma plan_payloads:
  assumes "plan L H snapshot batch budget = Ok p" "wf_snapshot snapshot"
    and "out \<in> set (ep_outputs p)" "PayloadSlice i f r d \<in> set (po_segments out)"
  shows "\<exists>op. get_nth (ep_operations p) i = Some op \<and> ro_operation_index op = i \<and> ro_effect op = Changed \<and>
    ro_destination_path op = po_path out"
proof -
  obtain q where po: "plan_output H (file_with_id snapshot) (edits_for snapshot (ep_operations p) q) = Ok out"
    by (rule plan_output_of[OF assms(1-3)])
  have ix: "map ro_operation_index (ep_operations p) = [0..<length (ep_operations p)]"
    by (rule plan_outputs(2)[OF assms(1,2)])
  from plan_output_Ok[OF po] have segs: "build_segments (edits_for snapshot (ep_operations p) q) = Ok (po_segments out)"
    and q: "po_path out = q" by (simp_all add: edits_of_def) blast
  obtain op where op: "op \<in> set (put_in (ep_operations p) q)" "PayloadSlice i f r d = payload_slice (insertion_of snapshot op)"
    using build_segments_payloads[OF segs assms(4)] by (auto simp: edits_of_def insertions_for_def)
  have "i = ro_operation_index op" using op(2) by (simp add: payload_slice_def insertion_of_def)
  moreover obtain j where j: "j < length (ep_operations p)" "op = ep_operations p ! j"
    using op(1) by (auto simp: put_in_def in_set_conv_nth)
  moreover have "ro_operation_index (ep_operations p ! j) = j"
    using arg_cong[OF ix, of "\<lambda>xs. xs ! j"] j(1) by simp
  ultimately show ?thesis using op(1) q by (auto simp: put_in_def)
qed

lemma segment_bytes_slice:
  "segment_bytes files segment = Ok chunk \<longleftrightarrow>
     (\<exists>i r file. segment_source segment = (i, r) \<and> files i = Some file \<and>
       range_start r \<le> range_end r \<and> range_end r \<le> length (fs_bytes file) \<and>
       chunk = slice (fs_bytes file) (range_start r) (range_end r))"
  by (cases "segment_source segment") (auto simp: segment_bytes_def slice_range_def)

definition payload_indices :: "OutputSegment list \<Rightarrow> nat list" where
  "payload_indices segments = concat (map (\<lambda>s. case s of PayloadSlice i _ _ _ \<Rightarrow> [i] | OriginalSlice _ _ \<Rightarrow> []) segments)"

lemma payload_indices_simps [simp]:
  "payload_indices [] = []"
  "payload_indices (OriginalSlice a b # segs) = payload_indices segs"
  "payload_indices (PayloadSlice i a b c # segs) = i # payload_indices segs"
  by (simp_all add: payload_indices_def)

text \<open>Groups list the operations one after the other, each at its offset, and neighbours differ.\<close>

definition groups_ok :: "ResolvedOperation list \<Rightarrow> nat list \<Rightarrow> (nat \<times> nat list) list \<Rightarrow> bool" where
  "groups_ok ops indices groups \<longleftrightarrow>
     concat (map snd groups) = indices \<and>
     (\<forall>(offset, is) \<in> set groups. is \<noteq> [] \<and> (\<forall>i \<in> set is. ro_destination_offset (ops ! i) = offset)) \<and>
     successively (\<noteq>) (map fst groups)"

lemma groups_ok_add:
  assumes "groups_ok ops indices groups" "ro_destination_offset (ops ! i) = offset"
  shows "groups_ok ops (indices @ [i]) (add_to_group offset i groups)"
proof (cases groups rule: rev_cases)
  case Nil
  then show ?thesis using assms by (auto simp: groups_ok_def add_to_group_def)
next
  case (snoc gs g)
  then show ?thesis
    using assms by (cases g) (auto simp: groups_ok_def add_to_group_def successively_append_iff)
qed

definition payloads_ok :: "EditPlan \<Rightarrow> PlannedOutput \<Rightarrow> OutputSegment list \<Rightarrow> bool" where
  "payloads_ok p out segs \<longleftrightarrow>
     (\<forall>i \<in> set (payload_indices segs). \<exists>op. get_nth (ep_operations p) i = Some op \<and> ro_operation_index op = i \<and>
       ro_effect op = Changed \<and> ro_destination_path op = po_path out)"

definition files_ok :: "FilesById \<Rightarrow> bool" where
  "files_ok files \<longleftrightarrow>
     (\<forall>fl \<in> ran files. indexes (fs_line_index fl) (fs_bytes fl) \<and> length (fs_bytes fl) \<le> u64_max)"

lemma review_segments:
  assumes "payloads_ok p out segs"
    and "files_ok files"
    and "recipe_bytes files segs = Ok bs" "length (seen @ bs) \<le> u64_max"
    and "groups_ok (ep_operations p) indices groups"
  shows "\<exists>groups'. try_fold (review_segment p out files) \<lparr>re_metrics = line_metrics_of seen, re_groups = groups\<rparr> segs =
      Ok \<lparr>re_metrics = line_metrics_of (seen @ bs), re_groups = groups'\<rparr> \<and>
    groups_ok (ep_operations p) (indices @ payload_indices segs) groups'"
  using assms
proof (induction segs arbitrary: bs seen indices groups)
  case Nil
  then show ?case by auto
next
  case (Cons segment segs)
  obtain chunk rest where c: "segment_bytes files segment = Ok chunk" "recipe_bytes files segs = Ok rest" "bs = chunk @ rest"
    using Cons.prems(3) by (auto simp: recipe_bytes_Cons)
  obtain k r fl where k: "segment_source segment = (k, r)" "files k = Some fl" "range_start r \<le> range_end r"
      "range_end r \<le> length (fs_bytes fl)" "chunk = slice (fs_bytes fl) (range_start r) (range_end r)"
    using c(1) by (auto simp: segment_bytes_slice)
  have "metrics_for_range (fs_line_index fl) (fs_bytes fl) r = Ok (line_metrics_of chunk)"
    using metrics_for_range_eq[of "fs_line_index fl" "fs_bytes fl" r] k Cons.prems(2)[unfolded files_ok_def] ranI[of files, OF k(2)]
    by (simp add: indexes_def line_bounds_prefix_ends)
  moreover have "try_append (line_metrics_of seen) (line_metrics_of chunk) = Ok (line_metrics_of (seen @ chunk))"
    using Cons.prems(4) c(3) by (intro try_append_eq) simp
  ultimately have appended: "and_then (ok_or (files k) (InternalInvariant ''review_segment_snapshot_file'')) (\<lambda>fl.
      and_then (core_result (metrics_for_range (fs_line_index fl) (fs_bytes fl) r)) (\<lambda>m.
      and_then (core_result (try_append (line_metrics_of seen) m)) c)) = c (line_metrics_of (seen @ chunk))" for c :: "LineMetrics \<Rightarrow> FsError + ReviewState"
    using k(2) by (simp add: core_result_def)
  have len: "length ((seen @ chunk) @ rest) \<le> u64_max" using Cons.prems(4) c(3) by simp
  have pay: "payloads_ok p out segs"
    using Cons.prems(1) by (cases segment) (simp_all add: payloads_ok_def)
  note ih = Cons.IH[OF pay Cons.prems(2) c(2) len]
  show ?case
  proof (cases segment)
    case (OriginalSlice a b)
    have "review_segment p out files \<lparr>re_metrics = line_metrics_of seen, re_groups = groups\<rparr> segment =
        Ok \<lparr>re_metrics = line_metrics_of (seen @ chunk), re_groups = groups\<rparr>"
      unfolding review_segment_def k(1) prod.case
      by (simp add: appended del: and_then_simps) (simp add: OriginalSlice)
    then show ?thesis
      using ih[OF Cons.prems(5)] c(3) by (simp add: OriginalSlice)
  next
    case (PayloadSlice i a b d)
    let ?groups = "add_to_group (ro_destination_offset (ep_operations p ! i)) i groups"
    obtain op where op: "get_nth (ep_operations p) i = Some op" "ro_operation_index op = i" "ro_effect op = Changed"
        "ro_destination_path op = po_path out"
      using Cons.prems(1) by (auto simp: PayloadSlice payloads_ok_def)
    then have "op = ep_operations p ! i" by simp
    with op have "review_segment p out files \<lparr>re_metrics = line_metrics_of seen, re_groups = groups\<rparr> segment =
        Ok \<lparr>re_metrics = line_metrics_of (seen @ chunk), re_groups = ?groups\<rparr>"
      unfolding review_segment_def k(1) prod.case
      by (simp add: appended del: and_then_simps) (simp add: PayloadSlice op)
    moreover have "groups_ok (ep_operations p) (indices @ [i]) ?groups"
      using Cons.prems(5) by (rule groups_ok_add) simp
    ultimately show ?thesis using ih[of "indices @ [i]" ?groups] c(3) by (simp add: PayloadSlice)
  qed
qed

definition small_files :: "WorkspaceSnapshot \<Rightarrow> bool" where
  "small_files snapshot \<longleftrightarrow> (\<forall>f \<in> set (ws_files snapshot). length (fs_bytes f) \<le> u64_max)"

definition lines_of :: "bytes \<Rightarrow> nat" where
  "lines_of bs = min (length (split_lines bs)) u64_max"

definition operation_reviewed :: "WorkspaceSnapshot \<Rightarrow> ResolvedOperation \<Rightarrow> ReviewOperationResponse \<Rightarrow> bool" where
  "operation_reviewed snapshot op r \<longleftrightarrow>
     vo_operation_index r = ro_operation_index op \<and>
     vo_selected_byte_length r = length (selected_bytes snapshot op) \<and>
     vo_selected_logical_line_count r = lines_of (selected_bytes snapshot op)"

definition output_reviewed ::
    "WorkspaceSnapshot \<Rightarrow> ResolvedOperation list \<Rightarrow> PlannedOutput \<Rightarrow> ReviewOutputResponse \<Rightarrow> bool" where
  "output_reviewed snapshot ops out r \<longleftrightarrow>
     vu_before_logical_line_count r = map_option (\<lambda>f. lines_of (fs_bytes f)) (file_at snapshot (po_path out)) \<and>
     vu_after_logical_line_count r = lines_of (edited_bytes snapshot ops (po_path out)) \<and>
     groups_ok ops (payload_indices (po_segments out))
       (map (\<lambda>g. (ig_destination_offset g, ig_operation_indices g)) (vu_insertion_groups_in_output_order r))"

lemma review_operation_exact:
  assumes "operation_resolved H snapshot op" "wf_snapshot snapshot" "small_files snapshot"
  shows "\<exists>r. review_operation snapshot op = Ok r \<and> operation_reviewed snapshot op r"
proof -
  obtain f where f: "file_at snapshot (ro_source_path op) = Some f"
    and v: "valid_range (length (original_bytes snapshot (ro_source_path op))) (ro_source_range op)"
    using assms(1) by (auto simp: operation_resolved_def)
  have mem: "f \<in> set (ws_files snapshot)" using file_at_Some[OF f] by blast
  have idx: "indexes (fs_line_index f) (fs_bytes f)" "length (fs_bytes f) \<le> u64_max"
    using mem assms(2,3) by (auto simp: wf_snapshot_def small_files_def)
  have r: "range_start (ro_source_range op) \<le> range_end (ro_source_range op)" "range_end (ro_source_range op) \<le> length (fs_bytes f)"
    using v by (auto simp: valid_range_def original_bytes_def f)
  have sel: "selected_bytes snapshot op = slice (fs_bytes f) (range_start (ro_source_range op)) (range_end (ro_source_range op))"
    by (simp add: selected_bytes_def original_bytes_def f)
  have len: "length (selected_bytes snapshot op) \<le> u64_max" using r idx(2) sel by simp
  have "metrics_for_range (fs_line_index f) (fs_bytes f) (ro_source_range op) = Ok (line_metrics_of (selected_bytes snapshot op))"
    using metrics_for_range_eq[of "fs_line_index f" "fs_bytes f" "ro_source_range op"] idx r sel
    by (simp add: indexes_def line_bounds_prefix_ends)
  then show ?thesis
    using f len
    by (simp add: review_operation_def snapshot_file_for_path_def find_path file_at_def core_result_def
        operation_reviewed_def lines_of_def metrics_line_count_min)
      (simp add: line_metrics_of_def)
qed

lemma review_output_exact:
  assumes "plan L H snapshot batch budget = Ok p" "wf_snapshot snapshot" "small_files snapshot"
    and "out \<in> set (ep_outputs p)" "distinct (map fs_id (ws_files snapshot))"
  shows "\<exists>r. build_review_output n out snapshot p (files_by_id snapshot) = Ok r \<and> vu_output_index r = n \<and>
    output_reviewed snapshot (ep_operations p) out r"
proof -
  let ?bs = "edited_bytes snapshot (ep_operations p) (po_path out)"
  have correct: "recipe_bytes (file_with_id snapshot) (po_segments out) = Ok ?bs" "po_resulting_length out = length ?bs"
    using plan_outputs(5)[OF assms(1,2)] assms(4) by (auto simp: output_correct_def Let_def)
  have len: "length ?bs \<le> u64_max" using plan_output_length[OF assms(1,2,4)] correct(2) by simp
  have files: "files_by_id snapshot = file_with_id snapshot" by (rule files_by_id_file_with_id[OF assms(5)])
  have ok: "files_ok (file_with_id snapshot)"
    using assms(2,3) by (auto simp: files_ok_def ran_def file_with_id_def find_Some_iff wf_snapshot_def small_files_def)
  have "\<exists>f r d. PayloadSlice i f r d \<in> set (po_segments out)" if "i \<in> set (payload_indices (po_segments out))" for i
    using that by (auto simp: payload_indices_def split: OutputSegment.splits)
  then have pay: "payloads_ok p out (po_segments out)"
    using plan_payloads[OF assms(1,2,4)] by (fastforce simp: payloads_ok_def)
  obtain groups where g: "try_fold (review_segment p out (file_with_id snapshot))
      \<lparr>re_metrics = line_metrics_of [], re_groups = []\<rparr> (po_segments out) =
      Ok \<lparr>re_metrics = line_metrics_of ?bs, re_groups = groups\<rparr>"
    "groups_ok (ep_operations p) (payload_indices (po_segments out)) groups"
    using review_segments[OF pay ok correct(1), where seen = "[]" and indices = "[]" and groups = "[]"] len
    by (auto simp: groups_ok_def)
  have before: "map_option (\<lambda>file. index_line_count (fs_line_index file))
      (List.find (\<lambda>file. path_value (fs_path file) = path_value (po_path out)) (ws_files snapshot)) =
      map_option (\<lambda>f. lines_of (fs_bytes f)) (file_at snapshot (po_path out))"
  proof (cases "file_at snapshot (po_path out)")
    case (Some f)
    then have "indexes (fs_line_index f) (fs_bytes f)" using assms(2) file_at_Some[OF Some] by (auto simp: wf_snapshot_def)
    with Some show ?thesis by (simp add: find_path file_at_def index_line_count_def indexes_def lines_of_def)
  qed (simp add: find_path file_at_def)
  have "lm_byte_count (line_metrics_of ?bs) = po_resulting_length out" using correct(2) by (simp add: line_metrics_of_def)
  then show ?thesis
    using g before len
    by (simp add: build_review_output_def files default_line_metrics_eq output_reviewed_def comp_def case_prod_unfold
        metrics_line_count_min lines_of_def)
qed
section \<open>Terminal safety of the report\<close>

text \<open>Valid UTF-8 without control and bidirectional formatting characters other than line feeds.\<close>

definition clean_text :: "string \<Rightarrow> bool" where
  "clean_text s \<longleftrightarrow> valid_utf8 (as_bytes s) \<and> list_all (\<lambda>c. harmless c \<or> c = 10) (chars (as_bytes s))"

lemma clean_text_iff:
  "clean_text s \<longleftrightarrow> (\<exists>cs. as_bytes s = utf8 cs \<and> list_all is_scalar cs \<and> list_all (\<lambda>c. harmless c \<or> c = 10) cs)"
  by (auto simp: clean_text_def valid_utf8_iff chars_utf8)

lemma clean_append:
  assumes "clean_text s" "clean_text t"
  shows "clean_text (s @ t)"
proof -
  obtain cs ds where "as_bytes s = utf8 cs" "list_all is_scalar cs" "list_all (\<lambda>c. harmless c \<or> c = 10) cs"
    "as_bytes t = utf8 ds" "list_all is_scalar ds" "list_all (\<lambda>c. harmless c \<or> c = 10) ds"
    using assms by (auto simp: clean_text_iff)
  then show ?thesis unfolding clean_text_iff by (intro exI[of _ "cs @ ds"]) (simp add: as_bytes_map)
qed

definition plain_char :: "char \<Rightarrow> bool" where
  "plain_char c \<longleftrightarrow> (32 \<le> (of_char c :: nat) \<and> (of_char c :: nat) < 127) \<or> (of_char c :: nat) = 10"

lemma clean_plain: "list_all plain_char s \<Longrightarrow> clean_text s"
proof (induction s)
  case Nil
  show ?case by (simp add: clean_text_iff as_bytes_map exI[of _ "[]"])
next
  case (Cons c s)
  have c: "plain_char c" using Cons.prems by simp
  have "as_bytes [c] = utf8 [of_char c]"
    using c by (auto simp: as_bytes_map byte_of_def encode_char_def plain_char_def)
  moreover have "list_all is_scalar [of_char c :: nat]" "list_all (\<lambda>c. harmless c \<or> c = 10) [of_char c :: nat]"
    using c by (auto simp: plain_char_def is_scalar_def harmless_def is_control_def is_bidi_control_def)
  ultimately have "clean_text [c]" unfolding clean_text_iff by blast
  from clean_append[OF this Cons.IH] Cons.prems show ?case by simp
qed

lemma clean_Cons: "plain_char c \<Longrightarrow> clean_text s \<Longrightarrow> clean_text (c # s)"
  using clean_append[of "[c]" s] clean_plain[of "[c]"] by simp

lemma clean_Nil [simp]: "clean_text []"
  by (rule clean_plain) simp

lemma clean_concat: "list_all clean_text ss \<Longrightarrow> clean_text (concat ss)"
  by (induction ss) (auto intro!: clean_append)

lemma clean_escape: "valid_utf8 s \<Longrightarrow> clean_text (text_of (escape_terminal_text s))"
  using escape_terminal_text_safe[of s] by (auto simp: clean_text_def list_all_iff)

text \<open>
  C28: The review summary of a successful plan exists and is exact. Every operation is listed with
  the length and the logical line count of the bytes that it selects; every output is listed, under its
  own index, with the logical line counts of the file before the plan and of the bytes that the plan
  specifies for it; and the insertion groups of an output list its inserted operations in the order of
  their bytes, each group at one offset of the original file. Line counts come from the segments of the
  recipe, whose metrics are appended, and saturate at \<open>u64::MAX\<close>.
\<close>

theorem review_of_a_plan_is_exact:
  assumes "plan L H snapshot batch budget = Ok p" "wf_snapshot snapshot" "small_files snapshot"
  shows "\<exists>operations outputs.
    build_review_summary snapshot p (files_by_id snapshot) =
      Ok (review_summary_v1 (ep_digest p) operations outputs) \<and>
    list_all2 (operation_reviewed snapshot) (ep_operations p) operations \<and>
    list_all2 (output_reviewed snapshot (ep_operations p)) (ep_outputs p) outputs \<and>
    map vu_output_index outputs = [0..<length (ep_outputs p)]"
proof -
  have ids: "distinct (map fs_id (ws_files snapshot))" by (rule plan_steps[OF assms(1,2)])
  have "\<forall>op \<in> set (ep_operations p). \<exists>r. review_operation snapshot op = Ok r \<and> operation_reviewed snapshot op r"
    using plan_outputs(1)[OF assms(1,2)] review_operation_exact[OF _ assms(2,3)] by (auto simp: list_all_iff)
  then obtain f where f: "\<forall>op \<in> set (ep_operations p). review_operation snapshot op = Ok (f op) \<and> operation_reviewed snapshot op (f op)"
    by metis
  have ops: "try_map (review_operation snapshot) (ep_operations p) = Ok (map f (ep_operations p))"
    using f by (auto simp: try_map_Ok_iff list_all2_conv_all_nth)
  have "\<forall>x \<in> set (enumerate 0 (ep_outputs p)). \<exists>r. build_review_output (fst x) (snd x) snapshot p (files_by_id snapshot) = Ok r \<and>
      vu_output_index r = fst x \<and> output_reviewed snapshot (ep_operations p) (snd x) r"
    using review_output_exact[OF assms _ ids] by (auto simp: in_set_enumerate_eq)
  then obtain g where g: "\<forall>x \<in> set (enumerate 0 (ep_outputs p)).
      build_review_output (fst x) (snd x) snapshot p (files_by_id snapshot) = Ok (g x) \<and>
      vu_output_index (g x) = fst x \<and> output_reviewed snapshot (ep_operations p) (snd x) (g x)"
    by metis
  have outs: "try_map (\<lambda>(output_index, out). build_review_output output_index out snapshot p (files_by_id snapshot))
      (enumerate 0 (ep_outputs p)) = Ok (map g (enumerate 0 (ep_outputs p)))"
    using g by (auto simp: try_map_Ok_iff list_all2_conv_all_nth case_prod_unfold)
  have "list_all2 (output_reviewed snapshot (ep_operations p)) (map snd (enumerate 0 (ep_outputs p)))
      (map g (enumerate 0 (ep_outputs p)))"
    using g by (auto simp: list_all2_conv_all_nth simp del: map_snd_enumerate)
  moreover have "map vu_output_index (map g (enumerate 0 (ep_outputs p))) = map fst (enumerate 0 (ep_outputs p))"
    using g by (auto simp del: map_fst_enumerate)
  moreover have "list_all2 (operation_reviewed snapshot) (ep_operations p) (map f (ep_operations p))"
    using f by (auto simp: list_all2_conv_all_nth)
  moreover have "build_review_summary snapshot p (files_by_id snapshot) =
      Ok (review_summary_v1 (ep_digest p) (map f (ep_operations p)) (map g (enumerate 0 (ep_outputs p))))"
    using ops outs by (simp add: build_review_summary_def)
  ultimately show ?thesis by (intro exI[of _ "map f (ep_operations p)"] exI[of _ "map g (enumerate 0 (ep_outputs p))"]) simp
qed

lemma review_of_a_plan_is_exact_witness:
  "\<exists>p r. plan small_layout length_digest move_snapshot move_batch default_resource_budget = Ok p \<and>
     build_review_summary move_snapshot p (files_by_id move_snapshot) = Ok r"
proof -
  obtain p where p: "plan small_layout length_digest move_snapshot move_batch default_resource_budget = Ok p"
    using move_plan by blast
  have "small_files move_snapshot" by (simp add: small_files_def move_snapshot_def u64_max_def)
  from review_of_a_plan_is_exact[OF p move_snapshot_wf this] p show ?thesis by blast
qed

lemma encode_char_high: "is_scalar c \<Longrightarrow> 128 \<le> c \<Longrightarrow> b \<in> set (encode_char c) \<Longrightarrow> 128 \<le> unat b"
proof -
  assume c: "is_scalar c" "128 \<le> c" and b: "b \<in> set (encode_char c)"
  have "c < 2048 \<Longrightarrow> c div 64 < 32" "c < 65536 \<Longrightarrow> c div 4096 < 16" "c div 262144 < 5"
    using is_scalar_less[OF c(1)] by (simp_all add: less_mult_imp_div_less)
  moreover have "c mod 64 < 64" "c div 64 mod 64 < 64" "c div 4096 mod 64 < 64" by simp_all
  ultimately show "128 \<le> unat b" using b c(2)
    by (auto simp: encode_char_def simp del: of_nat_add split: if_splits)
qed

lemma utf8_at_ascii:
  assumes "utf8 cs = xs @ b # ys" "list_all is_scalar cs" "unat b < 128"
  shows "\<exists>ds es. xs = utf8 ds \<and> ys = utf8 es \<and> list_all is_scalar ds \<and> list_all is_scalar es"
  using assms(1,2)
proof (induction cs arbitrary: xs)
  case (Cons c cs)
  show ?case
  proof (cases "c < 128")
    case True
    then have e: "encode_char c = [of_nat c]" by (simp add: encode_char_def)
    show ?thesis
    proof (cases xs)
      case Nil
      with Cons.prems e show ?thesis by (intro exI[of _ "[]"] exI[of _ cs]) auto
    next
      case (Cons x xs')
      with Cons.prems e have "utf8 cs = xs' @ b # ys" "x = of_nat c" by auto
      with Cons.IH Cons.prems(2) obtain ds es where
        "xs' = utf8 ds" "ys = utf8 es" "list_all is_scalar ds" "list_all is_scalar es" by auto
      with Cons Cons.prems(2) e \<open>x = of_nat c\<close> show ?thesis by (intro exI[of _ "c # ds"] exI[of _ es]) auto
    qed
  next
    case False
    have "b \<notin> set (encode_char c)" using encode_char_high[of c b] Cons.prems(2) False assms(3) by auto
    then obtain us where "xs = encode_char c @ us" "utf8 cs = us @ b # ys"
      using Cons.prems(1) by (auto simp: append_eq_append_conv2 append_eq_Cons_conv)
    with Cons.IH Cons.prems(2) obtain ds es where
      "us = utf8 ds" "ys = utf8 es" "list_all is_scalar ds" "list_all is_scalar es" by auto
    with \<open>xs = encode_char c @ us\<close> Cons.prems(2) show ?thesis by (intro exI[of _ "c # ds"] exI[of _ es]) auto
  qed
qed auto

lemma valid_utf8_at_ascii: "valid_utf8 (xs @ b # ys) \<Longrightarrow> unat b < 128 \<Longrightarrow> valid_utf8 xs \<and> valid_utf8 ys"
  using utf8_at_ascii by (metis valid_utf8_iff)

lemma line_contents_valid:
  assumes "valid_utf8 (concat (map tl_full ls))" "list_all proper_line ls"
    and "list_all (\<lambda>line. tl_terminator line \<noteq> ''NONE'') (butlast ls)"
  shows "list_all (\<lambda>line. valid_utf8 (tl_content line)) ls"
  using assms
proof (induction ls)
  case (Cons l ls)
  have p: "tl_full l = tl_content l @ terminator_bytes (tl_terminator l)"
    "tl_terminator l \<in> {''LF'', ''CRLF'', ''CR'', ''NONE''}" using Cons.prems(2) by (auto simp: proper_line_def)
  let ?rest = "concat (map tl_full ls)"
  have v: "valid_utf8 (tl_content l @ terminator_bytes (tl_terminator l) @ ?rest)" using Cons.prems(1) p(1) by simp
  show ?case
  proof (cases "tl_terminator l = ''NONE''")
    case True
    with Cons.prems(3) have "ls = []" by (cases ls) auto
    with True v show ?thesis by (simp add: terminator_bytes_def)
  next
    case False
    with p(2) v have "valid_utf8 (tl_content l) \<and> valid_utf8 ?rest"
      using valid_utf8_at_ascii[of "tl_content l" 10 ?rest] valid_utf8_at_ascii[of "tl_content l" 13 ?rest]
        valid_utf8_at_ascii[of "tl_content l" 13 "10 # ?rest"] valid_utf8_at_ascii[of "[]" 10 ?rest]
      by (auto simp: terminator_bytes_def)
    moreover have "list_all (\<lambda>line. tl_terminator line \<noteq> ''NONE'') (butlast ls)" using Cons.prems(3) by (cases ls) auto
    ultimately show ?thesis using Cons by simp
  qed
qed simp

lemma clean_decimal [simp]: "clean_text (decimal n)"
  using decimal_digits[of n]
  by (intro clean_plain) (auto simp: list_all_iff is_ascii_digit_def plain_char_def)

lemma clean_hex [simp]: "clean_text (to_prefixed_hex d)"
proof -
  have "list_all plain_char HEX" by (simp add: HEX_def plain_char_def)
  then have hex: "plain_char (HEX ! n)" if "n < 16" for n
    using that by (auto simp: list_all_length HEX_def)
  have "unat (drop_bit 4 b) < 16" "unat (and b 15) < 16" for b :: u8
    using unat_u8_lt[of b] sextet_bounds(1) by (simp_all add: unat_drop unat_and_mask)
  then have "list_all plain_char (concat (map (\<lambda>byte. [HEX ! unat (drop_bit 4 byte), HEX ! unat (and byte 15)]) d))"
    by (induction d) (simp_all add: hex)
  then show ?thesis by (intro clean_plain) (simp add: to_prefixed_hex_def plain_char_def)
qed

lemma clean_escape_text [simp]: "valid_utf8 (as_bytes s) \<Longrightarrow> clean_text (escape_text s)"
  by (simp add: escape_text_def clean_escape)

lemma clean_join: "clean_text sep \<Longrightarrow> list_all clean_text ss \<Longrightarrow> clean_text (join sep ss)"
  by (induction sep ss rule: join.induct) (auto intro!: clean_append)

lemma clean_NL [simp]: "clean_text NL"
  by (rule clean_plain) (simp add: NL_def plain_char_def)

lemmas clean_intros = clean_append clean_Cons clean_Nil clean_decimal clean_hex clean_NL clean_escape_text

lemma clean_diff_line:
  assumes "plain_char c" "valid_utf8 (tl_content line)" "proper_line line"
  shows "clean_text (diff_line c line)"
proof -
  have "clean_text [c]" "clean_text ('' ['' @ tl_terminator line @ '']'' @ [CHR 0x0A])"
    using assms(1,3) by (auto intro!: clean_plain simp: plain_char_def proper_line_def)
  then have "clean_text ([c] @ text_of (escape_terminal_text (tl_content line)) @ ('' ['' @ tl_terminator line @ '']'' @ [CHR 0x0A]))"
    by (rule clean_append[OF _ clean_append[OF clean_escape[OF assms(2)]]])
  then show ?thesis by (simp add: diff_line_def)
qed

lemma clean_hunk:
  assumes "valid_utf8 (as_bytes path)"
    and "list_all (\<lambda>line. valid_utf8 (tl_content line) \<and> proper_line line) (removed @ added)"
  shows "list_all clean_text (hunk path shared removed added)"
proof -
  have "list_all clean_text (header_lines path i j k)" for i j k
    using assms(1) by (auto simp: header_lines_def Let_def plain_char_def intro!: clean_intros)
  moreover have "plain_char (CHR ''-'')" "plain_char (CHR ''+'')" by (simp_all add: plain_char_def)
  ultimately show ?thesis using assms(2) clean_diff_line by (auto simp: hunk_def list_all_iff)
qed

lemma push_texts_clean:
  assumes "if ok then t' = t @ concat ss \<and> X else Y \<and> (\<exists>k < length ss. t' = t @ concat (take k ss))"
    and "clean_text t" "list_all clean_text ss"
  shows "clean_text t'"
  using assms by (auto split: if_splits intro!: clean_append clean_concat simp: list_all_iff dest!: in_set_takeD)

lemma write_output_clean:
  assumes "valid_utf8 before" "valid_utf8 after" "writer_ok w" "clean_text (dw_text w)"
    and "valid_utf8 (as_bytes path)"
    and "write_output path before after w = Ok (ok, w')"
  shows "writer_ok w' \<and> clean_text (dw_text w')"
proof (cases "dw_truncation w = None")
  case True
  have ls: "list_all (\<lambda>line. valid_utf8 (tl_content line) \<and> proper_line line) ls"
    if "valid_utf8 bs" "ls = text_lines_from bs 0 0" for bs ls
  proof -
    have tl: "text_lines bs = Ok ls" using that by (simp add: text_lines_def)
    show ?thesis
      using line_contents_valid[of ls] text_lines_spec[OF tl] that(1) by (simp add: list_all_iff)
  qed
  let ?bl = "text_lines_from before 0 0" and ?al = "text_lines_from after 0 0"
  let ?p = "common_lines ?bl ?al"
  let ?s = "common_lines (rev (drop ?p ?bl)) (rev (drop ?p ?al))"
  let ?h = "hunk path (take ?p ?bl) (slice ?bl ?p (length ?bl - ?s)) (slice ?al ?p (length ?al - ?s))"
  have "list_all clean_text ?h"
    using ls[OF assms(1) refl] ls[OF assms(2) refl]
    by (intro clean_hunk[OF assms(5)]) (auto simp: list_all_iff slice_def dest!: in_set_takeD in_set_dropD)
  moreover obtain ok' w'' where "write_output path before after w = Ok (ok', w'')" "writer_ok w''"
    "if ok' then dw_text w'' = dw_text w @ concat ?h \<and> dw_truncation w'' = None
     else dw_truncation w'' \<noteq> None \<and> (\<exists>k < length ?h. dw_text w'' = dw_text w @ concat (take k ?h))"
    by (rule write_output_hunk[OF assms(1-3) True, of path])
  ultimately show ?thesis using assms(4,6) push_texts_clean by auto
next
  case False
  then show ?thesis
    using assms(3,4,6) charge_ok charge_truncation
    by (auto simp: write_output_def Let_def)
qed

lemma write_outputs_clean:
  assumes "write_outputs snapshot files outputs w = Ok w'"
    and "any_binary snapshot files outputs = Ok False"
    and "writer_ok w" "clean_text (dw_text w)"
    and "\<forall>out \<in> set outputs. valid_utf8 (as_bytes (path_value (po_path out)))"
  shows "clean_text (dw_text w')"
  using assms
proof (induction outputs arbitrary: w)
  case (Cons out outputs)
  from Cons.prems(1,2) obtain after where a: "materialize_output out files = Ok after"
    by (cases "materialize_output out files") auto
  have v: "valid_utf8 (before_of snapshot out)" "valid_utf8 after" "any_binary snapshot files outputs = Ok False"
    using Cons.prems(2) a by (auto simp: is_binary_def split: if_splits)
  obtain ok w1 where w1: "write_output (path_value (po_path out)) (before_of snapshot out) after w = Ok (ok, w1)"
    using Cons.prems(1) a by (auto split: prod.splits)
  note step = write_output_clean[OF v(1,2) Cons.prems(3,4) _ w1]
  show ?case
    using Cons.prems(1,5) Cons.IH[OF _ v(3)] step a w1 by (auto split: if_splits)
qed simp

lemma response_aware_diff_budget_le:
  "response_aware_diff_budget printer p h ops outs review warnings = Ok n \<Longrightarrow> n \<le> DIFF_OUTPUT_BYTES"
  by (auto simp: response_aware_diff_budget_def Let_def)

lemma text_diff_clean:
  assumes "text_diff snapshot changed files review n = Ok d"
    and "any_binary snapshot files changed = Ok False" "n \<le> DIFF_OUTPUT_BYTES"
    and "\<forall>out \<in> set changed. valid_utf8 (as_bytes (path_value (po_path out)))"
  shows "clean_text (bd_human d)"
proof -
  obtain w where w: "write_outputs snapshot files changed (with_maximum_output_bytes n) = Ok w"
    "bd_human d = (if dw_text w = [] then ''(no byte changes)'' @ [CHR 0x0A] else dw_text w)"
    using assms(1) by (auto simp: text_diff_def Let_def)
  have "writer_ok (with_maximum_output_bytes n)" "clean_text (dw_text (with_maximum_output_bytes n))"
    using assms(3) by (simp_all add: writer_ok_def with_maximum_output_bytes_def DIFF_OUTPUT_BYTES_def u64_max_def)
  from write_outputs_clean[OF w(1) assms(2) this assms(4)] w(2) show ?thesis
    by (auto simp: plain_char_def intro!: clean_intros)
qed

lemma build_diff_clean:
  assumes "build_diff printer snapshot p files no_diff review budget = Ok d"
    and "\<forall>out \<in> set (ep_outputs p). valid_utf8 (as_bytes (path_value (po_path out)))"
    and "\<forall>v. valid_utf8 (as_bytes (pn_value_text printer v))"
  shows "clean_text (bd_human d) \<and> (\<forall>w. bd_warning d = Some w \<longrightarrow> valid_utf8 (as_bytes (wa_message w)))"
proof -
  have message: "valid_utf8 (as_bytes (wa_message (diff_truncated_warning reason)))" for reason
    using clean_plain[of "''the bounded preview diff omitted detail''"]
    by (simp add: diff_truncated_warning_def new_warning_def plain_char_def clean_text_def)
  have written: "clean_text (bd_human d) \<and> (\<forall>w. bd_warning d = Some w \<longrightarrow> valid_utf8 (as_bytes (wa_message w)))"
    if "text_diff snapshot changed files review n = Ok d" "any_binary snapshot files changed = Ok False"
      "n \<le> DIFF_OUTPUT_BYTES" "set changed \<subseteq> set (ep_outputs p)" for changed n
    using text_diff_clean[OF that(1-3)] that(1,4) assms(2) message by (auto simp: text_diff_def Let_def)
  let ?changed = "filter (\<lambda>out. po_change out \<noteq> Unchanged) (ep_outputs p)"
  have sub: "set ?changed \<subseteq> set (ep_outputs p)" by auto
  consider (plain) "bd_human d = ''omitted (--no-diff)'' @ [CHR 0x0A] \<or> bd_human d = ''(no byte changes)'' @ [CHR 0x0A]"
      "bd_warning d = None"
    | (summarised) v reason where
      "bd_human d = ''summary (detailed input limit): '' @ escape_text (pn_value_text printer v) @ [CHR 0x0A] \<or>
       bd_human d = ''binary summary: '' @ escape_text (pn_value_text printer v) @ [CHR 0x0A]"
      "bd_warning d = None \<or> bd_warning d = Some (diff_truncated_warning reason)"
    | (texts) n where "text_diff snapshot ?changed files review n = Ok d" "any_binary snapshot files ?changed = Ok False"
      "n \<le> DIFF_OUTPUT_BYTES"
    using assms(1) unfolding build_diff_def Let_def
    by (auto split: if_splits option.splits dest!: response_aware_diff_budget_le)
  then show ?thesis
  proof cases
    case plain
    then show ?thesis by (auto simp: plain_char_def intro!: clean_intros)
  next
    case summarised
    then show ?thesis using assms(3) message by (auto simp: plain_char_def intro!: clean_intros)
  next
    case texts
    from written[OF this sub] show ?thesis .
  qed
qed

lemma and_then_clean: "and_then r (\<lambda>m. Ok (f m)) = Ok s \<Longrightarrow> (\<And>m. clean_text (f m)) \<Longrightarrow> clean_text s"
  by auto

lemma operation_row_clean:
  assumes "operation_row review x = Ok s"
    and "valid_utf8 (as_bytes (path_value (ro_source_path (snd x))))"
    and "valid_utf8 (as_bytes (path_value (ro_destination_path (snd x))))"
  shows "clean_text s"
proof -
  obtain row op where x: "x = (row, op)" by fastforce
  have kind: "clean_text (case ro_kind op of Move \<Rightarrow> ''move'' | Copy \<Rightarrow> ''copy'')"
    "clean_text (case ro_effect op of Changed \<Rightarrow> ''changed'' | NoOp \<Rightarrow> ''no_op'')"
    by (cases "ro_kind op"; cases "ro_effect op"; simp add: clean_Cons plain_char_def)+
  have metrics: "clean_text (case m of None \<Rightarrow> []
      | Some metrics \<Rightarrow> '' selected_byte_length='' @ decimal (vo_selected_byte_length metrics) @
          '' selected_logical_line_count='' @ decimal (vo_selected_logical_line_count metrics))" for m
    by (cases m; simp only: option.case; intro clean_intros; simp add: plain_char_def)
  show ?thesis
    by (rule and_then_clean[OF assms(1)[unfolded operation_row_def x prod.case]], intro clean_intros kind metrics)
      (use assms(2,3) x in \<open>simp_all add: plain_char_def\<close>)
qed

lemma insertion_group_row_clean: "clean_text (insertion_group_row g)"
proof -
  have "clean_text (join '','' (map decimal is))" for "is"
    by (intro clean_join) (auto simp: list_all_iff plain_char_def intro!: clean_intros)
  then show ?thesis by (simp only: insertion_group_row_def) (intro clean_intros, simp_all add: plain_char_def)
qed

lemma clean_optional_text: "(\<And>a. clean_text (f a)) \<Longrightarrow> clean_text (optional_text f y)"
  by (auto simp: optional_text_def clean_Cons plain_char_def split: option.split)

lemma clean_output_change_name: "clean_text (output_change_name c)"
  by (cases c) (simp_all add: output_change_name_def clean_Cons plain_char_def)

lemma output_row_clean:
  assumes "output_row snapshot review x = Ok s" "valid_utf8 (as_bytes (path_value (po_path (snd x))))"
  shows "clean_text s"
proof -
  obtain row out where x: "x = (row, out)" by fastforce
  have index: "clean_text (if b then ''['' @ decimal row @ ''] '' else [])" for b
    by (cases b; simp only: if_True if_False simp_thms; intro clean_intros; simp add: plain_char_def)
  have groups: "clean_text (concat (map insertion_group_row gs))" for gs
    by (intro clean_concat) (simp add: list_all_iff insertion_group_row_clean)
  have metrics: "clean_text (case m of None \<Rightarrow> NL
        | Some metrics \<Rightarrow>
            '' before_logical_line_count='' @ optional_text decimal (vu_before_logical_line_count metrics) @
            '' after_logical_line_count='' @ decimal (vu_after_logical_line_count metrics) @ NL @
            concat (map insertion_group_row (vu_insertion_groups_in_output_order metrics)))" for m
    by (cases m; simp only: option.case; intro clean_intros clean_optional_text groups; simp add: plain_char_def)
  show ?thesis
    by (rule and_then_clean[OF assms(1)[unfolded output_row_def x prod.case]],
        intro clean_intros index metrics clean_optional_text clean_output_change_name)
      (use assms(2) x in \<open>simp_all add: plain_char_def\<close>)
qed

lemma warning_row_clean: "valid_utf8 (as_bytes (wa_message w)) \<Longrightarrow> clean_text (warning_row w)"
  by (cases "wa_code w") (auto simp: warning_row_def plain_char_def intro!: clean_intros)

lemma render_human_clean:
  assumes "render_human snapshot p h diff warnings review = Ok s" "clean_text diff"
    and "\<forall>op \<in> set (ep_operations p). valid_utf8 (as_bytes (path_value (ro_source_path op))) \<and>
      valid_utf8 (as_bytes (path_value (ro_destination_path op)))"
    and "\<forall>out \<in> set (ep_outputs p). valid_utf8 (as_bytes (path_value (po_path out)))"
    and "\<forall>w \<in> set warnings. valid_utf8 (as_bytes (wa_message w))"
  shows "clean_text s"
proof -
  obtain rows outs where rows: "try_map (operation_row review) (enumerate 0 (ep_operations p)) = Ok rows"
    and outs: "try_map (output_row snapshot review) (enumerate 0 (ep_outputs p)) = Ok outs"
    and s: "s = ''srcmv preview'' @ NL @ ''plan_hash_version: 1'' @ NL @ ''plan_sha256: '' @ to_prefixed_hex (ep_digest p) @ NL @
       ''workspace_identity_hash: '' @ to_prefixed_hex h @ NL @ ''resolved_operations:'' @ NL @
       concat rows @ ''outputs:'' @ NL @ concat outs @ ''diff:'' @ NL @ diff @ ''warnings:'' @ NL @
       concat (map warning_row warnings)"
    using assms(1) by (auto simp: render_human_def)
  have "list_all clean_text rows"
    using rows assms(3) operation_row_clean
    by (fastforce simp: try_map_Ok_iff list_all2_conv_all_nth list_all_length nth_enumerate_eq)
  moreover have "list_all clean_text outs"
    using outs assms(4) output_row_clean
    by (fastforce simp: try_map_Ok_iff list_all2_conv_all_nth list_all_length nth_enumerate_eq)
  moreover have "list_all clean_text (map warning_row warnings)"
    using assms(5) warning_row_clean by (auto simp: list_all_iff)
  ultimately show ?thesis
    unfolding s using assms(2) by (auto simp: plain_char_def intro!: clean_intros clean_concat)
qed

text \<open>
  C30: The human preview is safe to print. When the paths of the plan, the messages of the given
  warnings and the text of a summary value are UTF-8, as Rust strings always are, the whole report
  (operations, outputs, diff or summary, and warnings) is UTF-8 that holds no control and no bidirectional
  formatting character but line feeds, whatever the bytes of the files are.
\<close>

theorem human_preview_is_clean:
  assumes "build_preview printer snapshot p h no_diff include_summary warnings = Ok artifacts"
    and "\<forall>op \<in> set (ep_operations p). valid_utf8 (as_bytes (path_value (ro_source_path op))) \<and>
      valid_utf8 (as_bytes (path_value (ro_destination_path op)))"
    and "\<forall>out \<in> set (ep_outputs p). valid_utf8 (as_bytes (path_value (po_path out)))"
    and "\<forall>w \<in> set warnings. valid_utf8 (as_bytes (wa_message w))"
    and "\<forall>v. valid_utf8 (as_bytes (pn_value_text printer v))"
  shows "clean_text (pa_human artifacts)"
proof -
  obtain review v budget d where
    d: "build_diff printer snapshot p (files_by_id snapshot) no_diff v budget = Ok d"
    and r: "render_human snapshot p h (bd_human d)
      (warnings @ (case bd_warning d of None \<Rightarrow> [] | Some w \<Rightarrow> [w])) review = Ok (pa_human artifacts)"
    using assms(1) by (auto simp: build_preview_def Let_def)
  note clean = build_diff_clean[OF d assms(3,5)]
  show ?thesis
    using render_human_clean[OF r conjunct1[OF clean] assms(2,3)] assms(4) conjunct2[OF clean]
    by (cases "bd_warning d") auto
qed

definition plain_printer :: Printer where
  "plain_printer = \<lparr>pn_review_value = (\<lambda>_. Some Null), pn_value_text = (\<lambda>_. ''{}''), pn_preview = (\<lambda>_. \<lparr>se_writes = [[123, 125]], se_fails = False\<rparr>)\<rparr>"

lemma human_preview_is_clean_witness:
  "\<exists>p artifacts. plan small_layout length_digest move_snapshot move_batch default_resource_budget = Ok p \<and>
     build_preview plain_printer move_snapshot p [1] False False [] = Ok artifacts \<and>
     clean_text (pa_human artifacts)"
proof -
  obtain p where p: "plan small_layout length_digest move_snapshot move_batch default_resource_budget = Ok p"
    "ep_operations p = [move_operation]" "ep_outputs p = [move_output]"
    using move_plan by blast
  have ascii: "valid_utf8 (as_bytes ''a'')" "valid_utf8 (as_bytes ''{}'')"
    using clean_plain[of "''a''"] clean_plain[of "''{}''"] by (simp_all add: plain_char_def clean_text_def)
  have before: "before_of move_snapshot move_output = [65, 10, 66, 10]"
    by (simp add: before_of_def before_bytes_def move_snapshot_def move_output_def)
  have after: "materialize_output move_output (files_by_id move_snapshot) = Ok [66, 10, 65, 10]"
    by (simp add: materialize_output_def visit_output_chunks_def output_chunk_def move_output_def move_snapshot_def
        files_by_id_def get_slice_def slice_def)
  have valid: "valid_utf8 [65, 10, 66, 10]" "valid_utf8 [66, 10, 65, 10]"
    using clean_plain[of "[CHR ''A'', CHR 0x0A, CHR ''B'', CHR 0x0A]"] clean_plain[of "[CHR ''B'', CHR 0x0A, CHR ''A'', CHR 0x0A]"]
    by (simp_all add: plain_char_def clean_text_def as_bytes_map byte_of_def)
  have writer: "writer_ok (with_maximum_output_bytes DIFF_OUTPUT_BYTES)"
    "dw_truncation (with_maximum_output_bytes DIFF_OUTPUT_BYTES) = None"
    by (simp_all add: writer_ok_def with_maximum_output_bytes_def DIFF_OUTPUT_BYTES_def u64_max_def)
  obtain ok w where w: "write_output ''a'' [65, 10, 66, 10] [66, 10, 65, 10] (with_maximum_output_bytes DIFF_OUTPUT_BYTES) = Ok (ok, w)"
    by (rule write_output_hunk[OF valid writer, of "''a''"])
  have move: "path_value (po_path move_output) = ''a''" "po_change move_output = ModifiedExisting" "po_resulting_length move_output = 4"
    by (simp_all add: move_output_def)
  obtain d where d: "build_diff plain_printer move_snapshot p (files_by_id move_snapshot) False None None = Ok d"
    using after before valid w
    by (auto simp: build_diff_def p move detailed_input_exceeded_def DETAILED_DIFF_INPUT_BYTES_def is_binary_def
        text_diff_def merge_review_summary_def Let_def split: if_splits)
  obtain a where a: "build_preview plain_printer move_snapshot p [1] False False [] = Ok a"
    using d by (simp add: build_preview_def Let_def render_human_def p operation_row_def output_row_def review_entry_def)
  have "clean_text (pa_human a)"
    using ascii
    by (intro human_preview_is_clean[OF a]) (simp_all add: p move_operation_def move_output_def plain_printer_def)
  with p(1) a show ?thesis by blast
qed

end
