(* ===== verification/Server_Config.thy ===== *)
theory Server_Config
  imports Json_Rpc
begin

text \<open>
  The trusted configuration and the discovery of language servers (\<open>crates/srcmv-lsp/src/config.rs\<close>):
  the bounded document, the validation of its descriptors, the built-in table and the resolution of a
  server into the specification of a process (the builder of \<open>process.rs\<close>). Paths are Unix paths, spelled
  as strings with the component rules of the standard library. Parameters are the parser of \<open>toml\<close>, its
  typed decoding, the printer of \<open>serde_json\<close> and what the operating system says of paths.
\<close>

section \<open>Text and paths of the standard library\<close>

text \<open>The Unicode property \<open>White_Space\<close> that \<open>str::trim\<close> strips.\<close>

definition is_whitespace :: "nat \<Rightarrow> bool" where
  "is_whitespace c \<longleftrightarrow>
     9 \<le> c \<and> c \<le> 13 \<or> 0x2000 \<le> c \<and> c \<le> 0x200A \<or>
     c \<in> {0x20, 0x85, 0xA0, 0x1680, 0x2028, 0x2029, 0x202F, 0x205F, 0x3000}"

definition trim :: "string \<Rightarrow> string" where
  "trim s = text_of (utf8 (rev (dropWhile is_whitespace (rev (dropWhile is_whitespace (chars (as_bytes s)))))))"

definition to_ascii_lowercase :: "string \<Rightarrow> string" where
  "to_ascii_lowercase s = map ascii_lower s"

datatype PathComponent = RootDir | CurDir | ParentDir | NormalName string

definition is_absolute_path :: "string \<Rightarrow> bool" where
  "is_absolute_path p \<longleftrightarrow> take 1 p = ''/''"

definition name_component :: "string \<Rightarrow> PathComponent list" where
  "name_component s =
     (if s = [] \<or> s = ''.'' then [] else if s = ''..'' then [ParentDir] else [NormalName s])"

text \<open>Empty and \<open>.\<close> components disappear, but a relative path keeps a leading \<open>.\<close>.\<close>

definition path_components :: "string \<Rightarrow> PathComponent list" where
  "path_components p =
     (let names = split_on CHR ''/'' p in
      (if is_absolute_path p then [RootDir] else if hd names = ''.'' then [CurDir] else []) @
      concat (map name_component names))"

definition path_join :: "string \<Rightarrow> string \<Rightarrow> string" where
  "path_join p q =
     (if is_absolute_path q then q
      else if p \<noteq> [] \<and> last p \<noteq> CHR ''/'' then p @ ''/'' @ q else p @ q)"

definition path_starts_with :: "string \<Rightarrow> string \<Rightarrow> bool" where
  "path_starts_with p base \<longleftrightarrow>
     take (length (path_components base)) (path_components p) = path_components base"

definition split_paths :: "string \<Rightarrow> string list" where
  "split_paths v = split_on CHR '':'' v"

section \<open>Process specifications\<close>

record ProcessSpec =
  ps_program :: string
  ps_arguments :: "string list"
  ps_environment :: "(string \<times> string) list"
  ps_current_directory :: "string option"
  ps_clear_environment :: bool

definition new_process :: "string \<Rightarrow> ProcessSpec" where
  "new_process program =
     \<lparr>ps_program = program, ps_arguments = [], ps_environment = [], ps_current_directory = None,
      ps_clear_environment = False\<rparr>"

definition args :: "string list \<Rightarrow> ProcessSpec \<Rightarrow> ProcessSpec" where
  "args xs spec = spec\<lparr>ps_arguments := ps_arguments spec @ xs\<rparr>"

definition current_directory :: "string \<Rightarrow> ProcessSpec \<Rightarrow> ProcessSpec" where
  "current_directory directory spec = spec\<lparr>ps_current_directory := Some directory\<rparr>"

section \<open>Data and limits\<close>

definition MAX_CONFIGURATION_BYTES :: nat where "MAX_CONFIGURATION_BYTES = 1024 * 1024"
definition MAX_CONFIGURATION_DEPTH :: nat where "MAX_CONFIGURATION_DEPTH = 32"
definition MAX_SERVER_ARGUMENTS :: nat where "MAX_SERVER_ARGUMENTS = 128"
definition MAX_SERVER_ARGUMENT_BYTES :: nat where "MAX_SERVER_ARGUMENT_BYTES = 16 * 1024"
definition MAX_TOTAL_SERVER_ARGUMENT_BYTES :: nat where "MAX_TOTAL_SERVER_ARGUMENT_BYTES = 256 * 1024"
definition MAX_CONFIGURATION_JSON_BYTES :: nat where "MAX_CONFIGURATION_JSON_BYTES = 1024 * 1024"
definition MAX_SERVER_ID_BYTES :: nat where "MAX_SERVER_ID_BYTES = 255"
definition MAX_LANGUAGE_IDENTIFIER_BYTES :: nat where "MAX_LANGUAGE_IDENTIFIER_BYTES = 255"
definition MAX_SERVER_PROGRAM_BYTES :: nat where "MAX_SERVER_PROGRAM_BYTES = 16 * 1024"
definition CONFIGURATION_VERSION :: nat where "CONFIGURATION_VERSION = 1"
definition DEFAULT_STARTUP_TIMEOUT_MS :: nat where "DEFAULT_STARTUP_TIMEOUT_MS = 10000"
definition DEFAULT_REQUEST_TIMEOUT_MS :: nat where "DEFAULT_REQUEST_TIMEOUT_MS = 30000"
definition MIN_TIMEOUT_MS :: nat where "MIN_TIMEOUT_MS = 100"
definition MAX_TIMEOUT_MS :: nat where "MAX_TIMEOUT_MS = 300000"

text \<open>\<open>Duration\<close> values are milliseconds.\<close>

record ServerDescriptor =
  sd_id :: string
  sd_extensions :: "string list"
  sd_language_id :: string
  sd_program :: string
  sd_arguments :: "string list"
  sd_initialization_options :: "Value option"
  sd_settings :: "Value option"
  sd_project_root :: string
  sd_allow_workspace_program :: bool
  sd_startup_timeout :: nat
  sd_request_timeout :: nat

record UserConfiguration =
  uc_servers :: "ServerDescriptor list"

datatype ServerOrigin = ExplicitOrigin | UserConfigurationOrigin | BuiltInOrigin

datatype ServerSelection =
    Automatic
  | ServerId string
  | Program (sel_program: string) (sel_arguments: "string list") (sel_language_id: string)

record ResolutionRequest =
  rq_workspace_root :: string
  rq_source_extension :: string
  rq_selection :: ServerSelection
  rq_executable_path :: "string option"

record ResolvedServer =
  rs_configuration_id :: "string option"
  rs_language_id :: string
  rs_process :: ProcessSpec
  rs_initialization_options :: "Value option"
  rs_settings :: "Value option"
  rs_project_root :: string
  rs_startup_timeout :: nat
  rs_request_timeout :: nat
  rs_origin :: ServerOrigin

text \<open>The kind of an I/O error is its name.\<close>

datatype ConfigError =
    ReadError string
  | ConfigurationTooLarge nat
  | NonUtf8Configuration
  | MalformedConfiguration
  | ConfigurationTooDeep nat
  | UnsupportedVersion nat
  | EmptyField
  | InvalidServerId
  | FieldTooLarge string nat
  | DuplicateServerId string
  | DuplicateDescriptorExtension string
  | InvalidProjectRoot string
  | InvalidTimeout string
  | InvalidArguments
  | OversizedJsonConfiguration string
  | AmbiguousExtension
  | ServerNotConfigured
  | UnknownServerId string
  | ExecutableNotFound string
  | InvalidExplicitSelection

definition config_error_display :: "ConfigError \<Rightarrow> string" where
  "config_error_display e =
     (case e of
        ReadError kind \<Rightarrow> ''could not read the user language-server configuration ('' @ kind @ '')''
      | ConfigurationTooLarge limit \<Rightarrow>
          ''user language-server configuration exceeds '' @ decimal limit @ '' bytes''
      | NonUtf8Configuration \<Rightarrow> ''user language-server configuration is not UTF-8''
      | MalformedConfiguration \<Rightarrow> ''user language-server configuration is malformed''
      | ConfigurationTooDeep limit \<Rightarrow>
          ''user language-server configuration exceeds nesting depth '' @ decimal limit
      | UnsupportedVersion version \<Rightarrow>
          ''unsupported user language-server configuration version '' @ decimal version
      | EmptyField \<Rightarrow> ''server descriptor contains an empty required field''
      | InvalidServerId \<Rightarrow>
          ''server configuration ID may contain only ASCII letters, digits, `.`, `_`, and `-`''
      | FieldTooLarge field limit \<Rightarrow>
          ''server descriptor '' @ field @ '' exceeds '' @ decimal limit @ '' bytes''
      | DuplicateServerId ident \<Rightarrow> ''duplicate normalized server configuration ID `'' @ ident @ ''`''
      | DuplicateDescriptorExtension ident \<Rightarrow>
          ''server configuration `'' @ ident @ ''` repeats a normalized extension''
      | InvalidProjectRoot ident \<Rightarrow> ''server configuration `'' @ ident @ ''` has an invalid project root''
      | InvalidTimeout ident \<Rightarrow>
          ''server configuration `'' @ ident @ ''` has a timeout outside supported bounds''
      | InvalidArguments \<Rightarrow> ''server arguments exceed the configured resource limits''
      | OversizedJsonConfiguration ident \<Rightarrow>
          ''server configuration `'' @ ident @ ''` contains oversized options or settings''
      | AmbiguousExtension \<Rightarrow>
          ''multiple trusted servers recognize the extension; select a server ID explicitly''
      | ServerNotConfigured \<Rightarrow> ''no language server is configured for the requested source''
      | UnknownServerId ident \<Rightarrow> ''language-server configuration ID `'' @ ident @ ''` was not found''
      | ExecutableNotFound ident \<Rightarrow>
          ''language-server executable for configuration `'' @ ident @ ''` was not found in a trusted location''
      | InvalidExplicitSelection \<Rightarrow>
          ''explicit language-server selection requires a program and language ID'')"

section \<open>The document\<close>

definition configuration_path :: "string option \<Rightarrow> string option \<Rightarrow> string option" where
  "configuration_path explicit_override platform_configuration_directory =
     (case explicit_override of
        Some p \<Rightarrow> Some p
      | None \<Rightarrow>
          map_option (\<lambda>directory. path_join (path_join directory ''srcmv'') ''config.toml'')
            platform_configuration_directory)"

text \<open>Values of \<open>toml\<close>; a float or a date is its spelling.\<close>

datatype TomlValue =
    TomlString string
  | TomlInteger int
  | TomlFloat string
  | TomlBoolean bool
  | TomlDatetime string
  | TomlArray "TomlValue list"
  | TomlTable "(string \<times> TomlValue) list"

record RawServerDescriptor =
  rd_id :: string
  rd_extensions :: "string list"
  rd_language_id :: string
  rd_program :: string
  rd_args :: "string list"
  rd_initialization_options :: "Value option"
  rd_settings :: "Value option"
  rd_project_root :: string
  rd_allow_workspace_program :: bool
  rd_startup_timeout_ms :: nat
  rd_request_timeout_ms :: nat

record RawConfiguration =
  rn_version :: nat
  rn_servers :: "RawServerDescriptor list"

text \<open>
  The parsers and printers of the libraries, and the bounded read of a file: at most the given number
  of bytes, or the kind of the error.
\<close>

record ConfigLibrary =
  cl_toml_from_str :: "string \<Rightarrow> TomlValue option"
  cl_try_into :: "TomlValue \<Rightarrow> RawConfiguration option"
  cl_to_vec :: "Value \<Rightarrow> bytes option"
  cl_read_at_most :: "string \<Rightarrow> nat \<Rightarrow> string + bytes"

text \<open>The nodes of a value, the measure of both depth checks.\<close>

fun toml_children :: "TomlValue \<Rightarrow> TomlValue list" where
  "toml_children (TomlArray vs) = vs"
| "toml_children (TomlTable es) = map snd es"
| "toml_children _ = []"

fun toml_nodes :: "TomlValue \<Rightarrow> nat" where
  "toml_nodes (TomlArray vs) = Suc (sum_list (map toml_nodes vs))"
| "toml_nodes (TomlTable es) = Suc (sum_list (map (\<lambda>e. toml_nodes (snd e)) es))"
| "toml_nodes _ = 1"

fun json_children :: "Value \<Rightarrow> Value list" where
  "json_children (Array vs) = vs"
| "json_children (Object es) = map snd es"
| "json_children _ = []"

fun json_nodes :: "Value \<Rightarrow> nat" where
  "json_nodes (Array vs) = Suc (sum_list (map json_nodes vs))"
| "json_nodes (Object es) = Suc (sum_list (map (\<lambda>e. json_nodes (snd e)) es))"
| "json_nodes _ = 1"

lemma toml_nodes_children: "sum_list (map toml_nodes (toml_children v)) < toml_nodes v"
  by (cases v) (simp_all add: comp_def)

lemma json_nodes_children: "sum_list (map json_nodes (json_children v)) < json_nodes v"
  by (cases v) (simp_all add: comp_def)

text \<open>
  The stack of pending values with their depths, its top first: \<open>pop\<close> takes the value that was
  pushed last, and the children of a value are pushed in order.
\<close>

function toml_depth_loop :: "(TomlValue \<times> nat) list \<Rightarrow> ConfigError + unit" where
  "toml_depth_loop [] = Ok ()"
| "toml_depth_loop ((v, depth) # pending) =
     (if MAX_CONFIGURATION_DEPTH < depth then Err (ConfigurationTooDeep MAX_CONFIGURATION_DEPTH)
      else toml_depth_loop (rev (map (\<lambda>child. (child, saturating_add_u64 depth 1)) (toml_children v)) @ pending))"
  by pat_completeness auto
termination
  by (relation "measure (\<lambda>pending. sum_list (map (\<lambda>(v, _). toml_nodes v) pending))")
    (simp_all add: toml_nodes_children rev_map[symmetric] comp_def)

definition validate_toml_depth :: "TomlValue \<Rightarrow> ConfigError + unit" where
  "validate_toml_depth root = toml_depth_loop [(root, 1)]"

function json_depth_loop :: "string \<Rightarrow> (Value \<times> nat) list \<Rightarrow> ConfigError + unit" where
  "json_depth_loop ident [] = Ok ()"
| "json_depth_loop ident ((v, depth) # pending) =
     (if MAX_CONFIGURATION_DEPTH < depth then Err (OversizedJsonConfiguration ident)
      else json_depth_loop ident (rev (map (\<lambda>child. (child, saturating_add_u64 depth 1)) (json_children v)) @ pending))"
  by pat_completeness auto
termination
  by (relation "measure (\<lambda>(_, pending). sum_list (map (\<lambda>(v, _). json_nodes v) pending))")
    (simp_all add: json_nodes_children rev_map[symmetric] comp_def)

definition validate_json :: "ConfigLibrary \<Rightarrow> Value \<Rightarrow> string \<Rightarrow> ConfigError + unit" where
  "validate_json lib v ident =
     and_then (ok_or (cl_to_vec lib v) (OversizedJsonConfiguration ident)) (\<lambda>bs.
     if MAX_CONFIGURATION_JSON_BYTES < length bs then Err (OversizedJsonConfiguration ident)
     else json_depth_loop ident [(v, 1)])"

section \<open>Validation\<close>

definition bounded_trimmed :: "string \<Rightarrow> string \<Rightarrow> nat \<Rightarrow> ConfigError + string" where
  "bounded_trimmed v field limit =
     (let v = trim v in
      if v = [] \<or> CHR 0x00 \<in> set v then Err EmptyField
      else if limit < length v then Err (FieldTooLarge field limit) else Ok v)"

definition bounded_untrimmed :: "string \<Rightarrow> string \<Rightarrow> nat \<Rightarrow> ConfigError + string" where
  "bounded_untrimmed v field limit =
     (if v = [] \<or> CHR 0x00 \<in> set v then Err EmptyField
      else if limit < length v then Err (FieldTooLarge field limit) else Ok v)"

definition id_byte :: "u8 \<Rightarrow> bool" where
  "id_byte b \<longleftrightarrow> is_ascii_alphanumeric b \<or> b \<in> set (as_bytes ''._-'')"

definition normalize_id :: "string \<Rightarrow> ConfigError + string" where
  "normalize_id v =
     and_then (bounded_trimmed v ''ID'' MAX_SERVER_ID_BYTES) (\<lambda>v.
     if \<not> list_all id_byte (as_bytes v) then Err InvalidServerId else Ok (to_ascii_lowercase v))"

definition strip_dot :: "string \<Rightarrow> string" where
  "strip_dot v = (case v of c # rest \<Rightarrow> if c = CHR ''.'' then rest else v | [] \<Rightarrow> v)"

definition normalize_extension :: "string \<Rightarrow> ConfigError + string" where
  "normalize_extension v =
     (let v = strip_dot (trim v) in
      if v = [] \<or> CHR ''/'' \<in> set v \<or> CHR 0x5C \<in> set v then Err EmptyField
      else if MAX_LANGUAGE_IDENTIFIER_BYTES < length v
      then Err (FieldTooLarge ''extension'' MAX_LANGUAGE_IDENTIFIER_BYTES)
      else Ok (to_ascii_lowercase v))"

text \<open>The normal components are pushed one after the other; any component that leaves the root is refused.\<close>

definition push_component :: "string option \<Rightarrow> PathComponent \<Rightarrow> string option" where
  "push_component normalized c =
     (case (normalized, c) of
        (Some p, CurDir) \<Rightarrow> Some p
      | (Some p, NormalName name) \<Rightarrow> Some (path_join p name)
      | (_, _) \<Rightarrow> None)"

definition normalize_relative_project_root :: "string \<Rightarrow> string option" where
  "normalize_relative_project_root path =
     (if path = [] \<or> is_absolute_path path then None
      else
        map_option (\<lambda>normalized. if normalized = [] then path_join normalized ''.'' else normalized)
          (foldl push_component (Some []) (path_components path)))"

definition validate_timeout :: "nat \<Rightarrow> string \<Rightarrow> ConfigError + nat" where
  "validate_timeout milliseconds ident =
     (if milliseconds < MIN_TIMEOUT_MS \<or> MAX_TIMEOUT_MS < milliseconds
      then Err (InvalidTimeout ident) else Ok milliseconds)"

definition charge_argument :: "nat \<Rightarrow> string \<Rightarrow> ConfigError + nat" where
  "charge_argument used argument =
     (if MAX_SERVER_ARGUMENT_BYTES < length argument \<or> CHR 0x00 \<in> set argument then Err InvalidArguments
      else
        and_then (ok_or (checked_add_u64 used (length argument)) InvalidArguments) (\<lambda>used.
        if MAX_TOTAL_SERVER_ARGUMENT_BYTES < used then Err InvalidArguments else Ok used))"

definition validate_arguments :: "string list \<Rightarrow> ConfigError + unit" where
  "validate_arguments arguments =
     (if MAX_SERVER_ARGUMENTS < length arguments then Err InvalidArguments
      else and_then (try_fold charge_argument 0 arguments) (\<lambda>_. Ok ()))"

definition note_extension :: "string \<Rightarrow> string list \<Rightarrow> string \<Rightarrow> ConfigError + string list" where
  "note_extension ident extensions extension =
     and_then (normalize_extension extension) (\<lambda>extension.
     if extension \<in> set extensions then Err (DuplicateDescriptorExtension ident) else Ok (extensions @ [extension]))"

definition validate_optional_json :: "ConfigLibrary \<Rightarrow> Value option \<Rightarrow> string \<Rightarrow> ConfigError + unit" where
  "validate_optional_json lib v ident = (case v of None \<Rightarrow> Ok () | Some v \<Rightarrow> validate_json lib v ident)"

text \<open>The identifiers seen so far are those of the descriptors built so far.\<close>

definition note_server ::
    "ConfigLibrary \<Rightarrow> ServerDescriptor list \<Rightarrow> RawServerDescriptor \<Rightarrow> ConfigError + ServerDescriptor list" where
  "note_server lib servers raw =
     and_then (normalize_id (rd_id raw)) (\<lambda>ident.
     if ident \<in> sd_id ` set servers then Err (DuplicateServerId ident)
     else
       and_then (bounded_trimmed (rd_language_id raw) ''language ID'' MAX_LANGUAGE_IDENTIFIER_BYTES) (\<lambda>language_id.
       and_then (bounded_untrimmed (rd_program raw) ''program'' MAX_SERVER_PROGRAM_BYTES) (\<lambda>program.
       and_then (validate_arguments (rd_args raw)) (\<lambda>_.
       and_then (validate_optional_json lib (rd_initialization_options raw) ident) (\<lambda>_.
       and_then (validate_optional_json lib (rd_settings raw) ident) (\<lambda>_.
       and_then (ok_or (normalize_relative_project_root (rd_project_root raw)) (InvalidProjectRoot ident)) (\<lambda>project_root.
       and_then (validate_timeout (rd_startup_timeout_ms raw) ident) (\<lambda>startup_timeout.
       and_then (validate_timeout (rd_request_timeout_ms raw) ident) (\<lambda>request_timeout.
       if rd_extensions raw = [] then Err EmptyField
       else
         and_then (try_fold (note_extension ident) [] (rd_extensions raw)) (\<lambda>extensions.
         Ok (servers @
           [\<lparr>sd_id = ident, sd_extensions = extensions, sd_language_id = language_id, sd_program = program,
             sd_arguments = rd_args raw, sd_initialization_options = rd_initialization_options raw,
             sd_settings = rd_settings raw, sd_project_root = project_root,
             sd_allow_workspace_program = rd_allow_workspace_program raw,
             sd_startup_timeout = startup_timeout, sd_request_timeout = request_timeout\<rparr>])))))))))))"

definition validate_configuration :: "ConfigLibrary \<Rightarrow> RawConfiguration \<Rightarrow> ConfigError + UserConfiguration" where
  "validate_configuration lib raw =
     (if rn_version raw \<noteq> CONFIGURATION_VERSION then Err (UnsupportedVersion (rn_version raw))
      else
        and_then (try_fold (note_server lib) [] (rn_servers raw)) (\<lambda>servers.
        Ok \<lparr>uc_servers = servers\<rparr>))"

definition parse_user_configuration :: "ConfigLibrary \<Rightarrow> string \<Rightarrow> ConfigError + UserConfiguration" where
  "parse_user_configuration lib document =
     (if MAX_CONFIGURATION_BYTES < length document then Err (ConfigurationTooLarge MAX_CONFIGURATION_BYTES)
      else
        and_then (ok_or (cl_toml_from_str lib document) MalformedConfiguration) (\<lambda>v.
        and_then (validate_toml_depth v) (\<lambda>_.
        and_then (ok_or (cl_try_into lib v) MalformedConfiguration) (\<lambda>raw.
        validate_configuration lib raw))))"

definition load_user_configuration :: "ConfigLibrary \<Rightarrow> string \<Rightarrow> ConfigError + UserConfiguration" where
  "load_user_configuration lib path =
     and_then (map_err ReadError (cl_read_at_most lib path (MAX_CONFIGURATION_BYTES + 1))) (\<lambda>bs.
     if MAX_CONFIGURATION_BYTES < length bs then Err (ConfigurationTooLarge MAX_CONFIGURATION_BYTES)
     else if \<not> valid_utf8 bs then Err NonUtf8Configuration
     else parse_user_configuration lib (text_of bs))"

section \<open>Resolution\<close>

text \<open>
  The operating system: the canonical path, whether a path is a directory, and of a canonical path
  whether it is a regular file with its permission bits.
\<close>

record PathSystem =
  sy_canonicalize :: "string \<Rightarrow> string option"
  sy_is_dir :: "string \<Rightarrow> bool"
  sy_metadata :: "string \<Rightarrow> (bool \<times> 32 word) option"

text \<open>\<open>0o111\<close> is \<open>0x49\<close>.\<close>

definition is_executable :: "32 word \<Rightarrow> bool" where
  "is_executable mode \<longleftrightarrow> and mode 0x49 \<noteq> 0"

definition qualify_executable :: "PathSystem \<Rightarrow> string \<Rightarrow> string \<Rightarrow> bool \<Rightarrow> string option" where
  "qualify_executable sys candidate workspace_root allow_workspace_program =
     (case sy_canonicalize sys candidate of
        None \<Rightarrow> None
      | Some canonical \<Rightarrow>
          (case sy_metadata sys canonical of
             None \<Rightarrow> None
           | Some (is_file, mode) \<Rightarrow>
               if \<not> is_file \<or> \<not> is_executable mode then None
               else if path_starts_with canonical workspace_root \<and> \<not> allow_workspace_program then None
               else Some canonical))"

fun find_map :: "('a \<Rightarrow> 'b option) \<Rightarrow> 'a list \<Rightarrow> 'b option" where
  "find_map f [] = None"
| "find_map f (x # xs) = (case f x of Some y \<Rightarrow> Some y | None \<Rightarrow> find_map f xs)"

definition discover_executable :: "PathSystem \<Rightarrow> string \<Rightarrow> string option \<Rightarrow> string \<Rightarrow> bool \<Rightarrow> string option" where
  "discover_executable sys program executable_path workspace_root allow_workspace_program =
     (case executable_path of
        None \<Rightarrow> None
      | Some path \<Rightarrow>
          find_map
            (\<lambda>directory.
              qualify_executable sys (path_join directory program) workspace_root allow_workspace_program)
            (filter is_absolute_path (split_paths path)))"

definition resolve_descriptor_executable ::
    "PathSystem \<Rightarrow> string \<Rightarrow> string \<Rightarrow> string \<Rightarrow> string option \<Rightarrow> bool \<Rightarrow> string option" where
  "resolve_descriptor_executable sys program project_root workspace_root executable_path allow_workspace_program =
     (if is_absolute_path program then qualify_executable sys program workspace_root allow_workspace_program
      else if 1 < length (path_components program)
      then
        if \<not> allow_workspace_program then None
        else qualify_executable sys (path_join project_root program) workspace_root True
      else discover_executable sys program executable_path workspace_root allow_workspace_program)"

definition resolve_explicit_program ::
    "string \<Rightarrow> string \<Rightarrow> string list \<Rightarrow> string \<Rightarrow> ConfigError + ResolvedServer" where
  "resolve_explicit_program workspace_root program arguments language_id =
     (if program = [] \<or> MAX_SERVER_PROGRAM_BYTES < length program then Err InvalidExplicitSelection
      else
        and_then (bounded_trimmed language_id ''language ID'' MAX_LANGUAGE_IDENTIFIER_BYTES) (\<lambda>language_id.
        and_then (validate_arguments arguments) (\<lambda>_.
        Ok \<lparr>rs_configuration_id = None, rs_language_id = language_id,
            rs_process = current_directory workspace_root (args arguments (new_process program)),
            rs_initialization_options = None, rs_settings = None, rs_project_root = workspace_root,
            rs_startup_timeout = DEFAULT_STARTUP_TIMEOUT_MS, rs_request_timeout = DEFAULT_REQUEST_TIMEOUT_MS,
            rs_origin = ExplicitOrigin\<rparr>)))"

definition resolve_user_descriptor ::
    "PathSystem \<Rightarrow> ServerDescriptor \<Rightarrow> string \<Rightarrow> string option \<Rightarrow> ConfigError + ResolvedServer" where
  "resolve_user_descriptor sys descriptor workspace_root executable_path =
     and_then
       (ok_or (sy_canonicalize sys (path_join workspace_root (sd_project_root descriptor)))
         (InvalidProjectRoot (sd_id descriptor))) (\<lambda>project_root.
     if \<not> sy_is_dir sys project_root \<or> \<not> path_starts_with project_root workspace_root
     then Err (InvalidProjectRoot (sd_id descriptor))
     else
       and_then
         (ok_or
           (resolve_descriptor_executable sys (sd_program descriptor) project_root workspace_root executable_path
             (sd_allow_workspace_program descriptor))
           (ExecutableNotFound (sd_id descriptor))) (\<lambda>executable.
       Ok \<lparr>rs_configuration_id = Some (sd_id descriptor), rs_language_id = sd_language_id descriptor,
           rs_process = current_directory project_root (args (sd_arguments descriptor) (new_process executable)),
           rs_initialization_options = sd_initialization_options descriptor, rs_settings = sd_settings descriptor,
           rs_project_root = project_root, rs_startup_timeout = sd_startup_timeout descriptor,
           rs_request_timeout = sd_request_timeout descriptor, rs_origin = UserConfigurationOrigin\<rparr>))"

record BuiltinServer =
  bi_id :: string
  bi_program :: string
  bi_arguments :: "string list"
  bi_languages :: "(string \<times> string) list"

definition BUILTIN_SERVERS :: "BuiltinServer list" where
  "BUILTIN_SERVERS =
     [\<lparr>bi_id = ''rust'', bi_program = ''rust-analyzer'', bi_arguments = [], bi_languages = [(''rs'', ''rust'')]\<rparr>,
      \<lparr>bi_id = ''go'', bi_program = ''gopls'', bi_arguments = [], bi_languages = [(''go'', ''go'')]\<rparr>,
      \<lparr>bi_id = ''python'', bi_program = ''pylsp'', bi_arguments = [], bi_languages = [(''py'', ''python'')]\<rparr>,
      \<lparr>bi_id = ''clangd-c'', bi_program = ''clangd'', bi_arguments = [], bi_languages = [(''c'', ''c'')]\<rparr>,
      \<lparr>bi_id = ''clangd-cpp'', bi_program = ''clangd'', bi_arguments = [],
       bi_languages = [(''cc'', ''cpp''), (''cpp'', ''cpp''), (''cxx'', ''cpp'')]\<rparr>,
      \<lparr>bi_id = ''typescript'', bi_program = ''typescript-language-server'', bi_arguments = [''--stdio''],
       bi_languages =
         [(''ts'', ''typescript''), (''tsx'', ''typescriptreact''), (''js'', ''javascript''),
          (''jsx'', ''javascriptreact'')]\<rparr>]"

definition resolve_builtin ::
    "PathSystem \<Rightarrow> BuiltinServer \<Rightarrow> string option \<Rightarrow> string \<Rightarrow> string option \<Rightarrow> ConfigError + ResolvedServer" where
  "resolve_builtin sys descriptor automatic_language_id workspace_root executable_path =
     and_then
       (ok_or (discover_executable sys (bi_program descriptor) executable_path workspace_root False)
         (ExecutableNotFound (bi_id descriptor))) (\<lambda>executable.
     and_then
       (ok_or
         (case automatic_language_id of
            Some language_id \<Rightarrow> Some language_id
          | None \<Rightarrow> (case bi_languages descriptor of [] \<Rightarrow> None | binding # _ \<Rightarrow> Some (snd binding)))
         ServerNotConfigured) (\<lambda>language_id.
     Ok \<lparr>rs_configuration_id = Some (bi_id descriptor), rs_language_id = language_id,
         rs_process =
           current_directory workspace_root (args (bi_arguments descriptor) (new_process executable)),
         rs_initialization_options = None, rs_settings = None, rs_project_root = workspace_root,
         rs_startup_timeout = DEFAULT_STARTUP_TIMEOUT_MS, rs_request_timeout = DEFAULT_REQUEST_TIMEOUT_MS,
         rs_origin = BuiltInOrigin\<rparr>))"

text \<open>The servers of the configuration and of the table that recognize an extension.\<close>

definition matching_servers :: "UserConfiguration option \<Rightarrow> string \<Rightarrow> ServerDescriptor list" where
  "matching_servers configuration extension =
     (case configuration of
        None \<Rightarrow> []
      | Some c \<Rightarrow> filter (\<lambda>server. extension \<in> set (sd_extensions server)) (uc_servers c))"

definition matching_builtins :: "string \<Rightarrow> (BuiltinServer \<times> string) list" where
  "matching_builtins extension =
     List.map_filter
       (\<lambda>descriptor.
         map_option (\<lambda>binding. (descriptor, snd binding))
           (List.find (\<lambda>binding. fst binding = extension) (bi_languages descriptor)))
       BUILTIN_SERVERS"

definition resolve_id ::
    "PathSystem \<Rightarrow> UserConfiguration option \<Rightarrow> string \<Rightarrow> string \<Rightarrow> string option \<Rightarrow> ConfigError + ResolvedServer" where
  "resolve_id sys configuration ident workspace_root executable_path =
     and_then (normalize_id ident) (\<lambda>ident.
     case Option.bind configuration (\<lambda>c. List.find (\<lambda>server. sd_id server = ident) (uc_servers c)) of
       Some descriptor \<Rightarrow> resolve_user_descriptor sys descriptor workspace_root executable_path
     | None \<Rightarrow>
         and_then (ok_or (List.find (\<lambda>descriptor. bi_id descriptor = ident) BUILTIN_SERVERS) (UnknownServerId ident))
           (\<lambda>builtin. resolve_builtin sys builtin None workspace_root executable_path))"

definition resolve_automatic ::
    "PathSystem \<Rightarrow> UserConfiguration option \<Rightarrow> string \<Rightarrow> string \<Rightarrow> string option \<Rightarrow> ConfigError + ResolvedServer" where
  "resolve_automatic sys configuration source_extension workspace_root executable_path =
     and_then (normalize_extension source_extension) (\<lambda>extension.
     case matching_servers configuration extension of
       descriptor # rest \<Rightarrow>
         if rest \<noteq> [] then Err AmbiguousExtension
         else resolve_user_descriptor sys descriptor workspace_root executable_path
     | [] \<Rightarrow>
         (case matching_builtins extension of
            [] \<Rightarrow> Err ServerNotConfigured
          | (descriptor, language_id) # rest \<Rightarrow>
              if rest \<noteq> [] then Err AmbiguousExtension
              else resolve_builtin sys descriptor (Some language_id) workspace_root executable_path))"

definition resolve_server ::
    "PathSystem \<Rightarrow> UserConfiguration option \<Rightarrow> ResolutionRequest \<Rightarrow> ConfigError + ResolvedServer" where
  "resolve_server sys configuration request =
     and_then (ok_or (sy_canonicalize sys (rq_workspace_root request)) (InvalidProjectRoot ''workspace''))
       (\<lambda>workspace_root.
     case rq_selection request of
       Program program arguments language_id \<Rightarrow>
         resolve_explicit_program workspace_root program arguments language_id
     | ServerId ident \<Rightarrow> resolve_id sys configuration ident workspace_root (rq_executable_path request)
     | Automatic \<Rightarrow>
         resolve_automatic sys configuration (rq_source_extension request) workspace_root
           (rq_executable_path request))"

section \<open>Accepted configurations\<close>

text \<open>The nesting of a value: a scalar has height one.\<close>

fun toml_height :: "TomlValue \<Rightarrow> nat" where
  "toml_height (TomlArray vs) = Suc (foldr max (map toml_height vs) 0)"
| "toml_height (TomlTable es) = Suc (foldr max (map (\<lambda>e. toml_height (snd e)) es) 0)"
| "toml_height _ = 1"

fun json_height :: "Value \<Rightarrow> nat" where
  "json_height (Array vs) = Suc (foldr max (map json_height vs) 0)"
| "json_height (Object es) = Suc (foldr max (map (\<lambda>e. json_height (snd e)) es) 0)"
| "json_height _ = 1"

lemma foldr_max_le: "foldr max xs 0 \<le> n \<longleftrightarrow> (\<forall>x \<in> set xs. x \<le> n)" for n :: nat
  by (induction xs) auto

lemma toml_height_children:
  "d + toml_height v \<le> Suc n \<longleftrightarrow> d \<le> n \<and> (\<forall>child \<in> set (toml_children v). Suc d + toml_height child \<le> Suc n)"
proof -
  have "d + h \<le> n \<longleftrightarrow> d \<le> n \<and> h \<le> n - d" for h by auto
  moreover have "toml_height v = Suc (foldr max (map toml_height (toml_children v)) 0)"
    by (cases v) (simp_all add: comp_def)
  ultimately show ?thesis by (auto simp: foldr_max_le)
qed

lemma json_height_children:
  "d + json_height v \<le> Suc n \<longleftrightarrow> d \<le> n \<and> (\<forall>child \<in> set (json_children v). Suc d + json_height child \<le> Suc n)"
proof -
  have "d + h \<le> n \<longleftrightarrow> d \<le> n \<and> h \<le> n - d" for h by auto
  moreover have "json_height v = Suc (foldr max (map json_height (json_children v)) 0)"
    by (cases v) (simp_all add: comp_def)
  ultimately show ?thesis by (auto simp: foldr_max_le)
qed

lemma next_depth: "depth \<le> MAX_CONFIGURATION_DEPTH \<Longrightarrow> saturating_add_u64 depth (Suc 0) = Suc depth"
  by (simp add: saturating_add_u64_def MAX_CONFIGURATION_DEPTH_def u64_max_def)

lemma toml_depth_loop_eq:
  "toml_depth_loop pending =
     (if \<forall>(v, d) \<in> set pending. d + toml_height v \<le> Suc MAX_CONFIGURATION_DEPTH then Ok ()
      else Err (ConfigurationTooDeep MAX_CONFIGURATION_DEPTH))"
proof (induction pending rule: toml_depth_loop.induct)
  case (2 v depth pending)
  show ?case
  proof (cases "MAX_CONFIGURATION_DEPTH < depth")
    case False
    then have "(\<forall>(v, d) \<in> set (rev (map (\<lambda>child. (child, saturating_add_u64 depth 1)) (toml_children v)) @ pending).
        d + toml_height v \<le> Suc MAX_CONFIGURATION_DEPTH) \<longleftrightarrow>
      (\<forall>(v, d) \<in> set ((v, depth) # pending). d + toml_height v \<le> Suc MAX_CONFIGURATION_DEPTH)"
      by (auto simp: toml_height_children[of depth] next_depth ball_Un ball_simps simp del: image_iff)
    with 2 False show ?thesis by simp
  qed (auto simp: toml_height_children[of depth])
qed simp

lemma json_depth_loop_eq:
  "json_depth_loop ident pending =
     (if \<forall>(v, d) \<in> set pending. d + json_height v \<le> Suc MAX_CONFIGURATION_DEPTH then Ok ()
      else Err (OversizedJsonConfiguration ident))"
proof (induction ident pending rule: json_depth_loop.induct)
  case (2 ident v depth pending)
  show ?case
  proof (cases "MAX_CONFIGURATION_DEPTH < depth")
    case False
    then have "(\<forall>(v, d) \<in> set (rev (map (\<lambda>child. (child, saturating_add_u64 depth 1)) (json_children v)) @ pending).
        d + json_height v \<le> Suc MAX_CONFIGURATION_DEPTH) \<longleftrightarrow>
      (\<forall>(v, d) \<in> set ((v, depth) # pending). d + json_height v \<le> Suc MAX_CONFIGURATION_DEPTH)"
      by (auto simp: json_height_children[of depth] next_depth ball_Un ball_simps simp del: image_iff)
    with 2 False show ?thesis by simp
  qed (auto simp: json_height_children[of depth])
qed simp

lemma validate_toml_depth_iff: "validate_toml_depth v = Ok u \<longleftrightarrow> toml_height v \<le> MAX_CONFIGURATION_DEPTH"
  by (auto simp: validate_toml_depth_def toml_depth_loop_eq)

definition json_rules :: "ConfigLibrary \<Rightarrow> Value option \<Rightarrow> bool" where
  "json_rules lib v \<longleftrightarrow>
     (case v of None \<Rightarrow> True
      | Some v \<Rightarrow>
          json_height v \<le> MAX_CONFIGURATION_DEPTH \<and>
          (\<exists>bs. cl_to_vec lib v = Some bs \<and> length bs \<le> MAX_CONFIGURATION_JSON_BYTES))"

lemma validate_optional_json_iff: "validate_optional_json lib v ident = Ok u \<longleftrightarrow> json_rules lib v"
proof (cases v)
  case (Some w)
  then show ?thesis
    by (cases "cl_to_vec lib w")
      (auto simp: validate_optional_json_def validate_json_def json_rules_def json_depth_loop_eq not_less)
qed (simp add: validate_optional_json_def json_rules_def)

definition argument_rules :: "string list \<Rightarrow> bool" where
  "argument_rules arguments \<longleftrightarrow>
     length arguments \<le> MAX_SERVER_ARGUMENTS \<and>
     (\<forall>a \<in> set arguments. length a \<le> MAX_SERVER_ARGUMENT_BYTES \<and> CHR 0x00 \<notin> set a) \<and>
     sum_list (map length arguments) \<le> MAX_TOTAL_SERVER_ARGUMENT_BYTES"

lemma charge_arguments:
  assumes "used \<le> MAX_TOTAL_SERVER_ARGUMENT_BYTES"
  shows "(\<exists>n. try_fold charge_argument used arguments = Ok n) \<longleftrightarrow>
    (\<forall>a \<in> set arguments. length a \<le> MAX_SERVER_ARGUMENT_BYTES \<and> CHR 0x00 \<notin> set a) \<and>
    used + sum_list (map length arguments) \<le> MAX_TOTAL_SERVER_ARGUMENT_BYTES"
  using assms
proof (induction arguments arbitrary: used)
  case (Cons a arguments)
  have "charge_argument used a = Ok m \<longleftrightarrow> m = used + length a \<and> length a \<le> MAX_SERVER_ARGUMENT_BYTES \<and>
      CHR 0x00 \<notin> set a \<and> used + length a \<le> MAX_TOTAL_SERVER_ARGUMENT_BYTES" for m
    using Cons.prems
    by (auto simp: charge_argument_def checked_add_u64_def MAX_SERVER_ARGUMENT_BYTES_def
        MAX_TOTAL_SERVER_ARGUMENT_BYTES_def u64_max_def)
  then show ?case using Cons.IH[of "used + length a"] by (auto simp: add.assoc)
qed simp

lemma validate_arguments_iff: "validate_arguments arguments = Ok u \<longleftrightarrow> argument_rules arguments"
  using charge_arguments[of 0 arguments] by (auto simp: validate_arguments_def argument_rules_def)

definition identifier_rules :: "string \<Rightarrow> bool" where
  "identifier_rules s \<longleftrightarrow> s \<noteq> [] \<and> length s \<le> MAX_SERVER_ID_BYTES \<and> list_all id_byte (as_bytes s)"

lemma normalize_id_iff: "normalize_id v = Ok s \<longleftrightarrow> identifier_rules (trim v) \<and> s = to_ascii_lowercase (trim v)"
proof -
  have "CHR 0x00 \<in> set (trim v) \<Longrightarrow> \<not> list_all id_byte (as_bytes (trim v))"
    by (force simp: list_all_iff as_bytes_def id_byte_def is_ascii_alphanumeric_def is_digit_byte_def)
  then show ?thesis by (auto simp: normalize_id_def bounded_trimmed_def identifier_rules_def Let_def)
qed

definition extension_rules :: "string \<Rightarrow> bool" where
  "extension_rules s \<longleftrightarrow>
     s \<noteq> [] \<and> CHR ''/'' \<notin> set s \<and> CHR 0x5C \<notin> set s \<and> length s \<le> MAX_LANGUAGE_IDENTIFIER_BYTES"

lemma normalize_extension_iff:
  "normalize_extension v = Ok s \<longleftrightarrow>
     extension_rules (strip_dot (trim v)) \<and> s = to_ascii_lowercase (strip_dot (trim v))"
  by (auto simp: normalize_extension_def extension_rules_def Let_def)

lemma note_extensions_iff:
  "try_fold (note_extension ident) seen exts = Ok result \<longleftrightarrow>
     (\<exists>new. list_all2 (\<lambda>e s. normalize_extension e = Ok s) exts new \<and> result = seen @ new \<and>
       distinct new \<and> set seen \<inter> set new = {})"
proof (induction exts arbitrary: seen)
  case (Cons e exts)
  have "try_fold (note_extension ident) seen (e # exts) = Ok result \<longleftrightarrow>
      (\<exists>s. normalize_extension e = Ok s \<and> s \<notin> set seen \<and> try_fold (note_extension ident) (seen @ [s]) exts = Ok result)"
    by (auto simp: note_extension_def split: if_splits)
  also have "\<dots> \<longleftrightarrow> (\<exists>s new. normalize_extension e = Ok s \<and> list_all2 (\<lambda>e s. normalize_extension e = Ok s) exts new \<and>
      result = seen @ s # new \<and> distinct (s # new) \<and> set seen \<inter> set (s # new) = {})"
    unfolding Cons.IH by auto
  also have "\<dots> \<longleftrightarrow> (\<exists>new. list_all2 (\<lambda>e s. normalize_extension e = Ok s) (e # exts) new \<and> result = seen @ new \<and>
       distinct new \<and> set seen \<inter> set new = {})"
    unfolding list_all2_Cons1 by blast
  finally show ?case .
qed auto

section \<open>Project roots\<close>

definition normal_names :: "PathComponent list \<Rightarrow> string list" where
  "normal_names cs = List.map_filter (\<lambda>c. case c of NormalName n \<Rightarrow> Some n | _ \<Rightarrow> None) cs"

fun slashed :: "string list \<Rightarrow> string" where
  "slashed [] = []"
| "slashed [n] = n"
| "slashed (n # ns) = n @ ''/'' @ slashed ns"

definition name_ok :: "string \<Rightarrow> bool" where
  "name_ok n \<longleftrightarrow> n \<noteq> [] \<and> n \<noteq> ''.'' \<and> n \<noteq> ''..'' \<and> CHR ''/'' \<notin> set n"

lemma split_on_pieces: "n \<in> set (split_on c s) \<Longrightarrow> c \<notin> set n"
  by (induction s arbitrary: n) (auto split: list.splits if_splits)

lemma path_components_names: "NormalName n \<in> set (path_components p) \<Longrightarrow> name_ok n"
  using split_on_pieces[of n "CHR ''/''" p]
  by (auto simp: path_components_def Let_def name_component_def name_ok_def split: if_splits)

lemma path_components_root: "\<not> is_absolute_path p \<Longrightarrow> RootDir \<notin> set (path_components p)"
  by (auto simp: path_components_def Let_def name_component_def split: if_splits)

lemma slashed_append: "ns \<noteq> [] \<Longrightarrow> slashed (ns @ [n]) = slashed ns @ ''/'' @ n"
  by (induction ns rule: slashed.induct) auto

lemma slashed_last: "ns \<noteq> [] \<Longrightarrow> \<forall>n \<in> set ns. name_ok n \<Longrightarrow> slashed ns \<noteq> [] \<and> last (slashed ns) \<noteq> CHR ''/''"
proof (induction ns rule: slashed.induct)
  case (2 n)
  then show ?case by (simp add: name_ok_def) (metis last_in_set)
qed (auto simp: name_ok_def)

lemma name_not_absolute: "name_ok n \<Longrightarrow> \<not> is_absolute_path n"
  by (cases n) (auto simp: name_ok_def is_absolute_path_def)

lemma push_components:
  assumes "\<forall>n \<in> set ns. name_ok n" "\<forall>c \<in> set cs. \<forall>n. c = NormalName n \<longrightarrow> name_ok n"
  shows "foldl push_component (Some (slashed ns)) cs =
    (if RootDir \<in> set cs \<or> ParentDir \<in> set cs then None else Some (slashed (ns @ normal_names cs)))"
  using assms
proof (induction cs arbitrary: ns)
  case Nil
  then show ?case by (simp add: normal_names_def List.map_filter_def)
next
  case (Cons c cs)
  have none: "foldl push_component None cs = None" for cs
    by (induction cs) (auto simp: push_component_def)
  have refused: "push_component (Some p) RootDir = None" "push_component (Some p) ParentDir = None" for p
    by (simp_all add: push_component_def)
  show ?case
  proof (cases c)
    case (NormalName n)
    then have n: "name_ok n" using Cons.prems(2) by auto
    have "push_component (Some (slashed ns)) c = Some (slashed (ns @ [n]))"
      using NormalName n name_not_absolute[OF n] slashed_last[OF _ Cons.prems(1)]
      by (cases "ns = []") (simp_all add: push_component_def path_join_def slashed_append)
    moreover have "\<forall>m \<in> set (ns @ [n]). name_ok m" using Cons.prems(1) n by simp
    ultimately show ?thesis
      using Cons.IH[of "ns @ [n]"] Cons.prems(2) NormalName by (auto simp: normal_names_def List.map_filter_def)
  next
    case CurDir
    then show ?thesis using Cons by (auto simp: push_component_def normal_names_def List.map_filter_def)
  qed (simp_all add: refused none)
qed

text \<open>A root is accepted when it is relative and never goes up; its normal form lists its names.\<close>

lemma normalize_relative_project_root_iff:
  "normalize_relative_project_root p = Some r \<longleftrightarrow>
     p \<noteq> [] \<and> \<not> is_absolute_path p \<and> ParentDir \<notin> set (path_components p) \<and>
     r = (if normal_names (path_components p) = [] then ''.'' else slashed (normal_names (path_components p)))"
proof (cases "p = [] \<or> is_absolute_path p")
  case False
  have names: "\<forall>n \<in> set (normal_names (path_components p)). name_ok n"
    using path_components_names by (auto simp: normal_names_def List.map_filter_def split: PathComponent.splits)
  have pieces: "\<forall>c \<in> set (path_components p). \<forall>n. c = NormalName n \<longrightarrow> name_ok n"
    using path_components_names[of _ p] by blast
  have "foldl push_component (Some []) (path_components p) =
      (if ParentDir \<in> set (path_components p) then None else Some (slashed (normal_names (path_components p))))"
    using push_components[of "[]" "path_components p"] pieces path_components_root[of p] False by simp
  with False slashed_last[OF _ names] show ?thesis
    by (auto simp: normalize_relative_project_root_def path_join_def is_absolute_path_def)
qed (auto simp: normalize_relative_project_root_def)

lemma split_on_slashed:
  "ns \<noteq> [] \<Longrightarrow> \<forall>n \<in> set ns. name_ok n \<Longrightarrow> split_on CHR ''/'' (slashed ns) = ns"
proof (induction ns rule: slashed.induct)
  case (2 n)
  have "CHR ''/'' \<notin> set n \<Longrightarrow> split_on CHR ''/'' n = [n]" for n by (induction n) auto
  with 2 show ?case by (simp add: name_ok_def)
next
  case (3 n m ns)
  have "CHR ''/'' \<notin> set n \<Longrightarrow> split_on CHR ''/'' (n @ CHR ''/'' # s) = n # split_on CHR ''/'' s" for n s
    by (induction n) auto
  with 3 show ?case by (simp add: name_ok_def)
qed simp

text \<open>So an accepted root has only normal components, or is the current directory.\<close>

lemma project_root_components:
  assumes "normalize_relative_project_root p = Some r"
  shows "path_components r = (if r = ''.'' then [CurDir] else map NormalName (normal_names (path_components p)))"
proof -
  let ?ns = "normal_names (path_components p)"
  have names: "\<forall>n \<in> set ?ns. name_ok n"
    using path_components_names by (auto simp: normal_names_def List.map_filter_def split: PathComponent.splits)
  show ?thesis
  proof (cases "?ns = []")
    case True
    then show ?thesis
      using assms by (auto simp: normalize_relative_project_root_iff path_components_def is_absolute_path_def name_component_def)
  next
    case False
    then have r: "r = slashed ?ns" using assms by (simp add: normalize_relative_project_root_iff)
    have split: "split_on CHR ''/'' r = ?ns" unfolding r by (rule split_on_slashed[OF False names])
    have "concat (map name_component ns) = map NormalName ns" if "\<forall>n \<in> set ns. name_ok n" for ns
      using that by (induction ns) (auto simp: name_component_def name_ok_def)
    then have concat: "concat (map name_component ?ns) = map NormalName ?ns" using names by blast
    have hd: "name_ok (hd ?ns)" using False names by simp
    have absolute: "hd (split_on CHR ''/'' r) = []" if "is_absolute_path r" using that by (cases r) (auto simp: is_absolute_path_def)
    then have "\<not> is_absolute_path r" using hd split by (auto simp: name_ok_def)
    moreover have "r \<noteq> ''.''"
    proof
      assume "r = ''.''"
      then have "split_on CHR ''/'' r = [''.'']" by simp
      with split have "hd ?ns = ''.''" by (metis list.sel(1))
      with hd show False by (simp add: name_ok_def)
    qed
    ultimately show ?thesis
      using split concat hd by (simp add: path_components_def Let_def name_ok_def)
  qed
qed

section \<open>Acceptance\<close>

text \<open>What a descriptor of the document has to satisfy, and the descriptor it becomes.\<close>

definition field_rules :: "string \<Rightarrow> nat \<Rightarrow> bool" where
  "field_rules s limit \<longleftrightarrow> s \<noteq> [] \<and> CHR 0x00 \<notin> set s \<and> length s \<le> limit"

definition timeout_rules :: "nat \<Rightarrow> bool" where
  "timeout_rules n \<longleftrightarrow> 100 \<le> n \<and> n \<le> 300000"

definition accepted_descriptor :: "ConfigLibrary \<Rightarrow> RawServerDescriptor \<Rightarrow> bool" where
  "accepted_descriptor lib raw \<longleftrightarrow>
     identifier_rules (trim (rd_id raw)) \<and>
     field_rules (trim (rd_language_id raw)) 255 \<and>
     field_rules (rd_program raw) 16384 \<and>
     argument_rules (rd_args raw) \<and>
     json_rules lib (rd_initialization_options raw) \<and> json_rules lib (rd_settings raw) \<and>
     rd_project_root raw \<noteq> [] \<and> \<not> is_absolute_path (rd_project_root raw) \<and>
     ParentDir \<notin> set (path_components (rd_project_root raw)) \<and>
     timeout_rules (rd_startup_timeout_ms raw) \<and> timeout_rules (rd_request_timeout_ms raw) \<and>
     rd_extensions raw \<noteq> [] \<and>
     (\<forall>e \<in> set (rd_extensions raw). extension_rules (strip_dot (trim e))) \<and>
     distinct (map (\<lambda>e. to_ascii_lowercase (strip_dot (trim e))) (rd_extensions raw))"

definition normalized_descriptor :: "RawServerDescriptor \<Rightarrow> ServerDescriptor" where
  "normalized_descriptor raw =
     \<lparr>sd_id = to_ascii_lowercase (trim (rd_id raw)),
      sd_extensions = map (\<lambda>e. to_ascii_lowercase (strip_dot (trim e))) (rd_extensions raw),
      sd_language_id = trim (rd_language_id raw), sd_program = rd_program raw, sd_arguments = rd_args raw,
      sd_initialization_options = rd_initialization_options raw, sd_settings = rd_settings raw,
      sd_project_root =
        (let names = normal_names (path_components (rd_project_root raw)) in
         if names = [] then ''.'' else slashed names),
      sd_allow_workspace_program = rd_allow_workspace_program raw,
      sd_startup_timeout = rd_startup_timeout_ms raw, sd_request_timeout = rd_request_timeout_ms raw\<rparr>"

lemma bounded_trimmed_iff: "bounded_trimmed v field limit = Ok s \<longleftrightarrow> s = trim v \<and> field_rules (trim v) limit"
  by (auto simp: bounded_trimmed_def field_rules_def Let_def)

lemma bounded_untrimmed_iff: "bounded_untrimmed v field limit = Ok s \<longleftrightarrow> s = v \<and> field_rules v limit"
  by (auto simp: bounded_untrimmed_def field_rules_def)

lemma validate_timeout_iff: "validate_timeout n ident = Ok m \<longleftrightarrow> m = n \<and> timeout_rules n"
  by (auto simp: validate_timeout_def timeout_rules_def MIN_TIMEOUT_MS_def MAX_TIMEOUT_MS_def)

lemma extensions_iff:
  "try_fold (note_extension ident) [] exts = Ok result \<longleftrightarrow>
     (\<forall>e \<in> set exts. extension_rules (strip_dot (trim e))) \<and>
     distinct (map (\<lambda>e. to_ascii_lowercase (strip_dot (trim e))) exts) \<and>
     result = map (\<lambda>e. to_ascii_lowercase (strip_dot (trim e))) exts"
proof -
  have "list_all2 (\<lambda>e s. normalize_extension e = Ok s) exts new \<longleftrightarrow>
      (\<forall>e \<in> set exts. extension_rules (strip_dot (trim e))) \<and>
      new = map (\<lambda>e. to_ascii_lowercase (strip_dot (trim e))) exts" for new
    by (induction exts arbitrary: new) (auto simp: list_all2_Cons1 normalize_extension_iff)
  then show ?thesis by (auto simp: note_extensions_iff)
qed

lemma note_server_iff:
  "note_server lib servers raw = Ok result \<longleftrightarrow>
     accepted_descriptor lib raw \<and> sd_id (normalized_descriptor raw) \<notin> sd_id ` set servers \<and>
     result = servers @ [normalized_descriptor raw]"
proof (cases "rd_extensions raw = []")
  case True
  then show ?thesis by (simp add: note_server_def accepted_descriptor_def)
next
  case False
  have limits: "MAX_LANGUAGE_IDENTIFIER_BYTES = 255" "MAX_SERVER_PROGRAM_BYTES = 16384"
    by (simp_all add: MAX_LANGUAGE_IDENTIFIER_BYTES_def MAX_SERVER_PROGRAM_BYTES_def)
  have split: "(if b then Err e else r) = Ok x \<longleftrightarrow> \<not> b \<and> r = Ok x" for b e r and x :: "ServerDescriptor list" by simp
  show ?thesis
    unfolding note_server_def and_then_Ok_iff ok_or_Ok_iff normalize_id_iff bounded_trimmed_iff bounded_untrimmed_iff
      validate_arguments_iff validate_optional_json_iff normalize_relative_project_root_iff validate_timeout_iff
      extensions_iff split accepted_descriptor_def normalized_descriptor_def Let_def limits sum.inject
      ServerDescriptor.simps
    using False by (simp add: ex_simps) blast
qed

lemma note_servers_iff:
  "try_fold (note_server lib) servers raws = Ok result \<longleftrightarrow>
     (\<forall>raw \<in> set raws. accepted_descriptor lib raw) \<and>
     distinct (map (\<lambda>raw. sd_id (normalized_descriptor raw)) raws) \<and>
     sd_id ` set servers \<inter> (\<lambda>raw. sd_id (normalized_descriptor raw)) ` set raws = {} \<and>
     result = servers @ map normalized_descriptor raws"
proof (induction raws arbitrary: servers)
  case (Cons raw raws)
  have "try_fold (note_server lib) servers (raw # raws) = Ok result \<longleftrightarrow>
      accepted_descriptor lib raw \<and> sd_id (normalized_descriptor raw) \<notin> sd_id ` set servers \<and>
      try_fold (note_server lib) (servers @ [normalized_descriptor raw]) raws = Ok result"
    by (auto simp: note_server_iff)
  then show ?case unfolding Cons.IH by auto
qed auto

lemma parse_accepts:
  "parse_user_configuration lib document = Ok c \<longleftrightarrow>
     length document \<le> 1048576 \<and>
     (\<exists>v raw. cl_toml_from_str lib document = Some v \<and> toml_height v \<le> 32 \<and> cl_try_into lib v = Some raw \<and>
       rn_version raw = 1 \<and> list_all (accepted_descriptor lib) (rn_servers raw) \<and>
       distinct (map (\<lambda>raw. sd_id (normalized_descriptor raw)) (rn_servers raw)) \<and>
       uc_servers c = map normalized_descriptor (rn_servers raw))"
proof -
  have "validate_configuration lib raw = Ok c \<longleftrightarrow>
      rn_version raw = 1 \<and> list_all (accepted_descriptor lib) (rn_servers raw) \<and>
      distinct (map (\<lambda>raw. sd_id (normalized_descriptor raw)) (rn_servers raw)) \<and>
      uc_servers c = map normalized_descriptor (rn_servers raw)" for raw
    by (cases c) (auto simp: validate_configuration_def CONFIGURATION_VERSION_def note_servers_iff list_all_iff)
  then show ?thesis
    by (auto simp: parse_user_configuration_def validate_toml_depth_iff MAX_CONFIGURATION_BYTES_def
        MAX_CONFIGURATION_DEPTH_def)
qed

text \<open>
  C33: A user configuration is accepted exactly when it has at most 1 MiB, parses, nests at most
  32 levels, decodes to the schema with version 1, every descriptor satisfies the rules of its fields
  and no two descriptors have the same normalized identifier. The result then has one normalized
  descriptor per entry of the document, in the order of the document. The loops with their stacks,
  sets and running totals compute exactly these declarative rules.
\<close>

theorem configurations_are_accepted_exactly:
  "parse_user_configuration lib document = Ok c \<longleftrightarrow>
     length document \<le> 1048576 \<and>
     (\<exists>v raw. cl_toml_from_str lib document = Some v \<and> toml_height v \<le> 32 \<and> cl_try_into lib v = Some raw \<and>
       rn_version raw = 1 \<and> list_all (accepted_descriptor lib) (rn_servers raw) \<and>
       distinct (map (\<lambda>raw. sd_id (normalized_descriptor raw)) (rn_servers raw)) \<and>
       uc_servers c = map normalized_descriptor (rn_servers raw))"
  by (rule parse_accepts)

text \<open>What holds of every descriptor of an accepted configuration.\<close>

definition server_ok :: "ConfigLibrary \<Rightarrow> ServerDescriptor \<Rightarrow> bool" where
  "server_ok lib d \<longleftrightarrow>
     identifier_rules (sd_id d) \<and> map ascii_lower (sd_id d) = sd_id d \<and>
     sd_extensions d \<noteq> [] \<and> distinct (sd_extensions d) \<and> list_all extension_rules (sd_extensions d) \<and>
     field_rules (sd_language_id d) 255 \<and> field_rules (sd_program d) 16384 \<and> argument_rules (sd_arguments d) \<and>
     json_rules lib (sd_initialization_options d) \<and> json_rules lib (sd_settings d) \<and>
     timeout_rules (sd_startup_timeout d) \<and> timeout_rules (sd_request_timeout d) \<and>
     list_all (\<lambda>c. c \<noteq> RootDir \<and> c \<noteq> ParentDir) (path_components (sd_project_root d))"

lemma ascii_lower_cases:
  "ascii_lower c = c \<or> (65 \<le> (of_char c :: nat) \<and> (of_char c :: nat) \<le> 90 \<and> of_char (ascii_lower c) = (of_char c :: nat) + 32)"
  by (simp add: ascii_lower_def)

lemma ascii_lower_idem [simp]: "ascii_lower (ascii_lower c) = ascii_lower c"
proof (cases "65 \<le> (of_char c :: nat) \<and> (of_char c :: nat) \<le> 90")
  case True
  then have "(of_char (ascii_lower c) :: nat) = of_char c + 32" by (simp add: ascii_lower_def)
  then show ?thesis using True by (subst ascii_lower_def) simp
next
  case False
  then have "ascii_lower c = c" unfolding ascii_lower_def by (rule if_not_P)
  then show ?thesis by simp
qed

lemma id_byte_lower: "id_byte (of_nat (of_char c)) \<Longrightarrow> id_byte (of_nat (of_char (ascii_lower c)))"
proof -
  assume b: "id_byte (of_nat (of_char c))"
  show ?thesis
  proof (cases "65 \<le> (of_char c :: nat) \<and> (of_char c :: nat) \<le> 90")
    case True
    then have "of_char (ascii_lower c) = (of_char c :: nat) + 32" by (simp add: ascii_lower_def)
    moreover have "unat (of_nat (of_char c + 32) :: u8) = of_char c + 32" using True by (intro unat_small) simp
    then have "(97 :: u8) \<le> of_nat (of_char c + 32) \<and> of_nat (of_char c + 32) \<le> (122 :: u8)"
      using True by (simp add: word_le_nat_alt del: of_nat_add)
    ultimately show ?thesis by (simp add: id_byte_def is_ascii_alphanumeric_def del: of_nat_add)
  next
    case False
    then have "ascii_lower c = c" unfolding ascii_lower_def by (rule if_not_P)
    with b show ?thesis by simp
  qed
qed

lemma ascii_lower_not_separator: "c \<noteq> CHR ''/'' \<Longrightarrow> c \<noteq> CHR 0x5C \<Longrightarrow> ascii_lower c \<noteq> CHR ''/'' \<and> ascii_lower c \<noteq> CHR 0x5C"
proof -
  assume c: "c \<noteq> CHR ''/''" "c \<noteq> CHR 0x5C"
  show ?thesis
  proof (cases "ascii_lower c = c")
    case False
    then have n: "97 \<le> (of_char (ascii_lower c) :: nat)" using ascii_lower_cases[of c] by auto
    then show ?thesis by auto
  qed (use c in simp)
qed

lemma accepted_server_ok:
  assumes "accepted_descriptor lib raw"
  shows "server_ok lib (normalized_descriptor raw)"
proof -
  obtain r where r: "normalize_relative_project_root (rd_project_root raw) = Some r"
    "sd_project_root (normalized_descriptor raw) = r"
    using assms by (simp add: accepted_descriptor_def normalize_relative_project_root_iff normalized_descriptor_def Let_def)
  have root: "list_all (\<lambda>c. c \<noteq> RootDir \<and> c \<noteq> ParentDir) (path_components r)"
    using project_root_components[OF r(1)] by (auto simp: list_all_iff)
  have ext: "extension_rules (to_ascii_lowercase e)" if "extension_rules e" for e
  proof -
    have "CHR ''/'' \<notin> ascii_lower ` set e \<and> CHR 0x5C \<notin> ascii_lower ` set e"
      using that ascii_lower_not_separator unfolding extension_rules_def image_iff by metis
    then show ?thesis using that by (simp add: extension_rules_def to_ascii_lowercase_def)
  qed
  have ident: "identifier_rules (to_ascii_lowercase s)" if "identifier_rules s" for s
    using that by (auto simp: identifier_rules_def to_ascii_lowercase_def list_all_iff as_bytes_def id_byte_lower)
  show ?thesis
    using assms root ext ident
    unfolding server_ok_def r(2)
    by (simp add: accepted_descriptor_def normalized_descriptor_def list_all_iff)
      (simp add: to_ascii_lowercase_def)
qed

lemma parsed_servers_ok:
  assumes "parse_user_configuration lib document = Ok c"
  shows "list_all (server_ok lib) (uc_servers c) \<and> distinct (map sd_id (uc_servers c))"
proof -
  obtain raws where "list_all (accepted_descriptor lib) raws" "uc_servers c = map normalized_descriptor raws"
    "distinct (map (\<lambda>raw. sd_id (normalized_descriptor raw)) raws)"
    using assms by (auto simp: parse_accepts)
  then show ?thesis using accepted_server_ok by (auto simp: list_all_iff comp_def)
qed

section \<open>Trust\<close>

definition trusted_executable :: "PathSystem \<Rightarrow> string \<Rightarrow> bool" where
  "trusted_executable sys p \<longleftrightarrow>
     (\<exists>candidate mode. sy_canonicalize sys candidate = Some p \<and> sy_metadata sys p = Some (True, mode) \<and> is_executable mode)"

lemma qualify_executable_Some:
  "qualify_executable sys candidate root allow = Some p \<longleftrightarrow>
     sy_canonicalize sys candidate = Some p \<and> (\<exists>mode. sy_metadata sys p = Some (True, mode) \<and> is_executable mode) \<and>
     (path_starts_with p root \<longrightarrow> allow)"
  by (auto simp: qualify_executable_def split: option.splits if_splits)

lemma qualified_trusted:
  "qualify_executable sys candidate root allow = Some p \<Longrightarrow>
     trusted_executable sys p \<and> (path_starts_with p root \<longrightarrow> allow)"
  by (auto simp: qualify_executable_Some trusted_executable_def)

text \<open>The program of an absolute directory of the search path.\<close>

definition found_in_path :: "PathSystem \<Rightarrow> string option \<Rightarrow> string \<Rightarrow> string \<Rightarrow> bool" where
  "found_in_path sys executable_path program p \<longleftrightarrow>
     (\<exists>path directory. executable_path = Some path \<and> directory \<in> set (split_paths path) \<and>
       is_absolute_path directory \<and> sy_canonicalize sys (path_join directory program) = Some p)"

lemma find_map_Some: "find_map f xs = Some y \<Longrightarrow> \<exists>x \<in> set xs. f x = Some y"
  by (induction xs) (auto split: option.splits)

lemma discover_executable_Some:
  assumes "discover_executable sys program path root allow = Some p"
  shows "trusted_executable sys p \<and> (path_starts_with p root \<longrightarrow> allow) \<and> found_in_path sys path program p"
proof -
  obtain v directory where d: "path = Some v" "directory \<in> set (split_paths v)" "is_absolute_path directory"
    "qualify_executable sys (path_join directory program) root allow = Some p"
    using assms by (auto simp: discover_executable_def split: option.splits dest!: find_map_Some)
  then have "found_in_path sys path program p" by (auto simp: found_in_path_def qualify_executable_Some)
  with qualified_trusted[OF d(4)] show ?thesis by blast
qed

definition user_selected :: "ResolutionRequest \<Rightarrow> UserConfiguration \<Rightarrow> ServerDescriptor \<Rightarrow> bool" where
  "user_selected request c d \<longleftrightarrow>
     (case rq_selection request of
        Program _ _ _ \<Rightarrow> False
      | ServerId ident \<Rightarrow> normalize_id ident = Ok (sd_id d)
      | Automatic \<Rightarrow>
          (\<exists>extension. normalize_extension (rq_source_extension request) = Ok extension \<and>
            filter (\<lambda>server. extension \<in> set (sd_extensions server)) (uc_servers c) = [d]))"

definition no_user_server :: "ResolutionRequest \<Rightarrow> UserConfiguration option \<Rightarrow> bool" where
  "no_user_server request configuration \<longleftrightarrow>
     (\<forall>c d. configuration = Some c \<and> d \<in> set (uc_servers c) \<longrightarrow>
       (case rq_selection request of
          Program _ _ _ \<Rightarrow> False
        | ServerId ident \<Rightarrow> normalize_id ident \<noteq> Ok (sd_id d)
        | Automatic \<Rightarrow> (\<forall>e \<in> set (sd_extensions d). normalize_extension (rq_source_extension request) \<noteq> Ok e)))"

definition builtin_selected :: "ResolutionRequest \<Rightarrow> BuiltinServer \<Rightarrow> string \<Rightarrow> bool" where
  "builtin_selected request b language_id \<longleftrightarrow>
     b \<in> set BUILTIN_SERVERS \<and>
     (case rq_selection request of
        Program _ _ _ \<Rightarrow> False
      | ServerId ident \<Rightarrow> normalize_id ident = Ok (bi_id b) \<and> language_id = snd (hd (bi_languages b))
      | Automatic \<Rightarrow>
          (\<exists>extension. normalize_extension (rq_source_extension request) = Ok extension \<and>
            (extension, language_id) \<in> set (bi_languages b)))"

definition launch_trusted ::
    "PathSystem \<Rightarrow> UserConfiguration option \<Rightarrow> ResolutionRequest \<Rightarrow> string \<Rightarrow> ResolvedServer \<Rightarrow> bool" where
  "launch_trusted sys configuration request root r \<longleftrightarrow>
     (let program = ps_program (rs_process r); arguments = ps_arguments (rs_process r) in
      case rs_origin r of
        ExplicitOrigin \<Rightarrow>
          (\<exists>language_id. rq_selection request = Program program arguments language_id) \<and> rs_project_root r = root
      | UserConfigurationOrigin \<Rightarrow>
          (\<exists>c d. configuration = Some c \<and> d \<in> set (uc_servers c) \<and> user_selected request c d \<and>
            rs_configuration_id r = Some (sd_id d) \<and> rs_language_id r = sd_language_id d \<and>
            arguments = sd_arguments d \<and> trusted_executable sys program \<and>
            (path_starts_with program root \<longrightarrow> sd_allow_workspace_program d) \<and>
            (length (path_components (sd_program d)) \<le> 1 \<and> \<not> is_absolute_path (sd_program d) \<longrightarrow>
              found_in_path sys (rq_executable_path request) (sd_program d) program) \<and>
            sy_is_dir sys (rs_project_root r))
      | BuiltInOrigin \<Rightarrow>
          no_user_server request configuration \<and>
          (\<exists>b. builtin_selected request b (rs_language_id r) \<and> rs_configuration_id r = Some (bi_id b) \<and>
            arguments = bi_arguments b \<and>
            found_in_path sys (rq_executable_path request) (bi_program b) program) \<and>
          trusted_executable sys program \<and> \<not> path_starts_with program root \<and> rs_project_root r = root)"

lemma path_starts_with_refl [simp]: "path_starts_with p p"
  by (simp add: path_starts_with_def)

lemma resolve_explicit_trusted:
  assumes "resolve_explicit_program root program arguments language_id = Ok r"
    and "rq_selection request = Program program arguments language_id"
  shows "launch_trusted sys configuration request root r \<and> path_starts_with (rs_project_root r) root"
  using assms
  by (auto simp: resolve_explicit_program_def launch_trusted_def new_process_def args_def current_directory_def
      split: if_splits)

lemma resolve_user_trusted:
  assumes "resolve_user_descriptor sys d root (rq_executable_path request) = Ok r"
    and "configuration = Some c" "d \<in> set (uc_servers c)" "user_selected request c d"
  shows "launch_trusted sys configuration request root r \<and> path_starts_with (rs_project_root r) root"
proof -
  obtain project executable where e:
    "sy_is_dir sys project" "path_starts_with project root"
    "resolve_descriptor_executable sys (sd_program d) project root (rq_executable_path request)
       (sd_allow_workspace_program d) = Some executable"
    "rs_process r = current_directory project (args (sd_arguments d) (new_process executable))"
    "rs_project_root r = project" "rs_origin r = UserConfigurationOrigin"
    "rs_configuration_id r = Some (sd_id d)" "rs_language_id r = sd_language_id d"
    using assms(1) by (auto simp: resolve_user_descriptor_def split: if_splits)
  have "trusted_executable sys executable \<and> (path_starts_with executable root \<longrightarrow> sd_allow_workspace_program d) \<and>
      (length (path_components (sd_program d)) \<le> 1 \<and> \<not> is_absolute_path (sd_program d) \<longrightarrow>
        found_in_path sys (rq_executable_path request) (sd_program d) executable)"
    using e(3) qualified_trusted discover_executable_Some
    unfolding resolve_descriptor_executable_def by (fastforce split: if_splits)
  then show ?thesis
    using e assms(2-4) by (auto simp: launch_trusted_def new_process_def args_def current_directory_def)
qed

lemma resolve_builtin_trusted:
  assumes "resolve_builtin sys b automatic root (rq_executable_path request) = Ok r"
    and "no_user_server request configuration"
    and "\<And>language_id. automatic = Some language_id \<Longrightarrow> builtin_selected request b language_id"
    and "automatic = None \<Longrightarrow> builtin_selected request b (snd (hd (bi_languages b)))"
  shows "launch_trusted sys configuration request root r \<and> path_starts_with (rs_project_root r) root"
proof -
  obtain executable language_id where e:
    "discover_executable sys (bi_program b) (rq_executable_path request) root False = Some executable"
    "builtin_selected request b language_id" "rs_language_id r = language_id"
    "rs_process r = current_directory root (args (bi_arguments b) (new_process executable))"
    "rs_project_root r = root" "rs_origin r = BuiltInOrigin" "rs_configuration_id r = Some (bi_id b)"
    using assms(1,3,4) by (cases automatic) (auto simp: resolve_builtin_def split: list.splits)
  then show ?thesis
    using assms(2) discover_executable_Some[OF e(1)]
    by (auto simp: launch_trusted_def new_process_def args_def current_directory_def)
qed

lemma resolve_id_trusted:
  assumes "resolve_id sys configuration ident root (rq_executable_path request) = Ok r"
    and "rq_selection request = ServerId ident"
  shows "launch_trusted sys configuration request root r \<and> path_starts_with (rs_project_root r) root"
proof -
  obtain name where n: "normalize_id ident = Ok name" using assms(1) by (auto simp: resolve_id_def)
  show ?thesis
  proof (cases "Option.bind configuration (\<lambda>c. List.find (\<lambda>server. sd_id server = name) (uc_servers c))")
    case None
    then obtain b where b: "List.find (\<lambda>b. bi_id b = name) BUILTIN_SERVERS = Some b"
      "resolve_builtin sys b None root (rq_executable_path request) = Ok r"
      using assms(1) n by (auto simp: resolve_id_def)
    have "no_user_server request configuration"
      using None assms(2) n by (auto simp: no_user_server_def find_None_iff bind_eq_None_conv)
    moreover have "builtin_selected request b (snd (hd (bi_languages b)))"
      using b(1) assms(2) n by (auto simp: builtin_selected_def find_Some_iff)
    ultimately show ?thesis using resolve_builtin_trusted[OF b(2)] by simp
  next
    case (Some d)
    then obtain c where c: "configuration = Some c" "List.find (\<lambda>server. sd_id server = name) (uc_servers c) = Some d"
      by (auto simp: bind_eq_Some_conv)
    then have "d \<in> set (uc_servers c)" "user_selected request c d"
      using assms(2) n by (auto simp: find_Some_iff user_selected_def)
    moreover have "resolve_user_descriptor sys d root (rq_executable_path request) = Ok r"
      using assms(1) n Some by (simp add: resolve_id_def)
    ultimately show ?thesis using resolve_user_trusted c(1) by blast
  qed
qed

lemma find_in: "List.find P xs = Some x \<Longrightarrow> x \<in> set xs \<and> P x"
  by (auto simp: find_Some_iff)

lemma matching_builtins_iff:
  "(b, language_id) \<in> set (matching_builtins extension) \<Longrightarrow>
     b \<in> set BUILTIN_SERVERS \<and> (extension, language_id) \<in> set (bi_languages b)"
proof -
  assume "(b, language_id) \<in> set (matching_builtins extension)"
  then obtain descriptor binding where "descriptor \<in> set BUILTIN_SERVERS"
    and f: "List.find (\<lambda>binding. fst binding = extension) (bi_languages descriptor) = Some binding"
    and "b = descriptor" "language_id = snd binding"
    by (auto simp: matching_builtins_def List.map_filter_def)
  with find_in[OF f] show ?thesis by (cases binding) auto
qed

lemma resolve_automatic_trusted:
  assumes "resolve_automatic sys configuration (rq_source_extension request) root (rq_executable_path request) = Ok r"
    and "rq_selection request = Automatic"
  shows "launch_trusted sys configuration request root r \<and> path_starts_with (rs_project_root r) root"
proof -
  obtain extension where n: "normalize_extension (rq_source_extension request) = Ok extension"
    using assms(1) by (auto simp: resolve_automatic_def)
  show ?thesis
  proof (cases "matching_servers configuration extension")
    case Nil
    obtain b language_id where b: "matching_builtins extension = [(b, language_id)]"
      "resolve_builtin sys b (Some language_id) root (rq_executable_path request) = Ok r"
      using assms(1) n Nil by (auto simp: resolve_automatic_def split: list.splits prod.splits if_splits)
    have "no_user_server request configuration"
      using Nil assms(2) n by (auto simp: no_user_server_def matching_servers_def filter_empty_conv)
    moreover have "builtin_selected request b language_id"
      using matching_builtins_iff[of b language_id extension] b(1) assms(2) n by (simp add: builtin_selected_def)
    ultimately show ?thesis using resolve_builtin_trusted[OF b(2)] by simp
  next
    case (Cons d rest)
    then have d: "rest = []" "resolve_user_descriptor sys d root (rq_executable_path request) = Ok r"
      using assms(1) n by (auto simp: resolve_automatic_def split: if_splits)
    obtain c where c: "configuration = Some c" "filter (\<lambda>server. extension \<in> set (sd_extensions server)) (uc_servers c) = [d]"
      using Cons d(1) by (auto simp: matching_servers_def split: option.splits)
    have "d \<in> set (filter (\<lambda>server. extension \<in> set (sd_extensions server)) (uc_servers c))" unfolding c(2) by simp
    then have "d \<in> set (uc_servers c)" by simp
    moreover have "user_selected request c d" using assms(2) n c(2) by (simp add: user_selected_def)
    ultimately show ?thesis using resolve_user_trusted[OF d(2) c(1)] by blast
  qed
qed

lemma resolve_server_trusted:
  assumes "resolve_server sys configuration request = Ok r"
  shows "\<exists>root. sy_canonicalize sys (rq_workspace_root request) = Some root \<and>
    launch_trusted sys configuration request root r \<and> path_starts_with (rs_project_root r) root"
proof -
  obtain root where s: "sy_canonicalize sys (rq_workspace_root request) = Some root"
    using assms by (auto simp: resolve_server_def)
  have "launch_trusted sys configuration request root r \<and> path_starts_with (rs_project_root r) root"
  proof (cases "rq_selection request")
    case Automatic
    with assms s show ?thesis by (intro resolve_automatic_trusted) (simp_all add: resolve_server_def)
  next
    case (ServerId ident)
    with assms s show ?thesis by (intro resolve_id_trusted) (simp_all add: resolve_server_def)
  next
    case (Program program arguments language_id)
    with assms s show ?thesis by (intro resolve_explicit_trusted) (simp_all add: resolve_server_def)
  qed
  with s show ?thesis by blast
qed


definition resolved_ok :: "ConfigLibrary \<Rightarrow> ResolvedServer \<Rightarrow> bool" where
  "resolved_ok lib r \<longleftrightarrow>
     field_rules (rs_language_id r) 255 \<and> argument_rules (ps_arguments (rs_process r)) \<and>
     timeout_rules (rs_startup_timeout r) \<and> timeout_rules (rs_request_timeout r) \<and>
     json_rules lib (rs_initialization_options r) \<and> json_rules lib (rs_settings r) \<and>
     ps_current_directory (rs_process r) = Some (rs_project_root r) \<and>
     ps_environment (rs_process r) = [] \<and> \<not> ps_clear_environment (rs_process r)"

lemmas process_simps = new_process_def args_def current_directory_def

lemma default_timeouts: "timeout_rules DEFAULT_STARTUP_TIMEOUT_MS" "timeout_rules DEFAULT_REQUEST_TIMEOUT_MS"
  by (simp_all add: timeout_rules_def DEFAULT_STARTUP_TIMEOUT_MS_def DEFAULT_REQUEST_TIMEOUT_MS_def)

lemma explicit_ok: "resolve_explicit_program root program arguments language_id = Ok r \<Longrightarrow> resolved_ok lib r"
  by (auto simp: resolve_explicit_program_def resolved_ok_def process_simps default_timeouts json_rules_def
      bounded_trimmed_iff validate_arguments_iff MAX_LANGUAGE_IDENTIFIER_BYTES_def split: if_splits)

lemma user_ok: "resolve_user_descriptor sys d root path = Ok r \<Longrightarrow> server_ok lib d \<Longrightarrow> resolved_ok lib r"
  by (auto simp: resolve_user_descriptor_def resolved_ok_def server_ok_def process_simps split: if_splits)

lemma builtins_ok:
  "list_all (\<lambda>b. argument_rules (bi_arguments b) \<and> list_all (\<lambda>(_, l). field_rules l 255) (bi_languages b)) BUILTIN_SERVERS"
  by (simp add: BUILTIN_SERVERS_def argument_rules_def field_rules_def MAX_SERVER_ARGUMENTS_def
      MAX_SERVER_ARGUMENT_BYTES_def MAX_TOTAL_SERVER_ARGUMENT_BYTES_def)

lemma builtin_ok:
  assumes "resolve_builtin sys b automatic root path = Ok r" "b \<in> set BUILTIN_SERVERS"
    and "\<And>l. automatic = Some l \<Longrightarrow> \<exists>e. (e, l) \<in> set (bi_languages b)"
  shows "resolved_ok lib r"
proof -
  have b: "argument_rules (bi_arguments b)" "list_all (\<lambda>(_, l). field_rules l 255) (bi_languages b)"
    using builtins_ok assms(2) by (auto simp: list_all_iff)
  then have "automatic = Some l \<Longrightarrow> field_rules l 255" for l using assms(3) by (fastforce simp: list_all_iff)
  with b assms(1) show ?thesis
    by (cases automatic)
      (auto simp: resolve_builtin_def resolved_ok_def process_simps default_timeouts json_rules_def split: list.splits)
qed

text \<open>
  C34: Every server that is resolved with an accepted configuration, or with none, is well formed:
  its language identifier, arguments, options, settings and deadlines are within their limits, whichever
  of the three sources it comes from; it runs in its project root and inherits the environment unchanged.
\<close>

theorem resolved_servers_are_well_formed:
  assumes "load_user_configuration lib file = Ok c"
    and "resolve_server sys configuration request = Ok r"
    and "configuration = None \<or> configuration = Some c"
  shows "resolved_ok lib r"
proof -
  obtain document where "parse_user_configuration lib document = Ok c"
    using assms(1) by (auto simp: load_user_configuration_def split: if_splits)
  then have servers: "server_ok lib d" if "configuration = Some c'" "d \<in> set (uc_servers c')" for c' d
    using parsed_servers_ok[of lib document c] assms(3) that by (auto simp: list_all_iff)
  obtain root where s: "sy_canonicalize sys (rq_workspace_root request) = Some root"
    using assms(2) by (auto simp: resolve_server_def)
  show ?thesis
  proof (cases "rq_selection request")
    case Automatic
    then have r: "resolve_automatic sys configuration (rq_source_extension request) root (rq_executable_path request) = Ok r"
      using assms(2) s by (simp add: resolve_server_def)
    then obtain extension where n: "normalize_extension (rq_source_extension request) = Ok extension"
      by (auto simp: resolve_automatic_def)
    have user: "server_ok lib d" if matches: "matching_servers configuration e = [d]" for e d
    proof -
      obtain c' where c': "configuration = Some c'"
        "filter (\<lambda>server. e \<in> set (sd_extensions server)) (uc_servers c') = [d]"
        using matches by (auto simp: matching_servers_def split: option.splits)
      have "d \<in> set (filter (\<lambda>server. e \<in> set (sd_extensions server)) (uc_servers c'))" unfolding c'(2) by simp
      then show ?thesis using servers[OF c'(1)] by simp
    qed
    show ?thesis
    proof (cases "matching_servers configuration extension")
      case Nil
      then obtain b l where b: "matching_builtins extension = [(b, l)]"
        "resolve_builtin sys b (Some l) root (rq_executable_path request) = Ok r"
        using r n by (auto simp: resolve_automatic_def split: list.splits prod.splits if_splits)
      then show ?thesis using matching_builtins_iff[of b l extension] by (intro builtin_ok[OF b(2)]) auto
    next
      case (Cons d rest)
      then have "rest = []" "resolve_user_descriptor sys d root (rq_executable_path request) = Ok r"
        using r n by (auto simp: resolve_automatic_def split: if_splits)
      with user_ok user Cons show ?thesis by blast
    qed
  next
    case (ServerId ident)
    then have r: "resolve_id sys configuration ident root (rq_executable_path request) = Ok r"
      using assms(2) s by (auto simp: resolve_server_def)
    then obtain name where n: "normalize_id ident = Ok name" by (auto simp: resolve_id_def)
    show ?thesis
    proof (cases "Option.bind configuration (\<lambda>c. List.find (\<lambda>server. sd_id server = name) (uc_servers c))")
      case None
      then obtain b where b: "List.find (\<lambda>b. bi_id b = name) BUILTIN_SERVERS = Some b"
        "resolve_builtin sys b None root (rq_executable_path request) = Ok r"
        using r n by (auto simp: resolve_id_def)
      show ?thesis using find_in[OF b(1)] by (intro builtin_ok[OF b(2)]) simp_all
    next
      case (Some d)
      then obtain c' where c': "configuration = Some c'" "d \<in> set (uc_servers c')"
        by (auto simp: bind_eq_Some_conv dest: find_in)
      have "resolve_user_descriptor sys d root (rq_executable_path request) = Ok r"
        using r n Some by (simp add: resolve_id_def)
      then show ?thesis using user_ok servers[OF c'] by blast
    qed
  next
    case (Program program arguments language_id)
    then show ?thesis using assms(2) s explicit_ok by (auto simp: resolve_server_def)
  qed
qed

section \<open>Witnesses\<close>

lemma trim_ascii:
  assumes "list_all (\<lambda>c. 33 \<le> (of_char c :: nat) \<and> (of_char c :: nat) < 127) s"
  shows "trim s = s"
proof -
  define cs :: "nat list" where "cs = map of_char s"
  have utf: "as_bytes s = utf8 cs" and scalar: "list_all is_scalar cs"
    unfolding cs_def using assms by (induction s) (auto simp: as_bytes_def encode_char_def is_scalar_def)
  have white: "list_all (\<lambda>c. \<not> is_whitespace c) cs"
    using assms by (auto simp: cs_def list_all_iff is_whitespace_def)
  have drop: "dropWhile is_whitespace xs = xs" if "list_all (\<lambda>c. \<not> is_whitespace c) xs" for xs
    using that by (cases xs) auto
  have "trim s = text_of (utf8 cs)"
    using white by (simp add: trim_def utf chars_utf8[OF scalar] drop list_all_rev)
  also have "\<dots> = s" unfolding utf[symmetric] unfolding cs_def using assms by (induction s) (auto simp: as_bytes_def text_of_def)
  finally show ?thesis .
qed

definition sample_raw :: RawServerDescriptor where
  "sample_raw =
     \<lparr>rd_id = ''Rust'', rd_extensions = [''.RS''], rd_language_id = ''rust'', rd_program = ''/opt/ra'', rd_args = [''-q''],
      rd_initialization_options = None, rd_settings = None, rd_project_root = ''sub/.'', rd_allow_workspace_program = False,
      rd_startup_timeout_ms = 10000, rd_request_timeout_ms = 30000\<rparr>"

definition sample_library :: ConfigLibrary where
  "sample_library =
     \<lparr>cl_toml_from_str = (\<lambda>_. Some (TomlTable [(''version'', TomlInteger 1)])),
      cl_try_into = (\<lambda>_. Some \<lparr>rn_version = 1, rn_servers = [sample_raw]\<rparr>),
      cl_to_vec = (\<lambda>_. Some []), cl_read_at_most = (\<lambda>_ _. Ok [])\<rparr>"

definition sample_system :: PathSystem where
  "sample_system = \<lparr>sy_canonicalize = Some, sy_is_dir = (\<lambda>_. True), sy_metadata = (\<lambda>_. Some (True, 0x1ED))\<rparr>"

definition sample_request :: ResolutionRequest where
  "sample_request =
     \<lparr>rq_workspace_root = ''/w'', rq_source_extension = ''rs'', rq_selection = ServerId ''rust'', rq_executable_path = None\<rparr>"

lemma sample_accepted: "accepted_descriptor sample_library sample_raw"
  by (simp add: accepted_descriptor_def sample_raw_def trim_ascii identifier_rules_def field_rules_def argument_rules_def
      json_rules_def timeout_rules_def extension_rules_def strip_dot_def path_components_def is_absolute_path_def
      name_component_def as_bytes_def id_byte_def is_ascii_alphanumeric_def MAX_SERVER_ID_BYTES_def
      MAX_LANGUAGE_IDENTIFIER_BYTES_def MAX_SERVER_ARGUMENTS_def MAX_SERVER_ARGUMENT_BYTES_def
      MAX_TOTAL_SERVER_ARGUMENT_BYTES_def)

definition sample_configuration :: UserConfiguration where
  "sample_configuration = \<lparr>uc_servers = [normalized_descriptor sample_raw]\<rparr>"

lemma sample_loaded: "load_user_configuration sample_library ''f'' = Ok sample_configuration"
proof -
  have "parse_user_configuration sample_library [] = Ok sample_configuration"
    unfolding parse_accepts
    by (intro conjI exI[of _ "TomlTable [(''version'', TomlInteger 1)]"] exI[of _ "\<lparr>rn_version = 1, rn_servers = [sample_raw]\<rparr>"])
      (simp_all add: sample_configuration_def sample_accepted, simp_all add: sample_library_def)
  then show ?thesis
    by (simp add: load_user_configuration_def map_err_def valid_utf8_def utf8_decode.simps text_of_def
        and_then_def sample_library_def)
qed

lemma lower_sample: "ascii_lower (CHR ''R'') = CHR ''r''" "ascii_lower (CHR ''u'') = CHR ''u''"
  "ascii_lower (CHR ''s'') = CHR ''s''" "ascii_lower (CHR ''t'') = CHR ''t''" "ascii_lower (CHR ''r'') = CHR ''r''"
proof -
  have "(of_char (ascii_lower (CHR ''R'')) :: nat) = of_char (CHR ''r'')" by (simp add: ascii_lower_def)
  then show "ascii_lower (CHR ''R'') = CHR ''r''" by (simp only: of_char_eq_iff)
qed (simp_all add: ascii_lower_def)

lemma sample_resolved: "\<exists>r. resolve_server sample_system (Some sample_configuration) sample_request = Ok r \<and>
    ps_program (rs_process r) = ''/opt/ra'' \<and> rs_project_root r = ''/w/sub''"
proof -
  have "normalize_id ''rust'' = Ok ''rust''"
    by (simp add: normalize_id_iff trim_ascii identifier_rules_def as_bytes_def id_byte_def is_ascii_alphanumeric_def
        MAX_SERVER_ID_BYTES_def to_ascii_lowercase_def lower_sample)
  moreover have "sd_id (normalized_descriptor sample_raw) = ''rust''"
    by (simp add: normalized_descriptor_def sample_raw_def trim_ascii to_ascii_lowercase_def lower_sample)
  ultimately show ?thesis
    by (simp add: resolve_server_def sample_request_def sample_system_def resolve_id_def sample_configuration_def
        resolve_user_descriptor_def)
      (simp add: normalized_descriptor_def sample_raw_def path_components_def name_component_def normal_names_def
        List.map_filter_def path_starts_with_def path_join_def is_absolute_path_def resolve_descriptor_executable_def
        qualify_executable_def is_executable_def process_simps)
qed


lemma resolved_servers_are_well_formed_witness:
  "\<exists>r. resolve_server sample_system (Some sample_configuration) sample_request = Ok r \<and> resolved_ok sample_library r"
  using sample_resolved resolved_servers_are_well_formed[OF sample_loaded] by blast

end
