(* ===== verification/Lsp_Transport.thy ===== *)
theory Lsp_Transport
  imports Protocol Server_Config
begin

text \<open>
  The transport over a supervised process (\<open>crates/srcmv-lsp/src/transport.rs\<close>): draining ready events
  at a wake boundary, the precedence of failures, the buffer of validated messages and its bounds. The
  process itself (\<open>process.rs\<close>: threads, pipes and signals) is the environment: the record
  \<open>Outside\<close> holds the answers that its interface and the clock give, in the order of the calls, and the
  log of the calls. When the answers of a call are used up, no event is ready, a wait ends at its
  deadline and the clock stands still, so every finite run of the program is a run of the model.
\<close>

section \<open>The interface of the process\<close>

text \<open>The kind of an I/O error is its name.\<close>

type_synonym ExitStatus = int

datatype ProcessWorker = StdinWorker | StdoutWorker | StderrWorker | StatusWorker

datatype ProcessFaultKind = IoFault string string | QueueLimit string nat nat

record ProcessFault =
  pf_worker :: ProcessWorker
  pf_kind :: ProcessFaultKind

datatype ProcessEvent =
    ExitedEvent ExitStatus
  | FaultEvent ProcessFault
  | StdoutEvent bytes
  | StdoutClosedEvent
  | StdinClosedEvent

datatype ProcessError =
    InvalidLimits
  | SpawnFailed string
  | MissingPipe string
  | SpawnWorkerFailed string
  | DeadlineExceededWhile string
  | ByteCapacityExceeded string nat nat
  | Disconnected string
  | ProcessExited ExitStatus
  | ProcessStdinClosed
  | CleanupDeadlineExceeded
  | WorkerPanicked ProcessWorker

record ProcessLimits =
  pl_inbound_events :: nat
  pl_inbound_bytes :: nat
  pl_outbound_frames :: nat
  pl_outbound_bytes :: nat
  pl_completion_events :: nat
  pl_stderr_tail_bytes :: nat

definition default_process_limits :: ProcessLimits where
  "default_process_limits =
     \<lparr>pl_inbound_events = 32, pl_inbound_bytes = 32 * 1024 * 1024, pl_outbound_frames = 16,
      pl_outbound_bytes = 64 * 1024 * 1024, pl_completion_events = 16, pl_stderr_tail_bytes = 64 * 1024\<rparr>"

definition validate_process_limits :: "ProcessLimits \<Rightarrow> ProcessError + ProcessLimits" where
  "validate_process_limits limits =
     (if pl_inbound_events limits = 0 \<or> pl_inbound_bytes limits = 0 \<or> pl_outbound_frames limits = 0 \<or>
         pl_outbound_bytes limits = 0 \<or> pl_completion_events limits = 0 \<or> pl_stderr_tail_bytes limits = 0 \<or>
         pl_completion_events limits < 4
      then Err InvalidLimits else Ok limits)"

text \<open>The calls of the interface, as the log records them.\<close>

datatype Call =
    Spawned
  | SentFrame bytes
  | Took ProcessEvent
  | FinishCalled
  | AbortCalled

record Outside =
  ou_spawn :: "ProcessError option"
  ou_ready :: "(ProcessError + ProcessEvent option) list"
  ou_waited :: "(ProcessError + ProcessEvent) list"
  ou_sends :: "ProcessError option list"
  ou_finish :: "ProcessError + ExitStatus"
  ou_abort :: "ProcessError + ExitStatus"
  ou_now :: nat
  ou_ticks :: "nat list"
  ou_log :: "Call list"

definition log_call :: "Call \<Rightarrow> Outside \<Rightarrow> Outside" where
  "log_call c w = w\<lparr>ou_log := ou_log w @ [c]\<rparr>"

text \<open>\<open>Instant::now\<close>: the clock never goes back.\<close>

definition instant_now :: "Outside \<Rightarrow> Outside \<times> nat" where
  "instant_now w =
     (case ou_ticks w of
        [] \<Rightarrow> (w, ou_now w)
      | tick # ticks \<Rightarrow> (w\<lparr>ou_now := ou_now w + tick, ou_ticks := ticks\<rparr>, ou_now w + tick))"

definition try_next_event :: "Outside \<Rightarrow> Outside \<times> (ProcessError + ProcessEvent option)" where
  "try_next_event w =
     (case ou_ready w of
        [] \<Rightarrow> (w, Ok None)
      | r # rest \<Rightarrow>
          let w = w\<lparr>ou_ready := rest\<rparr> in
          (case r of Ok (Some event) \<Rightarrow> log_call (Took event) w | _ \<Rightarrow> w, r))"

definition next_event :: "nat \<Rightarrow> Outside \<Rightarrow> Outside \<times> (ProcessError + ProcessEvent)" where
  "next_event deadline w =
     (case ou_waited w of
        [] \<Rightarrow> (w, Err (DeadlineExceededWhile ''waiting for process event''))
      | r # rest \<Rightarrow>
          let w = w\<lparr>ou_waited := rest\<rparr> in
          (case r of Ok event \<Rightarrow> log_call (Took event) w | Err _ \<Rightarrow> w, r))"

definition send_frame :: "bytes \<Rightarrow> nat \<Rightarrow> Outside \<Rightarrow> Outside \<times> (ProcessError + unit)" where
  "send_frame frame deadline w =
     (case ou_sends w of
        Some e # rest \<Rightarrow> (w\<lparr>ou_sends := rest\<rparr>, Err e)
      | None # rest \<Rightarrow> (log_call (SentFrame frame) (w\<lparr>ou_sends := rest\<rparr>), Ok ())
      | [] \<Rightarrow> (log_call (SentFrame frame) w, Ok ()))"

section \<open>Data\<close>

record TransportLimits =
  tl_process :: ProcessLimits
  tl_framing :: FramingLimits
  tl_envelope :: EnvelopeLimits
  tl_max_pending_requests :: nat
  tl_max_ready_events :: nat
  tl_max_buffered_messages :: nat
  tl_max_buffered_message_bytes :: nat

definition default_transport_limits :: TransportLimits where
  "default_transport_limits =
     \<lparr>tl_process = default_process_limits, tl_framing = default_framing_limits,
      tl_envelope = default_envelope_limits, tl_max_pending_requests = 8, tl_max_ready_events = 4096,
      tl_max_buffered_messages = 1024, tl_max_buffered_message_bytes = 32 * 1024 * 1024\<rparr>"

datatype TransportError =
    ProtocolFailure JsonRpcError
  | ServerExited ExitStatus
  | WorkerFault ProcessFault
  | StdoutClosed
  | StdinClosed
  | ProcessFailure ProcessError
  | DeadlineExceeded
  | TransportResourceLimit string nat

datatype IoCondition = FaultCondition ProcessFault | ProcessCondition ProcessError

datatype TerminalCondition = StdinClosedCondition | StdoutClosedCondition

record ReadyBatch =
  rb_protocol_error :: "JsonRpcError option"
  rb_integration_resource :: "(string \<times> nat) option"
  rb_resource_violation :: "ProcessFault option"
  rb_exit :: "ExitStatus option"
  rb_terminal_condition :: "TerminalCondition option"
  rb_io_condition :: "IoCondition option"

definition default_batch :: ReadyBatch where
  "default_batch =
     \<lparr>rb_protocol_error = None, rb_integration_resource = None, rb_resource_violation = None, rb_exit = None,
      rb_terminal_condition = None, rb_io_condition = None\<rparr>"

definition batch_is_empty :: "ReadyBatch \<Rightarrow> bool" where
  "batch_is_empty r \<longleftrightarrow>
     rb_protocol_error r = None \<and> rb_integration_resource r = None \<and> rb_resource_violation r = None \<and>
     rb_exit r = None \<and> rb_terminal_condition r = None \<and> rb_io_condition r = None"

record BufferedIncoming =
  bi_message :: IncomingMessage
  bi_body_bytes :: nat

text \<open>The parser and the serializer of \<open>serde_json\<close>.\<close>

record Json =
  js_from_slice :: "bytes \<Rightarrow> Value option"
  js_to_vec :: "Value \<Rightarrow> bytes option"

record Transport =
  tr_process :: Outside
  tr_framing_limits :: FramingLimits
  tr_envelope_limits :: EnvelopeLimits
  tr_decoder :: "FrameDecoder option"
  tr_correlator :: ResponseCorrelator
  tr_incoming :: "BufferedIncoming list"
  tr_buffered_message_bytes :: nat
  tr_max_ready_events :: nat
  tr_max_buffered_messages :: nat
  tr_max_buffered_message_bytes :: nat

definition map_process_error :: "ProcessError \<Rightarrow> TransportError" where
  "map_process_error e =
     (case e of
        ProcessExited status \<Rightarrow> ServerExited status
      | ProcessStdinClosed \<Rightarrow> StdinClosed
      | _ \<Rightarrow> ProcessFailure e)"

section \<open>The buffer\<close>

definition clear_incoming :: "Transport \<Rightarrow> Transport" where
  "clear_incoming t = t\<lparr>tr_incoming := [], tr_buffered_message_bytes := 0\<rparr>"

definition pop_incoming :: "Transport \<Rightarrow> Transport \<times> IncomingMessage option" where
  "pop_incoming t =
     (case tr_incoming t of
        [] \<Rightarrow> (t, None)
      | buffered # rest \<Rightarrow>
          (t\<lparr>tr_incoming := rest,
             tr_buffered_message_bytes := tr_buffered_message_bytes t - bi_body_bytes buffered\<rparr>,
           Some (bi_message buffered)))"

definition fail_buffered_bytes :: "Transport \<times> ReadyBatch \<Rightarrow> Transport \<times> ReadyBatch" where
  "fail_buffered_bytes = (\<lambda>(t, ready).
     (clear_incoming t,
      ready\<lparr>rb_integration_resource :=
        Some (''buffered incoming message bytes'', tr_max_buffered_message_bytes t)\<rparr>))"

section \<open>Events\<close>

definition protocol_failure :: "JsonRpcError \<Rightarrow> Transport \<times> ReadyBatch \<Rightarrow> Transport \<times> ReadyBatch" where
  "protocol_failure e = (\<lambda>(t, ready). (t, ready\<lparr>rb_protocol_error := Some e\<rparr>))"

text \<open>A response completes its request; other messages leave the correlator alone.\<close>

definition complete_response :: "IncomingMessage \<Rightarrow> ResponseCorrelator \<Rightarrow> ResponseCorrelator \<times> (JsonRpcError + unit)" where
  "complete_response message c =
     (case message of Response response \<Rightarrow> complete c (rp_id response) | _ \<Rightarrow> (c, Ok ()))"

text \<open>The loop over the completed bodies, up to its first \<open>break\<close>.\<close>

fun deliver :: "Json \<Rightarrow> bytes list \<Rightarrow> Transport \<times> ReadyBatch \<Rightarrow> Transport \<times> ReadyBatch" where
  "deliver json [] (t, ready) = (t, ready)"
| "deliver json (body # bodies) (t, ready) =
     (case decode_body (js_from_slice json) (js_to_vec json) body (tr_envelope_limits t) of
        Err e \<Rightarrow> protocol_failure e (t, ready)
      | Ok message \<Rightarrow>
          (case complete_response message (tr_correlator t) of
             (c, Err e) \<Rightarrow> protocol_failure e (t\<lparr>tr_correlator := c\<rparr>, ready)
           | (c, Ok _) \<Rightarrow>
               let t = t\<lparr>tr_correlator := c\<rparr> in
               case checked_add_u64 (tr_buffered_message_bytes t) (length body) of
                 None \<Rightarrow> fail_buffered_bytes (t, ready)
               | Some next_bytes \<Rightarrow>
                   if tr_max_buffered_message_bytes t < next_bytes then fail_buffered_bytes (t, ready)
                   else
                     let t = t\<lparr>tr_buffered_message_bytes := next_bytes,
                               tr_incoming := tr_incoming t @
                                 [\<lparr>bi_message = message, bi_body_bytes = length body\<rparr>]\<rparr> in
                     if tr_max_buffered_messages t < length (tr_incoming t)
                     then (clear_incoming t,
                           ready\<lparr>rb_integration_resource :=
                             Some (''buffered incoming messages'', tr_max_buffered_messages t)\<rparr>)
                     else deliver json bodies (t, ready)))"

text \<open>\<open>push\<close> always returns (\<open>push_feed\<close>), so its third outcome never happens.\<close>

definition decode_chunk :: "Json \<Rightarrow> bytes \<Rightarrow> Transport \<times> ReadyBatch \<Rightarrow> Transport \<times> ReadyBatch" where
  "decode_chunk json bs = (\<lambda>(t, ready).
     if rb_protocol_error ready \<noteq> None then (t, ready)
     else
       case tr_decoder t of
         None \<Rightarrow> (t, ready)
       | Some decoder \<Rightarrow>
           (case push decoder bs of
              None \<Rightarrow> (t, ready)
            | Some (decoder, Err e) \<Rightarrow> protocol_failure e (t\<lparr>tr_decoder := Some decoder\<rparr>, ready)
            | Some (decoder, Ok bodies) \<Rightarrow> deliver json bodies (t\<lparr>tr_decoder := Some decoder\<rparr>, ready)))"

definition get_or_insert :: "'a option \<Rightarrow> 'a \<Rightarrow> 'a option" where
  "get_or_insert x a = (case x of None \<Rightarrow> Some a | Some _ \<Rightarrow> x)"

definition observe_stdout_closed :: "Transport \<times> ReadyBatch \<Rightarrow> Transport \<times> ReadyBatch" where
  "observe_stdout_closed = (\<lambda>(t, ready).
     if rb_protocol_error ready \<noteq> None then (t\<lparr>tr_decoder := None\<rparr>, ready)
     else
       let closed = ready\<lparr>rb_terminal_condition :=
             get_or_insert (rb_terminal_condition ready) StdoutClosedCondition\<rparr> in
       case tr_decoder t of
         None \<Rightarrow> (t, closed)
       | Some decoder \<Rightarrow>
           let t = t\<lparr>tr_decoder := None\<rparr> in
           (case finish decoder of
              Err e \<Rightarrow> (t, ready\<lparr>rb_protocol_error := Some e\<rparr>)
            | Ok _ \<Rightarrow> (t, closed)))"

fun is_resource_limit :: "ProcessFaultKind \<Rightarrow> bool" where
  "is_resource_limit (QueueLimit _ _ _) = True"
| "is_resource_limit (IoFault _ _) = False"

definition observe :: "Json \<Rightarrow> ProcessEvent \<Rightarrow> Transport \<times> ReadyBatch \<Rightarrow> Transport \<times> ReadyBatch" where
  "observe json event = (\<lambda>(t, ready).
     case event of
       ExitedEvent status \<Rightarrow> (t, ready\<lparr>rb_exit := Some status\<rparr>)
     | FaultEvent fault \<Rightarrow>
         if is_resource_limit (pf_kind fault)
         then (t, if rb_resource_violation ready = None then ready\<lparr>rb_resource_violation := Some fault\<rparr> else ready)
         else (t, if rb_io_condition ready = None then ready\<lparr>rb_io_condition := Some (FaultCondition fault)\<rparr> else ready)
     | StdoutEvent bs \<Rightarrow> decode_chunk json bs (t, ready)
     | StdoutClosedEvent \<Rightarrow> observe_stdout_closed (t, ready)
     | StdinClosedEvent \<Rightarrow>
         (t, ready\<lparr>rb_terminal_condition := get_or_insert (rb_terminal_condition ready) StdinClosedCondition\<rparr>))"

definition note_process_error :: "ProcessError \<Rightarrow> ReadyBatch \<Rightarrow> ReadyBatch" where
  "note_process_error e ready =
     (if rb_io_condition ready = None then ready\<lparr>rb_io_condition := Some (ProcessCondition e)\<rparr> else ready)"

definition should_probe_ready_event_overflow :: "nat \<Rightarrow> nat \<Rightarrow> bool" where
  "should_probe_ready_event_overflow observed limit \<longleftrightarrow> observed = limit"

definition probe_ready_event_overflow :: "Transport \<times> ReadyBatch \<Rightarrow> Transport \<times> ReadyBatch" where
  "probe_ready_event_overflow = (\<lambda>(t, ready).
     case try_next_event (tr_process t) of
       (w, r) \<Rightarrow>
         (t\<lparr>tr_process := w\<rparr>,
          case r of
            Ok (Some _) \<Rightarrow>
              ready\<lparr>rb_integration_resource :=
                get_or_insert (rb_integration_resource ready) (''ready process events'', tr_max_ready_events t)\<rparr>
          | Ok None \<Rightarrow> ready
          | Err e \<Rightarrow> note_process_error e ready))"

lemma deliver_process [simp]: "tr_process (fst (deliver json bodies (t, ready))) = tr_process t"
  by (induction json bodies "(t, ready)" arbitrary: t ready rule: deliver.induct)
    (auto simp: protocol_failure_def fail_buffered_bytes_def clear_incoming_def Let_def split: sum.split prod.split option.split)

lemma decode_chunk_process [simp]: "tr_process (fst (decode_chunk json bs (t, ready))) = tr_process t"
  by (auto simp: decode_chunk_def protocol_failure_def split: option.split prod.split sum.split)

lemma observe_stdout_closed_process [simp]: "tr_process (fst (observe_stdout_closed (t, ready))) = tr_process t"
  by (auto simp: observe_stdout_closed_def Let_def split: option.split sum.split)

lemma observe_process [simp]: "tr_process (fst (observe json event (t, ready))) = tr_process t"
  by (cases event) (simp_all add: observe_def)

lemma observe_processD: "observe json event (t, ready) = (t', ready') \<Longrightarrow> tr_process t' = tr_process t"
  by (metis observe_process fst_conv)

lemma try_next_event_ready:
  "try_next_event w = (w', Ok (Some event)) \<Longrightarrow> length (ou_ready w') < length (ou_ready w)"
  by (auto simp: try_next_event_def log_call_def Let_def split: list.splits sum.splits option.splits)

lemma instant_now_ready [simp]: "instant_now w = (w', n) \<Longrightarrow> ou_ready w' = ou_ready w"
  by (auto simp: instant_now_def split: list.splits)

text \<open>The loop of \<open>drain_ready\<close>; every further turn consumes a ready event.\<close>

function drain_loop :: "Json \<Rightarrow> nat \<Rightarrow> nat \<Rightarrow> Transport \<times> ReadyBatch \<Rightarrow> Transport \<times> ReadyBatch" where
  "drain_loop json deadline observed (t, ready) =
     (if should_probe_ready_event_overflow observed (tr_max_ready_events t)
      then probe_ready_event_overflow (t, ready)
      else
        case instant_now (tr_process t) of
          (w, now) \<Rightarrow>
            let t = t\<lparr>tr_process := w\<rparr> in
            if deadline \<le> now \<and> (\<not> batch_is_empty ready \<or> tr_incoming t \<noteq> []) then (t, ready)
            else
              case try_next_event (tr_process t) of
                (w, Ok (Some event)) \<Rightarrow>
                  drain_loop json deadline (Suc observed) (observe json event (t\<lparr>tr_process := w\<rparr>, ready))
              | (w, Ok None) \<Rightarrow> (t\<lparr>tr_process := w\<rparr>, ready)
              | (w, Err e) \<Rightarrow> (t\<lparr>tr_process := w\<rparr>, note_process_error e ready))"
  by pat_completeness auto
termination
  by (relation "measure (\<lambda>(_, _, _, t, _). length (ou_ready (tr_process t)))")
    (auto dest!: try_next_event_ready[OF sym] instant_now_ready[OF sym] observe_processD split: prod.split)

declare drain_loop.simps [simp del]

definition drain_ready :: "Json \<Rightarrow> ProcessEvent option \<Rightarrow> nat \<Rightarrow> Transport \<Rightarrow> Transport \<times> ReadyBatch" where
  "drain_ready json first deadline t =
     (case first of
        None \<Rightarrow> drain_loop json deadline 0 (t, default_batch)
      | Some event \<Rightarrow> drain_loop json deadline 1 (observe json event (t, default_batch)))"

text \<open>What every step of the loop keeps holds at its end.\<close>

lemma drain_loop_rule:
  assumes "P (t, ready)"
    and clock: "\<And>t ready w now. P (t, ready) \<Longrightarrow> instant_now (tr_process t) = (w, now) \<Longrightarrow> P (t\<lparr>tr_process := w\<rparr>, ready)"
    and taken: "\<And>t ready w event. P (t, ready) \<Longrightarrow> try_next_event (tr_process t) = (w, Ok (Some event)) \<Longrightarrow>
      P (observe json event (t\<lparr>tr_process := w\<rparr>, ready))"
    and overflow: "\<And>t ready w event x. P (t, ready) \<Longrightarrow> try_next_event (tr_process t) = (w, Ok (Some event)) \<Longrightarrow>
      P (t\<lparr>tr_process := w\<rparr>, ready\<lparr>rb_integration_resource := Some x\<rparr>)"
    and idle: "\<And>t ready w. P (t, ready) \<Longrightarrow> try_next_event (tr_process t) = (w, Ok None) \<Longrightarrow> P (t\<lparr>tr_process := w\<rparr>, ready)"
    and failed: "\<And>t ready w e. P (t, ready) \<Longrightarrow> try_next_event (tr_process t) = (w, Err e) \<Longrightarrow>
      P (t\<lparr>tr_process := w\<rparr>, note_process_error e ready)"
  shows "P (drain_loop json deadline observed (t, ready))"
  using assms(1)
proof (induction "length (ou_ready (tr_process t))" arbitrary: t ready observed rule: less_induct)
  case less
  obtain w now where n: "instant_now (tr_process t) = (w, now)" by fastforce
  obtain w2 r where r: "try_next_event w = (w2, r)" by fastforce
  obtain w3 r3 where probe: "try_next_event (tr_process t) = (w3, r3)" by fastforce
  have p: "P (t\<lparr>tr_process := w\<rparr>, ready)" using clock[OF less(2) n] .
  have "P (probe_ready_event_overflow (t, ready))"
    using less(2) probe overflow[of t ready w3] idle[of t ready w3] failed[of t ready w3]
    by (auto simp: probe_ready_event_overflow_def get_or_insert_def split: sum.split option.split)
  moreover have "P (drain_loop json deadline (Suc observed) (observe json event (t\<lparr>tr_process := w2\<rparr>, ready)))"
    if event: "r = Ok (Some event)" for event
  proof -
    obtain t' ready' where o: "observe json event (t\<lparr>tr_process := w2\<rparr>, ready) = (t', ready')" by fastforce
    have "try_next_event (tr_process (t\<lparr>tr_process := w\<rparr>)) = (w2, Ok (Some event))" using r event by simp
    from taken[OF p this] o have "P (t', ready')" by simp
    moreover have "length (ou_ready (tr_process t')) < length (ou_ready (tr_process t))"
      using try_next_event_ready[OF r[unfolded event]] instant_now_ready[OF n] observe_processD[OF o] by simp
    ultimately show ?thesis using less(1) o by simp
  qed
  moreover have "P (t\<lparr>tr_process := w2\<rparr>, ready)" if "r = Ok None"
    using idle[OF p, of w2] r that by simp
  moreover have "P (t\<lparr>tr_process := w2\<rparr>, note_process_error e ready)" if "r = Err e" for e
    using failed[OF p, of w2 e] r that by simp
  ultimately show ?case
    by (subst drain_loop.simps) (auto simp: n r p Let_def split: sum.split option.split)
qed

section \<open>Choosing an outcome\<close>

definition choose_outcome :: "Transport \<times> ReadyBatch \<Rightarrow> Transport \<times> (TransportError + IncomingMessage)" where
  "choose_outcome = (\<lambda>(t, ready).
     case rb_protocol_error ready of
       Some e \<Rightarrow> (clear_incoming t, Err (ProtocolFailure e))
     | None \<Rightarrow>
         (case rb_integration_resource ready of
            Some (resource, limit) \<Rightarrow> (clear_incoming t, Err (TransportResourceLimit resource limit))
          | None \<Rightarrow>
              (case rb_resource_violation ready of
                 Some fault \<Rightarrow> (clear_incoming t, Err (WorkerFault fault))
               | None \<Rightarrow>
                   (case rb_exit ready of
                      Some status \<Rightarrow> (clear_incoming t, Err (ServerExited status))
                    | None \<Rightarrow>
                        (case rb_terminal_condition ready of
                           Some StdinClosedCondition \<Rightarrow> (clear_incoming t, Err StdinClosed)
                         | Some StdoutClosedCondition \<Rightarrow> (clear_incoming t, Err StdoutClosed)
                         | None \<Rightarrow>
                             (case rb_io_condition ready of
                                Some (FaultCondition fault) \<Rightarrow> (clear_incoming t, Err (WorkerFault fault))
                              | Some (ProcessCondition e) \<Rightarrow> (clear_incoming t, Err (map_process_error e))
                              | None \<Rightarrow>
                                  (case pop_incoming t of
                                     (t, Some message) \<Rightarrow> (t, Ok message)
                                   | (t, None) \<Rightarrow> (t, Err DeadlineExceeded))))))))"

definition choose_or_deadline :: "Transport \<times> ReadyBatch \<Rightarrow> Transport \<times> (TransportError + IncomingMessage)" where
  "choose_or_deadline = (\<lambda>(t, ready).
     if batch_is_empty ready
     then
       case pop_incoming t of
         (t, Some message) \<Rightarrow> (t, Ok message)
       | (t, None) \<Rightarrow> choose_outcome (t, ready)
     else choose_outcome (t, ready))"

text \<open>After a failing wait the ready events are drained once more and the failure is noted.\<close>

definition wait_failed :: "Json \<Rightarrow> nat \<Rightarrow> ProcessError \<Rightarrow> Transport \<Rightarrow> Transport \<times> (TransportError + IncomingMessage)" where
  "wait_failed json deadline e t =
     (case drain_ready json None deadline t of
        (t, ready) \<Rightarrow> choose_or_deadline (t, note_process_error e ready))"

fun is_deadline :: "ProcessError \<Rightarrow> bool" where
  "is_deadline (DeadlineExceededWhile _) = True"
| "is_deadline _ = False"

definition last_drain :: "Json \<Rightarrow> nat \<Rightarrow> Transport \<Rightarrow> Transport \<times> (TransportError + IncomingMessage)" where
  "last_drain json deadline t = choose_or_deadline (drain_ready json None deadline t)"

definition mid_frame :: "Transport \<Rightarrow> bool" where
  "mid_frame t = (case tr_decoder t of None \<Rightarrow> False | Some decoder \<Rightarrow> is_mid_frame decoder)"

lemma try_next_event_waited [simp]: "try_next_event w = (w', r) \<Longrightarrow> ou_waited w' = ou_waited w"
  by (auto simp: try_next_event_def log_call_def Let_def split: list.splits sum.splits option.splits)

lemma instant_now_waited [simp]: "instant_now w = (w', n) \<Longrightarrow> ou_waited w' = ou_waited w"
  by (auto simp: instant_now_def split: list.splits)

lemma drain_loop_waited:
  "drain_loop json deadline observed (t, ready) = (t', ready') \<Longrightarrow> ou_waited (tr_process t') = ou_waited (tr_process t)"
  using drain_loop_rule[where P = "\<lambda>x. ou_waited (tr_process (fst x)) = ou_waited (tr_process t)", of t ready json deadline observed]
  by auto

lemma drain_ready_waited:
  "drain_ready json first deadline t = (t', ready) \<Longrightarrow> ou_waited (tr_process t') = ou_waited (tr_process t)"
proof (cases first)
  case (Some event)
  assume r: "drain_ready json first deadline t = (t', ready)"
  obtain t1 ready1 where o: "observe json event (t, default_batch) = (t1, ready1)" by fastforce
  with r Some have "drain_loop json deadline 1 (t1, ready1) = (t', ready)" by (simp add: drain_ready_def)
  from drain_loop_waited[OF this] observe_processD[OF o] show ?thesis by simp
qed (simp add: drain_ready_def drain_loop_waited)

lemma next_event_waited: "next_event deadline w = (w', Ok event) \<Longrightarrow> length (ou_waited w') < length (ou_waited w)"
  by (auto simp: next_event_def log_call_def Let_def split: list.splits sum.splits)

text \<open>The loop of \<open>next_incoming\<close>: while a frame is incomplete and time remains, wait for another event.\<close>

function incoming_loop ::
    "Json \<Rightarrow> nat \<Rightarrow> ProcessEvent option \<Rightarrow> Transport \<Rightarrow> Transport \<times> (TransportError + IncomingMessage)" where
  "incoming_loop json deadline observed t =
     (case drain_ready json observed deadline t of
        (t, ready) \<Rightarrow>
          if \<not> batch_is_empty ready then choose_outcome (t, ready)
          else
            case pop_incoming t of
              (t, Some message) \<Rightarrow> (t, Ok message)
            | (t, None) \<Rightarrow>
                if \<not> mid_frame t then last_drain json deadline t
                else
                  case instant_now (tr_process t) of
                    (w, now) \<Rightarrow>
                      let t = t\<lparr>tr_process := w\<rparr> in
                      if deadline \<le> now then last_drain json deadline t
                      else
                        case next_event deadline (tr_process t) of
                          (w, Ok event) \<Rightarrow> incoming_loop json deadline (Some event) (t\<lparr>tr_process := w\<rparr>)
                        | (w, Err e) \<Rightarrow>
                            if is_deadline e then last_drain json deadline (t\<lparr>tr_process := w\<rparr>)
                            else wait_failed json deadline e (t\<lparr>tr_process := w\<rparr>))"
  by pat_completeness auto
termination
  by (relation "measure (\<lambda>(_, _, _, t). length (ou_waited (tr_process t)))")
    (auto simp: pop_incoming_def split: list.splits
      dest!: next_event_waited[OF sym] instant_now_waited[OF sym] drain_ready_waited[OF sym])

declare incoming_loop.simps [simp del]

definition next_incoming :: "Json \<Rightarrow> nat \<Rightarrow> Transport \<Rightarrow> Transport \<times> (TransportError + IncomingMessage)" where
  "next_incoming json deadline t =
     (case drain_ready json None deadline t of
        (t, ready) \<Rightarrow>
          if \<not> batch_is_empty ready then choose_outcome (t, ready)
          else
            case pop_incoming t of
              (t, Some message) \<Rightarrow> (t, Ok message)
            | (t, None) \<Rightarrow>
                (case next_event deadline (tr_process t) of
                   (w, Ok event) \<Rightarrow> incoming_loop json deadline (Some event) (t\<lparr>tr_process := w\<rparr>)
                 | (w, Err e) \<Rightarrow>
                     if is_deadline e then incoming_loop json deadline None (t\<lparr>tr_process := w\<rparr>)
                     else wait_failed json deadline e (t\<lparr>tr_process := w\<rparr>)))"

section \<open>Sending and the life of the process\<close>

definition spawn :: "TransportLimits \<Rightarrow> Outside \<Rightarrow> Outside \<times> (TransportError + Transport)" where
  "spawn limits w =
     (if tl_max_ready_events limits = 0 \<or> tl_max_buffered_messages limits = 0 \<or>
         tl_max_buffered_message_bytes limits = 0
      then (w, Err (TransportResourceLimit ''configured zero capacity'' 0))
      else
        case and_then (validate_process_limits (tl_process limits)) (\<lambda>_.
               case ou_spawn w of Some e \<Rightarrow> Err e | None \<Rightarrow> Ok ()) of
          Err e \<Rightarrow> (w, Err (map_process_error e))
        | Ok _ \<Rightarrow>
            let w = log_call Spawned w in
            (w, Ok \<lparr>tr_process = w, tr_framing_limits = tl_framing limits, tr_envelope_limits = tl_envelope limits,
                tr_decoder = Some (new_decoder (tl_framing limits)),
                tr_correlator = new_correlator (tl_max_pending_requests limits), tr_incoming = [],
                tr_buffered_message_bytes = 0, tr_max_ready_events = tl_max_ready_events limits,
                tr_max_buffered_messages = tl_max_buffered_messages limits,
                tr_max_buffered_message_bytes = tl_max_buffered_message_bytes limits\<rparr>))"

definition send_value :: "Json \<Rightarrow> Value \<Rightarrow> nat \<Rightarrow> Transport \<Rightarrow> Transport \<times> (TransportError + unit)" where
  "send_value json v deadline t =
     (case encode_message (js_to_vec json) v (tr_framing_limits t) of
        Err e \<Rightarrow> (t, Err (ProtocolFailure e))
      | Ok frame \<Rightarrow>
          (case send_frame frame deadline (tr_process t) of
             (w, r) \<Rightarrow> (t\<lparr>tr_process := w\<rparr>, map_err map_process_error r)))"

definition request_value :: "ClientRequestId \<Rightarrow> string \<Rightarrow> Value option \<Rightarrow> Value" where
  "request_value i method params =
     Object (context_entries
       ([(''jsonrpc'', String ''2.0''), (''id'', json_nat i), (''method'', String method)] @
        (case params of None \<Rightarrow> [] | Some params \<Rightarrow> [(''params'', params)])))"

definition send_request ::
    "Json \<Rightarrow> string \<Rightarrow> Value option \<Rightarrow> nat \<Rightarrow> Transport \<Rightarrow> Transport \<times> (TransportError + ClientRequestId)" where
  "send_request json method params deadline t =
     (case begin_request (tr_correlator t) of
        (c, Err e) \<Rightarrow> (t\<lparr>tr_correlator := c\<rparr>, Err (ProtocolFailure e))
      | (c, Ok i) \<Rightarrow>
          (case send_value json (request_value i method params) deadline (t\<lparr>tr_correlator := c\<rparr>) of
             (t, Err e) \<Rightarrow> (t, Err e)
           | (t, Ok _) \<Rightarrow> (t, Ok i)))"

definition finish_transport :: "Transport \<Rightarrow> Transport \<times> (TransportError + ExitStatus)" where
  "finish_transport t =
     (t\<lparr>tr_process := log_call FinishCalled (tr_process t)\<rparr>, map_err map_process_error (ou_finish (tr_process t)))"

definition abort_transport :: "Transport \<Rightarrow> Transport \<times> (TransportError + ExitStatus)" where
  "abort_transport t =
     (t\<lparr>tr_process := log_call AbortCalled (tr_process t)\<rparr>, map_err map_process_error (ou_abort (tr_process t)))"

section \<open>The buffer and the order of messages\<close>

text \<open>The accounting of the buffer.\<close>

definition buffer_ok :: "Transport \<Rightarrow> bool" where
  "buffer_ok t \<longleftrightarrow>
     tr_buffered_message_bytes t = sum_list (map bi_body_bytes (tr_incoming t)) \<and>
     tr_buffered_message_bytes t \<le> tr_max_buffered_message_bytes t \<and>
     length (tr_incoming t) \<le> tr_max_buffered_messages t"

definition stdout_bytes :: "Call list \<Rightarrow> bytes" where
  "stdout_bytes log = concat (map (\<lambda>c. case c of Took (StdoutEvent bs) \<Rightarrow> bs | _ \<Rightarrow> []) log)"

text \<open>
  The stream of the server, decoded at once, is the messages that were returned and then those that
  are buffered.
\<close>

definition in_order :: "Json \<Rightarrow> IncomingMessage list \<Rightarrow> Transport \<Rightarrow> bool" where
  "in_order json ms t \<longleftrightarrow>
     (\<exists>decoder bodies. tr_decoder t = Some decoder \<and>
       feed (new_decoder (tr_framing_limits t)) (stdout_bytes (ou_log (tr_process t))) [] = (decoder, Ok bodies) \<and>
       try_map (\<lambda>body. decode_body (js_from_slice json) (js_to_vec json) body (tr_envelope_limits t)) bodies =
         Ok (ms @ map bi_message (tr_incoming t)))"

text \<open>What no step changes: the limits, and of the log only events that were taken are added.\<close>

definition same_setup :: "Transport \<Rightarrow> Transport \<Rightarrow> bool" where
  "same_setup t t' \<longleftrightarrow>
     tr_framing_limits t' = tr_framing_limits t \<and> tr_envelope_limits t' = tr_envelope_limits t \<and>
     tr_max_ready_events t' = tr_max_ready_events t \<and>
     tr_max_buffered_messages t' = tr_max_buffered_messages t \<and>
     tr_max_buffered_message_bytes t' = tr_max_buffered_message_bytes t \<and>
     rc_next_id (tr_correlator t') = rc_next_id (tr_correlator t) \<and>
     rc_max_pending (tr_correlator t') = rc_max_pending (tr_correlator t)"

definition only_took :: "Transport \<Rightarrow> Transport \<Rightarrow> bool" where
  "only_took t t' \<longleftrightarrow> (\<exists>events. ou_log (tr_process t') = ou_log (tr_process t) @ map Took events)"

lemma same_setup_refl [simp]: "same_setup t t"
  by (simp add: same_setup_def)

lemma same_setup_trans: "same_setup t t' \<Longrightarrow> same_setup t' t'' \<Longrightarrow> same_setup t t''"
  by (simp add: same_setup_def)

lemma only_took_refl [simp]: "only_took t t"
  by (simp add: only_took_def exI[of _ "[]"])

lemma only_took_trans: "only_took t t' \<Longrightarrow> only_took t' t'' \<Longrightarrow> only_took t t''"
  by (auto simp: only_took_def) (metis map_append)

lemma stdout_bytes_simps [simp]:
  "stdout_bytes [] = []" "stdout_bytes (log @ log') = stdout_bytes log @ stdout_bytes log'"
  "stdout_bytes [Took (StdoutEvent bs)] = bs"
  by (simp_all add: stdout_bytes_def)

lemma complete_response_setup:
  "complete_response message c = (c', r) \<Longrightarrow> rc_next_id c' = rc_next_id c \<and> rc_max_pending c' = rc_max_pending c"
  by (auto simp: complete_response_def complete_def split: IncomingMessage.splits if_splits)

lemma clear_incoming_ok [simp]: "buffer_ok (clear_incoming t)" "same_setup t (clear_incoming t)"
  "only_took t (clear_incoming t)" "tr_incoming (clear_incoming t) = []"
  "tr_process (clear_incoming t) = tr_process t"
  by (simp_all add: clear_incoming_def buffer_ok_def same_setup_def only_took_def exI[of _ "[]"])

text \<open>The bodies of a chunk are appended in order, unless some failure is noted.\<close>

lemma deliver_spec:
  assumes "deliver json bodies (t, ready) = (t', ready')" "buffer_ok t"
  shows "buffer_ok t' \<and> same_setup t t' \<and> ou_log (tr_process t') = ou_log (tr_process t) \<and>
    (batch_is_empty ready' \<longrightarrow> batch_is_empty ready \<and> tr_decoder t' = tr_decoder t \<and>
      (\<exists>ms. try_map (\<lambda>body. decode_body (js_from_slice json) (js_to_vec json) body (tr_envelope_limits t)) bodies = Ok ms \<and>
        map bi_message (tr_incoming t') = map bi_message (tr_incoming t) @ ms))"
  using assms
proof (induction bodies arbitrary: t ready)
  case (Cons body bodies)
  let ?decode = "decode_body (js_from_slice json) (js_to_vec json) body (tr_envelope_limits t)"
  have stop: ?case if "t' = t1 \<or> t' = clear_incoming t1" "\<not> batch_is_empty ready'" "same_setup t t1" "buffer_ok t1"
    "ou_log (tr_process t1) = ou_log (tr_process t)" for t1
    using that same_setup_trans[OF that(3)] by auto
  show ?case
  proof (cases ?decode)
    case (Inl e)
    then show ?thesis
      using Cons.prems by (auto simp: protocol_failure_def batch_is_empty_def)
  next
    case (Inr message)
    obtain c r where c: "complete_response message (tr_correlator t) = (c, r)" by fastforce
    let ?t = "t\<lparr>tr_correlator := c\<rparr>"
    have t: "same_setup t ?t" "buffer_ok ?t" "ou_log (tr_process ?t) = ou_log (tr_process t)"
      using complete_response_setup[OF c] Cons.prems(2) by (simp_all add: same_setup_def buffer_ok_def)
    show ?thesis
    proof (cases "r = Ok () \<and> checked_add_u64 (tr_buffered_message_bytes t) (length body) \<noteq> None \<and>
        tr_buffered_message_bytes t + length body \<le> tr_max_buffered_message_bytes t \<and>
        Suc (length (tr_incoming t)) \<le> tr_max_buffered_messages t")
      case True
      let ?next = "?t\<lparr>tr_buffered_message_bytes := tr_buffered_message_bytes t + length body,
        tr_incoming := tr_incoming t @ [\<lparr>bi_message = message, bi_body_bytes = length body\<rparr>]\<rparr>"
      have "deliver json bodies (?next, ready) = (t', ready')"
        using Cons.prems(1) True Inr c by (auto simp: Let_def checked_add_u64_def split: if_splits)
      moreover have "buffer_ok ?next" using t(2) True by (simp add: buffer_ok_def)
      moreover have "same_setup t ?next" using t(1) by (simp add: same_setup_def)
      ultimately show ?thesis using Cons.IH[of ?next ready] Inr same_setup_trans[of t ?next t'] by auto
    next
      case False
      show ?thesis
      proof (cases r)
        case (Inl e)
        then have "t' = ?t" "\<not> batch_is_empty ready'"
          using Cons.prems(1) \<open>?decode = Ok message\<close> c by (auto simp: protocol_failure_def batch_is_empty_def)
        with stop t show ?thesis by blast
      next
        case (Inr u)
        show ?thesis
        proof (cases "checked_add_u64 (tr_buffered_message_bytes t) (length body) \<noteq> None \<and>
            tr_buffered_message_bytes t + length body \<le> tr_max_buffered_message_bytes t")
          case True
          let ?next = "?t\<lparr>tr_buffered_message_bytes := tr_buffered_message_bytes t + length body,
            tr_incoming := tr_incoming t @ [\<lparr>bi_message = message, bi_body_bytes = length body\<rparr>]\<rparr>"
          have "t' = clear_incoming ?next" "\<not> batch_is_empty ready'"
            using Cons.prems(1) True False Inr \<open>?decode = Ok message\<close> c
            by (auto simp: Let_def checked_add_u64_def batch_is_empty_def split: if_splits)
          then show ?thesis using t by (auto simp: clear_incoming_def buffer_ok_def same_setup_def)
        next
          case False
          then have "t' = clear_incoming ?t" "\<not> batch_is_empty ready'"
            using Cons.prems(1) Inr \<open>?decode = Ok message\<close> c
            by (auto simp: Let_def checked_add_u64_def batch_is_empty_def fail_buffered_bytes_def split: if_splits)
          with stop t show ?thesis by blast
        qed
      qed
    qed
  qed
qed auto

text \<open>A batch that is empty stays so only while the messages stay in order.\<close>

definition orderly :: "Json \<Rightarrow> IncomingMessage list \<Rightarrow> Transport \<times> ReadyBatch \<Rightarrow> bool" where
  "orderly json ms = (\<lambda>(t, ready). buffer_ok t \<and> (batch_is_empty ready \<longrightarrow> in_order json ms t))"

lemma empty_default [simp]: "batch_is_empty default_batch"
  by (simp add: batch_is_empty_def default_batch_def)

lemma decode_chunk_spec:
  assumes "decode_chunk json bs (t\<lparr>tr_process := w\<rparr>, ready) = (t', ready')"
    and "ou_log w = ou_log (tr_process t) @ [Took (StdoutEvent bs)]"
    and "orderly json ms (t, ready)"
  shows "orderly json ms (t', ready') \<and> same_setup t t' \<and> ou_log (tr_process t') = ou_log w"
proof (cases "rb_protocol_error ready \<noteq> None \<or> tr_decoder t = None")
  case True
  then have "t' = t\<lparr>tr_process := w\<rparr>" "ready' = ready"
    using assms(1) by (cases "rb_protocol_error ready"; simp add: decode_chunk_def)+
  moreover have "\<not> batch_is_empty ready"
    using True assms(3) by (auto simp: orderly_def in_order_def batch_is_empty_def)
  ultimately show ?thesis
    using assms(3) by (simp add: orderly_def buffer_ok_def same_setup_def)
next
  case False
  then obtain decoder where d: "tr_decoder t = Some decoder" "rb_protocol_error ready = None" by auto
  have ok: "buffer_ok t" using assms(3) by (simp add: orderly_def)
  show ?thesis
  proof (cases "push decoder bs")
    case None
    have "\<not> batch_is_empty ready \<or> (\<exists>bodies. feed (new_decoder (tr_framing_limits t))
        (stdout_bytes (ou_log (tr_process t))) [] = (decoder, Ok bodies))"
      using assms(3) d(1) by (auto simp: orderly_def in_order_def)
    then have "\<not> batch_is_empty ready" using None push_feed feed_valid[OF new_decoder_valid] by fastforce
    then show ?thesis
      using assms(1,2) d None ok by (auto simp: decode_chunk_def orderly_def buffer_ok_def same_setup_def)
  next
    case (Some pr)
    obtain decoder' r where pr: "pr = (decoder', r)" by fastforce
    let ?t = "t\<lparr>tr_process := w, tr_decoder := Some decoder'\<rparr>"
    show ?thesis
    proof (cases r)
      case (Inl e)
      then show ?thesis
        using assms(1,2) d Some pr ok
        by (auto simp: decode_chunk_def protocol_failure_def orderly_def batch_is_empty_def buffer_ok_def same_setup_def)
    next
      case (Inr bodies)
      then have del: "deliver json bodies (?t, ready) = (t', ready')"
        using assms(1) d Some pr by (simp add: decode_chunk_def)
      have "buffer_ok ?t" using ok by (simp add: buffer_ok_def)
      note spec = deliver_spec[OF del this]
      have kept: "same_setup t t'" using spec same_setup_trans[of t ?t t'] by (simp add: same_setup_def)
      have "in_order json ms t'" if empty: "batch_is_empty ready'"
      proof -
        obtain new where new: "try_map (\<lambda>body. decode_body (js_from_slice json) (js_to_vec json) body (tr_envelope_limits t)) bodies = Ok new"
          "map bi_message (tr_incoming t') = map bi_message (tr_incoming t) @ new" "batch_is_empty ready"
          "tr_decoder t' = Some decoder'"
          using spec empty by auto
        obtain old where old: "feed (new_decoder (tr_framing_limits t)) (stdout_bytes (ou_log (tr_process t))) [] = (decoder, Ok old)"
          "try_map (\<lambda>body. decode_body (js_from_slice json) (js_to_vec json) body (tr_envelope_limits t)) old =
            Ok (ms @ map bi_message (tr_incoming t))"
          using assms(3) new(3) d(1) by (auto simp: orderly_def in_order_def)
        have "valid_decoder decoder" using feed_valid[OF new_decoder_valid old(1)] .
        then have "feed decoder bs [] = (decoder', Ok bodies)" using push_feed[of decoder bs] Some pr Inr by simp
        then have "feed (new_decoder (tr_framing_limits t)) (stdout_bytes (ou_log w)) [] = (decoder', Ok (old @ bodies))"
          using old(1) assms(2) feed_completed[of decoder bs old] by (simp add: feed_append)
        moreover have "try_map (\<lambda>body. decode_body (js_from_slice json) (js_to_vec json) body (tr_envelope_limits t)) (old @ bodies) =
            Ok ((ms @ map bi_message (tr_incoming t)) @ new)"
          using old(2) new(1) unfolding try_map_Ok_iff by (rule list_all2_appendI)
        ultimately show ?thesis
          using new spec kept by (simp add: in_order_def same_setup_def)
      qed
      then show ?thesis using spec kept by (auto simp: orderly_def)
    qed
  qed
qed

definition steady :: "Json \<Rightarrow> IncomingMessage list \<Rightarrow> Transport \<Rightarrow> Transport \<times> ReadyBatch \<Rightarrow> bool" where
  "steady json ms t0 = (\<lambda>(t, ready). orderly json ms (t, ready) \<and> same_setup t0 t \<and> only_took t0 t)"

lemma stdout_bytes_other [simp]: "(\<And>bs. event \<noteq> StdoutEvent bs) \<Longrightarrow> stdout_bytes [Took event] = []"
  by (simp add: stdout_bytes_def split: ProcessEvent.split)

lemma steady_process:
  assumes "steady json ms t0 (t, ready)" "ou_log w = ou_log (tr_process t)"
  shows "steady json ms t0 (t\<lparr>tr_process := w\<rparr>, ready)"
  using assms by (auto simp: steady_def orderly_def buffer_ok_def in_order_def same_setup_def only_took_def)

lemma steady_batch:
  assumes "steady json ms t0 (t, ready)" "batch_is_empty ready' \<Longrightarrow> batch_is_empty ready"
  shows "steady json ms t0 (t, ready')"
  using assms by (auto simp: steady_def orderly_def)

lemma try_next_event_log:
  "try_next_event w = (w', r) \<Longrightarrow>
     ou_log w' = ou_log w @ (case r of Ok (Some event) \<Rightarrow> [Took event] | _ \<Rightarrow> [])"
  by (auto simp: try_next_event_def log_call_def Let_def split: list.splits sum.splits option.splits)

lemma instant_now_log: "instant_now w = (w', n) \<Longrightarrow> ou_log w' = ou_log w"
  by (auto simp: instant_now_def split: list.splits)

lemma next_event_log:
  "next_event deadline w = (w', r) \<Longrightarrow> ou_log w' = ou_log w @ (case r of Ok event \<Rightarrow> [Took event] | Err _ \<Rightarrow> [])"
  by (auto simp: next_event_def log_call_def Let_def split: list.splits sum.splits)

lemma steady_taken:
  assumes "steady json ms t0 (t, ready)" "ou_log w = ou_log (tr_process t) @ [Took event]"
    and "\<And>bs. event \<noteq> StdoutEvent bs"
  shows "steady json ms t0 (t\<lparr>tr_process := w\<rparr>, ready)"
proof -
  have "only_took t (t\<lparr>tr_process := w\<rparr>)" using assms(2) by (simp add: only_took_def exI[of _ "[event]"])
  then have "only_took t0 (t\<lparr>tr_process := w\<rparr>)" using assms(1) only_took_trans by (auto simp: steady_def)
  then show ?thesis
    using assms by (auto simp: steady_def orderly_def buffer_ok_def in_order_def same_setup_def)
qed

lemma get_or_insert_Some [simp]: "get_or_insert x y = None \<longleftrightarrow> False"
  by (simp add: get_or_insert_def split: option.split)

lemma steady_observe:
  assumes "steady json ms t0 (t, ready)" "ou_log w = ou_log (tr_process t) @ [Took event]"
  shows "steady json ms t0 (observe json event (t\<lparr>tr_process := w\<rparr>, ready))"
proof (cases "\<exists>bs. event = StdoutEvent bs")
  case True
  then obtain bs where e: "event = StdoutEvent bs" by blast
  obtain t' ready' where o: "decode_chunk json bs (t\<lparr>tr_process := w\<rparr>, ready) = (t', ready')" by fastforce
  have "orderly json ms (t, ready)" using assms(1) by (simp add: steady_def)
  note spec = decode_chunk_spec[OF o assms(2)[unfolded e] this]
  have "only_took t t'" using spec assms(2) by (simp add: only_took_def exI[of _ "[event]"])
  then show ?thesis
    using spec assms(1) e o same_setup_trans only_took_trans by (auto simp: steady_def observe_def)
next
  case False
  then have s: "steady json ms t0 (t\<lparr>tr_process := w\<rparr>, ready)" using steady_taken[OF assms] by blast
  have fresh: "\<not> batch_is_empty (ready\<lparr>rb_exit := Some status\<rparr>)"
    "\<not> batch_is_empty (ready\<lparr>rb_resource_violation := Some fault\<rparr>)"
    "\<not> batch_is_empty (ready\<lparr>rb_io_condition := Some io\<rparr>)"
    "\<not> batch_is_empty (ready\<lparr>rb_terminal_condition := get_or_insert x y\<rparr>)"
    "\<not> batch_is_empty (ready\<lparr>rb_protocol_error := Some e\<rparr>)" for status fault io x y e
    by (auto simp: batch_is_empty_def)
  have closed: "steady json ms t0 (observe_stdout_closed (t\<lparr>tr_process := w\<rparr>, ready))"
    using s
    by (auto simp: observe_stdout_closed_def steady_def orderly_def buffer_ok_def same_setup_def only_took_def
        batch_is_empty_def Let_def split: option.split sum.split)
  show ?thesis
    using s fresh closed False
    by (cases event) (auto simp: observe_def intro!: steady_batch[OF s])
qed

lemma steady_drain_loop:
  assumes "steady json ms t0 (t, ready)"
  shows "steady json ms t0 (drain_loop json deadline observed (t, ready))"
proof (rule drain_loop_rule[where P = "steady json ms t0", OF assms])
  fix t ready w event
  assume "steady json ms t0 (t, ready)" "try_next_event (tr_process t) = (w, Ok (Some event))"
  then show "steady json ms t0 (observe json event (t\<lparr>tr_process := w\<rparr>, ready))"
    using steady_observe try_next_event_log by fastforce
next
  fix t ready w event x
  assume s: "steady json ms t0 (t, ready)" and "try_next_event (tr_process t) = (w, Ok (Some event))"
  then have "ou_log w = ou_log (tr_process t) @ map Took [event]" using try_next_event_log by fastforce
  then have "only_took t (t\<lparr>tr_process := w\<rparr>)" unfolding only_took_def by (metis Transport.select_convs(1) Transport.surjective Transport.update_convs(1))
  then have "only_took t0 (t\<lparr>tr_process := w\<rparr>)" using s only_took_trans by (auto simp: steady_def)
  then show "steady json ms t0 (t\<lparr>tr_process := w\<rparr>, ready\<lparr>rb_integration_resource := Some x\<rparr>)"
    using s by (auto simp: steady_def orderly_def buffer_ok_def same_setup_def batch_is_empty_def)
next
  fix t ready w e
  assume s: "steady json ms t0 (t, ready)" and "try_next_event (tr_process t) = (w, Err e)"
  then have "steady json ms t0 (t\<lparr>tr_process := w\<rparr>, ready)" using steady_process[OF s] try_next_event_log by fastforce
  then show "steady json ms t0 (t\<lparr>tr_process := w\<rparr>, note_process_error e ready)"
    by (rule steady_batch) (auto simp: note_process_error_def batch_is_empty_def split: if_splits)
qed (use steady_process try_next_event_log instant_now_log in fastforce)+

lemma steady_drain_ready:
  assumes "steady json ms t0 (t, default_batch)" "drain_ready json None deadline t = (t', ready)"
  shows "steady json ms t0 (t', ready)"
  using steady_drain_loop[OF assms(1), of deadline 0] assms(2) by (simp add: drain_ready_def)

lemma steady_drain_first:
  assumes "steady json ms t0 (t, default_batch)" "ou_log w = ou_log (tr_process t) @ [Took event]"
    and "drain_ready json (Some event) deadline (t\<lparr>tr_process := w\<rparr>) = (t', ready)"
  shows "steady json ms t0 (t', ready)"
proof -
  obtain t1 r1 where o: "observe json event (t\<lparr>tr_process := w\<rparr>, default_batch) = (t1, r1)" by fastforce
  have "steady json ms t0 (t1, r1)" using steady_observe[OF assms(1,2)] o by simp
  from steady_drain_loop[OF this, of deadline 1] assms(3) o show ?thesis by (simp add: drain_ready_def)
qed

text \<open>What a call of \<open>next_incoming\<close> leaves behind.\<close>

definition received ::
    "Json \<Rightarrow> IncomingMessage list \<Rightarrow> Transport \<Rightarrow> Transport \<times> (TransportError + IncomingMessage) \<Rightarrow> bool" where
  "received json ms t0 = (\<lambda>(t, r). buffer_ok t \<and> same_setup t0 t \<and> only_took t0 t \<and>
     (case r of Ok m \<Rightarrow> in_order json (ms @ [m]) t | Err _ \<Rightarrow> tr_incoming t = []))"

lemma pop_incoming_Some:
  assumes "pop_incoming t = (t', Some m)" "steady json ms t0 (t, ready)" "batch_is_empty ready"
  shows "received json ms t0 (t', Ok m)"
  using assms
  by (auto simp: pop_incoming_def received_def steady_def orderly_def buffer_ok_def in_order_def same_setup_def
      only_took_def split: list.splits)

lemma pop_incoming_None: "pop_incoming t = (t', None) \<Longrightarrow> t' = t \<and> tr_incoming t = []"
  by (auto simp: pop_incoming_def split: list.splits)

lemma choose_received:
  assumes "steady json ms t0 (t, ready)" "choose_outcome (t, ready) = (t', r)"
  shows "received json ms t0 (t', r)"
proof (cases "batch_is_empty ready")
  case True
  then show ?thesis
    using assms pop_incoming_Some[of t _ _ json ms t0 ready]
    by (auto simp: choose_outcome_def batch_is_empty_def received_def steady_def orderly_def
        dest!: pop_incoming_None split: prod.splits option.splits)
next
  case False
  then have "t' = clear_incoming t \<and> (\<exists>e. r = Err e)"
    using assms(2)
    by (auto simp: choose_outcome_def batch_is_empty_def split: option.splits prod.splits TerminalCondition.splits IoCondition.splits)
  then show ?thesis
    using assms(1) same_setup_trans[of t0 t] only_took_trans[of t0 t] by (auto simp: received_def steady_def)
qed

lemma choose_or_deadline_received:
  assumes "steady json ms t0 (t, ready)" "choose_or_deadline (t, ready) = (t', r)"
  shows "received json ms t0 (t', r)"
  using assms choose_received[OF assms(1)] pop_incoming_Some[OF _ assms(1)]
  by (auto simp: choose_or_deadline_def dest!: pop_incoming_None split: if_splits prod.splits option.splits)

lemma wait_failed_received:
  assumes "steady json ms t0 (t, default_batch)"
  shows "received json ms t0 (wait_failed json deadline e t)"
proof -
  obtain t1 ready where d: "drain_ready json None deadline t = (t1, ready)" by fastforce
  have "steady json ms t0 (t1, note_process_error e ready)"
    by (rule steady_batch[OF steady_drain_ready[OF assms d]])
      (auto simp: note_process_error_def batch_is_empty_def split: if_splits)
  then show ?thesis using d choose_or_deadline_received by (auto simp: wait_failed_def) (metis surj_pair)
qed

lemma last_drain_received:
  assumes "steady json ms t0 (t, default_batch)"
  shows "received json ms t0 (last_drain json deadline t)"
proof -
  obtain t1 ready where d: "drain_ready json None deadline t = (t1, ready)" by fastforce
  from choose_or_deadline_received[OF steady_drain_ready[OF assms d]] d show ?thesis
    by (simp add: last_drain_def) (metis surj_pair)
qed

lemma steady_empty: "steady json ms t0 (t, ready) \<Longrightarrow> batch_is_empty ready \<Longrightarrow> steady json ms t0 (t, default_batch)"
  by (rule steady_batch)

lemma steady_next_event:
  assumes "steady json ms t0 (t, default_batch)" "next_event deadline (tr_process t) = (w, Ok event)"
    and "drain_ready json (Some event) deadline (t\<lparr>tr_process := w\<rparr>) = (t', ready)"
  shows "steady json ms t0 (t', ready)"
  using steady_drain_first[OF assms(1) _ assms(3)] next_event_log[OF assms(2)] by simp

lemma steady_next_error:
  assumes "steady json ms t0 (t, default_batch)" "next_event deadline (tr_process t) = (w, Err e)"
  shows "steady json ms t0 (t\<lparr>tr_process := w\<rparr>, default_batch)"
  using steady_process[OF assms(1)] next_event_log[OF assms(2)] by simp

lemma incoming_loop_received:
  assumes "\<And>t1 ready. drain_ready json observed deadline t = (t1, ready) \<Longrightarrow> steady json ms t0 (t1, ready)"
  shows "received json ms t0 (incoming_loop json deadline observed t)"
  using assms
proof (induction "length (ou_waited (tr_process t))" arbitrary: t observed rule: less_induct)
  case less
  obtain t1 ready where d: "drain_ready json observed deadline t = (t1, ready)" by fastforce
  have s1: "steady json ms t0 (t1, ready)" by (rule less(2)[OF d])
  obtain t2 popped where p: "pop_incoming t1 = (t2, popped)" by fastforce
  obtain w now where n: "instant_now (tr_process t2) = (w, now)" by fastforce
  obtain w3 r where r: "next_event deadline w = (w3, r)" by fastforce
  consider (failing) "\<not> batch_is_empty ready" | (message) m where "batch_is_empty ready" "popped = Some m"
    | (waiting) "batch_is_empty ready" "popped = None" by (cases popped) auto
  then show ?case
  proof cases
    case failing
    obtain t' r' where "choose_outcome (t1, ready) = (t', r')" by fastforce
    with choose_received[OF s1 this] failing d show ?thesis by (simp add: incoming_loop.simps)
  next
    case message
    with pop_incoming_Some[OF p[unfolded message(2)] s1] d p show ?thesis by (simp add: incoming_loop.simps)
  next
    case waiting
    then have t2: "t2 = t1" using p pop_incoming_None by simp
    have s2: "steady json ms t0 (t2, default_batch)" using steady_empty[OF s1] waiting(1) t2 by simp
    have s3: "steady json ms t0 (t2\<lparr>tr_process := w\<rparr>, default_batch)"
      using steady_process[OF s2] instant_now_log[OF n] by simp
    have next_turn: "received json ms t0 (incoming_loop json deadline (Some event) (t2\<lparr>tr_process := w3\<rparr>))"
      if "r = Ok event" for event
    proof (rule less(1))
      show "length (ou_waited (tr_process (t2\<lparr>tr_process := w3\<rparr>))) < length (ou_waited (tr_process t))"
        using next_event_waited[of deadline w w3 event] r that instant_now_waited[OF n] t2 drain_ready_waited[OF d] by simp
      show "steady json ms t0 (t', ready')"
        if "drain_ready json (Some event) deadline (t2\<lparr>tr_process := w3\<rparr>) = (t', ready')" for t' ready'
        using steady_next_event[OF s3, of deadline w3 event t' ready'] r \<open>r = Ok event\<close> that by simp
    qed
    have "steady json ms t0 (t2\<lparr>tr_process := w3\<rparr>, default_batch)" if "r = Err e" for e
      using steady_next_error[OF s3, of deadline w3 e] r that by simp
    then show ?thesis
      using d p waiting n r next_turn last_drain_received[OF s2] last_drain_received[OF s3]
        last_drain_received wait_failed_received
      by (subst incoming_loop.simps) (auto simp: Let_def split: sum.split)
  qed
qed

lemma next_incoming_received:
  assumes "buffer_ok t" "in_order json ms t"
  shows "received json ms t (next_incoming json deadline t)"
proof -
  have s: "steady json ms t (t, default_batch)" using assms by (simp add: steady_def orderly_def)
  obtain t1 ready where d: "drain_ready json None deadline t = (t1, ready)" by fastforce
  note s1 = steady_drain_ready[OF s d]
  obtain t2 popped where p: "pop_incoming t1 = (t2, popped)" by fastforce
  obtain w r where r: "next_event deadline (tr_process t2) = (w, r)" by fastforce
  consider (failing) "\<not> batch_is_empty ready" | (message) m where "batch_is_empty ready" "popped = Some m"
    | (waiting) "batch_is_empty ready" "popped = None" by (cases popped) auto
  then show ?thesis
  proof cases
    case failing
    obtain t' r' where "choose_outcome (t1, ready) = (t', r')" by fastforce
    with choose_received[OF s1 this] failing d show ?thesis by (simp add: next_incoming_def)
  next
    case message
    with pop_incoming_Some[OF p[unfolded message(2)] s1] d p show ?thesis by (simp add: next_incoming_def)
  next
    case waiting
    then have "t2 = t1" using p pop_incoming_None by simp
    then have s2: "steady json ms t (t2, default_batch)" using steady_empty[OF s1] waiting by simp
    show ?thesis
    proof (cases r)
      case (Inl e)
      note s3 = steady_next_error[OF s2 r[unfolded Inl]]
      show ?thesis
        using d p waiting r Inl wait_failed_received[OF s3]
          incoming_loop_received[of json None deadline "t2\<lparr>tr_process := w\<rparr>", OF steady_drain_ready[OF s3]]
        by (auto simp: next_incoming_def)
    next
      case (Inr event)
      then show ?thesis
        using d p waiting r
          incoming_loop_received[of json "Some event" deadline "t2\<lparr>tr_process := w\<rparr>", OF steady_next_event[OF s2 r[unfolded Inr]]]
        by (simp add: next_incoming_def)
    qed
  qed
qed

section \<open>Sending\<close>

lemma send_frame_log:
  "send_frame frame deadline w = (w', r) \<Longrightarrow>
     ou_log w' = ou_log w @ (case r of Ok _ \<Rightarrow> [SentFrame frame] | Err _ \<Rightarrow> [])"
  by (auto simp: send_frame_def log_call_def split: list.splits option.splits)

lemma stdout_bytes_sent [simp]: "stdout_bytes [SentFrame frame] = []" "stdout_bytes [Spawned] = []"
  by (simp_all add: stdout_bytes_def)

lemma send_value_kept:
  assumes "send_value json v deadline t = (t', r)"
  shows "same_setup t t' \<and> (buffer_ok t \<longrightarrow> buffer_ok t') \<and> (in_order json ms t \<longrightarrow> in_order json ms t') \<and>
    tr_correlator t' = tr_correlator t"
  using assms
  by (auto simp: send_value_def same_setup_def buffer_ok_def in_order_def split: sum.splits prod.splits dest!: send_frame_log)

lemma begin_request_kept:
  "begin_request c = (c', r) \<Longrightarrow> rc_max_pending c' = rc_max_pending c"
  by (auto simp: begin_request_def split: if_splits option.splits)

lemma correlator_kept [simp]:
  "buffer_ok (t\<lparr>tr_correlator := c\<rparr>) = buffer_ok t" "in_order json ms (t\<lparr>tr_correlator := c\<rparr>) = in_order json ms t"
  by (simp_all add: buffer_ok_def in_order_def)

lemma send_request_kept:
  assumes "send_request json method params deadline t = (t', r)"
  shows "(buffer_ok t \<longrightarrow> buffer_ok t') \<and> (in_order json ms t \<longrightarrow> in_order json ms t') \<and>
    tr_framing_limits t' = tr_framing_limits t \<and> tr_envelope_limits t' = tr_envelope_limits t \<and>
    tr_max_buffered_messages t' = tr_max_buffered_messages t \<and>
    tr_max_buffered_message_bytes t' = tr_max_buffered_message_bytes t"
proof -
  obtain c r1 where c: "begin_request (tr_correlator t) = (c, r1)" by fastforce
  show ?thesis
  proof (cases r1)
    case (Inl e)
    with assms c show ?thesis by (auto simp: send_request_def)
  next
    case (Inr i)
    obtain t2 r2 where s: "send_value json (request_value i method params) deadline (t\<lparr>tr_correlator := c\<rparr>) = (t2, r2)"
      by fastforce
    have "t' = t2" using assms c Inr s by (auto simp: send_request_def split: sum.splits)
    with send_value_kept[OF s, of ms] show ?thesis by (simp add: same_setup_def)
  qed
qed

text \<open>Any use of a fresh transport in which every receipt so far succeeded, with the messages it returned.\<close>

inductive conversation :: "Json \<Rightarrow> TransportLimits \<Rightarrow> Transport \<Rightarrow> IncomingMessage list \<Rightarrow> bool" for json limits where
  start: "spawn limits w = (w', Ok t) \<Longrightarrow> ou_log w = [] \<Longrightarrow> conversation json limits t []"
| ask: "conversation json limits t ms \<Longrightarrow> send_request json method params deadline t = (t', r) \<Longrightarrow>
    conversation json limits t' ms"
| tell: "conversation json limits t ms \<Longrightarrow> send_value json v deadline t = (t', r) \<Longrightarrow> conversation json limits t' ms"
| receive: "conversation json limits t ms \<Longrightarrow> next_incoming json deadline t = (t', Ok m) \<Longrightarrow>
    conversation json limits t' (ms @ [m])"

lemma spawn_fresh:
  assumes "spawn limits w = (w', Ok t)" "ou_log w = []"
  shows "buffer_ok t \<and> in_order json [] t \<and> tr_framing_limits t = tl_framing limits \<and>
    tr_envelope_limits t = tl_envelope limits \<and> tr_max_buffered_messages t = tl_max_buffered_messages limits \<and>
    tr_max_buffered_message_bytes t = tl_max_buffered_message_bytes limits"
  using assms
  by (auto simp: spawn_def Let_def buffer_ok_def in_order_def log_call_def split: if_splits sum.splits)

lemma conversation_kept:
  assumes "conversation json limits t ms"
  shows "buffer_ok t \<and> in_order json ms t \<and> tr_framing_limits t = tl_framing limits \<and>
    tr_envelope_limits t = tl_envelope limits \<and> tr_max_buffered_messages t = tl_max_buffered_messages limits \<and>
    tr_max_buffered_message_bytes t = tl_max_buffered_message_bytes limits"
  using assms
proof induction
  case (start w w' t)
  then show ?case by (rule spawn_fresh)
next
  case (ask t ms name params deadline t' r)
  then show ?case using send_request_kept[OF ask(2)] by simp
next
  case (tell t ms v deadline t' r)
  then show ?case using send_value_kept[OF tell(2)] by (simp add: same_setup_def)
next
  case (receive t ms deadline t' m)
  then show ?case using next_incoming_received[of t json ms deadline] by (simp add: received_def same_setup_def)
qed

text \<open>
  C35: The transport delivers the messages of the server, in order, exactly once. However the output
  of the server is cut into chunks and its events are interleaved with waits, sends and the clock, the
  messages returned so far, followed by those that are buffered, are what decoding the whole byte stream
  at once gives. The buffer never exceeds its limits, in messages and in bytes, and its byte count is
  exact; and a receipt that fails leaves nothing in the buffer.
\<close>

theorem messages_arrive_in_order:
  assumes "conversation json limits t ms"
  shows "(\<exists>decoder bodies.
      feed (new_decoder (tl_framing limits)) (stdout_bytes (ou_log (tr_process t))) [] = (decoder, Ok bodies) \<and>
      try_map (\<lambda>body. decode_body (js_from_slice json) (js_to_vec json) body (tl_envelope limits)) bodies =
        Ok (ms @ map bi_message (tr_incoming t))) \<and>
    length (tr_incoming t) \<le> tl_max_buffered_messages limits \<and>
    tr_buffered_message_bytes t = sum_list (map bi_body_bytes (tr_incoming t)) \<and>
    tr_buffered_message_bytes t \<le> tl_max_buffered_message_bytes limits \<and>
    (\<forall>deadline t' e. next_incoming json deadline t = (t', Err e) \<longrightarrow> tr_incoming t' = [])"
proof -
  note kept = conversation_kept[OF assms]
  have "tr_incoming t' = []" if "next_incoming json deadline t = (t', Err e)" for deadline t' e
    using next_incoming_received[of t json ms deadline] kept that by (simp add: received_def)
  then show ?thesis using kept by (auto simp: in_order_def buffer_ok_def)
qed

section \<open>A run\<close>

text \<open>A server that writes one notification.\<close>

definition ping :: Value where
  "ping = Object [(''jsonrpc'', String ''2.0''), (''method'', String ''ping'')]"

definition ping_json :: Json where
  "ping_json = \<lparr>js_from_slice = (\<lambda>_. Some ping), js_to_vec = braces\<rparr>"

definition ping_server :: Outside where
  "ping_server =
     \<lparr>ou_spawn = None, ou_ready = [Ok None], ou_waited = [Ok (StdoutEvent brace_frame)], ou_sends = [],
      ou_finish = Ok 0, ou_abort = Ok 0, ou_now = 0, ou_ticks = [1, 1], ou_log = []\<rparr>"

definition ping_message :: IncomingMessage where
  "ping_message = Notification \<lparr>nt_method = ''ping'', nt_params = None\<rparr>"

definition ping_transport :: Transport where
  "ping_transport = (case spawn default_transport_limits ping_server of (_, Ok t) \<Rightarrow> t)"

lemma ping_spawned: "spawn default_transport_limits ping_server = (tr_process ping_transport, Ok ping_transport)"
  by (simp add: ping_transport_def spawn_def default_transport_limits_def validate_process_limits_def
      default_process_limits_def ping_server_def Let_def)

lemma ping_decoded: "decode_body (js_from_slice ping_json) (js_to_vec ping_json) [123, 125] default_envelope_limits = Ok ping_message"
  by (simp add: decode_body_def validate_raw_json_depth_def ping_json_def ping_def ping_message_def classify_message_def
      classify_request_or_notification_def validate_params_def default_envelope_limits_def saturating_add_u64_def u64_max_def
      Let_def bt_get_def)

lemma ping_pushed:
  "push (new_decoder default_framing_limits) brace_frame = Some (new_decoder default_framing_limits, Ok [[123, 125]])"
proof -
  have "feed (new_decoder default_framing_limits) (brace_frame @ []) [] = feed (new_decoder default_framing_limits) [] ([] @ [[123, 125]])"
    by (rule feed_frame[OF brace_frame[of Null]]) (simp_all add: braces_def default_framing_limits_def)
  then show ?thesis by (simp add: push_feed)
qed

lemma ping_received: "\<exists>t. next_incoming ping_json 100 ping_transport = (t, Ok ping_message)"
proof -
  have limits: "tr_envelope_limits ping_transport = default_envelope_limits" "tr_decoder ping_transport = Some (new_decoder default_framing_limits)"
    "tr_process ping_transport = log_call Spawned ping_server" "tr_max_ready_events ping_transport = 4096" "tr_incoming ping_transport = []"
    "tr_buffered_message_bytes ping_transport = 0" "tr_max_buffered_messages ping_transport = 1024"
    "tr_max_buffered_message_bytes ping_transport = 33554432"
    by (simp_all add: ping_transport_def spawn_def default_transport_limits_def validate_process_limits_def
      default_process_limits_def ping_server_def Let_def)
  have completed: "complete_response ping_message c = (c, Ok ())" for c
    by (simp add: complete_response_def ping_message_def)
  show ?thesis
    unfolding next_incoming_def drain_ready_def
    by (subst drain_loop.simps)
      (simp add: limits should_probe_ready_event_overflow_def log_call_def ping_server_def instant_now_def try_next_event_def
        Let_def pop_incoming_def next_event_def incoming_loop.simps drain_ready_def observe_def decode_chunk_def ping_pushed
        default_batch_def ping_decoded completed checked_add_u64_def u64_max_def
        drain_loop.simps batch_is_empty_def)
qed

lemma messages_arrive_in_order_witness:
  "\<exists>t decoder bodies. conversation ping_json default_transport_limits t [ping_message] \<and>
     feed (new_decoder default_framing_limits) (stdout_bytes (ou_log (tr_process t))) [] = (decoder, Ok bodies)"
proof -
  have "conversation ping_json default_transport_limits ping_transport []"
    by (rule conversation.start[OF ping_spawned]) (simp add: ping_server_def)
  moreover obtain t where "next_incoming ping_json 100 ping_transport = (t, Ok ping_message)" using ping_received by blast
  ultimately have "conversation ping_json default_transport_limits t ([] @ [ping_message])" by (rule conversation.receive)
  with messages_arrive_in_order[OF this] show ?thesis by (auto simp: default_transport_limits_def)
qed

end
