(* ===== verification/Lsp_Session.thy ===== *)
theory Lsp_Session
  imports Lsp_Transport Position
begin

text \<open>
  Read-only document-symbol sessions (\<open>crates/srcmv-lsp/src/session.rs\<close>) and the negotiation of
  capabilities (\<open>crates/srcmv-lsp/src/capabilities.rs\<close>) over the transport: the limits of the input, the
  order of the messages, the answers to requests of the server, and the cleanup of the process.
  Parameters are the types of the protocol as \<open>serde_json\<close> writes and reads them, the identifier of
  this process, the version of the crate and the last instant of the clock; a URI is its text.
\<close>

section \<open>Capabilities\<close>

record ServerIdentity =
  si_name :: "string option"
  si_version :: "string option"

record NegotiatedCapabilities =
  nc_server :: ServerIdentity
  nc_position_encoding :: SupportedPositionEncoding

datatype CapabilityError =
    DocumentSymbolsUnavailable
  | DocumentSyncUnavailable
  | UnsupportedPositionEncoding

definition capability_error_display :: "CapabilityError \<Rightarrow> string" where
  "capability_error_display e =
     (case e of
        DocumentSymbolsUnavailable \<Rightarrow> ''language server does not provide static document symbols''
      | DocumentSyncUnavailable \<Rightarrow>
          ''language server does not provide usable open/close document synchronization''
      | UnsupportedPositionEncoding \<Rightarrow> ''language server selected an unsupported position encoding'')"

text \<open>The constructors of the protocol types that the source matches on or builds.\<close>

datatype DocumentSymbolProvider = SymbolsFlag bool | DocumentSymbolOptions

datatype TextDocumentSyncKind = NoSync | FullSync | IncrementalSync | CustomSync int

datatype TextDocumentSync =
    SyncKind TextDocumentSyncKind
  | SyncOptions (sync_open_close: "bool option") (sync_change: "TextDocumentSyncKind option")

datatype PositionEncodingKind = EncodingUtf8 | EncodingUtf16 | EncodingUtf32 | CustomEncoding string

record InitializeResult =
  ir_document_symbol_provider :: "DocumentSymbolProvider option"
  ir_text_document_sync :: "TextDocumentSync option"
  ir_position_encoding :: "PositionEncodingKind option"
  ir_server_info :: "(string \<times> string option) option"

definition usable_change :: "TextDocumentSyncKind option \<Rightarrow> bool" where
  "usable_change change \<longleftrightarrow> change = Some FullSync \<or> change = Some IncrementalSync"

definition validate_initialize_result :: "InitializeResult \<Rightarrow> CapabilityError + NegotiatedCapabilities" where
  "validate_initialize_result result =
     (case ir_document_symbol_provider result of
        None \<Rightarrow> Err DocumentSymbolsUnavailable
      | Some (SymbolsFlag False) \<Rightarrow> Err DocumentSymbolsUnavailable
      | _ \<Rightarrow>
          and_then
            (case ir_text_document_sync result of
               Some (SyncKind kind) \<Rightarrow> if usable_change (Some kind) then Ok () else Err DocumentSyncUnavailable
             | Some (SyncOptions open_close change) \<Rightarrow>
                 if open_close = Some True \<and> usable_change change then Ok () else Err DocumentSyncUnavailable
             | None \<Rightarrow> Err DocumentSyncUnavailable) (\<lambda>_.
          and_then
            (case ir_position_encoding result of
               None \<Rightarrow> Ok Utf16
             | Some EncodingUtf16 \<Rightarrow> Ok Utf16
             | Some EncodingUtf8 \<Rightarrow> Ok Utf8
             | Some EncodingUtf32 \<Rightarrow> Ok Utf32
             | Some (CustomEncoding _) \<Rightarrow> Err UnsupportedPositionEncoding) (\<lambda>position_encoding.
          let server =
            (case ir_server_info result of
               None \<Rightarrow> \<lparr>si_name = None, si_version = None\<rparr>
             | Some (name, version) \<Rightarrow> \<lparr>si_name = Some name, si_version = version\<rparr>) in
          Ok \<lparr>nc_server = server, nc_position_encoding = position_encoding\<rparr>)))"

text \<open>The capabilities that the client sets; all others keep their defaults.\<close>

record ClientCapabilities =
  cc_apply_edit :: "bool option"
  cc_workspace_folders :: "bool option"
  cc_configuration :: "bool option"
  cc_synchronization_dynamic_registration :: "bool option"
  cc_document_symbol_dynamic_registration :: "bool option"
  cc_hierarchical_document_symbol_support :: "bool option"
  cc_work_done_progress :: "bool option"
  cc_position_encodings :: "PositionEncodingKind list option"

definition client_capabilities :: ClientCapabilities where
  "client_capabilities =
     \<lparr>cc_apply_edit = Some False, cc_workspace_folders = Some True, cc_configuration = Some True,
      cc_synchronization_dynamic_registration = Some False, cc_document_symbol_dynamic_registration = Some False,
      cc_hierarchical_document_symbol_support = Some True, cc_work_done_progress = Some False,
      cc_position_encodings = Some [EncodingUtf8, EncodingUtf16, EncodingUtf32]\<rparr>"

record InitializeParams =
  ip_process_id :: "int option"
  ip_client_info :: "string \<times> string option"
  ip_root_uri :: "string option"
  ip_capabilities :: ClientCapabilities
  ip_workspace_folders :: "(string \<times> string) list"

definition CLIENT_NAME :: string where "CLIENT_NAME = ''srcmv''"

definition initialize_params :: "int option \<Rightarrow> string option \<Rightarrow> string \<Rightarrow> string \<Rightarrow> InitializeParams" where
  "initialize_params process_id client_version root_uri workspace_name =
     \<lparr>ip_process_id = process_id, ip_client_info = (CLIENT_NAME, client_version), ip_root_uri = Some root_uri,
      ip_capabilities = client_capabilities, ip_workspace_folders = [(root_uri, workspace_name)]\<rparr>"

section \<open>Data\<close>

record ImmutableDocument =
  im_uri :: string
  im_language_id :: string
  im_text :: string

text \<open>Durations and instants are in the unit of the clock; the defaults count milliseconds.\<close>

record SessionDeadlines =
  dl_initialize :: nat
  dl_document_symbols :: nat
  dl_shutdown :: nat
  dl_cleanup :: nat
  dl_total :: nat

definition default_session_deadlines :: SessionDeadlines where
  "default_session_deadlines =
     \<lparr>dl_initialize = 10000, dl_document_symbols = 30000, dl_shutdown = 5000, dl_cleanup = 5000, dl_total = 60000\<rparr>"

record SessionLimits =
  sl_server_requests :: nat
  sl_notifications :: nat
  sl_source_bytes :: nat
  sl_initialization_options_bytes :: nat
  sl_settings_bytes :: nat
  sl_configuration_items :: nat
  sl_configuration_response_bytes :: nat

definition default_session_limits :: SessionLimits where
  "default_session_limits =
     \<lparr>sl_server_requests = 64, sl_notifications = 1024, sl_source_bytes = 8 * 1024 * 1024,
      sl_initialization_options_bytes = 1024 * 1024, sl_settings_bytes = 1024 * 1024, sl_configuration_items = 256,
      sl_configuration_response_bytes = 1024 * 1024\<rparr>"

record WorkspaceFolder =
  wf_uri :: string
  wf_name :: string

record SessionInput =
  in_process :: ProcessSpec
  in_workspace :: WorkspaceFolder
  in_document :: ImmutableDocument
  in_initialization_options :: "Value option"
  in_settings :: "Value option"
  in_deadlines :: SessionDeadlines
  in_limits :: SessionLimits

record SessionTimings =
  st_initialize :: nat
  st_document_symbols :: nat
  st_shutdown :: nat

record SessionOutput =
  so_capabilities :: NegotiatedCapabilities
  so_symbols :: Value
  so_timings :: SessionTimings

datatype SessionPhase = InitializePhase | DocumentSymbolsPhase | ShutdownPhase

datatype SessionError =
    SessionTransport TransportError
  | SessionCapability CapabilityError
  | InvalidLspPayload string
  | RequestFailed string int
  | UnexpectedResponse
  | SessionTimeout SessionPhase
  | SessionResourceLimit string nat

record SessionLibrary =
  sb_json :: Json
  sb_initialize_params :: "InitializeParams \<Rightarrow> (string \<times> Value) list option"
  sb_initialize_result :: "Value \<Rightarrow> InitializeResult option"
  sb_process_id :: nat
  sb_version :: string
  sb_last_instant :: nat

section \<open>The input\<close>

definition ensure_within_limit :: "nat \<Rightarrow> nat \<Rightarrow> string \<Rightarrow> SessionError + unit" where
  "ensure_within_limit actual limit resource =
     (if limit < actual then Err (SessionResourceLimit resource limit) else Ok ())"

definition serialized_len :: "SessionLibrary \<Rightarrow> Value \<Rightarrow> string \<Rightarrow> SessionError + nat" where
  "serialized_len lib v name =
     and_then (ok_or (js_to_vec (sb_json lib) v) (InvalidLspPayload name)) (\<lambda>bs. Ok (length bs))"

definition validate_input_limits :: "SessionLibrary \<Rightarrow> SessionInput \<Rightarrow> SessionError + unit" where
  "validate_input_limits lib input =
     and_then (ensure_within_limit (length (im_text (in_document input))) (sl_source_bytes (in_limits input)) ''source bytes'') (\<lambda>_.
     and_then
       (case in_initialization_options input of
          None \<Rightarrow> Ok ()
        | Some options \<Rightarrow>
            and_then (serialized_len lib options ''initialization options'') (\<lambda>n.
            ensure_within_limit n (sl_initialization_options_bytes (in_limits input)) ''initialization-options bytes'')) (\<lambda>_.
     case in_settings input of
       None \<Rightarrow> Ok ()
     | Some settings \<Rightarrow>
         and_then (serialized_len lib settings ''settings'') (\<lambda>n.
         ensure_within_limit n (sl_settings_bytes (in_limits input)) ''settings bytes'')))"

abbreviation json_object :: "(string \<times> Value) list \<Rightarrow> Value" where
  "json_object entries \<equiv> Object (context_entries entries)"

definition did_open_message :: "SessionInput \<Rightarrow> Value" where
  "did_open_message input =
     json_object
       [(''jsonrpc'', String ''2.0''), (''method'', String ''textDocument/didOpen''),
        (''params'', json_object [(''textDocument'', json_object
           [(''uri'', String (im_uri (in_document input))),
            (''languageId'', String (im_language_id (in_document input))),
            (''version'', json_nat 1),
            (''text'', String (im_text (in_document input)))])])]"

definition preflight_did_open :: "SessionLibrary \<Rightarrow> SessionInput \<Rightarrow> TransportLimits \<Rightarrow> SessionError + unit" where
  "preflight_did_open lib input limits =
     and_then
       (map_err (\<lambda>e. SessionTransport (ProtocolFailure e))
         (encode_message (js_to_vec (sb_json lib)) (did_open_message input) (tl_framing limits))) (\<lambda>_. Ok ())"

section \<open>Requests of the server\<close>

definition id_to_json :: "ServerRequestId \<Rightarrow> Value" where
  "id_to_json i =
     (case i of
        IntegerId v \<Rightarrow> Number (if 0 \<le> v then PosInt (nat v) else NegInt v)
      | UnsignedId v \<Rightarrow> Number (PosInt v)
      | StringId v \<Rightarrow> String v)"

fun as_object :: "Value \<Rightarrow> (string \<times> Value) list option" where
  "as_object (Object m) = Some m"
| "as_object _ = None"

fun as_array :: "Value \<Rightarrow> Value list option" where
  "as_array (Array vs) = Some vs"
| "as_array _ = None"

fun value_as_str :: "Value \<Rightarrow> string option" where
  "value_as_str (String s) = Some s"
| "value_as_str _ = None"

text \<open>\<open>Value::get\<close> with a key.\<close>

definition get_key :: "Value \<Rightarrow> string \<Rightarrow> Value option" where
  "get_key v key = Option.bind (as_object v) (\<lambda>m. map_of m key)"

fun get_path :: "Value \<Rightarrow> string list \<Rightarrow> Value option" where
  "get_path v [] = Some v"
| "get_path v (key # keys) = Option.bind (get_key v key) (\<lambda>v. get_path v keys)"

definition configured_section :: "Value option \<Rightarrow> Value \<Rightarrow> SessionError + Value option" where
  "configured_section settings item =
     and_then (ok_or (as_object item) (InvalidLspPayload ''configuration item'')) (\<lambda>m.
     case map_of m ''section'' of
       None \<Rightarrow> Ok settings
     | Some v \<Rightarrow>
         and_then (ok_or (value_as_str v) (InvalidLspPayload ''configuration section'')) (\<lambda>keys.
         Ok (Option.bind settings (\<lambda>settings. get_path settings (split_on CHR ''.'' keys)))))"

text \<open>One item of a configuration request: the bytes of the answer so far and its values.\<close>

definition configuration_item ::
    "SessionLibrary \<Rightarrow> SessionInput \<Rightarrow> nat \<times> Value list \<Rightarrow> nat \<times> Value \<Rightarrow> SessionError + (nat \<times> Value list)" where
  "configuration_item lib input = (\<lambda>(encoded_bytes, result) (index, item).
     let limit = sl_configuration_response_bytes (in_limits input);
         too_large = SessionResourceLimit ''configuration response bytes'' limit in
     and_then (configured_section (in_settings input) item) (\<lambda>configured.
     and_then
       (case configured of Some v \<Rightarrow> serialized_len lib v ''configuration result'' | None \<Rightarrow> Ok 4) (\<lambda>item_bytes.
     and_then
       (ok_or
         (Option.bind (checked_add_u64 encoded_bytes (if index \<noteq> 0 then 1 else 0))
           (\<lambda>bs. checked_add_u64 bs item_bytes)) too_large) (\<lambda>encoded_bytes.
     and_then (ensure_within_limit encoded_bytes limit ''configuration response bytes'') (\<lambda>_.
     Ok (encoded_bytes, result @ [case configured of Some v \<Rightarrow> v | None \<Rightarrow> Null]))))))"

definition result_reply :: "Value \<Rightarrow> Value \<Rightarrow> Value" where
  "result_reply i result = json_object [(''jsonrpc'', String ''2.0''), (''id'', i), (''result'', result)]"

definition dispatch_server_request :: "SessionLibrary \<Rightarrow> ServerRequest \<Rightarrow> SessionInput \<Rightarrow> SessionError + Value" where
  "dispatch_server_request lib request input =
     (let i = id_to_json (sq_id request) in
      if sq_method request = ''workspace/workspaceFolders''
      then
        Ok (result_reply i (Array
          [json_object [(''uri'', String (wf_uri (in_workspace input))), (''name'', String (wf_name (in_workspace input)))]]))
      else if sq_method request = ''workspace/configuration''
      then
        and_then
          (ok_or
            (Option.bind (sq_params request) (\<lambda>params. Option.bind (get_key params ''items'') as_array))
            (InvalidLspPayload ''configuration request'')) (\<lambda>items.
        and_then (ensure_within_limit (length items) (sl_configuration_items (in_limits input)) ''configuration items'') (\<lambda>_.
        and_then
          (ensure_within_limit 2 (sl_configuration_response_bytes (in_limits input)) ''configuration response bytes'') (\<lambda>_.
        and_then (try_fold (configuration_item lib input) (2, []) (enumerate 0 items)) (\<lambda>(_, result).
        Ok (result_reply i (Array result))))))
      else if sq_method request = ''window/showMessageRequest'' then Ok (result_reply i Null)
      else if sq_method request = ''workspace/applyEdit''
      then
        Ok (result_reply i (json_object
          [(''applied'', Bool False), (''failureReason'', String ''srcmv selection is read-only'')]))
      else
        Ok (json_object
          [(''jsonrpc'', String ''2.0''), (''id'', i),
           (''error'', json_object [(''code'', Number (NegInt (- 32601))), (''message'', String ''Method not found'')])]))"

section \<open>The session\<close>

text \<open>Steps that change the transport and may fail.\<close>

type_synonym 'a step = "Transport \<Rightarrow> Transport \<times> (SessionError + 'a)"

definition step_ret :: "'a \<Rightarrow> 'a step" where
  "step_ret a t = (t, Ok a)"

definition step_lift :: "SessionError + 'a \<Rightarrow> 'a step" where
  "step_lift r t = (t, r)"

definition step_bind :: "'a step \<Rightarrow> ('a \<Rightarrow> 'b step) \<Rightarrow> 'b step" where
  "step_bind m k t = (case m t of (t, Err e) \<Rightarrow> (t, Err e) | (t, Ok a) \<Rightarrow> k a t)"

definition map_transport :: "SessionPhase \<Rightarrow> TransportError \<Rightarrow> SessionError" where
  "map_transport phase e =
     (case e of
        DeadlineExceeded \<Rightarrow> SessionTimeout phase
      | ProcessFailure (DeadlineExceededWhile _) \<Rightarrow> SessionTimeout phase
      | _ \<Rightarrow> SessionTransport e)"

definition step_of :: "SessionPhase \<Rightarrow> (Transport \<Rightarrow> Transport \<times> (TransportError + 'a)) \<Rightarrow> 'a step" where
  "step_of phase m t = (case m t of (t, r) \<Rightarrow> (t, map_err (map_transport phase) r))"

definition step_now :: "nat step" where
  "step_now t = (case instant_now (tr_process t) of (w, now) \<Rightarrow> (t\<lparr>tr_process := w\<rparr>, Ok now))"

definition deadline_after :: "SessionLibrary \<Rightarrow> nat \<Rightarrow> nat \<Rightarrow> string \<Rightarrow> SessionError + nat" where
  "deadline_after lib now duration name =
     (if now + duration \<le> sb_last_instant lib then Ok (now + duration) else Err (InvalidLspPayload name))"

definition deadline_from_now :: "SessionLibrary \<Rightarrow> nat \<Rightarrow> string \<Rightarrow> nat step" where
  "deadline_from_now lib duration name = step_bind step_now (\<lambda>now. step_lift (deadline_after lib now duration name))"

definition phase_deadline :: "SessionLibrary \<Rightarrow> nat \<Rightarrow> nat \<Rightarrow> nat step" where
  "phase_deadline lib total_deadline duration =
     step_bind step_now (\<lambda>now.
     step_ret (if now + duration \<le> sb_last_instant lib then min (now + duration) total_deadline else total_deadline))"

definition notification_value :: "string \<Rightarrow> Value \<Rightarrow> Value" where
  "notification_value method params =
     json_object [(''jsonrpc'', String ''2.0''), (''method'', String method), (''params'', params)]"

definition send_notification :: "SessionLibrary \<Rightarrow> string \<Rightarrow> Value \<Rightarrow> nat \<Rightarrow> SessionPhase \<Rightarrow> unit step" where
  "send_notification lib method params deadline phase =
     step_of phase (send_value (sb_json lib) (notification_value method params) deadline)"

record MessageCounters =
  mc_requests :: nat
  mc_notifications :: nat

text \<open>
  The loop of \<open>await_response\<close>. The counters stay at most at their limits, which are 64-bit numbers, so
  the saturating addition of the source is an addition in every run with fewer than \<open>2 ^ 64\<close> messages.
\<close>

function await_response ::
    "SessionLibrary \<Rightarrow> SessionInput \<Rightarrow> ClientRequestId \<Rightarrow> string \<Rightarrow> nat \<Rightarrow> SessionPhase \<Rightarrow> MessageCounters \<Rightarrow>
     (Value \<times> MessageCounters) step" where
  "await_response lib input expected_id method deadline phase counters t =
     (case step_of phase (next_incoming (sb_json lib) deadline) t of
        (t, Err e) \<Rightarrow> (t, Err e)
      | (t, Ok (Response response)) \<Rightarrow>
          if rp_id response = expected_id
          then
            (t, case rp_payload response of
                  Result v \<Rightarrow> Ok (v, counters)
                | Error e \<Rightarrow> Err (RequestFailed method (re_code e)))
          else (t, Err UnexpectedResponse)
      | (t, Ok (Notification _)) \<Rightarrow>
          let counters = counters\<lparr>mc_notifications := mc_notifications counters + 1\<rparr>;
              limit = sl_notifications (in_limits input) in
          if limit < mc_notifications counters then (t, Err (SessionResourceLimit ''notification'' limit))
          else await_response lib input expected_id method deadline phase counters t
      | (t, Ok (Request request)) \<Rightarrow>
          let counters = counters\<lparr>mc_requests := mc_requests counters + 1\<rparr>;
              limit = sl_server_requests (in_limits input) in
          if limit < mc_requests counters then (t, Err (SessionResourceLimit ''server request'' limit))
          else
            case dispatch_server_request lib request input of
              Err e \<Rightarrow> (t, Err e)
            | Ok response \<Rightarrow>
                (case step_of phase (send_value (sb_json lib) response deadline) t of
                   (t, Err e) \<Rightarrow> (t, Err e)
                 | (t, Ok _) \<Rightarrow> await_response lib input expected_id method deadline phase counters t))"
  by pat_completeness auto
termination
  by (relation "measure (\<lambda>(lib, input, _, _, _, _, counters, _).
      (sl_notifications (in_limits input) - mc_notifications counters) +
      (sl_server_requests (in_limits input) - mc_requests counters))") auto

declare await_response.simps [simp del]

definition process_id_option :: "nat \<Rightarrow> int option" where
  "process_id_option n = (if n \<le> 2147483647 then Some (int n) else None)"

definition initialize_value :: "SessionLibrary \<Rightarrow> SessionInput \<Rightarrow> SessionError + Value" where
  "initialize_value lib input =
     and_then
       (ok_or
         (sb_initialize_params lib
           (initialize_params (process_id_option (sb_process_id lib)) (Some (sb_version lib))
             (wf_uri (in_workspace input)) (wf_name (in_workspace input))))
         (InvalidLspPayload ''initialize parameters'')) (\<lambda>params.
     Ok (Object
       (case in_initialization_options input of
          None \<Rightarrow> params
        | Some options \<Rightarrow> bt_put ''initializationOptions'' options params)))"

definition document_identifier :: "SessionInput \<Rightarrow> Value" where
  "document_identifier input =
     json_object [(''textDocument'', json_object [(''uri'', String (im_uri (in_document input)))])]"

text \<open>The three phases.\<close>

definition initialize_phase ::
    "SessionLibrary \<Rightarrow> SessionInput \<Rightarrow> nat \<Rightarrow> (NegotiatedCapabilities \<times> MessageCounters) step" where
  "initialize_phase lib input total_deadline =
     step_bind (phase_deadline lib total_deadline (dl_initialize (in_deadlines input))) (\<lambda>deadline.
     step_bind (step_lift (initialize_value lib input)) (\<lambda>params.
     step_bind (step_of InitializePhase (send_request (sb_json lib) ''initialize'' (Some params) deadline)) (\<lambda>i.
     step_bind (await_response lib input i ''initialize'' deadline InitializePhase \<lparr>mc_requests = 0, mc_notifications = 0\<rparr>)
       (\<lambda>(v, counters).
     step_bind (step_lift (ok_or (sb_initialize_result lib v) (InvalidLspPayload ''initialize result''))) (\<lambda>result.
     step_bind (step_lift (map_err SessionCapability (validate_initialize_result result))) (\<lambda>capabilities.
     step_bind (send_notification lib ''initialized'' (Object []) deadline InitializePhase) (\<lambda>_.
     step_bind
       (case in_settings input of
          None \<Rightarrow> step_ret ()
        | Some settings \<Rightarrow>
            send_notification lib ''workspace/didChangeConfiguration'' (json_object [(''settings'', settings)])
              deadline InitializePhase) (\<lambda>_.
     step_ret (capabilities, counters)))))))))"

definition symbols_phase ::
    "SessionLibrary \<Rightarrow> SessionInput \<Rightarrow> nat \<Rightarrow> MessageCounters \<Rightarrow> (Value \<times> MessageCounters) step" where
  "symbols_phase lib input total_deadline counters =
     step_bind (phase_deadline lib total_deadline (dl_document_symbols (in_deadlines input))) (\<lambda>deadline.
     step_bind (step_of DocumentSymbolsPhase (send_value (sb_json lib) (did_open_message input) deadline)) (\<lambda>_.
     step_bind
       (step_of DocumentSymbolsPhase
         (send_request (sb_json lib) ''textDocument/documentSymbol'' (Some (document_identifier input)) deadline)) (\<lambda>i.
     step_bind (await_response lib input i ''textDocument/documentSymbol'' deadline DocumentSymbolsPhase counters)
       (\<lambda>(symbols, counters).
     step_bind (send_notification lib ''textDocument/didClose'' (document_identifier input) deadline DocumentSymbolsPhase)
       (\<lambda>_. step_ret (symbols, counters))))))"

definition shutdown_phase :: "SessionLibrary \<Rightarrow> SessionInput \<Rightarrow> nat \<Rightarrow> MessageCounters \<Rightarrow> unit step" where
  "shutdown_phase lib input total_deadline counters =
     step_bind (phase_deadline lib total_deadline (dl_shutdown (in_deadlines input))) (\<lambda>deadline.
     step_bind (step_of ShutdownPhase (send_request (sb_json lib) ''shutdown'' (Some Null) deadline)) (\<lambda>i.
     step_bind (await_response lib input i ''shutdown'' deadline ShutdownPhase counters) (\<lambda>(v, _).
     step_bind (step_lift (if v \<noteq> Null then Err (InvalidLspPayload ''shutdown result'') else Ok ())) (\<lambda>_.
     step_bind (send_notification lib ''exit'' Null deadline ShutdownPhase) (\<lambda>_.
     step_bind (deadline_from_now lib (dl_cleanup (in_deadlines input)) ''cleanup deadline'') (\<lambda>_.
     step_bind (\<lambda>t. case finish_transport t of (t, r) \<Rightarrow> (t, map_err SessionTransport r)) (\<lambda>_.
     step_ret ())))))))"

definition run_active_session :: "SessionLibrary \<Rightarrow> SessionInput \<Rightarrow> nat \<Rightarrow> nat \<Rightarrow> SessionOutput step" where
  "run_active_session lib input total_deadline initialize_started =
     step_bind (initialize_phase lib input total_deadline) (\<lambda>(capabilities, counters).
     step_bind step_now (\<lambda>initialized.
     step_bind step_now (\<lambda>document_symbols_started.
     step_bind (symbols_phase lib input total_deadline counters) (\<lambda>(symbols, counters).
     step_bind step_now (\<lambda>closed.
     step_bind step_now (\<lambda>shutdown_started.
     step_bind (shutdown_phase lib input total_deadline counters) (\<lambda>_.
     step_bind step_now (\<lambda>ended.
     step_ret
       \<lparr>so_capabilities = capabilities, so_symbols = symbols,
        so_timings = \<lparr>st_initialize = initialized - initialize_started,
          st_document_symbols = closed - document_symbols_started, st_shutdown = ended - shutdown_started\<rparr>\<rparr>))))))))"

text \<open>A cleanup deadline that overflows is replaced by the present instant; the outcome of the abort is ignored.\<close>

definition cleanup_after_failure :: "SessionLibrary \<Rightarrow> SessionInput \<Rightarrow> Transport \<Rightarrow> Transport" where
  "cleanup_after_failure lib input t =
     (case deadline_from_now lib (dl_cleanup (in_deadlines input)) ''cleanup deadline'' t of
        (t, Ok _) \<Rightarrow> fst (abort_transport t)
      | (t, Err _) \<Rightarrow> fst (abort_transport (fst (step_now t))))"

definition run_session ::
    "SessionLibrary \<Rightarrow> SessionInput \<Rightarrow> TransportLimits \<Rightarrow> Outside \<Rightarrow> Outside \<times> (SessionError + SessionOutput)" where
  "run_session lib input limits w =
     (case and_then (validate_input_limits lib input) (\<lambda>_. preflight_did_open lib input limits) of
        Err e \<Rightarrow> (w, Err e)
      | Ok _ \<Rightarrow>
          (case instant_now w of (w, initialize_started) \<Rightarrow>
           case instant_now w of (w, now) \<Rightarrow>
           case deadline_after lib now (dl_total (in_deadlines input)) ''total deadline'' of
             Err e \<Rightarrow> (w, Err e)
           | Ok total_deadline \<Rightarrow>
               (case instant_now w of (w, now) \<Rightarrow>
                case deadline_after lib now (dl_cleanup (in_deadlines input)) ''cleanup deadline'' of
                  Err e \<Rightarrow> (w, Err e)
                | Ok _ \<Rightarrow>
                    (case spawn limits w of
                       (w, Err e) \<Rightarrow> (w, Err (SessionTransport e))
                     | (_, Ok t) \<Rightarrow>
                         (case run_active_session lib input total_deadline initialize_started t of
                            (t, Ok output) \<Rightarrow> (tr_process t, Ok output)
                          | (t, Err e) \<Rightarrow>
                              (tr_process (cleanup_after_failure lib input t), Err e))))))"

section \<open>What a session says and hears\<close>

definition sent_frames :: "Call list \<Rightarrow> bytes list" where
  "sent_frames log = concat (map (\<lambda>c. case c of SentFrame frame \<Rightarrow> [frame] | _ \<Rightarrow> []) log)"

definition lifecycle :: "Call list \<Rightarrow> Call list" where
  "lifecycle log = filter (\<lambda>c. c = Spawned \<or> c = FinishCalled \<or> c = AbortCalled) log"

lemma log_append [simp]:
  "sent_frames (log @ log') = sent_frames log @ sent_frames log'" "lifecycle (log @ log') = lifecycle log @ lifecycle log'"
  by (simp_all add: sent_frames_def lifecycle_def)

lemma log_took [simp]: "sent_frames (map Took events) = []" "lifecycle (map Took events) = []"
  by (simp_all add: sent_frames_def lifecycle_def filter_empty_conv)

lemma log_singleton [simp]:
  "sent_frames [SentFrame frame] = [frame]" "lifecycle [SentFrame frame] = []"
  "sent_frames [Spawned] = []" "sent_frames [FinishCalled] = []" "sent_frames [AbortCalled] = []"
  "lifecycle [Spawned] = [Spawned]" "lifecycle [FinishCalled] = [FinishCalled]" "lifecycle [AbortCalled] = [AbortCalled]"
  "sent_frames [] = []" "lifecycle [] = []"
  by (simp_all add: sent_frames_def lifecycle_def)

definition requests_of :: "IncomingMessage list \<Rightarrow> ServerRequest list" where
  "requests_of ms = concat (map (\<lambda>m. case m of Request r \<Rightarrow> [r] | _ \<Rightarrow> []) ms)"

definition notifications_of :: "IncomingMessage list \<Rightarrow> ServerNotification list" where
  "notifications_of ms = concat (map (\<lambda>m. case m of Notification n \<Rightarrow> [n] | _ \<Rightarrow> []) ms)"

definition responses_of :: "IncomingMessage list \<Rightarrow> ClientResponse list" where
  "responses_of ms = concat (map (\<lambda>m. case m of Response r \<Rightarrow> [r] | _ \<Rightarrow> []) ms)"

lemma messages_append [simp]:
  "requests_of (ms @ [m]) = requests_of ms @ (case m of Request r \<Rightarrow> [r] | _ \<Rightarrow> [])"
  "notifications_of (ms @ [m]) = notifications_of ms @ (case m of Notification n \<Rightarrow> [n] | _ \<Rightarrow> [])"
  "responses_of (ms @ [m]) = responses_of ms @ (case m of Response r \<Rightarrow> [r] | _ \<Rightarrow> [])"
  by (simp_all add: requests_of_def notifications_of_def responses_of_def)

lemma messages_empty [simp]: "requests_of [] = []" "notifications_of [] = []" "responses_of [] = []"
  by (simp_all add: requests_of_def notifications_of_def responses_of_def)

text \<open>Requests and notifications have a method, answers do not.\<close>

definition has_method :: "Value \<Rightarrow> bool" where
  "has_method v \<longleftrightarrow> get_key v ''method'' \<noteq> None"

text \<open>What a client says that does everything it should.\<close>

definition opening_script :: "SessionInput \<Rightarrow> Value \<Rightarrow> Value list" where
  "opening_script input params =
     [request_value 1 ''initialize'' (Some params), notification_value ''initialized'' (Object [])] @
     (case in_settings input of
        None \<Rightarrow> []
      | Some settings \<Rightarrow>
          [notification_value ''workspace/didChangeConfiguration'' (json_object [(''settings'', settings)])])"

definition symbols_script :: "SessionInput \<Rightarrow> Value list" where
  "symbols_script input =
     [did_open_message input,
      request_value 2 ''textDocument/documentSymbol'' (Some (document_identifier input)),
      notification_value ''textDocument/didClose'' (document_identifier input)]"

definition closing_script :: "Value list" where
  "closing_script = [request_value 3 ''shutdown'' (Some Null), notification_value ''exit'' Null]"

definition client_script :: "SessionLibrary \<Rightarrow> SessionInput \<Rightarrow> Value list" where
  "client_script lib input =
     (case initialize_value lib input of
        Err _ \<Rightarrow> []
      | Ok params \<Rightarrow> opening_script input params @ symbols_script input @ closing_script)"

lemma map_of_bt_put: "map_of (bt_put k v m) = (map_of m)(k \<mapsto> v)"
  using bt_get_put[of k v m] by (auto simp: bt_get_def fun_eq_iff)

lemma get_key_object: "get_key (json_object entries) key = map_of (rev entries) key"
proof -
  have "map_of (fold (\<lambda>(k, v). bt_put k v) entries m) = map_of m ++ map_of (rev entries)" for m
    by (induction entries arbitrary: m) (auto simp: map_of_bt_put)
  then show ?thesis by (simp add: get_key_def context_entries_def)
qed

lemma script_has_method [simp]:
  "has_method (request_value i method params)" "has_method (notification_value method v)"
  "has_method (did_open_message input)"
  by (simp_all add: has_method_def request_value_def notification_value_def did_open_message_def get_key_object
      split: option.split)

lemma answer_has_no_method:
  "dispatch_server_request lib request input = Ok v \<Longrightarrow> \<not> has_method v"
  by (auto simp: dispatch_server_request_def Let_def result_reply_def has_method_def get_key_object and_then_Ok_iff
      split: if_splits prod.splits)

section \<open>Triples\<close>

text \<open>\<open>P\<close> before, \<open>Q\<close> after success, \<open>E\<close> after failure.\<close>

definition triple :: "(Transport \<Rightarrow> bool) \<Rightarrow> 'a step \<Rightarrow> ('a \<Rightarrow> Transport \<Rightarrow> bool) \<Rightarrow> (Transport \<Rightarrow> bool) \<Rightarrow> bool" where
  "triple P m Q E \<longleftrightarrow> (\<forall>t. P t \<longrightarrow> (case m t of (t', Ok a) \<Rightarrow> Q a t' | (t', Err _) \<Rightarrow> E t'))"

lemma tripleI:
  assumes "\<And>t t' a. P t \<Longrightarrow> m t = (t', Ok a) \<Longrightarrow> Q a t'" "\<And>t t' e. P t \<Longrightarrow> m t = (t', Err e) \<Longrightarrow> E t'"
  shows "triple P m Q E"
  using assms by (auto simp: triple_def split: prod.split sum.split)

lemma tripleD:
  assumes "triple P m Q E" "P t"
  shows "m t = (t', Ok a) \<Longrightarrow> Q a t'" "m t = (t', Err e) \<Longrightarrow> E t'"
  using assms by (auto simp: triple_def)

lemma triple_bind:
  assumes "triple P m R E" "\<And>a. triple (R a) (k a) Q E"
  shows "triple P (step_bind m k) Q E"
proof -
  have "case step_bind m k t of (t', Ok a) \<Rightarrow> Q a t' | (t', Err _) \<Rightarrow> E t'" if "P t" for t
    using assms that by (cases "m t"; cases "snd (m t)") (force simp: triple_def step_bind_def)+
  then show ?thesis by (simp add: triple_def)
qed

lemma triple_lift:
  assumes "\<And>a. r = Ok a \<Longrightarrow> triple P (k a) Q E" "\<And>t. P t \<Longrightarrow> E t"
  shows "triple P (step_bind (step_lift r) k) Q E"
  using assms by (cases r) (auto simp: triple_def step_bind_def step_lift_def)

lemma triple_ret: "(\<And>t. P t \<Longrightarrow> Q a t) \<Longrightarrow> triple P (step_ret a) Q E"
  by (simp add: triple_def step_ret_def)

lemma triple_fact: "(A \<Longrightarrow> triple P m Q E) \<Longrightarrow> triple (\<lambda>t. A \<and> P t) m Q E"
  by (auto simp: triple_def)

text \<open>The frames that were sent are the encodings of the values.\<close>

definition encoded :: "SessionLibrary \<Rightarrow> TransportLimits \<Rightarrow> Value list \<Rightarrow> Call list \<Rightarrow> bool" where
  "encoded lib limits vs log \<longleftrightarrow>
     list_all2 (\<lambda>v frame. encode_message (js_to_vec (sb_json lib)) v (tl_framing limits) = Ok frame) vs (sent_frames log)"

text \<open>
  A running session: the script it has said, the answers it got, its counters and the next identifier.
  Every request of the server among the messages received has been answered, in order.
\<close>

definition stage ::
    "SessionLibrary \<Rightarrow> SessionInput \<Rightarrow> TransportLimits \<Rightarrow> Value list \<Rightarrow> ClientResponse list \<Rightarrow> MessageCounters \<Rightarrow> nat \<Rightarrow>
     Transport \<Rightarrow> bool" where
  "stage lib input limits script answers counters n t \<longleftrightarrow>
     buffer_ok t \<and> tr_framing_limits t = tl_framing limits \<and> tr_envelope_limits t = tl_envelope limits \<and>
     rc_next_id (tr_correlator t) = n \<and> lifecycle (ou_log (tr_process t)) = [Spawned] \<and>
     mc_requests counters \<le> sl_server_requests (in_limits input) \<and>
     mc_notifications counters \<le> sl_notifications (in_limits input) \<and>
     (\<exists>ms vs. in_order (sb_json lib) ms t \<and> encoded lib limits vs (ou_log (tr_process t)) \<and>
        filter has_method vs = script \<and>
        map Ok (filter (\<lambda>v. \<not> has_method v) vs) = map (\<lambda>r. dispatch_server_request lib r input) (requests_of ms) \<and>
        responses_of ms = answers \<and> length (requests_of ms) = mc_requests counters \<and>
        length (notifications_of ms) = mc_notifications counters)"

text \<open>Whatever happened, only the beginning of the script and answers to requests were sent.\<close>

definition restrained :: "SessionLibrary \<Rightarrow> SessionInput \<Rightarrow> TransportLimits \<Rightarrow> Call list \<Rightarrow> bool" where
  "restrained lib input limits log \<longleftrightarrow>
     (\<exists>vs k. encoded lib limits vs log \<and> filter has_method vs = take k (client_script lib input) \<and>
        (\<forall>v\<in>set vs. has_method v \<or> (\<exists>request. dispatch_server_request lib request input = Ok v)) \<and>
        length (filter (\<lambda>v. \<not> has_method v) vs) \<le> sl_server_requests (in_limits input))"

definition broken :: "SessionLibrary \<Rightarrow> SessionInput \<Rightarrow> TransportLimits \<Rightarrow> Transport \<Rightarrow> bool" where
  "broken lib input limits t \<longleftrightarrow>
     restrained lib input limits (ou_log (tr_process t)) \<and>
     lifecycle (ou_log (tr_process t)) \<in> {[Spawned], [Spawned, FinishCalled]}"

definition begun :: "SessionLibrary \<Rightarrow> SessionInput \<Rightarrow> Value list \<Rightarrow> bool" where
  "begun lib input script \<longleftrightarrow> (\<exists>k. script = take k (client_script lib input))"

lemma answers_are_dispatched:
  assumes "map Ok (filter (\<lambda>v. \<not> has_method v) vs) = map (\<lambda>r. dispatch_server_request lib r input) rs"
  shows "\<forall>v\<in>set vs. has_method v \<or> (\<exists>request. dispatch_server_request lib request input = Ok v)"
proof (intro ballI)
  fix v assume v: "v \<in> set vs"
  have "\<exists>request. dispatch_server_request lib request input = Ok v" if "\<not> has_method v"
  proof -
    have "Ok v \<in> set (map Ok (filter (\<lambda>v. \<not> has_method v) vs))" using v that by auto
    also have "\<dots> = set (map (\<lambda>r. dispatch_server_request lib r input) rs)" by (simp only: assms)
    finally show ?thesis by (auto simp: image_iff intro: sym)
  qed
  then show "has_method v \<or> (\<exists>request. dispatch_server_request lib request input = Ok v)" by blast
qed

lemma stage_broken:
  assumes "stage lib input limits script answers counters n t" "begun lib input script"
  shows "broken lib input limits t"
proof -
  obtain ms vs where vs: "encoded lib limits vs (ou_log (tr_process t))" "filter has_method vs = script"
    "map Ok (filter (\<lambda>v. \<not> has_method v) vs) = map (\<lambda>r. dispatch_server_request lib r input) (requests_of ms)"
    "length (requests_of ms) = mc_requests counters"
    using assms(1) unfolding stage_def by blast
  have "length (filter (\<lambda>v. \<not> has_method v) vs) = mc_requests counters"
    using arg_cong[OF vs(3), of length] vs(4) by simp
  then show ?thesis
    using assms answers_are_dispatched[OF vs(3)] vs(1,2)
    by (auto simp: broken_def restrained_def begun_def stage_def)
qed

lemma step_of_cases:
  assumes "step_of phase m t = (t', r)"
  obtains r' where "m t = (t', r')" "r = map_err (map_transport phase) r'"
  using assms by (auto simp: step_of_def split: prod.splits)

lemma stage_process:
  assumes "stage lib input limits script answers counters n t" "ou_log w = ou_log (tr_process t)"
  shows "stage lib input limits script answers counters n (t\<lparr>tr_process := w\<rparr>)"
  using assms by (auto simp: stage_def buffer_ok_def in_order_def)

lemma stage_now:
  "triple (stage lib input limits script answers counters n) step_now
     (\<lambda>_. stage lib input limits script answers counters n) E"
  by (rule tripleI) (auto simp: step_now_def split: prod.splits dest!: instant_now_log intro: stage_process)

lemma stage_phase_deadline:
  "triple (stage lib input limits script answers counters n) (phase_deadline lib total_deadline duration)
     (\<lambda>_. stage lib input limits script answers counters n) E"
  unfolding phase_deadline_def by (rule triple_bind[OF stage_now]) (rule triple_ret)

lemma encoded_snoc:
  assumes "encoded lib limits vs log" "encode_message (js_to_vec (sb_json lib)) v (tl_framing limits) = Ok frame"
  shows "encoded lib limits (vs @ [v]) (log @ [SentFrame frame])"
  using assms by (simp add: encoded_def list_all2_appendI)

lemma send_value_effect:
  assumes "send_value json v deadline t = (t', r)"
  shows "case r of
      Ok _ \<Rightarrow> \<exists>frame. encode_message (js_to_vec json) v (tr_framing_limits t) = Ok frame \<and>
        ou_log (tr_process t') = ou_log (tr_process t) @ [SentFrame frame]
    | Err _ \<Rightarrow> ou_log (tr_process t') = ou_log (tr_process t)"
  using assms by (auto simp: send_value_def split: sum.splits prod.splits dest!: send_frame_log)

lemma stage_said:
  assumes "stage lib input limits script answers counters n t" "has_method v"
    and "send_value (sb_json lib) v deadline t = (t', Ok u)"
  shows "stage lib input limits (script @ [v]) answers counters n t'"
proof -
  obtain ms vs where vs: "in_order (sb_json lib) ms t" "encoded lib limits vs (ou_log (tr_process t))"
    "filter has_method vs = script" "map Ok (filter (\<lambda>v. \<not> has_method v) vs) = map (\<lambda>r. dispatch_server_request lib r input) (requests_of ms)"
    "responses_of ms = answers" "length (requests_of ms) = mc_requests counters"
    "length (notifications_of ms) = mc_notifications counters"
    using assms(1) unfolding stage_def by blast
  obtain frame where frame: "encode_message (js_to_vec (sb_json lib)) v (tl_framing limits) = Ok frame"
    "ou_log (tr_process t') = ou_log (tr_process t) @ [SentFrame frame]"
    using send_value_effect[OF assms(3)] assms(1) by (auto simp: stage_def)
  note kept = send_value_kept[OF assms(3), of ms]
  have e: "encoded lib limits (vs @ [v]) (ou_log (tr_process t'))" using encoded_snoc[OF vs(2) frame(1)] frame(2) by simp
  show ?thesis
    unfolding stage_def
  proof (intro conjI exI[of _ ms] exI[of _ "vs @ [v]"])
    show "encoded lib limits (vs @ [v]) (ou_log (tr_process t'))" by (rule e)
  qed (use assms(1,2) kept frame vs in \<open>simp_all add: stage_def same_setup_def\<close>)
qed

lemma send_value_failed_log: "send_value json v deadline t = (t', Err e) \<Longrightarrow> ou_log (tr_process t') = ou_log (tr_process t)"
  using send_value_effect by fastforce

lemma broken_log:
  assumes "broken lib input limits t" "ou_log (tr_process t') = ou_log (tr_process t)"
  shows "broken lib input limits t'"
  using assms by (simp add: broken_def)

lemma stage_send:
  assumes "has_method v" "begun lib input script"
  shows "triple (stage lib input limits script answers counters n) (step_of phase (send_value (sb_json lib) v deadline))
    (\<lambda>_. stage lib input limits (script @ [v]) answers counters n) (broken lib input limits)"
proof (rule tripleI)
  fix t t' a assume s: "stage lib input limits script answers counters n t"
    and m: "step_of phase (send_value (sb_json lib) v deadline) t = (t', Ok a)"
  from m obtain u where "send_value (sb_json lib) v deadline t = (t', Ok u)"
    by (elim step_of_cases) (auto simp: map_err_def split: sum.splits)
  from stage_said[OF s assms(1) this] show "stage lib input limits (script @ [v]) answers counters n t'" .
next
  fix t t' e assume s: "stage lib input limits script answers counters n t"
    and m: "step_of phase (send_value (sb_json lib) v deadline) t = (t', Err e)"
  from m obtain u where "send_value (sb_json lib) v deadline t = (t', Err u)"
    by (elim step_of_cases) (auto simp: map_err_def split: sum.splits)
  from send_value_failed_log[OF this] show "broken lib input limits t'"
    by (rule broken_log[OF stage_broken[OF s assms(2)]])
qed

lemma stage_notification:
  assumes "begun lib input script"
  shows "triple (stage lib input limits script answers counters n) (send_notification lib method params deadline phase)
    (\<lambda>_. stage lib input limits (script @ [notification_value method params]) answers counters n) (broken lib input limits)"
  unfolding send_notification_def by (rule stage_send) (simp_all add: assms)

lemma begin_request_id:
  "begin_request c = (c', Ok i) \<Longrightarrow> i = rc_next_id c \<and> rc_next_id c' = Suc i"
  "begin_request c = (c', Err e) \<Longrightarrow> c' = c"
  by (auto simp: begin_request_def checked_add_u64_def split: if_splits)

lemma stage_correlator:
  assumes "stage lib input limits script answers counters n t"
  shows "stage lib input limits script answers counters (rc_next_id c) (t\<lparr>tr_correlator := c\<rparr>)"
  using assms by (simp add: stage_def)

lemma stage_request:
  assumes "begun lib input script"
  shows "triple (stage lib input limits script answers counters n)
    (step_of phase (send_request (sb_json lib) method params deadline))
    (\<lambda>i t. i = n \<and> stage lib input limits (script @ [request_value n method params]) answers counters (Suc n) t)
    (broken lib input limits)"
proof (rule tripleI)
  fix t t' a assume s: "stage lib input limits script answers counters n t"
    and m: "step_of phase (send_request (sb_json lib) method params deadline) t = (t', Ok a)"
  from m have "send_request (sb_json lib) method params deadline t = (t', Ok a)"
    by (elim step_of_cases) (auto simp: map_err_def split: sum.splits)
  then obtain c u where c: "begin_request (tr_correlator t) = (c, Ok a)"
    and sent: "send_value (sb_json lib) (request_value a method params) deadline (t\<lparr>tr_correlator := c\<rparr>) = (t', Ok u)"
    by (auto simp: send_request_def split: prod.splits sum.splits)
  have i: "a = n" "rc_next_id c = Suc n" using begin_request_id(1)[OF c] s by (auto simp: stage_def)
  show "a = n \<and> stage lib input limits (script @ [request_value n method params]) answers counters (Suc n) t'"
    using stage_said[OF stage_correlator[OF s] _ sent] i by simp
next
  fix t t' e assume s: "stage lib input limits script answers counters n t"
    and m: "step_of phase (send_request (sb_json lib) method params deadline) t = (t', Err e)"
  from m obtain u where r: "send_request (sb_json lib) method params deadline t = (t', Err u)"
    by (elim step_of_cases) (auto simp: map_err_def split: sum.splits)
  have "ou_log (tr_process t') = ou_log (tr_process t)"
    using r by (auto simp: send_request_def split: prod.splits sum.splits dest!: send_value_failed_log)
  then show "broken lib input limits t'" by (rule broken_log[OF stage_broken[OF s assms]])
qed

section \<open>Awaiting a response\<close>

lemma broken_took:
  assumes "broken lib input limits t" "only_took t t'"
  shows "broken lib input limits t'"
  using assms by (auto simp: broken_def restrained_def encoded_def only_took_def)

lemma stage_received:
  assumes "stage lib input limits script answers counters n t" "next_incoming (sb_json lib) deadline t = (t', r)"
  shows "\<exists>ms. received (sb_json lib) ms t (t', r)"
  using assms next_incoming_received[of t "sb_json lib" _ deadline] unfolding stage_def by fastforce

lemma stage_not_received:
  assumes "stage lib input limits script answers counters n t" "begun lib input script"
    and "next_incoming (sb_json lib) deadline t = (t', r)"
  shows "broken lib input limits t'"
  using broken_took[OF stage_broken[OF assms(1,2)]] stage_received[OF assms(1,3)] by (auto simp: received_def)

text \<open>The stage after one more message, whose answer \<open>replies\<close>, if it needs one, has been sent.\<close>

lemma stage_heard:
  assumes s: "stage lib input limits script answers counters n t"
    and m: "next_incoming (sb_json lib) deadline t = (t1, Ok m)"
    and t2: "buffer_ok t2" "same_setup t1 t2" "\<And>ms. in_order (sb_json lib) ms t1 \<Longrightarrow> in_order (sb_json lib) ms t2"
      "lifecycle (ou_log (tr_process t2)) = lifecycle (ou_log (tr_process t1))"
      "\<And>vs. encoded lib limits vs (ou_log (tr_process t1)) \<Longrightarrow> encoded lib limits (vs @ replies) (ou_log (tr_process t2))"
    and replies: "\<forall>v\<in>set replies. \<not> has_method v"
      "map Ok replies = map (\<lambda>r. dispatch_server_request lib r input) (case m of Request r \<Rightarrow> [r] | _ \<Rightarrow> [])"
    and count: "mc_requests counters' = mc_requests counters + (case m of Request _ \<Rightarrow> 1 | _ \<Rightarrow> 0)"
      "mc_notifications counters' = mc_notifications counters + (case m of Notification _ \<Rightarrow> 1 | _ \<Rightarrow> 0)"
      "mc_requests counters' \<le> sl_server_requests (in_limits input)"
      "mc_notifications counters' \<le> sl_notifications (in_limits input)"
  shows "stage lib input limits script (answers @ (case m of Response r \<Rightarrow> [r] | _ \<Rightarrow> [])) counters' n t2"
proof -
  obtain ms vs where vs: "in_order (sb_json lib) ms t" "encoded lib limits vs (ou_log (tr_process t))"
    "filter has_method vs = script" "map Ok (filter (\<lambda>v. \<not> has_method v) vs) = map (\<lambda>r. dispatch_server_request lib r input) (requests_of ms)"
    "responses_of ms = answers" "length (requests_of ms) = mc_requests counters"
    "length (notifications_of ms) = mc_notifications counters"
    using s unfolding stage_def by blast
  have r: "received (sb_json lib) ms t (t1, Ok m)"
    using next_incoming_received[of t "sb_json lib" ms deadline] s vs(1) m by (simp add: stage_def)
  then have log: "sent_frames (ou_log (tr_process t1)) = sent_frames (ou_log (tr_process t))"
    "lifecycle (ou_log (tr_process t1)) = lifecycle (ou_log (tr_process t))"
    by (auto simp: received_def only_took_def)
  have none: "filter has_method replies = []" "filter (\<lambda>v. \<not> has_method v) replies = replies"
    using replies(1) by (simp_all add: filter_empty_conv filter_id_conv)
  have e: "encoded lib limits (vs @ replies) (ou_log (tr_process t2))"
    using vs(2) log(1) by (intro t2(5)) (simp add: encoded_def)
  have o: "in_order (sb_json lib) (ms @ [m]) t2" using r by (intro t2(3)) (simp add: received_def)
  show ?thesis
    unfolding stage_def
  proof (intro conjI exI[of _ "ms @ [m]"] exI[of _ "vs @ replies"])
    show "map Ok (filter (\<lambda>v. \<not> has_method v) (vs @ replies)) =
        map (\<lambda>r. dispatch_server_request lib r input) (requests_of (ms @ [m]))"
      using vs(4) replies(2) none(2) by simp
  qed (use s r vs t2 log none e o count in
      \<open>simp_all add: stage_def received_def same_setup_def split: IncomingMessage.splits\<close>)
qed

lemma stage_listened:
  assumes s: "stage lib input limits script answers counters n t"
    and m: "next_incoming (sb_json lib) deadline t = (t1, Ok m)" and "requests_of [m] = []"
    and "mc_requests counters' = mc_requests counters"
      "mc_notifications counters' = mc_notifications counters + (case m of Notification _ \<Rightarrow> 1 | _ \<Rightarrow> 0)"
      "mc_notifications counters' \<le> sl_notifications (in_limits input)"
  shows "stage lib input limits script (answers @ (case m of Response r \<Rightarrow> [r] | _ \<Rightarrow> [])) counters' n t1"
  using stage_received[OF s m] assms
  by (intro stage_heard[where replies = "[]", OF s m])
    (auto simp: received_def requests_of_def stage_def split: IncomingMessage.splits)

lemma stage_answered:
  assumes s: "stage lib input limits script answers counters n t"
    and m: "next_incoming (sb_json lib) deadline t = (t1, Ok (Request request))"
    and v: "dispatch_server_request lib request input = Ok v"
    and sent: "send_value (sb_json lib) v deadline t1 = (t2, Ok u)"
    and count: "Suc (mc_requests counters) \<le> sl_server_requests (in_limits input)"
  shows "stage lib input limits script answers (counters\<lparr>mc_requests := Suc (mc_requests counters)\<rparr>) n t2"
proof -
  obtain ms where r: "received (sb_json lib) ms t (t1, Ok (Request request))" using stage_received[OF s m] by blast
  then have framing: "tr_framing_limits t1 = tl_framing limits" using s by (simp add: received_def same_setup_def stage_def)
  obtain frame where frame: "encode_message (js_to_vec (sb_json lib)) v (tl_framing limits) = Ok frame"
    "ou_log (tr_process t2) = ou_log (tr_process t1) @ [SentFrame frame]"
    using send_value_effect[OF sent] framing by auto
  have "stage lib input limits script (answers @ (case Request request of Response r \<Rightarrow> [r] | _ \<Rightarrow> []))
    (counters\<lparr>mc_requests := Suc (mc_requests counters)\<rparr>) n t2"
  proof (rule stage_heard[where replies = "[v]", OF s m])
    show "encoded lib limits (vs @ [v]) (ou_log (tr_process t2))" if "encoded lib limits vs (ou_log (tr_process t1))" for vs
      using encoded_snoc[OF that frame(1)] frame(2) by simp
    show "in_order (sb_json lib) ms t2" if "in_order (sb_json lib) ms t1" for ms
      using send_value_kept[OF sent, of ms] that by simp
  qed (use s r frame v count answer_has_no_method[OF v] send_value_kept[OF sent] in
      \<open>simp_all add: received_def stage_def\<close>)
  then show ?thesis by simp
qed

definition awaited ::
    "SessionLibrary \<Rightarrow> SessionInput \<Rightarrow> TransportLimits \<Rightarrow> Value list \<Rightarrow> ClientResponse list \<Rightarrow> nat \<Rightarrow> ClientRequestId \<Rightarrow>
     Transport \<times> (SessionError + Value \<times> MessageCounters) \<Rightarrow> bool" where
  "awaited lib input limits script answers n i x =
     (case x of
        (t, Ok (v, counters)) \<Rightarrow> stage lib input limits script (answers @ [\<lparr>rp_id = i, rp_payload = Result v\<rparr>]) counters n t
      | (t, Err _) \<Rightarrow> broken lib input limits t)"

lemma await_response_awaited:
  assumes begun: "begun lib input script" and "stage lib input limits script answers counters n t"
  shows "awaited lib input limits script answers n i (await_response lib input i name deadline phase counters t)"
  using assms(2)
proof (induction "(sl_notifications (in_limits input) - mc_notifications counters) +
    (sl_server_requests (in_limits input) - mc_requests counters)" arbitrary: counters t rule: less_induct)
  case less
  note s = less(2)
  obtain t1 r where m: "next_incoming (sb_json lib) deadline t = (t1, r)" by fastforce
  have lost: "broken lib input limits t1" by (rule stage_not_received[OF s begun m])
  show ?case
  proof (cases r)
    case (Inl e)
    then show ?thesis using m lost by (subst await_response.simps) (simp add: step_of_def awaited_def)
  next
    case (Inr message)
    note m = m[unfolded Inr]
    show ?thesis
    proof (cases message)
      case (Response response)
      have "stage lib input limits script (answers @ [response]) counters n t1"
        using stage_listened[OF s m, of counters] Response s by (simp add: requests_of_def stage_def)
      then show ?thesis
        using m lost Response
        by (subst await_response.simps) (cases response; auto simp: step_of_def awaited_def split: ResponsePayload.split)
    next
      case (Notification x)
      let ?c = "counters\<lparr>mc_notifications := Suc (mc_notifications counters)\<rparr>"
      have "awaited lib input limits script answers n i (await_response lib input i name deadline phase ?c t1)"
        if "Suc (mc_notifications counters) \<le> sl_notifications (in_limits input)"
      proof (rule less(1))
        show "stage lib input limits script answers ?c n t1"
          using stage_listened[OF s m, of ?c] Notification that by (simp add: requests_of_def)
      qed (use that in simp)
      then show ?thesis
        using m lost Notification by (subst await_response.simps) (simp add: step_of_def awaited_def Let_def)
    next
      case (Request request)
      let ?c = "counters\<lparr>mc_requests := Suc (mc_requests counters)\<rparr>"
      have next_turn: "awaited lib input limits script answers n i (await_response lib input i name deadline phase ?c t2)"
        if "Suc (mc_requests counters) \<le> sl_server_requests (in_limits input)"
          "dispatch_server_request lib request input = Ok v" "send_value (sb_json lib) v deadline t1 = (t2, Ok u)" for v t2 u
      proof (rule less(1))
        show "stage lib input limits script answers ?c n t2"
          by (rule stage_answered[OF s m[unfolded Request] that(2,3,1)])
      qed (use that in simp)
      have "broken lib input limits t2" if "send_value (sb_json lib) v deadline t1 = (t2, Err e)" for v t2 e
        by (rule broken_log[OF lost send_value_failed_log[OF that]])
      with next_turn show ?thesis
        using m lost Request
        by (subst await_response.simps)
          (auto simp: step_of_def awaited_def[of _ _ _ _ _ _ _ "(_, Err _)"] Let_def map_err_def split: prod.splits sum.splits)
    qed
  qed
qed

lemma stage_await_response:
  assumes "begun lib input script"
  shows "triple (stage lib input limits script answers counters n)
    (await_response lib input i name deadline phase counters)
    (\<lambda>(v, counters') t. stage lib input limits script (answers @ [\<lparr>rp_id = i, rp_payload = Result v\<rparr>]) counters' n t)
    (broken lib input limits)"
proof (rule tripleI)
  fix t t' x assume "stage lib input limits script answers counters n t"
    and "await_response lib input i name deadline phase counters t = (t', Ok x)"
  then show "(case x of (v, counters') \<Rightarrow> \<lambda>t. stage lib input limits script (answers @ [\<lparr>rp_id = i, rp_payload = Result v\<rparr>])
      counters' n t) t'"
    using await_response_awaited[OF assms, of limits answers counters n t i name deadline phase]
    by (cases x) (simp add: awaited_def)
next
  fix t t' e assume "stage lib input limits script answers counters n t"
    and "await_response lib input i name deadline phase counters t = (t', Err e)"
  then show "broken lib input limits t'"
    using await_response_awaited[OF assms, of limits answers counters n t i name deadline phase]
    by (simp add: awaited_def)
qed

section \<open>The phases\<close>

abbreviation answered :: "ClientRequestId \<Rightarrow> Value \<Rightarrow> ClientResponse" where
  "answered i v \<equiv> \<lparr>rp_id = i, rp_payload = Result v\<rparr>"

abbreviation no_messages :: MessageCounters where
  "no_messages \<equiv> \<lparr>mc_requests = 0, mc_notifications = 0\<rparr>"

lemma begunI: "client_script lib input = script @ rest \<Longrightarrow> begun lib input script"
  unfolding begun_def by (rule exI[of _ "length script"]) simp

lemma triple_skip: "triple P m (\<lambda>_. P) E \<Longrightarrow> (\<And>a. triple P (k a) Q E) \<Longrightarrow> triple P (step_bind m k) Q E"
  by (rule triple_bind)

lemma triple_weaken: "triple P m Q E \<Longrightarrow> (\<And>a t. Q a t \<Longrightarrow> Q' a t) \<Longrightarrow> triple P m Q' E"
  by (rule tripleI) (auto dest: tripleD)

definition opened :: "SessionLibrary \<Rightarrow> Value \<Rightarrow> NegotiatedCapabilities \<Rightarrow> bool" where
  "opened lib v capabilities \<longleftrightarrow>
     (\<exists>result. sb_initialize_result lib v = Some result \<and> validate_initialize_result result = Ok capabilities)"

lemma begun_script:
  assumes "initialize_value lib input = Ok params"
  defines "opening \<equiv> opening_script input params"
  shows "begun lib input [request_value 1 ''initialize'' (Some params)]"
    "begun lib input [request_value 1 ''initialize'' (Some params), notification_value ''initialized'' (Object [])]"
    "begun lib input opening" "begun lib input (opening @ take k (symbols_script input))"
    "begun lib input (opening @ symbols_script input @ take k closing_script)"
proof -
  have script: "client_script lib input = opening @ symbols_script input @ closing_script"
    by (simp add: client_script_def assms)
  show "begun lib input [request_value 1 ''initialize'' (Some params)]"
    "begun lib input [request_value 1 ''initialize'' (Some params), notification_value ''initialized'' (Object [])]"
    by (rule begunI, simp add: script opening_def opening_script_def)+
  show "begun lib input opening" by (rule begunI[OF script])
  show "begun lib input (opening @ take k (symbols_script input))"
    by (rule begunI[where rest = "drop k (symbols_script input) @ closing_script"])
      (metis script append_assoc append_take_drop_id)
  show "begun lib input (opening @ symbols_script input @ take k closing_script)"
    by (rule begunI[where rest = "drop k closing_script"]) (simp add: script)
qed

lemma begun_nil: "begun lib input []"
  by (rule begunI[of _ _ "[]", simplified]) (rule refl)

text \<open>One rule per step of a phase.\<close>

lemma triple_send:
  assumes "begun lib input script" "has_method v"
    and "triple (stage lib input limits (script @ [v]) answers counters n) (k ()) Q (broken lib input limits)"
  shows "triple (stage lib input limits script answers counters n)
    (step_bind (step_of phase (send_value (sb_json lib) v deadline)) k) Q (broken lib input limits)"
  by (rule triple_bind[OF stage_send[OF assms(2,1)]]) (simp add: assms(3))

lemma triple_notify:
  assumes "begun lib input script"
    and "triple (stage lib input limits (script @ [notification_value name params]) answers counters n) (k ()) Q (broken lib input limits)"
  shows "triple (stage lib input limits script answers counters n)
    (step_bind (send_notification lib name params deadline phase) k) Q (broken lib input limits)"
  by (rule triple_bind[OF stage_notification[OF assms(1)]]) (simp add: assms(2))

lemma triple_request:
  assumes "begun lib input script"
    and "triple (stage lib input limits (script @ [request_value n name params]) answers counters (Suc n)) (k n) Q (broken lib input limits)"
  shows "triple (stage lib input limits script answers counters n)
    (step_bind (step_of phase (send_request (sb_json lib) name params deadline)) k) Q (broken lib input limits)"
  by (rule triple_bind[OF stage_request[OF assms(1)]]) (rule triple_fact, simp add: assms(2))

lemma triple_await:
  assumes "begun lib input script"
    and "\<And>v counters'. triple (stage lib input limits script (answers @ [answered i v]) counters' n) (k (v, counters')) Q
      (broken lib input limits)"
  shows "triple (stage lib input limits script answers counters n)
    (step_bind (await_response lib input i name deadline phase counters) k) Q (broken lib input limits)"
  by (rule triple_bind[OF stage_await_response[OF assms(1)]]) (use assms(2) in \<open>simp split: prod.split\<close>)

lemma triple_check:
  assumes "begun lib input script" "\<And>a. r = Ok a \<Longrightarrow> triple (stage lib input limits script answers counters n) (k a) Q (broken lib input limits)"
  shows "triple (stage lib input limits script answers counters n) (step_bind (step_lift r) k) Q (broken lib input limits)"
  by (rule triple_lift[OF assms(2)]) (auto intro: stage_broken assms(1))

lemma initialize_phase_stage:
  "triple (stage lib input limits [] [] no_messages 1) (initialize_phase lib input total_deadline)
     (\<lambda>(capabilities, counters) t. \<exists>params v. initialize_value lib input = Ok params \<and> opened lib v capabilities \<and>
        stage lib input limits (opening_script input params) [answered 1 v] counters 2 t)
     (broken lib input limits)"
  unfolding initialize_phase_def
proof (rule triple_skip[OF stage_phase_deadline], rule triple_check[OF begun_nil], rule triple_request[OF begun_nil],
    rule triple_await, goal_cases)
  case (1 deadline params)
  then show ?case using begun_script(1) by simp
next
  case (2 deadline params v counters)
  note begun = begun_script[OF 2]
  note rules = triple_check[where script = "[request_value 1 ''initialize'' (Some params)]"]
  show ?case
    unfolding prod.case append.simps
  proof (rule rules[OF begun(1)], rule rules[OF begun(1)], rule triple_notify[OF begun(1)], goal_cases)
    case (1 result capabilities)
    then have o: "opened lib v capabilities" by (auto simp: opened_def ok_or_Ok_iff map_err_def split: sum.splits)
    show ?case
    proof (cases "in_settings input")
      case None
      then show ?thesis
        using 2 o
        by (auto simp: step_bind_def step_ret_def triple_def opening_script_def numeral_2_eq_2)
    next
      case (Some settings)
      show ?thesis
        unfolding Some option.case append.simps
        by (rule triple_notify[OF begun(2)], rule triple_ret)
          (use 2 o Some in \<open>auto simp: opening_script_def numeral_2_eq_2\<close>)
    qed
  qed
qed

lemma symbols_phase_stage:
  assumes "initialize_value lib input = Ok params"
  defines "opening \<equiv> opening_script input params"
  shows "triple (stage lib input limits opening [first] counters 2) (symbols_phase lib input total_deadline counters)
     (\<lambda>(symbols, counters). stage lib input limits (opening @ symbols_script input) [first, answered 2 symbols] counters 3)
     (broken lib input limits)"
proof -
  note begun = begun_script(3,4)[OF assms(1), folded opening_def]
  note steps = begun(2)[of 1] begun(2)[of 2] begun(2)[of 3]
  show ?thesis
    unfolding symbols_phase_def
    by (rule triple_skip[OF stage_phase_deadline], rule triple_send[OF begun(1)], simp, rule triple_request)
      (use steps in \<open>auto simp: symbols_script_def numeral_3_eq_3 split_paired_all
        intro!: triple_await triple_notify triple_ret\<close>)
qed

text \<open>The end of a session: its last stage, and then the process was finished.\<close>

definition ended ::
    "SessionLibrary \<Rightarrow> SessionInput \<Rightarrow> TransportLimits \<Rightarrow> ClientResponse list \<Rightarrow> Transport \<Rightarrow> bool" where
  "ended lib input limits answers t' \<longleftrightarrow>
     (\<exists>counters n t. stage lib input limits (client_script lib input) answers counters n t \<and>
        ou_log (tr_process t') = ou_log (tr_process t) @ [FinishCalled])"

lemma broken_finished:
  assumes "broken lib input limits t" "lifecycle (ou_log (tr_process t)) = [Spawned]"
    "ou_log (tr_process t') = ou_log (tr_process t) @ [FinishCalled]"
  shows "broken lib input limits t'"
  using assms by (auto simp: broken_def restrained_def encoded_def)

lemma begun_all: "begun lib input (client_script lib input)"
  by (rule begunI[of _ _ _ "[]"]) simp

lemma finish_stage:
  "triple (stage lib input limits (client_script lib input) answers counters n)
     (\<lambda>t. case finish_transport t of (t, r) \<Rightarrow> (t, map_err SessionTransport r))
     (\<lambda>_. ended lib input limits answers) (broken lib input limits)"
proof (rule tripleI)
  fix t t' a assume "stage lib input limits (client_script lib input) answers counters n t"
    "(case finish_transport t of (t, r) \<Rightarrow> (t, map_err SessionTransport r)) = (t', Ok a)"
  then show "ended lib input limits answers t'"
    unfolding ended_def
    by (intro exI[of _ counters] exI[of _ n] exI[of _ t]) (auto simp: finish_transport_def log_call_def)
next
  fix t t' e assume s: "stage lib input limits (client_script lib input) answers counters n t"
    and t': "(case finish_transport t of (t, r) \<Rightarrow> (t, map_err SessionTransport r)) = (t', Err e)"
  show "broken lib input limits t'"
    by (rule broken_finished[OF stage_broken[OF s begun_all]])
      (use s t' in \<open>auto simp: stage_def finish_transport_def log_call_def\<close>)
qed

lemma shutdown_phase_stage:
  assumes "initialize_value lib input = Ok params"
  shows "triple (stage lib input limits (opening_script input params @ symbols_script input) answers counters 3)
     (shutdown_phase lib input total_deadline counters)
     (\<lambda>_. ended lib input limits (answers @ [answered 3 Null])) (broken lib input limits)"
proof -
  let ?said = "opening_script input params @ symbols_script input"
  note begun = begun_script(5)[OF assms]
  note steps = begun[of 0] begun[of 1] begun[of 2]
  have script: "client_script lib input = ?said @ [request_value 3 ''shutdown'' (Some Null), notification_value ''exit'' Null]"
    by (simp add: client_script_def assms closing_script_def)
  have last: "triple (stage lib input limits (client_script lib input) (answers @ [answered 3 Null]) c n)
     (step_bind (deadline_from_now lib (dl_cleanup (in_deadlines input)) ''cleanup deadline'') (\<lambda>_.
      step_bind (\<lambda>t. case finish_transport t of (t, r) \<Rightarrow> (t, map_err SessionTransport r)) (\<lambda>_. step_ret ())))
     (\<lambda>_. ended lib input limits (answers @ [answered 3 Null])) (broken lib input limits)" for c n
    by (rule triple_skip, simp add: deadline_from_now_def, rule triple_skip[OF stage_now])
      (auto intro!: tripleI triple_bind[OF finish_stage] triple_ret stage_broken begun_all simp: step_lift_def)
  show ?thesis
    unfolding shutdown_phase_def
    apply (rule triple_skip[OF stage_phase_deadline])
    apply (rule triple_request)
    using steps apply simp
    apply (rule triple_await)
    using steps apply (simp add: closing_script_def)
    apply (simp only: prod.case)
    apply (rule triple_check)
    using steps apply (simp add: closing_script_def)
    apply (rule triple_notify)
    using steps apply (simp add: closing_script_def)
    using last apply (simp add: script split: if_splits)
    done
qed

lemma triple_ex:
  assumes "\<And>x. triple (P x) m Q E"
  shows "triple (\<lambda>t. \<exists>x. P x t) m Q E"
  by (rule tripleI) (use tripleD[OF assms] in blast)+

lemma ended_log:
  "ended lib input limits answers t \<Longrightarrow> ou_log (tr_process t') = ou_log (tr_process t) \<Longrightarrow> ended lib input limits answers t'"
  by (simp add: ended_def)

lemma run_active_session_stage:
  "triple (stage lib input limits [] [] no_messages 1) (run_active_session lib input total_deadline started)
     (\<lambda>output t. \<exists>v. opened lib v (so_capabilities output) \<and>
        ended lib input limits [answered 1 v, answered 2 (so_symbols output), answered 3 Null] t)
     (broken lib input limits)"
  unfolding run_active_session_def
proof (rule triple_bind[OF initialize_phase_stage], simp only: split_paired_all prod.case, intro triple_ex triple_fact)
  fix capabilities counters params v
  assume params: "initialize_value lib input = Ok params" and o: "opened lib v capabilities"
  note shutdown = shutdown_phase_stage[OF params, where answers = "[answered 1 v, answered 2 symbols]" for symbols]
  have ended_now: "triple (ended lib input limits answers) step_now (\<lambda>_. ended lib input limits answers) E" for answers E
    by (rule tripleI) (auto simp: step_now_def split: prod.splits dest!: instant_now_log elim: ended_log)
  show "triple (stage lib input limits (opening_script input params) [answered 1 v] counters 2)
     (step_bind step_now (\<lambda>initialized.
      step_bind step_now (\<lambda>document_symbols_started.
      step_bind (symbols_phase lib input total_deadline counters) (\<lambda>(symbols, counters).
      step_bind step_now (\<lambda>closed.
      step_bind step_now (\<lambda>shutdown_started.
      step_bind (shutdown_phase lib input total_deadline counters) (\<lambda>_.
      step_bind step_now (\<lambda>ended.
      step_ret
        \<lparr>so_capabilities = capabilities, so_symbols = symbols,
         so_timings = \<lparr>st_initialize = initialized - started,
           st_document_symbols = closed - document_symbols_started, st_shutdown = ended - shutdown_started\<rparr>\<rparr>))))))))
     (\<lambda>output t. \<exists>v. opened lib v (so_capabilities output) \<and>
        ended lib input limits [answered 1 v, answered 2 (so_symbols output), answered 3 Null] t)
     (broken lib input limits)"
    apply (rule triple_skip[OF stage_now], rule triple_skip[OF stage_now])
    apply (rule triple_bind[OF symbols_phase_stage[OF params]])
    apply (simp only: split_paired_all prod.case)
    apply (rule triple_skip[OF stage_now], rule triple_skip[OF stage_now])
    apply (rule triple_bind[OF shutdown])
    apply (simp only: append.simps)
    apply (rule triple_skip[OF ended_now], rule triple_ret)
    using o apply auto
    done
qed

section \<open>Sessions\<close>

lemma spawn_stage:
  assumes "spawn limits w = (w', Ok t)" "ou_log w = []"
  shows "stage lib input limits [] [] no_messages 1 t"
proof -
  note fresh = spawn_fresh[OF assms, of "sb_json lib"]
  have log: "ou_log (tr_process t) = [Spawned]" and i: "rc_next_id (tr_correlator t) = 1"
    using assms by (auto simp: spawn_def Let_def log_call_def new_correlator_def split: if_splits sum.splits)
  have "in_order (sb_json lib) [] t" using fresh by simp
  moreover have "encoded lib limits [] (ou_log (tr_process t))" by (simp add: encoded_def log)
  ultimately show ?thesis
    unfolding stage_def using fresh log i
    by (intro conjI exI[of _ "[]"]) simp_all
qed

lemma spawn_failed: "spawn limits w = (w', Err e) \<Longrightarrow> w' = w"
  by (auto simp: spawn_def Let_def split: if_splits sum.splits)

text \<open>The cases of a session: it ended before the process existed, it succeeded, or it was cleaned up.\<close>

lemma run_session_cases:
  assumes "run_session lib input limits w = (w', r)" "ou_log w = []"
  obtains (early) e where "r = Err e" "ou_log w' = []"
  | (ended) t outcome v where "r = Ok outcome" "w' = tr_process t" "opened lib v (so_capabilities outcome)"
      "ended lib input limits [answered 1 v, answered 2 (so_symbols outcome), answered 3 Null] t"
  | (failed) t e where "r = Err e" "w' = tr_process (cleanup_after_failure lib input t)" "broken lib input limits t"
proof -
  obtain w1 started where n1: "instant_now w = (w1, started)" by fastforce
  obtain w2 now2 where n2: "instant_now w1 = (w2, now2)" by fastforce
  obtain w3 now3 where n3: "instant_now w2 = (w3, now3)" by fastforce
  note logs = instant_now_log[OF n1] instant_now_log[OF n2] instant_now_log[OF n3]
  obtain w4 s where sp: "spawn limits w3 = (w4, s)" by fastforce
  note clock = assms(1)[unfolded run_session_def n1 n2 n3 sp prod.case]
  show thesis
  proof (cases "\<exists>t. s = Ok t \<and> (\<exists>d. deadline_after lib now2 (dl_total (in_deadlines input)) ''total deadline'' = Ok d) \<and>
      (\<exists>d. deadline_after lib now3 (dl_cleanup (in_deadlines input)) ''cleanup deadline'' = Ok d) \<and>
      (\<exists>u. and_then (validate_input_limits lib input) (\<lambda>_. preflight_did_open lib input limits) = Ok u)")
    case False
    then have "(\<exists>e. r = Err e) \<and> ou_log w' = []"
      using clock logs assms(2) spawn_failed[of limits w3 w4] sp by (auto simp: n2 n3 sp split: sum.splits)
    then show thesis using early by blast
  next
    case True
    then obtain t d where t: "s = Ok t" and d: "deadline_after lib now2 (dl_total (in_deadlines input)) ''total deadline'' = Ok d"
      and ok: "r = r"
      by blast
    obtain t' result where run: "run_active_session lib input d started t = (t', result)" by fastforce
    have s: "stage lib input limits [] [] no_messages 1 t"
      by (rule spawn_stage[OF sp[unfolded t]]) (use logs assms(2) in simp)

    show thesis
    proof (cases result)
      case (Inl e)
      have "broken lib input limits t'" by (rule tripleD(2)[OF run_active_session_stage s run[unfolded Inl]])
      moreover have "r = Err e" "w' = tr_process (cleanup_after_failure lib input t')"
        using clock True t d run Inl by (auto simp: n2 n3 sp)
      ultimately show thesis using failed by blast
    next
      case (Inr outcome)
      have "\<exists>v. opened lib v (so_capabilities outcome) \<and>
          ended lib input limits [answered 1 v, answered 2 (so_symbols outcome), answered 3 Null] t'"
        by (rule tripleD(1)[OF run_active_session_stage s run[unfolded Inr]])
      moreover have "r = Ok outcome" "w' = tr_process t'"
        using clock True t d run Inr by (auto simp: n2 n3 sp)
      ultimately show thesis using ended by blast
    qed
  qed
qed

lemma cleanup_log:
  "ou_log (tr_process (cleanup_after_failure lib input t)) = ou_log (tr_process t) @ [AbortCalled]"
  by (auto simp: cleanup_after_failure_def deadline_from_now_def step_bind_def step_now_def step_lift_def abort_transport_def
      log_call_def dest!: instant_now_log split: prod.splits sum.splits)

lemma stdout_bytes_finished [simp]: "stdout_bytes [FinishCalled] = []"
  by (simp add: stdout_bytes_def)

lemma restrained_nil: "restrained lib input limits []"
  unfolding restrained_def by (rule exI[of _ "[]"], rule exI[of _ 0]) (simp add: encoded_def)

text \<open>
  C36: A session that succeeds is a complete conversation. The client has said its script, each
  message once and in order, with identifiers 1, 2 and 3; every request of the server was answered,
  in order, as \<open>dispatch_server_request\<close> says, and requests and notifications kept their limits. The messages
  read are the beginning of what the server wrote: among them exactly three responses, one for
  every identifier in order, of which the first gave the capabilities, the second the symbols returned, and
  the third was null. The process was spawned once and finished, not aborted.
\<close>

theorem completed_sessions_are_exact:
  assumes "run_session lib input limits w = (w', Ok outcome)" "ou_log w = []"
  shows "\<exists>ms rest vs v decoder bodies.
    feed (new_decoder (tl_framing limits)) (stdout_bytes (ou_log w')) [] = (decoder, Ok bodies) \<and>
    try_map (\<lambda>body. decode_body (js_from_slice (sb_json lib)) (js_to_vec (sb_json lib)) body (tl_envelope limits)) bodies =
      Ok (ms @ rest) \<and>
    responses_of ms = [answered 1 v, answered 2 (so_symbols outcome), answered 3 Null] \<and>
    opened lib v (so_capabilities outcome) \<and>
    length (requests_of ms) \<le> sl_server_requests (in_limits input) \<and>
    length (notifications_of ms) \<le> sl_notifications (in_limits input) \<and>
    encoded lib limits vs (ou_log w') \<and> filter has_method vs = client_script lib input \<and>
    map Ok (filter (\<lambda>v. \<not> has_method v) vs) = map (\<lambda>request. dispatch_server_request lib request input) (requests_of ms) \<and>
    lifecycle (ou_log w') = [Spawned, FinishCalled]"
  using assms
proof (cases rule: run_session_cases)
  case (ended t outcome' v)
  then obtain counters n t0 where s: "stage lib input limits (client_script lib input)
      [answered 1 v, answered 2 (so_symbols outcome), answered 3 Null] counters n t0"
    and log: "ou_log w' = ou_log (tr_process t0) @ [FinishCalled]"
    by (auto simp: ended_def)
  obtain ms vs where vs: "in_order (sb_json lib) ms t0" "encoded lib limits vs (ou_log (tr_process t0))"
    "filter has_method vs = client_script lib input"
    "map Ok (filter (\<lambda>v. \<not> has_method v) vs) = map (\<lambda>r. dispatch_server_request lib r input) (requests_of ms)"
    "responses_of ms = [answered 1 v, answered 2 (so_symbols outcome), answered 3 Null]"
    "length (requests_of ms) = mc_requests counters" "length (notifications_of ms) = mc_notifications counters"
    using s unfolding stage_def by blast
  obtain decoder bodies where read: "feed (new_decoder (tl_framing limits)) (stdout_bytes (ou_log (tr_process t0))) [] = (decoder, Ok bodies)"
    "try_map (\<lambda>body. decode_body (js_from_slice (sb_json lib)) (js_to_vec (sb_json lib)) body (tl_envelope limits)) bodies =
      Ok (ms @ map bi_message (tr_incoming t0))"
    using vs(1) s by (auto simp: in_order_def stage_def)
  have frames: "sent_frames (ou_log w') = sent_frames (ou_log (tr_process t0))" "lifecycle (ou_log w') = [Spawned, FinishCalled]"
    "stdout_bytes (ou_log w') = stdout_bytes (ou_log (tr_process t0))"
    using log s by (simp_all add: stage_def)
  have bounds: "length (requests_of ms) \<le> sl_server_requests (in_limits input)"
    "length (notifications_of ms) \<le> sl_notifications (in_limits input)"
    using s vs(6,7) by (simp_all add: stage_def)
  have "encoded lib limits vs (ou_log w')" using vs(2) frames(1) by (simp add: encoded_def)
  with read[folded frames(3)] vs(3-5) bounds frames(2) ended(1,3) show ?thesis
    by (intro exI[of _ ms] exI[of _ "map bi_message (tr_incoming t0)"] exI[of _ vs] exI[of _ v] exI[of _ decoder]
        exI[of _ bodies] conjI) (assumption | simp)+
qed simp_all

text \<open>
  C37: Every session cleans up and never says more than it should. Whatever the server, the
  process and the clock do, the frames sent are the beginning of the script and answers to requests,
  no more of them than the limit; a process that was spawned is finished when the session succeeds, and
  aborted, as the last call, when it fails; before the process exists nothing is sent at all.
\<close>

theorem every_session_is_cleaned_up:
  assumes "run_session lib input limits w = (w', r)" "ou_log w = []"
  shows "restrained lib input limits (ou_log w') \<and>
    (case r of
       Ok _ \<Rightarrow> lifecycle (ou_log w') = [Spawned, FinishCalled]
     | Err _ \<Rightarrow> ou_log w' = [] \<or>
         last (ou_log w') = AbortCalled \<and> lifecycle (ou_log w') \<in> {[Spawned, AbortCalled], [Spawned, FinishCalled, AbortCalled]})"
  using assms
proof (cases rule: run_session_cases)
  case early
  then show ?thesis by (simp add: restrained_nil)
next
  case (ended t outcome v)
  then obtain counters n t0 where s: "stage lib input limits (client_script lib input)
      [answered 1 v, answered 2 (so_symbols outcome), answered 3 Null] counters n t0"
    and log: "ou_log w' = ou_log (tr_process t0) @ [FinishCalled]"
    by (auto simp: ended_def)
  have "broken lib input limits t" 
    by (rule broken_finished[OF stage_broken[OF s begun_all]]) (use s log ended in \<open>simp_all add: stage_def\<close>)
  then show ?thesis using ended s log by (simp add: broken_def stage_def)
next
  case (failed t e)
  then show ?thesis by (auto simp: cleanup_log broken_def restrained_def encoded_def)
qed

section \<open>A run\<close>

text \<open>A server that answers every request with null; its messages are one byte, the identifier.\<close>

definition null_reply :: "nat \<Rightarrow> Value" where
  "null_reply n = Object [(''id'', json_nat n), (''jsonrpc'', String ''2.0''), (''result'', Null)]"

definition null_library :: SessionLibrary where
  "null_library =
     \<lparr>sb_json = \<lparr>js_from_slice = (\<lambda>bs. Some (null_reply (unat (hd bs)))), js_to_vec = braces\<rparr>,
      sb_initialize_params = (\<lambda>_. Some []),
      sb_initialize_result = (\<lambda>_. Some \<lparr>ir_document_symbol_provider = Some (SymbolsFlag True),
        ir_text_document_sync = Some (SyncKind FullSync), ir_position_encoding = None, ir_server_info = None\<rparr>),
      sb_process_id = 1, sb_version = ''0'', sb_last_instant = 1000000\<rparr>"

definition null_input :: SessionInput where
  "null_input =
     \<lparr>in_process = new_process ''server'', in_workspace = \<lparr>wf_uri = ''file:///w'', wf_name = ''w''\<rparr>,
      in_document = \<lparr>im_uri = ''file:///w/a'', im_language_id = ''rust'', im_text = ''''\<rparr>,
      in_initialization_options = None, in_settings = None, in_deadlines = default_session_deadlines,
      in_limits = default_session_limits\<rparr>"

definition null_body :: "nat \<Rightarrow> bytes" where "null_body n = [word_of_nat n]"

definition null_frame :: "nat \<Rightarrow> bytes" where
  "null_frame n = content_length_line 1 @ TERMINATOR @ null_body n"

definition null_server :: "nat list \<Rightarrow> Call list \<Rightarrow> Outside" where
  "null_server ns log =
     \<lparr>ou_spawn = None, ou_ready = [], ou_waited = map (\<lambda>n. Ok (StdoutEvent (null_frame n))) ns, ou_sends = [],
      ou_finish = Ok 0, ou_abort = Ok 0, ou_now = 0, ou_ticks = [], ou_log = log\<rparr>"

definition null_transport :: "nat \<Rightarrow> nat set \<Rightarrow> nat list \<Rightarrow> Call list \<Rightarrow> Transport" where
  "null_transport i pending ns log =
     \<lparr>tr_process = null_server ns log, tr_framing_limits = default_framing_limits,
      tr_envelope_limits = default_envelope_limits, tr_decoder = Some (new_decoder default_framing_limits),
      tr_correlator = \<lparr>rc_next_id = i, rc_pending = pending, rc_max_pending = 8\<rparr>, tr_incoming = [],
      tr_buffered_message_bytes = 0, tr_max_ready_events = 4096, tr_max_buffered_messages = 1024,
      tr_max_buffered_message_bytes = 32 * 1024 * 1024\<rparr>"

lemma null_push:
  "push (new_decoder default_framing_limits) (null_frame n) = Some (new_decoder default_framing_limits, Ok [null_body n])"
proof -
  have e: "encode_message (\<lambda>_. Some (null_body n)) Null default_framing_limits = Ok (null_frame n)"
    using content_length_line_short[of 1]
    by (simp add: encode_message_def null_body_def default_framing_limits_def Let_def null_frame_def content_length_line_def
        TERMINATOR_def u64_max_def)
  have "feed (new_decoder default_framing_limits) (null_frame n @ []) [] = feed (new_decoder default_framing_limits) [] ([] @ [null_body n])"
    by (rule feed_frame[OF e]) (simp_all add: null_body_def default_framing_limits_def)
  then show ?thesis by (simp add: push_feed)
qed

lemma null_decoded:
  assumes "0 < n" "n < 4"
  shows "decode_body (js_from_slice (sb_json null_library)) (js_to_vec (sb_json null_library)) (null_body n) default_envelope_limits =
    Ok (Response (answered n Null))"
proof -
  have "n = 1 \<or> n = 2 \<or> n = 3" using assms by arith
  then show ?thesis
    by (auto simp: decode_body_def validate_raw_json_depth_def null_body_def null_library_def null_reply_def classify_message_def
        classify_response_def default_envelope_limits_def saturating_add_u64_def u64_max_def Let_def bt_get_def)
qed

lemma null_send:
  "send_value (sb_json null_library) v d (null_transport i pending ns log) =
     (null_transport i pending ns (log @ [SentFrame brace_frame]), Ok ())"
  by (simp add: send_value_def null_transport_def null_library_def brace_frame null_server_def send_frame_def log_call_def
      map_err_def)

lemma null_request:
  assumes "i < 100"
  shows "send_request (sb_json null_library) name params d (null_transport i {} ns log) =
     (null_transport (Suc i) {i} ns (log @ [SentFrame brace_frame]), Ok i)"
proof -
  have b: "begin_request (tr_correlator (null_transport i {} ns log)) =
      (\<lparr>rc_next_id = Suc i, rc_pending = {i}, rc_max_pending = 8\<rparr>, Ok i)"
    using assms by (simp add: begin_request_def null_transport_def checked_add_u64_def u64_max_def)
  have "null_transport i {} ns log\<lparr>tr_correlator := \<lparr>rc_next_id = Suc i, rc_pending = {i}, rc_max_pending = 8\<rparr>\<rparr> =
      null_transport (Suc i) {i} ns log"
    by (simp add: null_transport_def)
  then show ?thesis by (simp add: send_request_def b null_send)
qed

lemma null_receipt:
  assumes "0 < n" "n < 4"
  shows "next_incoming (sb_json null_library) d (null_transport i {n} (n # ns) log) =
     (null_transport i {} ns (log @ [Took (StdoutEvent (null_frame n))]), Ok (Response (answered n Null)))"
proof -
  have idle: "drain_loop json d' 0 (null_transport i' p ns' log', default_batch) = (null_transport i' p ns' log', default_batch)"
    for json d' i' p ns' log'
    by (subst drain_loop.simps)
      (simp add: should_probe_ready_event_overflow_def null_transport_def null_server_def instant_now_def try_next_event_def Let_def
        batch_is_empty_def default_batch_def)
  let ?t = "null_transport i {n} ns (log @ [Took (StdoutEvent (null_frame n))])"
  let ?got = "?t\<lparr>tr_correlator := \<lparr>rc_next_id = i, rc_pending = {}, rc_max_pending = 8\<rparr>,
    tr_incoming := [\<lparr>bi_message = Response (answered n Null), bi_body_bytes = 1\<rparr>], tr_buffered_message_bytes := 1\<rparr>"
  have wait: "next_event d (null_server (n # ns) log) = (null_server ns (log @ [Took (StdoutEvent (null_frame n))]), Ok (StdoutEvent (null_frame n)))"
    by (simp add: next_event_def null_server_def Let_def log_call_def)
  have "decode_chunk (sb_json null_library) (null_frame n) (?t, default_batch) = (?got, default_batch)"
    using null_decoded[OF assms]
    by (simp add: decode_chunk_def default_batch_def null_transport_def null_push complete_response_def complete_def Let_def
        checked_add_u64_def u64_max_def null_body_def)
  then have seen: "observe (sb_json null_library) (StdoutEvent (null_frame n)) (?t, default_batch) = (?got, default_batch)"
    by (simp add: observe_def)
  have drained: "drain_loop json d 1 (?got, default_batch) = (?got, default_batch)" for json
    by (subst drain_loop.simps)
      (simp add: should_probe_ready_event_overflow_def null_transport_def null_server_def instant_now_def try_next_event_def Let_def
        batch_is_empty_def default_batch_def)
  have none: "batch_is_empty default_batch" by (simp add: batch_is_empty_def default_batch_def)
  have "incoming_loop (sb_json null_library) d (Some (StdoutEvent (null_frame n))) ?t =
      (null_transport i {} ns (log @ [Took (StdoutEvent (null_frame n))]), Ok (Response (answered n Null)))"
    by (subst incoming_loop.simps) (simp add: drain_ready_def seen drained[simplified] none pop_incoming_def,
        simp add: null_transport_def)
  moreover have "tr_process (null_transport i {n} (n # ns) log) = null_server (n # ns) log"
    "null_transport i {n} (n # ns) log\<lparr>tr_process := null_server ns (log @ [Took (StdoutEvent (null_frame n))])\<rparr> = ?t"
    "pop_incoming (null_transport i {n} (n # ns) log) = (null_transport i {n} (n # ns) log, None)"
    by (simp_all add: null_transport_def pop_incoming_def)
  ultimately show ?thesis
    by (simp add: next_incoming_def drain_ready_def idle wait none)
qed

lemma null_await:
  assumes "0 < n" "n < 4"
  shows "await_response null_library null_input n name d phase c (null_transport i {n} (n # ns) log) =
     (null_transport i {} ns (log @ [Took (StdoutEvent (null_frame n))]), Ok (Null, c))"
  by (subst await_response.simps) (simp add: step_of_def null_receipt[OF assms] map_err_def)

lemma null_now: "step_now (null_transport i p ns log) = (null_transport i p ns log, Ok 0)"
  by (simp add: step_now_def null_transport_def null_server_def instant_now_def)

lemma null_run:
  "\<exists>t outcome. run_active_session null_library null_input total_deadline started (null_transport 1 {} [1, 2, 3] log) = (t, Ok outcome)"
proof -
  note steps = step_bind_def step_ret_def step_lift_def phase_deadline_def deadline_from_now_def null_now step_of_def
    null_send null_request null_await send_notification_def map_err_def
  have initialize: "\<exists>log'. initialize_phase null_library null_input total_deadline (null_transport 1 {} [1, 2, 3] log) =
      (null_transport 2 {} [2, 3] log', Ok (\<lparr>nc_server = \<lparr>si_name = None, si_version = None\<rparr>, nc_position_encoding = Utf16\<rparr>, no_messages))" for log
    by (simp add: initialize_phase_def steps initialize_value_def)
      (simp add: null_library_def null_input_def validate_initialize_result_def usable_change_def Let_def
        step_ret_def numeral_2_eq_2, rule exI, rule refl)
  have symbols: "\<exists>log'. symbols_phase null_library null_input total_deadline c (null_transport 2 {} [2, 3] log) =
      (null_transport 3 {} [3] log', Ok (Null, c))" for c log
    by (simp add: symbols_phase_def steps, rule exI, rule refl)
  have shutdown: "\<exists>t. shutdown_phase null_library null_input total_deadline c (null_transport 3 {} [3] log) = (t, Ok ())" for c log
    by (simp add: shutdown_phase_def steps)
      (simp add: null_library_def null_input_def deadline_after_def default_session_deadlines_def finish_transport_def null_transport_def
        null_server_def map_err_def step_ret_def)
  obtain log1 where 1: "initialize_phase null_library null_input total_deadline (null_transport 1 {} [1, 2, 3] log) =
      (null_transport 2 {} [2, 3] log1, Ok (\<lparr>nc_server = \<lparr>si_name = None, si_version = None\<rparr>, nc_position_encoding = Utf16\<rparr>, no_messages))"
    using initialize by blast
  obtain log2 where 2: "symbols_phase null_library null_input total_deadline no_messages (null_transport 2 {} [2, 3] log1) =
      (null_transport 3 {} [3] log2, Ok (Null, no_messages))"
    using symbols by blast
  obtain t where 3: "shutdown_phase null_library null_input total_deadline no_messages (null_transport 3 {} [3] log2) = (t, Ok ())"
    using shutdown by blast
  obtain w now where 4: "instant_now (tr_process t) = (w, now)" by fastforce
  show ?thesis
    unfolding run_active_session_def step_bind_def 1 2 3 null_now prod.case sum.case
    by (simp add: step_ret_def step_now_def 4)
qed

lemma null_session:
  "\<exists>w' outcome. run_session null_library null_input default_transport_limits (null_server [1, 2, 3] []) = (w', Ok outcome)"
proof -
  have now: "instant_now (null_server ns log) = (null_server ns log, 0)" for ns log
    by (simp add: instant_now_def null_server_def)
  have valid: "and_then (validate_input_limits null_library null_input) (\<lambda>_. preflight_did_open null_library null_input default_transport_limits) = Ok ()"
    by (simp add: validate_input_limits_def null_input_def ensure_within_limit_def default_session_limits_def preflight_did_open_def
        null_library_def brace_frame default_transport_limits_def)
  have later: "deadline_after null_library 0 (dl_total (in_deadlines null_input)) name = Ok 60000"
    "deadline_after null_library 0 (dl_cleanup (in_deadlines null_input)) name = Ok 5000" for name
    by (simp_all add: deadline_after_def null_library_def null_input_def default_session_deadlines_def)
  have spawned: "spawn default_transport_limits (null_server [1, 2, 3] []) =
      (null_server [1, 2, 3] [Spawned], Ok (null_transport 1 {} [1, 2, 3] [Spawned]))"
    by (simp add: spawn_def default_transport_limits_def validate_process_limits_def default_process_limits_def null_server_def
        null_transport_def log_call_def new_correlator_def Let_def)
  obtain t outcome where "run_active_session null_library null_input 60000 0 (null_transport 1 {} [1, 2, 3] [Spawned]) = (t, Ok outcome)"
    using null_run by blast
  then show ?thesis by (simp add: run_session_def valid now later spawned[simplified])
qed

lemma completed_sessions_are_exact_witness:
  "\<exists>w' outcome vs. run_session null_library null_input default_transport_limits (null_server [1, 2, 3] []) = (w', Ok outcome) \<and>
     filter has_method vs = client_script null_library null_input \<and> lifecycle (ou_log w') = [Spawned, FinishCalled]"
proof -
  obtain w' outcome where run: "run_session null_library null_input default_transport_limits (null_server [1, 2, 3] []) = (w', Ok outcome)"
    using null_session by blast
  from completed_sessions_are_exact[OF run] show ?thesis
    using run by (auto simp: null_server_def)
qed

text \<open>A server that never answers.\<close>

lemma every_session_is_cleaned_up_witness:
  "\<exists>w' r. run_session null_library null_input default_transport_limits (null_server [] []) = (w', r) \<and>
     restrained null_library null_input default_transport_limits (ou_log w')"
proof -
  obtain w' r where run: "run_session null_library null_input default_transport_limits (null_server [] []) = (w', r)" by fastforce
  from every_session_is_cleaned_up[OF run] run show ?thesis by (auto simp: null_server_def)
qed

section \<open>Requests of the server\<close>

definition configured_value :: "Value option \<Rightarrow> Value" where
  "configured_value c = (case c of Some v \<Rightarrow> v | None \<Rightarrow> Null)"

text \<open>The loop counts the bytes of its values and of the commas between them.\<close>

lemma configuration_items:
  assumes "try_fold (configuration_item lib input) (n, out) (enumerate i items) = Ok (n', out')"
    and null: "js_to_vec (sb_json lib) Null = Some nl" "length nl = 4"
  shows "\<exists>cs bss. list_all2 (\<lambda>item c. configured_section (in_settings input) item = Ok c) items cs \<and>
    out' = out @ map configured_value cs \<and> map (js_to_vec (sb_json lib)) (map configured_value cs) = map Some bss \<and>
    n' = n + sum_list (map length bss) + (if i = 0 then length items - 1 else length items) \<and>
    (items \<noteq> [] \<longrightarrow> n' \<le> sl_configuration_response_bytes (in_limits input))"
  using assms(1)
proof (induction items arbitrary: n out i)
  case Nil
  then show ?case by (intro exI[of _ "[]"]) simp
next
  case (Cons item items)
  from Cons.prems obtain n1 out1 where first: "configuration_item lib input (n, out) (i, item) = Ok (n1, out1)"
    and rest: "try_fold (configuration_item lib input) (n1, out1) (enumerate (Suc i) items) = Ok (n', out')"
    by (auto simp: and_then_Ok_iff)
  obtain c bs where c: "configured_section (in_settings input) item = Ok c" "out1 = out @ [configured_value c]"
    "js_to_vec (sb_json lib) (configured_value c) = Some bs" "n1 = n + (if i = 0 then 0 else 1) + length bs"
    "n1 \<le> sl_configuration_response_bytes (in_limits input)"
    using first null
    by (auto simp: configuration_item_def Let_def and_then_Ok_iff ok_or_Ok_iff serialized_len_def checked_add_u64_def
        ensure_within_limit_def configured_value_def bind_eq_Some_conv split: option.splits if_splits)
  from Cons.IH[OF rest] obtain cs bss where cs: "list_all2 (\<lambda>item c. configured_section (in_settings input) item = Ok c) items cs"
    "out' = out1 @ map configured_value cs" "map (js_to_vec (sb_json lib)) (map configured_value cs) = map Some bss"
    "n' = n1 + sum_list (map length bss) + length items"
    "items \<noteq> [] \<longrightarrow> n' \<le> sl_configuration_response_bytes (in_limits input)"
    by auto
  show ?case
    by (rule exI[of _ "c # cs"], rule exI[of _ "bs # bss"]) (use c cs in \<open>cases items; auto\<close>)
qed

text \<open>What the answer to a request must be.\<close>

definition unknown_method :: Value where
  "unknown_method = json_object [(''code'', Number (NegInt (- 32601))), (''message'', String ''Method not found'')]"

definition refused_edit :: Value where
  "refused_edit = json_object [(''applied'', Bool False), (''failureReason'', String ''srcmv selection is read-only'')]"

definition configuration_answer :: "SessionLibrary \<Rightarrow> SessionInput \<Rightarrow> Value option \<Rightarrow> Value \<Rightarrow> bool" where
  "configuration_answer lib input params result \<longleftrightarrow>
     (\<exists>items cs bs. Option.bind params (\<lambda>p. get_key p ''items'') = Some (Array items) \<and>
        length items \<le> sl_configuration_items (in_limits input) \<and>
        list_all2 (\<lambda>item c. configured_section (in_settings input) item = Ok c) items cs \<and>
        result = Array (map configured_value cs) \<and> js_to_vec (sb_json lib) result = Some bs \<and>
        length bs \<le> sl_configuration_response_bytes (in_limits input))"


text \<open>A printer with the law of arrays.\<close>

fun array_printer :: "Value \<Rightarrow> bytes" where
  "array_printer (Array vs) = replicate (2 + sum_list (map (\<lambda>v. length (array_printer v)) vs) + (length vs - 1)) 44"
| "array_printer v = [110, 117, 108, 108]"

definition printing_library :: SessionLibrary where
  "printing_library = null_library\<lparr>sb_json := \<lparr>js_from_slice = (\<lambda>_. None), js_to_vec = (\<lambda>v. Some (array_printer v))\<rparr>\<rparr>"

definition edit_request :: ServerRequest where
  "edit_request = \<lparr>sq_id = IntegerId 7, sq_method = ''workspace/applyEdit'', sq_params = None\<rparr>"


end
