(* ===== verification/Lsp_Process.thy ===== *)
theory Lsp_Process
  imports Lsp_Transport
begin

text \<open>
  The sequential parts of the supervision of a process (\<open>crates/srcmv-lsp/src/process.rs\<close>): the byte
  budgets of its queues, the bounded tail of its diagnostics, the precedence of its events, and the
  termination and cleanup of its process group. What the worker threads, the operating system and the clock
  do between the steps is an answer of the environment; the threads themselves are not modelled.
\<close>

section \<open>Byte budgets\<close>

record ByteBudget =
  bb_used :: nat
  bb_capacity :: nat

definition new_budget :: "nat \<Rightarrow> ByteBudget" where
  "new_budget capacity = \<lparr>bb_used = 0, bb_capacity = capacity\<rparr>"

definition reserve :: "nat \<Rightarrow> string \<Rightarrow> ByteBudget \<Rightarrow> ByteBudget \<times> (ProcessError + unit)" where
  "reserve n queue b =
     (case checked_add_u64 (bb_used b) n of
        Some following \<Rightarrow>
          if following \<le> bb_capacity b then (b\<lparr>bb_used := following\<rparr>, Ok ())
          else (b, Err (ByteCapacityExceeded queue n (bb_capacity b)))
      | None \<Rightarrow> (b, Err (ByteCapacityExceeded queue n (bb_capacity b))))"

definition release :: "nat \<Rightarrow> ByteBudget \<Rightarrow> ByteBudget" where
  "release n b = b\<lparr>bb_used := bb_used b - n\<rparr>"

text \<open>\<open>send_frame\<close> over the outcome of the bounded channel to the input worker.\<close>

definition queue_frame :: "(bytes \<Rightarrow> ProcessError + unit) \<Rightarrow> bytes \<Rightarrow> ByteBudget \<Rightarrow> ByteBudget \<times> (ProcessError + unit)" where
  "queue_frame send_input frame b =
     (case reserve (length frame) ''outbound'' b of
        (b, Err e) \<Rightarrow> (b, Err e)
      | (b, Ok _) \<Rightarrow>
          (case send_input frame of
             Err e \<Rightarrow> (release (length frame) b, Err e)
           | Ok _ \<Rightarrow> (b, Ok ())))"

lemma queue_frame_accounts:
  assumes "queue_frame send_input frame b = (b', r)" "bb_used b \<le> bb_capacity b"
  shows "bb_capacity b' = bb_capacity b \<and> bb_used b' \<le> bb_capacity b \<and>
    bb_used b' = bb_used b + (case r of Ok _ \<Rightarrow> length frame | Err _ \<Rightarrow> 0)"
  using assms
  by (auto simp: queue_frame_def reserve_def release_def checked_add_u64_def split: if_splits sum.splits option.splits)

section \<open>The diagnostics\<close>

record StderrTail =
  tail_bytes :: bytes
  tail_capacity :: nat

definition new_tail :: "nat \<Rightarrow> StderrTail" where
  "new_tail capacity = \<lparr>tail_bytes = [], tail_capacity = capacity\<rparr>"

definition append_tail :: "bytes \<Rightarrow> StderrTail \<Rightarrow> StderrTail" where
  "append_tail chunk s =
     (if tail_capacity s \<le> length chunk
      then s\<lparr>tail_bytes := drop (length chunk - tail_capacity s) chunk\<rparr>
      else
        let overflow = (length (tail_bytes s) + length chunk) - tail_capacity s in
        s\<lparr>tail_bytes := drop overflow (tail_bytes s) @ chunk\<rparr>)"

text \<open>The tail of everything that was written, however it was cut into chunks.\<close>

lemma append_tail_keeps_the_end:
  assumes "tail_bytes s = drop (length seen - tail_capacity s) seen"
  shows "tail_bytes (append_tail chunk s) = drop (length (seen @ chunk) - tail_capacity s) (seen @ chunk) \<and>
    tail_capacity (append_tail chunk s) = tail_capacity s"
proof (cases "tail_capacity s \<le> length chunk")
  case True
  then show ?thesis by (simp add: append_tail_def)
next
  case False
  then show ?thesis
    using assms by (cases "length seen \<le> tail_capacity s") (simp_all add: append_tail_def Let_def add.commute)
qed

lemma tail_of_chunks:
  "tail_bytes (fold append_tail chunks (new_tail n)) = drop (length (concat chunks) - n) (concat chunks)"
proof -
  have "tail_bytes (fold append_tail chunks s) = drop (length (seen @ concat chunks) - tail_capacity s) (seen @ concat chunks)"
    if "tail_bytes s = drop (length seen - tail_capacity s) seen" for s seen
    using that
  proof (induction chunks arbitrary: s seen)
    case (Cons chunk chunks)
    note kept = append_tail_keeps_the_end[OF Cons.prems, of chunk]
    show ?case using Cons.IH[of "append_tail chunk s" "seen @ chunk"] kept by simp
  qed simp
  from this[of "new_tail n" "[]"] show ?thesis by (simp add: new_tail_def)
qed

section \<open>Events\<close>

datatype Completion = ExitedCompletion ExitStatus | FaultCompletion ProcessFault | StdinClosedCompletion

datatype StdoutItem = StdoutBytes bytes | StdoutEnd

text \<open>
  What the orchestrator reads: the channels, the events it holds back, and the answers of \<open>try_wait\<close>
  (the child is running when they are used up; an error counts as running).
\<close>

record EventSource =
  es_completions :: "Completion list"
  es_stdout :: "StdoutItem list"
  es_pending_faults :: "ProcessFault list"
  es_pending_stdin_closed :: bool
  es_observed_status :: "ExitStatus option"
  es_exit_event_delivered :: bool
  es_inbound_budget :: ByteBudget
  es_try_wait :: "ExitStatus option list"

abbreviation is_resource_fault :: "ProcessFault \<Rightarrow> bool" where
  "is_resource_fault f \<equiv> is_resource_limit (pf_kind f)"

text \<open>The loop that empties the channel of completions; the last exit wins.\<close>

fun take_completions :: "Completion list \<Rightarrow> EventSource \<Rightarrow> ExitStatus option \<Rightarrow> EventSource \<times> ExitStatus option" where
  "take_completions [] s ready_exit = (s\<lparr>es_completions := []\<rparr>, ready_exit)"
| "take_completions (c # cs) s ready_exit =
     (case c of
        ExitedCompletion status \<Rightarrow> take_completions cs s (Some status)
      | StdinClosedCompletion \<Rightarrow> take_completions cs (s\<lparr>es_pending_stdin_closed := True\<rparr>) ready_exit
      | FaultCompletion fault \<Rightarrow>
          take_completions cs
            (s\<lparr>es_pending_faults :=
                 if is_resource_fault fault then fault # es_pending_faults s else es_pending_faults s @ [fault]\<rparr>)
            ready_exit)"

definition take_exit_event :: "ExitStatus \<Rightarrow> EventSource \<Rightarrow> EventSource \<times> ProcessEvent option" where
  "take_exit_event status s =
     (s\<lparr>es_exit_event_delivered := True\<rparr>, if es_exit_event_delivered s then None else Some (ExitedEvent status))"

definition refresh_child_status :: "EventSource \<Rightarrow> EventSource \<times> ExitStatus option" where
  "refresh_child_status s =
     (case es_observed_status s of
        Some status \<Rightarrow> (s, Some status)
      | None \<Rightarrow>
          (case es_try_wait s of
             [] \<Rightarrow> (s, None)
           | None # answers \<Rightarrow> (s\<lparr>es_try_wait := answers\<rparr>, None)
           | Some status # answers \<Rightarrow> (s\<lparr>es_try_wait := answers, es_observed_status := Some status\<rparr>, Some status)))"

text \<open>An exit event that a fresh look at the child allows.\<close>

definition exit_if_reaped :: "EventSource \<Rightarrow> EventSource \<times> ProcessEvent option" where
  "exit_if_reaped s =
     (case refresh_child_status s of
        (s, None) \<Rightarrow> (s, None)
      | (s, Some status) \<Rightarrow> take_exit_event status s)"

definition take_resource_fault :: "EventSource \<Rightarrow> EventSource \<times> ProcessEvent option" where
  "take_resource_fault s =
     (case es_pending_faults s of
        fault # faults \<Rightarrow>
          if is_resource_fault fault then (s\<lparr>es_pending_faults := faults\<rparr>, Some (FaultEvent fault)) else (s, None)
      | [] \<Rightarrow> (s, None))"

definition take_ready_exit :: "ExitStatus option \<Rightarrow> EventSource \<Rightarrow> EventSource \<times> ProcessEvent option" where
  "take_ready_exit ready_exit s =
     (case (case ready_exit of None \<Rightarrow> es_observed_status s | Some _ \<Rightarrow> ready_exit) of
        None \<Rightarrow> (s, None)
      | Some status \<Rightarrow> take_exit_event status s)"

definition take_stdin_closed :: "EventSource \<Rightarrow> EventSource \<times> ProcessEvent option" where
  "take_stdin_closed s =
     (if es_pending_stdin_closed s
      then
        (case exit_if_reaped s of
           (s, Some event) \<Rightarrow> (s, Some event)
         | (s, None) \<Rightarrow> (s\<lparr>es_pending_stdin_closed := False\<rparr>, Some StdinClosedEvent))
      else (s, None))"

definition take_io_fault :: "EventSource \<Rightarrow> EventSource \<times> ProcessEvent option" where
  "take_io_fault s =
     (case (if es_pending_faults s \<noteq> [] then exit_if_reaped s else (s, None)) of
        (s, Some event) \<Rightarrow> (s, Some event)
      | (s, None) \<Rightarrow>
          (case es_pending_faults s of
             [] \<Rightarrow> (s, None)
           | fault # faults \<Rightarrow> (s\<lparr>es_pending_faults := faults\<rparr>, Some (FaultEvent fault))))"

definition take_stdout :: "EventSource \<Rightarrow> EventSource \<times> ProcessEvent option" where
  "take_stdout s =
     (case es_stdout s of
        [] \<Rightarrow> (s, None)
      | StdoutBytes bs # items \<Rightarrow>
          (s\<lparr>es_stdout := items, es_inbound_budget := release (length bs) (es_inbound_budget s)\<rparr>, Some (StdoutEvent bs))
      | StdoutEnd # items \<Rightarrow>
          (case exit_if_reaped (s\<lparr>es_stdout := items\<rparr>) of
             (s, Some event) \<Rightarrow> (s, Some event)
           | (s, None) \<Rightarrow> (s, Some StdoutClosedEvent)))"

text \<open>The first of two that gives an event.\<close>

definition or_else :: "(EventSource \<Rightarrow> EventSource \<times> ProcessEvent option) \<Rightarrow> (EventSource \<Rightarrow> EventSource \<times> ProcessEvent option) \<Rightarrow>
    EventSource \<Rightarrow> EventSource \<times> ProcessEvent option" where
  "or_else f g s = (case f s of (s, Some event) \<Rightarrow> (s, Some event) | (s, None) \<Rightarrow> g s)"

definition take_event :: "EventSource \<Rightarrow> EventSource \<times> ProcessEvent option" where
  "take_event s =
     (case take_completions (es_completions s) s None of
        (s, ready_exit) \<Rightarrow>
          or_else take_resource_fault
            (or_else (take_ready_exit ready_exit)
              (or_else take_stdin_closed (or_else take_io_fault take_stdout))) s)"

section \<open>The precedence of events\<close>

definition ready_faults :: "EventSource \<Rightarrow> ProcessFault multiset" where
  "ready_faults s =
     mset (es_pending_faults s) + mset (concat (map (\<lambda>c. case c of FaultCompletion f \<Rightarrow> [f] | _ \<Rightarrow> []) (es_completions s)))"

definition exit_ready :: "EventSource \<Rightarrow> bool" where
  "exit_ready s \<longleftrightarrow> \<not> es_exit_event_delivered s \<and>
     (es_observed_status s \<noteq> None \<or> (\<exists>status. ExitedCompletion status \<in> set (es_completions s)))"

definition stdin_ready :: "EventSource \<Rightarrow> bool" where
  "stdin_ready s \<longleftrightarrow> es_pending_stdin_closed s \<or> StdinClosedCompletion \<in> set (es_completions s)"

definition resource_ready :: "EventSource \<Rightarrow> bool" where
  "resource_ready s \<longleftrightarrow> (\<exists>f. f \<in># ready_faults s \<and> is_resource_fault f)"

text \<open>Resource faults are held back in front of all others.\<close>

definition resources_first :: "ProcessFault list \<Rightarrow> bool" where
  "resources_first faults \<longleftrightarrow>
     (\<exists>resources others. faults = resources @ others \<and> (\<forall>f\<in>set resources. is_resource_fault f) \<and>
        (\<forall>f\<in>set others. \<not> is_resource_fault f))"

lemma resources_first_push:
  assumes "resources_first faults"
  shows "resources_first (if is_resource_fault f then f # faults else faults @ [f])"
proof -
  obtain resources others where *: "faults = resources @ others" "\<forall>f\<in>set resources. is_resource_fault f"
    "\<forall>f\<in>set others. \<not> is_resource_fault f"
    using assms by (auto simp: resources_first_def)
  show ?thesis
  proof (cases "is_resource_fault f")
    case True
    with * show ?thesis
      unfolding resources_first_def by (intro exI[of _ "f # resources"] exI[of _ others]) auto
  next
    case False
    with * show ?thesis
      unfolding resources_first_def by (intro exI[of _ resources] exI[of _ "others @ [f]"]) auto
  qed
qed

lemma resources_first_tl: "resources_first (f # faults) \<Longrightarrow> resources_first faults"
  unfolding resources_first_def by (metis append_Cons append_Nil list.set_intros(2) neq_Nil_conv list.inject)

lemma resources_first_hd:
  "resources_first (f # faults) \<Longrightarrow> \<not> is_resource_fault f \<Longrightarrow> g \<in> set faults \<Longrightarrow> \<not> is_resource_fault g"
  unfolding resources_first_def by (auto simp: Cons_eq_append_conv)

lemma take_completions_effect:
  assumes "take_completions cs s ready_exit = (s', ready_exit')" "resources_first (es_pending_faults s)"
  shows "es_completions s' = [] \<and> resources_first (es_pending_faults s') \<and>
    mset (es_pending_faults s') = mset (es_pending_faults s) + mset (concat (map (\<lambda>c. case c of FaultCompletion f \<Rightarrow> [f] | _ \<Rightarrow> []) cs)) \<and>
    (es_pending_stdin_closed s' \<longleftrightarrow> es_pending_stdin_closed s \<or> StdinClosedCompletion \<in> set cs) \<and>
    (ready_exit' \<noteq> None \<longleftrightarrow> ready_exit \<noteq> None \<or> (\<exists>status. ExitedCompletion status \<in> set cs)) \<and>
    es_stdout s' = es_stdout s \<and> es_observed_status s' = es_observed_status s \<and>
    es_exit_event_delivered s' = es_exit_event_delivered s"
  using assms
proof (induction cs s ready_exit rule: take_completions.induct)
  case (2 c cs s ready_exit)
  show ?case
  proof (cases c)
    case (ExitedCompletion status)
    then show ?thesis using 2(1)[OF ExitedCompletion] 2(4,5) by auto
  next
    case (FaultCompletion fault)
    have "resources_first (if is_resource_fault fault then fault # es_pending_faults s else es_pending_faults s @ [fault])"
      by (rule resources_first_push) (rule 2(5))
    then show ?thesis using 2(2)[OF FaultCompletion] 2(4) FaultCompletion by (auto split: if_splits)
  next
    case StdinClosedCompletion
    then show ?thesis using 2(3)[OF StdinClosedCompletion] 2(4,5) by auto
  qed
qed auto

lemma exit_if_reaped_effect:
  assumes "exit_if_reaped s = (s', r)"
  shows "es_completions s' = es_completions s \<and> es_pending_faults s' = es_pending_faults s \<and>
    es_pending_stdin_closed s' = es_pending_stdin_closed s \<and> es_stdout s' = es_stdout s \<and>
    (es_exit_event_delivered s \<longrightarrow> es_exit_event_delivered s' \<and> r = None) \<and>
    (\<forall>event. r = Some event \<longrightarrow> es_exit_event_delivered s' \<and> (\<exists>status. event = ExitedEvent status))"
  using assms
  by (auto simp: exit_if_reaped_def refresh_child_status_def take_exit_event_def split: option.splits list.splits if_splits)

text \<open>The steps below the exit.\<close>

lemma lower_events:
  assumes r: "or_else take_stdin_closed (or_else take_io_fault take_stdout) s = (s', r)"
    and s: "es_completions s = []" "resources_first (es_pending_faults s)"
  shows "resources_first (es_pending_faults s') \<and> es_completions s' = [] \<and>
    mset (es_pending_faults s) = ready_faults s' + (case r of Some (FaultEvent f) \<Rightarrow> {#f#} | _ \<Rightarrow> {#}) \<and>
    (es_exit_event_delivered s \<longrightarrow> es_exit_event_delivered s' \<and> (\<forall>status. r \<noteq> Some (ExitedEvent status))) \<and>
    (case r of
       Some (FaultEvent f) \<Rightarrow> \<not> es_pending_stdin_closed s
     | Some (ExitedEvent status) \<Rightarrow> es_exit_event_delivered s'
     | Some StdinClosedEvent \<Rightarrow> es_pending_stdin_closed s
     | Some (StdoutEvent bs) \<Rightarrow>
         es_pending_faults s = [] \<and> \<not> es_pending_stdin_closed s \<and> es_stdout s = StdoutBytes bs # es_stdout s'
     | Some StdoutClosedEvent \<Rightarrow>
         es_pending_faults s = [] \<and> \<not> es_pending_stdin_closed s \<and> es_stdout s = StdoutEnd # es_stdout s'
     | None \<Rightarrow> es_pending_faults s = [] \<and> \<not> es_pending_stdin_closed s \<and> es_stdout s = [])"
proof (cases "es_pending_stdin_closed s")
  case True
  obtain s1 found where x: "exit_if_reaped s = (s1, found)" by fastforce
  show ?thesis
    using r s True x exit_if_reaped_effect[OF x]
    by (cases found) (auto simp: or_else_def take_stdin_closed_def ready_faults_def)
next
  case open_stdin: False
  show ?thesis
  proof (cases "es_pending_faults s")
    case (Cons f fs)
    obtain s1 found where x: "exit_if_reaped s = (s1, found)" by fastforce
    show ?thesis
      using r s open_stdin Cons x exit_if_reaped_effect[OF x] resources_first_tl[of f fs]
      by (cases found) (auto simp: or_else_def take_stdin_closed_def take_io_fault_def ready_faults_def)
  next
    case Nil
    then have out: "take_stdout s = (s', r)"
      using r open_stdin by (auto simp: or_else_def take_stdin_closed_def take_io_fault_def)
    show ?thesis
    proof (cases "es_stdout s")
      case (Cons item items)
      show ?thesis
      proof (cases item)
        case StdoutEnd
        obtain s1 found where x: "exit_if_reaped (s\<lparr>es_stdout := items\<rparr>) = (s1, found)" by fastforce
        show ?thesis
          using out s open_stdin Nil Cons StdoutEnd x exit_if_reaped_effect[OF x]
          by (cases found) (auto simp: take_stdout_def ready_faults_def)
      qed (use out s open_stdin Nil Cons in \<open>auto simp: take_stdout_def ready_faults_def\<close>)
    qed (use out s open_stdin Nil in \<open>auto simp: take_stdout_def ready_faults_def\<close>)
  qed
qed

text \<open>
  C39: Ready events are delivered by precedence, and no fault is lost. A call gives a resource fault if
  one is ready, else the exit of the child if it is known and was not delivered, else the closing of stdin,
  then other faults and last the output, whose chunks keep their order; at any of these points below the
  first the exit may be found and takes the place. The exit is delivered at most once. Every fault that was
  reported is either the event or still held back, and nothing is given only when nothing is ready.
\<close>

theorem ready_events_follow_precedence:
  assumes "take_event s = (s', r)" "resources_first (es_pending_faults s)"
  shows "resources_first (es_pending_faults s') \<and> es_completions s' = [] \<and>
    ready_faults s = ready_faults s' + (case r of Some (FaultEvent f) \<Rightarrow> {#f#} | _ \<Rightarrow> {#}) \<and>
    (es_exit_event_delivered s \<longrightarrow> es_exit_event_delivered s' \<and> (\<forall>status. r \<noteq> Some (ExitedEvent status))) \<and>
    (case r of
       Some (FaultEvent f) \<Rightarrow> is_resource_fault f \<or> \<not> resource_ready s \<and> \<not> exit_ready s \<and> \<not> stdin_ready s
     | Some (ExitedEvent status) \<Rightarrow> \<not> resource_ready s \<and> es_exit_event_delivered s'
     | Some StdinClosedEvent \<Rightarrow> \<not> resource_ready s \<and> \<not> exit_ready s \<and> stdin_ready s
     | Some (StdoutEvent bs) \<Rightarrow>
         ready_faults s = {#} \<and> \<not> exit_ready s \<and> \<not> stdin_ready s \<and> es_stdout s = StdoutBytes bs # es_stdout s'
     | Some StdoutClosedEvent \<Rightarrow>
         ready_faults s = {#} \<and> \<not> exit_ready s \<and> \<not> stdin_ready s \<and> es_stdout s = StdoutEnd # es_stdout s'
     | None \<Rightarrow> ready_faults s = {#} \<and> \<not> exit_ready s \<and> \<not> stdin_ready s \<and> es_stdout s = [])"
proof -
  obtain s1 ready_exit where taken: "take_completions (es_completions s) s None = (s1, ready_exit)" by fastforce
  note e = take_completions_effect[OF taken assms(2)]
  have faults: "ready_faults s = mset (es_pending_faults s1)" using e by (simp add: ready_faults_def)
  have resources: "resource_ready s \<longleftrightarrow> (\<exists>f\<in>set (es_pending_faults s1). is_resource_fault f)"
    unfolding resource_ready_def faults by auto
  have exits: "exit_ready s \<longleftrightarrow> \<not> es_exit_event_delivered s1 \<and> (es_observed_status s1 \<noteq> None \<or> ready_exit \<noteq> None)"
    using e unfolding exit_ready_def by metis
  have stdin: "stdin_ready s \<longleftrightarrow> es_pending_stdin_closed s1" using e by (simp add: stdin_ready_def)
  note ready = resources exits stdin
  have r: "or_else take_resource_fault (or_else (take_ready_exit ready_exit)
      (or_else take_stdin_closed (or_else take_io_fault take_stdout))) s1 = (s', r)"
    using assms(1) taken by (simp add: take_event_def)
  show ?thesis
  proof (cases "\<exists>f fs. es_pending_faults s1 = f # fs \<and> is_resource_fault f")
    case True
    then obtain f fs where f: "es_pending_faults s1 = f # fs" "is_resource_fault f" by blast
    have "s' = s1\<lparr>es_pending_faults := fs\<rparr>" "r = Some (FaultEvent f)"
      using r f by (auto simp: or_else_def take_resource_fault_def)
    then show ?thesis using e f resources_first_tl[of f fs] by (simp add: faults) (simp add: ready_faults_def)
  next
    case False
    then have calm: "\<not> resource_ready s"
      using e resources_first_hd by (cases "es_pending_faults s1") (auto simp: ready(1))
    have none: "take_resource_fault s1 = (s1, None)"
      using False by (auto simp: take_resource_fault_def split: list.split)
    show ?thesis
    proof (cases "exit_ready s")
      case True
      then obtain status where "s' = s1\<lparr>es_exit_event_delivered := True\<rparr>" "r = Some (ExitedEvent status)"
        using r none by (auto simp: or_else_def take_ready_exit_def take_exit_event_def ready(2) split: option.splits)
      moreover have "\<not> es_exit_event_delivered s" using True by (simp add: exit_ready_def)
      ultimately show ?thesis using e calm by (simp add: faults) (simp add: ready_faults_def)
    next
      case quiet: False
      have "take_ready_exit ready_exit s1 = (s1, None)"
        using quiet by (cases s1) (auto simp: ready(2) take_ready_exit_def take_exit_event_def split: option.splits)
      then have r: "or_else take_stdin_closed (or_else take_io_fault take_stdout) s1 = (s', r)"
        using r none by (simp add: or_else_def[of take_resource_fault] or_else_def[of "take_ready_exit ready_exit"])
      have s1: "es_completions s1 = []" "resources_first (es_pending_faults s1)"
        "es_exit_event_delivered s1 = es_exit_event_delivered s" "es_stdout s1 = es_stdout s"
        using e by simp_all
      have "is_resource_fault f \<longrightarrow> f \<notin> set (es_pending_faults s1)" for f using calm by (auto simp: resources)
      then show ?thesis
        using lower_events[OF r s1(1,2)] calm quiet s1(3,4)
        by (auto simp: faults stdin split: option.splits ProcessEvent.splits)
    qed
  qed
qed

section \<open>Ending the process\<close>

text \<open>
  The clock of the cleanup. When its ticks are used up, every look at it advances it by one, so that every
  wait of the source, whose sleeps last, ends at its deadline.
\<close>

record Clock =
  ck_now :: nat
  ck_ticks :: "nat list"

definition clock_now :: "Clock \<Rightarrow> Clock \<times> nat" where
  "clock_now k =
     (case ck_ticks k of
        [] \<Rightarrow> (k\<lparr>ck_now := ck_now k + 1\<rparr>, ck_now k + 1)
      | tick # ticks \<Rightarrow> (k\<lparr>ck_now := ck_now k + tick, ck_ticks := ticks\<rparr>, ck_now k + tick))"

datatype CleanupCall = Signalled bool | GroupGone | WorkersJoined

text \<open>
  The supervised process during cleanup: the stdin channel, the cancellation flag, the status observed,
  whether the workers are known to have finished, and a log; then the answers of the environment, look by look:
  what the status worker reports, \<open>try_wait\<close>, whether the process group is gone, whether all workers have
  finished, and the first worker whose join fails. Answers that are used up are negative.
\<close>

record Supervision =
  su_input_open :: bool
  su_cancelling :: bool
  su_observed :: "ExitStatus option"
  su_finished :: bool
  su_joined :: bool
  su_log :: "CleanupCall list"
  su_reports :: "ExitStatus option list"
  su_try_wait :: "ExitStatus option list"
  su_group_gone :: "bool list"
  su_workers_finished :: "bool list"
  su_panicked :: "ProcessWorker option"

type_synonym supervised = "Clock \<times> Supervision"

text \<open>The loop that all waits have: look, return what was found, give up at the deadline, sleep.\<close>

function poll_until :: "(Supervision \<Rightarrow> Supervision \<times> 'a option) \<Rightarrow> nat \<Rightarrow> supervised \<Rightarrow> supervised \<times> 'a option" where
  "poll_until look deadline (k, s) =
     (case look s of
        (s, Some a) \<Rightarrow> ((k, s), Some a)
      | (s, None) \<Rightarrow>
          (case clock_now k of
             (k, now) \<Rightarrow> if now < deadline then poll_until look deadline (k, s) else ((k, s), None)))"
  by pat_completeness auto
termination
  by (relation "measures [\<lambda>(_, _, k, _). length (ck_ticks k), \<lambda>(_, deadline, k, _). deadline - ck_now k]")
    (auto simp: clock_now_def split: list.splits)

declare poll_until.simps [simp del]

definition midpoint_deadline :: "nat \<Rightarrow> supervised \<Rightarrow> supervised \<times> nat" where
  "midpoint_deadline deadline = (\<lambda>(k, s).
     case clock_now k of (k, now) \<Rightarrow> ((k, s), now + (deadline - now) div 2))"

definition bounded_grace_deadline :: "nat \<Rightarrow> nat \<Rightarrow> supervised \<Rightarrow> supervised \<times> nat" where
  "bounded_grace_deadline deadline maximum_grace = (\<lambda>(k, s).
     case clock_now k of (k, now) \<Rightarrow> ((k, s), now + min (deadline - now) maximum_grace))"

text \<open>The looks.\<close>

definition look_status :: "Supervision \<Rightarrow> Supervision \<times> ExitStatus option" where
  "look_status s =
     (case su_observed s of
        Some status \<Rightarrow> (s, Some status)
      | None \<Rightarrow>
          (case su_reports s of
             [] \<Rightarrow> (s, None)
           | report # reports \<Rightarrow> (s\<lparr>su_observed := report, su_reports := reports\<rparr>, report)))"

definition look_reaped :: "Supervision \<Rightarrow> Supervision \<times> ExitStatus option" where
  "look_reaped s =
     (case look_status s of
        (s, Some status) \<Rightarrow> (s, Some status)
      | (s, None) \<Rightarrow>
          (case su_try_wait s of
             [] \<Rightarrow> (s, None)
           | reply # replies \<Rightarrow> (s\<lparr>su_observed := reply, su_try_wait := replies\<rparr>, reply)))"

definition look_group :: "Supervision \<Rightarrow> Supervision \<times> unit option" where
  "look_group s =
     (case su_group_gone s of
        [] \<Rightarrow> (s, None)
      | True # answers \<Rightarrow> (s\<lparr>su_group_gone := answers, su_log := su_log s @ [GroupGone]\<rparr>, Some ())
      | False # answers \<Rightarrow> (s\<lparr>su_group_gone := answers\<rparr>, None))"

text \<open>A worker that has finished stays so.\<close>

definition look_workers :: "Supervision \<Rightarrow> Supervision \<times> bool" where
  "look_workers s =
     (if su_finished s then (s, True)
      else
        case su_workers_finished s of
          [] \<Rightarrow> (s, False)
        | reply # replies \<Rightarrow> (s\<lparr>su_finished := reply, su_workers_finished := replies\<rparr>, reply))"

definition look_cleanup :: "Supervision \<Rightarrow> Supervision \<times> unit option" where
  "look_cleanup s =
     (case look_workers s of
        (s, workers_finished) \<Rightarrow>
          (case look_group s of (s, gone) \<Rightarrow> (s, if workers_finished then gone else None)))"

text \<open>Joining takes all handles; the first that panicked is the error.\<close>

definition look_join :: "Supervision \<Rightarrow> Supervision \<times> (ProcessError + unit) option" where
  "look_join s =
     (case look_workers s of
        (s, False) \<Rightarrow> (s, None)
      | (s, True) \<Rightarrow>
          (s\<lparr>su_joined := True, su_log := su_log s @ [WorkersJoined]\<rparr>,
           Some (case su_panicked s of None \<Rightarrow> Ok () | Some worker \<Rightarrow> Err (WorkerPanicked worker))))"

section \<open>The cleanup\<close>

definition on_supervision :: "(Supervision \<Rightarrow> Supervision) \<Rightarrow> supervised \<Rightarrow> supervised" where
  "on_supervision f = (\<lambda>(k, s). (k, f s))"

definition drop_input :: "Supervision \<Rightarrow> Supervision" where
  "drop_input s = s\<lparr>su_input_open := False\<rparr>"

definition start_cancelling :: "Supervision \<Rightarrow> Supervision" where
  "start_cancelling s = s\<lparr>su_cancelling := True\<rparr>"

definition terminate_child :: "bool \<Rightarrow> Supervision \<Rightarrow> Supervision" where
  "terminate_child force s = s\<lparr>su_log := su_log s @ [Signalled force]\<rparr>"

definition join_workers_until :: "nat \<Rightarrow> supervised \<Rightarrow> supervised \<times> (ProcessError + unit)" where
  "join_workers_until deadline x =
     (case poll_until look_join deadline (on_supervision (drop_input \<circ> start_cancelling) x) of
        (x, Some r) \<Rightarrow> (x, r)
      | (x, None) \<Rightarrow> (x, Err CleanupDeadlineExceeded))"

definition wait_for_cleanup :: "nat \<Rightarrow> supervised \<Rightarrow> supervised \<times> (ProcessError + unit)" where
  "wait_for_cleanup deadline x =
     (case poll_until look_cleanup deadline x of
        (x, Some _) \<Rightarrow> join_workers_until deadline x
      | (x, None) \<Rightarrow> (x, Err CleanupDeadlineExceeded))"

definition reap_after_termination :: "nat \<Rightarrow> supervised \<Rightarrow> supervised \<times> ExitStatus option" where
  "reap_after_termination = poll_until look_reaped"

definition wait_for_status :: "nat \<Rightarrow> supervised \<Rightarrow> supervised \<times> ExitStatus option" where
  "wait_for_status = poll_until look_status"

definition wait_for_process_group_exit :: "nat \<Rightarrow> supervised \<Rightarrow> supervised \<times> bool" where
  "wait_for_process_group_exit deadline x =
     (case poll_until look_group deadline x of (x, gone) \<Rightarrow> (x, gone \<noteq> None))"

definition DESCENDANT_TERM_GRACE :: nat where "DESCENDANT_TERM_GRACE = 100"

text \<open>Ask the group to end, give it the grace, then force it.\<close>

definition end_group :: "nat \<Rightarrow> supervised \<Rightarrow> supervised" where
  "end_group cleanup_deadline x =
     (case bounded_grace_deadline cleanup_deadline DESCENDANT_TERM_GRACE (on_supervision (terminate_child False) x) of
        (x, term_deadline) \<Rightarrow>
          (case wait_for_process_group_exit term_deadline x of
             (x, gone) \<Rightarrow> if gone then x else on_supervision (terminate_child True) x))"

definition cleaned :: "ExitStatus \<Rightarrow> supervised \<times> (ProcessError + unit) \<Rightarrow> supervised \<times> (ProcessError + ExitStatus)" where
  "cleaned status = (\<lambda>(x, r). (x, and_then r (\<lambda>_. Ok status)))"

definition finalize_after_exit :: "ExitStatus \<Rightarrow> nat \<Rightarrow> supervised \<Rightarrow> supervised \<times> (ProcessError + ExitStatus)" where
  "finalize_after_exit status cleanup_deadline x =
     cleaned status
       (wait_for_cleanup cleanup_deadline
         (end_group cleanup_deadline (on_supervision (start_cancelling \<circ> drop_input) x)))"

text \<open>Closing stdin waits, at most until its deadline, before the channel is dropped; the clock accounts for it.\<close>

definition finish_process :: "nat \<Rightarrow> nat \<Rightarrow> supervised \<Rightarrow> supervised \<times> (ProcessError + ExitStatus)" where
  "finish_process graceful_deadline cleanup_deadline x =
     (case wait_for_status graceful_deadline (on_supervision drop_input x) of
        (x, Some status) \<Rightarrow> finalize_after_exit status cleanup_deadline x
      | (x, None) \<Rightarrow>
          (case midpoint_deadline cleanup_deadline (on_supervision (terminate_child False) x) of
             (x, term_deadline) \<Rightarrow>
               (case wait_for_status term_deadline x of
                  (x, Some status) \<Rightarrow> finalize_after_exit status cleanup_deadline x
                | (x, None) \<Rightarrow>
                    (case midpoint_deadline cleanup_deadline (on_supervision (terminate_child True \<circ> start_cancelling) x) of
                       (x, reap_deadline) \<Rightarrow>
                         (case reap_after_termination reap_deadline x of
                            (x, Some status) \<Rightarrow> cleaned status (wait_for_cleanup cleanup_deadline x)
                          | (x, None) \<Rightarrow> (x, Err CleanupDeadlineExceeded))))))"

definition abort_process :: "nat \<Rightarrow> supervised \<Rightarrow> supervised \<times> (ProcessError + ExitStatus)" where
  "abort_process cleanup_deadline x =
     (case midpoint_deadline cleanup_deadline (end_group cleanup_deadline (on_supervision (start_cancelling \<circ> drop_input) x)) of
        (x, reap_deadline) \<Rightarrow>
          (case reap_after_termination reap_deadline x of
             (x, None) \<Rightarrow> (x, Err CleanupDeadlineExceeded)
           | (x, Some status) \<Rightarrow> cleaned status (wait_for_cleanup cleanup_deadline x)))"

section \<open>The cleanup is confirmed\<close>

definition signals :: "CleanupCall list \<Rightarrow> CleanupCall list" where
  "signals log = filter (\<lambda>c. \<exists>force. c = Signalled force) log"

lemma signals_simps [simp]:
  "signals [] = []" "signals (log @ log') = signals log @ signals log'" "signals (Signalled force # log) = Signalled force # signals log"
  "signals [GroupGone] = []" "signals [WorkersJoined] = []"
  by (simp_all add: signals_def)

text \<open>A look changes no decision: a status that is known stays known, and only observations are logged.\<close>

definition only_looked :: "Supervision \<Rightarrow> Supervision \<Rightarrow> bool" where
  "only_looked s s' \<longleftrightarrow>
     su_input_open s' = su_input_open s \<and> su_cancelling s' = su_cancelling s \<and>
     (su_observed s \<noteq> None \<longrightarrow> su_observed s' = su_observed s) \<and>
     (\<exists>seen. su_log s' = su_log s @ seen \<and> signals seen = [])"

lemma only_looked_refl [simp]: "only_looked s s"
  by (auto simp: only_looked_def intro: exI[of _ "[]"])

lemma only_looked_trans:
  assumes "only_looked s s'" "only_looked s' s''"
  shows "only_looked s s''"
proof -
  obtain seen seen' where "su_log s' = su_log s @ seen" "signals seen = []" "su_log s'' = su_log s' @ seen'" "signals seen' = []"
    using assms by (auto simp: only_looked_def)
  then have "\<exists>all. su_log s'' = su_log s @ all \<and> signals all = []" by (intro exI[of _ "seen @ seen'"]) simp
  then show ?thesis using assms by (auto simp: only_looked_def)
qed

lemma poll_until_looked:
  assumes "\<And>s s' r. look s = (s', r) \<Longrightarrow> only_looked s s'" "poll_until look deadline (k, s) = ((k', s'), r)"
  shows "only_looked s s' \<and> (case r of None \<Rightarrow> True | Some a \<Rightarrow> \<exists>s0. only_looked s s0 \<and> look s0 = (s', Some a))"
  using assms
proof (induction look deadline "(k, s)" arbitrary: k s rule: poll_until.induct)
  case (1 look deadline k s)
  obtain s1 found where l: "look s = (s1, found)" by fastforce
  obtain k1 now where n: "clock_now k = (k1, now)" by fastforce
  have s1: "only_looked s s1" by (rule "1.prems"(1)[OF l])
  show ?case
  proof (cases "found = None \<and> now < deadline")
    case True
    have "poll_until look deadline (k1, s1) = ((k', s'), r)"
      using "1.prems"(2) l n True by (simp add: poll_until.simps[of look deadline k s])
    with "1.hyps"[OF l[symmetric] _ n[symmetric]] True "1.prems"(1)
    have "only_looked s1 s' \<and> (case r of None \<Rightarrow> True | Some a \<Rightarrow> \<exists>s0. only_looked s1 s0 \<and> look s0 = (s', Some a))" by blast
    then show ?thesis using only_looked_trans[OF s1] by (cases r) auto
  next
    case False
    then have "s' = s1 \<and> r = found"
      using "1.prems"(2) l n by (cases found) (auto simp: poll_until.simps[of look deadline k s])
    then show ?thesis using s1 l by (cases found) (auto intro!: exI[of _ s])
  qed
qed

lemma looks:
  "look_status s = (s', st) \<Longrightarrow> only_looked s s'" "look_reaped s = (s', st) \<Longrightarrow> only_looked s s'"
  "look_group s = (s', gone) \<Longrightarrow> only_looked s s'" "look_workers s = (s', finished) \<Longrightarrow> only_looked s s'"
  "look_cleanup s = (s', gone) \<Longrightarrow> only_looked s s'" "look_join s = (s', joined) \<Longrightarrow> only_looked s s'"
proof -
  show status: "only_looked s s'" if "look_status s = (s', st)" for s s' st
    using that by (auto simp: look_status_def only_looked_def split: option.splits list.splits)
  show "only_looked s s'" if reaped: "look_reaped s = (s', st)"
  proof -
    obtain s1 st1 where l: "look_status s = (s1, st1)" by fastforce
    have "su_observed s = None" if "st1 = None"
      using l that by (auto simp: look_status_def split: option.splits)
    then have "only_looked s1 s'" if "st1 = None" "su_observed s1 = None"
      using reaped l that by (auto simp: look_reaped_def only_looked_def split: list.splits)
    moreover have "su_observed s1 = None" if "st1 = None"
      using l that by (auto simp: look_status_def split: option.splits list.splits)
    ultimately show ?thesis
      using only_looked_trans[OF status[OF l]] reaped l by (cases st1) (auto simp: look_reaped_def)
  qed
  show group: "only_looked s s'" if "look_group s = (s', gone)" for s s' gone
    using that by (auto simp: look_group_def only_looked_def split: list.splits bool.splits)
  show workers: "only_looked s s'" if "look_workers s = (s', finished)" for s s' finished
    using that by (auto simp: look_workers_def only_looked_def split: list.splits if_splits)
  show "only_looked s s'" if "look_cleanup s = (s', gone)"
    using that workers group only_looked_trans by (fastforce simp: look_cleanup_def split: prod.splits)
  show "only_looked s s'" if "look_join s = (s', joined)"
  proof -
    obtain s1 b where l: "look_workers s = (s1, b)" by fastforce
    have "only_looked s1 s'" using that l by (cases b) (auto simp: look_join_def only_looked_def)
    then show ?thesis by (rule only_looked_trans[OF workers[OF l]])
  qed
qed

lemma wait_for_cleanup_effect:
  assumes "wait_for_cleanup deadline (k, s) = ((k', s'), r)" "\<not> su_input_open s" "su_cancelling s"
  shows "only_looked s s' \<and>
    (r = Err CleanupDeadlineExceeded \<or>
      su_joined s' \<and> (\<exists>log. su_log s' = log @ [GroupGone, WorkersJoined]) \<and> (r = Ok () \<or> (\<exists>worker. r = Err (WorkerPanicked worker))))"
proof -
  obtain k1 s1 found where p: "poll_until look_cleanup deadline (k, s) = ((k1, s1), found)" by (metis prod.exhaust)
  have l: "only_looked s s1 \<and> (case found of None \<Rightarrow> True | Some a \<Rightarrow> \<exists>s0. only_looked s s0 \<and> look_cleanup s0 = (s1, Some a))"
    by (rule poll_until_looked[OF _ p]) (rule looks(5))
  show ?thesis
  proof (cases found)
    case None
    then show ?thesis using assms p l by (simp add: wait_for_cleanup_def)
  next
    case (Some u)
    obtain s0 where s0: "look_cleanup s0 = (s1, Some u)" using l Some by auto
    then have done_: "su_finished s1" "\<exists>log. su_log s1 = log @ [GroupGone]"
      by (auto simp: look_cleanup_def look_workers_def look_group_def split: prod.splits if_splits list.splits bool.splits)
    have same: "(drop_input \<circ> start_cancelling) s1 = s1"
      using l assms(2,3) by (cases s1) (simp add: only_looked_def drop_input_def start_cancelling_def)
    obtain k2 s2 joined where j: "poll_until look_join deadline (k1, s1) = ((k2, s2), joined)" by (metis prod.exhaust)
    have "joined = Some (case su_panicked s1 of None \<Rightarrow> Ok () | Some worker \<Rightarrow> Err (WorkerPanicked worker))"
      "s2 = s1\<lparr>su_joined := True, su_log := su_log s1 @ [WorkersJoined]\<rparr>"
      using j done_(1) by (auto simp: poll_until.simps look_join_def look_workers_def)
    moreover have "s' = s2" "joined = Some r"
      using assms(1) p Some j same calculation
      by (auto simp: wait_for_cleanup_def join_workers_until_def on_supervision_def)
    ultimately show ?thesis
      using l only_looked_trans[of s s1 s2] done_(2)
      by (auto simp: only_looked_def split: option.splits)
  qed
qed

lemma clock_steps:
  "midpoint_deadline deadline (k, s) = ((k', s'), d) \<Longrightarrow> s' = s"
  "bounded_grace_deadline deadline grace (k, s) = ((k', s'), d) \<Longrightarrow> s' = s"
  by (auto simp: midpoint_deadline_def bounded_grace_deadline_def split: prod.splits)

text \<open>What ending the group does to the log.\<close>

lemma end_group_effect:
  assumes "end_group deadline (k, s) = (k', s')"
  shows "su_input_open s' = su_input_open s \<and> su_cancelling s' = su_cancelling s \<and>
    (su_observed s \<noteq> None \<longrightarrow> su_observed s' = su_observed s) \<and>
    (\<exists>log. su_log s' = su_log s @ log \<and>
      (signals log = [Signalled False] \<and> GroupGone \<in> set log \<or> signals log = [Signalled False, Signalled True]))"
proof -
  obtain k1 s1 d where b: "bounded_grace_deadline deadline DESCENDANT_TERM_GRACE (k, terminate_child False s) = ((k1, s1), d)"
    by (metis prod.exhaust)
  obtain k2 s2 found where p: "poll_until look_group d (k1, s1) = ((k2, s2), found)" by (metis prod.exhaust)
  have s1: "s1 = terminate_child False s" by (rule clock_steps(2)[OF b])
  have l: "only_looked s1 s2 \<and> (case found of None \<Rightarrow> True | Some a \<Rightarrow> \<exists>s0. only_looked s1 s0 \<and> look_group s0 = (s2, Some a))"
    by (rule poll_until_looked[OF _ p]) (rule looks(3))
  obtain seen where seen: "su_log s2 = su_log s1 @ seen" "signals seen = []" using l by (auto simp: only_looked_def)
  have s': "s' = (if found = None then terminate_child True s2 else s2)"
    using assms b p by (auto simp: end_group_def on_supervision_def wait_for_process_group_exit_def)
  show ?thesis
  proof (cases found)
    case None
    then have "su_log s' = su_log s @ ([Signalled False] @ seen @ [Signalled True])"
      using s' s1 seen by (simp add: terminate_child_def)
    moreover have "signals ([Signalled False] @ seen @ [Signalled True]) = [Signalled False, Signalled True]"
      by (simp only: signals_simps seen(2)) simp
    ultimately show ?thesis
      using None s' s1 l by (auto simp: terminate_child_def only_looked_def)
  next
    case (Some u)
    then obtain s0 seen0 where s0: "look_group s0 = (s2, Some u)" "su_log s0 = su_log s1 @ seen0" "signals seen0 = []"
      using l by (auto simp: only_looked_def)
    then have "su_log s2 = su_log s1 @ seen0 @ [GroupGone]"
      by (auto simp: look_group_def split: list.splits bool.splits)
    then have "su_log s' = su_log s @ ([Signalled False] @ seen0 @ [GroupGone])"
      using s' s1 Some by (simp add: terminate_child_def)
    moreover have "signals ([Signalled False] @ seen0 @ [GroupGone]) = [Signalled False]"
      by (simp only: signals_simps s0(3)) simp
    ultimately show ?thesis
      using Some s' s1 l by (auto simp: terminate_child_def only_looked_def)
  qed
qed

definition cleanup_confirmed :: "Supervision \<Rightarrow> ProcessError + ExitStatus \<Rightarrow> bool" where
  "cleanup_confirmed s r \<longleftrightarrow>
     (case r of
        Ok status \<Rightarrow> su_observed s = Some status \<and> su_joined s \<and> (\<exists>log. su_log s = log @ [GroupGone, WorkersJoined])
      | Err e \<Rightarrow>
          e = CleanupDeadlineExceeded \<and> (Signalled True \<in> set (su_log s) \<or> GroupGone \<in> set (su_log s)) \<or>
          (\<exists>worker. e = WorkerPanicked worker) \<and> su_joined s \<and> (\<exists>log. su_log s = log @ [GroupGone, WorkersJoined]))"

lemma cleaned_confirmed:
  assumes "cleaned status (wait_for_cleanup deadline (k, s)) = ((k', s'), r)"
    and "\<not> su_input_open s" "su_cancelling s" "su_observed s = Some status"
    and "Signalled True \<in> set (su_log s) \<or> GroupGone \<in> set (su_log s)"
  shows "cleanup_confirmed s' r \<and> only_looked s s'"
proof -
  obtain k1 s1 r1 where w: "wait_for_cleanup deadline (k, s) = ((k1, s1), r1)" by (metis prod.exhaust)
  have eq: "s' = s1" "r = and_then r1 (\<lambda>_. Ok status)" using assms(1) w by (auto simp: cleaned_def)
  note e = wait_for_cleanup_effect[OF w assms(2,3)]
  then have "Signalled True \<in> set (su_log s1) \<or> GroupGone \<in> set (su_log s1)" "su_observed s1 = Some status"
    using assms(4,5) by (auto simp: only_looked_def)
  then show ?thesis using e eq by (auto simp: cleanup_confirmed_def)
qed

definition escalated :: "CleanupCall list \<Rightarrow> bool" where
  "escalated log \<longleftrightarrow> signals log \<in>
     {[Signalled False], [Signalled False, Signalled True], [Signalled False, Signalled False],
      [Signalled False, Signalled False, Signalled True]}"

lemma in_signals: "Signalled force \<in> set (signals log) \<longleftrightarrow> Signalled force \<in> set log"
  by (auto simp: signals_def)

lemma finalize_effect:
  assumes "finalize_after_exit status deadline (k, s) = ((k', s'), r)" "su_observed s = Some status"
  shows "cleanup_confirmed s' r \<and> \<not> su_input_open s' \<and> su_cancelling s' \<and>
    (\<exists>log. su_log s' = su_log s @ log \<and> signals log \<in> {[Signalled False], [Signalled False, Signalled True]})"
proof -
  let ?s = "start_cancelling (drop_input s)"
  obtain k1 s1 where g: "end_group deadline (k, ?s) = (k1, s1)" by fastforce
  note e = end_group_effect[OF g]
  then obtain log where log: "su_log s1 = su_log ?s @ log"
    "signals log = [Signalled False] \<and> GroupGone \<in> set log \<or> signals log = [Signalled False, Signalled True]" by blast
  have found: "Signalled True \<in> set (su_log s1) \<or> GroupGone \<in> set (su_log s1)"
    using log in_signals[of True log] by auto
  have c: "cleaned status (wait_for_cleanup deadline (k1, s1)) = ((k', s'), r)"
    using assms(1) g by (simp add: finalize_after_exit_def on_supervision_def)
  have "cleanup_confirmed s' r \<and> only_looked s1 s'"
    by (rule cleaned_confirmed[OF c]) (use e assms(2) found in \<open>auto simp: start_cancelling_def drop_input_def\<close>)
  moreover from this obtain seen where "su_log s' = su_log s1 @ seen" "signals seen = []" by (auto simp: only_looked_def)
  ultimately show ?thesis
    using e log by (auto simp: start_cancelling_def drop_input_def only_looked_def intro!: exI[of _ "log @ seen"])
qed

lemma abort_effect:
  assumes "abort_process deadline (k, s) = ((k', s'), r)"
  shows "cleanup_confirmed s' r \<and> \<not> su_input_open s' \<and> su_cancelling s' \<and>
    (\<exists>log. su_log s' = su_log s @ log \<and> signals log \<in> {[Signalled False], [Signalled False, Signalled True]})"
proof -
  let ?s = "start_cancelling (drop_input s)"
  obtain k1 s1 where g: "end_group deadline (k, ?s) = (k1, s1)" by fastforce
  note e = end_group_effect[OF g]
  then obtain log where log: "su_log s1 = su_log ?s @ log"
    "signals log = [Signalled False] \<and> GroupGone \<in> set log \<or> signals log = [Signalled False, Signalled True]" by blast
  obtain k2 s2 d where m: "midpoint_deadline deadline (k1, s1) = ((k2, s2), d)" by (metis prod.exhaust)
  have s2: "s2 = s1" by (rule clock_steps(1)[OF m])
  obtain k3 s3 found where p: "poll_until look_reaped d (k2, s2) = ((k3, s3), found)" by (metis prod.exhaust)
  have l: "only_looked s2 s3 \<and> (case found of None \<Rightarrow> True | Some a \<Rightarrow> \<exists>s0. only_looked s2 s0 \<and> look_reaped s0 = (s3, Some a))"
    by (rule poll_until_looked[OF _ p]) (rule looks(2))
  then obtain seen where seen: "su_log s3 = su_log s1 @ seen" "signals seen = []" by (auto simp: only_looked_def s2)
  have ended: "Signalled True \<in> set (su_log s3) \<or> GroupGone \<in> set (su_log s3)"
    using log in_signals[of True log] seen by auto
  have flags: "\<not> su_input_open s3" "su_cancelling s3"
    using l e s2 by (auto simp: start_cancelling_def drop_input_def only_looked_def)
  have signalled: "\<exists>log. su_log s'' = su_log s @ log \<and> signals log \<in> {[Signalled False], [Signalled False, Signalled True]}"
    if more: "su_log s'' = su_log s3 @ more" "signals more = []" for s'' more
    using log seen that by (auto simp: start_cancelling_def drop_input_def intro!: exI[of _ "log @ seen @ more"])
  show ?thesis
  proof (cases found)
    case None
    then have "s' = s3" "r = Err CleanupDeadlineExceeded"
      using assms g m p by (auto simp: abort_process_def on_supervision_def reap_after_termination_def)
    then show ?thesis using ended flags signalled[of s3 "[]"] by (simp add: cleanup_confirmed_def)
  next
    case (Some status)
    then have c: "cleaned status (wait_for_cleanup deadline (k3, s3)) = ((k', s'), r)"
      using assms g m p by (simp add: abort_process_def on_supervision_def reap_after_termination_def)
    have "su_observed s3 = Some status"
      using l Some by (auto simp: look_reaped_def look_status_def split: option.splits list.splits)
    from cleaned_confirmed[OF c flags this ended] have done_: "cleanup_confirmed s' r" "only_looked s3 s'" by simp_all
    then obtain more where "su_log s' = su_log s3 @ more" "signals more = []" by (auto simp: only_looked_def)
    from signalled[OF this] show ?thesis using done_ flags by (simp add: only_looked_def)
  qed
qed

text \<open>The last resort of \<open>finish\<close>: force, reap, clean up.\<close>

lemma forced_effect:
  assumes "poll_until look_reaped d (k, s) = ((k1, s1), found)"
    and "(case found of Some status \<Rightarrow> cleaned status (wait_for_cleanup deadline (k1, s1)) | None \<Rightarrow> ((k1, s1), Err CleanupDeadlineExceeded)) =
      ((k', s'), r)"
    and "\<not> su_input_open s" "su_cancelling s" "Signalled True \<in> set (su_log s)"
  shows "cleanup_confirmed s' r \<and> only_looked s s'"
proof -
  have l: "only_looked s s1 \<and> (case found of None \<Rightarrow> True | Some a \<Rightarrow> \<exists>s0. only_looked s s0 \<and> look_reaped s0 = (s1, Some a))"
    by (rule poll_until_looked[OF _ assms(1)]) (rule looks(2))
  have forced: "Signalled True \<in> set (su_log s1)" using l assms(5) by (auto simp: only_looked_def)
  show ?thesis
  proof (cases found)
    case None
    then show ?thesis using assms(2) l forced by (auto simp: cleanup_confirmed_def)
  next
    case (Some status)
    then have c: "cleaned status (wait_for_cleanup deadline (k1, s1)) = ((k', s'), r)" using assms(2) by simp
    have "su_observed s1 = Some status"
      using l Some by (auto simp: look_reaped_def look_status_def split: option.splits list.splits)
    then have "cleanup_confirmed s' r \<and> only_looked s1 s'"
      using l assms(3,4) forced by (intro cleaned_confirmed[OF c]) (auto simp: only_looked_def)
    then show ?thesis using l only_looked_trans by blast
  qed
qed

lemma wait_for_status_effect:
  assumes "wait_for_status d (k, s) = ((k', s'), found)"
  shows "only_looked s s' \<and> (\<forall>status. found = Some status \<longrightarrow> su_observed s' = Some status)"
proof -
  have "only_looked s s' \<and> (case found of None \<Rightarrow> True | Some a \<Rightarrow> \<exists>s0. only_looked s s0 \<and> look_status s0 = (s', Some a))"
    by (rule poll_until_looked[OF _ assms[unfolded wait_for_status_def]]) (rule looks(1))
  then show ?thesis by (auto simp: look_status_def split: option.splits list.splits)
qed

text \<open>
  C40: A cleanup that reports success is confirmed. However the process, its group, the workers and the
  clock behave, and whether the session ends gracefully or is aborted: the result is the status with
  which the child was reaped, the last things seen are that the process group is gone and that all workers
  were joined, stdin is closed and the transport cancelled. The group is always asked to end before it is
  forced. A cleanup that fails has forced the group or seen it gone, or a worker panicked.
\<close>

theorem cleanup_is_confirmed:
  assumes "finish_process graceful_deadline deadline (k, s) = ((k', s'), r) \<or> abort_process deadline (k, s) = ((k', s'), r)"
    and "su_log s = []"
  shows "cleanup_confirmed s' r \<and> \<not> su_input_open s' \<and> su_cancelling s' \<and> escalated (su_log s')"
  using assms(1)
proof
  assume "abort_process deadline (k, s) = ((k', s'), r)"
  from abort_effect[OF this] show ?thesis using assms(2) by (auto simp: escalated_def)
next
  assume f: "finish_process graceful_deadline deadline (k, s) = ((k', s'), r)"
  obtain k1 s1 found where w: "wait_for_status graceful_deadline (k, drop_input s) = ((k1, s1), found)" by (metis prod.exhaust)
  note l1 = wait_for_status_effect[OF w]
  then obtain seen1 where s1: "su_log s1 = seen1" "signals seen1 = []" "\<not> su_input_open s1"
    using assms(2) by (auto simp: only_looked_def drop_input_def)
  show ?thesis
  proof (cases found)
    case (Some status)
    have "finalize_after_exit status deadline (k1, s1) = ((k', s'), r)"
      using f w Some by (simp add: finish_process_def on_supervision_def)
    from finalize_effect[OF this] show ?thesis using l1 Some s1 by (auto simp: escalated_def)
  next
    case waited: None
    obtain k2 s2 d where m: "midpoint_deadline deadline (k1, terminate_child False s1) = ((k2, s2), d)" by (metis prod.exhaust)
    have s2: "s2 = terminate_child False s1" by (rule clock_steps(1)[OF m])
    obtain k3 s3 found' where w3: "wait_for_status d (k2, s2) = ((k3, s3), found')" by (metis prod.exhaust)
    note l3 = wait_for_status_effect[OF w3]
    then obtain seen3 where s3: "su_log s3 = (seen1 @ [Signalled False]) @ seen3" "signals seen3 = []" "\<not> su_input_open s3"
      using s1 s2 by (auto simp: only_looked_def terminate_child_def)
    show ?thesis
    proof (cases found')
      case (Some status)
      have "finalize_after_exit status deadline (k3, s3) = ((k', s'), r)"
        using f w waited m w3 Some by (simp add: finish_process_def on_supervision_def)
      from finalize_effect[OF this] show ?thesis using l3 Some s1 s3 by (auto simp: escalated_def)
    next
      case None
      then have unknown: "wait_for_status d (k2, s2) = ((k3, s3), None)" using w3 by simp
      let ?s = "terminate_child True (start_cancelling s3)"
      obtain k4 s4 d' where m4: "midpoint_deadline deadline (k3, ?s) = ((k4, s4), d')" by (metis prod.exhaust)
      have s4: "s4 = ?s" by (rule clock_steps(1)[OF m4])
      obtain k5 s5 found5 where p: "poll_until look_reaped d' (k4, s4) = ((k5, s5), found5)" by (metis prod.exhaust)
      have "(case found5 of Some status \<Rightarrow> cleaned status (wait_for_cleanup deadline (k5, s5)) | None \<Rightarrow> ((k5, s5), Err CleanupDeadlineExceeded)) =
          ((k', s'), r)"
        using f by (simp add: finish_process_def on_supervision_def reap_after_termination_def w waited m unknown m4 p
            split: option.splits)
      from forced_effect[OF p this] have "cleanup_confirmed s' r \<and> only_looked s4 s'"
        using s3 s4 by (simp add: terminate_child_def start_cancelling_def)
      then show ?thesis
        using s1 s3 s4 by (auto simp: only_looked_def terminate_child_def start_cancelling_def escalated_def)
    qed
  qed
qed

section \<open>A run\<close>

text \<open>A child that exits by itself, in a group that is gone at once.\<close>

definition orderly_child :: Supervision where
  "orderly_child =
     \<lparr>su_input_open = True, su_cancelling = False, su_observed = None, su_finished = False, su_joined = False, su_log = [],
      su_reports = [Some 0], su_try_wait = [], su_group_gone = [True, True], su_workers_finished = [True], su_panicked = None\<rparr>"

lemma cleanup_is_confirmed_witness:
  "\<exists>k' s'. finish_process 5 10 (\<lparr>ck_now = 0, ck_ticks = [1]\<rparr>, orderly_child) = ((k', s'), Ok 0) \<and>
     cleanup_confirmed s' (Ok 0) \<and> escalated (su_log s')"
proof -
  have "\<exists>k' s'. finish_process 5 10 (\<lparr>ck_now = 0, ck_ticks = [1]\<rparr>, orderly_child) = ((k', s'), Ok 0)"
    by (simp add: finish_process_def orderly_child_def on_supervision_def drop_input_def wait_for_status_def
        poll_until.simps look_status_def finalize_after_exit_def start_cancelling_def end_group_def terminate_child_def
        bounded_grace_deadline_def clock_now_def wait_for_process_group_exit_def look_group_def wait_for_cleanup_def
        look_cleanup_def look_workers_def join_workers_until_def look_join_def cleaned_def)
  then obtain k' s' where run: "finish_process 5 10 (\<lparr>ck_now = 0, ck_ticks = [1]\<rparr>, orderly_child) = ((k', s'), Ok 0)" by blast
  from cleanup_is_confirmed[OF disjI1, OF run] run show ?thesis by (auto simp: orderly_child_def)
qed

text \<open>A source with an ordinary fault, a resource fault and an exit.\<close>

definition busy_source :: EventSource where
  "busy_source =
     \<lparr>es_completions = [FaultCompletion \<lparr>pf_worker = StderrWorker, pf_kind = IoFault ''Other'' ''''\<rparr>,
        FaultCompletion \<lparr>pf_worker = StdoutWorker, pf_kind = QueueLimit ''inbound'' 9 8\<rparr>, ExitedCompletion 1],
      es_stdout = [StdoutEnd], es_pending_faults = [], es_pending_stdin_closed = False, es_observed_status = None,
      es_exit_event_delivered = False, es_inbound_budget = new_budget 8, es_try_wait = []\<rparr>"

lemma ready_events_follow_precedence_witness:
  "\<exists>s'. take_event busy_source = (s', Some (FaultEvent \<lparr>pf_worker = StdoutWorker, pf_kind = QueueLimit ''inbound'' 9 8\<rparr>)) \<and>
     resources_first (es_pending_faults s') \<and> size (ready_faults s') = 1"
proof -
  have run: "\<exists>s'. take_event busy_source = (s', Some (FaultEvent \<lparr>pf_worker = StdoutWorker, pf_kind = QueueLimit ''inbound'' 9 8\<rparr>))"
    by (simp add: take_event_def busy_source_def or_else_def take_resource_fault_def)
  then obtain s' where s': "take_event busy_source = (s', Some (FaultEvent \<lparr>pf_worker = StdoutWorker, pf_kind = QueueLimit ''inbound'' 9 8\<rparr>))"
    by blast
  have "resources_first (es_pending_faults busy_source)" by (simp add: busy_source_def resources_first_def)
  from ready_events_follow_precedence[OF s' this] have "resources_first (es_pending_faults s')"
    "ready_faults busy_source = ready_faults s' + {#\<lparr>pf_worker = StdoutWorker, pf_kind = QueueLimit ''inbound'' 9 8\<rparr>#}"
    by simp_all
  moreover have "size (ready_faults busy_source) = 2" by (simp add: ready_faults_def busy_source_def)
  ultimately show ?thesis using s' by simp
qed

end
