(* ===== verification/Spec2Isabelle.thy ===== *)
theory Spec2Isabelle
  imports Planner Control_Lock Transaction_Safety Symbols Selection_Protocol Preview Lsp_Session Lsp_Process
begin

text \<open>
  srcmv moves and copies exact source ranges between files of a workspace. A batch of operations is
  read from a request, planned against a snapshot of the files it names, reviewed, bound by a digest,
  and committed as a transaction that survives crashes; language servers locate the symbols that a
  request may select. This development models the Rust crates under \<open>crates/\<close> in Isabelle/HOL and
  proves what makes them correct.

  \<^bold>\<open>Parts and their theories.\<close>

  The core crate (\<open>srcmv-core\<close>) is free of effects.
    \<^item> \<open>Domain\<close> holds its data (\<open>lib.rs\<close>): batches, snapshots, plans, budgets and errors, one record per
      structure and one datatype per enumeration, in the order of the source.
    \<^item> \<open>Line_Metrics\<close> is \<open>line_metrics.rs\<close>: \<open>next_terminator_end\<close>, the line index
      (\<open>from_bytes_with_limits\<close>, \<open>line_start\<close>, \<open>line_end\<close>) and the composable metrics
      (\<open>try_append_bytes\<close>, \<open>try_append\<close>), against \<open>split_lines\<close>, the list of logical lines.
    \<^item> \<open>Planner_Edits\<close> and \<open>Planner\<close> are \<open>planner.rs\<close>: selectors and anchors, conflicts, the recipe of an
      output as a sweep over its edit points, and the loop \<open>plan\<close> with its accounting. The specification
      of an output is \<open>apply_edits\<close>, which says for every byte position what becomes of it.
    \<^item> \<open>Plan_Hash\<close> is \<open>plan_hash.rs\<close>: the canonical CBOR record of a plan, read back uniquely.

  The filesystem crate (\<open>srcmv-fs\<close>) acquires snapshots and runs transactions.
    \<^item> \<open>Fs_Types\<close> holds its errors; \<open>Snapshot\<close> is the acquisition of \<open>lib.rs\<close>: paths, bounded stable reads,
      aliases and limits.
    \<^item> \<open>Journal\<close> is \<open>journal.rs\<close>: manifests, states, the record envelope and the append-only journal
      (\<open>TransactionJournal\<close>), whose publications are a step relation.
    \<^item> \<open>Control\<close> and \<open>Control_Lock\<close> are \<open>control.rs\<close>: the scan that reads every transaction directory back, the
      gate, directory allocation, cleanup and the two locks.
    \<^item> \<open>Recovery_Classifier\<close> is \<open>recovery_classifier.rs\<close>, with the protocol of one target as a step relation.
    \<^item> \<open>Transaction\<close> is \<open>transaction.rs\<close>: candidates, commit, rollback and recovery. Every system call may
      fail, and an operation returns the state it leaves, so a crash at any point is a state of the model;
      \<open>Transaction_Safety\<close> proves what holds of all of them.

  The protocol crate (\<open>srcmv-protocol\<close>) and the command line (\<open>srcmv-cli\<close>) speak to the caller.
    \<^item> \<open>Protocol\<close> is \<open>lib.rs\<close> of the protocol crate: the registry of errors, the conversion of requests into
      batches, the responses and the escaping of terminal text. \<open>Selection_Protocol\<close> holds
      \<open>selection.rs\<close>, \<open>outline.rs\<close> and \<open>selection_capabilities.rs\<close>, with the writer that bounds a line.
    \<^item> \<open>Diff\<close> and \<open>Preview\<close> are \<open>preview.rs\<close>: chunked evaluation of a recipe, the bounded diff, the review of a
      plan, the response budget and the human report.

  The language-server crate (\<open>srcmv-lsp\<close>) finds symbols.
    \<^item> \<open>Utf8\<close> and \<open>Position\<close> (\<open>position.rs\<close>) convert between the positions of a server and bytes.
    \<^item> \<open>Json_Rpc\<close> is \<open>jsonrpc.rs\<close>: framing, envelopes and the correlation of responses.
    \<^item> \<open>Symbols\<close> is \<open>symbols.rs\<close>: the normalization of document symbols and the queries on them.
    \<^item> \<open>Server_Config\<close> is \<open>config.rs\<close>: the user configuration and the resolution of a server.
    \<^item> \<open>Lsp_Transport\<close> is \<open>transport.rs\<close>: messages over a supervised process.
    \<^item> \<open>Lsp_Session\<close> is \<open>session.rs\<close> and \<open>capabilities.rs\<close>: the three phases of a session, the answers to requests of the
      server, deadlines and cleanup.
    \<^item> \<open>Lsp_Process\<close> holds the sequential parts of \<open>process.rs\<close>: byte budgets, the tail of the diagnostics, the
      precedence of events, and the signals, waits and joins that end a process group.

  The prelude (\<open>Prelude\<close>) holds what all share: results as sums, \<open>and_then\<close> for the question mark,
  \<open>try_fold\<close> for loops that may fail, the checked arithmetic of \<open>u64\<close>, and \<open>BTreeMap\<close> as a sorted list behind
  the locale \<open>ordered_map\<close>.

  \<^bold>\<open>How they interact.\<close> \<open>parse_request\<close> (\<open>Protocol\<close>) gives the batch of \<open>Domain\<close> that \<open>plan\<close> (\<open>Planner\<close>) resolves against
  the snapshot of \<open>Snapshot\<close>, using the line index of \<open>Line_Metrics\<close>. \<open>Plan_Hash\<close> and \<open>Preview\<close> read the plan;
  \<open>Transaction\<close> writes its outputs through the journal of \<open>Journal\<close>, inside the directories of \<open>Control\<close>, and asks
  \<open>Recovery_Classifier\<close> what an interrupted transaction may do. \<open>Server_Config\<close> gives the process that \<open>Lsp_Transport\<close>
  supervises; its decoder, envelopes and identifiers are those of \<open>Json_Rpc\<close>. \<open>Lsp_Session\<close> runs a conversation on it, and \<open>Symbols\<close>
  turns the answer of the server into byte ranges with the converter of \<open>Position\<close>.

  \<^bold>\<open>Representation.\<close> A \<open>u8\<close> is an 8-bit word; \<open>u64\<close> and \<open>usize\<close> (64 bits) are natural numbers with the checked or
  saturating operations of the prelude wherever the source uses them, so an overflow is a branch of the model. A
  \<open>String\<close> is the character list of its UTF-8 bytes, so lengths and orders are those of the source. Errors
  are \<open>Inl\<close>. Code outside the repository is a parameter: SHA-256, the parsers and printers of JSON and TOML, the
  sizes of Rust types, and the answers of the operating system, given call by call so that a file or a process
  may do anything between two calls. A theorem that needs a law of such code names it as a hypothesis
  and has a witness.

  \<^bold>\<open>Groups of lemmas.\<close> For the planner: refinement of \<open>apply_edits\<close>, conservation of bytes, freedom from
  conflicts, budgets, and the digest as a binding of the plan. For snapshots: exactness, stability of
  reads, limits. For transactions: the journal is append-only and monotone, every crash point is classified,
  originals survive every crash, commit and rollback are exact. For the control tree: what is written is read
  back, and the gate and the locks admit only a clean tree. For the protocols: requests are accepted exactly,
  responses respect their limits, terminal text is safe. For language servers: frames round-trip under every
  chunking, identifiers are answered once, positions and symbols are exact, configured programs are
  trusted, messages arrive in order, a successful
  session is exactly its script, every session cleans its process up,
  events follow their precedence, and a cleanup that succeeds is confirmed. The defects found are theorems too: a truncated temporary blocks recovery, an
  oversized transaction is never cleaned, an interrupted rollback is refused.

  \<^bold>\<open>Termination, bounds and fuel.\<close> No definition uses fuel. The loop of the frame decoder (\<open>push_loop\<close>) is a partial function that is
  proved to return on every chunk; other loops that are not structural have measures:
  the bytes or read answers that remain (\<open>next_terminator_end\<close>, \<open>read_header\<close>), the symbols still pending (\<open>normalize_loop\<close>), the events that the
  environment still has (\<open>drain_loop\<close>, \<open>incoming_loop\<close>), the messages a session may still hear (\<open>await_response\<close>), the time left (\<open>poll_until\<close>). An environment offers finitely many events; when they are
  used up a wait ends at its deadline, so every finite run of the program is a run of the model. The limits
  of the source (journal records, states, nesting, bytes) are definitions with its values.

  \<^bold>\<open>Not modelled.\<close>
    \<^item> The worker threads, channels, pipes and system calls of \<open>process.rs\<close>: what they do between two steps of the
      orchestrating thread is an answer of the environment of \<open>Lsp_Transport\<close> and \<open>Lsp_Process\<close>. The two are not
      composed: \<open>Lsp_Transport\<close> assumes nothing of the events it is given.
    \<^item> Argument parsing, standard streams and the dispatch of commands in \<open>srcmv-cli\<close> (\<open>lib.rs\<close>, \<open>main.rs\<close>,
      \<open>select.rs\<close>, \<open>outline.rs\<close>): glue between the modelled parts and the \<open>clap\<close> crate.
    \<^item> The code that \<open>serde\<close> derives, and the \<open>Debug\<close> and most \<open>Display\<close> instances: generated or diagnostic only.
    \<^item> Opening the workspace root, the capture of the umask and the detection of the kind of a filesystem: single
      system calls without logic.
    \<^item> The dispatch of commit and recovery over locks in \<open>transaction.rs\<close>; its parts are modelled one by one.
    \<^item> Everything in \<open>srcmv-test-support\<close> and the unit tests: test doubles.
\<close>

end
